(* ===== verification/Prelude.thy ===== *)
theory Prelude
  imports Main "HOL-Library.Word"
begin

text \<open>
  Shared vocabulary of the development: the result type of fallible code, partial updates of
  functions used as dictionaries, and insertion-ordered JavaScript maps.

  A TypeScript function that throws is a function into \<open>'e + 'a\<close>: \<open>Inl\<close> carries the error,
  \<open>Inr\<close> the value.  A JavaScript \<open>Map\<close> whose iteration order is observable is an association
  list without duplicate keys; one that is only looked up is a partial function.
\<close>

unbundle bit_operations_syntax

named_theorems js_simps \<open>unfolding rules of the JavaScript library model\<close>
named_theorems inv_defs \<open>definitions of the components' invariants\<close>

section \<open>Results\<close>

type_synonym ('e, 'a) result = "'e + 'a"

definition rbind :: "('e, 'a) result \<Rightarrow> ('a \<Rightarrow> ('e, 'b) result) \<Rightarrow> ('e, 'b) result" where
  "rbind m f = (case m of Inl e \<Rightarrow> Inl e | Inr x \<Rightarrow> f x)"

lemma rbind_simps [simp]:
  "rbind (Inl e) f = Inl e"
  "rbind (Inr x) f = f x"
  by (simp_all add: rbind_def)

lemma rbind_eq_Inr: "rbind m f = Inr y \<longleftrightarrow> (\<exists>x. m = Inr x \<and> f x = Inr y)"
  by (cases m) auto

lemma rbind_eq_Inl: "rbind m f = Inl e \<longleftrightarrow> m = Inl e \<or> (\<exists>x. m = Inr x \<and> f x = Inl e)"
  by (cases m) auto

definition is_ok :: "('e, 'a) result \<Rightarrow> bool" where
  "is_ok r = (case r of Inl _ \<Rightarrow> False | Inr _ \<Rightarrow> True)"

lemma is_ok_simps [simp]: "is_ok (Inr x)" "\<not> is_ok (Inl e)"
  by (simp_all add: is_ok_def)

fun map_result :: "('a \<Rightarrow> ('e, 'b) result) \<Rightarrow> 'a list \<Rightarrow> ('e, 'b list) result" where
  "map_result f [] = Inr []"
| "map_result f (x # xs) =
     rbind (f x) (\<lambda>y. rbind (map_result f xs) (\<lambda>ys. Inr (y # ys)))"

lemma map_result_ok: "(\<And>x. x \<in> set xs \<Longrightarrow> f x = Inr (g x)) \<Longrightarrow> map_result f xs = Inr (map g xs)"
  by (induction xs) auto

lemma map_result_length: "map_result f xs = Inr ys \<Longrightarrow> length ys = length xs"
  by (induction xs arbitrary: ys) (auto simp: rbind_eq_Inr)

section \<open>Insertion-ordered maps\<close>

text \<open>
  \<open>Map.prototype.set\<close> keeps the position of a key that is present and appends a new one;
  \<open>delete\<close> removes the entry; iteration follows insertion order.
\<close>

fun jm_set :: "'k \<Rightarrow> 'v \<Rightarrow> ('k \<times> 'v) list \<Rightarrow> ('k \<times> 'v) list" where
  "jm_set k v [] = [(k, v)]"
| "jm_set k v ((k', v') # m) = (if k' = k then (k, v) # m else (k', v') # jm_set k v m)"

definition jm_delete :: "'k \<Rightarrow> ('k \<times> 'v) list \<Rightarrow> ('k \<times> 'v) list" where
  "jm_delete k m = filter (\<lambda>p. fst p \<noteq> k) m"

abbreviation jm_get :: "('k \<times> 'v) list \<Rightarrow> 'k \<Rightarrow> 'v option" where
  "jm_get m k \<equiv> map_of m k"

abbreviation jm_keys :: "('k \<times> 'v) list \<Rightarrow> 'k list" where
  "jm_keys m \<equiv> map fst m"

lemma jm_get_set [simp]: "jm_get (jm_set k v m) = (map_of m)(k \<mapsto> v)"
  by (induction m) (auto simp: fun_eq_iff)

lemma jm_get_delete [simp]: "jm_get (jm_delete k m) = (map_of m)(k := None)"
  by (induction m) (auto simp: jm_delete_def fun_eq_iff)

lemma jm_keys_set: "set (jm_keys (jm_set k v m)) = insert k (set (jm_keys m))"
  by (induction k v m rule: jm_set.induct) (simp_all add: insert_commute)

lemma jm_set_entries: "p \<in> set (jm_set k v m) \<Longrightarrow> p = (k, v) \<or> p \<in> set m"
  by (induction m) (auto split: if_splits)

lemma jm_distinct_set [intro]: "distinct (jm_keys m) \<Longrightarrow> distinct (jm_keys (jm_set k v m))"
proof (induction k v m rule: jm_set.induct)
  case (2 k v k' v' m)
  then show ?case using jm_keys_set [of k v m] by auto
qed simp

lemma jm_distinct_delete [intro]: "distinct (jm_keys m) \<Longrightarrow> distinct (jm_keys (jm_delete k m))"
  by (induction m) (auto simp: jm_delete_def)

end
