(* ===== verification/JSNumber.thy ===== *)
theory JSNumber
  imports Complex_Main Prelude "HOL-Library.Log_Nat"
begin

text \<open>
  JavaScript's \<open>number\<close> arithmetic.  An IEEE-754 binary64 operation is the exact operation
  followed by rounding to the nearest number with a 53-bit significand, ties to even.  Values are
  rationals and \<open>fl\<close> is that rounding, so \<open>a / b\<close> of the source is \<open>fl (a / b)\<close>.  The model
  covers finite values of the normal exponent range: \<open>NaN\<close>, the infinities, signed zero and
  subnormals are outside it, and the components that divide guard or bound their divisors.

  The lemmas say what the components rely on: \<open>fl\<close> is exact on dyadic values with a significand
  of at most 53 bits (all counts and millisecond clocks), monotone, odd, and has relative error
  at most \<open>2^-53\<close>.
\<close>

section \<open>Rounding to 53 bits\<close>

definition round_half_even :: "rat \<Rightarrow> int" where
  "round_half_even x =
     (let f = \<lfloor>x\<rfloor>; d = x - of_int f in
      if d < 1/2 then f else if d > 1/2 then f + 1 else if even f then f else f + 1)"

definition fexp :: "rat \<Rightarrow> int" where
  "fexp x =
     (let (a, b) = quotient_of \<bar>x\<bar>; e = bitlen a - bitlen b in
      if 2 powi e \<le> \<bar>x\<bar> then e else e - 1)"

definition fl :: "rat \<Rightarrow> rat" where
  "fl x = (if x = 0 then 0
           else let u = 2 powi (fexp x - 52) in of_int (round_half_even (x / u)) * u)"

definition jsadd :: "rat \<Rightarrow> rat \<Rightarrow> rat" where "jsadd a b = fl (a + b)"
definition jssub :: "rat \<Rightarrow> rat \<Rightarrow> rat" where "jssub a b = fl (a - b)"
definition jsmul :: "rat \<Rightarrow> rat \<Rightarrow> rat" where "jsmul a b = fl (a * b)"
definition jsdiv :: "rat \<Rightarrow> rat \<Rightarrow> rat" where "jsdiv a b = fl (a / b)"

text \<open>\<open>xs.reduce((a, b) => a + b, 0)\<close> and \<open>Math.round\<close> (ties towards plus infinity).\<close>

definition js_sum :: "rat list \<Rightarrow> rat" where "js_sum xs = foldl jsadd 0 xs"
definition math_round :: "rat \<Rightarrow> int" where "math_round x = \<lfloor>x + 1/2\<rfloor>"

section \<open>Rounding lemmas\<close>

lemma round_half_even_of_int [simp]: "round_half_even (of_int n) = n"
  by (simp add: round_half_even_def)

lemma round_half_even_cases: "round_half_even x = \<lfloor>x\<rfloor> \<or> round_half_even x = \<lfloor>x\<rfloor> + 1"
  by (simp add: round_half_even_def Let_def)

lemma round_half_even_error: "\<bar>of_int (round_half_even x) - x\<bar> \<le> 1/2"
proof -
  have "of_int \<lfloor>x\<rfloor> \<le> x" "x < of_int \<lfloor>x\<rfloor> + 1" using floor_correct [of x] by simp_all
  then show ?thesis by (auto simp: round_half_even_def Let_def abs_le_iff)
qed

lemma round_half_even_mono:
  assumes "x \<le> y" shows "round_half_even x \<le> round_half_even y"
proof (cases "\<lfloor>x\<rfloor> = \<lfloor>y\<rfloor>")
  case True
  with assms show ?thesis by (auto simp: round_half_even_def Let_def)
next
  case False
  with floor_mono [OF assms] have "\<lfloor>x\<rfloor> + 1 \<le> \<lfloor>y\<rfloor>" by simp
  then show ?thesis using round_half_even_cases [of x] round_half_even_cases [of y] by auto
qed

lemma round_half_even_minus: "round_half_even (- x) = - round_half_even x"
proof (cases "x \<in> \<int>")
  case True
  then obtain n where "x = of_int n" by (auto elim: Ints_cases)
  then show ?thesis by (metis of_int_minus round_half_even_of_int)
next
  case False
  have up: "\<lceil>x\<rceil> = \<lfloor>x\<rfloor> + 1"
    using False by (simp add: ceiling_altdef) (metis Ints_of_int)
  then have f: "\<lfloor>- x\<rfloor> = - \<lfloor>x\<rfloor> - 1" by (simp add: floor_minus)
  show ?thesis by (auto simp: round_half_even_def Let_def f)
qed

section \<open>The exponent\<close>

lemma fexp_bounds:
  assumes "x \<noteq> 0"
  shows "2 powi fexp x \<le> \<bar>x\<bar>" and "\<bar>x\<bar> < 2 powi (fexp x + 1)"
proof -
  obtain a b where q: "quotient_of \<bar>x\<bar> = (a, b)" by fastforce
  then have b: "0 < b" and x: "\<bar>x\<bar> = of_int a / of_int b"
    using quotient_of_denom_pos quotient_of_div by blast+
  have "0 < rat_of_int a / rat_of_int b" using assms x by (metis zero_less_abs_iff)
  with b have a: "0 < a" by (simp add: zero_less_divide_iff)
  define i j where "i = nat (bitlen a - 1)" and "j = nat (bitlen b - 1)"
  have bl: "bitlen a = int i + 1" "bitlen b = int j + 1"
    using a b by (simp_all add: i_def j_def bitlen_alt_def)
  have "2 ^ i \<le> a \<and> a < 2 ^ Suc i" "2 ^ j \<le> b \<and> b < 2 ^ Suc j"
    using bitlen_bounds [OF a] bitlen_bounds [OF b] bl by (simp_all add: nat_add_distrib)
  then have ab: "(2::rat) ^ i \<le> of_int a" "of_int a < (2::rat) ^ Suc i"
      "(2::rat) ^ j \<le> of_int b" "of_int b < (2::rat) ^ Suc j"
    by (metis of_int_le_iff of_int_less_iff of_int_numeral of_int_power)+
  have bp: "(0::rat) < of_int b" using b by simp
  have e1: "(2::rat) powi (bitlen a - bitlen b) = 2 ^ i / 2 ^ j"
    by (simp add: bl power_int_diff)
  have lo: "2 ^ i / 2 ^ j / 2 \<le> \<bar>x\<bar>"
  proof -
    have "(2::rat) ^ i / 2 ^ Suc j \<le> of_int a / of_int b"
      using ab bp a by (intro frac_le) auto
    then show ?thesis by (simp add: x field_simps)
  qed
  have hi: "\<bar>x\<bar> < 2 * (2 ^ i / 2 ^ j)"
  proof -
    have "of_int a / of_int b < (2::rat) ^ Suc i / 2 ^ j"
      using frac_less [of "of_int a" "2 ^ Suc i" "2 ^ j" "of_int b"] ab a by simp
    then show ?thesis by (simp add: x)
  qed
  have m1: "(2::rat) powi (bitlen a - bitlen b - 1) = 2 ^ i / 2 ^ j / 2"
    by (simp add: bl power_int_diff)
  have p1: "(2::rat) powi (bitlen a - bitlen b + 1) = 2 * (2 ^ i / 2 ^ j)"
    by (simp add: bl power_int_diff power_int_add)
  show "2 powi fexp x \<le> \<bar>x\<bar>" "\<bar>x\<bar> < 2 powi (fexp x + 1)"
    using lo hi by (auto simp: fexp_def q m1 p1 e1 Let_def)
qed

lemma powi_mono2: "m \<le> n \<Longrightarrow> (2::rat) powi m \<le> 2 powi n"
  by (rule power_int_increasing) auto

lemma powi_less_iff: "(2::rat) powi m < 2 powi n \<longleftrightarrow> m < n"
  using powi_mono2 [of n m] power_int_strict_increasing [of m n "2::rat"] by force

lemma fexp_unique:
  assumes "2 powi e \<le> \<bar>x\<bar>" "\<bar>x\<bar> < 2 powi (e + 1)"
  shows "fexp x = e"
proof -
  have "x \<noteq> 0" using assms(1) by (metis abs_zero not_less zero_less_numeral zero_less_power_int)
  note b = fexp_bounds [OF this]
  have "2 powi e < (2::rat) powi (fexp x + 1)" "2 powi fexp x < (2::rat) powi (e + 1)"
    using assms b by linarith+
  then show ?thesis by (simp add: powi_less_iff)
qed

lemma fexp_mono: "x \<noteq> 0 \<Longrightarrow> \<bar>x\<bar> \<le> \<bar>y\<bar> \<Longrightarrow> fexp x \<le> fexp y"
  using fexp_bounds [of x] fexp_bounds [of y] powi_less_iff [of "fexp x" "fexp y + 1"]
  by (cases "y = 0") auto

lemma fexp_minus [simp]: "fexp (- x) = fexp x"
  by (simp add: fexp_def)

section \<open>Properties of the rounding\<close>

lemma fl_0 [simp]: "fl 0 = 0"
  by (simp add: fl_def)

lemma fl_minus: "fl (- x) = - fl x"
  by (simp add: fl_def Let_def round_half_even_minus)

lemma fl_error: "\<bar>fl x - x\<bar> \<le> \<bar>x\<bar> * 2 powi (- 53)"
proof (cases "x = 0")
  case False
  define u where "u = (2::rat) powi (fexp x - 52)"
  have u: "0 < u" by (simp add: u_def)
  have "fl x - x = (of_int (round_half_even (x / u)) - x / u) * u"
    using False u by (simp add: fl_def u_def [symmetric] algebra_simps)
  then have "\<bar>fl x - x\<bar> = \<bar>of_int (round_half_even (x / u)) - x / u\<bar> * u"
    using u by (simp add: abs_mult)
  also have "\<dots> \<le> 1/2 * u"
    using round_half_even_error u by (intro mult_right_mono) auto
  also have "1/2 * u = 2 powi fexp x * 2 powi (- 53)"
    by (simp add: u_def power_int_diff power_int_minus)
  also have "\<dots> \<le> \<bar>x\<bar> * 2 powi (- 53)"
    using fexp_bounds(1) [OF False] by (intro mult_right_mono) auto
  finally show ?thesis .
qed simp

lemma fl_eqI: "x = of_int m * 2 powi (fexp x - 52) \<Longrightarrow> fl x = x"
  by (simp add: fl_def Let_def) (metis nonzero_mult_div_cancel_right power_int_eq_0_iff round_half_even_of_int zero_neq_numeral)

text \<open>
  Exactness: an integer multiple of a power of two whose significand fits 53 bits is a double.
\<close>

lemma fl_dyadic:
  assumes "\<bar>n\<bar> < 2 ^ 53"
  shows "fl (of_int n * 2 powi k) = of_int n * 2 powi k"
proof (cases "n = 0")
  case False
  let ?x = "of_int n * (2::rat) powi k"
  have x0: "?x \<noteq> 0" using False by simp
  have ax: "\<bar>?x\<bar> = of_int \<bar>n\<bar> * 2 powi k" by (simp add: abs_mult)
  have "of_int \<bar>n\<bar> < (2::rat) ^ 53"
    using assms by (metis of_int_less_iff of_int_numeral of_int_power)
  then have "\<bar>?x\<bar> < 2 ^ 53 * 2 powi k"
    unfolding ax by (rule mult_strict_right_mono) simp
  also have "\<dots> = (2::rat) powi (k + 53)" by (simp add: power_int_add)
  finally have "2 powi fexp ?x < (2::rat) powi (k + 53)"
    using fexp_bounds(1) [OF x0] by linarith
  then have "fexp ?x \<le> k + 52" by (simp only: powi_less_iff)
  then obtain j where j: "k + 52 - fexp ?x = int j" using zero_le_imp_eq_int by force
  have "k = fexp ?x - 52 + int j" using j by simp
  then have "(2::rat) powi k = 2 powi (fexp ?x - 52) * 2 ^ j"
    by (metis power_int_add power_int_of_nat zero_neq_numeral)
  then have "?x = of_int (n * 2 ^ j) * 2 powi (fexp ?x - 52)" by (simp add: mult.commute)
  then show ?thesis by (rule fl_eqI)
qed simp

lemma fl_of_int: "\<bar>n\<bar> < 2 ^ 53 \<Longrightarrow> fl (of_int n) = of_int n"
  using fl_dyadic [of n 0] by simp

lemma fl_of_nat: "n < 2 ^ 53 \<Longrightarrow> fl (of_nat n) = of_nat n"
  using fl_of_int [of "int n"] by simp

lemma fl_div_pow2: "n < 2 ^ 53 \<Longrightarrow> fl (of_nat n / 2 ^ k) = of_nat n / 2 ^ k"
  using fl_dyadic [of "int n" "- int k"] by (simp add: power_int_minus field_simps)

lemma fl_powi: "fl (2 powi k) = 2 powi k"
  using fl_dyadic [of 1 k] by simp

text \<open>Monotonicity: within a binade by \<open>round_half_even_mono\<close>, across binades by the power between.\<close>

lemma fl_bounds_pos:
  assumes "0 < x"
  shows "2 powi fexp x \<le> fl x" and "fl x \<le> 2 powi (fexp x + 1)"
proof -
  define u where "u = (2::rat) powi (fexp x - 52)"
  have u: "0 < u" by (simp add: u_def)
  have eq: "fl x = of_int (round_half_even (x / u)) * u"
    using assms by (simp add: fl_def u_def Let_def)
  have lo: "of_int (2 ^ 52) \<le> x / u" and hi: "x / u \<le> of_int (2 ^ 53)"
    using fexp_bounds [of x] assms u by (simp_all add: field_simps u_def power_int_diff power_int_add)
  have "2 ^ 52 \<le> round_half_even (x / u)" "round_half_even (x / u) \<le> 2 ^ 53"
    using round_half_even_mono [OF lo] round_half_even_mono [OF hi] by (simp_all only: round_half_even_of_int)
  then have r: "(2::rat) ^ 52 \<le> of_int (round_half_even (x / u))"
      "of_int (round_half_even (x / u)) \<le> (2::rat) ^ 53"
    by (metis of_int_le_iff of_int_numeral of_int_power)+
  have "2 ^ 52 * u \<le> fl x" "fl x \<le> 2 ^ 53 * u"
    unfolding eq using r u by (intro mult_right_mono; simp)+
  then show "2 powi fexp x \<le> fl x" "fl x \<le> 2 powi (fexp x + 1)"
    by (simp_all add: u_def power_int_diff power_int_add)
qed

lemma fl_mono_pos:
  assumes "0 < x" "x \<le> y" shows "fl x \<le> fl y"
proof (cases "fexp x = fexp y")
  case True
  define u where "u = (2::rat) powi (fexp y - 52)"
  have u: "0 < u" by (simp add: u_def)
  have "round_half_even (x / u) \<le> round_half_even (y / u)"
    using assms u by (intro round_half_even_mono divide_right_mono) auto
  then show ?thesis using assms True u by (simp add: fl_def u_def [symmetric])
next
  case False
  with fexp_mono [of x y] assms have "fexp x + 1 \<le> fexp y" by simp
  then have "(2::rat) powi (fexp x + 1) \<le> 2 powi fexp y" by (rule powi_mono2)
  then show ?thesis using fl_bounds_pos [of x] fl_bounds_pos [of y] assms by linarith
qed

lemma fl_nonneg: "0 \<le> x \<Longrightarrow> 0 \<le> fl x"
proof (cases "x = 0")
  case False
  moreover assume "0 \<le> x"
  ultimately have "(2::rat) powi fexp x \<le> fl x" by (intro fl_bounds_pos) auto
  moreover have "0 < (2::rat) powi fexp x" by simp
  ultimately show "0 \<le> fl x" by linarith
qed simp

lemma fl_mono: "x \<le> y \<Longrightarrow> fl x \<le> fl y"
proof -
  assume le: "x \<le> y"
  consider "0 < x" | "x \<le> 0" "0 \<le> y" | "y < 0" by linarith
  then show ?thesis
  proof cases
    case 1 then show ?thesis using le by (rule fl_mono_pos)
  next
    case 2 then show ?thesis using fl_nonneg [of y] fl_nonneg [of "- x"] by (simp add: fl_minus)
  next
    case 3 then show ?thesis using fl_mono_pos [of "- y" "- x"] le by (simp add: fl_minus)
  qed
qed

lemma fl_le_int: "x \<le> of_int n \<Longrightarrow> \<bar>n\<bar> < 2 ^ 53 \<Longrightarrow> fl x \<le> of_int n"
  using fl_mono [of x "of_int n"] by (simp add: fl_of_int)

lemma fl_ge_int: "of_int n \<le> x \<Longrightarrow> \<bar>n\<bar> < 2 ^ 53 \<Longrightarrow> of_int n \<le> fl x"
  using fl_mono [of "of_int n" x] by (simp add: fl_of_int)

text \<open>
  Rounding a quotient of two machine integers never loses the ceiling: the distance of
  \<open>p / t\<close> from the integer below is at least \<open>1 / t\<close>, more than the rounding error.
\<close>

lemma ceiling_fl_div:
  fixes p t :: nat
  assumes "0 < t" "p < 2 ^ 53"
  shows "\<lceil>fl (of_nat p / of_nat t)\<rceil> = \<lceil>(of_nat p / of_nat t :: rat)\<rceil>"
proof -
  define x where "x = (of_nat p / of_nat t :: rat)"
  define c where "c = \<lceil>x\<rceil>"
  have x0: "0 \<le> x" and xp: "x \<le> of_nat p"
    using assms(1) by (simp_all add: x_def divide_le_eq mult_le_cancel_left1)
  have c0: "0 \<le> c" using x0 by (simp add: c_def le_ceiling_iff)
  have cp: "c \<le> int p" using xp by (simp add: c_def ceiling_le_iff)
  have cb: "\<bar>c\<bar> < 2 ^ 53" using c0 cp assms(2) by (simp add: zless_nat_eq_int_zless)
  have "fl x \<le> of_int c" by (rule fl_le_int) (use cb in \<open>simp_all add: c_def\<close>)
  moreover have "of_int (c - 1) < fl x"
  proof (cases "x = 0")
    case True then show ?thesis by (simp add: c_def)
  next
    case False
    have "of_int (c - 1) < x" by (simp add: c_def) (meson less_ceiling_iff order_less_irrefl not_le ceiling_correct)
    then have "of_int ((c - 1) * int t) < (of_nat p :: rat)"
      using assms(1) by (simp add: x_def less_divide_eq)
    then have "(c - 1) * int t + 1 \<le> int p"
      by (metis of_int_less_iff of_int_of_nat_eq zless_imp_add1_zle)
    then have "(of_int (c - 1) * of_nat t + 1 :: rat) \<le> of_nat p"
      by (metis (mono_tags, lifting) of_int_1 of_int_add of_int_le_iff of_int_mult of_int_of_nat_eq)
    then have "(of_int (c - 1) * of_nat t + 1) / of_nat t \<le> x"
      unfolding x_def by (rule divide_right_mono) simp
    then have gap: "of_int (c - 1) + 1 / of_nat t \<le> x"
      using assms(1) by (simp add: add_divide_distrib)
    have "x * 2 powi (- 53) < 1 / of_nat t"
    proof -
      have "(of_nat p :: rat) < 2 ^ 53" using assms(2) by (metis of_nat_less_iff of_nat_numeral of_nat_power)
      then show ?thesis using assms(1) by (simp add: x_def power_int_minus field_simps)
    qed
    moreover have "\<bar>fl x - x\<bar> \<le> x * 2 powi (- 53)"
      using fl_error [of x] x0 by (simp only: abs_of_nonneg)
    ultimately show ?thesis using gap by linarith
  qed
  ultimately have "\<lceil>fl x\<rceil> = c" by (intro ceiling_unique) auto
  then show ?thesis by (simp add: x_def c_def)
qed

text \<open>A disturbance of at most a quarter ulp above an integer is rounded away.\<close>

lemma fl_absorb:
  fixes q :: nat
  assumes "0 < q" "q < 2 ^ 53" "0 \<le> d" "d \<le> of_nat q * 2 powi (- 54)"
  shows "fl (of_nat q + d) = of_nat q"
proof -
  define e where "e = fexp (of_nat q)"
  define u where "u = (2::rat) powi (e - 52)"
  define m where "m = int q * 2 ^ nat (52 - e)"
  have u: "0 < u" by (simp add: u_def)
  have q: "2 powi e \<le> (of_nat q :: rat)" "(of_nat q :: rat) < 2 powi (e + 1)"
    using fexp_bounds [of "of_nat q"] assms(1) by (simp_all add: e_def)
  have "(of_nat q :: rat) < of_nat (2 ^ 53)" unfolding of_nat_less_iff by (rule assms(2))
  then have "(2::rat) powi e < 2 powi 53" using q(1) by simp
  then have e: "e \<le> 52" by (simp only: powi_less_iff)
  have "of_int m = of_nat q * (2::rat) powi (52 - e)"
    using e by (simp add: m_def power_int_def)
  then have m: "of_nat q = of_int m * u"
    by (simp add: u_def power_int_diff field_simps)
  have top: "(2::rat) powi (e + 1) = 2 ^ 53 * u"
    by (simp add: u_def power_int_diff power_int_add)
  have "of_int m < (2::rat) ^ 53" using q(2) u unfolding m top by simp
  then have "of_int m < (of_int (2 ^ 53) :: rat)" by simp
  then have "m + 1 \<le> 2 ^ 53" unfolding of_int_less_iff by (rule zless_imp_add1_zle)
  then have "of_int (m + 1) \<le> (of_int (2 ^ 53) :: rat)" unfolding of_int_le_iff .
  then have m1: "(of_int m + 1 :: rat) \<le> 2 ^ 53" by simp
  have "(of_nat q :: rat) * 2 powi (- 54) < 2 powi (e + 1) * 2 powi (- 54)" using q(2) by simp
  also have "\<dots> = u / 2" by (simp add: u_def power_int_diff power_int_add power_int_minus)
  finally have d: "d < u / 2" using assms(4) by linarith
  have "of_nat q + d < 2 powi (e + 1)"
  proof -
    have "of_nat q + d < (of_int m + 1) * u" using d u by (simp add: m algebra_simps)
    also have "\<dots> \<le> 2 ^ 53 * u" using m1 u by (simp add: mult_right_mono)
    finally show ?thesis by (simp add: top)
  qed
  then have "fexp (of_nat q + d) = e"
    using q(1) assms(3) by (intro fexp_unique) auto
  moreover have "round_half_even ((of_nat q + d) / u) = m"
  proof -
    have "(of_nat q + d) / u = of_int m + d / u" using u by (simp add: m add_divide_distrib)
    moreover have "0 \<le> d / u" "d / u < 1/2" using d u assms(3) by (simp_all add: field_simps)
    ultimately have "\<lfloor>(of_nat q + d) / u\<rfloor> = m" by (simp add: floor_unique)
    with \<open>(of_nat q + d) / u = of_int m + d / u\<close> \<open>d / u < 1/2\<close> show ?thesis
      by (simp add: round_half_even_def Let_def)
  qed
  ultimately show ?thesis using assms(1,3) m by (simp add: fl_def u_def [symmetric] Let_def add_nonneg_eq_0_iff)
qed

end
