(* ===== verification/RingWindow.thy ===== *)
theory RingWindow
  imports Prelude
begin

text \<open>
  What the two ring buffers share.  First the circular window: \<open>n\<close> slots of a buffer read from
  position \<open>lo\<close> on, positions taken modulo the buffer's length.  Then the interface of a bounded
  FIFO queue as a locale: a client sees \<open>enq\<close> and \<open>deq\<close>, the provider promises what they do to the
  queue's contents, and the client's theorem is that any sequence of calls answers exactly as a
  list of at most \<open>cap\<close> elements does.
\<close>

section \<open>The circular window\<close>

definition window :: "'a list \<Rightarrow> int \<Rightarrow> nat \<Rightarrow> 'a list" where
  "window buf lo n = map (\<lambda>i. buf ! nat ((lo + int i) mod int (length buf))) [0..<n]"

lemma window_0 [simp]: "window buf lo 0 = []"
  by (simp add: window_def)

lemma length_window [simp]: "length (window buf lo n) = n"
  by (simp add: window_def)

lemma window_snoc:
  "window buf lo (Suc n) = window buf lo n @ [buf ! nat ((lo + int n) mod int (length buf))]"
  by (simp add: window_def)

lemma window_cons:
  "window buf lo (Suc n) = buf ! nat (lo mod int (length buf)) # window buf (lo + 1) n"
proof -
  have "[0..<Suc n] = 0 # map Suc [0..<n]" by (simp add: map_Suc_upt upt_conv_Cons)
  then show ?thesis by (simp add: window_def comp_def algebra_simps)
qed

lemma mod_inj_window:
  fixes lo :: int
  assumes "i < L" "j < L" "nat ((lo + int i) mod int L) = nat ((lo + int j) mod int L)"
  shows "i = j"
proof -
  have "0 < int L" using assms(1) by simp
  then have "(lo + int i) mod int L = (lo + int j) mod int L"
    using assms(3) by (metis eq_nat_nat_iff pos_mod_sign)
  then have "int L dvd (lo + int i) - (lo + int j)" by (rule mod_eq_dvd_iff [THEN iffD1])
  then have "int L dvd int i - int j" by simp
  moreover have "\<bar>int i - int j\<bar> < int L" using assms(1,2) by linarith
  ultimately show ?thesis using dvd_imp_le_int [of "int i - int j" "int L"] by fastforce
qed

lemma window_slot_bound: "0 < L \<Longrightarrow> nat ((p::int) mod int L) < L"
  by (simp add: nat_less_iff)

lemma window_write:
  assumes "n < length buf"
  shows "window (buf[nat ((lo + int n) mod int (length buf)) := v]) lo n = window buf lo n"
proof -
  have "nat ((lo + int n) mod int (length buf)) \<noteq> nat ((lo + int i) mod int (length buf))"
    if "i < n" for i
    using mod_inj_window [of n "length buf" i lo] that assms by auto
  then show ?thesis by (auto simp: window_def)
qed

lemma window_clear:
  assumes "n < length buf"
  shows "window (buf[nat (lo mod int (length buf)) := v]) (lo + 1) n = window buf (lo + 1) n"
proof -
  have "nat (lo mod int (length buf)) \<noteq> nat ((lo + 1 + int i) mod int (length buf))"
    if "i < n" for i
    using mod_inj_window [of 0 "length buf" "Suc i" lo] that assms
    by (cases buf) (auto simp: algebra_simps)
  then show ?thesis by (auto simp: window_def)
qed

text \<open>Masking with a power of two minus one is the remainder.\<close>

lemma and_mask_mod: "(x::int) AND (2 ^ k - 1) = x mod 2 ^ k"
  by (simp add: take_bit_eq_mask [symmetric] mask_eq_exp_minus_1 [symmetric] take_bit_eq_mod)

section \<open>The bounded FIFO interface\<close>

datatype 'a fifo_op = Enq 'a | Deq

datatype 'a fifo_out = EnqRes bool | DeqRes "'a option"

text \<open>The specification: a list of at most \<open>cap\<close> elements.\<close>

fun fifo_spec_step :: "nat \<Rightarrow> 'a list \<Rightarrow> 'a fifo_op \<Rightarrow> 'a fifo_out \<times> 'a list" where
  "fifo_spec_step cap q (Enq x) =
     (if length q < cap then (EnqRes True, q @ [x]) else (EnqRes False, q))"
| "fifo_spec_step cap q Deq =
     (case q of [] \<Rightarrow> (DeqRes None, []) | x # q' \<Rightarrow> (DeqRes (Some x), q'))"

fun fifo_spec_run :: "nat \<Rightarrow> 'a list \<Rightarrow> 'a fifo_op list \<Rightarrow> 'a fifo_out list \<times> 'a list" where
  "fifo_spec_run cap q [] = ([], q)"
| "fifo_spec_run cap q (c # cs) =
     (let (r, q') = fifo_spec_step cap q c; (rs, q'') = fifo_spec_run cap q' cs in (r # rs, q''))"

text \<open>A run of an implementation given by its two operations.\<close>

fun fifo_step :: "('a \<Rightarrow> 's \<Rightarrow> bool \<times> 's) \<Rightarrow> ('s \<Rightarrow> 'a option \<times> 's) \<Rightarrow> 's \<Rightarrow> 'a fifo_op \<Rightarrow> 'a fifo_out \<times> 's"
where
  "fifo_step enq deq s (Enq x) = (let (ok, s') = enq x s in (EnqRes ok, s'))"
| "fifo_step enq deq s Deq = (let (y, s') = deq s in (DeqRes y, s'))"

fun fifo_run :: "('a \<Rightarrow> 's \<Rightarrow> bool \<times> 's) \<Rightarrow> ('s \<Rightarrow> 'a option \<times> 's) \<Rightarrow> 's \<Rightarrow> 'a fifo_op list
    \<Rightarrow> 'a fifo_out list \<times> 's"
where
  "fifo_run enq deq s [] = ([], s)"
| "fifo_run enq deq s (c # cs) =
     (let (r, s') = fifo_step enq deq s c; (rs, s'') = fifo_run enq deq s' cs in (r # rs, s''))"

text \<open>Repeated \<open>deq\<close> until it answers \<open>None\<close> or the budget is used up.\<close>

fun deq_batch :: "('s \<Rightarrow> 'a option \<times> 's) \<Rightarrow> nat \<Rightarrow> 's \<Rightarrow> 'a list \<times> 's" where
  "deq_batch deq 0 s = ([], s)"
| "deq_batch deq (Suc n) s =
     (case deq s of
        (None, s') \<Rightarrow> ([], s')
      | (Some x, s') \<Rightarrow> (let (xs, s'') = deq_batch deq n s' in (x # xs, s'')))"

locale bounded_fifo =
  fixes enq :: "'a \<Rightarrow> 's \<Rightarrow> bool \<times> 's"
    and deq :: "'s \<Rightarrow> 'a option \<times> 's"
    and contents :: "'s \<Rightarrow> 'a list"
    and cap :: "'s \<Rightarrow> nat"
    and invar :: "'s \<Rightarrow> bool"
  assumes enq_room: "invar s \<Longrightarrow> length (contents s) < cap s \<Longrightarrow>
      \<exists>s'. enq x s = (True, s') \<and> invar s' \<and> contents s' = contents s @ [x] \<and> cap s' = cap s"
    and enq_full: "invar s \<Longrightarrow> cap s \<le> length (contents s) \<Longrightarrow>
      \<exists>s'. enq x s = (False, s') \<and> invar s' \<and> contents s' = contents s \<and> cap s' = cap s"
    and deq_cons: "invar s \<Longrightarrow> contents s = y # ys \<Longrightarrow>
      \<exists>s'. deq s = (Some y, s') \<and> invar s' \<and> contents s' = ys \<and> cap s' = cap s"
    and deq_empty: "invar s \<Longrightarrow> contents s = [] \<Longrightarrow>
      \<exists>s'. deq s = (None, s') \<and> invar s' \<and> contents s' = [] \<and> cap s' = cap s"
begin

lemma step_refines:
  assumes "invar s"
  shows "\<exists>s'. fifo_step enq deq s c = (fst (fifo_spec_step (cap s) (contents s) c), s') \<and> invar s' \<and>
           contents s' = snd (fifo_spec_step (cap s) (contents s) c) \<and> cap s' = cap s"
proof (cases c)
  case (Enq x)
  then show ?thesis using enq_room [OF assms, of x] enq_full [OF assms, of x]
    by (cases "length (contents s) < cap s") auto
next
  case Deq
  then show ?thesis using deq_cons [OF assms] deq_empty [OF assms]
    by (cases "contents s") auto
qed

lemma run_refines:
  "invar s \<Longrightarrow>
   fst (fifo_run enq deq s cs) = fst (fifo_spec_run (cap s) (contents s) cs) \<and>
   invar (snd (fifo_run enq deq s cs)) \<and>
   contents (snd (fifo_run enq deq s cs)) = snd (fifo_spec_run (cap s) (contents s) cs) \<and>
   cap (snd (fifo_run enq deq s cs)) = cap s"
proof (induction cs arbitrary: s)
  case (Cons c cs)
  obtain s' where s': "fifo_step enq deq s c = (fst (fifo_spec_step (cap s) (contents s) c), s')"
      "invar s'" "contents s' = snd (fifo_spec_step (cap s) (contents s) c)" "cap s' = cap s"
    using step_refines [OF Cons.prems, of c] by blast
  show ?case using Cons.IH [OF s'(2)] s' by (simp add: case_prod_beta Let_def)
qed simp

lemma batch_takes_prefix:
  "invar s \<Longrightarrow>
   fst (deq_batch deq n s) = take n (contents s) \<and>
   invar (snd (deq_batch deq n s)) \<and>
   contents (snd (deq_batch deq n s)) = drop n (contents s) \<and>
   cap (snd (deq_batch deq n s)) = cap s"
proof (induction n arbitrary: s)
  case (Suc n)
  show ?case
  proof (cases "contents s")
    case Nil
    then show ?thesis using deq_empty [OF Suc.prems] by auto
  next
    case (Cons y ys)
    then obtain s' where "deq s = (Some y, s')" "invar s'" "contents s' = ys" "cap s' = cap s"
      using deq_cons [OF Suc.prems] by blast
    then show ?thesis using Suc.IH [of s'] Cons by (simp add: case_prod_beta Let_def)
  qed
qed simp

end

end
