(* ===== verification/RingBuffer.thy ===== *)
theory RingBuffer
  imports JSNumber RingWindow
begin

text \<open>
  \<open>src/queue/lockFreeRingBuffer.ts\<close>: the single-producer ring \<open>LockFreeRingBuffer\<close> (fields
  prefixed \<open>sp_\<close>) and the multi-producer ring \<open>MPSCRingBuffer\<close> (prefix \<open>mp_\<close>), with their metrics.
  Positions are \<open>bigint\<close> (\<open>int\<close>), slots hold \<open>'a option\<close> (\<open>None\<close> is the source's \<open>undefined\<close> or
  \<open>null\<close>), \<open>power <<= 1\<close> is JavaScript's 32-bit signed shift, and the latency statistics use the
  rounding of \<open>JSNumber\<close>.  Note that the roles of \<open>head\<close> and \<open>tail\<close> are exchanged between the two
  classes, as in the source.

  The lemmas: \<open>nextPowerOf2\<close> returns the least power of two for requests up to \<open>2^30\<close> and never
  returns above; the invariant of each ring; both implement \<open>bounded_fifo\<close>; the counters balance.
\<close>

section \<open>Configuration and metrics\<close>

record ring_config =
  capacity :: int
  enableMetrics :: bool
  enableBatching :: bool
  batchSize :: int

record ring_metrics =
  m_size :: int
  m_capacity :: int
  m_utilization :: rat
  m_totalEnqueued :: int
  m_totalDequeued :: int
  m_enqueueFailures :: int
  m_dequeueFailures :: int
  m_averageLatency :: rat
  m_peakLatency :: rat
  m_batchesProcessed :: int

definition initial_metrics :: "int \<Rightarrow> ring_metrics" where
  "initial_metrics cap =
     \<lparr>m_size = 0, m_capacity = cap, m_utilization = 0, m_totalEnqueued = 0, m_totalDequeued = 0,
      m_enqueueFailures = 0, m_dequeueFailures = 0, m_averageLatency = 0, m_peakLatency = 0,
      m_batchesProcessed = 0\<rparr>"

text \<open>\<open>resetMetrics\<close> keeps the current size and utilization.\<close>

definition reset_metrics :: "int \<Rightarrow> int \<Rightarrow> ring_metrics" where
  "reset_metrics cap sz =
     (initial_metrics cap)\<lparr>m_size := sz, m_utilization := jsdiv (of_int sz) (of_int cap)\<rparr>"

definition set_size :: "int \<Rightarrow> int \<Rightarrow> ring_metrics \<Rightarrow> ring_metrics" where
  "set_size cap sz m = m\<lparr>m_size := sz, m_utilization := jsdiv (of_int sz) (of_int cap)\<rparr>"

definition MAX_LATENCY_SAMPLES :: nat where "MAX_LATENCY_SAMPLES = 1000"

definition push_sample :: "rat \<Rightarrow> rat list \<Rightarrow> rat list" where
  "push_sample x xs =
     (let ys = xs @ [x] in if length ys > MAX_LATENCY_SAMPLES then tl ys else ys)"

definition latency_metrics :: "rat list \<Rightarrow> ring_metrics \<Rightarrow> ring_metrics" where
  "latency_metrics samples m =
     (if length samples > 0
      then m\<lparr>m_averageLatency := jsdiv (js_sum samples) (of_nat (length samples)),
             m_peakLatency := foldl max (hd samples) (tl samples)\<rparr>
      else m)"

section \<open>\<open>nextPowerOf2\<close>\<close>

partial_function (option) next_power_loop :: "int \<Rightarrow> 32 word \<Rightarrow> 32 word option" where
  "next_power_loop n pw =
     (if sint pw < n then next_power_loop n (push_bit 1 pw) else Some pw)"

definition nextPowerOf2 :: "int \<Rightarrow> int option" where
  "nextPowerOf2 n = map_option sint (next_power_loop n 1)"

section \<open>The single-producer ring\<close>

record 'a spsc =
  sp_buffer :: "'a option list"
  sp_capacity :: int
  sp_mask :: int
  sp_head :: int
  sp_tail :: int
  sp_metrics :: ring_metrics
  sp_latencySamples :: "rat list"

definition new_LockFreeRingBuffer :: "ring_config \<Rightarrow> 'a spsc option" where
  "new_LockFreeRingBuffer config =
     (case nextPowerOf2 (capacity config) of
        None \<Rightarrow> None
      | Some c \<Rightarrow> Some \<lparr>sp_buffer = replicate (nat c) None, sp_capacity = c, sp_mask = c - 1,
                        sp_head = 0, sp_tail = 0, sp_metrics = initial_metrics c,
                        sp_latencySamples = []\<rparr>)"

definition sp_tryEnqueue :: "'a \<Rightarrow> 'a spsc \<Rightarrow> bool \<times> 'a spsc" where
  "sp_tryEnqueue item b =
     (let currentHead = sp_head b; currentTail = sp_tail b; m = sp_metrics b in
      if currentHead - currentTail \<ge> sp_capacity b
      then (False, b\<lparr>sp_metrics := m\<lparr>m_enqueueFailures := m_enqueueFailures m + 1\<rparr>\<rparr>)
      else let index = nat (currentHead AND sp_mask b);
               m' = set_size (sp_capacity b) (currentHead + 1 - currentTail)
                      (m\<lparr>m_totalEnqueued := m_totalEnqueued m + 1\<rparr>)
           in (True, b\<lparr>sp_buffer := (sp_buffer b)[index := Some item],
                      sp_head := currentHead + 1, sp_metrics := m'\<rparr>))"

definition sp_tryDequeue :: "'a spsc \<Rightarrow> 'a option \<times> 'a spsc" where
  "sp_tryDequeue b =
     (let currentHead = sp_head b; currentTail = sp_tail b; m = sp_metrics b in
      if currentTail \<ge> currentHead
      then (None, b\<lparr>sp_metrics := m\<lparr>m_dequeueFailures := m_dequeueFailures m + 1\<rparr>\<rparr>)
      else let index = nat (currentTail AND sp_mask b);
               item = sp_buffer b ! index;
               m' = set_size (sp_capacity b) (currentHead - (currentTail + 1))
                      (m\<lparr>m_totalDequeued := m_totalDequeued m + 1\<rparr>)
           in (item, b\<lparr>sp_buffer := (sp_buffer b)[index := None],
                      sp_tail := currentTail + 1, sp_metrics := m'\<rparr>))"

definition sp_size :: "'a spsc \<Rightarrow> int" where "sp_size b = sp_head b - sp_tail b"
definition sp_isEmpty :: "'a spsc \<Rightarrow> bool" where "sp_isEmpty b = (sp_head b = sp_tail b)"
definition sp_isFull :: "'a spsc \<Rightarrow> bool" where "sp_isFull b = (sp_head b - sp_tail b \<ge> sp_capacity b)"

definition sp_getMetrics :: "'a spsc \<Rightarrow> ring_metrics \<times> 'a spsc" where
  "sp_getMetrics b = (let m = set_size (sp_capacity b) (sp_size b) (sp_metrics b)
                      in (m, b\<lparr>sp_metrics := m\<rparr>))"

definition sp_resetMetrics :: "'a spsc \<Rightarrow> 'a spsc" where
  "sp_resetMetrics b =
     b\<lparr>sp_metrics := reset_metrics (sp_capacity b) (sp_size b), sp_latencySamples := []\<rparr>"

definition sp_recordLatency :: "rat \<Rightarrow> 'a spsc \<Rightarrow> 'a spsc" where
  "sp_recordLatency latency b =
     (let samples = push_sample latency (sp_latencySamples b)
      in b\<lparr>sp_latencySamples := samples, sp_metrics := latency_metrics samples (sp_metrics b)\<rparr>)"

section \<open>The multi-producer ring\<close>

record 'a mpsc =
  mp_buffer :: "'a option list"
  mp_capacity :: int
  mp_mask :: int
  mp_head :: int
  mp_tail :: int
  mp_metrics :: ring_metrics
  mp_latencySamples :: "rat list"

definition new_MPSCRingBuffer :: "ring_config \<Rightarrow> 'a mpsc option" where
  "new_MPSCRingBuffer config =
     (case nextPowerOf2 (capacity config) of
        None \<Rightarrow> None
      | Some c \<Rightarrow> Some \<lparr>mp_buffer = replicate (nat c) None, mp_capacity = c, mp_mask = c - 1,
                        mp_head = 0, mp_tail = 0, mp_metrics = initial_metrics c,
                        mp_latencySamples = []\<rparr>)"

definition mp_enqueue_failed :: "'a mpsc \<Rightarrow> 'a mpsc" where
  "mp_enqueue_failed b =
     b\<lparr>mp_metrics := (mp_metrics b)\<lparr>m_enqueueFailures := m_enqueueFailures (mp_metrics b) + 1\<rparr>\<rparr>"

definition mp_dequeue_failed :: "'a mpsc \<Rightarrow> 'a mpsc" where
  "mp_dequeue_failed b =
     b\<lparr>mp_metrics := (mp_metrics b)\<lparr>m_dequeueFailures := m_dequeueFailures (mp_metrics b) + 1\<rparr>\<rparr>"

definition mp_tryEnqueue :: "'a \<Rightarrow> 'a mpsc \<Rightarrow> bool \<times> 'a mpsc" where
  "mp_tryEnqueue item b =
     (let currentTail = mp_tail b; currentHead = mp_head b; m = mp_metrics b in
      if currentTail - currentHead \<ge> mp_capacity b then (False, mp_enqueue_failed b)
      else let index = nat (currentTail AND mp_mask b) in
        if mp_buffer b ! index \<noteq> None then (False, mp_enqueue_failed b)
        else (True, b\<lparr>mp_buffer := (mp_buffer b)[index := Some item],
                     mp_tail := currentTail + 1,
                     mp_metrics := set_size (mp_capacity b) (currentTail + 1 - currentHead)
                       (m\<lparr>m_totalEnqueued := m_totalEnqueued m + 1\<rparr>)\<rparr>))"

definition mp_tryDequeue :: "'a mpsc \<Rightarrow> 'a option \<times> 'a mpsc" where
  "mp_tryDequeue b =
     (let currentHead = mp_head b; currentTail = mp_tail b; m = mp_metrics b in
      if currentHead \<ge> currentTail then (None, mp_dequeue_failed b)
      else let index = nat (currentHead AND mp_mask b) in
        (case mp_buffer b ! index of
           None \<Rightarrow> (None, mp_dequeue_failed b)
         | Some item \<Rightarrow>
             (Some item, b\<lparr>mp_buffer := (mp_buffer b)[index := None],
                          mp_head := currentHead + 1,
                          mp_metrics := set_size (mp_capacity b) (currentTail - (currentHead + 1))
                            (m\<lparr>m_totalDequeued := m_totalDequeued m + 1\<rparr>)\<rparr>)))"

definition mp_tryDequeueBatch :: "int \<Rightarrow> 'a mpsc \<Rightarrow> 'a list \<times> 'a mpsc" where
  "mp_tryDequeueBatch maxItems b =
     (let (items, b') = deq_batch mp_tryDequeue (nat maxItems) b; m = mp_metrics b' in
      if length items > 0
      then (items, b'\<lparr>mp_metrics := m\<lparr>m_batchesProcessed := m_batchesProcessed m + 1\<rparr>\<rparr>)
      else (items, b'))"

definition mp_size :: "'a mpsc \<Rightarrow> int" where "mp_size b = mp_tail b - mp_head b"
definition mp_isEmpty :: "'a mpsc \<Rightarrow> bool" where "mp_isEmpty b = (mp_head b = mp_tail b)"
definition mp_isFull :: "'a mpsc \<Rightarrow> bool" where "mp_isFull b = (mp_tail b - mp_head b \<ge> mp_capacity b)"

definition mp_getMetrics :: "'a mpsc \<Rightarrow> ring_metrics \<times> 'a mpsc" where
  "mp_getMetrics b = (let m = set_size (mp_capacity b) (mp_size b) (mp_metrics b)
                      in (m, b\<lparr>mp_metrics := m\<rparr>))"

definition mp_resetMetrics :: "'a mpsc \<Rightarrow> 'a mpsc" where
  "mp_resetMetrics b =
     b\<lparr>mp_metrics := reset_metrics (mp_capacity b) (mp_size b), mp_latencySamples := []\<rparr>"

definition mp_recordLatency :: "rat \<Rightarrow> 'a mpsc \<Rightarrow> 'a mpsc" where
  "mp_recordLatency latency b =
     (let samples = push_sample latency (mp_latencySamples b)
      in b\<lparr>mp_latencySamples := samples, mp_metrics := latency_metrics samples (mp_metrics b)\<rparr>)"


section \<open>\<open>nextPowerOf2\<close>: the least power of two, or no result\<close>

lemma sint_pow2: "k < 31 \<Longrightarrow> sint (2 ^ k :: 32 word) = 2 ^ k"
proof -
  assume k: "k < 31"
  have "(2 ^ k :: 32 word) = word_of_int (2 ^ k)" by simp
  moreover have "(2::int) ^ k < 2 ^ 31" using k by (rule power_strict_increasing) simp
  moreover have "- (2 ^ 31) \<le> (2::int) ^ k"
    by (meson neg_le_0_iff_le order_trans zero_le_numeral zero_le_power)
  ultimately show ?thesis
    by (simp only: signed_of_int len_bit0 len_num1) (simp add: signed_take_bit_int_eq_self)
qed

lemma push_bit_pow2: "push_bit 1 (2 ^ k :: 32 word) = 2 ^ Suc k"
  by (simp add: push_bit_eq_mult mult.commute)

lemma next_power_loop_step:
  "k < 31 \<Longrightarrow> next_power_loop n (2 ^ k) =
     (if 2 ^ k < n then next_power_loop n (2 ^ Suc k) else Some (2 ^ k))"
  by (subst next_power_loop.simps) (simp only: push_bit_pow2 sint_pow2)

lemma next_power_loop_returns:
  assumes "n \<le> 2 ^ 30" "k \<le> 30"
  shows "\<exists>j. k \<le> j \<and> j \<le> 30 \<and> next_power_loop n (2 ^ k) = Some (2 ^ j) \<and> n \<le> 2 ^ j \<and>
           (j = k \<or> 2 ^ (j - 1) < n)"
  using assms(2)
proof (induction "30 - k" arbitrary: k)
  case 0
  then have "k = 30" by simp
  moreover have "\<not> 2 ^ 30 < n" using assms(1) by simp
  ultimately show ?case
    using next_power_loop_step [of 30 n] assms(1) by (intro exI [of _ 30]) (simp only: if_False, simp)
next
  case (Suc d)
  then have k: "k < 31" "Suc k \<le> 30" "d = 30 - Suc k" by simp_all
  show ?case
  proof (cases "2 ^ k < n")
    case False
    then show ?thesis using Suc.prems next_power_loop_step [OF k(1), of n]
      by (intro exI [of _ k]) auto
  next
    case True
    obtain j where j: "Suc k \<le> j" "j \<le> 30" "next_power_loop n (2 ^ Suc k) = Some (2 ^ j)"
        "n \<le> 2 ^ j" "j = Suc k \<or> 2 ^ (j - 1) < n"
      using Suc.hyps(1) [OF k(3) k(2)] by blast
    moreover have "next_power_loop n (2 ^ k) = next_power_loop n (2 ^ Suc k)"
      using True next_power_loop_step [OF k(1), of n] by (simp only: if_True)
    ultimately show ?thesis using True by (intro exI [of _ j]) auto
  qed
qed

lemma pow2_word_high: "32 \<le> k \<Longrightarrow> (2 ^ k :: 32 word) = 0"
proof -
  assume "32 \<le> k"
  then have "(2 ^ k :: 32 word) = 2 ^ 32 * 2 ^ (k - 32)" by (metis le_add_diff_inverse power_add)
  also have "(2 ^ 32 :: 32 word) = 0" by simp
  finally show ?thesis by simp
qed

lemma sint_pow2_le: "sint (2 ^ k :: 32 word) \<le> 2 ^ 30"
proof -
  consider "32 \<le> k" | "k = 31" | "k < 31" by linarith
  then show ?thesis
  proof cases
    case 1
    then show ?thesis by (simp only: pow2_word_high) simp
  next
    case 3
    then have "(2::int) ^ k \<le> 2 ^ 30" by (intro power_increasing) auto
    then show ?thesis using sint_pow2 [OF 3] by simp
  qed simp
qed

lemma next_power_loop_diverges:
  assumes "2 ^ 30 < n"
  shows "next_power_loop n (2 ^ k) = None"
proof (rule ccontr)
  assume "next_power_loop n (2 ^ k) \<noteq> None"
  then obtain r where r: "next_power_loop n (2 ^ k) = Some r" by blast
  have "\<not> (2 ^ 30 < n \<and> (\<exists>j. (2 ^ k :: 32 word) = 2 ^ j))"
  proof (rule next_power_loop.raw_induct [where P = "\<lambda>m pw r. \<not> (2 ^ 30 < m \<and> (\<exists>j. pw = 2 ^ j))", OF _ r])
    fix f :: "int \<Rightarrow> 32 word \<Rightarrow> 32 word option" and m pw q
    assume IH: "\<And>m pw q. f m pw = Some q \<Longrightarrow> \<not> (2 ^ 30 < m \<and> (\<exists>j. pw = 2 ^ j))"
      and eq: "(if sint pw < m then f m (push_bit 1 pw) else Some pw) = Some q"
    show "\<not> (2 ^ 30 < m \<and> (\<exists>j. pw = 2 ^ j))"
    proof
      assume "2 ^ 30 < m \<and> (\<exists>j. pw = 2 ^ j)"
      then obtain j where m: "2 ^ 30 < m" and pw: "pw = 2 ^ j" by blast
      have "sint pw < m" using sint_pow2_le [of j] m pw by simp
      with eq have "f m (2 ^ Suc j) = Some q" by (simp only: pw push_bit_pow2 if_True)
      from IH [OF this] m show False by blast
    qed
  qed
  then show False using assms by blast
qed

lemma nextPowerOf2_Some:
  assumes "nextPowerOf2 n = Some c"
  obtains k where "c = 2 ^ k" "k \<le> 30" "n \<le> c"
proof -
  have "n \<le> 2 ^ 30"
  proof (rule ccontr)
    assume "\<not> n \<le> 2 ^ 30"
    then show False using next_power_loop_diverges [of n 0] assms by (simp add: nextPowerOf2_def)
  qed
  then obtain j where j: "j \<le> 30" "next_power_loop n 1 = Some (2 ^ j)" "n \<le> 2 ^ j"
    using next_power_loop_returns [of n 0] by auto
  then have "c = 2 ^ j" using assms sint_pow2 [of j] by (simp add: nextPowerOf2_def)
  with j that show thesis by blast
qed

section \<open>Invariants and contents\<close>

definition ring_shape :: "'a list \<Rightarrow> int \<Rightarrow> int \<Rightarrow> int \<Rightarrow> int \<Rightarrow> bool" where
  "ring_shape buf cap msk lo hi \<longleftrightarrow>
     (\<exists>k. cap = 2 ^ k) \<and> length buf = nat cap \<and> msk = cap - 1 \<and> 0 \<le> lo \<and> lo \<le> hi \<and> hi - lo \<le> cap"

definition sp_contents :: "'a spsc \<Rightarrow> 'a list" where
  "sp_contents b = map the (window (sp_buffer b) (sp_tail b) (nat (sp_head b - sp_tail b)))"

definition sp_inv :: "'a spsc \<Rightarrow> bool" where
  "sp_inv b \<longleftrightarrow>
     ring_shape (sp_buffer b) (sp_capacity b) (sp_mask b) (sp_tail b) (sp_head b) \<and>
     None \<notin> set (window (sp_buffer b) (sp_tail b) (nat (sp_head b - sp_tail b)))"

definition mp_contents :: "'a mpsc \<Rightarrow> 'a list" where
  "mp_contents b = map the (window (mp_buffer b) (mp_head b) (nat (mp_tail b - mp_head b)))"

text \<open>The multi-producer ring also keeps every slot outside the window \<open>null\<close>.\<close>

definition mp_inv :: "'a mpsc \<Rightarrow> bool" where
  "mp_inv b \<longleftrightarrow>
     ring_shape (mp_buffer b) (mp_capacity b) (mp_mask b) (mp_head b) (mp_tail b) \<and>
     None \<notin> set (window (mp_buffer b) (mp_head b) (nat (mp_tail b - mp_head b))) \<and>
     set (window (mp_buffer b) (mp_tail b) (nat (mp_capacity b - (mp_tail b - mp_head b)))) \<subseteq> {None}"

lemmas ring_inv_defs [inv_defs] = sp_inv_def mp_inv_def sp_contents_def mp_contents_def

lemma ring_shape_index:
  "ring_shape buf cap msk lo hi \<Longrightarrow> p AND msk = p mod int (length buf)"
  by (auto simp: ring_shape_def and_mask_mod)

lemma ring_shape_cap: "ring_shape buf cap msk lo hi \<Longrightarrow> 0 < cap \<and> cap = int (length buf)"
  by (auto simp: ring_shape_def)

lemma ring_shape_push:
  "ring_shape buf cap msk lo hi \<Longrightarrow> hi - lo < cap \<Longrightarrow> ring_shape (buf[i := v]) cap msk lo (hi + 1)"
  by (auto simp: ring_shape_def)

lemma ring_shape_pop:
  "ring_shape buf cap msk lo hi \<Longrightarrow> lo < hi \<Longrightarrow> ring_shape (buf[i := v]) cap msk (lo + 1) hi"
  by (auto simp: ring_shape_def)

text \<open>One push and one pop of the window, as both rings use them.\<close>

lemma ring_push_window:
  assumes "ring_shape buf cap msk lo hi" "hi - lo < cap"
  shows "window (buf[nat (hi AND msk) := v]) lo (nat (hi + 1 - lo)) = window buf lo (nat (hi - lo)) @ [v]"
proof -
  let ?n = "nat (hi - lo)"
  have L: "0 < length buf" "?n < length buf" and hi: "hi = lo + int ?n"
    using assms ring_shape_cap [OF assms(1)] by (auto simp: ring_shape_def)
  have "nat (hi + 1 - lo) = Suc ?n" using assms(1) by (auto simp: ring_shape_def nat_diff_distrib)
  moreover have ix: "hi AND msk = (lo + int ?n) mod int (length buf)"
    using ring_shape_index [OF assms(1)] hi by simp
  ultimately show ?thesis
    using L window_write [OF L(2), of lo v] window_slot_bound [OF L(1)] by (simp add: window_snoc ix)
qed

lemma ring_pop_window:
  assumes "ring_shape buf cap msk lo hi" "lo < hi"
  shows "window buf lo (nat (hi - lo)) = buf ! nat (lo AND msk) # window buf (lo + 1) (nat (hi - (lo + 1)))"
    and "window (buf[nat (lo AND msk) := v]) (lo + 1) (nat (hi - (lo + 1))) = window buf (lo + 1) (nat (hi - (lo + 1)))"
proof -
  have n: "nat (hi - lo) = Suc (nat (hi - (lo + 1)))" using assms(2) by simp
  have L: "nat (hi - (lo + 1)) < length buf"
    using assms ring_shape_cap [OF assms(1)] by (auto simp: ring_shape_def)
  note ix = ring_shape_index [OF assms(1), of lo]
  show "window buf lo (nat (hi - lo)) = buf ! nat (lo AND msk) # window buf (lo + 1) (nat (hi - (lo + 1)))"
    by (simp only: n window_cons ix)
  show "window (buf[nat (lo AND msk) := v]) (lo + 1) (nat (hi - (lo + 1))) = window buf (lo + 1) (nat (hi - (lo + 1)))"
    using window_clear [OF L] by (simp only: ix)
qed

section \<open>The single-producer ring is a bounded FIFO\<close>

lemma length_sp_contents: "length (sp_contents b) = nat (sp_head b - sp_tail b)"
  by (simp add: sp_contents_def)

lemma sp_enq_room:
  assumes "sp_inv b" "length (sp_contents b) < nat (sp_capacity b)"
  shows "\<exists>b'. sp_tryEnqueue x b = (True, b') \<and> sp_inv b' \<and> sp_contents b' = sp_contents b @ [x] \<and>
           nat (sp_capacity b') = nat (sp_capacity b)"
proof -
  have sh: "ring_shape (sp_buffer b) (sp_capacity b) (sp_mask b) (sp_tail b) (sp_head b)"
    and lt: "sp_head b - sp_tail b < sp_capacity b"
    using assms by (auto simp: sp_inv_def length_sp_contents)
  show ?thesis
    using assms lt ring_shape_push [OF sh lt] ring_push_window [OF sh lt, of "Some x"]
    by (auto simp: sp_tryEnqueue_def Let_def sp_inv_def sp_contents_def)
qed

lemma sp_enq_full:
  "sp_inv b \<Longrightarrow> nat (sp_capacity b) \<le> length (sp_contents b) \<Longrightarrow>
   \<exists>b'. sp_tryEnqueue x b = (False, b') \<and> sp_inv b' \<and> sp_contents b' = sp_contents b \<and>
        nat (sp_capacity b') = nat (sp_capacity b)"
  using ring_shape_cap [of "sp_buffer b"]
  by (auto simp: sp_tryEnqueue_def Let_def sp_inv_def sp_contents_def nat_le_eq_zle)

lemma sp_deq_cons:
  assumes "sp_inv b" "sp_contents b = y # ys"
  shows "\<exists>b'. sp_tryDequeue b = (Some y, b') \<and> sp_inv b' \<and> sp_contents b' = ys \<and>
           nat (sp_capacity b') = nat (sp_capacity b)"
proof -
  have sh: "ring_shape (sp_buffer b) (sp_capacity b) (sp_mask b) (sp_tail b) (sp_head b)"
    and nn: "None \<notin> set (window (sp_buffer b) (sp_tail b) (nat (sp_head b - sp_tail b)))"
    using assms(1) by (auto simp: sp_inv_def)
  have lt: "sp_tail b < sp_head b"
    using assms(2) length_sp_contents [of b] by (cases "sp_head b - sp_tail b \<le> 0") auto
  note w = ring_pop_window(1) [OF sh lt]
  have item: "sp_buffer b ! nat (sp_tail b AND sp_mask b) = Some y"
    using assms(2) nn w by (cases "sp_buffer b ! nat (sp_tail b AND sp_mask b)") (auto simp: sp_contents_def)
  show ?thesis
    using assms lt w nn item ring_shape_pop [OF sh lt] ring_pop_window(2) [OF sh lt]
    by (auto simp: sp_tryDequeue_def Let_def sp_inv_def sp_contents_def)
qed

lemma sp_deq_empty:
  "sp_inv b \<Longrightarrow> sp_contents b = [] \<Longrightarrow>
   \<exists>b'. sp_tryDequeue b = (None, b') \<and> sp_inv b' \<and> sp_contents b' = [] \<and>
        nat (sp_capacity b') = nat (sp_capacity b)"
  using length_sp_contents [of b]
  by (auto simp: sp_tryDequeue_def Let_def sp_inv_def sp_contents_def)

interpretation spq: bounded_fifo sp_tryEnqueue sp_tryDequeue sp_contents "\<lambda>b. nat (sp_capacity b)" sp_inv
  by unfold_locales (fact sp_enq_room sp_enq_full sp_deq_cons sp_deq_empty)+

lemma sp_new_inv:
  "new_LockFreeRingBuffer config = Some b \<Longrightarrow>
     sp_inv b \<and> sp_contents b = [] \<and> capacity config \<le> sp_capacity b"
  by (auto simp: new_LockFreeRingBuffer_def sp_inv_def sp_contents_def ring_shape_def
      split: option.splits elim!: nextPowerOf2_Some)

section \<open>The multi-producer ring is a bounded FIFO\<close>

lemma length_mp_contents: "length (mp_contents b) = nat (mp_tail b - mp_head b)"
  by (simp add: mp_contents_def)

lemma mp_free_slot:
  assumes "mp_inv b" "mp_tail b - mp_head b < mp_capacity b"
  shows "mp_buffer b ! nat (mp_tail b AND mp_mask b) = None"
proof -
  have sh: "ring_shape (mp_buffer b) (mp_capacity b) (mp_mask b) (mp_head b) (mp_tail b)"
    using assms(1) by (simp add: mp_inv_def)
  obtain n where n: "nat (mp_capacity b - (mp_tail b - mp_head b)) = Suc n"
    using assms(2) by (cases "nat (mp_capacity b - (mp_tail b - mp_head b))") auto
  show ?thesis
    using assms(1) ring_shape_index [OF sh, of "mp_tail b"] by (auto simp: mp_inv_def n window_cons)
qed

lemma mp_enq_room:
  assumes "mp_inv b" "length (mp_contents b) < nat (mp_capacity b)"
  shows "\<exists>b'. mp_tryEnqueue x b = (True, b') \<and> mp_inv b' \<and> mp_contents b' = mp_contents b @ [x] \<and>
           nat (mp_capacity b') = nat (mp_capacity b)"
proof -
  have sh: "ring_shape (mp_buffer b) (mp_capacity b) (mp_mask b) (mp_head b) (mp_tail b)"
    and lt: "mp_tail b - mp_head b < mp_capacity b"
    using assms by (auto simp: mp_inv_def length_mp_contents)
  let ?f = "nat (mp_capacity b - (mp_tail b + 1 - mp_head b))"
  have f: "nat (mp_capacity b - (mp_tail b - mp_head b)) = Suc ?f" using lt by simp
  have "?f < length (mp_buffer b)" using sh lt by (auto simp: ring_shape_def)
  note c = window_clear [OF this, of "mp_tail b" "Some x", folded ring_shape_index [OF sh, of "mp_tail b"]]
  have free: "set (window (mp_buffer b) (mp_tail b + 1) ?f) \<subseteq> {None}"
    using assms(1) by (auto simp: mp_inv_def f window_cons)
  show ?thesis
    using assms lt mp_free_slot [OF assms(1) lt] ring_shape_push [OF sh lt] c free
      ring_push_window [OF sh lt, of "Some x"]
    by (auto simp: mp_tryEnqueue_def Let_def mp_inv_def mp_contents_def)
qed

lemma mp_enq_full:
  "mp_inv b \<Longrightarrow> nat (mp_capacity b) \<le> length (mp_contents b) \<Longrightarrow>
   \<exists>b'. mp_tryEnqueue x b = (False, b') \<and> mp_inv b' \<and> mp_contents b' = mp_contents b \<and>
        nat (mp_capacity b') = nat (mp_capacity b)"
  using ring_shape_cap [of "mp_buffer b"]
  by (auto simp: mp_tryEnqueue_def mp_enqueue_failed_def Let_def mp_inv_def mp_contents_def nat_le_eq_zle)

lemma mp_deq_cons:
  assumes "mp_inv b" "mp_contents b = y # ys"
  shows "\<exists>b'. mp_tryDequeue b = (Some y, b') \<and> mp_inv b' \<and> mp_contents b' = ys \<and>
           nat (mp_capacity b') = nat (mp_capacity b)"
proof -
  have sh: "ring_shape (mp_buffer b) (mp_capacity b) (mp_mask b) (mp_head b) (mp_tail b)"
    and nn: "None \<notin> set (window (mp_buffer b) (mp_head b) (nat (mp_tail b - mp_head b)))"
    using assms(1) by (auto simp: mp_inv_def)
  have lt: "mp_head b < mp_tail b"
    using assms(2) length_mp_contents [of b] by (cases "mp_tail b - mp_head b \<le> 0") auto
  note w = ring_pop_window(1) [OF sh lt]
  have item: "mp_buffer b ! nat (mp_head b AND mp_mask b) = Some y"
    using assms(2) nn w by (cases "mp_buffer b ! nat (mp_head b AND mp_mask b)") (auto simp: mp_contents_def)
  let ?n = "nat (mp_capacity b - (mp_tail b - mp_head b))" and ?ix = "nat (mp_head b AND mp_mask b)"
  have cap: "mp_capacity b = int (length (mp_buffer b))" "0 < length (mp_buffer b)"
    using ring_shape_cap [OF sh] by auto
  have n: "nat (mp_capacity b - (mp_tail b - (mp_head b + 1))) = Suc ?n"
    and lt': "?n < length (mp_buffer b)" and wrap: "mp_tail b + int ?n = mp_head b + int (length (mp_buffer b))"
    using sh lt cap by (auto simp: ring_shape_def)
  have ix: "?ix = nat ((mp_tail b + int ?n) mod int (length (mp_buffer b)))"
    using ring_shape_index [OF sh, of "mp_head b"] by (simp only: wrap mod_add_self2)
  have free: "set (window ((mp_buffer b)[?ix := None]) (mp_tail b) (Suc ?n)) \<subseteq> {None}"
    using assms(1) cap window_write [OF lt', of "mp_tail b" None] window_slot_bound [OF cap(2)]
    by (simp only: window_snoc length_list_update ix) (auto simp: mp_inv_def)
  show ?thesis
    using assms lt w nn item free ring_shape_pop [OF sh lt] ring_pop_window(2) [OF sh lt]
    by (auto simp: mp_tryDequeue_def Let_def mp_inv_def mp_contents_def n)
qed

lemma mp_deq_empty:
  "mp_inv b \<Longrightarrow> mp_contents b = [] \<Longrightarrow>
   \<exists>b'. mp_tryDequeue b = (None, b') \<and> mp_inv b' \<and> mp_contents b' = [] \<and>
        nat (mp_capacity b') = nat (mp_capacity b)"
  using length_mp_contents [of b]
  by (auto simp: mp_tryDequeue_def mp_dequeue_failed_def Let_def mp_inv_def mp_contents_def)

interpretation mpq: bounded_fifo mp_tryEnqueue mp_tryDequeue mp_contents "\<lambda>b. nat (mp_capacity b)" mp_inv
  by unfold_locales (fact mp_enq_room mp_enq_full mp_deq_cons mp_deq_empty)+

lemma window_replicate: "0 < c \<Longrightarrow> set (window (replicate c x) lo n) \<subseteq> {x}"
  using window_slot_bound [of c] by (auto simp: window_def)

lemma mp_new_inv:
  assumes "new_MPSCRingBuffer config = Some b"
  shows "mp_inv b \<and> mp_contents b = [] \<and> capacity config \<le> mp_capacity b"
proof -
  obtain c where c: "nextPowerOf2 (capacity config) = Some c"
      "b = \<lparr>mp_buffer = replicate (nat c) None, mp_capacity = c, mp_mask = c - 1,
            mp_head = 0, mp_tail = 0, mp_metrics = initial_metrics c, mp_latencySamples = []\<rparr>"
    using assms by (auto simp: new_MPSCRingBuffer_def split: option.splits)
  obtain k where k: "c = 2 ^ k" "capacity config \<le> c" using c(1) by (rule nextPowerOf2_Some)
  have "set (window (replicate (nat c) None) 0 (nat c)) \<subseteq> {None}"
    by (rule window_replicate) (simp add: k)
  then show ?thesis using c(2) k by (auto simp: mp_inv_def mp_contents_def ring_shape_def)
qed

section \<open>Counters\<close>

definition counts :: "'a fifo_out list \<Rightarrow> int \<times> int \<times> int \<times> int" where
  "counts rs =
     (int (length (filter (\<lambda>r. r = EnqRes True) rs)), int (length (filter (\<lambda>r. r = EnqRes False) rs)),
      int (length (filter (\<lambda>r. \<exists>x. r = DeqRes (Some x)) rs)), int (length (filter (\<lambda>r. r = DeqRes None) rs)))"

definition counters :: "ring_metrics \<Rightarrow> int \<times> int \<times> int \<times> int" where
  "counters m = (m_totalEnqueued m, m_enqueueFailures m, m_totalDequeued m, m_dequeueFailures m)"

definition add4 :: "int \<times> int \<times> int \<times> int \<Rightarrow> int \<times> int \<times> int \<times> int \<Rightarrow> int \<times> int \<times> int \<times> int" where
  "add4 = (\<lambda>(a, b, c, d) (a', b', c', d'). (a + a', b + b', c + c', d + d'))"

lemma mp_step_counters:
  "fifo_step mp_tryEnqueue mp_tryDequeue b c = (r, b') \<Longrightarrow>
   counters (mp_metrics b') = add4 (counters (mp_metrics b)) (counts [r])"
  by (cases c) (auto simp: mp_tryEnqueue_def mp_tryDequeue_def mp_enqueue_failed_def mp_dequeue_failed_def
      Let_def counters_def counts_def add4_def set_size_def split: if_splits option.splits)

lemma counts_Cons: "counts (r # rs) = add4 (counts [r]) (counts rs)"
  by (simp add: counts_def add4_def)

lemma mp_run_counters:
  "fifo_run mp_tryEnqueue mp_tryDequeue b cs = (rs, b') \<Longrightarrow>
   counters (mp_metrics b') = add4 (counters (mp_metrics b)) (counts rs)"
proof (induction cs arbitrary: b rs)
  case Nil
  then show ?case by (auto simp: counters_def counts_def add4_def)
next
  case (Cons c cs)
  obtain r b1 where s: "fifo_step mp_tryEnqueue mp_tryDequeue b c = (r, b1)" by fastforce
  with Cons.prems obtain rs1 where
      r: "fifo_run mp_tryEnqueue mp_tryDequeue b1 cs = (rs1, b')" and rs: "rs = r # rs1"
    by (auto simp: Let_def split: prod.splits)
  show ?case
    using mp_step_counters [OF s] Cons.IH [OF r] counts_Cons [of r rs1]
    by (auto simp: rs add4_def split: prod.splits)
qed

definition mp_balanced :: "'a mpsc \<Rightarrow> bool" where
  "mp_balanced b \<longleftrightarrow>
     m_totalEnqueued (mp_metrics b) - m_totalDequeued (mp_metrics b) = mp_tail b - mp_head b"

lemma mp_step_balanced:
  "fifo_step mp_tryEnqueue mp_tryDequeue b c = (r, b') \<Longrightarrow> mp_balanced b \<Longrightarrow> mp_balanced b'"
  by (cases c) (auto simp: mp_tryEnqueue_def mp_tryDequeue_def mp_enqueue_failed_def mp_dequeue_failed_def
      Let_def mp_balanced_def set_size_def split: if_splits option.splits)

lemma mp_run_balanced:
  "fifo_run mp_tryEnqueue mp_tryDequeue b cs = (rs, b') \<Longrightarrow> mp_balanced b \<Longrightarrow> mp_balanced b'"
  by (induction cs arbitrary: b rs) (auto simp: Let_def split: prod.splits dest!: mp_step_balanced)

text \<open>In a ring that keeps its invariant the utilization is the exact quotient, between 0 and 1.\<close>

lemma utilization_exact:
  assumes "ring_shape buf cap msk lo hi" "cap < 2 ^ 53"
  shows "m_utilization (set_size cap (hi - lo) m) = of_int (hi - lo) / of_int cap \<and>
         0 \<le> m_utilization (set_size cap (hi - lo) m) \<and> m_utilization (set_size cap (hi - lo) m) \<le> 1"
proof -
  obtain k where k: "cap = 2 ^ k" and le: "0 \<le> hi - lo" "hi - lo \<le> cap"
    using assms(1) by (auto simp: ring_shape_def)
  obtain n where n: "hi - lo = int n" using le(1) by (rule zero_le_imp_eq_int [THEN exE])
  have "int n < 2 ^ 53" using le(2) assms(2) n by simp
  then have n53: "n < 2 ^ 53" by (metis of_nat_less_iff of_nat_numeral of_nat_power)
  have e: "m_utilization (set_size cap (int n) m) = of_nat n / 2 ^ k"
    using fl_div_pow2 [OF n53, of k] by (simp add: set_size_def jsdiv_def k)
  have "int n \<le> int (2 ^ k)" using le(2) n k by simp
  then have "(of_nat n :: rat) \<le> 2 ^ k" by (metis of_nat_le_iff of_nat_numeral of_nat_power)
  moreover have "m_utilization (set_size cap (hi - lo) m) = of_nat n / 2 ^ k" using e n by simp
  ultimately show ?thesis by (simp only: n) (simp add: k divide_le_eq_1)
qed

section \<open>Properties\<close>

lemma Least_pow2:
  assumes "n \<le> 2 ^ j" "j = 0 \<or> 2 ^ (j - 1) < (n::int)"
  shows "(LEAST k. n \<le> 2 ^ k) = j"
proof (rule Least_equality)
  fix i assume i: "n \<le> 2 ^ i"
  show "j \<le> i"
  proof (rule ccontr)
    assume "\<not> j \<le> i"
    then have "(2::int) ^ i \<le> 2 ^ (j - 1)" by (intro power_increasing) auto
    with assms(2) i \<open>\<not> j \<le> i\<close> show False by linarith
  qed
qed (fact assms(1))

text \<open>
  C38. \<open>nextPowerOf2(n)\<close>, the sizing of both ring buffers, returns the least power of two that is at
  least \<open>n\<close> for every request up to \<open>2^30\<close>; for a larger request the 32-bit shift runs through
  \<open>-2^31\<close> to 0 and the loop never returns.
\<close>

theorem nextPowerOf2_correct:
  "nextPowerOf2 n = (if n \<le> 2 ^ 30 then Some (2 ^ (LEAST k. n \<le> 2 ^ k)) else None)"
proof (cases "n \<le> 2 ^ 30")
  case True
  then obtain j where j: "j \<le> 30" "next_power_loop n 1 = Some (2 ^ j)" "n \<le> 2 ^ j" "j = 0 \<or> 2 ^ (j - 1) < n"
    using next_power_loop_returns [of n 0] by auto
  then show ?thesis using True Least_pow2 [OF j(3,4)] sint_pow2 [of j] by (simp add: nextPowerOf2_def)
next
  case False
  then show ?thesis using next_power_loop_diverges [of n 0] by (simp add: nextPowerOf2_def)
qed

lemma ring_sizes:
  "c \<le> 2 ^ 30 \<Longrightarrow> \<exists>p. nextPowerOf2 c = Some p"
  using next_power_loop_returns [of c 0] by (auto simp: nextPowerOf2_def)

text \<open>
  C5. A \<open>LockFreeRingBuffer\<close> of any capacity up to \<open>2^30\<close> can be constructed, holds at least the
  requested number of items, and answers every sequence of \<open>tryEnqueue\<close> and \<open>tryDequeue\<close> calls
  exactly as a bounded FIFO list does, across every wrap-around of its positions.
\<close>

theorem spsc_refines_fifo:
  assumes "capacity config \<le> 2 ^ 30"
  shows "\<exists>b :: 'a spsc. new_LockFreeRingBuffer config = Some b \<and> capacity config \<le> sp_capacity b \<and>
           (\<forall>cs. fst (fifo_run sp_tryEnqueue sp_tryDequeue b cs) =
                 fst (fifo_spec_run (nat (sp_capacity b)) [] cs))"
proof -
  obtain b :: "'a spsc" where b: "new_LockFreeRingBuffer config = Some b"
    using ring_sizes [OF assms] by (auto simp: new_LockFreeRingBuffer_def)
  note i = sp_new_inv [OF b]
  then have "sp_inv b" "sp_contents b = []" by simp_all
  then have "\<forall>cs. fst (fifo_run sp_tryEnqueue sp_tryDequeue b cs) = fst (fifo_spec_run (nat (sp_capacity b)) [] cs)"
    using spq.run_refines [of b] by simp
  with b i show ?thesis by blast
qed

theorem spsc_refines_fifo_witness:
  "\<exists>b :: int spsc. new_LockFreeRingBuffer \<lparr>capacity = 2, enableMetrics = True, enableBatching = True, batchSize = 32\<rparr> = Some b \<and>
     fst (fifo_run sp_tryEnqueue sp_tryDequeue b [Enq 7, Deq, Deq]) = [EnqRes True, DeqRes (Some 7), DeqRes None]"
proof -
  let ?c = "\<lparr>capacity = 2, enableMetrics = True, enableBatching = True, batchSize = 32\<rparr>"
  have "capacity ?c \<le> 2 ^ 30" by simp
  from spsc_refines_fifo [OF this, where 'a = int] obtain b :: "int spsc" where
    b: "new_LockFreeRingBuffer ?c = Some b" "2 \<le> sp_capacity b"
      "fst (fifo_run sp_tryEnqueue sp_tryDequeue b [Enq 7, Deq, Deq]) =
       fst (fifo_spec_run (nat (sp_capacity b)) [] [Enq 7, Deq, Deq])"
    by (auto simp del: fifo_run.simps fifo_spec_run.simps)
  then have "0 < nat (sp_capacity b)" by simp
  with b show ?thesis by (intro exI [of _ b]) simp
qed

section \<open>Batches among the calls\<close>

text \<open>The calls of a client of the multi-producer ring, and what a bounded FIFO list answers to them.\<close>

datatype 'a ring_op = Ring_enq 'a | Ring_deq | Ring_batch int

datatype 'a ring_out = Ring_accepted bool | Ring_item "'a option" | Ring_items "'a list"

fun mp_call :: "'a ring_op \<Rightarrow> 'a mpsc \<Rightarrow> 'a ring_out \<times> 'a mpsc" where
  "mp_call (Ring_enq x) b = (let (ok, b') = mp_tryEnqueue x b in (Ring_accepted ok, b'))"
| "mp_call Ring_deq b = (let (y, b') = mp_tryDequeue b in (Ring_item y, b'))"
| "mp_call (Ring_batch n) b = (let (ys, b') = mp_tryDequeueBatch n b in (Ring_items ys, b'))"

fun queue_call :: "nat \<Rightarrow> 'a ring_op \<Rightarrow> 'a list \<Rightarrow> 'a ring_out \<times> 'a list" where
  "queue_call cap (Ring_enq x) q = (if length q < cap then (Ring_accepted True, q @ [x]) else (Ring_accepted False, q))"
| "queue_call cap Ring_deq q = (case q of [] \<Rightarrow> (Ring_item None, []) | x # q' \<Rightarrow> (Ring_item (Some x), q'))"
| "queue_call cap (Ring_batch n) q = (Ring_items (take (nat n) q), drop (nat n) q)"

fun answers :: "('c \<Rightarrow> 's \<Rightarrow> 'o \<times> 's) \<Rightarrow> 'c list \<Rightarrow> 's \<Rightarrow> 'o list" where
  "answers f [] s = []"
| "answers f (c # cs) s = (let (r, s') = f c s in r # answers f cs s')"

lemma mp_batch_call:
  assumes "mp_inv b"
  shows "\<exists>b'. mp_tryDequeueBatch n b = (take (nat n) (mp_contents b), b') \<and> mp_inv b'
    \<and> mp_contents b' = drop (nat n) (mp_contents b) \<and> nat (mp_capacity b') = nat (mp_capacity b)"
proof -
  obtain ys c where c: "deq_batch mp_tryDequeue (nat n) b = (ys, c)" by fastforce
  then have "ys = take (nat n) (mp_contents b)" "mp_inv c" "mp_contents c = drop (nat n) (mp_contents b)" "nat (mp_capacity c) = nat (mp_capacity b)"
    using mpq.batch_takes_prefix [OF assms, of "nat n"] by auto
  then show ?thesis using c by (auto simp: mp_tryDequeueBatch_def Let_def mp_inv_def mp_contents_def)
qed

lemma mp_call_refines:
  assumes "mp_inv b"
  shows "\<exists>b'. mp_call c b = (fst (queue_call (nat (mp_capacity b)) c (mp_contents b)), b') \<and> mp_inv b'
    \<and> mp_contents b' = snd (queue_call (nat (mp_capacity b)) c (mp_contents b)) \<and> nat (mp_capacity b') = nat (mp_capacity b)"
proof (cases c)
  case (Ring_enq x)
  then show ?thesis using mp_enq_room [OF assms, of x] mp_enq_full [OF assms, of x]
    by (cases "length (mp_contents b) < nat (mp_capacity b)") fastforce+
next
  case Ring_deq
  then show ?thesis using mp_deq_cons [OF assms] mp_deq_empty [OF assms] by (cases "mp_contents b") fastforce+
next
  case (Ring_batch n)
  then show ?thesis using mp_batch_call [OF assms, of n] by auto
qed

lemma mp_answers:
  "mp_inv b \<Longrightarrow> answers mp_call cs b = answers (queue_call (nat (mp_capacity b))) cs (mp_contents b)"
proof (induction cs arbitrary: b)
  case (Cons c cs)
  obtain b' where "mp_call c b = (fst (queue_call (nat (mp_capacity b)) c (mp_contents b)), b')" "mp_inv b'"
    "mp_contents b' = snd (queue_call (nat (mp_capacity b)) c (mp_contents b))" "nat (mp_capacity b') = nat (mp_capacity b)"
    using mp_call_refines [OF Cons.prems, of c] by blast
  then show ?case using Cons.IH [of b'] by (simp add: case_prod_beta)
qed simp

text \<open>
  C6. An \<open>MPSCRingBuffer\<close> answers every sequence of \<open>tryEnqueue\<close>, \<open>tryDequeue\<close> and \<open>tryDequeueBatch\<close>
  calls, batches anywhere among the others, as the bounded FIFO list of its capacity does; so the slot
  check before the write never rejects an item while there is room.
\<close>

theorem mpsc_refines_fifo:
  assumes "capacity config \<le> 2 ^ 30"
  shows "\<exists>b :: 'a mpsc. new_MPSCRingBuffer config = Some b \<and> capacity config \<le> mp_capacity b \<and>
           (\<forall>cs. answers mp_call cs b = answers (queue_call (nat (mp_capacity b))) cs [])"
proof -
  obtain b :: "'a mpsc" where b: "new_MPSCRingBuffer config = Some b"
    using ring_sizes [OF assms] by (auto simp: new_MPSCRingBuffer_def)
  show ?thesis using mp_new_inv [OF b] mp_answers [of b] b by auto
qed

theorem mpsc_refines_fifo_witness:
  "\<exists>b :: int mpsc. new_MPSCRingBuffer \<lparr>capacity = 3, enableMetrics = True, enableBatching = True, batchSize = 32\<rparr> = Some b \<and>
     answers mp_call [Ring_enq 1, Ring_enq 2, Ring_batch 2, Ring_enq 3, Ring_deq] b
       = [Ring_accepted True, Ring_accepted True, Ring_items [1, 2], Ring_accepted True, Ring_item (Some 3)]"
proof -
  let ?c = "\<lparr>capacity = 3, enableMetrics = True, enableBatching = True, batchSize = 32\<rparr>"
  have "capacity ?c \<le> 2 ^ 30" by simp
  from mpsc_refines_fifo [OF this, where 'a = int] obtain b :: "int mpsc" where
    b: "new_MPSCRingBuffer ?c = Some b" "3 \<le> mp_capacity b" "\<And>cs. answers mp_call cs b = answers (queue_call (nat (mp_capacity b))) cs []"
    by auto
  from b(2) have "0 < nat (mp_capacity b)" "Suc 0 < nat (mp_capacity b)" by simp_all
  then have "answers (queue_call (nat (mp_capacity b))) [Ring_enq 1, Ring_enq 2, Ring_batch 2, Ring_enq 3, Ring_deq] []
    = [Ring_accepted True, Ring_accepted True, Ring_items [1, 2 :: int], Ring_accepted True, Ring_item (Some 3)]"
    by simp
  with b(1) show ?thesis unfolding b(3) [symmetric] by blast
qed

text \<open>
  The metrics of a multi-producer ring are right after any run: the four counters equal the
  number of accepted and rejected \<open>tryEnqueue\<close> calls and of successful and empty \<open>tryDequeue\<close> calls
  the caller saw, the reported size is the number of queued items, enqueued minus dequeued, and the
  reported utilization is exactly size over capacity, between 0 and 1.
\<close>

theorem mpsc_metrics_exact:
  assumes "new_MPSCRingBuffer config = Some b" "fifo_run mp_tryEnqueue mp_tryDequeue b cs = (rs, b')"
    "mp_getMetrics b' = (m, b'')"
  shows "counters m = counts rs \<and>
         m_size m = int (length (snd (fifo_spec_run (nat (mp_capacity b)) [] cs))) \<and>
         m_size m = m_totalEnqueued m - m_totalDequeued m \<and>
         m_utilization m = of_int (m_size m) / of_int (mp_capacity b) \<and>
         0 \<le> m_utilization m \<and> m_utilization m \<le> 1"
proof -
  note i = mp_new_inv [OF assms(1)]
  have r: "mp_inv b'" "mp_contents b' = snd (fifo_spec_run (nat (mp_capacity b)) [] cs)"
    "nat (mp_capacity b') = nat (mp_capacity b)"
    using mpq.run_refines [of b cs] i assms(2) by auto
  have sh: "ring_shape (mp_buffer b') (mp_capacity b') (mp_mask b') (mp_head b') (mp_tail b')"
    using r(1) by (simp add: mp_inv_def)
  obtain c where c: "nextPowerOf2 (capacity config) = Some c" "mp_capacity b = c" "mp_balanced b"
      "counters (mp_metrics b) = (0, 0, 0, 0)"
    using assms(1) by (auto simp: new_MPSCRingBuffer_def counters_def initial_metrics_def mp_balanced_def split: option.splits)
  obtain k where k: "c = 2 ^ k" "k \<le> 30" using c(1) by (rule nextPowerOf2_Some)
  have cap: "mp_capacity b' = mp_capacity b" using r(3) ring_shape_cap [OF sh] c k by auto
  have "(2::int) ^ k \<le> 2 ^ 30" using k(2) by (intro power_increasing) auto
  then have small: "mp_capacity b' < 2 ^ 53" using c k cap by simp
  have m: "m = set_size (mp_capacity b') (mp_tail b' - mp_head b') (mp_metrics b')"
    using assms(3) by (simp add: mp_getMetrics_def mp_size_def Let_def)
  have "counters m = counts rs"
    using mp_run_counters [OF assms(2)] c(4) by (auto simp: m set_size_def counters_def add4_def split: prod.splits)
  moreover have sz: "m_size m = mp_tail b' - mp_head b'" by (simp add: m set_size_def)
  moreover have "mp_head b' \<le> mp_tail b'" using sh by (simp add: ring_shape_def)
  then have "m_size m = int (length (snd (fifo_spec_run (nat (mp_capacity b)) [] cs)))"
    using r(2) length_mp_contents [of b'] sz by simp
  moreover have "m_size m = m_totalEnqueued m - m_totalDequeued m"
    using mp_run_balanced [OF assms(2) c(3)] sz by (simp add: mp_balanced_def m set_size_def)
  moreover have "m_utilization m = of_int (m_size m) / of_int (mp_capacity b) \<and> 0 \<le> m_utilization m \<and> m_utilization m \<le> 1"
    using utilization_exact [OF sh small, of "mp_metrics b'"] unfolding m [symmetric] sz unfolding cap .
  ultimately show ?thesis by simp
qed

theorem mpsc_metrics_exact_witness:
  "\<exists>b b' m b''. new_MPSCRingBuffer \<lparr>capacity = 1, enableMetrics = True, enableBatching = True, batchSize = 32\<rparr> = Some (b :: int mpsc) \<and>
     fifo_run mp_tryEnqueue mp_tryDequeue b [Enq 4, Enq 5] = ([EnqRes True, EnqRes False], b') \<and>
     mp_getMetrics b' = (m, b'') \<and> counters m = (1, 1, 0, 0)"
proof -
  let ?b = "\<lparr>mp_buffer = [None], mp_capacity = 1, mp_mask = 0, mp_head = 0, mp_tail = 0,
             mp_metrics = initial_metrics 1, mp_latencySamples = []\<rparr> :: int mpsc"
  have b: "new_MPSCRingBuffer \<lparr>capacity = 1, enableMetrics = True, enableBatching = True, batchSize = 32\<rparr> = Some ?b"
    by (simp add: new_MPSCRingBuffer_def nextPowerOf2_def next_power_loop.simps)
  obtain b' where r: "fifo_run mp_tryEnqueue mp_tryDequeue ?b [Enq 4, Enq 5] = ([EnqRes True, EnqRes False], b')"
    by (simp add: mp_tryEnqueue_def Let_def)
  obtain m b'' where g: "mp_getMetrics b' = (m, b'')" by fastforce
  have "counters m = (1, 1, 0, 0)" using mpsc_metrics_exact [OF b r g] by (simp add: counts_def)
  with b r g show ?thesis by blast
qed

end
