(* ===== verification/Backpressure.thy ===== *)
theory Backpressure
  imports JSNumber "HOL-Library.Multiset"
begin

text \<open>
  \<open>src/flow_control/backpressure.ts\<close>: the asynchronous bounded queue \<open>AsyncBoundedQueue\<close> and the
  \<open>BackpressureManager\<close> on top of it.  A pending promise is a waiter with an identifier: a waiting
  consumer is its identifier, a waiting producer its identifier with the item its callback will
  push, and \<open>q_resolved\<close> records the promises that were resolved, in order.  An \<open>await\<close> inside
  \<open>enqueue\<close> or \<open>dequeue\<close> splits the method into the part before and the part after it, so that other
  calls may run in between.

  The lemmas: waiting consumers and queued items exclude each other, an open queue stays within its
  bound, no item is lost or duplicated by any sequence of calls, \<open>get\<close> leaves waiting producers
  asleep, and the manager's drop rules.
\<close>

section \<open>Packets\<close>

datatype PacketPriority = CRITICAL | STANDARD | METRIC

record 'd packet =
  pk_priority :: PacketPriority
  pk_data :: 'd
  pk_timestamp :: int

section \<open>The asynchronous bounded queue\<close>

datatype 'a resolution = ConsumerGot nat "'a option" | ProducerDone nat

record 'a abq =
  q_queue :: "'a list"
  q_waitingConsumers :: "nat list"
  q_waitingProducers :: "(nat \<times> 'a) list"
  q_closed :: bool
  q_maxSize :: int
  q_resolved :: "'a resolution list"

definition new_AsyncBoundedQueue :: "int \<Rightarrow> 'a abq" where
  "new_AsyncBoundedQueue maxSize =
     \<lparr>q_queue = [], q_waitingConsumers = [], q_waitingProducers = [], q_closed = False,
      q_maxSize = maxSize, q_resolved = []\<rparr>"

definition q_resolve :: "'a resolution \<Rightarrow> 'a abq \<Rightarrow> 'a abq" where
  "q_resolve r q = q\<lparr>q_resolved := q_resolved q @ [r]\<rparr>"

definition q_push :: "'a \<Rightarrow> 'a abq \<Rightarrow> 'a abq" where
  "q_push x q = q\<lparr>q_queue := q_queue q @ [x]\<rparr>"

text \<open>\<open>Array.prototype.shift\<close>: \<open>undefined\<close> on an empty array.\<close>

definition q_shift :: "'a abq \<Rightarrow> 'a option \<times> 'a abq" where
  "q_shift q = (case q_queue q of [] \<Rightarrow> (None, q) | x # xs \<Rightarrow> (Some x, q\<lparr>q_queue := xs\<rparr>))"

definition q_size :: "'a abq \<Rightarrow> int" where "q_size q = int (length (q_queue q))"
definition q_isEmpty :: "'a abq \<Rightarrow> bool" where "q_isEmpty q = (length (q_queue q) = 0)"
definition q_isFull :: "'a abq \<Rightarrow> bool" where "q_isFull q = (q_size q \<ge> q_maxSize q)"

lemma q_shift_waiters [simp]:
  "q_waitingConsumers (snd (q_shift q)) = q_waitingConsumers q"
  "q_waitingProducers (snd (q_shift q)) = q_waitingProducers q"
  "q_closed (snd (q_shift q)) = q_closed q"
  "q_maxSize (snd (q_shift q)) = q_maxSize q"
  "q_resolved (snd (q_shift q)) = q_resolved q"
  by (simp_all add: q_shift_def split: list.split)

lemma q_push_simps [simp]:
  "q_queue (q_push x q) = q_queue q @ [x]"
  "q_waitingConsumers (q_push x q) = q_waitingConsumers q"
  "q_waitingProducers (q_push x q) = q_waitingProducers q"
  "q_closed (q_push x q) = q_closed q"
  "q_maxSize (q_push x q) = q_maxSize q"
  "q_resolved (q_push x q) = q_resolved q"
  by (simp_all add: q_push_def)

lemma q_resolve_simps [simp]:
  "q_queue (q_resolve r q) = q_queue q"
  "q_waitingConsumers (q_resolve r q) = q_waitingConsumers q"
  "q_waitingProducers (q_resolve r q) = q_waitingProducers q"
  "q_closed (q_resolve r q) = q_closed q"
  "q_maxSize (q_resolve r q) = q_maxSize q"
  "q_resolved (q_resolve r q) = q_resolved q @ [r]"
  by (simp_all add: q_resolve_def)

definition waiters :: "'a abq \<Rightarrow> nat" where
  "waiters q = length (q_waitingConsumers q) + length (q_waitingProducers q)"

text \<open>
  \<open>notifyConsumer\<close> hands the front item to a waiting consumer and then calls \<open>notifyProducer\<close>; the
  callback of a waiting producer pushes its item, calls \<open>notifyConsumer\<close> and resolves.
\<close>

function (sequential) notifyConsumer :: "'a abq \<Rightarrow> 'a abq" and notifyProducer :: "'a abq \<Rightarrow> 'a abq" where
  "notifyConsumer q =
     (case q_waitingConsumers q of
        [] \<Rightarrow> q
      | c # cs \<Rightarrow>
          (let (x, q1) = q_shift (q\<lparr>q_waitingConsumers := cs\<rparr>)
           in notifyProducer (q_resolve (ConsumerGot c x) q1)))"
| "notifyProducer q =
     (case q_waitingProducers q of
        [] \<Rightarrow> q
      | (p, x) # ps \<Rightarrow>
          if q_size q < q_maxSize q
          then q_resolve (ProducerDone p) (notifyConsumer (q_push x (q\<lparr>q_waitingProducers := ps\<rparr>)))
          else q)"
  by pat_completeness auto

termination
proof (relation "measure (\<lambda>s. case s of Inl q \<Rightarrow> waiters q | Inr q \<Rightarrow> waiters q)", goal_cases)
  case (2 q c cs y x q1)
  have "q1 = snd (q_shift (q\<lparr>q_waitingConsumers := cs\<rparr>))" using 2(2,3) by (metis snd_conv)
  with 2(1) show ?case by (simp add: waiters_def)
qed (auto simp: waiters_def)

declare notifyConsumer.simps [simp del] notifyProducer.simps [simp del]

datatype put_result = PutDone | PutPending | PutClosed
datatype 'a get_result = Got 'a | GetPending | GetClosed

definition put :: "nat \<Rightarrow> 'a \<Rightarrow> 'a abq \<Rightarrow> put_result \<times> 'a abq" where
  "put pid item q =
     (if q_closed q then (PutClosed, q)
      else if q_size q < q_maxSize q then (PutDone, notifyConsumer (q_push item q))
      else (PutPending, q\<lparr>q_waitingProducers := q_waitingProducers q @ [(pid, item)]\<rparr>))"

definition tryPut :: "'a \<Rightarrow> 'a abq \<Rightarrow> bool \<times> 'a abq" where
  "tryPut item q =
     (if q_closed q \<or> q_size q \<ge> q_maxSize q then (False, q)
      else (True, notifyConsumer (q_push item q)))"

definition abq_get :: "nat \<Rightarrow> 'a abq \<Rightarrow> 'a get_result \<times> 'a abq" where
  "abq_get cid q =
     (case q_queue q of
        x # xs \<Rightarrow> (Got x, q\<lparr>q_queue := xs\<rparr>)
      | [] \<Rightarrow> if q_closed q then (GetClosed, q)
              else (GetPending, q\<lparr>q_waitingConsumers := q_waitingConsumers q @ [cid]\<rparr>))"

definition tryGet :: "'a abq \<Rightarrow> 'a option \<times> 'a abq" where
  "tryGet q =
     (case q_queue q of
        x # xs \<Rightarrow> (Some x, notifyProducer (q\<lparr>q_queue := xs\<rparr>))
      | [] \<Rightarrow> (None, q))"

text \<open>\<open>close\<close>: every waiting consumer is resolved with \<open>undefined\<close>, then every producer callback runs.\<close>

fun close_consumers :: "nat list \<Rightarrow> 'a abq \<Rightarrow> 'a abq" where
  "close_consumers [] q = q\<lparr>q_waitingConsumers := []\<rparr>"
| "close_consumers (c # cs) q =
     close_consumers cs (q_resolve (ConsumerGot c None) (q\<lparr>q_waitingConsumers := cs\<rparr>))"

fun close_producers :: "(nat \<times> 'a) list \<Rightarrow> 'a abq \<Rightarrow> 'a abq" where
  "close_producers [] q = q\<lparr>q_waitingProducers := []\<rparr>"
| "close_producers ((p, x) # ps) q =
     close_producers ps
       (q_resolve (ProducerDone p) (notifyConsumer (q_push x (q\<lparr>q_waitingProducers := ps\<rparr>))))"

definition abq_close :: "'a abq \<Rightarrow> 'a abq" where
  "abq_close q =
     (let q1 = close_consumers (q_waitingConsumers q) (q\<lparr>q_closed := True\<rparr>)
      in close_producers (q_waitingProducers q1) q1)"


section \<open>The manager\<close>

record bp_config =
  bp_maxCapacity :: int
  bp_dropThreshold :: rat
  bp_slowDownThreshold :: rat
  bp_slowDownDelay :: rat
  bp_enableMetrics :: bool

record bp_metrics =
  bm_queueLength :: int
  bm_maxCapacity :: int
  bm_saturation :: rat
  bm_droppedPackets :: int
  bm_slowedDownIngestions :: int
  bm_averageProcessingTime :: rat

record 'd bpm =
  mgr_queue :: "'d packet abq"
  mgr_config :: bp_config
  mgr_metrics :: bp_metrics
  mgr_processingTimes :: "rat list"

definition MAX_PROCESSING_TIME_SAMPLES :: nat where "MAX_PROCESSING_TIME_SAMPLES = 100"

text \<open>The doubles written \<open>0.9\<close> and \<open>0.7\<close> in the source are the roundings of those decimals.\<close>

definition default_bp_config :: bp_config where
  "default_bp_config =
     \<lparr>bp_maxCapacity = 1000, bp_dropThreshold = fl (9 / 10), bp_slowDownThreshold = fl (7 / 10),
      bp_slowDownDelay = 100, bp_enableMetrics = True\<rparr>"

definition new_BackpressureManager :: "bp_config \<Rightarrow> 'd bpm" where
  "new_BackpressureManager config =
     \<lparr>mgr_queue = new_AsyncBoundedQueue (bp_maxCapacity config), mgr_config = config,
      mgr_metrics = \<lparr>bm_queueLength = 0, bm_maxCapacity = bp_maxCapacity config, bm_saturation = 0,
                     bm_droppedPackets = 0, bm_slowedDownIngestions = 0, bm_averageProcessingTime = 0\<rparr>,
      mgr_processingTimes = []\<rparr>"

definition updateMetrics :: "'d bpm \<Rightarrow> 'd bpm" where
  "updateMetrics g =
     g\<lparr>mgr_metrics := (mgr_metrics g)
         \<lparr>bm_queueLength := q_size (mgr_queue g),
          bm_saturation := jsdiv (of_int (q_size (mgr_queue g))) (of_int (bp_maxCapacity (mgr_config g)))\<rparr>\<rparr>"

definition count_dropped :: "'d bpm \<Rightarrow> 'd bpm" where
  "count_dropped g =
     g\<lparr>mgr_metrics := (mgr_metrics g)\<lparr>bm_droppedPackets := bm_droppedPackets (mgr_metrics g) + 1\<rparr>\<rparr>"

definition slow_down_delay :: "bp_config \<Rightarrow> rat \<Rightarrow> rat" where
  "slow_down_delay c saturation =
     jsmul (bp_slowDownDelay c)
       (jsdiv (jssub saturation (bp_slowDownThreshold c)) (jssub 1 (bp_slowDownThreshold c)))"

text \<open>\<open>applySlowDown\<close> up to its \<open>setTimeout\<close>: the delay waited for, if any.\<close>

definition applySlowDown :: "rat \<Rightarrow> 'd bpm \<Rightarrow> rat option \<times> 'd bpm" where
  "applySlowDown saturation g =
     (let delay = slow_down_delay (mgr_config g) saturation; m = mgr_metrics g in
      if delay > 0
      then (Some delay, g\<lparr>mgr_metrics := m\<lparr>bm_slowedDownIngestions := bm_slowedDownIngestions m + 1\<rparr>\<rparr>)
      else (None, g))"

text \<open>\<open>enqueue\<close> up to the end of the slow-down: the saturation it decides with and the delay.\<close>

definition enqueue_begin :: "'d bpm \<Rightarrow> (rat \<times> rat option) \<times> 'd bpm" where
  "enqueue_begin g =
     (let saturation = jsdiv (of_int (q_size (mgr_queue g))) (of_int (bp_maxCapacity (mgr_config g)));
          g1 = updateMetrics g in
      if saturation \<ge> bp_slowDownThreshold (mgr_config g)
      then (let (delay, g2) = applySlowDown saturation g1 in ((saturation, delay), g2))
      else ((saturation, None), g1))"

datatype enqueue_result = Enqueued | Dropped | EnqueuePending

text \<open>The rest of \<open>enqueue\<close>, with the saturation read at the start; \<open>pid\<close> names the promise of \<open>put\<close>.\<close>

definition enqueue_finish :: "nat \<Rightarrow> 'd packet \<Rightarrow> rat \<Rightarrow> 'd bpm \<Rightarrow> enqueue_result \<times> 'd bpm" where
  "enqueue_finish pid packet saturation g =
     (if saturation \<ge> bp_dropThreshold (mgr_config g) \<and> pk_priority packet = METRIC
      then (Dropped, count_dropped g)
      else case tryPut packet (mgr_queue g) of
        (True, q) \<Rightarrow> (Enqueued, g\<lparr>mgr_queue := q\<rparr>)
      | (False, q) \<Rightarrow>
          if pk_priority packet = CRITICAL
          then (case put pid packet q of
                  (PutDone, q') \<Rightarrow> (Enqueued, g\<lparr>mgr_queue := q'\<rparr>)
                | (PutPending, q') \<Rightarrow> (EnqueuePending, g\<lparr>mgr_queue := q'\<rparr>)
                | (PutClosed, q') \<Rightarrow> (Dropped, count_dropped (g\<lparr>mgr_queue := q'\<rparr>)))
          else (Dropped, count_dropped (g\<lparr>mgr_queue := q\<rparr>)))"

definition recordProcessingTime :: "rat \<Rightarrow> 'd bpm \<Rightarrow> 'd bpm" where
  "recordProcessingTime time g =
     (let ts = mgr_processingTimes g @ [time];
          ts' = (if length ts > MAX_PROCESSING_TIME_SAMPLES then tl ts else ts)
      in g\<lparr>mgr_processingTimes := ts',
           mgr_metrics := (if length ts' > 0
             then (mgr_metrics g)\<lparr>bm_averageProcessingTime := jsdiv (js_sum ts') (of_nat (length ts'))\<rparr>
             else mgr_metrics g)\<rparr>)"

text \<open>
  \<open>dequeue\<close>: \<open>Got\<close> continues at once; after \<open>GetPending\<close> the call continues with \<open>dequeue_resume\<close> when
  its promise is resolved; \<open>GetClosed\<close> is the caught exception.
\<close>

definition dequeue_resume :: "rat \<Rightarrow> 'd bpm \<Rightarrow> 'd bpm" where
  "dequeue_resume processingTime g = updateMetrics (recordProcessingTime processingTime g)"

definition dequeue_begin :: "nat \<Rightarrow> rat \<Rightarrow> 'd bpm \<Rightarrow> 'd packet get_result \<times> 'd bpm" where
  "dequeue_begin cid processingTime g =
     (case abq_get cid (mgr_queue g) of
        (Got p, q) \<Rightarrow> (Got p, dequeue_resume processingTime (g\<lparr>mgr_queue := q\<rparr>))
      | (r, q) \<Rightarrow> (r, g\<lparr>mgr_queue := q\<rparr>))"

definition bp_tryDequeue :: "rat \<Rightarrow> 'd bpm \<Rightarrow> 'd packet option \<times> 'd bpm" where
  "bp_tryDequeue processingTime g =
     (case tryGet (mgr_queue g) of
        (Some p, q) \<Rightarrow> (Some p, dequeue_resume processingTime (g\<lparr>mgr_queue := q\<rparr>))
      | (None, q) \<Rightarrow> (None, g\<lparr>mgr_queue := q\<rparr>))"

definition bp_getMetrics :: "'d bpm \<Rightarrow> bp_metrics \<times> 'd bpm" where
  "bp_getMetrics g = (let g1 = updateMetrics g in (mgr_metrics g1, g1))"

definition bp_getQueueLength :: "'d bpm \<Rightarrow> int" where "bp_getQueueLength g = q_size (mgr_queue g)"
definition bp_getMaxCapacity :: "'d bpm \<Rightarrow> int" where "bp_getMaxCapacity g = bp_maxCapacity (mgr_config g)"

definition bp_resetMetrics :: "'d bpm \<Rightarrow> 'd bpm" where
  "bp_resetMetrics g =
     g\<lparr>mgr_metrics :=
         \<lparr>bm_queueLength = q_size (mgr_queue g), bm_maxCapacity = bp_maxCapacity (mgr_config g),
          bm_saturation = jsdiv (of_int (q_size (mgr_queue g))) (of_int (bp_maxCapacity (mgr_config g))),
          bm_droppedPackets = 0, bm_slowedDownIngestions = 0, bm_averageProcessingTime = 0\<rparr>,
       mgr_processingTimes := []\<rparr>"

definition bp_shutdown :: "'d bpm \<Rightarrow> 'd bpm" where
  "bp_shutdown g = g\<lparr>mgr_queue := abq_close (mgr_queue g)\<rparr>"

section \<open>Runs of the queue\<close>

datatype 'a abq_op = OPut nat 'a | OTryPut 'a | OGet nat | OTryGet | OClose

text \<open>One call: the items the queue took over, the items it returned directly, the new state.\<close>

fun abq_step :: "'a abq_op \<Rightarrow> 'a abq \<Rightarrow> ('a list \<times> 'a list) \<times> 'a abq" where
  "abq_step (OPut p x) q = (let (r, q') = put p x q in ((if r = PutClosed then [] else [x], []), q'))"
| "abq_step (OTryPut x) q = (let (ok, q') = tryPut x q in ((if ok then [x] else [], []), q'))"
| "abq_step (OGet c) q =
     (let (r, q') = abq_get c q in (([], case r of Got x \<Rightarrow> [x] | _ \<Rightarrow> []), q'))"
| "abq_step OTryGet q = (let (r, q') = tryGet q in (([], case r of Some x \<Rightarrow> [x] | None \<Rightarrow> []), q'))"
| "abq_step OClose q = (([], []), abq_close q)"

fun abq_run :: "'a abq_op list \<Rightarrow> 'a abq \<Rightarrow> ('a list \<times> 'a list) \<times> 'a abq" where
  "abq_run [] q = (([], []), q)"
| "abq_run (c # cs) q =
     (let ((i, ret), q1) = abq_step c q; ((is, rets), q2) = abq_run cs q1
      in ((i @ is, ret @ rets), q2))"

text \<open>The items handed to waiting consumers.\<close>

fun delivered :: "'a resolution list \<Rightarrow> 'a list" where
  "delivered [] = []"
| "delivered (ConsumerGot c (Some x) # rs) = x # delivered rs"
| "delivered (_ # rs) = delivered rs"

lemma delivered_append [simp]: "delivered (rs @ rs') = delivered rs @ delivered rs'"
  by (induction rs rule: delivered.induct) auto

definition held :: "'a abq \<Rightarrow> 'a multiset" where
  "held q = mset (delivered (q_resolved q)) + mset (q_queue q) + mset (map snd (q_waitingProducers q))"

lemma held_update [simp]:
  "held (q\<lparr>q_waitingConsumers := cs\<rparr>) = held q"
  "held (q\<lparr>q_closed := b\<rparr>) = held q"
  "held (q_resolve (ConsumerGot c None) q) = held q"
  "held (q_resolve (ProducerDone p) q) = held q"
  by (simp_all add: held_def)

section \<open>Invariants of the queue\<close>

definition abq_inv :: "'a abq \<Rightarrow> bool" where
  "abq_inv q \<longleftrightarrow> (q_waitingConsumers q \<noteq> [] \<longrightarrow> q_queue q = []) \<and> (\<not> q_closed q \<longrightarrow> q_size q \<le> max 0 (q_maxSize q))"

lemma q_shift_held: "q_shift q = (x, q1) \<Longrightarrow> held (q_resolve (ConsumerGot c x) q1) = held q"
  by (auto simp: q_shift_def held_def split: list.splits)

lemma q_shiftD:
  "q_shift q = (x, q1) \<Longrightarrow>
     q_waitingConsumers q1 = q_waitingConsumers q \<and> q_waitingProducers q1 = q_waitingProducers q \<and>
     q_closed q1 = q_closed q \<and> q_maxSize q1 = q_maxSize q \<and> q_queue q1 = tl (q_queue q)"
  by (auto simp: q_shift_def split: list.splits)

lemma notify_frame:
  "q_closed (notifyConsumer q) = q_closed q \<and> q_maxSize (notifyConsumer q) = q_maxSize q"
  "q_closed (notifyProducer q) = q_closed q \<and> q_maxSize (notifyProducer q) = q_maxSize q"
proof (induction q and q rule: notifyConsumer_notifyProducer.induct)
  case (1 q)
  then show ?case
    by (auto simp: notifyConsumer.simps [of q] split: list.split prod.split dest!: q_shiftD)
next
  case (2 q)
  then show ?case by (auto simp: notifyProducer.simps [of q] split: list.split)
qed

lemma notify_held: "held (notifyConsumer q) = held q" "held (notifyProducer q) = held q"
proof (induction q and q rule: notifyConsumer_notifyProducer.induct)
  case (1 q)
  then show ?case
    by (auto simp: notifyConsumer.simps [of q] q_shift_held split: list.split prod.split)
next
  case (2 q)
  then show ?case
    by (auto simp: notifyProducer.simps [of q] held_def split: list.split)
qed

lemma notifyConsumer_Cons:
  "q_waitingConsumers q = c # cs \<Longrightarrow> q_shift (q\<lparr>q_waitingConsumers := cs\<rparr>) = (x, q1) \<Longrightarrow>
   notifyConsumer q = notifyProducer (q_resolve (ConsumerGot c x) q1)"
  by (simp add: notifyConsumer.simps [of q])

text \<open>
  \<open>notifyConsumer\<close> runs right after a push, when a waiting consumer means that the pushed item is the
  only one; \<open>notifyProducer\<close> runs when a waiting consumer means an empty queue.
\<close>

lemma notify_consumers_empty:
  "(q_waitingConsumers q \<noteq> [] \<longrightarrow> length (q_queue q) \<le> 1) \<Longrightarrow>
     q_waitingConsumers (notifyConsumer q) \<noteq> [] \<longrightarrow> q_queue (notifyConsumer q) = []"
  "(q_waitingConsumers q \<noteq> [] \<longrightarrow> q_queue q = []) \<Longrightarrow>
     q_waitingConsumers (notifyProducer q) \<noteq> [] \<longrightarrow> q_queue (notifyProducer q) = []"
proof (induction q and q rule: notifyConsumer_notifyProducer.induct)
  case (1 q)
  show ?case
  proof (cases "q_waitingConsumers q")
    case Nil
    then show ?thesis by (simp add: notifyConsumer.simps [of q])
  next
    case (Cons c cs)
    obtain x q1 where sh: "q_shift (q\<lparr>q_waitingConsumers := cs\<rparr>) = (x, q1)" by fastforce
    have "q_queue (q_resolve (ConsumerGot c x) q1) = []"
      using 1(2) q_shiftD [OF sh] Cons by (cases "q_queue q") auto
    then show ?thesis using 1(1) [OF Cons sh [symmetric] refl] notifyConsumer_Cons [OF Cons sh] by simp
  qed
next
  case (2 q)
  then show ?case by (auto simp: notifyProducer.simps [of q] split: list.split)
qed

lemma notify_size:
  "q_size q \<le> q_maxSize q \<Longrightarrow> q_size (notifyConsumer q) \<le> q_maxSize q"
  "q_size q \<le> q_maxSize q \<Longrightarrow> q_size (notifyProducer q) \<le> q_maxSize q"
proof (induction q and q rule: notifyConsumer_notifyProducer.induct)
  case (1 q)
  show ?case
  proof (cases "q_waitingConsumers q")
    case Nil
    then show ?thesis using 1(2) by (simp add: notifyConsumer.simps [of q])
  next
    case (Cons c cs)
    obtain x q1 where sh: "q_shift (q\<lparr>q_waitingConsumers := cs\<rparr>) = (x, q1)" by fastforce
    then have "q_size (q_resolve (ConsumerGot c x) q1) \<le> q_maxSize q" "q_maxSize q1 = q_maxSize q"
      using 1(2) q_shiftD [OF sh] by (auto simp: q_size_def)
    then show ?thesis using 1(1) [OF Cons sh [symmetric] refl] notifyConsumer_Cons [OF Cons sh] by simp
  qed
next
  case (2 q)
  then show ?case by (auto simp: notifyProducer.simps [of q] q_size_def split: list.split)
qed

lemma close_consumers_held:
  "held (close_consumers cs q) = held q \<and> q_waitingConsumers (close_consumers cs q) = [] \<and>
   q_waitingProducers (close_consumers cs q) = q_waitingProducers q \<and>
   q_queue (close_consumers cs q) = q_queue q \<and> q_closed (close_consumers cs q) = q_closed q"
  by (induction cs arbitrary: q) auto

lemma notifyConsumer_idle: "q_waitingConsumers q = [] \<Longrightarrow> notifyConsumer q = q"
  by (simp add: notifyConsumer.simps [of q])

lemma close_producers_spec:
  "q_waitingConsumers q = [] \<Longrightarrow> q_waitingProducers q = ps \<Longrightarrow>
   held (close_producers ps q) = held q \<and> q_waitingConsumers (close_producers ps q) = [] \<and>
   q_waitingProducers (close_producers ps q) = [] \<and>
   q_queue (close_producers ps q) = q_queue q @ map snd ps \<and> q_closed (close_producers ps q) = q_closed q"
proof (induction ps arbitrary: q)
  case (Cons pr ps)
  obtain p x where pr: "pr = (p, x)" by fastforce
  let ?q = "q_resolve (ProducerDone p) (notifyConsumer (q_push x (q\<lparr>q_waitingProducers := ps\<rparr>)))"
  have "notifyConsumer (q_push x (q\<lparr>q_waitingProducers := ps\<rparr>)) = q_push x (q\<lparr>q_waitingProducers := ps\<rparr>)"
    using Cons.prems(1) by (intro notifyConsumer_idle) simp
  then have "held ?q = held q" "q_waitingConsumers ?q = []" "q_waitingProducers ?q = ps"
      "q_queue ?q = q_queue q @ [x]" "q_closed ?q = q_closed q"
    using Cons.prems by (simp_all add: held_def pr)
  with Cons.IH [of ?q] show ?case by (simp add: pr)
qed (simp add: held_def)

lemma abq_close_spec:
  "held (abq_close q) = held q \<and> q_waitingConsumers (abq_close q) = [] \<and> q_waitingProducers (abq_close q) = [] \<and>
   q_queue (abq_close q) = q_queue q @ map snd (q_waitingProducers q) \<and> q_closed (abq_close q)"
proof -
  let ?q = "close_consumers (q_waitingConsumers q) (q\<lparr>q_closed := True\<rparr>)"
  have "held ?q = held q \<and> q_waitingConsumers ?q = [] \<and> q_waitingProducers ?q = q_waitingProducers q \<and>
      q_queue ?q = q_queue q \<and> q_closed ?q"
    using close_consumers_held [of "q_waitingConsumers q" "q\<lparr>q_closed := True\<rparr>"] by simp
  with close_producers_spec [of ?q "q_waitingProducers ?q"] show ?thesis by (simp add: abq_close_def Let_def)
qed

section \<open>One step and a whole run\<close>

lemma abq_step_inv:
  assumes "abq_inv q" "abq_step c q = (io, q')"
  shows "abq_inv q'"
proof (cases c)
  case (OPut p x)
  then show ?thesis
    using assms notify_consumers_empty(1) [of "q_push x q"] notify_size(1) [of "q_push x q"]
      notify_frame(1) [of "q_push x q"]
    by (auto simp: put_def abq_inv_def q_size_def split: if_splits)
next
  case (OTryPut x)
  then show ?thesis
    using assms notify_consumers_empty(1) [of "q_push x q"] notify_size(1) [of "q_push x q"]
      notify_frame(1) [of "q_push x q"]
    by (auto simp: tryPut_def abq_inv_def q_size_def split: if_splits)
next
  case (OGet c)
  then show ?thesis using assms by (auto simp: abq_get_def abq_inv_def q_size_def split: list.splits if_splits)
next
  case OTryGet
  show ?thesis
  proof (cases "q_queue q")
    case Nil
    then show ?thesis using OTryGet assms by (auto simp: tryGet_def)
  next
    case (Cons x xs)
    then show ?thesis
      using OTryGet assms notify_consumers_empty(2) [of "q\<lparr>q_queue := xs\<rparr>"] notify_size(2) [of "q\<lparr>q_queue := xs\<rparr>"]
        notify_frame(2) [of "q\<lparr>q_queue := xs\<rparr>"]
      by (auto simp: tryGet_def abq_inv_def q_size_def)
  qed
next
  case OClose
  then show ?thesis using assms abq_close_spec [of q] by (auto simp: abq_inv_def)
qed

lemma abq_step_held:
  assumes "abq_step c q = ((i, ret), q')"
  shows "held q' + mset ret = held q + mset i"
proof (cases c)
  case (OPut p x)
  then show ?thesis using assms notify_held(1) [of "q_push x q"]
    by (auto simp: put_def held_def split: if_splits)
next
  case (OTryPut x)
  then show ?thesis using assms notify_held(1) [of "q_push x q"]
    by (auto simp: tryPut_def held_def split: if_splits)
next
  case (OGet c)
  then show ?thesis using assms by (auto simp: abq_get_def held_def split: list.splits if_splits)
next
  case OTryGet
  show ?thesis
  proof (cases "q_queue q")
    case Nil
    then show ?thesis using OTryGet assms by (auto simp: tryGet_def)
  next
    case (Cons x xs)
    then show ?thesis using OTryGet assms notify_held(2) [of "q\<lparr>q_queue := xs\<rparr>"]
      by (auto simp: tryGet_def held_def)
  qed
next
  case OClose
  then show ?thesis using assms abq_close_spec [of q] by auto
qed

lemma abq_run_inv_held:
  "abq_inv q \<Longrightarrow> abq_run cs q = ((is, rets), q') \<Longrightarrow>
   abq_inv q' \<and> held q' + mset rets = held q + mset is"
proof (induction cs arbitrary: q "is" rets)
  case (Cons c cs)
  obtain i ret q1 where s: "abq_step c q = ((i, ret), q1)" by (metis prod.exhaust)
  with Cons.prems(2) obtain is1 rets1 where r: "abq_run cs q1 = ((is1, rets1), q')"
      and eq: "is = i @ is1" "rets = ret @ rets1"
    by (auto simp: Let_def split: prod.splits)
  have "abq_inv q1" using abq_step_inv [OF Cons.prems(1) s] .
  from Cons.IH [OF this r] abq_step_held [OF s] show ?case
    by (simp add: eq) (metis (no_types, lifting) add.assoc add.commute)
qed simp

lemma new_abq_inv: "abq_inv (new_AsyncBoundedQueue n)" "held (new_AsyncBoundedQueue n) = {#}"
  by (simp_all add: abq_inv_def new_AsyncBoundedQueue_def q_size_def held_def)

section \<open>Properties\<close>

text \<open>
  C7. After any sequence of \<open>put\<close>, \<open>tryPut\<close>, \<open>get\<close>, \<open>tryGet\<close> and \<open>close\<close> calls on a fresh
  \<open>AsyncBoundedQueue\<close>, no item is lost or duplicated: the items it took over are exactly those
  returned to callers, handed to waiting consumers, still queued, or held by a waiting producer.
  A consumer waits only while nothing is queued, and until it is closed the queue holds at most
  \<open>maxSize\<close> items.
\<close>

theorem abq_conserves_items:
  assumes "abq_run cs (new_AsyncBoundedQueue n) = ((accepted, returned), q)"
  shows "mset accepted = mset returned + mset (delivered (q_resolved q)) + mset (q_queue q)
           + mset (map snd (q_waitingProducers q)) \<and>
         (q_waitingConsumers q \<noteq> [] \<longrightarrow> q_queue q = []) \<and>
         (q_closed q \<or> int (length (q_queue q)) \<le> max 0 (q_maxSize q))"
proof -
  have "abq_inv q \<and> held q + mset returned = {#} + mset accepted"
    using abq_run_inv_held [OF new_abq_inv(1) assms] by (simp only: new_abq_inv(2))
  then show ?thesis by (auto simp: abq_inv_def held_def q_size_def ac_simps)
qed

theorem abq_conserves_items_witness:
  "\<exists>q. abq_run [OGet 0, OPut 1 (10::int), OPut 2 20, OPut 3 30, OTryGet] (new_AsyncBoundedQueue 1) = (([10, 20, 30], [20]), q) \<and>
     mset [10, 20, 30] = mset [20] + mset (delivered (q_resolved q)) + mset (q_queue q) + mset (map snd (q_waitingProducers q))"
proof -
  have r: "\<exists>q. abq_run [OGet 0, OPut 1 (10::int), OPut 2 20, OPut 3 30, OTryGet] (new_AsyncBoundedQueue 1) = (([10, 20, 30], [20]), q)"
    by (simp add: new_AsyncBoundedQueue_def abq_get_def put_def tryGet_def q_size_def q_push_def q_resolve_def q_shift_def
        notifyConsumer.simps notifyProducer.simps)
  then show ?thesis using abq_conserves_items by blast
qed

text \<open>
  \<open>close\<close> ends every wait: no promise stays pending, the queue is closed so that later
  \<open>tryPut\<close> and \<open>put\<close> calls are refused, and the item of every waiting producer is appended behind
  the queued ones, even beyond \<open>maxSize\<close>.
\<close>

theorem abq_close_releases_waiters:
  "q_waitingConsumers (abq_close q) = [] \<and> q_waitingProducers (abq_close q) = [] \<and>
   q_queue (abq_close q) = q_queue q @ map snd (q_waitingProducers q) \<and>
   tryPut x (abq_close q) = (False, abq_close q) \<and> put p x (abq_close q) = (PutClosed, abq_close q)"
  using abq_close_spec [of q] by (simp add: tryPut_def put_def)

text \<open>
  \<open>get\<close> does not wake producers: after any number of \<open>get\<close> calls on an open queue the waiting
  producers are the same as before, and every call beyond the queued items waits as well.  A full
  queue drained through \<open>get\<close> (which is what \<open>dequeue\<close> calls) therefore leaves producers and
  consumers waiting for each other.
\<close>

theorem get_leaves_producers_waiting:
  assumes "\<not> q_closed q"
  shows "q_waitingProducers (fold (\<lambda>c r. snd (abq_get c r)) cs q) = q_waitingProducers q \<and>
         q_queue (fold (\<lambda>c r. snd (abq_get c r)) cs q) = drop (length cs) (q_queue q) \<and>
         q_waitingConsumers (fold (\<lambda>c r. snd (abq_get c r)) cs q) =
           q_waitingConsumers q @ drop (length (q_queue q)) cs"
  using assms
proof (induction cs arbitrary: q)
  case (Cons c cs)
  have "\<not> q_closed (snd (abq_get c q))"
    using Cons.prems by (auto simp: abq_get_def split: list.split)
  from Cons.IH [OF this] Cons.prems show ?case by (auto simp: abq_get_def split: list.splits)
qed simp

theorem get_leaves_producers_waiting_witness:
  "let q = snd (abq_run [OPut 0 (1::int), OPut 1 2] (new_AsyncBoundedQueue 1));
       r = fold (\<lambda>c r. snd (abq_get c r)) [2, 3] q
   in q_waitingProducers r = [(1, 2)] \<and> q_queue r = [] \<and> q_waitingConsumers r = [3]"
proof -
  let ?q = "snd (abq_run [OPut 0 (1::int), OPut 1 2] (new_AsyncBoundedQueue 1))"
  have q: "\<not> q_closed ?q" "q_waitingProducers ?q = [(1, 2)]" "q_queue ?q = [1]" "q_waitingConsumers ?q = []"
    by (simp_all add: new_AsyncBoundedQueue_def put_def q_size_def q_push_def notifyConsumer.simps)
  show ?thesis using get_leaves_producers_waiting [OF q(1), of "[2, 3]"] by (simp only: Let_def q) simp
qed

text \<open>
  What \<open>enqueue\<close> does with a packet once its slow-down is over, on every branch: it is dropped
  exactly when it is a metric packet and the saturation read at the start reached the drop
  threshold, or the queue is closed, or the queue is full and the packet is not critical; a critical
  packet that finds an open full queue waits; every other packet is queued.  The drop counter
  counts exactly the dropped packets.
\<close>

theorem enqueue_outcome:
  "fst (enqueue_finish pid p saturation g) =
     (let shed = saturation \<ge> bp_dropThreshold (mgr_config g) \<and> pk_priority p = METRIC;
          full = q_isFull (mgr_queue g)
      in if shed \<or> q_closed (mgr_queue g) \<or> (full \<and> pk_priority p \<noteq> CRITICAL) then Dropped
         else if full then EnqueuePending else Enqueued) \<and>
   bm_droppedPackets (mgr_metrics (snd (enqueue_finish pid p saturation g))) =
     bm_droppedPackets (mgr_metrics g) +
       (if fst (enqueue_finish pid p saturation g) = Dropped then 1 else 0)"
  by (auto simp: enqueue_finish_def tryPut_def put_def q_isFull_def count_dropped_def Let_def)

lemma jsdiv_unit:
  assumes "0 \<le> a" "a \<le> b"
  shows "0 \<le> jsdiv a b \<and> jsdiv a b \<le> 1"
proof -
  have "0 \<le> a / b" "a / b \<le> of_int 1" using assms by (auto simp: divide_le_eq_1)
  then show ?thesis using fl_nonneg [of "a / b"] fl_le_int [of "a / b" 1] by (simp add: jsdiv_def)
qed

text \<open>
  Before the drop decision: while the queue is within its capacity, the saturation is between
  0 and 1 and a full queue reads exactly 1; a call below the slow-down threshold is not delayed,
  and no call is ever delayed longer than the configured \<open>slowDownDelay\<close>, whatever the rounding of
  the intermediate quotients.
\<close>

theorem slow_down_bounded:
  assumes "0 < bp_maxCapacity (mgr_config g)" "bp_maxCapacity (mgr_config g) < 2 ^ 53"
    and "q_size (mgr_queue g) \<le> bp_maxCapacity (mgr_config g)"
    and "0 \<le> bp_slowDownThreshold (mgr_config g)" "bp_slowDownThreshold (mgr_config g) < 1"
    and "0 \<le> bp_slowDownDelay (mgr_config g)" "fl (bp_slowDownDelay (mgr_config g)) = bp_slowDownDelay (mgr_config g)"
    and "enqueue_begin g = ((saturation, delay), g')"
  shows "0 \<le> saturation \<and> saturation \<le> 1 \<and>
         (q_size (mgr_queue g) = bp_maxCapacity (mgr_config g) \<longrightarrow> saturation = 1) \<and>
         (saturation < bp_slowDownThreshold (mgr_config g) \<longrightarrow> delay = None) \<and>
         (\<forall>d. delay = Some d \<longrightarrow> 0 < d \<and> d \<le> bp_slowDownDelay (mgr_config g))"
proof -
  let ?c = "mgr_config g" and ?n = "q_size (mgr_queue g)"
  have sat: "saturation = jsdiv (of_int ?n) (of_int (bp_maxCapacity ?c))"
    using assms(8) by (auto simp: enqueue_begin_def Let_def split: if_splits prod.splits)
  have unit: "0 \<le> saturation \<and> saturation \<le> 1"
    unfolding sat using assms(1,3) by (intro jsdiv_unit) (auto simp: q_size_def)
  have full: "?n = bp_maxCapacity ?c \<Longrightarrow> saturation = 1"
    using assms(1) fl_of_int [of 1] by (simp add: sat jsdiv_def)
  have mult: "jsdiv (jssub saturation t) (jssub 1 t) \<le> 1" if "t \<le> saturation" "t < 1" for t
  proof -
    have "0 \<le> jssub saturation t" "jssub saturation t \<le> jssub 1 t"
      using that unit by (auto simp: jssub_def intro: fl_nonneg fl_mono)
    then show ?thesis using jsdiv_unit by blast
  qed
  have bound: "slow_down_delay ?c saturation \<le> bp_slowDownDelay ?c" if "bp_slowDownThreshold ?c \<le> saturation"
  proof -
    have "bp_slowDownDelay ?c * jsdiv (jssub saturation (bp_slowDownThreshold ?c)) (jssub 1 (bp_slowDownThreshold ?c))
        \<le> bp_slowDownDelay ?c"
      using mult [OF that assms(5)] assms(6) by (intro mult_left_le) auto
    then show ?thesis using fl_mono assms(7) by (fastforce simp: slow_down_delay_def jsmul_def)
  qed
  have cfg: "mgr_config (updateMetrics g) = mgr_config g" by (simp add: updateMetrics_def)
  have "(saturation < bp_slowDownThreshold ?c \<longrightarrow> delay = None) \<and>
      (\<forall>d. delay = Some d \<longrightarrow> 0 < d \<and> d = slow_down_delay ?c saturation \<and> bp_slowDownThreshold ?c \<le> saturation)"
    using assms(8) by (auto simp: enqueue_begin_def applySlowDown_def Let_def sat cfg split: if_splits prod.splits)
  with unit full bound show ?thesis by blast
qed

theorem slow_down_bounded_witness:
  "\<exists>saturation delay g'. enqueue_begin (new_BackpressureManager \<lparr>bp_maxCapacity = 4, bp_dropThreshold = 1,
        bp_slowDownThreshold = 1 / 2, bp_slowDownDelay = 100, bp_enableMetrics = True\<rparr> :: unit bpm)
      = ((saturation, delay), g') \<and> 0 \<le> saturation \<and> saturation \<le> 1"
proof -
  let ?g = "new_BackpressureManager \<lparr>bp_maxCapacity = 4, bp_dropThreshold = 1,
        bp_slowDownThreshold = 1 / 2, bp_slowDownDelay = 100, bp_enableMetrics = True\<rparr> :: unit bpm"
  obtain saturation delay g' where e: "enqueue_begin ?g = ((saturation, delay), g')" by (metis prod.exhaust)
  have h: "0 < bp_maxCapacity (mgr_config ?g)" "bp_maxCapacity (mgr_config ?g) < 2 ^ 53"
    "q_size (mgr_queue ?g) \<le> bp_maxCapacity (mgr_config ?g)"
    "0 \<le> bp_slowDownThreshold (mgr_config ?g)" "bp_slowDownThreshold (mgr_config ?g) < 1"
    "0 \<le> bp_slowDownDelay (mgr_config ?g)" "fl (bp_slowDownDelay (mgr_config ?g)) = bp_slowDownDelay (mgr_config ?g)"
    using fl_of_int [of 100] by (simp_all add: new_BackpressureManager_def new_AsyncBoundedQueue_def q_size_def)
  show ?thesis using slow_down_bounded [OF h e] e by blast
qed

end
