(* ===== verification/Channels.thy ===== *)
theory Channels
  imports RingBuffer Backpressure
begin

text \<open>
  The ingestion channels of \<open>src/queue/lockFreeRingBuffer.ts\<close>: \<open>LockFreeIngestionChannel\<close> wraps a
  multi-producer ring of packets, \<open>LockFreeChannelManager\<close> keeps one channel per name in an
  insertion-ordered map.  A method that reads the clock takes the readings as arguments.  The manager
  hands out references; an operation on the channel it returned is \<open>with_channel\<close> on its entry.

  The lemmas: every channel operation keeps the ring's invariant, \<open>publish\<close> and \<open>subscribe\<close> act on
  the channel's contents as append and take, and the aggregate of \<open>getAggregateMetrics\<close> is the sum over
  the channels.
\<close>

section \<open>Configuration\<close>

record ring_config_part =
  p_capacity :: "int option"
  p_enableMetrics :: "bool option"
  p_enableBatching :: "bool option"
  p_batchSize :: "int option"

definition default_ring_config :: ring_config where
  "default_ring_config = \<lparr>capacity = 1024, enableMetrics = True, enableBatching = True, batchSize = 32\<rparr>"

text \<open>\<open>{ ...defaults, ...config }\<close> for a partial configuration.\<close>

definition spread_config :: "ring_config_part \<Rightarrow> ring_config" where
  "spread_config p =
     \<lparr>capacity = case_option 1024 id (p_capacity p),
      enableMetrics = case_option True id (p_enableMetrics p),
      enableBatching = case_option True id (p_enableBatching p),
      batchSize = case_option 32 id (p_batchSize p)\<rparr>"

definition full_part :: "ring_config \<Rightarrow> ring_config_part" where
  "full_part c = \<lparr>p_capacity = Some (capacity c), p_enableMetrics = Some (enableMetrics c),
                  p_enableBatching = Some (enableBatching c), p_batchSize = Some (batchSize c)\<rparr>"

section \<open>\<open>LockFreeIngestionChannel\<close>\<close>

record 'd channel =
  ch_ringBuffer :: "'d packet mpsc"
  ch_config :: ring_config
  ch_name :: string

definition new_LockFreeIngestionChannel :: "string \<Rightarrow> ring_config_part \<Rightarrow> 'd channel option" where
  "new_LockFreeIngestionChannel name part =
     (let config = spread_config part in
      map_option (\<lambda>r. \<lparr>ch_ringBuffer = r, ch_config = config, ch_name = name\<rparr>) (new_MPSCRingBuffer config))"

definition publish :: "int \<Rightarrow> int \<Rightarrow> 'd packet \<Rightarrow> 'd channel \<Rightarrow> bool \<times> 'd channel" where
  "publish startTime endTime pkt ch =
     (let (success, r) = mp_tryEnqueue pkt (ch_ringBuffer ch); latency = of_int (endTime - startTime) in
      if success \<and> enableMetrics (ch_config ch)
      then (success, ch\<lparr>ch_ringBuffer := mp_recordLatency latency r\<rparr>)
      else (success, ch\<lparr>ch_ringBuffer := r\<rparr>))"

text \<open>\<open>maxItems || 1\<close>: an absent or zero limit means one item.\<close>

definition subscribe_limit :: "ring_config \<Rightarrow> int option \<Rightarrow> int" where
  "subscribe_limit config maxItems =
     (let m = (if enableBatching config \<and> maxItems = None then Some (batchSize config) else maxItems)
      in case m of None \<Rightarrow> 1 | Some n \<Rightarrow> if n = 0 then 1 else n)"

definition subscribe :: "int option \<Rightarrow> 'd channel \<Rightarrow> 'd packet list \<times> 'd channel" where
  "subscribe maxItems ch =
     (let (items, r) = mp_tryDequeueBatch (subscribe_limit (ch_config ch) maxItems) (ch_ringBuffer ch)
      in (items, ch\<lparr>ch_ringBuffer := r\<rparr>))"

definition ch_getMetrics :: "'d channel \<Rightarrow> ring_metrics \<times> 'd channel" where
  "ch_getMetrics ch = (let (m, r) = mp_getMetrics (ch_ringBuffer ch) in (m, ch\<lparr>ch_ringBuffer := r\<rparr>))"

definition ch_resetMetrics :: "'d channel \<Rightarrow> 'd channel" where
  "ch_resetMetrics ch = ch\<lparr>ch_ringBuffer := mp_resetMetrics (ch_ringBuffer ch)\<rparr>"

definition ch_size :: "'d channel \<Rightarrow> int" where "ch_size ch = mp_size (ch_ringBuffer ch)"
definition ch_isEmpty :: "'d channel \<Rightarrow> bool" where "ch_isEmpty ch = mp_isEmpty (ch_ringBuffer ch)"
definition ch_isFull :: "'d channel \<Rightarrow> bool" where "ch_isFull ch = mp_isFull (ch_ringBuffer ch)"

section \<open>\<open>LockFreeChannelManager\<close>\<close>

record 'd chan_mgr =
  cm_channels :: "(string \<times> 'd channel) list"
  cm_defaultConfig :: ring_config

definition new_LockFreeChannelManager :: "ring_config_part \<Rightarrow> 'd chan_mgr" where
  "new_LockFreeChannelManager part = \<lparr>cm_channels = [], cm_defaultConfig = spread_config part\<rparr>"

text \<open>\<open>None\<close>: the construction of the channel's ring never returns.\<close>

definition getChannel :: "string \<Rightarrow> ring_config_part option \<Rightarrow> 'd chan_mgr \<Rightarrow> ('d channel \<times> 'd chan_mgr) option" where
  "getChannel name config g =
     (case jm_get (cm_channels g) name of
        Some ch \<Rightarrow> Some (ch, g)
      | None \<Rightarrow>
          (case new_LockFreeIngestionChannel name (case config of Some c \<Rightarrow> c | None \<Rightarrow> full_part (cm_defaultConfig g)) of
             None \<Rightarrow> None
           | Some ch \<Rightarrow> Some (ch, g\<lparr>cm_channels := jm_set name ch (cm_channels g)\<rparr>)))"

definition with_channel :: "string \<Rightarrow> ('d channel \<Rightarrow> 'r \<times> 'd channel) \<Rightarrow> 'd chan_mgr \<Rightarrow> 'r option \<times> 'd chan_mgr" where
  "with_channel name f g =
     (case jm_get (cm_channels g) name of
        None \<Rightarrow> (None, g)
      | Some ch \<Rightarrow> (let (r, ch') = f ch in (Some r, g\<lparr>cm_channels := jm_set name ch' (cm_channels g)\<rparr>)))"

definition removeChannel :: "string \<Rightarrow> 'd chan_mgr \<Rightarrow> bool \<times> 'd chan_mgr" where
  "removeChannel name g =
     (jm_get (cm_channels g) name \<noteq> None, g\<lparr>cm_channels := jm_delete name (cm_channels g)\<rparr>)"

text \<open>Reading the metrics of a channel also refreshes the stored size and utilization.\<close>

definition refresh_all :: "'d chan_mgr \<Rightarrow> 'd chan_mgr" where
  "refresh_all g = g\<lparr>cm_channels := map (\<lambda>(n, ch). (n, snd (ch_getMetrics ch))) (cm_channels g)\<rparr>"

definition getAllMetrics :: "'d chan_mgr \<Rightarrow> (string \<times> ring_metrics) list \<times> 'd chan_mgr" where
  "getAllMetrics g = (map (\<lambda>(n, ch). (n, fst (ch_getMetrics ch))) (cm_channels g), refresh_all g)"

record aggregate =
  ag_totalSize :: int
  ag_totalCapacity :: int
  ag_totalEnqueued :: int
  ag_totalDequeued :: int
  ag_totalFailures :: int
  ag_averageUtilization :: rat

definition add_metrics :: "ring_metrics \<Rightarrow> aggregate \<Rightarrow> aggregate" where
  "add_metrics m a =
     a\<lparr>ag_totalSize := ag_totalSize a + m_size m, ag_totalCapacity := ag_totalCapacity a + m_capacity m,
       ag_totalEnqueued := ag_totalEnqueued a + m_totalEnqueued m,
       ag_totalDequeued := ag_totalDequeued a + m_totalDequeued m,
       ag_totalFailures := ag_totalFailures a + (m_enqueueFailures m + m_dequeueFailures m)\<rparr>"

definition getAggregateMetrics :: "'d chan_mgr \<Rightarrow> aggregate \<times> 'd chan_mgr" where
  "getAggregateMetrics g =
     (let a = fold (\<lambda>(n, ch). add_metrics (fst (ch_getMetrics ch))) (cm_channels g)
                \<lparr>ag_totalSize = 0, ag_totalCapacity = 0, ag_totalEnqueued = 0, ag_totalDequeued = 0,
                 ag_totalFailures = 0, ag_averageUtilization = 0\<rparr>
      in (a\<lparr>ag_averageUtilization :=
            (if ag_totalCapacity a > 0 then jsdiv (of_int (ag_totalSize a)) (of_int (ag_totalCapacity a)) else 0)\<rparr>,
          refresh_all g))"

definition getChannelNames :: "'d chan_mgr \<Rightarrow> string list" where
  "getChannelNames g = jm_keys (cm_channels g)"

definition resetAllMetrics :: "'d chan_mgr \<Rightarrow> 'd chan_mgr" where
  "resetAllMetrics g = g\<lparr>cm_channels := map (\<lambda>(n, ch). (n, ch_resetMetrics ch)) (cm_channels g)\<rparr>"

definition cm_shutdown :: "'d chan_mgr \<Rightarrow> 'd chan_mgr" where
  "cm_shutdown g = g\<lparr>cm_channels := []\<rparr>"

section \<open>Channels keep the ring's invariant\<close>

definition ch_inv :: "'d channel \<Rightarrow> bool" where
  "ch_inv ch \<longleftrightarrow> mp_inv (ch_ringBuffer ch) \<and> m_capacity (mp_metrics (ch_ringBuffer ch)) = mp_capacity (ch_ringBuffer ch)"

abbreviation ch_contents :: "'d channel \<Rightarrow> 'd packet list" where
  "ch_contents ch \<equiv> mp_contents (ch_ringBuffer ch)"

lemma mp_inv_metrics [simp]:
  "mp_inv (b\<lparr>mp_metrics := m\<rparr>) = mp_inv b" "mp_contents (b\<lparr>mp_metrics := m\<rparr>) = mp_contents b"
  "mp_inv (b\<lparr>mp_latencySamples := l\<rparr>) = mp_inv b"
  "mp_contents (b\<lparr>mp_latencySamples := l\<rparr>) = mp_contents b"
  by (simp_all add: mp_inv_def mp_contents_def)

lemma mp_metrics_capacity:
  "mp_tryEnqueue x b = (ok, b') \<Longrightarrow> m_capacity (mp_metrics b') = m_capacity (mp_metrics b) \<and> mp_capacity b' = mp_capacity b"
  "mp_tryDequeue b = (y, b') \<Longrightarrow> m_capacity (mp_metrics b') = m_capacity (mp_metrics b) \<and> mp_capacity b' = mp_capacity b"
  by (auto simp: mp_tryEnqueue_def mp_tryDequeue_def mp_enqueue_failed_def mp_dequeue_failed_def set_size_def
      Let_def split: if_splits option.splits)

lemma batch_metrics_capacity:
  "deq_batch mp_tryDequeue n b = (xs, b') \<Longrightarrow>
   m_capacity (mp_metrics b') = m_capacity (mp_metrics b) \<and> mp_capacity b' = mp_capacity b"
  by (induction n arbitrary: b xs) (auto split: prod.splits option.splits dest!: mp_metrics_capacity(2))

lemma publish_spec:
  assumes "ch_inv ch"
  shows "ch_inv (snd (publish t0 t1 pkt ch)) \<and>
     (if ch_isFull ch then \<not> fst (publish t0 t1 pkt ch) \<and> ch_contents (snd (publish t0 t1 pkt ch)) = ch_contents ch
      else fst (publish t0 t1 pkt ch) \<and> ch_contents (snd (publish t0 t1 pkt ch)) = ch_contents ch @ [pkt])"
proof -
  let ?b = "ch_ringBuffer ch"
  have inv: "mp_inv ?b" using assms by (simp add: ch_inv_def)
  have full: "ch_isFull ch \<longleftrightarrow> nat (mp_capacity ?b) \<le> length (mp_contents ?b)"
    using inv by (auto simp: ch_isFull_def mp_isFull_def length_mp_contents mp_inv_def nat_le_eq_zle ring_shape_def)
  obtain ok b' where e: "mp_tryEnqueue pkt ?b = (ok, b')" by fastforce
  have r: "mp_inv b' \<and> (if ch_isFull ch then \<not> ok \<and> mp_contents b' = mp_contents ?b
                         else ok \<and> mp_contents b' = mp_contents ?b @ [pkt])"
    using full e mpq.enq_full [OF inv, of pkt] mpq.enq_room [OF inv, of pkt] by (cases "ch_isFull ch") auto
  show ?thesis
    using r mp_metrics_capacity(1) [OF e] assms
    by (auto simp: publish_def e Let_def ch_inv_def mp_recordLatency_def latency_metrics_def)
qed

lemma subscribe_spec:
  assumes "ch_inv ch"
  shows "ch_inv (snd (subscribe k ch)) \<and>
     fst (subscribe k ch) = take (nat (subscribe_limit (ch_config ch) k)) (ch_contents ch) \<and>
     ch_contents (snd (subscribe k ch)) = drop (nat (subscribe_limit (ch_config ch) k)) (ch_contents ch)"
proof -
  let ?n = "nat (subscribe_limit (ch_config ch) k)"
  obtain xs b' where e: "deq_batch mp_tryDequeue ?n (ch_ringBuffer ch) = (xs, b')" by fastforce
  have "mp_inv (ch_ringBuffer ch)" using assms by (simp add: ch_inv_def)
  from mpq.batch_takes_prefix [OF this, of ?n] e batch_metrics_capacity [OF e] assms
  show ?thesis by (auto simp: subscribe_def mp_tryDequeueBatch_def Let_def ch_inv_def)
qed

lemma new_channel:
  assumes "capacity (spread_config part) \<le> 2 ^ 30"
  shows "\<exists>ch :: 'd channel. new_LockFreeIngestionChannel name part = Some ch \<and> ch_inv ch \<and> ch_contents ch = [] \<and>
           ch_config ch = spread_config part \<and> \<not> ch_isFull ch"
proof -
  obtain b :: "'d packet mpsc" where b: "new_MPSCRingBuffer (spread_config part) = Some b"
    using ring_sizes [OF assms] by (auto simp: new_MPSCRingBuffer_def)
  have c: "m_capacity (mp_metrics b) = mp_capacity b" "mp_tail b - mp_head b = 0"
    using b by (auto simp: new_MPSCRingBuffer_def initial_metrics_def split: option.splits)
  have "0 < mp_capacity b" using mp_new_inv [OF b] by (auto simp: mp_inv_def ring_shape_def)
  then show ?thesis
    using b c mp_new_inv [OF b] by (auto simp: new_LockFreeIngestionChannel_def ch_inv_def ch_isFull_def mp_isFull_def Let_def)
qed

lemma add_metrics_simps [simp]:
  "ag_totalSize (add_metrics m a) = ag_totalSize a + m_size m"
  "ag_totalCapacity (add_metrics m a) = ag_totalCapacity a + m_capacity m"
  "ag_totalEnqueued (add_metrics m a) = ag_totalEnqueued a + m_totalEnqueued m"
  "ag_totalDequeued (add_metrics m a) = ag_totalDequeued a + m_totalDequeued m"
  by (simp_all add: add_metrics_def)

lemma aggregate_fold:
  assumes "\<And>n ch. (n, ch) \<in> set cs \<Longrightarrow> ch_inv ch"
  shows "let r = fold (\<lambda>(n, ch). add_metrics (fst (ch_getMetrics ch))) cs a
         in ag_totalSize r = ag_totalSize a + (\<Sum>(n, ch) \<leftarrow> cs. int (length (ch_contents ch))) \<and>
            ag_totalCapacity r = ag_totalCapacity a + (\<Sum>(n, ch) \<leftarrow> cs. mp_capacity (ch_ringBuffer ch)) \<and>
            ag_totalEnqueued r = ag_totalEnqueued a + (\<Sum>(n, ch) \<leftarrow> cs. m_totalEnqueued (mp_metrics (ch_ringBuffer ch))) \<and>
            ag_totalDequeued r = ag_totalDequeued a + (\<Sum>(n, ch) \<leftarrow> cs. m_totalDequeued (mp_metrics (ch_ringBuffer ch)))"
  using assms
proof (induction cs arbitrary: a)
  case (Cons p cs)
  obtain n ch where p: "p = (n, ch)" by fastforce
  have "ch_inv ch" using Cons.prems [of n ch] p by simp
  then have "m_size (fst (ch_getMetrics ch)) = int (length (ch_contents ch))"
      "m_capacity (fst (ch_getMetrics ch)) = mp_capacity (ch_ringBuffer ch)"
    by (auto simp: ch_getMetrics_def mp_getMetrics_def set_size_def Let_def mp_size_def length_mp_contents
        ch_inv_def mp_inv_def ring_shape_def)
  moreover have "m_totalEnqueued (fst (ch_getMetrics ch)) = m_totalEnqueued (mp_metrics (ch_ringBuffer ch))"
      "m_totalDequeued (fst (ch_getMetrics ch)) = m_totalDequeued (mp_metrics (ch_ringBuffer ch))"
    by (simp_all add: ch_getMetrics_def mp_getMetrics_def set_size_def Let_def)
  moreover have "\<And>n ch. (n, ch) \<in> set cs \<Longrightarrow> ch_inv ch" using Cons.prems by auto
  note Cons.IH [OF this, where a = "add_metrics (fst (ch_getMetrics ch)) a"]
  ultimately show ?case by (simp add: p Let_def)
qed simp

section \<open>Properties\<close>

text \<open>
  On a well-formed ingestion channel (every new channel of capacity at most \<open>2^30\<close> is one, and
  these calls keep it so) \<open>publish\<close> is refused exactly when the channel is full and otherwise appends
  the packet; \<open>subscribe\<close> returns the oldest packets in order, as many as the limit allows (the batch
  size when no limit is given and batching is on, one for a limit of 0), and leaves the others.
\<close>

theorem channel_is_fifo:
  assumes "ch_inv c"
  shows "ch_inv (snd (publish t0 t1 pkt c)) \<and> ch_inv (snd (subscribe k c)) \<and>
         fst (publish t0 t1 pkt c) = (\<not> ch_isFull c) \<and>
         ch_contents (snd (publish t0 t1 pkt c)) = ch_contents c @ (if ch_isFull c then [] else [pkt]) \<and>
         fst (subscribe k c) @ ch_contents (snd (subscribe k c)) = ch_contents c \<and>
         length (fst (subscribe k c)) = min (length (ch_contents c)) (nat (subscribe_limit (ch_config c) k))"
  using publish_spec [OF assms, of t0 t1 pkt] subscribe_spec [OF assms, of k] by (auto split: if_splits)

theorem channel_is_fifo_witness:
  "\<exists>c :: int channel. new_LockFreeIngestionChannel ''prices'' (full_part default_ring_config) = Some c \<and> ch_inv c \<and>
     fst (publish 0 3 \<lparr>pk_priority = STANDARD, pk_data = 5, pk_timestamp = 0\<rparr> c)"
proof -
  have "capacity (spread_config (full_part default_ring_config)) \<le> 2 ^ 30"
    by (simp add: spread_config_def full_part_def default_ring_config_def)
  from new_channel [OF this, where 'd = int, of "''prices''"] obtain c :: "int channel" where
    c: "new_LockFreeIngestionChannel ''prices'' (full_part default_ring_config) = Some c" "ch_inv c" "\<not> ch_isFull c"
    by blast
  with channel_is_fifo [OF c(2), of 0 3 "\<lparr>pk_priority = STANDARD, pk_data = 5, pk_timestamp = 0\<rparr>" None]
  show ?thesis by blast
qed

text \<open>
  \<open>getAggregateMetrics\<close> of a manager whose channels are well formed reports the number of queued
  packets, the capacity and the enqueue and dequeue totals summed over all channels, and an average
  utilization between 0 and 1.
\<close>

theorem aggregate_metrics_sum:
  assumes "\<forall>(n, ch) \<in> set (cm_channels g). ch_inv ch"
  shows "let a = fst (getAggregateMetrics g) in
         ag_totalSize a = (\<Sum>(n, ch) \<leftarrow> cm_channels g. int (length (ch_contents ch))) \<and>
         ag_totalCapacity a = (\<Sum>(n, ch) \<leftarrow> cm_channels g. mp_capacity (ch_ringBuffer ch)) \<and>
         ag_totalEnqueued a = (\<Sum>(n, ch) \<leftarrow> cm_channels g. m_totalEnqueued (mp_metrics (ch_ringBuffer ch))) \<and>
         ag_totalDequeued a = (\<Sum>(n, ch) \<leftarrow> cm_channels g. m_totalDequeued (mp_metrics (ch_ringBuffer ch))) \<and>
         0 \<le> ag_averageUtilization a \<and> ag_averageUtilization a \<le> 1"
proof -
  let ?z = "\<lparr>ag_totalSize = 0, ag_totalCapacity = 0, ag_totalEnqueued = 0, ag_totalDequeued = 0,
             ag_totalFailures = 0, ag_averageUtilization = 0\<rparr>"
  let ?r = "fold (\<lambda>(n, ch). add_metrics (fst (ch_getMetrics ch))) (cm_channels g) ?z"
  have ok: "\<And>n ch. (n, ch) \<in> set (cm_channels g) \<Longrightarrow> ch_inv ch" using assms by auto
  have sums: "ag_totalSize ?r = (\<Sum>(n, ch) \<leftarrow> cm_channels g. int (length (ch_contents ch)))"
      "ag_totalCapacity ?r = (\<Sum>(n, ch) \<leftarrow> cm_channels g. mp_capacity (ch_ringBuffer ch))"
      "ag_totalEnqueued ?r = (\<Sum>(n, ch) \<leftarrow> cm_channels g. m_totalEnqueued (mp_metrics (ch_ringBuffer ch)))"
      "ag_totalDequeued ?r = (\<Sum>(n, ch) \<leftarrow> cm_channels g. m_totalDequeued (mp_metrics (ch_ringBuffer ch)))"
    using aggregate_fold [of "cm_channels g" ?z, OF ok] by (simp_all add: Let_def)
  have "int (length (ch_contents ch)) \<le> mp_capacity (ch_ringBuffer ch)" if "(n, ch) \<in> set (cm_channels g)" for n ch
    using ok [OF that] by (auto simp: ch_inv_def mp_inv_def ring_shape_def length_mp_contents)
  then have le: "ag_totalSize ?r \<le> ag_totalCapacity ?r" unfolding sums by (intro sum_list_mono) auto
  have "0 \<le> ag_totalSize ?r" unfolding sums by (intro sum_list_nonneg) auto
  then have "0 \<le> jsdiv (of_int (ag_totalSize ?r)) (of_int (ag_totalCapacity ?r)) \<and>
      jsdiv (of_int (ag_totalSize ?r)) (of_int (ag_totalCapacity ?r)) \<le> 1"
    using le by (intro jsdiv_unit) auto
  then show ?thesis using sums by (simp add: getAggregateMetrics_def Let_def)
qed

theorem aggregate_metrics_sum_witness:
  "\<exists>c :: int channel. ch_inv c \<and>
     ag_totalSize (fst (getAggregateMetrics \<lparr>cm_channels = [(''a'', c)], cm_defaultConfig = default_ring_config\<rparr>)) = 0"
proof -
  have "capacity (spread_config (full_part default_ring_config)) \<le> 2 ^ 30"
    by (simp add: spread_config_def full_part_def default_ring_config_def)
  from new_channel [OF this, where 'd = int, of "''a''"] obtain c :: "int channel" where c: "ch_inv c" "ch_contents c = []"
    by blast
  then have "\<forall>(n, ch) \<in> set (cm_channels \<lparr>cm_channels = [(''a'', c)], cm_defaultConfig = default_ring_config\<rparr>). ch_inv ch"
    by simp
  from aggregate_metrics_sum [OF this] c show ?thesis by (auto simp: Let_def)
qed

end
