(* ===== verification/Delegation.thy ===== *)
theory Delegation
  imports JSNumber
begin

text \<open>
  \<open>src/logic/governanceDelegation.ts\<close>: voting weight is forwarded along delegation chains.
  \<open>resolve_loop\<close> is the \<open>while\<close> loop of \<open>resolveDelegation\<close> with its locals as arguments and the
  warnings handed to the logger as a result; \<open>computeEffectiveWeights\<close> folds it over the own weights.

  The reference definition is \<open>walk\<close>, the account reached after a number of hops with no bound and
  no cycle check.  The lemmas compare the three outcomes of the loop with the shape of the walk and
  show that forwarding neither creates nor destroys weight.
\<close>

section \<open>Resolution of one chain\<close>

definition MAX_DELEGATION_DEPTH :: int where "MAX_DELEGATION_DEPTH = 5"

type_synonym account = string
type_synonym delegation_edges = "account \<Rightarrow> account option"

datatype delegation_status = Ok | Cycle | Depth_exceeded

record delegation_resolution =
  dr_holder :: account
  dr_hops :: int
  dr_status :: delegation_status
  dr_path :: "account list"

datatype delegation_warning =
    GovernanceDelegationDepthExceeded account int "account list"
  | GovernanceDelegationCycleDetected account "account list"

function resolve_loop ::
  "account \<Rightarrow> delegation_edges \<Rightarrow> int \<Rightarrow> account list \<Rightarrow> account set \<Rightarrow> account \<Rightarrow> int
    \<Rightarrow> delegation_resolution \<times> delegation_warning list" where
  "resolve_loop start edges maxDepth path visited current hops =
     (case edges current of
        None \<Rightarrow> (\<lparr>dr_holder = current, dr_hops = hops, dr_status = Ok, dr_path = path\<rparr>, [])
      | Some next_acc \<Rightarrow>
          if hops \<ge> maxDepth
          then (\<lparr>dr_holder = current, dr_hops = hops, dr_status = Depth_exceeded, dr_path = path\<rparr>,
                [GovernanceDelegationDepthExceeded start maxDepth path])
          else if next_acc \<in> visited
          then (\<lparr>dr_holder = start, dr_hops = hops, dr_status = Cycle, dr_path = path @ [next_acc]\<rparr>,
                [GovernanceDelegationCycleDetected start (path @ [next_acc])])
          else resolve_loop start edges maxDepth (path @ [next_acc]) (insert next_acc visited)
                 next_acc (hops + 1))"
  by pat_completeness auto
termination
  by (relation "measure (\<lambda>(_, _, maxDepth, _, _, _, hops). nat (maxDepth + 1 - hops))") auto

declare resolve_loop.simps [simp del]

definition resolveDelegation ::
  "account \<Rightarrow> delegation_edges \<Rightarrow> int option \<Rightarrow> delegation_resolution \<times> delegation_warning list" where
  "resolveDelegation start edges opt_maxDepth =
     (let maxDepth = (case opt_maxDepth of None \<Rightarrow> MAX_DELEGATION_DEPTH | Some d \<Rightarrow> d)
      in resolve_loop start edges maxDepth [start] {start} start 0)"

section \<open>Effective weights\<close>

definition forward_weight ::
  "delegation_edges \<Rightarrow> int option \<Rightarrow> account \<times> rat \<Rightarrow> (account \<times> rat) list \<Rightarrow> (account \<times> rat) list" where
  "forward_weight edges opt_maxDepth aw result =
     (let holder = dr_holder (fst (resolveDelegation (fst aw) edges opt_maxDepth))
      in jm_set holder
           (jsadd (case jm_get result holder of None \<Rightarrow> 0 | Some w \<Rightarrow> w) (snd aw)) result)"

definition computeEffectiveWeights ::
  "(account \<times> rat) list \<Rightarrow> delegation_edges \<Rightarrow> int option \<Rightarrow> (account \<times> rat) list" where
  "computeEffectiveWeights ownWeights edges opt_maxDepth =
     fold (forward_weight edges opt_maxDepth) ownWeights []"

section \<open>The reference walk\<close>

primrec walk :: "delegation_edges \<Rightarrow> account \<Rightarrow> nat \<Rightarrow> account option" where
  "walk edges a 0 = Some a"
| "walk edges a (Suc n) = Option.bind (walk edges a n) edges"

definition walk_accounts :: "delegation_edges \<Rightarrow> account \<Rightarrow> nat \<Rightarrow> account list" where
  "walk_accounts edges a n = map (\<lambda>i. the (walk edges a i)) [0..<Suc n]"

lemma walk_accounts_0 [simp]: "walk_accounts edges a 0 = [a]"
  by (simp add: walk_accounts_def)

lemma walk_accounts_Suc:
  "walk edges a (Suc n) = Some b \<Longrightarrow> walk_accounts edges a (Suc n) = walk_accounts edges a n @ [b]"
  by (simp add: walk_accounts_def)

lemma length_walk_accounts [simp]: "length (walk_accounts edges a n) = Suc n"
  by (simp add: walk_accounts_def)

text \<open>The three outcomes, each read off the walk alone.\<close>

definition walk_outcome ::
  "delegation_edges \<Rightarrow> account \<Rightarrow> nat \<Rightarrow> delegation_resolution \<Rightarrow> bool" where
  "walk_outcome edges a d r \<longleftrightarrow>
     (let n = nat (dr_hops r) in
      dr_hops r \<ge> 0 \<and> n \<le> d \<and> distinct (walk_accounts edges a n) \<and>
      (case dr_status r of
         Ok \<Rightarrow> walk edges a n = Some (dr_holder r) \<and> walk edges a (Suc n) = None \<and>
               dr_path r = walk_accounts edges a n
       | Depth_exceeded \<Rightarrow> n = d \<and> walk edges a d = Some (dr_holder r) \<and> walk edges a (Suc d) \<noteq> None \<and>
               dr_path r = walk_accounts edges a d
       | Cycle \<Rightarrow> n < d \<and> dr_holder r = a \<and>
               (\<exists>b \<in> set (walk_accounts edges a n). walk edges a (Suc n) = Some b \<and>
                  dr_path r = walk_accounts edges a n @ [b])))"

lemma resolve_loop_outcome:
  assumes "walk edges start n = Some current" "distinct (walk_accounts edges start n)" "n \<le> d"
  shows "walk_outcome edges start d
           (fst (resolve_loop start edges (int d) (walk_accounts edges start n)
                   (set (walk_accounts edges start n)) current (int n)))"
  using assms
proof (induction "d - n" arbitrary: n current)
  case 0
  then show ?case
    by (subst resolve_loop.simps) (auto simp: walk_outcome_def split: option.split)
next
  case (Suc k)
  show ?case
  proof (cases "edges current")
    case None
    with Suc.prems show ?thesis
      by (subst resolve_loop.simps) (auto simp: walk_outcome_def)
  next
    case (Some b)
    with Suc.prems have w: "walk edges start (Suc n) = Some b" by simp
    show ?thesis
    proof (cases "b \<in> set (walk_accounts edges start n)")
      case True
      with Some Suc w show ?thesis
        by (subst resolve_loop.simps) (auto simp: walk_outcome_def)
    next
      case False
      have "walk_outcome edges start d
              (fst (resolve_loop start edges (int d) (walk_accounts edges start (Suc n))
                      (set (walk_accounts edges start (Suc n))) b (int (Suc n))))"
        using Suc.hyps(2) Suc.prems False w
        by (intro Suc.hyps(1)) (auto simp: walk_accounts_Suc simp del: walk.simps)
      with Some False Suc w show ?thesis
        by (subst resolve_loop.simps) (auto simp: walk_accounts_Suc add.commute simp del: walk.simps)
    qed
  qed
qed

lemma resolveDelegation_outcome:
  "walk_outcome edges start d (fst (resolveDelegation start edges (Some (int d))))"
  using resolve_loop_outcome [of edges start 0 start d] by (simp add: resolveDelegation_def)

lemma default_depth: "resolveDelegation start edges None = resolveDelegation start edges (Some 5)"
  by (simp add: resolveDelegation_def MAX_DELEGATION_DEPTH_def)

lemma walk_None_mono: "walk edges a n = None \<Longrightarrow> n \<le> k \<Longrightarrow> walk edges a k = None"
  by (induction k) (auto simp: le_Suc_eq)

lemma walk_accounts_nth: "i \<le> n \<Longrightarrow> walk_accounts edges a n ! i = the (walk edges a i)"
  by (simp add: walk_accounts_def del: upt_Suc)

text \<open>Two outcomes of the same walk agree, so the status is determined by the walk.\<close>

lemma walk_repeats:
  assumes "walk edges a i = walk edges a j" "i < j" "j \<le> n" "distinct (walk_accounts edges a n)"
  shows False
proof -
  have "walk_accounts edges a n ! i = walk_accounts edges a n ! j"
    using assms by (simp add: walk_accounts_nth)
  with assms show False by (simp add: nth_eq_iff_index_eq)
qed

lemma walk_shift: "walk edges a i = walk edges a j \<Longrightarrow> walk edges a (i + m) = walk edges a (j + m)"
  by (induction m) simp_all

lemma cyclic_walk_never_ends:
  assumes "walk edges a i = walk edges a j" "i < j" "walk edges a j \<noteq> None"
  shows "walk edges a k \<noteq> None"
proof (induction k rule: less_induct)
  case (less k)
  show ?case
  proof (cases "k < j")
    case False
    then have "walk edges a k = walk edges a (i + (k - j))"
      using walk_shift [OF assms(1), of "k - j"] by simp
    moreover have "i + (k - j) < k" using False assms(2) by linarith
    ultimately show ?thesis using less.IH by metis
  next
    case True
    then show ?thesis using assms(3) walk_None_mono [of edges a k j] by linarith
  qed
qed

lemma member_walk_accounts:
  assumes "b \<in> set (walk_accounts edges a n)" "walk edges a n \<noteq> None"
  shows "\<exists>i\<le>n. walk edges a i = Some b"
proof -
  obtain i where "i \<le> n" "b = the (walk edges a i)"
    using assms(1) less_Suc_eq_le unfolding walk_accounts_def
    by (metis (no_types, lifting) atLeastLessThan_iff imageE list.set_map set_upt)
  moreover have "walk edges a i \<noteq> None" using walk_None_mono [of edges a i n] assms(2) \<open>i \<le> n\<close> by auto
  ultimately show ?thesis by (intro exI [of _ i]) auto
qed

definition walk_ends :: "delegation_edges \<Rightarrow> account \<Rightarrow> nat \<Rightarrow> bool" where
  "walk_ends edges a d \<longleftrightarrow> (\<exists>n\<le>d. walk edges a (Suc n) = None)"

definition walk_revisits :: "delegation_edges \<Rightarrow> account \<Rightarrow> nat \<Rightarrow> bool" where
  "walk_revisits edges a d \<longleftrightarrow>
     (\<exists>j\<le>d. \<exists>i<j. walk edges a j \<noteq> None \<and> walk edges a i = walk edges a j)"

lemma outcome_Ok:
  assumes "walk_outcome edges a d r" "dr_status r = Ok"
  shows "walk_ends edges a d" "\<not> walk_revisits edges a d"
    "edges (dr_holder r) = None" "walk edges a (nat (dr_hops r)) = Some (dr_holder r)"
proof -
  define n where "n = nat (dr_hops r)"
  have o: "n \<le> d" "distinct (walk_accounts edges a n)" "walk edges a n = Some (dr_holder r)"
    "walk edges a (Suc n) = None"
    using assms by (simp_all add: walk_outcome_def n_def Let_def del: walk.simps)
  then show "walk_ends edges a d" unfolding walk_ends_def by blast
  show "\<not> walk_revisits edges a d"
    unfolding walk_revisits_def
    by (metis o(2,4) walk_repeats walk_None_mono not_less_eq_eq)
  show "edges (dr_holder r) = None" using o(3,4) by simp
  show "walk edges a (nat (dr_hops r)) = Some (dr_holder r)" using o(3) by (simp add: n_def)
qed

lemma outcome_Depth_exceeded:
  assumes "walk_outcome edges a d r" "dr_status r = Depth_exceeded"
  shows "\<not> walk_ends edges a d" "\<not> walk_revisits edges a d" "walk edges a d = Some (dr_holder r)"
    "dr_hops r = int d"
proof -
  have o: "distinct (walk_accounts edges a d)" "walk edges a d = Some (dr_holder r)"
    "walk edges a (Suc d) \<noteq> None" "dr_hops r = int d"
    using assms by (auto simp: walk_outcome_def Let_def)
  show "\<not> walk_ends edges a d" unfolding walk_ends_def
    by (metis o(3) walk_None_mono Suc_le_mono)
  show "\<not> walk_revisits edges a d" unfolding walk_revisits_def using walk_repeats o(1) by blast
qed (use assms in \<open>auto simp: walk_outcome_def Let_def\<close>)

lemma outcome_Cycle:
  assumes "walk_outcome edges a d r" "dr_status r = Cycle"
  shows "\<not> walk_ends edges a d" "walk_revisits edges a d" "dr_holder r = a"
proof -
  obtain n b where o: "n < d" "b \<in> set (walk_accounts edges a n)" "walk edges a (Suc n) = Some b"
    "dr_holder r = a"
    using assms by (auto simp: walk_outcome_def Let_def simp del: walk.simps)
  obtain i where i: "i \<le> n" "walk edges a i = Some b"
    using member_walk_accounts [OF o(2)] walk_None_mono [of edges a n "Suc n"] o(3)
    by (metis le_SucI order_refl option.distinct(1))
  show "walk_revisits edges a d" unfolding walk_revisits_def
    by (metis i o(1,3) Suc_leI le_imp_less_Suc option.distinct(1))
  show "\<not> walk_ends edges a d"
    using cyclic_walk_never_ends [of edges a i "Suc n"] i o(3) unfolding walk_ends_def
    by (metis le_imp_less_Suc option.distinct(1))
  show "dr_holder r = a" by (rule o(4))
qed

text \<open>
  The limit of a call: \<open>options.maxDepth ?? MAX_DELEGATION_DEPTH\<close>.  A negative limit stops the loop at
  the same place as 0.
\<close>

definition depth_limit :: "int option \<Rightarrow> nat" where
  "depth_limit opt = (case opt of None \<Rightarrow> 5 | Some m \<Rightarrow> nat m)"

lemma resolveDelegation_limit:
  "fst (resolveDelegation start edges opt) = fst (resolveDelegation start edges (Some (int (depth_limit opt))))"
proof (cases opt)
  case None
  then show ?thesis by (simp add: default_depth depth_limit_def)
next
  case (Some m)
  show ?thesis
  proof (cases "0 \<le> m")
    case False
    then show ?thesis using Some
      by (simp add: resolveDelegation_def depth_limit_def resolve_loop.simps split: option.split)
  qed (simp add: Some depth_limit_def)
qed

text \<open>
  C8. \<open>resolveDelegation\<close> agrees with the unbounded walk, for every limit and for the default limit
  of 5.  It reports success exactly when the walk ends within the limit: the holder is the account
  where it ends, the hops are the length of the chain.  It reports a cycle exactly when the walk
  revisits an account within the limit: the weight stays with the delegator, and the hops are the
  ones taken before the first repetition (the accounts up to there are distinct, the next one is
  among them).  Otherwise the limit is exceeded: the hops are the limit and the holder is the account
  reached there.  In all three outcomes the path is the list of the accounts visited.
\<close>

theorem resolveDelegation_correct:
  "let r = fst (resolveDelegation start edges opt); d = depth_limit opt; n = nat (dr_hops r) in
   (dr_status r = Ok \<longleftrightarrow> walk_ends edges start d)
   \<and> (dr_status r = Cycle \<longleftrightarrow> walk_revisits edges start d)
   \<and> 0 \<le> dr_hops r
   \<and> (case dr_status r of
        Ok \<Rightarrow> n \<le> d \<and> walk edges start n = Some (dr_holder r) \<and> edges (dr_holder r) = None \<and>
              dr_path r = walk_accounts edges start n
      | Cycle \<Rightarrow> dr_holder r = start \<and> n < d \<and> distinct (walk_accounts edges start n) \<and>
              (\<exists>b. b \<in> set (walk_accounts edges start n) \<and> walk edges start (n + 1) = Some b \<and>
                   dr_path r = walk_accounts edges start n @ [b])
      | Depth_exceeded \<Rightarrow> n = d \<and> walk edges start d = Some (dr_holder r) \<and> edges (dr_holder r) \<noteq> None \<and>
              dr_path r = walk_accounts edges start d)"
proof -
  define r where "r = fst (resolveDelegation start edges opt)"
  define d where "d = depth_limit opt"
  have w: "walk_outcome edges start d r"
    unfolding r_def d_def resolveDelegation_limit [of start edges opt] by (rule resolveDelegation_outcome)
  then have "0 \<le> dr_hops r" by (simp add: walk_outcome_def Let_def)
  moreover have "case dr_status r of
        Ok \<Rightarrow> nat (dr_hops r) \<le> d \<and> walk edges start (nat (dr_hops r)) = Some (dr_holder r) \<and> edges (dr_holder r) = None \<and>
              dr_path r = walk_accounts edges start (nat (dr_hops r))
      | Cycle \<Rightarrow> dr_holder r = start \<and> nat (dr_hops r) < d \<and> distinct (walk_accounts edges start (nat (dr_hops r))) \<and>
              (\<exists>b. b \<in> set (walk_accounts edges start (nat (dr_hops r))) \<and> walk edges start (nat (dr_hops r) + 1) = Some b \<and>
                   dr_path r = walk_accounts edges start (nat (dr_hops r)) @ [b])
      | Depth_exceeded \<Rightarrow> nat (dr_hops r) = d \<and> walk edges start d = Some (dr_holder r) \<and> edges (dr_holder r) \<noteq> None \<and>
              dr_path r = walk_accounts edges start d"
    using w by (cases "dr_status r") (auto simp: walk_outcome_def Let_def)
  ultimately show ?thesis
    using outcome_Ok(1) [OF w] outcome_Ok(2) [OF w] outcome_Cycle(1) [OF w] outcome_Cycle(2) [OF w]
      outcome_Depth_exceeded(1) [OF w] outcome_Depth_exceeded(2) [OF w]
    unfolding Let_def r_def [symmetric] d_def [symmetric] by (cases "dr_status r") simp_all
qed

theorem resolveDelegation_correct_witness:
  "let edges = [''a'' \<mapsto> ''b'', ''b'' \<mapsto> ''a'']; r = fst (resolveDelegation ''a'' edges None)
   in dr_status r = Cycle \<and> dr_holder r = ''a'' \<and> dr_hops r = 1 \<and> walk_revisits edges ''a'' 5"
proof -
  define edges where "edges = [''a'' \<mapsto> ''b'', ''b'' \<mapsto> ''a'']"
  have "dr_status (fst (resolveDelegation ''a'' edges None)) = Cycle"
    "dr_hops (fst (resolveDelegation ''a'' edges None)) = 1"
    by (simp_all add: edges_def resolveDelegation_def resolve_loop.simps MAX_DELEGATION_DEPTH_def)
  with resolveDelegation_correct [of "''a''" edges None] show ?thesis
    unfolding edges_def [symmetric] Let_def by (auto simp: depth_limit_def)
qed

section \<open>Conservation of weight\<close>

definition holder_of :: "delegation_edges \<Rightarrow> int option \<Rightarrow> account \<Rightarrow> account" where
  "holder_of edges opt a = dr_holder (fst (resolveDelegation a edges opt))"

text \<open>Integer weights whose total is below \<open>2 ^ 53\<close> are added exactly by IEEE arithmetic.\<close>

definition int_weights :: "(account \<times> rat) list \<Rightarrow> bool" where
  "int_weights ws \<longleftrightarrow> (\<forall>w \<in> snd ` set ws. w \<in> \<nat>) \<and> (\<Sum>w\<leftarrow>map snd ws. w) < 2 ^ 53"

definition weight_held ::
  "delegation_edges \<Rightarrow> int option \<Rightarrow> (account \<times> rat) list \<Rightarrow> account \<Rightarrow> rat" where
  "weight_held edges opt ws h = (\<Sum>p\<leftarrow>filter (\<lambda>p. holder_of edges opt (fst p) = h) ws. snd p)"

definition effective :: "(account \<times> rat) list \<Rightarrow> account \<Rightarrow> rat" where
  "effective result h = (case jm_get result h of None \<Rightarrow> 0 | Some w \<Rightarrow> w)"

lemma Nats_sum_list: "(\<forall>x \<in> set xs. x \<in> (\<nat> :: rat set)) \<Longrightarrow> sum_list xs \<in> \<nat>"
  by (induction xs) auto

lemma fl_Nats: "x \<in> \<nat> \<Longrightarrow> x < 2 ^ 53 \<Longrightarrow> fl x = x"
proof -
  assume "x \<in> \<nat>" "x < 2 ^ 53"
  then obtain n where "x = of_nat n" "of_nat n < (of_nat (2 ^ 53) :: rat)" by (auto elim: Nats_cases)
  then show ?thesis using fl_of_nat of_nat_less_iff by blast
qed

lemma weight_held_bounds:
  assumes "int_weights ws"
  shows "weight_held edges opt ws h \<in> \<nat>" "weight_held edges opt ws h < 2 ^ 53"
proof -
  have nat: "\<forall>p \<in> set ws. snd p \<in> \<nat>" using assms by (auto simp: int_weights_def)
  then show "weight_held edges opt ws h \<in> \<nat>"
    unfolding weight_held_def by (intro Nats_sum_list) auto
  have "weight_held edges opt ws h \<le> (\<Sum>w\<leftarrow>map snd ws. w)"
    using nat unfolding weight_held_def by (induction ws) (auto simp: Nats_def add_increasing)
  then show "weight_held edges opt ws h < 2 ^ 53" using assms by (simp add: int_weights_def)
qed

lemma int_weights_snoc: "int_weights (ws @ [p]) \<Longrightarrow> int_weights ws"
  by (auto simp: int_weights_def Nats_def)

lemma effective_forward:
  "effective (forward_weight edges opt p result) =
     (effective result)(holder_of edges opt (fst p) :=
        jsadd (effective result (holder_of edges opt (fst p))) (snd p))"
  by (auto simp: forward_weight_def effective_def holder_of_def Let_def fun_eq_iff split: option.split)

lemma computeEffectiveWeights_snoc:
  "computeEffectiveWeights (ws @ [p]) edges opt =
     forward_weight edges opt p (computeEffectiveWeights ws edges opt)"
  by (simp add: computeEffectiveWeights_def)

lemma effective_weights_held:
  "int_weights ws \<Longrightarrow> effective (computeEffectiveWeights ws edges opt) h = weight_held edges opt ws h"
proof (induction ws arbitrary: h rule: rev_induct)
  case Nil
  then show ?case by (simp add: computeEffectiveWeights_def effective_def weight_held_def)
next
  case (snoc p ws)
  have "weight_held edges opt (ws @ [p]) (holder_of edges opt (fst p)) =
          weight_held edges opt ws (holder_of edges opt (fst p)) + snd p"
    by (simp add: weight_held_def)
  moreover have "fl (weight_held edges opt (ws @ [p]) h) = weight_held edges opt (ws @ [p]) h" for h
    by (intro fl_Nats weight_held_bounds snoc.prems)
  moreover have "h \<noteq> holder_of edges opt (fst p) \<Longrightarrow>
      weight_held edges opt (ws @ [p]) h = weight_held edges opt ws h" for h
    by (auto simp: weight_held_def)
  ultimately show ?case
    using snoc.IH [OF int_weights_snoc [OF snoc.prems]]
    by (cases "h = holder_of edges opt (fst p)")
       (simp_all add: computeEffectiveWeights_snoc effective_forward jsadd_def, metis)
qed

lemma computeEffectiveWeights_keys:
  "set (jm_keys (computeEffectiveWeights ws edges opt)) = holder_of edges opt ` fst ` set ws"
  by (induction ws rule: rev_induct)
     (simp_all add: computeEffectiveWeights_snoc forward_weight_def Let_def jm_keys_set [simplified]
        holder_of_def computeEffectiveWeights_def [of "[]"])

lemma computeEffectiveWeights_distinct: "distinct (jm_keys (computeEffectiveWeights ws edges opt))"
proof (induction ws rule: rev_induct)
  case Nil
  then show ?case by (simp add: computeEffectiveWeights_def)
next
  case (snoc p ws)
  then show ?case
    by (simp add: computeEffectiveWeights_snoc forward_weight_def Let_def jm_distinct_set)
qed

lemma sum_values: "distinct (jm_keys m) \<Longrightarrow> (\<Sum>v\<leftarrow>map snd m. v) = (\<Sum>k \<in> set (jm_keys m). effective m k)"
proof (induction m)
  case (Cons p m)
  obtain k v where p: "p = (k, v)" by fastforce
  have "(\<Sum>k' \<in> set (jm_keys m). effective (p # m) k') = (\<Sum>k' \<in> set (jm_keys m). effective m k')"
    using Cons.prems p by (intro sum.cong) (auto simp: effective_def)
  with Cons p show ?case by (simp add: effective_def)
qed simp

lemma sum_weight_held:
  "finite H \<Longrightarrow> holder_of edges opt ` fst ` set ws \<subseteq> H \<Longrightarrow>
     (\<Sum>h \<in> H. weight_held edges opt ws h) = (\<Sum>w\<leftarrow>map snd ws. w)"
proof (induction ws)
  case (Cons p ws)
  have "weight_held edges opt (p # ws) h =
          (if h = holder_of edges opt (fst p) then snd p else 0) + weight_held edges opt ws h" for h
    by (simp add: weight_held_def)
  with Cons show ?case by (simp add: sum.distrib sum.delta)
qed (simp add: weight_held_def)

text \<open>
  \<open>computeEffectiveWeights\<close> gives every account exactly the own weights of the accounts whose
  chain resolves to it, lists exactly the resolved holders, and keeps the total voting weight, for
  non-negative integer weights whose total a double can hold.
\<close>

theorem effective_weights_conserved:
  assumes "int_weights ws"
  shows "(\<forall>h. effective (computeEffectiveWeights ws edges opt) h = weight_held edges opt ws h)
       \<and> set (jm_keys (computeEffectiveWeights ws edges opt)) = holder_of edges opt ` fst ` set ws
       \<and> (\<Sum>w\<leftarrow>map snd (computeEffectiveWeights ws edges opt). w) = (\<Sum>w\<leftarrow>map snd ws. w)"
proof -
  have "(\<Sum>w\<leftarrow>map snd (computeEffectiveWeights ws edges opt). w) =
          (\<Sum>h \<in> holder_of edges opt ` fst ` set ws. weight_held edges opt ws h)"
    unfolding sum_values [OF computeEffectiveWeights_distinct] computeEffectiveWeights_keys
      effective_weights_held [OF assms] ..
  also have "\<dots> = (\<Sum>w\<leftarrow>map snd ws. w)" by (rule sum_weight_held) simp_all
  finally have "(\<Sum>w\<leftarrow>map snd (computeEffectiveWeights ws edges opt). w) = (\<Sum>w\<leftarrow>map snd ws. w)" .
  then show ?thesis
    by (intro conjI allI effective_weights_held [OF assms] computeEffectiveWeights_keys)
qed

theorem effective_weights_conserved_witness:
  "let edges = [''a'' \<mapsto> ''b'', ''b'' \<mapsto> ''c''] in
   int_weights [(''a'', 3), (''b'', 4), (''d'', 5)]
   \<and> effective (computeEffectiveWeights [(''a'', 3), (''b'', 4), (''d'', 5)] edges None) ''c'' = 7"
proof -
  have w: "int_weights [(''a'', 3), (''b'', 4), (''d'', 5)]" by (simp add: int_weights_def)
  show ?thesis
    using effective_weights_conserved [OF w, of "[''a'' \<mapsto> ''b'', ''b'' \<mapsto> ''c'']" None]
    by (simp add: w weight_held_def holder_of_def resolveDelegation_def resolve_loop.simps
        MAX_DELEGATION_DEPTH_def)
qed

end
