(* ===== verification/SequenceManager.thy ===== *)
theory SequenceManager
  imports Prelude
begin

text \<open>
  \<open>src/services/sequence-manager.ts\<close>: the per-account sequence numbers handed to concurrent
  transaction builders.  The mutex of an account is the queue of its tasks, the head being the task
  that holds it (\<open>async-mutex\<close> admits the waiting tasks in order); the head runs up to its \<open>await\<close>
  of the Horizon account (\<open>Run\<close>) and goes on when the account arrives or fails to load (\<open>Loaded\<close>).
  Tasks of several accounts, and \<open>invalidate\<close>, which takes no mutex, interleave freely.  Sequence
  numbers are the \<open>bigint\<close>s; the decimal string returned to the caller is not printed.

  The lemmas: calls for one account are answered in the order they were made, each with a number that
  Horizon reported or the successor of the one before; as long as nobody syncs or invalidates the
  account, the numbers are consecutive whatever the interleaving.
\<close>

type_synonym address = string

datatype seq_task = NextTask nat | SyncTask nat

record 'e seq_mgr =
  sm_tasks :: "address \<Rightarrow> seq_task list"
  sm_loading :: "address \<Rightarrow> bool"
  sm_current :: "address \<Rightarrow> int option"
  sm_answers :: "(address \<times> seq_task \<times> ('e + int)) list"

definition new_SequenceManager :: "'e seq_mgr" where
  "new_SequenceManager =
     \<lparr>sm_tasks = (\<lambda>_. []), sm_loading = (\<lambda>_. False), sm_current = (\<lambda>_. None), sm_answers = []\<rparr>"

text \<open>A call takes its place behind the account's mutex.\<close>

definition call_task :: "address \<Rightarrow> seq_task \<Rightarrow> 'e seq_mgr \<Rightarrow> 'e seq_mgr" where
  "call_task a t m = m\<lparr>sm_tasks := (sm_tasks m)(a := sm_tasks m a @ [t])\<rparr>"

text \<open>The head task is answered, which releases the mutex.\<close>

definition answer :: "address \<Rightarrow> 'e + int \<Rightarrow> 'e seq_mgr \<Rightarrow> 'e seq_mgr" where
  "answer a r m =
     m\<lparr>sm_tasks := (sm_tasks m)(a := tl (sm_tasks m a)),
       sm_loading := (sm_loading m)(a := False),
       sm_answers := sm_answers m @ [(a, hd (sm_tasks m a), r)]\<rparr>"

definition set_sequence :: "address \<Rightarrow> int option \<Rightarrow> 'e seq_mgr \<Rightarrow> 'e seq_mgr" where
  "set_sequence a s m = m\<lparr>sm_current := (sm_current m)(a := s)\<rparr>"

definition begin_load :: "address \<Rightarrow> 'e seq_mgr \<Rightarrow> 'e seq_mgr" where
  "begin_load a m = m\<lparr>sm_loading := (sm_loading m)(a := True)\<rparr>"

text \<open>\<open>syncSequence\<close>: always loads; a failure leaves the cache as it was.\<close>

definition syncSequence_begin :: "address \<Rightarrow> 'e seq_mgr \<Rightarrow> 'e seq_mgr" where
  "syncSequence_begin a m = begin_load a m"

definition syncSequence_loaded :: "address \<Rightarrow> 'e + int \<Rightarrow> 'e seq_mgr \<Rightarrow> 'e seq_mgr" where
  "syncSequence_loaded a r m =
     (case r of
        Inl e \<Rightarrow> answer a (Inl e) m
      | Inr ledgerSequence \<Rightarrow> answer a (Inr ledgerSequence) (set_sequence a (Some ledgerSequence) m))"

text \<open>\<open>getNextSequence\<close>: loads on a cache miss, increments otherwise; a failure drops the entry.\<close>

definition getNextSequence_begin :: "address \<Rightarrow> 'e seq_mgr \<Rightarrow> 'e seq_mgr" where
  "getNextSequence_begin a m =
     (case sm_current m a of
        None \<Rightarrow> begin_load a m
      | Some cachedSequence \<Rightarrow>
          (let nextSequence = cachedSequence + 1
           in answer a (Inr nextSequence) (set_sequence a (Some nextSequence) m)))"

definition getNextSequence_loaded :: "address \<Rightarrow> 'e + int \<Rightarrow> 'e seq_mgr \<Rightarrow> 'e seq_mgr" where
  "getNextSequence_loaded a r m =
     (case r of
        Inl e \<Rightarrow> answer a (Inl e) (set_sequence a None m)
      | Inr ledgerSequence \<Rightarrow> answer a (Inr ledgerSequence) (set_sequence a (Some ledgerSequence) m))"

text \<open>An empty address is falsy and clears every entry, like a missing one.\<close>

definition invalidate :: "address option \<Rightarrow> 'e seq_mgr \<Rightarrow> 'e seq_mgr" where
  "invalidate a m =
     (case a of
        Some address \<Rightarrow> if address \<noteq> '''' then set_sequence address None m
                        else m\<lparr>sm_current := (\<lambda>_. None)\<rparr>
      | None \<Rightarrow> m\<lparr>sm_current := (\<lambda>_. None)\<rparr>)"

datatype 'e seq_event =
    Call address seq_task
  | Run address
  | Loaded address "'e + int"
  | Invalidate "address option"

definition run_task :: "address \<Rightarrow> 'e seq_mgr \<Rightarrow> 'e seq_mgr" where
  "run_task a m =
     (if sm_loading m a then m
      else case sm_tasks m a of
             [] \<Rightarrow> m
           | NextTask _ # _ \<Rightarrow> getNextSequence_begin a m
           | SyncTask _ # _ \<Rightarrow> syncSequence_begin a m)"

definition loaded_task :: "address \<Rightarrow> 'e + int \<Rightarrow> 'e seq_mgr \<Rightarrow> 'e seq_mgr" where
  "loaded_task a r m =
     (if \<not> sm_loading m a then m
      else case sm_tasks m a of
             [] \<Rightarrow> m
           | NextTask _ # _ \<Rightarrow> getNextSequence_loaded a r m
           | SyncTask _ # _ \<Rightarrow> syncSequence_loaded a r m)"

fun seq_step :: "'e seq_event \<Rightarrow> 'e seq_mgr \<Rightarrow> 'e seq_mgr" where
  "seq_step (Call a t) m = call_task a t m"
| "seq_step (Run a) m = run_task a m"
| "seq_step (Loaded a r) m = loaded_task a r m"
| "seq_step (Invalidate a) m = invalidate a m"

definition seq_run :: "'e seq_event list \<Rightarrow> 'e seq_mgr \<Rightarrow> 'e seq_mgr" where
  "seq_run es m = fold seq_step es m"

section \<open>Answers of one account\<close>

definition answers_of :: "address \<Rightarrow> 'e seq_mgr \<Rightarrow> (seq_task \<times> ('e + int)) list" where
  "answers_of a m = map snd (filter (\<lambda>p. fst p = a) (sm_answers m))"

definition numbers_of :: "address \<Rightarrow> 'e seq_mgr \<Rightarrow> int list" where
  "numbers_of a m = [n. (t, Inr n) \<leftarrow> answers_of a m]"

fun calls_of :: "address \<Rightarrow> 'e seq_event list \<Rightarrow> seq_task list" where
  "calls_of a [] = []"
| "calls_of a (Call b t # es) = (if a = b then t # calls_of a es else calls_of a es)"
| "calls_of a (_ # es) = calls_of a es"

lemma numbers_of_simps [simp]:
  "numbers_of a (m\<lparr>sm_tasks := x\<rparr>) = numbers_of a m"
  "numbers_of a (m\<lparr>sm_loading := y\<rparr>) = numbers_of a m"
  "numbers_of a (m\<lparr>sm_current := z\<rparr>) = numbers_of a m"
  "answers_of a (m\<lparr>sm_tasks := x\<rparr>) = answers_of a m"
  "answers_of a (m\<lparr>sm_loading := y\<rparr>) = answers_of a m"
  "answers_of a (m\<lparr>sm_current := z\<rparr>) = answers_of a m"
  by (simp_all add: numbers_of_def answers_of_def)

lemma answers_of_answer [simp]:
  "answers_of a (answer b r m) =
     answers_of a m @ (if a = b then [(hd (sm_tasks m a), r)] else [])"
  by (simp add: answers_of_def answer_def)

lemma numbers_of_answer [simp]:
  "numbers_of a (answer b (Inr n) m) = numbers_of a m @ (if a = b then [n] else [])"
  "numbers_of a (answer b (Inl e) m) = numbers_of a m"
  by (simp_all add: numbers_of_def)

lemmas seq_op_defs = call_task_def run_task_def loaded_task_def invalidate_def set_sequence_def
  begin_load_def getNextSequence_begin_def getNextSequence_loaded_def syncSequence_begin_def
  syncSequence_loaded_def

lemma answer_simps [simp]:
  "sm_tasks (answer a r m) = (sm_tasks m)(a := tl (sm_tasks m a))"
  "sm_current (answer a r m) = sm_current m"
  "sm_loading (answer a r m) = (sm_loading m)(a := False)"
  by (simp_all add: answer_def)

text \<open>Answered tasks followed by waiting ones are the calls made, in order.\<close>

lemma seq_step_order:
  "map fst (answers_of a (seq_step e m)) @ sm_tasks (seq_step e m) a =
     (map fst (answers_of a m) @ sm_tasks m a) @ calls_of a [e]"
  by (cases e) (auto simp: seq_op_defs Let_def split: option.split list.split seq_task.split sum.split)

lemma calls_of_Cons: "calls_of a (e # es) = calls_of a [e] @ calls_of a es"
  by (cases e) simp_all

lemma seq_run_order:
  "map fst (answers_of a (seq_run es m)) @ sm_tasks (seq_run es m) a =
     (map fst (answers_of a m) @ sm_tasks m a) @ calls_of a es"
proof (induction es arbitrary: m)
  case (Cons e es)
  show ?case
    using Cons.IH [of "seq_step e m"] seq_step_order [of a e m] calls_of_Cons [of a e es]
    by (simp add: seq_run_def)
qed (simp add: seq_run_def)

section \<open>Consecutive numbers\<close>

fun undisturbed :: "address \<Rightarrow> 'e seq_event \<Rightarrow> bool" where
  "undisturbed a (Call b (SyncTask _)) = (a \<noteq> b)"
| "undisturbed a (Invalidate (Some b)) = (b \<noteq> '''' \<and> a \<noteq> b)"
| "undisturbed a (Invalidate None) = False"
| "undisturbed a _ = True"

definition consecutive :: "int list \<Rightarrow> bool" where
  "consecutive ns \<longleftrightarrow> (\<forall>i. Suc i < length ns \<longrightarrow> ns ! Suc i = ns ! i + 1)"

lemma consecutive_snoc:
  "consecutive (ns @ [n]) \<longleftrightarrow> consecutive ns \<and> (ns = [] \<or> n = last ns + 1)"
proof (cases ns rule: rev_cases)
  case (snoc ms k)
  have "(\<forall>i. Suc i < length (ns @ [n]) \<longrightarrow> (ns @ [n]) ! Suc i = (ns @ [n]) ! i + 1) \<longleftrightarrow>
        (\<forall>i. Suc i < length ns \<longrightarrow> (ns @ [n]) ! Suc i = (ns @ [n]) ! i + 1) \<and>
        (ns @ [n]) ! length ns = (ns @ [n]) ! (length ns - 1) + 1"
    using snoc by (auto simp: less_Suc_eq)
  with snoc show ?thesis by (auto simp: consecutive_def nth_append less_Suc_eq)
qed (simp add: consecutive_def)

lemma consecutive_small [simp]: "consecutive []" "consecutive [n]"
  by (simp_all add: consecutive_def)

text \<open>
  The invariant: only \<open>getNextSequence\<close> tasks wait, the numbers answered so far are consecutive and
  end in the cached one, and a task that loads found the cache empty.
\<close>

definition seq_inv :: "address \<Rightarrow> 'e seq_mgr \<Rightarrow> bool" where
  [inv_defs]: "seq_inv a m \<longleftrightarrow>
     (\<forall>t \<in> set (sm_tasks m a). \<exists>i. t = NextTask i)
     \<and> (sm_loading m a \<longrightarrow> sm_current m a = None \<and> sm_tasks m a \<noteq> [])
     \<and> consecutive (numbers_of a m)
     \<and> (numbers_of a m \<noteq> [] \<longrightarrow> sm_current m a = Some (last (numbers_of a m)))"

lemma set_tlD: "t \<in> set (tl xs) \<Longrightarrow> t \<in> set xs"
  by (cases xs) auto

lemma seq_step_other:
  assumes "seq_inv a m" "undisturbed a e" "case e of Run b \<Rightarrow> a \<noteq> b | Loaded b _ \<Rightarrow> a \<noteq> b | _ \<Rightarrow> True"
  shows "seq_inv a (seq_step e m)"
  using assms
  by (cases "(a, e)" rule: undisturbed.cases)
     (auto simp: seq_inv_def seq_op_defs Let_def split: option.split list.split seq_task.split sum.split)

lemma seq_step_run:
  assumes "seq_inv a m" shows "seq_inv a (run_task a m)"
proof (cases "sm_loading m a \<or> sm_tasks m a = []")
  case False
  then obtain i ts where t: "sm_tasks m a = NextTask i # ts"
    using assms by (cases "sm_tasks m a") (auto simp: seq_inv_def)
  with False assms show ?thesis
    by (cases "sm_current m a")
       (auto simp: seq_inv_def run_task_def getNextSequence_begin_def begin_load_def set_sequence_def
          consecutive_snoc Let_def)
qed (use assms in \<open>auto simp: run_task_def\<close>)

lemma seq_step_loaded:
  assumes "seq_inv a m" shows "seq_inv a (loaded_task a r m)"
proof (cases "sm_loading m a")
  case True
  then obtain i ts where t: "sm_tasks m a = NextTask i # ts"
    using assms by (cases "sm_tasks m a") (auto simp: seq_inv_def)
  have "numbers_of a m = []" using assms True by (auto simp: seq_inv_def)
  with True t assms show ?thesis
    by (cases r) (auto simp: seq_inv_def loaded_task_def getNextSequence_loaded_def set_sequence_def
          consecutive_snoc)
qed (use assms in \<open>simp add: loaded_task_def\<close>)

lemma seq_step_inv:
  assumes "seq_inv a m" "undisturbed a e" shows "seq_inv a (seq_step e m)"
proof (cases "e = Run a \<or> (\<exists>r. e = Loaded a r)")
  case True
  then show ?thesis using seq_step_run seq_step_loaded assms(1) by auto
next
  case False
  then show ?thesis using assms by (intro seq_step_other) (auto split: seq_event.split)
qed

lemma seq_run_inv: "seq_inv a m \<Longrightarrow> (\<And>e. e \<in> set es \<Longrightarrow> undisturbed a e) \<Longrightarrow> seq_inv a (seq_run es m)"
  by (induction es arbitrary: m) (simp_all add: seq_run_def seq_step_inv)

lemma consecutive_nth: "consecutive ns \<Longrightarrow> i < j \<Longrightarrow> j < length ns \<Longrightarrow> ns ! j = ns ! i + int (j - i)"
proof (induction j)
  case (Suc j)
  then show ?case
    by (cases "i = j") (auto simp: consecutive_def Suc_diff_le)
qed simp

lemma consecutive_distinct: "consecutive ns \<Longrightarrow> distinct ns"
  unfolding distinct_conv_nth by (metis consecutive_nth add_cancel_left_right linorder_neqE_nat
      of_nat_eq_0_iff zero_less_diff less_irrefl)

text \<open>
  Without any condition on the run: every number is one that Horizon reported for the account or the
  successor of the number answered before it, since the cache only ever holds the last number answered.
\<close>

definition loads :: "address \<Rightarrow> 'e seq_event list \<Rightarrow> int set" where
  "loads a es = {n. Loaded a (Inr n) \<in> set es}"

definition grounded :: "int set \<Rightarrow> int list \<Rightarrow> bool" where
  "grounded L ns \<longleftrightarrow> (\<forall>i < length ns. ns ! i \<in> L \<or> (0 < i \<and> ns ! i = ns ! (i - 1) + 1))"

definition cache_last :: "address \<Rightarrow> 'e seq_mgr \<Rightarrow> bool" where
  [inv_defs]: "cache_last a m \<longleftrightarrow>
     (\<forall>c. sm_current m a = Some c \<longrightarrow> numbers_of a m \<noteq> [] \<and> last (numbers_of a m) = c)"

lemma grounded_snoc:
  assumes "grounded L ns" "n \<in> L \<or> ns \<noteq> [] \<and> n = last ns + 1"
  shows "grounded L (ns @ [n])"
  unfolding grounded_def
proof (intro allI impI)
  fix i assume i: "i < length (ns @ [n])"
  show "(ns @ [n]) ! i \<in> L \<or> 0 < i \<and> (ns @ [n]) ! i = (ns @ [n]) ! (i - 1) + 1"
  proof (cases "i < length ns")
    case True
    then have "ns ! i \<in> L \<or> 0 < i \<and> ns ! i = ns ! (i - 1) + 1" using assms(1) by (simp add: grounded_def)
    moreover have "i - 1 < length ns" using True by simp
    ultimately show ?thesis using True by (simp add: nth_append)
  next
    case False
    then have "i = length ns" using i by simp
    then show ?thesis using assms(2) by (auto simp: nth_append last_conv_nth)
  qed
qed

lemma run_task_cache_last: "cache_last a m \<Longrightarrow> cache_last a (run_task b m)"
  by (cases "a = b")
     (auto simp: cache_last_def run_task_def getNextSequence_begin_def syncSequence_begin_def begin_load_def
        set_sequence_def Let_def split: list.split seq_task.split option.split)

lemma loaded_task_cache_last: "cache_last a m \<Longrightarrow> cache_last a (loaded_task b r m)"
  by (cases r; cases "a = b")
     (auto simp: cache_last_def loaded_task_def getNextSequence_loaded_def syncSequence_loaded_def
        set_sequence_def split: list.split seq_task.split)

lemma seq_step_cache_last: "cache_last a m \<Longrightarrow> cache_last a (seq_step e m)"
proof (cases e)
  case (Invalidate b)
  assume "cache_last a m"
  then show ?thesis using Invalidate by (auto simp: cache_last_def invalidate_def set_sequence_def split: option.split)
qed (simp_all add: run_task_cache_last loaded_task_cache_last, simp add: cache_last_def call_task_def)

lemma run_task_numbers:
  "numbers_of a (run_task b m) = numbers_of a m
   \<or> (\<exists>c. sm_current m a = Some c \<and> numbers_of a (run_task b m) = numbers_of a m @ [c + 1])"
  by (auto simp: run_task_def getNextSequence_begin_def syncSequence_begin_def begin_load_def set_sequence_def Let_def
      split: list.split seq_task.split option.split)

lemma loaded_task_numbers:
  "numbers_of a (loaded_task b r m) = numbers_of a m
   \<or> (\<exists>n. a = b \<and> r = Inr n \<and> numbers_of a (loaded_task b r m) = numbers_of a m @ [n])"
  by (cases r) (auto simp: loaded_task_def getNextSequence_loaded_def syncSequence_loaded_def set_sequence_def
      split: list.split seq_task.split)

lemma seq_step_numbers:
  "numbers_of a (seq_step e m) = numbers_of a m
   \<or> (\<exists>n. numbers_of a (seq_step e m) = numbers_of a m @ [n] \<and>
        (n \<in> loads a [e] \<or> (\<exists>c. sm_current m a = Some c \<and> n = c + 1)))"
proof (cases e)
  case (Run b)
  then show ?thesis using run_task_numbers [of a b m] by auto
next
  case (Loaded b r)
  then show ?thesis using loaded_task_numbers [of a b r m] by (auto simp: loads_def)
qed (auto simp: call_task_def invalidate_def set_sequence_def split: option.split)

lemma seq_step_grounded:
  assumes "cache_last a m" "grounded L (numbers_of a m)" "loads a [e] \<subseteq> L"
  shows "grounded L (numbers_of a (seq_step e m))"
  using seq_step_numbers [of a e m] assms by (auto simp: cache_last_def grounded_snoc)

lemma seq_run_grounded:
  "cache_last a m \<Longrightarrow> grounded L (numbers_of a m) \<Longrightarrow> loads a es \<subseteq> L \<Longrightarrow> grounded L (numbers_of a (seq_run es m))"
proof (induction es arbitrary: m)
  case (Cons e es)
  have "loads a [e] \<subseteq> L" "loads a es \<subseteq> L" using Cons.prems(3) by (auto simp: loads_def)
  then show ?case
    using Cons.IH [of "seq_step e m"] Cons.prems(1,2) seq_step_cache_last [of a m e]
      seq_step_grounded [of a m L e] by (simp add: seq_run_def)
qed (simp add: seq_run_def)

text \<open>
  C9. Whatever the interleaving of calls, Horizon answers and failures, syncs, invalidations and the
  tasks of other accounts, the calls for an account are answered in the order they were made, and
  every sequence number answered is one that Horizon reported for the account or the successor of the
  number answered before.  In a run where the account is neither synced nor invalidated the numbers
  are consecutive: no two callers share one.
\<close>

theorem sequences_consecutive:
  "(\<exists>waiting. map fst (answers_of a (seq_run es new_SequenceManager)) @ waiting = calls_of a es)
   \<and> grounded (loads a es) (numbers_of a (seq_run es new_SequenceManager))
   \<and> ((\<forall>e \<in> set es. undisturbed a e) \<longrightarrow>
        consecutive (numbers_of a (seq_run es new_SequenceManager))
        \<and> distinct (numbers_of a (seq_run es new_SequenceManager)))"
proof -
  have n: "numbers_of a new_SequenceManager = []"
    by (simp add: new_SequenceManager_def numbers_of_def answers_of_def)
  have "cache_last a new_SequenceManager" by (simp add: cache_last_def new_SequenceManager_def)
  then have "grounded (loads a es) (numbers_of a (seq_run es new_SequenceManager))"
    by (rule seq_run_grounded) (simp_all add: n grounded_def)
  moreover have "seq_inv a new_SequenceManager"
    unfolding seq_inv_def n by (simp add: new_SequenceManager_def)
  then have "consecutive (numbers_of a (seq_run es new_SequenceManager))" if "\<forall>e \<in> set es. undisturbed a e"
    using seq_run_inv that by (auto simp: seq_inv_def)
  moreover have "map fst (answers_of a (seq_run es new_SequenceManager)) @
      sm_tasks (seq_run es new_SequenceManager) a = calls_of a es"
    using seq_run_order [of a es new_SequenceManager]
    by (simp add: new_SequenceManager_def answers_of_def)
  ultimately show ?thesis using consecutive_distinct by blast
qed

theorem sequences_consecutive_witness:
  "let es = [Call ''G'' (NextTask 0), Run ''G'', Call ''G'' (NextTask 1), Loaded ''G'' (Inr 41),
             Invalidate (Some ''H''), Run ''G''] :: unit seq_event list
   in (\<forall>e \<in> set es. undisturbed ''G'' e)
      \<and> consecutive (numbers_of ''G'' (seq_run es new_SequenceManager))
      \<and> numbers_of ''G'' (seq_run es new_SequenceManager) = [41, 42]"
proof -
  define es :: "unit seq_event list" where "es = [Call ''G'' (NextTask 0), Run ''G'', Call ''G'' (NextTask 1),
    Loaded ''G'' (Inr 41), Invalidate (Some ''H''), Run ''G'']"
  have u: "\<forall>e \<in> set es. undisturbed ''G'' e" by (auto simp: es_def)
  have "numbers_of ''G'' (seq_run es (new_SequenceManager :: unit seq_mgr)) = [41, 42]"
    by (simp add: es_def seq_run_def seq_op_defs new_SequenceManager_def numbers_of_def answers_of_def
        answer_def)
  with sequences_consecutive [of "''G''" es] u show ?thesis
    unfolding es_def [symmetric] Let_def by simp
qed

text \<open>
  \<open>invalidate\<close> takes no mutex: one that arrives while a call of that account waits for Horizon
  has no effect, so the next call is answered from the cache with the number loaded before, although
  the log line promises a new load.
\<close>

theorem invalidate_during_load_is_lost:
  assumes "sm_loading m a" "sm_tasks m a = NextTask i # NextTask j # ts" "a \<noteq> ''''"
  shows "let m' = seq_run [Invalidate (Some a), Loaded a (Inr n), Run a] m
         in numbers_of a m' = numbers_of a m @ [n, n + 1] \<and> sm_current m' a = Some (n + 1)"
  using assms by (simp add: seq_run_def seq_op_defs Let_def)

theorem invalidate_during_load_is_lost_witness:
  "let m = seq_run [Call ''G'' (NextTask 0), Call ''G'' (NextTask 1), Run ''G'']
             (new_SequenceManager :: unit seq_mgr)
   in sm_loading m ''G''
      \<and> numbers_of ''G'' (seq_run [Invalidate (Some ''G''), Loaded ''G'' (Inr 7), Run ''G''] m) = [7, 8]"
proof -
  define m where "m = seq_run [Call ''G'' (NextTask 0), Call ''G'' (NextTask 1), Run ''G'']
             (new_SequenceManager :: unit seq_mgr)"
  have m: "sm_loading m ''G''" "sm_tasks m ''G'' = [NextTask 0, NextTask 1]" "numbers_of ''G'' m = []"
    by (simp_all add: m_def seq_run_def seq_op_defs new_SequenceManager_def numbers_of_def answers_of_def)
  show ?thesis
    using invalidate_during_load_is_lost [OF m(1,2), of 7] m unfolding m_def [symmetric] Let_def by simp
qed

end
