(* ===== verification/JSString.thy ===== *)
theory JSString
  imports Prelude JSNumber
begin

text \<open>
  Strings.  A JavaScript string is a list of code points below 256; case mapping is that of the ASCII
  letters.  The library functions the sources call on strings: trimming, splitting and joining,
  hexadecimal and decimal printing and reading, UTF-8 lengths.  JSON values are the \<open>unknown\<close> of the
  sources; an object is the list of its own properties in enumeration order, without duplicate names
  (names that look like array indices, which engines enumerate first, and the names of
  \<open>Object.prototype\<close> are not used as property names).
\<close>

section \<open>Characters\<close>

abbreviation code :: "char \<Rightarrow> nat" where
  "code c \<equiv> of_char c"

definition is_digit :: "char \<Rightarrow> bool" where
  "is_digit c \<longleftrightarrow> 48 \<le> code c \<and> code c \<le> 57"

definition is_upper :: "char \<Rightarrow> bool" where
  "is_upper c \<longleftrightarrow> 65 \<le> code c \<and> code c \<le> 90"

definition is_lower :: "char \<Rightarrow> bool" where
  "is_lower c \<longleftrightarrow> 97 \<le> code c \<and> code c \<le> 122"

text \<open>The white space and line terminators below 256.\<close>

definition is_space :: "char \<Rightarrow> bool" where
  "is_space c \<longleftrightarrow> code c \<in> {9, 10, 11, 12, 13, 32, 160}"

definition lower_char :: "char \<Rightarrow> char" where
  "lower_char c = (if is_upper c then char_of (code c + 32) else c)"

definition upper_char :: "char \<Rightarrow> char" where
  "upper_char c = (if is_lower c then char_of (code c - 32) else c)"

definition toLowerCase :: "string \<Rightarrow> string" where
  "toLowerCase s = map lower_char s"

definition js_trim :: "string \<Rightarrow> string" where
  "js_trim s = rev (dropWhile is_space (rev (dropWhile is_space s)))"

definition squote :: "string \<Rightarrow> string" where
  "squote s = CHR 0x27 # s @ [CHR 0x27]"

section \<open>Splitting and joining\<close>

fun split_at :: "char \<Rightarrow> string \<Rightarrow> string list" where
  "split_at sep [] = [[]]"
| "split_at sep (c # cs) =
     (if c = sep then [] # split_at sep cs
      else case split_at sep cs of
             [] \<Rightarrow> [[c]]
           | part # parts \<Rightarrow> (c # part) # parts)"

fun join_with :: "string \<Rightarrow> string list \<Rightarrow> string" where
  "join_with sep [] = []"
| "join_with sep [part] = part"
| "join_with sep (part # parts) = part @ sep @ join_with sep parts"

lemma split_at_not_Nil: "split_at sep s \<noteq> []"
  by (induction s) (auto split: list.split)

lemma join_split: "join_with [sep] (split_at sep s) = s"
proof (induction s)
  case (Cons c cs)
  obtain part parts where p: "split_at sep cs = part # parts"
    using split_at_not_Nil [of sep cs] by (cases "split_at sep cs") auto
  with Cons show ?case by (cases parts) simp_all
qed simp

lemma split_at_parts: "part \<in> set (split_at sep s) \<Longrightarrow> sep \<notin> set part"
proof (induction s arbitrary: part)
  case (Cons c cs)
  then show ?case by (cases "split_at sep cs") (auto split: if_splits)
qed simp

section \<open>Bytes\<close>

type_synonym byte = "8 word"
type_synonym bytes = "byte list"

definition utf8_char :: "char \<Rightarrow> bytes" where
  "utf8_char c =
     (if code c < 128 then [of_nat (code c)]
      else [of_nat (192 + code c div 64), of_nat (128 + code c mod 64)])"

definition utf8 :: "string \<Rightarrow> bytes" where
  "utf8 s = concat (map utf8_char s)"

definition hex_digit :: "nat \<Rightarrow> char" where
  "hex_digit n = (if n < 10 then char_of (48 + n) else char_of (87 + n))"

definition hex :: "bytes \<Rightarrow> string" where
  "hex bs = concat (map (\<lambda>b. [hex_digit (unat b div 16), hex_digit (unat b mod 16)]) bs)"

definition hex_value :: "char \<Rightarrow> nat option" where
  "hex_value c =
     (if is_digit c then Some (code c - 48)
      else if 97 \<le> code c \<and> code c \<le> 102 then Some (code c - 87)
      else if 65 \<le> code c \<and> code c \<le> 70 then Some (code c - 55)
      else None)"

text \<open>\<open>Buffer.from(s, 'hex')\<close> stops at the first character that is not part of a pair of digits.\<close>

fun unhex :: "string \<Rightarrow> bytes" where
  "unhex (a # b # s) =
     (case (hex_value a, hex_value b) of
        (Some m, Some n) \<Rightarrow> of_nat (16 * m + n) # unhex s
      | _ \<Rightarrow> [])"
| "unhex _ = []"

lemma of_char_char_of_nat: "n < 256 \<Longrightarrow> (of_char (char_of n :: char) :: nat) = n"
  by simp

lemma hex_value_digit: "n < 16 \<Longrightarrow> hex_value (hex_digit n) = Some n"
  by (auto simp: hex_value_def hex_digit_def is_digit_def)

lemma unat_byte_bound: "unat (b :: byte) < 256"
  using unsigned_less [of b, where 'a = nat] by simp

lemma unhex_hex: "unhex (hex bs) = bs"
proof (induction bs)
  case (Cons b bs)
  have "unat b div 16 < 16" "unat b mod 16 < 16" using unat_byte_bound [of b] by simp_all
  moreover have "of_nat (16 * (unat b div 16) + unat b mod 16) = b" by simp
  ultimately show ?case using Cons by (simp add: hex_def hex_value_digit)
qed (simp add: hex_def)

lemma hex_append: "hex (xs @ ys) = hex xs @ hex ys"
  by (simp add: hex_def)

lemma length_hex: "length (hex bs) = 2 * length bs"
  by (induction bs) (simp_all add: hex_def)

section \<open>Decimal numbers\<close>

fun show_nat :: "nat \<Rightarrow> string" where
  "show_nat n = (if n < 10 then [char_of (48 + n)] else show_nat (n div 10) @ [char_of (48 + n mod 10)])"

declare show_nat.simps [simp del]

definition read_nat :: "string \<Rightarrow> nat" where
  "read_nat s = foldl (\<lambda>n c. 10 * n + (code c - 48)) 0 s"

definition show_int :: "int \<Rightarrow> string" where
  "show_int z = (if z < 0 then CHR ''-'' # show_nat (nat (- z)) else show_nat (nat z))"

lemma read_nat_snoc: "read_nat (s @ [c]) = 10 * read_nat s + (code c - 48)"
  by (simp add: read_nat_def)

lemma show_nat_digits: "c \<in> set (show_nat n) \<Longrightarrow> is_digit c"
proof (induction n rule: show_nat.induct)
  case (1 n)
  then show ?case by (subst (asm) (2) show_nat.simps) (auto simp: is_digit_def split: if_splits)
qed

lemma show_nat_not_Nil [simp]: "show_nat n \<noteq> []"
  by (subst show_nat.simps) simp

lemma read_show_nat: "read_nat (show_nat n) = n"
proof (induction n rule: show_nat.induct)
  case (1 n)
  show ?case
  proof (cases "n < 10")
    case False
    then show ?thesis by (subst show_nat.simps) (simp add: read_nat_snoc 1)
  qed (subst show_nat.simps, simp add: read_nat_def)
qed

lemma read_nat_append: "read_nat (s @ t) = read_nat s * 10 ^ length t + read_nat t"
proof (induction t rule: rev_induct)
  case (snoc c t)
  then show ?case by (simp add: read_nat_snoc algebra_simps flip: append_assoc)
qed (simp add: read_nat_def)

lemma read_nat_bound: "(\<And>c. c \<in> set s \<Longrightarrow> is_digit c) \<Longrightarrow> read_nat s < 10 ^ length s"
proof (induction s rule: rev_induct)
  case (snoc c s)
  have "is_digit c" using snoc.prems by simp
  then have "code c - 48 \<le> 9" unfolding is_digit_def by linarith
  moreover have "read_nat s < 10 ^ length s" using snoc by simp
  ultimately
  show ?case by (simp add: read_nat_snoc)
qed (simp add: read_nat_def)

section \<open>JSON values\<close>

datatype json =
    JUndefined
  | JNull
  | JBool bool
  | JNum rat
  | JStr string
  | JArr "json list"
  | JObj "(string \<times> json) list"

text \<open>A property that is not there reads as \<open>undefined\<close>.\<close>

definition js_prop :: "(string \<times> json) list \<Rightarrow> string \<Rightarrow> json" where
  "js_prop obj name = (case jm_get obj name of None \<Rightarrow> JUndefined | Some v \<Rightarrow> v)"

text \<open>\<open>typeof v === "object" && v !== null && !Array.isArray(v)\<close>.\<close>

fun plain_object :: "json \<Rightarrow> (string \<times> json) list option" where
  "plain_object (JObj obj) = Some obj"
| "plain_object _ = None"

text \<open>The spread \<open>{ ...a, ...b }\<close>: entries of \<open>b\<close> replace those of \<open>a\<close> in place.\<close>

definition js_spread :: "(string \<times> json) list \<Rightarrow> (string \<times> json) list \<Rightarrow> (string \<times> json) list" where
  "js_spread a b = fold (\<lambda>(k, v) obj. jm_set k v obj) b a"

lemma jm_get_fold_set:
  "jm_get (fold (\<lambda>(k, v) obj. jm_set k v obj) b a) k =
     (case map_of (rev b) k of None \<Rightarrow> jm_get a k | Some v \<Rightarrow> Some v)"
  by (induction b arbitrary: a) (auto simp: map_add_def split: option.split)

lemma map_of_rev: "distinct (map fst b) \<Longrightarrow> map_of (rev b) = map_of b"
  by (rule map_of_eqI) (auto simp: rev_map [symmetric] dest: map_of_SomeD intro!: map_of_is_SomeI)

lemma jm_get_spread:
  "distinct (jm_keys b) \<Longrightarrow>
     jm_get (js_spread a b) k = (case jm_get b k of None \<Rightarrow> jm_get a k | Some v \<Rightarrow> Some v)"
  by (simp add: js_spread_def jm_get_fold_set map_of_rev)

lemma js_spread_keys: "set (jm_keys (js_spread a b)) = set (jm_keys a) \<union> set (jm_keys b)"
  unfolding js_spread_def
proof (induction b arbitrary: a)
  case (Cons p b)
  then show ?case using jm_keys_set [of "fst p" "snd p" a] by (cases p) auto
qed simp

lemma js_spread_distinct: "distinct (jm_keys a) \<Longrightarrow> distinct (jm_keys (js_spread a b))"
  unfolding js_spread_def by (induction b arbitrary: a) (auto simp: jm_distinct_set)

lemma char_of_48: "char_of (48 :: nat) = CHR ''0''"
  by code_simp

lemma js_trim_id:
  assumes "\<And>c. c \<in> set s \<Longrightarrow> \<not> is_space c" shows "js_trim s = s"
proof -
  have "dropWhile is_space t = t" if "\<And>c. c \<in> set t \<Longrightarrow> \<not> is_space c" for t
    using that by (cases t) auto
  from this [of s] this [of "rev s"] assms show ?thesis by (simp add: js_trim_def)
qed

end
