(* ===== verification/KeyKeeper.thy ===== *)
theory KeyKeeper
  imports JSString
begin

text \<open>
  \<open>src/state/keeper.ts\<close>: the keeper of secret bytes.  Buffers live in an explicit heap, a list of
  byte arrays indexed by address, so that a copy is a new address and \<open>zeroise\<close> overwrites what an
  address holds; \<open>kk_owned\<close> is a ghost list of the addresses that ever backed a stored secret.  The
  HMAC of \<open>node:crypto\<close> is a parameter \<open>hm\<close> (key, then message); only the length of a digest is ever
  assumed of it.

  The lemmas: secrets and enrollments stay in step along every sequence of calls and each enrollment
  carries the fingerprint of the secret stored under its name; a retired buffer is all zeroes;
  signatures verify; which copies of a secret escape the zeroising.
\<close>

section \<open>Buffers\<close>

type_synonym heap = "bytes list"
type_synonym hmac = "bytes \<Rightarrow> bytes \<Rightarrow> bytes"

definition alloc :: "bytes \<Rightarrow> heap \<Rightarrow> nat \<times> heap" where
  "alloc bs h = (length h, h @ [bs])"

record secure_bytes =
  sb_buf :: nat
  sb_name :: string

definition new_SecureBytes :: "bytes \<Rightarrow> string \<Rightarrow> heap \<Rightarrow> secure_bytes \<times> heap" where
  "new_SecureBytes data name h = (let (b, h') = alloc data h in (\<lparr>sb_buf = b, sb_name = name\<rparr>, h'))"

definition sb_length :: "secure_bytes \<Rightarrow> heap \<Rightarrow> nat" where
  "sb_length sb h = length (h ! sb_buf sb)"

definition expose :: "secure_bytes \<Rightarrow> heap \<Rightarrow> nat \<times> heap" where
  "expose sb h = alloc (h ! sb_buf sb) h"

definition zeroise :: "secure_bytes \<Rightarrow> heap \<Rightarrow> secure_bytes \<times> heap" where
  "zeroise sb h =
     (let h1 = h[sb_buf sb := replicate (length (h ! sb_buf sb)) 0];
          (b, h2) = alloc [] h1
      in (sb\<lparr>sb_buf := b\<rparr>, h2))"

section \<open>The keeper\<close>

record secret_enrollment =
  en_name :: string
  en_fingerprint :: string
  en_algorithm :: string
  en_createdSeq :: nat

datatype keeper_error = KeeperError string | SecretNotFoundError string | RangeError

record key_keeper =
  kk_root :: bytes
  kk_statePath :: "string option"
  kk_secrets :: "(string \<times> secure_bytes) list"
  kk_meta :: "(string \<times> secret_enrollment) list"
  kk_seq :: nat
  kk_heap :: heap
  kk_owned :: "nat list"

definition new_KeyKeeper :: "bytes option \<Rightarrow> string option \<Rightarrow> key_keeper" where
  "new_KeyKeeper rootKey statePath =
     \<lparr>kk_root = (case rootKey of Some r \<Rightarrow> if length r > 0 then r else [] | None \<Rightarrow> []),
      kk_statePath = statePath, kk_secrets = [], kk_meta = [], kk_seq = 0, kk_heap = [], kk_owned = []\<rparr>"

definition fingerprint :: "hmac \<Rightarrow> string \<Rightarrow> bytes \<Rightarrow> string" where
  "fingerprint hm name data = hex (hm (utf8 ''stellarflow-keeper-fp'') (utf8 (name @ ''|'') @ data))"

definition retire :: "string \<Rightarrow> key_keeper \<Rightarrow> heap \<Rightarrow> heap" where
  "retire name k h = (case jm_get (kk_secrets k) name of None \<Rightarrow> h | Some sb \<Rightarrow> snd (zeroise sb h))"

definition put_secret ::
  "hmac \<Rightarrow> string \<Rightarrow> bytes \<Rightarrow> string \<Rightarrow> key_keeper \<Rightarrow> (keeper_error + secret_enrollment) \<times> key_keeper" where
  "put_secret hm name secret algorithm k =
     (if name = '''' then (Inl (KeeperError ''secret name must be non-empty''), k)
      else
        let (d1, h1) = alloc secret (kk_heap k);
            fp = fingerprint hm name (h1 ! d1);
            h2 = retire name k h1;
            seq = kk_seq k + 1;
            (d2, h3) = alloc secret h2;
            (sb, h4) = new_SecureBytes (h3 ! d2) name h3;
            enrollment = \<lparr>en_name = name, en_fingerprint = fp, en_algorithm = algorithm,
                          en_createdSeq = seq\<rparr>
        in (Inr enrollment,
            k\<lparr>kk_secrets := jm_set name sb (kk_secrets k),
              kk_meta := jm_set name enrollment (kk_meta k),
              kk_seq := seq, kk_heap := h4, kk_owned := kk_owned k @ [sb_buf sb]\<rparr>))"

definition delete_secret :: "string \<Rightarrow> key_keeper \<Rightarrow> (keeper_error + unit) \<times> key_keeper" where
  "delete_secret name k =
     (case jm_get (kk_secrets k) name of
        None \<Rightarrow> (Inl (SecretNotFoundError name), k)
      | Some sb \<Rightarrow>
          (Inr (), k\<lparr>kk_heap := snd (zeroise sb (kk_heap k)),
                     kk_secrets := jm_delete name (kk_secrets k),
                     kk_meta := jm_delete name (kk_meta k)\<rparr>))"

definition has_secret :: "string \<Rightarrow> key_keeper \<Rightarrow> bool" where
  "has_secret name k = (jm_get (kk_secrets k) name \<noteq> None)"

definition listEnrollments :: "key_keeper \<Rightarrow> secret_enrollment list" where
  "listEnrollments k = map snd (kk_meta k)"

definition derivedKey :: "hmac \<Rightarrow> string \<Rightarrow> key_keeper \<Rightarrow> bytes" where
  "derivedKey hm name k = hm (kk_root k) (utf8 (''stellarflow-keeper|'' @ name))"

definition sign_message :: "hmac \<Rightarrow> string \<Rightarrow> bytes \<Rightarrow> key_keeper \<Rightarrow> keeper_error + bytes" where
  "sign_message hm name message k =
     (if \<not> has_secret name k then Inl (SecretNotFoundError name)
      else Inr (hm (derivedKey hm name k) message))"

text \<open>\<open>crypto.timingSafeEqual\<close> throws a \<open>RangeError\<close> for arrays of different lengths.\<close>

definition timingSafeEqual :: "bytes \<Rightarrow> bytes \<Rightarrow> keeper_error + bool" where
  "timingSafeEqual a b = (if length a \<noteq> length b then Inl RangeError else Inr (a = b))"

definition verify_message :: "hmac \<Rightarrow> string \<Rightarrow> bytes \<Rightarrow> bytes \<Rightarrow> key_keeper \<Rightarrow> keeper_error + bool" where
  "verify_message hm name message signature k =
     (if \<not> has_secret name k then Inr False
      else timingSafeEqual (hm (derivedKey hm name k) message) signature)"

definition rotateRootKey :: "bytes \<Rightarrow> key_keeper \<Rightarrow> key_keeper" where
  "rotateRootKey newRootKey k = k\<lparr>kk_root := newRootKey\<rparr>"

definition secureWipe :: "key_keeper \<Rightarrow> key_keeper" where
  "secureWipe k =
     k\<lparr>kk_heap := fold (\<lambda>sb h. snd (zeroise sb h)) (map snd (kk_secrets k)) (kk_heap k),
       kk_secrets := [], kk_meta := []\<rparr>"

record keeper_snapshot =
  sn_rootFingerprint :: string
  sn_seq :: nat
  sn_enrollments :: "secret_enrollment list"

definition snapshotState :: "hmac \<Rightarrow> key_keeper \<Rightarrow> keeper_snapshot" where
  "snapshotState hm k =
     \<lparr>sn_rootFingerprint = fingerprint hm ''__root__'' (kk_root k), sn_seq = kk_seq k,
      sn_enrollments = listEnrollments k\<rparr>"

text \<open>\<open>persistState\<close>: the path written to and the object whose JSON text is written there.\<close>

definition persistState ::
  "hmac \<Rightarrow> string option \<Rightarrow> key_keeper \<Rightarrow> keeper_error + (string \<times> keeper_snapshot)" where
  "persistState hm target k =
     (case (case target of None \<Rightarrow> kk_statePath k | Some t \<Rightarrow> Some t) of
        None \<Rightarrow> Inl (KeeperError ''no state path configured'')
      | Some out \<Rightarrow> if out = '''' then Inl (KeeperError ''no state path configured'')
                    else Inr (out, snapshotState hm k))"

datatype keeper_op = Put string bytes string | Delete string | Rotate bytes | Wipe

fun keeper_step :: "hmac \<Rightarrow> keeper_op \<Rightarrow> key_keeper \<Rightarrow> key_keeper" where
  "keeper_step hm (Put name secret algorithm) k = snd (put_secret hm name secret algorithm k)"
| "keeper_step hm (Delete name) k = snd (delete_secret name k)"
| "keeper_step hm (Rotate r) k = rotateRootKey r k"
| "keeper_step hm Wipe k = secureWipe k"

definition keeper_run :: "hmac \<Rightarrow> keeper_op list \<Rightarrow> key_keeper \<Rightarrow> key_keeper" where
  "keeper_run hm ops k = fold (keeper_step hm) ops k"

section \<open>Heap lemmas\<close>

definition zeroed :: "heap \<Rightarrow> nat \<Rightarrow> bool" where
  "zeroed h a \<longleftrightarrow> (\<forall>b \<in> set (h ! a). b = 0)"

lemma zeroise_heap:
  "snd (zeroise sb h) = h[sb_buf sb := replicate (length (h ! sb_buf sb)) 0] @ [[]]"
  by (simp add: zeroise_def alloc_def)

lemma zeroise_length [simp]: "length (snd (zeroise sb h)) = Suc (length h)"
  by (simp add: zeroise_heap)

lemma zeroise_nth:
  "a < length h \<Longrightarrow> snd (zeroise sb h) ! a =
     (if a = sb_buf sb then replicate (length (h ! a)) 0 else h ! a)"
  by (auto simp: zeroise_heap nth_append nth_list_update)

lemma zeroise_zeroed: "a < length h \<Longrightarrow> a = sb_buf sb \<or> zeroed h a \<Longrightarrow> zeroed (snd (zeroise sb h)) a"
  by (auto simp: zeroed_def zeroise_nth)

lemma zeroise_fold_length: "length (fold (\<lambda>sb h. snd (zeroise sb h)) sbs h) = length h + length sbs"
  by (induction sbs arbitrary: h) simp_all

lemma zeroise_fold_zeroed:
  "a < length h \<Longrightarrow> a \<in> sb_buf ` set sbs \<or> zeroed h a \<Longrightarrow>
     zeroed (fold (\<lambda>sb h. snd (zeroise sb h)) sbs h) a"
proof (induction sbs arbitrary: h)
  case (Cons sb sbs)
  then show ?case
    using zeroise_zeroed [of a h sb] by (cases "a = sb_buf sb") auto
qed simp

section \<open>The keeper invariant\<close>

text \<open>
  Secrets and enrollments have the same names; an enrollment carries the name and the fingerprint of
  the secret it describes and a sequence number already given out; no two secrets share a buffer; and
  every buffer that once backed a secret and does no longer is zeroed.
\<close>

definition live :: "key_keeper \<Rightarrow> nat \<Rightarrow> bool" where
  "live k a \<longleftrightarrow> (\<exists>n sb. jm_get (kk_secrets k) n = Some sb \<and> sb_buf sb = a)"

definition described :: "hmac \<Rightarrow> key_keeper \<Rightarrow> string \<Rightarrow> secure_bytes \<Rightarrow> bool" where
  "described hm k n sb \<longleftrightarrow>
     sb_buf sb < length (kk_heap k) \<and> sb_buf sb \<in> set (kk_owned k) \<and>
     (\<exists>en. jm_get (kk_meta k) n = Some en \<and> en_name en = n \<and> en_createdSeq en \<le> kk_seq k \<and>
        en_fingerprint en = fingerprint hm n (kk_heap k ! sb_buf sb))"

definition keeper_inv :: "hmac \<Rightarrow> key_keeper \<Rightarrow> bool" where
  [inv_defs]: "keeper_inv hm k \<longleftrightarrow>
     dom (jm_get (kk_meta k)) = dom (jm_get (kk_secrets k))
     \<and> (\<forall>n sb. jm_get (kk_secrets k) n = Some sb \<longrightarrow> described hm k n sb)
     \<and> (\<forall>n n' sb sb'. jm_get (kk_secrets k) n = Some sb \<longrightarrow> jm_get (kk_secrets k) n' = Some sb' \<longrightarrow>
          sb_buf sb = sb_buf sb' \<longrightarrow> n = n')
     \<and> (\<forall>a \<in> set (kk_owned k). a < length (kk_heap k) \<and> (live k a \<or> zeroed (kk_heap k) a))"

lemma retire_length: "length h \<le> length (retire name k h)"
  by (simp add: retire_def split: option.split)

lemma retire_other:
  "a < length h \<Longrightarrow> (\<And>sb. jm_get (kk_secrets k) name = Some sb \<Longrightarrow> sb_buf sb \<noteq> a) \<Longrightarrow>
     retire name k h ! a = h ! a"
  by (auto simp: retire_def zeroise_nth split: option.split)

lemma retire_zeroed:
  "a < length h \<Longrightarrow> zeroed h a \<or> (\<exists>sb. jm_get (kk_secrets k) name = Some sb \<and> sb_buf sb = a) \<Longrightarrow>
     zeroed (retire name k h) a"
  by (auto simp: retire_def intro: zeroise_zeroed split: option.split)

lemma zeroed_append: "a < length h \<Longrightarrow> zeroed (h @ h') a = zeroed h a"
  by (simp add: zeroed_def nth_append)

text \<open>What \<open>put\<close> leaves behind, the intermediate copies of the secret included.\<close>

definition put_heap :: "string \<Rightarrow> bytes \<Rightarrow> key_keeper \<Rightarrow> heap" where
  "put_heap name secret k = retire name k (kk_heap k @ [secret])"

definition put_enrollment :: "hmac \<Rightarrow> string \<Rightarrow> bytes \<Rightarrow> string \<Rightarrow> key_keeper \<Rightarrow> secret_enrollment" where
  "put_enrollment hm name secret algorithm k =
     \<lparr>en_name = name, en_fingerprint = fingerprint hm name secret, en_algorithm = algorithm,
      en_createdSeq = kk_seq k + 1\<rparr>"

lemma put_secret_eq:
  assumes "name \<noteq> ''''"
  shows "put_secret hm name secret algorithm k =
     (Inr (put_enrollment hm name secret algorithm k),
      k\<lparr>kk_secrets := jm_set name \<lparr>sb_buf = Suc (length (put_heap name secret k)), sb_name = name\<rparr>
                        (kk_secrets k),
        kk_meta := jm_set name (put_enrollment hm name secret algorithm k) (kk_meta k),
        kk_seq := kk_seq k + 1,
        kk_heap := put_heap name secret k @ [secret, secret],
        kk_owned := kk_owned k @ [Suc (length (put_heap name secret k))]\<rparr>)"
  using assms
  by (simp add: put_secret_def put_heap_def put_enrollment_def alloc_def new_SecureBytes_def nth_append
      Let_def)

lemma put_heap_longer: "length (kk_heap k) < length (put_heap name secret k)"
  using retire_length [of "kk_heap k @ [secret]" name k] by (simp add: put_heap_def)

lemma put_described:
  assumes inv: "keeper_inv hm k" and name: "name \<noteq> ''''"
    and k': "k' = snd (put_secret hm name secret algorithm k)" "jm_get (kk_secrets k') n = Some sb"
  shows "described hm k' n sb"
proof (cases "n = name")
  case True
  then show ?thesis using k'(2)
    by (auto simp: k'(1) put_secret_eq [OF name] described_def put_enrollment_def nth_append)
next
  case False
  note k'_eq = k'(1) [unfolded put_secret_eq [OF name] snd_conv]
  have old: "jm_get (kk_secrets k) n = Some sb" using k'(2) False by (simp add: k'_eq)
  then have d: "described hm k n sb" using inv by (simp add: keeper_inv_def)
  have "sb_buf sb' \<noteq> sb_buf sb" if "jm_get (kk_secrets k) name = Some sb'" for sb'
    using that old inv False by (auto simp: keeper_inv_def)
  then have "put_heap name secret k ! sb_buf sb = kk_heap k ! sb_buf sb"
    using d retire_other [of "sb_buf sb" "kk_heap k @ [secret]" k name]
    by (auto simp: put_heap_def nth_append described_def)
  then show ?thesis using d put_heap_longer [of k name secret] False by (auto simp: described_def k'_eq nth_append)
qed

text \<open>A buffer that was live is still live after \<open>put\<close>, or it was retired and is zeroed.\<close>

lemma put_live_or_zeroed:
  assumes inv: "keeper_inv hm k" and name: "name \<noteq> ''''"
    and k': "k' = snd (put_secret hm name secret algorithm k)" and a: "a < length (kk_heap k)" "live k a \<or> zeroed (kk_heap k) a"
  shows "live k' a \<or> zeroed (put_heap name secret k) a"
proof (cases "live k a")
  case True
  then obtain n sb where n: "jm_get (kk_secrets k) n = Some sb" "sb_buf sb = a" by (auto simp: live_def)
  show ?thesis
  proof (cases "n = name")
    case True
    then show ?thesis using n a retire_zeroed [of a "kk_heap k @ [secret]" k name] by (simp add: put_heap_def)
  next
    case False
    then have "jm_get (kk_secrets k') n = Some sb" using n by (simp add: k' put_secret_eq [OF name])
    then show ?thesis using n by (auto simp: live_def)
  qed
next
  case False
  then show ?thesis using a retire_zeroed [of a "kk_heap k @ [secret]" k name] by (simp add: put_heap_def zeroed_append)
qed

lemma put_keeper_inv:
  assumes inv: "keeper_inv hm k" and name: "name \<noteq> ''''"
  shows "keeper_inv hm (snd (put_secret hm name secret algorithm k))"
proof -
  define h where "h = put_heap name secret k"
  define k' where "k' = snd (put_secret hm name secret algorithm k)"
  note k'_eq = k'_def [unfolded put_secret_eq [OF name] snd_conv, folded h_def]
  have len: "length (kk_heap k) < length h" by (simp add: h_def put_heap_longer)
  have dead: "a < length (kk_heap k') \<and> (live k' a \<or> zeroed (kk_heap k') a)"
    if "a \<in> set (kk_owned k')" for a
  proof (cases "a = Suc (length h)")
    case False
    with that have a: "a < length (kk_heap k)" "live k a \<or> zeroed (kk_heap k) a"
      using inv by (auto simp: k'_eq keeper_inv_def)
    then show ?thesis using put_live_or_zeroed [OF inv name k'_def a] len
      by (auto simp: k'_eq zeroed_append h_def [symmetric])
  qed (auto simp: k'_eq live_def)
  have fresh: "sb_buf sb < length h" if "jm_get (kk_secrets k) n = Some sb" for n sb
    using that inv len by (fastforce simp: keeper_inv_def described_def)
  have "n = n'" if "jm_get (kk_secrets k') n = Some sb" "jm_get (kk_secrets k') n' = Some sb'"
      "sb_buf sb = sb_buf sb'" for n n' sb sb'
    using that inv fresh [of n sb] fresh [of n' sb']
    by (auto simp: k'_eq keeper_inv_def split: if_splits)
  moreover have "dom (jm_get (kk_meta k')) = dom (jm_get (kk_secrets k'))"
    using inv by (simp add: k'_eq keeper_inv_def dom_def set_eq_iff)
  ultimately show ?thesis
    unfolding k'_def [symmetric] keeper_inv_def using put_described [OF inv name k'_def] dead by blast
qed

lemma delete_keeper_inv:
  assumes inv: "keeper_inv hm k"
  shows "keeper_inv hm (snd (delete_secret name k))"
proof (cases "jm_get (kk_secrets k) name")
  case (Some sb)
  define h where "h = snd (zeroise sb (kk_heap k))"
  define k' where "k' = snd (delete_secret name k)"
  note k'_eq = k'_def [unfolded delete_secret_def Some option.case snd_conv, folded h_def]
  have desc: "described hm k' n sb'" if "jm_get (kk_secrets k') n = Some sb'" for n sb'
  proof -
    have n: "n \<noteq> name" "jm_get (kk_secrets k) n = Some sb'"
      using that by (auto simp: k'_eq split: if_splits)
    then have "described hm k n sb'" "sb_buf sb' \<noteq> sb_buf sb"
      using inv Some by (auto simp: keeper_inv_def)
    then show ?thesis using n
      by (auto simp: described_def k'_eq h_def zeroise_nth)
  qed
  have dead: "a < length (kk_heap k') \<and> (live k' a \<or> zeroed (kk_heap k') a)"
    if "a \<in> set (kk_owned k')" for a
  proof -
    have a: "a < length (kk_heap k)" "live k a \<or> zeroed (kk_heap k) a"
      using that inv by (auto simp: k'_eq keeper_inv_def)
    moreover have "live k' a \<or> a = sb_buf sb" if lv: "live k a"
    proof -
      obtain n sb' where n: "jm_get (kk_secrets k) n = Some sb'" "sb_buf sb' = a"
        using lv by (auto simp: live_def)
      then have "n = name \<or> jm_get (kk_secrets k') n = Some sb'" by (simp add: k'_eq)
      with n Some show ?thesis by (auto simp: live_def)
    qed
    ultimately show ?thesis using zeroise_zeroed [of a "kk_heap k" sb] by (auto simp: k'_eq h_def)
  qed
  have "dom (jm_get (kk_meta k')) = dom (jm_get (kk_secrets k'))"
    using inv by (simp add: k'_eq keeper_inv_def dom_def set_eq_iff)
  moreover have "n = n'" if "jm_get (kk_secrets k') n = Some s1" "jm_get (kk_secrets k') n' = Some s2"
      "sb_buf s1 = sb_buf s2" for n n' s1 s2
    using that inv by (auto simp: k'_eq keeper_inv_def split: if_splits)
  ultimately show ?thesis
    unfolding k'_def [symmetric] keeper_inv_def using desc dead by blast
qed (use inv in \<open>simp add: delete_secret_def\<close>)

lemma wipe_keeper_inv:
  assumes "keeper_inv hm k" shows "keeper_inv hm (secureWipe k)"
proof -
  have "a < length (kk_heap (secureWipe k)) \<and> zeroed (kk_heap (secureWipe k)) a"
    if "a \<in> set (kk_owned k)" for a
  proof -
    have a: "a < length (kk_heap k)" "live k a \<or> zeroed (kk_heap k) a"
      using that assms by (auto simp: keeper_inv_def)
    moreover have "a \<in> sb_buf ` set (map snd (kk_secrets k))" if "live k a"
      using that unfolding live_def by (force dest: map_of_SomeD)
    ultimately show ?thesis
      using zeroise_fold_zeroed [of a "kk_heap k" "map snd (kk_secrets k)"]
      by (auto simp: secureWipe_def zeroise_fold_length)
  qed
  then show ?thesis by (auto simp: keeper_inv_def secureWipe_def)
qed

lemma keeper_step_inv: "keeper_inv hm k \<Longrightarrow> keeper_inv hm (keeper_step hm op k)"
proof (cases op)
  case (Put name secret algorithm)
  assume "keeper_inv hm k"
  then show ?thesis
    using put_keeper_inv [of hm k name secret algorithm] Put
    by (cases "name = ''''") (simp_all add: put_secret_def)
next
  case (Rotate r)
  assume "keeper_inv hm k"
  then show ?thesis using Rotate by (simp add: keeper_inv_def rotateRootKey_def described_def live_def)
qed (simp_all add: delete_keeper_inv wipe_keeper_inv)

lemma keeper_run_inv: "keeper_inv hm k \<Longrightarrow> keeper_inv hm (keeper_run hm ops k)"
  by (induction ops arbitrary: k) (simp_all add: keeper_run_def keeper_step_inv)

lemma new_keeper_inv: "keeper_inv hm (new_KeyKeeper r p)"
  by (simp add: keeper_inv_def new_KeyKeeper_def)

text \<open>
  C32. Along every sequence of \<open>put\<close>, \<open>delete\<close>, \<open>rotateRootKey\<close> and \<open>secureWipe\<close> on a new keeper,
  a name has a stored secret exactly when it has an enrollment, the enrollment is of that name and
  carries the fingerprint of the bytes stored at that moment, and every buffer that backed a secret
  which is no longer stored holds zeroes only.
\<close>

theorem keeper_consistent:
  "let k = keeper_run hm ops (new_KeyKeeper rootKey statePath) in
   (\<forall>n. has_secret n k \<longleftrightarrow> jm_get (kk_meta k) n \<noteq> None)
   \<and> (\<forall>n sb. jm_get (kk_secrets k) n = Some sb \<longrightarrow>
        (\<exists>en. jm_get (kk_meta k) n = Some en \<and> en_name en = n \<and>
           en_fingerprint en = fingerprint hm n (kk_heap k ! sb_buf sb)))
   \<and> (\<forall>a \<in> set (kk_owned k). (\<exists>n sb. jm_get (kk_secrets k) n = Some sb \<and> sb_buf sb = a)
        \<or> (\<forall>b \<in> set (kk_heap k ! a). b = 0))"
proof -
  define k where "k = keeper_run hm ops (new_KeyKeeper rootKey statePath)"
  have "keeper_inv hm k" unfolding k_def by (intro keeper_run_inv new_keeper_inv)
  then show ?thesis
    unfolding Let_def k_def [symmetric] keeper_inv_def has_secret_def described_def live_def zeroed_def
    by (simp add: dom_def set_eq_iff) blast
qed

theorem keeper_consistent_witness:
  "let hm = (\<lambda>k m. replicate 32 (fold (+) (k @ m) 0));
       k = keeper_run hm [Put ''api'' [1, 2] ''raw'', Put ''api'' [3] ''raw''] (new_KeyKeeper None None)
   in has_secret ''api'' k \<and> (\<exists>en. jm_get (kk_meta k) ''api'' = Some en)"
proof -
  define hm where "hm = (\<lambda>k m :: bytes. replicate 32 (fold (+) (k @ m) (0 :: byte)))"
  define k where "k = keeper_run hm [Put ''api'' [1, 2] ''raw'', Put ''api'' [3] ''raw''] (new_KeyKeeper None None)"
  have "has_secret ''api'' k"
    by (simp add: k_def keeper_run_def put_secret_eq has_secret_def)
  moreover have "has_secret ''api'' k \<longleftrightarrow> jm_get (kk_meta k) ''api'' \<noteq> None"
    using keeper_consistent [of hm "[Put ''api'' [1, 2] ''raw'', Put ''api'' [3] ''raw'']" None None]
    unfolding Let_def k_def [symmetric] by blast
  ultimately show ?thesis unfolding Let_def hm_def [symmetric] k_def [symmetric] by auto
qed

section \<open>Signatures\<close>

text \<open>
  With digests of one length, \<open>verify\<close> accepts exactly the signature \<open>sign\<close> produces for that
  name and message and refuses every other one of that length; a signature of any other length is
  not refused but raises the \<open>RangeError\<close> of the constant-time comparison; unknown names never verify.
\<close>

theorem sign_verify:
  assumes "\<And>key m. length (hm key m) = 32"
  shows "verify_message hm name msg sig k =
     (case sign_message hm name msg k of
        Inl _ \<Rightarrow> Inr False
      | Inr s \<Rightarrow> if length sig = 32 then Inr (sig = s) else Inl RangeError)"
  using assms by (auto simp: verify_message_def sign_message_def timingSafeEqual_def)

theorem sign_verify_witness:
  "let hm = (\<lambda>k m. replicate 32 (fold (+) (k @ m) 0));
       k = snd (put_secret hm ''api'' [1, 2] ''raw'' (new_KeyKeeper None None))
   in verify_message hm ''api'' [9] (replicate 31 0) k = Inl RangeError
      \<and> (\<exists>s. sign_message hm ''api'' [9] k = Inr s \<and> verify_message hm ''api'' [9] s k = Inr True)"
proof -
  define hm where "hm = (\<lambda>k m :: bytes. replicate 32 (fold (+) (k @ m) (0 :: byte)))"
  define k where "k = snd (put_secret hm ''api'' [1, 2] ''raw'' (new_KeyKeeper None None))"
  have hm: "length (hm key m) = 32" for key m by (simp add: hm_def)
  have "has_secret ''api'' k" by (simp add: k_def put_secret_eq has_secret_def)
  then obtain s where "sign_message hm ''api'' [9] k = Inr s" "length s = 32"
    by (simp add: sign_message_def hm)
  then show ?thesis
    using sign_verify [of hm "''api''" "[9]" "replicate 31 0" k, OF hm]
      sign_verify [of hm "''api''" "[9]" s k, OF hm]
    unfolding Let_def hm_def [symmetric] k_def [symmetric] by simp
qed

text \<open>
  A secret does not leave memory with its enrollment: after \<open>put\<close> and \<open>delete\<close> the buffer of the
  stored secret is zeroed, but the two copies \<open>put\<close> made on the way (for the fingerprint and for the
  constructor of \<open>SecureBytes\<close>) still hold its bytes.
\<close>

theorem delete_leaves_copies:
  assumes "name \<noteq> ''''" "\<not> has_secret name k"
  shows "let k1 = snd (put_secret hm name secret algorithm k); k2 = snd (delete_secret name k1)
         in \<not> has_secret name k2
            \<and> kk_heap k2 = kk_heap k @ [secret, secret, replicate (length secret) 0, []]"
  using assms
  by (simp add: put_secret_eq put_heap_def retire_def delete_secret_def has_secret_def zeroise_heap
      list_update_append nth_append)

theorem delete_leaves_copies_witness:
  "let k1 = snd (put_secret (\<lambda>k m. []) ''api'' [7] ''raw'' (new_KeyKeeper None None));
       k2 = snd (delete_secret ''api'' k1)
   in kk_heap k2 = [[7], [7], [0], []]"
  using delete_leaves_copies [of "''api''" "new_KeyKeeper None None" "\<lambda>k m. []" "[7]" "''raw''"]
  by (simp add: Let_def has_secret_def new_KeyKeeper_def)

end
