(* ===== verification/RoundRobin.thy ===== *)
theory RoundRobin
  imports Prelude "HOL-Library.Multiset"
begin

text \<open>
  The contract of a round-robin picker: a cursor that only counts up selects, from a pool of
  candidates, the slot at the cursor modulo the number of slots.  Every slot is then served exactly
  once in a round, wherever the round starts.  The gas-wallet leases and the RPC load balancer
  provide it.
\<close>

lemma mset_rotate: "mset (rotate k xs) = mset xs"
proof -
  have "mset (rotate k xs) = mset (take (k mod length xs) xs @ drop (k mod length xs) xs)"
    unfolding rotate_drop_take by (simp add: union_commute del: append_take_drop_id)
  then show ?thesis by simp
qed

locale round_robin =
  fixes pick :: "nat \<Rightarrow> 'c \<Rightarrow> 'a"
    and slots :: "'c \<Rightarrow> 'a list"
    and admissible :: "'c \<Rightarrow> bool"
  assumes pick_slot: "admissible c \<Longrightarrow> pick k c = slots c ! (k mod length (slots c))"
    and slots_nonempty: "admissible c \<Longrightarrow> slots c \<noteq> []"
begin

lemma pick_member: "admissible c \<Longrightarrow> pick k c \<in> set (slots c)"
  by (simp add: pick_slot slots_nonempty)

lemma round_is_rotation:
  assumes "admissible c"
  shows "map (\<lambda>i. pick (k + i) c) [0..<length (slots c)] = rotate k (slots c)"
  using assms slots_nonempty [OF assms]
  by (intro nth_equalityI) (simp_all add: pick_slot nth_rotate)

lemma round_serves_each_slot:
  assumes "admissible c"
  shows "mset (map (\<lambda>i. pick (k + i) c) [0..<length (slots c)]) = mset (slots c)"
  unfolding round_is_rotation [OF assms] by (rule mset_rotate)

end

end
