(* ===== verification/RpcBalancer.thy ===== *)
theory RpcBalancer
  imports RoundRobin JSNumber
begin

text \<open>
  \<open>src/lib/rpcLoadBalancer.ts\<close>: weighted round-robin over RPC endpoints with a quarantine.  The slots
  of the round are the candidates, each repeated as often as its weight; the loop over tickets is
  proved to pick from them, which gives the fairness of the schedule.  Times are milliseconds;
  weights arrive as numbers and are floored.  The default \<open>now\<close> argument is always passed.
\<close>

record rpc_endpoint =
  ep_url :: string
  ep_weight :: int
  ep_healthy :: bool
  ep_latencyMs :: "rat option"
  ep_lastFailureAt :: "int option"

record rpc_balancer =
  lb_endpoints :: "rpc_endpoint list"
  lb_cursor :: nat
  lb_cooldownMs :: int
  lb_latencyThresholdMs :: rat

definition new_RpcLoadBalancer ::
  "(string \<times> rat option) list \<Rightarrow> int option \<Rightarrow> rat option \<Rightarrow> rpc_balancer" where
  "new_RpcLoadBalancer configs cooldown threshold =
     \<lparr>lb_endpoints =
        map (\<lambda>(url, weight).
               \<lparr>ep_url = url,
                ep_weight = max 1 \<lfloor>case weight of None \<Rightarrow> 1 | Some w \<Rightarrow> w\<rfloor>,
                ep_healthy = True, ep_latencyMs = None, ep_lastFailureAt = None\<rparr>) configs,
      lb_cursor = 0,
      lb_cooldownMs = (case cooldown of None \<Rightarrow> 30000 | Some c \<Rightarrow> c),
      lb_latencyThresholdMs = (case threshold of None \<Rightarrow> 2000 | Some t \<Rightarrow> t)\<rparr>"

definition isAvailable :: "rpc_balancer \<Rightarrow> rpc_endpoint \<Rightarrow> int \<Rightarrow> bool" where
  "isAvailable lb ep now =
     (if ep_healthy ep then True
      else case ep_lastFailureAt ep of
             None \<Rightarrow> True
           | Some t \<Rightarrow> now - t \<ge> lb_cooldownMs lb)"

definition candidates_at :: "rpc_balancer \<Rightarrow> int \<Rightarrow> rpc_endpoint list" where
  "candidates_at lb now =
     (let healthy = filter (\<lambda>ep. isAvailable lb ep now) (lb_endpoints lb)
      in if length healthy > 0 then healthy else lb_endpoints lb)"

text \<open>The loop over the candidates; the fallback after it is the last candidate.\<close>

fun take_ticket :: "int \<Rightarrow> rpc_endpoint list \<Rightarrow> rpc_endpoint option" where
  "take_ticket ticket [] = None"
| "take_ticket ticket (ep # eps) =
     (if ticket < ep_weight ep then Some ep else take_ticket (ticket - ep_weight ep) eps)"

definition total_weight :: "rpc_endpoint list \<Rightarrow> int" where
  "total_weight eps = foldl (\<lambda>sum ep. sum + ep_weight ep) 0 eps"

definition select_endpoint :: "nat \<Rightarrow> rpc_endpoint list \<Rightarrow> rpc_endpoint" where
  "select_endpoint cursor candidates =
     (case take_ticket (int cursor mod total_weight candidates) candidates of
        Some ep \<Rightarrow> ep
      | None \<Rightarrow> last candidates)"

definition lb_next :: "int \<Rightarrow> rpc_balancer \<Rightarrow> rpc_endpoint option \<times> rpc_balancer" where
  "lb_next now lb =
     (let candidates = candidates_at lb now
      in if length candidates = 0 then (None, lb)
         else (Some (select_endpoint (lb_cursor lb) candidates), lb\<lparr>lb_cursor := lb_cursor lb + 1\<rparr>))"

text \<open>\<open>find\<close> returns the first endpoint with the URL, which is then mutated in place.\<close>

fun update_endpoint ::
  "string \<Rightarrow> (rpc_endpoint \<Rightarrow> rpc_endpoint) \<Rightarrow> rpc_endpoint list \<Rightarrow> rpc_endpoint list" where
  "update_endpoint url f [] = []"
| "update_endpoint url f (ep # eps) =
     (if ep_url ep = url then f ep # eps else ep # update_endpoint url f eps)"

definition recordSuccess :: "string \<Rightarrow> rat \<Rightarrow> rpc_balancer \<Rightarrow> rpc_balancer" where
  "recordSuccess url latency lb =
     lb\<lparr>lb_endpoints := update_endpoint url
         (\<lambda>ep. ep\<lparr>ep_healthy := True, ep_lastFailureAt := None, ep_latencyMs := Some latency\<rparr>)
         (lb_endpoints lb)\<rparr>"

definition recordFailure :: "string \<Rightarrow> rat option \<Rightarrow> int \<Rightarrow> rpc_balancer \<Rightarrow> rpc_balancer" where
  "recordFailure url latency now lb =
     lb\<lparr>lb_endpoints := update_endpoint url
         (\<lambda>ep. ep\<lparr>ep_healthy := False, ep_lastFailureAt := Some now, ep_latencyMs := latency\<rparr>)
         (lb_endpoints lb)\<rparr>"

definition lb_snapshot :: "rpc_balancer \<Rightarrow> rpc_endpoint list" where
  "lb_snapshot lb = lb_endpoints lb"

definition isLatencySpike :: "rpc_balancer \<Rightarrow> rat \<Rightarrow> bool" where
  "isLatencySpike lb latency = (latency \<ge> lb_latencyThresholdMs lb)"

section \<open>Reachable balancers\<close>

datatype lb_op = Next int | Success string rat | Failure string "rat option" int

fun lb_step :: "lb_op \<Rightarrow> rpc_balancer \<Rightarrow> rpc_balancer" where
  "lb_step (Next now) lb = snd (lb_next now lb)"
| "lb_step (Success url latency) lb = recordSuccess url latency lb"
| "lb_step (Failure url latency now) lb = recordFailure url latency now lb"

inductive lb_reachable :: "(string \<times> rat option) list \<Rightarrow> rpc_balancer \<Rightarrow> bool" for configs where
  lb_init: "lb_reachable configs (new_RpcLoadBalancer configs c t)"
| lb_op: "lb_reachable configs lb \<Longrightarrow> lb_reachable configs (lb_step op lb)"

definition positive :: "rpc_endpoint list \<Rightarrow> bool" where
  "positive eps \<longleftrightarrow> (\<forall>ep \<in> set eps. ep_weight ep \<ge> 1)"

lemma positive_simps [simp]:
  "positive []" "positive (ep # eps) \<longleftrightarrow> ep_weight ep \<ge> 1 \<and> positive eps"
  by (simp_all add: positive_def)

lemma update_endpoint_frame:
  assumes "\<And>ep. ep_url (f ep) = ep_url ep" "\<And>ep. ep_weight (f ep) = ep_weight ep"
  shows "map ep_url (update_endpoint url f eps) = map ep_url eps"
    and "map ep_weight (update_endpoint url f eps) = map ep_weight eps"
  by (induction eps) (simp_all add: assms)

lemma positive_iff_map: "positive eps \<longleftrightarrow> (\<forall>w \<in> set (map ep_weight eps). w \<ge> 1)"
  by (simp add: positive_def)

lemma lb_step_frame:
  "map ep_url (lb_endpoints (lb_step op lb)) = map ep_url (lb_endpoints lb)"
  "map ep_weight (lb_endpoints (lb_step op lb)) = map ep_weight (lb_endpoints lb)"
  by (cases op; simp add: lb_next_def Let_def recordSuccess_def recordFailure_def
      update_endpoint_frame)+

lemma reachable_endpoints:
  assumes "lb_reachable configs lb"
  shows "map ep_url (lb_endpoints lb) = map fst configs \<and> positive (lb_endpoints lb)"
  using assms
proof (induction rule: lb_reachable.induct)
  case (lb_init c t)
  then show ?case by (auto simp: new_RpcLoadBalancer_def positive_def)
next
  case (lb_op lb op)
  then show ?case by (simp add: positive_iff_map lb_step_frame del: set_map)
qed

section \<open>Weighted fairness\<close>

definition weighted_slots :: "rpc_endpoint list \<Rightarrow> rpc_endpoint list" where
  "weighted_slots eps = concat (map (\<lambda>ep. replicate (nat (ep_weight ep)) ep) eps)"

lemma foldl_weights: "foldl (\<lambda>sum ep. sum + ep_weight ep) s eps = s + (\<Sum>ep\<leftarrow>eps. ep_weight ep)"
  by (induction eps arbitrary: s) simp_all

lemma total_weight_slots: "positive eps \<Longrightarrow> total_weight eps = int (length (weighted_slots eps))"
  unfolding total_weight_def foldl_weights by (induction eps) (simp_all add: weighted_slots_def)

lemma take_ticket_slot:
  "positive eps \<Longrightarrow> k < length (weighted_slots eps) \<Longrightarrow>
     take_ticket (int k) eps = Some (weighted_slots eps ! k)"
proof (induction eps arbitrary: k)
  case (Cons ep eps)
  show ?case
  proof (cases "int k < ep_weight ep")
    case True
    then show ?thesis using Cons.prems by (simp add: weighted_slots_def nth_append)
  next
    case False
    then have k: "int k - ep_weight ep = int (k - nat (ep_weight ep))" "\<not> k < nat (ep_weight ep)"
      using Cons.prems by (simp_all add: of_nat_diff)
    then have "k - nat (ep_weight ep) < length (weighted_slots eps)"
      using Cons.prems(2) by (simp add: weighted_slots_def)
    then have "take_ticket (int k - ep_weight ep) eps =
        Some (weighted_slots eps ! (k - nat (ep_weight ep)))"
      using Cons.IH Cons.prems(1) unfolding k(1) by simp
    with k(2) False show ?thesis by (simp add: weighted_slots_def nth_append)
  qed
qed (simp add: weighted_slots_def)

lemma select_endpoint_slot:
  assumes "positive eps" "eps \<noteq> []"
  shows "select_endpoint k eps = weighted_slots eps ! (k mod length (weighted_slots eps))"
    and "weighted_slots eps \<noteq> []"
proof -
  show ne: "weighted_slots eps \<noteq> []"
    using assms by (cases eps) (simp_all add: weighted_slots_def)
  then show "select_endpoint k eps = weighted_slots eps ! (k mod length (weighted_slots eps))"
    using take_ticket_slot [OF assms(1), of "k mod length (weighted_slots eps)"]
    by (simp add: select_endpoint_def total_weight_slots [OF assms(1)] zmod_int)
qed

interpretation lbrr: round_robin select_endpoint weighted_slots "\<lambda>eps. positive eps \<and> eps \<noteq> []"
  by unfold_locales (auto simp: select_endpoint_slot)

lemma count_weighted_slots:
  "distinct eps \<Longrightarrow> ep \<in> set eps \<Longrightarrow> count_list (weighted_slots eps) ep = nat (ep_weight ep)"
proof (induction eps)
  case (Cons e eps)
  have rep: "count_list (replicate n x) y = (if x = y then n else 0)" for n and x y :: rpc_endpoint
    by (induction n) auto
  have "count_list (weighted_slots eps) e = 0" if "e \<notin> set eps"
    using that by (induction eps) (auto simp: weighted_slots_def rep)
  with Cons show ?case by (auto simp: weighted_slots_def rep)
qed simp

text \<open>The endpoints that \<open>n\<close> calls of \<open>next\<close> in a row return, with no report in between.\<close>

fun lb_nexts :: "nat \<Rightarrow> int \<Rightarrow> rpc_balancer \<Rightarrow> rpc_endpoint option list" where
  "lb_nexts 0 now lb = []"
| "lb_nexts (Suc n) now lb = fst (lb_next now lb) # lb_nexts n now (snd (lb_next now lb))"

lemma candidates_cursor [simp]: "candidates_at (lb\<lparr>lb_cursor := k\<rparr>) now = candidates_at lb now"
  by (simp add: candidates_at_def isAvailable_def Let_def cong: option.case_cong)

lemma lb_nexts_picks:
  "candidates_at lb now \<noteq> [] \<Longrightarrow>
     lb_nexts n now lb =
       map (\<lambda>i. Some (select_endpoint (lb_cursor lb + i) (candidates_at lb now))) [0..<n]"
proof (induction n arbitrary: lb)
  case (Suc n)
  then have "lb_nexts n now (snd (lb_next now lb)) =
      map (\<lambda>i. Some (select_endpoint (lb_cursor lb + i) (candidates_at lb now))) (map Suc [0..<n])"
    by (simp add: lb_next_def Let_def del: map_Suc_upt)
  moreover have "fst (lb_next now lb) = Some (select_endpoint (lb_cursor lb) (candidates_at lb now))"
    using Suc.prems by (simp add: lb_next_def Let_def)
  moreover have "[0..<Suc n] = 0 # map Suc [0..<n]" by (simp add: map_Suc_upt upt_conv_Cons)
  ultimately show ?case by (simp del: upt_Suc map_Suc_upt)
qed simp

lemma positive_candidates: "positive (lb_endpoints lb) \<Longrightarrow> positive (candidates_at lb now)"
  by (auto simp: candidates_at_def positive_def Let_def)

lemma candidates_nonempty: "lb_endpoints lb \<noteq> [] \<Longrightarrow> candidates_at lb now \<noteq> []"
  by (simp add: candidates_at_def Let_def)

lemma candidates_distinct: "distinct (lb_endpoints lb) \<Longrightarrow> distinct (candidates_at lb now)"
  by (simp add: candidates_at_def Let_def)

text \<open>
  Weighted fairness: from any reachable balancer with endpoints of distinct URLs, as many calls
  of \<open>next\<close> as the candidates' total weight return every candidate exactly as often as its weight,
  wherever the cursor stands, and nothing else.
\<close>

theorem weighted_round_robin:
  assumes "lb_reachable configs lb" "distinct (map fst configs)" "configs \<noteq> []"
  shows "let cs = candidates_at lb now; picks = lb_nexts (nat (total_weight cs)) now lb
         in (\<forall>ep \<in> set cs. count_list picks (Some ep) = nat (ep_weight ep) \<and> 1 \<le> ep_weight ep)
            \<and> set picks = Some ` set cs"
proof -
  define cs where "cs = candidates_at lb now"
  have urls: "map ep_url (lb_endpoints lb) = map fst configs" and "positive (lb_endpoints lb)"
    using reachable_endpoints [OF assms(1)] by simp_all
  then have "distinct (map ep_url (lb_endpoints lb))" "lb_endpoints lb \<noteq> []"
    using assms(2,3) by auto
  then have cs: "positive cs" "cs \<noteq> []" "distinct cs"
    using \<open>positive (lb_endpoints lb)\<close> positive_candidates candidates_nonempty candidates_distinct
    by (auto simp: cs_def distinct_map)
  define picks where "picks = lb_nexts (nat (total_weight cs)) now lb"
  have "picks = map Some (map (\<lambda>i. select_endpoint (lb_cursor lb + i) cs) [0..<length (weighted_slots cs)])"
    using lb_nexts_picks [of lb now] cs
    by (simp add: picks_def cs_def total_weight_slots)
  then have m: "mset picks = mset (map Some (weighted_slots cs))"
    using lbrr.round_serves_each_slot [of cs "lb_cursor lb"] cs by (metis mset_map)
  have "count_list picks (Some ep) = nat (ep_weight ep)" if "ep \<in> set cs" for ep
  proof -
    have "count_list picks (Some ep) = count_list (map Some (weighted_slots cs)) (Some ep)"
      using m by (metis count_mset)
    also have "\<dots> = count_list (weighted_slots cs) ep" by (rule count_list_map_conv) simp
    finally show ?thesis using count_weighted_slots [OF cs(3) that] by simp
  qed
  moreover have "set picks = Some ` set cs"
    using mset_eq_setD [OF m] cs(1) by (auto simp: weighted_slots_def positive_def)
  ultimately show ?thesis
    using cs(1) unfolding Let_def cs_def [symmetric] picks_def [symmetric] positive_def by blast
qed

theorem weighted_round_robin_witness:
  "let lb = new_RpcLoadBalancer [(''a'', Some 2), (''b'', None)] None None
   in count_list (lb_nexts 3 0 lb)
        (Some \<lparr>ep_url = ''a'', ep_weight = 2, ep_healthy = True, ep_latencyMs = None,
               ep_lastFailureAt = None\<rparr>) = 2"
proof -
  define lb where "lb = new_RpcLoadBalancer [(''a'', Some 2), (''b'', None)] None None"
  have cs: "candidates_at lb 0 =
      [\<lparr>ep_url = ''a'', ep_weight = 2, ep_healthy = True, ep_latencyMs = None, ep_lastFailureAt = None\<rparr>,
       \<lparr>ep_url = ''b'', ep_weight = 1, ep_healthy = True, ep_latencyMs = None, ep_lastFailureAt = None\<rparr>]"
    by (simp add: lb_def new_RpcLoadBalancer_def candidates_at_def isAvailable_def)
  have "lb_reachable [(''a'', Some 2), (''b'', None)] lb" unfolding lb_def by (rule lb_init)
  from weighted_round_robin [OF this, of 0] show ?thesis
    unfolding Let_def lb_def [symmetric] by (simp add: cs total_weight_def)
qed

section \<open>Quarantine\<close>

lemma update_endpoint_set:
  "distinct (map ep_url eps) \<Longrightarrow> ep \<in> set (update_endpoint url f eps) \<Longrightarrow>
     (\<exists>e \<in> set eps. ep_url e = url \<and> ep = f e) \<or> (ep \<in> set eps \<and> ep_url ep \<noteq> url)"
proof (induction eps)
  case (Cons e eps)
  then show ?case by (cases "ep_url e = url") (auto, metis imageI)
qed simp

lemma update_endpoint_other:
  "e \<in> set eps \<Longrightarrow> ep_url e \<noteq> url \<Longrightarrow> e \<in> set (update_endpoint url f eps)"
  by (induction eps) auto

lemma isAvailable_recordFailure [simp]:
  "isAvailable (recordFailure url latency t lb) e now = isAvailable lb e now"
  by (simp add: recordFailure_def isAvailable_def cong: option.case_cong)

lemma lb_next_available:
  assumes "positive (lb_endpoints lb)" "e \<in> set (lb_endpoints lb)" "isAvailable lb e now"
  shows "\<exists>ep \<in> set (lb_endpoints lb). isAvailable lb ep now \<and> fst (lb_next now lb) = Some ep"
proof -
  define cs where "cs = filter (\<lambda>e. isAvailable lb e now) (lb_endpoints lb)"
  have "e \<in> set cs" using assms(2,3) by (simp add: cs_def)
  then have cs: "cs \<noteq> []" "candidates_at lb now = cs"
    by (auto simp: candidates_at_def Let_def cs_def [symmetric])
  moreover have "positive cs" using positive_candidates [OF assms(1), of now] cs(2) by simp
  ultimately have "select_endpoint (lb_cursor lb) cs \<in> set (weighted_slots cs)"
    using lbrr.pick_member cs by blast
  then have "select_endpoint (lb_cursor lb) cs \<in> set cs" by (auto simp: weighted_slots_def)
  with cs show ?thesis by (auto simp: lb_next_def Let_def cs_def)
qed

text \<open>
  While another endpoint is available, an endpoint whose failure was just recorded is not
  returned by \<open>next\<close> before its cooldown has passed; once it has, the endpoint is a candidate again
  without any further report.
\<close>

theorem quarantine_respected:
  assumes "distinct (map ep_url (lb_endpoints lb))" "positive (lb_endpoints lb)"
    and "other \<in> set (lb_endpoints lb)" "ep_url other \<noteq> url" "isAvailable lb other now"
  shows "let lb' = recordFailure url latency t lb in
         (\<exists>ep. fst (lb_next now lb') = Some ep \<and> (ep_url ep = url \<longrightarrow> lb_cooldownMs lb \<le> now - t))
         \<and> (url \<in> ep_url ` set (lb_endpoints lb) \<longrightarrow> lb_cooldownMs lb \<le> now - t \<longrightarrow>
              url \<in> ep_url ` set (candidates_at lb' now))"
proof -
  define lb' where "lb' = recordFailure url latency t lb"
  have eps: "ep_healthy ep = False \<and> ep_lastFailureAt ep = Some t"
    if "ep \<in> set (lb_endpoints lb')" "ep_url ep = url" for ep
  proof -
    have "ep \<in> set (update_endpoint url
        (\<lambda>ep. ep\<lparr>ep_healthy := False, ep_lastFailureAt := Some t, ep_latencyMs := latency\<rparr>) (lb_endpoints lb))"
      using that(1) by (simp add: lb'_def recordFailure_def)
    from update_endpoint_set [OF assms(1) this] that(2) show ?thesis
      by (elim disjE bexE conjE) simp_all
  qed
  have pos: "positive (lb_endpoints lb')"
    using lb_step_frame(2) [of "Failure url latency t" lb] assms(2)
    by (simp add: positive_iff_map lb'_def del: set_map)
  have other: "other \<in> set (lb_endpoints lb')"
    using update_endpoint_other [OF assms(3,4)] by (simp add: lb'_def recordFailure_def)
  have other_av: "isAvailable lb' other now" using assms(5) by (simp add: lb'_def)
  obtain ep where ep: "ep \<in> set (lb_endpoints lb')" "isAvailable lb' ep now"
      "fst (lb_next now lb') = Some ep"
    using lb_next_available [OF pos other other_av] by blast
  have cool: "lb_cooldownMs lb' = lb_cooldownMs lb" by (simp add: lb'_def recordFailure_def)
  have "ep_url ep = url \<longrightarrow> lb_cooldownMs lb \<le> now - t"
    using ep(2) eps [OF ep(1)] cool by (auto simp: isAvailable_def)
  moreover have "url \<in> ep_url ` set (candidates_at lb' now)"
    if known: "url \<in> ep_url ` set (lb_endpoints lb)" and passed: "lb_cooldownMs lb \<le> now - t"
  proof -
    have "map ep_url (lb_endpoints lb') = map ep_url (lb_endpoints lb)"
      using lb_step_frame(1) [of "Failure url latency t" lb] by (simp add: lb'_def)
    then have "set (map ep_url (lb_endpoints lb')) = set (map ep_url (lb_endpoints lb))" by (rule arg_cong)
    then have "url \<in> ep_url ` set (lb_endpoints lb')" using known by (simp only: list.set_map)
    then obtain e where e: "e \<in> set (lb_endpoints lb')" "ep_url e = url" by (elim imageE) simp
    have "isAvailable lb' e now" using eps [OF e] passed cool by (simp add: isAvailable_def)
    then have "e \<in> set (candidates_at lb' now)"
      using e(1) by (simp add: candidates_at_def Let_def filter_empty_conv)
    then show ?thesis using e(2) by (rule rev_image_eqI [OF _ sym])
  qed
  ultimately show ?thesis
    unfolding Let_def lb'_def [symmetric] by (intro conjI exI [of _ ep] ep(3) impI) simp_all
qed

theorem quarantine_respected_witness:
  "let lb = recordFailure ''a'' None 100 (new_RpcLoadBalancer [(''a'', Some 2), (''b'', None)] None None)
   in \<exists>ep. fst (lb_next 200 lb) = Some ep \<and> ep_url ep \<noteq> ''a''"
proof -
  define lb where "lb = new_RpcLoadBalancer [(''a'', Some 2), (''b'', None)] None None"
  define b where "b = \<lparr>ep_url = ''b'', ep_weight = 1, ep_healthy = True, ep_latencyMs = None,
                       ep_lastFailureAt = None\<rparr>"
  have "distinct (map ep_url (lb_endpoints lb))" "positive (lb_endpoints lb)"
    "b \<in> set (lb_endpoints lb)" "ep_url b \<noteq> ''a''" "isAvailable lb b 200"
    by (simp_all add: lb_def new_RpcLoadBalancer_def b_def isAvailable_def)
  from quarantine_respected [OF this, of None 100] show ?thesis
    by (auto simp: Let_def lb_def new_RpcLoadBalancer_def)
qed

end
