(* ===== verification/GasReserve.thy ===== *)
theory GasReserve
  imports RoundRobin JSNumber
begin

text \<open>
  \<open>src/services/relayerGasReserveAllocator.ts\<close>: the split of the relayer gas wallets into an
  emergency and a standard pool, the leases handed out from them, the balance snapshots and the
  low-balance alerts.  What the injected dependencies return (the wallet list, the balances, whether
  an alert was delivered, the clock) is an argument of the operations; balances and the ratio are
  doubles, that is rationals rounded by \<open>fl\<close>.

  The lemmas: the partition and its stability when wallets are added, that 20% is the ceiling of a
  fifth in spite of the rounding, which pool a lease may come from, that leases rotate evenly
  (through the round-robin contract), and the rate limit of the alerts.
\<close>

section \<open>Types\<close>

datatype gas_pool = STANDARD_POOL | EMERGENCY_POOL
datatype gas_operation = STANDARD_OP | EMERGENCY_OP

record gas_wallet =
  gw_id :: int
  gw_publicKey :: string

record wallet_snapshot =
  ws_wallet :: gas_wallet
  ws_pool :: gas_pool
  ws_balanceXlm :: "rat option"

record pool_snapshot =
  ps_pool :: gas_pool
  ps_thresholdXlm :: rat
  ps_totalBalanceXlm :: rat
  ps_wallets :: "wallet_snapshot list"
  ps_lowBalanceWallets :: nat

record gas_snapshot =
  sn_checkedAt :: int
  sn_reserveSatisfied :: bool
  sn_emergency :: pool_snapshot
  sn_standard :: pool_snapshot

record gas_lease =
  le_wallet :: gas_wallet
  le_pool :: gas_pool
  le_operation :: gas_operation

record low_balance_alert =
  al_pool :: gas_pool
  al_publicKey :: string
  al_balanceXlm :: rat
  al_thresholdXlm :: rat
  al_timestamp :: int

record gas_config =
  gc_reserveRatio :: rat
  gc_minOperatingBalanceXlm :: rat
  gc_standardAlertThresholdXlm :: rat
  gc_emergencyAlertThresholdXlm :: rat
  gc_alertIntervalMs :: int
  gc_balanceCacheTtlMs :: int
  gc_checkIntervalMs :: int

datatype 'e gas_error = GasReserveExhaustedError gas_operation | RangeError | DependencyError 'e

definition DEFAULT_GAS_RESERVE_CONFIG :: gas_config where
  "DEFAULT_GAS_RESERVE_CONFIG =
     \<lparr>gc_reserveRatio = fl (2 / 10), gc_minOperatingBalanceXlm = 2,
      gc_standardAlertThresholdXlm = 20, gc_emergencyAlertThresholdXlm = 50,
      gc_alertIntervalMs = 60 * 60 * 1000, gc_balanceCacheTtlMs = 30 * 1000,
      gc_checkIntervalMs = 5 * 60 * 1000\<rparr>"

section \<open>Partitioning\<close>

definition reservedWalletCount :: "nat \<Rightarrow> rat \<Rightarrow> int" where
  "reservedWalletCount n ratio =
     (if n < 2 then 0 else min \<lceil>jsmul (of_nat n) ratio\<rceil> (int n - 1))"

text \<open>\<open>Array.prototype.sort\<close> is stable.\<close>

definition partitionWallets :: "gas_wallet list \<Rightarrow> rat \<Rightarrow> gas_wallet list \<times> gas_wallet list" where
  "partitionWallets wallets ratio =
     (let ordered = sort_key gw_id wallets;
          reserved = reservedWalletCount (length ordered) ratio
      in (take (nat reserved) ordered, drop (nat reserved) ordered))"

section \<open>The allocator\<close>

record gas_allocator =
  ga_config :: gas_config
  ga_standardCursor :: nat
  ga_emergencyCursor :: nat
  ga_lastAlertAt :: "string \<Rightarrow> int option"
  ga_snapshot :: "gas_snapshot option"
  ga_snapshotAtMs :: int
  ga_timer :: "nat option"
  ga_intervals :: "nat list"

definition new_RelayerGasReserveAllocator :: "gas_config \<Rightarrow> 'e gas_error + gas_allocator" where
  "new_RelayerGasReserveAllocator cfg =
     (if \<not> (gc_reserveRatio cfg > 0 \<and> gc_reserveRatio cfg < 1) then Inl RangeError
      else Inr \<lparr>ga_config = cfg, ga_standardCursor = 0, ga_emergencyCursor = 0,
                ga_lastAlertAt = (\<lambda>_. None), ga_snapshot = None, ga_snapshotAtMs = 0,
                ga_timer = None, ga_intervals = []\<rparr>)"

definition usable :: "gas_config \<Rightarrow> pool_snapshot \<Rightarrow> wallet_snapshot list" where
  "usable cfg pool =
     filter (\<lambda>w. case ws_balanceXlm w of None \<Rightarrow> False | Some b \<Rightarrow> b \<ge> gc_minOperatingBalanceXlm cfg)
       (ps_wallets pool)"

definition cursor_of :: "gas_pool \<Rightarrow> gas_allocator \<Rightarrow> nat" where
  "cursor_of pool ga =
     (case pool of STANDARD_POOL \<Rightarrow> ga_standardCursor ga | EMERGENCY_POOL \<Rightarrow> ga_emergencyCursor ga)"

definition bump_cursor :: "gas_pool \<Rightarrow> gas_allocator \<Rightarrow> gas_allocator" where
  "bump_cursor pool ga =
     (case pool of
        STANDARD_POOL \<Rightarrow> ga\<lparr>ga_standardCursor := ga_standardCursor ga + 1\<rparr>
      | EMERGENCY_POOL \<Rightarrow> ga\<lparr>ga_emergencyCursor := ga_emergencyCursor ga + 1\<rparr>)"

definition pick_wallet :: "nat \<Rightarrow> wallet_snapshot list \<Rightarrow> gas_wallet" where
  "pick_wallet cursor candidates = ws_wallet (candidates ! (cursor mod length candidates))"

definition lease ::
  "wallet_snapshot list \<Rightarrow> gas_pool \<Rightarrow> gas_operation \<Rightarrow> gas_allocator
    \<Rightarrow> ('e gas_error + gas_lease) \<times> gas_allocator" where
  "lease candidates pool operation ga =
     (if length candidates = 0 then (Inl (GasReserveExhaustedError operation), ga)
      else (Inr \<lparr>le_wallet = pick_wallet (cursor_of pool ga) candidates, le_pool = pool,
                 le_operation = operation\<rparr>, bump_cursor pool ga))"

text \<open>\<open>acquire\<close> once the snapshot has been awaited.\<close>

definition acquire_from ::
  "gas_snapshot \<Rightarrow> gas_operation \<Rightarrow> gas_allocator \<Rightarrow> ('e gas_error + gas_lease) \<times> gas_allocator" where
  "acquire_from snap operation ga =
     (let standard = usable (ga_config ga) (sn_standard snap)
      in if operation = STANDARD_OP then lease standard STANDARD_POOL operation ga
         else let emergency = usable (ga_config ga) (sn_emergency snap)
              in if length emergency > 0 then lease emergency EMERGENCY_POOL operation ga
                 else if length standard > 0 then lease standard STANDARD_POOL operation ga
                 else (Inl (GasReserveExhaustedError operation), ga))"

section \<open>Monitoring\<close>

definition read_pool ::
  "(string \<Rightarrow> rat option) \<Rightarrow> gas_wallet list \<Rightarrow> gas_pool \<Rightarrow> wallet_snapshot list" where
  "read_pool fetch ws pool =
     map (\<lambda>w. \<lparr>ws_wallet = w, ws_pool = pool, ws_balanceXlm = fetch (gw_publicKey w)\<rparr>) ws"

definition summarize :: "gas_pool \<Rightarrow> rat \<Rightarrow> wallet_snapshot list \<Rightarrow> pool_snapshot" where
  "summarize pool threshold wallets =
     \<lparr>ps_pool = pool, ps_thresholdXlm = threshold,
      ps_totalBalanceXlm =
        foldl (\<lambda>sum w. jsadd sum (case ws_balanceXlm w of None \<Rightarrow> 0 | Some b \<Rightarrow> b)) 0 wallets,
      ps_wallets = wallets,
      ps_lowBalanceWallets =
        length (filter (\<lambda>w. case ws_balanceXlm w of None \<Rightarrow> False | Some b \<Rightarrow> b < threshold) wallets)\<rparr>"

text \<open>
  The dependencies of one refresh: the listed wallets or the failure to list them, the balance of an
  account (none when its lookup throws), the four readings of the clock in the order they are taken,
  and, when an alert hook is configured, whether it delivers an alert.
\<close>

record 'e gas_env =
  ge_wallets :: "'e + gas_wallet list"
  ge_balance :: "string \<Rightarrow> rat option"
  ge_now :: int
  ge_checkedAt :: int
  ge_storedAt :: int
  ge_alertAt :: int
  ge_alert :: "(low_balance_alert \<Rightarrow> bool) option"

definition take_snapshot :: "gas_config \<Rightarrow> 'e gas_env \<Rightarrow> gas_wallet list \<Rightarrow> gas_snapshot" where
  "take_snapshot cfg env wallets =
     (let (emergency, standard) = partitionWallets wallets (gc_reserveRatio cfg)
      in \<lparr>sn_checkedAt = ge_checkedAt env,
          sn_reserveSatisfied = (length emergency > 0),
          sn_emergency = summarize EMERGENCY_POOL (gc_emergencyAlertThresholdXlm cfg)
                           (read_pool (ge_balance env) emergency EMERGENCY_POOL),
          sn_standard = summarize STANDARD_POOL (gc_standardAlertThresholdXlm cfg)
                           (read_pool (ge_balance env) standard STANDARD_POOL)\<rparr>)"

text \<open>
  One wallet of the alert loop: the time of the alert is recorded before it is sent and removed again
  when sending fails.  The second component lists the alerts delivered.
\<close>

definition alert_wallet ::
  "(low_balance_alert \<Rightarrow> bool) \<Rightarrow> int \<Rightarrow> pool_snapshot \<Rightarrow> wallet_snapshot \<Rightarrow>
     gas_allocator \<times> low_balance_alert list \<Rightarrow> gas_allocator \<times> low_balance_alert list" where
  "alert_wallet deliver now pool w s =
     (let ga = fst s; key = gw_publicKey (ws_wallet w) in
      case ws_balanceXlm w of
        None \<Rightarrow> s
      | Some balance \<Rightarrow>
          if balance \<ge> ps_thresholdXlm pool then s
          else if (case ga_lastAlertAt ga key of
                     None \<Rightarrow> False
                   | Some t \<Rightarrow> now - t < gc_alertIntervalMs (ga_config ga)) then s
          else
            let alert = \<lparr>al_pool = ps_pool pool, al_publicKey = key, al_balanceXlm = balance,
                         al_thresholdXlm = ps_thresholdXlm pool, al_timestamp = now\<rparr>;
                ga1 = ga\<lparr>ga_lastAlertAt := (ga_lastAlertAt ga)(key \<mapsto> now)\<rparr>
            in if deliver alert then (ga1, snd s @ [alert])
               else (ga1\<lparr>ga_lastAlertAt := (ga_lastAlertAt ga1)(key := None)\<rparr>, snd s))"

definition raiseAlerts ::
  "'e gas_env \<Rightarrow> gas_snapshot \<Rightarrow> gas_allocator \<Rightarrow> gas_allocator \<times> low_balance_alert list" where
  "raiseAlerts env snap ga =
     (case ge_alert env of
        None \<Rightarrow> (ga, [])
      | Some deliver \<Rightarrow>
          fold (\<lambda>pool s. fold (alert_wallet deliver (ge_alertAt env) pool) (ps_wallets pool) s)
            [sn_emergency snap, sn_standard snap] (ga, []))"

definition doRefresh ::
  "'e gas_env \<Rightarrow> gas_allocator
    \<Rightarrow> ('e gas_error + gas_snapshot) \<times> gas_allocator \<times> low_balance_alert list" where
  "doRefresh env ga =
     (case ge_wallets env of
        Inl e \<Rightarrow> (Inl (DependencyError e), ga, [])
      | Inr wallets \<Rightarrow>
          let snap = take_snapshot (ga_config ga) env wallets
          in (Inr snap, raiseAlerts env snap (ga\<lparr>ga_snapshot := Some snap, ga_snapshotAtMs := ge_storedAt env\<rparr>)))"

text \<open>
  \<open>getSnapshot\<close>: a refresh when the snapshot is older than its time to live.  Concurrent callers share
  the refresh in flight, so refreshes never overlap; leases touch the cursors only.
\<close>

definition getSnapshot ::
  "'e gas_env \<Rightarrow> gas_allocator
    \<Rightarrow> ('e gas_error + gas_snapshot) \<times> gas_allocator \<times> low_balance_alert list" where
  "getSnapshot env ga =
     (case ga_snapshot ga of
        Some snap \<Rightarrow> if ge_now env - ga_snapshotAtMs ga < gc_balanceCacheTtlMs (ga_config ga)
                     then (Inr snap, ga, []) else doRefresh env ga
      | None \<Rightarrow> doRefresh env ga)"

definition acquire ::
  "'e gas_env \<Rightarrow> gas_operation \<Rightarrow> gas_allocator
    \<Rightarrow> ('e gas_error + gas_lease) \<times> gas_allocator \<times> low_balance_alert list" where
  "acquire env operation ga =
     (case getSnapshot env ga of
        (Inl e, ga1, alerts) \<Rightarrow> (Inl e, ga1, alerts)
      | (Inr snap, ga1, alerts) \<Rightarrow>
          (let (r, ga2) = acquire_from snap operation ga1 in (r, ga2, alerts)))"

section \<open>Lifecycle\<close>

text \<open>
  \<open>start\<close> tests the timer, awaits the first refresh and then sets an interval: two parts, because the
  process goes on in between.  \<open>ga_intervals\<close> are the intervals the runtime keeps firing.
\<close>

definition start_begin :: "'e gas_env \<Rightarrow> gas_allocator \<Rightarrow> bool \<times> gas_allocator" where
  "start_begin env ga = (if ga_timer ga \<noteq> None then (False, ga) else (True, fst (snd (doRefresh env ga))))"

definition start_finish :: "nat \<Rightarrow> gas_allocator \<Rightarrow> gas_allocator" where
  "start_finish interval ga = ga\<lparr>ga_timer := Some interval, ga_intervals := ga_intervals ga @ [interval]\<rparr>"

definition ga_stop :: "gas_allocator \<Rightarrow> gas_allocator" where
  "ga_stop ga =
     (case ga_timer ga of
        None \<Rightarrow> ga
      | Some i \<Rightarrow> ga\<lparr>ga_intervals := filter (\<lambda>j. j \<noteq> i) (ga_intervals ga), ga_timer := None\<rparr>)"

section \<open>Configuration\<close>

text \<open>\<open>readFinite\<close> is the finite number \<open>parseFloat\<close> reads from a text, if there is one.\<close>

definition envNumber ::
  "(string \<Rightarrow> rat option) \<Rightarrow> (string \<Rightarrow> string option) \<Rightarrow> string \<Rightarrow> rat \<Rightarrow> rat" where
  "envNumber readFinite env name fallback =
     (case readFinite (case env name of None \<Rightarrow> '''' | Some v \<Rightarrow> v) of
        None \<Rightarrow> fallback
      | Some v \<Rightarrow> v)"

section \<open>The partition\<close>

lemma fl_fifth: "fl (2 / 10) = 1 / 5 * (1 + 2 powi (- 54))"
proof -
  have "fl (2 / 10) = 3602879701896397 / 18014398509481984" by code_simp
  then show ?thesis by (simp add: power_int_minus)
qed

lemma ceiling_fifth:
  assumes "0 < n" "n < 2 ^ 50"
  shows "\<lceil>jsmul (of_nat n) (fl (2 / 10))\<rceil> = int ((n + 4) div 5)"
proof -
  define q r where "q = n div 5" "r = n mod 5"
  have n: "n = 5 * q + r" "r < 5" by (simp_all add: q_r_def)
  define x where "x = of_nat n * fl (2 / 10)"
  have q50: "q < 2 ^ 50" using assms(2) n by simp
  have x: "x = of_nat n / 5 + of_nat n / 5 * 2 powi (- 54)"
    unfolding x_def fl_fifth by (simp add: algebra_simps)
  show ?thesis
  proof (cases "r = 0")
    case True
    then have xq: "x = of_nat q + of_nat q * 2 powi (- 54)" using x n by simp
    have "fl x = of_nat q" unfolding xq using True n assms(1) q50 by (intro fl_absorb) auto
    then show ?thesis using True n by (simp add: jsmul_def x_def)
  next
    case False
    have n50: "(of_nat n :: rat) < 2 ^ 50" using assms(2)
      by (metis of_nat_less_iff of_nat_numeral of_nat_power)
    have "\<bar>fl x - x\<bar> \<le> \<bar>x\<bar> * 2 powi (- 53)" by (rule fl_error)
    moreover have "0 \<le> x" "x \<le> of_nat n" using x by (simp_all add: power_int_minus field_simps)
    ultimately have err: "\<bar>fl x - x\<bar> \<le> 1 / 8"
      using n50 by (simp add: power_int_minus field_simps)
    have x5: "of_nat n / 5 \<le> x" "x \<le> of_nat n / 5 + 1 / 16"
      using x n50 by (simp_all add: power_int_minus field_simps)
    have n5: "of_nat n / 5 = (of_nat q + of_nat r / 5 :: rat)" using n(1) by simp
    have "of_nat 1 \<le> (of_nat r :: rat)" "(of_nat r :: rat) \<le> of_nat 4"
      using False n(2) by (simp_all only: of_nat_le_iff)
    then have "of_nat q < fl x" "fl x \<le> of_nat q + 1"
      using err x5 unfolding n5 abs_le_iff by simp_all
    then have "\<lceil>fl x\<rceil> = int q + 1" by (intro ceiling_unique) auto
    moreover have "(n + 4) div 5 = q + 1" using n False by simp
    ultimately show ?thesis by (simp add: jsmul_def x_def)
  qed
qed
lemma reserved_bounds:
  assumes "0 < ratio" "2 \<le> n"
  shows "1 \<le> reservedWalletCount n ratio" "reservedWalletCount n ratio \<le> int n - 1"
proof -
  have "0 < of_nat n * ratio" using assms by simp
  then have "(0::rat) < fl (of_nat n * ratio)"
    by (metis fl_bounds_pos(1) less_le_trans zero_less_numeral zero_less_power_int)
  then show "1 \<le> reservedWalletCount n ratio" using assms by (simp add: reservedWalletCount_def jsmul_def)
qed (use assms in \<open>simp add: reservedWalletCount_def\<close>)

lemma reserved_mono:
  assumes "0 \<le> ratio" "m \<le> n" shows "reservedWalletCount m ratio \<le> reservedWalletCount n ratio"
proof -
  have "fl (of_nat m * ratio) \<le> fl (of_nat n * ratio)"
    using assms by (intro fl_mono mult_right_mono) auto
  moreover have "0 \<le> fl (of_nat n * ratio)" using assms by (intro fl_nonneg) simp
  ultimately show ?thesis
    using assms(2) ceiling_mono [of "fl (of_nat m * ratio)" "fl (of_nat n * ratio)"]
    by (auto simp: reservedWalletCount_def jsmul_def min_def)
qed

lemma sort_key_append:
  assumes "\<And>x y. x \<in> set xs \<Longrightarrow> y \<in> set ys \<Longrightarrow> f x \<le> f y"
  shows "sort_key f (xs @ ys) = sort_key f xs @ sort_key f ys"
proof (rule properties_for_sort_key)
  show "mset (sort_key f xs @ sort_key f ys) = mset (xs @ ys)" by simp
  show "filter (\<lambda>x. f k = f x) (sort_key f xs @ sort_key f ys) = filter (\<lambda>x. f k = f x) (xs @ ys)"
    if "k \<in> set (sort_key f xs @ sort_key f ys)" for k
    using sort_key_stable [where f = f and k = "f k"] by (simp add: eq_commute)
  show "sorted (map f (sort_key f xs @ sort_key f ys))"
    using assms by (auto simp: sorted_append)
qed

text \<open>
  The partition of the fleet: nothing is lost or duplicated; the emergency wallets are the ones
  with the smallest identifiers; a fleet of two or more always has both an emergency and a standard
  wallet, a smaller one holds nothing back; and adding wallets with larger identifiers never moves a
  reserved wallet to the standard pool.
\<close>

theorem partition_sound:
  assumes "0 < ratio" "ratio < 1" and new: "\<forall>w \<in> set ws. \<forall>v \<in> set added. gw_id w \<le> gw_id v"
  shows "let (emergency, standard) = partitionWallets ws ratio in
         mset emergency + mset standard = mset ws
         \<and> (\<forall>e \<in> set emergency. \<forall>s \<in> set standard. gw_id e \<le> gw_id s)
         \<and> (emergency = [] \<longleftrightarrow> length ws < 2) \<and> (standard = [] \<longleftrightarrow> ws = [])
         \<and> set emergency \<subseteq> set (fst (partitionWallets (ws @ added) ratio))"
proof -
  define ord where "ord = sort_key gw_id ws"
  define k where "k = nat (reservedWalletCount (length ws) ratio)"
  have part: "partitionWallets ws ratio = (take k ord, drop k ord)"
    by (simp add: partitionWallets_def ord_def k_def Let_def)
  have "mset (take k ord) + mset (drop k ord) = mset ws"
    by (metis mset_append append_take_drop_id ord_def mset_sort)
  moreover have "\<forall>e \<in> set (take k ord). \<forall>s \<in> set (drop k ord). gw_id e \<le> gw_id s"
  proof -
    have "sorted (map gw_id (take k ord @ drop k ord))" by (simp add: ord_def)
    then show ?thesis unfolding map_append sorted_append by auto
  qed
  moreover have "k = 0 \<longleftrightarrow> length ws < 2" "k < length ws \<or> ws = []"
  proof -
    show "k = 0 \<longleftrightarrow> length ws < 2"
      using reserved_bounds [OF assms(1), of "length ws"]
      by (cases "length ws < 2") (auto simp: k_def reservedWalletCount_def)
    show "k < length ws \<or> ws = []"
      using reserved_bounds [OF assms(1), of "length ws"]
      by (cases "length ws < 2") (auto simp: k_def reservedWalletCount_def)
  qed
  moreover have "set (take k ord) \<subseteq> set (fst (partitionWallets (ws @ added) ratio))"
  proof -
    define k' where "k' = nat (reservedWalletCount (length (ws @ added)) ratio)"
    have "k \<le> k'" using reserved_mono [of ratio "length ws" "length (ws @ added)"] assms(1)
      by (simp add: k_def k'_def)
    moreover have "fst (partitionWallets (ws @ added) ratio) = take k' (ord @ sort_key gw_id added)"
      using new by (simp add: partitionWallets_def k'_def ord_def sort_key_append Let_def)
    ultimately show ?thesis using set_take_subset_set_take [of k k' ord] by auto
  qed
  moreover have "take k ord = [] \<longleftrightarrow> length ws < 2" "drop k ord = [] \<longleftrightarrow> ws = []"
  proof -
    have len: "length ord = length ws" by (simp add: ord_def)
    then have "ord = [] \<longleftrightarrow> ws = []" by (metis length_0_conv)
    then show "take k ord = [] \<longleftrightarrow> length ws < 2" "drop k ord = [] \<longleftrightarrow> ws = []"
      using calculation(3,4) len by auto
  qed
  ultimately show ?thesis unfolding part prod.case Let_def by (intro conjI)
qed

theorem partition_sound_witness:
  "let w = (\<lambda>i. \<lparr>gw_id = i, gw_publicKey = ''G''\<rparr>) in
   partitionWallets [w 7, w 3] (1 / 2) = ([w 3], [w 7])
   \<and> set (fst (partitionWallets [w 7, w 3] (1 / 2)))
       \<subseteq> set (fst (partitionWallets ([w 7, w 3] @ [w 8, w 9]) (1 / 2)))"
proof -
  define w where "w = (\<lambda>i. \<lparr>gw_id = i, gw_publicKey = ''G''\<rparr>)"
  have p: "partitionWallets [w 7, w 3] (1 / 2) = ([w 3], [w 7])"
    using fl_of_nat [of 1] by (simp add: partitionWallets_def reservedWalletCount_def jsmul_def w_def)
  have "\<forall>x \<in> set [w 7, w 3]. \<forall>v \<in> set [w 8, w 9]. gw_id x \<le> gw_id v" by (simp add: w_def)
  from partition_sound [OF _ _ this, of "1 / 2"] p show ?thesis
    unfolding Let_def w_def [symmetric] by simp
qed

text \<open>
  With the default ratio, a double slightly above one fifth, the reserve of a fleet is exactly
  20% rounded up: the product is rounded back to the integer for multiples of five, and the cap that
  leaves one standard wallet is never active.
\<close>

theorem default_reserve_is_a_fifth:
  assumes "2 \<le> n" "n < 2 ^ 50"
  shows "reservedWalletCount n (gc_reserveRatio DEFAULT_GAS_RESERVE_CONFIG) = int ((n + 4) div 5)"
proof -
  have "(n + 4) div 5 \<le> n - 1" using assms(1) by linarith
  with assms ceiling_fifth [of n] show ?thesis
    by (simp add: reservedWalletCount_def DEFAULT_GAS_RESERVE_CONFIG_def min_def del: of_nat_add)
qed

theorem default_reserve_is_a_fifth_witness:
  "reservedWalletCount 15 (gc_reserveRatio DEFAULT_GAS_RESERVE_CONFIG) = 3
   \<and> reservedWalletCount 16 (gc_reserveRatio DEFAULT_GAS_RESERVE_CONFIG) = 4"
  using default_reserve_is_a_fifth [of 15] default_reserve_is_a_fifth [of 16] by simp

section \<open>Leases\<close>

interpretation garr: round_robin pick_wallet "map ws_wallet" "\<lambda>ws. ws \<noteq> []"
  by unfold_locales (simp_all add: pick_wallet_def)

definition funded :: "gas_config \<Rightarrow> pool_snapshot \<Rightarrow> gas_wallet set" where
  "funded cfg pool = ws_wallet ` set (usable cfg pool)"

lemma usable_empty_iff: "usable cfg pool = [] \<longleftrightarrow> funded cfg pool = {}"
  by (simp add: funded_def)

text \<open>A lease of a given pool from a set of wallets, refused exactly when the set is empty.\<close>

definition lease_from ::
  "gas_pool \<Rightarrow> gas_wallet set \<Rightarrow> gas_operation \<Rightarrow> 'e gas_error + gas_lease \<Rightarrow> bool" where
  "lease_from pool ws op r \<longleftrightarrow>
     (case r of
        Inr l \<Rightarrow> le_pool l = pool \<and> le_wallet l \<in> ws \<and> le_operation l = op
      | Inl e \<Rightarrow> e = GasReserveExhaustedError op \<and> ws = {})"

lemma lease_result: "lease_from pool (ws_wallet ` set ws) op (fst (lease ws pool op ga))"
  using garr.pick_member [of ws "cursor_of pool ga"]
  by (cases "ws = []") (simp_all add: lease_def lease_from_def)

text \<open>
  Which pool pays: a standard operation is served by a funded wallet of the standard pool or
  refused, whatever the emergency pool holds; an emergency operation is served by a funded emergency
  wallet when there is one, by a funded standard wallet when there is not, and refused only when no
  wallet at all is funded.
\<close>

theorem acquire_pool_rules:
  "lease_from STANDARD_POOL (funded (ga_config ga) (sn_standard snap)) STANDARD_OP
     (fst (acquire_from snap STANDARD_OP ga))
   \<and> (if funded (ga_config ga) (sn_emergency snap) \<noteq> {}
      then lease_from EMERGENCY_POOL (funded (ga_config ga) (sn_emergency snap)) EMERGENCY_OP
             (fst (acquire_from snap EMERGENCY_OP ga))
      else lease_from STANDARD_POOL (funded (ga_config ga) (sn_standard snap)) EMERGENCY_OP
             (fst (acquire_from snap EMERGENCY_OP ga)))"
proof (cases "usable (ga_config ga) (sn_standard snap) = []")
  case True
  then show ?thesis
    using lease_result [of STANDARD_POOL "[]"]
    by (cases "usable (ga_config ga) (sn_emergency snap) = []")
       (simp_all add: acquire_from_def Let_def funded_def lease_result lease_from_def [of _ "{}"])
qed (simp add: acquire_from_def Let_def funded_def lease_result)

text \<open>Consecutive leases of one snapshot.\<close>

fun leases :: "nat \<Rightarrow> gas_snapshot \<Rightarrow> gas_operation \<Rightarrow> gas_allocator \<Rightarrow> gas_wallet list" where
  "leases 0 snap op ga = []"
| "leases (Suc n) snap op ga =
     (case acquire_from snap op ga :: (unit gas_error + gas_lease) \<times> gas_allocator of
        (Inr l, ga') \<Rightarrow> le_wallet l # leases n snap op ga'
      | (Inl _, ga') \<Rightarrow> leases n snap op ga')"

lemma leases_standard:
  assumes "usable (ga_config ga) (sn_standard snap) \<noteq> []"
  shows "leases n snap STANDARD_OP ga =
     map (\<lambda>i. pick_wallet (ga_standardCursor ga + i) (usable (ga_config ga) (sn_standard snap))) [0..<n]"
  using assms
proof (induction n arbitrary: ga)
  case (Suc n)
  have "[0..<Suc n] = 0 # map Suc [0..<n]" by (simp add: map_Suc_upt upt_conv_Cons)
  with Suc show ?case
    by (simp add: acquire_from_def lease_def bump_cursor_def cursor_of_def del: upt_Suc map_Suc_upt)
qed simp

text \<open>
  Leases rotate: as many standard leases in a row as there are funded standard wallets in the
  snapshot hand out each of these wallets exactly once, wherever the cursor stands.
\<close>

theorem leases_rotate:
  "mset (leases (length (usable (ga_config ga) (sn_standard snap))) snap STANDARD_OP ga) =
     mset (map ws_wallet (usable (ga_config ga) (sn_standard snap)))"
proof (cases "usable (ga_config ga) (sn_standard snap) = []")
  case False
  show ?thesis
    using garr.round_serves_each_slot [OF False, of "ga_standardCursor ga"]
    unfolding leases_standard [OF False] length_map .
qed simp

section \<open>Alerts\<close>

text \<open>
  A history of the allocator: refreshes and acquires against changing dependencies.  \<open>gas_run\<close>
  collects the alerts delivered.
\<close>

datatype 'e gas_event = Refresh "'e gas_env" | Acquire "'e gas_env" gas_operation

fun gas_step :: "'e gas_event \<Rightarrow> gas_allocator \<Rightarrow> gas_allocator \<times> low_balance_alert list" where
  "gas_step (Refresh env) ga = snd (doRefresh env ga)"
| "gas_step (Acquire env op) ga = snd (acquire env op ga)"

fun gas_run :: "'e gas_event list \<Rightarrow> gas_allocator \<Rightarrow> gas_allocator \<times> low_balance_alert list" where
  "gas_run [] ga = (ga, [])"
| "gas_run (e # es) ga =
     (let (ga1, a1) = gas_step e ga; (ga2, a2) = gas_run es ga1 in (ga2, a1 @ a2))"

fun alert_time :: "'e gas_event \<Rightarrow> int" where
  "alert_time (Refresh env) = ge_alertAt env"
| "alert_time (Acquire env op) = ge_alertAt env"

text \<open>
  The invariant of a wallet's alerts up to a time \<open>now\<close>: they are spaced by the interval, and the next
  one is barred for the interval after the last, either because its time is on record or because the
  interval has already passed.
\<close>

definition spaced :: "int \<Rightarrow> int list \<Rightarrow> bool" where
  "spaced d ts \<longleftrightarrow> sorted_wrt (\<lambda>s t. s + d \<le> t) ts"

definition times_of :: "string \<Rightarrow> low_balance_alert list \<Rightarrow> int list" where
  "times_of key as = map al_timestamp (filter (\<lambda>a. al_publicKey a = key) as)"

definition key_ok :: "int \<Rightarrow> int \<Rightarrow> int option \<Rightarrow> int list \<Rightarrow> bool" where
  "key_ok now d recorded ts \<longleftrightarrow>
     spaced d ts \<and> (\<forall>t \<in> set ts. t \<le> now \<and> (t + d \<le> now \<or> (\<exists>l \<ge> t. recorded = Some l)))"

definition alerts_ok :: "int \<Rightarrow> gas_allocator \<times> low_balance_alert list \<Rightarrow> bool" where
  [inv_defs]: "alerts_ok now s \<longleftrightarrow>
     (\<forall>key. key_ok now (gc_alertIntervalMs (ga_config (fst s))) (ga_lastAlertAt (fst s) key)
              (times_of key (snd s)))"

lemma key_ok_later: "key_ok now d l ts \<Longrightarrow> now \<le> now' \<Longrightarrow> key_ok now' d l ts"
  unfolding key_ok_def by (meson order_trans)

lemma alerts_ok_later: "alerts_ok now s \<Longrightarrow> now \<le> now' \<Longrightarrow> alerts_ok now' s"
  unfolding alerts_ok_def using key_ok_later by blast

lemma key_ok_due:
  assumes "key_ok now d recorded ts" "\<not> (case recorded of None \<Rightarrow> False | Some t \<Rightarrow> now - t < d)"
  shows "\<forall>t \<in> set ts. t + d \<le> now"
  using assms unfolding key_ok_def by (force split: option.splits)

lemma key_ok_deliver:
  assumes "key_ok now d recorded ts" "\<forall>t \<in> set ts. t + d \<le> now" "0 \<le> d"
  shows "key_ok now d (Some now) (ts @ [now])" "key_ok now d None ts"
  using assms unfolding key_ok_def spaced_def by (auto simp: sorted_wrt_append)

lemma alert_wallet_config [simp]:
  "ga_config (fst (alert_wallet deliver now pool w s)) = ga_config (fst s)"
  by (simp add: alert_wallet_def Let_def split: option.split)

lemma alert_wallet_ok:
  assumes "alerts_ok now s" "0 \<le> gc_alertIntervalMs (ga_config (fst s))"
  shows "alerts_ok now (alert_wallet deliver now pool w s)"
proof -
  define d where "d = gc_alertIntervalMs (ga_config (fst s))"
  define key where "key = gw_publicKey (ws_wallet w)"
  obtain ga as where s: "s = (ga, as)" by fastforce
  show ?thesis
  proof (cases "alert_wallet deliver now pool w s = s")
    case False
    then have due: "\<not> (case ga_lastAlertAt ga key of None \<Rightarrow> False | Some t \<Rightarrow> now - t < d)"
      by (auto simp: alert_wallet_def Let_def s key_def d_def split: option.splits if_splits)
    have ok: "key_ok now d (ga_lastAlertAt ga k) (times_of k as)" for k
      using assms(1) by (simp add: alerts_ok_def s d_def)
    note past = key_ok_due [OF ok due]
    note upd = key_ok_deliver [OF ok past assms(2) [folded d_def]]
    define a where "a = \<lparr>al_pool = ps_pool pool, al_publicKey = key,
      al_balanceXlm = the (ws_balanceXlm w), al_thresholdXlm = ps_thresholdXlm pool, al_timestamp = now\<rparr>"
    have a: "alert_wallet deliver now pool w s \<in>
           {(ga\<lparr>ga_lastAlertAt := (ga_lastAlertAt ga)(key \<mapsto> now)\<rparr>, as @ [a]),
            (ga\<lparr>ga_lastAlertAt := (ga_lastAlertAt ga)(key := None)\<rparr>, as)}"
      using False unfolding alert_wallet_def Let_def s key_def a_def
      by (auto split: option.splits if_splits)
    have "times_of k (as @ [a]) = times_of k as @ (if k = key then [now] else [])" for k
      by (simp add: times_of_def a_def)
    with a ok upd show ?thesis by (auto simp: alerts_ok_def d_def s)
  qed (use assms in simp)
qed

lemma alert_pool_ok:
  assumes "alerts_ok now s" "0 \<le> gc_alertIntervalMs (ga_config (fst s))"
  shows "alerts_ok now (fold (alert_wallet deliver now pool) ws s)
       \<and> ga_config (fst (fold (alert_wallet deliver now pool) ws s)) = ga_config (fst s)"
  using assms by (induction ws arbitrary: s) (simp_all add: alert_wallet_ok)

text \<open>Alerts delivered earlier do not matter to the loop: they can be put in front of its result.\<close>

lemma alert_wallet_prefix:
  "alert_wallet deliver now pool w (ga, pre @ as) =
     (let (ga', as') = alert_wallet deliver now pool w (ga, as) in (ga', pre @ as'))"
  by (simp add: alert_wallet_def Let_def split: option.split)

lemma alert_pool_prefix:
  "fold (alert_wallet deliver now pool) ws (ga, pre @ as) =
     (let (ga', as') = fold (alert_wallet deliver now pool) ws (ga, as) in (ga', pre @ as'))"
proof (induction ws arbitrary: ga as)
  case (Cons w ws)
  then show ?case
    by (cases "alert_wallet deliver now pool w (ga, as)") (simp add: alert_wallet_prefix)
qed simp

lemma raiseAlerts_ok:
  assumes "alerts_ok now (ga, pre)" "now \<le> ge_alertAt env" "0 \<le> gc_alertIntervalMs (ga_config ga)"
    and r: "raiseAlerts env snap ga = (ga', as)"
  shows "alerts_ok (ge_alertAt env) (ga', pre @ as) \<and> ga_config ga' = ga_config ga"
proof (cases "ge_alert env")
  case None
  then show ?thesis using assms alerts_ok_later by (fastforce simp: raiseAlerts_def)
next
  case (Some deliver)
  define f where "f = (\<lambda>pool. fold (alert_wallet deliver (ge_alertAt env) pool) (ps_wallets pool))"
  obtain ga1 as1 where s1: "f (sn_emergency snap) (ga, []) = (ga1, as1)" by fastforce
  have r2: "f (sn_standard snap) (ga1, as1) = (ga', as)"
    using r s1 by (simp add: raiseAlerts_def Some f_def)
  have pre: "f pool (g, pre @ xs) = (let (g', xs') = f pool (g, xs) in (g', pre @ xs'))" for pool g xs
    unfolding f_def by (rule alert_pool_prefix)
  have ok: "alerts_ok (ge_alertAt env) (ga, pre)" using alerts_ok_later [OF assms(1,2)] .
  have step: "alerts_ok (ge_alertAt env) (f pool s) \<and> ga_config (fst (f pool s)) = ga_config (fst s)"
    if "alerts_ok (ge_alertAt env) s" "0 \<le> gc_alertIntervalMs (ga_config (fst s))" for pool s
    using that unfolding f_def by (rule alert_pool_ok)
  have "alerts_ok (ge_alertAt env) (ga1, pre @ as1) \<and> ga_config ga1 = ga_config ga"
    using step [OF ok, of "sn_emergency snap"] pre [of "sn_emergency snap" ga "[]"] s1 assms(3) by simp
  then show ?thesis
    using step [of "(ga1, pre @ as1)" "sn_standard snap"] pre [of "sn_standard snap" ga1 as1] r2 assms(3)
    by simp
qed

lemma alerts_ok_frame:
  "ga_config ga' = ga_config ga \<Longrightarrow> ga_lastAlertAt ga' = ga_lastAlertAt ga \<Longrightarrow>
     alerts_ok now (ga', as) = alerts_ok now (ga, as)"
  by (simp add: alerts_ok_def)

lemma doRefresh_ok:
  assumes "alerts_ok now (ga, pre)" "now \<le> ge_alertAt env" "0 \<le> gc_alertIntervalMs (ga_config ga)"
    and "doRefresh env ga = (r, ga', as)"
  shows "alerts_ok (ge_alertAt env) (ga', pre @ as) \<and> ga_config ga' = ga_config ga"
proof (cases "ge_wallets env")
  case (Inl e)
  then show ?thesis using assms alerts_ok_later by (fastforce simp: doRefresh_def)
next
  case (Inr ws)
  define ga1 where "ga1 = ga\<lparr>ga_snapshot := Some (take_snapshot (ga_config ga) env ws),
                             ga_snapshotAtMs := ge_storedAt env\<rparr>"
  have "alerts_ok now (ga1, pre)" using assms(1) by (simp add: ga1_def alerts_ok_def)
  moreover have "raiseAlerts env (take_snapshot (ga_config ga) env ws) ga1 = (ga', as)"
    using assms(4) Inr by (simp add: doRefresh_def Let_def ga1_def)
  moreover have "ga_config ga1 = ga_config ga" by (simp add: ga1_def)
  ultimately show ?thesis using raiseAlerts_ok [of now ga1 pre env] assms(2,3) by auto
qed

lemma acquire_from_frame:
  assumes "acquire_from snap op ga = (r, ga')"
  shows "ga_config ga' = ga_config ga \<and> ga_lastAlertAt ga' = ga_lastAlertAt ga"
  using assms
  by (auto simp: acquire_from_def lease_def bump_cursor_def Let_def split: if_splits gas_pool.splits)

lemma acquire_ok:
  fixes env :: "'e gas_env"
  assumes "alerts_ok now (ga, pre)" "now \<le> ge_alertAt env" "0 \<le> gc_alertIntervalMs (ga_config ga)"
    and "acquire env op ga = (r, ga', as)"
  shows "alerts_ok (ge_alertAt env) (ga', pre @ as) \<and> ga_config ga' = ga_config ga"
proof -
  obtain r1 ga1 as1 where g: "getSnapshot env ga = (r1, ga1, as1)" by (metis prod_cases3)
  then have ok1: "alerts_ok (ge_alertAt env) (ga1, pre @ as1) \<and> ga_config ga1 = ga_config ga"
    using doRefresh_ok [OF assms(1-3)] alerts_ok_later [OF assms(1,2)]
    by (auto simp: getSnapshot_def split: option.splits if_splits)
  show ?thesis
  proof (cases r1)
    case (Inl e)
    then show ?thesis using assms(4) g ok1 by (simp add: acquire_def)
  next
    case (Inr snap)
    obtain r2 :: "'e gas_error + gas_lease" and ga2 where a: "acquire_from snap op ga1 = (r2, ga2)"
      by fastforce
    note acquire_from_frame [OF a]
    moreover have "ga' = ga2" "as = as1" using assms(4) g Inr a by (simp_all add: acquire_def)
    ultimately show ?thesis using ok1 alerts_ok_frame [of ga2 ga1] by simp
  qed
qed

lemma gas_step_ok:
  assumes "alerts_ok now (ga, pre)" "now \<le> alert_time e" "0 \<le> gc_alertIntervalMs (ga_config ga)"
    and "gas_step e ga = (ga', as)"
  shows "alerts_ok (alert_time e) (ga', pre @ as) \<and> ga_config ga' = ga_config ga"
proof (cases e)
  case (Refresh env)
  obtain r where r: "doRefresh env ga = (r, ga', as)"
    using assms(4) Refresh by (cases "doRefresh env ga") simp
  show ?thesis using doRefresh_ok [OF assms(1) _ assms(3) r] assms(2) Refresh by simp
next
  case (Acquire env op)
  obtain r where r: "acquire env op ga = (r, ga', as)"
    using assms(4) Acquire by (cases "acquire env op ga") simp
  show ?thesis using acquire_ok [OF assms(1) _ assms(3) r] assms(2) Acquire by simp
qed

lemma gas_run_ok:
  assumes "alerts_ok now (ga, pre)" "sorted (now # map alert_time es)"
    and "0 \<le> gc_alertIntervalMs (ga_config ga)"
  shows "\<exists>now'. alerts_ok now' (fst (gas_run es ga), pre @ snd (gas_run es ga))
           \<and> ga_config (fst (gas_run es ga)) = ga_config ga"
  using assms
proof (induction es arbitrary: now ga pre)
  case (Cons e es)
  obtain ga1 a1 where s: "gas_step e ga = (ga1, a1)" by fastforce
  have ok1: "alerts_ok (alert_time e) (ga1, pre @ a1)" "ga_config ga1 = ga_config ga"
    using gas_step_ok [OF Cons.prems(1) _ Cons.prems(3) s] Cons.prems(2) by auto
  have "sorted (alert_time e # map alert_time es)" using Cons.prems(2) by simp
  from Cons.IH [OF ok1(1) this] obtain now' where
    "alerts_ok now' (fst (gas_run es ga1), (pre @ a1) @ snd (gas_run es ga1))"
    "ga_config (fst (gas_run es ga1)) = ga_config ga1"
    using Cons.prems(3) ok1(2) by auto
  moreover have "gas_run (e # es) ga = (fst (gas_run es ga1), a1 @ snd (gas_run es ga1))"
    by (simp add: s split_beta)
  ultimately show ?case using ok1(2) by (intro exI [of _ now']) simp
qed auto

text \<open>
  The rate limit: along any history of refreshes and acquires whose clock does not run backwards,
  with any wallets, balances and failing alert deliveries, two alerts delivered for the same wallet
  are at least \<open>alertIntervalMs\<close> apart.
\<close>

theorem alerts_rate_limited:
  assumes "new_RelayerGasReserveAllocator cfg = Inr ga" "0 \<le> gc_alertIntervalMs cfg"
    and "sorted (map alert_time es)"
  shows "spaced (gc_alertIntervalMs cfg) (times_of key (snd (gas_run es ga)))"
proof -
  define now where "now = (case es of [] \<Rightarrow> 0 | e # _ \<Rightarrow> alert_time e)"
  have cfg: "ga_config ga = cfg" using assms(1) by (auto simp: new_RelayerGasReserveAllocator_def split: if_splits)
  have "alerts_ok now (ga, [])" by (simp add: alerts_ok_def key_ok_def times_of_def spaced_def)
  moreover have "sorted (now # map alert_time es)"
    using assms(3) by (cases es) (auto simp: now_def)
  ultimately show ?thesis
    using gas_run_ok [of now ga "[]" es] assms(2) cfg
    by (auto simp: alerts_ok_def key_ok_def)
qed

text \<open>A wallet below its threshold in two refreshes within the hour is reported once.\<close>

theorem alerts_rate_limited_witness:
  "let env = (\<lambda>t. \<lparr>ge_wallets = Inr [\<lparr>gw_id = 1, gw_publicKey = ''G''\<rparr>], ge_balance = (\<lambda>_. Some 1),
                   ge_now = t, ge_checkedAt = t, ge_storedAt = t, ge_alertAt = t,
                   ge_alert = Some (\<lambda>_. True)\<rparr> :: unit gas_env);
       es = [Refresh (env 0), Refresh (env 1000), Refresh (env 3600000)]
   in \<exists>ga. (new_RelayerGasReserveAllocator (DEFAULT_GAS_RESERVE_CONFIG\<lparr>gc_reserveRatio := 1 / 2\<rparr>)
               :: unit gas_error + gas_allocator) = Inr ga
      \<and> times_of ''G'' (snd (gas_run es ga)) = [0, 3600000]
      \<and> spaced 3600000 (times_of ''G'' (snd (gas_run es ga)))"
proof -
  define env where "env = (\<lambda>t. \<lparr>ge_wallets = Inr [\<lparr>gw_id = 1, gw_publicKey = ''G''\<rparr>],
     ge_balance = (\<lambda>_. Some 1), ge_now = t, ge_checkedAt = t, ge_storedAt = t, ge_alertAt = t,
     ge_alert = Some (\<lambda>_. True)\<rparr> :: unit gas_env)"
  define es where "es = [Refresh (env 0), Refresh (env 1000), Refresh (env 3600000)]"
  define cfg where "cfg = DEFAULT_GAS_RESERVE_CONFIG\<lparr>gc_reserveRatio := 1 / 2\<rparr>"
  obtain ga where ga: "(new_RelayerGasReserveAllocator cfg :: unit gas_error + gas_allocator) = Inr ga"
    by (simp add: cfg_def new_RelayerGasReserveAllocator_def)
  then have ga': "ga = \<lparr>ga_config = cfg, ga_standardCursor = 0, ga_emergencyCursor = 0,
                ga_lastAlertAt = (\<lambda>_. None), ga_snapshot = None, ga_snapshotAtMs = 0,
                ga_timer = None, ga_intervals = []\<rparr>"
    by (simp add: new_RelayerGasReserveAllocator_def cfg_def)
  have "times_of ''G'' (snd (gas_run es ga)) = [0, 3600000]"
    by (simp add: es_def env_def ga' cfg_def DEFAULT_GAS_RESERVE_CONFIG_def doRefresh_def Let_def
        take_snapshot_def partitionWallets_def reservedWalletCount_def summarize_def read_pool_def
        raiseAlerts_def alert_wallet_def times_of_def)
  moreover have "spaced 3600000 (times_of ''G'' (snd (gas_run es ga)))"
    using alerts_rate_limited [OF ga, of es "''G''"]
    by (simp add: es_def env_def cfg_def DEFAULT_GAS_RESERVE_CONFIG_def)
  ultimately show ?thesis
    unfolding Let_def env_def [symmetric] es_def [symmetric] cfg_def [symmetric] using ga by blast
qed

text \<open>
  \<open>start\<close> tests the timer before it awaits the first refresh: two calls that overlap both pass the
  test and leave two intervals, of which \<open>stop\<close> clears one.
\<close>

theorem overlapping_start_leaks_interval:
  assumes "ga_timer ga = None" "ga_intervals ga = []" "i \<noteq> j"
    and "start_begin env1 ga = (b1, ga1)" "start_begin env2 ga1 = (b2, ga2)"
  shows "b1 \<and> b2 \<and> ga_intervals (ga_stop (start_finish j (start_finish i ga2))) = [i]
       \<and> ga_timer (ga_stop (start_finish j (start_finish i ga2))) = None"
proof -
  have keep: "ga_timer (fst (fold (alert_wallet f n p) ws s)) = ga_timer (fst s)
      \<and> ga_intervals (fst (fold (alert_wallet f n p) ws s)) = ga_intervals (fst s)" for f n p ws s
    by (induction ws arbitrary: s) (auto simp: alert_wallet_def Let_def split: option.split)
  have refresh: "ga_timer (fst (snd (doRefresh env g))) = ga_timer g
      \<and> ga_intervals (fst (snd (doRefresh env g))) = ga_intervals g" for env and g
    by (auto simp: doRefresh_def raiseAlerts_def Let_def keep split: sum.split option.split)
  have "b1" "ga_timer ga1 = None" "ga_intervals ga1 = []"
    using assms(1,2,4) refresh [of env1 ga] by (auto simp: start_begin_def)
  moreover from this have "b2" "ga_intervals ga2 = []"
    using assms(5) refresh [of env2 ga1] by (auto simp: start_begin_def)
  ultimately show ?thesis using assms(3) by (simp add: start_finish_def ga_stop_def)
qed

theorem overlapping_start_leaks_interval_witness:
  "let env = \<lparr>ge_wallets = Inl (), ge_balance = (\<lambda>_. None), ge_now = 0, ge_checkedAt = 0,
              ge_storedAt = 0, ge_alertAt = 0, ge_alert = None\<rparr> :: unit gas_env
   in \<exists>ga. (new_RelayerGasReserveAllocator (DEFAULT_GAS_RESERVE_CONFIG\<lparr>gc_reserveRatio := 1 / 2\<rparr>)
               :: unit gas_error + gas_allocator) = Inr ga
      \<and> start_begin env ga = (True, ga)
      \<and> ga_intervals (ga_stop (start_finish 2 (start_finish 1 ga))) = [1]"
proof -
  define env where "env = (\<lparr>ge_wallets = Inl (), ge_balance = (\<lambda>_. None), ge_now = 0, ge_checkedAt = 0,
    ge_storedAt = 0, ge_alertAt = 0, ge_alert = None\<rparr> :: unit gas_env)"
  define cfg where "cfg = DEFAULT_GAS_RESERVE_CONFIG\<lparr>gc_reserveRatio := 1 / 2\<rparr>"
  obtain ga where ga: "(new_RelayerGasReserveAllocator cfg :: unit gas_error + gas_allocator) = Inr ga"
    by (simp add: cfg_def new_RelayerGasReserveAllocator_def)
  then have t: "ga_timer ga = None" "ga_intervals ga = []"
    by (auto simp: new_RelayerGasReserveAllocator_def cfg_def)
  then have b: "start_begin env ga = (True, ga)" by (simp add: start_begin_def doRefresh_def env_def)
  have "ga_intervals (ga_stop (start_finish 2 (start_finish 1 ga))) = [1]"
    using overlapping_start_leaks_interval [OF t _ b b, of 1 2] by simp
  then show ?thesis
    unfolding Let_def env_def [symmetric] cfg_def [symmetric] using ga b by blast
qed

end
