(* ===== verification/Codec.thy ===== *)
theory Codec
  imports JSString
begin

text \<open>
  The contract of an encoder and its decoder: decoding what was encoded returns it.  Encoders are then
  injective on the values they accept, and encoding each element of a list can be undone.  The
  hexadecimal and decimal printers provide it here, the reserve amounts and the framed depth maps in
  their own theories.
\<close>

locale codec =
  fixes encode :: "'a \<Rightarrow> 'b"
    and decode :: "'b \<Rightarrow> 'e + 'a"
    and accepts :: "'a \<Rightarrow> bool"
  assumes decode_encode: "accepts x \<Longrightarrow> decode (encode x) = Inr x"
begin

lemma encode_inj: "accepts x \<Longrightarrow> accepts y \<Longrightarrow> encode x = encode y \<Longrightarrow> x = y"
  by (metis decode_encode sum.inject(2))

lemma decode_list: "(\<And>x. x \<in> set xs \<Longrightarrow> accepts x) \<Longrightarrow> map_result decode (map encode xs) = Inr xs"
  by (induction xs) (simp_all add: decode_encode)

lemma decode_image: "accepts x \<Longrightarrow> decode y = Inr z \<Longrightarrow> y = encode x \<Longrightarrow> z = x"
  by (simp add: decode_encode)

end

interpretation hexc: codec hex "\<lambda>s. Inr (unhex s)" "\<lambda>_. True"
  by unfold_locales (simp add: unhex_hex)

interpretation decc: codec show_nat "\<lambda>s. Inr (read_nat s)" "\<lambda>_. True"
  by unfold_locales (simp add: read_show_nat)

text \<open>\<open>slice\<close> and \<open>subarray\<close>: negative positions count from the end and both are clipped.\<close>

definition slice_pos :: "int \<Rightarrow> 'a list \<Rightarrow> nat" where
  "slice_pos i xs = (if i < 0 then nat (int (length xs) + i) else min (nat i) (length xs))"

definition js_slice :: "int \<Rightarrow> int \<Rightarrow> 'a list \<Rightarrow> 'a list" where
  "js_slice i j xs =
     take (slice_pos j xs - slice_pos i xs) (drop (slice_pos i xs) xs)"

lemma js_slice_within:
  "0 \<le> i \<Longrightarrow> i \<le> j \<Longrightarrow> j \<le> int (length xs) \<Longrightarrow> js_slice i j xs = take (nat (j - i)) (drop (nat i) xs)"
  by (simp add: js_slice_def slice_pos_def nat_diff_distrib min_absorb1 nat_le_iff)

lemma js_slice_length: "length (js_slice i j xs) \<le> length xs"
  by (simp add: js_slice_def)

end
