(* ===== verification/Encryption.thy ===== *)
theory Encryption
  imports Codec
begin

text \<open>
  \<open>src/crypto/encryption.ts\<close> and \<open>src/services/kycEncryption.ts\<close>: AES-256-GCM texts framed as
  \<open>iv | ciphertext | tag\<close> in hexadecimal, and the KYC payloads encrypted with them.  The primitives of
  \<open>node:crypto\<close> (SHA-256, the GCM cipher and decipher) and \<open>JSON.stringify\<close>/\<open>JSON.parse\<close> are the fields
  of a record of functions; what is used of them is that deciphering inverts enciphering, the length
  of the tag, and that parsing inverts printing.

  The lemmas: the framing is undone by the decoder, so encrypted payloads decrypt to what was stored.
\<close>

section \<open>AES-256-GCM texts\<close>

record aes_gcm =
  ae_sha256 :: "string \<Rightarrow> bytes"
  ae_seal :: "bytes \<Rightarrow> bytes \<Rightarrow> string \<Rightarrow> bytes \<times> bytes"
  ae_open :: "bytes \<Rightarrow> bytes \<Rightarrow> bytes \<Rightarrow> bytes \<Rightarrow> string + string"

definition IV_LENGTH :: int where "IV_LENGTH = 12"
definition TAG_LENGTH :: int where "TAG_LENGTH = 16"

definition decrypt :: "aes_gcm \<Rightarrow> string \<Rightarrow> string \<Rightarrow> string + string" where
  "decrypt ae encryptedText masterKey =
     (if encryptedText = '''' then Inl ''encryptedText must be provided''
      else if masterKey = '''' then Inl ''masterKey must be provided''
      else
        let key = ae_sha256 ae masterKey;
            buffer = unhex encryptedText;
            n = int (length buffer);
            iv = js_slice 0 IV_LENGTH buffer;
            tg = js_slice (n - TAG_LENGTH) n buffer;
            ciphertext = js_slice IV_LENGTH (n - TAG_LENGTH) buffer
        in case ae_open ae key iv ciphertext tg of
             Inl err \<Rightarrow> Inl (''Decryption failed: '' @ err)
           | Inr text \<Rightarrow> Inr text)"

text \<open>The random initialisation vector is an argument.\<close>

definition encrypt :: "aes_gcm \<Rightarrow> bytes \<Rightarrow> string \<Rightarrow> string \<Rightarrow> string" where
  "encrypt ae iv text masterKey =
     (let key = ae_sha256 ae masterKey;
          (encrypted, tg) = ae_seal ae key iv text
      in hex iv @ hex encrypted @ hex tg)"

section \<open>KYC payloads\<close>

record json_codec =
  jc_stringify :: "json \<Rightarrow> string"
  jc_parse :: "string \<Rightarrow> string + json"

datatype kyc_error =
    Sep12ValidationError string
  | Sep12NotFoundError string
  | Sep12TransitionError string
  | KycEncryptionError string
  | KycAnchorError string
  | KycStoreError string

record kyc_encryption =
  ke_aes :: aes_gcm
  ke_json :: json_codec
  ke_keyOverride :: "string option"
  ke_env :: "string \<Rightarrow> string option"

text \<open>\<open>a?.trim() || b\<close>: the first of the candidates that is not blank.\<close>

fun first_nonblank :: "string option list \<Rightarrow> string option" where
  "first_nonblank [] = None"
| "first_nonblank (None # xs) = first_nonblank xs"
| "first_nonblank (Some s # xs) = (if js_trim s \<noteq> '''' then Some (js_trim s) else first_nonblank xs)"

definition resolveKey :: "kyc_encryption \<Rightarrow> string option" where
  "resolveKey ke =
     first_nonblank [ke_keyOverride ke, ke_env ke ''KYC_ENCRYPTION_KEY'', ke_env ke ''VAULT_MASTER_KEY'']"

definition ke_isConfigured :: "kyc_encryption \<Rightarrow> bool" where
  "ke_isConfigured ke = (resolveKey ke \<noteq> None)"

definition encryptPayload ::
  "kyc_encryption \<Rightarrow> bytes \<Rightarrow> (string \<times> json) list \<Rightarrow> kyc_error + string" where
  "encryptPayload ke iv payload =
     (case resolveKey ke of
        None \<Rightarrow> Inl (KycEncryptionError ''KYC_ENCRYPTION_KEY (or VAULT_MASTER_KEY) is not configured'')
      | Some key \<Rightarrow> Inr (encrypt (ke_aes ke) iv (jc_stringify (ke_json ke) (JObj payload)) key))"

definition decryptPayload :: "kyc_encryption \<Rightarrow> string \<Rightarrow> kyc_error + (string \<times> json) list" where
  "decryptPayload ke ciphertext =
     (case resolveKey ke of
        None \<Rightarrow> Inl (KycEncryptionError ''KYC_ENCRYPTION_KEY (or VAULT_MASTER_KEY) is not configured'')
      | Some key \<Rightarrow>
          if ciphertext = '''' then Inl (KycEncryptionError ''Encrypted KYC payload is empty'')
          else case rbind (decrypt (ke_aes ke) ciphertext key) (jc_parse (ke_json ke)) of
                 Inl message \<Rightarrow> Inl (KycEncryptionError (''Unable to decrypt KYC payload: '' @ message))
               | Inr parsed \<Rightarrow>
                   (case plain_object parsed of
                      None \<Rightarrow> Inl (KycEncryptionError ''Decrypted KYC payload is not a JSON object'')
                    | Some payload \<Rightarrow> Inr payload))"

section \<open>Round trips\<close>

lemma frame_slices:
  assumes "length iv = 12" "length tg = 16"
  shows "js_slice 0 12 (iv @ ct @ tg) = iv"
    and "js_slice (int (length (iv @ ct @ tg)) - 16) (int (length (iv @ ct @ tg))) (iv @ ct @ tg) = tg"
    and "js_slice 12 (int (length (iv @ ct @ tg)) - 16) (iv @ ct @ tg) = ct"
  using assms by (simp_all add: js_slice_within)

lemma decrypt_encrypt:
  assumes "length iv = 12" "masterKey \<noteq> ''''"
    and "\<And>ct tg. ae_seal ae (ae_sha256 ae masterKey) iv text = (ct, tg) \<Longrightarrow>
           length tg = 16 \<and> ae_open ae (ae_sha256 ae masterKey) iv ct tg = Inr text"
  shows "decrypt ae (encrypt ae iv text masterKey) masterKey = Inr text"
proof -
  obtain ct tg where s: "ae_seal ae (ae_sha256 ae masterKey) iv text = (ct, tg)" by fastforce
  have e: "encrypt ae iv text masterKey = hex (iv @ ct @ tg)"
    by (simp add: encrypt_def s hex_append)
  have "hex (iv @ ct @ tg) \<noteq> ''''"
    using assms(1) length_hex [of "iv @ ct @ tg"] by auto
  moreover have "unhex (hex (iv @ ct @ tg)) = iv @ ct @ tg" by (rule unhex_hex)
  ultimately show ?thesis
    using assms(2) frame_slices [OF assms(1), of tg ct] assms(3) [OF s]
    by (simp add: decrypt_def e Let_def IV_LENGTH_def TAG_LENGTH_def)
qed

lemma first_nonblank_not_blank: "first_nonblank xs = Some k \<Longrightarrow> k \<noteq> ''''"
  by (induction xs rule: first_nonblank.induct) (auto split: if_splits)

text \<open>
  A stored KYC payload decrypts to the payload that was stored, under the documented behaviour of
  AES-GCM (16-byte tags, deciphering inverts enciphering under the same key and vector) and of JSON
  (parsing inverts printing), whatever the key source; with no key configured both directions refuse.
\<close>

theorem payload_roundtrip:
  assumes "length iv = 12"
    and "\<And>key text ct tg. ae_seal (ke_aes ke) key iv text = (ct, tg) \<Longrightarrow>
           length tg = 16 \<and> ae_open (ke_aes ke) key iv ct tg = Inr text"
    and "jc_parse (ke_json ke) (jc_stringify (ke_json ke) (JObj payload)) = Inr (JObj payload)"
  shows "case encryptPayload ke iv payload of
           Inr c \<Rightarrow> decryptPayload ke c = Inr payload
         | Inl e \<Rightarrow> \<not> ke_isConfigured ke \<and> (\<forall>c. decryptPayload ke c = Inl e)"
proof (cases "resolveKey ke")
  case (Some key)
  define c where "c = encrypt (ke_aes ke) iv (jc_stringify (ke_json ke) (JObj payload)) key"
  have key: "key \<noteq> ''''" using Some first_nonblank_not_blank by (auto simp: resolveKey_def)
  have d: "decrypt (ke_aes ke) c key = Inr (jc_stringify (ke_json ke) (JObj payload))"
    unfolding c_def by (rule decrypt_encrypt [OF assms(1) key assms(2)])
  moreover have "c \<noteq> ''''" using d by (auto simp: decrypt_def)
  ultimately have "decryptPayload ke c = Inr payload"
    using Some assms(3) by (simp add: decryptPayload_def)
  then show ?thesis by (simp add: encryptPayload_def Some c_def)
qed (simp add: encryptPayload_def decryptPayload_def ke_isConfigured_def)

text \<open>A cipher that shifts nothing and a printer of one payload satisfy what is assumed.\<close>

theorem payload_roundtrip_witness:
  "let ae = \<lparr>ae_sha256 = utf8, ae_seal = (\<lambda>k iv t. (map (\<lambda>ch. of_nat (code ch)) t, replicate 16 0)),
             ae_open = (\<lambda>k iv ct tg. Inr (map (\<lambda>b. char_of (unat b)) ct))\<rparr>;
       ke = \<lparr>ke_aes = ae, ke_json = \<lparr>jc_stringify = (\<lambda>_. ''{}''), jc_parse = (\<lambda>_. Inr (JObj []))\<rparr>,
             ke_keyOverride = Some ''k'', ke_env = (\<lambda>_. None)\<rparr>
   in \<exists>c. encryptPayload ke (replicate 12 0) [] = Inr c \<and> decryptPayload ke c = Inr []"
proof -
  define ae where "ae = \<lparr>ae_sha256 = utf8,
    ae_seal = (\<lambda>k iv t. (map (\<lambda>ch. of_nat (code ch)) t, replicate 16 0)),
    ae_open = (\<lambda>k iv ct tg. Inr (map (\<lambda>b. char_of (unat b)) ct))\<rparr>"
  define ke where "ke = \<lparr>ke_aes = ae,
    ke_json = \<lparr>jc_stringify = (\<lambda>_. ''{}''), jc_parse = (\<lambda>_. Inr (JObj []))\<rparr>,
    ke_keyOverride = Some ''k'', ke_env = (\<lambda>_. None)\<rparr>"
  have "unat (of_nat (code ch) :: byte) = code ch" for ch
    by (simp add: unat_of_nat take_bit_nat_eq_self)
  then have "length tg = 16 \<and> ae_open (ke_aes ke) key iv ct tg = Inr t"
    if "ae_seal (ke_aes ke) key iv t = (ct, tg)" for key iv t ct tg
    using that by (auto simp: ke_def ae_def o_def)
  then have r: "case encryptPayload ke (replicate 12 0) [] of
      Inr c \<Rightarrow> decryptPayload ke c = Inr []
    | Inl e \<Rightarrow> \<not> ke_isConfigured ke \<and> (\<forall>c. decryptPayload ke c = Inl e)"
    by (intro payload_roundtrip) (auto simp: ke_def)
  have "ke_isConfigured ke"
    by (simp add: ke_isConfigured_def resolveKey_def ke_def js_trim_def is_space_def)
  with r show ?thesis
    unfolding Let_def ae_def [symmetric] ke_def [symmetric] by (auto split: sum.splits)
qed

end
