(* ===== verification/KycTypes.thy ===== *)
theory KycTypes
  imports Encryption
begin

text \<open>
  \<open>src/services/kycTypes.ts\<close>: the vocabulary of SEP-12 customers: statuses and their transitions, the
  required fields and their descriptions, accounts and memos.  Untrusted values are JSON values, field
  maps are JSON objects.

  The lemmas: the transition relation is transitive with exactly two terminal statuses, and the
  readers of untrusted values accept exactly what the printers produce.
\<close>

section \<open>Statuses\<close>

datatype sep12_status = PROCESSING | NEEDS_INFO | ACCEPTED | REJECTED

definition SEP12_STATUSES :: "sep12_status list" where
  "SEP12_STATUSES = [PROCESSING, NEEDS_INFO, ACCEPTED, REJECTED]"

fun status_text :: "sep12_status \<Rightarrow> string" where
  "status_text PROCESSING = ''PROCESSING''"
| "status_text NEEDS_INFO = ''NEEDS_INFO''"
| "status_text ACCEPTED = ''ACCEPTED''"
| "status_text REJECTED = ''REJECTED''"

fun SEP12_STATUS_TRANSITIONS :: "sep12_status \<Rightarrow> sep12_status list" where
  "SEP12_STATUS_TRANSITIONS PROCESSING = [ACCEPTED, NEEDS_INFO, REJECTED]"
| "SEP12_STATUS_TRANSITIONS NEEDS_INFO = [PROCESSING, ACCEPTED, REJECTED]"
| "SEP12_STATUS_TRANSITIONS ACCEPTED = []"
| "SEP12_STATUS_TRANSITIONS REJECTED = []"

text \<open>The status an untrusted value is, if it is one.\<close>

definition isSep12Status :: "json \<Rightarrow> sep12_status option" where
  "isSep12Status v =
     (case v of
        JStr s \<Rightarrow> find (\<lambda>st. status_text st = s) SEP12_STATUSES
      | _ \<Rightarrow> None)"

definition asSep12Status :: "json \<Rightarrow> sep12_status" where
  "asSep12Status v = (case isSep12Status v of Some st \<Rightarrow> st | None \<Rightarrow> PROCESSING)"

definition canTransition :: "sep12_status \<Rightarrow> sep12_status \<Rightarrow> bool" where
  "canTransition frm to = (if frm = to then True else to \<in> set (SEP12_STATUS_TRANSITIONS frm))"

definition applyTransition :: "sep12_status \<Rightarrow> sep12_status \<Rightarrow> kyc_error + sep12_status" where
  "applyTransition frm to =
     (if canTransition frm to then Inr to
      else Inl (Sep12TransitionError
        (''Invalid customer status transition: '' @ status_text frm @ '' -> '' @ status_text to)))"

definition terminal :: "sep12_status \<Rightarrow> bool" where
  "terminal st \<longleftrightarrow> st = ACCEPTED \<or> st = REJECTED"

lemma status_text_inj: "status_text a = status_text b \<Longrightarrow> a = b"
  by (cases a; cases b) simp_all

lemma asSep12Status_text [simp]: "asSep12Status (JStr (status_text st)) = st"
  by (cases st) (simp_all add: asSep12Status_def isSep12Status_def SEP12_STATUSES_def)

lemma canTransition_iff: "canTransition frm to \<longleftrightarrow> frm = to \<or> \<not> terminal frm"
  by (cases frm; cases to) (simp_all add: canTransition_def terminal_def)

lemma canTransition_refl [simp]: "canTransition st st"
  by (simp add: canTransition_iff)

lemma canTransition_trans: "canTransition a b \<Longrightarrow> canTransition b c \<Longrightarrow> canTransition a c"
  by (auto simp: canTransition_iff)

section \<open>Fields\<close>

definition REQUIRED_KYC_FIELDS :: "string list" where
  "REQUIRED_KYC_FIELDS = [''first_name'', ''last_name'', ''email_address'', ''id_type'', ''id_number'']"

definition spec_json :: "string \<Rightarrow> string \<Rightarrow> (string \<times> json) list \<Rightarrow> json" where
  "spec_json typ description rest = JObj ([(''type'', JStr typ), (''description'', JStr description)] @ rest)"

definition DEFAULT_FIELD_SPECS :: "(string \<times> json) list" where
  "DEFAULT_FIELD_SPECS =
     [(''first_name'', spec_json ''string'' ''Customer's first name'' []),
      (''last_name'', spec_json ''string'' ''Customer's last name'' []),
      (''email_address'', spec_json ''string'' ''Customer's email address'' []),
      (''id_type'', spec_json ''string'' ''Government-issued identification document type''
         [(''choices'', JArr [JStr ''passport'', JStr ''drivers_license'', JStr ''national_id''])]),
      (''id_number'', spec_json ''string'' ''Government-issued identification document number'' []),
      (''date_of_birth'', spec_json ''date'' ''Customer's date of birth (YYYY-MM-DD)''
         [(''optional'', JBool True)]),
      (''address'', spec_json ''string'' ''Customer's residential address'' [])]"

definition SEP12_RESERVED_KEYS :: "string list" where
  "SEP12_RESERVED_KEYS =
     [''id'', ''account'', ''memo'', ''memo_type'', ''type'', ''fields'', ''provided_fields'', ''status'',
      ''message'']"

definition label_part :: "string \<Rightarrow> string" where
  "label_part part = (case part of [] \<Rightarrow> part | c # cs \<Rightarrow> upper_char c # cs)"

definition formatFieldLabel :: "string \<Rightarrow> string" where
  "formatFieldLabel name = join_with '' '' (map label_part (split_at (CHR ''_'') name))"

definition field_spec :: "string \<Rightarrow> json" where
  "field_spec name =
     (case jm_get DEFAULT_FIELD_SPECS name of
        Some spec \<Rightarrow> spec
      | None \<Rightarrow> spec_json ''string'' (formatFieldLabel name) [])"

definition fieldSpecsFor :: "string list \<Rightarrow> (string \<times> json) list" where
  "fieldSpecsFor names = fold (\<lambda>name specs. jm_set name (field_spec name) specs) names []"

definition blank_value :: "json \<Rightarrow> bool" where
  "blank_value v = (case v of JUndefined \<Rightarrow> True | JNull \<Rightarrow> True | JStr s \<Rightarrow> js_trim s = '''' | _ \<Rightarrow> False)"

definition missingRequiredFields :: "(string \<times> json) list \<Rightarrow> string list" where
  "missingRequiredFields payload = filter (\<lambda>name. blank_value (js_prop payload name)) REQUIRED_KYC_FIELDS"

lemma fieldSpecsFor_keys: "set (jm_keys (fieldSpecsFor names)) = set names"
proof -
  have "set (jm_keys (fold (\<lambda>name specs. jm_set name (field_spec name) specs) names specs)) =
          set (jm_keys specs) \<union> set names" for specs
  proof (induction names arbitrary: specs)
    case (Cons n names)
    show ?case unfolding fold_simps comp_apply Cons.IH jm_keys_set by auto
  qed simp
  then show ?thesis by (simp add: fieldSpecsFor_def)
qed

lemma fieldSpecsFor_Nil_iff: "fieldSpecsFor names = [] \<longleftrightarrow> names = []"
  using fieldSpecsFor_keys [of names] by (cases "fieldSpecsFor names") auto

section \<open>Accounts and memos\<close>

datatype memo_type = MemoId | MemoText | MemoHash

fun memo_type_text :: "memo_type \<Rightarrow> string" where
  "memo_type_text MemoId = ''id''"
| "memo_type_text MemoText = ''text''"
| "memo_type_text MemoHash = ''hash''"

definition MEMO_TYPES :: "memo_type list" where
  "MEMO_TYPES = [MemoId, MemoText, MemoHash]"

definition is_base32 :: "char \<Rightarrow> bool" where
  "is_base32 c \<longleftrightarrow> is_upper c \<or> 50 \<le> code c \<and> code c \<le> 55"

definition isValidStellarAccount :: "string \<Rightarrow> bool" where
  "isValidStellarAccount s =
     (case s of
        [] \<Rightarrow> False
      | c # cs \<Rightarrow>
          c = CHR ''G'' \<and> length cs = 55 \<and> list_all is_base32 cs
          \<or> c = CHR ''M'' \<and> length cs = 68 \<and> list_all is_base32 cs)"

definition parseMemoType :: "json \<Rightarrow> kyc_error + memo_type option" where
  "parseMemoType v =
     (if v = JUndefined \<or> v = JNull \<or> v = JStr '''' then Inr None
      else case v of
             JStr s \<Rightarrow>
               (case find (\<lambda>mt. memo_type_text mt = toLowerCase s) MEMO_TYPES of
                  Some mt \<Rightarrow> Inr (Some mt)
                | None \<Rightarrow> Inl (Sep12ValidationError
                    (squote ''memo_type'' @ '' must be one of: '' @ join_with '', '' (map memo_type_text MEMO_TYPES))))
           | _ \<Rightarrow> Inl (Sep12ValidationError (squote ''memo_type'' @ '' must be a string'')))"

definition is_hex :: "char \<Rightarrow> bool" where
  "is_hex c \<longleftrightarrow> hex_value c \<noteq> None"

definition validateMemo :: "string \<Rightarrow> memo_type \<Rightarrow> kyc_error + unit" where
  "validateMemo memo memoType =
     (if memoType = MemoId \<and> \<not> (memo \<noteq> [] \<and> list_all is_digit memo)
      then Inl (Sep12ValidationError
        (squote ''memo'' @ '' must be a numeric string when '' @ squote ''memo_type'' @ '' is '' @ squote ''id''))
      else if memoType = MemoHash \<and> \<not> (length memo = 64 \<and> list_all is_hex memo)
      then Inl (Sep12ValidationError
        (squote ''memo'' @ '' must be a 64-character hex string when '' @ squote ''memo_type'' @ '' is '' @ squote ''hash''))
      else if memoType = MemoText \<and> length (utf8 memo) > 28
      then Inl (Sep12ValidationError
        (squote ''memo'' @ '' must be at most 28 bytes when '' @ squote ''memo_type'' @ '' is '' @ squote ''text''))
      else Inr ())"

lemma memo_type_text_cases: "parseMemoType (JStr (memo_type_text mt)) = Inr (Some mt)"
  by (cases mt) (simp_all add: parseMemoType_def MEMO_TYPES_def toLowerCase_def lower_char_def is_upper_def)

definition valid_memo :: "string \<Rightarrow> memo_type \<Rightarrow> bool" where
  "valid_memo memo mt =
     (case mt of
        MemoId \<Rightarrow> memo \<noteq> [] \<and> list_all is_digit memo
      | MemoHash \<Rightarrow> length memo = 64 \<and> list_all is_hex memo
      | MemoText \<Rightarrow> length (utf8 memo) \<le> 28)"

lemma validateMemo_iff: "validateMemo memo mt = Inr () \<longleftrightarrow> valid_memo memo mt"
  by (cases mt) (auto simp: validateMemo_def valid_memo_def)

lemma validateMemo_error: "validateMemo memo mt = Inl e \<Longrightarrow> \<exists>m. e = Sep12ValidationError m"
  by (auto simp: validateMemo_def split: if_splits)

end
