(* ===== verification/KycStore.thy ===== *)
theory KycStore
  imports KycTypes
begin

text \<open>
  \<open>src/services/kycStore.ts\<close>: the rows of the customer table, the store interface the service calls and
  its Prisma implementation, which forwards to a delegate.  The interface is a record of functions over
  a database state; the locale \<open>kyc_store_laws\<close> states what the service relies on, as a partial map from
  identifiers to rows.  It is interpreted on \<open>PrismaKycStore\<close> over the in-memory delegate the
  repository's own tests use (\<open>test/sep12Kyc.jest.test.ts\<close>).
\<close>

section \<open>Rows\<close>

record kyc_row =
  kr_id :: string
  kr_account :: "string option"
  kr_memo :: "string option"
  kr_memoType :: "string option"
  kr_status :: string
  kr_message :: "string option"
  kr_encryptedPayload :: string
  kr_fieldsRequested :: json
  kr_anchorReference :: "string option"
  kr_provider :: "string option"
  kr_createdAt :: int
  kr_updatedAt :: int

record kyc_create =
  kc_id :: string
  kc_account :: "string option"
  kc_memo :: "string option"
  kc_memoType :: "string option"
  kc_status :: sep12_status
  kc_message :: "string option"
  kc_encryptedPayload :: string
  kc_fieldsRequested :: "(string \<times> json) list option"
  kc_anchorReference :: "string option"
  kc_provider :: "string option"

record kyc_update =
  ku_status :: sep12_status
  ku_message :: "string option"
  ku_encryptedPayload :: string
  ku_fieldsRequested :: "(string \<times> json) list option"
  ku_anchorReference :: "string option"
  ku_provider :: "string option"

definition fields_json :: "(string \<times> json) list option \<Rightarrow> json" where
  "fields_json f = (case f of None \<Rightarrow> JNull | Some obj \<Rightarrow> JObj obj)"

definition created_row :: "int \<Rightarrow> kyc_create \<Rightarrow> kyc_row" where
  "created_row now d =
     \<lparr>kr_id = kc_id d, kr_account = kc_account d, kr_memo = kc_memo d, kr_memoType = kc_memoType d,
      kr_status = status_text (kc_status d), kr_message = kc_message d,
      kr_encryptedPayload = kc_encryptedPayload d, kr_fieldsRequested = fields_json (kc_fieldsRequested d),
      kr_anchorReference = kc_anchorReference d, kr_provider = kc_provider d,
      kr_createdAt = now, kr_updatedAt = now\<rparr>"

definition updated_row :: "int \<Rightarrow> kyc_update \<Rightarrow> kyc_row \<Rightarrow> kyc_row" where
  "updated_row now d r =
     r\<lparr>kr_status := status_text (ku_status d), kr_message := ku_message d,
       kr_encryptedPayload := ku_encryptedPayload d, kr_fieldsRequested := fields_json (ku_fieldsRequested d),
       kr_anchorReference := ku_anchorReference d, kr_provider := ku_provider d, kr_updatedAt := now\<rparr>"

section \<open>The store interface\<close>

record 's kyc_store =
  ks_findById :: "string \<Rightarrow> 's \<Rightarrow> kyc_row option"
  ks_findByIdentity :: "string \<Rightarrow> string option \<Rightarrow> string option \<Rightarrow> 's \<Rightarrow> kyc_row option"
  ks_create :: "kyc_create \<Rightarrow> 's \<Rightarrow> (kyc_error + kyc_row) \<times> 's"
  ks_update :: "string \<Rightarrow> kyc_update \<Rightarrow> 's \<Rightarrow> (kyc_error + kyc_row) \<times> 's"
  ks_delete :: "string \<Rightarrow> 's \<Rightarrow> (kyc_error + kyc_row) \<times> 's"

text \<open>The delegate of the database client.\<close>

record 's kyc_delegate =
  kd_findUnique :: "string \<Rightarrow> 's \<Rightarrow> kyc_row option"
  kd_findFirst :: "string \<Rightarrow> string option \<Rightarrow> string option \<Rightarrow> 's \<Rightarrow> kyc_row option"
  kd_create :: "kyc_create \<Rightarrow> 's \<Rightarrow> (kyc_error + kyc_row) \<times> 's"
  kd_update :: "string \<Rightarrow> kyc_update \<Rightarrow> 's \<Rightarrow> (kyc_error + kyc_row) \<times> 's"
  kd_delete :: "string \<Rightarrow> 's \<Rightarrow> (kyc_error + kyc_row) \<times> 's"

definition PrismaKycStore :: "'s kyc_delegate \<Rightarrow> 's kyc_store" where
  "PrismaKycStore db =
     \<lparr>ks_findById = kd_findUnique db, ks_findByIdentity = kd_findFirst db, ks_create = kd_create db,
      ks_update = kd_update db, ks_delete = kd_delete db\<rparr>"

text \<open>Rows up to their time stamps, which the database sets.\<close>

definition untimed :: "kyc_row \<Rightarrow> kyc_row" where
  "untimed r = r\<lparr>kr_createdAt := 0, kr_updatedAt := 0\<rparr>"

definition has_identity :: "string \<Rightarrow> string option \<Rightarrow> string option \<Rightarrow> kyc_row \<Rightarrow> bool" where
  "has_identity account memoType memo r \<longleftrightarrow>
     kr_account r = Some account \<and> kr_memoType r = memoType \<and> kr_memo r = memo"

locale kyc_store_laws =
  fixes S :: "'s kyc_store"
    and rows :: "'s \<Rightarrow> string \<Rightarrow> kyc_row option"
    and sound :: "'s \<Rightarrow> bool"
  assumes find_by_id: "sound s \<Longrightarrow> ks_findById S i s = rows s i"
    and row_id: "sound s \<Longrightarrow> rows s i = Some r \<Longrightarrow> kr_id r = i"
    and find_identity_Some:
      "sound s \<Longrightarrow> ks_findByIdentity S a t m s = Some r \<Longrightarrow>
         rows s (kr_id r) = Some r \<and> has_identity a t m r"
    and find_identity_None:
      "sound s \<Longrightarrow> ks_findByIdentity S a t m s = None \<Longrightarrow> rows s i = Some r \<Longrightarrow> \<not> has_identity a t m r"
    and update_row:
      "sound s \<Longrightarrow> rows s i = Some r \<Longrightarrow>
         \<exists>r' s'. ks_update S i d s = (Inr r', s') \<and> untimed r' = untimed (updated_row 0 d r) \<and>
           rows s' = (rows s)(i \<mapsto> r') \<and> sound s'"
    and create_row:
      "sound s \<Longrightarrow> rows s (kc_id c) = None \<Longrightarrow>
         \<exists>r' s'. ks_create S c s = (Inr r', s') \<and> untimed r' = untimed (created_row 0 c) \<and>
           rows s' = (rows s)(kc_id c \<mapsto> r') \<and> sound s'"
    and delete_row:
      "sound s \<Longrightarrow> rows s i = Some r \<Longrightarrow>
         \<exists>s'. ks_delete S i s = (Inr r, s') \<and> rows s' = (rows s)(i := None) \<and> sound s'"
begin

lemma found_by_id: "sound s \<Longrightarrow> ks_findById S i s = Some r \<Longrightarrow> rows s i = Some r \<and> kr_id r = i"
  using find_by_id row_id by metis

lemma untimed_fields:
  assumes "untimed r = untimed r'"
  shows "kr_id r = kr_id r'" "kr_account r = kr_account r'" "kr_memo r = kr_memo r'"
    "kr_memoType r = kr_memoType r'" "kr_status r = kr_status r'" "kr_message r = kr_message r'"
    "kr_encryptedPayload r = kr_encryptedPayload r'" "kr_fieldsRequested r = kr_fieldsRequested r'"
    "kr_anchorReference r = kr_anchorReference r'" "kr_provider r = kr_provider r'"
  using assms by (cases r; cases r'; simp add: untimed_def)+

lemma updated_status:
  assumes "sound s" "rows s i = Some r"
  obtains r' s' where "ks_update S i d s = (Inr r', s')" "kr_status r' = status_text (ku_status d)"
    "kr_id r' = i" "untimed r' = untimed (updated_row 0 d r)" "rows s' = (rows s)(i \<mapsto> r')" "sound s'"
proof -
  obtain r' s' where u: "ks_update S i d s = (Inr r', s')" "untimed r' = untimed (updated_row 0 d r)"
      "rows s' = (rows s)(i \<mapsto> r')" "sound s'"
    using update_row [OF assms, of d] by blast
  have "kr_status r' = status_text (ku_status d)" "kr_id r' = kr_id r"
    using untimed_fields [OF u(2)] by (simp_all add: updated_row_def)
  with u row_id [OF assms] show thesis using that by blast
qed

end

section \<open>The in-memory delegate\<close>

record mem_db =
  mem_rows :: "(string \<times> kyc_row) list"
  mem_now :: int

definition mem_findUnique :: "string \<Rightarrow> mem_db \<Rightarrow> kyc_row option" where
  "mem_findUnique i db = jm_get (mem_rows db) i"

definition mem_findFirst :: "string \<Rightarrow> string option \<Rightarrow> string option \<Rightarrow> mem_db \<Rightarrow> kyc_row option" where
  "mem_findFirst account memoType memo db =
     find (has_identity account memoType memo) (map snd (mem_rows db))"

definition mem_create :: "kyc_create \<Rightarrow> mem_db \<Rightarrow> (kyc_error + kyc_row) \<times> mem_db" where
  "mem_create d db =
     (let row = created_row (mem_now db) d
      in (Inr row, db\<lparr>mem_rows := jm_set (kr_id row) row (mem_rows db)\<rparr>))"

definition mem_update :: "string \<Rightarrow> kyc_update \<Rightarrow> mem_db \<Rightarrow> (kyc_error + kyc_row) \<times> mem_db" where
  "mem_update i d db =
     (case jm_get (mem_rows db) i of
        None \<Rightarrow> (Inl (KycStoreError ''row not found''), db)
      | Some current \<Rightarrow>
          (let row = updated_row (mem_now db) d current
           in (Inr row, db\<lparr>mem_rows := jm_set (kr_id row) row (mem_rows db)\<rparr>)))"

definition mem_delete :: "string \<Rightarrow> mem_db \<Rightarrow> (kyc_error + kyc_row) \<times> mem_db" where
  "mem_delete i db =
     (case jm_get (mem_rows db) i of
        None \<Rightarrow> (Inl (KycStoreError ''row not found''), db)
      | Some current \<Rightarrow> (Inr current, db\<lparr>mem_rows := jm_delete i (mem_rows db)\<rparr>))"

definition createDb :: "mem_db kyc_delegate" where
  "createDb =
     \<lparr>kd_findUnique = mem_findUnique, kd_findFirst = mem_findFirst, kd_create = mem_create,
      kd_update = mem_update, kd_delete = mem_delete\<rparr>"

definition mem_sound :: "mem_db \<Rightarrow> bool" where
  "mem_sound db \<longleftrightarrow> distinct (jm_keys (mem_rows db)) \<and> (\<forall>(i, r) \<in> set (mem_rows db). kr_id r = i)"

lemma mem_sound_set: "mem_sound db \<Longrightarrow> kr_id r = i \<Longrightarrow> mem_sound (db\<lparr>mem_rows := jm_set i r (mem_rows db)\<rparr>)"
  by (auto simp: mem_sound_def jm_distinct_set dest: jm_set_entries)

lemma mem_sound_delete: "mem_sound db \<Longrightarrow> mem_sound (db\<lparr>mem_rows := jm_delete i (mem_rows db)\<rparr>)"
  using jm_distinct_delete [of "mem_rows db" i] by (auto simp: mem_sound_def jm_delete_def)

lemma mem_sound_row: "mem_sound db \<Longrightarrow> jm_get (mem_rows db) i = Some r \<Longrightarrow> kr_id r = i"
  by (auto simp: mem_sound_def dest!: map_of_SomeD)

lemma mem_findFirst_Some:
  assumes "mem_sound db" "mem_findFirst a t m db = Some r"
  shows "jm_get (mem_rows db) (kr_id r) = Some r \<and> has_identity a t m r"
proof -
  have "r \<in> snd ` set (mem_rows db)" "has_identity a t m r"
    using assms(2) by (auto simp: mem_findFirst_def find_Some_iff)
  then show ?thesis using assms(1) by (auto simp: mem_sound_def)
qed

lemma mem_findFirst_None:
  "mem_findFirst a t m db = None \<Longrightarrow> jm_get (mem_rows db) i = Some r \<Longrightarrow> \<not> has_identity a t m r"
  by (force simp: mem_findFirst_def find_None_iff dest: map_of_SomeD)

interpretation memk: kyc_store_laws "PrismaKycStore createDb" "\<lambda>db. jm_get (mem_rows db)" mem_sound
proof (unfold_locales, goal_cases)
  case (3 s a t m r)
  then show ?case using mem_findFirst_Some by (simp add: PrismaKycStore_def createDb_def)
next
  case (4 s a t m i r)
  then show ?case using mem_findFirst_None by (simp add: PrismaKycStore_def createDb_def)
next
  case (5 s i r d)
  have "kr_id (updated_row (mem_now s) d r) = i"
    using mem_sound_row [OF 5] by (simp add: updated_row_def)
  then show ?case
    using 5 mem_sound_set [OF 5(1), of "updated_row (mem_now s) d r" i]
    by (simp add: PrismaKycStore_def createDb_def mem_update_def Let_def untimed_def updated_row_def)
next
  case (6 s d)
  have "kr_id (created_row (mem_now s) d) = kc_id d" by (simp add: created_row_def)
  then show ?case
    using 6 mem_sound_set [OF 6(1), of "created_row (mem_now s) d"]
    by (simp add: PrismaKycStore_def createDb_def mem_create_def Let_def untimed_def created_row_def)
next
  case (7 s i r)
  then show ?case
    using mem_sound_delete [of s i] by (simp add: PrismaKycStore_def createDb_def mem_delete_def)
qed (simp_all add: PrismaKycStore_def createDb_def mem_findUnique_def mem_sound_row)

end
