(* ===== verification/KycService.thy ===== *)
theory KycService
  imports KycStore
begin

text \<open>
  \<open>src/services/kycService.ts\<close> and \<open>src/services/kycAnchorClient.ts\<close>: the SEP-12 customer operations.
  The service is parametric in its store; the encryption, the random vector and identifier and the
  anchor are the fields of an environment record.  \<open>putCustomer\<close> awaits the store and the anchor: it is
  the composition of \<open>put_prepare\<close> (parse, find, merge, encrypt), \<open>put_decide\<close> (the anchor's verdict)
  and \<open>put_commit\<close> (negotiate the status and write), so that other requests can run in between.

  The lemmas, proved once from the laws of the store: an operation run on its own never takes back an
  accepted or rejected decision, what \<open>putCustomer\<close> stores and returns, what a validated request looks
  like; and that a request which waits for the anchor can overwrite a decision made meanwhile.
\<close>

section \<open>The anchor\<close>

record anchor_submission =
  as_reference :: string
  as_account :: "string option"
  as_memo :: "string option"
  as_memoType :: "string option"
  as_encryptedPayload :: string
  as_fields :: "string list"

record anchor_decision =
  ad_status :: sep12_status
  ad_message :: "string option"
  ad_fields :: "(string \<times> json) list option"
  ad_anchorReference :: "string option"
  ad_provider :: "string option"

datatype fetch_result = FetchFailed string | Response nat bool "json option"

text \<open>\<open>typeof body === "object" && body !== null\<close> also holds of an array, which has none of the names.\<close>

definition body_record :: "json \<Rightarrow> (string \<times> json) list" where
  "body_record body = (case body of JObj obj \<Rightarrow> obj | _ \<Rightarrow> [])"

definition read_decision :: "(string \<times> json) list \<Rightarrow> anchor_decision" where
  "read_decision record =
     \<lparr>ad_status = asSep12Status (js_prop record ''status''),
      ad_message = (case js_prop record ''message'' of JStr m \<Rightarrow> Some m | _ \<Rightarrow> None),
      ad_fields = plain_object (js_prop record ''fields''),
      ad_anchorReference =
        (case js_prop record ''id'' of
           JStr i \<Rightarrow> Some i
         | _ \<Rightarrow> (case js_prop record ''anchor_reference'' of JStr i \<Rightarrow> Some i | _ \<Rightarrow> None)),
      ad_provider = Some ''anchor''\<rparr>"

definition anchor_submit ::
  "string option \<Rightarrow> (string \<Rightarrow> string option) \<Rightarrow> (string \<Rightarrow> anchor_submission \<Rightarrow> fetch_result)
     \<Rightarrow> anchor_submission \<Rightarrow> kyc_error + anchor_decision" where
  "anchor_submit forwardUrl env fetch submission =
     (case first_nonblank [forwardUrl, env ''KYC_ANCHOR_URL''] of
        None \<Rightarrow> Inr \<lparr>ad_status = PROCESSING, ad_message = None, ad_fields = None,
                     ad_anchorReference = None, ad_provider = Some ''local''\<rparr>
      | Some url \<Rightarrow>
          (case fetch url submission of
             FetchFailed m \<Rightarrow> Inl (KycAnchorError
               (''KYC anchor forwarding failed for '' @ as_reference submission @ '': '' @ m))
           | Response status resp_ok body \<Rightarrow>
               if \<not> resp_ok then Inl (KycAnchorError
                 (''KYC anchor forwarding returned HTTP '' @ show_nat status @ '' for '' @ as_reference submission))
               else case body of
                      None \<Rightarrow> Inl (KycAnchorError
                        (''KYC anchor returned a non-JSON response for '' @ as_reference submission))
                    | Some b \<Rightarrow> Inr (read_decision (body_record b))))"

section \<open>Requests\<close>

record put_input =
  pi_id :: "string option"
  pi_account :: "string option"
  pi_memo :: "string option"
  pi_memoType :: "memo_type option"
  pi_fields :: "(string \<times> json) list"

definition parse_text :: "string \<Rightarrow> json \<Rightarrow> kyc_error + string option" where
  "parse_text name v =
     (case v of
        JUndefined \<Rightarrow> Inr None
      | JStr s \<Rightarrow> if js_trim s = '''' then Inl (Sep12ValidationError (squote name @ '' must be a non-empty string''))
                  else Inr (Some (js_trim s))
      | _ \<Rightarrow> Inl (Sep12ValidationError (squote name @ '' must be a non-empty string'')))"

definition parse_account :: "json \<Rightarrow> kyc_error + string option" where
  "parse_account v =
     rbind (parse_text ''account'' v) (\<lambda>a.
       case a of
         Some account \<Rightarrow>
           if isValidStellarAccount account then Inr (Some account)
           else Inl (Sep12ValidationError (squote ''account'' @ '' must be a valid Stellar account id''))
       | None \<Rightarrow> Inr None)"

definition parse_memo :: "json \<Rightarrow> kyc_error + string option" where
  "parse_memo v =
     (if v = JUndefined \<or> v = JNull \<or> v = JStr '''' then Inr None
      else case v of
             JStr s \<Rightarrow> Inr (Some (js_trim s))
           | _ \<Rightarrow> Inl (Sep12ValidationError (squote ''memo'' @ '' must be a string'')))"

definition check_memo :: "string option \<Rightarrow> memo_type option \<Rightarrow> kyc_error + unit" where
  "check_memo memo memoType =
     (case (memo, memoType) of
        (Some m, None) \<Rightarrow> Inl (Sep12ValidationError
           (squote ''memo_type'' @ '' is required when '' @ squote ''memo'' @ '' is provided''))
      | (None, Some t) \<Rightarrow> Inl (Sep12ValidationError
           (squote ''memo'' @ '' is required when '' @ squote ''memo_type'' @ '' is provided''))
      | (Some m, Some t) \<Rightarrow> validateMemo m t
      | (None, None) \<Rightarrow> Inr ())"

definition customer_fields :: "(string \<times> json) list \<Rightarrow> (string \<times> json) list" where
  "customer_fields record = filter (\<lambda>p. fst p \<notin> set SEP12_RESERVED_KEYS) record"

definition parsePutBody :: "json \<Rightarrow> kyc_error + put_input" where
  "parsePutBody body =
     (case plain_object body of
        None \<Rightarrow> Inl (Sep12ValidationError ''Request body must be a JSON object'')
      | Some record \<Rightarrow>
          rbind (parse_text ''id'' (js_prop record ''id'')) (\<lambda>i.
          rbind (parse_account (js_prop record ''account'')) (\<lambda>account.
          if i = None \<and> account = None
          then Inl (Sep12ValidationError
            (''Either '' @ squote ''id'' @ '' or '' @ squote ''account'' @
             '' must be supplied to create or update a customer''))
          else
          rbind (parseMemoType (js_prop record ''memo_type'')) (\<lambda>memoType.
          rbind (parse_memo (js_prop record ''memo'')) (\<lambda>memo.
          rbind (check_memo memo memoType) (\<lambda>_.
          Inr \<lparr>pi_id = i, pi_account = account, pi_memo = memo, pi_memoType = memoType,
               pi_fields = customer_fields record\<rparr>))))))"

section \<open>The service\<close>

record kyc_env =
  kv_encryption :: kyc_encryption
  kv_iv :: bytes
  kv_idFactory :: string
  kv_anchor :: "anchor_submission \<Rightarrow> kyc_error + anchor_decision"

definition negotiateStatus :: "sep12_status \<Rightarrow> sep12_status \<Rightarrow> sep12_status" where
  "negotiateStatus current desired =
     (if desired = current then current
      else if canTransition current desired then desired else current)"

definition asFieldsOrNull :: "json \<Rightarrow> (string \<times> json) list option" where
  "asFieldsOrNull v = plain_object v"

definition provided_entry :: "string \<Rightarrow> json" where
  "provided_entry key =
     (let spec = (case jm_get DEFAULT_FIELD_SPECS key of
                    Some s \<Rightarrow> s
                  | None \<Rightarrow> spec_json ''string'' key []);
          obj = (case spec of JObj o1 \<Rightarrow> o1 | _ \<Rightarrow> [])
      in JObj [(''type'', js_prop obj ''type''), (''description'', js_prop obj ''description''),
               (''status'', JStr ''provided'')])"

definition buildProvidedFields :: "(string \<times> json) list \<Rightarrow> (string \<times> json) list" where
  "buildProvidedFields payload =
     map (\<lambda>p. (fst p, provided_entry (fst p)))
       (filter (\<lambda>p. snd p \<notin> {JUndefined, JNull, JStr ''''}) (customer_fields payload))"

text \<open>\<open>if (text)\<close> holds of a present, non-empty string.\<close>

definition truthy_text :: "string option \<Rightarrow> string option" where
  "truthy_text m = (case m of Some t \<Rightarrow> if t \<noteq> '''' then Some t else None | None \<Rightarrow> None)"

record customer_response =
  cr_id :: string
  cr_status :: sep12_status
  cr_provided :: "(string \<times> json) list"
  cr_message :: "string option"
  cr_fields :: "(string \<times> json) list option"
  cr_values :: "(string \<times> json) list"

text \<open>
  The response object: its envelope entries and the customer's own values, which never use a reserved
  name and so never replace an envelope entry.
\<close>

definition buildResponse :: "kyc_env \<Rightarrow> kyc_row \<Rightarrow> kyc_error + customer_response" where
  "buildResponse env row =
     rbind (decryptPayload (kv_encryption env) (kr_encryptedPayload row)) (\<lambda>payload.
       let status = asSep12Status (JStr (kr_status row)) in
       Inr \<lparr>cr_id = kr_id row, cr_status = status,
            cr_provided = buildProvidedFields payload,
            cr_message = truthy_text (kr_message row),
            cr_fields = (if status = NEEDS_INFO then asFieldsOrNull (kr_fieldsRequested row) else None),
            cr_values = customer_fields payload\<rparr>)"

record get_params =
  gp_id :: "string option"
  gp_account :: "string option"
  gp_memo :: "string option"
  gp_memoType :: "memo_type option"

definition resolveCustomer :: "'s kyc_store \<Rightarrow> get_params \<Rightarrow> 's \<Rightarrow> kyc_error + kyc_row option" where
  "resolveCustomer S params s =
     (let account_or_error =
        (case gp_account params of
           None \<Rightarrow> Inl (Sep12ValidationError (''Either '' @ squote ''id'' @ '' or '' @ squote ''account'' @ '' must be supplied''))
         | Some account \<Rightarrow>
             if account = '''' then
               Inl (Sep12ValidationError (''Either '' @ squote ''id'' @ '' or '' @ squote ''account'' @ '' must be supplied''))
             else if \<not> isValidStellarAccount account then
               Inl (Sep12ValidationError (squote ''account'' @ '' must be a valid Stellar account id''))
             else
               rbind (check_memo (gp_memo params) (gp_memoType params)) (\<lambda>_.
               Inr (ks_findByIdentity S account (map_option memo_type_text (gp_memoType params))
                      (gp_memo params) s)))
      in case gp_id params of
           Some i \<Rightarrow> if i \<noteq> '''' then Inr (ks_findById S i s) else account_or_error
         | None \<Rightarrow> account_or_error)"

definition getCustomer ::
  "'s kyc_store \<Rightarrow> kyc_env \<Rightarrow> get_params \<Rightarrow> 's \<Rightarrow> kyc_error + customer_response option" where
  "getCustomer S env params s =
     rbind (resolveCustomer S params s) (\<lambda>row.
       case row of
         None \<Rightarrow> Inr None
       | Some r \<Rightarrow> rbind (buildResponse env r) (\<lambda>resp. Inr (Some resp)))"

section \<open>PUT /customer\<close>

text \<open>The locals of \<open>putCustomer\<close> when it reaches the anchor.\<close>

record put_context =
  px_existing :: "kyc_row option"
  px_payload :: "(string \<times> json) list"
  px_encrypted :: string
  px_reference :: string
  px_account :: "string option"
  px_memo :: "string option"
  px_memoType :: "string option"
  px_current :: sep12_status

definition or_else :: "'a option \<Rightarrow> 'a option \<Rightarrow> 'a option" where
  "or_else a b = (case a of Some x \<Rightarrow> Some x | None \<Rightarrow> b)"

definition find_existing :: "'s kyc_store \<Rightarrow> put_input \<Rightarrow> 's \<Rightarrow> kyc_error + kyc_row option" where
  "find_existing S input s =
     (case pi_id input of
        Some i \<Rightarrow>
          (case ks_findById S i s of
             None \<Rightarrow> Inl (Sep12NotFoundError (''Unknown customer id '' @ squote i))
           | Some r \<Rightarrow> Inr (Some r))
      | None \<Rightarrow>
          (case pi_account input of
             None \<Rightarrow> Inr None
           | Some a \<Rightarrow> Inr (ks_findByIdentity S a (map_option memo_type_text (pi_memoType input))
                              (pi_memo input) s)))"

definition put_prepare :: "'s kyc_store \<Rightarrow> kyc_env \<Rightarrow> json \<Rightarrow> 's \<Rightarrow> kyc_error + put_context" where
  "put_prepare S env body s =
     rbind (parsePutBody body) (\<lambda>input.
     rbind (find_existing S input s) (\<lambda>existing.
     rbind (case existing of
              Some r \<Rightarrow> decryptPayload (kv_encryption env) (kr_encryptedPayload r)
            | None \<Rightarrow> Inr []) (\<lambda>currentPayload.
     let mergedPayload = js_spread currentPayload (pi_fields input) in
     rbind (encryptPayload (kv_encryption env) (kv_iv env) mergedPayload) (\<lambda>encrypted.
     Inr \<lparr>px_existing = existing, px_payload = mergedPayload, px_encrypted = encrypted,
          px_reference = (case existing of Some r \<Rightarrow> kr_id r | None \<Rightarrow> kv_idFactory env),
          px_account = or_else (pi_account input) (Option.bind existing kr_account),
          px_memo = or_else (pi_memo input) (Option.bind existing kr_memo),
          px_memoType = or_else (map_option memo_type_text (pi_memoType input))
                          (Option.bind existing kr_memoType),
          px_current = (case existing of Some r \<Rightarrow> asSep12Status (JStr (kr_status r))
                        | None \<Rightarrow> PROCESSING)\<rparr>))))"

record put_plan =
  pp_desired :: sep12_status
  pp_message :: "string option"
  pp_fieldsRequested :: "(string \<times> json) list option"
  pp_anchorReference :: "string option"
  pp_provider :: "string option"

definition put_decide :: "kyc_env \<Rightarrow> put_context \<Rightarrow> kyc_error + put_plan" where
  "put_decide env px =
     (let missing = missingRequiredFields (px_payload px);
          oldReference = Option.bind (px_existing px) kr_anchorReference;
          oldProvider = Option.bind (px_existing px) kr_provider
      in if length missing > 0
         then Inr \<lparr>pp_desired = NEEDS_INFO,
                   pp_message = Some ''Additional customer information is required.'',
                   pp_fieldsRequested = Some (fieldSpecsFor missing),
                   pp_anchorReference = oldReference, pp_provider = oldProvider\<rparr>
         else rbind (kv_anchor env
                \<lparr>as_reference = px_reference px, as_account = px_account px, as_memo = px_memo px,
                 as_memoType = px_memoType px, as_encryptedPayload = px_encrypted px,
                 as_fields = jm_keys (px_payload px)\<rparr>) (\<lambda>decision.
              Inr \<lparr>pp_desired = ad_status decision, pp_message = ad_message decision,
                   pp_fieldsRequested = None,
                   pp_anchorReference = or_else (ad_anchorReference decision) oldReference,
                   pp_provider = or_else (ad_provider decision) oldProvider\<rparr>))"

record put_customer_result =
  pr_id :: string
  pr_status :: sep12_status
  pr_message :: "string option"
  pr_fields :: "(string \<times> json) list option"

definition put_commit ::
  "'s kyc_store \<Rightarrow> put_context \<Rightarrow> put_plan \<Rightarrow> 's \<Rightarrow> (kyc_error + put_customer_result) \<times> 's" where
  "put_commit S px pp s =
     (let nextStatus = negotiateStatus (px_current px) (pp_desired pp);
          (row, s') =
            (case px_existing px of
               Some r \<Rightarrow> ks_update S (kr_id r)
                 \<lparr>ku_status = nextStatus, ku_message = pp_message pp,
                  ku_encryptedPayload = px_encrypted px, ku_fieldsRequested = pp_fieldsRequested pp,
                  ku_anchorReference = pp_anchorReference pp, ku_provider = pp_provider pp\<rparr> s
             | None \<Rightarrow> ks_create S
                 \<lparr>kc_id = px_reference px, kc_account = px_account px, kc_memo = px_memo px,
                  kc_memoType = px_memoType px, kc_status = nextStatus, kc_message = pp_message pp,
                  kc_encryptedPayload = px_encrypted px, kc_fieldsRequested = pp_fieldsRequested pp,
                  kc_anchorReference = pp_anchorReference pp, kc_provider = pp_provider pp\<rparr> s)
      in (rbind row (\<lambda>r. Inr
            \<lparr>pr_id = kr_id r, pr_status = nextStatus,
             pr_message = truthy_text (pp_message pp),
             pr_fields = (if nextStatus = NEEDS_INFO then pp_fieldsRequested pp else None)\<rparr>), s'))"

definition putCustomer ::
  "'s kyc_store \<Rightarrow> kyc_env \<Rightarrow> json \<Rightarrow> 's \<Rightarrow> (kyc_error + put_customer_result) \<times> 's" where
  "putCustomer S env body s =
     (case rbind (put_prepare S env body s)
             (\<lambda>px. rbind (put_decide env px) (\<lambda>pp. Inr (px, pp))) of
        Inl e \<Rightarrow> (Inl e, s)
      | Inr (px, pp) \<Rightarrow> put_commit S px pp s)"

section \<open>DELETE /customer and status updates\<close>

definition deleteCustomer :: "'s kyc_store \<Rightarrow> string \<Rightarrow> 's \<Rightarrow> (kyc_error + bool) \<times> 's" where
  "deleteCustomer S i s =
     (if i = '''' \<or> js_trim i = ''''
      then (Inl (Sep12ValidationError (squote ''id'' @ '' must be a non-empty string'')), s)
      else case ks_findById S i s of
             None \<Rightarrow> (Inr False, s)
           | Some row \<Rightarrow>
               (let (r, s') = ks_delete S i s in (rbind r (\<lambda>_. Inr True), s')))"

definition updateStatus ::
  "'s kyc_store \<Rightarrow> kyc_env \<Rightarrow> string \<Rightarrow> sep12_status \<Rightarrow> string option \<Rightarrow> 's
     \<Rightarrow> (kyc_error + customer_response option) \<times> 's" where
  "updateStatus S env i status message s =
     (case ks_findById S i s of
        None \<Rightarrow> (Inr None, s)
      | Some row \<Rightarrow>
          (case applyTransition (asSep12Status (JStr (kr_status row))) status of
             Inl e \<Rightarrow> (Inl e, s)
           | Inr nxt \<Rightarrow>
               (let (updated, s') = ks_update S i
                      \<lparr>ku_status = nxt, ku_message = or_else message (kr_message row),
                       ku_encryptedPayload = kr_encryptedPayload row,
                       ku_fieldsRequested = (if nxt = NEEDS_INFO then asFieldsOrNull (kr_fieldsRequested row)
                                             else None),
                       ku_anchorReference = kr_anchorReference row, ku_provider = kr_provider row\<rparr> s
                in (rbind updated (\<lambda>r. rbind (buildResponse env r) (\<lambda>resp. Inr (Some resp))), s'))))"

section \<open>Histories\<close>

datatype kyc_request =
    ReqPut kyc_env json
  | ReqDelete string
  | ReqStatus kyc_env string sep12_status "string option"

fun kyc_step :: "'s kyc_store \<Rightarrow> kyc_request \<Rightarrow> 's \<Rightarrow> 's" where
  "kyc_step S (ReqPut env body) s = snd (putCustomer S env body s)"
| "kyc_step S (ReqDelete i) s = snd (deleteCustomer S i s)"
| "kyc_step S (ReqStatus env i status message) s = snd (updateStatus S env i status message s)"

definition kyc_run :: "'s kyc_store \<Rightarrow> kyc_request list \<Rightarrow> 's \<Rightarrow> 's" where
  "kyc_run S reqs s = fold (kyc_step S) reqs s"

text \<open>The identifier factory gives an identifier that is not in use when it is asked.\<close>

definition fresh_request :: "('s \<Rightarrow> string \<Rightarrow> kyc_row option) \<Rightarrow> 's \<Rightarrow> kyc_request \<Rightarrow> bool" where
  "fresh_request rows s req = (case req of ReqPut env _ \<Rightarrow> rows s (kv_idFactory env) = None | _ \<Rightarrow> True)"

fun fresh_history ::
  "'s kyc_store \<Rightarrow> ('s \<Rightarrow> string \<Rightarrow> kyc_row option) \<Rightarrow> kyc_request list \<Rightarrow> 's \<Rightarrow> bool" where
  "fresh_history S rows [] s = True"
| "fresh_history S rows (req # reqs) s =
     (fresh_request rows s req \<and> fresh_history S rows reqs (kyc_step S req s))"

definition row_status :: "kyc_row \<Rightarrow> sep12_status" where
  "row_status r = asSep12Status (JStr (kr_status r))"

lemma negotiateStatus_can: "canTransition current (negotiateStatus current desired)"
  by (simp add: negotiateStatus_def)

lemma negotiateStatus_free: "\<not> terminal current \<Longrightarrow> negotiateStatus current desired = desired"
  by (simp add: negotiateStatus_def canTransition_iff)

context kyc_store_laws
begin

lemma find_existing_row:
  assumes "sound s" "find_existing S input s = Inr (Some r)"
  shows "rows s (kr_id r) = Some r"
  using assms found_by_id find_identity_Some
  by (auto simp: find_existing_def split: option.splits)

lemma put_prepare_context:
  assumes "sound s" "put_prepare S env body s = Inr px"
  shows "case px_existing px of
           Some r \<Rightarrow> rows s (kr_id r) = Some r \<and> px_current px = row_status r \<and> px_reference px = kr_id r
         | None \<Rightarrow> px_current px = PROCESSING \<and> px_reference px = kv_idFactory env"
  using assms find_existing_row
  by (auto simp: put_prepare_def rbind_eq_Inr Let_def row_status_def split: option.splits)

text \<open>A commit writes one row: the status it had negotiated, under the reference.\<close>

lemma put_commit_row:
  assumes s: "sound s" and old: "\<And>r. px_existing px = Some r \<Longrightarrow> rows s (kr_id r) = Some r0 \<and> px_reference px = kr_id r"
    and new: "px_existing px = None \<Longrightarrow> rows s (px_reference px) = None"
  shows "\<exists>r' res s'. put_commit S px pp s = (Inr res, s') \<and> sound s'
           \<and> rows s' = (rows s)(px_reference px \<mapsto> r') \<and> pr_id res = px_reference px
           \<and> row_status r' = pr_status res \<and> kr_encryptedPayload r' = px_encrypted px
           \<and> kr_message r' = pp_message pp \<and> kr_fieldsRequested r' = fields_json (pp_fieldsRequested pp)
           \<and> kr_id r' = px_reference px
           \<and> pr_status res = negotiateStatus (px_current px) (pp_desired pp)
           \<and> pr_message res = truthy_text (pp_message pp)
           \<and> pr_fields res = (if pr_status res = NEEDS_INFO then pp_fieldsRequested pp else None)"
proof (cases "px_existing px")
  case None
  define d where "d = \<lparr>kc_id = px_reference px, kc_account = px_account px, kc_memo = px_memo px,
    kc_memoType = px_memoType px, kc_status = negotiateStatus (px_current px) (pp_desired pp),
    kc_message = pp_message pp, kc_encryptedPayload = px_encrypted px,
    kc_fieldsRequested = pp_fieldsRequested pp, kc_anchorReference = pp_anchorReference pp,
    kc_provider = pp_provider pp\<rparr>"
  have free: "rows s (kc_id d) = None" using new None by (simp add: d_def)
  obtain r' s' where c: "ks_create S d s = (Inr r', s')" "untimed r' = untimed (created_row 0 d)"
      "rows s' = (rows s)(kc_id d \<mapsto> r')" "sound s'"
    using create_row [OF s free] by blast
  note f = untimed_fields [OF c(2), unfolded created_row_def d_def, simplified]
  show ?thesis
    using c f None by (intro exI [of _ r']) (simp add: put_commit_def d_def Let_def row_status_def)
next
  case (Some r)
  define d where "d = \<lparr>ku_status = negotiateStatus (px_current px) (pp_desired pp),
    ku_message = pp_message pp, ku_encryptedPayload = px_encrypted px,
    ku_fieldsRequested = pp_fieldsRequested pp, ku_anchorReference = pp_anchorReference pp,
    ku_provider = pp_provider pp\<rparr>"
  have r0: "rows s (kr_id r) = Some r0" and ref: "px_reference px = kr_id r" using old Some by auto
  obtain r' s' where u: "ks_update S (kr_id r) d s = (Inr r', s')"
      "kr_status r' = status_text (ku_status d)" "kr_id r' = kr_id r"
      "untimed r' = untimed (updated_row 0 d r0)" "rows s' = (rows s)(kr_id r \<mapsto> r')" "sound s'"
    using updated_status [OF s r0, of d] by metis
  note f = untimed_fields [OF u(4), unfolded updated_row_def d_def, simplified]
  show ?thesis
    using u f Some ref by (intro exI [of _ r']) (simp add: put_commit_def d_def Let_def row_status_def)
qed

lemma putCustomer_commit:
  assumes "sound s" "rows s (kv_idFactory env) = None"
    and "put_prepare S env body s = Inr px" "put_decide env px = Inr pp"
  shows "\<exists>r' res s'. putCustomer S env body s = (Inr res, s') \<and> sound s'
           \<and> rows s' = (rows s)(px_reference px \<mapsto> r') \<and> pr_id res = px_reference px
           \<and> row_status r' = pr_status res \<and> kr_encryptedPayload r' = px_encrypted px
           \<and> kr_message r' = pp_message pp \<and> kr_fieldsRequested r' = fields_json (pp_fieldsRequested pp)
           \<and> kr_id r' = px_reference px
           \<and> pr_status res = negotiateStatus (px_current px) (pp_desired pp)
           \<and> pr_message res = truthy_text (pp_message pp)
           \<and> pr_fields res = (if pr_status res = NEEDS_INFO then pp_fieldsRequested pp else None)"
proof -
  have "putCustomer S env body s = put_commit S px pp s"
    using assms(3,4) by (simp add: putCustomer_def)
  moreover have "rows s (kr_id r) = Some (the (px_existing px)) \<and> px_reference px = kr_id r"
    if "px_existing px = Some r" for r
    using put_prepare_context [OF assms(1,3)] that by simp
  moreover have "rows s (px_reference px) = None" if "px_existing px = None"
    using put_prepare_context [OF assms(1,3)] that assms(2) by simp
  ultimately show ?thesis using put_commit_row [OF assms(1), of px "the (px_existing px)" pp] by simp
qed

lemma put_step:
  assumes "sound s" "rows s (kv_idFactory env) = None" "rows s i = Some r"
  shows "sound (snd (putCustomer S env body s))
       \<and> (\<exists>r'. rows (snd (putCustomer S env body s)) i = Some r' \<and> canTransition (row_status r) (row_status r'))"
proof (cases "rbind (put_prepare S env body s) (\<lambda>px. rbind (put_decide env px) (\<lambda>pp. Inr (px, pp)))")
  case (Inl e)
  then have "snd (putCustomer S env body s) = s" by (simp add: putCustomer_def)
  then show ?thesis using assms by auto
next
  case (Inr pxpp)
  then obtain px pp where p: "put_prepare S env body s = Inr px" "put_decide env px = Inr pp"
    by (auto simp: rbind_eq_Inr)
  obtain r' res s' where c: "putCustomer S env body s = (Inr res, s')" "sound s'"
      "rows s' = (rows s)(px_reference px \<mapsto> r')" "row_status r' = pr_status res"
      "pr_status res = negotiateStatus (px_current px) (pp_desired pp)"
    using putCustomer_commit [OF assms(1,2) p] by metis
  have "px_current px = row_status r" if "i = px_reference px"
    using put_prepare_context [OF assms(1) p(1)] assms(2,3) that by (auto split: option.splits)
  then show ?thesis using c assms(3) negotiateStatus_can by (cases "i = px_reference px") auto
qed

lemma update_step:
  assumes "sound s" "rows s i = Some r"
  shows "sound (snd (updateStatus S env j status message s))
       \<and> (\<exists>r'. rows (snd (updateStatus S env j status message s)) i = Some r'
            \<and> canTransition (row_status r) (row_status r'))"
proof (cases "rows s j")
  case None
  then show ?thesis using assms find_by_id by (auto simp: updateStatus_def)
next
  case (Some row)
  then have f: "ks_findById S j s = Some row" using assms(1) find_by_id by simp
  show ?thesis
  proof (cases "canTransition (row_status row) status")
    case True
    define d where "d = \<lparr>ku_status = status, ku_message = or_else message (kr_message row),
      ku_encryptedPayload = kr_encryptedPayload row,
      ku_fieldsRequested = (if status = NEEDS_INFO then asFieldsOrNull (kr_fieldsRequested row) else None),
      ku_anchorReference = kr_anchorReference row, ku_provider = kr_provider row\<rparr>"
    obtain r' s' where u: "ks_update S j d s = (Inr r', s')" "kr_status r' = status_text (ku_status d)"
        "rows s' = (rows s)(j \<mapsto> r')" "sound s'"
      using updated_status [OF assms(1) Some, of d] by metis
    have "snd (updateStatus S env j status message s) = s'"
      using f True u(1) by (simp add: updateStatus_def applyTransition_def row_status_def d_def)
    moreover have "row_status r' = status" using u(2) by (simp add: row_status_def d_def)
    ultimately show ?thesis using u(3,4) True assms(2) Some by (cases "i = j") auto
  next
    case False
    then have "snd (updateStatus S env j status message s) = s"
      using f by (simp add: updateStatus_def applyTransition_def row_status_def)
    then show ?thesis using assms by auto
  qed
qed

lemma delete_step:
  assumes "sound s" "rows s i = Some r" "i \<noteq> j"
  shows "sound (snd (deleteCustomer S j s)) \<and> rows (snd (deleteCustomer S j s)) i = Some r"
proof (cases "rows s j")
  case None
  then show ?thesis using assms find_by_id by (auto simp: deleteCustomer_def)
next
  case (Some row)
  obtain s' where "ks_delete S j s = (Inr row, s')" "rows s' = (rows s)(j := None)" "sound s'"
    using delete_row [OF assms(1) Some] by blast
  then show ?thesis using assms Some find_by_id by (auto simp: deleteCustomer_def)
qed

lemma kyc_step_status:
  assumes "sound s" "fresh_request rows s req" "rows s i = Some r" "req \<noteq> ReqDelete i"
  shows "sound (kyc_step S req s)
       \<and> (\<exists>r'. rows (kyc_step S req s) i = Some r' \<and> canTransition (row_status r) (row_status r'))"
proof (cases req)
  case (ReqDelete j)
  then show ?thesis using delete_step [OF assms(1,3), of j] assms(4) by auto
qed (use assms put_step update_step in \<open>auto simp: fresh_request_def\<close>)

lemma kyc_run_status:
  "sound s \<Longrightarrow> fresh_history S rows reqs s \<Longrightarrow> rows s i = Some r \<Longrightarrow> ReqDelete i \<notin> set reqs \<Longrightarrow>
     \<exists>r'. rows (kyc_run S reqs s) i = Some r' \<and> canTransition (row_status r) (row_status r')"
proof (induction reqs arbitrary: s r)
  case (Cons req reqs)
  obtain r1 where r1: "sound (kyc_step S req s)" "rows (kyc_step S req s) i = Some r1"
      "canTransition (row_status r) (row_status r1)"
    using kyc_step_status [of s req i r] Cons.prems by auto
  obtain r' where "rows (kyc_run S reqs (kyc_step S req s)) i = Some r'"
      "canTransition (row_status r1) (row_status r')"
    using Cons.IH [OF r1(1) _ r1(2)] Cons.prems by auto
  then show ?case using r1(3) canTransition_trans by (auto simp: kyc_run_def)
qed (auto simp: kyc_run_def)

end

section \<open>Decisions\<close>

text \<open>
  C4. Decisions are final: along any history of complete requests (puts, deletions of other customers,
  status updates, whatever the anchor answers and whichever of them fail), a customer that is not
  deleted only moves along permitted transitions, so an accepted or rejected customer stays accepted
  or rejected.  It holds for every store that satisfies the laws, Prisma's delegate included.
\<close>

theorem decisions_are_final:
  assumes "kyc_store_laws S rows sound" "sound s" "rows s i = Some r"
    and "fresh_history S rows reqs s" "ReqDelete i \<notin> set reqs"
  shows "\<exists>r'. rows (kyc_run S reqs s) i = Some r' \<and> canTransition (row_status r) (row_status r')
           \<and> (terminal (row_status r) \<longrightarrow> row_status r' = row_status r)"
proof -
  obtain r' where "rows (kyc_run S reqs s) i = Some r'" "canTransition (row_status r) (row_status r')"
    using kyc_store_laws.kyc_run_status [OF assms(1,2,4,3,5)] by blast
  then show ?thesis by (auto simp: canTransition_iff)
qed

definition sample_row :: "sep12_status \<Rightarrow> kyc_row" where
  "sample_row st =
     \<lparr>kr_id = ''c1'', kr_account = None, kr_memo = None, kr_memoType = None, kr_status = status_text st,
      kr_message = None, kr_encryptedPayload = ''00'', kr_fieldsRequested = JNull,
      kr_anchorReference = None, kr_provider = None, kr_createdAt = 0, kr_updatedAt = 0\<rparr>"

definition sample_db :: "sep12_status \<Rightarrow> mem_db" where
  "sample_db st = \<lparr>mem_rows = [(''c1'', sample_row st)], mem_now = 5\<rparr>"

text \<open>A payload store whose cipher is the identity on one fixed payload.\<close>

definition sample_env :: "(string \<times> json) list \<Rightarrow> anchor_decision \<Rightarrow> kyc_env" where
  "sample_env payload decision =
     \<lparr>kv_encryption =
        \<lparr>ke_aes = \<lparr>ae_sha256 = utf8, ae_seal = (\<lambda>k iv t. ([], replicate 16 0)),
                   ae_open = (\<lambda>k iv ct tg. Inr [])\<rparr>,
         ke_json = \<lparr>jc_stringify = (\<lambda>_. []), jc_parse = (\<lambda>_. Inr (JObj payload))\<rparr>,
         ke_keyOverride = Some ''k'', ke_env = (\<lambda>_. None)\<rparr>,
      kv_iv = replicate 12 0, kv_idFactory = ''c2'', kv_anchor = (\<lambda>_. Inr decision)\<rparr>"

definition sample_decision :: "sep12_status \<Rightarrow> anchor_decision" where
  "sample_decision st =
     \<lparr>ad_status = st, ad_message = None, ad_fields = Some [(''selfie'', JNull)], ad_anchorReference = None,
      ad_provider = None\<rparr>"

lemma sample_sound: "mem_sound (sample_db st)"
  by (simp add: mem_sound_def sample_db_def sample_row_def)

lemma sample_lookup: "jm_get (mem_rows (sample_db st)) ''c1'' = Some (sample_row st)"
  by (simp add: sample_db_def)

lemma sample_row_status [simp]: "row_status (sample_row st) = st"
  by (simp add: row_status_def sample_row_def)

theorem decisions_are_final_witness:
  "let reqs = [ReqStatus (sample_env [] (sample_decision ACCEPTED)) ''c1'' PROCESSING None, ReqDelete ''c9'']
   in \<exists>r'. jm_get (mem_rows (kyc_run (PrismaKycStore createDb) reqs (sample_db ACCEPTED))) ''c1'' = Some r'
        \<and> row_status r' = ACCEPTED"
proof -
  define reqs where
    "reqs = [ReqStatus (sample_env [] (sample_decision ACCEPTED)) ''c1'' PROCESSING None, ReqDelete ''c9'']"
  have "fresh_history (PrismaKycStore createDb) (\<lambda>db. jm_get (mem_rows db)) reqs (sample_db ACCEPTED)"
    by (simp add: reqs_def fresh_request_def)
  moreover have "ReqDelete ''c1'' \<notin> set reqs" by (simp add: reqs_def)
  ultimately show ?thesis
    using decisions_are_final [OF memk.kyc_store_laws_axioms sample_sound sample_lookup]
    unfolding reqs_def [symmetric] Let_def by (fastforce simp: terminal_def)
qed

section \<open>Validated requests\<close>

lemma parse_text_Some: "parse_text name v = Inr (Some t) \<Longrightarrow> t \<noteq> ''''"
  by (auto simp: parse_text_def split: json.splits if_splits)

lemma parse_account_Some: "parse_account v = Inr (Some a) \<Longrightarrow> isValidStellarAccount a"
  by (auto simp: parse_account_def rbind_eq_Inr split: option.splits if_splits)

lemma check_memo_ok:
  "check_memo memo mt = Inr u \<Longrightarrow>
     (case (memo, mt) of (Some m, Some t) \<Rightarrow> valid_memo m t | (None, None) \<Rightarrow> True | _ \<Rightarrow> False)"
  using validateMemo_iff by (auto simp: check_memo_def split: option.splits)

text \<open>
  C39. A request that passes validation names a customer by a non-empty identifier or a well-formed
  account, has a memo exactly when it has a memo type, the memo satisfies its type, and its customer
  fields are the properties of the body other than the reserved ones, in order.
\<close>

theorem parsePutBody_sound:
  assumes "parsePutBody body = Inr input"
  shows "\<exists>record. body = JObj record
         \<and> pi_fields input = filter (\<lambda>p. fst p \<notin> set SEP12_RESERVED_KEYS) record
         \<and> (pi_id input \<noteq> None \<or> pi_account input \<noteq> None)
         \<and> pi_id input \<noteq> Some '''' \<and> (\<forall>a. pi_account input = Some a \<longrightarrow> isValidStellarAccount a)
         \<and> (case (pi_memo input, pi_memoType input) of
              (Some m, Some t) \<Rightarrow> valid_memo m t | (None, None) \<Rightarrow> True | _ \<Rightarrow> False)"
proof -
  obtain obj i account memoType memo u where p: "body = JObj obj"
      "parse_text ''id'' (js_prop obj ''id'') = Inr i"
      "parse_account (js_prop obj ''account'') = Inr account" "i \<noteq> None \<or> account \<noteq> None"
      "check_memo memo memoType = Inr u"
      "input = \<lparr>pi_id = i, pi_account = account, pi_memo = memo, pi_memoType = memoType,
                pi_fields = customer_fields obj\<rparr>"
    using assms
    by (cases body) (auto simp: parsePutBody_def rbind_eq_Inr split: if_splits)
  then show ?thesis
    using parse_text_Some [of _ _ "''''"] parse_account_Some check_memo_ok [OF p(5)]
    by (auto simp: customer_fields_def)
qed

theorem parsePutBody_sound_witness:
  "let body = JObj [(''id'', JStr '' c1 ''), (''memo'', JStr ''42''), (''memo_type'', JStr ''ID''),
                    (''first_name'', JStr ''Ada'')];
       input = \<lparr>pi_id = Some ''c1'', pi_account = None, pi_memo = Some ''42'', pi_memoType = Some MemoId,
                pi_fields = [(''first_name'', JStr ''Ada'')]\<rparr>
   in parsePutBody body = Inr input \<and> valid_memo ''42'' MemoId"
proof -
  have p: "parsePutBody (JObj [(''id'', JStr '' c1 ''), (''memo'', JStr ''42''), (''memo_type'', JStr ''ID''),
                    (''first_name'', JStr ''Ada'')]) =
      Inr \<lparr>pi_id = Some ''c1'', pi_account = None, pi_memo = Some ''42'', pi_memoType = Some MemoId,
           pi_fields = [(''first_name'', JStr ''Ada'')]\<rparr>"
    by code_simp
  from parsePutBody_sound [OF p] p show ?thesis by simp
qed

section \<open>What a put stores\<close>

lemma asFieldsOrNull_fields_json [simp]: "asFieldsOrNull (fields_json f) = f"
  by (cases f) (simp_all add: asFieldsOrNull_def fields_json_def)

text \<open>
  A successful put can be read back: looking the customer up by the returned identifier gives the
  status, message and requested fields of the answer and the merged customer values, for every store
  that satisfies the laws and an encryption that decrypts what it stored.
\<close>

theorem put_then_get:
  assumes "kyc_store_laws S rows sound" "sound s" "rows s (kv_idFactory env) = None"
    and prep: "put_prepare S env body s = Inr px" and dec: "put_decide env px = Inr pp"
    and crypt: "decryptPayload (kv_encryption env) (px_encrypted px) = Inr (px_payload px)"
    and ref: "px_reference px \<noteq> ''''"
  shows "\<exists>res s' resp. putCustomer S env body s = (Inr res, s')
         \<and> getCustomer S env \<lparr>gp_id = Some (pr_id res), gp_account = None, gp_memo = None, gp_memoType = None\<rparr> s'
             = Inr (Some resp)
         \<and> cr_id resp = pr_id res \<and> cr_status resp = pr_status res \<and> cr_message resp = pr_message res
         \<and> cr_fields resp = pr_fields res \<and> cr_values resp = customer_fields (px_payload px)"
proof -
  obtain r' res s' where c: "putCustomer S env body s = (Inr res, s')" "sound s'"
      "rows s' = (rows s)(px_reference px \<mapsto> r')" "pr_id res = px_reference px"
      "row_status r' = pr_status res" "kr_encryptedPayload r' = px_encrypted px"
      "kr_message r' = pp_message pp" "kr_fieldsRequested r' = fields_json (pp_fieldsRequested pp)"
      "kr_id r' = px_reference px" "pr_message res = truthy_text (pp_message pp)"
      "pr_fields res = (if pr_status res = NEEDS_INFO then pp_fieldsRequested pp else None)"
    using kyc_store_laws.putCustomer_commit [OF assms(1-3) prep dec] by metis
  have f: "ks_findById S (px_reference px) s' = Some r'"
    using kyc_store_laws.find_by_id [OF assms(1) c(2)] c(3) by simp
  have resp: "buildResponse env r' = Inr
      \<lparr>cr_id = pr_id res, cr_status = pr_status res, cr_provided = buildProvidedFields (px_payload px),
       cr_message = pr_message res, cr_fields = pr_fields res, cr_values = customer_fields (px_payload px)\<rparr>"
    using crypt c(4-11) by (simp add: buildResponse_def row_status_def Let_def)
  show ?thesis
    using c(1,4) f ref resp by (simp add: getCustomer_def resolveCustomer_def Let_def)
qed

definition sample_body :: "(string \<times> json) list \<Rightarrow> json" where
  "sample_body fs = JObj ((''id'', JStr ''c1'') # fs)"

definition complete_fields :: "(string \<times> json) list" where
  "complete_fields =
     [(''first_name'', JStr ''Ada''), (''last_name'', JStr ''Lovelace''),
      (''email_address'', JStr ''ada@example.com''), (''id_type'', JStr ''passport''),
      (''id_number'', JStr ''X1234567'')]"

definition sample_context :: "sep12_status \<Rightarrow> (string \<times> json) list \<Rightarrow> put_context" where
  "sample_context st payload =
     \<lparr>px_existing = Some (sample_row st), px_payload = payload,
      px_encrypted = hex (replicate 12 0 @ replicate 16 0), px_reference = ''c1'', px_account = None,
      px_memo = None, px_memoType = None, px_current = st\<rparr>"

lemma sample_decrypt:
  "c \<noteq> '''' \<Longrightarrow> decryptPayload (kv_encryption (sample_env payload decision)) c = Inr payload"
  by (simp add: sample_env_def decryptPayload_def resolveKey_def js_trim_def is_space_def decrypt_def Let_def)

lemma sample_prepare:
  assumes "\<And>k. k \<in> set (jm_keys payload) \<Longrightarrow> k \<notin> set SEP12_RESERVED_KEYS" "js_spread payload payload = payload"
  shows "put_prepare (PrismaKycStore createDb) (sample_env payload decision) (sample_body payload)
           (sample_db st) = Inr (sample_context st payload)"
proof -
  have reserved: "''account'' \<in> set SEP12_RESERVED_KEYS" "''memo'' \<in> set SEP12_RESERVED_KEYS"
    "''memo_type'' \<in> set SEP12_RESERVED_KEYS" "''id'' \<in> set SEP12_RESERVED_KEYS"
    by (simp_all add: SEP12_RESERVED_KEYS_def)
  have absent: "js_prop ((''id'', JStr ''c1'') # payload) k = JUndefined"
    if "k \<in> set SEP12_RESERVED_KEYS" "k \<noteq> ''id''" for k
  proof -
    have "k \<notin> fst ` set payload" using assms(1) [of k] that(1) by auto
    then have "map_of payload k = None" by (simp add: map_of_eq_None_iff)
    then show ?thesis using that(2) by (simp add: js_prop_def)
  qed
  have fields: "customer_fields ((''id'', JStr ''c1'') # payload) = payload"
    using assms(1) reserved(4) by (auto simp: customer_fields_def filter_id_conv)
  have "parsePutBody (sample_body payload) =
      Inr \<lparr>pi_id = Some ''c1'', pi_account = None, pi_memo = None, pi_memoType = None, pi_fields = payload\<rparr>"
    unfolding parsePutBody_def sample_body_def
    by (simp add: absent [OF reserved(1)] absent [OF reserved(2)] absent [OF reserved(3)] fields
        parse_text_def parse_account_def parse_memo_def parseMemoType_def check_memo_def
        js_prop_def [of _ "''id''"] js_trim_def is_space_def)
  moreover have "find_existing (PrismaKycStore createDb)
      \<lparr>pi_id = Some ''c1'', pi_account = None, pi_memo = None, pi_memoType = None, pi_fields = payload\<rparr>
      (sample_db st) = Inr (Some (sample_row st))"
    by (simp add: find_existing_def PrismaKycStore_def createDb_def mem_findUnique_def sample_lookup)
  ultimately show ?thesis
    using sample_decrypt [of "''00''" payload decision] assms(2) sample_row_status [of st]
    by (simp add: put_prepare_def sample_context_def sample_row_def Let_def or_else_def row_status_def
        encryptPayload_def sample_env_def resolveKey_def js_trim_def is_space_def encrypt_def hex_def)
qed

lemma complete_prepare:
  "put_prepare (PrismaKycStore createDb) (sample_env complete_fields decision) (sample_body complete_fields)
     (sample_db st) = Inr (sample_context st complete_fields)"
  by (rule sample_prepare) (auto simp: complete_fields_def SEP12_RESERVED_KEYS_def js_spread_def)

lemma complete_not_missing: "missingRequiredFields complete_fields = []"
  by code_simp

lemma complete_decide:
  "put_decide (sample_env complete_fields (sample_decision st')) (sample_context st complete_fields) =
     Inr \<lparr>pp_desired = st', pp_message = None, pp_fieldsRequested = None, pp_anchorReference = None,
          pp_provider = None\<rparr>"
  by (simp add: put_decide_def sample_context_def complete_not_missing sample_env_def sample_decision_def
      or_else_def sample_row_def)

theorem put_then_get_witness:
  "let env = sample_env complete_fields (sample_decision ACCEPTED)
   in \<exists>res s' resp. putCustomer (PrismaKycStore createDb) env (sample_body complete_fields) (sample_db PROCESSING)
        = (Inr res, s')
      \<and> getCustomer (PrismaKycStore createDb) env
          \<lparr>gp_id = Some (pr_id res), gp_account = None, gp_memo = None, gp_memoType = None\<rparr> s' = Inr (Some resp)
      \<and> cr_status resp = pr_status res"
proof -
  define env where "env = sample_env complete_fields (sample_decision ACCEPTED)"
  define px where "px = sample_context PROCESSING complete_fields"
  have fresh: "jm_get (mem_rows (sample_db PROCESSING)) (kv_idFactory env) = None"
    by (simp add: sample_db_def env_def sample_env_def)
  have enc: "px_encrypted px \<noteq> ''''"
    using length_hex [of "replicate 12 0 @ replicate 16 0"] by (auto simp: px_def sample_context_def)
  have crypt: "decryptPayload (kv_encryption env) (px_encrypted px) = Inr (px_payload px)"
    unfolding env_def by (subst sample_decrypt [OF enc]) (simp add: px_def sample_context_def)
  have ref: "px_reference px \<noteq> ''''" by (simp add: px_def sample_context_def)
  from put_then_get [OF memk.kyc_store_laws_axioms sample_sound fresh
      complete_prepare [of "sample_decision ACCEPTED" PROCESSING, folded env_def px_def]
      complete_decide [of ACCEPTED PROCESSING, folded env_def px_def] crypt ref]
  show ?thesis unfolding Let_def env_def [symmetric] by blast
qed

section \<open>Interleaving and lost verdicts\<close>

text \<open>
  A put that waits for the anchor writes the status it negotiated from the row it had read: when an
  operator decides the customer meanwhile, the commit replaces the decision by the anchor's (older)
  answer, although that transition is not permitted.
\<close>

theorem stale_put_overwrites_decision:
  assumes "kyc_store_laws S rows sound" "sound s"
    and prep: "put_prepare S env body s = Inr px" "px_existing px = Some r" "\<not> terminal (row_status r)"
    and st: "terminal st" and dec: "pp_desired pp \<noteq> st"
  shows "\<exists>r1 r2. rows (snd (updateStatus S env (kr_id r) st message s)) (kr_id r) = Some r1
         \<and> row_status r1 = st
         \<and> rows (snd (put_commit S px pp (snd (updateStatus S env (kr_id r) st message s)))) (kr_id r) = Some r2
         \<and> row_status r2 = pp_desired pp \<and> \<not> canTransition (row_status r1) (row_status r2)"
proof -
  define s1 where "s1 = snd (updateStatus S env (kr_id r) st message s)"
  have r: "rows s (kr_id r) = Some r" "px_current px = row_status r" "px_reference px = kr_id r"
    using kyc_store_laws.put_prepare_context [OF assms(1,2) prep(1)] prep(2) by simp_all
  have f: "ks_findById S (kr_id r) s = Some r"
    using kyc_store_laws.find_by_id [OF assms(1,2)] r(1) by simp
  define d where "d = \<lparr>ku_status = st, ku_message = or_else message (kr_message r),
      ku_encryptedPayload = kr_encryptedPayload r,
      ku_fieldsRequested = (if st = NEEDS_INFO then asFieldsOrNull (kr_fieldsRequested r) else None),
      ku_anchorReference = kr_anchorReference r, ku_provider = kr_provider r\<rparr>"
  obtain r1 s' where u: "ks_update S (kr_id r) d s = (Inr r1, s')" "kr_status r1 = status_text (ku_status d)"
      "rows s' = (rows s)(kr_id r \<mapsto> r1)" "sound s'"
    using kyc_store_laws.updated_status [OF assms(1,2) r(1), of d] by metis
  have s1: "s1 = s'"
    using f u(1) prep(3)
    by (simp add: s1_def updateStatus_def applyTransition_def canTransition_iff row_status_def [symmetric] d_def)
  have r1: "rows s1 (kr_id r) = Some r1" "row_status r1 = st"
    using s1 u(2,3) by (simp_all add: row_status_def d_def)
  obtain r2 res s2 where c: "put_commit S px pp s1 = (Inr res, s2)"
      "rows s2 = (rows s1)(px_reference px \<mapsto> r2)" "row_status r2 = pr_status res"
      "pr_status res = negotiateStatus (px_current px) (pp_desired pp)"
    using kyc_store_laws.put_commit_row [OF assms(1), of s1 px r1 pp] u(4) s1 prep(2) r(3) r1(1) by auto
  have "row_status r2 = pp_desired pp" using c(3,4) r(2) prep(3) negotiateStatus_free by simp
  moreover have "\<not> canTransition st (pp_desired pp)" using st dec by (auto simp: canTransition_iff)
  ultimately show ?thesis
    using r1 c r(3) unfolding s1_def [symmetric] by (intro exI [of _ r1] exI [of _ r2]) simp
qed

theorem stale_put_overwrites_decision_witness:
  "let env = sample_env complete_fields (sample_decision NEEDS_INFO);
       S = PrismaKycStore createDb;
       s1 = snd (updateStatus S env ''c1'' REJECTED None (sample_db PROCESSING));
       pp = \<lparr>pp_desired = NEEDS_INFO, pp_message = None, pp_fieldsRequested = None,
             pp_anchorReference = None, pp_provider = None\<rparr>
   in put_decide env (sample_context PROCESSING complete_fields) = Inr pp
      \<and> (\<exists>r2. jm_get (mem_rows (snd (put_commit S (sample_context PROCESSING complete_fields) pp s1))) ''c1''
            = Some r2 \<and> row_status r2 = NEEDS_INFO)"
proof -
  have ex: "px_existing (sample_context PROCESSING complete_fields) = Some (sample_row PROCESSING)"
    and i: "kr_id (sample_row PROCESSING) = ''c1''"
    by (simp_all add: sample_context_def sample_row_def)
  have nt: "\<not> terminal (row_status (sample_row PROCESSING))" "terminal REJECTED"
    by (simp_all add: terminal_def)
  show ?thesis
    using stale_put_overwrites_decision [OF memk.kyc_store_laws_axioms sample_sound
        complete_prepare [of "sample_decision NEEDS_INFO" PROCESSING] ex nt,
        of "\<lparr>pp_desired = NEEDS_INFO, pp_message = None, pp_fieldsRequested = None,
             pp_anchorReference = None, pp_provider = None\<rparr>" None]
      complete_decide [of NEEDS_INFO PROCESSING]
    unfolding Let_def i by auto
qed

text \<open>
  When the anchor answers that it needs more information and names the fields, the customer is
  moved to that status with no requested fields at all: neither the answer nor the stored row carries
  the fields the anchor asked for.
\<close>

theorem anchor_requested_fields_lost:
  assumes "kyc_store_laws S rows sound" "sound s" "rows s (kv_idFactory env) = None"
    and prep: "put_prepare S env body s = Inr px" "missingRequiredFields (px_payload px) = []"
    and st: "\<not> terminal (px_current px)"
    and anchor: "\<And>sub. kv_anchor env sub = Inr d" "ad_status d = NEEDS_INFO" "ad_fields d = Some fs"
  shows "\<exists>res s' r'. putCustomer S env body s = (Inr res, s') \<and> pr_status res = NEEDS_INFO
         \<and> pr_fields res = None \<and> rows s' (pr_id res) = Some r' \<and> kr_fieldsRequested r' = JNull"
proof -
  define pp where "pp = \<lparr>pp_desired = ad_status d, pp_message = ad_message d, pp_fieldsRequested = None,
    pp_anchorReference = or_else (ad_anchorReference d) (Option.bind (px_existing px) kr_anchorReference),
    pp_provider = or_else (ad_provider d) (Option.bind (px_existing px) kr_provider)\<rparr>"
  have dec: "put_decide env px = Inr pp"
    using anchor(1) prep(2) by (simp add: put_decide_def pp_def Let_def)
  obtain r' res s' where "putCustomer S env body s = (Inr res, s')"
      "rows s' = (rows s)(px_reference px \<mapsto> r')" "pr_id res = px_reference px"
      "kr_fieldsRequested r' = fields_json (pp_fieldsRequested pp)"
      "pr_status res = negotiateStatus (px_current px) (pp_desired pp)"
      "pr_fields res = (if pr_status res = NEEDS_INFO then pp_fieldsRequested pp else None)"
    using kyc_store_laws.putCustomer_commit [OF assms(1-3) prep(1) dec] by metis
  then show ?thesis
    using negotiateStatus_free [OF st] anchor(2) by (simp add: pp_def fields_json_def)
qed

theorem anchor_requested_fields_lost_witness:
  "let env = sample_env complete_fields (sample_decision NEEDS_INFO)
   in ad_fields (sample_decision NEEDS_INFO) = Some [(''selfie'', JNull)]
      \<and> (\<exists>res s'. putCustomer (PrismaKycStore createDb) env (sample_body complete_fields) (sample_db PROCESSING)
            = (Inr res, s') \<and> pr_status res = NEEDS_INFO \<and> pr_fields res = None)"
proof -
  define env where "env = sample_env complete_fields (sample_decision NEEDS_INFO)"
  have h: "jm_get (mem_rows (sample_db PROCESSING)) (kv_idFactory env) = None"
      "missingRequiredFields (px_payload (sample_context PROCESSING complete_fields)) = []"
      "\<not> terminal (px_current (sample_context PROCESSING complete_fields))"
      "\<And>sub. kv_anchor env sub = Inr (sample_decision NEEDS_INFO)"
      "ad_status (sample_decision NEEDS_INFO) = NEEDS_INFO"
      "ad_fields (sample_decision NEEDS_INFO) = Some [(''selfie'', JNull)]"
    by (simp_all add: sample_db_def env_def sample_env_def sample_context_def complete_not_missing
        terminal_def sample_decision_def)
  from anchor_requested_fields_lost [OF memk.kyc_store_laws_axioms sample_sound h(1)
      complete_prepare [of "sample_decision NEEDS_INFO" PROCESSING, folded env_def] h(2-6)]
  show ?thesis unfolding Let_def env_def [symmetric] using h(6) by blast
qed

end
