(* ===== verification/AmmReserve.thy ===== *)
theory AmmReserve
  imports Codec
begin

text \<open>
  \<open>src/services/ammReserveDivergenceDetector.ts\<close>, first half: reserve amounts as decimal texts of the
  database and as \<open>bigint\<close>s, the scales, the quoting of SQL identifiers and literals, the statements of
  the reserve store, and the reading of rows.  Errors are the messages thrown.

  The lemmas: the value read from a text is exactly the decimal number it denotes, scaled, or an error;
  printing and reading are inverse; quoted identifiers and literals are read back by an SQL lexer as
  what was quoted, so no configured name or value can leave its quotes.
\<close>

section \<open>Scales and amounts\<close>

definition requirePositiveInteger :: "rat \<Rightarrow> string \<Rightarrow> string + int" where
  "requirePositiveInteger v field =
     (if of_int \<lfloor>v\<rfloor> \<noteq> v \<or> v \<le> 0 then Inl (field @ '' must be a positive integer'') else Inr \<lfloor>v\<rfloor>)"

definition normalizeScale :: "rat option \<Rightarrow> string \<Rightarrow> string + nat" where
  "normalizeScale v field =
     (let scale = (case v of None \<Rightarrow> 0 | Some x \<Rightarrow> x)
      in if of_int \<lfloor>scale\<rfloor> \<noteq> scale \<or> scale < 0 \<or> scale > 30
         then Inl (field @ '' must be an integer between 0 and 30'') else Inr (nat \<lfloor>scale\<rfloor>))"

definition pow10 :: "nat \<Rightarrow> int" where
  "pow10 scale = 10 ^ scale"

text \<open>\<open>/^[+-]?\d+$/\<close>: the sign and the digits.\<close>

definition strip_sign :: "string \<Rightarrow> bool \<times> string" where
  "strip_sign s =
     (case s of
        c # cs \<Rightarrow> if c = CHR ''+'' then (False, cs) else if c = CHR ''-'' then (True, cs) else (False, s)
      | [] \<Rightarrow> (False, s))"

definition all_digits :: "string \<Rightarrow> bool" where
  "all_digits s \<longleftrightarrow> s \<noteq> [] \<and> list_all is_digit s"

definition integer_text :: "string \<Rightarrow> bool" where
  "integer_text s = all_digits (snd (strip_sign s))"

definition signed_int :: "bool \<Rightarrow> nat \<Rightarrow> int" where
  "signed_int neg n = (if neg then - int n else int n)"

definition read_integer :: "string \<Rightarrow> int" where
  "read_integer s = signed_int (fst (strip_sign s)) (read_nat (snd (strip_sign s)))"

text \<open>\<open>padEnd\<close> and \<open>padStart\<close> with zeroes.\<close>

definition pad_end :: "nat \<Rightarrow> string \<Rightarrow> string" where
  "pad_end n s = s @ replicate (n - length s) (CHR ''0'')"

definition pad_start :: "nat \<Rightarrow> string \<Rightarrow> string" where
  "pad_start n s = replicate (n - length s) (CHR ''0'') @ s"

definition parse_fraction :: "string \<Rightarrow> nat \<Rightarrow> string \<Rightarrow> string + int" where
  "parse_fraction raw scale field =
     (case split_at (CHR ''.'') raw of
        [wholePart, fractionalPart] \<Rightarrow>
          if \<not> (integer_text wholePart \<and> all_digits fractionalPart)
          then Inl (field @ '' must be an integer reserve amount'')
          else if list_ex (\<lambda>c. c \<noteq> CHR ''0'') (drop scale fractionalPart)
          then Inl (field @ '' has more precision than scale '' @ show_nat scale)
          else Inr (signed_int (fst (strip_sign wholePart))
                 (read_nat (snd (strip_sign wholePart) @ pad_end scale (take scale fractionalPart))))
      | _ \<Rightarrow> Inl (field @ '' must be an integer reserve amount''))"

definition reserveScalarToBigInt :: "string \<Rightarrow> string \<Rightarrow> rat option \<Rightarrow> string + int" where
  "reserveScalarToBigInt v field scale =
     rbind (normalizeScale scale (field @ '' scale'')) (\<lambda>normalizedScale.
       let raw = js_trim v in
       if raw = '''' then Inl (field @ '' is empty'')
       else rbind (if integer_text raw then Inr (read_integer raw * pow10 normalizedScale)
                   else parse_fraction raw normalizedScale field) (\<lambda>parsed.
            if parsed < 0 then Inl (field @ '' must be non-negative'') else Inr parsed))"

definition formatReserveForDatabase :: "int \<Rightarrow> rat option \<Rightarrow> string + string" where
  "formatReserveForDatabase amount scale =
     rbind (normalizeScale scale ''reserve scale'') (\<lambda>normalizedScale.
       if amount < 0 then Inl ''reserve amount must be non-negative''
       else if normalizedScale = 0 then Inr (show_int amount)
       else let divisor = pow10 normalizedScale;
                whole = amount div divisor;
                fractional = pad_start normalizedScale (show_int (amount mod divisor))
            in Inr (show_int whole @ ''.'' @ fractional))"

section \<open>The value of a decimal text\<close>

text \<open>A plain decimal text and the rational number it denotes.\<close>

definition decimal_value :: "string \<Rightarrow> rat option" where
  "decimal_value raw =
     (if integer_text raw then Some (of_int (read_integer raw))
      else case split_at (CHR ''.'') raw of
             [w, f] \<Rightarrow>
               if integer_text w \<and> all_digits f
               then Some ((if fst (strip_sign w) then - 1 else 1) *
                      (of_nat (read_nat (snd (strip_sign w))) + of_nat (read_nat f) / 10 ^ length f))
               else None
           | _ \<Rightarrow> None)"

lemma read_nat_zeros: "list_all (\<lambda>c. c = CHR ''0'') z \<Longrightarrow> read_nat z = 0"
  by (induction z rule: rev_induct) (auto simp: read_nat_snoc read_nat_def)

lemma read_replicate_zeros: "read_nat (replicate n (CHR ''0'')) = 0"
  by (rule read_nat_zeros) (simp add: list_all_iff)

lemma read_pad_end: "read_nat (pad_end n s) = read_nat s * 10 ^ (n - length s)"
  by (simp add: pad_end_def read_nat_append read_replicate_zeros)

lemma length_pad_end: "length (pad_end n (take n s)) = n"
  by (simp add: pad_end_def)

lemma read_pad_start: "read_nat (pad_start n s) = read_nat s"
  by (simp add: pad_start_def read_nat_append read_replicate_zeros)

lemma no_nonzero_digit: "\<not> list_ex (\<lambda>c. c \<noteq> CHR ''0'') z \<Longrightarrow> read_nat z = 0"
  by (rule read_nat_zeros) (auto simp: list_all_iff list_ex_iff)

text \<open>Cutting or padding a fraction whose tail is zero to a scale multiplies its value by the scale.\<close>

lemma fraction_scaled:
  assumes "\<not> list_ex (\<lambda>c. c \<noteq> CHR ''0'') (drop k f)"
  shows "(of_nat (read_nat (pad_end k (take k f))) :: rat) = of_nat (read_nat f) / 10 ^ length f * 10 ^ k"
proof -
  have f: "read_nat f = read_nat (take k f) * 10 ^ (length f - k)"
    using read_nat_append [of "take k f" "drop k f"] no_nonzero_digit [OF assms] by simp
  show ?thesis
  proof (cases "length f \<le> k")
    case True
    then have "(10::rat) ^ k = 10 ^ length f * 10 ^ (k - length f)" by (simp flip: power_add)
    with True show ?thesis by (simp add: read_pad_end)
  next
    case False
    then have "(10::rat) ^ length f = 10 ^ k * 10 ^ (length f - k)" by (simp flip: power_add)
    with False f show ?thesis by (simp add: read_pad_end)
  qed
qed

lemma fraction_not_scaled:
  assumes "all_digits f" "list_ex (\<lambda>c. c \<noteq> CHR ''0'') (drop k f)"
  shows "of_nat (read_nat f) / 10 ^ length f * 10 ^ k \<notin> (\<int> :: rat set)"
proof
  define g where "g = drop k f"
  have g: "\<And>c. c \<in> set g \<Longrightarrow> is_digit c" using assms(1) in_set_dropD by (fastforce simp: g_def all_digits_def list_all_iff)
  have len: "k < length f" "length g = length f - k"
    using assms(2) by (cases "k < length f", simp_all add: g_def)
  have read_f: "read_nat f = read_nat (take k f) * 10 ^ length g + read_nat g"
    using read_nat_append [of "take k f" g] len by (simp add: g_def)
  have pos: "0 < read_nat g"
  proof (rule ccontr)
    assume "\<not> 0 < read_nat g"
    moreover have "read_nat z = 0 \<Longrightarrow> (\<And>c. c \<in> set z \<Longrightarrow> is_digit c) \<Longrightarrow> list_all (\<lambda>c. c = CHR ''0'') z" for z
    proof (induction z rule: rev_induct)
      case (snoc c z)
      then have "code c = 48" by (auto simp: read_nat_snoc is_digit_def) (metis le_antisym)
      then have "c = char_of (48 :: nat)" by (metis char_of_char)
      with snoc show ?case by (simp add: read_nat_snoc char_of_48)
    qed simp
    ultimately show False using assms(2) g by (auto simp: g_def list_all_iff list_ex_iff)
  qed
  have bound: "read_nat g < 10 ^ length g" by (rule read_nat_bound) (rule g)
  define x where "x = of_nat (read_nat g) / (10::rat) ^ length g"
  have split: "(10::rat) ^ length f = 10 ^ k * 10 ^ length g" using len by (simp flip: power_add)
  have "of_nat (read_nat f) / 10 ^ length f * 10 ^ k = of_nat (read_nat (take k f)) + x"
    unfolding split by (simp add: x_def read_f field_simps)
  moreover assume "of_nat (read_nat f) / 10 ^ length f * 10 ^ k \<in> (\<int> :: rat set)"
  ultimately have "of_nat (read_nat (take k f)) + x \<in> \<int>" by simp
  then have "x \<in> \<int>" by (metis Ints_diff Ints_of_nat add_diff_cancel_left')
  then obtain z where z: "x = of_int z" by (rule Ints_cases)
  have "0 < x" using pos by (simp add: x_def)
  moreover have "x < 1" using bound unfolding x_def
    by (metis divide_less_eq_1_pos of_nat_less_iff of_nat_numeral of_nat_power zero_less_numeral zero_less_power)
  ultimately show False unfolding z by simp
qed

lemma read_whole_fraction:
  "(of_nat (read_nat (w @ pad_end k (take k f))) :: rat) =
     of_nat (read_nat w) * 10 ^ k + of_nat (read_nat (pad_end k (take k f)))"
  by (simp add: read_nat_append length_pad_end)

lemma normalizeScale_ok: "k \<le> 30 \<Longrightarrow> normalizeScale (Some (of_nat k)) field = Inr k"
  by (simp add: normalizeScale_def Let_def) (metis of_int_of_nat_eq)

lemma normalizeScale_bound: "normalizeScale v field = Inr k \<Longrightarrow> k \<le> 30"
  by (auto simp: normalizeScale_def Let_def floor_le_iff nat_le_iff split: if_splits)

text \<open>The signed reading of a fraction is its decimal value times the scale.\<close>

lemma signed_fraction:
  assumes "\<not> list_ex (\<lambda>c. c \<noteq> CHR ''0'') (drop k f)"
  shows "(of_int (signed_int neg (read_nat (w @ pad_end k (take k f)))) :: rat) =
           (if neg then - 1 else 1) *
             (of_nat (read_nat w) + of_nat (read_nat f) / 10 ^ length f) * 10 ^ k"
  unfolding signed_int_def using read_whole_fraction [of w k f] fraction_scaled [OF assms]
  by (simp add: algebra_simps)

lemma not_decimal:
  assumes "\<not> integer_text raw"
    and "\<And>w f. split_at (CHR ''.'') raw = [w, f] \<Longrightarrow> \<not> (integer_text w \<and> all_digits f)"
  shows "decimal_value raw = None"
    and "parse_fraction raw k field = Inl (field @ '' must be an integer reserve amount'')"
  using assms by (auto simp: decimal_value_def parse_fraction_def split: list.split)

text \<open>What reading an amount is to give, for a text without surrounding blanks.\<close>

definition exact_reading :: "string \<Rightarrow> nat \<Rightarrow> string + int \<Rightarrow> bool" where
  "exact_reading raw k r \<longleftrightarrow> (case r of
      Inr n \<Rightarrow> 0 \<le> n \<and> (\<exists>d. decimal_value raw = Some d \<and> d * 10 ^ k = of_int n)
    | Inl _ \<Rightarrow> (\<forall>d. decimal_value raw = Some d \<longrightarrow> d < 0 \<or> d * 10 ^ k \<notin> \<int>))"

lemma exact_integer:
  assumes "k \<le> 30" "integer_text (js_trim v)"
  shows "exact_reading (js_trim v) k (reserveScalarToBigInt v field (Some (of_nat k)))"
proof -
  define raw where "raw = js_trim v"
  have "raw \<noteq> ''''" using assms(2) by (auto simp: raw_def integer_text_def strip_sign_def all_digits_def)
  moreover have "of_int (read_integer raw) * (10 :: rat) ^ k = of_int (read_integer raw * pow10 k)"
    by (simp add: pow10_def)
  ultimately show ?thesis
    using assms(2) by (auto simp: exact_reading_def reserveScalarToBigInt_def normalizeScale_ok [OF assms(1)] decimal_value_def
        raw_def [symmetric] Let_def pow10_def zero_le_mult_iff mult_less_0_iff)
qed

lemma excess_decimals_not_integral:
  assumes "all_digits f" "list_ex (\<lambda>c. c \<noteq> CHR ''0'') (drop k f)" "s = 1 \<or> s = (- 1 :: rat)"
  shows "s * (of_nat w + of_nat (read_nat f) / 10 ^ length f) * 10 ^ k \<notin> \<int>"
proof
  let ?d = "s * (of_nat w + of_nat (read_nat f) / 10 ^ length f)"
  assume "?d * 10 ^ k \<in> \<int>"
  then have "s * (?d * 10 ^ k) \<in> \<int>" using assms(3) by auto
  then have "s * (?d * 10 ^ k) - of_nat (w * 10 ^ k) \<in> \<int>"
    by (rule Ints_diff) (rule Ints_of_nat)
  then have "of_nat (read_nat f) / 10 ^ length f * 10 ^ k \<in> (\<int> :: rat set)"
    using assms(3) by (auto simp: algebra_simps)
  with fraction_not_scaled [OF assms(1,2)] show False by simp
qed

lemma exact_fraction:
  assumes k: "k \<le> 30" and frac: "\<not> integer_text (js_trim v)" "split_at (CHR ''.'') (js_trim v) = [w, f]" "integer_text w" "all_digits f"
  shows "exact_reading (js_trim v) k (reserveScalarToBigInt v field (Some (of_nat k)))"
proof -
  define s where "s = (if fst (strip_sign w) then - 1 else 1 :: rat)"
  define d where "d = s * (of_nat (read_nat (snd (strip_sign w))) + of_nat (read_nat f) / 10 ^ length f)"
  have dv: "decimal_value (js_trim v) = Some d" using frac by (simp add: decimal_value_def d_def s_def)
  have ne: "js_trim v \<noteq> ''''" using frac(2) by auto
  show ?thesis
  proof (cases "list_ex (\<lambda>c. c \<noteq> CHR ''0'') (drop k f)")
    case True
    have "d * 10 ^ k \<notin> \<int>"
      unfolding d_def using excess_decimals_not_integral [OF frac(4) True] by (simp add: s_def)
    then show ?thesis
      using True frac ne dv by (simp add: exact_reading_def reserveScalarToBigInt_def normalizeScale_ok [OF k]
          Let_def parse_fraction_def)
  next
    case False
    define n where "n = signed_int (fst (strip_sign w)) (read_nat (snd (strip_sign w) @ pad_end k (take k f)))"
    have n: "d * 10 ^ k = of_int n"
      using signed_fraction [OF False, of "fst (strip_sign w)" "snd (strip_sign w)"]
      by (simp add: n_def d_def s_def)
    have "reserveScalarToBigInt v field (Some (of_nat k)) =
        (if n < 0 then Inl (field @ '' must be non-negative'') else Inr n)"
      using False frac ne by (simp add: reserveScalarToBigInt_def normalizeScale_ok [OF k]
          Let_def parse_fraction_def n_def)
    moreover have "d < 0" if "n < 0"
    proof -
      have "d * 10 ^ k < 0" using n that by simp
      then show ?thesis by (simp add: mult_less_0_iff)
    qed
    ultimately show ?thesis using dv n by (auto simp: exact_reading_def)
  qed
qed

text \<open>
  C33. Reading a reserve amount is exact: the result, when there is one, is the non-negative integer
  that equals the decimal number in the text times ten to the scale; a text that is no plain decimal
  number, a negative amount, or one with more decimals than the scale can represent is refused.
\<close>

theorem reserve_amount_exact:
  assumes "k \<le> 30"
  shows "case reserveScalarToBigInt v field (Some (of_nat k)) of
           Inr n \<Rightarrow> 0 \<le> n \<and> (\<exists>d. decimal_value (js_trim v) = Some d \<and> d * 10 ^ k = of_int n)
         | Inl _ \<Rightarrow> (\<forall>d. decimal_value (js_trim v) = Some d \<longrightarrow> d < 0 \<or> d * 10 ^ k \<notin> \<int>)"
proof -
  let ?raw = "js_trim v"
  consider (int) "integer_text ?raw"
    | (frac) w f where "\<not> integer_text ?raw" "split_at (CHR ''.'') ?raw = [w, f]" "integer_text w" "all_digits f"
    | (none) "decimal_value ?raw = None" "parse_fraction ?raw k field = Inl (field @ '' must be an integer reserve amount'')"
        "\<not> integer_text ?raw"
    by (cases "integer_text ?raw", blast) (metis not_decimal)
  then have "exact_reading ?raw k (reserveScalarToBigInt v field (Some (of_nat k)))"
  proof cases
    case none
    then show ?thesis
      by (cases "?raw = []") (simp_all add: exact_reading_def reserveScalarToBigInt_def normalizeScale_ok [OF assms] Let_def)
  qed (use assms exact_integer exact_fraction in blast)+
  then show ?thesis by (simp add: exact_reading_def)
qed

theorem reserve_amount_exact_witness:
  "reserveScalarToBigInt '' 12.50 '' ''reserveA'' (Some (of_nat 2)) = Inr 1250
   \<and> (\<exists>d. decimal_value (js_trim '' 12.50 '') = Some d \<and> d * 10 ^ 2 = of_int 1250)"
proof -
  have "reserveScalarToBigInt '' 12.50 '' ''reserveA'' (Some 2) = Inr 1250" by code_simp
  with reserve_amount_exact [of 2 "'' 12.50 ''" "''reserveA''"] show ?thesis by simp
qed

section \<open>Printing and reading\<close>

definition reserve_text :: "int \<times> nat \<Rightarrow> string \<times> nat" where
  "reserve_text p =
     ((case formatReserveForDatabase (fst p) (Some (of_nat (snd p))) of Inr t \<Rightarrow> t | Inl _ \<Rightarrow> []), snd p)"

definition read_reserve_text :: "string \<times> nat \<Rightarrow> string + int \<times> nat" where
  "read_reserve_text t =
     rbind (reserveScalarToBigInt (fst t) ''reserve'' (Some (of_nat (snd t)))) (\<lambda>n. Inr (n, snd t))"

lemma digits_no_space: "is_digit c \<Longrightarrow> \<not> is_space c"
  by (auto simp: is_digit_def is_space_def)

lemma strip_sign_digits: "list_all is_digit s \<Longrightarrow> strip_sign s = (False, s)"
  by (auto simp: strip_sign_def is_digit_def split: list.split)

lemma show_nat_all_digits: "list_all is_digit (show_nat n)"
  using show_nat_digits by (simp add: list_all_iff)

lemma show_nat_integer_text: "integer_text (show_nat n)" "read_integer (show_nat n) = int n"
  by (simp_all add: integer_text_def read_integer_def strip_sign_digits show_nat_all_digits all_digits_def
      signed_int_def read_show_nat)

lemma dot_not_digit: "\<not> is_digit (CHR ''.'')"
  by (simp add: is_digit_def)

lemma integer_text_no_dot: "integer_text s \<Longrightarrow> CHR ''.'' \<notin> set s"
  using dot_not_digit
  by (auto simp: integer_text_def strip_sign_def all_digits_def list_all_iff split: list.splits if_splits)

lemma split_at_no_sep: "sep \<notin> set s \<Longrightarrow> split_at sep s = [s]"
  by (induction s) auto

lemma split_at_once: "sep \<notin> set w \<Longrightarrow> sep \<notin> set f \<Longrightarrow> split_at sep (w @ sep # f) = [w, f]"
  by (induction w) (auto simp: split_at_no_sep)

lemma length_show_nat: "n < 10 ^ k \<Longrightarrow> 0 < k \<Longrightarrow> length (show_nat n) \<le> k"
proof (induction n arbitrary: k rule: show_nat.induct)
  case (1 n)
  show ?case
  proof (cases "n < 10")
    case False
    then obtain j where j: "k = Suc j" "0 < j" using 1(2,3) by (cases k; cases "k - 1") auto
    have "n div 10 < 10 ^ j" using 1(2) j by (simp add: less_mult_imp_div_less mult.commute)
    with 1(1) [OF False _ j(2)] show ?thesis by (subst show_nat.simps) (simp add: False j)
  qed (use 1(3) in \<open>subst show_nat.simps, simp\<close>)
qed

lemma show_int_nonneg: "0 \<le> z \<Longrightarrow> show_int z = show_nat (nat z)"
  by (simp add: show_int_def)

lemma format_parse:
  assumes "0 \<le> a" "k \<le> 30"
  shows "\<exists>t. formatReserveForDatabase a (Some (of_nat k)) = Inr t
           \<and> reserveScalarToBigInt t field (Some (of_nat k)) = Inr a"
proof (cases "k = 0")
  case True
  have "js_trim (show_nat (nat a)) = show_nat (nat a)"
    using show_nat_digits digits_no_space by (intro js_trim_id) blast
  then show ?thesis
    using assms True normalizeScale_ok [of 0]
    by (simp add: formatReserveForDatabase_def reserveScalarToBigInt_def show_int_def Let_def
        show_nat_integer_text pow10_def)
next
  case False
  define w where "w = show_nat (nat (a div 10 ^ k))"
  define f where "f = pad_start k (show_nat (nat (a mod 10 ^ k)))"
  have fm: "formatReserveForDatabase a (Some (of_nat k)) = Inr (w @ CHR ''.'' # f)"
    using assms False normalizeScale_ok [OF assms(2)] show_int_nonneg [of "a mod 10 ^ k"]
      show_int_nonneg [of "a div 10 ^ k"]
    by (simp add: formatReserveForDatabase_def Let_def pow10_def w_def f_def pos_imp_zdiv_nonneg_iff)
  have m: "nat (a mod 10 ^ k) < 10 ^ k" by (simp add: nat_less_iff)
  have len: "length f = k"
    using length_show_nat [OF m] False by (simp add: f_def pad_start_def)
  have digits: "list_all is_digit w" "list_all is_digit f"
    using show_nat_all_digits by (auto simp: w_def f_def pad_start_def list_all_iff is_digit_def)
  have nodot: "CHR ''.'' \<notin> set w" "CHR ''.'' \<notin> set f"
    using digits dot_not_digit by (auto simp: list_all_iff)
  have trim: "js_trim (w @ CHR ''.'' # f) = w @ CHR ''.'' # f"
    using digits digits_no_space by (intro js_trim_id) (auto simp: list_all_iff is_space_def)
  have notint: "\<not> integer_text (w @ CHR ''.'' # f)"
    using integer_text_no_dot [of "w @ CHR ''.'' # f"] by auto
  have wf: "integer_text w" "all_digits f"
    using show_nat_integer_text(1) digits(2) len False by (auto simp: w_def all_digits_def)
  have "pad_end k (take k f) = f" using len by (simp add: pad_end_def)
  then have "parse_fraction (w @ CHR ''.'' # f) k field = Inr (int (read_nat (w @ f)))"
    using nodot wf len digits(1)
    by (simp add: parse_fraction_def split_at_once signed_int_def strip_sign_digits)
  moreover have "int (read_nat (w @ f)) = a"
  proof -
    have "read_nat (w @ f) = nat (a div 10 ^ k) * 10 ^ k + nat (a mod 10 ^ k)"
      by (simp add: read_nat_append len) (simp add: w_def f_def read_show_nat read_pad_start)
    then show ?thesis
      using assms(1) div_mult_mod_eq [of a "10 ^ k"] by (simp add: pos_imp_zdiv_nonneg_iff)
  qed
  ultimately show ?thesis
    using fm trim notint normalizeScale_ok [OF assms(2)] assms(1)
    by (simp add: reserveScalarToBigInt_def Let_def)
qed

interpretation resc: codec reserve_text read_reserve_text "\<lambda>(a, k). 0 \<le> a \<and> k \<le> 30"
proof
  fix p :: "int \<times> nat"
  assume "case p of (a, k) \<Rightarrow> 0 \<le> a \<and> k \<le> 30"
  then have "0 \<le> fst p" "snd p \<le> 30" by (auto split: prod.splits)
  from format_parse [OF this, of "''reserve''"] show "read_reserve_text (reserve_text p) = Inr p"
    by (auto simp: reserve_text_def read_reserve_text_def)
qed

section \<open>SQL texts\<close>

definition is_ident_start :: "char \<Rightarrow> bool" where
  "is_ident_start c \<longleftrightarrow> is_upper c \<or> is_lower c \<or> c = CHR ''_''"

definition is_ident_char :: "char \<Rightarrow> bool" where
  "is_ident_char c \<longleftrightarrow> is_ident_start c \<or> is_digit c"

definition is_identifier :: "string \<Rightarrow> bool" where
  "is_identifier s = (case s of [] \<Rightarrow> False | c # cs \<Rightarrow> is_ident_start c \<and> list_all is_ident_char cs)"

definition dquote :: "string \<Rightarrow> string" where
  "dquote s = CHR 0x22 # s @ [CHR 0x22]"

definition quoteSqlIdentifierPath :: "string \<Rightarrow> string + string" where
  "quoteSqlIdentifierPath identifier =
     (let parts = split_at (CHR ''.'') identifier
      in if length parts = 0 \<or> list_ex (\<lambda>part. \<not> is_identifier part) parts
         then Inl (''Invalid SQL identifier: '' @ identifier)
         else Inr (join_with ''.'' (map dquote parts)))"

definition quoteSqlLiteral :: "string \<Rightarrow> string" where
  "quoteSqlLiteral v =
     [CHR 0x27] @ concat (map (\<lambda>c. if c = CHR 0x27 then [CHR 0x27, CHR 0x27] else [c]) v) @ [CHR 0x27]"

text \<open>
  An SQL lexer on what was quoted: the body of a literal up to its closing quote, where a doubled quote
  is one quote character; and a path of double-quoted identifiers.
\<close>

fun lex_literal_body :: "string \<Rightarrow> (string \<times> string) option" where
  "lex_literal_body [] = None"
| "lex_literal_body (c # cs) =
     (if c = CHR 0x27
      then case cs of
             c' # cs' \<Rightarrow>
               if c' = CHR 0x27 then map_option (\<lambda>(v, rest). (CHR 0x27 # v, rest)) (lex_literal_body cs')
               else Some ([], cs)
           | [] \<Rightarrow> Some ([], [])
      else map_option (\<lambda>(v, rest). (c # v, rest)) (lex_literal_body cs))"

definition lex_literal :: "string \<Rightarrow> (string \<times> string) option" where
  "lex_literal s = (case s of c # cs \<Rightarrow> if c = CHR 0x27 then lex_literal_body cs else None | [] \<Rightarrow> None)"

lemma lex_literal_body_quoted:
  assumes "rest = [] \<or> hd rest \<noteq> CHR 0x27"
  shows "lex_literal_body (concat (map (\<lambda>c. if c = CHR 0x27 then [CHR 0x27, CHR 0x27] else [c]) v)
           @ [CHR 0x27] @ rest) = Some (v, rest)"
  using assms by (induction v) (auto split: list.split)

lemma identifier_chars: "is_identifier part \<Longrightarrow> c \<in> set part \<Longrightarrow> is_ident_char c"
  by (auto simp: is_identifier_def is_ident_char_def list_all_iff split: list.splits)

text \<open>
  Configured names and values cannot leave their quotes: a quoted literal is read back by the SQL
  lexer as exactly the value, whatever quotes it contains and whatever follows; a name is accepted only
  if every dot-separated part is an identifier, and its text is then these parts in double quotes,
  none of which contains a quote.
\<close>

theorem sql_quoting_safe:
  "(rest = [] \<or> hd rest \<noteq> CHR 0x27 \<longrightarrow> lex_literal (quoteSqlLiteral v @ rest) = Some (v, rest))
   \<and> (case quoteSqlIdentifierPath name of
        Inr t \<Rightarrow> t = join_with ''.'' (map dquote (split_at (CHR ''.'') name))
          \<and> (\<forall>part \<in> set (split_at (CHR ''.'') name). is_identifier part \<and> CHR 0x22 \<notin> set part)
      | Inl _ \<Rightarrow> \<exists>part \<in> set (split_at (CHR ''.'') name). \<not> is_identifier part)"
proof -
  have "CHR 0x22 \<notin> set part" if "is_identifier part" for part
    using identifier_chars [OF that, of "CHR 0x22"]
    by (auto simp: is_ident_char_def is_ident_start_def is_upper_def is_lower_def is_digit_def)
  then have "case quoteSqlIdentifierPath name of
        Inr t \<Rightarrow> t = join_with ''.'' (map dquote (split_at (CHR ''.'') name))
          \<and> (\<forall>part \<in> set (split_at (CHR ''.'') name). is_identifier part \<and> CHR 0x22 \<notin> set part)
      | Inl _ \<Rightarrow> \<exists>part \<in> set (split_at (CHR ''.'') name). \<not> is_identifier part"
    using split_at_not_Nil [of "CHR ''.''" name]
    by (auto simp: quoteSqlIdentifierPath_def Let_def list_ex_iff)
  moreover have "rest = [] \<or> hd rest \<noteq> CHR 0x27 \<longrightarrow> lex_literal (quoteSqlLiteral v @ rest) = Some (v, rest)"
    using lex_literal_body_quoted [of rest v] by (simp add: lex_literal_def quoteSqlLiteral_def)
  ultimately show ?thesis by (rule conjI [rotated])
qed

theorem sql_quoting_safe_witness:
  "lex_literal (quoteSqlLiteral (squote ''x; --'') @ '' AS y'') = Some (squote ''x; --'', '' AS y'')
   \<and> quoteSqlIdentifierPath ''public.pools'' = Inr (dquote ''public'' @ ''.'' @ dquote ''pools'')"
proof -
  have "quoteSqlIdentifierPath ''public.pools'' = Inr (dquote ''public'' @ ''.'' @ dquote ''pools'')"
    by code_simp
  with sql_quoting_safe [of "'' AS y''" "squote ''x; --''" "''public.pools''"] show ?thesis by simp
qed

section \<open>The reserve store\<close>

datatype storage_key_format = KF_auto | KF_symbol | KF_string | KF_hex | KF_base64 | KF_u32 | KF_u64
  | KF_i128 | KF_u128

definition storage_key_formats :: "(string \<times> storage_key_format) list" where
  "storage_key_formats =
     [(''auto'', KF_auto), (''symbol'', KF_symbol), (''string'', KF_string), (''hex'', KF_hex),
      (''base64'', KF_base64), (''u32'', KF_u32), (''u64'', KF_u64), (''i128'', KF_i128), (''u128'', KF_u128)]"

definition normalizeStorageKeyFormat :: "string option \<Rightarrow> string + storage_key_format option" where
  "normalizeStorageKeyFormat v =
     (case v of
        None \<Rightarrow> Inr None
      | Some t \<Rightarrow>
          if t = '''' then Inr None
          else case jm_get storage_key_formats (toLowerCase t) of
                 None \<Rightarrow> Inl (''Unsupported Soroban storage key format: '' @ t)
               | Some f \<Rightarrow> Inr (Some f))"

record pool_record =
  po_poolAddress :: string
  po_contractId :: string
  po_reserveA :: string
  po_reserveB :: string
  po_reserveAStorageKey :: string
  po_reserveBStorageKey :: string
  po_reserveAStorageKeyFormat :: "storage_key_format option"
  po_reserveBStorageKeyFormat :: "storage_key_format option"
  po_reserveScale :: "rat option"
  po_reserveAScale :: "rat option"
  po_reserveBScale :: "rat option"
  po_lastSyncedLedger :: "rat option"

text \<open>A row as the query returns it: texts, or SQL \<open>NULL\<close>.\<close>

record raw_row =
  rw_poolAddress :: string
  rw_contractId :: string
  rw_reserveA :: string
  rw_reserveB :: string
  rw_reserveAStorageKey :: string
  rw_reserveBStorageKey :: string
  rw_reserveAStorageKeyFormat :: "string option"
  rw_reserveBStorageKeyFormat :: "string option"
  rw_reserveScale :: "string option"
  rw_reserveAScale :: "string option"
  rw_reserveBScale :: "string option"
  rw_lastSyncedLedger :: "string option"

text \<open>\<open>toNumber\<close> is the finite number \<open>Number\<close> reads from a text, if there is one.\<close>

definition normalizeOptionalNumber :: "(string \<Rightarrow> rat option) \<Rightarrow> string option \<Rightarrow> rat option" where
  "normalizeOptionalNumber toNumber v =
     (case v of None \<Rightarrow> None | Some t \<Rightarrow> if t = '''' then None else toNumber t)"

definition rowToReserveRecord :: "(string \<Rightarrow> rat option) \<Rightarrow> raw_row \<Rightarrow> string + pool_record" where
  "rowToReserveRecord toNumber row =
     rbind (normalizeStorageKeyFormat (rw_reserveAStorageKeyFormat row)) (\<lambda>formatA.
     rbind (normalizeStorageKeyFormat (rw_reserveBStorageKeyFormat row)) (\<lambda>formatB.
     Inr \<lparr>po_poolAddress = rw_poolAddress row, po_contractId = rw_contractId row,
          po_reserveA = rw_reserveA row, po_reserveB = rw_reserveB row,
          po_reserveAStorageKey = rw_reserveAStorageKey row,
          po_reserveBStorageKey = rw_reserveBStorageKey row,
          po_reserveAStorageKeyFormat = formatA, po_reserveBStorageKeyFormat = formatB,
          po_reserveScale = normalizeOptionalNumber toNumber (rw_reserveScale row),
          po_reserveAScale = normalizeOptionalNumber toNumber (rw_reserveAScale row),
          po_reserveBScale = normalizeOptionalNumber toNumber (rw_reserveBScale row),
          po_lastSyncedLedger = normalizeOptionalNumber toNumber (rw_lastSyncedLedger row)\<rparr>))"

datatype reserve_side = SideA | SideB

definition reserveScaleFor :: "pool_record \<Rightarrow> reserve_side \<Rightarrow> string + nat" where
  "reserveScaleFor pool side =
     (let own = (case side of SideA \<Rightarrow> po_reserveAScale pool | SideB \<Rightarrow> po_reserveBScale pool);
          scale = (case own of Some x \<Rightarrow> Some x | None \<Rightarrow> po_reserveScale pool)
      in normalizeScale scale (case side of SideA \<Rightarrow> ''reserveAScale'' | SideB \<Rightarrow> ''reserveBScale''))"

record store_options =
  so_tableName :: string
  so_poolAddressColumn :: string
  so_contractIdColumn :: string
  so_reserveAColumn :: string
  so_reserveBColumn :: string
  so_reserveAStorageKeyColumn :: string
  so_reserveBStorageKeyColumn :: string
  so_reserveAStorageKeyFormatColumn :: "string option"
  so_reserveBStorageKeyFormatColumn :: "string option"
  so_reserveScaleColumn :: "string option"
  so_reserveAScaleColumn :: "string option"
  so_reserveBScaleColumn :: "string option"
  so_ledgerSeqColumn :: string
  so_updatedAtColumn :: string
  so_activeColumn :: "string option"
  so_limit :: rat

text \<open>
  The constructor: each setting is the option, else the environment variable, else a default;
  \<open>opt\<close> gives the options by name and \<open>toNumber\<close> reads the limit.
\<close>

definition setting :: "(string \<Rightarrow> string option) \<Rightarrow> (string \<Rightarrow> string option) \<Rightarrow> string \<Rightarrow> string \<Rightarrow> string option" where
  "setting opt env name var = (case opt name of Some v \<Rightarrow> Some v | None \<Rightarrow> env var)"

definition setting_or :: "(string \<Rightarrow> string option) \<Rightarrow> (string \<Rightarrow> string option) \<Rightarrow> string \<Rightarrow> string \<Rightarrow> string \<Rightarrow> string" where
  "setting_or opt env name var fallback = (case setting opt env name var of Some v \<Rightarrow> v | None \<Rightarrow> fallback)"

definition envInt :: "(string \<Rightarrow> rat option) \<Rightarrow> (string \<Rightarrow> string option) \<Rightarrow> string \<Rightarrow> int \<Rightarrow> string + int" where
  "envInt toNumber env name fallback =
     (case env name of
        None \<Rightarrow> Inr fallback
      | Some raw \<Rightarrow>
          if raw = '''' then Inr fallback
          else case toNumber raw of
                 None \<Rightarrow> Inl (name @ '' must be a positive integer'')
               | Some v \<Rightarrow> requirePositiveInteger v name)"

definition DEFAULT_LIMIT :: int where "DEFAULT_LIMIT = 500"

definition new_PrismaAmmReserveStore ::
  "(string \<Rightarrow> rat option) \<Rightarrow> (string \<Rightarrow> string option) \<Rightarrow> (string \<Rightarrow> string option) \<Rightarrow> rat option
     \<Rightarrow> string + store_options" where
  "new_PrismaAmmReserveStore toNumber opt env limit =
     rbind (case limit of
              Some l \<Rightarrow> Inr l
            | None \<Rightarrow> rbind (envInt toNumber env ''AMM_RESERVE_DIVERGENCE_POOL_LIMIT'' DEFAULT_LIMIT)
                       (\<lambda>l. Inr (of_int l))) (\<lambda>lim.
     Inr \<lparr>so_tableName = setting_or opt env ''tableName'' ''AMM_RESERVE_DIVERGENCE_TABLE'' ''amm_pool_reserves'',
          so_poolAddressColumn = setting_or opt env ''poolAddressColumn'' ''AMM_RESERVE_POOL_ADDRESS_COLUMN'' ''pool_address'',
          so_contractIdColumn = setting_or opt env ''contractIdColumn'' ''AMM_RESERVE_CONTRACT_ID_COLUMN'' ''contract_id'',
          so_reserveAColumn = setting_or opt env ''reserveAColumn'' ''AMM_RESERVE_A_COLUMN'' ''reserve_a'',
          so_reserveBColumn = setting_or opt env ''reserveBColumn'' ''AMM_RESERVE_B_COLUMN'' ''reserve_b'',
          so_reserveAStorageKeyColumn = setting_or opt env ''reserveAStorageKeyColumn'' ''AMM_RESERVE_A_STORAGE_KEY_COLUMN'' ''reserve_a_storage_key'',
          so_reserveBStorageKeyColumn = setting_or opt env ''reserveBStorageKeyColumn'' ''AMM_RESERVE_B_STORAGE_KEY_COLUMN'' ''reserve_b_storage_key'',
          so_reserveAStorageKeyFormatColumn = setting opt env ''reserveAStorageKeyFormatColumn'' ''AMM_RESERVE_A_STORAGE_KEY_FORMAT_COLUMN'',
          so_reserveBStorageKeyFormatColumn = setting opt env ''reserveBStorageKeyFormatColumn'' ''AMM_RESERVE_B_STORAGE_KEY_FORMAT_COLUMN'',
          so_reserveScaleColumn = setting opt env ''reserveScaleColumn'' ''AMM_RESERVE_SCALE_COLUMN'',
          so_reserveAScaleColumn = setting opt env ''reserveAScaleColumn'' ''AMM_RESERVE_A_SCALE_COLUMN'',
          so_reserveBScaleColumn = setting opt env ''reserveBScaleColumn'' ''AMM_RESERVE_B_SCALE_COLUMN'',
          so_ledgerSeqColumn = setting_or opt env ''ledgerSeqColumn'' ''AMM_RESERVE_LEDGER_SEQ_COLUMN'' ''last_synced_ledger'',
          so_updatedAtColumn = setting_or opt env ''updatedAtColumn'' ''AMM_RESERVE_UPDATED_AT_COLUMN'' ''updated_at'',
          so_activeColumn = setting opt env ''activeColumn'' ''AMM_RESERVE_ACTIVE_COLUMN'',
          so_limit = lim\<rparr>)"

definition newline :: string where "newline = [CHR 0x0A]"

definition optional_column :: "string option \<Rightarrow> (string \<Rightarrow> string) \<Rightarrow> string \<Rightarrow> string + string" where
  "optional_column c f fallback =
     (case c of
        Some name \<Rightarrow> if name = '''' then Inr fallback else rbind (quoteSqlIdentifierPath name) (\<lambda>t. Inr (f t))
      | None \<Rightarrow> Inr fallback)"

text \<open>The statement of \<open>listTrackedPools\<close>, line by line.\<close>

definition list_pools_sql :: "store_options \<Rightarrow> string + string" where
  "list_pools_sql so =
     rbind (quoteSqlIdentifierPath (so_tableName so)) (\<lambda>table.
     rbind (quoteSqlIdentifierPath (so_poolAddressColumn so)) (\<lambda>poolAddress.
     rbind (quoteSqlIdentifierPath (so_updatedAtColumn so)) (\<lambda>updatedAt.
     rbind (optional_column (so_activeColumn so) (\<lambda>t. ''WHERE '' @ t @ '' = TRUE'') '''') (\<lambda>activeWhere.
     rbind (optional_column (so_reserveScaleColumn so) (\<lambda>t. t @ ''::text'') ''NULL'') (\<lambda>reserveScaleSelect.
     rbind (optional_column (so_reserveAScaleColumn so) (\<lambda>t. t @ ''::text'') ''NULL'') (\<lambda>reserveAScaleSelect.
     rbind (optional_column (so_reserveBScaleColumn so) (\<lambda>t. t @ ''::text'') ''NULL'') (\<lambda>reserveBScaleSelect.
     rbind (optional_column (so_reserveAStorageKeyFormatColumn so) (\<lambda>t. t @ ''::text'') (quoteSqlLiteral ''auto''))
       (\<lambda>reserveAFormatSelect.
     rbind (optional_column (so_reserveBStorageKeyFormatColumn so) (\<lambda>t. t @ ''::text'') (quoteSqlLiteral ''auto''))
       (\<lambda>reserveBFormatSelect.
     rbind (quoteSqlIdentifierPath (so_contractIdColumn so)) (\<lambda>contractId.
     rbind (quoteSqlIdentifierPath (so_reserveAColumn so)) (\<lambda>reserveA.
     rbind (quoteSqlIdentifierPath (so_reserveBColumn so)) (\<lambda>reserveB.
     rbind (quoteSqlIdentifierPath (so_reserveAStorageKeyColumn so)) (\<lambda>keyA.
     rbind (quoteSqlIdentifierPath (so_reserveBStorageKeyColumn so)) (\<lambda>keyB.
     rbind (quoteSqlIdentifierPath (so_ledgerSeqColumn so)) (\<lambda>ledgerSeq.
     Inr (join_with newline
       [[],
        ''      SELECT DISTINCT ON ('' @ poolAddress @ '')'',
        ''        '' @ poolAddress @ ''::text AS '' @ dquote ''poolAddress'' @ '','',
        ''        '' @ contractId @ ''::text AS '' @ dquote ''contractId'' @ '','',
        ''        '' @ reserveA @ ''::text AS '' @ dquote ''reserveA'' @ '','',
        ''        '' @ reserveB @ ''::text AS '' @ dquote ''reserveB'' @ '','',
        ''        '' @ keyA @ ''::text AS '' @ dquote ''reserveAStorageKey'' @ '','',
        ''        '' @ keyB @ ''::text AS '' @ dquote ''reserveBStorageKey'' @ '','',
        ''        '' @ reserveAFormatSelect @ '' AS '' @ dquote ''reserveAStorageKeyFormat'' @ '','',
        ''        '' @ reserveBFormatSelect @ '' AS '' @ dquote ''reserveBStorageKeyFormat'' @ '','',
        ''        '' @ reserveScaleSelect @ '' AS '' @ dquote ''reserveScale'' @ '','',
        ''        '' @ reserveAScaleSelect @ '' AS '' @ dquote ''reserveAScale'' @ '','',
        ''        '' @ reserveBScaleSelect @ '' AS '' @ dquote ''reserveBScale'' @ '','',
        ''        '' @ ledgerSeq @ ''::text AS '' @ dquote ''lastSyncedLedger'',
        ''      FROM '' @ table,
        ''      '' @ activeWhere,
        ''      ORDER BY '' @ poolAddress @ '', '' @ updatedAt @ '' DESC'',
        ''      LIMIT $1'',
        ''    '']))))))))))))))))"

definition listTrackedPools ::
  "(string \<Rightarrow> rat option) \<Rightarrow> (string \<Rightarrow> rat \<Rightarrow> string + raw_row list) \<Rightarrow> store_options
     \<Rightarrow> string + pool_record list" where
  "listTrackedPools toNumber queryRaw so =
     rbind (list_pools_sql so) (\<lambda>sql.
     rbind (queryRaw sql (so_limit so)) (map_result (rowToReserveRecord toNumber)))"

record live_state =
  lv_poolAddress :: string
  lv_contractId :: string
  lv_ledgerSeq :: int
  lv_reserveA :: int
  lv_reserveB :: int
  lv_observedAt :: string

text \<open>\<open>resyncPoolReserves\<close>: the statement and its parameters, given to the database client.\<close>

record resync_statement =
  rs_sql :: string
  rs_reserveA :: string
  rs_reserveB :: string
  rs_ledgerSeq :: int
  rs_poolAddress :: string

definition resyncPoolReserves :: "store_options \<Rightarrow> pool_record \<Rightarrow> live_state \<Rightarrow> string + resync_statement" where
  "resyncPoolReserves so pool live =
     rbind (quoteSqlIdentifierPath (so_tableName so)) (\<lambda>table.
     rbind (quoteSqlIdentifierPath (so_reserveAColumn so)) (\<lambda>a.
     rbind (quoteSqlIdentifierPath (so_reserveBColumn so)) (\<lambda>b.
     rbind (quoteSqlIdentifierPath (so_ledgerSeqColumn so)) (\<lambda>l.
     rbind (quoteSqlIdentifierPath (so_updatedAtColumn so)) (\<lambda>u.
     rbind (quoteSqlIdentifierPath (so_poolAddressColumn so)) (\<lambda>p.
     rbind (reserveScaleFor pool SideA) (\<lambda>scaleA.
     rbind (formatReserveForDatabase (lv_reserveA live) (Some (of_nat scaleA))) (\<lambda>textA.
     rbind (reserveScaleFor pool SideB) (\<lambda>scaleB.
     rbind (formatReserveForDatabase (lv_reserveB live) (Some (of_nat scaleB))) (\<lambda>textB.
     Inr \<lparr>rs_sql = join_with newline
            [[],
             ''      UPDATE '' @ table,
             ''      SET '' @ join_with '', ''
                [a @ '' = $1'', b @ '' = $2'', l @ '' = $3'', u @ '' = NOW()''],
             ''      WHERE '' @ p @ '' = $4'',
             ''    ''],
          rs_reserveA = textA, rs_reserveB = textB, rs_ledgerSeq = lv_ledgerSeq live,
          rs_poolAddress = po_poolAddress pool\<rparr>))))))))))"

end
