(* ===== verification/AmmDetector.thy ===== *)
theory AmmDetector
  imports AmmReserve
begin

text \<open>
  \<open>src/services/ammReserveDivergenceDetector.ts\<close>, second half: the contract's reserves read from Soroban
  values, the comparison of a pool with them, and the detector that runs the comparison every so many
  ledgers.  The functions of the Stellar SDK that build and read Soroban values are the fields of a
  record; what the RPC server and the database return are arguments.

  The lemmas: a divergence is reported exactly when the amounts differ, the resync it triggers makes
  the next comparison agree, and checks are spaced by the configured number of ledgers and never
  overlap, whatever ledgers arrive.
\<close>

section \<open>Soroban values\<close>

datatype scv_view = ScvSmall string | ScvI128 int int | ScvU128 int int | ScvOther

record 'v sdk =
  sdk_symbol :: "string \<Rightarrow> string + 'v"
  sdk_string :: "string \<Rightarrow> string + 'v"
  sdk_fromXdr :: "bytes \<Rightarrow> string + 'v"
  sdk_fromXdrBase64 :: "string \<Rightarrow> string + 'v"
  sdk_number :: "storage_key_format \<Rightarrow> string \<Rightarrow> string + 'v"
  sdk_native :: "'v \<Rightarrow> string + string"
  sdk_view :: "'v \<Rightarrow> scv_view"

text \<open>A key with an explicit format.\<close>

definition storage_key_as :: "'v sdk \<Rightarrow> string \<Rightarrow> storage_key_format \<Rightarrow> string + 'v" where
  "storage_key_as sdk rawKey fmt =
     (let key = js_trim rawKey in
      if key = '''' then Inl ''Soroban storage key cannot be empty''
      else case fmt of
             KF_string \<Rightarrow> sdk_string sdk key
           | KF_hex \<Rightarrow> sdk_fromXdr sdk (unhex key)
           | KF_base64 \<Rightarrow> sdk_fromXdrBase64 sdk key
           | KF_u32 \<Rightarrow> sdk_number sdk KF_u32 key
           | KF_u64 \<Rightarrow> sdk_number sdk KF_u64 key
           | KF_i128 \<Rightarrow> sdk_number sdk KF_i128 key
           | KF_u128 \<Rightarrow> sdk_number sdk KF_u128 key
           | _ \<Rightarrow> sdk_symbol sdk key)"

definition starts_with :: "string \<Rightarrow> string \<Rightarrow> bool" where
  "starts_with p s = (take (length p) s = p)"

definition parseSorobanStorageKey :: "'v sdk \<Rightarrow> string \<Rightarrow> storage_key_format \<Rightarrow> string + 'v" where
  "parseSorobanStorageKey sdk rawKey fmt =
     (let key = js_trim rawKey in
      if key = '''' then Inl ''Soroban storage key cannot be empty''
      else if fmt = KF_auto then
        (if starts_with ''symbol:'' key then storage_key_as sdk (drop (length ''symbol:'') key) KF_symbol
         else if starts_with ''string:'' key then storage_key_as sdk (drop (length ''string:'') key) KF_string
         else if starts_with ''hex:'' key then storage_key_as sdk (drop (length ''hex:'') key) KF_hex
         else if starts_with ''base64:'' key then storage_key_as sdk (drop (length ''base64:'') key) KF_base64
         else if list_all (\<lambda>c. hex_value c \<noteq> None) key \<and> even (length key)
         then (case storage_key_as sdk key KF_hex of Inr v \<Rightarrow> Inr v | Inl _ \<Rightarrow> sdk_symbol sdk key)
         else sdk_symbol sdk key)
      else storage_key_as sdk key fmt)"

definition scValPartsToBigInt :: "int \<Rightarrow> int \<Rightarrow> int" where
  "scValPartsToBigInt hi lo = hi * 2 ^ 64 + lo"

definition parseReserveScVal :: "'v sdk \<Rightarrow> 'v \<Rightarrow> string \<Rightarrow> string + int" where
  "parseReserveScVal sdk v field =
     (case rbind (sdk_native sdk v) (\<lambda>t. reserveScalarToBigInt t field None) of
        Inr n \<Rightarrow> Inr n
      | Inl _ \<Rightarrow>
          (case sdk_view sdk v of
             ScvSmall t \<Rightarrow> reserveScalarToBigInt t field None
           | ScvI128 hi lo \<Rightarrow>
               (let amount = scValPartsToBigInt hi lo
                in if amount < 0 then Inl (field @ '' must be non-negative'') else Inr amount)
           | ScvU128 hi lo \<Rightarrow> Inr (scValPartsToBigInt hi lo)
           | ScvOther \<Rightarrow> Inl (field @ '' contract storage value is not a reserve integer'')))"

definition getPoolReserves ::
  "'v sdk \<Rightarrow> (string \<Rightarrow> 'v \<Rightarrow> string + 'v) \<Rightarrow> string \<Rightarrow> pool_record \<Rightarrow> int \<Rightarrow> string + live_state" where
  "getPoolReserves sdk getContractData observedAt pool ledgerSeq =
     (let key = (\<lambda>k f. parseSorobanStorageKey sdk k (case f of None \<Rightarrow> KF_auto | Some x \<Rightarrow> x)) in
      rbind (key (po_reserveAStorageKey pool) (po_reserveAStorageKeyFormat pool)) (\<lambda>keyA.
      rbind (key (po_reserveBStorageKey pool) (po_reserveBStorageKeyFormat pool)) (\<lambda>keyB.
      rbind (getContractData (po_contractId pool) keyA) (\<lambda>entryA.
      rbind (getContractData (po_contractId pool) keyB) (\<lambda>entryB.
      rbind (parseReserveScVal sdk entryA ''reserveA'') (\<lambda>a.
      rbind (parseReserveScVal sdk entryB ''reserveB'') (\<lambda>b.
      Inr \<lparr>lv_poolAddress = po_poolAddress pool, lv_contractId = po_contractId pool,
           lv_ledgerSeq = ledgerSeq, lv_reserveA = a, lv_reserveB = b, lv_observedAt = observedAt\<rparr>)))))))"

lemma reserve_nonneg: "reserveScalarToBigInt t field scale = Inr n \<Longrightarrow> 0 \<le> n"
  by (auto simp: reserveScalarToBigInt_def rbind_eq_Inr Let_def split: if_splits)

lemma parseReserveScVal_nonneg:
  assumes "parseReserveScVal sdk v field = Inr n"
    and "\<And>hi lo. sdk_view sdk v = ScvU128 hi lo \<Longrightarrow> 0 \<le> hi \<and> 0 \<le> lo"
  shows "0 \<le> n"
  using assms
  by (auto simp: parseReserveScVal_def scValPartsToBigInt_def Let_def rbind_eq_Inr
      dest!: reserve_nonneg split: sum.splits scv_view.splits if_splits)

section \<open>Comparing a pool\<close>

record amm_divergence =
  dv_poolAddress :: string
  dv_contractId :: string
  dv_ledgerSeq :: int
  dv_databaseReserveA :: string
  dv_databaseReserveB :: string
  dv_contractReserveA :: string
  dv_contractReserveB :: string
  dv_deltaA :: string
  dv_deltaB :: string
  dv_observedAt :: string

definition database_reserve :: "pool_record \<Rightarrow> reserve_side \<Rightarrow> string + int" where
  "database_reserve pool side =
     rbind (reserveScaleFor pool side) (\<lambda>scale.
       case side of
         SideA \<Rightarrow> reserveScalarToBigInt (po_reserveA pool) ''reserveA'' (Some (of_nat scale))
       | SideB \<Rightarrow> reserveScalarToBigInt (po_reserveB pool) ''reserveB'' (Some (of_nat scale)))"

text \<open>
  \<open>evaluatePool\<close> up to the alert and the resync: the divergence, if there is one.  The two effects are
  then started together and a failure of either is only logged.
\<close>

definition compare_pool :: "pool_record \<Rightarrow> int \<Rightarrow> string + live_state \<Rightarrow> string + amm_divergence option" where
  "compare_pool pool ledgerSeq liveResult =
     rbind (database_reserve pool SideA) (\<lambda>dbA.
     rbind (database_reserve pool SideB) (\<lambda>dbB.
     rbind liveResult (\<lambda>live.
       let deltaA = lv_reserveA live - dbA; deltaB = lv_reserveB live - dbB in
       if deltaA = 0 \<and> deltaB = 0 then Inr None
       else Inr (Some
         \<lparr>dv_poolAddress = po_poolAddress pool, dv_contractId = po_contractId pool, dv_ledgerSeq = ledgerSeq,
          dv_databaseReserveA = show_int dbA, dv_databaseReserveB = show_int dbB,
          dv_contractReserveA = show_int (lv_reserveA live), dv_contractReserveB = show_int (lv_reserveB live),
          dv_deltaA = show_int deltaA, dv_deltaB = show_int deltaB, dv_observedAt = lv_observedAt live\<rparr>))))"

text \<open>The alert raised for a divergence.\<close>

record amm_alert =
  aa_title :: string
  aa_message :: string
  aa_details :: "(string \<times> string) list"
  aa_service :: string

definition dispatchDivergence :: "amm_divergence \<Rightarrow> amm_alert" where
  "dispatchDivergence d =
     \<lparr>aa_title = ''AMM pool reserve divergence detected'',
      aa_message = ''Pool '' @ dv_poolAddress d @ '' reserve mismatch at ledger '' @ show_int (dv_ledgerSeq d)
        @ '': '' @ ''deltaA='' @ dv_deltaA d @ '', deltaB='' @ dv_deltaB d @ ''.'',
      aa_details =
        [(''pool_address'', dv_poolAddress d), (''contract_id'', dv_contractId d),
         (''ledger_seq'', show_int (dv_ledgerSeq d)),
         (''database_reserve_a'', dv_databaseReserveA d), (''database_reserve_b'', dv_databaseReserveB d),
         (''contract_reserve_a'', dv_contractReserveA d), (''contract_reserve_b'', dv_contractReserveB d),
         (''delta_a'', dv_deltaA d), (''delta_b'', dv_deltaB d),
         (''action_required'', ''Automated database reserve re-sync triggered'')],
      aa_service = ''amm-reserve-divergence-detector''\<rparr>"

text \<open>All that \<open>evaluatePool\<close> does: the divergence with the alert and the resync statement it triggers.\<close>

definition evaluatePool ::
  "store_options \<Rightarrow> pool_record \<Rightarrow> int \<Rightarrow> string + live_state
     \<Rightarrow> string + (amm_divergence \<times> amm_alert \<times> (string + resync_statement)) option" where
  "evaluatePool so pool ledgerSeq liveResult =
     rbind (compare_pool pool ledgerSeq liveResult) (\<lambda>d.
     rbind liveResult (\<lambda>live.
       Inr (map_option (\<lambda>dv. (dv, dispatchDivergence dv, resyncPoolReserves so pool live)) d)))"

definition check_results ::
  "store_options \<Rightarrow> pool_record list \<Rightarrow> int \<Rightarrow> (pool_record \<Rightarrow> string + live_state) \<Rightarrow> amm_divergence list" where
  "check_results so pools ledgerSeq live =
     concat (map (\<lambda>pool. case evaluatePool so pool ledgerSeq (live pool) of
                           Inr (Some (d, _, _)) \<Rightarrow> [d]
                         | _ \<Rightarrow> []) pools)"

text \<open>The row after the resync statement ran.\<close>

definition resynced :: "resync_statement \<Rightarrow> pool_record \<Rightarrow> pool_record" where
  "resynced st pool =
     pool\<lparr>po_reserveA := rs_reserveA st, po_reserveB := rs_reserveB st,
          po_lastSyncedLedger := Some (of_int (rs_ledgerSeq st))\<rparr>"

lemma reserveScaleFor_bound: "reserveScaleFor pool side = Inr k \<Longrightarrow> k \<le> 30"
  unfolding reserveScaleFor_def Let_def by (rule normalizeScale_bound)

lemma reserveScaleFor_resynced [simp]: "reserveScaleFor (resynced st pool) side = reserveScaleFor pool side"
  by (simp add: reserveScaleFor_def resynced_def cong: reserve_side.case_cong option.case_cong)

text \<open>
  A pool is reported exactly when its database amounts differ from the contract's; and when the
  resync statement of such a report can be built and is executed, the same comparison finds no
  divergence any more, for every scale and amount.
\<close>

theorem resync_repairs:
  assumes "database_reserve pool SideA = Inr dbA" "database_reserve pool SideB = Inr dbB"
    and "0 \<le> lv_reserveA live" "0 \<le> lv_reserveB live"
  shows "(\<exists>d. compare_pool pool l (Inr live) = Inr d \<and> (d = None \<longleftrightarrow> lv_reserveA live = dbA \<and> lv_reserveB live = dbB))
       \<and> (\<forall>st. resyncPoolReserves so pool live = Inr st \<longrightarrow>
            compare_pool (resynced st pool) l (Inr live) = Inr None)"
proof (intro conjI allI impI)
  show "\<exists>d. compare_pool pool l (Inr live) = Inr d \<and> (d = None \<longleftrightarrow> lv_reserveA live = dbA \<and> lv_reserveB live = dbB)"
    using assms by (auto simp: compare_pool_def Let_def)
next
  fix st
  assume "resyncPoolReserves so pool live = Inr st"
  then obtain kA kB where k: "reserveScaleFor pool SideA = Inr kA" "reserveScaleFor pool SideB = Inr kB"
      "formatReserveForDatabase (lv_reserveA live) (Some (of_nat kA)) = Inr (rs_reserveA st)"
      "formatReserveForDatabase (lv_reserveB live) (Some (of_nat kB)) = Inr (rs_reserveB st)"
    by (auto simp: resyncPoolReserves_def rbind_eq_Inr)
  have "reserveScalarToBigInt (rs_reserveA st) ''reserveA'' (Some (of_nat kA)) = Inr (lv_reserveA live)"
    using format_parse [OF assms(3) reserveScaleFor_bound [OF k(1)], of "''reserveA''"] k(3) by auto
  moreover have "reserveScalarToBigInt (rs_reserveB st) ''reserveB'' (Some (of_nat kB)) = Inr (lv_reserveB live)"
    using format_parse [OF assms(4) reserveScaleFor_bound [OF k(2)], of "''reserveB''"] k(4) by auto
  ultimately have "database_reserve (resynced st pool) SideA = Inr (lv_reserveA live)"
      "database_reserve (resynced st pool) SideB = Inr (lv_reserveB live)"
    using k(1,2) by (simp_all add: database_reserve_def) (simp_all add: resynced_def)
  then show "compare_pool (resynced st pool) l (Inr live) = Inr None"
    by (simp add: compare_pool_def Let_def)
qed

theorem resync_repairs_witness:
  "let pool = \<lparr>po_poolAddress = ''P'', po_contractId = ''C'', po_reserveA = ''1.50'', po_reserveB = ''7'',
               po_reserveAStorageKey = ''a'', po_reserveBStorageKey = ''b'', po_reserveAStorageKeyFormat = None,
               po_reserveBStorageKeyFormat = None, po_reserveScale = None, po_reserveAScale = Some 2,
               po_reserveBScale = None, po_lastSyncedLedger = None\<rparr>;
       live = \<lparr>lv_poolAddress = ''P'', lv_contractId = ''C'', lv_ledgerSeq = 100, lv_reserveA = 1205,
               lv_reserveB = 7, lv_observedAt = ''t''\<rparr>
   in \<exists>d. compare_pool pool 100 (Inr live) = Inr (Some d)"
proof -
  define pool where "pool = \<lparr>po_poolAddress = ''P'', po_contractId = ''C'', po_reserveA = ''1.50'',
    po_reserveB = ''7'', po_reserveAStorageKey = ''a'', po_reserveBStorageKey = ''b'',
    po_reserveAStorageKeyFormat = None, po_reserveBStorageKeyFormat = None, po_reserveScale = None,
    po_reserveAScale = Some 2, po_reserveBScale = None, po_lastSyncedLedger = None\<rparr>"
  define live where "live = \<lparr>lv_poolAddress = ''P'', lv_contractId = ''C'', lv_ledgerSeq = 100,
    lv_reserveA = 1205, lv_reserveB = 7, lv_observedAt = ''t''\<rparr>"
  have "database_reserve pool SideA = Inr 150" "database_reserve pool SideB = Inr 7"
    unfolding pool_def by code_simp+
  from resync_repairs [OF this, of live 100] show ?thesis
    unfolding Let_def pool_def [symmetric] live_def [symmetric] by (auto simp: live_def)
qed

section \<open>The detector\<close>

record amm_detector =
  dt_intervalLedgers :: int
  dt_pollIntervalMs :: int
  dt_timer :: bool
  dt_checking :: bool
  dt_lastCheckedLedger :: int
  dt_lastHeartbeatAt :: "int option"

definition DEFAULT_INTERVAL_LEDGERS :: int where "DEFAULT_INTERVAL_LEDGERS = 50"
definition DEFAULT_POLL_INTERVAL_MS :: int where "DEFAULT_POLL_INTERVAL_MS = 5000"

definition new_AmmReserveDivergenceDetector :: "rat option \<Rightarrow> rat option \<Rightarrow> string + amm_detector" where
  "new_AmmReserveDivergenceDetector intervalLedgers pollIntervalMs =
     rbind (requirePositiveInteger
              (case intervalLedgers of None \<Rightarrow> of_int DEFAULT_INTERVAL_LEDGERS | Some v \<Rightarrow> v)
              ''AMM reserve divergence interval'') (\<lambda>il.
     rbind (requirePositiveInteger
              (case pollIntervalMs of None \<Rightarrow> of_int DEFAULT_POLL_INTERVAL_MS | Some v \<Rightarrow> v)
              ''AMM reserve divergence poll interval'') (\<lambda>pm.
     Inr \<lparr>dt_intervalLedgers = il, dt_pollIntervalMs = pm, dt_timer = False, dt_checking = False,
          dt_lastCheckedLedger = 0, dt_lastHeartbeatAt = None\<rparr>))"

definition dt_start :: "amm_detector \<Rightarrow> amm_detector" where
  "dt_start d = (if dt_timer d then d else d\<lparr>dt_timer := True\<rparr>)"

definition dt_stop :: "amm_detector \<Rightarrow> amm_detector" where
  "dt_stop d = d\<lparr>dt_timer := False\<rparr>"

definition getHeartbeatTimeoutMs :: "amm_detector \<Rightarrow> int" where
  "getHeartbeatTimeoutMs d = max (dt_pollIntervalMs d * 4) 30000"

text \<open>
  \<open>checkAtLedger\<close> up to its first await (whether the check was started), and its \<open>finally\<close> clause.
\<close>

definition check_begin :: "int \<Rightarrow> int \<Rightarrow> amm_detector \<Rightarrow> bool \<times> amm_detector" where
  "check_begin now ledgerSeq d =
     (if dt_checking d then (False, d)
      else (True, d\<lparr>dt_checking := True, dt_lastCheckedLedger := ledgerSeq, dt_lastHeartbeatAt := Some now\<rparr>))"

definition check_end :: "amm_detector \<Rightarrow> amm_detector" where
  "check_end d = d\<lparr>dt_checking := False\<rparr>"

definition onNewLedger :: "int \<Rightarrow> rat \<Rightarrow> amm_detector \<Rightarrow> string + bool \<times> amm_detector" where
  "onNewLedger now ledgerSeq d =
     (if of_int \<lfloor>ledgerSeq\<rfloor> \<noteq> ledgerSeq \<or> ledgerSeq \<le> 0 then Inl ''ledgerSeq must be a positive integer''
      else if dt_checking d then Inr (False, d)
      else if \<lfloor>ledgerSeq\<rfloor> - dt_lastCheckedLedger d < dt_intervalLedgers d then Inr (False, d)
      else Inr (check_begin now \<lfloor>ledgerSeq\<rfloor> d))"

text \<open>
  Polls and completions in any order; the ledgers at which checks were started.  A poll that throws is
  only logged.
\<close>

datatype detector_event = Poll int rat | CheckDone | Start | Stop

fun detector_step :: "detector_event \<Rightarrow> amm_detector \<Rightarrow> amm_detector \<times> int list" where
  "detector_step (Poll now l) d =
     (case onNewLedger now l d of
        Inr (True, d') \<Rightarrow> (d', [\<lfloor>l\<rfloor>])
      | Inr (False, d') \<Rightarrow> (d', [])
      | Inl _ \<Rightarrow> (d, []))"
| "detector_step CheckDone d = (check_end d, [])"
| "detector_step Start d = (dt_start d, [])"
| "detector_step Stop d = (dt_stop d, [])"

fun detector_run :: "detector_event list \<Rightarrow> amm_detector \<Rightarrow> amm_detector \<times> int list" where
  "detector_run [] d = (d, [])"
| "detector_run (e # es) d =
     (let (d1, a) = detector_step e d; (d2, b) = detector_run es d1 in (d2, a @ b))"

lemma detector_step_cases:
  assumes "detector_step e d = (d', ls)"
  shows "dt_intervalLedgers d' = dt_intervalLedgers d \<and>
    (ls = [] \<and> dt_lastCheckedLedger d' = dt_lastCheckedLedger d \<or>
     (\<exists>l. ls = [l] \<and> \<not> dt_checking d \<and> dt_checking d' \<and> dt_lastCheckedLedger d' = l \<and>
        dt_lastCheckedLedger d + dt_intervalLedgers d \<le> l))"
  using assms
  by (cases e) (auto simp: onNewLedger_def check_begin_def check_end_def dt_start_def dt_stop_def
      split: if_splits)

lemma detector_run_spaced:
  "detector_run es d = (d', ls) \<Longrightarrow> 0 < dt_intervalLedgers d \<Longrightarrow>
     sorted_wrt (\<lambda>a b. a + dt_intervalLedgers d \<le> b) (dt_lastCheckedLedger d # ls)"
proof (induction es arbitrary: d ls)
  case (Cons e es)
  obtain d1 a where s: "detector_step e d = (d1, a)" by fastforce
  obtain b where b: "detector_run es d1 = (d', b)" "ls = a @ b"
    using Cons.prems(1) s by (auto split: prod.splits)
  have i: "dt_intervalLedgers d1 = dt_intervalLedgers d" using detector_step_cases [OF s] by simp
  have ih: "sorted_wrt (\<lambda>a b. a + dt_intervalLedgers d \<le> b) (dt_lastCheckedLedger d1 # b)"
    using Cons.IH [OF b(1)] Cons.prems(2) i by simp
  from detector_step_cases [OF s] Cons.prems(2) show ?case
    using ih b(2) by (auto intro: order_trans)
qed simp

text \<open>
  Checks are spaced: whatever ledger numbers the polls bring (also older ones, or ones that are no
  positive integers), however long a check takes and however often the detector is stopped and
  started, each check starts at least \<open>intervalLedgers\<close> after the one before, and none starts while
  another is running.
\<close>

theorem checks_spaced:
  assumes "new_AmmReserveDivergenceDetector interval poll = Inr d"
  shows "0 < dt_intervalLedgers d
       \<and> sorted_wrt (\<lambda>a b. a + dt_intervalLedgers d \<le> b) (snd (detector_run es d))
       \<and> (\<forall>e d' l ls. detector_step e d' = (d'', l # ls) \<longrightarrow> \<not> dt_checking d')"
proof -
  have i: "0 < dt_intervalLedgers d"
    using assms by (auto simp: new_AmmReserveDivergenceDetector_def rbind_eq_Inr requirePositiveInteger_def
        split: if_splits option.splits)
  have "sorted_wrt (\<lambda>a b. a + dt_intervalLedgers d \<le> b) (snd (detector_run es d))"
    using detector_run_spaced [of es d "fst (detector_run es d)" "snd (detector_run es d)"] i by simp
  moreover have "\<forall>e d' l ls. detector_step e d' = (d'', l # ls) \<longrightarrow> \<not> dt_checking d'"
    using detector_step_cases by blast
  ultimately show ?thesis using i by blast
qed

theorem checks_spaced_witness:
  "\<exists>d. new_AmmReserveDivergenceDetector None None = Inr d
     \<and> snd (detector_run [Poll 0 60, Poll 1 200, CheckDone, Poll 2 100, Poll 3 110] d) = [60, 110]
     \<and> sorted_wrt (\<lambda>a b. a + 50 \<le> b) (snd (detector_run [Poll 0 60, Poll 1 200, CheckDone, Poll 2 100, Poll 3 110] d))"
proof -
  define d where "d = \<lparr>dt_intervalLedgers = 50, dt_pollIntervalMs = 5000, dt_timer = False,
    dt_checking = False, dt_lastCheckedLedger = 0, dt_lastHeartbeatAt = None\<rparr>"
  have n: "new_AmmReserveDivergenceDetector None None = Inr d" unfolding d_def by code_simp
  have "snd (detector_run [Poll 0 60, Poll 1 200, CheckDone, Poll 2 100, Poll 3 110] d) = [60, 110]"
    unfolding d_def by code_simp
  with checks_spaced [OF n] n show ?thesis by (intro exI [of _ d]) (simp add: d_def)
qed

end
