(* ===== verification/QueueDepth.thy ===== *)
theory QueueDepth
  imports JSString
begin

text \<open>
  \<open>src/services/eventBus/queueDepthCollector.ts\<close>: the catalogue of watched queues and the probe
  of each of them.  The Redis and AMQP readers are interfaces the collector is given; what they
  answer during one probe, whether the probe's timer fires first, and the clock are the fields of
  a \<open>probe_env\<close>, an argument of the operations.  Depths and counts are integers below
  \<open>2^53\<close>, where JavaScript's sums are exact.

  The contract the clients rely on, a depth that is the sentinel or not negative, is the locale
  \<open>depth_source\<close>; the collector interprets it.
\<close>

section \<open>Types\<close>

datatype queue_transport = Redis_list | Redis_stream | Redis_set | Redis_pubsub | Amqp

record queue_descriptor =
  qd_name :: string
  qd_pool :: string
  qd_transport :: queue_transport
  qd_key :: "string option"
  qd_channel :: "string option"
  qd_warningThreshold :: "int option"
  qd_criticalThreshold :: "int option"
  qd_hasLocalDepth :: bool

record depth_sample =
  sm_name :: string
  sm_pool :: string
  sm_transport :: queue_transport
  sm_pending :: int
  sm_unacked :: "int option"
  sm_consumers :: "int option"
  sm_oldestPendingAgeSeconds :: "int option"
  sm_acceptingMessages :: bool
  sm_observedAt :: int
  sm_error :: "string option"

record depth_reading =
  rd_pending :: int
  rd_unacked :: "int option"
  rd_consumers :: "int option"
  rd_oldestPendingAgeSeconds :: "int option"

text \<open>What the readers answer; \<open>Inl\<close> is the message of a rejected call.\<close>

record redis_reader =
  rr_listLength :: "string \<Rightarrow> (string, int) result"
  rr_setLength :: "string \<Rightarrow> (string, int) result"
  rr_streamLength :: "string \<Rightarrow> (string, int) result"
  rr_channelSubscribers :: "string \<Rightarrow> (string, int) result"
  rr_oldestEntryAgeSeconds :: "(string \<Rightarrow> (string, int option) result) option"

record amqp_reader =
  ar_checkQueue :: "string \<Rightarrow> (string, int \<times> int) result"
  ar_managementQueueStats :: "(string \<Rightarrow> (string, (int \<times> int) option) result) option"

record probe_env =
  pe_redis :: redis_reader
  pe_amqp :: amqp_reader
  pe_localDepth :: "(string, int) result"
  pe_timerFirst :: bool
  pe_now :: int

record depth_collector =
  qc_queues :: "queue_descriptor list"
  qc_redis :: bool
  qc_amqp :: bool
  qc_probeTimeoutMs :: int

record depth_report =
  rp_samples :: "depth_sample list"
  rp_totalPending :: int
  rp_probeErrors :: "string list"
  rp_observedAt :: int

definition UNKNOWN_DEPTH :: int where "UNKNOWN_DEPTH = - 1"

section \<open>The catalogue\<close>

definition new_QueueDepthCollector :: "queue_descriptor list \<Rightarrow> bool \<Rightarrow> bool \<Rightarrow> int option \<Rightarrow> depth_collector" where
  "new_QueueDepthCollector queues redis amqp timeout =
     \<lparr>qc_queues = queues, qc_redis = redis, qc_amqp = amqp,
      qc_probeTimeoutMs = (case timeout of Some t \<Rightarrow> t | None \<Rightarrow> 5000)\<rparr>"

definition getQueues :: "depth_collector \<Rightarrow> queue_descriptor list" where
  "getQueues c = qc_queues c"

definition registerQueue :: "queue_descriptor \<Rightarrow> depth_collector \<Rightarrow> depth_collector" where
  "registerQueue d c = c\<lparr>qc_queues := qc_queues c @ [d]\<rparr>"

text \<open>The function that \<open>registerQueue\<close> returns: the first descriptor of that name is spliced out.\<close>

fun remove_first_named :: "string \<Rightarrow> queue_descriptor list \<Rightarrow> queue_descriptor list" where
  "remove_first_named n [] = []"
| "remove_first_named n (q # qs) = (if qd_name q = n then qs else q # remove_first_named n qs)"

definition unregisterQueue :: "queue_descriptor \<Rightarrow> depth_collector \<Rightarrow> depth_collector" where
  "unregisterQueue d c = c\<lparr>qc_queues := remove_first_named (qd_name d) (qc_queues c)\<rparr>"

section \<open>Probing\<close>

definition requireKey :: "queue_descriptor \<Rightarrow> (string, string) result" where
  "requireKey q = (case qd_key q of
      Some k \<Rightarrow> if k = [] then Inl (''Queue '' @ qd_name q @ '' is missing its Redis/AMQP key'') else Inr k
    | None \<Rightarrow> Inl (''Queue '' @ qd_name q @ '' is missing its Redis/AMQP key''))"

definition requireChannel :: "queue_descriptor \<Rightarrow> (string, string) result" where
  "requireChannel q = (case qd_channel q of
      Some k \<Rightarrow> if k = [] then Inl (''Queue '' @ qd_name q @ '' is missing its pub/sub channel'') else Inr k
    | None \<Rightarrow> Inl (''Queue '' @ qd_name q @ '' is missing its pub/sub channel''))"

definition oldestAge :: "redis_reader \<Rightarrow> queue_descriptor \<Rightarrow> int option" where
  "oldestAge r q = (case rr_oldestEntryAgeSeconds r of
      None \<Rightarrow> None
    | Some f \<Rightarrow> (case rbind (requireKey q) f of
          Inl _ \<Rightarrow> None
        | Inr None \<Rightarrow> None
        | Inr (Some age) \<Rightarrow> Some (max 0 age)))"

definition length_reading ::
  "(string \<Rightarrow> (string, int) result) \<Rightarrow> queue_descriptor \<Rightarrow> int \<Rightarrow> int option \<Rightarrow> (string, depth_reading) result" where
  "length_reading len q localDepth age =
     rbind (rbind (requireKey q) len) (\<lambda>n.
       Inr \<lparr>rd_pending = n + localDepth, rd_unacked = None, rd_consumers = None,
            rd_oldestPendingAgeSeconds = age\<rparr>)"

definition readRedisQueue :: "depth_collector \<Rightarrow> probe_env \<Rightarrow> queue_descriptor \<Rightarrow> (string, depth_reading) result" where
  "readRedisQueue c e q =
     (if \<not> qc_redis c then Inl ''No Redis reader configured for this collector''
      else rbind (if qd_hasLocalDepth q then pe_localDepth e else Inr 0) (\<lambda>localDepth.
        let r = pe_redis e in
        (case qd_transport q of
           Redis_list \<Rightarrow> length_reading (rr_listLength r) q localDepth (oldestAge r q)
         | Redis_set \<Rightarrow> length_reading (rr_setLength r) q localDepth None
         | Redis_stream \<Rightarrow> length_reading (rr_streamLength r) q localDepth (oldestAge r q)
         | Redis_pubsub \<Rightarrow> rbind (rbind (requireChannel q) (rr_channelSubscribers r)) (\<lambda>subscribers.
             Inr \<lparr>rd_pending = localDepth, rd_unacked = None, rd_consumers = Some subscribers,
                  rd_oldestPendingAgeSeconds = None\<rparr>)
         | Amqp \<Rightarrow> Inl ''Unsupported Redis transport: amqp'')))"

definition readAmqpQueue :: "depth_collector \<Rightarrow> probe_env \<Rightarrow> queue_descriptor \<Rightarrow> (string, depth_reading) result" where
  "readAmqpQueue c e q =
     (if \<not> qc_amqp c then Inl ''No AMQP reader configured for this collector''
      else rbind (requireKey q) (\<lambda>queueName.
        rbind (ar_checkQueue (pe_amqp e) queueName) (\<lambda>(messageCount, consumerCount).
          let unacked = (case ar_managementQueueStats (pe_amqp e) of
                None \<Rightarrow> None
              | Some f \<Rightarrow> (case f queueName of
                    Inl _ \<Rightarrow> None
                  | Inr None \<Rightarrow> None
                  | Inr (Some (ready, unacknowledged)) \<Rightarrow> Some unacknowledged))
          in Inr \<lparr>rd_pending = messageCount, rd_unacked = unacked, rd_consumers = Some consumerCount,
                  rd_oldestPendingAgeSeconds = None\<rparr>)))"

definition readQueue :: "depth_collector \<Rightarrow> probe_env \<Rightarrow> queue_descriptor \<Rightarrow> (string, depth_reading) result" where
  "readQueue c e q = (if qd_transport q = Amqp then readAmqpQueue c e q else readRedisQueue c e q)"

text \<open>\<open>Promise.race\<close> of the read and the timer: \<open>pe_timerFirst\<close> says that the timer settled first.\<close>

definition withTimeout :: "depth_collector \<Rightarrow> probe_env \<Rightarrow> (string, 'a) result \<Rightarrow> (string, 'a) result" where
  "withTimeout c e r =
     (if pe_timerFirst e
      then Inl (''Queue probe timed out after '' @ show_int (qc_probeTimeoutMs c) @ ''ms'') else r)"

definition inspect :: "depth_collector \<Rightarrow> probe_env \<Rightarrow> queue_descriptor \<Rightarrow> depth_sample" where
  "inspect c e q =
     (case withTimeout c e (readQueue c e q) of
        Inr reading \<Rightarrow>
          \<lparr>sm_name = qd_name q, sm_pool = qd_pool q, sm_transport = qd_transport q,
           sm_pending = max 0 (rd_pending reading), sm_unacked = rd_unacked reading,
           sm_consumers = rd_consumers reading,
           sm_oldestPendingAgeSeconds = rd_oldestPendingAgeSeconds reading,
           sm_acceptingMessages = (case rd_consumers reading of None \<Rightarrow> True | Some n \<Rightarrow> n > 0),
           sm_observedAt = pe_now e, sm_error = None\<rparr>
      | Inl message \<Rightarrow>
          \<lparr>sm_name = qd_name q, sm_pool = qd_pool q, sm_transport = qd_transport q,
           sm_pending = UNKNOWN_DEPTH, sm_unacked = None, sm_consumers = None,
           sm_oldestPendingAgeSeconds = None, sm_acceptingMessages = True,
           sm_observedAt = pe_now e, sm_error = Some message\<rparr>)"

text \<open>
  \<open>Promise.all\<close> keeps the order of the catalogue; the probe of the queue at position \<open>i\<close> runs in
  \<open>env i\<close>.
\<close>

definition inspect_all :: "depth_collector \<Rightarrow> (nat \<Rightarrow> probe_env) \<Rightarrow> depth_sample list" where
  "inspect_all c env = map (\<lambda>(i, q). inspect c (env i) q) (enumerate 0 (qc_queues c))"

definition collect :: "depth_collector \<Rightarrow> (nat \<Rightarrow> probe_env) \<Rightarrow> int \<Rightarrow> depth_report" where
  "collect c env now =
     (let samples = inspect_all c env in
      \<lparr>rp_samples = samples,
       rp_totalPending = foldl (\<lambda>t s. if sm_pending s > 0 then t + sm_pending s else t) 0 samples,
       rp_probeErrors = List.map_filter sm_error samples,
       rp_observedAt = now\<rparr>)"

section \<open>The contract of a sample source\<close>

definition known :: "depth_sample \<Rightarrow> bool" where
  "known s \<longleftrightarrow> sm_pending s \<noteq> UNKNOWN_DEPTH"

lemma sum_filter_mono:
  "\<forall>s \<in> set xs. Q s \<longrightarrow> (0::int) \<le> f s
   \<Longrightarrow> sum_list (map f (filter (\<lambda>s. Q s \<and> P s) xs)) \<le> sum_list (map f (filter Q xs))"
  by (induction xs) auto

text \<open>
  The clients filter out the sentinel and sum the rest; that is meaningful only when every other
  depth is a count.
\<close>

locale depth_source =
  fixes samples :: "'env \<Rightarrow> depth_sample list"
  assumes depth_valid: "s \<in> set (samples e) \<Longrightarrow> known s \<Longrightarrow> 0 \<le> sm_pending s"
begin

lemma known_iff_nonneg: "s \<in> set (samples e) \<Longrightarrow> known s \<longleftrightarrow> 0 \<le> sm_pending s"
  using depth_valid by (auto simp: known_def UNKNOWN_DEPTH_def)

lemma known_sum_nonneg: "0 \<le> sum_list (map sm_pending (filter (\<lambda>s. known s \<and> P s) (samples e)))"
  using depth_valid by (intro sum_list_nonneg) auto

lemma known_sum_mono:
  "sum_list (map sm_pending (filter (\<lambda>s. known s \<and> P s) (samples e)))
     \<le> sum_list (map sm_pending (filter known (samples e)))"
proof -
  have "\<forall>s \<in> set (samples e). known s \<longrightarrow> 0 \<le> sm_pending s" using depth_valid by blast
  then show ?thesis by (rule sum_filter_mono)
qed

end

lemma inspect_known: "known (inspect c e q) \<longleftrightarrow> sm_error (inspect c e q) = None"
  by (auto simp: inspect_def known_def UNKNOWN_DEPTH_def split: sum.split)

lemma inspect_depth: "known (inspect c e q) \<Longrightarrow> 0 \<le> sm_pending (inspect c e q)"
  by (auto simp: inspect_def known_def split: sum.split)

interpretation colls: depth_source "inspect_all c" for c
  by unfold_locales (auto simp: inspect_all_def inspect_depth)

section \<open>One report\<close>

lemma foldl_positive:
  "foldl (\<lambda>t s. if sm_pending s > 0 then t + sm_pending s else t) n xs
     = n + sum_list (map sm_pending (filter (\<lambda>s. sm_pending s > 0) xs))"
  by (induction xs arbitrary: n) auto

lemma sum_positive_known:
  "\<forall>s \<in> set xs. known s \<longrightarrow> 0 \<le> sm_pending s
   \<Longrightarrow> sum_list (map sm_pending (filter (\<lambda>s. sm_pending s > 0) xs))
         = sum_list (map sm_pending (filter known xs))"
  by (induction xs) (auto simp: known_def UNKNOWN_DEPTH_def)

lemma map_filter_errors:
  "\<forall>s \<in> set xs. known s \<longleftrightarrow> sm_error s = None
   \<Longrightarrow> map Some (List.map_filter sm_error xs) = map sm_error (filter (\<lambda>s. \<not> known s) xs)"
  by (induction xs) (auto simp: List.map_filter_def)

lemma map_snd_enumerate_f: "map (\<lambda>(i, q). f q) (enumerate n xs) = map f xs"
  by (induction xs arbitrary: n) auto

lemma inspect_all_names: "map sm_name (inspect_all c env) = map qd_name (qc_queues c)"
proof -
  have "sm_name (inspect c e q) = qd_name q" for e q by (simp add: inspect_def split: sum.split)
  then show ?thesis
    using map_snd_enumerate_f [of qd_name 0 "qc_queues c"]
    by (simp add: inspect_all_def comp_def case_prod_unfold)
qed

text \<open>
  A cycle of the collector never fails: it reports exactly one sample per watched queue, in the
  order of the catalogue; a probe that failed or timed out carries the sentinel and its message is
  one of the report's errors, every other depth is a count, and the total is the sum of the known
  depths.
\<close>
theorem collect_reports_every_queue:
  "map sm_name (rp_samples (collect c env now)) = map qd_name (getQueues c)
   \<and> (\<forall>s \<in> set (rp_samples (collect c env now)).
        (sm_error s = None \<longleftrightarrow> sm_pending s \<noteq> UNKNOWN_DEPTH)
        \<and> (sm_error s = None \<longrightarrow> 0 \<le> sm_pending s))
   \<and> map Some (rp_probeErrors (collect c env now))
       = map sm_error (filter (\<lambda>s. sm_pending s = UNKNOWN_DEPTH) (rp_samples (collect c env now)))
   \<and> rp_totalPending (collect c env now)
       = sum_list (map sm_pending (filter (\<lambda>s. sm_pending s \<noteq> UNKNOWN_DEPTH) (rp_samples (collect c env now))))"
proof -
  have k: "\<forall>s \<in> set (inspect_all c env). known s \<longleftrightarrow> sm_error s = None"
    by (auto simp: inspect_all_def inspect_known)
  have v: "\<forall>s \<in> set (inspect_all c env). known s \<longrightarrow> 0 \<le> sm_pending s"
    using colls.depth_valid by blast
  have "\<forall>s \<in> set (inspect_all c env). sm_error s = None \<longleftrightarrow> sm_pending s \<noteq> UNKNOWN_DEPTH"
    using k by (simp add: known_def)
  moreover have "\<forall>s \<in> set (inspect_all c env). sm_error s = None \<longrightarrow> 0 \<le> sm_pending s"
    using k v by blast
  moreover have "map Some (List.map_filter sm_error (inspect_all c env))
      = map sm_error (filter (\<lambda>s. sm_pending s = UNKNOWN_DEPTH) (inspect_all c env))"
    using map_filter_errors [OF k] by (simp add: known_def)
  moreover have "filter known (inspect_all c env)
      = filter (\<lambda>s. sm_pending s \<noteq> UNKNOWN_DEPTH) (inspect_all c env)"
    by (rule filter_cong) (auto simp: known_def)
  ultimately show ?thesis
    using sum_positive_known [OF v]
    by (simp add: collect_def Let_def foldl_positive inspect_all_names getQueues_def)
qed

definition example_collector :: depth_collector where
  "example_collector = new_QueueDepthCollector
     [\<lparr>qd_name = ''a'', qd_pool = ''p'', qd_transport = Redis_list, qd_key = Some ''k'', qd_channel = None,
       qd_warningThreshold = None, qd_criticalThreshold = None, qd_hasLocalDepth = False\<rparr>] True False None"

definition example_env :: "nat \<Rightarrow> probe_env" where
  "example_env i = \<lparr>pe_redis = \<lparr>rr_listLength = (\<lambda>_. Inr 7), rr_setLength = (\<lambda>_. Inr 0),
       rr_streamLength = (\<lambda>_. Inr 0), rr_channelSubscribers = (\<lambda>_. Inr 0), rr_oldestEntryAgeSeconds = None\<rparr>,
     pe_amqp = \<lparr>ar_checkQueue = (\<lambda>_. Inl ''down''), ar_managementQueueStats = None\<rparr>,
     pe_localDepth = Inr 0, pe_timerFirst = False, pe_now = 0\<rparr>"

lemma example_collect: "rp_totalPending (collect example_collector example_env 0) = 7"
  by (simp add: collect_def inspect_all_def inspect_def example_collector_def example_env_def
    new_QueueDepthCollector_def withTimeout_def readQueue_def readRedisQueue_def length_reading_def
    requireKey_def oldestAge_def)

text \<open>The witness applies the property to a collector with one Redis list of seven messages.\<close>
theorem collect_reports_every_queue_witness:
  "map sm_name (rp_samples (collect example_collector example_env 0)) = map qd_name (getQueues example_collector)
   \<and> rp_totalPending (collect example_collector example_env 0) = 7"
  using collect_reports_every_queue [of example_collector example_env 0] by (simp add: example_collect)

text \<open>
  \<open>registerQueue\<close> says that re-adding a name replaces the previous entry; it appends, and the
  function it returns then removes the older descriptor.
\<close>
lemma reregister_keeps_both:
  assumes "q \<in> set (qc_queues c)" "qd_name q = qd_name d" "d \<notin> set (qc_queues c)"
  shows "q \<in> set (qc_queues (registerQueue d c))"
    and "d \<in> set (qc_queues (unregisterQueue d (registerQueue d c)))"
proof -
  have "d \<in> set (remove_first_named (qd_name d) (qs @ [d]))"
    if "\<exists>q \<in> set qs. qd_name q = qd_name d" for qs
    using that by (induction qs) auto
  then show "d \<in> set (qc_queues (unregisterQueue d (registerQueue d c)))"
    using assms by (auto simp: unregisterQueue_def registerQueue_def)
  show "q \<in> set (qc_queues (registerQueue d c))" using assms by (simp add: registerQueue_def)
qed

end
