(* ===== verification/Autoscaler.thy ===== *)
theory Autoscaler
  imports QueueDepth JSNumber "HOL-Library.List_Lexorder" "HOL-Library.Char_ord"
begin

text \<open>
  \<open>src/services/eventBus/workerAutoscaler.ts\<close> and the part of \<open>executeCycle\<close> in
  \<open>eventBusService.ts\<close> that drives it: replica counts are refreshed from the scale provider, a
  decision is made for every pool, and the decisions are applied.  \<open>runCycle\<close> shares a cycle that
  is in flight, so the cycles of a run do not overlap and a run is a list of cycle inputs.

  The scale provider is an interface: what it answers is an input of a cycle.  So are the
  readings of the clock: the triple at position \<open>i\<close> holds the readings for \<open>quietSince\<close>, for the
  stabilisation test and for \<open>decidedAt\<close> of the \<open>i\<close>-th pool; a reading the code does not take is
  not used.  Counts and times are integers; the quotient is the IEEE one.  The map of pool states
  is only looked up, and \<open>stateFor\<close> creates a missing entry, so it is a total function that is
  \<open>fresh_pool\<close> where nothing is stored.

  The lemmas: the replica count is the exact clamped quotient, a decision never leaves the interval
  between the current count and the target, and over runs: replicas are removed only after a quiet
  stretch, and actions on a pool are a cooldown apart.
\<close>

section \<open>Types\<close>

record autoscaler_config =
  ac_enabled :: bool
  ac_minReplicas :: int
  ac_maxReplicas :: int
  ac_targetMessagesPerReplica :: int
  ac_maxScaleStep :: int
  ac_cooldownMs :: int
  ac_scaleDownStabilizationMs :: int
  ac_scaleDownThreshold :: int
  ac_pools :: "string list"

record pool_state =
  po_lastPending :: int
  po_quietSince :: "int option"
  po_lastActionAt :: "int option"
  po_lastDesired :: "int option"
  po_lastKnown :: "int option"

datatype scale_action = Scale_none | Scale_up | Scale_down

record scale_decision =
  sd_pool :: string
  sd_action :: scale_action
  sd_from :: "int option"
  sd_to :: int
  sd_reason :: string
  sd_pending :: int
  sd_limitedBy :: "string option"
  sd_decidedAt :: int

record scale_evaluation =
  se_decisions :: "scale_decision list"
  se_desired :: "string \<rightharpoonup> int"
  se_enabled :: bool

record scale_result =
  sr_pool :: string
  sr_applied :: bool
  sr_error :: "string option"

type_synonym pool_states = "string \<Rightarrow> pool_state"
type_synonym clock_readings = "int \<times> int \<times> int"

definition fresh_pool :: pool_state where
  "fresh_pool = \<lparr>po_lastPending = 0, po_quietSince = None, po_lastActionAt = None,
                 po_lastDesired = None, po_lastKnown = None\<rparr>"

section \<open>Decisions\<close>

definition pendingForPool :: "depth_sample list \<Rightarrow> string \<Rightarrow> int" where
  "pendingForPool samples pool =
     foldl (\<lambda>total s. total + sm_pending s) 0
       (filter (\<lambda>s. sm_pool s = pool \<and> sm_pending s \<noteq> UNKNOWN_DEPTH) samples)"

definition desiredReplicasFor :: "autoscaler_config \<Rightarrow> int \<Rightarrow> int" where
  "desiredReplicasFor cfg pending =
     (if pending \<le> 0 then ac_minReplicas cfg
      else let raw = \<lceil>jsdiv (of_int pending) (of_int (max 1 (ac_targetMessagesPerReplica cfg)))\<rceil> in
           min (ac_maxReplicas cfg) (max (ac_minReplicas cfg) raw))"

definition poolsToManage :: "autoscaler_config \<Rightarrow> depth_sample list \<Rightarrow> string list" where
  "poolsToManage cfg samples =
     (if ac_pools cfg \<noteq> [] then ac_pools cfg else sort (remdups (map sm_pool samples)))"

definition observe_pool :: "autoscaler_config \<Rightarrow> int \<Rightarrow> int \<Rightarrow> pool_state \<Rightarrow> pool_state" where
  "observe_pool cfg pending now st =
     st\<lparr>po_lastPending := pending,
        po_quietSince := (if pending \<le> ac_scaleDownThreshold cfg
                          then (case po_quietSince st of Some q \<Rightarrow> Some q | None \<Rightarrow> Some now)
                          else None),
        po_lastDesired := Some (desiredReplicasFor cfg pending)\<rparr>"

definition step_towards :: "int \<Rightarrow> int \<Rightarrow> int \<Rightarrow> int" where
  "step_towards step target current =
     (if target > current then min target (current + step) else max target (current - step))"

definition is_settled :: "autoscaler_config \<Rightarrow> int \<Rightarrow> int option \<Rightarrow> bool" where
  "is_settled cfg now quietSince = (case quietSince of
      None \<Rightarrow> False
    | Some q \<Rightarrow> now - q \<ge> ac_scaleDownStabilizationMs cfg)"

definition scale_verdict ::
  "autoscaler_config \<Rightarrow> int \<Rightarrow> int \<Rightarrow> int \<Rightarrow> bool \<Rightarrow> scale_action \<times> int \<times> string \<times> string option" where
  "scale_verdict cfg pending target current settled =
     (let stepped = step_towards (ac_maxScaleStep cfg) target current;
          clamped = (if stepped \<noteq> target then Some ''max-scale-step'' else None) in
      if stepped = current then
        (Scale_none, current, ''Replica count already matches the target'', None)
      else if stepped > current then
        (Scale_up, stepped,
         ''Backlog of '' @ show_int pending @ '' messages needs '' @ show_int stepped @ '' replicas'', clamped)
      else if \<not> settled then
        (Scale_none, current,
         ''Scale-down deferred: backlog must stay under '' @ show_int (ac_scaleDownThreshold cfg) @ '' for ''
           @ show_int (ac_scaleDownStabilizationMs cfg) @ ''ms'', Some ''scale-down-stabilization'')
      else if ac_minReplicas cfg \<ge> 1 \<and> stepped < 1 then
        (Scale_none, current, ''Scale-down blocked: pools keep at least one replica'', Some ''min-replicas'')
      else
        (Scale_down, stepped,
         ''Backlog drained to '' @ show_int pending @ '' messages; releasing '' @ show_int (current - stepped)
           @ '' replica(s)'', clamped))"

definition scale_decision_of ::
  "autoscaler_config \<Rightarrow> string \<Rightarrow> int \<Rightarrow> clock_readings \<Rightarrow> pool_state \<Rightarrow> scale_decision" where
  "scale_decision_of cfg pool pending readings st =
     (let target = desiredReplicasFor cfg pending; (_, t_settled, t_decided) = readings in
      case po_lastKnown st of
        None \<Rightarrow>
          \<lparr>sd_pool = pool, sd_action = Scale_none, sd_from = None, sd_to = target,
           sd_reason = ''Baseline adopted; awaiting the next provider read'', sd_pending = pending,
           sd_limitedBy = Some ''unknown-current'', sd_decidedAt = t_decided\<rparr>
      | Some current \<Rightarrow>
          (let (action, dest, reason, limitedBy) =
                 scale_verdict cfg pending target current (is_settled cfg t_settled (po_quietSince st)) in
           \<lparr>sd_pool = pool, sd_action = action, sd_from = Some current, sd_to = dest,
            sd_reason = reason, sd_pending = pending, sd_limitedBy = limitedBy,
            sd_decidedAt = t_decided\<rparr>))"

definition evaluate_pool ::
  "autoscaler_config \<Rightarrow> depth_sample list \<Rightarrow> clock_readings \<Rightarrow> string \<Rightarrow> pool_states
     \<Rightarrow> scale_decision \<times> pool_states" where
  "evaluate_pool cfg samples readings pool ps =
     (let pending = pendingForPool samples pool;
          st = observe_pool cfg pending (fst readings) (ps pool) in
      (scale_decision_of cfg pool pending readings st, ps(pool := st)))"

fun evaluate_loop ::
  "autoscaler_config \<Rightarrow> depth_sample list \<Rightarrow> (nat \<Rightarrow> clock_readings) \<Rightarrow> nat \<Rightarrow> string list \<Rightarrow> pool_states
     \<Rightarrow> scale_decision list \<times> pool_states" where
  "evaluate_loop cfg samples clk i [] ps = ([], ps)"
| "evaluate_loop cfg samples clk i (pool # pools) ps =
     (let (d, ps1) = evaluate_pool cfg samples (clk i) pool ps;
          (ds, ps2) = evaluate_loop cfg samples clk (Suc i) pools ps1 in
      (d # ds, ps2))"

definition evaluate ::
  "autoscaler_config \<Rightarrow> depth_sample list \<Rightarrow> (nat \<Rightarrow> clock_readings) \<Rightarrow> pool_states
     \<Rightarrow> scale_evaluation \<times> pool_states" where
  "evaluate cfg samples clk ps =
     (let pools = poolsToManage cfg samples;
          (ds, ps') = evaluate_loop cfg samples clk 0 pools ps in
      (\<lparr>se_decisions = ds,
        se_desired = map_of (map (\<lambda>p. (p, desiredReplicasFor cfg (pendingForPool samples p))) pools),
        se_enabled = ac_enabled cfg\<rparr>, ps'))"

section \<open>Applying the decisions\<close>

text \<open>
  An attempt: the clock reading of the cooldown test, the outcome of \<open>setReplicaCount\<close>, and the
  reading after it.
\<close>
type_synonym scale_attempt = "int \<times> (string, unit) result \<times> int"

definition in_cooldown :: "autoscaler_config \<Rightarrow> int \<Rightarrow> int option \<Rightarrow> bool" where
  "in_cooldown cfg now lastAction = (case lastAction of
      None \<Rightarrow> False
    | Some t \<Rightarrow> now - t < ac_cooldownMs cfg)"

text \<open>Whether the body of the loop reaches the call of the provider.\<close>

definition calls_provider :: "autoscaler_config \<Rightarrow> bool \<Rightarrow> int \<Rightarrow> scale_decision \<Rightarrow> pool_states \<Rightarrow> bool" where
  "calls_provider cfg provider now d ps \<longleftrightarrow>
     sd_action d \<noteq> Scale_none \<and> ac_enabled cfg \<and> provider
     \<and> \<not> in_cooldown cfg now (po_lastActionAt (ps (sd_pool d)))"

definition apply_decision ::
  "autoscaler_config \<Rightarrow> bool \<Rightarrow> scale_attempt \<Rightarrow> scale_decision \<Rightarrow> pool_states
     \<Rightarrow> scale_result list \<times> pool_states" where
  "apply_decision cfg provider attempt d ps =
     (let (t_check, outcome, t_done) = attempt; pool = sd_pool d; st = ps pool;
          failed = (\<lambda>e. [\<lparr>sr_pool = pool, sr_applied = False, sr_error = e\<rparr>]) in
      if sd_action d = Scale_none then ([], ps)
      else if \<not> ac_enabled cfg then (failed None, ps)
      else if \<not> provider then (failed (Some ''no-provider''), ps)
      else if in_cooldown cfg t_check (po_lastActionAt st) then (failed (Some ''cooldown''), ps)
      else (case outcome of
              Inr _ \<Rightarrow> ([\<lparr>sr_pool = pool, sr_applied = True, sr_error = None\<rparr>],
                        ps(pool := st\<lparr>po_lastActionAt := Some t_done, po_lastKnown := Some (sd_to d)\<rparr>))
            | Inl message \<Rightarrow> (failed (Some message), ps)))"

fun apply_loop ::
  "autoscaler_config \<Rightarrow> bool \<Rightarrow> (nat \<Rightarrow> scale_attempt) \<Rightarrow> nat \<Rightarrow> scale_decision list \<Rightarrow> pool_states
     \<Rightarrow> scale_result list \<times> pool_states" where
  "apply_loop cfg provider att i [] ps = ([], ps)"
| "apply_loop cfg provider att i (d # ds) ps =
     (let (r, ps1) = apply_decision cfg provider (att i) d ps;
          (rs, ps2) = apply_loop cfg provider att (Suc i) ds ps1 in
      (r @ rs, ps2))"

definition apply_decisions ::
  "autoscaler_config \<Rightarrow> bool \<Rightarrow> (nat \<Rightarrow> scale_attempt) \<Rightarrow> scale_evaluation \<Rightarrow> pool_states
     \<Rightarrow> scale_result list \<times> pool_states" where
  "apply_decisions cfg provider att ev ps = apply_loop cfg provider att 0 (se_decisions ev) ps"

definition refreshReplicaCount ::
  "bool \<Rightarrow> (string, int option) result \<Rightarrow> string \<Rightarrow> pool_states \<Rightarrow> int option \<times> pool_states" where
  "refreshReplicaCount provider answer pool ps =
     (if \<not> provider then (po_lastKnown (ps pool), ps)
      else case answer of
        Inr (Some count) \<Rightarrow> (Some count, ps(pool := (ps pool)\<lparr>po_lastKnown := Some count\<rparr>))
      | Inr None \<Rightarrow> (None, ps)
      | Inl _ \<Rightarrow> (po_lastKnown (ps pool), ps))"

section \<open>Cycles\<close>

record cycle_input =
  ci_samples :: "depth_sample list"
  ci_counts :: "nat \<Rightarrow> (string, int option) result"
  ci_clock :: "nat \<Rightarrow> clock_readings"
  ci_attempts :: "nat \<Rightarrow> scale_attempt"

fun refresh_loop ::
  "bool \<Rightarrow> (nat \<Rightarrow> (string, int option) result) \<Rightarrow> nat \<Rightarrow> string list \<Rightarrow> pool_states \<Rightarrow> pool_states" where
  "refresh_loop provider counts i [] ps = ps"
| "refresh_loop provider counts i (pool # pools) ps =
     refresh_loop provider counts (Suc i) pools (snd (refreshReplicaCount provider (counts i) pool ps))"

text \<open>\<open>[...new Set(xs)]\<close> keeps first occurrences.\<close>

definition js_unique :: "'a list \<Rightarrow> 'a list" where
  "js_unique xs = rev (remdups (rev xs))"

definition autoscale_refresh :: "autoscaler_config \<Rightarrow> bool \<Rightarrow> cycle_input \<Rightarrow> pool_states \<Rightarrow> pool_states" where
  "autoscale_refresh cfg provider ci ps =
     refresh_loop provider (ci_counts ci) 0
       (if ac_pools cfg \<noteq> [] then ac_pools cfg else js_unique (map sm_pool (ci_samples ci))) ps"

definition autoscale_cycle ::
  "autoscaler_config \<Rightarrow> bool \<Rightarrow> cycle_input \<Rightarrow> pool_states
     \<Rightarrow> scale_evaluation \<times> scale_result list \<times> pool_states" where
  "autoscale_cycle cfg provider ci ps =
     (let (ev, ps1) = evaluate cfg (ci_samples ci) (ci_clock ci) (autoscale_refresh cfg provider ci ps);
          (rs, ps2) = apply_decisions cfg provider (ci_attempts ci) ev ps1 in
      (ev, rs, ps2))"

definition autoscale_run :: "autoscaler_config \<Rightarrow> bool \<Rightarrow> cycle_input list \<Rightarrow> pool_states \<Rightarrow> pool_states" where
  "autoscale_run cfg provider cs ps = foldl (\<lambda>s ci. snd (snd (autoscale_cycle cfg provider ci s))) ps cs"

section \<open>The replica count\<close>

lemma ceiling_jsdiv_count:
  fixes p t :: int
  assumes "0 < p" "p < 2 ^ 53" "0 < t"
  shows "\<lceil>jsdiv (of_int p) (of_int t)\<rceil> = \<lceil>(of_int p / of_int t :: rat)\<rceil>"
  using ceiling_fl_div [of "nat t" "nat p"] assms by (simp add: jsdiv_def nat_less_iff)

lemma ceiling_div_le_iff:
  fixes p t k :: int assumes "0 < t"
  shows "\<lceil>(of_int p / of_int t :: rat)\<rceil> \<le> k \<longleftrightarrow> p \<le> k * t"
proof -
  have "\<lceil>(of_int p / of_int t :: rat)\<rceil> \<le> k \<longleftrightarrow> (of_int p :: rat) \<le> of_int (k * t)"
    using assms by (simp add: ceiling_le_iff pos_divide_le_eq)
  then show ?thesis by (simp only: of_int_le_iff)
qed

text \<open>
  The desired replica count is the least count within the configured bounds that absorbs the
  backlog: it lies in the bounds, below the ceiling it covers every pending message at the target
  load, and above the floor one replica less would not.  The floating-point division never rounds
  the quotient to the wrong count.
\<close>
theorem desired_replicas_exact:
  assumes "0 \<le> ac_minReplicas cfg" "ac_minReplicas cfg \<le> ac_maxReplicas cfg" "pending < 2 ^ 53"
  defines "d \<equiv> desiredReplicasFor cfg pending" and "t \<equiv> max 1 (ac_targetMessagesPerReplica cfg)"
  shows "ac_minReplicas cfg \<le> d \<and> d \<le> ac_maxReplicas cfg
         \<and> (d < ac_maxReplicas cfg \<longrightarrow> pending \<le> d * t)
         \<and> (ac_minReplicas cfg < d \<longrightarrow> (d - 1) * t < pending)"
proof (cases "pending \<le> 0")
  case True
  have "0 \<le> ac_minReplicas cfg * t" using assms(1) by (simp add: t_def)
  with True assms(1,2) show ?thesis by (auto simp: d_def desiredReplicasFor_def)
next
  case False
  define raw where "raw = \<lceil>(of_int pending / of_int t :: rat)\<rceil>"
  have t: "0 < t" by (simp add: t_def)
  have "\<lceil>jsdiv (of_int pending) (of_int t)\<rceil> = raw"
    using False assms(3) t unfolding raw_def by (intro ceiling_jsdiv_count) auto
  then have d: "d = min (ac_maxReplicas cfg) (max (ac_minReplicas cfg) raw)"
    using False by (simp add: d_def desiredReplicasFor_def t_def Let_def)
  have le: "raw \<le> k \<longleftrightarrow> pending \<le> k * t" for k unfolding raw_def by (rule ceiling_div_le_iff [OF t])
  have "d < ac_maxReplicas cfg \<longrightarrow> raw \<le> d" "ac_minReplicas cfg < d \<longrightarrow> \<not> raw \<le> d - 1"
    using d by auto
  moreover have "ac_minReplicas cfg \<le> d" "d \<le> ac_maxReplicas cfg" using d assms(2) by auto
  ultimately show ?thesis unfolding le not_le by blast
qed

definition example_autoscaler :: autoscaler_config where
  "example_autoscaler = \<lparr>ac_enabled = True, ac_minReplicas = 1, ac_maxReplicas = 20,
     ac_targetMessagesPerReplica = 250, ac_maxScaleStep = 5, ac_cooldownMs = 300000,
     ac_scaleDownStabilizationMs = 600000, ac_scaleDownThreshold = 250, ac_pools = []\<rparr>"

text \<open>The witness: the default bounds and a backlog of 1001 messages need five replicas.\<close>
theorem desired_replicas_exact_witness:
  "0 \<le> ac_minReplicas example_autoscaler \<and> ac_minReplicas example_autoscaler \<le> ac_maxReplicas example_autoscaler
   \<and> desiredReplicasFor example_autoscaler 1001 = 5"
proof -
  define d where "d = desiredReplicasFor example_autoscaler 1001"
  have "1 \<le> d \<and> d \<le> 20 \<and> (d < 20 \<longrightarrow> 1001 \<le> d * 250) \<and> (1 < d \<longrightarrow> (d - 1) * 250 < 1001)"
    using desired_replicas_exact [of example_autoscaler 1001] by (simp add: example_autoscaler_def d_def)
  then have "d = 5" by (cases "d < 20"; cases "1 < d"; simp)
  then show ?thesis by (simp add: d_def example_autoscaler_def)
qed

section \<open>One evaluation\<close>

lemma step_towards_between:
  assumes "0 \<le> s"
  shows "min c t \<le> step_towards s t c" "step_towards s t c \<le> max c t" "\<bar>step_towards s t c - c\<bar> \<le> s"
  using assms by (auto simp: step_towards_def)

text \<open>What one verdict promises.\<close>

definition verdict_ok :: "autoscaler_config \<Rightarrow> int \<Rightarrow> int \<Rightarrow> bool \<Rightarrow> scale_action \<Rightarrow> int \<Rightarrow> bool" where
  "verdict_ok cfg target current settled action dest \<longleftrightarrow>
     min current target \<le> dest \<and> dest \<le> max current target
     \<and> \<bar>dest - current\<bar> \<le> ac_maxScaleStep cfg
     \<and> (action = Scale_up \<longleftrightarrow> current < target)
     \<and> (action = Scale_up \<longrightarrow> dest = min target (current + ac_maxScaleStep cfg))
     \<and> (action = Scale_down \<longrightarrow> settled \<and> dest = max target (current - ac_maxScaleStep cfg) \<and> dest < current)
     \<and> (action = Scale_none \<longrightarrow> dest = current)"

lemma scale_verdict_ok:
  assumes "1 \<le> ac_maxScaleStep cfg"
  shows "verdict_ok cfg target current settled
           (fst (scale_verdict cfg pending target current settled))
           (fst (snd (scale_verdict cfg pending target current settled)))"
  using assms by (auto simp: verdict_ok_def scale_verdict_def step_towards_def Let_def)

lemma observe_pool_simps [simp]:
  "po_lastKnown (observe_pool cfg p t st) = po_lastKnown st"
  "po_lastActionAt (observe_pool cfg p t st) = po_lastActionAt st"
  by (simp_all add: observe_pool_def)

lemma evaluate_pool_keeps:
  "po_lastKnown (snd (evaluate_pool cfg samples r pool ps) p) = po_lastKnown (ps p)"
  "po_lastActionAt (snd (evaluate_pool cfg samples r pool ps) p) = po_lastActionAt (ps p)"
  by (simp_all add: evaluate_pool_def Let_def)

lemma evaluate_loop_keeps:
  "po_lastKnown (snd (evaluate_loop cfg samples clk i pools ps) p) = po_lastKnown (ps p)"
  "po_lastActionAt (snd (evaluate_loop cfg samples clk i pools ps) p) = po_lastActionAt (ps p)"
  by (induction pools arbitrary: i ps) (simp_all add: case_prod_unfold Let_def evaluate_pool_keeps)

lemma evaluate_loop_pools: "map sd_pool (fst (evaluate_loop cfg samples clk i pools ps)) = pools"
  by (induction pools arbitrary: i ps)
    (simp_all add: case_prod_unfold Let_def evaluate_pool_def scale_decision_of_def split: option.split)

text \<open>The promise about one decision, given the states before the evaluation.\<close>

definition decision_ok :: "autoscaler_config \<Rightarrow> depth_sample list \<Rightarrow> pool_states \<Rightarrow> scale_decision \<Rightarrow> bool" where
  "decision_ok cfg samples ps d \<longleftrightarrow>
     sd_from d = po_lastKnown (ps (sd_pool d)) \<and> sd_pending d = pendingForPool samples (sd_pool d)
     \<and> (case sd_from d of
          None \<Rightarrow> sd_action d = Scale_none
        | Some current \<Rightarrow>
            (\<exists>settled. verdict_ok cfg (desiredReplicasFor cfg (sd_pending d)) current settled (sd_action d) (sd_to d)
               \<and> (sd_action d = Scale_down \<longrightarrow> sd_pending d \<le> ac_scaleDownThreshold cfg)))"

lemma scale_down_needs_settled:
  "fst (scale_verdict cfg pending target current settled) = Scale_down \<Longrightarrow> settled"
  by (auto simp: scale_verdict_def Let_def split: if_splits)

lemma settled_quiet: "is_settled cfg t (po_quietSince (observe_pool cfg pending now st)) \<Longrightarrow> pending \<le> ac_scaleDownThreshold cfg"
  by (auto simp: is_settled_def observe_pool_def split: if_splits)

lemma evaluate_pool_ok:
  assumes "1 \<le> ac_maxScaleStep cfg"
  shows "decision_ok cfg samples ps (fst (evaluate_pool cfg samples r pool ps))"
proof (cases "po_lastKnown (ps pool)")
  case None
  then show ?thesis by (simp add: decision_ok_def evaluate_pool_def scale_decision_of_def Let_def case_prod_unfold)
next
  case (Some c)
  let ?p = "pendingForPool samples pool"
  let ?s = "is_settled cfg (fst (snd r)) (po_quietSince (observe_pool cfg ?p (fst r) (ps pool)))"
  let ?v = "scale_verdict cfg ?p (desiredReplicasFor cfg ?p) c ?s"
  have "verdict_ok cfg (desiredReplicasFor cfg ?p) c ?s (fst ?v) (fst (snd ?v))"
    by (rule scale_verdict_ok [OF assms])
  moreover have "fst ?v = Scale_down \<longrightarrow> ?p \<le> ac_scaleDownThreshold cfg"
    using scale_down_needs_settled settled_quiet by blast
  ultimately show ?thesis using Some
    by (auto simp: decision_ok_def evaluate_pool_def scale_decision_of_def Let_def case_prod_unfold)
qed

lemma decision_ok_cong:
  "(\<And>p. po_lastKnown (ps p) = po_lastKnown (ps' p)) \<Longrightarrow> decision_ok cfg samples ps d = decision_ok cfg samples ps' d"
  by (simp add: decision_ok_def)

lemma evaluate_loop_ok:
  assumes "1 \<le> ac_maxScaleStep cfg"
  shows "d \<in> set (fst (evaluate_loop cfg samples clk i pools ps)) \<Longrightarrow> decision_ok cfg samples ps d"
proof (induction pools arbitrary: i ps)
  case (Cons pool pools)
  let ?ps1 = "snd (evaluate_pool cfg samples (clk i) pool ps)"
  have "decision_ok cfg samples ?ps1 d = decision_ok cfg samples ps d"
    by (rule decision_ok_cong) (rule evaluate_pool_keeps)
  moreover have "decision_ok cfg samples ps (fst (evaluate_pool cfg samples (clk i) pool ps))"
    by (rule evaluate_pool_ok [OF assms])
  ultimately show ?case using Cons by (auto simp: case_prod_unfold Let_def)
qed simp

text \<open>
  Every evaluation decides once per managed pool, and a decision respects the guard rails: the
  new count lies between the current count and the desired one, within \<open>maxScaleStep\<close> of the
  current count; a pool is scaled up exactly when the backlog needs more replicas than are known,
  by the largest permitted step; it is scaled down only when its backlog is at or under
  \<open>scaleDownThreshold\<close>; nothing is decided while the replica count is unknown; and a count within
  the configured bounds stays within them.
\<close>
theorem scaling_guarded:
  assumes "1 \<le> ac_maxScaleStep cfg" and "d \<in> set (se_decisions (fst (evaluate cfg samples clk ps)))"
  defines "target \<equiv> desiredReplicasFor cfg (pendingForPool samples (sd_pool d))"
  shows "map sd_pool (se_decisions (fst (evaluate cfg samples clk ps))) = poolsToManage cfg samples
    \<and> sd_from d = po_lastKnown (ps (sd_pool d))
    \<and> (sd_from d = None \<longrightarrow> sd_action d = Scale_none)
    \<and> (\<forall>c. sd_from d = Some c \<longrightarrow>
         min c target \<le> sd_to d \<and> sd_to d \<le> max c target \<and> \<bar>sd_to d - c\<bar> \<le> ac_maxScaleStep cfg
         \<and> (sd_action d = Scale_up \<longleftrightarrow> c < target)
         \<and> (sd_action d = Scale_up \<longrightarrow> sd_to d = min target (c + ac_maxScaleStep cfg))
         \<and> (sd_action d = Scale_down \<longrightarrow>
              sd_to d < c \<and> pendingForPool samples (sd_pool d) \<le> ac_scaleDownThreshold cfg)
         \<and> (ac_minReplicas cfg \<le> c \<and> c \<le> ac_maxReplicas cfg \<and> ac_minReplicas cfg \<le> ac_maxReplicas cfg
              \<longrightarrow> ac_minReplicas cfg \<le> sd_to d \<and> sd_to d \<le> ac_maxReplicas cfg))"
proof -
  have ok: "decision_ok cfg samples ps d"
    using evaluate_loop_ok [OF assms(1)] assms(2) by (auto simp: evaluate_def Let_def case_prod_unfold)
  have t: "ac_minReplicas cfg \<le> target \<and> target \<le> ac_maxReplicas cfg" if "ac_minReplicas cfg \<le> ac_maxReplicas cfg"
    using that by (auto simp: target_def desiredReplicasFor_def Let_def)
  have between: "ac_minReplicas cfg \<le> x \<and> x \<le> ac_maxReplicas cfg"
    if "min c target \<le> x" "x \<le> max c target" "ac_minReplicas cfg \<le> c \<and> c \<le> ac_maxReplicas cfg \<and> ac_minReplicas cfg \<le> ac_maxReplicas cfg" for x c
    using that t by linarith
  have "map sd_pool (se_decisions (fst (evaluate cfg samples clk ps))) = poolsToManage cfg samples"
    by (simp add: evaluate_def Let_def case_prod_unfold evaluate_loop_pools)
  moreover have "sd_from d = po_lastKnown (ps (sd_pool d))" "sd_from d = None \<longrightarrow> sd_action d = Scale_none"
    using ok by (auto simp: decision_ok_def)
  moreover have "(\<exists>settled. verdict_ok cfg target c settled (sd_action d) (sd_to d)) \<and>
      (sd_action d = Scale_down \<longrightarrow> pendingForPool samples (sd_pool d) \<le> ac_scaleDownThreshold cfg)" if "sd_from d = Some c" for c
    using ok that by (auto simp: decision_ok_def target_def)
  ultimately show ?thesis using between unfolding verdict_ok_def by blast
qed

definition example_sample :: "int \<Rightarrow> depth_sample" where
  "example_sample n = \<lparr>sm_name = ''q'', sm_pool = ''w'', sm_transport = Redis_list, sm_pending = n, sm_unacked = None,
     sm_consumers = None, sm_oldestPendingAgeSeconds = None, sm_acceptingMessages = True, sm_observedAt = 0,
     sm_error = None\<rparr>"

definition example_pools :: "int \<Rightarrow> pool_states" where
  "example_pools n = (\<lambda>_. fresh_pool)(''w'' := fresh_pool\<lparr>po_lastKnown := Some n\<rparr>)"

lemma example_pool [simp]: "pendingForPool [example_sample n] ''w'' = (if n = - 1 then 0 else n)"
  by (simp add: pendingForPool_def example_sample_def UNKNOWN_DEPTH_def)

lemma example_managed [simp]: "poolsToManage example_autoscaler [example_sample n] = [''w'']"
  by (simp add: poolsToManage_def example_autoscaler_def example_sample_def)

lemma example_step [simp]: "1 \<le> ac_maxScaleStep example_autoscaler" "ac_scaleDownThreshold example_autoscaler = 250"
  by (simp_all add: example_autoscaler_def)

text \<open>The witness: one pool with three replicas and no backlog.\<close>
theorem scaling_guarded_witness:
  "\<exists>d \<in> set (se_decisions (fst (evaluate example_autoscaler [example_sample 0] (\<lambda>_. (0, 0, 0)) (example_pools 3)))).
     sd_from d = Some 3 \<and> sd_to d \<le> 3 \<and> sd_action d \<noteq> Scale_up"
proof -
  let ?ev = "fst (evaluate example_autoscaler [example_sample 0] (\<lambda>_. (0, 0, 0)) (example_pools 3))"
  have "se_decisions ?ev \<noteq> []"
    by (simp add: evaluate_def Let_def case_prod_unfold)
  then obtain d where d: "d \<in> set (se_decisions ?ev)" by (cases "se_decisions ?ev") auto
  note g = scaling_guarded [OF example_step(1) d]
  from g have "map sd_pool (se_decisions ?ev) = [''w'']" by simp
  then have w: "sd_pool d = ''w''" using d by auto
  have t: "desiredReplicasFor example_autoscaler 0 = 1" by (simp add: desiredReplicasFor_def example_autoscaler_def)
  have "sd_from d = Some 3" using g w by (simp add: example_pools_def)
  with g w t show ?thesis using d by (intro bexI [of _ d]) auto
qed

section \<open>Runs: the quiet stretch before a scale-down\<close>

lemma refresh_loop_keeps:
  "po_quietSince (refresh_loop pr counts i pools ps p) = po_quietSince (ps p)"
  "po_lastActionAt (refresh_loop pr counts i pools ps p) = po_lastActionAt (ps p)"
  by (induction pools arbitrary: i ps) (auto simp: refreshReplicaCount_def split: sum.split option.split)

lemma autoscale_refresh_keeps:
  "po_quietSince (autoscale_refresh cfg pr ci ps p) = po_quietSince (ps p)"
  "po_lastActionAt (autoscale_refresh cfg pr ci ps p) = po_lastActionAt (ps p)"
  by (simp_all add: autoscale_refresh_def refresh_loop_keeps)

lemma apply_decision_quiet: "po_quietSince (snd (apply_decision cfg pr a d ps) p) = po_quietSince (ps p)"
  by (auto simp: apply_decision_def Let_def case_prod_unfold split: sum.split)

lemma apply_loop_quiet: "po_quietSince (snd (apply_loop cfg pr att i ds ps) p) = po_quietSince (ps p)"
  by (induction ds arbitrary: i ps) (simp_all add: case_prod_unfold Let_def apply_decision_quiet)

text \<open>What an evaluation does to \<open>quietSince\<close>, and where the value used by a scale-down comes from.\<close>

lemma evaluate_pool_quiet:
  "po_quietSince (snd (evaluate_pool cfg samples r pool ps) p) =
     (if p \<noteq> pool then po_quietSince (ps p)
      else if pendingForPool samples p \<le> ac_scaleDownThreshold cfg
      then Some (case po_quietSince (ps p) of Some q \<Rightarrow> q | None \<Rightarrow> fst r) else None)"
  by (simp add: evaluate_pool_def observe_pool_def Let_def split: option.split)

lemma evaluate_loop_quiet_other:
  "p \<notin> set pools \<Longrightarrow> po_quietSince (snd (evaluate_loop cfg samples clk i pools ps) p) = po_quietSince (ps p)"
  by (induction pools arbitrary: i ps) (auto simp: case_prod_unfold Let_def evaluate_pool_quiet)

lemma evaluate_loop_quiet:
  assumes "po_quietSince (snd (evaluate_loop cfg samples clk i pools ps) p) = Some q" "p \<in> set pools"
  shows "pendingForPool samples p \<le> ac_scaleDownThreshold cfg
         \<and> (po_quietSince (ps p) = Some q \<or> (\<exists>j. q = fst (clk j)))"
  using assms
proof (induction pools arbitrary: i ps)
  case (Cons pool pools)
  let ?ps1 = "snd (evaluate_pool cfg samples (clk i) pool ps)"
  show ?case
  proof (cases "p \<in> set pools")
    case True
    with Cons.IH [of "Suc i" ?ps1] Cons.prems(1)
    have "pendingForPool samples p \<le> ac_scaleDownThreshold cfg
        \<and> (po_quietSince (?ps1 p) = Some q \<or> (\<exists>j. q = fst (clk j)))"
      by (simp add: case_prod_unfold Let_def)
    then show ?thesis by (auto simp: evaluate_pool_quiet split: if_splits option.splits)
  next
    case False
    with Cons.prems show ?thesis
      by (auto simp: case_prod_unfold Let_def evaluate_loop_quiet_other evaluate_pool_quiet
          split: if_splits option.splits)
  qed
qed simp

lemma evaluate_pool_down:
  assumes "sd_action (fst (evaluate_pool cfg samples r pool ps)) = Scale_down"
  shows "\<exists>q. po_quietSince (snd (evaluate_pool cfg samples r pool ps) pool) = Some q
             \<and> fst (snd r) - q \<ge> ac_scaleDownStabilizationMs cfg"
proof (cases "po_lastKnown (ps pool)")
  case None
  with assms show ?thesis by (simp add: evaluate_pool_def scale_decision_of_def Let_def case_prod_unfold)
next
  case (Some c)
  let ?p = "pendingForPool samples pool"
  let ?st = "observe_pool cfg ?p (fst r) (ps pool)"
  have "is_settled cfg (fst (snd r)) (po_quietSince ?st)"
    using assms Some
    by (auto simp: evaluate_pool_def scale_decision_of_def Let_def case_prod_unfold
        dest: scale_down_needs_settled)
  then show ?thesis by (auto simp: evaluate_pool_def Let_def is_settled_def split: option.splits)
qed

lemma evaluate_loop_down:
  assumes "d \<in> set (fst (evaluate_loop cfg samples clk i pools ps))" "sd_action d = Scale_down"
  shows "pendingForPool samples (sd_pool d) \<le> ac_scaleDownThreshold cfg
    \<and> (\<exists>q j. fst (snd (clk j)) - q \<ge> ac_scaleDownStabilizationMs cfg
        \<and> (po_quietSince (ps (sd_pool d)) = Some q \<or> (\<exists>k. q = fst (clk k))))"
  using assms(1)
proof (induction pools arbitrary: i ps)
  case (Cons pool pools)
  let ?e = "evaluate_pool cfg samples (clk i) pool ps"
  consider "d = fst ?e" | "d \<in> set (fst (evaluate_loop cfg samples clk (Suc i) pools (snd ?e)))"
    using Cons.prems by (auto simp: case_prod_unfold Let_def)
  then show ?case
  proof cases
    case 1
    have "sd_pool d = pool"
      by (simp add: 1 evaluate_pool_def scale_decision_of_def Let_def case_prod_unfold split: option.split)
    moreover obtain q where "po_quietSince (snd ?e pool) = Some q"
      "fst (snd (clk i)) - q \<ge> ac_scaleDownStabilizationMs cfg"
      using evaluate_pool_down assms(2) 1 by blast
    ultimately show ?thesis by (auto simp: evaluate_pool_quiet split: if_splits option.splits)
  next
    case 2
    from Cons.IH [OF this] show ?thesis
      by (auto simp: evaluate_pool_quiet split: if_splits option.splits)
  qed
qed simp

definition managed_in :: "autoscaler_config \<Rightarrow> string \<Rightarrow> cycle_input \<Rightarrow> bool" where
  "managed_in cfg p ci \<longleftrightarrow> p \<in> set (poolsToManage cfg (ci_samples ci))"

definition quiet_in :: "autoscaler_config \<Rightarrow> string \<Rightarrow> cycle_input \<Rightarrow> bool" where
  "quiet_in cfg p ci \<longleftrightarrow> (managed_in cfg p ci \<longrightarrow> pendingForPool (ci_samples ci) p \<le> ac_scaleDownThreshold cfg)"

text \<open>The history ends with quiet cycles, the first of which read the clock as \<open>q\<close>.\<close>

definition quiet_since :: "autoscaler_config \<Rightarrow> string \<Rightarrow> cycle_input list \<Rightarrow> int \<Rightarrow> bool" where
  "quiet_since cfg p hist q \<longleftrightarrow>
     (\<exists>pre c0 post j. hist = pre @ c0 # post \<and> managed_in cfg p c0 \<and> q = fst (ci_clock c0 j)
        \<and> list_all (quiet_in cfg p) (c0 # post))"

lemma quiet_since_snoc: "quiet_since cfg p hist q \<Longrightarrow> quiet_in cfg p c \<Longrightarrow> quiet_since cfg p (hist @ [c]) q"
  unfolding quiet_since_def
proof (elim exE conjE)
  fix pre c0 post j
  assume "hist = pre @ c0 # post" "managed_in cfg p c0" "q = fst (ci_clock c0 j)"
    "list_all (quiet_in cfg p) (c0 # post)" "quiet_in cfg p c"
  then show "\<exists>pre c0 post j. hist @ [c] = pre @ c0 # post \<and> managed_in cfg p c0 \<and> q = fst (ci_clock c0 j)
      \<and> list_all (quiet_in cfg p) (c0 # post)"
    by (intro exI [of _ pre] exI [of _ c0] exI [of _ "post @ [c]"] exI [of _ j]) auto
qed

lemma quiet_since_last:
  "managed_in cfg p c \<Longrightarrow> quiet_in cfg p c \<Longrightarrow> quiet_since cfg p (hist @ [c]) (fst (ci_clock c j))"
  unfolding quiet_since_def by (intro exI [of _ hist] exI [of _ c] exI [of _ "[]"] exI [of _ j]) auto

lemma cycle_quiet:
  "po_quietSince (snd (snd (autoscale_cycle cfg pr ci ps)) p)
     = po_quietSince (snd (evaluate_loop cfg (ci_samples ci) (ci_clock ci) 0 (poolsToManage cfg (ci_samples ci))
         (autoscale_refresh cfg pr ci ps)) p)"
  by (simp add: autoscale_cycle_def evaluate_def apply_decisions_def Let_def case_prod_unfold apply_loop_quiet)

lemma autoscale_run_snoc:
  "autoscale_run cfg pr (hist @ [c]) ps = snd (snd (autoscale_cycle cfg pr c (autoscale_run cfg pr hist ps)))"
  by (simp add: autoscale_run_def)

lemma run_quiet:
  "po_quietSince (autoscale_run cfg pr hist (\<lambda>_. fresh_pool) p) = Some q \<Longrightarrow> quiet_since cfg p hist q"
proof (induction hist arbitrary: q rule: rev_induct)
  case Nil
  then show ?case by (simp add: autoscale_run_def fresh_pool_def)
next
  case (snoc c hist)
  let ?ps = "autoscale_refresh cfg pr c (autoscale_run cfg pr hist (\<lambda>_. fresh_pool))"
  have q: "po_quietSince (snd (evaluate_loop cfg (ci_samples c) (ci_clock c) 0
      (poolsToManage cfg (ci_samples c)) ?ps) p) = Some q"
    using snoc.prems by (simp add: autoscale_run_snoc cycle_quiet)
  show ?case
  proof (cases "managed_in cfg p c")
    case True
    with evaluate_loop_quiet [OF q]
    have "quiet_in cfg p c" and o: "po_quietSince (?ps p) = Some q \<or> (\<exists>j. q = fst (ci_clock c j))"
      by (auto simp: managed_in_def quiet_in_def)
    then show ?thesis
      using snoc.IH True by (auto simp: autoscale_refresh_keeps intro: quiet_since_snoc quiet_since_last)
  next
    case False
    then have "po_quietSince (?ps p) = Some q"
      using q by (simp add: managed_in_def evaluate_loop_quiet_other)
    then show ?thesis
      using snoc.IH False by (auto simp: autoscale_refresh_keeps quiet_in_def intro: quiet_since_snoc)
  qed
qed

text \<open>
  C29. Replicas are only removed after a quiet stretch: in any run of the service, when a cycle
  decides to scale a pool down, the run ends with consecutive cycles, that cycle included, in each
  of which the pool's backlog was at or under \<open>scaleDownThreshold\<close> whenever the pool was evaluated,
  and the clock has advanced by at least \<open>scaleDownStabilizationMs\<close> since the first of them.
\<close>
theorem scale_down_after_quiet_stretch:
  assumes "d \<in> set (se_decisions (fst (autoscale_cycle cfg provider ci
             (autoscale_run cfg provider hist (\<lambda>_. fresh_pool)))))"
    and "sd_action d = Scale_down"
  shows "\<exists>pre c0 post j k. hist @ [ci] = pre @ c0 # post
    \<and> sd_pool d \<in> set (poolsToManage cfg (ci_samples c0))
    \<and> fst (snd (ci_clock ci k)) - fst (ci_clock c0 j) \<ge> ac_scaleDownStabilizationMs cfg
    \<and> (\<forall>c \<in> set (c0 # post). sd_pool d \<in> set (poolsToManage cfg (ci_samples c)) \<longrightarrow>
          pendingForPool (ci_samples c) (sd_pool d) \<le> ac_scaleDownThreshold cfg)"
proof -
  let ?p = "sd_pool d"
  let ?ps = "autoscale_refresh cfg provider ci (autoscale_run cfg provider hist (\<lambda>_. fresh_pool))"
  have d: "d \<in> set (fst (evaluate_loop cfg (ci_samples ci) (ci_clock ci) 0 (poolsToManage cfg (ci_samples ci)) ?ps))"
    using assms(1) by (simp add: autoscale_cycle_def evaluate_def Let_def case_prod_unfold)
  then have "?p \<in> set (map sd_pool (fst (evaluate_loop cfg (ci_samples ci) (ci_clock ci) 0 (poolsToManage cfg (ci_samples ci)) ?ps)))"
    unfolding set_map by (rule imageI)
  then have m: "managed_in cfg ?p ci" by (simp add: evaluate_loop_pools managed_in_def)
  obtain q k where k: "fst (snd (ci_clock ci k)) - q \<ge> ac_scaleDownStabilizationMs cfg"
    and le: "pendingForPool (ci_samples ci) ?p \<le> ac_scaleDownThreshold cfg"
    and o: "po_quietSince (?ps ?p) = Some q \<or> (\<exists>j. q = fst (ci_clock ci j))"
    using evaluate_loop_down [OF d assms(2)] by blast
  have "quiet_in cfg ?p ci" using le by (simp add: quiet_in_def)
  then have "quiet_since cfg ?p (hist @ [ci]) q"
    using o m run_quiet by (auto simp: autoscale_refresh_keeps intro: quiet_since_snoc quiet_since_last)
  then show ?thesis using k
    unfolding quiet_since_def quiet_in_def managed_in_def list_all_iff by blast
qed

text \<open>The witness: two quiet cycles ten minutes apart.\<close>

definition example_cycle :: "int \<Rightarrow> int \<Rightarrow> cycle_input" where
  "example_cycle n t = \<lparr>ci_samples = [example_sample n], ci_counts = (\<lambda>_. Inr (Some 3)),
     ci_clock = (\<lambda>_. (t, t, t)), ci_attempts = (\<lambda>_. (t, Inr (), t + 1))\<rparr>"

lemma example_cycle_simps [simp]:
  "ci_samples (example_cycle n t) = [example_sample n]" "ci_clock (example_cycle n t) i = (t, t, t)"
  "ci_counts (example_cycle n t) i = Inr (Some 3)" "ci_attempts (example_cycle n t) i = (t, Inr (), t + 1)"
  "ac_pools example_autoscaler = []" "sm_pool (example_sample n) = ''w''"
  "ac_scaleDownStabilizationMs example_autoscaler = 600000" "ac_cooldownMs example_autoscaler = 300000"
  "ac_enabled example_autoscaler" "ac_maxScaleStep example_autoscaler = 5" "ac_minReplicas example_autoscaler = 1"
  "desiredReplicasFor example_autoscaler 0 = 1"
  by (simp_all add: example_cycle_def example_autoscaler_def example_sample_def desiredReplicasFor_def)

lemmas cycle_defs = autoscale_cycle_def autoscale_run_def autoscale_refresh_def js_unique_def
  refreshReplicaCount_def evaluate_def evaluate_pool_def scale_decision_of_def scale_verdict_def
  step_towards_def is_settled_def observe_pool_def apply_decisions_def apply_decision_def in_cooldown_def

lemma example_cycle_decision:
  "\<exists>d. se_decisions (fst (autoscale_cycle example_autoscaler True (example_cycle 0 600000)
     (autoscale_run example_autoscaler True [example_cycle 0 0] (\<lambda>_. fresh_pool)))) = [d]
   \<and> sd_pool d = ''w'' \<and> sd_action d = Scale_down"
  by (simp add: cycle_defs fresh_pool_def)

theorem scale_down_after_quiet_stretch_witness:
  "\<exists>pre c0 post j k. [example_cycle 0 0] @ [example_cycle 0 600000] = pre @ c0 # post
    \<and> ''w'' \<in> set (poolsToManage example_autoscaler (ci_samples c0))
    \<and> fst (snd (ci_clock (example_cycle 0 600000) k)) - fst (ci_clock c0 j) \<ge> 600000"
proof -
  obtain d where d: "d \<in> set (se_decisions (fst (autoscale_cycle example_autoscaler True (example_cycle 0 600000)
      (autoscale_run example_autoscaler True [example_cycle 0 0] (\<lambda>_. fresh_pool)))))"
    and w: "sd_pool d = ''w''" "sd_action d = Scale_down"
    using example_cycle_decision by (metis list.set_intros(1))
  show ?thesis using scale_down_after_quiet_stretch [OF d w(2)] w by simp blast
qed

section \<open>Runs: the cooldown\<close>

text \<open>
  The calls of \<open>setReplicaCount\<close> that a loop makes: pool, requested count, the reading of the
  cooldown test, whether the call succeeded, and the reading after it.
\<close>

record scale_call =
  sc_pool :: string
  sc_to :: int
  sc_check :: int
  sc_ok :: bool
  sc_done :: int

fun apply_calls ::
  "autoscaler_config \<Rightarrow> bool \<Rightarrow> (nat \<Rightarrow> scale_attempt) \<Rightarrow> nat \<Rightarrow> scale_decision list \<Rightarrow> pool_states \<Rightarrow> scale_call list" where
  "apply_calls cfg provider att i [] ps = []"
| "apply_calls cfg provider att i (d # ds) ps =
     (if calls_provider cfg provider (fst (att i)) d ps
      then [\<lparr>sc_pool = sd_pool d, sc_to = sd_to d, sc_check = fst (att i),
             sc_ok = is_ok (fst (snd (att i))), sc_done = snd (snd (att i))\<rparr>] else [])
     @ apply_calls cfg provider att (Suc i) ds (snd (apply_decision cfg provider (att i) d ps))"

fun run_calls :: "autoscaler_config \<Rightarrow> bool \<Rightarrow> cycle_input list \<Rightarrow> pool_states \<Rightarrow> scale_call list" where
  "run_calls cfg provider [] ps = []"
| "run_calls cfg provider (ci # cs) ps =
     (let (ev, ps1) = evaluate cfg (ci_samples ci) (ci_clock ci) (autoscale_refresh cfg provider ci ps) in
      apply_calls cfg provider (ci_attempts ci) 0 (se_decisions ev) ps1
      @ run_calls cfg provider cs (snd (snd (autoscale_cycle cfg provider ci ps))))"

text \<open>Successful calls for a pool are a cooldown apart, counting from the last action if there is one.\<close>

fun spaced_from :: "int \<Rightarrow> int option \<Rightarrow> scale_call list \<Rightarrow> bool" where
  "spaced_from w t0 [] = True"
| "spaced_from w t0 (c # cs) =
     ((case t0 of None \<Rightarrow> True | Some t \<Rightarrow> w \<le> sc_check c - t) \<and> spaced_from w (Some (sc_done c)) cs)"

fun last_done :: "int option \<Rightarrow> scale_call list \<Rightarrow> int option" where
  "last_done t0 [] = t0"
| "last_done t0 (c # cs) = last_done (Some (sc_done c)) cs"

lemma spaced_from_append:
  "spaced_from w t0 (xs @ ys) \<longleftrightarrow> spaced_from w t0 xs \<and> spaced_from w (last_done t0 xs) ys"
  by (induction xs arbitrary: t0) auto

lemma spaced_from_successively:
  "spaced_from w t0 cs \<Longrightarrow> successively (\<lambda>a b. w \<le> sc_check b - sc_done a) cs"
proof (induction cs arbitrary: t0)
  case (Cons c cs)
  then have "successively (\<lambda>a b. w \<le> sc_check b - sc_done a) cs" by auto
  with Cons.prems show ?case by (cases cs) auto
qed simp

definition done_for :: "string \<Rightarrow> scale_call list \<Rightarrow> scale_call list" where
  "done_for p = filter (\<lambda>c. sc_pool c = p \<and> sc_ok c)"

lemma done_for_append [simp]: "done_for p (xs @ ys) = done_for p xs @ done_for p ys"
  by (simp add: done_for_def)

lemma last_done_append: "last_done l (xs @ ys) = last_done (last_done l xs) ys"
  by (induction xs arbitrary: l) auto

lemma apply_decision_action:
  "po_lastActionAt (snd (apply_decision cfg pr a d ps) p) =
     (if sd_pool d = p \<and> calls_provider cfg pr (fst a) d ps \<and> is_ok (fst (snd a))
      then Some (snd (snd a)) else po_lastActionAt (ps p))"
  by (auto simp: apply_decision_def calls_provider_def Let_def case_prod_unfold is_ok_def split: sum.split)

lemma calls_provider_spaced:
  "calls_provider cfg pr now d ps
   \<Longrightarrow> (case po_lastActionAt (ps (sd_pool d)) of None \<Rightarrow> True | Some t \<Rightarrow> ac_cooldownMs cfg \<le> now - t)"
  by (auto simp: calls_provider_def in_cooldown_def split: option.splits)

lemma apply_calls_spaced:
  "spaced_from (ac_cooldownMs cfg) (po_lastActionAt (ps p)) (done_for p (apply_calls cfg pr att i ds ps))
   \<and> po_lastActionAt (snd (apply_loop cfg pr att i ds ps) p)
      = last_done (po_lastActionAt (ps p)) (done_for p (apply_calls cfg pr att i ds ps))"
proof (induction ds arbitrary: i ps)
  case (Cons d ds)
  show ?case
    using Cons.IH [of "snd (apply_decision cfg pr (att i) d ps)" "Suc i"]
    by (cases "calls_provider cfg pr (fst (att i)) d ps \<and> sd_pool d = p \<and> is_ok (fst (snd (att i)))")
      (auto simp: case_prod_unfold Let_def done_for_def apply_decision_action calls_provider_spaced)
qed (simp add: done_for_def)

lemma run_calls_spaced:
  "spaced_from (ac_cooldownMs cfg) (po_lastActionAt (ps p)) (done_for p (run_calls cfg pr cs ps))"
proof (induction cs arbitrary: ps)
  case (Cons ci cs)
  define e where "e = evaluate cfg (ci_samples ci) (ci_clock ci) (autoscale_refresh cfg pr ci ps)"
  define l where "l = apply_calls cfg pr (ci_attempts ci) 0 (se_decisions (fst e)) (snd e)"
  have same: "po_lastActionAt (snd e p) = po_lastActionAt (ps p)"
    by (simp add: e_def evaluate_def Let_def case_prod_unfold evaluate_loop_keeps autoscale_refresh_keeps)
  have step: "snd (snd (autoscale_cycle cfg pr ci ps)) = snd (apply_loop cfg pr (ci_attempts ci) 0 (se_decisions (fst e)) (snd e))"
    by (simp add: autoscale_cycle_def e_def apply_decisions_def case_prod_unfold Let_def)
  have "spaced_from (ac_cooldownMs cfg) (po_lastActionAt (ps p)) (done_for p l)"
    and "po_lastActionAt (snd (snd (autoscale_cycle cfg pr ci ps)) p) = last_done (po_lastActionAt (ps p)) (done_for p l)"
    using apply_calls_spaced [where cfg = cfg and ps = "snd e" and p = p and pr = pr and att = "ci_attempts ci"
        and i = 0 and ds = "se_decisions (fst e)"] by (simp_all add: step l_def same)
  moreover have "run_calls cfg pr (ci # cs) ps = l @ run_calls cfg pr cs (snd (snd (autoscale_cycle cfg pr ci ps)))"
    by (simp add: l_def e_def case_prod_unfold Let_def)
  ultimately show ?case using Cons.IH [of "snd (snd (autoscale_cycle cfg pr ci ps))"]
    by (simp add: spaced_from_append)
qed (simp add: done_for_def)

lemma apply_calls_advisory: "\<not> (ac_enabled cfg \<and> pr) \<Longrightarrow> apply_calls cfg pr att i ds ps = []"
  by (induction ds arbitrary: i ps) (auto simp: calls_provider_def)

lemma run_calls_advisory: "\<not> (ac_enabled cfg \<and> pr) \<Longrightarrow> run_calls cfg pr cs ps = []"
  by (induction cs arbitrary: ps) (auto simp: apply_calls_advisory case_prod_unfold)

text \<open>
  Over any run of the service and for every pool, the cooldown test of a successful call of the
  provider comes at least \<open>cooldownMs\<close> after the completion of the successful call before it; and
  when the autoscaler is disabled, or has no provider, the provider is never called.
\<close>
theorem cooldown_respected:
  "successively (\<lambda>a b. ac_cooldownMs cfg \<le> sc_check b - sc_done a)
     (filter (\<lambda>c. sc_pool c = p \<and> sc_ok c) (run_calls cfg provider cs (\<lambda>_. fresh_pool)))
   \<and> (\<not> (ac_enabled cfg \<and> provider) \<longrightarrow> run_calls cfg provider cs (\<lambda>_. fresh_pool) = [])"
  using run_calls_spaced [of cfg "\<lambda>_. fresh_pool" p provider cs] run_calls_advisory
  by (auto simp: done_for_def dest: spaced_from_successively)

lemma example_calls:
  "map sc_to (run_calls example_autoscaler True [example_cycle 0 0, example_cycle 0 600000] (\<lambda>_. fresh_pool)) = [1]"
  by (simp add: cycle_defs fresh_pool_def calls_provider_def)

text \<open>The witness: a run that calls the provider once, and the same run with the autoscaler disabled.\<close>
theorem cooldown_respected_witness:
  "map sc_to (run_calls example_autoscaler True [example_cycle 0 0, example_cycle 0 600000] (\<lambda>_. fresh_pool)) = [1]
   \<and> run_calls (example_autoscaler\<lparr>ac_enabled := False\<rparr>) True [example_cycle 0 0, example_cycle 0 600000]
       (\<lambda>_. fresh_pool) = []"
  using cooldown_respected [of "example_autoscaler\<lparr>ac_enabled := False\<rparr>" "''w''" True
      "[example_cycle 0 0, example_cycle 0 600000]"]
  by (simp add: example_calls del: run_calls.simps)

text \<open>
  The baseline that the decision announces is not adopted: as long as the provider reports no
  count, the pool is never scaled, whatever its backlog.
\<close>
lemma no_baseline_without_count:
  assumes "\<And>i. counts i = Inr None" "po_lastKnown (ps p) = None"
  shows "po_lastKnown (refresh_loop pr counts i pools ps p) = None"
  using assms(2)
  by (induction pools arbitrary: i ps) (auto simp: refreshReplicaCount_def assms(1))

end
