(* ===== verification/DepthCodec.thy ===== *)
theory DepthCodec
  imports Codec "HOL-Library.Countable"
begin

text \<open>
  \<open>src/services/orderBookDepthCompression.ts\<close>: the framed, columnar encoding of an order book depth
  map.  MessagePack is a third-party package: its \<open>encode\<close> and \<open>decode\<close> are the fields of a record,
  and what is used of them is that decoding returns what was encoded, down to a nesting of 100.  \<open>Number(text)\<close>,
  \<open>String(number)\<close> and \<open>toFixed(12)\<close> are fields of a record as well: nothing is used of them, the
  encoder compares their results with the text it was given.

  The code checks its inputs at run time; a value of unknown type is a \<open>plain\<close> value, where a number
  that is not finite is \<open>P_num None\<close> and everything without a case of its own is \<open>P_other\<close>.

  The lemmas: decoding an encoded map returns it, a payload that is cut short or extended is refused,
  and the latency percentiles are samples in the order of their quantiles.
\<close>

section \<open>Values and errors\<close>

text \<open>A text in double quotes.\<close>

definition dq :: "string \<Rightarrow> string" where
  "dq s = CHR 0x22 # s @ [CHR 0x22]"

datatype plain =
    P_str string
  | P_num "rat option"
  | P_arr "plain list"
  | P_other

datatype depth_error = OrderBookDepthCodecError string | DepthRangeError

record js_numeric =
  jn_Number :: "string \<Rightarrow> rat option"
  jn_String :: "rat \<Rightarrow> string"
  jn_toFixed12 :: "rat \<Rightarrow> string"

record msgpack =
  mp_encode :: "plain \<Rightarrow> bytes"
  mp_decode :: "bytes \<Rightarrow> (string, plain) result"

record depth_level =
  dl_price :: string
  dl_volume :: string
  dl_cumulativeVolume :: string
  dl_orderCount :: nat

record order_depth =
  od_market :: string
  od_tickSize :: string
  od_bids :: "depth_level list"
  od_asks :: "depth_level list"
  od_generatedAt :: string

text \<open>What the encoder may be given at run time; a side that is not an array is \<open>None\<close>.\<close>

record level_input =
  li_price :: plain
  li_volume :: plain
  li_cumulativeVolume :: plain
  li_orderCount :: plain

record depth_input =
  di_market :: plain
  di_tickSize :: plain
  di_bids :: "level_input list option"
  di_asks :: "level_input list option"
  di_generatedAt :: plain

definition ORDER_BOOK_DEPTH_MAGIC :: string where "ORDER_BOOK_DEPTH_MAGIC = ''SFD1''"
definition ORDER_BOOK_DEPTH_FORMAT_VERSION :: nat where "ORDER_BOOK_DEPTH_FORMAT_VERSION = 1"
definition HEADER_SIZE :: nat where "HEADER_SIZE = length ORDER_BOOK_DEPTH_MAGIC + 1 + 1 + 4"
definition HEADER_OFFSET_VERSION :: nat where "HEADER_OFFSET_VERSION = length ORDER_BOOK_DEPTH_MAGIC"
definition HEADER_OFFSET_PAYLOAD_LENGTH :: nat where
  "HEADER_OFFSET_PAYLOAD_LENGTH = length ORDER_BOOK_DEPTH_MAGIC + 2"
definition SIDE_COLUMN_COUNT :: nat where "SIDE_COLUMN_COUNT = 4"
definition PAYLOAD_FIELD_COUNT :: nat where "PAYLOAD_FIELD_COUNT = 5"

section \<open>Encoding\<close>

definition toEncodableText :: "js_numeric \<Rightarrow> plain \<Rightarrow> string \<Rightarrow> (depth_error, string) result" where
  "toEncodableText nm v field =
     (let e = Inl (OrderBookDepthCodecError (field @ '' must be a non-empty decimal string'')) in
      case v of
        P_str s \<Rightarrow> if length s > 0 then Inr s else e
      | P_num (Some x) \<Rightarrow> Inr (jn_String nm x)
      | _ \<Rightarrow> e)"

definition toOrderCount :: "plain \<Rightarrow> string \<Rightarrow> (depth_error, nat) result" where
  "toOrderCount v field =
     (let e = Inl (OrderBookDepthCodecError (field @ '' must be a non-negative integer'')) in
      case v of
        P_num (Some x) \<Rightarrow> if of_int \<lfloor>x\<rfloor> = x \<and> x \<ge> 0 then Inr (nat \<lfloor>x\<rfloor>) else e
      | _ \<Rightarrow> e)"

definition encodeDecimal :: "js_numeric \<Rightarrow> string \<Rightarrow> plain" where
  "encodeDecimal nm value = (case jn_Number nm value of
      Some x \<Rightarrow> if jn_String nm x = value then P_num (Some x) else P_str value
    | None \<Rightarrow> P_str value)"

definition encode_level ::
  "js_numeric \<Rightarrow> string \<Rightarrow> nat \<Rightarrow> level_input \<Rightarrow> (depth_error, plain \<times> plain \<times> plain \<times> plain) result" where
  "encode_level nm side index l =
     (let path = side @ ''['' @ show_nat index @ '']'' in
      rbind (toEncodableText nm (li_price l) (path @ ''.price'')) (\<lambda>p.
      rbind (toEncodableText nm (li_volume l) (path @ ''.volume'')) (\<lambda>v.
      rbind (toEncodableText nm (li_cumulativeVolume l) (path @ ''.cumulativeVolume'')) (\<lambda>c.
      rbind (toOrderCount (li_orderCount l) (path @ ''.orderCount'')) (\<lambda>n.
        Inr (encodeDecimal nm p, encodeDecimal nm v, encodeDecimal nm c, P_num (Some (of_nat n))))))))"

fun encode_levels ::
  "js_numeric \<Rightarrow> string \<Rightarrow> nat \<Rightarrow> level_input list \<Rightarrow> (depth_error, (plain \<times> plain \<times> plain \<times> plain) list) result" where
  "encode_levels nm side i [] = Inr []"
| "encode_levels nm side i (l # ls) =
     rbind (encode_level nm side i l) (\<lambda>row.
     rbind (encode_levels nm side (Suc i) ls) (\<lambda>rows. Inr (row # rows)))"

definition columns :: "(plain \<times> plain \<times> plain \<times> plain) list \<Rightarrow> plain" where
  "columns rows = P_arr [P_arr (map fst rows), P_arr (map (fst \<circ> snd) rows),
                         P_arr (map (fst \<circ> snd \<circ> snd) rows), P_arr (map (snd \<circ> snd \<circ> snd) rows)]"

definition encodeSide :: "js_numeric \<Rightarrow> level_input list option \<Rightarrow> string \<Rightarrow> (depth_error, plain) result" where
  "encodeSide nm levels side = (case levels of
      None \<Rightarrow> Inl (OrderBookDepthCodecError (side @ '' must be an array of depth levels''))
    | Some ls \<Rightarrow> rbind (encode_levels nm side 0 ls) (\<lambda>rows. Inr (columns rows)))"

definition encode_depth_payload :: "js_numeric \<Rightarrow> depth_input option \<Rightarrow> (depth_error, plain) result" where
  "encode_depth_payload nm depth = (case depth of
      None \<Rightarrow> Inl (OrderBookDepthCodecError ''depth must be an order book depth object'')
    | Some d \<Rightarrow>
        rbind (toEncodableText nm (di_market d) ''market'') (\<lambda>market.
        rbind (toEncodableText nm (di_tickSize d) ''tickSize'') (\<lambda>tickSize.
        rbind (toEncodableText nm (di_generatedAt d) ''generatedAt'') (\<lambda>generatedAt.
        rbind (encodeSide nm (di_bids d) ''bids'') (\<lambda>bids.
        rbind (encodeSide nm (di_asks d) ''asks'') (\<lambda>asks.
          Inr (P_arr [P_str market, P_str tickSize, P_str generatedAt, bids, asks])))))))"

text \<open>\<open>writeUInt32BE\<close> throws when the value does not fit; \<open>latin1\<close> writes one byte per character.\<close>

definition latin1 :: "string \<Rightarrow> bytes" where
  "latin1 s = map (\<lambda>c. of_nat (code c)) s"

definition latin1_text :: "bytes \<Rightarrow> string" where
  "latin1_text bs = map (\<lambda>b. char_of (unat b)) bs"

definition uint32_be :: "nat \<Rightarrow> bytes" where
  "uint32_be n = [of_nat (n div 2 ^ 24), of_nat (n div 2 ^ 16), of_nat (n div 2 ^ 8), of_nat n]"

definition read_uint32_be :: "bytes \<Rightarrow> nat" where
  "read_uint32_be bs = foldl (\<lambda>n b. 256 * n + unat b) 0 bs"

definition frame_payload :: "bytes \<Rightarrow> bytes" where
  "frame_payload payload =
     latin1 ORDER_BOOK_DEPTH_MAGIC @ [of_nat ORDER_BOOK_DEPTH_FORMAT_VERSION] @ [0]
     @ uint32_be (length payload) @ payload"

definition encodeOrderDepth ::
  "js_numeric \<Rightarrow> msgpack \<Rightarrow> depth_input option \<Rightarrow> (depth_error, bytes) result" where
  "encodeOrderDepth nm mp depth =
     rbind (encode_depth_payload nm depth) (\<lambda>v.
       let payload = mp_encode mp v in
       if length payload \<ge> 2 ^ 32 then Inl DepthRangeError
       else Inr (frame_payload payload))"

section \<open>Decoding\<close>

definition decodeDecimal :: "js_numeric \<Rightarrow> plain \<Rightarrow> string \<Rightarrow> (depth_error, string) result" where
  "decodeDecimal nm v field = (case v of
      P_num None \<Rightarrow> Inl (OrderBookDepthCodecError (field @ '' is not a finite number''))
    | P_num (Some x) \<Rightarrow> Inr (jn_String nm x)
    | P_str s \<Rightarrow> if length s > 0 then Inr s
                  else Inl (OrderBookDepthCodecError (field @ '' must be a number or a decimal string''))
    | _ \<Rightarrow> Inl (OrderBookDepthCodecError (field @ '' must be a number or a decimal string'')))"

definition decodeOrderCount :: "plain \<Rightarrow> string \<Rightarrow> (depth_error, nat) result" where
  "decodeOrderCount v field =
     (let e = Inl (OrderBookDepthCodecError (field @ '' must be a non-negative integer'')) in
      case v of
        P_num (Some x) \<Rightarrow> if of_int \<lfloor>x\<rfloor> = x \<and> x \<ge> 0 then Inr (nat \<lfloor>x\<rfloor>) else e
      | _ \<Rightarrow> e)"

definition decodeText :: "plain \<Rightarrow> string \<Rightarrow> (depth_error, string) result" where
  "decodeText v field =
     (let e = Inl (OrderBookDepthCodecError (field @ '' must be a non-empty string'')) in
      case v of P_str s \<Rightarrow> if length s > 0 then Inr s else e | _ \<Rightarrow> e)"

definition asColumn :: "plain \<Rightarrow> string \<Rightarrow> (depth_error, plain list) result" where
  "asColumn v field = (case v of
      P_arr xs \<Rightarrow> Inr xs
    | _ \<Rightarrow> Inl (OrderBookDepthCodecError (field @ '' must be an array'')))"

fun decode_levels ::
  "js_numeric \<Rightarrow> string \<Rightarrow> nat \<Rightarrow> (plain \<times> plain \<times> plain \<times> plain) list \<Rightarrow> (depth_error, depth_level list) result" where
  "decode_levels nm side i [] = Inr []"
| "decode_levels nm side i ((p, v, c, n) # rows) =
     (let path = side @ ''['' @ show_nat i @ '']'' in
      rbind (decodeDecimal nm p (path @ ''.price'')) (\<lambda>price.
      rbind (decodeDecimal nm v (path @ ''.volume'')) (\<lambda>volume.
      rbind (decodeDecimal nm c (path @ ''.cumulativeVolume'')) (\<lambda>cumulative.
      rbind (decodeOrderCount n (path @ ''.orderCount'')) (\<lambda>orders.
      rbind (decode_levels nm side (Suc i) rows) (\<lambda>levels.
        Inr (\<lparr>dl_price = price, dl_volume = volume, dl_cumulativeVolume = cumulative,
              dl_orderCount = orders\<rparr> # levels)))))))"

definition decodeSide :: "js_numeric \<Rightarrow> plain \<Rightarrow> string \<Rightarrow> (depth_error, depth_level list) result" where
  "decodeSide nm v side = (case v of
      P_arr fs \<Rightarrow>
        if length fs \<noteq> SIDE_COLUMN_COUNT
        then Inl (OrderBookDepthCodecError (side @ '' must be a MessagePack array of 4 columns''))
        else
          rbind (asColumn (fs ! 0) (side @ ''.prices'')) (\<lambda>prices.
          rbind (asColumn (fs ! 1) (side @ ''.volumes'')) (\<lambda>volumes.
          rbind (asColumn (fs ! 2) (side @ ''.cumulativeVolumes'')) (\<lambda>cumulativeVolumes.
          rbind (asColumn (fs ! 3) (side @ ''.orderCounts'')) (\<lambda>orderCounts.
            if length volumes \<noteq> length prices \<or> length cumulativeVolumes \<noteq> length prices
               \<or> length orderCounts \<noteq> length prices
            then Inl (OrderBookDepthCodecError (side @ '' columns must all have the same length''))
            else decode_levels nm side 0 (zip prices (zip volumes (zip cumulativeVolumes orderCounts)))))))
    | _ \<Rightarrow> Inl (OrderBookDepthCodecError (side @ '' must be a MessagePack array of 4 columns'')))"

definition decode_body :: "js_numeric \<Rightarrow> plain \<Rightarrow> (depth_error, order_depth) result" where
  "decode_body nm decoded =
     (let e = Inl (OrderBookDepthCodecError
           ''compressed depth payload must decode to a 5 element MessagePack array'') in
      case decoded of
        P_arr fs \<Rightarrow>
          if length fs \<noteq> PAYLOAD_FIELD_COUNT then e
          else
            rbind (decodeText (fs ! 0) ''market'') (\<lambda>market.
            rbind (decodeText (fs ! 1) ''tickSize'') (\<lambda>tickSize.
            rbind (decodeText (fs ! 2) ''generatedAt'') (\<lambda>generatedAt.
            rbind (decodeSide nm (fs ! 3) ''bids'') (\<lambda>bids.
            rbind (decodeSide nm (fs ! 4) ''asks'') (\<lambda>asks.
              Inr \<lparr>od_market = market, od_tickSize = tickSize, od_bids = bids, od_asks = asks,
                   od_generatedAt = generatedAt\<rparr>)))))
      | _ \<Rightarrow> e)"

text \<open>The checks of the header; the result is the body.\<close>

definition unframe_payload :: "bytes \<Rightarrow> (depth_error, bytes) result" where
  "unframe_payload buffer =
     (let err = (\<lambda>m. Inl (OrderBookDepthCodecError m)) in
      if length buffer < HEADER_SIZE then
        err (''compressed depth payload is truncated: expected at least '' @ show_nat HEADER_SIZE
             @ '' header bytes, received '' @ show_nat (length buffer))
      else let magic = latin1_text (take (length ORDER_BOOK_DEPTH_MAGIC) buffer) in
      if magic \<noteq> ORDER_BOOK_DEPTH_MAGIC then
        err (''compressed depth payload has an invalid magic prefix: expected '' @ dq ORDER_BOOK_DEPTH_MAGIC
             @ '', received '' @ dq magic)
      else let version = unat (buffer ! HEADER_OFFSET_VERSION) in
      if version \<noteq> ORDER_BOOK_DEPTH_FORMAT_VERSION then
        err (''unsupported compressed depth payload version: '' @ show_nat version)
      else let declaredLength = read_uint32_be (take 4 (drop HEADER_OFFSET_PAYLOAD_LENGTH buffer));
               receivedLength = length buffer - HEADER_SIZE in
      if declaredLength \<noteq> receivedLength then
        err (''compressed depth payload is truncated or corrupted: header declares '' @ show_nat declaredLength
             @ '' payload bytes, received '' @ show_nat receivedLength)
      else Inr (drop HEADER_SIZE buffer))"

definition decodeOrderDepth :: "js_numeric \<Rightarrow> msgpack \<Rightarrow> bytes \<Rightarrow> (depth_error, order_depth) result" where
  "decodeOrderDepth nm mp buffer =
     rbind (unframe_payload buffer) (\<lambda>body.
       case mp_decode mp body of
         Inl message \<Rightarrow>
           Inl (OrderBookDepthCodecError (''compressed depth payload is not valid MessagePack: '' @ message))
       | Inr decoded \<Rightarrow> decode_body nm decoded)"

text \<open>Bytes or the string form; \<open>None\<close> is \<open>null\<close> or \<open>undefined\<close>.\<close>

definition isCompressedOrderDepth :: "(string + bytes) option \<Rightarrow> bool" where
  "isCompressedOrderDepth payload = (case payload of
      None \<Rightarrow> False
    | Some (Inl s) \<Rightarrow> take (length ORDER_BOOK_DEPTH_MAGIC) s = ORDER_BOOK_DEPTH_MAGIC
    | Some (Inr bs) \<Rightarrow> latin1_text (take (length ORDER_BOOK_DEPTH_MAGIC) bs) = ORDER_BOOK_DEPTH_MAGIC)"

section \<open>Measurement\<close>

record latency_stats =
  la_samples :: nat
  la_avgMs :: rat
  la_minMs :: rat
  la_p50Ms :: rat
  la_p95Ms :: rat
  la_maxMs :: rat

record compression_measurement =
  cm_jsonBytes :: nat
  cm_encodedBytes :: nat
  cm_ratio :: rat
  cm_reductionPercent :: rat
  cm_meetsTarget :: bool

record codec_benchmark =
  cb_iterations :: int
  cb_encode :: latency_stats
  cb_decode :: latency_stats
  cb_compression :: compression_measurement
  cb_latencyBudgetMs :: rat
  cb_withinLatencyBudget :: bool

definition ORDER_BOOK_DEPTH_MIN_REDUCTION :: rat where "ORDER_BOOK_DEPTH_MIN_REDUCTION = fl (6 / 10)"
definition ORDER_BOOK_DEPTH_LATENCY_BUDGET_MS :: rat where "ORDER_BOOK_DEPTH_LATENCY_BUDGET_MS = 1 / 2"
definition DEFAULT_BENCHMARK_ITERATIONS :: rat where "DEFAULT_BENCHMARK_ITERATIONS = 100"
definition DEFAULT_BENCHMARK_WARMUP_ITERATIONS :: rat where "DEFAULT_BENCHMARK_WARMUP_ITERATIONS = 20"

definition percentile_index :: "nat \<Rightarrow> rat \<Rightarrow> nat" where
  "percentile_index n quantile =
     nat (min (int n - 1) (max 0 (\<lceil>jsmul quantile (of_nat n)\<rceil> - 1)))"

definition percentile :: "rat list \<Rightarrow> rat \<Rightarrow> rat" where
  "percentile sortedSamples quantile =
     (if sortedSamples = [] then 0 else sortedSamples ! percentile_index (length sortedSamples) quantile)"

definition summarizeLatency :: "rat list \<Rightarrow> latency_stats" where
  "summarizeLatency samples =
     (let sorted_samples = sort samples; total_ms = js_sum sorted_samples in
      \<lparr>la_samples = length sorted_samples,
       la_avgMs = (if sorted_samples = [] then 0 else jsdiv total_ms (of_nat (length sorted_samples))),
       la_minMs = (if sorted_samples = [] then 0 else hd sorted_samples),
       la_p50Ms = percentile sorted_samples (1 / 2),
       la_p95Ms = percentile sorted_samples (fl (95 / 100)),
       la_maxMs = (if sorted_samples = [] then 0 else last sorted_samples)\<rparr>)"

definition normalizeIterations :: "rat option \<Rightarrow> rat \<Rightarrow> (depth_error, nat) result" where
  "normalizeIterations v fallback = (case v of
      None \<Rightarrow> Inr (nat \<lfloor>fallback\<rfloor>)
    | Some x \<Rightarrow> if of_int \<lfloor>x\<rfloor> \<noteq> x \<or> x < 1
                then Inl (OrderBookDepthCodecError ''benchmark iterations must be a positive integer'')
                else Inr (nat \<lfloor>x\<rfloor>))"

text \<open>The byte length of \<open>JSON.stringify(depth)\<close> is an argument.\<close>

definition measureCompressionRatio :: "nat \<Rightarrow> bytes \<Rightarrow> compression_measurement" where
  "measureCompressionRatio jsonBytes encoded =
     (let ratio = (if jsonBytes = 0 then 0 else jsdiv (of_nat (length encoded)) (of_nat jsonBytes));
          reductionPercent = jsmul (jssub 1 ratio) 100 in
      \<lparr>cm_jsonBytes = jsonBytes, cm_encodedBytes = length encoded, cm_ratio = ratio,
       cm_reductionPercent = reductionPercent,
       cm_meetsTarget = (reductionPercent \<ge> jsmul ORDER_BOOK_DEPTH_MIN_REDUCTION 100)\<rparr>)"

text \<open>
  The four readings of \<open>performance.now()\<close> in each timed iteration are arguments.  The codec is
  deterministic, so an iteration throws exactly when the first one does.
\<close>

definition benchmarkOrderDepthCodec ::
  "js_numeric \<Rightarrow> msgpack \<Rightarrow> nat \<Rightarrow> (nat \<Rightarrow> rat \<times> rat \<times> rat \<times> rat) \<Rightarrow> depth_input option
     \<Rightarrow> rat option \<Rightarrow> rat option \<Rightarrow> rat option \<Rightarrow> (depth_error, codec_benchmark) result" where
  "benchmarkOrderDepthCodec nm mp jsonBytes clk depth iterations warmup budget =
     rbind (normalizeIterations iterations DEFAULT_BENCHMARK_ITERATIONS) (\<lambda>n.
     rbind (normalizeIterations warmup DEFAULT_BENCHMARK_WARMUP_ITERATIONS) (\<lambda>_.
     rbind (encodeOrderDepth nm mp depth) (\<lambda>payload.
     rbind (decodeOrderDepth nm mp payload) (\<lambda>_.
       let latencyBudgetMs = (case budget of Some t \<Rightarrow> t | None \<Rightarrow> ORDER_BOOK_DEPTH_LATENCY_BUDGET_MS);
           enc = summarizeLatency (map (\<lambda>i. case clk i of (a, b, c, d) \<Rightarrow> jssub b a) [0..<n]);
           dec = summarizeLatency (map (\<lambda>i. case clk i of (a, b, c, d) \<Rightarrow> jssub d c) [0..<n]) in
       Inr \<lparr>cb_iterations = int n, cb_encode = enc, cb_decode = dec,
            cb_compression = measureCompressionRatio jsonBytes payload,
            cb_latencyBudgetMs = latencyBudgetMs,
            cb_withinLatencyBudget =
              (la_avgMs enc \<le> latencyBudgetMs \<and> la_avgMs dec \<le> latencyBudgetMs
               \<and> la_p95Ms enc \<le> latencyBudgetMs \<and> la_p95Ms dec \<le> latencyBudgetMs)\<rparr>))))"

section \<open>The header\<close>

lemma latin1_roundtrip [simp]: "latin1_text (latin1 s) = s"
proof -
  have "char_of (unat (of_nat (code c) :: byte)) = c" for c :: char
    using of_char_char_of_nat [of "code c"] by (simp add: unat_of_nat take_bit_eq_mod of_char_eq_iff)
  then show ?thesis by (simp add: latin1_def latin1_text_def comp_def)
qed

lemma length_latin1 [simp]: "length (latin1 s) = length s"
  by (simp add: latin1_def)

lemma unat_byte_of_nat: "unat (of_nat n :: byte) = n mod 256"
  by (simp add: unat_of_nat take_bit_eq_mod)

lemma read_uint32_be_roundtrip:
  assumes "n < 2 ^ 32" shows "read_uint32_be (uint32_be n) = n"
proof -
  define a b c where "a = n div 256" and "b = a div 256" and "c = b div 256"
  have d: "n div 2 ^ 8 = a" "n div 2 ^ 16 = b" "n div 2 ^ 24 = c"
    by (simp_all add: a_def b_def c_def flip: div_mult2_eq)
  have "c < 256" using assms unfolding d(3) [symmetric] by (simp add: div_less_iff_less_mult)
  then have "256 * (256 * (256 * (c mod 256) + b mod 256) + a mod 256) + n mod 256
      = 256 * (256 * (256 * (b div 256) + b mod 256) + a mod 256) + n mod 256" by (simp add: c_def)
  also have "\<dots> = n" by (simp only: mult_div_mod_eq a_def b_def)
  finally show ?thesis
    unfolding read_uint32_be_def uint32_be_def d by (simp add: unat_byte_of_nat)
qed

lemma length_uint32_be [simp]: "length (uint32_be n) = 4"
  by (simp add: uint32_be_def)

lemmas header_consts = HEADER_SIZE_def HEADER_OFFSET_VERSION_def HEADER_OFFSET_PAYLOAD_LENGTH_def
  ORDER_BOOK_DEPTH_MAGIC_def ORDER_BOOK_DEPTH_FORMAT_VERSION_def


lemma frame_parts:
  "length (frame_payload p) = HEADER_SIZE + length p"
  "latin1_text (take (length ORDER_BOOK_DEPTH_MAGIC) (frame_payload p)) = ORDER_BOOK_DEPTH_MAGIC"
  "unat (frame_payload p ! HEADER_OFFSET_VERSION) = ORDER_BOOK_DEPTH_FORMAT_VERSION"
  "take 4 (drop HEADER_OFFSET_PAYLOAD_LENGTH (frame_payload p)) = uint32_be (length p)"
  "drop HEADER_SIZE (frame_payload p) = p"
proof -
  have m: "length (latin1 ORDER_BOOK_DEPTH_MAGIC) = 4" by (simp add: ORDER_BOOK_DEPTH_MAGIC_def)
  show "length (frame_payload p) = HEADER_SIZE + length p" by (simp add: frame_payload_def header_consts)
  show "latin1_text (take (length ORDER_BOOK_DEPTH_MAGIC) (frame_payload p)) = ORDER_BOOK_DEPTH_MAGIC"
    by (simp add: frame_payload_def)
  show "unat (frame_payload p ! HEADER_OFFSET_VERSION) = ORDER_BOOK_DEPTH_FORMAT_VERSION"
    by (simp add: frame_payload_def nth_append HEADER_OFFSET_VERSION_def ORDER_BOOK_DEPTH_FORMAT_VERSION_def)
  show "take 4 (drop HEADER_OFFSET_PAYLOAD_LENGTH (frame_payload p)) = uint32_be (length p)"
    by (simp add: frame_payload_def HEADER_OFFSET_PAYLOAD_LENGTH_def)
  show "drop HEADER_SIZE (frame_payload p) = p"
    using m by (simp add: frame_payload_def HEADER_SIZE_def)
qed

interpretation u32: codec uint32_be "\<lambda>bs. Inr (read_uint32_be bs)" "\<lambda>n. n < 2 ^ 32"
  by unfold_locales (simp add: read_uint32_be_roundtrip)

interpretation framec: codec frame_payload unframe_payload "\<lambda>p. length p < 2 ^ 32"
  by unfold_locales (simp add: unframe_payload_def frame_parts read_uint32_be_roundtrip Let_def)

section \<open>Round trip\<close>

text \<open>A typed depth map as the encoder sees it.\<close>

definition level_value :: "depth_level \<Rightarrow> level_input" where
  "level_value l = \<lparr>li_price = P_str (dl_price l), li_volume = P_str (dl_volume l),
     li_cumulativeVolume = P_str (dl_cumulativeVolume l), li_orderCount = P_num (Some (of_nat (dl_orderCount l)))\<rparr>"

definition depth_value :: "order_depth \<Rightarrow> depth_input" where
  "depth_value d = \<lparr>di_market = P_str (od_market d), di_tickSize = P_str (od_tickSize d),
     di_bids = Some (map level_value (od_bids d)), di_asks = Some (map level_value (od_asks d)),
     di_generatedAt = P_str (od_generatedAt d)\<rparr>"

definition level_texts :: "depth_level \<Rightarrow> string list" where
  "level_texts l = [dl_price l, dl_volume l, dl_cumulativeVolume l]"

definition level_encodable :: "depth_level \<Rightarrow> bool" where
  "level_encodable l \<longleftrightarrow> [] \<notin> set (level_texts l) \<and> dl_orderCount l < 2 ^ 53"

definition depth_encodable :: "order_depth \<Rightarrow> bool" where
  "depth_encodable d \<longleftrightarrow> [] \<notin> {od_market d, od_tickSize d, od_generatedAt d}
     \<and> list_all level_encodable (od_bids d @ od_asks d)"

text \<open>The values that MessagePack keeps: texts, doubles and arrays of them.\<close>

fun storable :: "plain \<Rightarrow> bool" where
  "storable (P_str s) = True"
| "storable (P_num x) = (case x of None \<Rightarrow> True | Some q \<Rightarrow> fl q = q)"
| "storable (P_arr vs) = list_all storable vs"
| "storable P_other = False"

text \<open>The depth at which the encoder meets the innermost value; beyond \<open>maxDepth\<close>, 100, the package throws.\<close>

fun nesting :: "plain \<Rightarrow> nat" where
  "nesting (P_arr vs) = Suc (foldr max (map nesting vs) 0)"
| "nesting _ = 1"

definition msgpack_ok :: "msgpack \<Rightarrow> bool" where
  "msgpack_ok mp \<longleftrightarrow> (\<forall>v. storable v \<longrightarrow> nesting v \<le> 100 \<longrightarrow> mp_decode mp (mp_encode mp v) = Inr v)"

definition numeric_ok :: "js_numeric \<Rightarrow> bool" where
  "numeric_ok nm \<longleftrightarrow> (\<forall>s x. jn_Number nm s = Some x \<longrightarrow> fl x = x)"

definition level_row :: "js_numeric \<Rightarrow> depth_level \<Rightarrow> plain \<times> plain \<times> plain \<times> plain" where
  "level_row nm l = (encodeDecimal nm (dl_price l), encodeDecimal nm (dl_volume l),
     encodeDecimal nm (dl_cumulativeVolume l), P_num (Some (of_nat (dl_orderCount l))))"

lemma decode_encodeDecimal: "s \<noteq> [] \<Longrightarrow> decodeDecimal nm (encodeDecimal nm s) field = Inr s"
  by (simp add: encodeDecimal_def decodeDecimal_def split: option.split)

lemma encodeDecimal_storable: "numeric_ok nm \<Longrightarrow> storable (encodeDecimal nm s)"
  by (simp add: encodeDecimal_def numeric_ok_def split: option.split)

lemma count_roundtrip:
  "toOrderCount (P_num (Some (of_nat n))) field = Inr n" "decodeOrderCount (P_num (Some (of_nat n))) field = Inr n"
  by (simp_all add: toOrderCount_def decodeOrderCount_def)

lemma toEncodableText_str: "s \<noteq> [] \<Longrightarrow> toEncodableText nm (P_str s) field = Inr s"
  by (simp add: toEncodableText_def)

lemma encode_levels_value:
  "list_all level_encodable ls \<Longrightarrow> encode_levels nm side i (map level_value ls) = Inr (map (level_row nm) ls)"
  by (induction ls arbitrary: i)
    (auto simp: encode_level_def level_value_def level_row_def level_encodable_def level_texts_def Let_def
      toEncodableText_str count_roundtrip)

lemma decode_levels_rows:
  "list_all level_encodable ls \<Longrightarrow> decode_levels nm side i (map (level_row nm) ls) = Inr ls"
  by (induction ls arbitrary: i)
    (auto simp: level_row_def level_encodable_def level_texts_def Let_def decode_encodeDecimal count_roundtrip)

lemma zip_columns:
  "zip (map fst rows) (zip (map (fst \<circ> snd) rows) (zip (map (fst \<circ> snd \<circ> snd) rows) (map (snd \<circ> snd \<circ> snd) rows))) = rows"
  by (induction rows) auto

lemma decodeSide_columns:
  "list_all level_encodable ls \<Longrightarrow> decodeSide nm (columns (map (level_row nm) ls)) side = Inr ls"
  using zip_columns [of "map (level_row nm) ls"]
  by (simp add: decodeSide_def columns_def SIDE_COLUMN_COUNT_def asColumn_def decode_levels_rows)

lemma columns_storable:
  "numeric_ok nm \<Longrightarrow> list_all level_encodable ls \<Longrightarrow> storable (columns (map (level_row nm) ls))"
  by (induction ls)
    (auto simp: columns_def level_row_def level_encodable_def encodeDecimal_storable fl_of_nat)

definition depth_payload :: "js_numeric \<Rightarrow> order_depth \<Rightarrow> plain" where
  "depth_payload nm d = P_arr [P_str (od_market d), P_str (od_tickSize d), P_str (od_generatedAt d),
     columns (map (level_row nm) (od_bids d)), columns (map (level_row nm) (od_asks d))]"

lemma encode_depth_payload_value:
  "depth_encodable d \<Longrightarrow> encode_depth_payload nm (Some (depth_value d)) = Inr (depth_payload nm d)"
  by (auto simp: encode_depth_payload_def depth_value_def depth_encodable_def toEncodableText_str
      encodeSide_def encode_levels_value depth_payload_def)

lemma decode_body_payload: "depth_encodable d \<Longrightarrow> decode_body nm (depth_payload nm d) = Inr d"
  by (auto simp: decode_body_def depth_payload_def PAYLOAD_FIELD_COUNT_def decodeText_def depth_encodable_def
      decodeSide_columns)

lemma depth_payload_storable: "numeric_ok nm \<Longrightarrow> depth_encodable d \<Longrightarrow> storable (depth_payload nm d)"
  by (simp add: depth_payload_def depth_encodable_def columns_storable)

lemma nesting_flat: "list_all (\<lambda>v. nesting v \<le> n) vs \<Longrightarrow> nesting (P_arr vs) \<le> Suc n"
  by (induction vs) auto

lemma columns_nesting: "nesting (columns (map (level_row nm) ls)) \<le> 3"
proof -
  have "nesting (encodeDecimal nm x) \<le> 1" for x by (simp add: encodeDecimal_def split: option.split)
  then have "nesting (P_arr (map f (map (level_row nm) ls))) \<le> Suc 1" if "f \<in> {fst, fst \<circ> snd, fst \<circ> snd \<circ> snd, snd \<circ> snd \<circ> snd}" for f
    using that by (intro nesting_flat) (auto simp: list_all_iff level_row_def)
  then show ?thesis unfolding columns_def numeral_3_eq_3 by (intro nesting_flat) (simp del: map_map nesting.simps)
qed

lemma depth_payload_nesting: "nesting (depth_payload nm d) \<le> 4"
proof -
  have "nesting (columns (map (level_row nm) (od_bids d))) \<le> 3" "nesting (columns (map (level_row nm) (od_asks d))) \<le> 3" by (rule columns_nesting)+
  then have "nesting (depth_payload nm d) \<le> Suc 3" unfolding depth_payload_def by (intro nesting_flat) simp
  then show ?thesis by simp
qed

text \<open>The only reason to refuse a typed map before its body is encoded is an empty text.\<close>

definition depth_texts :: "order_depth \<Rightarrow> string list" where
  "depth_texts d = [od_market d, od_tickSize d, od_generatedAt d] @ concat (map level_texts (od_bids d @ od_asks d))"

definition counts_ok :: "order_depth \<Rightarrow> bool" where
  "counts_ok d \<longleftrightarrow> (\<forall>l \<in> set (od_bids d @ od_asks d). dl_orderCount l < 2 ^ 53)"

lemma depth_encodable_iff: "depth_encodable d \<longleftrightarrow> [] \<notin> set (depth_texts d) \<and> counts_ok d"
  by (auto simp: depth_encodable_def depth_texts_def counts_ok_def level_encodable_def list_all_iff)

definition codec_error :: "(depth_error, 'a) result \<Rightarrow> bool" where
  "codec_error r \<longleftrightarrow> (\<exists>m. r = Inl (OrderBookDepthCodecError m))"

lemma toEncodableText_empty: "codec_error (toEncodableText nm (P_str s) field) \<longleftrightarrow> s = []" "s \<noteq> [] \<Longrightarrow> toEncodableText nm (P_str s) field = Inr s"
  by (simp_all add: codec_error_def toEncodableText_def)

lemma codec_error_bind: "codec_error r \<Longrightarrow> codec_error (rbind r f)" "codec_error (f x) \<Longrightarrow> codec_error (rbind (Inr x) f)"
  by (auto simp: codec_error_def)

lemma encode_level_empty: "[] \<in> set (level_texts l) \<Longrightarrow> codec_error (encode_level nm side i (level_value l))"
  by (cases "dl_price l = []"; cases "dl_volume l = []"; cases "dl_cumulativeVolume l = []")
    (auto simp: encode_level_def level_value_def level_texts_def Let_def toEncodableText_empty intro!: codec_error_bind)

lemma encode_level_full: "[] \<notin> set (level_texts l) \<Longrightarrow> encode_level nm side i (level_value l) = Inr (level_row nm l)"
  by (auto simp: encode_level_def level_value_def level_texts_def level_row_def Let_def toEncodableText_empty count_roundtrip)

lemma encode_levels_empty:
  "[] \<in> set (concat (map level_texts ls)) \<Longrightarrow> codec_error (encode_levels nm side i (map level_value ls))"
proof (induction ls arbitrary: i)
  case (Cons l ls)
  show ?case
  proof (cases "[] \<in> set (level_texts l)")
    case True
    then show ?thesis by (auto intro: codec_error_bind encode_level_empty)
  next
    case False
    then have "codec_error (encode_levels nm side (Suc i) (map level_value ls))" using Cons by auto
    then show ?thesis using False by (auto simp: encode_level_full intro!: codec_error_bind)
  qed
qed simp

lemma encode_levels_full: "[] \<notin> set (concat (map level_texts ls)) \<Longrightarrow> encode_levels nm side i (map level_value ls) = Inr (map (level_row nm) ls)"
  by (induction ls arbitrary: i) (auto simp: encode_level_full)

lemma encodeSide_empty: "[] \<in> set (concat (map level_texts ls)) \<Longrightarrow> codec_error (encodeSide nm (Some (map level_value ls)) side)"
  "[] \<notin> set (concat (map level_texts ls)) \<Longrightarrow> encodeSide nm (Some (map level_value ls)) side = Inr (columns (map (level_row nm) ls))"
  by (auto simp: encodeSide_def encode_levels_full intro!: codec_error_bind encode_levels_empty)

lemma empty_text_refused:
  assumes "[] \<in> set (depth_texts d)"
  shows "codec_error (encodeOrderDepth nm mp (Some (depth_value d)))"
proof -
  let ?b = "[] \<in> set (concat (map level_texts (od_bids d)))"
  have "codec_error (encode_depth_payload nm (Some (depth_value d)))"
  proof (cases "[] \<in> {od_market d, od_tickSize d, od_generatedAt d}")
    case True
    then show ?thesis
      by (cases "od_market d = []"; cases "od_tickSize d = []")
        (auto simp: encode_depth_payload_def depth_value_def toEncodableText_empty intro!: codec_error_bind)
  next
    case False
    then have "[] \<in> set (concat (map level_texts (od_bids d))) \<or> [] \<in> set (concat (map level_texts (od_asks d)))"
      using assms by (auto simp: depth_texts_def)
    then have "codec_error (rbind (encodeSide nm (Some (map level_value (od_bids d))) ''bids'') (\<lambda>bids.
        rbind (encodeSide nm (Some (map level_value (od_asks d))) ''asks'') (\<lambda>asks.
          Inr (P_arr [P_str (od_market d), P_str (od_tickSize d), P_str (od_generatedAt d), bids, asks]))))"
      using encodeSide_empty [of "od_bids d" nm "''bids''"] encodeSide_empty [of "od_asks d" nm "''asks''"]
      by (cases ?b) (simp_all add: codec_error_bind)
    moreover have "od_market d \<noteq> []" "od_tickSize d \<noteq> []" "od_generatedAt d \<noteq> []" using False by auto
    ultimately show ?thesis by (simp add: encode_depth_payload_def depth_value_def toEncodableText_empty)
  qed
  then show ?thesis by (simp add: encodeOrderDepth_def codec_error_bind)
qed

lemma depth_roundtrip_ok:
  assumes "msgpack_ok mp" "numeric_ok nm" "depth_encodable d"
    "encodeOrderDepth nm mp (Some (depth_value d)) = Inr bytes"
  shows "decodeOrderDepth nm mp bytes = Inr d \<and> isCompressedOrderDepth (Some (Inr bytes))"
proof -
  let ?p = "mp_encode mp (depth_payload nm d)"
  have p: "length ?p < 2 ^ 32" and b: "bytes = frame_payload ?p"
    using assms(3,4) by (simp_all add: encodeOrderDepth_def encode_depth_payload_value Let_def split: if_splits)
  have "mp_decode mp ?p = Inr (depth_payload nm d)"
    using assms(1-3) depth_payload_storable order_trans [OF depth_payload_nesting] by (simp add: msgpack_ok_def)
  then show ?thesis
    using framec.decode_encode [OF p] decode_body_payload [OF assms(3)]
    by (simp add: b decodeOrderDepth_def isCompressedOrderDepth_def frame_parts)
qed

text \<open>
  C27. The encoder accepts a depth map exactly when none of its texts is empty and the body fits the
  header's 32-bit length, and then decoding returns the map exactly: every price, volume and count, also
  of texts that are not in the form JavaScript prints numbers in; the output is recognised by
  \<open>isCompressedOrderDepth\<close>.  The counts are integers that a double holds; MessagePack is assumed to
  return what it encoded down to its nesting limit of 100.
\<close>
theorem depth_roundtrip:
  assumes "msgpack_ok mp" "numeric_ok nm" "counts_ok d"
  shows "case encodeOrderDepth nm mp (Some (depth_value d)) of
      Inr bytes \<Rightarrow> [] \<notin> set (depth_texts d) \<and> length (mp_encode mp (depth_payload nm d)) < 2 ^ 32
        \<and> decodeOrderDepth nm mp bytes = Inr d \<and> isCompressedOrderDepth (Some (Inr bytes))
    | Inl DepthRangeError \<Rightarrow> [] \<notin> set (depth_texts d) \<and> 2 ^ 32 \<le> length (mp_encode mp (depth_payload nm d))
    | Inl (OrderBookDepthCodecError m) \<Rightarrow> [] \<in> set (depth_texts d)"
proof (cases "[] \<in> set (depth_texts d)")
  case True
  from empty_text_refused [OF this, of nm mp] True show ?thesis by (auto simp: codec_error_def)
next
  case False
  then have d: "depth_encodable d" using assms(3) by (simp add: depth_encodable_iff)
  show ?thesis
  proof (cases "encodeOrderDepth nm mp (Some (depth_value d))")
    case (Inr bytes)
    then show ?thesis using depth_roundtrip_ok [OF assms(1,2) d Inr] False d
      by (simp add: encodeOrderDepth_def encode_depth_payload_value Let_def split: if_splits)
  next
    case (Inl e)
    then show ?thesis using False d by (simp add: encodeOrderDepth_def encode_depth_payload_value Let_def split: if_splits)
  qed
qed

text \<open>The witness: digits without a leading zero are numbers, and a code that keeps every value.\<close>

instance plain :: countable
  by countable_datatype

definition example_numeric :: js_numeric where
  "example_numeric = \<lparr>jn_Number = (\<lambda>s. if s \<noteq> [] \<and> list_all is_digit s \<and> read_nat s < 2 ^ 53
       then Some (of_nat (read_nat s)) else None),
     jn_String = (\<lambda>x. show_nat (nat \<lfloor>x\<rfloor>)), jn_toFixed12 = (\<lambda>x. show_nat (nat \<lfloor>x\<rfloor>))\<rparr>"

definition example_depth :: order_depth where
  "example_depth = \<lparr>od_market = ''XLM/USDC'', od_tickSize = ''1'',
     od_bids = [\<lparr>dl_price = ''100'', dl_volume = ''1.50'', dl_cumulativeVolume = ''1.50'', dl_orderCount = 2\<rparr>],
     od_asks = [], od_generatedAt = ''2026-01-01T00:00:00.000Z''\<rparr>"

text \<open>A code that keeps every value, with one byte for a chosen value.\<close>

definition short_msgpack :: "plain \<Rightarrow> msgpack" where
  "short_msgpack v0 = \<lparr>
     mp_encode = (\<lambda>v. if v = v0 then [1] else 0 # latin1 (show_nat (to_nat v))),
     mp_decode = (\<lambda>bs. if bs = [1] then Inr v0 else Inr (from_nat (read_nat (latin1_text (tl bs)))))\<rparr>"

lemma short_msgpack_ok: "msgpack_ok (short_msgpack v)"
  by (auto simp: msgpack_ok_def short_msgpack_def read_show_nat)

definition example_msgpack :: msgpack where
  "example_msgpack = short_msgpack (depth_payload example_numeric example_depth)"

lemma example_codec_ok: "msgpack_ok example_msgpack" "numeric_ok example_numeric" "depth_encodable example_depth"
  by (auto simp: example_msgpack_def short_msgpack_ok numeric_ok_def example_numeric_def fl_of_nat
      depth_encodable_def example_depth_def level_encodable_def level_texts_def split: if_splits)

theorem depth_roundtrip_witness:
  "\<exists>bytes. encodeOrderDepth example_numeric example_msgpack (Some (depth_value example_depth)) = Inr bytes
     \<and> decodeOrderDepth example_numeric example_msgpack bytes = Inr example_depth"
proof -
  have c: "counts_ok example_depth" "[] \<notin> set (depth_texts example_depth)" using example_codec_ok(3) by (simp_all add: depth_encodable_iff)
  have "length (mp_encode example_msgpack (depth_payload example_numeric example_depth)) < 2 ^ 32"
    by (simp add: example_msgpack_def short_msgpack_def)
  then show ?thesis using depth_roundtrip [OF example_codec_ok(1,2) c(1)] c(2) by (auto split: sum.splits depth_error.splits)
qed

section \<open>Refused payloads\<close>

lemma uint32_be_read:
  assumes "length bs = 4" shows "uint32_be (read_uint32_be bs) = bs" "read_uint32_be bs < 2 ^ 32"
proof -
  obtain a b c d where bs: "bs = [a, b, c, d]"
    using assms by (auto simp: length_Suc_conv numeral_eq_Suc)
  define x y z where "x = 256 * unat a + unat b" and "y = 256 * x + unat c" and "z = 256 * y + unat d"
  note lt = unat_byte_bound [of a] unat_byte_bound [of b] unat_byte_bound [of c] unat_byte_bound [of d]
  have n: "read_uint32_be bs = z" by (simp add: bs read_uint32_be_def x_def y_def z_def)
  have dv: "z div 256 = y" "y div 256 = x" "x div 256 = unat a" using lt by (simp_all add: x_def y_def z_def)
  have "z div 2 ^ 8 = y" "z div 2 ^ 16 = x" "z div 2 ^ 24 = unat a"
    using dv div_mult2_eq [of z 256 256] div_mult2_eq [of z 256 "256 * 256"] div_mult2_eq [of y 256 256] by simp_all
  moreover have "z mod 256 = unat d" using lt by (simp add: z_def)
  moreover have "y mod 256 = unat c" using lt by (simp add: y_def)
  moreover have "x mod 256 = unat b" using lt by (simp add: x_def)
  ultimately have "of_nat z = d" "of_nat y = c" "of_nat x = b" "z div 2 ^ 8 = y" "z div 2 ^ 16 = x" "z div 2 ^ 24 = unat a"
    by (simp_all add: word_unat_eq_iff unat_byte_of_nat)
  then show "uint32_be (read_uint32_be bs) = bs" unfolding n by (simp add: uint32_be_def bs)
  show "read_uint32_be bs < 2 ^ 32" using lt unfolding n by (simp add: x_def y_def z_def)
qed

lemma header_values:
  "HEADER_SIZE = 10" "HEADER_OFFSET_VERSION = 4" "HEADER_OFFSET_PAYLOAD_LENGTH = 6"
  "length ORDER_BOOK_DEPTH_MAGIC = 4" "ORDER_BOOK_DEPTH_FORMAT_VERSION = 1"
  by (simp_all add: header_consts)

lemma unframe_inv:
  assumes "unframe_payload buffer = Inr body"
  shows "length body < 2 ^ 32
    \<and> (\<exists>f. buffer = latin1 ORDER_BOOK_DEPTH_MAGIC @ [1] @ [f] @ uint32_be (length body) @ body)"
proof -
  let ?len = "take 4 (drop 6 buffer)"
  have n: "10 \<le> length buffer" and m: "latin1_text (take 4 buffer) = ORDER_BOOK_DEPTH_MAGIC"
    and v: "unat (buffer ! 4) = 1" and l: "read_uint32_be ?len = length buffer - 10" and b: "body = drop 10 buffer"
    using assms by (auto simp: unframe_payload_def header_values Let_def not_less split: if_splits)
  have "take 4 buffer = latin1 (latin1_text (take 4 buffer))"
    by (rule nth_equalityI) (auto simp: latin1_def latin1_text_def unat_byte_bound of_char_char_of_nat)
  then have t: "take 4 buffer = latin1 ORDER_BOOK_DEPTH_MAGIC" by (simp only: m)
  have four: "length ?len = 4" using n by simp
  have "uint32_be (length body) = ?len" using uint32_be_read(1) [OF four] l b by simp
  moreover have "buffer ! 4 = 1" using v by (simp add: word_unat_eq_iff)
  moreover have "buffer = take 4 buffer @ [buffer ! 4] @ [buffer ! 5] @ ?len @ drop 10 buffer"
  proof -
    have "drop 4 buffer = buffer ! 4 # buffer ! 5 # drop 6 buffer"
      using n Cons_nth_drop_Suc [of 4 buffer] Cons_nth_drop_Suc [of 5 buffer] by simp
    moreover have "drop 6 buffer = ?len @ drop 10 buffer"
      using append_take_drop_id [of 4 "drop 6 buffer"] by simp
    ultimately have "drop 4 buffer = [buffer ! 4] @ [buffer ! 5] @ ?len @ drop 10 buffer" by simp
    then show ?thesis using append_take_drop_id [of 4 buffer] by simp
  qed
  ultimately show ?thesis using t b l uint32_be_read(2) [OF four] by auto
qed


text \<open>
  C34. The decoder accepts nothing but frames: a payload that passes the header checks is the magic,
  version 1, one unchecked flag byte, the 32-bit length of the body and exactly that body.  So every
  proper prefix of an encoded map and every extension of it is refused with a codec error, whatever
  MessagePack would make of it.
\<close>
theorem damaged_payload_refused:
  assumes "encodeOrderDepth nm mp d = Inr bytes"
  shows "(k < length bytes \<longrightarrow> (\<exists>m. decodeOrderDepth nm' mp' (take k bytes) = Inl (OrderBookDepthCodecError m)))
    \<and> (extra \<noteq> [] \<longrightarrow> (\<exists>m. decodeOrderDepth nm' mp' (bytes @ extra) = Inl (OrderBookDepthCodecError m)))"
proof -
  obtain p where p: "length p < 2 ^ 32" "bytes = frame_payload p"
    using assms by (auto simp: encodeOrderDepth_def rbind_eq_Inr Let_def not_le split: if_splits)
  have err: "\<exists>m. decodeOrderDepth nm' mp' b = Inl (OrderBookDepthCodecError m)"
    if "\<nexists>body. unframe_payload b = Inr body" for b
    using that by (auto simp: decodeOrderDepth_def unframe_payload_def Let_def split: if_splits)
  have len: "length body = length p"
    if u: "unframe_payload b = Inr body" and t: "take 10 b = take 10 bytes" for b body
  proof -
    obtain f where b: "b = latin1 ORDER_BOOK_DEPTH_MAGIC @ [1] @ [f] @ uint32_be (length body) @ body"
      and l: "length body < 2 ^ 32" using unframe_inv [OF u] by blast
    have "uint32_be (length body) = uint32_be (length p)"
      using t unfolding b by (simp add: p frame_payload_def header_values)
    then show ?thesis using u32.encode_inj l p(1) by blast
  qed
  have size: "length b = 10 + length body" if "unframe_payload b = Inr body" for b body
    using unframe_inv [OF that] by (auto simp: header_values)
  have n: "length bytes = 10 + length p" by (simp add: p frame_parts header_values)
  have "\<nexists>body. unframe_payload (take k bytes) = Inr body" if "k < length bytes"
  proof
    assume "\<exists>body. unframe_payload (take k bytes) = Inr body"
    then obtain body where b: "unframe_payload (take k bytes) = Inr body" ..
    have "10 \<le> k" using size [OF b] that by simp
    then have "length body = length p" by (intro len [OF b]) (simp add: min_def)
    then show False using size [OF b] n that by simp
  qed
  moreover have "\<nexists>body. unframe_payload (bytes @ extra) = Inr body" if "extra \<noteq> []"
    using len [of "bytes @ extra"] size [of "bytes @ extra"] n that by fastforce
  ultimately show ?thesis using err by blast
qed

text \<open>The witness: the encoded example without its last byte, and with a byte appended.\<close>
theorem damaged_payload_refused_witness:
  "\<exists>bytes m m'. encodeOrderDepth example_numeric example_msgpack (Some (depth_value example_depth)) = Inr bytes
     \<and> decodeOrderDepth example_numeric example_msgpack (take 10 bytes) = Inl (OrderBookDepthCodecError m)
     \<and> decodeOrderDepth example_numeric example_msgpack (bytes @ [0]) = Inl (OrderBookDepthCodecError m')"
proof -
  have e: "encodeOrderDepth example_numeric example_msgpack (Some (depth_value example_depth)) = Inr (frame_payload [1])"
    using example_codec_ok(3) by (simp add: encodeOrderDepth_def encode_depth_payload_value example_msgpack_def short_msgpack_def)
  have "10 < length (frame_payload [1])" by (simp add: frame_parts header_values)
  then show ?thesis
    using damaged_payload_refused [OF e, of 10 example_numeric example_msgpack "[0]"] e by blast
qed

section \<open>Percentiles\<close>

lemma percentile_index_bound: "0 < n \<Longrightarrow> percentile_index n q < n"
  by (simp add: percentile_index_def)

lemma percentile_index_mono: "q \<le> q' \<Longrightarrow> percentile_index n q \<le> percentile_index n q'"
proof -
  assume "q \<le> q'"
  then have "\<lceil>jsmul q (of_nat n)\<rceil> \<le> \<lceil>jsmul q' (of_nat n)\<rceil>"
    unfolding jsmul_def by (intro ceiling_mono fl_mono mult_right_mono) auto
  then show ?thesis by (simp add: percentile_index_def)
qed

lemma half_le_95: "1 / 2 \<le> fl (95 / 100 :: rat)"
  using fl_mono [of "1 / 2" "95 / 100"] fl_div_pow2 [of 1 1] by simp

text \<open>
  The latency summary is ordered: minimum, median, 95th percentile and maximum of at least one
  sample are samples and come in this order, although the index is computed in floating point.
\<close>
theorem latency_summary_ordered:
  assumes "samples \<noteq> []"
  defines "s \<equiv> summarizeLatency samples"
  shows "la_minMs s = Min (set samples) \<and> la_maxMs s = Max (set samples)
    \<and> {la_p50Ms s, la_p95Ms s} \<subseteq> set samples
    \<and> la_minMs s \<le> la_p50Ms s \<and> la_p50Ms s \<le> la_p95Ms s \<and> la_p95Ms s \<le> la_maxMs s"
proof -
  let ?xs = "sort samples"
  have ne: "?xs \<noteq> []" using assms by (metis length_0_conv length_sort)
  have st: "set samples = set ?xs" by simp
  have nth: "?xs ! i \<le> ?xs ! j" if "i \<le> j" "j < length ?xs" for i j
    using that sorted_nth_mono [OF sorted_sort] by blast
  have mem: "?xs ! 0 \<in> set ?xs" "?xs ! (length ?xs - 1) \<in> set ?xs"
    using assms(1) by (auto intro!: nth_mem simp del: set_sort)
  have ends: "?xs ! 0 \<le> y \<and> y \<le> ?xs ! (length ?xs - 1)" if y: "y \<in> set ?xs" for y
  proof -
    obtain i where "i < length ?xs" "y = ?xs ! i" using y unfolding in_set_conv_nth by blast
    then show ?thesis using nth [of 0 i] nth [of i "length ?xs - 1"] by simp
  qed
  have b: "percentile_index (length ?xs) q < length ?xs" for q using ne by (intro percentile_index_bound) auto
  have "la_minMs s = ?xs ! 0" "la_maxMs s = ?xs ! (length ?xs - 1)"
    using ne assms by (simp_all add: s_def summarizeLatency_def Let_def hd_conv_nth last_conv_nth)
  moreover have "?xs ! 0 = Min (set samples)"
    unfolding st using mem(1) ends by (intro Min_eqI [symmetric]) auto
  moreover have "?xs ! (length ?xs - 1) = Max (set samples)"
    unfolding st using mem(2) ends by (intro Max_eqI [symmetric]) auto
  moreover have "la_p50Ms s = ?xs ! percentile_index (length ?xs) (1 / 2)"
    "la_p95Ms s = ?xs ! percentile_index (length ?xs) (fl (95 / 100))"
    using ne by (simp_all add: s_def summarizeLatency_def Let_def percentile_def)
  ultimately show ?thesis
    using b nth percentile_index_mono [OF half_le_95] ne by (auto simp: st simp del: set_sort)
qed

end
