(* ===== verification/DepthAggregator.thy ===== *)
theory DepthAggregator
  imports DepthCodec
begin

text \<open>
  \<open>src/services/orderDepthAggregatorService.ts\<close>: orders are grouped by price tick into the levels of
  each side of the book, and the result is kept in Redis in the compressed format of the codec.
  \<open>JSON.parse\<close> and the UTF-8 decoder are arguments; so are the members of the two sorted sets, whether
  the client is ready, and the time.  The part of Redis that holds the cached maps is a partial
  function.

  The lemmas: the levels equal a reference that groups the orders by tick, and a cached map reads
  back as it was computed.
\<close>

section \<open>Orders\<close>

datatype order_side = Side_bids | Side_asks

record redis_order =
  ro_price :: rat
  ro_volume :: rat

record book_level =
  bl_volume :: rat
  bl_orderCount :: nat

definition DEFAULT_KEY_PREFIX :: string where "DEFAULT_KEY_PREFIX = ''orders:book''"

text \<open>\<open>String(v)\<close> of an array element and \<open>Number(v)\<close>; an object gives \<open>NaN\<close>.\<close>

fun json_text :: "js_numeric \<Rightarrow> json \<Rightarrow> string" where
  "json_text nm JUndefined = []"
| "json_text nm JNull = []"
| "json_text nm (JBool b) = (if b then ''true'' else ''false'')"
| "json_text nm (JNum x) = jn_String nm x"
| "json_text nm (JStr s) = s"
| "json_text nm (JArr vs) = join_with '','' (map (json_text nm) vs)"
| "json_text nm (JObj _) = ''[object Object]''"

fun to_number :: "js_numeric \<Rightarrow> json \<Rightarrow> rat option" where
  "to_number nm JUndefined = None"
| "to_number nm JNull = Some 0"
| "to_number nm (JBool b) = Some (if b then 1 else 0)"
| "to_number nm (JNum x) = Some x"
| "to_number nm (JStr s) = jn_Number nm s"
| "to_number nm (JArr vs) = jn_Number nm (json_text nm (JArr vs))"
| "to_number nm (JObj _) = None"

definition parsePositiveDecimal :: "js_numeric \<Rightarrow> json \<Rightarrow> string \<Rightarrow> (string, rat) result" where
  "parsePositiveDecimal nm v field = (case to_number nm v of
      Some x \<Rightarrow> if x \<le> 0 then Inl (field @ '' must be a positive number'') else Inr x
    | None \<Rightarrow> Inl (field @ '' must be a positive number''))"

text \<open>\<open>Number(value.toFixed(12)).toString()\<close>; the text of a number that is not finite is \<open>NaN\<close>.\<close>

definition decimalString :: "js_numeric \<Rightarrow> rat \<Rightarrow> string" where
  "decimalString nm x = (case jn_Number nm (jn_toFixed12 nm x) of Some y \<Rightarrow> jn_String nm y | None \<Rightarrow> ''NaN'')"

definition parseOrder :: "js_numeric \<Rightarrow> (string \<Rightarrow> (string, json) result) \<Rightarrow> string \<Rightarrow> redis_order option" where
  "parseOrder nm parse member = (case parse member of
      Inr (JObj obj) \<Rightarrow>
        (case rbind (parsePositiveDecimal nm (js_prop obj ''price'') ''price'') (\<lambda>price.
              rbind (parsePositiveDecimal nm (js_prop obj ''volume'') ''volume'') (\<lambda>volume.
                Inr \<lparr>ro_price = price, ro_volume = volume\<rparr>)) of
           Inr r \<Rightarrow> Some r
         | Inl _ \<Rightarrow> None)
    | _ \<Rightarrow> None)"

section \<open>Levels\<close>

definition EPSILON :: rat where "EPSILON = 1 / 2 ^ 52"

definition tick_of :: "rat \<Rightarrow> rat \<Rightarrow> rat" where
  "tick_of tickSize price = jsmul (of_int \<lfloor>jsdiv (jsadd price EPSILON) tickSize\<rfloor>) tickSize"

definition add_order :: "rat \<Rightarrow> redis_order \<Rightarrow> (rat \<times> book_level) list \<Rightarrow> (rat \<times> book_level) list" where
  "add_order tickSize r levels =
     (let t = tick_of tickSize (ro_price r);
          current = (case jm_get levels t of Some l \<Rightarrow> l | None \<Rightarrow> \<lparr>bl_volume = 0, bl_orderCount = 0\<rparr>) in
      jm_set t \<lparr>bl_volume = jsadd (bl_volume current) (ro_volume r),
                bl_orderCount = bl_orderCount current + 1\<rparr> levels)"

definition group_orders :: "rat \<Rightarrow> redis_order list \<Rightarrow> (rat \<times> book_level) list" where
  "group_orders tickSize rs = foldl (\<lambda>levels r. add_order tickSize r levels) [] rs"

definition sort_levels :: "order_side \<Rightarrow> (rat \<times> book_level) list \<Rightarrow> (rat \<times> book_level) list" where
  "sort_levels side levels = (case side of
      Side_bids \<Rightarrow> sort_key (\<lambda>l. - fst l) levels
    | Side_asks \<Rightarrow> sort_key fst levels)"

fun level_rows :: "js_numeric \<Rightarrow> rat \<Rightarrow> (rat \<times> book_level) list \<Rightarrow> depth_level list" where
  "level_rows nm cumulative [] = []"
| "level_rows nm cumulative ((price, l) # levels) =
     (let c = jsadd cumulative (bl_volume l) in
      \<lparr>dl_price = decimalString nm price, dl_volume = decimalString nm (bl_volume l),
       dl_cumulativeVolume = decimalString nm c, dl_orderCount = bl_orderCount l\<rparr>
      # level_rows nm c levels)"

definition aggregateSide ::
  "js_numeric \<Rightarrow> (string \<Rightarrow> (string, json) result) \<Rightarrow> string list \<Rightarrow> rat \<Rightarrow> order_side \<Rightarrow> depth_level list" where
  "aggregateSide nm parse members tickSize side =
     level_rows nm 0 (sort_levels side (group_orders tickSize (List.map_filter (parseOrder nm parse) members)))"

section \<open>The service\<close>

definition getDepth ::
  "js_numeric \<Rightarrow> (string \<Rightarrow> (string, json) result) \<Rightarrow> bool \<Rightarrow> string list \<Rightarrow> string list \<Rightarrow> string
     \<Rightarrow> string \<Rightarrow> json \<Rightarrow> (string, order_depth) result" where
  "getDepth nm parse ready bidMembers askMembers generatedAt market tickSize =
     (let normalizedMarket = js_trim market in
      if normalizedMarket = [] \<or> length normalizedMarket > 100
      then Inl ''market must be a non-empty value up to 100 characters''
      else rbind (parsePositiveDecimal nm tickSize ''tickSize'') (\<lambda>tick.
        if \<not> ready then Inl ''Redis depth store is unavailable''
        else Inr \<lparr>od_market = normalizedMarket, od_tickSize = decimalString nm tick,
                  od_bids = aggregateSide nm parse bidMembers tick Side_bids,
                  od_asks = aggregateSide nm parse askMembers tick Side_asks,
                  od_generatedAt = generatedAt\<rparr>))"

definition depth_keyPrefix :: "string option \<Rightarrow> string" where
  "depth_keyPrefix env = (case env of Some p \<Rightarrow> p | None \<Rightarrow> DEFAULT_KEY_PREFIX)"

definition depth_cacheKey :: "string option \<Rightarrow> string \<Rightarrow> string" where
  "depth_cacheKey env market = depth_keyPrefix env @ '':'' @ market @ '':depth:cache''"

datatype depth_failure = Depth_failure string | Encode_failure depth_error

text \<open>\<open>ready'\<close> is the readiness of the client when the result is stored.\<close>

definition updateDepth ::
  "js_numeric \<Rightarrow> msgpack \<Rightarrow> string option \<Rightarrow> bool \<Rightarrow> (string, order_depth) result \<Rightarrow> string
     \<Rightarrow> (string \<rightharpoonup> bytes) \<Rightarrow> (depth_failure, unit) result \<times> (string \<rightharpoonup> bytes)" where
  "updateDepth nm mp env ready' depth market store = (case depth of
      Inl e \<Rightarrow> (Inl (Depth_failure e), store)
    | Inr d \<Rightarrow>
        if \<not> ready' then (Inr (), store)
        else (case encodeOrderDepth nm mp (Some (depth_value d)) of
                Inl e \<Rightarrow> (Inl (Encode_failure e), store)
              | Inr bytes \<Rightarrow> (Inr (), store(depth_cacheKey env market \<mapsto> bytes))))"

text \<open>An entry written before the compressed format is returned as the JSON value it holds.\<close>

datatype cached_depth = Cached_none | Cached_depth order_depth | Cached_json json

definition getCachedDepth ::
  "js_numeric \<Rightarrow> msgpack \<Rightarrow> (bytes \<Rightarrow> (string, json) result) \<Rightarrow> string option \<Rightarrow> bool \<Rightarrow> string
     \<Rightarrow> (string \<rightharpoonup> bytes) \<Rightarrow> cached_depth" where
  "getCachedDepth nm mp parse_utf8 env ready market store =
     (if \<not> ready then Cached_none
      else case store (depth_cacheKey env market) of
        None \<Rightarrow> Cached_none
      | Some raw \<Rightarrow>
          if length raw = 0 then Cached_none
          else if isCompressedOrderDepth (Some (Inr raw)) then
            (case decodeOrderDepth nm mp raw of Inr d \<Rightarrow> Cached_depth d | Inl _ \<Rightarrow> Cached_none)
          else (case parse_utf8 raw of Inr v \<Rightarrow> Cached_json v | Inl _ \<Rightarrow> Cached_none))"

section \<open>Grouping by tick\<close>

definition orders_at :: "rat \<Rightarrow> rat \<Rightarrow> redis_order list \<Rightarrow> redis_order list" where
  "orders_at tickSize t rs = filter (\<lambda>r. tick_of tickSize (ro_price r) = t) rs"

definition level_at :: "rat \<Rightarrow> rat \<Rightarrow> redis_order list \<Rightarrow> book_level" where
  "level_at tickSize t rs =
     \<lparr>bl_volume = js_sum (map ro_volume (orders_at tickSize t rs)), bl_orderCount = length (orders_at tickSize t rs)\<rparr>"

lemma group_orders_snoc: "group_orders ts (rs @ [r]) = add_order ts r (group_orders ts rs)"
  by (simp add: group_orders_def)

lemma orders_at_snoc:
  "orders_at ts t (rs @ [r]) = orders_at ts t rs @ (if tick_of ts (ro_price r) = t then [r] else [])"
  by (simp add: orders_at_def)

lemma group_orders_get:
  "jm_get (group_orders ts rs) t = (if orders_at ts t rs = [] then None else Some (level_at ts t rs))"
proof (induction rs arbitrary: t rule: rev_induct)
  case Nil
  then show ?case by (simp add: group_orders_def orders_at_def)
next
  case (snoc r rs)
  then show ?case
    by (auto simp: group_orders_snoc add_order_def Let_def orders_at_snoc level_at_def js_sum_def)
qed

lemma group_orders_distinct: "distinct (jm_keys (group_orders ts rs))"
  by (induction rs rule: rev_induct) (simp_all add: group_orders_snoc add_order_def Let_def jm_distinct_set, simp add: group_orders_def)

lemma group_orders_keys: "set (jm_keys (group_orders ts rs)) = (\<lambda>r. tick_of ts (ro_price r)) ` set rs"
proof -
  have "t \<in> set (jm_keys (group_orders ts rs)) \<longleftrightarrow> orders_at ts t rs \<noteq> []" for t
    using group_orders_get [of ts rs t] map_of_eq_None_iff [of "group_orders ts rs" t]
    by (metis list.set_map option.distinct(1))
  moreover have "orders_at ts t rs \<noteq> [] \<longleftrightarrow> t \<in> (\<lambda>r. tick_of ts (ro_price r)) ` set rs" for t
    by (auto simp: orders_at_def filter_empty_conv)
  ultimately show ?thesis by blast
qed

lemma levels_by_key:
  assumes "distinct (jm_keys m)" "set l = set m"
  shows "l = map (\<lambda>t. (t, the (jm_get m t))) (map fst l)"
  using assms by (auto intro!: map_idI [symmetric] simp: comp_def)

definition side_before :: "order_side \<Rightarrow> rat \<Rightarrow> rat \<Rightarrow> bool" where
  "side_before side a b = (case side of Side_bids \<Rightarrow> a > b | Side_asks \<Rightarrow> a < b)"

lemma sorted_strict: "sorted (map f l) \<Longrightarrow> distinct (map f l) \<Longrightarrow> sorted_wrt (\<lambda>a b. f a < (f b :: rat)) l"
  by (induction l) (auto simp: less_le)

lemma sort_levels_order:
  assumes "distinct (map fst m)"
  shows "sorted_wrt (side_before side) (map fst (sort_levels side m))" "set (sort_levels side m) = set m"
proof -
  have d: "distinct (map f (sort_key f m))" if "inj_on f (set m)" for f :: "rat \<times> book_level \<Rightarrow> rat"
    using that assms by (simp add: distinct_map)
  have "inj_on (\<lambda>l. - fst l) (set m)" "inj_on fst (set m)"
    using assms by (auto simp: distinct_map inj_on_def)
  from this [THEN d] show "sorted_wrt (side_before side) (map fst (sort_levels side m))"
    using sorted_strict [OF sorted_sort_key [of "\<lambda>l. - fst l" m]] sorted_strict [OF sorted_sort_key [of fst m]]
    by (cases side) (auto simp: sort_levels_def side_before_def sorted_wrt_map)
  show "set (sort_levels side m) = set m" by (simp add: sort_levels_def split: order_side.split)
qed

lemma count_groups:
  assumes "distinct ts"
  shows "sum_list (map (\<lambda>t. length (filter (\<lambda>r. f r = t) rs)) ts) = length (filter (\<lambda>r. f r \<in> set ts) rs)"
proof -
  have "(\<Sum>t\<in>set ts. length (filter (\<lambda>r. f r = t) rs)) = length (filter (\<lambda>r. f r \<in> set ts) rs)"
  proof (induction rs)
    case (Cons r rs)
    have "(\<Sum>t\<in>set ts. length (filter (\<lambda>r. f r = t) (r # rs)))
        = (\<Sum>t\<in>set ts. (if f r = t then 1 else 0) + length (filter (\<lambda>r. f r = t) rs))"
      by (rule sum.cong) auto
    then show ?case using Cons by (simp add: sum.distrib)
  qed simp
  then show ?thesis by (simp add: sum_list_distinct_conv_sum_set assms)
qed

lemma side_levels:
  fixes nm parse members tickSize side
  defines "rs \<equiv> List.map_filter (parseOrder nm parse) members"
  shows "\<exists>ts. aggregateSide nm parse members tickSize side
                = level_rows nm 0 (map (\<lambda>t. (t, level_at tickSize t rs)) ts)
    \<and> sorted_wrt (side_before side) ts \<and> set ts = (\<lambda>r. tick_of tickSize (ro_price r)) ` set rs
    \<and> sum_list (map dl_orderCount (aggregateSide nm parse members tickSize side)) = length rs"
proof -
  let ?m = "group_orders tickSize rs"
  let ?l = "sort_levels side ?m"
  let ?ts = "map fst ?l"
  note ord = sort_levels_order [OF group_orders_distinct, of side tickSize rs]
  have "?l = map (\<lambda>t. (t, the (jm_get ?m t))) ?ts"
    by (rule levels_by_key [OF group_orders_distinct ord(2)])
  moreover have k: "set ?ts = (\<lambda>r. tick_of tickSize (ro_price r)) ` set rs"
    using ord(2) group_orders_keys [of tickSize rs] by simp
  then have "the (jm_get ?m t) = level_at tickSize t rs" if "t \<in> set ?ts" for t
    using that by (auto simp: group_orders_get orders_at_def filter_empty_conv)
  ultimately have l: "?l = map (\<lambda>t. (t, level_at tickSize t rs)) ?ts"
    by (metis (no_types, lifting) map_cong)
  have c: "map dl_orderCount (level_rows nm c xs) = map (bl_orderCount \<circ> snd) xs" for c xs
    by (induction nm c xs rule: level_rows.induct) (simp_all add: Let_def)
  have dist: "distinct ?ts"
    using group_orders_distinct [of tickSize rs]
    by (cases side) (auto simp: sort_levels_def distinct_map)
  have agg: "aggregateSide nm parse members tickSize side = level_rows nm 0 (map (\<lambda>t. (t, level_at tickSize t rs)) ?ts)"
    using l by (simp add: aggregateSide_def rs_def)
  then have "sum_list (map dl_orderCount (aggregateSide nm parse members tickSize side))
      = sum_list (map (\<lambda>t. length (filter (\<lambda>r. tick_of tickSize (ro_price r) = t) rs)) ?ts)"
    by (simp add: c comp_def level_at_def orders_at_def)
  also have "\<dots> = length (filter (\<lambda>r. tick_of tickSize (ro_price r) \<in> set ?ts) rs)" by (rule count_groups [OF dist])
  also have "\<dots> = length rs" unfolding k by (metis (no_types, lifting) filter_True image_eqI)
  finally show ?thesis using agg ord(1) k by blast
qed


text \<open>
  C28. The levels of a side are the orders grouped by price tick: there is one row for every tick at
  which a well-formed order lies and no other, the rows are ordered by price (best first: bids
  downwards, asks upwards), and each row carries the number of its orders and the sum of their
  volumes in the order of arrival, printed as decimals, with the running total.  The rows therefore
  count every well-formed order exactly once.
\<close>
theorem aggregation_groups_by_tick:
  fixes nm parse members tickSize side
  defines "rs \<equiv> List.map_filter (parseOrder nm parse) members"
  shows "\<exists>ts. aggregateSide nm parse members tickSize side
                = level_rows nm 0 (map (\<lambda>t. (t, level_at tickSize t rs)) ts)
    \<and> sorted_wrt (side_before side) ts \<and> set ts = (\<lambda>r. tick_of tickSize (ro_price r)) ` set rs
    \<and> sum_list (map dl_orderCount (aggregateSide nm parse members tickSize side)) = length rs"
  unfolding rs_def by (rule side_levels)

section \<open>The cache\<close>

lemma map_filter_length: "length (List.map_filter f xs) \<le> length xs"
  by (simp add: List.map_filter_def)

lemma level_rows_encodable:
  assumes "\<And>x. decimalString nm x \<noteq> []" "list_all (\<lambda>l. bl_orderCount (snd l) < 2 ^ 53) ls"
  shows "list_all level_encodable (level_rows nm c ls)"
  using assms(2)
  by (induction ls arbitrary: c)
    (auto simp: Let_def level_encodable_def level_texts_def assms(1) assms(1) [symmetric])

lemma aggregateSide_encodable:
  assumes "\<And>x. decimalString nm x \<noteq> []" "length members < 2 ^ 53"
  shows "list_all level_encodable (aggregateSide nm parse members tickSize side)"
proof -
  let ?rs = "List.map_filter (parseOrder nm parse) members"
  obtain ts where ts: "aggregateSide nm parse members tickSize side
      = level_rows nm 0 (map (\<lambda>t. (t, level_at tickSize t ?rs)) ts)"
    using side_levels [of nm parse members tickSize side] by blast
  have "bl_orderCount (level_at tickSize t ?rs) < 2 ^ 53" for t
    using assms(2) map_filter_length [of "parseOrder nm parse" members]
      length_filter_le [of "\<lambda>r. tick_of tickSize (ro_price r) = t" ?rs]
    unfolding level_at_def orders_at_def book_level.simps by linarith
  then show ?thesis unfolding ts by (intro level_rows_encodable assms) (simp add: list_all_iff)
qed

text \<open>
  A depth map that was computed and stored reads back exactly as computed, for the same market
  text and key prefix, as long as Redis is ready and keeps the entry; the store is touched at the
  cache key of the market only.  What is used of the packages: MessagePack decodes what it encoded,
  numbers print as non-empty text, timestamps are not empty.
\<close>
theorem cached_depth_reads_back:
  assumes mp: "msgpack_ok mp" and nm: "numeric_ok nm" and s: "\<And>x. jn_String nm x \<noteq> []"
    and g: "generatedAt \<noteq> []" and n: "length bidMembers < 2 ^ 53" "length askMembers < 2 ^ 53"
    and d: "getDepth nm parse ready bidMembers askMembers generatedAt market tickSize = Inr d"
    and u: "updateDepth nm mp env True (Inr d) market store = (Inr (), store')"
  shows "getCachedDepth nm mp parse_utf8 env True market store' = Cached_depth d
    \<and> (\<forall>k. k \<noteq> depth_cacheKey env market \<longrightarrow> store' k = store k)"
proof -
  have dec: "decimalString nm x \<noteq> []" for x by (simp add: decimalString_def s split: option.split)
  have ok: "depth_encodable d"
    using d aggregateSide_encodable [OF dec] n g dec [symmetric]
    by (auto simp: getDepth_def depth_encodable_def Let_def rbind_eq_Inr split: if_splits)
  obtain bytes where b: "encodeOrderDepth nm mp (Some (depth_value d)) = Inr bytes"
    and st: "store' = store(depth_cacheKey env market \<mapsto> bytes)"
    using u by (auto simp: updateDepth_def split: sum.splits)
  have "decodeOrderDepth nm mp bytes = Inr d" "isCompressedOrderDepth (Some (Inr bytes))"
    using depth_roundtrip_ok [OF mp nm ok b] by auto
  moreover from this(2) have "bytes \<noteq> []"
    by (auto simp: isCompressedOrderDepth_def latin1_text_def ORDER_BOOK_DEPTH_MAGIC_def)
  ultimately show ?thesis by (simp add: getCachedDepth_def st)
qed


text \<open>The witness: one bid at 100 in a market whose ticks are 10 wide.\<close>

definition example_member :: string where "example_member = ''o''"

definition example_parse :: "string \<Rightarrow> (string, json) result" where
  "example_parse s = Inr (JObj [(''price'', JNum 100), (''volume'', JNum 3)])"

definition example_book :: "(string, order_depth) result" where
  "example_book = getDepth example_numeric example_parse True [example_member] [] ''now'' ''XLM'' (JNum 10)"

lemma example_book_ok: "\<exists>d. example_book = Inr d"
  by (simp add: example_book_def getDepth_def parsePositiveDecimal_def js_trim_def is_space_def)

theorem cached_depth_reads_back_witness:
  "\<exists>d mp store'. example_book = Inr d
     \<and> updateDepth example_numeric mp None True (Inr d) ''XLM'' Map.empty = (Inr (), store')
     \<and> getCachedDepth example_numeric mp (\<lambda>_. Inl ''no'') None True ''XLM'' store' = Cached_depth d"
proof -
  obtain d where d: "example_book = Inr d" using example_book_ok by blast
  let ?mp = "short_msgpack (depth_payload example_numeric d)"
  have s: "jn_String example_numeric x \<noteq> []" for x by (simp add: example_numeric_def)
  have dec: "decimalString example_numeric x \<noteq> []" for x by (simp add: decimalString_def s split: option.split)
  have "depth_encodable d"
    using d aggregateSide_encodable [OF dec] dec [symmetric]
    by (auto simp: example_book_def getDepth_def depth_encodable_def Let_def rbind_eq_Inr split: if_splits)
  then have "encodeOrderDepth example_numeric ?mp (Some (depth_value d)) = Inr (frame_payload [1])"
    by (simp add: encodeOrderDepth_def encode_depth_payload_value short_msgpack_def d)
  then have "\<exists>store'. updateDepth example_numeric ?mp None True (Inr d) ''XLM'' Map.empty = (Inr (), store')"
    by (simp add: updateDepth_def)
  then obtain store' where u: "updateDepth example_numeric ?mp None True (Inr d) ''XLM'' Map.empty = (Inr (), store')" ..
  have "getCachedDepth example_numeric ?mp (\<lambda>_. Inl ''no'') None True ''XLM'' store' = Cached_depth d
      \<and> (\<forall>k. k \<noteq> depth_cacheKey None ''XLM'' \<longrightarrow> store' k = Map.empty k)"
    by (rule cached_depth_reads_back [OF short_msgpack_ok example_codec_ok(2) s _ _ _ d [unfolded example_book_def] u]) simp_all
  then show ?thesis using d u by blast
qed

end
