(* ===== verification/MultiSig.thy ===== *)
theory MultiSig
  imports JSString
begin

text \<open>
  \<open>src/services/multiSigService.ts\<close> and \<open>src/services/multiSigSubmissionService.ts\<close>: price updates
  that need signatures of several oracle servers, the collection of the signatures and the
  submission of approved prices.

  The handlers await the database, so handlers of concurrent requests interleave between their
  database calls.  A task is a handler at one of these points, with what it holds in local variables;
  \<open>ms_resume\<close> runs a task up to its next database call and performs that call.  What the awaited
  services answer (the signer, the signing lock, the remote server, Stellar, and whether the database
  call itself fails) is the environment of a step.  Awaits that touch nothing shared are part of the
  step that follows them.  \<open>ms_step\<close> is the step relation of the whole system: a request arrives, or
  any task takes a step.

  The tables are kept as the schema defines them: prices by id, signatures unique per price and signer
  (\<open>P2002\<close> otherwise).  A rate is the text of its decimal.  The metrics of \<open>recordSubmission\<close> are not
  modelled.

  The lemmas: in every reachable state an approved price has a quorum of signers, and every
  submission to Stellar carries signatures of a quorum.
\<close>

section \<open>Tables\<close>

datatype ms_status = MS_PENDING | MS_APPROVED | MS_REJECTED | MS_EXPIRED

fun ms_status_text :: "ms_status \<Rightarrow> string" where
  "ms_status_text MS_PENDING = ''PENDING''"
| "ms_status_text MS_APPROVED = ''APPROVED''"
| "ms_status_text MS_REJECTED = ''REJECTED''"
| "ms_status_text MS_EXPIRED = ''EXPIRED''"

record ms_row =
  mr_id :: int
  mr_priceReviewId :: int
  mr_currency :: string
  mr_rate :: string
  mr_source :: string
  mr_memoId :: "string option"
  mr_status :: ms_status
  mr_requiredSignatures :: int
  mr_collectedSignatures :: int
  mr_requestedAt :: int
  mr_expiresAt :: int
  mr_stellarTxHash :: "string option"
  mr_submittedAt :: "int option"

record ms_sig =
  sg_multiSigPriceId :: int
  sg_signerPublicKey :: string
  sg_signerName :: string
  sg_signature :: string

record ms_db =
  md_prices :: "(int \<times> ms_row) list"
  md_signatures :: "ms_sig list"
  md_nextId :: int
  md_reviews :: "int \<rightharpoonup> string \<times> string"

record ms_config =
  mc_localSignerPublicKey :: string
  mc_signerName :: string
  mc_requiredSignatures :: int

definition SIGNATURE_EXPIRY_MS :: int where "SIGNATURE_EXPIRY_MS = 60 * 60 * 1000"

text \<open>The constructor; \<open>Number.parseInt\<close> of the setting is an argument (\<open>None\<close> when not a number).\<close>

definition new_MultiSigService :: "string option \<Rightarrow> int option \<Rightarrow> string \<Rightarrow> ms_config" where
  "new_MultiSigService name parsed publicKey =
     \<lparr>mc_localSignerPublicKey = publicKey,
      mc_signerName = (case name of Some n \<Rightarrow> if n = [] then ''oracle-server'' else n | None \<Rightarrow> ''oracle-server''),
      mc_requiredSignatures = (case parsed of Some n \<Rightarrow> if n > 0 then n else 2 | None \<Rightarrow> 2)\<rparr>"

definition find_price :: "int \<Rightarrow> ms_db \<Rightarrow> ms_row option" where
  "find_price i db = jm_get (md_prices db) i"

definition put_price :: "ms_row \<Rightarrow> ms_db \<Rightarrow> ms_db" where
  "put_price r db = db\<lparr>md_prices := jm_set (mr_id r) r (md_prices db)\<rparr>"

text \<open>\<open>findMany\<close> of the signatures of a price.\<close>

definition getSignatures :: "int \<Rightarrow> ms_db \<Rightarrow> ms_sig list" where
  "getSignatures i db = filter (\<lambda>s. sg_multiSigPriceId s = i) (md_signatures db)"

definition create_signature :: "ms_sig \<Rightarrow> ms_db \<Rightarrow> ms_db option" where
  "create_signature s db =
     (if \<exists>t \<in> set (md_signatures db).
           sg_multiSigPriceId t = sg_multiSigPriceId s \<and> sg_signerPublicKey t = sg_signerPublicKey s
      then None else Some (db\<lparr>md_signatures := md_signatures db @ [s]\<rparr>))"

section \<open>Requests that make one database call\<close>

definition createMultiSigRequest ::
  "ms_config \<Rightarrow> int \<Rightarrow> int \<Rightarrow> string \<Rightarrow> string \<Rightarrow> string \<Rightarrow> string \<Rightarrow> ms_db \<Rightarrow> int \<times> ms_db" where
  "createMultiSigRequest cfg now priceReviewId currency rate source memoId db =
     (let r = \<lparr>mr_id = md_nextId db, mr_priceReviewId = priceReviewId, mr_currency = currency, mr_rate = rate,
               mr_source = source, mr_memoId = Some memoId, mr_status = MS_PENDING,
               mr_requiredSignatures = mc_requiredSignatures cfg, mr_collectedSignatures = 0,
               mr_requestedAt = now, mr_expiresAt = now + SIGNATURE_EXPIRY_MS, mr_stellarTxHash = None,
               mr_submittedAt = None\<rparr> in
      (md_nextId db, (put_price r db)\<lparr>md_nextId := md_nextId db + 1\<rparr>))"

definition is_stale :: "int \<Rightarrow> ms_row \<Rightarrow> bool" where
  "is_stale now r \<longleftrightarrow> mr_status r = MS_PENDING \<and> mr_expiresAt r < now"

definition cleanupExpiredRequests :: "int \<Rightarrow> ms_db \<Rightarrow> nat \<times> ms_db" where
  "cleanupExpiredRequests now db =
     (length (filter (\<lambda>p. is_stale now (snd p)) (md_prices db)),
      db\<lparr>md_prices := map (\<lambda>(i, r). (i, if is_stale now r then r\<lparr>mr_status := MS_EXPIRED\<rparr> else r)) (md_prices db)\<rparr>)"

definition getMultiSigPrice :: "int \<Rightarrow> ms_db \<Rightarrow> (ms_row \<times> ms_sig list) option" where
  "getMultiSigPrice i db = map_option (\<lambda>r. (r, getSignatures i db)) (find_price i db)"

definition getPendingMultiSigPrices :: "ms_db \<Rightarrow> (ms_row \<times> ms_sig list) list" where
  "getPendingMultiSigPrices db =
     map (\<lambda>r. (r, getSignatures (mr_id r) db))
       (sort_key (\<lambda>r. - mr_requestedAt r) (filter (\<lambda>r. mr_status r = MS_PENDING) (map snd (md_prices db))))"

definition getLocalSignerInfo :: "ms_config \<Rightarrow> string \<times> string" where
  "getLocalSignerInfo cfg = (mc_localSignerPublicKey cfg, mc_signerName cfg)"

definition createSignatureMessage :: "string \<Rightarrow> string \<Rightarrow> string \<Rightarrow> string" where
  "createSignatureMessage currency rate source = ''SF-PRICE-'' @ currency @ ''-'' @ rate @ ''-'' @ source"

text \<open>The poller: prices that are approved and not submitted, with their signatures.\<close>

definition approved_unsubmitted :: "ms_db \<Rightarrow> (ms_row \<times> ms_sig list) list" where
  "approved_unsubmitted db =
     map (\<lambda>r. (r, getSignatures (mr_id r) db))
       (filter (\<lambda>r. mr_status r = MS_APPROVED \<and> mr_submittedAt r = None) (map snd (md_prices db)))"

fun js_includes :: "string \<Rightarrow> string \<Rightarrow> bool" where
  "js_includes w [] = (w = [])"
| "js_includes w (c # s) = (take (length w) (c # s) = w \<or> js_includes w s)"

definition classifyError :: "string option \<Rightarrow> string" where
  "classifyError error = (case error of
      Some message \<Rightarrow>
        (let msg = toLowerCase message in
         if js_includes ''timeout'' msg then ''timeout''
         else if js_includes ''validation'' msg then ''validation''
         else if js_includes ''expired'' msg then ''expired''
         else if js_includes ''not found'' msg then ''not_found''
         else ''unknown'')
    | None \<Rightarrow> ''unknown'')"

section \<open>Handlers as tasks\<close>

datatype ms_origin =
    By_sign
  | By_remote
  | By_collect string string "string option"

text \<open>What follows a submission: the collecting request answers, or the poller goes on.\<close>

datatype ms_after =
    Answer ms_row
  | Continue "(ms_row \<times> ms_sig list) list"

datatype ms_result =
    Signed string string
  | Remote_success
  | Remote_failure string
  | Collected ms_row bool "string option"
  | Polled
  | Failed string

datatype ms_task =
    T_find ms_origin int
  | T_expire ms_origin int
  | T_store ms_origin ms_row
  | T_count ms_origin int string
  | T_approve ms_origin ms_row string
  | T_load ms_row
  | T_submit ms_row "ms_sig list" ms_after
  | T_record ms_row string string ms_after
  | T_mark ms_row string string ms_after
  | T_poll
  | T_polling "(ms_row \<times> ms_sig list) list"
  | T_done ms_result

record remote_response =
  rs_success :: "bool option"
  rs_error :: "string option"
  rs_signature :: "string option"
  rs_signerPublicKey :: "string option"
  rs_signerName :: "string option"

record ms_env =
  me_now :: int
  me_allowed :: "(string, unit) result"
  me_sign :: "string \<Rightarrow> (string, string) result"
  me_remote :: "(string, remote_response) result"
  me_submit :: "(string, string) result"
  me_dbFails :: "string option"
  me_lockdown :: bool

record submission =
  sb_priceId :: int
  sb_currency :: string
  sb_rate :: string
  sb_memoId :: string
  sb_signatures :: "ms_sig list"

text \<open>A rejected call: \<open>requestRemoteSignature\<close> catches it, the other handlers throw.\<close>

definition ms_fail :: "ms_origin \<Rightarrow> string \<Rightarrow> ms_task" where
  "ms_fail origin e = (if origin = By_remote then T_done (Remote_failure e) else T_done (Failed e))"

definition ms_after_fails :: "ms_after \<Rightarrow> string \<Rightarrow> ms_task" where
  "ms_after_fails k e = (case k of Answer _ \<Rightarrow> T_done (Failed e) | Continue rest \<Rightarrow> T_polling rest)"

definition not_found :: "int \<Rightarrow> string" where
  "not_found i = ''MultiSigPrice '' @ show_int i @ '' not found''"

definition wrong_status :: "ms_origin \<Rightarrow> int \<Rightarrow> ms_status \<Rightarrow> string" where
  "wrong_status origin i st =
     (if origin = By_sign then ''Cannot sign MultiSigPrice '' else ''Cannot collect signature for MultiSigPrice '')
     @ show_int i @ '' - status is '' @ ms_status_text st"

text \<open>The first database read of the three collecting handlers and the guards after it.\<close>

definition begin_handler :: "ms_env \<Rightarrow> ms_origin \<Rightarrow> int \<Rightarrow> ms_db \<Rightarrow> ms_task" where
  "begin_handler e origin i db =
     (case find_price i db of
        None \<Rightarrow> ms_fail origin (not_found i)
      | Some r \<Rightarrow>
          if origin = By_remote then T_store origin r
          else if mr_status r \<noteq> MS_PENDING then ms_fail origin (wrong_status origin i (mr_status r))
          else if me_now e > mr_expiresAt r then T_expire origin i
          else T_store origin r)"

text \<open>The signature to store: produced here, returned by the remote server, or submitted.\<close>

definition obtain_signature :: "ms_config \<Rightarrow> ms_env \<Rightarrow> ms_origin \<Rightarrow> ms_row \<Rightarrow> (string, ms_sig) result" where
  "obtain_signature cfg e origin r = (case origin of
      By_sign \<Rightarrow>
        rbind (me_allowed e) (\<lambda>_.
        rbind (me_sign e (createSignatureMessage (mr_currency r) (mr_rate r) (mr_source r))) (\<lambda>s.
          Inr \<lparr>sg_multiSigPriceId = mr_id r, sg_signerPublicKey = mc_localSignerPublicKey cfg,
               sg_signerName = mc_signerName cfg, sg_signature = s\<rparr>))
    | By_remote \<Rightarrow>
        rbind (me_remote e) (\<lambda>resp.
          if rs_success resp = Some False
          then Inl (case rs_error resp of
                      Some m \<Rightarrow> if m = [] then ''Remote server rejected the signing request'' else m
                    | None \<Rightarrow> ''Remote server rejected the signing request'')
          else (case (rs_signature resp, rs_signerPublicKey resp) of
                  (Some s, Some k) \<Rightarrow>
                    if s = [] \<or> k = [] then Inl ''Remote server did not return signature data''
                    else Inr \<lparr>sg_multiSigPriceId = mr_id r, sg_signerPublicKey = k,
                              sg_signerName = (case rs_signerName resp of
                                  Some n \<Rightarrow> if n = [] then ''remote-signer'' else n | None \<Rightarrow> ''remote-signer''),
                              sg_signature = s\<rparr>
                | _ \<Rightarrow> Inl ''Remote server did not return signature data''))
    | By_collect key s name \<Rightarrow>
        Inr \<lparr>sg_multiSigPriceId = mr_id r, sg_signerPublicKey = key,
             sg_signerName = (case name of Some n \<Rightarrow> if n = [] then ''external-signer'' else n
                                         | None \<Rightarrow> ''external-signer''),
             sg_signature = s\<rparr>)"

text \<open>Where a handler goes once it knows the row and whether the threshold is met.\<close>

definition after_count :: "ms_config \<Rightarrow> ms_origin \<Rightarrow> ms_row \<Rightarrow> string \<Rightarrow> ms_task" where
  "after_count cfg origin r s =
     (if mr_collectedSignatures r \<ge> mr_requiredSignatures r then T_approve origin r s
      else case origin of
             By_sign \<Rightarrow> T_done (Signed s (mc_localSignerPublicKey cfg))
           | By_remote \<Rightarrow> T_done Remote_success
           | By_collect _ _ _ \<Rightarrow> T_done (Collected r False None))"

text \<open>The signature was stored before (\<open>P2002\<close>): only the collecting handler looks at the threshold.\<close>

definition after_duplicate :: "ms_config \<Rightarrow> ms_origin \<Rightarrow> ms_row \<Rightarrow> string \<Rightarrow> ms_task" where
  "after_duplicate cfg origin r s = (case origin of
      By_sign \<Rightarrow> T_done (Signed s (mc_localSignerPublicKey cfg))
    | By_remote \<Rightarrow> T_done Remote_success
    | By_collect _ _ _ \<Rightarrow> after_count cfg origin r s)"

definition after_approve :: "ms_config \<Rightarrow> ms_origin \<Rightarrow> ms_row \<Rightarrow> string \<Rightarrow> ms_task" where
  "after_approve cfg origin r s = (case origin of
      By_sign \<Rightarrow> T_done (Signed s (mc_localSignerPublicKey cfg))
    | By_remote \<Rightarrow> T_done Remote_success
    | By_collect _ _ _ \<Rightarrow> T_load r)"

definition memo_for :: "ms_row \<Rightarrow> string" where
  "memo_for r = (case mr_memoId r of
      Some m \<Rightarrow> if m = [] then ''MS-'' @ show_int (mr_id r) else m
    | None \<Rightarrow> ''MS-'' @ show_int (mr_id r))"

text \<open>The poller submits the next price that has signatures.\<close>

fun next_polled :: "(ms_row \<times> ms_sig list) list \<Rightarrow> ms_task" where
  "next_polled [] = T_done Polled"
| "next_polled ((r, sigs) # rest) = (if sigs = [] then next_polled rest else T_submit r sigs (Continue rest))"

section \<open>One step of a task\<close>

definition no_change :: "ms_task \<Rightarrow> ms_db \<Rightarrow> ms_task \<times> ms_db \<times> submission list" where
  "no_change t db = (t, db, [])"

definition update_price :: "(ms_row \<Rightarrow> ms_row) \<Rightarrow> int \<Rightarrow> ms_db \<Rightarrow> (ms_row \<times> ms_db) option" where
  "update_price f i db = map_option (\<lambda>r. (f r, put_price (f r) db)) (find_price i db)"

definition submit_price :: "ms_env \<Rightarrow> ms_row \<Rightarrow> ms_sig list \<Rightarrow> ms_after \<Rightarrow> ms_db \<Rightarrow> ms_task \<times> ms_db \<times> submission list" where
  "submit_price e r sigs k db =
     (let sub = \<lparr>sb_priceId = mr_id r, sb_currency = mr_currency r, sb_rate = mr_rate r,
                 sb_memoId = memo_for r, sb_signatures = sigs\<rparr> in
      case me_submit e of
        Inl m \<Rightarrow> (ms_after_fails k m, db, [sub])
      | Inr txHash \<Rightarrow> (T_record r (memo_for r) txHash k, db, [sub]))"

definition row_missing :: string where
  "row_missing = ''An operation failed because it depends on one or more records that were required but not found''"

fun ms_resume :: "ms_config \<Rightarrow> ms_env \<Rightarrow> ms_task \<Rightarrow> ms_db \<Rightarrow> ms_task \<times> ms_db \<times> submission list" where
  "ms_resume cfg e (T_find origin i) db =
     (case (if origin = By_remote then me_allowed e else Inr ()) of
        Inl m \<Rightarrow> no_change (ms_fail origin m) db
      | Inr _ \<Rightarrow> (case me_dbFails e of
            Some m \<Rightarrow> no_change (ms_fail origin m) db
          | None \<Rightarrow> no_change (begin_handler e origin i db) db))"
| "ms_resume cfg e (T_expire origin i) db =
     (case me_dbFails e of
        Some m \<Rightarrow> no_change (ms_fail origin m) db
      | None \<Rightarrow> (case update_price (\<lambda>r. r\<lparr>mr_status := MS_EXPIRED\<rparr>) i db of
            None \<Rightarrow> no_change (ms_fail origin row_missing) db
          | Some (r, db') \<Rightarrow> (ms_fail origin (''MultiSigPrice '' @ show_int i @ '' has expired''), db', [])))"
| "ms_resume cfg e (T_store origin r) db =
     (case obtain_signature cfg e origin r of
        Inl m \<Rightarrow> no_change (ms_fail origin m) db
      | Inr s \<Rightarrow> (case me_dbFails e of
            Some m \<Rightarrow> no_change (ms_fail origin m) db
          | None \<Rightarrow> (case create_signature s db of
                None \<Rightarrow> no_change (after_duplicate cfg origin r (sg_signature s)) db
              | Some db' \<Rightarrow> (T_count origin (mr_id r) (sg_signature s), db', []))))"
| "ms_resume cfg e (T_count origin i s) db =
     (case me_dbFails e of
        Some m \<Rightarrow> no_change (ms_fail origin m) db
      | None \<Rightarrow> (case update_price (\<lambda>r. r\<lparr>mr_collectedSignatures := mr_collectedSignatures r + 1\<rparr>) i db of
            None \<Rightarrow> no_change (ms_fail origin row_missing) db
          | Some (r, db') \<Rightarrow> (after_count cfg origin r s, db', [])))"
| "ms_resume cfg e (T_approve origin r s) db =
     (case me_dbFails e of
        Some m \<Rightarrow> no_change (ms_fail origin m) db
      | None \<Rightarrow> (case update_price (\<lambda>q. q\<lparr>mr_status := MS_APPROVED\<rparr>) (mr_id r) db of
            None \<Rightarrow> no_change (ms_fail origin row_missing) db
          | Some (_, db') \<Rightarrow> (after_approve cfg origin r s, db', [])))"
| "ms_resume cfg e (T_load r) db =
     (case me_dbFails e of
        Some m \<Rightarrow> no_change (T_done (Failed m)) db
      | None \<Rightarrow> no_change (T_submit r (getSignatures (mr_id r) db) (Answer r)) db)"
| "ms_resume cfg e (T_submit r sigs k) db = submit_price e r sigs k db"
| "ms_resume cfg e (T_record r memo txHash k) db =
     (case me_dbFails e of
        Some m \<Rightarrow> no_change (ms_after_fails k m) db
      | None \<Rightarrow> (case update_price (\<lambda>q. q\<lparr>mr_memoId := Some memo, mr_stellarTxHash := Some txHash,
                                          mr_submittedAt := Some (me_now e)\<rparr>) (mr_id r) db of
            None \<Rightarrow> no_change (ms_after_fails k row_missing) db
          | Some (_, db') \<Rightarrow> (T_mark r memo txHash k, db', [])))"
| "ms_resume cfg e (T_mark r memo txHash k) db =
     (case me_dbFails e of
        Some m \<Rightarrow> no_change (ms_after_fails k m) db
      | None \<Rightarrow>
          ((case k of Answer q \<Rightarrow> T_done (Collected q True (Some txHash)) | Continue rest \<Rightarrow> T_polling rest),
           db\<lparr>md_reviews := (md_reviews db)(mr_priceReviewId r \<mapsto> (memo, txHash))\<rparr>, []))"
| "ms_resume cfg e T_poll db =
     (if me_lockdown e then no_change (T_done Polled) db
      else case me_dbFails e of
             Some _ \<Rightarrow> no_change (T_done Polled) db
           | None \<Rightarrow> no_change (next_polled (approved_unsubmitted db)) db)"
| "ms_resume cfg e (T_polling rest) db = no_change (next_polled rest) db"
| "ms_resume cfg e (T_done r) db = no_change (T_done r) db"

text \<open>The first checks of \<open>collectSignature\<close> come before any await.\<close>

definition collectSignature :: "int \<Rightarrow> string option \<Rightarrow> string option \<Rightarrow> string option \<Rightarrow> ms_task" where
  "collectSignature i signature key name =
     (case signature of
        Some s \<Rightarrow>
          if s = [] then T_done (Failed ''Signature is required and must be a non-empty string'')
          else (case key of
                  Some k \<Rightarrow> if k = [] then T_done (Failed ''signerPublicKey is required'')
                            else T_find (By_collect k s name) i
                | None \<Rightarrow> T_done (Failed ''signerPublicKey is required''))
      | None \<Rightarrow> T_done (Failed ''Signature is required and must be a non-empty string''))"

definition signMultiSigPrice :: "int \<Rightarrow> ms_task" where
  "signMultiSigPrice i = T_find By_sign i"

definition requestRemoteSignature :: "int \<Rightarrow> ms_task" where
  "requestRemoteSignature i = T_find By_remote i"

definition checkAndSubmitApprovedPrices :: ms_task where
  "checkAndSubmitApprovedPrices = T_poll"


section \<open>The system\<close>

record ms_system =
  sy_db :: ms_db
  sy_tasks :: "ms_task list"
  sy_submissions :: "submission list"

definition ms_init :: ms_system where
  "ms_init = \<lparr>sy_db = \<lparr>md_prices = [], md_signatures = [], md_nextId = 1, md_reviews = Map.empty\<rparr>,
              sy_tasks = [], sy_submissions = []\<rparr>"

definition spawn :: "ms_task \<Rightarrow> ms_system \<Rightarrow> ms_system" where
  "spawn t s = s\<lparr>sy_tasks := sy_tasks s @ [t]\<rparr>"

inductive ms_step :: "ms_config \<Rightarrow> ms_system \<Rightarrow> ms_system \<Rightarrow> bool" for cfg where
  collect: "ms_step cfg s (spawn (collectSignature i sig key name) s)"
| sign: "ms_step cfg s (spawn (signMultiSigPrice i) s)"
| remote: "ms_step cfg s (spawn (requestRemoteSignature i) s)"
| poll: "ms_step cfg s (spawn checkAndSubmitApprovedPrices s)"
| create: "createMultiSigRequest cfg now review currency rate source memo (sy_db s) = (i, db)
    \<Longrightarrow> ms_step cfg s (s\<lparr>sy_db := db\<rparr>)"
| cleanup: "cleanupExpiredRequests now (sy_db s) = (n, db) \<Longrightarrow> ms_step cfg s (s\<lparr>sy_db := db\<rparr>)"
| run: "n < length (sy_tasks s) \<Longrightarrow> ms_resume cfg e (sy_tasks s ! n) (sy_db s) = (t, db, subs)
    \<Longrightarrow> ms_step cfg s (s\<lparr>sy_db := db, sy_tasks := (sy_tasks s)[n := t],
                          sy_submissions := sy_submissions s @ subs\<rparr>)"

inductive ms_reachable :: "ms_config \<Rightarrow> ms_system \<Rightarrow> bool" for cfg where
  init: "ms_reachable cfg ms_init"
| step: "ms_reachable cfg s \<Longrightarrow> ms_step cfg s s' \<Longrightarrow> ms_reachable cfg s'"

section \<open>Database facts\<close>

lemma find_put [simp]: "find_price i (put_price r db) = (if i = mr_id r then Some r else find_price i db)"
  by (simp add: find_price_def put_price_def)

lemma getSignatures_put [simp]: "getSignatures i (put_price r db) = getSignatures i db"
  by (simp add: getSignatures_def put_price_def)

lemma db_simps [simp]:
  "find_price i (db\<lparr>md_signatures := x\<rparr>) = find_price i db"
  "find_price i (db\<lparr>md_nextId := y\<rparr>) = find_price i db"
  "find_price i (db\<lparr>md_reviews := z\<rparr>) = find_price i db"
  "getSignatures i (db\<lparr>md_nextId := y\<rparr>) = getSignatures i db"
  "getSignatures i (db\<lparr>md_reviews := z\<rparr>) = getSignatures i db"
  "getSignatures i (db\<lparr>md_prices := w\<rparr>) = getSignatures i db"
  "md_signatures (put_price r db) = md_signatures db"
  "md_nextId (put_price r db) = md_nextId db"
  by (simp_all add: find_price_def getSignatures_def put_price_def)

definition keyed :: "ms_db \<Rightarrow> bool" where
  "keyed db \<longleftrightarrow> (\<forall>i r. find_price i db = Some r \<longrightarrow> mr_id r = i \<and> i < md_nextId db)
     \<and> distinct (jm_keys (md_prices db))"

definition unique_signers :: "ms_db \<Rightarrow> bool" where
  "unique_signers db \<longleftrightarrow> distinct (map (\<lambda>s. (sg_multiSigPriceId s, sg_signerPublicKey s)) (md_signatures db))"

definition approved_ok :: "ms_db \<Rightarrow> bool" where
  "approved_ok db \<longleftrightarrow> (\<forall>i r. find_price i db = Some r \<longrightarrow> mr_status r = MS_APPROVED
     \<longrightarrow> mr_requiredSignatures r \<le> mr_collectedSignatures r)"

text \<open>What later database states keep of earlier ones: rows stay, counts only grow, signatures stay.\<close>

definition row_grows :: "ms_row \<Rightarrow> ms_row \<Rightarrow> bool" where
  "row_grows q r \<longleftrightarrow> mr_collectedSignatures q \<le> mr_collectedSignatures r
     \<and> mr_requiredSignatures q = mr_requiredSignatures r"

definition db_grows :: "ms_db \<Rightarrow> ms_db \<Rightarrow> bool" where
  "db_grows db db' \<longleftrightarrow> (\<forall>i q. find_price i db = Some q \<longrightarrow> (\<exists>r. find_price i db' = Some r \<and> row_grows q r))
     \<and> set (md_signatures db) \<subseteq> set (md_signatures db')"

lemma row_grows_refl [simp]: "row_grows r r"
  by (simp add: row_grows_def)

lemma db_grows_refl [simp]: "db_grows db db"
  by (simp add: db_grows_def)

lemma row_grows_trans: "row_grows p q \<Longrightarrow> row_grows q r \<Longrightarrow> row_grows p r"
  by (auto simp: row_grows_def)

section \<open>What tasks hold\<close>

definition row_of :: "ms_db \<Rightarrow> ms_row \<Rightarrow> bool" where
  "row_of db r \<longleftrightarrow> (\<exists>q. find_price (mr_id r) db = Some q \<and> row_grows r q)"

definition quorum_row :: "ms_db \<Rightarrow> ms_row \<Rightarrow> bool" where
  "quorum_row db r \<longleftrightarrow> row_of db r \<and> mr_requiredSignatures r \<le> mr_collectedSignatures r"

definition quorum_sigs :: "ms_db \<Rightarrow> ms_row \<times> ms_sig list \<Rightarrow> bool" where
  "quorum_sigs db = (\<lambda>(r, sigs). row_of db r \<and> mr_requiredSignatures r \<le> int (card (sg_signerPublicKey ` set sigs))
     \<and> set sigs \<subseteq> set (md_signatures db) \<and> (\<forall>s \<in> set sigs. sg_multiSigPriceId s = mr_id r))"

fun after_ok :: "ms_db \<Rightarrow> ms_after \<Rightarrow> bool" where
  "after_ok db (Answer r) = True"
| "after_ok db (Continue rest) = list_all (quorum_sigs db) rest"

fun task_ok :: "ms_db \<Rightarrow> ms_task \<Rightarrow> bool" where
  "task_ok db (T_store origin r) = row_of db r"
| "task_ok db (T_count origin i s) = (find_price i db \<noteq> None)"
| "task_ok db (T_approve origin r s) = quorum_row db r"
| "task_ok db (T_load r) = quorum_row db r"
| "task_ok db (T_submit r sigs k) = (quorum_sigs db (r, sigs) \<and> after_ok db k)"
| "task_ok db (T_record r memo h k) = after_ok db k"
| "task_ok db (T_mark r memo h k) = after_ok db k"
| "task_ok db (T_polling rest) = list_all (quorum_sigs db) rest"
| "task_ok db t = True"

definition sub_ok :: "ms_db \<Rightarrow> submission \<Rightarrow> bool" where
  "sub_ok db sub \<longleftrightarrow> (\<exists>r. find_price (sb_priceId sub) db = Some r
     \<and> mr_requiredSignatures r \<le> int (card (sg_signerPublicKey ` set (sb_signatures sub)))
     \<and> set (sb_signatures sub) \<subseteq> set (getSignatures (sb_priceId sub) db))"

lemma row_of_mono: "db_grows db db' \<Longrightarrow> row_of db r \<Longrightarrow> row_of db' r"
  unfolding row_of_def db_grows_def by (meson row_grows_trans)

lemma quorum_sigs_mono: "db_grows db db' \<Longrightarrow> quorum_sigs db x \<Longrightarrow> quorum_sigs db' x"
  unfolding quorum_sigs_def using row_of_mono by (auto simp: db_grows_def)

lemma after_ok_mono: "db_grows db db' \<Longrightarrow> after_ok db k \<Longrightarrow> after_ok db' k"
  by (cases k) (auto simp: list_all_iff intro: quorum_sigs_mono)

lemma grows_find: "db_grows db db' \<Longrightarrow> find_price i db = Some q \<Longrightarrow> \<exists>r. find_price i db' = Some r"
  unfolding db_grows_def by blast

lemma task_ok_mono: "db_grows db db' \<Longrightarrow> task_ok db t \<Longrightarrow> task_ok db' t"
  by (cases t) (auto simp: quorum_row_def list_all_iff intro: row_of_mono quorum_sigs_mono after_ok_mono
      dest: grows_find)

lemma sub_ok_mono: "db_grows db db' \<Longrightarrow> sub_ok db sub \<Longrightarrow> sub_ok db' sub"
  unfolding sub_ok_def db_grows_def row_grows_def getSignatures_def by fastforce

lemma card_signers:
  assumes "unique_signers db"
  shows "card (sg_signerPublicKey ` set (getSignatures i db)) = length (getSignatures i db)"
proof -
  have "distinct (map (\<lambda>s. (sg_multiSigPriceId s, sg_signerPublicKey s)) (getSignatures i db))"
    using assms unfolding unique_signers_def getSignatures_def
    by (induction "md_signatures db" arbitrary: db) (auto simp: distinct_map_filter)
  then have "distinct (map sg_signerPublicKey (getSignatures i db))"
    by (auto simp: distinct_map inj_on_def getSignatures_def)
  then show ?thesis by (metis distinct_card length_map set_map)
qed


section \<open>Steps keep the invariant\<close>

lemma update_priceD:
  assumes "update_price f i db = Some (r, db')" "keyed db"
  shows "\<exists>q. find_price i db = Some q \<and> r = f q \<and> db' = put_price (f q) db \<and> mr_id q = i"
  using assms by (auto simp: update_price_def keyed_def)

lemma keyedD: "keyed db \<Longrightarrow> find_price i db = Some r \<Longrightarrow> mr_id r = i \<and> i < md_nextId db"
  by (simp add: keyed_def)

lemma put_price_grows:
  assumes "find_price i db = Some q" "mr_id r = i" "row_grows q r"
  shows "db_grows db (put_price r db)"
  using assms by (auto simp: db_grows_def)

lemma put_price_keyed: "keyed db \<Longrightarrow> mr_id r < md_nextId db \<Longrightarrow> keyed (put_price r db)"
  by (auto simp: keyed_def put_price_def find_price_def jm_distinct_set split: if_splits)

lemma put_price_unique: "unique_signers (put_price r db) = unique_signers db"
  by (simp add: unique_signers_def put_price_def)

text \<open>The number of increments still to come, and the balance of a price.\<close>

definition is_count :: "int \<Rightarrow> ms_task \<Rightarrow> bool" where
  "is_count i t = (case t of T_count _ j _ \<Rightarrow> j = i | _ \<Rightarrow> False)"

definition pending_counts :: "int \<Rightarrow> ms_task list \<Rightarrow> nat" where
  "pending_counts i ts = length (filter (is_count i) ts)"

definition balance :: "int \<Rightarrow> ms_db \<Rightarrow> int" where
  "balance i db = int (length (getSignatures i db))
     - (case find_price i db of Some r \<Rightarrow> mr_collectedSignatures r | None \<Rightarrow> 0)"

definition balanced :: "ms_db \<Rightarrow> ms_task list \<Rightarrow> bool" where
  "balanced db ts \<longleftrightarrow> (\<forall>i. int (pending_counts i ts) \<le> balance i db)"

lemma pending_counts_update:
  "n < length ts \<Longrightarrow> int (pending_counts i (ts[n := t]))
     = int (pending_counts i ts) - of_bool (is_count i (ts ! n)) + of_bool (is_count i t)"
proof (induction ts arbitrary: n)
  case (Cons x ts)
  then show ?case by (cases n) (auto simp: pending_counts_def)
qed simp

lemma is_count_simps [simp]:
  "is_count i (T_count origin j s) \<longleftrightarrow> j = i" "\<not> is_count i (T_find origin j)" "\<not> is_count i (T_expire origin j)"
  "\<not> is_count i (T_store origin r)" "\<not> is_count i (T_approve origin r s)" "\<not> is_count i (T_load r)"
  "\<not> is_count i (T_submit r sigs k)" "\<not> is_count i (T_record r m h k)" "\<not> is_count i (T_mark r m h k)"
  "\<not> is_count i T_poll" "\<not> is_count i (T_polling rest)" "\<not> is_count i (T_done x)"
  by (simp_all add: is_count_def)

lemma not_count [simp]:
  "\<not> is_count i (ms_fail origin m)" "\<not> is_count i (ms_after_fails k m)" "\<not> is_count i (after_count cfg origin r s)"
  "\<not> is_count i (after_duplicate cfg origin r s)" "\<not> is_count i (after_approve cfg origin r s)"
  "\<not> is_count i (begin_handler e origin j db)"
  by (auto simp: is_count_def ms_fail_def ms_after_fails_def after_count_def after_duplicate_def after_approve_def
      begin_handler_def split: ms_after.split ms_origin.split option.split)

lemma next_polled_not_count [simp]: "\<not> is_count i (next_polled rest)"
  by (induction rest rule: next_polled.induct) (simp_all add: is_count_def)

lemma task_ok_small [simp]:
  "task_ok db (ms_fail origin m)" "task_ok db (T_done x)"
  by (simp_all add: ms_fail_def)

lemma task_ok_after_fails: "after_ok db k \<Longrightarrow> task_ok db (ms_after_fails k m)"
  by (cases k) (auto simp: ms_after_fails_def)

lemma task_ok_after_count: "row_of db r \<Longrightarrow> task_ok db (after_count cfg origin r s)"
  by (auto simp: after_count_def quorum_row_def split: ms_origin.split)

lemma task_ok_after_duplicate: "row_of db r \<Longrightarrow> task_ok db (after_duplicate cfg origin r s)"
  by (auto simp: after_duplicate_def task_ok_after_count split: ms_origin.split)

lemma task_ok_after_approve: "quorum_row db r \<Longrightarrow> task_ok db (after_approve cfg origin r s)"
  by (auto simp: after_approve_def split: ms_origin.split)

lemma task_ok_begin: "keyed db \<Longrightarrow> task_ok db (begin_handler e origin i db)"
  by (auto simp: begin_handler_def row_of_def keyed_def split: option.split)

lemma task_ok_next_polled: "list_all (quorum_sigs db) rest \<Longrightarrow> task_ok db (next_polled rest)"
  by (induction rest rule: next_polled.induct) auto

definition db_ok :: "ms_db \<Rightarrow> bool" where
  "db_ok db \<longleftrightarrow> keyed db \<and> unique_signers db \<and> approved_ok db"

lemma db_okD:
  assumes "db_ok db" "find_price i db = Some q"
  shows "mr_id q = i" "mr_status q = MS_APPROVED \<Longrightarrow> mr_requiredSignatures q \<le> mr_collectedSignatures q"
  using assms by (auto simp: db_ok_def keyed_def approved_ok_def)

lemma quorum_sigs_all:
  assumes "db_ok db" "quorum_row db r" "balance (mr_id r) db \<ge> 0"
  shows "quorum_sigs db (r, getSignatures (mr_id r) db)"
proof -
  obtain q where "find_price (mr_id r) db = Some q" "row_grows r q"
    using assms(2) by (auto simp: quorum_row_def row_of_def)
  then have "mr_requiredSignatures r \<le> int (length (getSignatures (mr_id r) db))"
    using assms(2,3) by (auto simp: quorum_row_def row_grows_def balance_def)
  then show ?thesis
    using assms(1,2) card_signers [of db "mr_id r"]
    by (auto simp: quorum_sigs_def db_ok_def quorum_row_def getSignatures_def)
qed

lemma approved_unsubmitted_ok:
  assumes "db_ok db" "\<And>i. balance i db \<ge> 0"
  shows "list_all (quorum_sigs db) (approved_unsubmitted db)"
proof -
  have "quorum_sigs db (r, getSignatures (mr_id r) db)"
    if r: "(i, r) \<in> set (md_prices db)" and a: "mr_status r = MS_APPROVED" for i r
  proof -
    have "find_price i db = Some r" using assms(1) r by (simp add: db_ok_def keyed_def find_price_def)
    moreover from this have "mr_id r = i" using assms(1) by (simp add: db_ok_def keyed_def)
    ultimately have "quorum_row db r"
      using assms(1) a by (auto simp: quorum_row_def row_of_def db_ok_def approved_ok_def)
    then show ?thesis using quorum_sigs_all assms by blast
  qed
  then show ?thesis by (auto simp: approved_unsubmitted_def list_all_iff)
qed


text \<open>One step of a task keeps what holds of the database, of the task, and of its balance.\<close>

definition resume_ok :: "ms_task \<Rightarrow> ms_db \<Rightarrow> ms_task \<times> ms_db \<times> submission list \<Rightarrow> bool" where
  "resume_ok t db = (\<lambda>(t', db', subs).
     db_grows db db' \<and> db_ok db' \<and> task_ok db' t' \<and> list_all (sub_ok db') subs
     \<and> (\<forall>i. balance i db + of_bool (is_count i t') - of_bool (is_count i t) \<le> balance i db'))"

lemma resume_ok_no_change:
  "db_ok db \<Longrightarrow> task_ok db t' \<Longrightarrow> (\<And>i. \<not> is_count i t') \<Longrightarrow> resume_ok t db (no_change t' db)"
  by (simp add: resume_ok_def no_change_def)

lemma resume_ok_put:
  assumes "db_ok db" "find_price i db = Some q" "mr_id r = i" "row_grows q r"
    and "mr_status r = MS_APPROVED \<Longrightarrow> mr_requiredSignatures r \<le> mr_collectedSignatures r"
    and "task_ok (put_price r db) t'" "\<And>j. \<not> is_count j t'"
    and "\<And>j. mr_collectedSignatures r - mr_collectedSignatures q \<le> of_bool (is_count i t)"
  shows "resume_ok t db (t', put_price r db, [])"
proof -
  have "db_ok (put_price r db)"
    using assms(1-5) by (auto simp: db_ok_def put_price_unique approved_ok_def intro!: put_price_keyed)
      (auto simp: keyed_def)
  moreover have "balance j db - of_bool (is_count j t) \<le> balance j (put_price r db)" for j
    using assms(2,3,8) by (auto simp: balance_def)
  ultimately show ?thesis
    using put_price_grows [OF assms(2-4)] assms(6,7) by (simp add: resume_ok_def)
qed

lemma create_signature_ok:
  assumes "create_signature s db = Some db'" "db_ok db" "find_price (sg_multiSigPriceId s) db \<noteq> None"
  shows "resume_ok t db (T_count origin (sg_multiSigPriceId s) x, db', [])"
proof -
  have db': "db' = db\<lparr>md_signatures := md_signatures db @ [s]\<rparr>"
    and new: "(sg_multiSigPriceId s, sg_signerPublicKey s)
      \<notin> (\<lambda>s. (sg_multiSigPriceId s, sg_signerPublicKey s)) ` set (md_signatures db)"
    using assms(1) by (auto simp: create_signature_def split: if_splits)
  have "db_grows db db'" by (auto simp: db_grows_def db')
  moreover have "db_ok db'"
    using assms(2) new by (auto simp: db_ok_def db' keyed_def unique_signers_def approved_ok_def find_price_def)
  moreover have "balance i db' = balance i db + of_bool (sg_multiSigPriceId s = i)" for i
    by (simp add: balance_def db' getSignatures_def)
  ultimately show ?thesis using assms(3) by (auto simp: resume_ok_def db' is_count_def)
qed


lemma obtain_signature_price: "obtain_signature cfg e origin r = Inr s \<Longrightarrow> sg_multiSigPriceId s = mr_id r"
  by (auto simp: obtain_signature_def rbind_eq_Inr split: ms_origin.splits if_splits option.splits)

lemma resume_find:
  "db_ok db \<Longrightarrow> resume_ok (T_find origin i) db (ms_resume cfg e (T_find origin i) db)"
  by (auto simp: db_ok_def split: sum.split option.split intro!: resume_ok_no_change task_ok_begin)

lemma resume_store:
  assumes "db_ok db" "task_ok db (T_store origin r)"
  shows "resume_ok (T_store origin r) db (ms_resume cfg e (T_store origin r) db)"
proof -
  have row: "row_of db r" using assms(2) by simp
  have stored: "resume_ok (T_store origin r) db (T_count origin (mr_id r) x, db', [])"
    if "obtain_signature cfg e origin r = Inr s" "create_signature s db = Some db'" for s x db'
    using create_signature_ok [OF that(2) assms(1), of "T_store origin r" origin x]
      obtain_signature_price [OF that(1)] row by (auto simp: row_of_def)
  show ?thesis
    using stored row assms(1)
    by (auto split: sum.split option.split intro!: resume_ok_no_change task_ok_after_duplicate)
qed

lemma resume_update:
  assumes "db_ok db" "\<And>q. mr_id (f q) = mr_id q" "\<And>q. row_grows q (f q)"
    and "\<And>q. find_price i db = Some q \<Longrightarrow> mr_status (f q) = MS_APPROVED
           \<Longrightarrow> mr_requiredSignatures (f q) \<le> mr_collectedSignatures (f q)"
    and "\<And>q. find_price i db = Some q \<Longrightarrow> task_ok (put_price (f q) db) (g (f q))" "\<And>r j. \<not> is_count j (g r)"
    and "\<And>q. mr_collectedSignatures (f q) - mr_collectedSignatures q \<le> of_bool (is_count i t)"
    and "update_price f i db = Some (r, db')"
  shows "resume_ok t db (g r, db', [])"
proof -
  obtain q where q: "find_price i db = Some q" "r = f q" "db' = put_price (f q) db" "mr_id q = i"
    using update_priceD [OF assms(8)] assms(1) by (auto simp: db_ok_def)
  show ?thesis unfolding q(2,3)
    by (rule resume_ok_put [OF assms(1) q(1)]) (use assms(2-7) q in auto)
qed

lemma resume_submit:
  assumes "db_ok db" "task_ok db (T_submit r sigs k)"
  shows "resume_ok (T_submit r sigs k) db (ms_resume cfg e (T_submit r sigs k) db)"
proof -
  have "sub_ok db \<lparr>sb_priceId = mr_id r, sb_currency = mr_currency r, sb_rate = mr_rate r,
      sb_memoId = memo_for r, sb_signatures = sigs\<rparr>"
    using assms(2) by (auto simp: sub_ok_def quorum_sigs_def row_of_def row_grows_def getSignatures_def)
  then show ?thesis
    using assms by (auto simp: submit_price_def Let_def resume_ok_def is_count_def [of _ "T_record _ _ _ _"]
        is_count_def [of _ "T_submit _ _ _"] task_ok_after_fails split: sum.split)
qed


lemma resume_all:
  assumes ok: "db_ok db" "task_ok db t" and b: "\<And>i. balance i db \<ge> 0"
  shows "resume_ok t db (ms_resume cfg e t db)"
proof (cases t)
  case (T_expire origin i)
  have "resume_ok t db (ms_fail origin m, db', [])"
    if "update_price (\<lambda>r. r\<lparr>mr_status := MS_EXPIRED\<rparr>) i db = Some (r, db')" for m r db'
    by (rule resume_update [OF ok(1) _ _ _ _ _ _ that, where g = "\<lambda>_. ms_fail origin m"])
      (auto simp: row_grows_def)
  then show ?thesis using ok T_expire by (auto split: option.split intro!: resume_ok_no_change)
next
  case (T_count origin i s)
  let ?f = "\<lambda>r. r\<lparr>mr_collectedSignatures := mr_collectedSignatures r + 1\<rparr>"
  have "resume_ok t db (after_count cfg origin r s, db', [])" if "update_price ?f i db = Some (r, db')" for r db'
    by (rule resume_update [OF ok(1) _ _ _ _ _ _ that, where g = "\<lambda>r. after_count cfg origin r s"])
      (use db_okD [OF ok(1)] in \<open>auto simp: row_grows_def row_of_def T_count intro!: task_ok_after_count
          intro: add_increasing2\<close>)
  then show ?thesis using ok T_count by (auto split: option.split intro!: resume_ok_no_change)
next
  case (T_approve origin r s)
  let ?f = "\<lambda>q. q\<lparr>mr_status := MS_APPROVED\<rparr>"
  obtain q where q: "find_price (mr_id r) db = Some q" "row_grows r q" "mr_requiredSignatures r \<le> mr_collectedSignatures r"
    using ok(2) by (auto simp: T_approve quorum_row_def row_of_def)
  have "resume_ok t db (after_approve cfg origin r s, db', [])" if "update_price ?f (mr_id r) db = Some (p, db')" for p db'
    by (rule resume_update [OF ok(1) _ _ _ _ _ _ that, where g = "\<lambda>_. after_approve cfg origin r s"])
      (use q db_okD [OF ok(1)] in \<open>auto simp: row_grows_def row_of_def quorum_row_def intro!: task_ok_after_approve\<close>)
  then show ?thesis using ok T_approve by (auto split: option.split intro!: resume_ok_no_change)
next
  case (T_record r memo h k)
  let ?f = "\<lambda>now q. q\<lparr>mr_memoId := Some memo, mr_stellarTxHash := Some h, mr_submittedAt := Some now\<rparr>"
  have grows: "db_grows db (put_price (?f now q) db)" if "find_price (mr_id r) db = Some q" for now q
    by (rule put_price_grows [OF that]) (use db_okD [OF ok(1) that] in \<open>auto simp: row_grows_def\<close>)
  have "resume_ok t db (T_mark r memo h k, db', [])" if "update_price (?f now) (mr_id r) db = Some (p, db')" for now p db'
    by (rule resume_update [OF ok(1) _ _ _ _ _ _ that, where g = "\<lambda>_. T_mark r memo h k"])
      (use ok(2) grows db_okD [OF ok(1)] in \<open>auto simp: T_record row_grows_def intro: after_ok_mono\<close>)
  then show ?thesis using ok T_record by (auto split: option.split intro!: resume_ok_no_change task_ok_after_fails)
next
  case (T_mark r memo h k)
  let ?db = "db\<lparr>md_reviews := (md_reviews db)(mr_priceReviewId r \<mapsto> (memo, h))\<rparr>"
  have "db_grows db ?db" "db_ok ?db" "\<And>i. balance i ?db = balance i db"
    using ok(1) by (auto simp: db_grows_def db_ok_def keyed_def unique_signers_def approved_ok_def balance_def)
  then have "resume_ok t db ((case k of Answer q \<Rightarrow> T_done (Collected q True (Some h)) | Continue rest \<Rightarrow> T_polling rest), ?db, [])"
    using ok(2) after_ok_mono [of db ?db k] by (cases k) (auto simp: resume_ok_def T_mark)
  then show ?thesis
    using ok unfolding T_mark by (auto split: option.split intro!: resume_ok_no_change task_ok_after_fails)
next
  case (T_load r)
  then show ?thesis
    using ok b quorum_sigs_all by (auto split: option.split intro!: resume_ok_no_change)
next
  case T_poll
  then show ?thesis
    using ok b approved_unsubmitted_ok
    by (auto split: option.split intro!: resume_ok_no_change task_ok_next_polled)
next
  case (T_polling rest)
  then show ?thesis using ok by (auto intro!: resume_ok_no_change task_ok_next_polled)
qed (use ok resume_find resume_store resume_submit in \<open>auto intro!: resume_ok_no_change\<close>)

section \<open>Reachable states\<close>

definition ms_inv :: "ms_system \<Rightarrow> bool" where
  "ms_inv s \<longleftrightarrow> db_ok (sy_db s) \<and> list_all (task_ok (sy_db s)) (sy_tasks s) \<and> balanced (sy_db s) (sy_tasks s)
     \<and> list_all (sub_ok (sy_db s)) (sy_submissions s)"

lemma balanced_nonneg: "balanced db ts \<Longrightarrow> balance i db \<ge> 0"
  unfolding balanced_def by (meson of_nat_0_le_iff order_trans)

lemma spawn_inv: "ms_inv s \<Longrightarrow> task_ok (sy_db s) t \<Longrightarrow> (\<And>i. \<not> is_count i t) \<Longrightarrow> ms_inv (spawn t s)"
  by (auto simp: ms_inv_def spawn_def balanced_def pending_counts_def)

lemma grow_inv:
  assumes "ms_inv s" "db_grows (sy_db s) db" "db_ok db" "\<And>i. balance i db \<ge> balance i (sy_db s)"
  shows "ms_inv (s\<lparr>sy_db := db\<rparr>)"
  using assms task_ok_mono [OF assms(2)] sub_ok_mono [OF assms(2)]
  by (auto simp: ms_inv_def list_all_iff balanced_def intro: order_trans)

lemma run_inv:
  assumes "ms_inv s" "n < length (sy_tasks s)" "ms_resume cfg e (sy_tasks s ! n) (sy_db s) = (t, db, subs)"
  shows "ms_inv (s\<lparr>sy_db := db, sy_tasks := (sy_tasks s)[n := t], sy_submissions := sy_submissions s @ subs\<rparr>)"
proof -
  have ok: "db_ok (sy_db s)" "task_ok (sy_db s) (sy_tasks s ! n)"
    using assms(1,2) by (auto simp: ms_inv_def list_all_length)
  have "balance i (sy_db s) \<ge> 0" for i using assms(1) balanced_nonneg by (auto simp: ms_inv_def)
  from resume_all [OF ok this, where cfg = cfg and e = e] assms(3)
  have r: "resume_ok (sy_tasks s ! n) (sy_db s) (t, db, subs)" by simp
  then have g: "db_grows (sy_db s) db" by (simp add: resume_ok_def)
  have "balanced db ((sy_tasks s)[n := t])"
    unfolding balanced_def
  proof
    fix i
    have "int (pending_counts i (sy_tasks s)) \<le> balance i (sy_db s)"
      using assms(1) by (simp add: ms_inv_def balanced_def)
    moreover have "balance i (sy_db s) + of_bool (is_count i t) - of_bool (is_count i (sy_tasks s ! n)) \<le> balance i db"
      using r by (simp add: resume_ok_def)
    ultimately show "int (pending_counts i ((sy_tasks s)[n := t])) \<le> balance i db"
      using pending_counts_update [OF assms(2), of i t] by linarith
  qed
  moreover have "list_all (task_ok db) ((sy_tasks s)[n := t])"
    using assms(1) r task_ok_mono [OF g] set_update_subset_insert [of "sy_tasks s" n t]
    by (auto simp: ms_inv_def list_all_iff resume_ok_def)
  ultimately show ?thesis
    using assms(1) r sub_ok_mono [OF g] by (auto simp: ms_inv_def resume_ok_def list_all_iff)
qed


lemma create_inv:
  assumes "ms_inv s" "createMultiSigRequest cfg now review currency rate source memo (sy_db s) = (i, db)"
  shows "ms_inv (s\<lparr>sy_db := db\<rparr>)"
proof -
  let ?old = "sy_db s"
  obtain r where db: "db = (put_price r ?old)\<lparr>md_nextId := md_nextId ?old + 1\<rparr>"
    and r: "mr_id r = md_nextId ?old" "mr_status r = MS_PENDING" "mr_collectedSignatures r = 0"
    using assms(2) by (auto simp: createMultiSigRequest_def Let_def)
  have k: "keyed ?old" "db_ok ?old" using assms(1) by (auto simp: ms_inv_def db_ok_def)
  have new: "find_price (md_nextId ?old) ?old = None"
    using keyedD [OF k(1)] by (cases "find_price (md_nextId ?old) ?old") auto
  have "db_grows ?old db" using new by (auto simp: db_grows_def db r(1))
  moreover have find: "find_price j db = (if j = md_nextId ?old then Some r else find_price j ?old)" for j
    by (simp add: db r(1))
  have "keyed db"
    unfolding keyed_def find
    using keyedD [OF k(1)] k(1) r(1) by (fastforce simp: db keyed_def put_price_def jm_distinct_set split: if_splits)
  then have "db_ok db"
    using k(2) r db_okD(2) [OF k(2)] unfolding db_ok_def approved_ok_def find
    by (auto simp: db unique_signers_def split: if_splits)
  moreover have "balance j ?old \<le> balance j db" for j
    using new r by (simp add: balance_def find) (simp add: db)
  ultimately show ?thesis using grow_inv [OF assms(1)] by blast
qed

lemma cleanup_find:
  "find_price i (snd (cleanupExpiredRequests now db))
     = map_option (\<lambda>r. if is_stale now r then r\<lparr>mr_status := MS_EXPIRED\<rparr> else r) (find_price i db)"
proof -
  have "map_of (map (\<lambda>(i, r). (i, f r)) xs) i = map_option f (map_of xs i)" for f and xs :: "(int \<times> ms_row) list"
    by (induction xs) auto
  then show ?thesis by (simp add: cleanupExpiredRequests_def find_price_def)
qed

lemma cleanup_inv:
  assumes "ms_inv s" "cleanupExpiredRequests now (sy_db s) = (n, db)"
  shows "ms_inv (s\<lparr>sy_db := db\<rparr>)"
proof -
  let ?old = "sy_db s"
  have db: "db = snd (cleanupExpiredRequests now ?old)" by (simp add: assms(2))
  note find = cleanup_find [of _ now ?old, folded db]
  have sigs: "md_signatures db = md_signatures ?old" "md_nextId db = md_nextId ?old"
    "jm_keys (md_prices db) = jm_keys (md_prices ?old)"
    by (simp_all add: db cleanupExpiredRequests_def comp_def case_prod_unfold)
  have k: "db_ok ?old" using assms(1) by (simp add: ms_inv_def)
  have "db_grows ?old db" by (auto simp: db_grows_def find row_grows_def sigs)
  moreover have "db_ok db"
    using k by (auto simp: db_ok_def keyed_def unique_signers_def approved_ok_def find sigs)
  moreover have "balance j db = balance j ?old" for j
    by (auto simp: balance_def find getSignatures_def sigs split: option.split)
  ultimately show ?thesis using grow_inv [OF assms(1)] by simp
qed

lemma ms_step_inv: "ms_step cfg s s' \<Longrightarrow> ms_inv s \<Longrightarrow> ms_inv s'"
proof (induction rule: ms_step.induct)
  case (run n s e t db subs)
  then show ?case using run_inv by blast
next
  case (create now review currency rate source memo s i db)
  then show ?case using create_inv by blast
next
  case (cleanup now s n db)
  then show ?case using cleanup_inv by blast
qed (auto intro!: spawn_inv simp: collectSignature_def signMultiSigPrice_def requestRemoteSignature_def
    checkAndSubmitApprovedPrices_def split: option.split)

lemma reachable_inv: "ms_reachable cfg s \<Longrightarrow> ms_inv s"
proof (induction rule: ms_reachable.induct)
  case init
  show ?case
    by (simp add: ms_init_def ms_inv_def db_ok_def keyed_def find_price_def unique_signers_def approved_ok_def
        balanced_def pending_counts_def balance_def getSignatures_def)
next
  case (step s s')
  then show ?case using ms_step_inv by blast
qed

text \<open>
  C1. No interleaving of requests, pollers, expirations and database failures approves a price
  without a quorum: in every reachable state, a price whose status is approved has stored signatures
  of at least as many different signers as it requires, and the stored count never exceeds the number
  of stored signatures.
\<close>
theorem approved_has_quorum:
  assumes "ms_reachable cfg s" "find_price i (sy_db s) = Some r"
  shows "mr_collectedSignatures r \<le> int (length (getSignatures i (sy_db s)))
    \<and> (mr_status r = MS_APPROVED \<longrightarrow>
        mr_requiredSignatures r \<le> int (card (sg_signerPublicKey ` set (getSignatures i (sy_db s)))))"
proof -
  have inv: "ms_inv s" by (rule reachable_inv [OF assms(1)])
  then have "balance i (sy_db s) \<ge> 0" using balanced_nonneg by (auto simp: ms_inv_def)
  moreover have "card (sg_signerPublicKey ` set (getSignatures i (sy_db s))) = length (getSignatures i (sy_db s))"
    using inv by (intro card_signers) (simp add: ms_inv_def db_ok_def)
  ultimately show ?thesis
    using inv db_okD(2) [of "sy_db s" i r] assms(2) by (auto simp: ms_inv_def balance_def)
qed

text \<open>
  C10. Whatever the interleaving, every transaction that was submitted to Stellar, by a collecting
  request or by the poller, carried signatures of at least as many different signers as the price
  requires, each of them stored for that price.
\<close>
theorem submissions_carry_quorum:
  assumes "ms_reachable cfg s" "sub \<in> set (sy_submissions s)"
  shows "\<exists>r. find_price (sb_priceId sub) (sy_db s) = Some r
    \<and> mr_requiredSignatures r \<le> int (card (sg_signerPublicKey ` set (sb_signatures sub)))
    \<and> set (sb_signatures sub) \<subseteq> set (getSignatures (sb_priceId sub) (sy_db s))"
  using reachable_inv [OF assms(1)] assms(2) by (auto simp: ms_inv_def list_all_iff sub_ok_def)


section \<open>Concrete runs\<close>

datatype ms_move =
    M_create int
  | M_collect int string string
  | M_remote int
  | M_poll
  | M_cleanup int
  | M_run nat ms_env

definition ms_run_task :: "ms_config \<Rightarrow> nat \<Rightarrow> ms_env \<Rightarrow> ms_system \<Rightarrow> ms_system" where
  "ms_run_task cfg n e s =
     (if n < length (sy_tasks s)
      then case ms_resume cfg e (sy_tasks s ! n) (sy_db s) of (t, db, subs) \<Rightarrow>
        s\<lparr>sy_db := db, sy_tasks := (sy_tasks s)[n := t], sy_submissions := sy_submissions s @ subs\<rparr>
      else s)"

fun ms_move_to :: "ms_config \<Rightarrow> ms_move \<Rightarrow> ms_system \<Rightarrow> ms_system" where
  "ms_move_to cfg (M_create now) s =
     s\<lparr>sy_db := snd (createMultiSigRequest cfg now 7 ''NGN'' ''1500.5'' ''CoinGecko'' ''SF-1'' (sy_db s))\<rparr>"
| "ms_move_to cfg (M_collect i sig key) s = spawn (collectSignature i (Some sig) (Some key) None) s"
| "ms_move_to cfg (M_remote i) s = spawn (requestRemoteSignature i) s"
| "ms_move_to cfg M_poll s = spawn checkAndSubmitApprovedPrices s"
| "ms_move_to cfg (M_cleanup now) s = s\<lparr>sy_db := snd (cleanupExpiredRequests now (sy_db s))\<rparr>"
| "ms_move_to cfg (M_run n e) s = ms_run_task cfg n e s"

definition ms_play :: "ms_config \<Rightarrow> ms_move list \<Rightarrow> ms_system" where
  "ms_play cfg ms = fold (ms_move_to cfg) ms ms_init"

lemma ms_move_reachable: "ms_reachable cfg s \<Longrightarrow> ms_reachable cfg (ms_move_to cfg m s)"
proof (cases m)
  case (M_run n e)
  assume s: "ms_reachable cfg s"
  then show ?thesis
    using ms_step.run [of n s cfg e]
    by (auto simp: M_run ms_run_task_def split: prod.split intro: ms_reachable.step)
qed (auto intro: ms_reachable.step ms_step.intros prod.collapse [symmetric])

lemma ms_play_reachable: "ms_reachable cfg (ms_play cfg ms)"
proof -
  have "ms_reachable cfg s \<Longrightarrow> ms_reachable cfg (fold (ms_move_to cfg) ms s)" for s
    by (induction ms arbitrary: s) (auto intro: ms_move_reachable)
  then show ?thesis unfolding ms_play_def using ms_reachable.init by blast
qed

definition example_ms_config :: ms_config where
  "example_ms_config = new_MultiSigService None (Some 1) ''GLOCAL''"

definition example_ms_env :: ms_env where
  "example_ms_env = \<lparr>me_now = 10, me_allowed = Inr (), me_sign = (\<lambda>_. Inr ''ab''),
     me_remote = Inr \<lparr>rs_success = Some True, rs_error = None, rs_signature = Some ''cd'',
       rs_signerPublicKey = Some ''GREMOTE'', rs_signerName = None\<rparr>,
     me_submit = Inr ''tx'', me_dbFails = None, me_lockdown = False\<rparr>"

text \<open>A request is collected up to its approval; then the poller or the request itself submits.\<close>

definition example_collect_moves :: "ms_move list" where
  "example_collect_moves = [M_create 0, M_collect 1 ''ab'' ''GA''] @ replicate 4 (M_run 0 example_ms_env)"

lemma example_approved:
  "ms_play example_ms_config example_collect_moves =
     \<lparr>sy_db = \<lparr>md_prices = [(1, \<lparr>mr_id = 1, mr_priceReviewId = 7, mr_currency = ''NGN'', mr_rate = ''1500.5'',
          mr_source = ''CoinGecko'', mr_memoId = Some ''SF-1'', mr_status = MS_APPROVED, mr_requiredSignatures = 1,
          mr_collectedSignatures = 1, mr_requestedAt = 0, mr_expiresAt = SIGNATURE_EXPIRY_MS, mr_stellarTxHash = None,
          mr_submittedAt = None\<rparr>)],
        md_signatures = [\<lparr>sg_multiSigPriceId = 1, sg_signerPublicKey = ''GA'', sg_signerName = ''external-signer'',
          sg_signature = ''ab''\<rparr>], md_nextId = 2, md_reviews = Map.empty\<rparr>,
      sy_tasks = [T_load \<lparr>mr_id = 1, mr_priceReviewId = 7, mr_currency = ''NGN'', mr_rate = ''1500.5'',
          mr_source = ''CoinGecko'', mr_memoId = Some ''SF-1'', mr_status = MS_PENDING, mr_requiredSignatures = 1,
          mr_collectedSignatures = 1, mr_requestedAt = 0, mr_expiresAt = SIGNATURE_EXPIRY_MS, mr_stellarTxHash = None,
          mr_submittedAt = None\<rparr>],
      sy_submissions = []\<rparr>"
  by (simp add: ms_play_def example_collect_moves_def example_ms_config_def example_ms_env_def new_MultiSigService_def
      ms_init_def createMultiSigRequest_def put_price_def spawn_def collectSignature_def ms_run_task_def
      begin_handler_def find_price_def no_change_def obtain_signature_def create_signature_def update_price_def
      after_count_def after_approve_def numeral_eq_Suc SIGNATURE_EXPIRY_MS_def Let_def)


text \<open>The witness: the approved price of this run has one signer, which it requires.\<close>
theorem approved_has_quorum_witness:
  "\<exists>r. find_price 1 (sy_db (ms_play example_ms_config example_collect_moves)) = Some r \<and> mr_status r = MS_APPROVED
     \<and> mr_requiredSignatures r
         \<le> int (card (sg_signerPublicKey ` set (getSignatures 1 (sy_db (ms_play example_ms_config example_collect_moves)))))"
proof -
  have "\<exists>r. find_price 1 (sy_db (ms_play example_ms_config example_collect_moves)) = Some r \<and> mr_status r = MS_APPROVED"
    by (simp add: example_approved find_price_def)
  then show ?thesis using approved_has_quorum [OF ms_play_reachable] by blast
qed

definition example_submit_moves :: "ms_move list" where
  "example_submit_moves = example_collect_moves @ [M_poll, M_run 1 example_ms_env, M_run 1 example_ms_env,
     M_run 0 example_ms_env, M_run 0 example_ms_env]"

lemma ms_play_append: "ms_play cfg (xs @ ys) = fold (ms_move_to cfg) ys (ms_play cfg xs)"
  by (simp add: ms_play_def)

text \<open>
  Here the poller finds the price that the collecting request has approved and not yet submitted, so
  the price is submitted twice: once by the poller and once by the request.
\<close>
lemma example_submitted:
  "map sb_priceId (sy_submissions (ms_play example_ms_config example_submit_moves)) = [1, 1]"
  by (simp add: example_submit_moves_def ms_play_append example_approved spawn_def ms_run_task_def
      checkAndSubmitApprovedPrices_def example_ms_env_def no_change_def approved_unsubmitted_def getSignatures_def
      submit_price_def Let_def)

text \<open>The witness: both submissions of this run carry the signer that the price requires.\<close>
theorem submissions_carry_quorum_witness:
  "sy_submissions (ms_play example_ms_config example_submit_moves) \<noteq> []
   \<and> (\<exists>r. find_price 1 (sy_db (ms_play example_ms_config example_submit_moves)) = Some r
       \<and> mr_requiredSignatures r \<le> int (card (sg_signerPublicKey `
           set (sb_signatures (hd (sy_submissions (ms_play example_ms_config example_submit_moves)))))))"
proof -
  let ?s = "ms_play example_ms_config example_submit_moves"
  have ne: "sy_submissions ?s \<noteq> []" using example_submitted by force
  then have "hd (sy_submissions ?s) \<in> set (sy_submissions ?s)" by simp
  moreover have "sb_priceId (hd (sy_submissions ?s)) = 1"
    using example_submitted ne by (metis hd_map list.sel(1))
  ultimately show ?thesis using submissions_carry_quorum [OF ms_play_reachable] ne by metis
qed

text \<open>
  The remote handler checks neither the status nor the expiry of the price: a price that has expired
  is approved by a remote signature.
\<close>
lemma expired_price_approved:
  "map (mr_status \<circ> snd) (md_prices (sy_db (ms_play example_ms_config
     ([M_create 0, M_cleanup (SIGNATURE_EXPIRY_MS + 1)])))) = [MS_EXPIRED]"
  "map (mr_status \<circ> snd) (md_prices (sy_db (ms_play example_ms_config
     ([M_create 0, M_cleanup (SIGNATURE_EXPIRY_MS + 1), M_remote 1] @ replicate 4 (M_run 0 example_ms_env))))) = [MS_APPROVED]"
  by (simp_all add: ms_play_def example_ms_config_def example_ms_env_def new_MultiSigService_def
      ms_init_def createMultiSigRequest_def cleanupExpiredRequests_def is_stale_def put_price_def spawn_def
      requestRemoteSignature_def ms_run_task_def
      begin_handler_def find_price_def no_change_def obtain_signature_def create_signature_def update_price_def
      after_count_def after_approve_def numeral_eq_Suc SIGNATURE_EXPIRY_MS_def Let_def)

end
