(* ===== verification/ExecutionScheduler.thy ===== *)
theory ExecutionScheduler
  imports Prelude
begin

text \<open>
  \<open>src/services/governanceExecutionScheduler.ts\<close>: the choice of an execution slot that avoids the
  maintenance windows, and the task pushed to the execution queue.  A date is its time in
  milliseconds; the text of the queued task is the task itself, and the queue is a list per key whose
  head is the entry pushed last.

  The search is a loop without a bound: it ends because every window that blocks the candidate ends
  after it, and it finds the earliest free slot.
\<close>

record maintenance_window =
  mw_start :: int
  mw_end :: int
  mw_reason :: "string option"

record availability_window =
  aw_start :: int
  aw_end :: int
  aw_blockedByMaintenance :: bool
  aw_reason :: "string option"
  aw_maintenanceWindow :: "maintenance_window option"

record scheduled_execution =
  se_proposalId :: string
  se_scheduledFor :: int
  se_executionWindow :: availability_window
  se_maintenanceWindows :: "maintenance_window list"
  se_queueKey :: string
  se_createdAt :: int

section \<open>The search\<close>

definition blocks :: "int \<Rightarrow> int \<Rightarrow> maintenance_window \<Rightarrow> bool" where
  "blocks durationMs candidateStart w \<longleftrightarrow> candidateStart < mw_end w \<and> candidateStart + durationMs > mw_start w"

lemma filter_shrinks:
  "w \<in> set ws \<Longrightarrow> P w \<Longrightarrow> \<not> Q w \<Longrightarrow> (\<And>v. Q v \<Longrightarrow> P v) \<Longrightarrow> length (filter Q ws) < length (filter P ws)"
proof (induction ws)
  case (Cons v ws)
  have "length (filter Q ws) \<le> length (filter P ws)"
    using Cons.prems(4) by (induction ws) auto
  then show ?case using Cons by auto
qed simp

function slot_loop ::
  "maintenance_window list \<Rightarrow> int \<Rightarrow> int \<Rightarrow> bool \<Rightarrow> maintenance_window option \<Rightarrow> availability_window" where
  "slot_loop ws durationMs candidateStart blocked matched =
     (case List.find (blocks durationMs candidateStart) ws of
        None \<Rightarrow> \<lparr>aw_start = candidateStart, aw_end = candidateStart + durationMs,
                 aw_blockedByMaintenance = blocked,
                 aw_reason = (case matched of Some w \<Rightarrow> mw_reason w | None \<Rightarrow> None),
                 aw_maintenanceWindow = matched\<rparr>
      | Some w \<Rightarrow> slot_loop ws durationMs (max candidateStart (mw_end w)) True (Some w))"
  by pat_completeness auto
termination
  by (relation "measure (\<lambda>(ws, d, c, b, m). length (filter (\<lambda>w. c < mw_end w) ws))")
    (auto simp: find_Some_iff blocks_def intro!: filter_shrinks)

declare slot_loop.simps [simp del]

definition findNextAvailableSlot :: "int \<Rightarrow> maintenance_window list \<Rightarrow> int \<Rightarrow> availability_window" where
  "findNextAvailableSlot requestedAt windows durationMinutes =
     slot_loop (sort_key mw_start windows) (durationMinutes * 60 * 1000) requestedAt False None"

text \<open>\<open>None\<close> stands for an argument that is not given; without a client nothing is queued.\<close>

definition scheduleProposalExecution ::
  "string \<Rightarrow> int \<Rightarrow> maintenance_window list option \<Rightarrow> int option \<Rightarrow> string option \<Rightarrow> int \<Rightarrow> bool
     \<Rightarrow> (string \<Rightarrow> scheduled_execution list) \<Rightarrow> scheduled_execution \<times> (string \<Rightarrow> scheduled_execution list)" where
  "scheduleProposalExecution proposalId scheduledFor windows durationMinutes queueKey now client queues =
     (let ws = (case windows of Some w \<Rightarrow> w | None \<Rightarrow> []);
          minutes = (case durationMinutes of Some d \<Rightarrow> d | None \<Rightarrow> 30);
          key = (case queueKey of Some k \<Rightarrow> k | None \<Rightarrow> ''governance:execution:queue'');
          slot = findNextAvailableSlot scheduledFor ws minutes;
          task = \<lparr>se_proposalId = proposalId, se_scheduledFor = aw_start slot, se_executionWindow = slot,
                  se_maintenanceWindows = ws, se_queueKey = key, se_createdAt = now\<rparr> in
      (task, if client then queues(key := task # queues key) else queues))"

section \<open>The earliest free slot\<close>

lemma slot_loop_spec:
  "c \<le> aw_start (slot_loop ws d c b m)
   \<and> aw_end (slot_loop ws d c b m) = aw_start (slot_loop ws d c b m) + d
   \<and> (\<forall>w \<in> set ws. \<not> blocks d (aw_start (slot_loop ws d c b m)) w)
   \<and> (\<forall>t. c \<le> t \<and> t < aw_start (slot_loop ws d c b m) \<longrightarrow> (\<exists>w \<in> set ws. blocks d t w))
   \<and> (aw_blockedByMaintenance (slot_loop ws d c b m) \<longleftrightarrow> b \<or> (\<exists>w \<in> set ws. blocks d c w))"
proof (induction ws d c b m rule: slot_loop.induct)
  case (1 ws d c b m)
  show ?case
  proof (cases "List.find (blocks d c) ws")
    case None
    then have "\<not> blocks d c w" if "w \<in> set ws" for w using that by (auto simp: find_None_iff)
    then show ?thesis by (auto simp: slot_loop.simps [of ws d c b m] None)
  next
    case (Some w)
    let ?c = "max c (mw_end w)"
    have w: "w \<in> set ws" "blocks d c w" using Some by (auto simp: find_Some_iff)
    have eq: "slot_loop ws d c b m = slot_loop ws d ?c True (Some w)"
      by (simp add: slot_loop.simps [of ws d c b m] Some)
    have "blocks d t w" if "c \<le> t" "t < ?c" for t using w(2) that by (auto simp: blocks_def)
    then show ?thesis
      using "1.IH" [OF Some] w unfolding eq by (metis max.bounded_iff not_le)
  qed
qed

lemma blocks_order: "(\<forall>w \<in> set (sort_key f ws). P w) = (\<forall>w \<in> set ws. P w)" "(\<exists>w \<in> set (sort_key f ws). P w) = (\<exists>w \<in> set ws. P w)"
  by simp_all

text \<open>
  C35. The search for an execution slot ends for every list of maintenance windows, overlapping,
  nested or inverted ones included, and returns the earliest slot of the duration that starts at or
  after the requested time and meets no maintenance window: the slot is free, every earlier start is
  blocked by a window, and the slot is reported as moved exactly when the requested time was blocked.
\<close>
theorem earliest_free_slot:
  fixes requestedAt minutes :: int and windows
  defines "s \<equiv> findNextAvailableSlot requestedAt windows minutes"
  shows "requestedAt \<le> aw_start s \<and> aw_end s = aw_start s + minutes * 60 * 1000
    \<and> (\<forall>w \<in> set windows. mw_end w \<le> aw_start s \<or> aw_end s \<le> mw_start w)
    \<and> (\<forall>t. requestedAt \<le> t \<and> t < aw_start s \<longrightarrow>
         (\<exists>w \<in> set windows. t < mw_end w \<and> mw_start w < t + minutes * 60 * 1000))
    \<and> (aw_blockedByMaintenance s \<longleftrightarrow> requestedAt < aw_start s)"
proof -
  note spec = slot_loop_spec [of requestedAt "sort_key mw_start windows" "minutes * 60 * 1000" False None,
      folded findNextAvailableSlot_def s_def, unfolded blocks_order]
  have "requestedAt < aw_start s" if "\<exists>w \<in> set windows. blocks (minutes * 60 * 1000) requestedAt w"
    using that spec by (metis order_le_imp_less_or_eq)
  then show ?thesis using spec by (auto simp: blocks_def not_less)
qed

text \<open>The witness: two windows that touch, a request inside the first.\<close>
theorem earliest_free_slot_witness:
  "let s = findNextAvailableSlot 5 [\<lparr>mw_start = 0, mw_end = 10, mw_reason = None\<rparr>, \<lparr>mw_start = 10, mw_end = 20, mw_reason = None\<rparr>] 1 in
   aw_start s = 20 \<and> aw_blockedByMaintenance s"
proof -
  let ?ws = "[\<lparr>mw_start = 0, mw_end = 10, mw_reason = None\<rparr>, \<lparr>mw_start = 10, mw_end = 20, mw_reason = None\<rparr>]"
  let ?s = "findNextAvailableSlot 5 ?ws 1"
  note e = earliest_free_slot [of 5 ?ws 1]
  have "20 \<le> aw_start ?s" using e by auto
  moreover have "\<not> 20 < aw_start ?s" using e by (auto dest!: spec [of _ 20])
  ultimately show ?thesis using e by (simp add: Let_def)
qed

end
