(* ===== verification/NonceStore.thy ===== *)
theory NonceStore
  imports JSString
begin

text \<open>
  \<open>src/services/nonceStoreService.ts\<close>: the anti-replay store.  A nonce is reserved in Redis with
  \<open>SET NX EX\<close>, or, without Redis, in a set of this process from which a timer removes it.  SHA-256 is
  a parameter.  Time is an argument: a Redis key is there until its expiry, and a timer fires at or
  after its due time (\<open>fire_timer\<close>).

  The lemmas: keys of different clients or nonces differ, and a nonce that is not invalidated is
  accepted at most once per time to live, over any history of requests, invalidations and timers.
\<close>

section \<open>Keys\<close>

definition NONCE_TTL_SECONDS :: int where "NONCE_TTL_SECONDS = 300"

record nonce_store =
  ns_ttlSeconds :: int
  ns_inMemoryStore :: "string list"
  ns_timers :: "(int \<times> string) list"
  ns_redis :: "string \<rightharpoonup> int"

definition new_NonceStore :: "int option \<Rightarrow> nonce_store" where
  "new_NonceStore ttl = \<lparr>ns_ttlSeconds = (case ttl of Some t \<Rightarrow> t | None \<Rightarrow> NONCE_TTL_SECONDS),
     ns_inMemoryStore = [], ns_timers = [], ns_redis = Map.empty\<rparr>"

definition normalizeClientId :: "string option \<Rightarrow> (string, string) result" where
  "normalizeClientId clientId =
     (let v = js_trim (case clientId of Some c \<Rightarrow> c | None \<Rightarrow> []) in
      if v = [] then Inl ''Client ID is required to validate a nonce'' else Inr v)"

definition normalizeNonce :: "string option \<Rightarrow> (string, string) result" where
  "normalizeNonce nonce =
     (let v = js_trim (case nonce of Some c \<Rightarrow> c | None \<Rightarrow> []) in
      if v = [] then Inl ''Nonce value is required'' else Inr v)"

definition hashNonce :: "(string \<Rightarrow> bytes) \<Rightarrow> string option \<Rightarrow> string option \<Rightarrow> (string, string) result" where
  "hashNonce sha clientId nonce =
     rbind (normalizeClientId clientId) (\<lambda>c.
     rbind (normalizeNonce nonce) (\<lambda>n. Inr (hex (sha (c @ '':'' @ n)))))"

definition getRedisKey :: "(string \<Rightarrow> bytes) \<Rightarrow> string option \<Rightarrow> string option \<Rightarrow> (string, string) result" where
  "getRedisKey sha clientId nonce =
     rbind (normalizeClientId clientId) (\<lambda>c.
     rbind (hashNonce sha clientId nonce) (\<lambda>h. Inr (''anti-replay:'' @ c @ '':'' @ h)))"

section \<open>Operations\<close>

definition redis_has :: "int \<Rightarrow> string \<Rightarrow> nonce_store \<Rightarrow> bool" where
  "redis_has now key s = (case ns_redis s key of Some expiry \<Rightarrow> now < expiry | None \<Rightarrow> False)"

definition ttl_ms :: "nonce_store \<Rightarrow> int" where
  "ttl_ms s = ns_ttlSeconds s * 1000"

text \<open>The delay of a Node timer: outside 1 to 2147483647 milliseconds it is one millisecond.\<close>

definition timer_delay :: "int \<Rightarrow> int" where
  "timer_delay ms = (if 1 \<le> ms \<and> ms \<le> 2147483647 then ms else 1)"

definition consume_key :: "bool \<Rightarrow> int \<Rightarrow> string \<Rightarrow> nonce_store \<Rightarrow> bool \<times> nonce_store" where
  "consume_key redis now key s =
     (if \<not> redis then
        (if key \<in> set (ns_inMemoryStore s) then (False, s)
         else (True, s\<lparr>ns_inMemoryStore := ns_inMemoryStore s @ [key],
                       ns_timers := ns_timers s @ [(now + timer_delay (ttl_ms s), key)]\<rparr>))
      else if redis_has now key s then (False, s)
      else (True, s\<lparr>ns_redis := (ns_redis s)(key \<mapsto> now + ttl_ms s)\<rparr>))"

definition consume ::
  "(string \<Rightarrow> bytes) \<Rightarrow> bool \<Rightarrow> int \<Rightarrow> string option \<Rightarrow> string option \<Rightarrow> nonce_store
     \<Rightarrow> (string, bool) result \<times> nonce_store" where
  "consume sha redis now clientId nonce s = (case getRedisKey sha clientId nonce of
      Inl e \<Rightarrow> (Inl e, s)
    | Inr key \<Rightarrow> (case consume_key redis now key s of (ok, s') \<Rightarrow> (Inr ok, s')))"

definition verifyAndStore ::
  "(string \<Rightarrow> bytes) \<Rightarrow> bool \<Rightarrow> int \<Rightarrow> string option \<Rightarrow> string option \<Rightarrow> nonce_store
     \<Rightarrow> (string, bool) result \<times> nonce_store" where
  "verifyAndStore = consume"

definition hasSeenNonce ::
  "(string \<Rightarrow> bytes) \<Rightarrow> bool \<Rightarrow> int \<Rightarrow> string option \<Rightarrow> string option \<Rightarrow> nonce_store \<Rightarrow> (string, bool) result" where
  "hasSeenNonce sha redis now clientId nonce s =
     rbind (getRedisKey sha clientId nonce) (\<lambda>key.
       Inr (if \<not> redis then key \<in> set (ns_inMemoryStore s) else redis_has now key s))"

definition invalidate_key :: "bool \<Rightarrow> string \<Rightarrow> nonce_store \<Rightarrow> nonce_store" where
  "invalidate_key redis key s =
     (let s1 = s\<lparr>ns_inMemoryStore := filter (\<lambda>k. k \<noteq> key) (ns_inMemoryStore s)\<rparr> in
      if \<not> redis then s1 else s1\<lparr>ns_redis := (ns_redis s1)(key := None)\<rparr>)"

definition nonce_invalidate ::
  "(string \<Rightarrow> bytes) \<Rightarrow> bool \<Rightarrow> string option \<Rightarrow> string option \<Rightarrow> nonce_store \<Rightarrow> (string, unit) result \<times> nonce_store" where
  "nonce_invalidate sha redis clientId nonce s = (case getRedisKey sha clientId nonce of
      Inl e \<Rightarrow> (Inl e, s)
    | Inr key \<Rightarrow> (Inr (), invalidate_key redis key s))"

text \<open>The callback of the \<open>n\<close>-th pending timer, if it is due.\<close>

definition fire_timer :: "int \<Rightarrow> nat \<Rightarrow> nonce_store \<Rightarrow> nonce_store" where
  "fire_timer now n s =
     (if n < length (ns_timers s) \<and> fst (ns_timers s ! n) \<le> now
      then s\<lparr>ns_inMemoryStore := filter (\<lambda>k. k \<noteq> snd (ns_timers s ! n)) (ns_inMemoryStore s),
             ns_timers := take n (ns_timers s) @ drop (Suc n) (ns_timers s)\<rparr>
      else s)"

section \<open>Different requests have different keys\<close>

lemma getRedisKey_Inr:
  "getRedisKey sha c n = Inr k \<longleftrightarrow>
     (\<exists>c' n'. normalizeClientId c = Inr c' \<and> normalizeNonce n = Inr n'
        \<and> k = ''anti-replay:'' @ c' @ '':'' @ hex (sha (c' @ '':'' @ n')))"
  by (auto simp: getRedisKey_def hashNonce_def rbind_eq_Inr)

lemma key_parts:
  assumes "\<And>x. length (sha x) = 32"
    and "c @ '':'' @ hex (sha (c @ '':'' @ n)) = c' @ '':'' @ hex (sha (c' @ '':'' @ n'))"
  shows "c = c' \<and> sha (c @ '':'' @ n) = sha (c @ '':'' @ n')"
proof -
  have len: "length (hex (sha x)) = 64" for x by (simp add: length_hex assms(1))
  have "length c = length c'" using assms(2) [THEN arg_cong, of length] by (simp add: len)
  then have "c = c'" and "hex (sha (c @ '':'' @ n)) = hex (sha (c' @ '':'' @ n'))"
    using assms(2) by auto
  then show ?thesis by (metis unhex_hex)
qed

lemma redis_key_injective:
  assumes "\<And>x. length (sha x) = 32" "getRedisKey sha c n = Inr k" "getRedisKey sha c' n' = Inr k"
    and "\<And>x y. sha x = sha y \<Longrightarrow> x = y"
  shows "normalizeClientId c = normalizeClientId c' \<and> normalizeNonce n = normalizeNonce n'"
proof -
  obtain a b where a: "normalizeClientId c = Inr a" "normalizeNonce n = Inr b"
    "k = ''anti-replay:'' @ a @ '':'' @ hex (sha (a @ '':'' @ b))"
    using assms(2) by (auto simp: getRedisKey_Inr)
  obtain a' b' where b: "normalizeClientId c' = Inr a'" "normalizeNonce n' = Inr b'"
    "k = ''anti-replay:'' @ a' @ '':'' @ hex (sha (a' @ '':'' @ b'))"
    using assms(3) by (auto simp: getRedisKey_Inr)
  from a(3) b(3) have "a @ '':'' @ hex (sha (a @ '':'' @ b)) = a' @ '':'' @ hex (sha (a' @ '':'' @ b'))" by simp
  from key_parts [OF assms(1) this] have "a = a'" "sha (a @ '':'' @ b) = sha (a @ '':'' @ b')" by auto
  then show ?thesis using assms(4) [of "a @ '':'' @ b" "a @ '':'' @ b'"] a b by simp
qed

section \<open>Histories\<close>

text \<open>
  A request or an invalidation is one step: without Redis neither waits, with Redis each issues one
  command on the key, and what \<open>invalidate\<close> removes from the memory is not read while Redis is there.
  The log holds the key and the time of every acceptance.
\<close>

datatype nonce_event =
    N_consume int "string option" "string option"
  | N_invalidate int "string option" "string option"
  | N_fire int nat

fun event_time :: "nonce_event \<Rightarrow> int" where
  "event_time (N_consume t c n) = t"
| "event_time (N_invalidate t c n) = t"
| "event_time (N_fire t i) = t"

fun nonce_run :: "(string \<Rightarrow> bytes) \<Rightarrow> bool \<Rightarrow> nonce_event list \<Rightarrow> nonce_store \<Rightarrow> ((string, string) result \<times> int) list" where
  "nonce_run sha redis [] s = []"
| "nonce_run sha redis (N_fire t i # es) s = nonce_run sha redis es (fire_timer t i s)"
| "nonce_run sha redis (N_invalidate t c n # es) s = nonce_run sha redis es (snd (nonce_invalidate sha redis c n s))"
| "nonce_run sha redis (N_consume t c n # es) s =
     (let (answer, s') = consume sha redis t c n s in
      (if answer = Inr True then [(getRedisKey sha c n, t)] else []) @ nonce_run sha redis es s')"

fun event_invalidates :: "(string \<Rightarrow> bytes) \<Rightarrow> (string, string) result \<Rightarrow> nonce_event \<Rightarrow> bool" where
  "event_invalidates sha k (N_invalidate t c n) = (getRedisKey sha c n = k)"
| "event_invalidates sha k _ = False"

text \<open>An accepted nonce stays reserved for the time to live.\<close>

definition reserved :: "bool \<Rightarrow> int \<Rightarrow> string \<Rightarrow> int \<Rightarrow> nonce_store \<Rightarrow> bool" where
  "reserved redis now k t s \<longleftrightarrow> t + ttl_ms s \<le> now
     \<or> (if redis then \<exists>e. ns_redis s k = Some e \<and> t + ttl_ms s \<le> e
        else \<exists>d. (d, k) \<in> set (ns_timers s) \<and> t + ttl_ms s \<le> d)"

text \<open>A key that is not invalidated has one timer while it is in the memory and none otherwise.\<close>

definition key_timers :: "string \<Rightarrow> nonce_store \<Rightarrow> (int \<times> string) list" where
  "key_timers k s = filter (\<lambda>x. snd x = k) (ns_timers s)"

definition timer_ok :: "string \<Rightarrow> nonce_store \<Rightarrow> bool" where
  "timer_ok k s \<longleftrightarrow> length (key_timers k s) = (if k \<in> set (ns_inMemoryStore s) then 1 else 0)"

text \<open>The delay the timers really have is the time to live.\<close>

definition ttl_ok :: "bool \<Rightarrow> int \<Rightarrow> bool" where
  "ttl_ok redis ms \<longleftrightarrow> 0 < ms \<and> (redis \<or> ms \<le> 2147483647)"

lemma reserved_later: "reserved redis now k t s \<Longrightarrow> now \<le> now' \<Longrightarrow> reserved redis now' k t s"
  by (auto simp: reserved_def split: if_splits)

lemma key_timers_member: "(d, k) \<in> set (ns_timers s) \<longleftrightarrow> (d, k) \<in> set (key_timers k s)"
  by (auto simp: key_timers_def)

lemma timer_ok_member:
  assumes "timer_ok k s"
  shows "k \<in> set (ns_inMemoryStore s) \<longleftrightarrow> (\<exists>d. (d, k) \<in> set (ns_timers s))"
proof -
  have "(\<exists>d. (d, k) \<in> set (ns_timers s)) \<longleftrightarrow> key_timers k s \<noteq> []"
    by (fastforce simp: key_timers_def filter_empty_conv)
  then show ?thesis using assms by (auto simp: timer_ok_def split: if_splits)
qed

lemma fire_timer_split:
  assumes "n < length (ns_timers s)" "fst (ns_timers s ! n) \<le> now"
  obtains a x b where "ns_timers s = a @ x # b" "fst x \<le> now"
    "fire_timer now n s = s\<lparr>ns_inMemoryStore := filter (\<lambda>k. k \<noteq> snd x) (ns_inMemoryStore s), ns_timers := a @ b\<rparr>"
proof
  show "ns_timers s = take n (ns_timers s) @ ns_timers s ! n # drop (Suc n) (ns_timers s)"
    using assms(1) by (rule id_take_nth_drop)
qed (use assms in \<open>simp_all add: fire_timer_def\<close>)

lemma fire_timer_keeps:
  assumes "timer_ok k s" "reserved redis now k t s"
  shows "timer_ok k (fire_timer now n s) \<and> reserved redis now k t (fire_timer now n s)"
proof (cases "n < length (ns_timers s) \<and> fst (ns_timers s ! n) \<le> now")
  case True
  then obtain a x b where f: "ns_timers s = a @ x # b" "fst x \<le> now"
    "fire_timer now n s = s\<lparr>ns_inMemoryStore := filter (\<lambda>k. k \<noteq> snd x) (ns_inMemoryStore s), ns_timers := a @ b\<rparr>"
    using fire_timer_split by blast
  have "timer_ok k (fire_timer now n s)"
    using assms(1) by (auto simp: timer_ok_def key_timers_def f split: if_splits)
  moreover have "reserved redis now k t (fire_timer now n s)"
    using assms(2) f by (auto simp: reserved_def ttl_ms_def split: if_splits)
  ultimately show ?thesis by simp
next
  case False
  then have "fire_timer now n s = s" by (auto simp: fire_timer_def)
  then show ?thesis using assms by simp
qed

lemma nonce_ttl_unchanged [simp]:
  "ttl_ms (fire_timer now i s) = ttl_ms s"
  "ttl_ms (snd (consume_key redis now k s)) = ttl_ms s"
  "ttl_ms (snd (consume sha redis now c n s)) = ttl_ms s"
  "ttl_ms (snd (nonce_invalidate sha redis c n s)) = ttl_ms s"
  by (auto simp: fire_timer_def consume_key_def consume_def nonce_invalidate_def invalidate_key_def ttl_ms_def
      Let_def split: sum.splits)

lemma consume_key_keeps:
  assumes "timer_ok k s" "reserved redis now k t s" "ttl_ok redis (ttl_ms s)"
  shows "timer_ok k (snd (consume_key redis now k' s)) \<and> reserved redis now k t (snd (consume_key redis now k' s))"
  using assms by (auto simp: consume_key_def timer_ok_def key_timers_def reserved_def redis_has_def ttl_ms_def ttl_ok_def
      split: if_splits option.splits)

lemma consume_key_accepts:
  assumes "timer_ok k s" "fst (consume_key redis now k s)" "ttl_ok redis (ttl_ms s)"
  shows "reserved redis now k now (snd (consume_key redis now k s))"
    and "reserved redis now k t s \<Longrightarrow> t + ttl_ms s \<le> now"
proof -
  show "reserved redis now k now (snd (consume_key redis now k s))"
    using assms by (auto simp: consume_key_def reserved_def ttl_ms_def ttl_ok_def timer_delay_def split: if_splits)
  show "reserved redis now k t s \<Longrightarrow> t + ttl_ms s \<le> now"
    using assms(2) timer_ok_member [OF assms(1)]
    by (auto simp: consume_key_def reserved_def redis_has_def split: if_splits option.splits)
qed

lemma consume_whole:
  "consume sha redis t c n s = (case getRedisKey sha c n of Inl e \<Rightarrow> (Inl e, s)
     | Inr k \<Rightarrow> (Inr (fst (consume_key redis t k s)), snd (consume_key redis t k s)))"
  by (simp add: consume_def case_prod_beta split: sum.split)

lemma consume_keeps:
  assumes "timer_ok k s" "reserved redis now k t s" "ttl_ok redis (ttl_ms s)"
  shows "timer_ok k (snd (consume sha redis now c n s))" "reserved redis now k t (snd (consume sha redis now c n s))"
  using assms consume_key_keeps [OF assms] by (auto simp: consume_whole split: sum.split)

lemma nonce_invalidate_keeps:
  assumes "timer_ok k s" "reserved redis now k t s" "getRedisKey sha c n \<noteq> Inr k"
  shows "timer_ok k (snd (nonce_invalidate sha redis c n s))"
    "reserved redis now k t (snd (nonce_invalidate sha redis c n s))"
  using assms by (auto simp: nonce_invalidate_def invalidate_key_def timer_ok_def key_timers_def reserved_def ttl_ms_def
      Let_def split: sum.splits if_splits)

text \<open>The state after one event, and what the event adds to the log.\<close>

fun nonce_after :: "(string \<Rightarrow> bytes) \<Rightarrow> bool \<Rightarrow> nonce_event \<Rightarrow> nonce_store \<Rightarrow> nonce_store" where
  "nonce_after sha redis (N_fire t i) s = fire_timer t i s"
| "nonce_after sha redis (N_invalidate t c n) s = snd (nonce_invalidate sha redis c n s)"
| "nonce_after sha redis (N_consume t c n) s = snd (consume sha redis t c n s)"

lemma nonce_after_keeps:
  assumes "timer_ok k s" "reserved redis (event_time e) k t s" "ttl_ok redis (ttl_ms s)"
    and "\<not> event_invalidates sha (Inr k) e"
  shows "timer_ok k (nonce_after sha redis e s)" "reserved redis (event_time e) k t (nonce_after sha redis e s)"
  using assms fire_timer_keeps consume_keeps nonce_invalidate_keeps by (cases e; simp)+

lemma nonce_after_timer_ok:
  assumes "timer_ok k s" "ttl_ok redis (ttl_ms s)" "\<not> event_invalidates sha (Inr k) e"
  shows "timer_ok k (nonce_after sha redis e s)"
proof -
  have "reserved redis (event_time e) k (event_time e - ttl_ms s) s" by (simp add: reserved_def)
  then show ?thesis using nonce_after_keeps(1) assms by blast
qed

lemma nonce_after_ttl [simp]: "ttl_ms (nonce_after sha redis e s) = ttl_ms s"
  by (cases e) simp_all

text \<open>An acceptance is the one of the first event or one of the rest of the run.\<close>

lemma nonce_run_cases:
  assumes "(Inr k, t) \<in> set (nonce_run sha redis (e # es) s)"
  obtains c n where "e = N_consume t c n" "getRedisKey sha c n = Inr k" "fst (consume_key redis t k s)"
    | "(Inr k, t) \<in> set (nonce_run sha redis es (nonce_after sha redis e s))"
proof (cases e)
  case (N_consume u c n)
  then show thesis using assms that by (auto simp: case_prod_beta consume_whole split: if_splits sum.splits)
qed (use assms that in auto)

text \<open>The acceptances still to come of a key that is reserved are past its time to live.\<close>

lemma nonce_run_after_reserved:
  assumes "sorted (map event_time es)" "\<forall>e\<in>set es. now \<le> event_time e" "\<forall>e\<in>set es. \<not> event_invalidates sha (Inr k) e"
    and "timer_ok k s" "reserved redis now k t s" "ttl_ok redis (ttl_ms s)"
    and "(Inr k, t') \<in> set (nonce_run sha redis es s)"
  shows "t + ttl_ms s \<le> t'"
  using assms
proof (induction es arbitrary: now s)
  case (Cons e es)
  have res: "reserved redis (event_time e) k t s" using Cons.prems(2,5) reserved_later by auto
  have later: "sorted (map event_time es)" "\<forall>e'\<in>set es. event_time e \<le> event_time e'"
    "\<forall>e'\<in>set es. \<not> event_invalidates sha (Inr k) e'" "\<not> event_invalidates sha (Inr k) e"
    using Cons.prems(1,3) by auto
  from Cons.prems(7) show ?case
  proof (cases rule: nonce_run_cases)
    case (1 c n)
    then show ?thesis using consume_key_accepts(2) [OF Cons.prems(4) 1(3) Cons.prems(6)] res by simp
  next
    case 2
    then show ?thesis
      using Cons.IH [OF later(1-3) nonce_after_keeps [OF Cons.prems(4) res Cons.prems(6) later(4)] _ 2] Cons.prems(6)
      by simp
  qed
qed simp

definition times_apart :: "int \<Rightarrow> int list \<Rightarrow> bool" where
  "times_apart ttl = sorted_wrt (\<lambda>t t'. t + ttl \<le> t')"

definition acceptances :: "(string, string) result \<Rightarrow> ((string, string) result \<times> int) list \<Rightarrow> int list" where
  "acceptances k accepted = map snd (filter (\<lambda>x. fst x = k) accepted)"

lemma acceptances_member: "t \<in> set (acceptances k accepted) \<longleftrightarrow> (k, t) \<in> set accepted"
  by (force simp: acceptances_def)

lemma acceptances_Cons:
  "acceptances (Inr k) (nonce_run sha redis (e # es) s) = acceptances (Inr k) (nonce_run sha redis es (nonce_after sha redis e s))
   \<or> (fst (consume_key redis (event_time e) k s) \<and> nonce_after sha redis e s = snd (consume_key redis (event_time e) k s)
      \<and> acceptances (Inr k) (nonce_run sha redis (e # es) s)
          = event_time e # acceptances (Inr k) (nonce_run sha redis es (nonce_after sha redis e s)))"
  by (cases e) (auto simp: acceptances_def case_prod_beta consume_whole split: sum.splits)

lemma nonce_run_apart:
  assumes "sorted (map event_time es)" "\<forall>e\<in>set es. \<not> event_invalidates sha (Inr k) e"
    and "timer_ok k s" "ttl_ok redis (ttl_ms s)"
  shows "times_apart (ttl_ms s) (acceptances (Inr k) (nonce_run sha redis es s))"
  using assms
proof (induction es arbitrary: s)
  case (Cons e es)
  let ?s = "nonce_after sha redis e s"
  have later: "sorted (map event_time es)" "\<forall>e'\<in>set es. event_time e \<le> event_time e'"
    "\<forall>e'\<in>set es. \<not> event_invalidates sha (Inr k) e'" "\<not> event_invalidates sha (Inr k) e"
    using Cons.prems(1,2) by auto
  have ok: "timer_ok k ?s" using nonce_after_timer_ok Cons.prems(3,4) later(4) by blast
  have rest: "times_apart (ttl_ms s) (acceptances (Inr k) (nonce_run sha redis es ?s))"
    using Cons.IH [OF later(1,3) ok] Cons.prems(4) by simp
  have after: "event_time e + ttl_ms s \<le> t'"
    if "fst (consume_key redis (event_time e) k s)" "?s = snd (consume_key redis (event_time e) k s)"
      "(Inr k, t') \<in> set (nonce_run sha redis es ?s)" for t'
    using nonce_run_after_reserved [OF later(1-3) ok _ _ that(3)] that(2)
      consume_key_accepts(1) [OF Cons.prems(3) that(1) Cons.prems(4)] Cons.prems(4) by simp
  from acceptances_Cons [of k sha redis e es s] show ?case
    using rest after by (auto simp: times_apart_def acceptances_member)
qed (simp add: times_apart_def acceptances_def)

lemma acceptances_keyed: "acceptances (Inl e) (nonce_run sha redis es s) = []"
proof -
  have "(Inl e, t) \<notin> set (nonce_run sha redis es s)" for t
    by (induction sha redis es s rule: nonce_run.induct) (auto simp: case_prod_beta consume_whole split: sum.splits)
  then show ?thesis by (auto simp: acceptances_def filter_empty_conv)
qed

text \<open>
  C31. A nonce of a client is accepted at most once per time to live, whatever the order of the
  requests, of the invalidations of other nonces and of the timer callbacks, while the nonce itself is
  not invalidated: two acceptances of requests with one client and nonce are at least \<open>ttlSeconds\<close>
  apart.  The store stays with Redis, or stays without it; without it the time to live is at most
  2147483647 milliseconds, the longest delay of a timer.
\<close>

theorem nonce_accepted_once_per_ttl:
  assumes "sorted (map event_time es)" "0 < ttl" "redis \<or> ttl * 1000 \<le> 2147483647"
    and "\<forall>e\<in>set es. \<not> event_invalidates sha (getRedisKey sha c n) e"
  shows "times_apart (ttl * 1000)
           (acceptances (getRedisKey sha c n) (nonce_run sha redis es (new_NonceStore (Some ttl))))"
proof (cases "getRedisKey sha c n")
  case (Inl e)
  then show ?thesis by (simp add: acceptances_keyed times_apart_def)
next
  case (Inr k)
  then show ?thesis
    using nonce_run_apart [OF assms(1), of sha k "new_NonceStore (Some ttl)" redis] assms(2-4)
    by (simp add: new_NonceStore_def timer_ok_def key_timers_def ttl_ms_def ttl_ok_def)
qed

definition nonce_example :: "nonce_event list" where
  "nonce_example =
     [N_consume 0 (Some ''a'') (Some ''1''), N_consume 999 (Some ''a'') (Some ''1''),
      N_consume 1000 (Some ''b'') (Some ''1''), N_invalidate 1000 (Some ''b'') (Some ''1''),
      N_fire 1000 0, N_consume 1001 (Some ''a'') (Some '' 1'')]"

text \<open>
  The witness: with a time to live of a second, a request repeated after 999 milliseconds is refused
  and accepted again once the timer has fired, with another client's nonce invalidated in between.
\<close>

theorem nonce_accepted_once_per_ttl_witness:
  "times_apart 1000 (acceptances (getRedisKey (\<lambda>_. []) (Some ''a'') (Some ''1''))
       (nonce_run (\<lambda>_. []) False nonce_example (new_NonceStore (Some 1))))
   \<and> acceptances (getRedisKey (\<lambda>_. []) (Some ''a'') (Some ''1''))
       (nonce_run (\<lambda>_. []) False nonce_example (new_NonceStore (Some 1))) = [0, 1001]"
proof -
  have keys: "getRedisKey (\<lambda>_. []) (Some ''a'') (Some ''1'') = Inr ''anti-replay:a:''"
    "getRedisKey (\<lambda>_. []) (Some ''a'') (Some '' 1'') = Inr ''anti-replay:a:''"
    "getRedisKey (\<lambda>_. []) (Some ''b'') (Some ''1'') = Inr ''anti-replay:b:''"
    by code_simp+
  have other: "\<forall>e\<in>set nonce_example. \<not> event_invalidates (\<lambda>_. []) (getRedisKey (\<lambda>_. []) (Some ''a'') (Some ''1'')) e"
    by (simp add: nonce_example_def keys)
  show ?thesis
    using nonce_accepted_once_per_ttl [of nonce_example 1 False, OF _ _ _ other]
    by (simp add: nonce_example_def keys consume_whole nonce_invalidate_def invalidate_key_def new_NonceStore_def
        consume_key_def fire_timer_def ttl_ms_def timer_delay_def acceptances_def Let_def)
qed

text \<open>
  A reservation made in memory is not consulted once Redis is there: the same nonce is accepted again
  at once.
\<close>

lemma nonce_replayed_after_reconnect:
  assumes "ns_redis s k = None"
  shows "fst (consume_key True t k (snd (consume_key False t k s)))"
  using assms by (simp add: consume_key_def redis_has_def)

text \<open>
  Without Redis, \<open>invalidate\<close> leaves the timer of the reservation running: it ends a later reservation
  of the same nonce early.
\<close>

lemma stale_timer_ends_reservation:
  "(let s1 = snd (consume_key False 0 k (new_NonceStore (Some 300)));
        s2 = invalidate_key False k s1;
        s3 = snd (consume_key False 299000 k s2)
    in fst (consume_key False 300001 k (fire_timer 300000 0 s3)))"
  by (simp add: new_NonceStore_def consume_key_def invalidate_key_def fire_timer_def ttl_ms_def timer_delay_def Let_def)

text \<open>A time to live beyond the longest delay of a timer lasts a millisecond in memory.\<close>

lemma long_ttl_forgets:
  "(let s = snd (consume_key False 0 k (new_NonceStore (Some 2147484)))
    in fst (consume_key False 1 k (fire_timer 1 0 s)))"
  by (simp add: new_NonceStore_def consume_key_def fire_timer_def ttl_ms_def timer_delay_def Let_def)

end
