(* ===== verification/GovernanceTimelock.thy ===== *)
theory GovernanceTimelock
  imports JSString
begin

text \<open>
  \<open>src/services/governanceTimelockService.ts\<close> (the poll tick: indexing contract events, expiring,
  notifying and executing proposals), \<open>src/services/timelockService.ts\<close> (cancelling and the counts) and
  the other writers of proposals: the stub row that \<open>ingestGovernanceVoteEvent\<close> of
  \<open>src/services/voterHistoryService.ts\<close> creates and the flag that \<open>validateAndFlagProposal\<close> of
  \<open>src/services/governanceProposalPayloadValidator.ts\<close> sets.

  A tick is a task that yields at every awaited call; ticks may overlap, because the interval does not
  wait for the previous one.  A rejected call changes nothing.  The XDR library, number and date
  reading, the RPC answers and the clock are inputs.  Rows leave out the columns these operations do
  not write and \<open>updatedAt\<close>; broadcasts and alerts are a log.

  The lemmas: every submission to the network is inside the execution window of a queued proposal,
  proposals only move along the permitted statuses in every interleaving, and an undisturbed tick executes
  every proposal that is ready.
\<close>

section \<open>Decoding\<close>

datatype rpc_value =
    RV_undefined
  | RV_null
  | RV_text string
  | RV_num rat
  | RV_arr "rpc_value list"
  | RV_obj "(string \<times> rpc_value) list"
  | RV_scval nat

text \<open>What \<open>ScVal.fromXDR\<close> gives; the entries of a map are objects of the library.\<close>

datatype scv =
    Scv_text string
  | Scv_int string
  | Scv_map "(nat \<times> nat) list"
  | Scv_other

datatype parsed_number = Not_a_number | Infinite | Finite rat

record decoding =
  de_fromXDR :: "string \<Rightarrow> scv option"
  de_String :: "nat \<Rightarrow> string"
  de_Number :: "string \<Rightarrow> parsed_number"
  de_Date :: "string \<Rightarrow> int option"

definition decodeScVal :: "decoding \<Rightarrow> rpc_value \<Rightarrow> rpc_value" where
  "decodeScVal de raw = (case raw of
      RV_text s \<Rightarrow> (case de_fromXDR de s of
          Some (Scv_text t) \<Rightarrow> RV_text t
        | Some (Scv_int t) \<Rightarrow> RV_text t
        | Some (Scv_map es) \<Rightarrow>
            RV_obj (fold (\<lambda>(k, v) obj. jm_set (de_String de k) (RV_scval v) obj) es [])
        | _ \<Rightarrow> raw)
    | _ \<Rightarrow> raw)"

definition as_text :: "rpc_value \<Rightarrow> string option" where
  "as_text v = (case v of RV_text t \<Rightarrow> Some t | _ \<Rightarrow> None)"

definition extractEventName :: "decoding \<Rightarrow> rpc_value \<Rightarrow> string option" where
  "extractEventName de topic = (case topic of
      RV_arr (t # _) \<Rightarrow> as_text (decodeScVal de t)
    | RV_text _ \<Rightarrow> as_text (decodeScVal de topic)
    | _ \<Rightarrow> None)"

definition rv_prop :: "(string \<times> rpc_value) list \<Rightarrow> string \<Rightarrow> rpc_value" where
  "rv_prop obj k = (case jm_get obj k of Some v \<Rightarrow> v | None \<Rightarrow> RV_undefined)"

text \<open>\<open>a ?? b ?? c\<close> over the properties of an object.\<close>

fun first_prop :: "(string \<times> rpc_value) list \<Rightarrow> string list \<Rightarrow> rpc_value" where
  "first_prop obj [] = RV_undefined"
| "first_prop obj [k] = rv_prop obj k"
| "first_prop obj (k # ks) =
     (if rv_prop obj k = RV_undefined \<or> rv_prop obj k = RV_null then first_prop obj ks else rv_prop obj k)"

definition payload_id :: "decoding \<Rightarrow> rpc_value \<Rightarrow> string option" where
  "payload_id de payload = (case decodeScVal de payload of
      RV_obj obj \<Rightarrow> as_text (first_prop obj [''proposalId'', ''proposal_id'', ''id''])
    | _ \<Rightarrow> None)"

definition extractProposalId :: "decoding \<Rightarrow> rpc_value \<Rightarrow> rpc_value \<Rightarrow> string option" where
  "extractProposalId de topic payload = (case topic of
      RV_arr (_ # t # _) \<Rightarrow> (case as_text (decodeScVal de t) of
          Some p \<Rightarrow> if p \<noteq> [] then Some p else payload_id de payload
        | None \<Rightarrow> payload_id de payload)
    | _ \<Rightarrow> payload_id de payload)"

text \<open>\<open>new Date(ms)\<close>: \<open>None\<close> is an invalid date.\<close>

definition date_of :: "rat \<Rightarrow> int option" where
  "date_of ms = (if \<bar>ms\<bar> \<le> 8640000000000000 then Some (if ms < 0 then \<lceil>ms\<rceil> else \<lfloor>ms\<rfloor>) else None)"

definition epoch_ms :: "rat \<Rightarrow> rat" where
  "epoch_ms n = (if n < 1000000000000 then jsmul n 1000 else n)"

text \<open>\<open>None\<close> is \<open>null\<close>, \<open>Some None\<close> an invalid date.\<close>

definition expiry_of :: "decoding \<Rightarrow> rpc_value \<Rightarrow> int option option" where
  "expiry_of de raw = (case raw of
      RV_text t \<Rightarrow>
        (if t = [] then None
         else case de_Number de t of
                Finite n \<Rightarrow> Some (date_of (epoch_ms n))
              | Infinite \<Rightarrow> Some None
              | Not_a_number \<Rightarrow> map_option Some (de_Date de t))
    | RV_num n \<Rightarrow> if n = 0 then None else Some (date_of (epoch_ms n))
    | _ \<Rightarrow> None)"

definition extractExpiresAt :: "decoding \<Rightarrow> rpc_value \<Rightarrow> int option option" where
  "extractExpiresAt de payload = (case decodeScVal de payload of
      RV_obj obj \<Rightarrow>
        expiry_of de (first_prop obj [''expiresAt'', ''expires_at'', ''eta'', ''executeAfter'', ''execute_after''])
    | _ \<Rightarrow> None)"

section \<open>Rows\<close>

record gov_proposal =
  gp_id :: int
  gp_proposalId :: string
  gp_contractId :: string
  gp_status :: string
  gp_expiresAt :: int
  gp_queuedAt :: "int option"
  gp_timelockActionSource :: "string option"
  gp_notificationCount :: int
  gp_executionReadyNotifiedAt :: "int option"
  gp_transactionHash :: "string option"
  gp_executedAt :: "int option"
  gp_cancelledAt :: "int option"

record timelock_event =
  tv_eventType :: string
  tv_proposalId :: string
  tv_contractId :: string
  tv_ledgerSeq :: int
  tv_txHash :: string

record gov_db =
  gd_proposals :: "gov_proposal list"
  gd_events :: "timelock_event list"

abbreviation "QUEUED \<equiv> ''Queued''"
abbreviation "EXECUTED \<equiv> ''Executed''"
abbreviation "EXPIRED \<equiv> ''Expired''"
abbreviation "CANCELLED \<equiv> ''Cancelled''"
abbreviation "FLAGGED \<equiv> ''INVALID_PAYLOAD_FLAGGED''"

text \<open>\<open>UPDATE \<dots> WHERE\<close>: the rows that match are replaced; with the number of rows changed.\<close>

definition update_where ::
  "(gov_proposal \<Rightarrow> bool) \<Rightarrow> (gov_proposal \<Rightarrow> gov_proposal) \<Rightarrow> gov_db \<Rightarrow> gov_db" where
  "update_where P f db = db\<lparr>gd_proposals := map (\<lambda>r. if P r then f r else r) (gd_proposals db)\<rparr>"

definition rows_where :: "(gov_proposal \<Rightarrow> bool) \<Rightarrow> gov_db \<Rightarrow> gov_proposal list" where
  "rows_where P db = filter P (gd_proposals db)"

definition new_id :: "gov_db \<Rightarrow> int" where
  "new_id db = Max (insert 0 (gp_id ` set (gd_proposals db))) + 1"

definition upsert_proposal :: "string \<Rightarrow> (int \<Rightarrow> gov_proposal) \<Rightarrow> (gov_proposal \<Rightarrow> gov_proposal) \<Rightarrow> gov_db \<Rightarrow> gov_db" where
  "upsert_proposal pid create update db =
     (if \<exists>r \<in> set (gd_proposals db). gp_proposalId r = pid
      then update_where (\<lambda>r. gp_proposalId r = pid) update db
      else db\<lparr>gd_proposals := gd_proposals db @ [create (new_id db)]\<rparr>)"

definition same_event :: "timelock_event \<Rightarrow> timelock_event \<Rightarrow> bool" where
  "same_event e e' \<longleftrightarrow> tv_txHash e = tv_txHash e' \<and> tv_eventType e = tv_eventType e' \<and> tv_proposalId e = tv_proposalId e'"

definition upsert_event :: "timelock_event \<Rightarrow> (timelock_event \<Rightarrow> timelock_event) \<Rightarrow> gov_db \<Rightarrow> gov_db" where
  "upsert_event e update db =
     (if \<exists>e' \<in> set (gd_events db). same_event e e'
      then db\<lparr>gd_events := map (\<lambda>e'. if same_event e e' then update e' else e') (gd_events db)\<rparr>
      else db\<lparr>gd_events := gd_events db @ [e]\<rparr>)"

section \<open>The poll tick\<close>

record raw_event =
  re_topic :: rpc_value
  re_value :: rpc_value
  re_ledger :: "int option"
  re_ledgerClosedAt :: "string option"
  re_contractId :: "string option"
  re_txHash :: "string option"

datatype gov_output =
    Submitted string gov_proposal int int
  | Ready_alert string
  | Broadcast_executed string "string option"
  | Broadcast_expired string string
  | Timelock_status string string

record gov_service =
  gs_pollIntervalMs :: int
  gs_defaultGracePeriodMs :: int
  gs_running :: bool
  gs_lastIndexedLedger :: int
  gs_db :: gov_db
  gs_log :: "gov_output list"

definition new_GovernanceTimelockService :: "int option \<Rightarrow> int option \<Rightarrow> gov_db \<Rightarrow> gov_service" where
  "new_GovernanceTimelockService poll grace db =
     \<lparr>gs_pollIntervalMs = (case poll of Some p \<Rightarrow> if p = 0 then 15000 else p | None \<Rightarrow> 15000),
      gs_defaultGracePeriodMs =
        (case grace of Some g \<Rightarrow> if g = 0 then 7 * 24 * 60 * 60 * 1000 else g | None \<Rightarrow> 7 * 24 * 60 * 60 * 1000),
      gs_running = False, gs_lastIndexedLedger = 0, gs_db = db, gs_log = []\<rparr>"

definition on_db :: "(gov_db \<Rightarrow> gov_db) \<Rightarrow> gov_service \<Rightarrow> gov_service" where
  "on_db f s = s\<lparr>gs_db := f (gs_db s)\<rparr>"

definition emit :: "gov_output list \<Rightarrow> gov_service \<Rightarrow> gov_service" where
  "emit os s = s\<lparr>gs_log := gs_log s @ os\<rparr>"

definition advance_cursor :: "int \<Rightarrow> gov_service \<Rightarrow> gov_service" where
  "advance_cursor ledger s =
     (if ledger > gs_lastIndexedLedger s then s\<lparr>gs_lastIndexedLedger := ledger\<rparr> else s)"

text \<open>
  Where a tick waits; the first argument is the contract of the tick.  \<open>start\<close> waits for the latest
  event before its first tick.
\<close>

datatype gov_task =
    T_findLatest "string option"
  | T_getEvents string
  | T_upsertEvent string raw_event string string "raw_event list"
  | T_handleEvent string raw_event string string "raw_event list"
  | T_cleanQuery string int
  | T_cleanUpdate string int gov_proposal "gov_proposal list"
  | T_cleanRecord string int gov_proposal "gov_proposal list"
  | T_notifyQuery string int
  | T_notifySend string gov_proposal "gov_proposal list"
  | T_notifyUpdate string gov_proposal "gov_proposal list"
  | T_ledger string
  | T_execQuery string int int
  | T_execSubmit string int gov_proposal "gov_proposal list"
  | T_execUpdate string int gov_proposal string "gov_proposal list"
  | T_done

text \<open>The answer to the awaited call, and the clock when the task continues.\<close>

record gov_env =
  ge_fails :: bool
  ge_now :: int
  ge_events :: "raw_event list"
  ge_ledgerTime :: int
  ge_txHash :: string

definition event_ledger :: "raw_event \<Rightarrow> int" where
  "event_ledger ev = (case re_ledger ev of Some l \<Rightarrow> l | None \<Rightarrow> 0)"

definition event_hash :: "raw_event \<Rightarrow> string" where
  "event_hash ev = (case re_txHash ev of Some h \<Rightarrow> h | None \<Rightarrow> [])"

text \<open>The loop of \<open>indexContractEvents\<close> up to the next database call.\<close>

fun next_event :: "decoding \<Rightarrow> int \<Rightarrow> string \<Rightarrow> raw_event list \<Rightarrow> gov_service \<Rightarrow> gov_task \<times> gov_service" where
  "next_event de now cid [] s = (T_cleanQuery cid now, s)"
| "next_event de now cid (ev # evs) s =
     (if extractEventName de (re_topic ev) \<notin> {Some ''ProposalQueued'', Some ''TimelockActionExecuted''}
      then next_event de now cid evs (advance_cursor (event_ledger ev) s)
      else case extractProposalId de (re_topic ev) (re_value ev) of
             None \<Rightarrow> next_event de now cid evs s
           | Some pid \<Rightarrow>
               (if pid = [] then next_event de now cid evs s
                else (T_upsertEvent cid ev (the (extractEventName de (re_topic ev))) pid evs, s)))"

text \<open>\<open>handleProposalQueued\<close>: \<open>None\<close> when a date is invalid, which the database refuses.\<close>

definition handleProposalQueued ::
  "decoding \<Rightarrow> int \<Rightarrow> string \<Rightarrow> string \<Rightarrow> raw_event \<Rightarrow> string \<Rightarrow> gov_db \<Rightarrow> gov_db option" where
  "handleProposalQueued de now pid cid ev txHash db =
     (let expiresAt = (case extractExpiresAt de (re_value ev) of
                         None \<Rightarrow> Some (now + 24 * 60 * 60 * 1000) | Some d \<Rightarrow> d);
          closedAt = (case re_ledgerClosedAt ev of
                         None \<Rightarrow> Some now | Some t \<Rightarrow> if t = [] then Some now else de_Date de t) in
      case (expiresAt, closedAt) of
        (Some e, Some c) \<Rightarrow> Some (upsert_proposal pid
           (\<lambda>i. \<lparr>gp_id = i, gp_proposalId = pid, gp_contractId = cid, gp_status = QUEUED, gp_expiresAt = e,
                 gp_queuedAt = Some c, gp_timelockActionSource = Some txHash, gp_notificationCount = 0,
                 gp_executionReadyNotifiedAt = None, gp_transactionHash = None, gp_executedAt = None,
                 gp_cancelledAt = None\<rparr>)
           (\<lambda>r. r\<lparr>gp_queuedAt := Some c, gp_timelockActionSource := Some txHash, gp_expiresAt := e\<rparr>) db)
      | _ \<Rightarrow> None)"

definition handleTimelockActionExecuted :: "bool \<Rightarrow> int \<Rightarrow> string \<Rightarrow> gov_service \<Rightarrow> gov_service" where
  "handleTimelockActionExecuted fails now pid s =
     emit [Broadcast_executed pid None, Timelock_status pid EXECUTED]
       (if fails then s
        else on_db (update_where (\<lambda>r. gp_proposalId r = pid)
               (\<lambda>r. r\<lparr>gp_status := EXECUTED, gp_executedAt := Some now\<rparr>)) s)"

section \<open>Expiry, notification and execution\<close>

definition expired_rows :: "int \<Rightarrow> gov_db \<Rightarrow> gov_proposal list" where
  "expired_rows threshold db =
     take 100 (sort_key gp_expiresAt (rows_where (\<lambda>r. gp_status r = QUEUED \<and> gp_expiresAt r < threshold) db))"

definition ready_rows :: "int \<Rightarrow> int \<Rightarrow> gov_db \<Rightarrow> gov_proposal list" where
  "ready_rows now threshold db =
     sort_key gp_expiresAt (rows_where (\<lambda>r. gp_status r = QUEUED \<and> gp_expiresAt r \<le> now
        \<and> gp_expiresAt r \<ge> threshold \<and> gp_executionReadyNotifiedAt r = None) db)"

definition executable_rows :: "int \<Rightarrow> int \<Rightarrow> gov_db \<Rightarrow> gov_proposal list" where
  "executable_rows ledgerTime threshold db =
     sort_key gp_expiresAt (rows_where (\<lambda>r. gp_status r = QUEUED \<and> gp_expiresAt r \<le> ledgerTime
        \<and> gp_expiresAt r \<ge> threshold) db)"

text \<open>The loops up to the next awaited call; aged-out proposals are skipped.\<close>

fun next_clean :: "string \<Rightarrow> int \<Rightarrow> int \<Rightarrow> gov_proposal list \<Rightarrow> gov_task" where
  "next_clean cid started now [] = T_notifyQuery cid now"
| "next_clean cid started now (r # rs) = T_cleanUpdate cid started r rs"

fun next_notify :: "int \<Rightarrow> string \<Rightarrow> int \<Rightarrow> gov_proposal list \<Rightarrow> gov_task" where
  "next_notify grace cid now [] = T_ledger cid"
| "next_notify grace cid now (r # rs) =
     (if now > gp_expiresAt r + grace then next_notify grace cid now rs else T_notifySend cid r rs)"

text \<open>The call to the network is made as soon as the row is reached.\<close>

fun next_exec :: "string \<Rightarrow> int \<Rightarrow> int \<Rightarrow> gov_proposal list \<Rightarrow> gov_service \<Rightarrow> gov_task \<times> gov_service" where
  "next_exec cid ledgerTime now [] s = (T_done, s)"
| "next_exec cid ledgerTime now (r # rs) s =
     (if now > gp_expiresAt r + gs_defaultGracePeriodMs s then next_exec cid ledgerTime now rs s
      else (T_execSubmit cid ledgerTime r rs, emit [Submitted (if gp_contractId r = [] then cid else gp_contractId r) r ledgerTime now] s))"

definition expire_row :: "gov_proposal \<Rightarrow> gov_db \<Rightarrow> gov_db" where
  "expire_row p = update_where (\<lambda>r. gp_id r = gp_id p \<and> gp_status r = QUEUED) (\<lambda>r. r\<lparr>gp_status := EXPIRED\<rparr>)"

definition expire_hits :: "gov_proposal \<Rightarrow> gov_db \<Rightarrow> bool" where
  "expire_hits p db \<longleftrightarrow> rows_where (\<lambda>r. gp_id r = gp_id p \<and> gp_status r = QUEUED) db \<noteq> []"

definition expiry_event :: "int \<Rightarrow> int \<Rightarrow> gov_proposal \<Rightarrow> timelock_event" where
  "expiry_event started ledger p =
     \<lparr>tv_eventType = ''ProposalExecutionExpired'', tv_proposalId = gp_proposalId p,
      tv_contractId = gp_contractId p, tv_ledgerSeq = ledger,
      tv_txHash = ''expired-'' @ gp_proposalId p @ ''-'' @ show_int started\<rparr>"

definition notify_row :: "int \<Rightarrow> gov_proposal \<Rightarrow> gov_db \<Rightarrow> gov_db" where
  "notify_row now p = update_where (\<lambda>r. gp_id r = gp_id p)
     (\<lambda>r. r\<lparr>gp_notificationCount := gp_notificationCount r + 1, gp_executionReadyNotifiedAt := Some now\<rparr>)"

definition execute_row :: "int \<Rightarrow> string \<Rightarrow> gov_proposal \<Rightarrow> gov_db \<Rightarrow> gov_db" where
  "execute_row now hash p = update_where (\<lambda>r. gp_id r = gp_id p \<and> gp_status r = QUEUED)
     (\<lambda>r. r\<lparr>gp_status := EXECUTED, gp_transactionHash := Some hash, gp_executedAt := Some now\<rparr>)"

section \<open>Continuing a tick\<close>

definition index_event :: "raw_event \<Rightarrow> string \<Rightarrow> string \<Rightarrow> string \<Rightarrow> gov_db \<Rightarrow> gov_db" where
  "index_event ev name pid cid =
     upsert_event \<lparr>tv_eventType = name, tv_proposalId = pid, tv_contractId = cid,
                   tv_ledgerSeq = event_ledger ev, tv_txHash = event_hash ev\<rparr>
       (\<lambda>e. e\<lparr>tv_ledgerSeq := event_ledger ev\<rparr>)"

definition handle_event ::
  "decoding \<Rightarrow> bool \<Rightarrow> int \<Rightarrow> string \<Rightarrow> raw_event \<Rightarrow> string \<Rightarrow> string \<Rightarrow> gov_service \<Rightarrow> gov_service option" where
  "handle_event de fails now cid ev name pid s =
     (if name = ''ProposalQueued''
      then (if fails then None
            else map_option (\<lambda>db. s\<lparr>gs_db := db\<rparr>)
                   (handleProposalQueued de now pid cid ev (event_hash ev) (gs_db s)))
      else Some (handleTimelockActionExecuted fails now pid s))"

text \<open>\<open>tick\<close> up to its first awaited call; no contract, no work.\<close>

definition tick_begin :: "string option \<Rightarrow> gov_task" where
  "tick_begin contractId = (case contractId of Some c \<Rightarrow> if c = [] then T_done else T_getEvents c | None \<Rightarrow> T_done)"

definition latest_ledger :: "gov_db \<Rightarrow> int option" where
  "latest_ledger db = (if gd_events db = [] then None else Some (Max (tv_ledgerSeq ` set (gd_events db))))"

fun gov_resume :: "decoding \<Rightarrow> gov_env \<Rightarrow> gov_task \<Rightarrow> gov_service \<Rightarrow> gov_task \<times> gov_service" where
  "gov_resume de e (T_findLatest cid) s =
     (if ge_fails e then (T_done, s)
      else (tick_begin cid, case latest_ledger (gs_db s) of
              Some l \<Rightarrow> s\<lparr>gs_lastIndexedLedger := l\<rparr> | None \<Rightarrow> s))"
| "gov_resume de e (T_getEvents cid) s =
     (if ge_fails e then (T_cleanQuery cid (ge_now e), s)
      else next_event de (ge_now e) cid (ge_events e) s)"
| "gov_resume de e (T_upsertEvent cid ev name pid evs) s =
     (if ge_fails e then (T_cleanQuery cid (ge_now e), s)
      else (T_handleEvent cid ev name pid evs, on_db (index_event ev name pid cid) s))"
| "gov_resume de e (T_handleEvent cid ev name pid evs) s =
     (case handle_event de (ge_fails e) (ge_now e) cid ev name pid s of
        None \<Rightarrow> (T_cleanQuery cid (ge_now e), s)
      | Some s' \<Rightarrow> next_event de (ge_now e) cid evs (advance_cursor (event_ledger ev) s'))"
| "gov_resume de e (T_cleanQuery cid now) s =
     (if ge_fails e then (T_notifyQuery cid (ge_now e), s)
      else (next_clean cid now (ge_now e) (expired_rows (now - gs_defaultGracePeriodMs s) (gs_db s)), s))"
| "gov_resume de e (T_cleanUpdate cid now r rs) s =
     (if ge_fails e then (next_clean cid now (ge_now e) rs, s)
      else if expire_hits r (gs_db s) then (T_cleanRecord cid now r rs, on_db (expire_row r) s)
      else (next_clean cid now (ge_now e) rs, s))"
| "gov_resume de e (T_cleanRecord cid now r rs) s =
     (next_clean cid now (ge_now e) rs,
      emit [Broadcast_expired (gp_proposalId r) EXPIRED, Timelock_status (gp_proposalId r) EXPIRED]
        (if ge_fails e then s
         else on_db (upsert_event (expiry_event now (gs_lastIndexedLedger s) r) id) s))"
| "gov_resume de e (T_notifyQuery cid now) s =
     (if ge_fails e then (T_done, s)
      else (next_notify (gs_defaultGracePeriodMs s) cid (ge_now e)
              (ready_rows now (now - gs_defaultGracePeriodMs s) (gs_db s)), s))"
| "gov_resume de e (T_notifySend cid r rs) s =
     (if ge_fails e then (next_notify (gs_defaultGracePeriodMs s) cid (ge_now e) rs, s)
      else (T_notifyUpdate cid r rs, emit [Ready_alert (gp_proposalId r)] s))"
| "gov_resume de e (T_notifyUpdate cid r rs) s =
     (next_notify (gs_defaultGracePeriodMs s) cid (ge_now e) rs,
      if ge_fails e then s
      else emit [Broadcast_expired (gp_proposalId r) QUEUED] (on_db (notify_row (ge_now e) r) s))"
| "gov_resume de e (T_ledger cid) s =
     (if ge_fails e then (T_done, s)
      else (T_execQuery cid (ge_ledgerTime e) (ge_now e - gs_defaultGracePeriodMs s), s))"
| "gov_resume de e (T_execQuery cid ledgerTime threshold) s =
     (if ge_fails e then (T_done, s)
      else next_exec cid ledgerTime (ge_now e) (executable_rows ledgerTime threshold (gs_db s)) s)"
| "gov_resume de e (T_execSubmit cid ledgerTime r rs) s =
     (if ge_fails e then next_exec cid ledgerTime (ge_now e) rs s
      else (T_execUpdate cid ledgerTime r (ge_txHash e) rs, s))"
| "gov_resume de e (T_execUpdate cid ledgerTime r hash rs) s =
     next_exec cid ledgerTime (ge_now e) rs
       (if ge_fails e then s
        else emit [Broadcast_executed (gp_proposalId r) (Some hash)] (on_db (execute_row (ge_now e) hash r) s))"
| "gov_resume de e T_done s = (T_done, s)"

definition gov_start :: "string option \<Rightarrow> gov_service \<Rightarrow> gov_task \<times> gov_service" where
  "gov_start cid s = (if gs_running s then (T_done, s) else (T_findLatest cid, s\<lparr>gs_running := True\<rparr>))"

definition gov_stop :: "gov_service \<Rightarrow> gov_service" where
  "gov_stop s = s\<lparr>gs_running := False\<rparr>"

section \<open>The other writers\<close>

definition cancelAction :: "int \<Rightarrow> int \<Rightarrow> gov_db \<Rightarrow> gov_proposal option \<times> gov_db" where
  "cancelAction now i db =
     (let cancel = (\<lambda>r. r\<lparr>gp_status := CANCELLED, gp_cancelledAt := Some now\<rparr>);
          hits = rows_where (\<lambda>r. gp_id r = i \<and> gp_status r = QUEUED) db in
      (case hits of [] \<Rightarrow> None | r # _ \<Rightarrow> Some (cancel r),
       update_where (\<lambda>r. gp_id r = i \<and> gp_status r = QUEUED) cancel db))"

record status_counts =
  sc_queued :: int
  sc_executed :: int
  sc_cancelled :: int
  sc_expired :: int
  sc_total :: int

definition count_of :: "string \<Rightarrow> gov_db \<Rightarrow> int" where
  "count_of status db = int (length (rows_where (\<lambda>r. gp_status r = status) db))"

text \<open>A status without rows has no group, so that the fallback is taken.\<close>

definition count_or :: "string \<Rightarrow> string \<Rightarrow> gov_db \<Rightarrow> int" where
  "count_or status other db = (if count_of status db \<noteq> 0 then count_of status db else count_of other db)"

definition getStatusCounts :: "gov_db \<Rightarrow> status_counts" where
  "getStatusCounts db =
     \<lparr>sc_queued = count_or QUEUED ''QUEUED'' db, sc_executed = count_or EXECUTED ''EXECUTED'' db,
      sc_cancelled = count_or CANCELLED ''CANCELLED'' db,
      sc_expired = count_of EXPIRED db + count_of ''EXPIRED'' db, sc_total = int (length (gd_proposals db))\<rparr>"

definition computeETA :: "int \<Rightarrow> int \<Rightarrow> int \<times> bool" where
  "computeETA now expiresAt = (max 0 ((expiresAt - now) div 1000), now \<ge> expiresAt)"

definition ensure_voted_proposal :: "int \<Rightarrow> string \<Rightarrow> string \<Rightarrow> gov_db \<Rightarrow> gov_db" where
  "ensure_voted_proposal now cid pid =
     upsert_proposal pid
       (\<lambda>i. \<lparr>gp_id = i, gp_proposalId = pid, gp_contractId = cid, gp_status = ''Pending'',
             gp_expiresAt = now + 7 * 24 * 60 * 60 * 1000, gp_queuedAt = None, gp_timelockActionSource = None,
             gp_notificationCount = 0, gp_executionReadyNotifiedAt = None, gp_transactionHash = None,
             gp_executedAt = None, gp_cancelledAt = None\<rparr>) id"

text \<open>
  The writing part of \<open>validateAndFlagProposal\<close>, with the outcome of the simulation as an argument: the
  row is updated by its id, whatever its status.
\<close>

definition flag_invalid_payload :: "bool \<Rightarrow> int \<Rightarrow> int \<Rightarrow> int \<Rightarrow> gov_db \<Rightarrow> gov_db" where
  "flag_invalid_payload isValid now i expiresAt db =
     (if \<not> isValid \<and> now < expiresAt
      then update_where (\<lambda>r. gp_id r = i) (\<lambda>r. r\<lparr>gp_status := FLAGGED, gp_executionReadyNotifiedAt := Some now\<rparr>) db
      else db)"

section \<open>Interleavings\<close>

record gov_system =
  gy_service :: gov_service
  gy_tasks :: "gov_task list"

definition gov_run :: "decoding \<Rightarrow> nat \<Rightarrow> gov_env \<Rightarrow> gov_system \<Rightarrow> gov_system" where
  "gov_run de n e y =
     (case gov_resume de e (gy_tasks y ! n) (gy_service y) of
        (t, s) \<Rightarrow> y\<lparr>gy_service := s, gy_tasks := (gy_tasks y)[n := t]\<rparr>)"

definition gov_write :: "(gov_db \<Rightarrow> gov_db) \<Rightarrow> gov_system \<Rightarrow> gov_system" where
  "gov_write f y = y\<lparr>gy_service := on_db f (gy_service y)\<rparr>"

definition gov_spawn :: "gov_task \<Rightarrow> gov_system \<Rightarrow> gov_system" where
  "gov_spawn t y = y\<lparr>gy_tasks := gy_tasks y @ [t]\<rparr>"

inductive gov_step :: "decoding \<Rightarrow> gov_system \<Rightarrow> gov_system \<Rightarrow> bool" for de where
  tick: "gov_step de y (gov_spawn (tick_begin c) y)"
| start: "gov_start c (gy_service y) = (t, s) \<Longrightarrow> gov_step de y (gov_spawn t (y\<lparr>gy_service := s\<rparr>))"
| stop: "gov_step de y (y\<lparr>gy_service := gov_stop (gy_service y)\<rparr>)"
| resume: "n < length (gy_tasks y) \<Longrightarrow> gov_step de y (gov_run de n e y)"
| cancel: "gov_step de y (gov_write (\<lambda>db. snd (cancelAction now i db)) y)"
| vote: "gov_step de y (gov_write (ensure_voted_proposal now c pid) y)"
| flag: "gov_step de y (gov_write (flag_invalid_payload valid now i expiresAt) y)"

section \<open>Statuses\<close>

text \<open>
  The permitted changes: a queued proposal may expire or be cancelled, and any proposal becomes executed
  when the contract reports it and flagged when the simulation of its payload fails.
\<close>

definition may_become :: "string \<Rightarrow> string \<Rightarrow> bool" where
  "may_become st st' \<longleftrightarrow> st' = st \<or> st' \<in> {EXECUTED, FLAGGED} \<or> st = QUEUED \<and> st' \<in> {EXPIRED, CANCELLED}"

definition row_becomes :: "gov_proposal \<Rightarrow> gov_proposal \<Rightarrow> bool" where
  "row_becomes r r' \<longleftrightarrow> gp_id r' = gp_id r \<and> gp_proposalId r' = gp_proposalId r
     \<and> gp_contractId r' = gp_contractId r \<and> may_become (gp_status r) (gp_status r')"

definition db_becomes :: "gov_db \<Rightarrow> gov_db \<Rightarrow> bool" where
  "db_becomes db db' \<longleftrightarrow> (\<forall>r \<in> set (gd_proposals db). \<exists>r' \<in> set (gd_proposals db'). row_becomes r r')"

lemma row_becomes_refl [simp]: "row_becomes r r"
  by (simp add: row_becomes_def may_become_def)

lemma row_becomes_trans: "row_becomes a b \<Longrightarrow> row_becomes b c \<Longrightarrow> row_becomes a c"
  by (auto simp: row_becomes_def may_become_def)

lemma db_becomes_refl [simp]: "db_becomes db db"
  by (auto simp: db_becomes_def intro: row_becomes_refl)

lemma db_becomes_trans: "db_becomes a b \<Longrightarrow> db_becomes b c \<Longrightarrow> db_becomes a c"
  unfolding db_becomes_def using row_becomes_trans by blast

lemma update_where_becomes:
  assumes "\<And>r. P r \<Longrightarrow> row_becomes r (f r)"
  shows "db_becomes db (update_where P f db)"
  unfolding db_becomes_def
proof
  fix r assume "r \<in> set (gd_proposals db)"
  then have "(if P r then f r else r) \<in> set (gd_proposals (update_where P f db))" by (simp add: update_where_def)
  moreover have "row_becomes r (if P r then f r else r)" using assms by simp
  ultimately show "\<exists>r' \<in> set (gd_proposals (update_where P f db)). row_becomes r r'" by blast
qed

lemma upsert_proposal_becomes:
  "(\<And>r. row_becomes r (f r)) \<Longrightarrow> db_becomes db (upsert_proposal pid create f db)"
  using update_where_becomes [of "\<lambda>r. gp_proposalId r = pid" f db]
  by (auto simp: upsert_proposal_def) (auto simp: db_becomes_def intro: row_becomes_refl)

lemma upsert_event_proposals [simp]: "gd_proposals (upsert_event e f db) = gd_proposals db"
  by (simp add: upsert_event_def)

lemma db_becomes_events: "gd_proposals db' = gd_proposals db \<Longrightarrow> db_becomes db db'"
  by (auto simp: db_becomes_def intro: row_becomes_refl)

lemma handle_event_becomes:
  "handle_event de fails now cid ev name pid s = Some s' \<Longrightarrow> db_becomes (gs_db s) (gs_db s')"
  by (auto simp: handle_event_def handleProposalQueued_def handleTimelockActionExecuted_def emit_def on_db_def
      Let_def row_becomes_def may_become_def split: if_splits option.splits
      intro!: update_where_becomes upsert_proposal_becomes)

lemma next_event_db [simp]: "gs_db (snd (next_event de now cid evs s)) = gs_db s"
  by (induction evs arbitrary: s) (auto simp: advance_cursor_def split: option.split)

lemma next_exec_db [simp]: "gs_db (snd (next_exec cid l now rs s)) = gs_db s"
  by (induction rs) (auto simp: emit_def)

lemma service_db [simp]:
  "gs_db (emit os s) = gs_db s" "gs_db (on_db f s) = f (gs_db s)" "gs_db (advance_cursor l s) = gs_db s"
  by (simp_all add: emit_def on_db_def advance_cursor_def)

lemma row_updates_become [intro!, simp]:
  "db_becomes db (expire_row p db)" "db_becomes db (notify_row now p db)" "db_becomes db (execute_row now h p db)"
  "db_becomes db (snd (cancelAction now i db))" "db_becomes db (ensure_voted_proposal now c pid db)"
  "db_becomes db (flag_invalid_payload valid now i t db)"
  by (auto simp: flag_invalid_payload_def expire_row_def notify_row_def execute_row_def cancelAction_def
      ensure_voted_proposal_def row_becomes_def may_become_def Let_def
      intro!: update_where_becomes upsert_proposal_becomes)

lemma event_updates_become [intro!, simp]:
  "db_becomes db (upsert_event x f db)" "db_becomes db (index_event ev name pid cid db)"
  by (simp_all add: index_event_def db_becomes_events)

lemma resume_becomes: "db_becomes (gs_db s) (gs_db (snd (gov_resume de e t s)))"
  by (cases t) (auto split: option.split dest: handle_event_becomes)

lemma gov_step_becomes: "gov_step de y y' \<Longrightarrow> db_becomes (gs_db (gy_service y)) (gs_db (gy_service y'))"
proof (induction rule: gov_step.induct)
  case (resume n y e)
  then show ?case using resume_becomes [of "gy_service y" de e "gy_tasks y ! n"]
    by (simp add: gov_run_def case_prod_beta)
qed (auto simp: gov_spawn_def gov_start_def gov_stop_def gov_write_def split: if_splits)

text \<open>
  In every interleaving of poll ticks, cancellations, votes and payload checks, a proposal keeps its
  identity and its status only changes along permitted steps: nothing returns to the queue, and a proposal
  that has left it changes only when the contract reports its execution or its payload is flagged.
\<close>
theorem proposal_statuses_progress:
  assumes "(gov_step de)\<^sup>*\<^sup>* y y'" "r \<in> set (gd_proposals (gs_db (gy_service y)))"
  shows "\<exists>r' \<in> set (gd_proposals (gs_db (gy_service y'))). gp_id r' = gp_id r \<and> gp_proposalId r' = gp_proposalId r
    \<and> (gp_status r' = gp_status r \<or> gp_status r' \<in> {EXECUTED, FLAGGED}
       \<or> gp_status r = QUEUED \<and> gp_status r' \<in> {EXPIRED, CANCELLED})"
proof -
  have "db_becomes (gs_db (gy_service y)) (gs_db (gy_service y'))"
    using assms(1) by (induction rule: rtranclp_induct) (auto intro: db_becomes_trans gov_step_becomes)
  then show ?thesis using assms(2) by (auto simp: db_becomes_def row_becomes_def may_become_def)
qed

section \<open>The execution window\<close>

text \<open>A row that was read from the table as queued.\<close>

definition was_queued :: "gov_db \<Rightarrow> gov_proposal \<Rightarrow> bool" where
  "was_queued db r \<longleftrightarrow> gp_status r = QUEUED \<and> (\<exists>r' \<in> set (gd_proposals db). row_becomes r r')"

definition in_window :: "int \<Rightarrow> gov_proposal \<Rightarrow> int \<Rightarrow> int \<Rightarrow> bool" where
  "in_window grace r ledgerTime now \<longleftrightarrow> gp_expiresAt r \<le> ledgerTime \<and> now \<le> gp_expiresAt r + grace"

fun gov_task_ok :: "gov_db \<Rightarrow> gov_task \<Rightarrow> bool" where
  "gov_task_ok db (T_execSubmit cid l r rs) = (\<forall>r' \<in> set (r # rs). was_queued db r' \<and> gp_expiresAt r' \<le> l)"
| "gov_task_ok db (T_execUpdate cid l r h rs) = (\<forall>r' \<in> set (r # rs). was_queued db r' \<and> gp_expiresAt r' \<le> l)"
| "gov_task_ok db _ = True"

fun output_ok :: "gov_db \<Rightarrow> int \<Rightarrow> gov_output \<Rightarrow> bool" where
  "output_ok db grace (Submitted c r l n) = (was_queued db r \<and> in_window grace r l n)"
| "output_ok db grace _ = True"

definition gov_ok :: "gov_system \<Rightarrow> bool" where
  "gov_ok y \<longleftrightarrow> (\<forall>t \<in> set (gy_tasks y). gov_task_ok (gs_db (gy_service y)) t)
     \<and> (\<forall>out \<in> set (gs_log (gy_service y)). output_ok (gs_db (gy_service y)) (gs_defaultGracePeriodMs (gy_service y)) out)"

lemma was_queued_mono: "db_becomes db db' \<Longrightarrow> was_queued db r \<Longrightarrow> was_queued db' r"
  unfolding was_queued_def db_becomes_def using row_becomes_trans by blast

lemma gov_task_ok_mono: "db_becomes db db' \<Longrightarrow> gov_task_ok db t \<Longrightarrow> gov_task_ok db' t"
  by (cases t) (auto intro: was_queued_mono)

lemma output_ok_mono: "db_becomes db db' \<Longrightarrow> output_ok db g x \<Longrightarrow> output_ok db' g x"
  by (cases x) (auto intro: was_queued_mono)

lemma executable_rows_queued: "r \<in> set (executable_rows l th db) \<Longrightarrow> was_queued db r \<and> gp_expiresAt r \<le> l"
  by (auto simp: executable_rows_def rows_where_def was_queued_def intro: row_becomes_refl)

lemma next_event_frame [simp]:
  "gs_log (snd (next_event de now cid evs s)) = gs_log s"
  "gs_defaultGracePeriodMs (snd (next_event de now cid evs s)) = gs_defaultGracePeriodMs s"
  by (induction evs arbitrary: s) (auto simp: advance_cursor_def split: option.split)

lemma next_event_task_ok [simp]: "gov_task_ok db (fst (next_event de now cid evs s))"
  by (induction evs arbitrary: s) (auto split: option.split)

lemma next_tasks_ok [simp]:
  "gov_task_ok db (next_clean cid st now rs)" "gov_task_ok db (next_notify g cid now rs)" "gov_task_ok db (tick_begin c)"
proof -
  show "gov_task_ok db (next_notify g cid now rs)" by (induction rs) auto
qed (cases rs, auto simp: tick_begin_def split: option.split)

lemma next_exec_ok:
  assumes "next_exec cid l now rs s = (t', s')" "\<forall>r \<in> set rs. was_queued (gs_db s) r \<and> gp_expiresAt r \<le> l"
  shows "gov_task_ok (gs_db s') t' \<and> gs_defaultGracePeriodMs s' = gs_defaultGracePeriodMs s
    \<and> (\<forall>out \<in> set (gs_log s'). out \<in> set (gs_log s) \<or> output_ok (gs_db s') (gs_defaultGracePeriodMs s) out)"
  using assms by (induction rs) (auto simp: emit_def in_window_def split: if_splits)

lemma handle_event_frame:
  "handle_event de fails now cid ev name pid s = Some s' \<Longrightarrow>
     gs_defaultGracePeriodMs s' = gs_defaultGracePeriodMs s
     \<and> (\<forall>out \<in> set (gs_log s'). out \<in> set (gs_log s) \<or> output_ok db g out)"
  by (auto simp: handle_event_def handleTimelockActionExecuted_def emit_def on_db_def split: if_splits)

lemma gov_resume_ok:
  assumes "gov_task_ok (gs_db s) t" "gov_resume de e t s = (t', s')"
  shows "gov_task_ok (gs_db s') t' \<and> gs_defaultGracePeriodMs s' = gs_defaultGracePeriodMs s
    \<and> (\<forall>out \<in> set (gs_log s'). out \<in> set (gs_log s) \<or> output_ok (gs_db s') (gs_defaultGracePeriodMs s) out)"
proof (cases t)
  case (T_execUpdate cid l r h rs)
  let ?s = "if ge_fails e then s
    else emit [Broadcast_executed (gp_proposalId r) (Some h)] (on_db (execute_row (ge_now e) h r) s)"
  have "next_exec cid l (ge_now e) rs ?s = (t', s')" using assms(2) T_execUpdate by simp
  moreover have "\<forall>r' \<in> set rs. was_queued (gs_db ?s) r' \<and> gp_expiresAt r' \<le> l"
    using assms(1) T_execUpdate by (auto intro: was_queued_mono [OF row_updates_become(3)])
  ultimately show ?thesis using next_exec_ok [of cid l "ge_now e" rs ?s t' s']
    by (auto simp: emit_def on_db_def split: if_splits)
next
  case (T_handleEvent cid ev name pid evs)
  show ?thesis
  proof (cases "handle_event de (ge_fails e) (ge_now e) cid ev name pid s")
    case (Some s1)
    let ?r = "next_event de (ge_now e) cid evs (advance_cursor (event_ledger ev) s1)"
    have "t' = fst ?r" "s' = snd ?r" using assms(2) T_handleEvent Some by simp_all
    then show ?thesis using handle_event_frame [OF Some] by (simp add: advance_cursor_def)
  qed (use assms(2) T_handleEvent in auto)
next
  case (T_getEvents cid)
  let ?r = "next_event de (ge_now e) cid (ge_events e) s"
  show ?thesis
  proof (cases "ge_fails e")
    case False
    then have "t' = fst ?r" "s' = snd ?r" using assms(2) T_getEvents by simp_all
    then show ?thesis by simp
  qed (use assms(2) T_getEvents in auto)
next
  case (T_execQuery cid l th)
  then show ?thesis using assms(2) next_exec_ok [of cid l "ge_now e" _ s t' s'] executable_rows_queued
    by (auto split: if_splits)
next
  case (T_execSubmit cid l r rs)
  then show ?thesis using assms next_exec_ok [of cid l "ge_now e" rs s t' s'] by (auto split: if_splits)
qed (use assms(2) in \<open>auto simp: emit_def on_db_def split: if_splits option.splits\<close>)

lemma gov_step_ok:
  assumes "gov_step de y y'" "gov_ok y"
  shows "gov_ok y'"
  using assms
proof (cases rule: gov_step.cases)
  case (resume n e)
  obtain t s where r: "gov_resume de e (gy_tasks y ! n) (gy_service y) = (t, s)" by fastforce
  have mono: "db_becomes (gs_db (gy_service y)) (gs_db s)"
    using resume_becomes [of "gy_service y" de e "gy_tasks y ! n"] r by simp
  have "gov_task_ok (gs_db (gy_service y)) (gy_tasks y ! n)" using assms(2) resume(2) by (simp add: gov_ok_def)
  note ok' = gov_resume_ok [OF this r]
  have "gov_task_ok (gs_db s) t'" if "t' \<in> set ((gy_tasks y)[n := t])" for t'
    using that assms(2) ok' mono set_update_subset_insert [of "gy_tasks y" n t]
    by (auto simp: gov_ok_def intro: gov_task_ok_mono)
  then show ?thesis using assms(2) ok' mono resume(1) r by (auto simp: gov_ok_def gov_run_def intro: output_ok_mono)
qed (auto simp: gov_ok_def gov_spawn_def gov_start_def gov_stop_def gov_write_def on_db_def
    intro: gov_task_ok_mono output_ok_mono split: if_splits)

definition gov_init :: "int option \<Rightarrow> int option \<Rightarrow> gov_db \<Rightarrow> gov_system" where
  "gov_init poll grace db = \<lparr>gy_service = new_GovernanceTimelockService poll grace db, gy_tasks = []\<rparr>"

lemma gov_reachable_ok: "(gov_step de)\<^sup>*\<^sup>* (gov_init poll grace db) y \<Longrightarrow> gov_ok y"
proof (induction rule: rtranclp_induct)
  case base
  show ?case by (simp add: gov_init_def gov_ok_def new_GovernanceTimelockService_def)
qed (rule gov_step_ok)

text \<open>
  C2. In every interleaving, each execution submitted to the network is of a proposal that was read from
  the table as queued, whose time lock had ended by the ledger time of that tick, and whose grace period
  had not passed when the call was made.
\<close>
theorem executions_in_window:
  assumes "(gov_step de)\<^sup>*\<^sup>* (gov_init poll grace db) y"
    and "Submitted contract r ledgerTime now \<in> set (gs_log (gy_service y))"
  shows "gp_status r = QUEUED \<and> gp_expiresAt r \<le> ledgerTime
    \<and> now \<le> gp_expiresAt r + gs_defaultGracePeriodMs (gy_service y)
    \<and> (\<exists>r' \<in> set (gd_proposals (gs_db (gy_service y))). gp_id r' = gp_id r \<and> gp_proposalId r' = gp_proposalId r)"
  using gov_reachable_ok [OF assms(1)] assms(2)
  by (fastforce simp: gov_ok_def was_queued_def in_window_def row_becomes_def)

section \<open>Histories by example\<close>

datatype gov_move =
    G_tick "string option"
  | G_run nat gov_env
  | G_cancel int int
  | G_vote int string string

fun gov_move_to :: "decoding \<Rightarrow> gov_move \<Rightarrow> gov_system \<Rightarrow> gov_system" where
  "gov_move_to de (G_tick c) y = gov_spawn (tick_begin c) y"
| "gov_move_to de (G_run n e) y = (if n < length (gy_tasks y) then gov_run de n e y else y)"
| "gov_move_to de (G_cancel now i) y = gov_write (\<lambda>db. snd (cancelAction now i db)) y"
| "gov_move_to de (G_vote now c pid) y = gov_write (ensure_voted_proposal now c pid) y"

definition gov_play :: "decoding \<Rightarrow> gov_move list \<Rightarrow> gov_system \<Rightarrow> gov_system" where
  "gov_play de ms y = fold (gov_move_to de) ms y"

lemma gov_play_reachable: "(gov_step de)\<^sup>*\<^sup>* y (gov_play de ms y)"
  unfolding gov_play_def
proof (induction ms arbitrary: y)
  case (Cons m ms)
  have "(gov_step de)\<^sup>*\<^sup>* y (gov_move_to de m y)" by (cases m) (auto intro: gov_step.intros)
  then show ?case using Cons by (simp add: rtranclp_trans)
qed simp

definition example_decoding :: decoding where
  "example_decoding = \<lparr>de_fromXDR = (\<lambda>_. None), de_String = (\<lambda>_. []), de_Number = (\<lambda>_. Not_a_number), de_Date = (\<lambda>_. None)\<rparr>"

definition example_proposal :: gov_proposal where
  "example_proposal = \<lparr>gp_id = 1, gp_proposalId = ''P'', gp_contractId = ''C'', gp_status = QUEUED,
     gp_expiresAt = 1000, gp_queuedAt = None, gp_timelockActionSource = None, gp_notificationCount = 1,
     gp_executionReadyNotifiedAt = Some 0, gp_transactionHash = None, gp_executedAt = None, gp_cancelledAt = None\<rparr>"

definition example_gov :: gov_system where
  "example_gov = gov_init None (Some 5000) \<lparr>gd_proposals = [example_proposal], gd_events = []\<rparr>"

definition at_time :: "int \<Rightarrow> gov_env" where
  "at_time t = \<lparr>ge_fails = False, ge_now = t, ge_events = [], ge_ledgerTime = t, ge_txHash = ''h''\<rparr>"

lemmas gov_play_simps = gov_play_def example_gov_def gov_init_def new_GovernanceTimelockService_def
  gov_spawn_def tick_begin_def gov_run_def at_time_def example_proposal_def
  expired_rows_def ready_rows_def executable_rows_def rows_where_def emit_def on_db_def execute_row_def
  update_where_def gov_write_def cancelAction_def

text \<open>A tick from its start to the call of the network.\<close>

definition tick_to_submit :: "nat \<Rightarrow> int \<Rightarrow> gov_move list" where
  "tick_to_submit n t = G_tick (Some ''C'') # replicate 5 (G_run n (at_time t))"

lemma example_gov_submitted:
  "gs_log (gy_service (gov_play example_decoding (tick_to_submit 0 2000) example_gov)) = [Submitted ''C'' example_proposal 2000 2000]"
  by (simp add: gov_play_simps tick_to_submit_def numeral_eq_Suc)

text \<open>The witness of the window: one tick, up to its submission.\<close>
theorem executions_in_window_witness:
  "\<exists>y. (gov_step example_decoding)\<^sup>*\<^sup>* example_gov y \<and> gs_log (gy_service y) = [Submitted ''C'' example_proposal 2000 2000]
     \<and> gp_status example_proposal = QUEUED \<and> 2000 \<le> gp_expiresAt example_proposal + gs_defaultGracePeriodMs (gy_service y)"
proof -
  let ?y = "gov_play example_decoding (tick_to_submit 0 2000) example_gov"
  have "(gov_step example_decoding)\<^sup>*\<^sup>* example_gov ?y" by (rule gov_play_reachable)
  moreover from this have "gp_status example_proposal = QUEUED
      \<and> 2000 \<le> gp_expiresAt example_proposal + gs_defaultGracePeriodMs (gy_service ?y)"
    using executions_in_window [of example_decoding None "Some 5000" _ ?y "''C''" example_proposal 2000 2000]
      example_gov_submitted by (simp add: example_gov_def)
  ultimately show ?thesis using example_gov_submitted by blast
qed

text \<open>The witness of the progress of statuses: the example proposal is cancelled.\<close>
theorem proposal_statuses_progress_witness:
  "\<exists>r' \<in> set (gd_proposals (gs_db (gy_service (gov_play example_decoding [G_cancel 5 1] example_gov)))).
     gp_id r' = 1 \<and> gp_status r' = CANCELLED"
proof -
  have "example_proposal \<in> set (gd_proposals (gs_db (gy_service example_gov)))"
    by (simp add: example_gov_def gov_init_def new_GovernanceTimelockService_def)
  from proposal_statuses_progress [OF gov_play_reachable this]
  have "\<exists>r' \<in> set (gd_proposals (gs_db (gy_service (gov_play example_decoding [G_cancel 5 1] example_gov)))).
     gp_id r' = 1" by (auto simp: example_proposal_def)
  then show ?thesis by (simp add: gov_play_simps)
qed

text \<open>Two ticks that overlap submit one proposal twice.\<close>

lemma overlapping_ticks_submit_twice:
  "gs_log (gy_service (gov_play example_decoding (tick_to_submit 0 2000 @ tick_to_submit 1 3000) example_gov))
     = [Submitted ''C'' example_proposal 2000 2000, Submitted ''C'' example_proposal 3000 3000]"
  by (simp add: gov_play_simps tick_to_submit_def numeral_eq_Suc)

text \<open>
  A proposal cancelled after its tick has read the table is submitted all the same, and its row stays
  cancelled.
\<close>

lemma cancelled_proposal_submitted:
  "let y = gov_play example_decoding
        (G_tick (Some ''C'') # replicate 4 (G_run 0 (at_time 2000))
         @ [G_run 0 (at_time 2000), G_cancel 2001 1, G_run 0 (at_time 2002), G_run 0 (at_time 2002)]) example_gov
   in map gp_status (gd_proposals (gs_db (gy_service y))) = [CANCELLED]
      \<and> gs_log (gy_service y) = [Submitted ''C'' example_proposal 2000 2000, Broadcast_executed ''P'' (Some ''h'')]"
  by (simp add: gov_play_simps numeral_eq_Suc)

text \<open>
  A vote that is ingested before the queue event leaves a row in status \<open>Pending\<close>, which the queue
  event does not change: the proposal is never executed, expired or cancelled.
\<close>

lemma voted_first_never_queued:
  assumes "gd_proposals db = []" "handleProposalQueued de now pid cid ev h (ensure_voted_proposal t c pid db) = Some db'"
  shows "map gp_status (gd_proposals db') = [''Pending'']"
  using assms
  by (auto simp: handleProposalQueued_def ensure_voted_proposal_def upsert_proposal_def update_where_def
      split: option.splits)

text \<open>A failed payload check before the end of the time lock overwrites the status of an executed proposal.\<close>

lemma flag_overwrites_executed:
  assumes "now < t" "gd_proposals db = [r]" "gp_status r = EXECUTED"
  shows "map gp_status (gd_proposals (flag_invalid_payload False now (gp_id r) t db)) = [FLAGGED]"
  using assms by (simp add: flag_invalid_payload_def update_where_def)

text \<open>The expiry of a base64 payload is never found, so that the default of a day applies.\<close>

definition opaque :: "rpc_value \<Rightarrow> bool" where
  "opaque v \<longleftrightarrow> (case v of RV_scval _ \<Rightarrow> True | RV_undefined \<Rightarrow> True | _ \<Rightarrow> False)"

lemma map_payload_opaque:
  assumes "\<forall>p \<in> set obj. opaque (snd p)"
  shows "\<forall>p \<in> set (fold (\<lambda>(k, v) obj. jm_set (de_String de k) (RV_scval v) obj) es obj). opaque (snd p)"
  using assms
proof (induction es arbitrary: obj)
  case (Cons e es)
  have "\<forall>p \<in> set (jm_set (de_String de (fst e)) (RV_scval (snd e)) obj). opaque (snd p)"
    using Cons.prems by (auto simp: opaque_def dest!: jm_set_entries)
  then show ?case using Cons.IH by (simp add: case_prod_beta)
qed simp

lemma first_prop_opaque:
  assumes "\<forall>p \<in> set obj. opaque (snd p)"
  shows "opaque (first_prop obj ks)"
proof -
  have "opaque (rv_prop obj k)" for k
  proof (cases "jm_get obj k")
    case None
    then show ?thesis by (simp add: rv_prop_def opaque_def)
  next
    case (Some v)
    then show ?thesis using assms map_of_SomeD [OF Some] by (auto simp: rv_prop_def)
  qed
  then show ?thesis by (induction obj ks rule: first_prop.induct) (auto simp: opaque_def)
qed

lemma opaque_expiry: "opaque v \<Longrightarrow> expiry_of de v = None"
  by (cases v) (auto simp: opaque_def expiry_of_def)

lemma expiry_of_xdr_ignored: "extractExpiresAt de (RV_text raw) = None"
proof (cases "de_fromXDR de raw")
  case (Some v)
  show ?thesis
  proof (cases v)
    case (Scv_map es)
    let ?obj = "fold (\<lambda>(k, v) obj. jm_set (de_String de k) (RV_scval v) obj) es []"
    have op: "opaque (first_prop ?obj ks)" for ks
      by (rule first_prop_opaque, rule map_payload_opaque) simp
    show ?thesis
      using opaque_expiry [OF op] by (simp add: extractExpiresAt_def decodeScVal_def Some Scv_map del: first_prop.simps)
  qed (simp_all add: extractExpiresAt_def decodeScVal_def Some)
qed (simp add: extractExpiresAt_def decodeScVal_def)

section \<open>A tick without disturbance\<close>

text \<open>
  The steps of a tick while nothing else runs: step \<open>i\<close> gets the answer and the clock of \<open>E i\<close>, so that
  time passes and every call has its own answer.
\<close>

primrec gov_alone :: "decoding \<Rightarrow> (nat \<Rightarrow> gov_env) \<Rightarrow> nat \<Rightarrow> gov_task \<times> gov_service \<Rightarrow> gov_task \<times> gov_service" where
  "gov_alone de E 0 c = c"
| "gov_alone de E (Suc n) c = (case gov_alone de E n c of (t, s) \<Rightarrow> gov_resume de (E n) t s)"

lemma gov_alone_step: "gov_alone de E i c = (t, s) \<Longrightarrow> gov_alone de E (Suc i) c = gov_resume de (E i) t s"
  by simp

subsection \<open>The tick reaches the ledger query\<close>

lemma reach_clean:
  assumes "gov_alone de E i c = next_event de now cid evs s"
  shows "\<exists>j s' now'. gov_alone de E j c = (T_cleanQuery cid now', s')"
  using assms
proof (induction evs arbitrary: i s now)
  case Nil
  then show ?case by auto
next
  case (Cons ev evs)
  show ?case
  proof (cases "\<exists>n p. next_event de now cid (ev # evs) s = (T_upsertEvent cid ev n p evs, s)")
    case False
    then have "\<exists>s'. next_event de now cid (ev # evs) s = next_event de now cid evs s'" by (auto split: option.splits)
    then show ?thesis using Cons by metis
  next
    case True
    then obtain n p where t: "gov_alone de E i c = (T_upsertEvent cid ev n p evs, s)" using Cons.prems by auto
    let ?s = "on_db (index_event ev n p cid) s"
    show ?thesis
    proof (cases "ge_fails (E i)")
      case False
      then have t2: "gov_alone de E (Suc i) c = (T_handleEvent cid ev n p evs, ?s)"
        using gov_alone_step [OF t] by simp
      show ?thesis
      proof (cases "handle_event de (ge_fails (E (Suc i))) (ge_now (E (Suc i))) cid ev n p ?s")
        case None
        then show ?thesis using gov_alone_step [OF t2] by (auto simp del: gov_alone.simps)
      next
        case (Some s1)
        then show ?thesis using gov_alone_step [OF t2] Cons.IH by (auto simp del: gov_alone.simps)
      qed
    qed (use gov_alone_step [OF t] in \<open>auto simp del: gov_alone.simps\<close>)
  qed
qed

lemma reach_notify:
  assumes "gov_alone de E i c = (next_clean cid st now rs, s)"
  shows "\<exists>j s' now'. gov_alone de E j c = (T_notifyQuery cid now', s')"
  using assms
proof (induction rs arbitrary: i s now)
  case (Cons r rs)
  then have t: "gov_alone de E i c = (T_cleanUpdate cid st r rs, s)" by simp
  show ?case
  proof (cases "\<not> ge_fails (E i) \<and> expire_hits r (gs_db s)")
    case True
    then have t2: "gov_alone de E (Suc i) c = (T_cleanRecord cid st r rs, on_db (expire_row r) s)"
      using gov_alone_step [OF t] by simp
    show ?thesis using gov_alone_step [OF t2] Cons.IH by (simp del: gov_alone.simps)
  qed (use gov_alone_step [OF t] Cons.IH in \<open>auto simp del: gov_alone.simps split: if_splits\<close>)
qed auto

lemma reach_ledger:
  assumes "gov_alone de E i c = (next_notify g cid now rs, s)"
  shows "\<exists>j s'. gov_alone de E j c = (T_ledger cid, s')"
  using assms
proof (induction rs arbitrary: i s now g)
  case (Cons r rs)
  show ?case
  proof (cases "now > gp_expiresAt r + g")
    case False
    then have t: "gov_alone de E i c = (T_notifySend cid r rs, s)" using Cons.prems by simp
    show ?thesis
    proof (cases "ge_fails (E i)")
      case False
      then have t2: "gov_alone de E (Suc i) c = (T_notifyUpdate cid r rs, emit [Ready_alert (gp_proposalId r)] s)"
        using gov_alone_step [OF t] by simp
      show ?thesis using gov_alone_step [OF t2] Cons.IH by (simp del: gov_alone.simps)
    qed (use gov_alone_step [OF t] Cons.IH in \<open>auto simp del: gov_alone.simps\<close>)
  qed (use Cons in auto)
qed auto

lemma tick_reaches_ledger:
  assumes "cid \<noteq> []" "\<forall>i. \<not> ge_fails (E i)"
  shows "\<exists>k q. gov_alone de E k (tick_begin (Some cid), s) = (T_ledger cid, q)"
proof -
  let ?c = "(tick_begin (Some cid), s)"
  have "gov_alone de E (Suc 0) ?c = next_event de (ge_now (E 0)) cid (ge_events (E 0)) s"
    using assms by (simp add: tick_begin_def)
  then obtain i s1 t1 where c: "gov_alone de E i ?c = (T_cleanQuery cid t1, s1)" using reach_clean by blast
  from gov_alone_step [OF c] assms(2) obtain j s2 t2 where n: "gov_alone de E j ?c = (T_notifyQuery cid t2, s2)"
    using reach_notify by (metis gov_resume.simps(5))
  from gov_alone_step [OF n] assms(2) show ?thesis using reach_ledger by (metis gov_resume.simps(8))
qed

subsection \<open>A row that no event names and that is inside its window stays queued until then\<close>

definition unnamed :: "decoding \<Rightarrow> raw_event list \<Rightarrow> gov_proposal \<Rightarrow> bool" where
  "unnamed de evs r \<longleftrightarrow> (\<forall>ev \<in> set evs. extractProposalId de (re_topic ev) (re_value ev) \<noteq> Some (gp_proposalId r))"

definition same_proposal :: "gov_proposal \<Rightarrow> gov_proposal \<Rightarrow> bool" where
  "same_proposal r r' \<longleftrightarrow> gp_id r' = gp_id r \<and> gp_proposalId r' = gp_proposalId r \<and> gp_contractId r' = gp_contractId r"

definition still_queued :: "gov_proposal \<Rightarrow> gov_db \<Rightarrow> bool" where
  "still_queued r db \<longleftrightarrow> (\<exists>r' \<in> set (gd_proposals db). same_proposal r r' \<and> gp_status r' = QUEUED
     \<and> gp_expiresAt r' = gp_expiresAt r)"

definition ids_distinct :: "gov_db \<Rightarrow> bool" where
  "ids_distinct db \<longleftrightarrow> distinct (map gp_id (gd_proposals db))"

text \<open>The tasks before the ledger query, and what their data must not hold.\<close>

fun early :: "gov_task \<Rightarrow> bool" where
  "early (T_execQuery cid l th) = False"
| "early (T_execSubmit cid l r rs) = False"
| "early (T_execUpdate cid l r h rs) = False"
| "early T_done = False"
| "early _ = True"

fun calm :: "decoding \<Rightarrow> int \<Rightarrow> gov_proposal \<Rightarrow> gov_task \<Rightarrow> bool" where
  "calm de g r (T_findLatest cid) = False"
| "calm de g r (T_getEvents cid) = False"
| "calm de g r (T_upsertEvent cid ev name pid evs) = (pid \<noteq> gp_proposalId r \<and> unnamed de evs r)"
| "calm de g r (T_handleEvent cid ev name pid evs) = (pid \<noteq> gp_proposalId r \<and> unnamed de evs r)"
| "calm de g r (T_cleanQuery cid now) = (now \<le> gp_expiresAt r + g)"
| "calm de g r (T_cleanUpdate cid now x xs) = (gp_id r \<notin> gp_id ` set (x # xs))"
| "calm de g r (T_cleanRecord cid now x xs) = (gp_id r \<notin> gp_id ` set xs)"
| "calm de g r _ = True"

lemma ids_distinct_update [simp]:
  "(\<And>r. gp_id (f r) = gp_id r) \<Longrightarrow> ids_distinct (update_where P f db) = ids_distinct db"
  by (simp add: ids_distinct_def update_where_def o_def if_distrib cong: if_cong)

lemma new_id_fresh: "r \<in> set (gd_proposals db) \<Longrightarrow> gp_id r < new_id db"
  by (simp add: new_id_def)

lemma ids_distinct_upsert:
  assumes "ids_distinct db" "\<And>r. gp_id (f r) = gp_id r" "\<And>i. gp_id (create i) = i"
  shows "ids_distinct (upsert_proposal pid create f db)"
  using assms new_id_fresh [of _ db] by (auto simp: upsert_proposal_def) (fastforce simp: ids_distinct_def)

lemma ids_distinct_events [simp]: "ids_distinct (upsert_event x f db) = ids_distinct db"
  by (simp add: ids_distinct_def)

lemma handle_event_ids:
  "handle_event de fails now cid ev name pid s = Some s' \<Longrightarrow> ids_distinct (gs_db s) \<Longrightarrow> ids_distinct (gs_db s')"
  by (auto simp: handle_event_def handleProposalQueued_def handleTimelockActionExecuted_def Let_def
      split: if_splits option.splits intro!: ids_distinct_upsert)

lemma gov_resume_ids: "ids_distinct (gs_db s) \<Longrightarrow> ids_distinct (gs_db (snd (gov_resume de e t s)))"
  by (cases t) (auto simp: index_event_def expire_row_def notify_row_def execute_row_def
      split: option.split dest: handle_event_ids)

lemma next_exec_grace [simp]: "gs_defaultGracePeriodMs (snd (next_exec cid l now rs s)) = gs_defaultGracePeriodMs s"
  by (induction rs) (auto simp: emit_def)

lemma gov_resume_grace: "gs_defaultGracePeriodMs (snd (gov_resume de e t s)) = gs_defaultGracePeriodMs s"
  by (cases t) (auto simp: emit_def on_db_def advance_cursor_def split: option.split dest: handle_event_frame)

lemma gov_alone_frame:
  assumes "ids_distinct (gs_db (snd c))"
  shows "ids_distinct (gs_db (snd (gov_alone de E n c)))
    \<and> gs_defaultGracePeriodMs (snd (gov_alone de E n c)) = gs_defaultGracePeriodMs (snd c)"
  using assms by (induction n) (simp_all add: case_prod_beta gov_resume_ids gov_resume_grace)

lemma still_queued_update:
  assumes "still_queued r db" "\<And>x. P x \<Longrightarrow> same_proposal r x \<Longrightarrow>
    same_proposal x (f x) \<and> gp_status (f x) = gp_status x \<and> gp_expiresAt (f x) = gp_expiresAt x"
  shows "still_queued r (update_where P f db)"
proof -
  from assms(1) obtain x where x: "x \<in> set (gd_proposals db)" "same_proposal r x" "gp_status x = QUEUED"
    "gp_expiresAt x = gp_expiresAt r" by (auto simp: still_queued_def)
  let ?x = "if P x then f x else x"
  have "?x \<in> set (gd_proposals (update_where P f db))" using x(1) by (simp add: update_where_def)
  moreover have "same_proposal r ?x \<and> gp_status ?x = QUEUED \<and> gp_expiresAt ?x = gp_expiresAt r"
    using assms(2) [of x] x(2-4) by (auto simp: same_proposal_def)
  ultimately show ?thesis unfolding still_queued_def by blast
qed

lemma still_queued_upsert:
  assumes "still_queued r db" "pid \<noteq> gp_proposalId r"
  shows "still_queued r (upsert_proposal pid create f db)"
  using assms still_queued_update [of r db "\<lambda>x. gp_proposalId x = pid" f]
  by (auto simp: upsert_proposal_def same_proposal_def) (auto simp: still_queued_def)

lemma handle_event_still_queued:
  "handle_event de fails now cid ev name pid s = Some s' \<Longrightarrow> still_queued r (gs_db s) \<Longrightarrow> pid \<noteq> gp_proposalId r
     \<Longrightarrow> still_queued r (gs_db s')"
  by (auto simp: handle_event_def handleProposalQueued_def handleTimelockActionExecuted_def Let_def same_proposal_def
      split: if_splits option.splits intro!: still_queued_upsert still_queued_update)

lemma next_event_calm:
  assumes "unnamed de evs r" "now \<le> gp_expiresAt r + g"
  shows "calm de g r (fst (next_event de now cid evs s))"
  using assms by (induction evs arbitrary: s) (auto simp: unnamed_def split: option.splits)

lemma next_clean_calm: "gp_id r \<notin> gp_id ` set rs \<Longrightarrow> calm de g r (next_clean cid st now rs)"
  by (cases rs) simp_all

lemma next_notify_calm: "calm de g r (next_notify g' cid now rs)"
  by (induction rs) simp_all

lemma expired_rows_calm:
  assumes "still_queued r db" "ids_distinct db" "now \<le> gp_expiresAt r + g"
  shows "gp_id r \<notin> gp_id ` set (expired_rows (now - g) db)"
proof
  assume "gp_id r \<in> gp_id ` set (expired_rows (now - g) db)"
  then obtain x where x: "x \<in> set (gd_proposals db)" "gp_id x = gp_id r" "gp_expiresAt x < now - g"
    by (auto simp: expired_rows_def rows_where_def dest!: in_set_takeD)
  obtain y where y: "y \<in> set (gd_proposals db)" "gp_id y = gp_id r" "gp_expiresAt y = gp_expiresAt r"
    using assms(1) by (auto simp: still_queued_def same_proposal_def)
  have "x = y" using assms(2) x y by (auto simp: ids_distinct_def distinct_map inj_on_def)
  then show False using x(3) y(3) assms(3) by simp
qed


lemma gov_resume_calm:
  assumes "calm de (gs_defaultGracePeriodMs s) r t" "still_queued r (gs_db s)" "ids_distinct (gs_db s)" "early t"
    and "ge_now e \<le> gp_expiresAt r + gs_defaultGracePeriodMs s"
  shows "still_queued r (gs_db (snd (gov_resume de e t s)))
    \<and> (early (fst (gov_resume de e t s)) \<longrightarrow> calm de (gs_defaultGracePeriodMs s) r (fst (gov_resume de e t s)))"
proof (cases t)
  case (T_upsertEvent cid ev name pid evs)
  then show ?thesis using assms by (auto simp: index_event_def still_queued_def)
next
  case (T_handleEvent cid ev name pid evs)
  then show ?thesis using assms handle_event_still_queued
    by (auto simp: next_event_calm split: option.split)
next
  case (T_cleanQuery cid now)
  then show ?thesis using assms expired_rows_calm [of r "gs_db s" now "gs_defaultGracePeriodMs s"]
    by (auto simp: next_clean_calm)
next
  case (T_cleanUpdate cid now x xs)
  then show ?thesis using assms
    by (auto simp: next_clean_calm expire_row_def same_proposal_def intro!: still_queued_update)
next
  case (T_cleanRecord cid now x xs)
  then show ?thesis using assms by (auto simp: next_clean_calm still_queued_def)
qed (use assms in \<open>auto simp: next_notify_calm notify_row_def same_proposal_def intro!: still_queued_update\<close>)

lemma next_exec_late: "\<not> early (fst (next_exec cid l now rs s))"
  by (induction rs) simp_all

lemma gov_resume_late: "\<not> early t \<Longrightarrow> \<not> early (fst (gov_resume de e t s))"
  by (cases t) (auto simp: next_exec_late)

lemma gov_alone_late: "\<not> early (fst (gov_alone de E i c)) \<Longrightarrow> \<not> early (fst (gov_alone de E (i + d) c))"
  by (induction d) (simp_all add: case_prod_beta gov_resume_late)

lemma gov_alone_calm:
  assumes "cid \<noteq> []" "ids_distinct (gs_db s)" "still_queued r (gs_db s)" "unnamed de (ge_events (E 0)) r"
    and "\<forall>i < Suc n. ge_now (E i) \<le> gp_expiresAt r + gs_defaultGracePeriodMs s"
    and "early (fst (gov_alone de E (Suc n) (tick_begin (Some cid), s)))"
  shows "still_queued r (gs_db (snd (gov_alone de E (Suc n) (tick_begin (Some cid), s))))
    \<and> calm de (gs_defaultGracePeriodMs s) r (fst (gov_alone de E (Suc n) (tick_begin (Some cid), s)))"
  using assms(5,6)
proof (induction n)
  case 0
  then show ?case using assms(1-4) by (auto simp: tick_begin_def next_event_calm)
next
  case (Suc n)
  let ?c = "(tick_begin (Some cid), s)"
  obtain t s1 where t: "gov_alone de E (Suc n) ?c = (t, s1)" by fastforce
  have e: "early t" using gov_alone_late [of de E "Suc n" ?c 1] Suc.prems(2) t by (auto simp del: gov_alone.simps(2))
  have f: "ids_distinct (gs_db s1)" "gs_defaultGracePeriodMs s1 = gs_defaultGracePeriodMs s"
    using gov_alone_frame [of ?c de E "Suc n"] assms(2) t by (simp_all del: gov_alone.simps)
  have "still_queued r (gs_db s1)" "calm de (gs_defaultGracePeriodMs s1) r t"
    using Suc.IH Suc.prems(1) t e f(2) by (simp_all del: gov_alone.simps)
  from gov_resume_calm [OF this(2,1) f(1) e, of "E (Suc n)"] Suc.prems show ?case
    unfolding gov_alone_step [OF t] f(2) by simp
qed

subsection \<open>The execution loop\<close>

text \<open>
  The rows after the loop: \<open>sub\<close> gives, for the id of a row that was submitted, the step that received
  the answer to its transaction; the next step wrote the row.
\<close>

definition executed :: "(nat \<Rightarrow> gov_env) \<Rightarrow> (int \<rightharpoonup> nat) \<Rightarrow> gov_proposal \<Rightarrow> gov_proposal" where
  "executed E sub r = (case sub (gp_id r) of
      Some j \<Rightarrow> if gp_status r = QUEUED
        then r\<lparr>gp_status := EXECUTED, gp_transactionHash := Some (ge_txHash (E j)), gp_executedAt := Some (ge_now (E (Suc j)))\<rparr>
        else r
    | None \<Rightarrow> r)"

lemma executed_first:
  assumes "sub (gp_id r) = None"
  shows "map (executed E sub) (gd_proposals (execute_row (ge_now (E (Suc i))) (ge_txHash (E i)) r db))
    = map (executed E (sub(gp_id r \<mapsto> i))) (gd_proposals db)"
  using assms by (auto simp: execute_row_def update_where_def executed_def split: option.splits)

text \<open>What the loop over \<open>rs\<close> has done when it ends at step \<open>n\<close>.\<close>

definition loop_done ::
  "(nat \<Rightarrow> gov_env) \<Rightarrow> (nat \<Rightarrow> gov_task) \<Rightarrow> string \<Rightarrow> int \<Rightarrow> int \<Rightarrow> gov_proposal list \<Rightarrow> int \<Rightarrow> nat \<Rightarrow> (int \<rightharpoonup> nat) \<Rightarrow> bool" where
  "loop_done E T cid l g rs now n sub \<longleftrightarrow>
     (\<forall>r \<in> set rs. now \<le> gp_expiresAt r + g \<and> (\<forall>m < n. ge_now (E m) \<le> gp_expiresAt r + g) \<longrightarrow> sub (gp_id r) \<noteq> None)
     \<and> (\<forall>x j. sub x = Some j \<longrightarrow> j < n \<and> (\<exists>r \<in> set rs. gp_id r = x \<and> (\<exists>rs'. T j = T_execSubmit cid l r rs')))"

lemma loop_done_skip: "loop_done E T cid l g rs now n sub \<Longrightarrow> gp_expiresAt r + g < now \<Longrightarrow> loop_done E T cid l g (r # rs) now n sub"
  by (auto simp: loop_done_def)

lemma loop_done_fresh:
  assumes "loop_done E T cid l g rs now n sub" "distinct (map gp_id (r # rs))"
  shows "sub (gp_id r) = None"
proof (cases "sub (gp_id r)")
  case (Some j)
  then have "gp_id r \<in> gp_id ` set rs" using assms(1) by (auto simp: loop_done_def image_iff) metis
  then show ?thesis using assms(2) by simp
qed

lemma loop_done_first:
  assumes "loop_done E T cid l g rs (ge_now (E (Suc i))) n sub" "Suc i < n" "T i = T_execSubmit cid l r rs"
  shows "loop_done E T cid l g (r # rs) now n (sub(gp_id r \<mapsto> i))"
  unfolding loop_done_def
proof (intro conjI ballI allI impI)
  fix r' assume "r' \<in> set (r # rs)" "now \<le> gp_expiresAt r' + g \<and> (\<forall>m < n. ge_now (E m) \<le> gp_expiresAt r' + g)"
  then show "(sub(gp_id r \<mapsto> i)) (gp_id r') \<noteq> None" using assms(1,2) by (auto simp: loop_done_def)
next
  fix x j assume j: "(sub(gp_id r \<mapsto> i)) x = Some j"
  show "j < n" using j assms(1,2) by (auto simp: loop_done_def split: if_splits)
  show "\<exists>r' \<in> set (r # rs). gp_id r' = x \<and> (\<exists>rs'. T j = T_execSubmit cid l r' rs')"
    using j assms(1,3) by (cases "x = gp_id r") (auto simp: loop_done_def)
qed

lemma exec_loop_alone:
  assumes "\<forall>i. \<not> ge_fails (E i)" "distinct (map gp_id rs)" "gov_alone de E i c = next_exec cid l now rs s"
  shows "\<exists>n s' sub. i \<le> n \<and> gov_alone de E n c = (T_done, s')
    \<and> gd_proposals (gs_db s') = map (executed E sub) (gd_proposals (gs_db s))
    \<and> loop_done E (\<lambda>j. fst (gov_alone de E j c)) cid l (gs_defaultGracePeriodMs s) rs now n sub"
  using assms(2,3)
proof (induction rs arbitrary: i s now)
  case Nil
  then show ?case
    by (intro exI [of _ i] exI [of _ s] exI [of _ Map.empty]) (simp add: executed_def loop_done_def)
next
  case (Cons r rs)
  let ?g = "gs_defaultGracePeriodMs s" and ?T = "\<lambda>j. fst (gov_alone de E j c)"
  show ?case
  proof (cases "now > gp_expiresAt r + ?g")
    case True
    then obtain n s' sub where "i \<le> n" "gov_alone de E n c = (T_done, s')"
      "gd_proposals (gs_db s') = map (executed E sub) (gd_proposals (gs_db s))" "loop_done E ?T cid l ?g rs now n sub"
      using Cons.IH [of i now s] Cons.prems by auto
    then show ?thesis using loop_done_skip [OF _ True] by blast
  next
    case False
    let ?contract = "if gp_contractId r = [] then cid else gp_contractId r"
    let ?s1 = "emit [Submitted ?contract r l now] s"
    let ?s = "emit [Broadcast_executed (gp_proposalId r) (Some (ge_txHash (E i)))]
      (on_db (execute_row (ge_now (E (Suc i))) (ge_txHash (E i)) r) ?s1)"
    have t: "gov_alone de E i c = (T_execSubmit cid l r rs, ?s1)" using Cons.prems(2) False by simp
    have t1: "gov_alone de E (Suc i) c = (T_execUpdate cid l r (ge_txHash (E i)) rs, ?s1)"
      using gov_alone_step [OF t] assms(1) by simp
    have t2: "gov_alone de E (Suc (Suc i)) c = next_exec cid l (ge_now (E (Suc i))) rs ?s"
      using gov_alone_step [OF t1] assms(1) by simp
    have g: "gs_defaultGracePeriodMs ?s = ?g" by (simp add: emit_def on_db_def)
    obtain n s' sub where n: "Suc (Suc i) \<le> n" "gov_alone de E n c = (T_done, s')"
      "gd_proposals (gs_db s') = map (executed E sub) (gd_proposals (gs_db ?s))"
      and l: "loop_done E ?T cid l ?g rs (ge_now (E (Suc i))) n sub"
      using Cons.IH [OF _ t2] Cons.prems(1) unfolding g by auto
    let ?sub = "sub(gp_id r \<mapsto> i)"
    have "gd_proposals (gs_db s') = map (executed E ?sub) (gd_proposals (gs_db s))"
      using n(3) executed_first [of sub r E i "gs_db s"] loop_done_fresh [OF l Cons.prems(1)] by simp
    moreover have "loop_done E ?T cid l ?g (r # rs) now n ?sub"
      by (rule loop_done_first [OF l]) (use n(1) t in simp_all)
    moreover have "i \<le> n" using n(1) by simp
    ultimately show ?thesis using n(2) by blast
  qed
qed


lemma executable_rows_ids: "ids_distinct db \<Longrightarrow> distinct (map gp_id (executable_rows l th db))"
  by (auto simp: ids_distinct_def executable_rows_def rows_where_def distinct_map intro: inj_on_subset)

lemma ids_distinct_same: "ids_distinct db \<Longrightarrow> r \<in> set (gd_proposals db) \<Longrightarrow> x \<in> set (gd_proposals db) \<Longrightarrow> gp_id x = gp_id r \<Longrightarrow> x = r"
  by (auto simp: ids_distinct_def distinct_map inj_on_def)

text \<open>From the ledger query to the end.\<close>

lemma execution_alone:
  assumes nf: "\<forall>i. \<not> ge_fails (E i)" and q: "gov_alone de E k c = (T_ledger cid, q)" and ids: "ids_distinct (gs_db q)"
  shows "\<exists>n s' sub. k < n \<and> gov_alone de E n c = (T_done, s')
    \<and> gd_proposals (gs_db s') = map (executed E sub) (gd_proposals (gs_db q))
    \<and> (\<forall>r \<in> set (gd_proposals (gs_db q)). gp_status r = QUEUED \<and> gp_expiresAt r \<le> ge_ledgerTime (E k)
          \<and> (\<forall>i < n. ge_now (E i) \<le> gp_expiresAt r + gs_defaultGracePeriodMs q) \<longrightarrow> sub (gp_id r) \<noteq> None)
    \<and> (\<forall>r \<in> set (gd_proposals (gs_db q)). \<forall>j. sub (gp_id r) = Some j \<longrightarrow>
          gp_status r = QUEUED \<and> gp_expiresAt r \<le> ge_ledgerTime (E k) \<and> j < n
          \<and> (\<exists>rs. fst (gov_alone de E j c) = T_execSubmit cid (ge_ledgerTime (E k)) r rs))"
proof -
  let ?l = "ge_ledgerTime (E k)" and ?g = "gs_defaultGracePeriodMs q"
  let ?rs = "executable_rows ?l (ge_now (E k) - ?g) (gs_db q)" and ?T = "\<lambda>j. fst (gov_alone de E j c)"
  have mem: "r \<in> set ?rs \<longleftrightarrow> r \<in> set (gd_proposals (gs_db q)) \<and> gp_status r = QUEUED
      \<and> gp_expiresAt r \<le> ?l \<and> ge_now (E k) \<le> gp_expiresAt r + ?g" for r
    by (auto simp: executable_rows_def rows_where_def)
  have t: "gov_alone de E (Suc k) c = (T_execQuery cid ?l (ge_now (E k) - ?g), q)"
    using gov_alone_step [OF q] nf by simp
  have "gov_alone de E (Suc (Suc k)) c = next_exec cid ?l (ge_now (E (Suc k))) ?rs q"
    using gov_alone_step [OF t] nf by simp
  from exec_loop_alone [OF nf executable_rows_ids [OF ids] this]
  obtain n s' sub where n: "Suc (Suc k) \<le> n" "gov_alone de E n c = (T_done, s')"
    "gd_proposals (gs_db s') = map (executed E sub) (gd_proposals (gs_db q))"
    and l: "loop_done E ?T cid ?l ?g ?rs (ge_now (E (Suc k))) n sub" by blast
  have "sub (gp_id r) \<noteq> None"
    if "r \<in> set (gd_proposals (gs_db q))" "gp_status r = QUEUED" "gp_expiresAt r \<le> ?l"
      "\<forall>i < n. ge_now (E i) \<le> gp_expiresAt r + ?g" for r
    using l that mem n(1) by (simp add: loop_done_def)
  moreover have "gp_status r = QUEUED \<and> gp_expiresAt r \<le> ?l \<and> j < n \<and> (\<exists>rs. ?T j = T_execSubmit cid ?l r rs)"
    if r: "r \<in> set (gd_proposals (gs_db q))" "sub (gp_id r) = Some j" for r j
  proof -
    obtain x rs where x: "x \<in> set ?rs" "gp_id x = gp_id r" "?T j = T_execSubmit cid ?l x rs" "j < n"
      using l r(2) unfolding loop_done_def by blast
    have "x = r" using ids_distinct_same [OF ids r(1) _ x(2)] x(1) mem by simp
    then show ?thesis using x mem by auto
  qed
  moreover have "k < n" using n(1) by simp
  ultimately show ?thesis using n(2,3) by blast
qed

lemma ledger_still_queued:
  assumes "cid \<noteq> []" "gov_alone de E k (tick_begin (Some cid), s) = (T_ledger cid, q)" "ids_distinct (gs_db s)"
    and "r \<in> set (gd_proposals (gs_db s))" "gp_status r = QUEUED" "unnamed de (ge_events (E 0)) r"
    and "\<forall>i < k. ge_now (E i) \<le> gp_expiresAt r + gs_defaultGracePeriodMs s"
  shows "still_queued r (gs_db q)"
proof -
  obtain k' where k': "k = Suc k'" using assms(1,2) by (cases k) (auto simp: tick_begin_def)
  have "still_queued r (gs_db s)" using assms(4,5) by (auto simp: still_queued_def same_proposal_def)
  from gov_alone_calm [where E = E and n = k', OF assms(1,3) this assms(6)] assms(2,7) k'
  show ?thesis by (simp del: gov_alone.simps)
qed

text \<open>
  C40. A poll tick that runs alone and whose calls succeed ends, whatever events it indexes and however
  the clock moves on between its calls; and it executes every proposal that is ready: a row that was
  queued when the tick began, that none of the indexed events names, whose time lock has ended by the
  ledger time the tick read and whose grace period does not pass before the tick ends, is marked as executed
  with the hash that the network answered to the submission of this proposal, at the time of the next
  step.  From the ledger query on, only rows that were then queued, with an ended time lock, and that the
  tick submitted are changed.
\<close>
theorem ready_proposals_executed:
  fixes de E s cid
  assumes "cid \<noteq> []" "\<forall>i. \<not> ge_fails (E i)" "distinct (map gp_id (gd_proposals (gs_db s)))"
  defines "run \<equiv> \<lambda>i. gov_alone de E i (tick_begin (Some cid), s)"
  shows "\<exists>k n q s' sub. run k = (T_ledger cid, q) \<and> k < n \<and> run n = (T_done, s')
    \<and> (\<forall>r \<in> set (gd_proposals (gs_db s)). gp_status r = QUEUED \<and> unnamed de (ge_events (E 0)) r
          \<and> gp_expiresAt r \<le> ge_ledgerTime (E k) \<and> (\<forall>i < n. ge_now (E i) \<le> gp_expiresAt r + gs_defaultGracePeriodMs s) \<longrightarrow>
        (\<exists>j r' x rs. fst (run j) = T_execSubmit cid (ge_ledgerTime (E k)) x rs \<and> same_proposal r x
          \<and> r' \<in> set (gd_proposals (gs_db s')) \<and> same_proposal r r' \<and> gp_status r' = EXECUTED
          \<and> gp_transactionHash r' = Some (ge_txHash (E j)) \<and> gp_executedAt r' = Some (ge_now (E (Suc j)))))
    \<and> gd_proposals (gs_db s') = map (executed E sub) (gd_proposals (gs_db q))
    \<and> (\<forall>r \<in> set (gd_proposals (gs_db q)). \<forall>j. sub (gp_id r) = Some j \<longrightarrow>
          gp_status r = QUEUED \<and> gp_expiresAt r \<le> ge_ledgerTime (E k) \<and> j < n
          \<and> (\<exists>rs. fst (run j) = T_execSubmit cid (ge_ledgerTime (E k)) r rs))"
proof -
  let ?c = "(tick_begin (Some cid), s)"
  obtain k q where q: "gov_alone de E k ?c = (T_ledger cid, q)" using tick_reaches_ledger [OF assms(1,2)] by blast
  have ids: "ids_distinct (gs_db s)" "ids_distinct (gs_db q)" and g: "gs_defaultGracePeriodMs q = gs_defaultGracePeriodMs s"
    using gov_alone_frame [of ?c de E k] q assms(3) by (simp_all add: ids_distinct_def)
  obtain n s' sub where n: "k < n" "gov_alone de E n ?c = (T_done, s')"
    "gd_proposals (gs_db s') = map (executed E sub) (gd_proposals (gs_db q))"
    and ready: "\<forall>r \<in> set (gd_proposals (gs_db q)). gp_status r = QUEUED \<and> gp_expiresAt r \<le> ge_ledgerTime (E k)
          \<and> (\<forall>i < n. ge_now (E i) \<le> gp_expiresAt r + gs_defaultGracePeriodMs s) \<longrightarrow> sub (gp_id r) \<noteq> None"
    and sub: "\<forall>r \<in> set (gd_proposals (gs_db q)). \<forall>j. sub (gp_id r) = Some j \<longrightarrow>
          gp_status r = QUEUED \<and> gp_expiresAt r \<le> ge_ledgerTime (E k) \<and> j < n
          \<and> (\<exists>rs. fst (gov_alone de E j ?c) = T_execSubmit cid (ge_ledgerTime (E k)) r rs)"
    using execution_alone [OF assms(2) q ids(2)] unfolding g by blast
  have "\<exists>j r' x rs. fst (gov_alone de E j ?c) = T_execSubmit cid (ge_ledgerTime (E k)) x rs \<and> same_proposal r x
      \<and> r' \<in> set (gd_proposals (gs_db s')) \<and> same_proposal r r' \<and> gp_status r' = EXECUTED
      \<and> gp_transactionHash r' = Some (ge_txHash (E j)) \<and> gp_executedAt r' = Some (ge_now (E (Suc j)))"
    if r: "r \<in> set (gd_proposals (gs_db s))" "gp_status r = QUEUED" "unnamed de (ge_events (E 0)) r"
      "gp_expiresAt r \<le> ge_ledgerTime (E k)" "\<forall>i < n. ge_now (E i) \<le> gp_expiresAt r + gs_defaultGracePeriodMs s" for r
  proof -
    have "still_queued r (gs_db q)" using ledger_still_queued [OF assms(1) q ids(1) r(1-3)] r(5) n(1) by simp
    then obtain x where x: "x \<in> set (gd_proposals (gs_db q))" "same_proposal r x" "gp_status x = QUEUED"
      "gp_expiresAt x = gp_expiresAt r" by (auto simp: still_queued_def)
    then obtain j where j: "sub (gp_id x) = Some j" using ready r(4,5) by auto
    then obtain rs where rs: "fst (gov_alone de E j ?c) = T_execSubmit cid (ge_ledgerTime (E k)) x rs" using sub x(1) by blast
    have "executed E sub x \<in> set (gd_proposals (gs_db s'))" using n(3) x(1) by simp
    moreover have "same_proposal r (executed E sub x)" "gp_status (executed E sub x) = EXECUTED"
      "gp_transactionHash (executed E sub x) = Some (ge_txHash (E j))"
      "gp_executedAt (executed E sub x) = Some (ge_now (E (Suc j)))"
      using x(2,3) j by (simp_all add: executed_def same_proposal_def)
    ultimately show ?thesis using rs x(2) by blast
  qed
  then show ?thesis unfolding run_def using q n sub by blast
qed

text \<open>The witness: the example proposal, with a clock that moves on by a millisecond a step.\<close>

definition ticking :: "nat \<Rightarrow> gov_env" where
  "ticking i = (at_time (2000 + int (min i 100)))\<lparr>ge_txHash := ''tx-'' @ show_int (int i)\<rparr>"

theorem ready_proposals_executed_witness:
  "\<exists>n s' j r. gov_alone example_decoding ticking n (tick_begin (Some ''C''), gy_service example_gov) = (T_done, s')
    \<and> r \<in> set (gd_proposals (gs_db s')) \<and> gp_id r = 1 \<and> gp_status r = EXECUTED
    \<and> gp_transactionHash r = Some (ge_txHash (ticking j))"
proof -
  let ?s = "gy_service example_gov"
  have p: "gd_proposals (gs_db ?s) = [example_proposal]" and g: "gs_defaultGracePeriodMs ?s = 5000"
    by (simp_all add: example_gov_def gov_init_def new_GovernanceTimelockService_def)
  have e: "\<forall>i. \<not> ge_fails (ticking i)" "\<forall>i. ge_now (ticking i) \<le> gp_expiresAt example_proposal + 5000"
    "\<forall>i. gp_expiresAt example_proposal \<le> ge_ledgerTime (ticking i)" "ge_events (ticking 0) = []"
    "gp_status example_proposal = QUEUED" "gp_id example_proposal = 1"
    by (auto simp: ticking_def at_time_def example_proposal_def min_def)
  have u: "unnamed example_decoding (ge_events (ticking 0)) example_proposal" by (simp add: unnamed_def e(4))
  have d: "distinct (map gp_id (gd_proposals (gs_db ?s)))" by (simp add: p)
  from ready_proposals_executed [where de = example_decoding and cid = "''C''", OF _ e(1) d]
  show ?thesis using u e(2,3,5,6) unfolding p g same_proposal_def by simp metis
qed

end
