(* ===== verification/OrderBookSnapshot.thy ===== *)
theory OrderBookSnapshot
  imports JSString
begin

text \<open>
  \<open>src/services/orderBookSnapshotEngine.ts\<close>: the order book kept in memory, its snapshots in Redis and
  the recovery after a restart.  Prices and amounts are finite numbers with rounded addition (\<open>None\<close>
  for a price that is not finite); a stored JSON text is represented by the value it encodes; times are
  in milliseconds.  A capture is cut at its two writes and at the export; a write that is rejected may
  still have reached the server.  Recovery and purging read one state of the store.

  The lemmas: capturing and recovering returns the same depth, and in every interleaving of updates,
  captures, failures, expiries, purges and restarts recovery never goes back behind the last completed
  capture.
\<close>

section \<open>The book\<close>

datatype book_side = Bid | Ask

type_synonym book = "(rat \<times> rat) list"

record book_snapshot =
  bs_version :: int
  bs_ledgerSeq :: int
  bs_capturedAt :: "int option"
  bs_bids :: book
  bs_asks :: book

record snapshot_config =
  sc_snapshotIntervalLedgers :: int
  sc_retentionDays :: int
  sc_purgeIntervalMs :: int
  sc_keyPrefix :: string

record snapshot_metrics =
  sm_snapshotsCaptured :: int
  sm_snapshotsRecovered :: int
  sm_snapshotsPurged :: int
  sm_lastSnapshotLedger :: "int option"
  sm_lastSnapshotAt :: "int option"
  sm_lastRecoveryAt :: "int option"
  sm_lastPurgeAt :: "int option"
  sm_captureErrors :: int

record snapshot_engine =
  oe_config :: snapshot_config
  oe_bids :: book
  oe_asks :: book
  oe_lastSnapshotLedger :: int
  oe_isCapturing :: bool
  oe_isRunning :: bool
  oe_metrics :: snapshot_metrics

definition DEFAULT_SNAPSHOT_CONFIG :: snapshot_config where
  "DEFAULT_SNAPSHOT_CONFIG = \<lparr>sc_snapshotIntervalLedgers = 10, sc_retentionDays = 7,
     sc_purgeIntervalMs = 60 * 60 * 1000, sc_keyPrefix = ''stellarflow:orderbook:snapshot''\<rparr>"

definition new_OrderBookSnapshotEngine :: "snapshot_config \<Rightarrow> snapshot_engine" where
  "new_OrderBookSnapshotEngine config =
     \<lparr>oe_config = config, oe_bids = [], oe_asks = [], oe_lastSnapshotLedger = 0, oe_isCapturing = False,
      oe_isRunning = False,
      oe_metrics = \<lparr>sm_snapshotsCaptured = 0, sm_snapshotsRecovered = 0, sm_snapshotsPurged = 0,
        sm_lastSnapshotLedger = None, sm_lastSnapshotAt = None, sm_lastRecoveryAt = None,
        sm_lastPurgeAt = None, sm_captureErrors = 0\<rparr>\<rparr>"

definition on_book :: "book_side \<Rightarrow> (book \<Rightarrow> book) \<Rightarrow> snapshot_engine \<Rightarrow> snapshot_engine" where
  "on_book side f en = (case side of
      Bid \<Rightarrow> en\<lparr>oe_bids := f (oe_bids en)\<rparr> | Ask \<Rightarrow> en\<lparr>oe_asks := f (oe_asks en)\<rparr>)"

definition applyDepthUpdate :: "book_side \<Rightarrow> rat option \<Rightarrow> rat \<Rightarrow> snapshot_engine \<Rightarrow> snapshot_engine" where
  "applyDepthUpdate side price amount en = (case price of
      None \<Rightarrow> en
    | Some p \<Rightarrow>
        (if p \<le> 0 then en
         else if amount \<le> 0 then on_book side (jm_delete p) en
         else on_book side (\<lambda>b. jm_set p (jsadd (case jm_get b p of Some a \<Rightarrow> a | None \<Rightarrow> 0) amount) b) en))"

definition setLevel :: "book_side \<Rightarrow> rat option \<Rightarrow> rat \<Rightarrow> snapshot_engine \<Rightarrow> snapshot_engine" where
  "setLevel side price amount en = (case price of
      None \<Rightarrow> en
    | Some p \<Rightarrow>
        (if p \<le> 0 then en
         else if amount \<le> 0 then on_book side (jm_delete p) en
         else on_book side (jm_set p amount) en))"

definition removeLevel :: "book_side \<Rightarrow> rat \<Rightarrow> snapshot_engine \<Rightarrow> snapshot_engine" where
  "removeLevel side p en = on_book side (jm_delete p) en"

definition clear_book :: "snapshot_engine \<Rightarrow> snapshot_engine" where
  "clear_book en = en\<lparr>oe_bids := [], oe_asks := []\<rparr>"

definition levelCount :: "snapshot_engine \<Rightarrow> nat" where
  "levelCount en = length (oe_bids en) + length (oe_asks en)"

definition bids_order :: "book \<Rightarrow> book" where "bids_order b = sort_key (\<lambda>l. - fst l) b"
definition asks_order :: "book \<Rightarrow> book" where "asks_order b = sort_key fst b"

definition book_depth :: "snapshot_engine \<Rightarrow> book \<times> book" where
  "book_depth en = (bids_order (oe_bids en), asks_order (oe_asks en))"

section \<open>The store\<close>

datatype stored = Stored_snapshot book_snapshot | Stored_text string

type_synonym redis_store = "(string \<times> stored) list"

definition snapshot_key :: "snapshot_config \<Rightarrow> string \<Rightarrow> string" where
  "snapshot_key c name = sc_keyPrefix c @ '':'' @ name"

definition ledger_key :: "snapshot_config \<Rightarrow> int \<Rightarrow> string" where
  "ledger_key c ledger = snapshot_key c (show_int ledger)"

definition latest_key :: "snapshot_config \<Rightarrow> string" where
  "latest_key c = snapshot_key c ''latest''"

section \<open>Capturing\<close>

datatype capture_phase =
    Writing_snapshot book_snapshot
  | Writing_latest book_snapshot
  | Exporting book_snapshot

datatype write_outcome = Written | Rejected bool

definition record_capture :: "int \<Rightarrow> int \<Rightarrow> snapshot_engine \<Rightarrow> snapshot_engine" where
  "record_capture now ledger en =
     en\<lparr>oe_lastSnapshotLedger := ledger,
        oe_metrics := (oe_metrics en)\<lparr>sm_snapshotsCaptured := sm_snapshotsCaptured (oe_metrics en) + 1,
          sm_lastSnapshotLedger := Some ledger, sm_lastSnapshotAt := Some now\<rparr>\<rparr>"

definition capture_failed :: "snapshot_engine \<Rightarrow> snapshot_engine" where
  "capture_failed en =
     en\<lparr>oe_isCapturing := False,
        oe_metrics := (oe_metrics en)\<lparr>sm_captureErrors := sm_captureErrors (oe_metrics en) + 1\<rparr>\<rparr>"

definition book_to_snapshot :: "int \<Rightarrow> int \<Rightarrow> snapshot_engine \<Rightarrow> book_snapshot" where
  "book_to_snapshot now ledger en =
     \<lparr>bs_version = 1, bs_ledgerSeq = ledger, bs_capturedAt = Some now,
      bs_bids = fst (book_depth en), bs_asks = snd (book_depth en)\<rparr>"

text \<open>Up to the first write; \<open>None\<close> when a capture is under way.\<close>

definition captureSnapshot :: "bool \<Rightarrow> int \<Rightarrow> int \<Rightarrow> snapshot_engine \<Rightarrow> capture_phase option \<times> snapshot_engine" where
  "captureSnapshot isOpen now ledger en =
     (if oe_isCapturing en then (None, en)
      else let snap = book_to_snapshot now ledger en; en1 = en\<lparr>oe_isCapturing := True\<rparr> in
           if isOpen then (Some (Writing_snapshot snap), en1)
           else (Some (Exporting snap), record_capture now ledger en1))"

definition write_key :: "write_outcome \<Rightarrow> string \<Rightarrow> stored \<Rightarrow> redis_store \<Rightarrow> redis_store" where
  "write_key w k v rd = (if w = Rejected False then rd else jm_set k v rd)"

fun capture_resume ::
  "write_outcome \<Rightarrow> int \<Rightarrow> capture_phase \<Rightarrow> snapshot_engine \<times> redis_store
     \<Rightarrow> capture_phase option \<times> snapshot_engine \<times> redis_store" where
  "capture_resume w now (Writing_snapshot s) (en, rd) =
     (let rd' = write_key w (ledger_key (oe_config en) (bs_ledgerSeq s)) (Stored_snapshot s) rd in
      if w = Written then (Some (Writing_latest s), en, rd') else (None, capture_failed en, rd'))"
| "capture_resume w now (Writing_latest s) (en, rd) =
     (let rd' = write_key w (latest_key (oe_config en)) (Stored_text (show_int (bs_ledgerSeq s))) rd in
      if w = Written then (Some (Exporting s), record_capture now (bs_ledgerSeq s) en, rd')
      else (None, capture_failed en, rd'))"
| "capture_resume w now (Exporting s) (en, rd) = (None, en\<lparr>oe_isCapturing := False\<rparr>, rd)"

definition snapshot_onNewLedger :: "bool \<Rightarrow> int \<Rightarrow> int \<Rightarrow> snapshot_engine \<Rightarrow> capture_phase option \<times> snapshot_engine" where
  "snapshot_onNewLedger isOpen now ledger en =
     (if \<not> oe_isRunning en then (None, en)
      else if ledger - oe_lastSnapshotLedger en < sc_snapshotIntervalLedgers (oe_config en) then (None, en)
      else captureSnapshot isOpen now ledger en)"

section \<open>Recovery and purging\<close>

fun restore_levels :: "book \<Rightarrow> book \<Rightarrow> book" where
  "restore_levels [] b = b"
| "restore_levels ((p, a) # ls) b = restore_levels ls (if a > 0 then jm_set p a b else b)"

definition applySnapshot :: "book_snapshot \<Rightarrow> snapshot_engine \<Rightarrow> snapshot_engine" where
  "applySnapshot s en = en\<lparr>oe_bids := restore_levels (bs_bids s) [], oe_asks := restore_levels (bs_asks s) []\<rparr>"

text \<open>
  Only the engine writes under its prefix, so that the key of a ledger holds a snapshot; any other value
  is taken as unreadable.
\<close>

definition latest_snapshot :: "snapshot_config \<Rightarrow> redis_store \<Rightarrow> book_snapshot option" where
  "latest_snapshot c rd = (case jm_get rd (latest_key c) of
      Some (Stored_text l) \<Rightarrow>
        (if l = [] then None
         else case jm_get rd (snapshot_key c l) of Some (Stored_snapshot s) \<Rightarrow> Some s | _ \<Rightarrow> None)
    | _ \<Rightarrow> None)"

definition recoverFromLatestSnapshot ::
  "bool \<Rightarrow> int \<Rightarrow> redis_store \<Rightarrow> snapshot_engine \<Rightarrow> book_snapshot option \<times> snapshot_engine" where
  "recoverFromLatestSnapshot isOpen now rd en =
     (if \<not> isOpen then (None, en)
      else case latest_snapshot (oe_config en) rd of
        None \<Rightarrow> (None, en)
      | Some s \<Rightarrow>
          (let en1 = applySnapshot s en in
           (Some s, en1\<lparr>oe_lastSnapshotLedger := bs_ledgerSeq s,
              oe_metrics := (oe_metrics en1)\<lparr>sm_snapshotsRecovered := sm_snapshotsRecovered (oe_metrics en1) + 1,
                sm_lastSnapshotLedger := Some (bs_ledgerSeq s), sm_lastRecoveryAt := Some now\<rparr>\<rparr>)))"

definition starts_with_prefix :: "snapshot_config \<Rightarrow> string \<Rightarrow> bool" where
  "starts_with_prefix c k \<longleftrightarrow> take (length (sc_keyPrefix c) + 1) k = sc_keyPrefix c @ '':''"

definition is_expired :: "int \<Rightarrow> stored \<Rightarrow> bool" where
  "is_expired cutoff v = (case v of
      Stored_snapshot s \<Rightarrow> (case bs_capturedAt s of Some t \<Rightarrow> t < cutoff | None \<Rightarrow> False)
    | Stored_text _ \<Rightarrow> True)"

definition purgeExpiredSnapshots ::
  "bool \<Rightarrow> int \<Rightarrow> redis_store \<times> snapshot_engine \<Rightarrow> int \<times> redis_store \<times> snapshot_engine" where
  "purgeExpiredSnapshots isOpen now = (\<lambda>(rd, en).
     if \<not> isOpen then (0, rd, en)
     else let cutoff = now - sc_retentionDays (oe_config en) * 24 * 60 * 60 * 1000;
              purge = (\<lambda>(k, v). starts_with_prefix (oe_config en) k \<and> k \<noteq> latest_key (oe_config en) \<and> is_expired cutoff v);
              keysToDelete = map fst (filter purge rd);
              n = int (length keysToDelete) in
          (n, fold jm_delete keysToDelete rd,
           en\<lparr>oe_metrics := (oe_metrics en)\<lparr>sm_snapshotsPurged := sm_snapshotsPurged (oe_metrics en) + n,
                sm_lastPurgeAt := Some now\<rparr>\<rparr>))"

text \<open>\<open>start\<close> recovers first; \<open>stop\<close> only clears the flag (the purge timer is left out).\<close>

definition snapshot_start :: "bool \<Rightarrow> int \<Rightarrow> redis_store \<Rightarrow> snapshot_engine \<Rightarrow> snapshot_engine" where
  "snapshot_start isOpen now rd en =
     (if oe_isRunning en then en
      else snd (recoverFromLatestSnapshot isOpen now rd (en\<lparr>oe_isRunning := True\<rparr>)))"

definition snapshot_stop :: "snapshot_engine \<Rightarrow> snapshot_engine" where
  "snapshot_stop en = en\<lparr>oe_isRunning := False\<rparr>"

section \<open>Books\<close>

definition book_ok :: "book \<Rightarrow> bool" where
  "book_ok b \<longleftrightarrow> distinct (map fst b) \<and> (\<forall>(p, a) \<in> set b. 0 < a)"

definition engine_ok :: "snapshot_engine \<Rightarrow> bool" where
  "engine_ok en \<longleftrightarrow> book_ok (oe_bids en) \<and> book_ok (oe_asks en)"

text \<open>What a snapshot holds: the levels of a book in order.\<close>

definition snapshot_ok :: "book_snapshot \<Rightarrow> bool" where
  "snapshot_ok s \<longleftrightarrow> book_ok (bs_bids s) \<and> book_ok (bs_asks s)
     \<and> bids_order (bs_bids s) = bs_bids s \<and> asks_order (bs_asks s) = bs_asks s"

lemma jsadd_pos: "0 \<le> x \<Longrightarrow> 0 < y \<Longrightarrow> 0 < jsadd x y"
proof -
  assume "0 \<le> x" "0 < y"
  then have "(2::rat) powi fexp (x + y) \<le> fl (x + y)" by (intro fl_bounds_pos(1)) simp
  moreover have "0 < (2::rat) powi fexp (x + y)" by simp
  ultimately show ?thesis unfolding jsadd_def by linarith
qed

lemma book_ok_set: "book_ok b \<Longrightarrow> 0 < a \<Longrightarrow> book_ok (jm_set p a b)"
  by (auto simp: book_ok_def dest!: jm_set_entries)

lemma book_ok_delete: "book_ok b \<Longrightarrow> book_ok (jm_delete p b)"
  unfolding book_ok_def using jm_distinct_delete [of b p] by (auto simp: jm_delete_def)

lemma book_ok_order: "book_ok (bids_order b) = book_ok b" "book_ok (asks_order b) = book_ok b"
  by (simp_all add: book_ok_def bids_order_def asks_order_def distinct_map)

lemma order_idem: "bids_order (bids_order b) = bids_order b" "asks_order (asks_order b) = asks_order b"
  by (simp_all add: bids_order_def asks_order_def sort_key_id_if_sorted)

lemma book_ok_get: "book_ok b \<Longrightarrow> jm_get b p = Some a \<Longrightarrow> 0 < a"
  by (auto simp: book_ok_def dest!: map_of_SomeD)

lemma on_book_ok: "engine_ok en \<Longrightarrow> (\<And>b. book_ok b \<Longrightarrow> book_ok (f b)) \<Longrightarrow> engine_ok (on_book side f en)"
  by (auto simp: engine_ok_def on_book_def split: book_side.split)

lemma added_level_ok:
  "0 < amount \<Longrightarrow> book_ok b \<Longrightarrow> book_ok (jm_set p (jsadd (case jm_get b p of Some a \<Rightarrow> a | None \<Rightarrow> 0) amount) b)"
  by (rule book_ok_set) (auto split: option.split intro!: jsadd_pos dest: book_ok_get)

lemma book_ops_ok:
  assumes "engine_ok en"
  shows "engine_ok (applyDepthUpdate side price amount en)" "engine_ok (setLevel side price amount en)"
    "engine_ok (removeLevel side p en)" "engine_ok (clear_book en)"
  using assms
  by (auto simp: applyDepthUpdate_def setLevel_def removeLevel_def split: option.split
      intro!: on_book_ok book_ok_delete book_ok_set added_level_ok)
    (simp add: clear_book_def engine_ok_def book_ok_def)

lemma restore_levels_append:
  assumes "book_ok (b @ ls)"
  shows "restore_levels ls b = b @ ls"
  using assms
proof (induction ls arbitrary: b)
  case (Cons l ls)
  obtain p a where l: "l = (p, a)" by fastforce
  have "jm_set p a b = b @ [(p, a)]" if "p \<notin> fst ` set b" for b :: book
    using that by (induction b) auto
  moreover have "p \<notin> fst ` set b" "0 < a" using Cons.prems l by (auto simp: book_ok_def)
  ultimately show ?case using Cons.IH [of "b @ [l]"] Cons.prems l by simp
qed simp

lemma applySnapshot_depth:
  assumes "snapshot_ok s"
  shows "engine_ok (applySnapshot s en)" "book_depth (applySnapshot s en) = (bs_bids s, bs_asks s)"
  using assms restore_levels_append [of "[]"]
  by (auto simp: snapshot_ok_def applySnapshot_def engine_ok_def book_depth_def)

lemma book_to_snapshot_ok: "engine_ok en \<Longrightarrow> snapshot_ok (book_to_snapshot now ledger en)"
  by (simp add: snapshot_ok_def book_to_snapshot_def book_depth_def engine_ok_def book_ok_order order_idem)

section \<open>Keys\<close>

lemma show_nat_inj: "show_nat a = show_nat b \<Longrightarrow> a = b"
  by (metis read_show_nat)

lemma show_int_head: "c \<in> set (show_int z) \<Longrightarrow> is_digit c \<or> c = CHR ''-''"
  by (auto simp: show_int_def show_nat_digits split: if_splits)

lemma show_nat_no_minus: "show_nat a \<noteq> CHR ''-'' # s"
  using show_nat_digits [of "CHR ''-''" a] by (auto simp: is_digit_def)

lemma show_int_inj: "show_int a = show_int b \<Longrightarrow> a = b"
  using show_nat_no_minus [of "nat a" "show_nat (nat (- b))"] show_nat_no_minus [of "nat b" "show_nat (nat (- a))"]
    show_nat_inj [of "nat a" "nat b"] show_nat_inj [of "nat (- a)" "nat (- b)"]
  by (auto simp: show_int_def eq_nat_nat_iff split: if_splits)

lemma show_int_not_latest: "show_int z \<noteq> ''latest''"
  using show_int_head [of "CHR ''l''" z] by (auto simp: is_digit_def)

lemma show_int_not_Nil: "show_int z \<noteq> []"
  by (simp add: show_int_def)

lemma key_simps [simp]:
  "snapshot_key c a = snapshot_key c b \<longleftrightarrow> a = b"
  "ledger_key c l = ledger_key c l' \<longleftrightarrow> l = l'"
  "ledger_key c l \<noteq> latest_key c" "latest_key c \<noteq> ledger_key c l"
  using show_int_not_latest [of l] by (auto simp: snapshot_key_def ledger_key_def latest_key_def dest: show_int_inj)

section \<open>Interleavings\<close>

text \<open>
  The system: the engine, the store, the phase of the capture under way, and two ghosts: the snapshots
  taken so far, and the position of the last one whose two writes were confirmed.
\<close>

record snapshot_system =
  os_engine :: snapshot_engine
  os_redis :: redis_store
  os_capture :: "capture_phase option"
  os_taken :: "book_snapshot list"
  os_completed :: "nat option"

definition snapshot_system_init :: "snapshot_config \<Rightarrow> snapshot_system" where
  "snapshot_system_init c =
     \<lparr>os_engine = new_OrderBookSnapshotEngine c, os_redis = [], os_capture = None, os_taken = [], os_completed = None\<rparr>"

fun phase_snapshot :: "capture_phase \<Rightarrow> book_snapshot" where
  "phase_snapshot (Writing_snapshot s) = s"
| "phase_snapshot (Writing_latest s) = s"
| "phase_snapshot (Exporting s) = s"

fun completes :: "write_outcome \<Rightarrow> capture_phase \<Rightarrow> bool" where
  "completes w (Writing_latest s) = (w = Written)"
| "completes w _ = False"

inductive snapshot_step :: "snapshot_system \<Rightarrow> snapshot_system \<Rightarrow> bool" where
  update: "snapshot_step y (y\<lparr>os_engine := applyDepthUpdate side price amount (os_engine y)\<rparr>)"
| level: "snapshot_step y (y\<lparr>os_engine := setLevel side price amount (os_engine y)\<rparr>)"
| remove: "snapshot_step y (y\<lparr>os_engine := removeLevel side p (os_engine y)\<rparr>)"
| clear: "snapshot_step y (y\<lparr>os_engine := clear_book (os_engine y)\<rparr>)"
| capture: "captureSnapshot isOpen now ledger (os_engine y) = (Some ph, en) \<Longrightarrow>
     snapshot_step y (y\<lparr>os_engine := en, os_capture := Some ph, os_taken := os_taken y @ [phase_snapshot ph]\<rparr>)"
| resume: "os_capture y = Some ph \<Longrightarrow> capture_resume w now ph (os_engine y, os_redis y) = (ph', en, rd) \<Longrightarrow>
     snapshot_step y (y\<lparr>os_engine := en, os_redis := rd, os_capture := ph',
       os_completed := if completes w ph then Some (length (os_taken y) - 1) else os_completed y\<rparr>)"
| expire: "snapshot_step y (y\<lparr>os_redis := jm_delete k (os_redis y)\<rparr>)"
| purge: "purgeExpiredSnapshots isOpen now (os_redis y, os_engine y) = (n, rd, en) \<Longrightarrow>
     snapshot_step y (y\<lparr>os_engine := en, os_redis := rd\<rparr>)"
| restart: "snapshot_step y (y\<lparr>os_capture := None, os_engine :=
     snapshot_start isOpen now (os_redis y) (new_OrderBookSnapshotEngine (oe_config (os_engine y)))\<rparr>)"

text \<open>
  The invariant: the pointer names a snapshot that was taken no earlier than the last completed one, and
  the key of a ledger, when it is there, holds a snapshot of that ledger no older than the pointer.
\<close>

definition stored_since :: "snapshot_config \<Rightarrow> redis_store \<Rightarrow> book_snapshot list \<Rightarrow> nat \<Rightarrow> bool" where
  "stored_since c rd taken i \<longleftrightarrow> (\<forall>v. jm_get rd (ledger_key c (bs_ledgerSeq (taken ! i))) = Some v \<longrightarrow>
     (\<exists>j \<ge> i. j < length taken \<and> v = Stored_snapshot (taken ! j)))"

definition pointer_ok :: "snapshot_config \<Rightarrow> redis_store \<Rightarrow> book_snapshot list \<Rightarrow> nat option \<Rightarrow> bool" where
  "pointer_ok c rd taken completed \<longleftrightarrow> (\<forall>v. jm_get rd (latest_key c) = Some v \<longrightarrow>
     (\<exists>i < length taken. v = Stored_text (show_int (bs_ledgerSeq (taken ! i)))
        \<and> (\<forall>d. completed = Some d \<longrightarrow> d \<le> i) \<and> stored_since c rd taken i))"

fun phase_ok :: "snapshot_config \<Rightarrow> redis_store \<Rightarrow> book_snapshot list \<Rightarrow> capture_phase \<Rightarrow> bool" where
  "phase_ok c rd taken (Writing_latest s) =
     (taken \<noteq> [] \<and> s = last taken \<and> stored_since c rd taken (length taken - 1))"
| "phase_ok c rd taken ph = (taken \<noteq> [] \<and> phase_snapshot ph = last taken)"

definition snapshot_inv :: "snapshot_system \<Rightarrow> bool" where
  "snapshot_inv y \<longleftrightarrow> engine_ok (os_engine y) \<and> (\<forall>s \<in> set (os_taken y). snapshot_ok s)
     \<and> (os_capture y \<noteq> None \<longleftrightarrow> oe_isCapturing (os_engine y))
     \<and> (\<forall>ph. os_capture y = Some ph \<longrightarrow> phase_ok (oe_config (os_engine y)) (os_redis y) (os_taken y) ph)
     \<and> (\<forall>d. os_completed y = Some d \<longrightarrow> d < length (os_taken y))
     \<and> pointer_ok (oe_config (os_engine y)) (os_redis y) (os_taken y) (os_completed y)"

lemma stored_since_less: "(\<And>k v. jm_get rd' k = Some v \<Longrightarrow> jm_get rd k = Some v) \<Longrightarrow>
    stored_since c rd taken i \<Longrightarrow> stored_since c rd' taken i"
  by (auto simp: stored_since_def)

lemma stored_since_snoc: "i < length taken \<Longrightarrow> stored_since c rd taken i \<Longrightarrow> stored_since c rd (taken @ [s]) i"
  by (fastforce simp: stored_since_def nth_append)

lemma pointer_ok_less: "(\<And>k v. jm_get rd' k = Some v \<Longrightarrow> jm_get rd k = Some v) \<Longrightarrow>
    pointer_ok c rd taken d \<Longrightarrow> pointer_ok c rd' taken d"
  unfolding pointer_ok_def using stored_since_less [of rd' rd] by metis

lemma phase_ok_less: "(\<And>k v. jm_get rd' k = Some v \<Longrightarrow> jm_get rd k = Some v) \<Longrightarrow>
    phase_ok c rd taken ph \<Longrightarrow> phase_ok c rd' taken ph"
  by (cases ph) (auto intro: stored_since_less)

lemma pointer_ok_snoc:
  assumes "pointer_ok c rd taken d"
  shows "pointer_ok c rd (taken @ [s]) d"
  unfolding pointer_ok_def
proof (intro allI impI)
  fix v assume "jm_get rd (latest_key c) = Some v"
  then obtain i where "i < length taken" "v = Stored_text (show_int (bs_ledgerSeq (taken ! i)))"
      "\<forall>x. d = Some x \<longrightarrow> x \<le> i" "stored_since c rd taken i"
    using assms by (auto simp: pointer_ok_def)
  then show "\<exists>i < length (taken @ [s]). v = Stored_text (show_int (bs_ledgerSeq ((taken @ [s]) ! i)))
      \<and> (\<forall>x. d = Some x \<longrightarrow> x \<le> i) \<and> stored_since c rd (taken @ [s]) i"
    by (intro exI [of _ i]) (simp add: nth_append stored_since_snoc)
qed

lemma stored_since_write:
  assumes "taken \<noteq> []" "i < length taken" "stored_since c rd taken i"
  shows "stored_since c (jm_set (ledger_key c (bs_ledgerSeq (last taken))) (Stored_snapshot (last taken)) rd) taken i"
  using assms by (auto simp: stored_since_def last_conv_nth intro!: exI [of _ "length taken - 1"])

lemma stored_since_written:
  assumes "taken \<noteq> []"
  shows "stored_since c (jm_set (ledger_key c (bs_ledgerSeq (last taken))) (Stored_snapshot (last taken)) rd) taken (length taken - 1)"
  using assms by (auto simp: stored_since_def last_conv_nth intro!: exI [of _ "length taken - 1"])

lemma pointer_ok_write:
  assumes "taken \<noteq> []" "pointer_ok c rd taken d"
  shows "pointer_ok c (jm_set (ledger_key c (bs_ledgerSeq (last taken))) (Stored_snapshot (last taken)) rd) taken d"
  unfolding pointer_ok_def
proof (intro allI impI)
  fix v assume "jm_get (jm_set (ledger_key c (bs_ledgerSeq (last taken))) (Stored_snapshot (last taken)) rd) (latest_key c) = Some v"
  then obtain i where "i < length taken" "v = Stored_text (show_int (bs_ledgerSeq (taken ! i)))"
      "\<forall>x. d = Some x \<longrightarrow> x \<le> i" "stored_since c rd taken i"
    using assms(2) by (auto simp: pointer_ok_def)
  then show "\<exists>i < length taken. v = Stored_text (show_int (bs_ledgerSeq (taken ! i)))
      \<and> (\<forall>x. d = Some x \<longrightarrow> x \<le> i)
      \<and> stored_since c (jm_set (ledger_key c (bs_ledgerSeq (last taken))) (Stored_snapshot (last taken)) rd) taken i"
    using stored_since_write [OF assms(1)] by blast
qed

lemma pointer_ok_latest:
  assumes "taken \<noteq> []" "stored_since c rd taken (length taken - 1)" "\<And>x. d = Some x \<Longrightarrow> x < length taken"
  shows "pointer_ok c (jm_set (latest_key c) (Stored_text (show_int (bs_ledgerSeq (last taken)))) rd) taken d"
  unfolding pointer_ok_def
proof (intro allI impI)
  fix v assume "jm_get (jm_set (latest_key c) (Stored_text (show_int (bs_ledgerSeq (last taken)))) rd) (latest_key c) = Some v"
  then have "v = Stored_text (show_int (bs_ledgerSeq (taken ! (length taken - 1))))"
    using assms(1) by (simp add: last_conv_nth)
  moreover have "stored_since c (jm_set (latest_key c) w rd) taken (length taken - 1)" for w
    using assms(2) by (simp add: stored_since_def)
  ultimately show "\<exists>i < length taken. v = Stored_text (show_int (bs_ledgerSeq (taken ! i)))
      \<and> (\<forall>x. d = Some x \<longrightarrow> x \<le> i)
      \<and> stored_since c (jm_set (latest_key c) (Stored_text (show_int (bs_ledgerSeq (last taken)))) rd) taken i"
    using assms(1,3) by (intro exI [of _ "length taken - 1"]) fastforce
qed

lemma engine_frames [simp]:
  "oe_config (applyDepthUpdate side price amount en) = oe_config en"
  "oe_isCapturing (applyDepthUpdate side price amount en) = oe_isCapturing en"
  "oe_config (setLevel side price amount en) = oe_config en"
  "oe_isCapturing (setLevel side price amount en) = oe_isCapturing en"
  "oe_config (removeLevel side p en) = oe_config en" "oe_isCapturing (removeLevel side p en) = oe_isCapturing en"
  "oe_config (clear_book en) = oe_config en" "oe_isCapturing (clear_book en) = oe_isCapturing en"
  "oe_config (record_capture now l en) = oe_config en" "oe_config (capture_failed en) = oe_config en"
  "engine_ok (record_capture now l en) = engine_ok en" "engine_ok (capture_failed en) = engine_ok en"
  "oe_isCapturing (record_capture now l en) = oe_isCapturing en" "\<not> oe_isCapturing (capture_failed en)"
  by (auto simp: applyDepthUpdate_def setLevel_def removeLevel_def clear_book_def on_book_def record_capture_def
      capture_failed_def engine_ok_def split: option.split book_side.split)

lemma captureSnapshotD:
  "captureSnapshot isOpen now ledger en = (Some ph, en') \<Longrightarrow>
     \<not> oe_isCapturing en \<and> oe_isCapturing en' \<and> oe_config en' = oe_config en \<and> engine_ok en' = engine_ok en
     \<and> phase_snapshot ph = book_to_snapshot now ledger en \<and> (\<forall>s. ph \<noteq> Writing_latest s)"
  by (auto simp: captureSnapshot_def Let_def engine_ok_def split: if_splits) (auto simp: record_capture_def)

lemma capture_inv:
  assumes "snapshot_inv y" "captureSnapshot isOpen now ledger (os_engine y) = (Some ph, en)"
  shows "snapshot_inv (y\<lparr>os_engine := en, os_capture := Some ph, os_taken := os_taken y @ [phase_snapshot ph]\<rparr>)"
proof -
  note c = captureSnapshotD [OF assms(2)]
  have "phase_ok (oe_config en) (os_redis y) (os_taken y @ [phase_snapshot ph]) ph" using c by (cases ph) auto
  then show ?thesis using assms(1) c book_to_snapshot_ok [of "os_engine y" now ledger]
    by (auto simp: snapshot_inv_def intro: pointer_ok_snoc less_SucI)
qed

lemma resume_snapshot_inv:
  assumes inv: "snapshot_inv y" and ph: "os_capture y = Some ph"
    and r: "capture_resume w now ph (os_engine y, os_redis y) = (ph', en, rd)"
  shows "snapshot_inv (y\<lparr>os_engine := en, os_redis := rd, os_capture := ph',
       os_completed := if completes w ph then Some (length (os_taken y) - 1) else os_completed y\<rparr>)"
proof (cases ph)
  case (Writing_snapshot s)
  then have s: "os_taken y \<noteq> []" "s = last (os_taken y)" using inv ph by (auto simp: snapshot_inv_def)
  show ?thesis using inv r s(1) unfolding snapshot_inv_def
    by (auto simp: Writing_snapshot s(2) write_key_def Let_def ph simp del: One_nat_def
        intro: pointer_ok_write stored_since_written split: if_splits)
next
  case (Writing_latest s)
  then have s: "os_taken y \<noteq> []" "s = last (os_taken y)"
      "stored_since (oe_config (os_engine y)) (os_redis y) (os_taken y) (length (os_taken y) - 1)"
    using inv ph by (auto simp: snapshot_inv_def)
  show ?thesis using inv r s(1,3) unfolding snapshot_inv_def
    by (auto simp: Writing_latest s(2) write_key_def Let_def ph simp del: One_nat_def
        intro!: pointer_ok_latest split: if_splits)
next
  case (Exporting s)
  then show ?thesis using inv r by (auto simp: snapshot_inv_def engine_ok_def)
qed

lemma latest_snapshot_taken:
  assumes "pointer_ok c rd taken d" "latest_snapshot c rd = Some s"
  shows "\<exists>j < length taken. s = taken ! j \<and> (\<forall>x. d = Some x \<longrightarrow> x \<le> j)"
proof -
  obtain l where l: "jm_get rd (latest_key c) = Some (Stored_text l)"
      "jm_get rd (snapshot_key c l) = Some (Stored_snapshot s)"
    using assms(2) by (auto simp: latest_snapshot_def split: option.splits stored.splits if_splits)
  obtain i where i: "l = show_int (bs_ledgerSeq (taken ! i))" "\<forall>x. d = Some x \<longrightarrow> x \<le> i" "stored_since c rd taken i"
    using assms(1) l(1) by (auto simp: pointer_ok_def)
  obtain j where "i \<le> j" "j < length taken" "s = taken ! j"
    using i(3) l(2) by (auto simp: stored_since_def ledger_key_def i(1))
  then show ?thesis using i(2) by (intro exI [of _ j]) fastforce
qed

lemma recover_engine:
  assumes "recoverFromLatestSnapshot isOpen now rd en = (r, en')" "\<And>s. latest_snapshot (oe_config en) rd = Some s \<Longrightarrow> snapshot_ok s"
    "engine_ok en"
  shows "engine_ok en'" "oe_config en' = oe_config en" "oe_isCapturing en' = oe_isCapturing en"
    "r = Some s \<Longrightarrow> latest_snapshot (oe_config en) rd = Some s \<and> book_depth en' = (bs_bids s, bs_asks s)"
  using assms applySnapshot_depth [of _ en]
  by (auto simp: recoverFromLatestSnapshot_def Let_def engine_ok_def book_depth_def split: if_splits option.splits)
    (auto simp: applySnapshot_def)

lemma snapshot_start_inv:
  assumes "snapshot_inv y"
  shows "snapshot_inv (y\<lparr>os_capture := None, os_engine :=
     snapshot_start isOpen now (os_redis y) (new_OrderBookSnapshotEngine (oe_config (os_engine y)))\<rparr>)"
proof -
  let ?c = "oe_config (os_engine y)" and ?n = "(new_OrderBookSnapshotEngine (oe_config (os_engine y)))\<lparr>oe_isRunning := True\<rparr>"
  obtain r en where e: "recoverFromLatestSnapshot isOpen now (os_redis y) ?n = (r, en)" by fastforce
  have c: "oe_config ?n = ?c" "\<not> oe_isCapturing ?n" "engine_ok ?n"
    by (simp_all add: new_OrderBookSnapshotEngine_def engine_ok_def book_ok_def)
  have ok: "snapshot_ok s" if "latest_snapshot (oe_config ?n) (os_redis y) = Some s" for s
    using latest_snapshot_taken [of ?c "os_redis y" "os_taken y" "os_completed y" s] that assms
    by (auto simp: snapshot_inv_def c(1))
  from recover_engine(1-3) [OF e ok c(3)] c(1,2) e show ?thesis
    using assms by (simp add: snapshot_inv_def snapshot_start_def new_OrderBookSnapshotEngine_def)
qed

lemma snapshot_inv_less:
  assumes "snapshot_inv y" "\<And>k v. jm_get rd k = Some v \<Longrightarrow> jm_get (os_redis y) k = Some v"
    and "oe_config en = oe_config (os_engine y)" "oe_isCapturing en = oe_isCapturing (os_engine y)"
    "engine_ok en = engine_ok (os_engine y)"
  shows "snapshot_inv (y\<lparr>os_engine := en, os_redis := rd\<rparr>)"
  using assms pointer_ok_less [of rd "os_redis y"] phase_ok_less [of rd "os_redis y"]
  by (auto simp: snapshot_inv_def)

lemma get_fold_delete: "jm_get (fold jm_delete ks rd) k = Some v \<Longrightarrow> jm_get rd k = Some v"
proof (induction ks arbitrary: rd)
  case (Cons a ks)
  have "jm_get (jm_delete a rd) k = Some v" by (rule Cons.IH) (use Cons.prems in simp)
  then show ?case by (simp split: if_splits)
qed simp

lemma snapshot_inv_engine:
  assumes "snapshot_inv y" "oe_config en = oe_config (os_engine y)" "oe_isCapturing en = oe_isCapturing (os_engine y)"
    "engine_ok en"
  shows "snapshot_inv (y\<lparr>os_engine := en\<rparr>)"
  using assms by (simp add: snapshot_inv_def)

lemma snapshot_inv_engine_ok: "snapshot_inv y \<Longrightarrow> engine_ok (os_engine y)"
  by (simp add: snapshot_inv_def)

lemma snapshot_step_inv: "snapshot_step y y' \<Longrightarrow> snapshot_inv y \<Longrightarrow> snapshot_inv y'"
proof (induction rule: snapshot_step.induct)
  case (expire y k)
  then have "snapshot_inv (y\<lparr>os_engine := os_engine y, os_redis := jm_delete k (os_redis y)\<rparr>)"
    by (intro snapshot_inv_less) (auto split: if_splits)
  then show ?case by simp
next
  case (purge isOpen now y n rd en)
  have "\<exists>ks. rd = fold jm_delete ks (os_redis y)"
    using purge(1) by (auto simp: purgeExpiredSnapshots_def Let_def split: if_splits) (metis fold_simps(1))
  then have "jm_get (os_redis y) k = Some v" if "jm_get rd k = Some v" for k v using get_fold_delete that by metis
  moreover have "oe_config en = oe_config (os_engine y)" "oe_isCapturing en = oe_isCapturing (os_engine y)"
    "engine_ok en = engine_ok (os_engine y)"
    using purge(1) by (auto simp: purgeExpiredSnapshots_def Let_def engine_ok_def split: if_splits)
  ultimately show ?case using purge(2) by (intro snapshot_inv_less) auto
next
  case (capture isOpen now ledger y ph en)
  then show ?case by (simp add: capture_inv)
next
  case (resume y ph w now ph' en rd)
  then show ?case by (intro resume_snapshot_inv)
next
  case (restart y isOpen now)
  then show ?case by (intro snapshot_start_inv)
qed (intro snapshot_inv_engine, simp_all add: book_ops_ok snapshot_inv_engine_ok)+

lemma snapshot_reachable_inv: "snapshot_step\<^sup>*\<^sup>* (snapshot_system_init c) y \<Longrightarrow> snapshot_inv y"
proof (induction rule: rtranclp_induct)
  case base
  show ?case
    by (simp add: snapshot_inv_def snapshot_system_init_def new_OrderBookSnapshotEngine_def engine_ok_def book_ok_def pointer_ok_def)
qed (rule snapshot_step_inv)

section \<open>Theorems\<close>

text \<open>
  C3. In every interleaving of book updates, captures, rejected writes, expiring keys, purges and restarts:
  what a restarted engine recovers is a snapshot taken before, no older than the last capture whose
  writes were confirmed, and its depth is the depth of that snapshot.
\<close>
theorem recovery_never_behind:
  assumes "snapshot_step\<^sup>*\<^sup>* (snapshot_system_init c) y" "engine_ok en" "oe_config en = oe_config (os_engine y)"
    and "recoverFromLatestSnapshot isOpen now (os_redis y) en = (Some s, en')"
  shows "\<exists>j < length (os_taken y). s = os_taken y ! j \<and> (\<forall>d. os_completed y = Some d \<longrightarrow> d \<le> j)
    \<and> book_depth en' = (bs_bids s, bs_asks s)"
proof -
  have inv: "snapshot_inv y" using assms(1) by (rule snapshot_reachable_inv)
  then have ok: "snapshot_ok s'" if "latest_snapshot (oe_config en) (os_redis y) = Some s'" for s'
    using latest_snapshot_taken [of "oe_config en" "os_redis y" "os_taken y" "os_completed y" s'] that assms(3)
    by (auto simp: snapshot_inv_def)
  show ?thesis
    using recover_engine(4) [OF assms(4) ok assms(2)] inv assms(3)
      latest_snapshot_taken [of "oe_config en" "os_redis y" "os_taken y" "os_completed y" s]
    by (auto simp: snapshot_inv_def)
qed

text \<open>
  A capture whose writes succeed can be recovered: an engine that starts on the resulting store has the
  depth of the book at the time of the capture, and the ledger of the capture as its last one.
\<close>
theorem capture_recovers:
  assumes "engine_ok en" "\<not> oe_isCapturing en"
    and "captureSnapshot True t ledger en = (Some ph, en1)"
    and "capture_resume Written t ph (en1, rd) = (Some ph1, en2, rd1)"
    and "capture_resume Written t ph1 (en2, rd1) = (Some ph2, en3, rd2)"
  shows "book_depth (snapshot_start True now rd2 (new_OrderBookSnapshotEngine (oe_config en))) = book_depth en
    \<and> oe_lastSnapshotLedger (snapshot_start True now rd2 (new_OrderBookSnapshotEngine (oe_config en))) = ledger"
proof -
  let ?s = "book_to_snapshot t ledger en" and ?c = "oe_config en"
  have ph: "ph = Writing_snapshot ?s" "oe_config en1 = ?c"
    using assms(2,3) by (auto simp: captureSnapshot_def Let_def)
  then have "rd2 = jm_set (latest_key ?c) (Stored_text (show_int ledger)) (jm_set (ledger_key ?c ledger) (Stored_snapshot ?s) rd)"
    using assms(4,5) by (auto simp: write_key_def Let_def book_to_snapshot_def)
  then have l: "latest_snapshot ?c rd2 = Some ?s"
    using key_simps(3) [of ?c ledger] by (simp add: latest_snapshot_def show_int_not_Nil ledger_key_def)
  let ?n = "new_OrderBookSnapshotEngine ?c\<lparr>oe_isRunning := True\<rparr>"
  have n: "oe_config ?n = ?c" "\<not> oe_isRunning (new_OrderBookSnapshotEngine ?c)"
    by (simp_all add: new_OrderBookSnapshotEngine_def)
  have "snapshot_ok ?s" using assms(1) by (rule book_to_snapshot_ok)
  then have "book_depth (applySnapshot ?s ?n) = book_depth en"
    by (simp add: applySnapshot_depth(2) book_to_snapshot_def)
  then show ?thesis
    by (simp add: snapshot_start_def n recoverFromLatestSnapshot_def l Let_def book_depth_def book_to_snapshot_def)
qed

section \<open>Witnesses\<close>

definition example_engine :: snapshot_engine where
  "example_engine = setLevel Ask (Some 3) 7 (setLevel Bid (Some 2) 5 (setLevel Bid (Some 1) 4
     (new_OrderBookSnapshotEngine DEFAULT_SNAPSHOT_CONFIG)))"

lemma example_engine_ok: "engine_ok example_engine"
  unfolding example_engine_def
  by (intro book_ops_ok) (simp add: new_OrderBookSnapshotEngine_def engine_ok_def book_ok_def)

lemmas example_engine_simps = example_engine_def setLevel_def on_book_def new_OrderBookSnapshotEngine_def
  captureSnapshot_def book_to_snapshot_def write_key_def record_capture_def Let_def

definition example_snapshot :: book_snapshot where
  "example_snapshot = book_to_snapshot 0 20 example_engine"

theorem capture_recovers_witness:
  "\<exists>rd. book_depth (snapshot_start True 9 rd (new_OrderBookSnapshotEngine DEFAULT_SNAPSHOT_CONFIG)) = ([(2, 5), (1, 4)], [(3, 7)])"
proof -
  have "book_depth example_engine = ([(2, 5), (1, 4)], [(3, 7)])"
    by (simp add: example_engine_simps book_depth_def bids_order_def asks_order_def)
  moreover have "oe_config example_engine = DEFAULT_SNAPSHOT_CONFIG" "\<not> oe_isCapturing example_engine"
    by (simp_all add: example_engine_simps)
  ultimately show ?thesis
    using capture_recovers [of example_engine 0 20 "Writing_snapshot example_snapshot" "example_engine\<lparr>oe_isCapturing := True\<rparr>" "[]"
        "Writing_latest example_snapshot" "example_engine\<lparr>oe_isCapturing := True\<rparr>" _ "Exporting example_snapshot" _ _ 9] example_engine_ok
    by (simp add: captureSnapshot_def example_snapshot_def Let_def write_key_def) metis
qed

text \<open>The system after one capture of an empty book with both writes confirmed.\<close>

definition example_captured :: snapshot_system where
  "example_captured =
    (let c = DEFAULT_SNAPSHOT_CONFIG; en = new_OrderBookSnapshotEngine c; s = book_to_snapshot 0 20 en in
     \<lparr>os_engine = record_capture 0 20 (en\<lparr>oe_isCapturing := True\<rparr>),
      os_redis = [(ledger_key c 20, Stored_snapshot s), (latest_key c, Stored_text (show_int 20))],
      os_capture = Some (Exporting s), os_taken = [s], os_completed = Some 0\<rparr>)"

lemma example_captured_reachable: "snapshot_step\<^sup>*\<^sup>* (snapshot_system_init DEFAULT_SNAPSHOT_CONFIG) example_captured"
proof -
  let ?y = "snapshot_system_init DEFAULT_SNAPSHOT_CONFIG" and ?en = "new_OrderBookSnapshotEngine DEFAULT_SNAPSHOT_CONFIG"
  let ?s = "book_to_snapshot 0 20 ?en"
  let ?y1 = "?y\<lparr>os_engine := ?en\<lparr>oe_isCapturing := True\<rparr>, os_capture := Some (Writing_snapshot ?s), os_taken := [?s]\<rparr>"
  let ?y2 = "?y1\<lparr>os_redis := [(ledger_key DEFAULT_SNAPSHOT_CONFIG 20, Stored_snapshot ?s)], os_capture := Some (Writing_latest ?s)\<rparr>"
  have i: "os_engine ?y = ?en" "os_redis ?y = []" "os_taken ?y = []" "oe_config ?en = DEFAULT_SNAPSHOT_CONFIG"
      "\<not> oe_isCapturing ?en" "bs_ledgerSeq ?s = 20"
    by (simp_all add: snapshot_system_init_def new_OrderBookSnapshotEngine_def book_to_snapshot_def)
  have 1: "snapshot_step ?y ?y1"
    using snapshot_step.capture [of True 0 20 ?y "Writing_snapshot ?s" "?en\<lparr>oe_isCapturing := True\<rparr>"]
    by (simp add: captureSnapshot_def i Let_def)
  have 2: "snapshot_step ?y1 ?y2"
    using snapshot_step.resume [of ?y1 "Writing_snapshot ?s" Written 0]
    by (simp add: write_key_def Let_def i snapshot_system_init_def)
  have 3: "snapshot_step ?y2 example_captured"
    using snapshot_step.resume [of ?y2 "Writing_latest ?s" Written 0]
    by (simp add: write_key_def Let_def i example_captured_def snapshot_system_init_def)
  show ?thesis
    by (rule converse_rtranclp_into_rtranclp [of snapshot_step, OF 1], rule converse_rtranclp_into_rtranclp [of snapshot_step, OF 2],
        rule r_into_rtranclp [of snapshot_step, OF 3])
qed

theorem recovery_never_behind_witness:
  "\<exists>s en'. recoverFromLatestSnapshot True 9 (os_redis example_captured) (new_OrderBookSnapshotEngine DEFAULT_SNAPSHOT_CONFIG) = (Some s, en')
     \<and> s = os_taken example_captured ! 0 \<and> book_depth en' = (bs_bids s, bs_asks s)"
proof -
  let ?en = "new_OrderBookSnapshotEngine DEFAULT_SNAPSHOT_CONFIG"
  have en: "engine_ok ?en" "oe_config ?en = oe_config (os_engine example_captured)"
    by (simp_all add: example_captured_def new_OrderBookSnapshotEngine_def engine_ok_def book_ok_def Let_def record_capture_def)
  have "latest_snapshot (oe_config ?en) (os_redis example_captured) = Some (os_taken example_captured ! 0)"
    by (simp add: example_captured_def latest_snapshot_def Let_def new_OrderBookSnapshotEngine_def show_int_not_Nil ledger_key_def
        latest_key_def show_int_not_latest [symmetric])
  then obtain s en' where r: "recoverFromLatestSnapshot True 9 (os_redis example_captured) ?en = (Some s, en')"
    by (simp add: recoverFromLatestSnapshot_def Let_def)
  from recovery_never_behind [OF example_captured_reachable en r]
  show ?thesis using r by (auto simp: example_captured_def Let_def)
qed

end
