(* ===== verification/OrderBookSync.thy ===== *)
theory OrderBookSync
  imports OrderBookSnapshot
begin

text \<open>
  \<open>src/services/orderBookSynchronizer.ts\<close>: order events applied to a cache per market, mirrored in Redis
  and broadcast.  The cache object of a market has the properties \<open>bids\<close> and \<open>asks\<close>; the code reads and
  writes it under the names of the sides, \<open>bid\<close> and \<open>ask\<close>, which are absent (\<open>None\<close>) until Redis has
  been read for the market.  The members of the sorted sets are ascending lists of prices; numbers are finite
  rationals, \<open>None\<close> where \<open>Number\<close> gives something else; a failing Redis call is an input.

  The lemmas show what follows: the published depth is empty in every history, an event for a market
  that was not read from Redis throws, and a market whose prices survived in Redis cannot be read back.
\<close>

datatype sync_error = Sync_error string | Type_error

record market_cache =
  mk_bids :: book
  mk_asks :: book
  mk_side :: "book_side \<Rightarrow> book option"

record depth_snapshot =
  ds_market :: string
  ds_bids :: book
  ds_asks :: book
  ds_spread :: "rat option"
  ds_updatedAt :: int

record order_event =
  ev_market :: "string option"
  ev_side :: "string option"
  ev_type :: "string option"
  ev_price :: "rat option \<times> string"
  ev_quantity :: "rat option \<times> string"

record synchronizer =
  sy_localCache :: "(string \<times> market_cache) list"
  sy_redis :: "string \<Rightarrow> rat list"
  sy_broadcasts :: "depth_snapshot list"

definition new_OrderBookSynchronizer :: "(string \<Rightarrow> rat list) \<Rightarrow> synchronizer" where
  "new_OrderBookSynchronizer redis = \<lparr>sy_localCache = [], sy_redis = redis, sy_broadcasts = []\<rparr>"

definition normalizeMarket :: "string \<Rightarrow> string" where
  "normalizeMarket market = filter (\<lambda>c. \<not> is_space c) (map upper_char (js_trim market))"

definition normalizeSide :: "string \<Rightarrow> (sync_error, book_side) result" where
  "normalizeSide side =
     (let v = toLowerCase side in
      if v = ''buy'' \<or> v = ''bid'' then Inr Bid
      else if v = ''sell'' \<or> v = ''ask'' then Inr Ask
      else Inl (Sync_error (''Unsupported order side: '' @ side)))"

definition toPositiveNumber :: "rat option \<times> string \<Rightarrow> string \<Rightarrow> (sync_error, rat) result" where
  "toPositiveNumber v label = (case fst v of
      Some n \<Rightarrow> if n \<le> 0 then Inl (Sync_error (''Invalid '' @ label @ '': '' @ snd v)) else Inr n
    | None \<Rightarrow> Inl (Sync_error (''Invalid '' @ label @ '': '' @ snd v)))"

definition side_text :: "book_side \<Rightarrow> string" where
  "side_text s = (case s of Bid \<Rightarrow> ''bid'' | Ask \<Rightarrow> ''ask'')"

definition sync_redis_key :: "string \<Rightarrow> book_side \<Rightarrow> string" where
  "sync_redis_key market s = ''orderbook:'' @ market @ '':'' @ side_text s"

definition empty_cache :: market_cache where
  "empty_cache = \<lparr>mk_bids = [], mk_asks = [], mk_side = (\<lambda>_. None)\<rparr>"

definition ensureMarketCache :: "string \<Rightarrow> synchronizer \<Rightarrow> market_cache \<times> synchronizer" where
  "ensureMarketCache market y = (case jm_get (sy_localCache y) market of
      Some c \<Rightarrow> (c, y)
    | None \<Rightarrow> (empty_cache, y\<lparr>sy_localCache := jm_set market empty_cache (sy_localCache y)\<rparr>))"

definition put_side :: "string \<Rightarrow> market_cache \<Rightarrow> book_side \<Rightarrow> book \<Rightarrow> synchronizer \<Rightarrow> synchronizer" where
  "put_side market c s b y =
     y\<lparr>sy_localCache := jm_set market (c\<lparr>mk_side := (mk_side c)(s \<mapsto> b)\<rparr>) (sy_localCache y)\<rparr>"

definition spread_of :: "book \<Rightarrow> book \<Rightarrow> rat option" where
  "spread_of bids asks = (case (bids, asks) of
      ((bestBid, _) # _, (bestAsk, _) # _) \<Rightarrow>
        if bestAsk > 0 \<and> bestBid > 0 then Some (jssub bestAsk bestBid) else None
    | _ \<Rightarrow> None)"

definition buildSnapshot :: "string \<Rightarrow> int \<Rightarrow> market_cache \<Rightarrow> depth_snapshot" where
  "buildSnapshot market now c =
     (let bids = take 25 (bids_order (mk_bids c)); asks = take 25 (asks_order (mk_asks c)) in
      \<lparr>ds_market = market, ds_bids = bids, ds_asks = asks, ds_spread = spread_of bids asks, ds_updatedAt = now\<rparr>)"

section \<open>Redis\<close>

definition zAdd :: "string \<Rightarrow> rat \<Rightarrow> synchronizer \<Rightarrow> synchronizer" where
  "zAdd key p y = y\<lparr>sy_redis := (sy_redis y)(key := insort p (filter (\<lambda>q. q \<noteq> p) (sy_redis y key)))\<rparr>"

definition zRem :: "string \<Rightarrow> rat \<Rightarrow> synchronizer \<Rightarrow> synchronizer" where
  "zRem key p y = y\<lparr>sy_redis := (sy_redis y)(key := filter (\<lambda>q. q \<noteq> p) (sy_redis y key))\<rparr>"

text \<open>Whether there is a client, and the message of the call on a side that fails.\<close>

record redis_mode =
  rm_client :: bool
  rm_error :: "book_side \<Rightarrow> string option"

definition persistRedisPriceLevel ::
  "redis_mode \<Rightarrow> string \<Rightarrow> book_side \<Rightarrow> rat \<Rightarrow> rat option \<Rightarrow> synchronizer \<Rightarrow> (sync_error, unit) result \<times> synchronizer" where
  "persistRedisPriceLevel rm market s p override y =
     (if \<not> rm_client rm then (Inr (), y)
      else let (c, y1) = ensureMarketCache market y in
        case (case override of Some q \<Rightarrow> Inr q
              | None \<Rightarrow> (case mk_side c s of None \<Rightarrow> Inl Type_error
                         | Some b \<Rightarrow> Inr (case jm_get b p of Some q \<Rightarrow> q | None \<Rightarrow> 0))) of
          Inl e \<Rightarrow> (Inl e, y1)
        | Inr nextQty \<Rightarrow>
            (case rm_error rm s of Some m \<Rightarrow> (Inl (Sync_error m), y1)
             | None \<Rightarrow>
                (if nextQty \<le> 0 then (Inr (), zRem (sync_redis_key market s) p y1)
                 else case mk_side c s of
                        None \<Rightarrow> (Inl Type_error, zAdd (sync_redis_key market s) p y1)
                      | Some b \<Rightarrow> (Inr (), put_side market c s (jm_set p nextQty b) (zAdd (sync_redis_key market s) p y1)))))"

definition removeRedisPriceLevel ::
  "redis_mode \<Rightarrow> string \<Rightarrow> book_side \<Rightarrow> rat \<Rightarrow> synchronizer \<Rightarrow> (sync_error, unit) result \<times> synchronizer" where
  "removeRedisPriceLevel rm market s p y =
     (if \<not> rm_client rm then (Inr (), y)
      else let (c, y1) = ensureMarketCache market y in
        case mk_side c s of
          None \<Rightarrow> (Inl Type_error, y1)
        | Some b \<Rightarrow>
            (let y2 = put_side market c s (jm_delete p b) y1 in
             case rm_error rm s of Some m \<Rightarrow> (Inl (Sync_error m), y2) | None \<Rightarrow> (Inr (), zRem (sync_redis_key market s) p y2)))"

section \<open>Events\<close>

text \<open>The \<open>switch\<close>: an absent property of the cache object makes the access throw.\<close>

definition apply_event ::
  "redis_mode \<Rightarrow> string \<Rightarrow> string \<Rightarrow> book_side \<Rightarrow> rat \<Rightarrow> rat \<Rightarrow> synchronizer \<Rightarrow> (sync_error, unit) result \<times> synchronizer" where
  "apply_event rm market kind s p q y =
     (let (c, y1) = ensureMarketCache market y in
      if kind \<notin> {''created'', ''executed'', ''cancelled''}
      then (Inl (Sync_error (''Unsupported order event type: '' @ kind)), y1)
      else case mk_side c s of
        None \<Rightarrow> (Inl Type_error, y1)
      | Some b \<Rightarrow>
          (let cur = (case jm_get b p of Some v \<Rightarrow> v | None \<Rightarrow> 0) in
           if kind = ''created'' then
             persistRedisPriceLevel rm market s p None (put_side market c s (jm_set p (jsadd cur q) b) y1)
           else if kind = ''executed'' then
             (let nextQty = max 0 (jssub cur q) in
              persistRedisPriceLevel rm market s p (Some nextQty)
                (put_side market c s (if nextQty > 0 then jm_set p nextQty b else jm_delete p b) y1))
           else removeRedisPriceLevel rm market s p (put_side market c s (jm_delete p b) y1)))"

definition processOrderEvent ::
  "redis_mode \<Rightarrow> int \<Rightarrow> order_event \<Rightarrow> synchronizer \<Rightarrow> (sync_error, depth_snapshot) result \<times> synchronizer" where
  "processOrderEvent rm now ev y =
     (let market = normalizeMarket (case ev_market ev of Some m \<Rightarrow> m | None \<Rightarrow> []) in
      if market = [] then (Inl (Sync_error ''Order event requires a market name''), y)
      else case normalizeSide (case ev_side ev of Some s \<Rightarrow> s | None \<Rightarrow> (case ev_type ev of Some t \<Rightarrow> t | None \<Rightarrow> ''bid'')) of
        Inl e \<Rightarrow> (Inl e, y)
      | Inr s \<Rightarrow> (case toPositiveNumber (ev_price ev) ''price'' of
          Inl e \<Rightarrow> (Inl e, y)
        | Inr p \<Rightarrow> (case toPositiveNumber (ev_quantity ev) ''quantity'' of
            Inl e \<Rightarrow> (Inl e, y)
          | Inr q \<Rightarrow>
              (case apply_event rm market (toLowerCase (case ev_type ev of Some t \<Rightarrow> t | None \<Rightarrow> ''created'')) s p q y of
                 (Inl e, y1) \<Rightarrow> (Inl e, y1)
               | (Inr _, y1) \<Rightarrow>
                   (let snap = buildSnapshot market now (fst (ensureMarketCache market y1)) in
                    (Inr snap, y1\<lparr>sy_broadcasts := sy_broadcasts y1 @ [snap]\<rparr>))))))"

section \<open>Reading back\<close>

text \<open>One side: the quantity of every stored price is looked up in the cache.\<close>

definition hydrate_side ::
  "redis_mode \<Rightarrow> string \<Rightarrow> book_side \<Rightarrow> synchronizer \<Rightarrow> (sync_error, unit) result \<times> synchronizer" where
  "hydrate_side rm market s y =
     (let (c, y1) = ensureMarketCache market y in
      case rm_error rm s of Some m \<Rightarrow> (Inl (Sync_error m), y1)
      | None \<Rightarrow>
          (let prices = filter (\<lambda>p. p > 0) (sy_redis y1 (sync_redis_key market s)) in
           case mk_side c s of
             None \<Rightarrow> if prices = [] then (Inr (), put_side market c s [] y1) else (Inl Type_error, y1)
           | Some b \<Rightarrow>
               (Inr (), put_side market c s
                  (fold (\<lambda>p nb. jm_set p (case jm_get b p of Some q \<Rightarrow> q | None \<Rightarrow> 0) nb) prices []) y1)))"

definition hydrateMarketFromRedis :: "redis_mode \<Rightarrow> string \<Rightarrow> synchronizer \<Rightarrow> (sync_error, unit) result \<times> synchronizer" where
  "hydrateMarketFromRedis rm market y =
     (let m = normalizeMarket market; y1 = snd (ensureMarketCache m y) in
      if \<not> rm_client rm then (Inr (), y1)
      else case hydrate_side rm m Bid y1 of
        (Inl e, y2) \<Rightarrow> (Inl e, y2)
      | (Inr _, y2) \<Rightarrow> hydrate_side rm m Ask y2)"

definition sync_getDepth :: "redis_mode \<Rightarrow> int \<Rightarrow> string \<Rightarrow> synchronizer \<Rightarrow> (sync_error, depth_snapshot) result \<times> synchronizer" where
  "sync_getDepth rm now market y =
     (let m = normalizeMarket market in
      case hydrateMarketFromRedis rm m y of
        (Inl e, y1) \<Rightarrow> (Inl e, y1)
      | (Inr _, y1) \<Rightarrow> (Inr (buildSnapshot m now (fst (ensureMarketCache m y1))), y1))"

section \<open>What is published\<close>

definition untouched :: "synchronizer \<Rightarrow> bool" where
  "untouched y \<longleftrightarrow> (\<forall>p \<in> set (sy_localCache y). mk_bids (snd p) = [] \<and> mk_asks (snd p) = [])"

definition blank :: "depth_snapshot \<Rightarrow> bool" where
  "blank d \<longleftrightarrow> ds_bids d = [] \<and> ds_asks d = [] \<and> ds_spread d = None"

lemma ensure_untouched:
  assumes "untouched y" "ensureMarketCache market y = (c, y1)"
  shows "mk_bids c = [] \<and> mk_asks c = []" "untouched y1" "sy_broadcasts y1 = sy_broadcasts y"
  using assms
  by (fastforce simp: ensureMarketCache_def untouched_def empty_cache_def dest: map_of_SomeD jm_set_entries split: option.splits)+

lemma put_side_untouched: "untouched y \<Longrightarrow> mk_bids c = [] \<and> mk_asks c = [] \<Longrightarrow> untouched (put_side market c s b y)"
  by (auto simp: put_side_def untouched_def dest!: jm_set_entries)

lemma sync_frames [simp]:
  "untouched (zAdd k p y) = untouched y" "untouched (zRem k p y) = untouched y"
  "sy_broadcasts (zAdd k p y) = sy_broadcasts y" "sy_broadcasts (zRem k p y) = sy_broadcasts y"
  "sy_broadcasts (put_side m c s b y) = sy_broadcasts y"
  by (simp_all add: zAdd_def zRem_def untouched_def put_side_def)

definition quiet_change :: "synchronizer \<Rightarrow> synchronizer \<Rightarrow> bool" where
  "quiet_change y y' \<longleftrightarrow> (untouched y \<longrightarrow> untouched y') \<and> sy_broadcasts y' = sy_broadcasts y"

lemma quiet_changeI: "(untouched y \<Longrightarrow> untouched y') \<Longrightarrow> sy_broadcasts y' = sy_broadcasts y \<Longrightarrow> quiet_change y y'"
  by (simp add: quiet_change_def)

lemma ensure_quiet: "ensureMarketCache market y = (c, y1) \<Longrightarrow> sy_broadcasts y1 = sy_broadcasts y"
  by (auto simp: ensureMarketCache_def split: option.splits)

lemma persist_quiet: "quiet_change y (snd (persistRedisPriceLevel rm market s p ov y))"
proof -
  obtain c y1 where e: "ensureMarketCache market y = (c, y1)" by fastforce
  show ?thesis
    by (rule quiet_changeI) (use ensure_untouched [OF _ e] ensure_quiet [OF e] in
        \<open>auto simp: persistRedisPriceLevel_def e put_side_untouched split: option.split sum.split\<close>)
qed

lemma remove_quiet: "quiet_change y (snd (removeRedisPriceLevel rm market s p y))"
proof -
  obtain c y1 where e: "ensureMarketCache market y = (c, y1)" by fastforce
  show ?thesis
    by (rule quiet_changeI) (use ensure_untouched [OF _ e] ensure_quiet [OF e] in
        \<open>auto simp: removeRedisPriceLevel_def e put_side_untouched Let_def split: option.split\<close>)
qed

lemma quiet_trans: "quiet_change a b \<Longrightarrow> quiet_change b c \<Longrightarrow> quiet_change a c"
  by (simp add: quiet_change_def)

lemma apply_event_quiet: "quiet_change y (snd (apply_event rm market kind s p q y))"
proof -
  obtain c y1 where e: "ensureMarketCache market y = (c, y1)" by fastforce
  have 1: "quiet_change y y1" using ensure_untouched [OF _ e] ensure_quiet [OF e] by (simp add: quiet_change_def)
  have 2: "quiet_change y (put_side market c s b y1)" for b
    using ensure_untouched [OF _ e] ensure_quiet [OF e] by (simp add: quiet_change_def put_side_untouched)
  note 3 = quiet_trans [OF 2 persist_quiet] quiet_trans [OF 2 remove_quiet]
  show ?thesis by (simp add: apply_event_def e Let_def 1 3 split: option.split)
qed

lemma hydrate_side_quiet: "quiet_change y (snd (hydrate_side rm market s y))"
proof -
  obtain c y1 where e: "ensureMarketCache market y = (c, y1)" by fastforce
  show ?thesis
    by (rule quiet_changeI) (use ensure_untouched [OF _ e] ensure_quiet [OF e] in
        \<open>auto simp: hydrate_side_def e put_side_untouched Let_def split: option.split\<close>)
qed

lemma hydrate_quiet: "quiet_change y (snd (hydrateMarketFromRedis rm market y))"
proof -
  let ?m = "normalizeMarket market"
  obtain c y1 where e: "ensureMarketCache ?m y = (c, y1)" by fastforce
  obtain r y2 where h: "hydrate_side rm ?m Bid y1 = (r, y2)" by fastforce
  have 1: "quiet_change y y1" using ensure_untouched [OF _ e] ensure_quiet [OF e] by (simp add: quiet_change_def)
  have 2: "quiet_change y y2" using quiet_trans [OF 1 hydrate_side_quiet [of y1 rm ?m Bid]] h by simp
  note 3 = quiet_trans [OF 2 hydrate_side_quiet [of y2 rm ?m Ask]]
  show ?thesis by (simp add: hydrateMarketFromRedis_def e Let_def h 1 2 3 split: sum.split)
qed

lemma blank_snapshot: "untouched y \<Longrightarrow> blank (buildSnapshot market now (fst (ensureMarketCache market y)))"
  using ensure_untouched(1) [of y market]
  by (cases "ensureMarketCache market y") (simp add: blank_def buildSnapshot_def Let_def spread_of_def bids_order_def asks_order_def)

datatype sync_request =
    Order_request redis_mode int order_event
  | Depth_request redis_mode int string

fun sync_step :: "synchronizer \<Rightarrow> sync_request \<Rightarrow> (sync_error, depth_snapshot) result \<times> synchronizer" where
  "sync_step y (Order_request rm now ev) = processOrderEvent rm now ev y"
| "sync_step y (Depth_request rm now market) = sync_getDepth rm now market y"

fun sync_run :: "synchronizer \<Rightarrow> sync_request list \<Rightarrow> (sync_error, depth_snapshot) result list \<times> synchronizer" where
  "sync_run y [] = ([], y)"
| "sync_run y (r # rs) = (case sync_step y r of (a, y1) \<Rightarrow> (case sync_run y1 rs of (as, y2) \<Rightarrow> (a # as, y2)))"

definition all_blank :: "synchronizer \<Rightarrow> bool" where
  "all_blank y \<longleftrightarrow> untouched y \<and> (\<forall>d \<in> set (sy_broadcasts y). blank d)"

lemma processOrderEvent_blank:
  assumes "all_blank y" "processOrderEvent rm now ev y = (a, y1)"
  shows "all_blank y1 \<and> (\<forall>d. a = Inr d \<longrightarrow> blank d)"
proof -
  have q: "untouched y'" "sy_broadcasts y' = sy_broadcasts y" if "apply_event rm m k s p n y = (r, y')" for m k s p n r y'
    using apply_event_quiet [of y rm m k s p n] that assms(1) by (auto simp: quiet_change_def all_blank_def)
  have u: "untouched (y'\<lparr>sy_broadcasts := bs\<rparr>) = untouched y'" for y' bs by (simp add: untouched_def)
  show ?thesis
    using assms q blank_snapshot
    by (auto simp: processOrderEvent_def Let_def all_blank_def u split: if_splits sum.splits prod.splits)
qed

lemma sync_getDepth_blank:
  assumes "all_blank y" "sync_getDepth rm now market y = (a, y1)"
  shows "all_blank y1 \<and> (\<forall>d. a = Inr d \<longrightarrow> blank d)"
  using assms hydrate_quiet [of y rm "normalizeMarket market"] blank_snapshot
  by (auto simp: sync_getDepth_def Let_def all_blank_def quiet_change_def split: sum.splits prod.splits)

lemma sync_step_blank:
  assumes "all_blank y" "sync_step y r = (a, y1)"
  shows "all_blank y1 \<and> (\<forall>d. a = Inr d \<longrightarrow> blank d)"
proof (cases r)
  case (Order_request rm now ev)
  then show ?thesis using processOrderEvent_blank [OF assms(1), of rm now ev] assms(2) by simp
next
  case (Depth_request rm now market)
  then show ?thesis using sync_getDepth_blank [OF assms(1), of rm now market] assms(2) by simp
qed

lemma sync_run_blank:
  assumes "all_blank y" "sync_run y rs = (as, y')"
  shows "all_blank y' \<and> (\<forall>d. Inr d \<in> set as \<longrightarrow> blank d)"
  using assms
proof (induction rs arbitrary: y as)
  case (Cons r rs)
  obtain a y1 as1 where s: "sync_step y r = (a, y1)" "sync_run y1 rs = (as1, y')" "as = a # as1"
    using Cons.prems(2) by (auto split: prod.splits)
  have b: "all_blank y1" "\<forall>d. a = Inr d \<longrightarrow> blank d" using sync_step_blank [OF Cons.prems(1) s(1)] by blast+
  have "\<forall>d. Inr d \<in> set as1 \<longrightarrow> blank d" "all_blank y'" using Cons.IH [OF b(1) s(2)] by blast+
  then show ?case using s(3) b(2) by (metis set_ConsD)
qed simp

text \<open>
  In every history of order events and depth requests that do not overlap, every depth that is broadcast or returned is
  empty on both sides.
\<close>
theorem published_depth_empty:
  assumes "sync_run (new_OrderBookSynchronizer redis) rs = (as, y)"
  shows "(\<forall>d \<in> set (sy_broadcasts y). ds_bids d = [] \<and> ds_asks d = [])
    \<and> (\<forall>d. Inr d \<in> set as \<longrightarrow> ds_bids d = [] \<and> ds_asks d = [])"
proof -
  have "all_blank (new_OrderBookSynchronizer redis)"
    by (simp add: all_blank_def untouched_def new_OrderBookSynchronizer_def)
  from sync_run_blank [OF this assms] show ?thesis by (auto simp: all_blank_def blank_def)
qed

text \<open>An event for a market that is not in the cache throws a type error, whatever it says.\<close>

lemma fresh_market_event_throws:
  assumes "jm_get (sy_localCache y) market = None" "kind \<in> {''created'', ''executed'', ''cancelled''}"
  shows "fst (apply_event rm market kind s p q y) = Inl Type_error"
  using assms by (simp add: apply_event_def ensureMarketCache_def empty_cache_def)

text \<open>A market with a price in Redis that is not in the cache cannot be read back.\<close>

lemma stored_market_unreadable:
  assumes "jm_get (sy_localCache y) market = None" "p \<in> set (sy_redis y (sync_redis_key market Bid))" "0 < p"
  shows "fst (hydrate_side \<lparr>rm_client = True, rm_error = (\<lambda>_. None)\<rparr> market Bid y) = Inl Type_error"
  using assms by (auto simp: hydrate_side_def ensureMarketCache_def empty_cache_def Let_def filter_empty_conv)

end
