(* ===== verification/Retry.thy ===== *)
theory Retry
  imports Prelude
begin

text \<open>
  \<open>src/utils/retryUtil.ts\<close>: repeating a request.  The outcome of the \<open>i\<close>-th call of the request is
  \<open>req i\<close>; a run returns the result, the number of calls made and the delays waited for.  An error of
  axios carries the status of its response, if there was one, and whether it has a request
  configuration.  axios keeps the counter that the interceptor writes into that configuration.

  The lemmas: what is returned, after how many calls and which delays, and that the interceptor of an
  instance behaves as the wrapper.
\<close>

record axios_error =
  ax_status :: "int option"
  ax_hasConfig :: bool

datatype request_error = Axios_error axios_error | Other_error string

record retry_config =
  rc_maxRetries :: int
  rc_retryDelay :: int
  rc_exponentialBackoff :: bool
  rc_retryableStatusCodes :: "int list"
  rc_shouldRetry :: "(axios_error \<Rightarrow> bool) option"

definition DEFAULT_RETRYABLE_STATUS_CODES :: "int list" where
  "DEFAULT_RETRYABLE_STATUS_CODES = [408, 429, 500, 502, 503, 504]"

definition DEFAULT_RETRY_CONFIG :: retry_config where
  "DEFAULT_RETRY_CONFIG = \<lparr>rc_maxRetries = 3, rc_retryDelay = 1000, rc_exponentialBackoff = False,
     rc_retryableStatusCodes = DEFAULT_RETRYABLE_STATUS_CODES, rc_shouldRetry = None\<rparr>"

definition shouldRetryError :: "axios_error \<Rightarrow> retry_config \<Rightarrow> bool" where
  "shouldRetryError err c = (case ax_status err of None \<Rightarrow> True | Some st \<Rightarrow> st \<in> set (rc_retryableStatusCodes c))"

definition calculateDelay :: "nat \<Rightarrow> int \<Rightarrow> bool \<Rightarrow> int" where
  "calculateDelay attempt baseDelay exponential = (if exponential then baseDelay * 2 ^ (attempt - 1) else baseDelay)"

definition retries :: "retry_config \<Rightarrow> axios_error \<Rightarrow> bool" where
  "retries c err = (case rc_shouldRetry c of Some f \<Rightarrow> f err | None \<Rightarrow> shouldRetryError err c)"

definition attempt_delay :: "retry_config \<Rightarrow> nat \<Rightarrow> int" where
  "attempt_delay c n = calculateDelay n (rc_retryDelay c) (rc_exponentialBackoff c)"

text \<open>The loop of \<open>withRetry\<close>; \<open>None\<close> is the \<open>undefined\<close> thrown when there was no attempt at all.\<close>

function retry_loop ::
  "retry_config \<Rightarrow> (nat \<Rightarrow> request_error + 'a) \<Rightarrow> nat \<Rightarrow> request_error option \<Rightarrow> int list
     \<Rightarrow> (request_error option + 'a) \<times> nat \<times> int list" where
  "retry_loop c req attempt lastError delays =
     (if int attempt \<le> rc_maxRetries c then
        (case req attempt of
           Inr x \<Rightarrow> (Inr x, Suc attempt, delays)
         | Inl err \<Rightarrow>
             (if int (Suc attempt) > rc_maxRetries c then (Inl (Some err), Suc attempt, delays)
              else case err of
                     Other_error _ \<Rightarrow> (Inl (Some err), Suc attempt, delays)
                   | Axios_error ax \<Rightarrow>
                       (if \<not> retries c ax then (Inl (Some err), Suc attempt, delays)
                        else retry_loop c req (Suc attempt) (Some err) (delays @ [attempt_delay c (Suc attempt)]))))
      else (Inl lastError, attempt, delays))"
  by pat_completeness auto
termination
  by (relation "measure (\<lambda>(c, req, attempt, e, d). nat (rc_maxRetries c + 1 - int attempt))") auto

declare retry_loop.simps [simp del]

definition withRetry ::
  "(nat \<Rightarrow> request_error + 'a) \<Rightarrow> retry_config \<Rightarrow> (request_error option + 'a) \<times> nat \<times> int list" where
  "withRetry req c = retry_loop c req 0 None []"

text \<open>The interceptor of \<open>createRetryableAxiosInstance\<close>, called with the outcome of every request.\<close>

function intercept ::
  "retry_config \<Rightarrow> (nat \<Rightarrow> request_error + 'a) \<Rightarrow> nat \<Rightarrow> int list \<Rightarrow> (request_error option + 'a) \<times> nat \<times> int list" where
  "intercept c req retryCount delays =
     (case req retryCount of
        Inr x \<Rightarrow> (Inr x, Suc retryCount, delays)
      | Inl err \<Rightarrow>
          (case err of
             Other_error _ \<Rightarrow> (Inl (Some err), Suc retryCount, delays)
           | Axios_error ax \<Rightarrow>
               (if \<not> ax_hasConfig ax \<or> int retryCount \<ge> rc_maxRetries c \<or> \<not> retries c ax
                then (Inl (Some err), Suc retryCount, delays)
                else intercept c req (Suc retryCount) (delays @ [attempt_delay c (Suc retryCount)]))))"
  by pat_completeness auto
termination
  by (relation "measure (\<lambda>(c, req, retryCount, d). nat (rc_maxRetries c + 1 - int retryCount))") auto

declare intercept.simps [simp del]

definition retryable_instance ::
  "retry_config \<Rightarrow> (nat \<Rightarrow> request_error + 'a) \<Rightarrow> (request_error option + 'a) \<times> nat \<times> int list" where
  "retryable_instance c req = intercept c req 0 []"

section \<open>Properties\<close>

definition as_result :: "request_error + 'a \<Rightarrow> request_error option + 'a" where
  "as_result r = (case r of Inl e \<Rightarrow> Inl (Some e) | Inr x \<Rightarrow> Inr x)"

definition repeatable :: "retry_config \<Rightarrow> request_error + 'a \<Rightarrow> bool" where
  "repeatable c r = (case r of Inl (Axios_error ax) \<Rightarrow> retries c ax | _ \<Rightarrow> False)"

text \<open>The index of the call whose outcome is returned, from \<open>i\<close> on.\<close>

definition last_call :: "retry_config \<Rightarrow> (nat \<Rightarrow> request_error + 'a) \<Rightarrow> nat \<Rightarrow> nat \<Rightarrow> bool" where
  "last_call c req i n \<longleftrightarrow> i \<le> n \<and> int n \<le> rc_maxRetries c \<and> (\<forall>j. i \<le> j \<and> j < n \<longrightarrow> repeatable c (req j))
     \<and> (int n = rc_maxRetries c \<or> \<not> repeatable c (req n))"

lemma last_call_Suc:
  assumes "last_call c req (Suc i) n" "repeatable c (req i)"
  shows "last_call c req i n"
proof -
  have "repeatable c (req j)" if "i \<le> j" "j < n" for j
  proof (cases "j = i")
    case False
    then show ?thesis using assms(1) that by (simp add: last_call_def)
  qed (use assms(2) in simp)
  then show ?thesis using assms(1) by (simp add: last_call_def)
qed

lemma last_call_exists: "int i \<le> rc_maxRetries c \<Longrightarrow> \<exists>n. last_call c req i n"
proof (induction "nat (rc_maxRetries c - int i)" arbitrary: i)
  case 0
  then have "last_call c req i i" by (auto simp: last_call_def)
  then show ?case by blast
next
  case (Suc k)
  show ?case
  proof (cases "repeatable c (req i)")
    case True
    have "k = nat (rc_maxRetries c - int (Suc i))" "int (Suc i) \<le> rc_maxRetries c" using Suc(2) by linarith+
    from Suc.hyps(1) [OF this] show ?thesis using last_call_Suc True by blast
  next
    case False
    then have "last_call c req i i" using Suc.prems by (auto simp: last_call_def)
    then show ?thesis by blast
  qed
qed

lemma retry_loop_spec:
  assumes "last_call c req i n"
  shows "retry_loop c req i e ds = (as_result (req n), Suc n, ds @ map (attempt_delay c) [Suc i ..< Suc n])"
  using assms
proof (induction "n - i" arbitrary: i e ds)
  case 0
  then have "i = n" "int n \<le> rc_maxRetries c" "int n = rc_maxRetries c \<or> \<not> repeatable c (req n)"
    by (auto simp: last_call_def)
  then show ?case
    by (auto simp: retry_loop.simps [of c req n] as_result_def repeatable_def split: sum.splits request_error.splits)
next
  case (Suc k)
  then have i: "i < n" "repeatable c (req i)" "last_call c req (Suc i) n" "int i < rc_maxRetries c"
    by (auto simp: last_call_def)
  then obtain ax where "req i = Inl (Axios_error ax)" "retries c ax"
    by (auto simp: repeatable_def split: sum.splits request_error.splits)
  moreover have "[Suc i ..< Suc n] = Suc i # [Suc (Suc i) ..< Suc n]" using i(1) by (simp add: upt_rec)
  ultimately show ?case using Suc.hyps(1) [of "Suc i"] Suc.hyps(2) i
    by (simp add: retry_loop.simps [of c req i])
qed

text \<open>
  A retried request ends after at most \<open>maxRetries + 1\<close> calls and returns the outcome of the last one:
  every earlier call failed with an error that is to be retried, the last one succeeded, failed with
  another error, or used up the retries; before the \<open>k\<close>-th retry it waits for the delay of attempt
  \<open>k\<close>.
\<close>
theorem withRetry_outcome:
  assumes "0 \<le> rc_maxRetries c"
  shows "\<exists>n. int n \<le> rc_maxRetries c
    \<and> withRetry req c = (as_result (req n), Suc n, map (attempt_delay c) [1 ..< Suc n])
    \<and> (\<forall>j < n. repeatable c (req j)) \<and> (int n = rc_maxRetries c \<or> \<not> repeatable c (req n))"
proof -
  obtain n where n: "last_call c req 0 n" using last_call_exists [of 0 c req] assms by auto
  then show ?thesis using retry_loop_spec [OF n, of None "[]"]
    by (intro exI [of _ n]) (auto simp: withRetry_def last_call_def)
qed

definition example_request :: "nat \<Rightarrow> request_error + string" where
  "example_request i = (if i < 2 then Inl (Axios_error \<lparr>ax_status = Some 503, ax_hasConfig = True\<rparr>) else Inr ''ok'')"

theorem withRetry_outcome_witness:
  "withRetry example_request DEFAULT_RETRY_CONFIG = (Inr ''ok'', 3, [1000, 1000])"
proof -
  have again: "repeatable DEFAULT_RETRY_CONFIG (example_request j) \<longleftrightarrow> j < 2" for j
    by (simp add: repeatable_def retries_def shouldRetryError_def DEFAULT_RETRY_CONFIG_def
        DEFAULT_RETRYABLE_STATUS_CODES_def example_request_def)
  obtain n where n: "\<forall>j < n. j < 2" "int n = 3 \<or> \<not> n < 2"
      "withRetry example_request DEFAULT_RETRY_CONFIG
        = (as_result (example_request n), Suc n, map (attempt_delay DEFAULT_RETRY_CONFIG) [1 ..< Suc n])"
    using withRetry_outcome [of DEFAULT_RETRY_CONFIG example_request] again by (auto simp: DEFAULT_RETRY_CONFIG_def)
  have "\<not> 2 < n" using n(1) by blast
  with n(2) have "n = 2" by auto
  then show ?thesis using n(3)
    by (simp add: as_result_def example_request_def upt_rec attempt_delay_def calculateDelay_def DEFAULT_RETRY_CONFIG_def)
qed

lemma intercept_eq:
  assumes "\<And>i ax. req i = Inl (Axios_error ax) \<Longrightarrow> ax_hasConfig ax" "int i \<le> rc_maxRetries c"
  shows "intercept c req i ds = retry_loop c req i e ds"
  using assms(2)
proof (induction "nat (rc_maxRetries c - int i)" arbitrary: i e ds)
  case 0
  then show ?case by (auto simp: intercept.simps [of c req i] retry_loop.simps [of c req i] split: sum.split request_error.split)
next
  case (Suc k)
  then have "intercept c req (Suc i) d = retry_loop c req (Suc i) e' d" for e' d by (intro Suc.hyps(1)) auto
  then show ?case using Suc.prems Suc.hyps(2) assms(1) [of i]
    by (auto simp: intercept.simps [of c req i] retry_loop.simps [of c req i] split: sum.split request_error.split)
qed

text \<open>
  An instance with the retry interceptor behaves as a request wrapped by \<open>withRetry\<close>: same result, same
  number of calls, same delays, when the errors of axios carry their request configuration.
\<close>
theorem interceptor_equals_wrapper:
  assumes "0 \<le> rc_maxRetries c" "\<And>i ax. req i = Inl (Axios_error ax) \<Longrightarrow> ax_hasConfig ax"
  shows "retryable_instance c req = withRetry req c"
  using intercept_eq [of req 0 c "[]" None] assms by (simp add: retryable_instance_def withRetry_def)

theorem interceptor_equals_wrapper_witness:
  "retryable_instance DEFAULT_RETRY_CONFIG (\<lambda>i. Inl (Axios_error \<lparr>ax_status = None, ax_hasConfig = True\<rparr>) :: request_error + nat)
   = withRetry (\<lambda>i. Inl (Axios_error \<lparr>ax_status = None, ax_hasConfig = True\<rparr>)) DEFAULT_RETRY_CONFIG"
  by (rule interceptor_equals_wrapper) (auto simp: DEFAULT_RETRY_CONFIG_def)

text \<open>The first \<open>n\<close> delays with backoff sum up to less than \<open>2 ^ n\<close> times the base delay.\<close>

lemma backoff_total:
  "rc_exponentialBackoff c \<Longrightarrow> sum_list (map (attempt_delay c) [1 ..< Suc n]) = rc_retryDelay c * (2 ^ n - 1)"
  by (induction n) (simp_all add: attempt_delay_def calculateDelay_def algebra_simps)

end
