(* ===== verification/Dispute.thy ===== *)
theory Dispute
  imports Retry JSString
begin

text \<open>
  \<open>src/services/disputeService.ts\<close>: the tickets opened when a payout fails.  The table is a list of
  rows; identifiers, times and the JSON text of the details are inputs, as is the order of identifiers
  in the database.  An operation reads the ticket, tests it and writes it in two steps; the update does
  not test the status again.  Sent emails and webhook calls are a log.

  The lemmas: complete requests move a ticket only along the state machine and never reopen a closed
  one; overlapping requests do not have this property.
\<close>

section \<open>Tickets\<close>

datatype dispute_status = D_open | D_investigating | D_refunded | D_closed

fun dispute_text :: "dispute_status \<Rightarrow> string" where
  "dispute_text D_open = ''open''"
| "dispute_text D_investigating = ''investigating''"
| "dispute_text D_refunded = ''refunded''"
| "dispute_text D_closed = ''closed''"

definition DISPUTE_STATUSES :: "dispute_status list" where
  "DISPUTE_STATUSES = [D_open, D_investigating, D_refunded, D_closed]"

definition dispute_of :: "string \<Rightarrow> dispute_status option" where
  "dispute_of s = List.find (\<lambda>d. dispute_text d = s) DISPUTE_STATUSES"

fun DISPUTE_TRANSITIONS :: "dispute_status \<Rightarrow> dispute_status list" where
  "DISPUTE_TRANSITIONS D_open = [D_investigating, D_refunded, D_closed]"
| "DISPUTE_TRANSITIONS D_investigating = [D_refunded, D_closed]"
| "DISPUTE_TRANSITIONS D_refunded = [D_closed]"
| "DISPUTE_TRANSITIONS D_closed = []"

record dispute_row =
  di_id :: string
  di_remittanceId :: string
  di_userId :: string
  di_status :: string
  di_reason :: string
  di_details :: "string option"
  di_email :: "string option"
  di_webhookUrl :: "string option"
  di_refundAmount :: "rat option"
  di_refundedById :: "string option"
  di_refundedAt :: "int option"
  di_resolvedById :: "string option"
  di_resolvedAt :: "int option"
  di_createdAt :: int
  di_updatedAt :: int

record open_input =
  oi_remittanceId :: string
  oi_userId :: string
  oi_reason :: string
  oi_details :: "string option"
  oi_email :: "string option"
  oi_webhookUrl :: "string option"

record transition_input =
  ti_toStatus :: string
  ti_byId :: "string option"
  ti_email :: "string option"
  ti_webhookUrl :: "string option"

record refund_input =
  ri_refundAmount :: "rat option"
  ri_byId :: "string option"
  ri_email :: "string option"
  ri_webhookUrl :: "string option"

definition STATUS_SUBJECT :: "dispute_status \<Rightarrow> string" where
  "STATUS_SUBJECT st = (case st of
      D_open \<Rightarrow> ''Dispute opened for your remittance''
    | D_investigating \<Rightarrow> ''Your remittance dispute is under investigation''
    | D_refunded \<Rightarrow> ''Refund issued for your remittance dispute''
    | D_closed \<Rightarrow> ''Your remittance dispute has been closed'')"

definition STATUS_MESSAGE :: "dispute_status \<Rightarrow> string" where
  "STATUS_MESSAGE st = (case st of
      D_open \<Rightarrow> ''A dispute has been opened for your remittance transaction because the fiat payout failed or timed out. Our team is reviewing the ticket.''
    | D_investigating \<Rightarrow> ''Your remittance dispute is now being investigated. We will notify you as soon as an update is available.''
    | D_refunded \<Rightarrow> ''A refund has been issued for your remittance dispute. The funds are being returned to your account.''
    | D_closed \<Rightarrow> ''Your remittance dispute has been closed. If you have further questions, please contact support.'')"

text \<open>\<open>toDisputeRecord\<close>: the row with its status, an unknown one read as \<open>open\<close>.\<close>

definition record_status :: "dispute_row \<Rightarrow> dispute_status" where
  "record_status r = (case dispute_of (di_status r) of Some d \<Rightarrow> d | None \<Rightarrow> D_open)"

definition toDisputeRecord :: "dispute_row \<Rightarrow> dispute_row" where
  "toDisputeRecord r = r\<lparr>di_status := dispute_text (record_status r)\<rparr>"

section \<open>Notifications\<close>

datatype dispute_output =
    Email string string string
  | Webhook string string nat

record dispute_db =
  dd_rows :: "dispute_row list"
  dd_sent :: "dispute_output list"

text \<open>
  What the outside answers: the message of a failing database call, a failing email, the outcomes of
  the webhook calls.
\<close>

record dispute_env =
  dv_dbError :: "string option"
  dv_emailFails :: bool
  dv_post :: "nat \<Rightarrow> request_error + unit"
  dv_now :: int
  dv_newId :: string

definition dispatchWebhook :: "dispute_env \<Rightarrow> string \<Rightarrow> dispute_row \<Rightarrow> dispute_output" where
  "dispatchWebhook e url d =
     (case withRetry (dv_post e) (DEFAULT_RETRY_CONFIG\<lparr>rc_maxRetries := 3, rc_retryDelay := 1000\<rparr>) of
        (_, calls, _) \<Rightarrow> Webhook url (di_status d) calls)"

definition truthy_option :: "string option \<Rightarrow> string option" where
  "truthy_option v = (case v of Some s \<Rightarrow> if s = [] then None else Some s | None \<Rightarrow> None)"

definition email_text :: "dispute_row \<Rightarrow> string" where
  "email_text d = (let nl = [CHR 0x0A] in
     STATUS_MESSAGE (record_status d) @ nl @ nl @ ''Dispute ID: '' @ di_id d @ nl
     @ ''Transaction ID: '' @ di_remittanceId d @ nl @ ''Status: '' @ di_status d @ nl
     @ ''Reason: '' @ di_reason d @ nl @ nl @ ''Thank you,'' @ nl @ ''StellarFlow Support'')"

text \<open>A failing email ends the dispatch: the webhook is not called.\<close>

definition notifyStateChange :: "dispute_env \<Rightarrow> dispute_row \<Rightarrow> dispute_output list" where
  "notifyStateChange e d =
     (let webhook = (case truthy_option (di_webhookUrl d) of Some url \<Rightarrow> [dispatchWebhook e url d] | None \<Rightarrow> []) in
      case truthy_option (di_email d) of
        None \<Rightarrow> webhook
      | Some to \<Rightarrow> if dv_emailFails e then []
                   else Email to (STATUS_SUBJECT (record_status d)) (email_text d) # webhook)"

definition notified :: "dispute_env \<Rightarrow> dispute_row \<Rightarrow> dispute_db \<Rightarrow> dispute_db" where
  "notified e d db = db\<lparr>dd_sent := dd_sent db @ notifyStateChange e d\<rparr>"

section \<open>Operations\<close>

definition find_dispute :: "string \<Rightarrow> dispute_db \<Rightarrow> dispute_row option" where
  "find_dispute i db = List.find (\<lambda>r. di_id r = i) (dd_rows db)"

definition openDispute :: "dispute_env \<Rightarrow> open_input \<Rightarrow> dispute_db \<Rightarrow> (string, dispute_row) result \<times> dispute_db" where
  "openDispute e inp db =
     (if oi_remittanceId inp = [] \<or> oi_userId inp = [] \<or> oi_reason inp = []
      then (Inl ''remittanceId, userId and reason are required'', db)
      else if dv_dbError e \<noteq> None then (Inl (the (dv_dbError e)), db)
      else if dv_newId e \<in> di_id ` set (dd_rows db) then (Inl ''Unique constraint failed on the fields: (`id`)'', db)
      else let row = \<lparr>di_id = dv_newId e, di_remittanceId = oi_remittanceId inp, di_userId = oi_userId inp,
                 di_status = ''open'', di_reason = oi_reason inp, di_details = oi_details inp,
                 di_email = oi_email inp, di_webhookUrl = oi_webhookUrl inp, di_refundAmount = None,
                 di_refundedById = None, di_refundedAt = None, di_resolvedById = None, di_resolvedAt = None,
                 di_createdAt = dv_now e, di_updatedAt = dv_now e\<rparr> in
           (Inr (toDisputeRecord row), notified e (toDisputeRecord row) (db\<lparr>dd_rows := dd_rows db @ [row]\<rparr>)))"

record list_filters =
  lf_status :: "string option"
  lf_userId :: "string option"
  lf_limit :: "int option"
  lf_offset :: "int option"

definition list_limit :: "list_filters \<Rightarrow> int" where
  "list_limit f = min (max (case lf_limit f of Some l \<Rightarrow> l | None \<Rightarrow> 50) 1) 200"

definition matches_filters :: "list_filters \<Rightarrow> dispute_row \<Rightarrow> bool" where
  "matches_filters f r \<longleftrightarrow>
     (case truthy_option (lf_status f) of Some s \<Rightarrow> di_status r = s | None \<Rightarrow> True)
     \<and> (case truthy_option (lf_userId f) of Some u \<Rightarrow> di_userId r = u | None \<Rightarrow> True)"

text \<open>The newest first, equal times by identifier; with the number of all matches.\<close>

definition listDisputes ::
  "dispute_env \<Rightarrow> (string \<Rightarrow> nat) \<Rightarrow> list_filters \<Rightarrow> dispute_db \<Rightarrow> (string, dispute_row list \<times> int) result" where
  "listDisputes e collate f db =
     (if dv_dbError e \<noteq> None then Inl (the (dv_dbError e))
      else let rows = filter (matches_filters f) (dd_rows db);
               ordered = sort_key (\<lambda>r. - di_createdAt r) (sort_key (\<lambda>r. collate (di_id r)) rows);
               offset = (case lf_offset f of Some n \<Rightarrow> n | None \<Rightarrow> 0) in
           Inr (map toDisputeRecord (take (nat (list_limit f)) (drop (nat offset) ordered)), int (length rows)))"

definition getDispute :: "dispute_env \<Rightarrow> string \<Rightarrow> dispute_db \<Rightarrow> (string, dispute_row) result" where
  "getDispute e i db =
     (if dv_dbError e \<noteq> None then Inl (the (dv_dbError e))
      else case find_dispute i db of
             None \<Rightarrow> Inl ''Dispute ticket not found''
           | Some r \<Rightarrow> Inr (toDisputeRecord r))"

text \<open>\<open>prisma.update\<close>: fails when the row is not there.\<close>

definition update_dispute ::
  "dispute_env \<Rightarrow> string \<Rightarrow> (dispute_row \<Rightarrow> dispute_row) \<Rightarrow> dispute_db \<Rightarrow> (string, dispute_row) result \<times> dispute_db" where
  "update_dispute e i f db =
     (if dv_dbError e \<noteq> None then (Inl (the (dv_dbError e)), db)
      else case find_dispute i db of
             None \<Rightarrow> (Inl ''Record to update not found.'', db)
           | Some r \<Rightarrow>
               (let r' = toDisputeRecord ((f r)\<lparr>di_updatedAt := dv_now e\<rparr>) in
                (Inr r', notified e r' (db\<lparr>dd_rows := map (\<lambda>r. if di_id r = i then (f r)\<lparr>di_updatedAt := dv_now e\<rparr> else r) (dd_rows db)\<rparr>))))"

definition overwrite :: "string option \<Rightarrow> string option \<Rightarrow> string option" where
  "overwrite new old = (case new of Some v \<Rightarrow> Some v | None \<Rightarrow> old)"

definition check_transition :: "dispute_env \<Rightarrow> string \<Rightarrow> transition_input \<Rightarrow> dispute_db \<Rightarrow> (string, unit) result" where
  "check_transition e i inp db =
     (if dv_dbError e \<noteq> None then Inl (the (dv_dbError e))
      else case find_dispute i db of
        None \<Rightarrow> Inl ''Dispute ticket not found''
      | Some existing \<Rightarrow>
          (case dispute_of (ti_toStatus inp) of
             None \<Rightarrow> Inl (''Invalid target status. Must be one of: '' @ join_with '', '' (map dispute_text DISPUTE_STATUSES))
           | Some to \<Rightarrow>
               (if to \<in> set (case dispute_of (di_status existing) of Some cur \<Rightarrow> DISPUTE_TRANSITIONS cur | None \<Rightarrow> [])
                then Inr ()
                else Inl (''Cannot transition dispute from '' @ squote (di_status existing) @ '' to '' @ squote (ti_toStatus inp)))))"

definition write_transition :: "int \<Rightarrow> transition_input \<Rightarrow> dispute_row \<Rightarrow> dispute_row" where
  "write_transition now inp r =
     (let r1 = r\<lparr>di_status := ti_toStatus inp\<rparr>;
          r2 = (if ti_toStatus inp = ''closed'' then r1\<lparr>di_resolvedById := ti_byId inp, di_resolvedAt := Some now\<rparr> else r1) in
      r2\<lparr>di_email := overwrite (ti_email inp) (di_email r2), di_webhookUrl := overwrite (ti_webhookUrl inp) (di_webhookUrl r2)\<rparr>)"

definition transitionStatus ::
  "dispute_env \<Rightarrow> dispute_env \<Rightarrow> string \<Rightarrow> transition_input \<Rightarrow> dispute_db \<Rightarrow> (string, dispute_row) result \<times> dispute_db" where
  "transitionStatus e1 e2 i inp db =
     (case check_transition e1 i inp db of
        Inl err \<Rightarrow> (Inl err, db)
      | Inr _ \<Rightarrow> update_dispute e2 i (write_transition (dv_now e2) inp) db)"

definition check_refund :: "dispute_env \<Rightarrow> string \<Rightarrow> dispute_db \<Rightarrow> (string, unit) result" where
  "check_refund e i db =
     (if dv_dbError e \<noteq> None then Inl (the (dv_dbError e))
      else case find_dispute i db of
        None \<Rightarrow> Inl ''Dispute ticket not found''
      | Some existing \<Rightarrow>
          (if di_status existing = ''closed'' then Inl ''Cannot refund a dispute that has already been closed'' else Inr ()))"

definition write_refund :: "int \<Rightarrow> refund_input \<Rightarrow> dispute_row \<Rightarrow> dispute_row" where
  "write_refund now inp r =
     r\<lparr>di_status := ''refunded'', di_refundAmount := ri_refundAmount inp, di_refundedById := ri_byId inp,
       di_refundedAt := Some now, di_email := overwrite (ri_email inp) (di_email r),
       di_webhookUrl := overwrite (ri_webhookUrl inp) (di_webhookUrl r)\<rparr>"

definition triggerManualRefund ::
  "dispute_env \<Rightarrow> dispute_env \<Rightarrow> string \<Rightarrow> refund_input \<Rightarrow> dispute_db \<Rightarrow> (string, dispute_row) result \<times> dispute_db" where
  "triggerManualRefund e1 e2 i inp db =
     (case check_refund e1 i db of
        Inl err \<Rightarrow> (Inl err, db)
      | Inr _ \<Rightarrow> update_dispute e2 i (write_refund (dv_now e2) inp) db)"

section \<open>The life of a ticket\<close>

datatype dispute_request =
    Open_request dispute_env open_input
  | Transition_request dispute_env dispute_env string transition_input
  | Refund_request dispute_env dispute_env string refund_input

fun dispute_step :: "dispute_db \<Rightarrow> dispute_request \<Rightarrow> dispute_db" where
  "dispute_step db (Open_request e inp) = snd (openDispute e inp db)"
| "dispute_step db (Transition_request e1 e2 i inp) = snd (transitionStatus e1 e2 i inp db)"
| "dispute_step db (Refund_request e1 e2 i inp) = snd (triggerManualRefund e1 e2 i inp db)"

definition dispute_next :: "dispute_row \<Rightarrow> dispute_row \<Rightarrow> bool" where
  "dispute_next r r' \<longleftrightarrow> di_id r' = di_id r \<and> di_remittanceId r' = di_remittanceId r \<and> di_userId r' = di_userId r
     \<and> di_reason r' = di_reason r \<and> di_details r' = di_details r
     \<and> (record_status r' = record_status r \<or> record_status r' \<in> set (DISPUTE_TRANSITIONS (record_status r)))"

lemma dispute_of_text [simp]: "dispute_of (dispute_text d) = Some d"
  by (cases d) (simp_all add: dispute_of_def DISPUTE_STATUSES_def)

lemma dispute_of_Some: "dispute_of s = Some d \<longleftrightarrow> s = dispute_text d" "Some d = dispute_of s \<longleftrightarrow> s = dispute_text d"
proof -
  show eq: "dispute_of s = Some d \<longleftrightarrow> s = dispute_text d"
  proof
    assume "dispute_of s = Some d"
    then show "s = dispute_text d" by (auto simp: dispute_of_def find_Some_iff)
  qed simp
  show "Some d = dispute_of s \<longleftrightarrow> s = dispute_text d" using eq by metis
qed

lemma dispute_next_refl [simp]: "dispute_next r r"
  by (simp add: dispute_next_def)

lemma transitions_trans: "b \<in> set (DISPUTE_TRANSITIONS a) \<Longrightarrow> c \<in> set (DISPUTE_TRANSITIONS b) \<Longrightarrow> c \<in> set (DISPUTE_TRANSITIONS a)"
  by (cases a; cases b) auto

lemma dispute_next_trans: "dispute_next a b \<Longrightarrow> dispute_next b c \<Longrightarrow> dispute_next a c"
  by (auto simp: dispute_next_def intro: transitions_trans)

lemma find_dispute_distinct:
  "distinct (map di_id (dd_rows db)) \<Longrightarrow> find_dispute i db = Some x \<Longrightarrow> r \<in> set (dd_rows db) \<Longrightarrow> di_id r = i \<Longrightarrow> r = x"
  by (auto simp: find_dispute_def find_Some_iff distinct_map inj_on_def)

lemma update_dispute_next:
  assumes "distinct (map di_id (dd_rows db))" "\<And>r. find_dispute i db = Some r \<Longrightarrow> dispute_next r (f r)"
  shows "distinct (map di_id (dd_rows (snd (update_dispute e i f db))))
    \<and> (\<forall>r \<in> set (dd_rows db). \<exists>r' \<in> set (dd_rows (snd (update_dispute e i f db))). dispute_next r r')"
proof (cases "dv_dbError e \<noteq> None \<or> find_dispute i db = None")
  case True
  then have "snd (update_dispute e i f db) = db" by (auto simp: update_dispute_def)
  then show ?thesis using assms(1) by (auto intro: dispute_next_refl)
next
  case False
  then obtain x where x: "find_dispute i db = Some x" by auto
  let ?g = "\<lambda>r. if di_id r = i then (f r)\<lparr>di_updatedAt := dv_now e\<rparr> else r"
  have rows: "dd_rows (snd (update_dispute e i f db)) = map ?g (dd_rows db)"
    using False x by (simp add: update_dispute_def notified_def Let_def)
  have nxt: "dispute_next r (?g r)" if r: "r \<in> set (dd_rows db)" for r
    using assms(2) [OF x] find_dispute_distinct [OF assms(1) x r]
    by (auto simp: dispute_next_def record_status_def)
  have "di_id (?g r) = di_id r" if "r \<in> set (dd_rows db)" for r using nxt [OF that] unfolding dispute_next_def by blast
  then have "map (di_id \<circ> ?g) (dd_rows db) = map di_id (dd_rows db)" unfolding map_eq_conv comp_def by blast
  then have "distinct (map di_id (map ?g (dd_rows db)))" unfolding map_map using assms(1) by (simp only:)
  moreover have "\<exists>r' \<in> set (map ?g (dd_rows db)). dispute_next r r'" if r: "r \<in> set (dd_rows db)" for r
  proof (rule bexI)
    show "?g r \<in> set (map ?g (dd_rows db))" using r unfolding set_map by (rule imageI)
  qed (rule nxt [OF r])
  ultimately show ?thesis unfolding rows by blast
qed

lemma write_transition_fields [simp]:
  "di_id (write_transition now inp r) = di_id r" "di_remittanceId (write_transition now inp r) = di_remittanceId r"
  "di_userId (write_transition now inp r) = di_userId r" "di_reason (write_transition now inp r) = di_reason r"
  "di_details (write_transition now inp r) = di_details r" "di_status (write_transition now inp r) = ti_toStatus inp"
  by (simp_all add: write_transition_def Let_def)

lemma check_transition_next:
  assumes "check_transition e i inp db = Inr u" "find_dispute i db = Some r"
  shows "dispute_next r (write_transition now inp r)"
proof -
  obtain to cur where "ti_toStatus inp = dispute_text to" "di_status r = dispute_text cur" "to \<in> set (DISPUTE_TRANSITIONS cur)"
    using assms by (auto simp: check_transition_def dispute_of_Some split: if_splits option.splits)
  then show ?thesis by (simp add: dispute_next_def record_status_def)
qed

lemma check_refund_next:
  assumes "check_refund e i db = Inr u" "find_dispute i db = Some r"
  shows "dispute_next r (write_refund now inp r)"
proof -
  have "record_status r \<noteq> D_closed"
    using assms by (auto simp: check_refund_def record_status_def dispute_of_Some split: if_splits option.splits)
  moreover have "dispute_of ''refunded'' = Some D_refunded" by (simp add: dispute_of_Some)
  ultimately show ?thesis
    by (cases "record_status r") (simp_all add: dispute_next_def write_refund_def record_status_def [of "r\<lparr>di_status := x, di_refundAmount := y, di_refundedById := z, di_refundedAt := u, di_email := v, di_webhookUrl := w\<rparr>" for x y z u v w])
qed

lemma dispute_step_next:
  assumes "distinct (map di_id (dd_rows db))"
  shows "distinct (map di_id (dd_rows (dispute_step db q)))
    \<and> (\<forall>r \<in> set (dd_rows db). \<exists>r' \<in> set (dd_rows (dispute_step db q)). dispute_next r r')"
proof (cases q)
  case (Open_request e inp)
  then show ?thesis using assms
    by (auto simp: openDispute_def notified_def Let_def intro: dispute_next_refl)
next
  case (Transition_request e1 e2 i inp)
  show ?thesis
  proof (cases "check_transition e1 i inp db")
    case (Inr u)
    then show ?thesis using update_dispute_next [OF assms check_transition_next [OF Inr]] Transition_request
      by (simp add: transitionStatus_def)
  qed (use assms Transition_request in \<open>auto simp: transitionStatus_def intro: dispute_next_refl\<close>)
next
  case (Refund_request e1 e2 i inp)
  show ?thesis
  proof (cases "check_refund e1 i db")
    case (Inr u)
    then show ?thesis using update_dispute_next [OF assms check_refund_next [OF Inr]] Refund_request
      by (simp add: triggerManualRefund_def)
  qed (use assms Refund_request in \<open>auto simp: triggerManualRefund_def intro: dispute_next_refl\<close>)
qed

text \<open>
  C37. Along any history of complete requests a ticket stays in the table with its remittance, user, reason
  and details, and its status moves only along the state machine; in particular a closed ticket stays
  closed and no ticket is reopened.
\<close>
theorem disputes_follow_machine:
  assumes "distinct (map di_id (dd_rows db))" "r \<in> set (dd_rows db)"
  shows "\<exists>r' \<in> set (dd_rows (foldl dispute_step db qs)). di_id r' = di_id r \<and> di_remittanceId r' = di_remittanceId r
    \<and> di_userId r' = di_userId r \<and> di_reason r' = di_reason r \<and> di_details r' = di_details r
    \<and> (record_status r' = record_status r \<or> record_status r' \<in> set (DISPUTE_TRANSITIONS (record_status r)))"
proof -
  have "\<exists>r' \<in> set (dd_rows (foldl dispute_step db qs)). dispute_next r r'"
    using assms
  proof (induction qs arbitrary: db r)
    case (Cons q qs)
    obtain r1 where r1: "r1 \<in> set (dd_rows (dispute_step db q))" "dispute_next r r1"
      using dispute_step_next [OF Cons.prems(1), of q] Cons.prems(2) by blast
    then show ?case
      using Cons.IH [of "dispute_step db q" r1] dispute_step_next [OF Cons.prems(1), of q] dispute_next_trans by auto
  qed (auto intro: dispute_next_refl)
  then show ?thesis by (auto simp: dispute_next_def)
qed

section \<open>Examples\<close>

definition calm_env :: "string \<Rightarrow> dispute_env" where
  "calm_env i = \<lparr>dv_dbError = None, dv_emailFails = False, dv_post = (\<lambda>_. Inr ()), dv_now = 10, dv_newId = i\<rparr>"

definition example_open :: open_input where
  "example_open = \<lparr>oi_remittanceId = ''R'', oi_userId = ''U'', oi_reason = ''timeout'', oi_details = None, oi_email = None, oi_webhookUrl = None\<rparr>"

definition to_status :: "string \<Rightarrow> transition_input" where
  "to_status s = \<lparr>ti_toStatus = s, ti_byId = None, ti_email = None, ti_webhookUrl = None\<rparr>"

definition example_refund :: refund_input where
  "example_refund = \<lparr>ri_refundAmount = Some 7, ri_byId = Some ''A'', ri_email = None, ri_webhookUrl = None\<rparr>"

definition example_disputes :: dispute_db where
  "example_disputes = snd (openDispute (calm_env ''d'') example_open \<lparr>dd_rows = [], dd_sent = []\<rparr>)"

lemmas dispute_simps = example_disputes_def openDispute_def example_open_def calm_env_def notified_def
  notifyStateChange_def toDisputeRecord_def record_status_def dispute_of_def DISPUTE_STATUSES_def truthy_option_def
  transitionStatus_def check_transition_def update_dispute_def find_dispute_def write_transition_def to_status_def
  overwrite_def triggerManualRefund_def check_refund_def write_refund_def example_refund_def Let_def

text \<open>The witness: a ticket is closed, and a refund of the closed ticket is refused.\<close>
theorem disputes_follow_machine_witness:
  "\<exists>r' \<in> set (dd_rows (foldl dispute_step example_disputes
       [Transition_request (calm_env []) (calm_env []) ''d'' (to_status ''closed''),
        Refund_request (calm_env []) (calm_env []) ''d'' example_refund])).
     di_id r' = ''d'' \<and> di_remittanceId r' = ''R'' \<and> record_status r' = D_closed"
proof -
  let ?qs = "[Transition_request (calm_env []) (calm_env []) ''d'' (to_status ''closed''),
        Refund_request (calm_env []) (calm_env []) ''d'' example_refund]"
  obtain r where r: "dd_rows example_disputes = [r]" "di_id r = ''d''" "di_remittanceId r = ''R''"
    by (simp add: dispute_simps)
  have "\<exists>r' \<in> set (dd_rows (foldl dispute_step example_disputes ?qs)). di_id r' = ''d'' \<and> di_remittanceId r' = ''R''"
    using disputes_follow_machine [of example_disputes r ?qs] r by auto
  moreover have "\<forall>r' \<in> set (dd_rows (foldl dispute_step example_disputes ?qs)). record_status r' = D_closed"
    by (simp add: dispute_simps)
  ultimately show ?thesis by blast
qed

text \<open>A transition to \<open>refunded\<close> records neither an amount nor a time of the refund.\<close>

lemma refunded_without_refund:
  "map (\<lambda>r. (di_status r, di_refundAmount r, di_refundedAt r))
     (dd_rows (dispute_step example_disputes (Transition_request (calm_env []) (calm_env []) ''d'' (to_status ''refunded''))))
   = [(''refunded'', None, None)]"
  by (simp add: dispute_simps)

text \<open>A refunded ticket can be refunded again; the second amount replaces the first.\<close>

lemma refunded_twice:
  "map di_refundAmount (dd_rows (foldl dispute_step example_disputes
       [Refund_request (calm_env []) (calm_env []) ''d'' example_refund,
        Refund_request (calm_env []) (calm_env []) ''d'' (example_refund\<lparr>ri_refundAmount := Some 9\<rparr>)])) = [Some 9]"
  by (simp add: dispute_simps)

text \<open>
  Two overlapping requests leave the state machine: a transition that was checked before a refund puts
  the refunded ticket back under investigation.
\<close>

lemma overlapping_requests_reopen:
  "check_transition (calm_env []) ''d'' (to_status ''investigating'') example_disputes = Inr ()
   \<and> map di_status (dd_rows (snd (update_dispute (calm_env []) ''d'' (write_transition 11 (to_status ''investigating''))
        (dispute_step example_disputes (Refund_request (calm_env []) (calm_env []) ''d'' example_refund))))) = [''investigating'']"
  by (simp add: dispute_simps)

text \<open>At most 200 tickets are listed.\<close>

lemma listDisputes_bound: "listDisputes e collate f db = Inr (rows, n) \<Longrightarrow> length rows \<le> 200 \<and> int (length rows) \<le> n"
  by (auto simp: listDisputes_def list_limit_def Let_def split: if_splits option.splits)

end
