(* ===== verification/CircuitBreaker.thy ===== *)
theory CircuitBreaker
  imports JSString
begin

text \<open>
  \<open>src/services/invariantChecker.ts\<close> and \<open>src/services/circuitBreakerService.ts\<close>: the balance
  invariants and the automated pause of the contract.  The audit table is a list of events; balances are
  rationals (their texts in messages are given by an input); the answers of the network, the database
  and the clock are inputs.  The dash in a message is written \<open>-\<close>; the transaction built by the Stellar
  library is left out.

  The lemmas: which violations a balance has, and that the pauses submitted for one breach type are a
  cooldown apart in any history of checks and restarts, as long as checks do not overlap.
\<close>

section \<open>Invariants\<close>

datatype severity = HIGH | CRITICAL

record violation =
  vi_breachType :: string
  vi_severity :: severity
  vi_message :: string

record balance_snapshot =
  sn_keeperXlmBalance :: "rat option"
  sn_keeperPublicKey :: string

definition evaluateBalanceInvariants :: "(rat \<Rightarrow> string) \<Rightarrow> balance_snapshot \<Rightarrow> rat \<Rightarrow> violation list" where
  "evaluateBalanceInvariants show_num snap minBalance =
     (case sn_keeperXlmBalance snap of
        None \<Rightarrow> [\<lparr>vi_breachType = ''KEEPER_BALANCE_UNREADABLE'', vi_severity = HIGH,
                  vi_message = ''Keeper account balance could not be read - invariant state is unknown.''\<rparr>]
      | Some b \<Rightarrow>
          (if b < minBalance
           then [\<lparr>vi_breachType = ''KEEPER_XLM_BALANCE_BELOW_FLOOR'', vi_severity = CRITICAL,
                  vi_message = ''Keeper XLM balance '' @ show_num b @ '' is below the invariant floor of ''
                    @ show_num minBalance @ '' XLM.''\<rparr>]
           else []))"

definition requiresCircuitBreakerPause :: "violation list \<Rightarrow> violation list" where
  "requiresCircuitBreakerPause vs = filter (\<lambda>v. vi_severity v = CRITICAL) vs"

section \<open>The breaker\<close>

record breaker_event =
  be_breachType :: string
  be_severity :: severity
  be_reason :: string
  be_status :: string
  be_txHash :: "string option"
  be_keeperPublicKey :: string
  be_detectedAt :: int

record breaker =
  br_enabled :: bool
  br_contractId :: string
  br_minKeeperXlmBalance :: rat
  br_checkIntervalMs :: int
  br_cooldownMs :: int
  br_isRunning :: bool
  br_lastCheckAt :: "int option"
  br_lastViolation :: "string option"
  br_lastPauseAt :: "int option"
  br_lastPauseByBreachType :: "(string \<times> int) list"

text \<open>\<open>parsed\<close> is what \<open>Number.parseInt\<close> gives for the setting.\<close>

definition parsePositiveNumber :: "int option \<Rightarrow> int \<Rightarrow> int" where
  "parsePositiveNumber parsed fallback = (case parsed of Some n \<Rightarrow> if n > 0 then n else fallback | None \<Rightarrow> fallback)"

definition new_CircuitBreakerService :: "bool \<Rightarrow> string \<Rightarrow> int option \<Rightarrow> int option \<Rightarrow> int option \<Rightarrow> breaker" where
  "new_CircuitBreakerService enabled contractId minXlm interval cooldown =
     \<lparr>br_enabled = enabled, br_contractId = contractId,
      br_minKeeperXlmBalance = of_int (parsePositiveNumber minXlm 20),
      br_checkIntervalMs = parsePositiveNumber interval (60 * 1000),
      br_cooldownMs = parsePositiveNumber cooldown (30 * 60 * 1000),
      br_isRunning = False, br_lastCheckAt = None, br_lastViolation = None, br_lastPauseAt = None,
      br_lastPauseByBreachType = []\<rparr>"

record breaker_status =
  bt_enabled :: bool
  bt_isRunning :: bool
  bt_contractId :: string
  bt_minKeeperXlmBalance :: rat
  bt_checkIntervalMs :: int
  bt_cooldownMs :: int
  bt_lastCheckAt :: "int option"
  bt_lastViolation :: "string option"
  bt_lastPauseAt :: "int option"

definition breaker_getStatus :: "breaker \<Rightarrow> breaker_status" where
  "breaker_getStatus b =
     \<lparr>bt_enabled = br_enabled b, bt_isRunning = br_isRunning b, bt_contractId = br_contractId b,
      bt_minKeeperXlmBalance = br_minKeeperXlmBalance b, bt_checkIntervalMs = br_checkIntervalMs b,
      bt_cooldownMs = br_cooldownMs b, bt_lastCheckAt = br_lastCheckAt b,
      bt_lastViolation = br_lastViolation b, bt_lastPauseAt = br_lastPauseAt b\<rparr>"

text \<open>The state of a history: the service, the audit table, the accepted submissions and the alerts.\<close>

record breaker_system =
  bk_breaker :: breaker
  bk_events :: "breaker_event list"
  bk_pauses :: "(string \<times> int) list"
  bk_alerts :: "(string \<times> string option) list"

section \<open>Submitting a pause\<close>

text \<open>What the network answers: the simulation, the signature, and the status of the submission.\<close>

record pause_answers =
  pa_sequence :: "(string, string) result"
  pa_simulation :: "(string, unit) result"
  pa_signature :: "(string, unit) result"
  pa_send :: "(string, string \<times> string option) result"
  pa_hash :: string

definition submitPauseTransaction :: "pause_answers \<Rightarrow> (string, string) result" where
  "submitPauseTransaction a =
     (case pa_simulation a of
        Inl e \<Rightarrow> Inl (''pause() simulation failed: '' @ e)
      | Inr _ \<Rightarrow>
          rbind (pa_signature a) (\<lambda>_. rbind (pa_send a) (\<lambda>(status, errorResult).
            if status \<in> {''PENDING'', ''DUPLICATE'', ''TRY_AGAIN_LATER''} then Inr (pa_hash a)
            else Inl (''pause() submission rejected with status '' @ [CHR 0x22] @ status @ [CHR 0x22]
              @ (case errorResult of Some r \<Rightarrow> '': '' @ r | None \<Rightarrow> [])))))"

definition buildSignAndSubmitPause :: "pause_answers \<Rightarrow> (string, string) result" where
  "buildSignAndSubmitPause a = rbind (pa_sequence a) (\<lambda>_. submitPauseTransaction a)"

definition pause_memo :: "string \<Rightarrow> string" where
  "pause_memo breachType = ''SF-PAUSE-'' @ take 14 breachType"

section \<open>The cooldown\<close>

definition persistedPauseFinder :: "string \<Rightarrow> int \<Rightarrow> breaker_event list \<Rightarrow> bool" where
  "persistedPauseFinder breachType since evs \<longleftrightarrow>
     (\<exists>e \<in> set evs. be_breachType e = breachType \<and> be_status e = ''PAUSE_SUBMITTED'' \<and> be_detectedAt e \<ge> since)"

definition paused_in_memory :: "string \<Rightarrow> int \<Rightarrow> breaker \<Rightarrow> bool" where
  "paused_in_memory breachType now b =
     (let lastInMemory = (case jm_get (br_lastPauseByBreachType b) breachType of Some t \<Rightarrow> t | None \<Rightarrow> 0) in
      now - lastInMemory < br_cooldownMs b)"

text \<open>The table is only asked when the memory does not know of a pause; \<open>findError\<close> is a failing query.\<close>

definition isWithinCooldown :: "string option \<Rightarrow> string \<Rightarrow> int \<Rightarrow> breaker_system \<Rightarrow> (string, bool) result" where
  "isWithinCooldown findError breachType now y =
     (if paused_in_memory breachType now (bk_breaker y) then Inr True
      else case findError of
             Some err \<Rightarrow> Inl err
           | None \<Rightarrow> Inr (persistedPauseFinder breachType (now - br_cooldownMs (bk_breaker y)) (bk_events y)))"

section \<open>The pause sequence\<close>

text \<open>
  The answers to the calls of one pause sequence; a time is given for each event that is recorded, and
  for the end of the submission.
\<close>

record pause_env =
  pe_clock :: int
  pe_findError :: "string option"
  pe_key :: "(string, string) result"
  pe_detected :: "(string, int) result"
  pe_answers :: pause_answers
  pe_pausedAt :: int
  pe_recorded :: "(string, int) result"
  pe_failedRecorded :: "(string, int) result"
  pe_notified :: "(string, unit) result"

datatype pause_result = Skipped | Paused string

definition record_event ::
  "violation \<Rightarrow> string \<Rightarrow> string option \<Rightarrow> string \<Rightarrow> int \<Rightarrow> breaker_system \<Rightarrow> breaker_system" where
  "record_event v status txHash key t y =
     y\<lparr>bk_events := bk_events y @
        [\<lparr>be_breachType = vi_breachType v, be_severity = vi_severity v, be_reason = vi_message v,
          be_status = status, be_txHash = txHash, be_keeperPublicKey = key, be_detectedAt = t\<rparr>]\<rparr>"

definition note_pause :: "violation \<Rightarrow> int \<Rightarrow> int \<Rightarrow> breaker_system \<Rightarrow> breaker_system" where
  "note_pause v now pausedAt y =
     y\<lparr>bk_breaker := (bk_breaker y)\<lparr>br_lastPauseAt := Some pausedAt,
         br_lastPauseByBreachType := jm_set (vi_breachType v) now (br_lastPauseByBreachType (bk_breaker y))\<rparr>,
       bk_pauses := bk_pauses y @ [(vi_breachType v, now)]\<rparr>"

text \<open>The \<open>catch\<close> block: the failure is recorded and the error is thrown again.\<close>

definition pause_failure ::
  "pause_env \<Rightarrow> violation \<Rightarrow> string \<Rightarrow> string \<Rightarrow> breaker_system \<Rightarrow> (string, pause_result) result \<times> breaker_system" where
  "pause_failure e v key err y = (case pe_failedRecorded e of
      Inl err' \<Rightarrow> (Inl err', y)
    | Inr t \<Rightarrow> (Inl err, record_event v ''PAUSE_FAILED'' None key t y))"

definition notify_pause :: "violation \<Rightarrow> string option \<Rightarrow> breaker_system \<Rightarrow> breaker_system" where
  "notify_pause v txHash y = y\<lparr>bk_alerts := bk_alerts y @ [(vi_breachType v, txHash)]\<rparr>"

text \<open>After the cooldown test.\<close>

definition run_pause :: "pause_env \<Rightarrow> violation \<Rightarrow> breaker_system \<Rightarrow> (string, pause_result) result \<times> breaker_system" where
  "run_pause e v y = (case pe_key e of
      Inl err \<Rightarrow> (Inl err, y)
    | Inr key \<Rightarrow> (case pe_detected e of
        Inl err \<Rightarrow> (Inl err, y)
      | Inr t \<Rightarrow>
          (let y1 = record_event v ''DETECTED'' None key t y in
           case buildSignAndSubmitPause (pe_answers e) of
             Inl err \<Rightarrow> pause_failure e v key err y1
           | Inr hash \<Rightarrow>
               (let y2 = note_pause v (pe_clock e) (pe_pausedAt e) y1 in
                case pe_recorded e of
                  Inl err \<Rightarrow> pause_failure e v key err y2
                | Inr t' \<Rightarrow>
                    (let y3 = record_event v ''PAUSE_SUBMITTED'' (Some hash) key t' y2 in
                     case pe_notified e of
                       Inl err \<Rightarrow> (Inl err, y3)
                     | Inr _ \<Rightarrow> (Inr (Paused hash), notify_pause v (Some hash) y3))))))"

definition triggerPause :: "pause_env \<Rightarrow> violation \<Rightarrow> breaker_system \<Rightarrow> (string, pause_result) result \<times> breaker_system" where
  "triggerPause e v y =
     (case isWithinCooldown (pe_findError e) (vi_breachType v) (pe_clock e) y of
        Inl err \<Rightarrow> (Inl err, y)
      | Inr cooling \<Rightarrow> (if cooling then (Inr Skipped, y) else run_pause e v y))"

section \<open>Checks\<close>

record check_env =
  ce_lockdown :: "(string, bool) result"
  ce_key :: "(string, string) result"
  ce_balance :: "rat option"
  ce_checkedAt :: int
  ce_notified :: "(string, unit) result"
  ce_pause :: pause_env

fun notify_all :: "(string, unit) result \<Rightarrow> violation list \<Rightarrow> breaker_system \<Rightarrow> (string, unit) result \<times> breaker_system" where
  "notify_all a [] y = (Inr (), y)"
| "notify_all a (v # vs) y = (case a of Inl err \<Rightarrow> (Inl err, y) | Inr _ \<Rightarrow> notify_all a vs (notify_pause v None y))"

fun pause_all :: "pause_env \<Rightarrow> violation list \<Rightarrow> breaker_system \<Rightarrow> (string, unit) result \<times> breaker_system" where
  "pause_all e [] y = (Inr (), y)"
| "pause_all e (v # vs) y =
     (case triggerPause e v y of (Inl err, y1) \<Rightarrow> (Inl err, y1) | (Inr _, y1) \<Rightarrow> pause_all e vs y1)"

definition runCheck :: "(rat \<Rightarrow> string) \<Rightarrow> check_env \<Rightarrow> breaker_system \<Rightarrow> (string, violation list) result \<times> breaker_system" where
  "runCheck show_num e y =
     (let b = bk_breaker y in
      if \<not> br_enabled b \<or> br_contractId b = [] then (Inr [], y)
      else case ce_lockdown e of
        Inl err \<Rightarrow> (Inl err, y)
      | Inr locked \<Rightarrow>
          (if locked then (Inr [], y)
           else case ce_key e of
             Inl err \<Rightarrow> (Inl err, y)
           | Inr key \<Rightarrow>
               (let y1 = y\<lparr>bk_breaker := b\<lparr>br_lastCheckAt := Some (ce_checkedAt e)\<rparr>\<rparr>;
                    vs = evaluateBalanceInvariants show_num
                           \<lparr>sn_keeperXlmBalance = ce_balance e, sn_keeperPublicKey = key\<rparr> (br_minKeeperXlmBalance b) in
                if vs = [] then (Inr [], y1)
                else let y2 = y1\<lparr>bk_breaker := (bk_breaker y1)\<lparr>br_lastViolation := Some (join_with '','' (map vi_breachType vs))\<rparr>\<rparr> in
                     case notify_all (ce_notified e) (filter (\<lambda>v. vi_severity v \<noteq> CRITICAL) vs) y2 of
                       (Inl err, y3) \<Rightarrow> (Inl err, y3)
                     | (Inr _, y3) \<Rightarrow>
                         (case pause_all (ce_pause e) (requiresCircuitBreakerPause vs) y3 of
                            (Inl err, y4) \<Rightarrow> (Inl err, y4)
                          | (Inr _, y4) \<Rightarrow> (Inr vs, y4)))))"

text \<open>\<open>start\<close> runs the first check, whose error it only logs; \<open>stop\<close> clears the flag.\<close>

definition breaker_start :: "(rat \<Rightarrow> string) \<Rightarrow> check_env \<Rightarrow> breaker_system \<Rightarrow> breaker_system" where
  "breaker_start show_num e y =
     (let b = bk_breaker y in
      if br_isRunning b \<or> \<not> br_enabled b \<or> br_contractId b = [] then y
      else snd (runCheck show_num e (y\<lparr>bk_breaker := b\<lparr>br_isRunning := True\<rparr>\<rparr>)))"

definition breaker_stop :: "breaker_system \<Rightarrow> breaker_system" where
  "breaker_stop y = y\<lparr>bk_breaker := (bk_breaker y)\<lparr>br_isRunning := False\<rparr>\<rparr>"

section \<open>Histories\<close>

datatype breaker_move =
    B_check check_env
  | B_start check_env
  | B_stop
  | B_restart

fun breaker_move_to :: "(rat \<Rightarrow> string) \<Rightarrow> breaker_move \<Rightarrow> breaker_system \<Rightarrow> breaker_system" where
  "breaker_move_to sh (B_check e) y = snd (runCheck sh e y)"
| "breaker_move_to sh (B_start e) y = breaker_start sh e y"
| "breaker_move_to sh B_stop y = breaker_stop y"
| "breaker_move_to sh B_restart y =
     y\<lparr>bk_breaker := (bk_breaker y)\<lparr>br_isRunning := False, br_lastCheckAt := None, br_lastViolation := None,
         br_lastPauseAt := None, br_lastPauseByBreachType := []\<rparr>\<rparr>"

text \<open>The audit write of a submitted pause succeeds, at or after the time of its sequence.\<close>

definition recorded_ok :: "check_env \<Rightarrow> bool" where
  "recorded_ok e = (case pe_recorded (ce_pause e) of Inl _ \<Rightarrow> False | Inr t \<Rightarrow> pe_clock (ce_pause e) \<le> t)"

fun move_ok :: "breaker_move \<Rightarrow> bool" where
  "move_ok (B_check e) = recorded_ok e"
| "move_ok (B_start e) = recorded_ok e"
| "move_ok _ = True"

definition pauses_recorded :: "breaker_system \<Rightarrow> bool" where
  "pauses_recorded y \<longleftrightarrow> (\<forall>(k, t) \<in> set (bk_pauses y). \<exists>e \<in> set (bk_events y).
     be_breachType e = k \<and> be_status e = ''PAUSE_SUBMITTED'' \<and> t \<le> be_detectedAt e)"

definition pauses_apart :: "int \<Rightarrow> (string \<times> int) list \<Rightarrow> bool" where
  "pauses_apart cooldown = sorted_wrt (\<lambda>(k, t) (k', t'). k = k' \<longrightarrow> t + cooldown < t')"

definition breaker_inv :: "breaker_system \<Rightarrow> bool" where
  "breaker_inv y \<longleftrightarrow> pauses_recorded y \<and> pauses_apart (br_cooldownMs (bk_breaker y)) (bk_pauses y)"

lemma pauses_recorded_more:
  "pauses_recorded y \<Longrightarrow> bk_pauses y' = bk_pauses y \<Longrightarrow> set (bk_events y) \<subseteq> set (bk_events y') \<Longrightarrow> pauses_recorded y'"
  unfolding pauses_recorded_def by fastforce

lemma breaker_inv_more:
  "breaker_inv y \<Longrightarrow> bk_pauses y' = bk_pauses y \<Longrightarrow> set (bk_events y) \<subseteq> set (bk_events y')
     \<Longrightarrow> br_cooldownMs (bk_breaker y') = br_cooldownMs (bk_breaker y) \<Longrightarrow> breaker_inv y'"
  by (auto simp: breaker_inv_def intro: pauses_recorded_more)

lemma run_pause_inv:
  assumes inv: "breaker_inv y" and rec: "pe_recorded e = Inr t" "pe_clock e \<le> t"
    and free: "\<not> persistedPauseFinder (vi_breachType v) (pe_clock e - br_cooldownMs (bk_breaker y)) (bk_events y)"
  shows "breaker_inv (snd (run_pause e v y)) \<and> br_cooldownMs (bk_breaker (snd (run_pause e v y))) = br_cooldownMs (bk_breaker y)"
proof -
  have apart: "s + br_cooldownMs (bk_breaker y) < pe_clock e" if "(vi_breachType v, s) \<in> set (bk_pauses y)" for s
    using inv that free by (fastforce simp: breaker_inv_def pauses_recorded_def persistedPauseFinder_def)
  have new: "pauses_apart (br_cooldownMs (bk_breaker y)) (bk_pauses y @ [(vi_breachType v, pe_clock e)])"
    using inv apart by (auto simp: breaker_inv_def pauses_apart_def sorted_wrt_append)
  have old: "pauses_recorded y" using inv by (simp add: breaker_inv_def)
  have *: "breaker_inv (record_event v ''PAUSE_SUBMITTED'' h k t (note_pause v (pe_clock e) p (record_event v ''DETECTED'' None k t0 y)))"
    for h k p t0
    using new old rec(2) by (fastforce simp: breaker_inv_def pauses_recorded_def record_event_def note_pause_def)
  have **: "breaker_inv (record_event v s h k t1 y)" for s h k t1
    by (rule breaker_inv_more [OF inv]) (auto simp: record_event_def)
  show ?thesis
    using inv * ** breaker_inv_more [OF **]
    by (auto simp: run_pause_def rec(1) pause_failure_def Let_def notify_pause_def record_event_def note_pause_def
        split: sum.split intro: breaker_inv_more [OF *] breaker_inv_more [OF **])
qed

lemma triggerPause_inv:
  assumes "breaker_inv y" "pe_recorded e = Inr t" "pe_clock e \<le> t"
  shows "breaker_inv (snd (triggerPause e v y)) \<and> br_cooldownMs (bk_breaker (snd (triggerPause e v y))) = br_cooldownMs (bk_breaker y)"
  using assms run_pause_inv [OF assms]
  by (auto simp: triggerPause_def isWithinCooldown_def split: sum.split option.splits if_splits)

lemma pause_all_inv:
  assumes "breaker_inv y" "pe_recorded e = Inr t" "pe_clock e \<le> t"
  shows "breaker_inv (snd (pause_all e vs y)) \<and> br_cooldownMs (bk_breaker (snd (pause_all e vs y))) = br_cooldownMs (bk_breaker y)"
  using assms(1)
proof (induction vs arbitrary: y)
  case (Cons v vs)
  obtain r y1 where "triggerPause e v y = (r, y1)" by fastforce
  then show ?case using triggerPause_inv [OF Cons.prems assms(2,3), of v] Cons.IH [of y1] by (cases r) auto
qed simp

lemma notify_all_frame:
  "bk_pauses (snd (notify_all a vs y)) = bk_pauses y \<and> bk_events (snd (notify_all a vs y)) = bk_events y
     \<and> bk_breaker (snd (notify_all a vs y)) = bk_breaker y"
  by (induction vs arbitrary: y) (auto simp: notify_pause_def split: sum.split)

lemma breaker_inv_frame:
  "breaker_inv y \<Longrightarrow> breaker_inv (y\<lparr>bk_breaker := b\<rparr>)" if "br_cooldownMs b = br_cooldownMs (bk_breaker y)"
  using that by (auto intro: breaker_inv_more)

lemma runCheck_inv:
  assumes "breaker_inv y" "recorded_ok e"
  shows "breaker_inv (snd (runCheck sh e y)) \<and> br_cooldownMs (bk_breaker (snd (runCheck sh e y))) = br_cooldownMs (bk_breaker y)"
proof -
  obtain t where t: "pe_recorded (ce_pause e) = Inr t" "pe_clock (ce_pause e) \<le> t"
    using assms(2) by (auto simp: recorded_ok_def split: sum.splits)
  let ?b = "\<lambda>w. (bk_breaker y)\<lparr>br_lastCheckAt := Some (ce_checkedAt e), br_lastViolation := w\<rparr>"
  have inv2: "breaker_inv y3 \<and> br_cooldownMs (bk_breaker y3) = br_cooldownMs (bk_breaker y)"
    if "notify_all (ce_notified e) vs (y\<lparr>bk_breaker := ?b w\<rparr>) = (r, y3)" for vs w r y3
    using notify_all_frame [of "ce_notified e" vs "y\<lparr>bk_breaker := ?b w\<rparr>"] that breaker_inv_frame [of "?b w" y] assms(1)
    by (auto intro: breaker_inv_more)
  have inv4: "breaker_inv y4 \<and> br_cooldownMs (bk_breaker y4) = br_cooldownMs (bk_breaker y)"
    if "notify_all (ce_notified e) vs (y\<lparr>bk_breaker := ?b w\<rparr>) = (r, y3)" "pause_all (ce_pause e) ws y3 = (r', y4)" for vs ws w r r' y3 y4
    using inv2 [OF that(1)] pause_all_inv [OF _ t, of y3 ws] that(2) by auto
  show ?thesis
    using assms(1) inv2 inv4 by (auto simp: runCheck_def Let_def breaker_inv_frame split: sum.split prod.split)
qed

lemma breaker_move_inv:
  assumes "breaker_inv y" "move_ok m"
  shows "breaker_inv (breaker_move_to sh m y) \<and> br_cooldownMs (bk_breaker (breaker_move_to sh m y)) = br_cooldownMs (bk_breaker y)"
proof (cases m)
  case (B_start e)
  then show ?thesis using assms runCheck_inv [of "y\<lparr>bk_breaker := (bk_breaker y)\<lparr>br_isRunning := True\<rparr>\<rparr>" e sh]
      breaker_inv_frame [of "(bk_breaker y)\<lparr>br_isRunning := True\<rparr>" y]
    by (auto simp: breaker_start_def Let_def)
qed (use assms runCheck_inv in \<open>auto simp: breaker_stop_def breaker_inv_frame\<close>)

definition breaker_init :: "breaker \<Rightarrow> breaker_system" where
  "breaker_init b = \<lparr>bk_breaker = b, bk_events = [], bk_pauses = [], bk_alerts = []\<rparr>"

definition breaker_run :: "(rat \<Rightarrow> string) \<Rightarrow> breaker_move list \<Rightarrow> breaker \<Rightarrow> breaker_system" where
  "breaker_run sh ms b = fold (breaker_move_to sh) ms (breaker_init b)"

text \<open>
  C36. In any history of checks, starts, stops and restarts of the process that do not overlap, the pauses
  submitted for one breach type are more than the cooldown apart, when the audit write of each submitted
  pause succeeds.
\<close>
theorem pauses_cooldown_apart:
  assumes "\<forall>m \<in> set ms. move_ok m"
  shows "pauses_apart (br_cooldownMs b) (bk_pauses (breaker_run sh ms b))"
proof -
  have "breaker_inv (fold (breaker_move_to sh) ms y) \<and>
      br_cooldownMs (bk_breaker (fold (breaker_move_to sh) ms y)) = br_cooldownMs (bk_breaker y)"
    if "breaker_inv y" "\<forall>m \<in> set ms. move_ok m" for y ms
    using that breaker_move_inv by (induction ms arbitrary: y) auto
  moreover have "breaker_inv (breaker_init b)" "br_cooldownMs (bk_breaker (breaker_init b)) = br_cooldownMs b"
    by (simp_all add: breaker_inv_def breaker_init_def pauses_recorded_def pauses_apart_def)
  ultimately have "breaker_inv (breaker_run sh ms b)" "br_cooldownMs (bk_breaker (breaker_run sh ms b)) = br_cooldownMs b"
    using assms unfolding breaker_run_def by metis+
  then show ?thesis by (simp add: breaker_inv_def)
qed

definition accepted :: pause_answers where
  "accepted = \<lparr>pa_sequence = Inr ''1'', pa_simulation = Inr (), pa_signature = Inr (), pa_send = Inr (''PENDING'', None), pa_hash = ''h''\<rparr>"

definition low_balance :: "int \<Rightarrow> check_env" where
  "low_balance t = \<lparr>ce_lockdown = Inr False, ce_key = Inr ''K'', ce_balance = Some 3, ce_checkedAt = t, ce_notified = Inr (),
     ce_pause = \<lparr>pe_clock = t, pe_findError = None, pe_key = Inr ''K'', pe_detected = Inr t, pe_answers = accepted,
       pe_pausedAt = t, pe_recorded = Inr t, pe_failedRecorded = Inr t, pe_notified = Inr ()\<rparr>\<rparr>"

definition example_breaker :: breaker where
  "example_breaker = new_CircuitBreakerService True ''C'' None None (Some 1000)"

lemmas breaker_simps = breaker_run_def breaker_init_def example_breaker_def new_CircuitBreakerService_def parsePositiveNumber_def
  low_balance_def runCheck_def evaluateBalanceInvariants_def requiresCircuitBreakerPause_def triggerPause_def isWithinCooldown_def
  paused_in_memory_def persistedPauseFinder_def run_pause_def buildSignAndSubmitPause_def submitPauseTransaction_def accepted_def
  record_event_def note_pause_def notify_pause_def Let_def

text \<open>The witness: three checks of a low balance, the second within the cooldown, with a restart in between.\<close>
theorem pauses_cooldown_apart_witness:
  "pauses_apart 1000 (bk_pauses (breaker_run (\<lambda>_. []) [B_check (low_balance 5000), B_restart, B_check (low_balance 5900), B_check (low_balance 6001)] example_breaker))
   \<and> map snd (bk_pauses (breaker_run (\<lambda>_. []) [B_check (low_balance 5000), B_restart, B_check (low_balance 5900), B_check (low_balance 6001)] example_breaker)) = [5000, 6001]"
proof -
  let ?ms = "[B_check (low_balance 5000), B_restart, B_check (low_balance 5900), B_check (low_balance 6001)]"
  have "\<forall>m \<in> set ?ms. move_ok m" by (simp add: recorded_ok_def low_balance_def)
  from pauses_cooldown_apart [OF this, of example_breaker "\<lambda>_. []"]
  show ?thesis by (simp add: breaker_simps)
qed

text \<open>A balance is reported exactly when it is unreadable or below the floor, and only the latter pauses.\<close>

lemma pause_iff_below_floor:
  "requiresCircuitBreakerPause (evaluateBalanceInvariants sh snap minimum) \<noteq> []
     \<longleftrightarrow> (\<exists>b. sn_keeperXlmBalance snap = Some b \<and> b < minimum)"
  "evaluateBalanceInvariants sh snap minimum = [] \<longleftrightarrow> (\<exists>b. sn_keeperXlmBalance snap = Some b \<and> minimum \<le> b)"
  by (auto simp: requiresCircuitBreakerPause_def evaluateBalanceInvariants_def split: option.split)

text \<open>Two checks that overlap both pass the cooldown test and both submit a pause.\<close>

lemma overlapping_checks_pause_twice:
  defines "y \<equiv> breaker_init example_breaker"
    and "v \<equiv> \<lparr>vi_breachType = ''B'', vi_severity = CRITICAL, vi_message = []\<rparr>"
  shows "isWithinCooldown None ''B'' 5000 y = Inr False \<and> isWithinCooldown None ''B'' 5001 y = Inr False
    \<and> map snd (bk_pauses (snd (run_pause (ce_pause (low_balance 5001)) v (snd (run_pause (ce_pause (low_balance 5000)) v y))))) = [5000, 5001]"
  unfolding y_def v_def by (simp add: breaker_simps)

text \<open>A submission that the network asks to repeat later counts as a submitted pause.\<close>

lemma try_again_counts_as_paused:
  "submitPauseTransaction (accepted\<lparr>pa_send := Inr (''TRY_AGAIN_LATER'', None)\<rparr>) = Inr ''h''"
  by (simp add: submitPauseTransaction_def accepted_def)

end
