(* ===== verification/GovernanceResult.thy ===== *)
theory GovernanceResult
  imports JSText "HOL-Library.Product_Lexorder"
begin

text \<open>
  \<open>src/services/governanceResultService.ts\<close>: the tally of a proposal, computed on decimal texts with
  unbounded integers at the widest scale of the input, and the snapshot document whose bytes are
  hashed and published.  A weight is the text its \<open>toString\<close> gives; a date is its time value (\<open>None\<close> for
  an invalid one) with its text; strings are not limited in length.

  The lemmas show that the tally is exact: every total denotes the sum of what the weights denote, per
  choice and overall, in one canonical text, and that the snapshot does not depend on the order in
  which the votes are read.
\<close>

section \<open>Data\<close>

datatype result_error = Invalid_weight string | Invalid_date

type_synonym js_date = "int option \<times> string"

record vote_record =
  v_accountId :: string
  v_choice :: string
  v_weight :: string
  v_votedAt :: js_date
  v_txHash :: "string option"

record proposal_input =
  pi_proposalId :: string
  pi_contractId :: string
  pi_title :: "string option"
  pi_actionType :: "string option"
  pi_status :: string
  pi_expiresAt :: js_date
  pi_queuedAt :: "js_date option"
  pi_executedAt :: "js_date option"
  pi_cancelledAt :: "js_date option"
  pi_transactionHash :: "string option"

record choice_tally =
  ct_votes :: nat
  ct_weight :: string

record vote_tally =
  vt_totalVoters :: nat
  vt_totalWeight :: string
  vt_byChoice :: "(string \<times> choice_tally) list"

record snapshot_voter =
  sv_accountId :: string
  sv_choice :: string
  sv_weight :: string
  sv_votedAt :: string
  sv_txHash :: "string option"

section \<open>Weights\<close>

text \<open>
  The common part of the two regular expressions: an optional minus sign, digits, an optional fraction,
  and what is left of the text.
\<close>

definition mantissa :: "string \<Rightarrow> (bool \<times> string \<times> string \<times> string) option" where
  "mantissa text =
     (let neg = (text \<noteq> [] \<and> hd text = CHR ''-'');
          r = (if neg then tl text else text);
          whole = takeWhile is_digit r; r1 = dropWhile is_digit r;
          f = takeWhile is_digit (tl r1)
      in if whole = [] then None
         else if r1 \<noteq> [] \<and> hd r1 = CHR ''.'' \<and> f \<noteq> [] then Some (neg, whole, f, dropWhile is_digit (tl r1))
         else Some (neg, whole, [], r1))"

definition exponent_of :: "string \<Rightarrow> int option" where
  "exponent_of r =
     (let neg = (r \<noteq> [] \<and> hd r = CHR ''-'');
          d = (if r \<noteq> [] \<and> hd r \<in> {CHR ''-'', CHR ''+''} then tl r else r)
      in if d \<noteq> [] \<and> all_digits d then Some ((if neg then -1 else 1) * int (read_nat d)) else None)"

definition exponential_parts :: "string \<Rightarrow> (bool \<times> string \<times> string \<times> int) option" where
  "exponential_parts text = (case mantissa text of
      Some (neg, whole, fraction, e # r) \<Rightarrow>
        (if e \<in> {CHR ''e'', CHR ''E''} then map_option (\<lambda>x. (neg, whole, fraction, x)) (exponent_of r) else None)
    | _ \<Rightarrow> None)"

definition sign_text :: "bool \<Rightarrow> string" where
  "sign_text neg = (if neg then ''-'' else [])"

definition expandExponential :: "string \<Rightarrow> string" where
  "expandExponential text = (case exponential_parts text of
      None \<Rightarrow> text
    | Some (neg, whole, fraction, exponent) \<Rightarrow>
        (let digits = whole @ fraction; pointPosition = int (length whole) + exponent in
         if pointPosition \<le> 0 then sign_text neg @ ''0.'' @ replicate (nat (- pointPosition)) CHR ''0'' @ digits
         else if pointPosition \<ge> int (length digits) then
           sign_text neg @ digits @ replicate (nat (pointPosition - int (length digits))) CHR ''0''
         else sign_text neg @ take (nat pointPosition) digits @ ''.'' @ drop (nat pointPosition) digits))"

fun strip_zeros :: "string \<Rightarrow> string" where
  "strip_zeros (a # b # s) = (if a = CHR ''0'' \<and> is_digit b then strip_zeros (b # s) else a # b # s)"
| "strip_zeros s = s"

definition toScaledWeight :: "string \<Rightarrow> (result_error, int \<times> nat) result" where
  "toScaledWeight value =
     (let text = expandExponential (js_trim value) in
      case mantissa text of
        Some (neg, whole, fraction, []) \<Rightarrow>
          (let digits = strip_zeros (whole @ fraction);
               units = int (read_nat (if length digits > 0 then digits else ''0''))
           in Inr ((if neg then -1 else 1) * units, length fraction))
      | _ \<Rightarrow> Inl (Invalid_weight text))"

definition scaleUp :: "int \<Rightarrow> nat \<Rightarrow> nat \<Rightarrow> int" where
  "scaleUp units from to = (if from = to then units else units * 10 ^ (to - from))"

definition strip_trailing :: "string \<Rightarrow> string" where
  "strip_trailing s = rev (dropWhile (\<lambda>c. c = CHR ''0'') (rev s))"

definition formatScaled :: "int \<Rightarrow> nat \<Rightarrow> string" where
  "formatScaled units scale =
     (if scale = 0 then show_int units
      else let digits = pad_left (scale + 1) (show_nat (nat \<bar>units\<bar>));
               whole = take (length digits - scale) digits;
               fraction = strip_trailing (drop (length digits - scale) digits);
               body = (if length fraction > 0 then whole @ ''.'' @ fraction else whole)
           in if units < 0 then ''-'' @ body else body)"

section \<open>Tally\<close>

definition scaled_vote :: "vote_record \<Rightarrow> (result_error, string \<times> int \<times> nat) result" where
  "scaled_vote v = rbind (toScaledWeight (v_weight v)) (\<lambda>(u, s). Inr (v_choice v, u, s))"

definition widest :: "(string \<times> int \<times> nat) list \<Rightarrow> nat" where
  "widest svs = fold (\<lambda>(_, _, s) scale. if s > scale then s else scale) svs 0"

definition add_vote :: "nat \<Rightarrow> string \<times> int \<times> nat \<Rightarrow> int \<times> (string \<times> int \<times> nat) list \<Rightarrow> int \<times> (string \<times> int \<times> nat) list" where
  "add_vote scale sv acc =
     (let (choice, u, s) = sv; (total, m) = acc; units = scaleUp u s scale;
          (eu, ev) = (case jm_get m choice of Some e \<Rightarrow> e | None \<Rightarrow> (0, 0))
      in (total + units, jm_set choice (eu + units, ev + 1) m))"

text \<open>Assigning the property \<open>__proto__\<close> of an object creates no property.\<close>

definition by_choice :: "nat \<Rightarrow> (string \<times> int \<times> nat) list \<Rightarrow> (string \<times> choice_tally) list" where
  "by_choice scale m =
     own_order (map (\<lambda>choice. case jm_get m choice of
         Some (u, n) \<Rightarrow> (choice, \<lparr>ct_votes = n, ct_weight = formatScaled u scale\<rparr>)
       | None \<Rightarrow> (choice, \<lparr>ct_votes = 0, ct_weight = []\<rparr>))
       (filter (\<lambda>c. c \<noteq> ''__proto__'') (sort (jm_keys m))))"

definition computeVoteTally :: "vote_record list \<Rightarrow> (result_error, vote_tally) result" where
  "computeVoteTally votes =
     rbind (map_result scaled_vote votes) (\<lambda>svs.
       let scale = widest svs; (total, m) = fold (add_vote scale) svs (0, []) in
       Inr \<lparr>vt_totalVoters = length votes, vt_totalWeight = formatScaled total scale, vt_byChoice = by_choice scale m\<rparr>)"

section \<open>Snapshot\<close>

definition toIso :: "js_date \<Rightarrow> (result_error, string) result" where
  "toIso d = (case fst d of None \<Rightarrow> Inl Invalid_date | Some t \<Rightarrow> Inr (toISOString t))"

definition toNullableIso :: "js_date option \<Rightarrow> (result_error, string option) result" where
  "toNullableIso d = (case d of None \<Rightarrow> Inr None | Some x \<Rightarrow> rbind (toIso x) (\<lambda>s. Inr (Some s)))"

text \<open>
  The comparator and the projection both convert the dates; the first invalid one they meet is thrown.
\<close>

definition dated_vote :: "vote_record \<Rightarrow> (result_error, snapshot_voter) result" where
  "dated_vote v = rbind (toIso (v_votedAt v)) (\<lambda>iso.
     Inr \<lparr>sv_accountId = v_accountId v, sv_choice = v_choice v, sv_weight = js_trim (v_weight v),
          sv_votedAt = iso, sv_txHash = v_txHash v\<rparr>)"

definition normalizeVotes :: "vote_record list \<Rightarrow> (result_error, snapshot_voter list) result" where
  "normalizeVotes votes =
     rbind (map_result dated_vote votes) (\<lambda>vs. Inr (sort_key (\<lambda>v. (sv_accountId v, sv_votedAt v)) vs))"

definition proposal_text :: "proposal_input \<Rightarrow> (result_error, string) result" where
  "proposal_text p =
     rbind (toIso (pi_expiresAt p)) (\<lambda>expiresAt.
     rbind (toNullableIso (pi_queuedAt p)) (\<lambda>queuedAt.
     rbind (toNullableIso (pi_executedAt p)) (\<lambda>executedAt.
     rbind (toNullableIso (pi_cancelledAt p)) (\<lambda>cancelledAt.
       Inr (obj_text
         [(''proposalId'', str_text (pi_proposalId p)), (''contractId'', str_text (pi_contractId p)),
          (''title'', opt_text (pi_title p)), (''actionType'', opt_text (pi_actionType p)),
          (''status'', str_text (pi_status p)), (''expiresAt'', str_text expiresAt),
          (''queuedAt'', opt_text queuedAt), (''executedAt'', opt_text executedAt),
          (''cancelledAt'', opt_text cancelledAt), (''transactionHash'', opt_text (pi_transactionHash p))])))))"

definition tally_text :: "vote_tally \<Rightarrow> string" where
  "tally_text t = obj_text
     [(''totalVoters'', show_nat (vt_totalVoters t)), (''totalWeight'', str_text (vt_totalWeight t)),
      (''byChoice'', obj_text (map (\<lambda>(c, e). (c, obj_text
          [(''votes'', show_nat (ct_votes e)), (''weight'', str_text (ct_weight e))])) (vt_byChoice t)))]"

definition voter_text :: "snapshot_voter \<Rightarrow> string" where
  "voter_text v = obj_text
     [(''accountId'', str_text (sv_accountId v)), (''choice'', str_text (sv_choice v)),
      (''weight'', str_text (sv_weight v)), (''votedAt'', str_text (sv_votedAt v)), (''txHash'', opt_text (sv_txHash v))]"

text \<open>The snapshot is built and serialised: properties in the order of the object literal.\<close>

definition result_snapshot :: "proposal_input \<Rightarrow> vote_record list \<Rightarrow> js_date \<Rightarrow> (result_error, string) result" where
  "result_snapshot p votes generatedAt =
     rbind (toIso generatedAt) (\<lambda>iso.
     rbind (proposal_text p) (\<lambda>pt.
     rbind (computeVoteTally votes) (\<lambda>t.
     rbind (normalizeVotes votes) (\<lambda>vs.
       Inr (obj_text
         [(''schema'', str_text ''stellarflow.governance.proposal_result_snapshot''), (''version'', ''1''),
          (''generatedAt'', str_text iso), (''proposal'', pt), (''tally'', tally_text t),
          (''voters'', arr_text (map voter_text vs))])))))"

definition serializeGovernanceResultSnapshot :: "string \<Rightarrow> bytes" where
  "serializeGovernanceResultSnapshot snapshot = utf8 snapshot"

text \<open>SHA-256 is an argument.\<close>

definition sha256Hex :: "(bytes \<Rightarrow> bytes) \<Rightarrow> bytes \<Rightarrow> string" where
  "sha256Hex sha256 content = hex (sha256 content)"

section \<open>Detail query\<close>

record proposal_row =
  pr_input :: proposal_input
  pr_createdAt :: js_date
  pr_updatedAt :: js_date
  pr_exportCid :: "string option"
  pr_exportContentHash :: "string option"
  pr_exportedAt :: "js_date option"
  pr_votes :: "vote_record list"

record result_detail =
  rd_proposal :: string
  rd_createdAt :: string
  rd_updatedAt :: string
  rd_tally :: vote_tally
  rd_voterCount :: nat
  rd_resultExport :: "(string \<times> string option \<times> string option) option"

definition getProposalResultDetail :: "proposal_row option \<Rightarrow> (result_error, result_detail option) result" where
  "getProposalResultDetail row = (case row of None \<Rightarrow> Inr None | Some r \<Rightarrow>
     rbind (proposal_text (pr_input r)) (\<lambda>pt.
     rbind (toIso (pr_createdAt r)) (\<lambda>createdAt.
     rbind (toIso (pr_updatedAt r)) (\<lambda>updatedAt.
     rbind (computeVoteTally (pr_votes r)) (\<lambda>t.
     rbind (case pr_exportCid r of
              None \<Rightarrow> Inr None
            | Some cid \<Rightarrow> if cid = [] then Inr None
                else rbind (toNullableIso (pr_exportedAt r)) (\<lambda>iso. Inr (Some (cid, pr_exportContentHash r, iso))))
       (\<lambda>ex. Inr (Some \<lparr>rd_proposal = pt, rd_createdAt = createdAt, rd_updatedAt = updatedAt, rd_tally = t,
                         rd_voterCount = length (pr_votes r), rd_resultExport = ex\<rparr>)))))))"

section \<open>What a weight denotes\<close>

definition weight_value :: "string \<Rightarrow> rat option" where
  "weight_value value =
     (let text = js_trim value in
      case exponential_parts text of
        Some (neg, whole, fraction, x) \<Rightarrow> Some (decimal_value neg whole fraction * 10 powi x)
      | None \<Rightarrow> (case mantissa text of
            Some (neg, whole, fraction, []) \<Rightarrow> Some (decimal_value neg whole fraction)
          | _ \<Rightarrow> None))"

lemma digit_not_sign: "is_digit c \<Longrightarrow> c \<noteq> CHR ''-'' \<and> c \<noteq> CHR ''.''"
  by (auto simp: is_digit_def)

lemma all_digits_simps [simp]:
  "all_digits []" "all_digits (s @ t) \<longleftrightarrow> all_digits s \<and> all_digits t"
  "all_digits (c # s) \<longleftrightarrow> is_digit c \<and> all_digits s" "all_digits (replicate n CHR ''0'')"
  by (auto simp: all_digits_def is_digit_def)

lemma all_digits_take_drop: "all_digits s \<Longrightarrow> all_digits (take n s) \<and> all_digits (drop n s)"
  by (metis all_digits_simps(2) append_take_drop_id)

lemma all_digits_takeWhile: "all_digits w \<Longrightarrow> takeWhile is_digit (w @ r) = w @ takeWhile is_digit r"
  "all_digits w \<Longrightarrow> dropWhile is_digit (w @ r) = dropWhile is_digit r"
  by (simp_all add: all_digits_def)

lemma takeWhile_digits: "all_digits (takeWhile is_digit s)"
  by (auto simp: all_digits_def dest: set_takeWhileD)

lemma mantissa_signed:
  assumes "w \<noteq> []" "all_digits w"
  shows "mantissa (sign_text neg @ w @ r) =
    (let r1 = dropWhile is_digit r; f = takeWhile is_digit (tl r1); w' = w @ takeWhile is_digit r in
     if r1 \<noteq> [] \<and> hd r1 = CHR ''.'' \<and> f \<noteq> [] then Some (neg, w', f, dropWhile is_digit (tl r1))
     else Some (neg, w', [], r1))"
proof -
  obtain c w1 where w: "w = c # w1" "is_digit c" using assms by (cases w) auto
  then have n: "c \<noteq> CHR ''-''" using digit_not_sign by blast
  show ?thesis
    using assms w n by (cases neg) (simp_all add: mantissa_def Let_def sign_text_def all_digits_takeWhile)
qed

lemma mantissa_plain: "w \<noteq> [] \<Longrightarrow> all_digits w \<Longrightarrow> mantissa (sign_text neg @ w) = Some (neg, w, [], [])"
  using mantissa_signed [of w neg "[]"] by simp

lemma mantissa_fraction:
  "w \<noteq> [] \<Longrightarrow> all_digits w \<Longrightarrow> f \<noteq> [] \<Longrightarrow> all_digits f \<Longrightarrow>
     mantissa (sign_text neg @ w @ CHR ''.'' # f) = Some (neg, w, f, [])"
proof -
  assume a: "w \<noteq> []" "all_digits w" "f \<noteq> []" "all_digits f"
  have nd: "\<not> is_digit CHR ''.''" by (simp add: is_digit_def)
  have t: "takeWhile is_digit f = f" "dropWhile is_digit f = []" using all_digits_takeWhile [OF a(4), of "[]"] by simp_all
  show ?thesis using a(3) by (simp add: mantissa_signed [OF a(1,2)] Let_def nd t)
qed

lemma mantissa_digits: "mantissa text = Some (neg, w, f, r) \<Longrightarrow> w \<noteq> [] \<and> all_digits w \<and> all_digits f"
  by (auto simp: mantissa_def Let_def takeWhile_digits split: if_splits)

lemma exponential_digits: "exponential_parts text = Some (neg, w, f, x) \<Longrightarrow> w \<noteq> [] \<and> all_digits w \<and> all_digits f"
  using mantissa_digits by (auto simp: exponential_parts_def split: option.splits list.splits if_splits)

lemma read_nat_leading_zeros: "read_nat (replicate n CHR ''0'' @ s) = read_nat s"
proof -
  have "read_nat (replicate n CHR ''0'') = 0" by (induction n) (simp_all add: read_nat_def)
  then show ?thesis by (simp add: read_nat_append)
qed

lemma read_nat_shift: "read_nat (s @ replicate n CHR ''0'') = read_nat s * 10 ^ n"
  using read_nat_leading_zeros [of n "[]"] by (simp add: read_nat_append) (simp add: read_nat_def)

lemma strip_zeros_value: "read_nat (strip_zeros s) = read_nat s"
proof (induction s rule: strip_zeros.induct)
  case (1 a b s)
  then show ?case using read_nat_leading_zeros [of 1 "b # s"] by auto
qed simp_all

lemma strip_zeros_Nil: "strip_zeros s = [] \<longleftrightarrow> s = []"
  by (induction s rule: strip_zeros.induct) auto

lemma powi10_add: "(10::rat) powi (a + b) = 10 powi a * 10 powi b"
  by (simp add: power_int_add)

text \<open>Moving the decimal point by the exponent.\<close>

lemma expanded_mantissa:
  assumes "exponential_parts text = Some (neg, w, f, x)"
  shows "\<exists>w' f'. mantissa (expandExponential text) = Some (neg, w', f', [])
    \<and> decimal_value neg w' f' = decimal_value neg w f * 10 powi x"
proof -
  let ?d = "w @ f" and ?p = "int (length w) + x"
  have wf: "w \<noteq> []" "all_digits w" "all_digits f" using exponential_digits [OF assms] by blast+
  consider (left) "?p \<le> 0" | (right) "\<not> ?p \<le> 0" "?p \<ge> int (length ?d)"
    | (mid) "\<not> ?p \<le> 0" "\<not> ?p \<ge> int (length ?d)" by blast
  then show ?thesis
  proof cases
    case left
    let ?f = "replicate (nat (- ?p)) CHR ''0'' @ ?d"
    have e: "expandExponential text = sign_text neg @ ''0'' @ CHR ''.'' # ?f"
      using left by (simp add: expandExponential_def assms Let_def)
    have m: "mantissa (expandExponential text) = Some (neg, ''0'', ?f, [])"
      unfolding e by (rule mantissa_fraction) (use wf in \<open>auto simp: is_digit_def\<close>)
    have "read_nat (''0'' @ ?f) = read_nat ?d" using read_nat_leading_zeros [of "Suc (nat (- ?p))" ?d] by simp
    moreover have "(10::rat) ^ length ?f = 10 ^ length f * 10 powi (- x)"
    proof -
      have "int (length ?f) = int (length f) + - x" using left by simp
      then have "(10::rat) powi int (length ?f) = 10 powi (int (length f) + - x)" by (rule arg_cong)
      then show ?thesis by (simp only: powi10_add power_int_of_nat)
    qed
    ultimately have "decimal_value neg ''0'' ?f = decimal_value neg w f * 10 powi x"
      by (simp only: decimal_value_def power_int_minus) (simp add: field_simps)
    with m show ?thesis by blast
  next
    case right
    let ?w = "?d @ replicate (nat (?p - int (length ?d))) CHR ''0''"
    have e: "expandExponential text = sign_text neg @ ?w"
      using right by (simp add: expandExponential_def assms Let_def)
    have m: "mantissa (expandExponential text) = Some (neg, ?w, [], [])"
      unfolding e by (rule mantissa_plain) (use wf in auto)
    have x: "nat (?p - int (length ?d)) = nat (x - int (length f))" "int (length f) \<le> x" using right by auto
    have "(10::rat) powi x = 10 ^ nat (x - int (length f)) * 10 ^ length f"
    proof -
      have "x = int (nat (x - int (length f)) + length f)" using x(2) by simp
      then have "(10::rat) powi x = 10 powi int (nat (x - int (length f)) + length f)" by metis
      then show ?thesis by (simp only: power_int_of_nat power_add)
    qed
    then have "decimal_value neg ?w [] = decimal_value neg w f * 10 powi x"
      using read_nat_shift [of ?d "nat (x - int (length f))"] by (simp add: decimal_value_def x(1))
    with m show ?thesis by blast
  next
    case mid
    let ?n = "nat ?p"
    have e: "expandExponential text = sign_text neg @ take ?n ?d @ CHR ''.'' # drop ?n ?d"
      using mid by (simp add: expandExponential_def assms Let_def)
    have m: "mantissa (expandExponential text) = Some (neg, take ?n ?d, drop ?n ?d, [])"
      unfolding e using all_digits_take_drop [of ?d ?n] mid wf by (intro mantissa_fraction) auto
    have "int (length (drop ?n ?d)) = int (length f) + - x" using mid by simp
    then have "(10::rat) powi int (length (drop ?n ?d)) = 10 powi (int (length f) + - x)" by (rule arg_cong)
    then have "(10::rat) ^ length (drop ?n ?d) = 10 ^ length f * 10 powi (- x)"
      by (simp only: powi10_add power_int_of_nat)
    then have "decimal_value neg (take ?n ?d) (drop ?n ?d) = decimal_value neg w f * 10 powi x"
      by (simp only: decimal_value_def power_int_minus append_take_drop_id) (simp add: field_simps)
    with m show ?thesis by blast
  qed
qed

lemma decimal_value_units:
  "of_int ((if neg then -1 else 1) * int (read_nat (w @ f))) / 10 ^ length f = decimal_value neg w f"
  by (simp add: decimal_value_def)

lemma toScaledWeight_parts:
  assumes "mantissa (expandExponential (js_trim s)) = Some (neg, w, f, [])"
  shows "toScaledWeight s = Inr ((if neg then -1 else 1) * int (read_nat (w @ f)), length f)"
  using mantissa_digits [OF assms] assms
  by (simp add: toScaledWeight_def Let_def strip_zeros_value strip_zeros_Nil del: split_paired_Ex)

lemma toScaledWeight_value:
  assumes "weight_value s = Some v"
  shows "\<exists>u k. toScaledWeight s = Inr (u, k) \<and> of_int u / 10 ^ k = v"
proof (cases "exponential_parts (js_trim s)")
  case None
  then obtain neg w f where m: "mantissa (js_trim s) = Some (neg, w, f, [])" "v = decimal_value neg w f"
    using assms by (auto simp: weight_value_def Let_def split: option.splits list.splits)
  have "mantissa (expandExponential (js_trim s)) = Some (neg, w, f, [])"
    using m(1) None by (simp add: expandExponential_def)
  from toScaledWeight_parts [OF this] decimal_value_units [of neg w f] m(2) show ?thesis by blast
next
  case (Some q)
  obtain neg w f x where q: "q = (neg, w, f, x)" by (cases q)
  obtain w' f' where "mantissa (expandExponential (js_trim s)) = Some (neg, w', f', [])"
    and v: "decimal_value neg w' f' = decimal_value neg w f * 10 powi x"
    using expanded_mantissa Some q by blast
  from toScaledWeight_parts [OF this(1)] decimal_value_units [of neg w' f'] v
  show ?thesis using assms Some q by (auto simp: weight_value_def Let_def)
qed

lemma toScaledWeight_refused:
  assumes "weight_value s = None"
  shows "toScaledWeight s = Inl (Invalid_weight (js_trim s))"
proof -
  have n: "exponential_parts (js_trim s) = None"
    using assms by (auto simp: weight_value_def Let_def split: option.splits)
  then have e: "expandExponential (js_trim s) = js_trim s" by (simp add: expandExponential_def)
  show ?thesis
    using assms n by (auto simp: toScaledWeight_def Let_def e weight_value_def split: option.splits list.splits)
qed

section \<open>Printing\<close>

lemma all_digits_show_nat [simp]: "all_digits (show_nat n)"
  using show_nat_digits by (auto simp: all_digits_def)

lemma pad_left_digits [simp]: "all_digits (pad_left k s) = all_digits s"
  by (simp add: pad_left_def)

lemma pad_left_value: "read_nat (pad_left k s) = read_nat s"
  by (simp add: pad_left_def read_nat_leading_zeros)

lemma pad_left_length: "length (pad_left k s) = max k (length s)"
  by (simp add: pad_left_def)

lemma strip_trailing_split: "\<exists>k. s = strip_trailing s @ replicate k CHR ''0''"
proof -
  let ?z = "takeWhile (\<lambda>c. c = CHR ''0'') (rev s)"
  have "strip_trailing s @ rev ?z = rev (?z @ dropWhile (\<lambda>c. c = CHR ''0'') (rev s))"
    by (simp only: strip_trailing_def rev_append)
  also have "\<dots> = s" by (simp only: takeWhile_dropWhile_id rev_rev_ident)
  finally have s: "s = strip_trailing s @ rev ?z" by (rule sym)
  have "replicate (length (rev ?z)) CHR ''0'' = rev ?z"
    by (rule replicate_length_same) (auto dest: set_takeWhileD)
  with s show ?thesis by metis
qed

lemma decimal_value_strip: "decimal_value neg w (strip_trailing f) = decimal_value neg w f"
proof -
  obtain k where f: "f = strip_trailing f @ replicate k CHR ''0''" using strip_trailing_split by blast
  have "decimal_value neg w (strip_trailing f @ replicate k CHR ''0'') = decimal_value neg w (strip_trailing f)"
    using read_nat_shift [of "w @ strip_trailing f" k] by (simp add: decimal_value_def power_add)
  then show ?thesis using f by simp
qed

lemma strip_trailing_digits: "all_digits s \<Longrightarrow> all_digits (strip_trailing s)"
  by (metis all_digits_simps(2) strip_trailing_split)

lemma digits_not_space: "all_digits s \<Longrightarrow> c \<in> set s \<Longrightarrow> \<not> is_space c"
  by (auto simp: all_digits_def is_digit_def is_space_def)

text \<open>What a text without an exponent denotes.\<close>

lemma weight_value_text:
  assumes "w \<noteq> []" "all_digits w" "all_digits f" and "text = sign_text neg @ w @ (if f = [] then [] else CHR ''.'' # f)"
  shows "weight_value text = Some (decimal_value neg w f)"
proof -
  have m: "mantissa text = Some (neg, w, f, [])"
    using assms mantissa_plain [of w neg] mantissa_fraction [of w f neg] by (cases "f = []") simp_all
  have "\<not> is_space c" if "c \<in> set text" for c
    using that assms(4) digits_not_space [OF assms(2), of c] digits_not_space [OF assms(3), of c]
    by (auto simp: sign_text_def is_space_def split: if_splits)
  then have "js_trim text = text" by (rule js_trim_id)
  then show ?thesis by (simp add: weight_value_def Let_def exponential_parts_def m)
qed

lemma formatScaled_parts:
  fixes units :: int and scale :: nat
  defines "digits \<equiv> pad_left (scale + 1) (show_nat (nat \<bar>units\<bar>))"
  defines "whole \<equiv> take (length digits - scale) digits" and "fraction \<equiv> strip_trailing (drop (length digits - scale) digits)"
  shows "formatScaled units scale = sign_text (units < 0) @ whole @ (if fraction = [] then [] else CHR ''.'' # fraction)"
    and "whole \<noteq> []" "all_digits whole" "all_digits fraction"
    and "decimal_value (units < 0) whole fraction = of_int units / 10 ^ scale"
proof -
  let ?n = "nat \<bar>units\<bar>"
  have l: "scale + 1 \<le> length digits" by (simp add: digits_def pad_left_length)
  have ad: "all_digits digits" by (simp add: digits_def)
  then show "all_digits whole" "all_digits fraction"
    by (simp_all add: whole_def fraction_def all_digits_take_drop strip_trailing_digits)
  show "whole \<noteq> []" using l by (auto simp: whole_def)
  have z: "pad_left (Suc 0) (show_nat k) = show_nat k" for k
    using show_nat_not_Nil [of k] by (cases "show_nat k") (simp_all add: pad_left_def)
  show "formatScaled units scale = sign_text (units < 0) @ whole @ (if fraction = [] then [] else CHR ''.'' # fraction)"
  proof (cases "scale = 0")
    case True
    then have "digits = show_nat ?n" by (simp add: digits_def z)
    with True show ?thesis
      by (simp add: formatScaled_def whole_def fraction_def strip_trailing_def show_int_def sign_text_def)
  qed (simp add: formatScaled_def Let_def sign_text_def digits_def whole_def fraction_def)
  have "length (drop (length digits - scale) digits) = scale" using l by simp
  then have "decimal_value (units < 0) whole (drop (length digits - scale) digits)
      = (if units < 0 then -1 else 1) * of_nat ?n / 10 ^ scale"
    unfolding whole_def decimal_value_def by (simp add: digits_def pad_left_value read_show_nat)
  then show "decimal_value (units < 0) whole fraction = of_int units / 10 ^ scale"
    by (simp add: fraction_def decimal_value_strip of_nat_nat)
qed

lemma formatScaled_value: "weight_value (formatScaled units scale) = Some (of_int units / 10 ^ scale)"
  using weight_value_text [OF formatScaled_parts(2-4) formatScaled_parts(1), of units scale] formatScaled_parts(5) [of units scale]
  by simp

lemma show_nat_times10: "0 < n \<Longrightarrow> show_nat (10 * n) = show_nat n @ ''0''"
  by (subst show_nat.simps) (simp add: char_of_48)

lemma pad_left_times10: "pad_left (Suc (Suc s)) (show_nat (10 * n)) = pad_left (Suc s) (show_nat n) @ ''0''"
proof (cases "n = 0")
  case True
  have "show_nat 0 = ''0''" by (subst show_nat.simps) (simp add: char_of_48)
  with True show ?thesis by (simp add: pad_left_def replicate_append_same [symmetric])
qed (simp add: pad_left_def show_nat_times10)

lemma strip_trailing_snoc: "strip_trailing (s @ ''0'') = strip_trailing s"
  by (simp add: strip_trailing_def)

lemma formatScaled_times10: "formatScaled (10 * units) (Suc scale) = formatScaled units scale"
proof -
  let ?d = "pad_left (scale + 1) (show_nat (nat \<bar>units\<bar>))"
  have "nat \<bar>10 * units\<bar> = 10 * nat \<bar>units\<bar>" by (simp add: abs_mult nat_mult_distrib)
  then have d: "pad_left (Suc scale + 1) (show_nat (nat \<bar>10 * units\<bar>)) = ?d @ ''0''"
    using pad_left_times10 [of scale "nat \<bar>units\<bar>"] by simp
  have l: "scale + 1 \<le> length ?d" by (simp add: pad_left_length)
  have s: "(10 * units < 0) = (units < 0)" by simp
  show ?thesis
    using formatScaled_parts(1) [of "10 * units" "Suc scale"] formatScaled_parts(1) [of units scale] l
    unfolding d s by (simp add: strip_trailing_snoc)
qed

lemma formatScaled_scale: "formatScaled (10 ^ k * units) (scale + k) = formatScaled units scale"
proof (induction k)
  case (Suc k)
  then show ?case using formatScaled_times10 [of "10 ^ k * units" "scale + k"] by (simp add: mult.assoc)
qed simp

text \<open>The text depends on the value only.\<close>

lemma formatScaled_cong:
  assumes "of_int u / 10 ^ s = (of_int u' / 10 ^ s' :: rat)"
  shows "formatScaled u s = formatScaled u' s'"
proof -
  have *: "formatScaled u s = formatScaled u' s'"
    if e: "of_int u / 10 ^ s = (of_int u' / 10 ^ s' :: rat)" and "s \<le> s'" for u s u' s'
  proof -
    obtain k where k: "s' = s + k" using \<open>s \<le> s'\<close> le_Suc_ex by blast
    have "(of_int u' :: rat) = of_int (10 ^ k * u)" using e by (simp add: k field_simps power_add)
    then have "u' = 10 ^ k * u" by linarith
    then show ?thesis using formatScaled_scale [of k u s] by (simp add: k)
  qed
  show ?thesis using * [OF assms] * [OF assms [symmetric]] by (cases "s \<le> s'") auto
qed

section \<open>The tally is exact\<close>

lemma widest_ge: "(c, u, k) \<in> set svs \<Longrightarrow> k \<le> widest svs"
proof -
  have "(\<forall>(c, u, k) \<in> set svs. k \<le> fold (\<lambda>(_, _, s) scale. if s > scale then s else scale) svs n)
      \<and> n \<le> fold (\<lambda>(_, _, s) scale. if s > scale then s else scale) svs n" for n
    by (induction svs arbitrary: n) (fastforce split: prod.splits)+
  from this [of 0] show "(c, u, k) \<in> set svs \<Longrightarrow> k \<le> widest svs" unfolding widest_def by fastforce
qed

lemma scaleUp_value: "k \<le> scale \<Longrightarrow> of_int (scaleUp u k scale) / 10 ^ scale = (of_int u / 10 ^ k :: rat)"
  by (auto simp: scaleUp_def power_add dest!: le_Suc_ex)

definition units_at :: "nat \<Rightarrow> string \<times> int \<times> nat \<Rightarrow> int" where
  "units_at scale x = (case x of (_, u, k) \<Rightarrow> scaleUp u k scale)"

lemma add_votes:
  assumes "fold (add_vote scale) svs (0, []) = (t, m)"
  shows "t = (\<Sum>x\<leftarrow>svs. units_at scale x) \<and> distinct (jm_keys m)
    \<and> (\<forall>c. jm_get m c = (let xs = filter (\<lambda>x. fst x = c) svs in
           if xs = [] then None else Some (\<Sum>x\<leftarrow>xs. units_at scale x, length xs)))"
  using assms
proof (induction svs arbitrary: t m rule: rev_induct)
  case (snoc x svs)
  obtain t1 m1 where f: "fold (add_vote scale) svs (0, []) = (t1, m1)" by fastforce
  obtain c' u k where x: "x = (c', u, k)" by (cases x)
  obtain eu ev where e: "(case jm_get m1 c' of Some e \<Rightarrow> e | None \<Rightarrow> (0, 0)) = (eu, ev)" by fastforce
  have tm: "t = t1 + scaleUp u k scale" "m = jm_set c' (eu + scaleUp u k scale, ev + 1) m1"
    using snoc.prems by (simp_all add: f) (simp_all add: x add_vote_def Let_def e)
  note IH = snoc.IH [OF f]
  have "jm_get m c = (let xs = filter (\<lambda>x. fst x = c) (svs @ [x]) in
           if xs = [] then None else Some (\<Sum>x\<leftarrow>xs. units_at scale x, length xs))" for c
    using e IH by (auto simp: tm(2) x units_at_def Let_def split: if_splits)
  then show ?case using IH by (auto simp: tm x units_at_def)
qed simp

lemma sort_keys:
  assumes "distinct ks"
  shows "sort ks = sorted_list_of_set (set ks)"
  using assms by (simp add: sorted_list_of_set_sort_remdups distinct_remdups_id)

definition tally_with :: "vote_record list \<Rightarrow> nat \<Rightarrow> int \<Rightarrow> (string \<Rightarrow> int) \<Rightarrow> vote_tally" where
  "tally_with votes scale t U = \<lparr>vt_totalVoters = length votes, vt_totalWeight = formatScaled t scale,
      vt_byChoice = own_order (map (\<lambda>c. (c, \<lparr>ct_votes = length (filter (\<lambda>v. v_choice v = c) votes), ct_weight = formatScaled (U c) scale\<rparr>))
        (filter (\<lambda>c. c \<noteq> ''__proto__'') (sorted_list_of_set (v_choice ` set votes))))\<rparr>"

lemma tally_shape:
  assumes "\<forall>v \<in> set votes. weight_value (v_weight v) = Some (w v)"
  shows "\<exists>scale t U. computeVoteTally votes = Inr (tally_with votes scale t U)
    \<and> of_int t / 10 ^ scale = (\<Sum>v\<leftarrow>votes. w v)
    \<and> (\<forall>c. of_int (U c) / 10 ^ scale = (\<Sum>v\<leftarrow>filter (\<lambda>v. v_choice v = c) votes. w v))"
proof -
  define uk where "uk v = projr (toScaledWeight (v_weight v))" for v :: vote_record
  define g where "g v = (v_choice v, fst (uk v), snd (uk v))" for v :: vote_record
  have uk: "toScaledWeight (v_weight v) = Inr (uk v)" "of_int (fst (uk v)) / 10 ^ snd (uk v) = w v" if "v \<in> set votes" for v
    using toScaledWeight_value [of "v_weight v" "w v"] assms that by (auto simp: uk_def)
  let ?svs = "map g votes" let ?sc = "widest ?svs"
  have mr: "map_result scaled_vote votes = Inr ?svs"
    by (rule map_result_ok) (simp add: scaled_vote_def uk(1) g_def split: prod.split)
  obtain t m where f: "fold (add_vote ?sc) ?svs (0, []) = (t, m)" by fastforce
  have av: "t = (\<Sum>x\<leftarrow>?svs. units_at ?sc x)" "distinct (jm_keys m)"
    "jm_get m c = (let xs = filter (\<lambda>x. fst x = c) ?svs in if xs = [] then None else Some (\<Sum>x\<leftarrow>xs. units_at ?sc x, length xs))" for c
    using add_votes [OF f] by blast+
  have at: "of_int (units_at ?sc (g v)) / 10 ^ ?sc = w v" if "v \<in> set votes" for v
    using widest_ge [of "v_choice v" "fst (uk v)" "snd (uk v)" ?svs] that uk(2) [OF that]
      scaleUp_value [of "snd (uk v)" ?sc "fst (uk v)"]
    by (auto simp: units_at_def g_def case_prod_beta)
  have sum: "of_int (\<Sum>x\<leftarrow>map g vs. units_at ?sc x) / 10 ^ ?sc = (\<Sum>v\<leftarrow>vs. w v)" if "set vs \<subseteq> set votes" for vs
    using that at by (induction vs) (simp_all add: add_divide_distrib)
  have fl: "filter (\<lambda>x. fst x = c) ?svs = map g (filter (\<lambda>v. v_choice v = c) votes)" for c
    by (simp add: filter_map o_def g_def)
  have "jm_get m c = None \<longleftrightarrow> c \<notin> v_choice ` set votes" for c
    unfolding av(3) Let_def fl by (auto simp: filter_empty_conv)
  then have keys: "set (jm_keys m) = v_choice ` set votes"
    unfolding map_of_eq_None_iff by (simp add: set_eq_iff)
  define U where "U c = (\<Sum>x\<leftarrow>map g (filter (\<lambda>v. v_choice v = c) votes). units_at ?sc x)" for c
  have get: "jm_get m c = Some (U c, length (filter (\<lambda>v. v_choice v = c) votes))" if "c \<in> v_choice ` set votes" for c
    using that unfolding av(3) Let_def fl by (auto simp: filter_empty_conv U_def)
  have "by_choice ?sc m = own_order (map (\<lambda>c. (c, \<lparr>ct_votes = length (filter (\<lambda>v. v_choice v = c) votes), ct_weight = formatScaled (U c) ?sc\<rparr>))
        (filter (\<lambda>c. c \<noteq> ''__proto__'') (sorted_list_of_set (v_choice ` set votes))))"
    unfolding by_choice_def sort_keys [OF av(2)] keys by (intro arg_cong [where f = own_order] map_cong refl) (auto simp: get)
  then have "computeVoteTally votes = Inr (tally_with votes ?sc t U)"
    by (simp add: computeVoteTally_def tally_with_def mr Let_def f)
  moreover have "of_int t / 10 ^ ?sc = (\<Sum>v\<leftarrow>votes. w v)" using sum [of votes] av(1) by simp
  moreover have "of_int (U c) / 10 ^ ?sc = (\<Sum>v\<leftarrow>filter (\<lambda>v. v_choice v = c) votes. w v)" for c
    using sum [of "filter (\<lambda>v. v_choice v = c) votes"] by (simp add: U_def)
  ultimately show ?thesis by blast
qed

text \<open>
  C11. The tally is exact.  When every weight is a decimal, with or without exponent, the tally counts all
  voters, its total denotes the sum of the weights, it has an entry for every choice that was voted for
  and no other, and each entry counts the votes of the choice and denotes the sum of their weights.
\<close>
theorem tally_exact:
  assumes "\<forall>v \<in> set votes. weight_value (v_weight v) = Some (w v) \<and> v_choice v \<noteq> ''__proto__''"
  shows "\<exists>t. computeVoteTally votes = Inr t \<and> vt_totalVoters t = length votes
    \<and> weight_value (vt_totalWeight t) = Some (\<Sum>v\<leftarrow>votes. w v)
    \<and> distinct (map fst (vt_byChoice t)) \<and> fst ` set (vt_byChoice t) = v_choice ` set votes
    \<and> (\<forall>(c, e) \<in> set (vt_byChoice t). let vs = filter (\<lambda>v. v_choice v = c) votes in
          ct_votes e = length vs \<and> weight_value (ct_weight e) = Some (\<Sum>v\<leftarrow>vs. w v))"
proof -
  have a: "\<forall>v \<in> set votes. weight_value (v_weight v) = Some (w v)" using assms by blast
  obtain scale t U where t: "computeVoteTally votes = Inr (tally_with votes scale t U)"
    and v: "of_int t / 10 ^ scale = (\<Sum>v\<leftarrow>votes. w v)"
    and U: "\<And>c. of_int (U c) / 10 ^ scale = (\<Sum>v\<leftarrow>filter (\<lambda>v. v_choice v = c) votes. w v)"
    using tally_shape [OF a] by blast
  define e where "e c = \<lparr>ct_votes = length (filter (\<lambda>v. v_choice v = c) votes), ct_weight = formatScaled (U c) scale\<rparr>" for c
  define keys where "keys = filter (\<lambda>c. c \<noteq> ''__proto__'') (sorted_list_of_set (v_choice ` set votes))"
  have k: "set keys = v_choice ` set votes" "distinct keys" using assms by (auto simp: keys_def)
  have b: "vt_byChoice (tally_with votes scale t U) = own_order (map (\<lambda>c. (c, e c)) keys)"
    by (simp add: tally_with_def e_def keys_def)
  have ms: "mset (own_order (map (\<lambda>c. (c, e c)) keys)) = mset (map (\<lambda>c. (c, e c)) keys)" by (rule own_order_mset)
  have "mset (map fst (own_order (map (\<lambda>c. (c, e c)) keys))) = mset keys"
    unfolding mset_map ms by (simp add: image_mset.compositionality comp_def)
  then have "distinct (map fst (own_order (map (\<lambda>c. (c, e c)) keys)))"
    using k(2) mset_eq_imp_distinct_iff by blast
  moreover have "set (own_order (map (\<lambda>c. (c, e c)) keys)) = (\<lambda>c. (c, e c)) ` (v_choice ` set votes)"
    using mset_eq_setD [OF ms] k(1) by simp
  ultimately show ?thesis
    unfolding t using v U
    by (intro exI [of _ "tally_with votes scale t U"], unfold b)
      (auto simp: formatScaled_value image_image e_def tally_with_def)
qed

theorem tally_exact_witness:
  "let v1 = \<lparr>v_accountId = ''GA'', v_choice = ''for'', v_weight = '' 1.50'', v_votedAt = (Some 0, []), v_txHash = None\<rparr>;
       v2 = \<lparr>v_accountId = ''GB'', v_choice = ''for'', v_weight = ''2.5e-1'', v_votedAt = (Some 0, []), v_txHash = None\<rparr>
   in \<exists>t. computeVoteTally [v1, v2] = Inr t \<and> weight_value (vt_totalWeight t) = Some (7 / 4)"
proof -
  let ?v1 = "\<lparr>v_accountId = ''GA'', v_choice = ''for'', v_weight = '' 1.50'', v_votedAt = (Some 0, []), v_txHash = None\<rparr>"
  let ?v2 = "\<lparr>v_accountId = ''GB'', v_choice = ''for'', v_weight = ''2.5e-1'', v_votedAt = (Some 0, []), v_txHash = None\<rparr>"
  have "weight_value (v_weight ?v1) = Some (3 / 2)" "weight_value (v_weight ?v2) = Some (1 / 4)"
    by (simp_all add: weight_value_def js_trim_def is_space_def mantissa_def exponential_parts_def exponent_of_def Let_def
        is_digit_def all_digits_def decimal_value_def read_nat_def power_int_minus)
  then show ?thesis
    using tally_exact [of "[?v1, ?v2]" "\<lambda>v. if v = ?v1 then 3 / 2 else 1 / 4"] by (auto simp: Let_def)
qed

section \<open>Reproducibility\<close>

text \<open>The tally is a function of the choices and the values of the weights, not of their spelling or order.\<close>

lemma tally_cong:
  assumes w: "\<forall>v \<in> set votes. weight_value (v_weight v) = Some (w v)"
    and w': "\<forall>v \<in> set votes'. weight_value (v_weight v) = Some (w' v)"
    and m: "mset (map (\<lambda>v. (v_choice v, w v)) votes) = mset (map (\<lambda>v. (v_choice v, w' v)) votes')"
  shows "computeVoteTally votes = computeVoteTally votes'"
proof -
  obtain s t U where 1: "computeVoteTally votes = Inr (tally_with votes s t U)"
      "of_int t / 10 ^ s = (\<Sum>v\<leftarrow>votes. w v)" "\<And>c. of_int (U c) / 10 ^ s = (\<Sum>v\<leftarrow>filter (\<lambda>v. v_choice v = c) votes. w v)"
    using tally_shape [OF w] by blast
  obtain s' t' U' where 2: "computeVoteTally votes' = Inr (tally_with votes' s' t' U')"
      "of_int t' / 10 ^ s' = (\<Sum>v\<leftarrow>votes'. w' v)" "\<And>c. of_int (U' c) / 10 ^ s' = (\<Sum>v\<leftarrow>filter (\<lambda>v. v_choice v = c) votes'. w' v)"
    using tally_shape [OF w'] by blast
  let ?p = "\<lambda>v. (v_choice v, w v)" and ?p' = "\<lambda>v. (v_choice v, w' v)"
  have "sum_mset (image_mset snd (mset (map ?p votes))) = sum_mset (image_mset snd (mset (map ?p' votes')))" using m by simp
  then have total: "(\<Sum>v\<leftarrow>votes. w v) = (\<Sum>v\<leftarrow>votes'. w' v)"
    by (simp add: image_mset.compositionality comp_def flip: sum_mset_sum_list)
  have f: "mset (map ?p (filter (\<lambda>v. v_choice v = c) votes)) = mset (map ?p' (filter (\<lambda>v. v_choice v = c) votes'))" for c
  proof -
    have "mset (filter (\<lambda>x. fst x = c) (map ?p votes)) = mset (filter (\<lambda>x. fst x = c) (map ?p' votes'))" using m by (simp only: mset_filter)
    then show ?thesis by (simp add: filter_map comp_def)
  qed
  have per: "(\<Sum>v\<leftarrow>filter (\<lambda>v. v_choice v = c) votes. w v) = (\<Sum>v\<leftarrow>filter (\<lambda>v. v_choice v = c) votes'. w' v)" for c
  proof -
    have "sum_mset (image_mset snd (mset (map ?p (filter (\<lambda>v. v_choice v = c) votes))))
        = sum_mset (image_mset snd (mset (map ?p' (filter (\<lambda>v. v_choice v = c) votes'))))" unfolding f ..
    then show ?thesis by (simp add: image_mset.compositionality comp_def flip: sum_mset_sum_list)
  qed
  have "formatScaled t s = formatScaled t' s'" using 1(2) 2(2) total by (intro formatScaled_cong) simp
  moreover have "formatScaled (U c) s = formatScaled (U' c) s'" for c using 1(3) 2(3) per by (intro formatScaled_cong) simp
  moreover have "length (filter (\<lambda>v. v_choice v = c) votes) = length (filter (\<lambda>v. v_choice v = c) votes')" for c
    using arg_cong [OF f, of size] by (metis length_map size_mset)
  moreover have "length votes = length votes'" using arg_cong [OF m, of size] by simp
  moreover have "v_choice ` set votes = v_choice ` set votes'"
    using arg_cong [OF mset_eq_setD [OF m], of "image fst"] by (simp add: image_image)
  ultimately show ?thesis unfolding 1(1) 2(1) tally_with_def by (simp only:)
qed

lemma map_result_Inr_iff: "map_result f xs = Inr ys \<longleftrightarrow> list_all2 (\<lambda>x y. f x = Inr y) xs ys"
  by (induction xs arbitrary: ys) (auto simp: rbind_eq_Inr list_all2_Cons1)

lemma map_result_ok_all: "map_result f xs = Inr ys \<Longrightarrow> x \<in> set xs \<Longrightarrow> \<exists>y. f x = Inr y"
  by (induction xs arbitrary: ys) (auto simp: rbind_eq_Inr)

lemma map_result_perm:
  assumes "map_result f xs = Inr ys" "mset xs = mset xs'"
  shows "\<exists>ys'. map_result f xs' = Inr ys' \<and> mset ys' = mset ys"
proof -
  define g where "g x = projr (f x)" for x
  have ok: "f x = Inr (g x)" if "x \<in> set xs" for x
    using map_result_ok_all [OF assms(1) that] by (auto simp: g_def)
  have "set xs' = set xs" using mset_eq_setD [OF assms(2)] by simp
  then have "map_result f xs' = Inr (map g xs')" using ok by (intro map_result_ok) blast
  moreover have "ys = map g xs" using map_result_ok [of xs f g] ok assms(1) by fastforce
  ultimately show ?thesis using assms(2) by (metis mset_map)
qed

lemma tally_ok_valid:
  assumes "computeVoteTally votes = Inr t" "v \<in> set votes"
  shows "weight_value (v_weight v) = Some (the (weight_value (v_weight v)))"
proof -
  obtain svs where "map_result scaled_vote votes = Inr svs"
    using assms(1) by (auto simp: computeVoteTally_def rbind_eq_Inr)
  then have "\<exists>y. scaled_vote v = Inr y" using map_result_ok_all assms(2) by metis
  then show ?thesis using toScaledWeight_refused [of "v_weight v"] by (cases "weight_value (v_weight v)") (auto simp: scaled_vote_def)
qed

lemma tally_perm: "computeVoteTally votes = Inr t \<Longrightarrow> mset votes = mset votes' \<Longrightarrow> computeVoteTally votes' = Inr t"
proof -
  assume t: "computeVoteTally votes = Inr t" and m: "mset votes = mset votes'"
  have "set votes' = set votes" using m mset_eq_setD by metis
  then have "computeVoteTally votes' = computeVoteTally votes"
    using tally_ok_valid [OF t] m by (intro tally_cong [where w = "\<lambda>v. the (weight_value (v_weight v))" and w' = "\<lambda>v. the (weight_value (v_weight v))"]) auto
  with t show ?thesis by simp
qed

lemma normalizeVotes_perm:
  assumes "normalizeVotes votes = Inr vs" "mset votes = mset votes'" "distinct (map v_accountId votes)"
  shows "normalizeVotes votes' = Inr vs"
proof -
  obtain us where us: "map_result dated_vote votes = Inr us" "vs = sort_key (\<lambda>v. (sv_accountId v, sv_votedAt v)) us"
    using assms(1) by (auto simp: normalizeVotes_def rbind_eq_Inr)
  obtain us' where us': "map_result dated_vote votes' = Inr us'" "mset us' = mset us"
    using map_result_perm [OF us(1) assms(2)] by blast
  have "list_all2 (\<lambda>v u. sv_accountId u = v_accountId v) votes us"
    using us(1) unfolding map_result_Inr_iff
    by (rule list_all2_mono) (auto simp: dated_vote_def rbind_eq_Inr)
  then have "map sv_accountId us = map v_accountId votes"
    by (induction rule: list_all2_induct) simp_all
  then have "inj_on sv_accountId (set us)" using assms(3) by (metis distinct_map)
  then have "inj_on (\<lambda>v. (sv_accountId v, sv_votedAt v)) (set us)" by (auto simp: inj_on_def)
  then have "sort_key (\<lambda>v. (sv_accountId v, sv_votedAt v)) us' = vs"
    using sort_key_mset_eq [of us us'] us(2) us'(2) by metis
  then show ?thesis using us'(1) by (simp add: normalizeVotes_def)
qed

text \<open>
  The snapshot is reproducible: with one vote per account, as the table enforces, the document does not
  depend on the order in which the database returns the votes.
\<close>
theorem snapshot_reproducible:
  assumes "result_snapshot p votes generatedAt = Inr s" "mset votes = mset votes'" "distinct (map v_accountId votes)"
  shows "result_snapshot p votes' generatedAt = Inr s"
proof -
  obtain iso pt t vs where "toIso generatedAt = Inr iso" "proposal_text p = Inr pt"
    and tv: "computeVoteTally votes = Inr t" "normalizeVotes votes = Inr vs"
    using assms(1) by (auto simp: result_snapshot_def rbind_eq_Inr)
  moreover have "computeVoteTally votes' = Inr t" "normalizeVotes votes' = Inr vs"
    using tally_perm [OF tv(1) assms(2)] normalizeVotes_perm [OF tv(2) assms(2,3)] .
  ultimately show ?thesis using assms(1) by (simp add: result_snapshot_def)
qed

text \<open>A weight that is not a decimal stops the tally; the first one in the order of the votes is reported.\<close>
theorem tally_refuses_malformed:
  assumes "votes = ok @ bad # rest" "\<forall>v \<in> set ok. weight_value (v_weight v) \<noteq> None" "weight_value (v_weight bad) = None"
  shows "computeVoteTally votes = Inl (Invalid_weight (js_trim (v_weight bad)))"
proof -
  have "map_result scaled_vote (ok @ bad # rest) = Inl (Invalid_weight (js_trim (v_weight bad)))"
    using assms(2,3)
  proof (induction ok)
    case Nil
    then show ?case by (simp add: scaled_vote_def toScaledWeight_refused)
  next
    case (Cons v ok)
    then obtain r where "toScaledWeight (v_weight v) = Inr r" using toScaledWeight_value by fastforce
    with Cons show ?case by (simp add: scaled_vote_def split: prod.split)
  qed
  with assms(1) show ?thesis by (simp add: computeVoteTally_def)
qed

theorem snapshot_reproducible_witness:
  "let p = \<lparr>pi_proposalId = ''p1'', pi_contractId = ''c'', pi_title = None, pi_actionType = None, pi_status = ''Executed'',
         pi_expiresAt = (Some 0, []), pi_queuedAt = None, pi_executedAt = None, pi_cancelledAt = None, pi_transactionHash = None\<rparr>;
       v1 = \<lparr>v_accountId = ''GB'', v_choice = ''for'', v_weight = ''1'', v_votedAt = (Some 0, []), v_txHash = None\<rparr>;
       v2 = \<lparr>v_accountId = ''GA'', v_choice = ''against'', v_weight = ''2'', v_votedAt = (Some 5, []), v_txHash = None\<rparr>
   in \<exists>s. result_snapshot p [v1, v2] (Some 9, []) = Inr s \<and> result_snapshot p [v2, v1] (Some 9, []) = Inr s"
proof -
  let ?p = "\<lparr>pi_proposalId = ''p1'', pi_contractId = ''c'', pi_title = None, pi_actionType = None, pi_status = ''Executed'',
         pi_expiresAt = (Some 0, []), pi_queuedAt = None, pi_executedAt = None, pi_cancelledAt = None, pi_transactionHash = None\<rparr>"
  let ?v1 = "\<lparr>v_accountId = ''GB'', v_choice = ''for'', v_weight = ''1'', v_votedAt = (Some 0, []), v_txHash = None\<rparr>"
  let ?v2 = "\<lparr>v_accountId = ''GA'', v_choice = ''against'', v_weight = ''2'', v_votedAt = (Some 5, []), v_txHash = None\<rparr>"
  have "weight_value (v_weight ?v1) = Some 1" "weight_value (v_weight ?v2) = Some 2"
    by (simp_all add: weight_value_def js_trim_def is_space_def mantissa_def exponential_parts_def exponent_of_def Let_def
        is_digit_def all_digits_def decimal_value_def read_nat_def)
  then obtain t where t: "computeVoteTally [?v1, ?v2] = Inr t"
    using tally_shape [of "[?v1, ?v2]" "\<lambda>v. if v = ?v1 then 1 else 2"] by auto
  obtain s where s: "result_snapshot ?p [?v1, ?v2] (Some 9, []) = Inr s"
    by (auto simp: result_snapshot_def toIso_def proposal_text_def toNullableIso_def t normalizeVotes_def dated_vote_def)
  have "result_snapshot ?p [?v2, ?v1] (Some 9, []) = Inr s"
    by (rule snapshot_reproducible [OF s]) simp_all
  with s show ?thesis unfolding Let_def by blast
qed

theorem tally_refuses_malformed_witness:
  "let good = \<lparr>v_accountId = ''GA'', v_choice = ''for'', v_weight = ''1'', v_votedAt = (Some 0, []), v_txHash = None\<rparr>;
       bad = \<lparr>v_accountId = ''GB'', v_choice = ''for'', v_weight = '' 1,5'', v_votedAt = (Some 0, []), v_txHash = None\<rparr>
   in computeVoteTally [good, bad] = Inl (Invalid_weight ''1,5'')"
proof -
  let ?good = "\<lparr>v_accountId = ''GA'', v_choice = ''for'', v_weight = ''1'', v_votedAt = (Some 0, []), v_txHash = None\<rparr>"
  let ?bad = "\<lparr>v_accountId = ''GB'', v_choice = ''for'', v_weight = '' 1,5'', v_votedAt = (Some 0, []), v_txHash = None\<rparr>"
  have "weight_value (v_weight ?good) \<noteq> None" "weight_value (v_weight ?bad) = None" "js_trim (v_weight ?bad) = ''1,5''"
    by (simp_all add: weight_value_def js_trim_def is_space_def mantissa_def exponential_parts_def exponent_of_def Let_def
        is_digit_def all_digits_def)
  then show ?thesis using tally_refuses_malformed [of "[?good, ?bad]" "[?good]" ?bad "[]"] by simp
qed

end
