(* ===== verification/ResultExport.thy ===== *)
theory ResultExport
  imports GovernanceResult
begin

text \<open>
  \<open>src/services/governanceResultExportWorker.ts\<close> and \<open>src/services/ipfsClient.ts\<close>: workers of a cluster
  that publish the snapshots of finished proposals and store the content identifier in the row.  A
  worker is cut at its \<open>await\<close>s (the query, the upload, the conditional update, the failure note); the
  system is a step relation in which any number of workers resume in any order, database and network
  calls fail at will, and other code changes the other columns.  SHA-256, \<open>JSON.parse\<close> of the node's
  answer and the answers themselves are arguments.

  The lemmas show that an identifier is never overwritten, that it was returned for the bytes whose
  hash is stored beside it, which are a snapshot of the proposal, and that attempts stay within the
  limit.
\<close>

section \<open>IPFS client\<close>

definition normalizeBaseUrl :: "string \<Rightarrow> string" where
  "normalizeBaseUrl url = rev (dropWhile (\<lambda>c. c = CHR ''/'') (rev (js_trim url)))"

definition buildGatewayUrl :: "string \<Rightarrow> string \<Rightarrow> string" where
  "buildGatewayUrl base cid = normalizeBaseUrl base @ ''/'' @ cid"

definition sanitizeFilename :: "string \<Rightarrow> string" where
  "sanitizeFilename filename =
     (let cleaned = js_trim (map (\<lambda>c. if code c \<in> {34, 13, 10, 92} then CHR ''_'' else c) filename) in
      if length cleaned > 0 then cleaned else ''snapshot.json'')"

text \<open>\<open>JSON.parse\<close> of a line: its \<open>Hash\<close> property, when there is one; a line that does not parse has none.\<close>

definition parseAddResponse :: "(string \<Rightarrow> json option) \<Rightarrow> string \<Rightarrow> string option" where
  "parseAddResponse parse body =
     (let ls = filter (\<lambda>l. js_trim l \<noteq> []) (split_at (CHR 0x0A) body) in
      if ls = [] then None
      else case parse (last ls) of
             Some (JObj obj) \<Rightarrow> (case js_prop obj ''Hash'' of JStr h \<Rightarrow> (if length h > 0 then Some h else None) | _ \<Rightarrow> None)
           | _ \<Rightarrow> None)"

definition crlf :: string where
  "crlf = [CHR 0x0D, CHR 0x0A]"

definition multipartBody :: "string \<Rightarrow> string \<Rightarrow> bytes \<Rightarrow> bytes" where
  "multipartBody boundary filename content =
     utf8 (''--'' @ boundary @ crlf
       @ ''Content-Disposition: form-data; name='' @ [CHR 0x22] @ ''file'' @ [CHR 0x22] @ ''; filename='' @ [CHR 0x22]
       @ sanitizeFilename filename @ [CHR 0x22] @ crlf @ ''Content-Type: application/json'' @ crlf @ crlf)
     @ content @ utf8 (crlf @ ''--'' @ boundary @ ''--'' @ crlf)"

record ipfs_client =
  ic_apiUrl :: string
  ic_gatewayUrl :: string

definition ipfs_isConfigured :: "ipfs_client \<Rightarrow> bool" where
  "ipfs_isConfigured c \<longleftrightarrow> normalizeBaseUrl (ic_apiUrl c) \<noteq> []"

definition ipfs_gatewayUrl :: "ipfs_client \<Rightarrow> string \<Rightarrow> string" where
  "ipfs_gatewayUrl c cid = buildGatewayUrl (ic_gatewayUrl c) cid"

text \<open>The answer to the request: it fails with a message, or has a status and a body.\<close>

datatype fetch_answer = Fetch_failed string | Fetch_answer nat string

definition ipfs_add :: "(string \<Rightarrow> json option) \<Rightarrow> ipfs_client \<Rightarrow> fetch_answer \<Rightarrow> (string, string) result" where
  "ipfs_add parse c a =
     (if \<not> ipfs_isConfigured c then Inl ''IPFS API endpoint is not configured (set IPFS_API_URL).''
      else case a of
        Fetch_failed m \<Rightarrow> Inl m
      | Fetch_answer st body \<Rightarrow>
          if \<not> (200 \<le> st \<and> st \<le> 299) then Inl (''IPFS add request failed with HTTP '' @ show_nat st @ ''.'')
          else case parseAddResponse parse body of
                 None \<Rightarrow> Inl ''IPFS add response did not contain a CID.''
               | Some cid \<Rightarrow> Inr cid)"

section \<open>The table\<close>

record export_row =
  er_proposal :: proposal_input
  er_votes :: "vote_record list"
  er_updatedAt :: int
  er_cid :: "string option"
  er_contentHash :: "string option"
  er_exportedAt :: "int option"
  er_attempts :: nat
  er_error :: "string option"

abbreviation er_id :: "export_row \<Rightarrow> string" where
  "er_id r \<equiv> pi_proposalId (er_proposal r)"

record export_config =
  xc_client :: ipfs_client
  xc_batchSize :: nat
  xc_maxAttempts :: nat

definition FINAL_RESULT_STATUSES :: "string list" where
  "FINAL_RESULT_STATUSES = [''Executed'', ''Cancelled'']"

definition pending_rows :: "export_config \<Rightarrow> export_row list \<Rightarrow> export_row list" where
  "pending_rows c rows = take (xc_batchSize c) (sort_key er_updatedAt
     (filter (\<lambda>r. pi_status (er_proposal r) \<in> set FINAL_RESULT_STATUSES \<and> er_cid r = None \<and> er_attempts r < xc_maxAttempts c) rows))"

text \<open>\<open>updateMany\<close> where the proposal has no identifier yet; the write also moves \<open>updatedAt\<close>.\<close>

definition update_unexported :: "string \<Rightarrow> (export_row \<Rightarrow> export_row) \<Rightarrow> export_row list \<Rightarrow> export_row list" where
  "update_unexported pid f rows = map (\<lambda>r. if er_id r = pid \<and> er_cid r = None then f r else r) rows"

definition store_cid :: "int \<Rightarrow> string \<Rightarrow> string \<Rightarrow> export_row \<Rightarrow> export_row" where
  "store_cid now cid h r = r\<lparr>er_cid := Some cid, er_contentHash := Some h, er_exportedAt := Some now,
     er_attempts := 0, er_error := None, er_updatedAt := now\<rparr>"

definition note_failure :: "int \<Rightarrow> nat \<Rightarrow> string \<Rightarrow> export_row \<Rightarrow> export_row" where
  "note_failure now attempts details r = r\<lparr>er_attempts := attempts, er_error := Some details, er_updatedAt := now\<rparr>"

definition truncate_text :: "string \<Rightarrow> nat \<Rightarrow> string" where
  "truncate_text v n = (if length v > n then take n v else v)"

definition snapshotFilename :: "string \<Rightarrow> string" where
  "snapshotFilename proposalId =
     map (\<lambda>c. if is_upper c \<or> is_lower c \<or> is_digit c \<or> c \<in> {CHR ''.'', CHR ''_'', CHR ''-''} then c else CHR ''-'') proposalId
     @ ''-governance-result.json''"

section \<open>The worker\<close>

text \<open>
  Where a worker is suspended: it runs no cycle, waits for the query, for the upload of the current
  row, for the update that stores the identifier, or for the note of a failure.
\<close>

datatype export_pc =
    Cycle_idle
  | Querying
  | Adding export_row bytes string "export_row list"
  | Storing export_row string string "export_row list"
  | Recording export_row string "export_row list"

text \<open>What the awaited call answers.\<close>

datatype export_answer = Done_answer | Failed_answer string | Add_answer fetch_answer

definition error_text :: "result_error \<Rightarrow> string" where
  "error_text e = (case e of
      Invalid_weight t \<Rightarrow> ''Invalid vote weight: '' @ [CHR 0x22] @ t @ [CHR 0x22]
    | Invalid_date \<Rightarrow> ''Invalid date in governance result'')"

text \<open>Up to the next \<open>await\<close>: the next row is built, serialised and hashed, or the cycle ends.\<close>

definition export_next :: "(bytes \<Rightarrow> bytes) \<Rightarrow> int \<Rightarrow> export_row list \<Rightarrow> export_pc" where
  "export_next sha256 now rows = (case rows of
      [] \<Rightarrow> Cycle_idle
    | r # rest \<Rightarrow> (case result_snapshot (er_proposal r) (er_votes r) (Some now, []) of
          Inl e \<Rightarrow> Recording r (error_text e) rest
        | Inr s \<Rightarrow> (let content = serializeGovernanceResultSnapshot s in Adding r content (sha256Hex sha256 content) rest)))"

text \<open>\<open>runOnce\<close>: a cycle that is running makes it return.\<close>

definition runOnce :: "export_config \<Rightarrow> export_pc \<Rightarrow> export_pc" where
  "runOnce c pc = (case pc of Cycle_idle \<Rightarrow> if ipfs_isConfigured (xc_client c) then Querying else Cycle_idle | _ \<Rightarrow> pc)"

definition export_resume ::
  "(bytes \<Rightarrow> bytes) \<Rightarrow> (string \<Rightarrow> json option) \<Rightarrow> export_config \<Rightarrow> int \<Rightarrow> export_answer \<Rightarrow> export_pc \<Rightarrow> export_row list
     \<Rightarrow> export_pc \<times> export_row list" where
  "export_resume sha256 parse c now a pc rows = (case pc of
      Cycle_idle \<Rightarrow> (Cycle_idle, rows)
    | Querying \<Rightarrow> (case a of
          Failed_answer _ \<Rightarrow> (Cycle_idle, rows)
        | _ \<Rightarrow> (export_next sha256 now (pending_rows c rows), rows))
    | Adding r content h rest \<Rightarrow>
        (case (case a of Add_answer fa \<Rightarrow> ipfs_add parse (xc_client c) fa | Failed_answer m \<Rightarrow> Inl m | Done_answer \<Rightarrow> Inl []) of
          Inl m \<Rightarrow> (Recording r m rest, rows)
        | Inr cid \<Rightarrow> (Storing r cid h rest, rows))
    | Storing r cid h rest \<Rightarrow> (case a of
          Failed_answer m \<Rightarrow> (Recording r m rest, rows)
        | _ \<Rightarrow> (export_next sha256 now rest, update_unexported (er_id r) (store_cid now cid h) rows))
    | Recording r m rest \<Rightarrow> (case a of
          Failed_answer _ \<Rightarrow> (export_next sha256 now rest, rows)
        | _ \<Rightarrow> (export_next sha256 now rest,
               update_unexported (er_id r) (note_failure now (er_attempts r + 1) (truncate_text m 500)) rows)))"

text \<open>\<open>start\<close> and \<open>stop\<close>: the timer; starting runs a cycle at once.\<close>

record export_worker =
  xw_timer :: bool
  xw_pc :: export_pc

definition worker_start :: "export_config \<Rightarrow> export_worker \<Rightarrow> export_worker" where
  "worker_start c w =
     (if xw_timer w \<or> \<not> ipfs_isConfigured (xc_client c) then w
      else \<lparr>xw_timer = True, xw_pc = runOnce c (xw_pc w)\<rparr>)"

definition worker_stop :: "export_worker \<Rightarrow> export_worker" where
  "worker_stop w = w\<lparr>xw_timer := False\<rparr>"

definition worker_tick :: "export_config \<Rightarrow> export_worker \<Rightarrow> export_worker" where
  "worker_tick c w = (if xw_timer w then w\<lparr>xw_pc := runOnce c (xw_pc w)\<rparr> else w)"

section \<open>The cluster\<close>

text \<open>The workers share the table; the log holds what the IPFS node was given and the identifier it returned.\<close>

record cluster =
  cl_rows :: "export_row list"
  cl_workers :: "nat \<Rightarrow> export_worker"
  cl_ipfs :: "(bytes \<times> string) list"

definition log_add :: "(string \<Rightarrow> json option) \<Rightarrow> export_config \<Rightarrow> export_answer \<Rightarrow> export_pc \<Rightarrow> (bytes \<times> string) list" where
  "log_add parse c a pc = (case (pc, a) of
      (Adding r content h rest, Add_answer fa) \<Rightarrow>
        (case ipfs_add parse (xc_client c) fa of Inr cid \<Rightarrow> [(content, cid)] | Inl _ \<Rightarrow> [])
    | _ \<Rightarrow> [])"

text \<open>Other code keeps the identity and the export columns of the rows and may add proposals.\<close>

definition same_export :: "export_row \<Rightarrow> export_row \<Rightarrow> bool" where
  "same_export r r' \<longleftrightarrow> er_id r' = er_id r \<and> er_cid r' = er_cid r \<and> er_contentHash r' = er_contentHash r
     \<and> er_exportedAt r' = er_exportedAt r \<and> er_attempts r' = er_attempts r \<and> er_error r' = er_error r"

definition set_worker :: "nat \<Rightarrow> export_worker \<Rightarrow> cluster \<Rightarrow> cluster" where
  "set_worker i w s = s\<lparr>cl_workers := (cl_workers s)(i := w)\<rparr>"

inductive cluster_step ::
  "(bytes \<Rightarrow> bytes) \<Rightarrow> (string \<Rightarrow> json option) \<Rightarrow> export_config \<Rightarrow> cluster \<Rightarrow> cluster \<Rightarrow> bool" for sha256 parse c where
  Start: "cluster_step sha256 parse c s (set_worker i (worker_start c (cl_workers s i)) s)"
| Stop: "cluster_step sha256 parse c s (set_worker i (worker_stop (cl_workers s i)) s)"
| Tick: "cluster_step sha256 parse c s (set_worker i (worker_tick c (cl_workers s i)) s)"
| Resume: "w = cl_workers s i \<Longrightarrow> export_resume sha256 parse c now a (xw_pc w) (cl_rows s) = (pc', rows') \<Longrightarrow>
    cluster_step sha256 parse c s (set_worker i (w\<lparr>xw_pc := pc'\<rparr>)
      (s\<lparr>cl_rows := rows', cl_ipfs := cl_ipfs s @ log_add parse c a (xw_pc w)\<rparr>))"
| Elsewhere: "list_all2 same_export (cl_rows s) rows1 \<Longrightarrow> \<forall>r \<in> set rows2. er_cid r = None \<and> er_attempts r = 0 \<Longrightarrow>
    cluster_step sha256 parse c s (s\<lparr>cl_rows := rows1 @ rows2\<rparr>)"

definition cluster_init :: "cluster \<Rightarrow> bool" where
  "cluster_init s \<longleftrightarrow> (\<forall>r \<in> set (cl_rows s). er_cid r = None \<and> er_attempts r = 0)
     \<and> (\<forall>i. xw_pc (cl_workers s i) = Cycle_idle) \<and> cl_ipfs s = []"

section \<open>Invariant\<close>

text \<open>The content is a snapshot of the proposal with some votes at some time.\<close>

definition snapshot_of :: "string \<Rightarrow> bytes \<Rightarrow> bool" where
  "snapshot_of pid content \<longleftrightarrow> (\<exists>p votes now s. pi_proposalId p = pid \<and> result_snapshot p votes (Some now, []) = Inr s
     \<and> content = serializeGovernanceResultSnapshot s)"

definition published :: "(bytes \<Rightarrow> bytes) \<Rightarrow> (bytes \<times> string) list \<Rightarrow> string \<Rightarrow> string \<Rightarrow> string \<Rightarrow> bool" where
  "published sha256 lg pid cid h \<longleftrightarrow> (\<exists>content. (content, cid) \<in> set lg \<and> h = sha256Hex sha256 content \<and> snapshot_of pid content)"

fun pc_ok :: "(bytes \<Rightarrow> bytes) \<Rightarrow> nat \<Rightarrow> (bytes \<times> string) list \<Rightarrow> export_pc \<Rightarrow> bool" where
  "pc_ok sha256 n lg (Adding r content h rest) \<longleftrightarrow>
     h = sha256Hex sha256 content \<and> snapshot_of (er_id r) content \<and> (\<forall>q \<in> set (r # rest). er_attempts q < n)"
| "pc_ok sha256 n lg (Storing r cid h rest) \<longleftrightarrow> published sha256 lg (er_id r) cid h \<and> (\<forall>q \<in> set (r # rest). er_attempts q < n)"
| "pc_ok sha256 n lg (Recording r m rest) \<longleftrightarrow> (\<forall>q \<in> set (r # rest). er_attempts q < n)"
| "pc_ok sha256 n lg _ \<longleftrightarrow> True"

definition row_ok :: "(bytes \<Rightarrow> bytes) \<Rightarrow> nat \<Rightarrow> (bytes \<times> string) list \<Rightarrow> export_row \<Rightarrow> bool" where
  "row_ok sha256 n lg r \<longleftrightarrow> er_attempts r \<le> n
     \<and> (\<forall>cid. er_cid r = Some cid \<longrightarrow> (\<exists>h. er_contentHash r = Some h \<and> published sha256 lg (er_id r) cid h))"

definition cluster_inv :: "(bytes \<Rightarrow> bytes) \<Rightarrow> nat \<Rightarrow> cluster \<Rightarrow> bool" where
  [inv_defs]: "cluster_inv sha256 n s \<longleftrightarrow> (\<forall>r \<in> set (cl_rows s). row_ok sha256 n (cl_ipfs s) r)
     \<and> (\<forall>i. pc_ok sha256 n (cl_ipfs s) (xw_pc (cl_workers s i)))"

lemma published_mono: "published sha256 lg pid cid h \<Longrightarrow> published sha256 (lg @ lg') pid cid h"
  by (auto simp: published_def)

lemma pc_ok_mono: "pc_ok sha256 n lg pc \<Longrightarrow> pc_ok sha256 n (lg @ lg') pc"
  by (cases pc) (auto simp: published_mono)

lemma row_ok_mono: "row_ok sha256 n lg r \<Longrightarrow> row_ok sha256 n (lg @ lg') r"
  by (auto simp: row_ok_def dest: published_mono)

lemma export_next_ok: "\<forall>q \<in> set rows. er_attempts q < n \<Longrightarrow> pc_ok sha256 n lg (export_next sha256 now rows)"
  by (auto simp: export_next_def snapshot_of_def Let_def split: list.split sum.split)

lemma pending_attempts: "q \<in> set (pending_rows c rows) \<Longrightarrow> er_attempts q < xc_maxAttempts c"
  by (auto simp: pending_rows_def dest!: in_set_takeD)

lemma update_unexported_set:
  "r \<in> set (update_unexported pid f rows) \<Longrightarrow> r \<in> set rows \<or> (\<exists>q \<in> set rows. er_id q = pid \<and> er_cid q = None \<and> r = f q)"
  by (auto simp: update_unexported_def split: if_splits)

lemma store_cid_ok: "published sha256 lg (er_id q) cid h \<Longrightarrow> row_ok sha256 n lg (store_cid now cid h q)"
  by (simp add: row_ok_def store_cid_def)

lemma note_failure_ok: "k \<le> n \<Longrightarrow> er_cid q = None \<Longrightarrow> row_ok sha256 n lg (note_failure now k d q)"
  by (simp add: row_ok_def note_failure_def)

lemma export_resume_ok:
  assumes pc: "pc_ok sha256 (xc_maxAttempts c) lg pc" and rows: "\<forall>r \<in> set rows. row_ok sha256 (xc_maxAttempts c) lg r"
    and e: "export_resume sha256 parse c now a pc rows = (pc', rows')"
  shows "pc_ok sha256 (xc_maxAttempts c) (lg @ log_add parse c a pc) pc'"
    and "\<forall>r \<in> set rows'. row_ok sha256 (xc_maxAttempts c) (lg @ log_add parse c a pc) r"
proof -
  let ?n = "xc_maxAttempts c" and ?lg = "lg @ log_add parse c a pc"
  have "pc_ok sha256 ?n ?lg pc' \<and> (\<forall>r \<in> set rows'. row_ok sha256 ?n ?lg r)"
  proof (cases pc)
    case (Adding r content h rest)
    then show ?thesis using pc rows e
      by (auto simp: export_resume_def log_add_def published_def intro: row_ok_mono split: export_answer.splits sum.splits)
  next
    case (Storing r cid h rest)
    have "row_ok sha256 ?n lg q" if "q \<in> set (update_unexported (er_id r) (store_cid now cid h) rows)" for q
      using update_unexported_set [OF that] rows pc Storing store_cid_ok by auto
    then show ?thesis using pc rows e Storing
      by (auto simp: export_resume_def log_add_def export_next_ok split: export_answer.splits)
  next
    case (Recording r m rest)
    have "row_ok sha256 ?n lg q" if "q \<in> set (update_unexported (er_id r) (note_failure now (er_attempts r + 1) d) rows)" for q d
      using update_unexported_set [OF that] rows pc Recording note_failure_ok by (auto simp: Suc_leI)
    then show ?thesis using pc rows e Recording
      by (auto simp: export_resume_def log_add_def export_next_ok split: export_answer.splits)
  qed (use rows e in \<open>auto simp: export_resume_def log_add_def export_next_ok pending_attempts split: export_answer.splits\<close>)
  then show "pc_ok sha256 ?n ?lg pc'" "\<forall>r \<in> set rows'. row_ok sha256 ?n ?lg r" by blast+
qed

lemma runOnce_ok: "pc_ok sha256 n lg pc \<Longrightarrow> pc_ok sha256 n lg (runOnce c pc)"
  by (cases pc) (auto simp: runOnce_def)

lemma set_worker_inv:
  "cluster_inv sha256 n s \<Longrightarrow> pc_ok sha256 n (cl_ipfs s) (xw_pc w) \<Longrightarrow> cluster_inv sha256 n (set_worker i w s)"
  by (simp add: cluster_inv_def set_worker_def)

lemma worker_ops_ok:
  assumes "pc_ok sha256 n lg (xw_pc w)"
  shows "pc_ok sha256 n lg (xw_pc (worker_start c w))" "pc_ok sha256 n lg (xw_pc (worker_stop w))"
    "pc_ok sha256 n lg (xw_pc (worker_tick c w))"
  using assms by (simp_all add: worker_start_def worker_stop_def worker_tick_def runOnce_ok)

lemma cluster_step_inv:
  "cluster_step sha256 parse c s s' \<Longrightarrow> cluster_inv sha256 (xc_maxAttempts c) s \<Longrightarrow> cluster_inv sha256 (xc_maxAttempts c) s'"
proof (induction rule: cluster_step.induct)
  case (Resume w s i now a pc' rows')
  then have "pc_ok sha256 (xc_maxAttempts c) (cl_ipfs s) (xw_pc w)" "\<forall>r \<in> set (cl_rows s). row_ok sha256 (xc_maxAttempts c) (cl_ipfs s) r"
    by (auto simp: cluster_inv_def)
  from export_resume_ok [OF this Resume(2)] Resume(3) show ?case
    by (auto simp: cluster_inv_def set_worker_def pc_ok_mono)
next
  case (Elsewhere s rows1 rows2)
  have "row_ok sha256 (xc_maxAttempts c) (cl_ipfs s) r'" if m: "r' \<in> set rows1" for r'
  proof -
    obtain j where "j < length rows1" "rows1 ! j = r'" using m by (auto simp: in_set_conv_nth)
    then have "cl_rows s ! j \<in> set (cl_rows s)" "same_export (cl_rows s ! j) r'"
      using Elsewhere(1) by (auto simp: list_all2_conv_all_nth)
    then show ?thesis using Elsewhere(3) by (auto simp: cluster_inv_def row_ok_def same_export_def)
  qed
  moreover have "\<forall>r \<in> set rows2. row_ok sha256 (xc_maxAttempts c) (cl_ipfs s) r" using Elsewhere(2) by (auto simp: row_ok_def)
  ultimately show ?case using Elsewhere(3) by (auto simp: cluster_inv_def)
qed (rule set_worker_inv, assumption, rule worker_ops_ok, simp add: cluster_inv_def)+

lemma cluster_reach_inv:
  assumes "cluster_init s0" "(cluster_step sha256 parse c)\<^sup>*\<^sup>* s0 s"
  shows "cluster_inv sha256 (xc_maxAttempts c) s"
  using assms(2)
proof (induction rule: rtranclp_induct)
  case base
  have "pc_ok sha256 (xc_maxAttempts c) (cl_ipfs s0) (xw_pc (cl_workers s0 i))" for i
    using assms(1) by (simp add: cluster_init_def)
  then show ?case using assms(1) by (auto simp: cluster_inv_def row_ok_def cluster_init_def)
qed (rule cluster_step_inv)

section \<open>Identifiers are kept\<close>

definition exported_as :: "export_row \<Rightarrow> string \<times> string option \<times> int option \<Rightarrow> bool" where
  "exported_as r x \<longleftrightarrow> er_cid r = Some (fst x) \<and> er_contentHash r = fst (snd x) \<and> er_exportedAt r = snd (snd x)"

definition holds :: "export_row list \<Rightarrow> nat \<Rightarrow> string \<Rightarrow> string \<times> string option \<times> int option \<Rightarrow> bool" where
  "holds rows k pid x \<longleftrightarrow> k < length rows \<and> er_id (rows ! k) = pid \<and> exported_as (rows ! k) x"

lemma update_unexported_holds: "holds rows k pid x \<Longrightarrow> holds (update_unexported pid' f rows) k pid x"
  by (auto simp: holds_def update_unexported_def exported_as_def)

lemma resume_holds:
  "holds rows k pid x \<Longrightarrow> export_resume sha256 parse c now a pc rows = (pc', rows') \<Longrightarrow> holds rows' k pid x"
  by (auto simp: export_resume_def update_unexported_holds split: export_pc.splits export_answer.splits sum.splits)

lemma cluster_step_holds:
  "cluster_step sha256 parse c s s' \<Longrightarrow> holds (cl_rows s) k pid x \<Longrightarrow> holds (cl_rows s') k pid x"
proof (induction rule: cluster_step.induct)
  case (Resume w s i now a pc' rows')
  then show ?case using resume_holds by (simp add: set_worker_def)
next
  case (Elsewhere s rows1 rows2)
  then show ?case by (auto simp: holds_def list_all2_conv_all_nth same_export_def exported_as_def nth_append)
qed (simp_all add: set_worker_def)

text \<open>
  C16. However many workers run, and whatever fails: once a row has a content identifier, the identifier,
  the hash and the time beside it stay; the identifier was returned by the IPFS node for a document
  that is a snapshot of the proposal and whose SHA-256 is the stored hash; and no row counts more
  attempts than the limit.
\<close>
theorem published_identifier_sound:
  assumes "cluster_init s0" "(cluster_step sha256 parse c)\<^sup>*\<^sup>* s0 s" "(cluster_step sha256 parse c)\<^sup>*\<^sup>* s s'"
    and "k < length (cl_rows s)" "r = cl_rows s ! k" "er_cid r = Some cid"
  shows "k < length (cl_rows s') \<and> er_id (cl_rows s' ! k) = er_id r \<and> er_cid (cl_rows s' ! k) = Some cid
      \<and> er_contentHash (cl_rows s' ! k) = er_contentHash r \<and> er_exportedAt (cl_rows s' ! k) = er_exportedAt r
      \<and> (\<exists>content. (content, cid) \<in> set (cl_ipfs s) \<and> er_contentHash r = Some (sha256Hex sha256 content)
            \<and> (\<exists>p votes now doc. pi_proposalId p = er_id r \<and> result_snapshot p votes (Some now, []) = Inr doc
                 \<and> content = serializeGovernanceResultSnapshot doc))
      \<and> (\<forall>q \<in> set (cl_rows s). er_attempts q \<le> xc_maxAttempts c)"
proof -
  have h: "holds (cl_rows s) k (er_id r) (cid, er_contentHash r, er_exportedAt r)"
    using assms(4-6) by (simp add: holds_def exported_as_def)
  have "holds (cl_rows s') k (er_id r) (cid, er_contentHash r, er_exportedAt r)"
    using assms(3) by (induction rule: rtranclp_induct) (simp_all add: h cluster_step_holds)
  moreover have "cluster_inv sha256 (xc_maxAttempts c) s" using cluster_reach_inv assms(1,2) by blast
  then have ok: "\<forall>q \<in> set (cl_rows s). row_ok sha256 (xc_maxAttempts c) (cl_ipfs s) q" by (simp add: cluster_inv_def)
  have "r \<in> set (cl_rows s)" using assms(4,5) by simp
  then have "row_ok sha256 (xc_maxAttempts c) (cl_ipfs s) r" using ok by blast
  then obtain h where "er_contentHash r = Some h" "published sha256 (cl_ipfs s) (er_id r) cid h"
    using assms(6) by (auto simp: row_ok_def)
  moreover have "\<forall>q \<in> set (cl_rows s). er_attempts q \<le> xc_maxAttempts c" using ok by (simp add: row_ok_def)
  ultimately show ?thesis by (auto simp: holds_def exported_as_def published_def snapshot_of_def)
qed

theorem published_identifier_sound_witness:
  "let p = \<lparr>pi_proposalId = ''p1'', pi_contractId = ''c'', pi_title = None, pi_actionType = None, pi_status = ''Executed'',
         pi_expiresAt = (Some 0, []), pi_queuedAt = None, pi_executedAt = None, pi_cancelledAt = None, pi_transactionHash = None\<rparr>;
       row = \<lparr>er_proposal = p, er_votes = [], er_updatedAt = 0, er_cid = None, er_contentHash = None, er_exportedAt = None, er_attempts = 0, er_error = None\<rparr>;
       c = \<lparr>xc_client = \<lparr>ic_apiUrl = ''u'', ic_gatewayUrl = ''g''\<rparr>, xc_batchSize = 10, xc_maxAttempts = 5\<rparr>;
       s0 = \<lparr>cl_rows = [row], cl_workers = (\<lambda>_. \<lparr>xw_timer = False, xw_pc = Cycle_idle\<rparr>), cl_ipfs = []\<rparr>;
       parse = (\<lambda>_. Some (JObj [(''Hash'', JStr ''bafy'')]))
   in \<exists>s content. (cluster_step (\<lambda>bs. bs) parse c)\<^sup>*\<^sup>* s0 s \<and> er_cid (cl_rows s ! 0) = Some ''bafy''
        \<and> (content, ''bafy'') \<in> set (cl_ipfs s) \<and> er_contentHash (cl_rows s ! 0) = Some (sha256Hex (\<lambda>bs. bs) content)"
proof -
  define p where "p = \<lparr>pi_proposalId = ''p1'', pi_contractId = ''c'', pi_title = None, pi_actionType = None, pi_status = ''Executed'',
         pi_expiresAt = (Some 0, []), pi_queuedAt = None, pi_executedAt = None, pi_cancelledAt = None, pi_transactionHash = None\<rparr>"
  define row where "row = \<lparr>er_proposal = p, er_votes = [], er_updatedAt = 0, er_cid = None, er_contentHash = None, er_exportedAt = None, er_attempts = 0, er_error = None\<rparr>"
  define c where "c = \<lparr>xc_client = \<lparr>ic_apiUrl = ''u'', ic_gatewayUrl = ''g''\<rparr>, xc_batchSize = 10, xc_maxAttempts = 5\<rparr>"
  define s0 where "s0 = \<lparr>cl_rows = [row], cl_workers = (\<lambda>_::nat. \<lparr>xw_timer = False, xw_pc = Cycle_idle\<rparr>), cl_ipfs = []\<rparr>"
  define parse where "parse = (\<lambda>_::string. Some (JObj [(''Hash'', JStr ''bafy'')]))"
  let ?step = "cluster_step (\<lambda>bs. bs) parse c"
  have conf: "ipfs_isConfigured (xc_client c)"
    by (simp add: c_def ipfs_isConfigured_def normalizeBaseUrl_def js_trim_def is_space_def)
  have "\<exists>d. result_snapshot p [] (Some 0, []) = Inr d"
    by (simp add: p_def result_snapshot_def toIso_def proposal_text_def toNullableIso_def computeVoteTally_def normalizeVotes_def Let_def)
  then obtain d where d: "result_snapshot p [] (Some 0, []) = Inr d" ..
  let ?content = "serializeGovernanceResultSnapshot d" let ?h = "sha256Hex (\<lambda>bs. bs) ?content"
  have q: "pending_rows c [row] = [row]" by (simp add: pending_rows_def c_def row_def p_def FINAL_RESULT_STATUSES_def)
  have rv: "er_proposal row = p" "er_votes row = []" "er_cid row = None" by (simp_all add: row_def)
  have add: "ipfs_add parse (xc_client c) (Fetch_answer 200 ''x'') = Inr ''bafy''"
    by (simp add: ipfs_add_def conf parseAddResponse_def parse_def js_trim_def is_space_def js_prop_def)
  let ?w = "\<lambda>pc s. set_worker 0 \<lparr>xw_timer = True, xw_pc = pc\<rparr> s"
  define s1 where "s1 = ?w Querying s0"
  define s2 where "s2 = ?w (Adding row ?content ?h []) s1"
  define s3 where "s3 = ?w (Storing row ''bafy'' ?h []) (s2\<lparr>cl_ipfs := [(?content, ''bafy'')]\<rparr>)"
  define s4 where "s4 = ?w Cycle_idle (s3\<lparr>cl_rows := [store_cid 0 ''bafy'' ?h row]\<rparr>)"
  note defs = s0_def s1_def s2_def s3_def s4_def set_worker_def
  have 1: "?step s0 s1"
    using cluster_step.Start [of "\<lambda>bs. bs" parse c s0 0] by (simp add: defs worker_start_def conf runOnce_def)
  have 2: "?step s1 s2"
    using cluster_step.Resume [of "cl_workers s1 0" s1 0 "\<lambda>bs. bs" parse c 0 Done_answer "Adding row ?content ?h []" "[row]"]
    by (simp add: defs export_resume_def q export_next_def rv d log_add_def Let_def)
  have 3: "?step s2 s3"
    using cluster_step.Resume [of "cl_workers s2 0" s2 0 "\<lambda>bs. bs" parse c 0 "Add_answer (Fetch_answer 200 ''x'')" "Storing row ''bafy'' ?h []" "[row]"]
    by (simp add: defs export_resume_def add log_add_def)
  have 4: "?step s3 s4"
    using cluster_step.Resume [of "cl_workers s3 0" s3 0 "\<lambda>bs. bs" parse c 0 Done_answer Cycle_idle "[store_cid 0 ''bafy'' ?h row]"]
    by (simp add: defs export_resume_def export_next_def log_add_def update_unexported_def rv)
  have r: "?step\<^sup>*\<^sup>* s0 s4" 
    by (rule converse_rtranclp_into_rtranclp, rule 1, rule converse_rtranclp_into_rtranclp, rule 2,
        rule converse_rtranclp_into_rtranclp, rule 3, rule r_into_rtranclp, rule 4)
  have i: "cluster_init s0" by (simp add: cluster_init_def s0_def row_def)
  have e: "er_cid (cl_rows s4 ! 0) = Some ''bafy''" "0 < length (cl_rows s4)" by (simp_all add: defs store_cid_def)
  obtain content where ct: "(content, ''bafy'') \<in> set (cl_ipfs s4)" "er_contentHash (cl_rows s4 ! 0) = Some (sha256Hex (\<lambda>bs. bs) content)"
    using published_identifier_sound [OF i r rtranclp.rtrancl_refl e(2) refl e(1)] by blast
  show ?thesis
    unfolding Let_def p_def [symmetric] row_def [symmetric] c_def [symmetric] s0_def [symmetric] parse_def [symmetric]
    using r e(1) ct by blast
qed

end
