(* ===== verification/GovernanceWebhook.thy ===== *)
theory GovernanceWebhook
  imports JSText
begin

text \<open>
  \<open>src/services/governanceWebhookBroadcaster.ts\<close>: endpoints that subscribe to proposal events, one
  delivery row per endpoint, event and proposal, and the loop that posts due deliveries and records the
  outcome.  The two SQL tables are lists of rows; every statement is one function on them.  HMAC is an
  argument, as are clock readings, random identifiers and the answers of the endpoints.

  \<open>processQueue\<close> is cut at its \<open>await\<close>s.  Broadcasts, registrations and deactivations interleave with it,
  and each database call may fail.  The lemmas show that a delivery is posted at most as often as its
  limit plus the rounds whose outcome the database lost, that delivered and failed rows stay as they
  are, that there is one row per endpoint, event and proposal, and that retries wait between one second
  and one minute.
\<close>

section \<open>Events, signatures, endpoints\<close>

datatype event_type = Proposal_executed | Proposal_cancelled | Proposal_expired

definition event_name :: "event_type \<Rightarrow> string" where
  "event_name e = (case e of Proposal_executed \<Rightarrow> ''proposal.executed'' | Proposal_cancelled \<Rightarrow> ''proposal.cancelled''
     | Proposal_expired \<Rightarrow> ''proposal.expired'')"

definition GOVERNANCE_WEBHOOK_EVENT_TYPES :: "event_type list" where
  "GOVERNANCE_WEBHOOK_EVENT_TYPES = [Proposal_executed, Proposal_cancelled, Proposal_expired]"

definition signature_prefix :: string where
  "signature_prefix = ''sha256=''"

definition signGovernanceWebhookPayload :: "(string \<Rightarrow> string \<Rightarrow> bytes) \<Rightarrow> string \<Rightarrow> string \<Rightarrow> string" where
  "signGovernanceWebhookPayload hmac body secret = signature_prefix @ hex (hmac secret body)"

definition verifyGovernanceWebhookSignature :: "(string \<Rightarrow> string \<Rightarrow> bytes) \<Rightarrow> string \<Rightarrow> string option \<Rightarrow> string \<Rightarrow> bool" where
  "verifyGovernanceWebhookSignature hmac body signature secret = (case signature of
      None \<Rightarrow> False
    | Some s \<Rightarrow>
        if s = [] \<or> secret = [] then False
        else let expected = utf8 (signGovernanceWebhookPayload hmac body secret);
                 provided = utf8 (if take 7 s = signature_prefix then s else signature_prefix @ s)
             in if length expected \<noteq> length provided then False else expected = provided)"

definition normalizeEventType :: "string \<Rightarrow> event_type option" where
  "normalizeEventType value =
     (let n = toLowerCase (js_trim value) in
      if n \<in> {''proposal.executed'', ''executed'', ''execute''} then Some Proposal_executed
      else if n \<in> {''proposal.cancelled'', ''proposal.canceled'', ''cancelled'', ''canceled''} then Some Proposal_cancelled
      else if n \<in> {''proposal.expired'', ''expired'', ''expire''} then Some Proposal_expired
      else None)"

definition normalizeGovernanceWebhookEvents :: "string list option \<Rightarrow> event_type list" where
  "normalizeGovernanceWebhookEvents values = (case values of
      None \<Rightarrow> GOVERNANCE_WEBHOOK_EVENT_TYPES
    | Some vs \<Rightarrow>
        if vs = [] then GOVERNANCE_WEBHOOK_EVENT_TYPES
        else let seen = fold (\<lambda>v seen. case normalizeEventType v of
                   Some e \<Rightarrow> if e \<in> set seen then seen else seen @ [e] | None \<Rightarrow> seen) vs []
             in if length seen > 0 then seen else GOVERNANCE_WEBHOOK_EVENT_TYPES)"

text \<open>The stored column: a JSON array of texts, a JSON text, or something else.\<close>

datatype stored_events = Ev_array "string list" | Ev_text string | Ev_other

definition parseStoredEvents :: "(string \<Rightarrow> string list option) \<Rightarrow> stored_events \<Rightarrow> event_type list" where
  "parseStoredEvents parse_array v = (case v of
      Ev_array vs \<Rightarrow> normalizeGovernanceWebhookEvents (Some vs)
    | Ev_text t \<Rightarrow> (case parse_array t of Some vs \<Rightarrow> normalizeGovernanceWebhookEvents (Some vs) | None \<Rightarrow> GOVERNANCE_WEBHOOK_EVENT_TYPES)
    | Ev_other \<Rightarrow> GOVERNANCE_WEBHOOK_EVENT_TYPES)"

definition maskGovernanceWebhookSecret :: "string \<Rightarrow> string" where
  "maskGovernanceWebhookSecret s =
     (if length s \<le> 8 then ''********'' else take 4 s @ ''****'' @ drop (length s - 4) s)"

record endpoint_row =
  ep_id :: string
  ep_name :: "string option"
  ep_url :: string
  ep_secret :: string
  ep_events :: stored_events
  ep_active :: bool
  ep_failure_count :: nat
  ep_last_delivery_at :: "int option"
  ep_last_status_code :: "int option"
  ep_disabled_at :: "int option"
  ep_created_at :: int
  ep_updated_at :: int

datatype delivery_status = D_pending | D_retrying | D_delivered | D_failed

record delivery_row =
  dl_id :: string
  dl_endpoint_id :: string
  dl_endpoint_url :: string
  dl_event_type :: event_type
  dl_proposal_id :: string
  dl_contract_id :: "string option"
  dl_event_id :: string
  dl_event_timestamp :: string
  dl_raw_body :: string
  dl_signature :: string
  dl_status :: delivery_status
  dl_attempts :: nat
  dl_max_attempts :: nat
  dl_response_status :: "int option"
  dl_response_body :: "string option"
  dl_error_message :: "string option"
  dl_next_attempt_at :: int
  dl_delivered_at :: "int option"
  dl_created_at :: int
  dl_updated_at :: int

section \<open>Endpoint statements\<close>

record register_input =
  ri_url :: string
  ri_secret :: "string option"
  ri_name :: "string option"
  ri_events :: "string list option"
  ri_active :: "bool option"

definition or_default :: "string option \<Rightarrow> string \<Rightarrow> string" where
  "or_default s d = (case s of None \<Rightarrow> d | Some t \<Rightarrow> if js_trim t = [] then d else js_trim t)"

text \<open>\<open>INSERT \<dots> ON CONFLICT (url) DO UPDATE\<close>: the failure count of a known endpoint stays.\<close>

definition registerEndpoint :: "int \<Rightarrow> string \<Rightarrow> string \<Rightarrow> register_input \<Rightarrow> endpoint_row list \<Rightarrow> endpoint_row list" where
  "registerEndpoint now new_id random_secret i eps =
     (let secret = or_default (ri_secret i) random_secret;
          events = Ev_array (map event_name (normalizeGovernanceWebhookEvents (ri_events i)));
          active = (case ri_active i of None \<Rightarrow> True | Some b \<Rightarrow> b)
      in if \<exists>e \<in> set eps. ep_url e = ri_url i
         then map (\<lambda>e. if ep_url e = ri_url i
                then e\<lparr>ep_name := ri_name i, ep_secret := secret, ep_events := events, ep_active := active,
                       ep_disabled_at := None, ep_updated_at := now\<rparr> else e) eps
         else eps @ [\<lparr>ep_id = new_id, ep_name = ri_name i, ep_url = ri_url i, ep_secret = secret, ep_events = events,
                       ep_active = active, ep_failure_count = 0, ep_last_delivery_at = None, ep_last_status_code = None,
                       ep_disabled_at = None, ep_created_at = now, ep_updated_at = now\<rparr>])"

definition listEndpoints :: "bool \<Rightarrow> endpoint_row list \<Rightarrow> endpoint_row list" where
  "listEndpoints includeInactive eps =
     map (\<lambda>e. e\<lparr>ep_secret := maskGovernanceWebhookSecret (ep_secret e)\<rparr>)
       (sort_key (\<lambda>e. - ep_created_at e) (filter (\<lambda>e. includeInactive \<or> ep_active e) eps))"

definition getEndpointById :: "string \<Rightarrow> endpoint_row list \<Rightarrow> endpoint_row option" where
  "getEndpointById i eps = List.find (\<lambda>e. ep_id e = i) eps"

definition deactivateEndpoint :: "int \<Rightarrow> string \<Rightarrow> endpoint_row list \<Rightarrow> bool \<times> endpoint_row list" where
  "deactivateEndpoint now i eps =
     (\<exists>e \<in> set eps. ep_id e = i \<and> ep_active e,
      map (\<lambda>e. if ep_id e = i \<and> ep_active e then e\<lparr>ep_active := False, ep_disabled_at := Some now, ep_updated_at := now\<rparr> else e) eps)"

text \<open>The condition \<open>events = '[]' OR events @> [type]\<close>.\<close>

definition subscribed :: "event_type \<Rightarrow> stored_events \<Rightarrow> bool" where
  "subscribed ty v = (case v of Ev_array vs \<Rightarrow> vs = [] \<or> event_name ty \<in> set vs | _ \<Rightarrow> False)"

definition listActiveEndpointsForEvent :: "event_type \<Rightarrow> endpoint_row list \<Rightarrow> endpoint_row list" where
  "listActiveEndpointsForEvent ty eps = sort_key ep_created_at (filter (\<lambda>e. ep_active e \<and> subscribed ty (ep_events e)) eps)"

section \<open>Deliveries\<close>

text \<open>
  The data of an event: its properties in order, a text or \<open>null\<close>; dates are already ISO texts and
  undefined properties are left out, as \<open>JSON.stringify\<close> does.
\<close>

type_synonym webhook_data = "(string \<times> string option) list"

definition data_field :: "webhook_data \<Rightarrow> string \<Rightarrow> string option" where
  "data_field d k = (case jm_get d k of Some (Some t) \<Rightarrow> Some t | _ \<Rightarrow> None)"

definition payload_text :: "event_type \<Rightarrow> string \<Rightarrow> string \<Rightarrow> webhook_data \<Rightarrow> string" where
  "payload_text ty eventId timestamp d = obj_text
     [(''event'', str_text (event_name ty)), (''eventId'', str_text eventId), (''timestamp'', str_text timestamp),
      (''data'', obj_text (map (\<lambda>(k, v). (k, opt_text v)) d))]"

definition createDelivery ::
  "(string \<Rightarrow> string \<Rightarrow> bytes) \<Rightarrow> nat \<Rightarrow> int \<Rightarrow> string \<Rightarrow> string \<Rightarrow> endpoint_row \<Rightarrow> event_type \<Rightarrow> webhook_data \<Rightarrow> delivery_row list
     \<Rightarrow> string option \<times> delivery_row list" where
  "createDelivery hmac maxAttempts now eventId new_id e ty d dls =
     (let timestamp = toISOString now; rawBody = payload_text ty eventId timestamp d;
          pid = (case data_field d ''proposalId'' of Some p \<Rightarrow> p | None \<Rightarrow> [])
      in if \<exists>r \<in> set dls. dl_endpoint_id r = ep_id e \<and> dl_event_type r = ty \<and> dl_proposal_id r = pid then (None, dls)
         else (Some new_id, dls @ [\<lparr>dl_id = new_id, dl_endpoint_id = ep_id e, dl_endpoint_url = ep_url e, dl_event_type = ty,
                dl_proposal_id = pid, dl_contract_id = data_field d ''contractId'', dl_event_id = eventId,
                dl_event_timestamp = timestamp, dl_raw_body = rawBody,
                dl_signature = signGovernanceWebhookPayload hmac rawBody (ep_secret e), dl_status = D_pending, dl_attempts = 0,
                dl_max_attempts = maxAttempts, dl_response_status = None, dl_response_body = None, dl_error_message = None,
                dl_next_attempt_at = now, dl_delivered_at = None, dl_created_at = now, dl_updated_at = now\<rparr>]))"

text \<open>\<open>broadcast\<close>: one insertion after the other; each has its own identifiers.\<close>

fun create_all ::
  "(string \<Rightarrow> string \<Rightarrow> bytes) \<Rightarrow> nat \<Rightarrow> int \<Rightarrow> (string \<times> string) list \<Rightarrow> event_type \<Rightarrow> webhook_data \<Rightarrow> endpoint_row list \<Rightarrow> delivery_row list
     \<Rightarrow> string list \<times> delivery_row list" where
  "create_all hmac n now ids ty d [] dls = ([], dls)"
| "create_all hmac n now [] ty d (e # es) dls = ([], dls)"
| "create_all hmac n now ((eventId, new_id) # ids) ty d (e # es) dls =
     (let (r, dls1) = createDelivery hmac n now eventId new_id e ty d dls;
          (rs, dls2) = create_all hmac n now ids ty d es dls1
      in ((case r of Some i \<Rightarrow> i # rs | None \<Rightarrow> rs), dls2))"

definition broadcast ::
  "(string \<Rightarrow> string \<Rightarrow> bytes) \<Rightarrow> nat \<Rightarrow> int \<Rightarrow> (string \<times> string) list \<Rightarrow> event_type \<Rightarrow> webhook_data \<Rightarrow> endpoint_row list \<Rightarrow> delivery_row list
     \<Rightarrow> string list \<times> delivery_row list" where
  "broadcast hmac n now ids ty d eps dls = create_all hmac n now ids ty d (listActiveEndpointsForEvent ty eps) dls"

definition with_status :: "string \<Rightarrow> webhook_data \<Rightarrow> webhook_data" where
  "with_status dflt d =
     (let s = (case data_field d ''status'' of Some t \<Rightarrow> if t = [] then dflt else t | None \<Rightarrow> dflt) in
      jm_set ''status'' (Some s) d)"

definition broadcastProposalExecuted where
  "broadcastProposalExecuted hmac n now ids d = broadcast hmac n now ids Proposal_executed (with_status ''Executed'' d)"

definition broadcastProposalCancelled where
  "broadcastProposalCancelled hmac n now ids d = broadcast hmac n now ids Proposal_cancelled (with_status ''Cancelled'' d)"

definition broadcastProposalExpired where
  "broadcastProposalExpired hmac n now ids d = broadcast hmac n now ids Proposal_expired (with_status ''Queued'' d)"

section \<open>Updates of the loop\<close>

definition getRetryDelayMs :: "nat \<Rightarrow> int" where
  "getRetryDelayMs attemptNumber = min (1000 * 2 ^ (attemptNumber - 1)) 60000"

text \<open>What is to be written for a delivery: a final status or, with the time of the next attempt, a retry.\<close>

record outcome =
  oc_status :: delivery_status
  oc_attempts :: nat
  oc_response_status :: "int option"
  oc_response_body :: "string option"
  oc_error :: "string option"
  oc_next :: "int option"

definition retry_outcome :: "int \<Rightarrow> nat \<Rightarrow> int option \<Rightarrow> string option \<Rightarrow> string \<Rightarrow> outcome" where
  "retry_outcome now attempts st body msg = \<lparr>oc_status = D_retrying, oc_attempts = attempts, oc_response_status = st,
     oc_response_body = body, oc_error = Some msg, oc_next = Some (now + getRetryDelayMs attempts)\<rparr>"

definition final_outcome :: "delivery_status \<Rightarrow> nat \<Rightarrow> int option \<Rightarrow> string option \<Rightarrow> string option \<Rightarrow> outcome" where
  "final_outcome s attempts st body msg = \<lparr>oc_status = s, oc_attempts = attempts, oc_response_status = st,
     oc_response_body = body, oc_error = msg, oc_next = None\<rparr>"

definition write_outcome :: "int \<Rightarrow> string \<Rightarrow> outcome \<Rightarrow> delivery_row list \<Rightarrow> delivery_row list" where
  "write_outcome now i oc dls = map (\<lambda>r. if dl_id r = i then
      r\<lparr>dl_status := oc_status oc, dl_attempts := oc_attempts oc, dl_response_status := oc_response_status oc,
        dl_response_body := oc_response_body oc, dl_error_message := oc_error oc,
        dl_next_attempt_at := (case oc_next oc of Some t \<Rightarrow> t | None \<Rightarrow> dl_next_attempt_at r),
        dl_delivered_at := (if oc_status oc = D_delivered then Some now else dl_delivered_at r), dl_updated_at := now\<rparr>
      else r) dls"

definition updateEndpointHealth :: "int \<Rightarrow> string \<Rightarrow> int option \<Rightarrow> bool \<Rightarrow> delivery_row list \<Rightarrow> endpoint_row list \<Rightarrow> endpoint_row list" where
  "updateEndpointHealth now i st success dls eps =
     map (\<lambda>e. if \<exists>r \<in> set dls. dl_id r = i \<and> dl_endpoint_id r = ep_id e then
        (if success then e\<lparr>ep_last_delivery_at := Some now, ep_last_status_code := st, ep_failure_count := 0, ep_updated_at := now\<rparr>
         else e\<lparr>ep_last_delivery_at := Some now, ep_last_status_code := st, ep_failure_count := ep_failure_count e + 1,
                ep_active := (if ep_failure_count e + 1 \<ge> 10 then False else ep_active e),
                ep_disabled_at := (if ep_failure_count e + 1 \<ge> 10 then Some now else ep_disabled_at e), ep_updated_at := now\<rparr>)
        else e) eps"

definition due_deliveries :: "int \<Rightarrow> endpoint_row list \<Rightarrow> delivery_row list \<Rightarrow> delivery_row list" where
  "due_deliveries now eps dls = take 50 (sort_key dl_next_attempt_at
     (filter (\<lambda>r. dl_status r \<in> {D_pending, D_retrying} \<and> dl_next_attempt_at r \<le> now
        \<and> (\<exists>e \<in> set eps. ep_id e = dl_endpoint_id r \<and> ep_active e)) dls))"

section \<open>The loop\<close>

text \<open>
  Where the loop is suspended: at the query, at the request for a row, at the write of an outcome (inside
  the \<open>try\<close> or not), or at the update of the endpoint's health.
\<close>

datatype hook_pc =
    No_loop
  | Selecting
  | Posting delivery_row "delivery_row list"
  | Saving bool delivery_row outcome "delivery_row list"
  | Health delivery_row outcome "delivery_row list"

datatype hook_answer = Ok_answer | Error_answer string | Http_answer int string

definition attempt_number :: "delivery_row \<Rightarrow> nat" where
  "attempt_number r = dl_attempts r + 1"

definition max_attempts :: "nat \<Rightarrow> delivery_row \<Rightarrow> nat" where
  "max_attempts n r = (if dl_max_attempts r = 0 then n else dl_max_attempts r)"

definition next_dispatch :: "nat \<Rightarrow> delivery_row list \<Rightarrow> hook_pc" where
  "next_dispatch n rows = (case rows of
      [] \<Rightarrow> No_loop
    | r # rest \<Rightarrow>
        if attempt_number r > max_attempts n r
        then Saving False r (final_outcome D_failed (attempt_number r) None None (Some ''Max attempts exceeded'')) rest
        else Posting r rest)"

definition response_outcome :: "nat \<Rightarrow> int \<Rightarrow> delivery_row \<Rightarrow> int \<Rightarrow> string \<Rightarrow> outcome" where
  "response_outcome n now r st body =
     (if 200 \<le> st \<and> st < 300 then final_outcome D_delivered (attempt_number r) (Some st) (Some body) None
      else if (st \<ge> 500 \<or> st = 429) \<and> attempt_number r < max_attempts n r
      then retry_outcome now (attempt_number r) (Some st) (Some body) (''HTTP '' @ show_int st)
      else final_outcome D_failed (attempt_number r) (Some st) (Some body) (Some (''HTTP '' @ show_int st)))"

definition error_outcome :: "nat \<Rightarrow> int \<Rightarrow> delivery_row \<Rightarrow> string \<Rightarrow> outcome" where
  "error_outcome n now r msg =
     (if attempt_number r < max_attempts n r then retry_outcome now (attempt_number r) None None msg
      else final_outcome D_failed (attempt_number r) None None (Some msg))"

definition processQueue :: "hook_pc \<Rightarrow> hook_pc" where
  "processQueue pc = (if pc = No_loop then Selecting else pc)"

record hub =
  hb_endpoints :: "endpoint_row list"
  hb_deliveries :: "delivery_row list"
  hb_running :: bool
  hb_pc :: hook_pc

text \<open>An exception that leaves \<open>dispatchDelivery\<close> ends the loop.\<close>

definition hook_resume :: "nat \<Rightarrow> int \<Rightarrow> hook_answer \<Rightarrow> hub \<Rightarrow> hub" where
  "hook_resume n now a h = (case hb_pc h of
      No_loop \<Rightarrow> h
    | Selecting \<Rightarrow> (case a of
          Error_answer _ \<Rightarrow> h\<lparr>hb_pc := No_loop\<rparr>
        | _ \<Rightarrow> h\<lparr>hb_pc := next_dispatch n (due_deliveries now (hb_endpoints h) (hb_deliveries h))\<rparr>)
    | Posting r rest \<Rightarrow> (case a of
          Error_answer m \<Rightarrow> h\<lparr>hb_pc := Saving False r (error_outcome n now r m) rest\<rparr>
        | Http_answer st body \<Rightarrow> h\<lparr>hb_pc := Saving True r (response_outcome n now r st body) rest\<rparr>
        | Ok_answer \<Rightarrow> h)
    | Saving in_try r oc rest \<Rightarrow> (case a of
          Error_answer m \<Rightarrow> h\<lparr>hb_pc := (if in_try then Saving False r (error_outcome n now r m) rest else No_loop)\<rparr>
        | _ \<Rightarrow> h\<lparr>hb_deliveries := write_outcome now (dl_id r) oc (hb_deliveries h), hb_pc := Health r oc rest\<rparr>)
    | Health r oc rest \<Rightarrow> (case a of
          Error_answer _ \<Rightarrow> h\<lparr>hb_pc := next_dispatch n rest\<rparr>
        | _ \<Rightarrow> h\<lparr>hb_endpoints := updateEndpointHealth now (dl_id r) (oc_response_status oc) (oc_status oc = D_delivered)
                    (hb_deliveries h) (hb_endpoints h), hb_pc := next_dispatch n rest\<rparr>))"

text \<open>
  \<open>start\<close>: after it has marked the service as running it registers the endpoint of the environment and runs
  the loop, which are steps of their own.
\<close>

definition hook_start :: "hub \<Rightarrow> hub" where
  "hook_start h = h\<lparr>hb_running := True\<rparr>"

record hook_environment =
  he_url :: "string option"
  he_secret :: "string option"
  he_events :: "string option"
  he_name :: "string option"

definition seedFromEnvironment :: "hook_environment \<Rightarrow> register_input option" where
  "seedFromEnvironment env =
     (let url = or_default (he_url env) [] in
      if url = [] then None
      else let raw = or_default (he_events env) []; secret = or_default (he_secret env) [] in
        Some \<lparr>ri_url = url, ri_secret = (if secret = [] then None else Some secret),
              ri_name = Some (or_default (he_name env) ''environment''),
              ri_events = Some (map event_name (normalizeGovernanceWebhookEvents
                 (if raw = [] then None else Some (map js_trim (split_at (CHR '','') raw))))),
              ri_active = None\<rparr>)"

definition hook_stop :: "hub \<Rightarrow> hub" where
  "hook_stop h = h\<lparr>hb_running := False\<rparr>"

section \<open>History\<close>

record delivery_filters =
  df_endpointId :: "string option"
  df_eventType :: "string option"
  df_proposalId :: "string option"
  df_status :: "string option"
  df_limit :: "int option"
  df_offset :: "int option"

definition delivery_status_text :: "delivery_status \<Rightarrow> string" where
  "delivery_status_text s = (case s of D_pending \<Rightarrow> ''pending'' | D_retrying \<Rightarrow> ''retrying'' | D_delivered \<Rightarrow> ''delivered'' | D_failed \<Rightarrow> ''failed'')"

definition passes :: "string option \<Rightarrow> string \<Rightarrow> bool" where
  "passes f v \<longleftrightarrow> (case f of None \<Rightarrow> True | Some t \<Rightarrow> t = [] \<or> v = t)"

definition getDeliveryHistory :: "delivery_filters \<Rightarrow> delivery_row list \<Rightarrow> delivery_row list \<times> nat \<times> nat \<times> nat" where
  "getDeliveryHistory f dls =
     (let rows = filter (\<lambda>r. passes (df_endpointId f) (dl_endpoint_id r) \<and> passes (df_eventType f) (event_name (dl_event_type r))
              \<and> passes (df_proposalId f) (dl_proposal_id r) \<and> passes (df_status f) (delivery_status_text (dl_status r))) dls;
          limit = nat (min (max (case df_limit f of Some l \<Rightarrow> l | None \<Rightarrow> 50) 1) 200);
          off = nat (max (case df_offset f of Some k \<Rightarrow> k | None \<Rightarrow> 0) 0)
      in (take limit (drop off (sort_key (\<lambda>r. - dl_created_at r) rows)), length rows, limit, off))"

record delivery_stats =
  st_pending :: nat
  st_retrying :: nat
  st_delivered :: nat
  st_failed :: nat
  st_total :: nat

definition getDeliveryStats :: "delivery_row list \<Rightarrow> delivery_stats" where
  "getDeliveryStats dls =
     (let n = (\<lambda>s. length (filter (\<lambda>r. dl_status r = s) dls)) in
      \<lparr>st_pending = n D_pending, st_retrying = n D_retrying, st_delivered = n D_delivered, st_failed = n D_failed,
       st_total = n D_pending + n D_retrying + n D_delivered + n D_failed\<rparr>)"

section \<open>Runs\<close>

text \<open>
  A run counts, per delivery, the requests that were sent and the rounds that ended without a record
  because the database failed.
\<close>

record hook_run =
  hr_hub :: hub
  hr_posts :: "string \<Rightarrow> nat"
  hr_lost :: "string \<Rightarrow> nat"

definition count_post :: "hook_pc \<Rightarrow> hook_pc \<Rightarrow> (string \<Rightarrow> nat) \<Rightarrow> string \<Rightarrow> nat" where
  "count_post pc pc' posts = (case (pc, pc') of
      (Posting _ _, _) \<Rightarrow> posts
    | (_, Posting r _) \<Rightarrow> posts(dl_id r := posts (dl_id r) + 1)
    | _ \<Rightarrow> posts)"

definition count_lost :: "hook_pc \<Rightarrow> hook_answer \<Rightarrow> (string \<Rightarrow> nat) \<Rightarrow> string \<Rightarrow> nat" where
  "count_lost pc a lost = (case (pc, a) of
      (Saving False r _ _, Error_answer _) \<Rightarrow> lost(dl_id r := lost (dl_id r) + 1)
    | _ \<Rightarrow> lost)"

definition resume_run :: "nat \<Rightarrow> int \<Rightarrow> hook_answer \<Rightarrow> hook_run \<Rightarrow> hook_run" where
  "resume_run n now a s =
     (let h' = hook_resume n now a (hr_hub s) in
      \<lparr>hr_hub = h', hr_posts = count_post (hb_pc (hr_hub s)) (hb_pc h') (hr_posts s),
       hr_lost = count_lost (hb_pc (hr_hub s)) a (hr_lost s)\<rparr>)"

inductive hook_step :: "(string \<Rightarrow> string \<Rightarrow> bytes) \<Rightarrow> nat \<Rightarrow> hook_run \<Rightarrow> hook_run \<Rightarrow> bool" for hmac n where
  Process: "hook_step hmac n s (s\<lparr>hr_hub := (hr_hub s)\<lparr>hb_pc := processQueue (hb_pc (hr_hub s))\<rparr>\<rparr>)"
| Resume: "hook_step hmac n s (resume_run n now a s)"
| Start_stop: "h \<in> {hook_start (hr_hub s), hook_stop (hr_hub s)} \<Longrightarrow> hook_step hmac n s (s\<lparr>hr_hub := h\<rparr>)"
| Create: "\<forall>r \<in> set (hb_deliveries (hr_hub s)). dl_id r \<noteq> new_id \<Longrightarrow>
    createDelivery hmac n now eventId new_id e ty d (hb_deliveries (hr_hub s)) = (i, dls) \<Longrightarrow>
    hook_step hmac n s (s\<lparr>hr_hub := (hr_hub s)\<lparr>hb_deliveries := dls\<rparr>\<rparr>)"
| Register: "eps \<in> {registerEndpoint now new_id secret inp (hb_endpoints (hr_hub s)), snd (deactivateEndpoint now i (hb_endpoints (hr_hub s)))} \<Longrightarrow>
    hook_step hmac n s (s\<lparr>hr_hub := (hr_hub s)\<lparr>hb_endpoints := eps\<rparr>\<rparr>)"

definition hook_init :: "hook_run \<Rightarrow> bool" where
  "hook_init s \<longleftrightarrow> hb_deliveries (hr_hub s) = [] \<and> hb_pc (hr_hub s) = No_loop \<and> hr_posts s = (\<lambda>_. 0) \<and> hr_lost s = (\<lambda>_. 0)"

section \<open>Invariant\<close>

definition open_status :: "delivery_row \<Rightarrow> bool" where
  "open_status r \<longleftrightarrow> dl_status r \<in> {D_pending, D_retrying}"

definition delivery_key :: "delivery_row \<Rightarrow> string \<times> event_type \<times> string" where
  "delivery_key r = (dl_endpoint_id r, dl_event_type r, dl_proposal_id r)"

definition tracked :: "delivery_row list \<Rightarrow> delivery_row \<Rightarrow> bool" where
  "tracked dls r \<longleftrightarrow> (\<exists>q \<in> set dls. dl_id q = dl_id r \<and> dl_attempts q = dl_attempts r \<and> dl_max_attempts q = dl_max_attempts r \<and> open_status q)"

definition table_ok :: "nat \<Rightarrow> delivery_row list \<Rightarrow> bool" where
  "table_ok n dls \<longleftrightarrow> distinct (map dl_id dls) \<and> distinct (map delivery_key dls)
     \<and> (\<forall>r \<in> set dls. dl_attempts r \<le> max_attempts n r \<and> (open_status r \<longrightarrow> dl_attempts r < max_attempts n r))"

text \<open>\<open>extra\<close> is the delivery whose request is under way, if any.\<close>

definition loop_ok :: "nat \<Rightarrow> delivery_row list \<Rightarrow> delivery_row list \<Rightarrow> string option \<Rightarrow> (string \<Rightarrow> nat) \<Rightarrow> (string \<Rightarrow> nat) \<Rightarrow> bool" where
  "loop_ok n dls rows extra posts lost \<longleftrightarrow> table_ok n dls \<and> distinct (map dl_id rows) \<and> (\<forall>r \<in> set rows. tracked dls r)
     \<and> (\<forall>i. i \<notin> dl_id ` set dls \<longrightarrow> posts i = 0)
     \<and> (\<forall>r \<in> set dls. posts (dl_id r) \<le> dl_attempts r + lost (dl_id r) + (if extra = Some (dl_id r) then 1 else 0))"

definition outcome_ok :: "nat \<Rightarrow> delivery_row \<Rightarrow> outcome \<Rightarrow> bool" where
  "outcome_ok n r oc \<longleftrightarrow> oc_attempts oc = attempt_number r \<and> oc_status oc \<noteq> D_pending
     \<and> (oc_status oc = D_retrying \<longrightarrow> attempt_number r < max_attempts n r)"

definition hook_inv :: "nat \<Rightarrow> hook_run \<Rightarrow> bool" where
  [inv_defs]: "hook_inv n s \<longleftrightarrow> (let dls = hb_deliveries (hr_hub s); ok = (\<lambda>rows extra. loop_ok n dls rows extra (hr_posts s) (hr_lost s)) in
     case hb_pc (hr_hub s) of
       Posting r rest \<Rightarrow> ok (r # rest) (Some (dl_id r))
     | Saving _ r oc rest \<Rightarrow> ok (r # rest) (Some (dl_id r)) \<and> outcome_ok n r oc
     | Health _ _ rest \<Rightarrow> ok rest None
     | _ \<Rightarrow> ok [] None)"

lemma tracked_attempts: "table_ok n dls \<Longrightarrow> tracked dls r \<Longrightarrow> dl_attempts r < max_attempts n r"
  by (fastforce simp: table_ok_def tracked_def max_attempts_def)

lemma outcomes_ok: "outcome_ok n r (response_outcome n now r st body)" "outcome_ok n r (error_outcome n now r m)"
  by (auto simp: outcome_ok_def response_outcome_def error_outcome_def final_outcome_def retry_outcome_def)

lemma tracked_due: "r \<in> set (due_deliveries now eps dls) \<Longrightarrow> r \<in> set dls \<and> open_status r"
  by (auto simp: due_deliveries_def open_status_def dest!: in_set_takeD)

lemma due_distinct: "distinct (map dl_id dls) \<Longrightarrow> distinct (map dl_id (due_deliveries now eps dls))"
proof -
  assume d: "distinct (map dl_id dls)"
  let ?f = "filter (\<lambda>r. dl_status r \<in> {D_pending, D_retrying} \<and> dl_next_attempt_at r \<le> now
      \<and> (\<exists>e \<in> set eps. ep_id e = dl_endpoint_id r \<and> ep_active e)) dls"
  have "distinct (map dl_id ?f)" using d by (simp add: distinct_map_filter)
  moreover have "mset (map dl_id (sort_key dl_next_attempt_at ?f)) = mset (map dl_id ?f)" by simp
  ultimately have "distinct (map dl_id (sort_key dl_next_attempt_at ?f))" using mset_eq_imp_distinct_iff by blast
  then show ?thesis by (simp add: due_deliveries_def take_map [symmetric])
qed

lemma next_dispatch_ok:
  assumes ok: "loop_ok n dls rows None posts lost" and pc: "\<And>r rest. pc \<noteq> Posting r rest"
    and s: "hb_deliveries (hr_hub s) = dls" "hb_pc (hr_hub s) = next_dispatch n rows" "hr_posts s = count_post pc (next_dispatch n rows) posts" "hr_lost s = lost"
  shows "hook_inv n s"
proof (cases rows)
  case Nil
  then have "count_post pc (next_dispatch n rows) posts = posts" by (auto simp: next_dispatch_def count_post_def split: hook_pc.split)
  then show ?thesis using ok s Nil by (simp add: hook_inv_def next_dispatch_def)
next
  case (Cons r rest)
  have "tracked dls r" "table_ok n dls" using ok Cons by (auto simp: loop_ok_def)
  then have a: "dl_attempts r < max_attempts n r" by (simp add: tracked_attempts)
  then have nd: "next_dispatch n rows = Posting r rest" by (simp add: next_dispatch_def Cons attempt_number_def)
  have cp: "count_post pc (Posting r rest) posts = posts(dl_id r := posts (dl_id r) + 1)"
    using pc by (cases pc) (auto simp: count_post_def)
  have "dl_id r \<in> dl_id ` set dls" using \<open>tracked dls r\<close> unfolding tracked_def by (metis image_eqI)
  then show ?thesis using ok s unfolding nd cp by (auto simp: hook_inv_def loop_ok_def Cons)
qed

lemma write_outcome_keys: "map dl_id (write_outcome now i oc dls) = map dl_id dls" "map delivery_key (write_outcome now i oc dls) = map delivery_key dls"
  by (simp_all add: write_outcome_def delivery_key_def comp_def if_distrib cong: if_cong)

lemma write_outcome_cases:
  assumes "q' \<in> set (write_outcome now i oc dls)"
  shows "(\<exists>q \<in> set dls. dl_id q \<noteq> i \<and> q' = q) \<or> (\<exists>q \<in> set dls. dl_id q = i \<and> dl_id q' = i \<and> dl_attempts q' = oc_attempts oc
      \<and> dl_max_attempts q' = dl_max_attempts q \<and> dl_status q' = oc_status oc)"
  using assms by (auto simp: write_outcome_def split: if_splits)

lemma write_outcome_other: "q \<in> set dls \<Longrightarrow> dl_id q \<noteq> i \<Longrightarrow> q \<in> set (write_outcome now i oc dls)"
  by (force simp: write_outcome_def)

lemma write_outcome_ok:
  assumes ok: "loop_ok n dls (r # rest) (Some (dl_id r)) posts lost" and oc: "outcome_ok n r oc"
  shows "loop_ok n (write_outcome now (dl_id r) oc dls) rest None posts lost"
proof -
  let ?dls = "write_outcome now (dl_id r) oc dls"
  have t: "table_ok n dls" "tracked dls r" "distinct (map dl_id dls)" using ok by (auto simp: loop_ok_def table_ok_def)
  have same: "dl_attempts q = dl_attempts r \<and> max_attempts n q = max_attempts n r" if "q \<in> set dls" "dl_id q = dl_id r" for q
    using t(2,3) that unfolding tracked_def max_attempts_def by (metis (no_types, lifting) distinct_map inj_on_def)
  have a: "dl_attempts r < max_attempts n r" using tracked_attempts t by blast
  have row: "dl_attempts q' \<le> max_attempts n q' \<and> (open_status q' \<longrightarrow> dl_attempts q' < max_attempts n q')
      \<and> posts (dl_id q') \<le> dl_attempts q' + lost (dl_id q')" if q': "q' \<in> set ?dls" for q'
  proof -
    from write_outcome_cases [OF q'] consider (other) "q' \<in> set dls" "dl_id q' \<noteq> dl_id r"
      | (mine) q where "q \<in> set dls" "dl_id q = dl_id r" "dl_id q' = dl_id r" "dl_attempts q' = oc_attempts oc"
          "dl_max_attempts q' = dl_max_attempts q" "dl_status q' = oc_status oc" by blast
    then show ?thesis
    proof cases
      case other
      then show ?thesis using ok by (auto simp: loop_ok_def table_ok_def)
    next
      case mine
      have "max_attempts n q' = max_attempts n r" using same [OF mine(1,2)] mine(5) by (auto simp: max_attempts_def split: if_splits)
      moreover have "posts (dl_id q) \<le> dl_attempts q + lost (dl_id q) + 1" using ok mine by (auto simp: loop_ok_def)
      ultimately show ?thesis using mine same [OF mine(1,2)] oc a by (auto simp: outcome_ok_def attempt_number_def open_status_def)
    qed
  qed
  have "tracked ?dls q" if "q \<in> set rest" for q
  proof -
    have "tracked dls q" "dl_id r \<notin> dl_id ` set rest" using ok that by (auto simp: loop_ok_def)
    then have "tracked dls q" "dl_id q \<noteq> dl_id r" using that by (metis image_eqI)+
    then show ?thesis using write_outcome_other [of _ dls "dl_id r" now oc] unfolding tracked_def by metis
  qed
  moreover have "dl_id ` set ?dls = dl_id ` set dls" using write_outcome_keys(1) [of now "dl_id r" oc dls] by (metis set_map)
  ultimately show ?thesis using ok row by (auto simp: loop_ok_def table_ok_def write_outcome_keys)
qed

lemma createDelivery_ok:
  assumes ok: "loop_ok n dls rows extra posts lost" and n: "0 < n" and fresh: "\<forall>r \<in> set dls. dl_id r \<noteq> new_id"
    and c: "createDelivery hmac n now eventId new_id e ty d dls = (i, dls')"
  shows "loop_ok n dls' rows extra posts lost"
proof (cases "dls' = dls")
  case False
  then obtain r where r: "dls' = dls @ [r]" "dl_id r = new_id" "dl_attempts r = 0" "dl_max_attempts r = n"
      "\<forall>q \<in> set dls. delivery_key q \<noteq> delivery_key r"
    using c by (auto simp: createDelivery_def Let_def delivery_key_def split: if_splits)
  have "new_id \<notin> dl_id ` set dls" "delivery_key r \<notin> delivery_key ` set dls" using fresh r(5) by auto
  moreover have "tracked dls' q" if "tracked dls q" for q using that r(1) by (auto simp: tracked_def)
  ultimately show ?thesis
    using ok n r by (auto simp: loop_ok_def table_ok_def max_attempts_def)
qed (use ok in simp)

lemma hook_step_inv: "hook_step hmac n s s' \<Longrightarrow> 0 < n \<Longrightarrow> hook_inv n s \<Longrightarrow> hook_inv n s'"
proof (induction rule: hook_step.induct)
  case (Process s)
  then show ?case by (auto simp: hook_inv_def processQueue_def Let_def)
next
  case (Create s new_id now eventId e ty d i dls)
  have "loop_ok n dls rows extra (hr_posts s) (hr_lost s)" if "loop_ok n (hb_deliveries (hr_hub s)) rows extra (hr_posts s) (hr_lost s)" for rows extra
    using createDelivery_ok [OF that Create(3,1,2)] .
  then show ?case using Create(4) by (auto simp: hook_inv_def Let_def split: hook_pc.splits)
next
  case (Resume s now a)
  let ?h = "hr_hub s" let ?s' = "resume_run n now a s"
  have inv: "hook_inv n s" by fact
  show ?case
  proof (cases "hb_pc ?h")
    case No_loop
    then show ?thesis using inv by (simp add: hook_inv_def resume_run_def hook_resume_def count_post_def count_lost_def)
  next
    case Selecting
    let ?due = "due_deliveries now (hb_endpoints ?h) (hb_deliveries ?h)"
    have ok: "loop_ok n (hb_deliveries ?h) [] None (hr_posts s) (hr_lost s)" using inv Selecting by (simp add: hook_inv_def)
    then have due: "loop_ok n (hb_deliveries ?h) ?due None (hr_posts s) (hr_lost s)"
      using tracked_due due_distinct by (auto simp: loop_ok_def table_ok_def tracked_def)
    show ?thesis
    proof (cases "\<exists>m. a = Error_answer m")
      case True
      then show ?thesis using ok Selecting
        by (auto simp: hook_inv_def resume_run_def hook_resume_def count_post_def count_lost_def)
    next
      case False
      then have "hook_resume n now a ?h = ?h\<lparr>hb_pc := next_dispatch n ?due\<rparr>"
        using Selecting by (cases a) (simp_all add: hook_resume_def)
      then show ?thesis using Selecting by (intro next_dispatch_ok [OF due, of Selecting]) (simp_all add: resume_run_def count_lost_def)
    qed
  next
    case (Posting r rest)
    then show ?thesis using inv
      by (cases a) (auto simp: hook_inv_def resume_run_def hook_resume_def count_post_def count_lost_def Let_def outcomes_ok)
  next
    case (Saving b r oc rest)
    have ok: "loop_ok n (hb_deliveries ?h) (r # rest) (Some (dl_id r)) (hr_posts s) (hr_lost s)" "outcome_ok n r oc"
      using inv Saving by (simp_all add: hook_inv_def)
    have lost: "loop_ok n (hb_deliveries ?h) [] None (hr_posts s) ((hr_lost s)(dl_id r := hr_lost s (dl_id r) + 1))"
      using ok(1) by (fastforce simp: loop_ok_def)
    show ?thesis using ok Saving write_outcome_ok [OF ok] lost
      by (cases a) (auto simp: hook_inv_def resume_run_def hook_resume_def count_post_def count_lost_def Let_def outcomes_ok split: bool.splits)
  next
    case (Health r oc rest)
    have ok: "loop_ok n (hb_deliveries ?h) rest None (hr_posts s) (hr_lost s)" using inv Health by (simp add: hook_inv_def)
    have "hb_deliveries (hook_resume n now a ?h) = hb_deliveries ?h \<and> hb_pc (hook_resume n now a ?h) = next_dispatch n rest"
      using Health by (cases a) (simp_all add: hook_resume_def)
    then show ?thesis using Health by (intro next_dispatch_ok [OF ok, of "Health r oc rest"]) (simp_all add: resume_run_def count_lost_def Let_def)
  qed
qed (auto simp: hook_inv_def hook_start_def hook_stop_def Let_def split: hook_pc.splits)

lemma hook_reach_inv:
  assumes "hook_init s0" "0 < n" "(hook_step hmac n)\<^sup>*\<^sup>* s0 s"
  shows "hook_inv n s"
  using assms(3)
proof (induction rule: rtranclp_induct)
  case base
  then show ?case using assms(1) by (simp add: hook_init_def hook_inv_def loop_ok_def table_ok_def)
qed (use hook_step_inv assms(2) in blast)

lemma hook_inv_table:
  assumes "hook_inv n s" "r \<in> set (hb_deliveries (hr_hub s))"
  shows "hr_posts s (dl_id r) \<le> max_attempts n r + hr_lost s (dl_id r)" "distinct (map delivery_key (hb_deliveries (hr_hub s)))"
proof -
  let ?dls = "hb_deliveries (hr_hub s)"
  obtain rows extra where ok: "loop_ok n ?dls rows extra (hr_posts s) (hr_lost s)" and ex: "extra = None \<or> (\<exists>q \<in> set rows. extra = Some (dl_id q))"
    using assms(1) by (cases "hb_pc (hr_hub s)") (auto simp: hook_inv_def)
  then show "distinct (map delivery_key ?dls)" by (simp add: loop_ok_def table_ok_def)
  have r: "dl_attempts r \<le> max_attempts n r" "open_status r \<Longrightarrow> dl_attempts r < max_attempts n r"
      "hr_posts s (dl_id r) \<le> dl_attempts r + hr_lost s (dl_id r) + (if extra = Some (dl_id r) then 1 else 0)" "distinct (map dl_id ?dls)"
    using ok assms(2) by (auto simp: loop_ok_def table_ok_def)
  have "open_status r" if "extra = Some (dl_id r)"
  proof -
    obtain q where "tracked ?dls q" "dl_id q = dl_id r" using ok ex \<open>extra = _\<close> by (auto simp: loop_ok_def)
    then obtain q' where "q' \<in> set ?dls" "dl_id q' = dl_id r" "open_status q'" by (auto simp: tracked_def)
    then show ?thesis using r(4) assms(2) by (metis distinct_map inj_on_def)
  qed
  then show "hr_posts s (dl_id r) \<le> max_attempts n r + hr_lost s (dl_id r)" using r by (auto split: if_splits)
qed

text \<open>
  C12. In every interleaving of the loop with broadcasts, registrations, deactivations and database
  failures, a delivery is posted at most as often as its limit, plus once for every round whose outcome
  the database refused twice; and there is one delivery per endpoint, event type and proposal.
\<close>
theorem posts_bounded:
  assumes "hook_init s0" "0 < n" "(hook_step hmac n)\<^sup>*\<^sup>* s0 s" "r \<in> set (hb_deliveries (hr_hub s))"
  shows "hr_posts s (dl_id r) \<le> max_attempts n r + hr_lost s (dl_id r)
    \<and> (\<forall>q \<in> set (hb_deliveries (hr_hub s)). dl_endpoint_id q = dl_endpoint_id r \<and> dl_event_type q = dl_event_type r
          \<and> dl_proposal_id q = dl_proposal_id r \<longrightarrow> q = r)"
proof -
  have inv: "hook_inv n s" using hook_reach_inv assms(1-3) by blast
  have "inj_on delivery_key (set (hb_deliveries (hr_hub s)))" using hook_inv_table(2) [OF inv assms(4)] by (simp add: distinct_map)
  then show ?thesis using hook_inv_table(1) [OF inv assms(4)] assms(4) by (auto simp: inj_on_def delivery_key_def)
qed

lemma hook_step_settled:
  assumes "hook_step hmac n s s'" "hook_inv n s" "r \<in> set (hb_deliveries (hr_hub s))" "\<not> open_status r"
  shows "r \<in> set (hb_deliveries (hr_hub s'))"
  using assms
proof (induction rule: hook_step.induct)
  case (Resume s now a)
  show ?case
  proof (cases "hb_pc (hr_hub s)")
    case (Saving b q oc rest)
    then have ok: "loop_ok n (hb_deliveries (hr_hub s)) (q # rest) (Some (dl_id q)) (hr_posts s) (hr_lost s)"
      using Resume(1) by (simp add: hook_inv_def)
    then have "dl_id q \<noteq> dl_id r"
      using Resume(2,3) by (auto simp: loop_ok_def table_ok_def tracked_def distinct_map inj_on_def)
    then show ?thesis using Saving Resume(2) write_outcome_other [of r _ "dl_id q" now oc]
      by (cases a) (simp_all add: resume_run_def hook_resume_def Let_def)
  qed (use Resume(2) in \<open>cases a; simp add: resume_run_def hook_resume_def Let_def\<close>)+
next
  case (Create s new_id now eventId e ty d i dls)
  then show ?case by (auto simp: createDelivery_def Let_def split: if_splits)
qed (auto simp: hook_start_def hook_stop_def)

text \<open>A delivery that was delivered or given up is not changed or posted again by any later step.\<close>
theorem settled_deliveries_stay:
  assumes "hook_init s0" "0 < n" "(hook_step hmac n)\<^sup>*\<^sup>* s0 s" "(hook_step hmac n)\<^sup>*\<^sup>* s s'"
    and "r \<in> set (hb_deliveries (hr_hub s))" "dl_status r \<in> {D_delivered, D_failed}"
  shows "r \<in> set (hb_deliveries (hr_hub s'))"
  using assms(4)
proof (induction rule: rtranclp_induct)
  case (step s1 s2)
  have "hook_inv n s1" using hook_reach_inv [OF assms(1,2)] assms(3) step(1) rtranclp_trans by metis
  moreover have "\<not> open_status r" using assms(6) by (auto simp: open_status_def)
  ultimately show ?case using hook_step_settled [OF step(2)] step(3) by blast
qed (use assms(5) in simp)

section \<open>Signatures, delays, reactivation\<close>

lemma unat_utf8_char:
  "map unat (utf8_char c) = (if code c < 128 then [code c] else [192 + code c div 64, 128 + code c mod 64])"
proof -
  have "code c < 256" by (metis mod_less_divisor of_char_mod_256 zero_less_numeral)
  then have "192 + code c div 64 < 256" "128 + code c mod 64 < 256" by linarith+
  moreover have "unat (word_of_nat k :: byte) = k" if "k < 256" for k using that by (simp add: unat_of_nat)
  ultimately show ?thesis using \<open>code c < 256\<close> by (simp only: utf8_char_def list.map split: if_split) simp
qed

lemma utf8_inj: "utf8 s = utf8 t \<Longrightarrow> s = t"
proof (induction s arbitrary: t)
  case Nil
  then show ?case by (cases t) (auto simp: utf8_def utf8_char_def split: if_splits)
next
  case (Cons c s)
  then obtain d t' where t: "t = d # t'" by (cases t) (auto simp: utf8_def utf8_char_def split: if_splits)
  have e: "map unat (utf8_char c) @ map unat (utf8 s) = map unat (utf8_char d) @ map unat (utf8 t')"
    using arg_cong [OF Cons.prems, of "map unat"] by (simp add: utf8_def t)
  then have "code c = code d"
  proof (cases "code c < 128 \<longleftrightarrow> code d < 128")
    case True
    show ?thesis
    proof (cases "code c < 128")
      case False
      then have "code c div 64 = code d div 64" "code c mod 64 = code d mod 64" using e True by (simp_all add: unat_utf8_char)
      then show ?thesis by (metis div_mult_mod_eq)
    qed (use e True in \<open>simp add: unat_utf8_char\<close>)
  qed (use e in \<open>auto simp: unat_utf8_char split: if_splits\<close>)
  then have "c = d" by simp
  moreover have "utf8 s = utf8 t'" using Cons.prems \<open>c = d\<close> by (simp add: utf8_def t)
  ultimately show ?case using Cons.IH t by blast
qed

text \<open>
  A signature is accepted exactly when it is the HMAC of the body under the secret, with or without the
  prefix; in particular what the service signs is accepted.
\<close>
theorem signature_accepted_iff:
  assumes "secret \<noteq> []"
  shows "verifyGovernanceWebhookSignature hmac body (Some s) secret \<longleftrightarrow>
    s \<noteq> [] \<and> (s = signGovernanceWebhookPayload hmac body secret
      \<or> (take 7 s \<noteq> signature_prefix \<and> s = hex (hmac secret body)))"
proof -
  have p: "take 7 (signGovernanceWebhookPayload hmac body secret) = signature_prefix"
    by (simp add: signGovernanceWebhookPayload_def signature_prefix_def)
  have "verifyGovernanceWebhookSignature hmac body (Some s) secret \<longleftrightarrow>
    s \<noteq> [] \<and> signGovernanceWebhookPayload hmac body secret = (if take 7 s = signature_prefix then s else signature_prefix @ s)"
    using assms utf8_inj by (auto simp: verifyGovernanceWebhookSignature_def Let_def)
  then show ?thesis using p by (auto simp: signGovernanceWebhookPayload_def)
qed

theorem signature_accepted_iff_witness:
  "verifyGovernanceWebhookSignature (\<lambda>s b. [1]) ''{}'' (Some ''sha256=01'') ''k''"
  using signature_accepted_iff [of "''k''" "\<lambda>s b. [1]" "''{}''" "''sha256=01''"]
  by (simp add: signGovernanceWebhookPayload_def signature_prefix_def hex_def hex_digit_def char_of_def bit_0 bit_Suc_0_iff bit_Suc)

lemma retry_delay_bounds: "1000 \<le> getRetryDelayMs k \<and> getRetryDelayMs k \<le> 60000"
proof -
  have "(1::int) \<le> 2 ^ (k - 1)" by simp
  then show ?thesis by (auto simp: getRetryDelayMs_def)
qed

lemma retry_delay_mono: "j \<le> k \<Longrightarrow> getRetryDelayMs j \<le> getRetryDelayMs k"
proof -
  assume "j \<le> k"
  then have "(2 :: int) ^ (j - 1) \<le> 2 ^ (k - 1)" by (intro power_increasing) auto
  then show ?thesis unfolding getRetryDelayMs_def by linarith
qed

text \<open>
  Registering an endpoint again activates it but keeps its failure count: an endpoint that had been
  disabled after ten failures is disabled by the next one.
\<close>

lemma reactivated_endpoint_disabled_at_once:
  fixes now :: int and new_id secret :: string
  assumes e: "e \<in> set eps" "ep_url e = ri_url inp" "ep_failure_count e \<ge> 10" "ri_active inp = None" "distinct (map ep_id eps)"
    and d: "r \<in> set dls" "dl_endpoint_id r = ep_id e"
  defines "eps1 \<equiv> registerEndpoint now new_id secret inp eps"
  shows "\<exists>e1 \<in> set eps1. ep_id e1 = ep_id e \<and> ep_active e1 \<and> ep_failure_count e1 = ep_failure_count e"
    and "\<forall>e2 \<in> set (updateEndpointHealth now2 (dl_id r) st False dls eps1). ep_id e2 = ep_id e \<longrightarrow> \<not> ep_active e2"
proof -
  let ?f = "\<lambda>e. if ep_url e = ri_url inp then e\<lparr>ep_name := ri_name inp, ep_secret := or_default (ri_secret inp) secret,
      ep_events := Ev_array (map event_name (normalizeGovernanceWebhookEvents (ri_events inp))), ep_active := True,
      ep_disabled_at := None, ep_updated_at := now\<rparr> else e"
  have r: "eps1 = map ?f eps" using e unfolding eps1_def registerEndpoint_def Let_def by auto
  have "?f e \<in> set eps1" using e(1) unfolding r by simp
  then show "\<exists>e1 \<in> set eps1. ep_id e1 = ep_id e \<and> ep_active e1 \<and> ep_failure_count e1 = ep_failure_count e"
    by (rule bexI [rotated]) (simp add: e(2))
  have "ep_failure_count e1 \<ge> 10" if m: "e1 \<in> set eps1" "ep_id e1 = ep_id e" for e1
  proof -
    obtain e0 where "e0 \<in> set eps" "e1 = ?f e0" using m(1) r by auto
    moreover have "ep_id e0 = ep_id e" using calculation m(2) by (auto split: if_splits)
    then have "e0 = e" using e(1,5) calculation(1) by (metis distinct_map inj_on_def)
    ultimately show ?thesis using e(3) by simp
  qed
  then show "\<forall>e2 \<in> set (updateEndpointHealth now2 (dl_id r) st False dls eps1). ep_id e2 = ep_id e \<longrightarrow> \<not> ep_active e2"
    using d by (fastforce simp: updateEndpointHealth_def)
qed

section \<open>A sample run\<close>

text \<open>One endpoint, one broadcast, one request that is answered with 200.\<close>

definition sample_endpoint :: endpoint_row where
  "sample_endpoint = \<lparr>ep_id = ''e1'', ep_name = None, ep_url = ''u'', ep_secret = ''k'', ep_events = Ev_array [], ep_active = True,
     ep_failure_count = 0, ep_last_delivery_at = None, ep_last_status_code = None, ep_disabled_at = None, ep_created_at = 0, ep_updated_at = 0\<rparr>"

definition sample_start :: hook_run where
  "sample_start = \<lparr>hr_hub = \<lparr>hb_endpoints = [sample_endpoint], hb_deliveries = [], hb_running = True, hb_pc = No_loop\<rparr>,
     hr_posts = (\<lambda>_. 0), hr_lost = (\<lambda>_. 0)\<rparr>"

lemma sample_run:
  "\<exists>s r. (hook_step (\<lambda>_ _. []) 5)\<^sup>*\<^sup>* sample_start s \<and> hb_deliveries (hr_hub s) = [r] \<and> dl_status r = D_delivered
     \<and> dl_id r = ''d1'' \<and> dl_max_attempts r = 5 \<and> hr_posts s ''d1'' = 1 \<and> hr_lost s ''d1'' = 0"
proof -
  obtain r where r: "createDelivery (\<lambda>_ _. []) 5 0 ''v1'' ''d1'' sample_endpoint Proposal_executed [] [] = (Some ''d1'', [r])"
    and rf: "dl_id r = ''d1''" "dl_endpoint_id r = ''e1''" "dl_status r = D_pending" "dl_attempts r = 0" "dl_max_attempts r = 5" "dl_next_attempt_at r = 0"
    by (simp add: createDelivery_def Let_def sample_endpoint_def)
  let ?step = "hook_step (\<lambda>_ _. []) 5"
  let ?st = "\<lambda>dls pc n. \<lparr>hr_hub = \<lparr>hb_endpoints = [sample_endpoint], hb_deliveries = dls, hb_running = True, hb_pc = pc\<rparr>,
      hr_posts = (\<lambda>_. 0)(''d1'' := n), hr_lost = (\<lambda>_. 0)\<rparr>"
  let ?oc = "final_outcome D_delivered 1 (Some 200) (Some []) None"
  let ?r' = "hd (write_outcome 0 ''d1'' ?oc [r])"
  have z: "(\<lambda>_. 0 :: nat)(''d1'' := 0) = (\<lambda>_. 0)" by auto
  have 1: "?step sample_start (?st [r] No_loop 0)"
    using hook_step.Create [of sample_start "''d1''" "\<lambda>_ _. []" 5 0 "''v1''" sample_endpoint Proposal_executed "[]" "Some ''d1''" "[r]"]
    by (simp add: r sample_start_def z)
  have 2: "?step (?st [r] No_loop 0) (?st [r] Selecting 0)"
    using hook_step.Process [of "\<lambda>_ _. []" 5 "?st [r] No_loop 0"] by (simp add: processQueue_def)
  have due: "due_deliveries 0 [sample_endpoint] [r] = [r]" by (simp add: due_deliveries_def rf sample_endpoint_def)
  have 3: "?step (?st [r] Selecting 0) (?st [r] (Posting r []) 1)"
    using hook_step.Resume [of "\<lambda>_ _. []" 5 "?st [r] Selecting 0" 0 Ok_answer]
    by (simp add: resume_run_def hook_resume_def due next_dispatch_def attempt_number_def max_attempts_def rf count_post_def count_lost_def)
  have 4: "?step (?st [r] (Posting r []) 1) (?st [r] (Saving True r ?oc []) 1)"
    using hook_step.Resume [of "\<lambda>_ _. []" 5 "?st [r] (Posting r []) 1" 0 "Http_answer 200 []"]
    by (simp add: resume_run_def hook_resume_def response_outcome_def attempt_number_def rf count_post_def count_lost_def)
  have 5: "?step (?st [r] (Saving True r ?oc []) 1) (?st [?r'] (Health r ?oc []) 1)"
    using hook_step.Resume [of "\<lambda>_ _. []" 5 "?st [r] (Saving True r ?oc []) 1" 0 Ok_answer]
    by (simp add: resume_run_def hook_resume_def rf count_post_def count_lost_def write_outcome_def)
  have "?step\<^sup>*\<^sup>* sample_start (?st [?r'] (Health r ?oc []) 1)"
    by (rule converse_rtranclp_into_rtranclp, rule 1, rule converse_rtranclp_into_rtranclp, rule 2,
        rule converse_rtranclp_into_rtranclp, rule 3, rule converse_rtranclp_into_rtranclp, rule 4, rule r_into_rtranclp, rule 5)
  moreover have "dl_status ?r' = D_delivered" "dl_id ?r' = ''d1''" "dl_max_attempts ?r' = 5"
    by (simp_all add: write_outcome_def rf final_outcome_def)
  ultimately show ?thesis by (intro exI [of _ "?st [?r'] (Health r ?oc []) 1"] exI [of _ ?r']) simp
qed

lemma sample_start_init: "hook_init sample_start"
  by (simp add: hook_init_def sample_start_def)

theorem posts_bounded_witness:
  "\<exists>s r. (hook_step (\<lambda>_ _. []) 5)\<^sup>*\<^sup>* sample_start s \<and> r \<in> set (hb_deliveries (hr_hub s)) \<and> hr_posts s (dl_id r) = 1 \<and> hr_posts s (dl_id r) \<le> 5"
proof -
  obtain s r where s: "(hook_step (\<lambda>_ _. []) 5)\<^sup>*\<^sup>* sample_start s" "hb_deliveries (hr_hub s) = [r]" "dl_id r = ''d1''"
      "dl_max_attempts r = 5" "hr_posts s ''d1'' = 1" "hr_lost s ''d1'' = 0" using sample_run by blast
  then have "hr_posts s (dl_id r) \<le> 5" using posts_bounded [OF sample_start_init _ s(1), of r] by (simp add: max_attempts_def)
  then show ?thesis using s by (intro exI [of _ s] exI [of _ r]) simp
qed

theorem settled_deliveries_stay_witness:
  "\<exists>s r. (hook_step (\<lambda>_ _. []) 5)\<^sup>*\<^sup>* sample_start s \<and> dl_status r = D_delivered \<and> r \<in> set (hb_deliveries (hr_hub s))
     \<and> r \<in> set (hb_deliveries (hr_hub (resume_run 5 9 Ok_answer s)))"
proof -
  obtain s r where s: "(hook_step (\<lambda>_ _. []) 5)\<^sup>*\<^sup>* sample_start s" "hb_deliveries (hr_hub s) = [r]" "dl_status r = D_delivered" using sample_run by blast
  have "hook_step (\<lambda>_ _. []) 5 s (resume_run 5 9 Ok_answer s)" by (rule hook_step.Resume)
  then have "(hook_step (\<lambda>_ _. []) 5)\<^sup>*\<^sup>* s (resume_run 5 9 Ok_answer s)" by (rule r_into_rtranclp)
  then have "r \<in> set (hb_deliveries (hr_hub (resume_run 5 9 Ok_answer s)))"
    using settled_deliveries_stay [OF sample_start_init _ s(1), of _ r] s(2,3) by simp
  then show ?thesis using s by (intro exI [of _ s] exI [of _ r]) simp
qed

end
