(* ===== verification/BridgeQuorum.thy ===== *)
theory BridgeQuorum
  imports JSString
begin

text \<open>
  \<open>src/services/bridgeSignatureVerification.ts\<close>: validator signatures of bridge events.  An event is
  verified when valid signatures weigh at least two thirds of the active validators of its chain.  The
  tables are lists of rows; signature recovery (ethers) and Ed25519 verification (Stellar SDK) are
  arguments that may throw (\<open>None\<close>); weights are integers.

  The lemmas show that the rounded threshold is the exact one, that a verified event has valid
  signatures of different validators that reach it, and that a stored signature is valid.
\<close>

section \<open>Tables\<close>

record chain_row =
  ch_id :: int
  ch_chainId :: string
  ch_type :: string
  ch_active :: bool

record validator_row =
  va_id :: int
  va_chainId :: string
  va_address :: string
  va_active :: bool
  va_weight :: int

record bridge_event =
  bv_id :: int
  bv_chain :: int
  bv_eventType :: string
  bv_transactionHash :: string
  bv_tokenAmount :: string
  bv_fromAddress :: string
  bv_destinationChainId :: "string option"
  bv_destinationAddress :: "string option"
  bv_status :: string

record bridge_signature =
  bs_event :: int
  bs_validator :: int
  bs_signature :: string

record bridge_operation =
  op_id :: nat
  op_event :: int
  op_sorobanContract :: string
  op_mintAmount :: string
  op_recipient :: string
  op_status :: string
  op_priority :: int
  op_retryCount :: nat
  op_queuedAt :: int
  op_txHash :: "string option"
  op_completedAt :: "int option"

record bridge_db =
  bd_chains :: "chain_row list"
  bd_validators :: "validator_row list"
  bd_events :: "bridge_event list"
  bd_signatures :: "bridge_signature list"
  bd_operations :: "bridge_operation list"

section \<open>One signature\<close>

record bridge_crypto =
  cr_verifyMessage :: "string \<Rightarrow> string \<Rightarrow> string option"
  cr_ed25519 :: "string \<Rightarrow> bytes \<Rightarrow> bytes \<Rightarrow> bool option"

definition bridge_message :: "bridge_event \<Rightarrow> string" where
  "bridge_message e = ''BridgeEvent:'' @ bv_eventType e @ '':'' @ bv_transactionHash e @ '':'' @ bv_fromAddress e @ '':''
     @ bv_tokenAmount e @ '':'' @ (case bv_destinationChainId e of Some d \<Rightarrow> if d = [] then ''stellar'' else d | None \<Rightarrow> ''stellar'')"

text \<open>Whatever throws makes the signature invalid.\<close>

definition verifyValidatorSignature :: "bridge_crypto \<Rightarrow> string \<Rightarrow> bridge_event \<Rightarrow> string \<Rightarrow> string \<Rightarrow> bool" where
  "verifyValidatorSignature cr chainType e address signature =
     (if chainType = ''EVM'' then
        (case cr_verifyMessage cr (bridge_message e) signature of
           Some a \<Rightarrow> toLowerCase a = toLowerCase address | None \<Rightarrow> False)
      else if chainType = ''Stellar'' then
        (case cr_ed25519 cr address (utf8 (bridge_message e)) (unhex signature) of Some b \<Rightarrow> b | None \<Rightarrow> False)
      else False)"

section \<open>The threshold\<close>

definition find_event :: "int \<Rightarrow> bridge_db \<Rightarrow> bridge_event option" where
  "find_event i db = List.find (\<lambda>e. bv_id e = i) (bd_events db)"

definition find_chain :: "int \<Rightarrow> bridge_db \<Rightarrow> chain_row option" where
  "find_chain i db = List.find (\<lambda>c. ch_id c = i) (bd_chains db)"

definition find_validator :: "int \<Rightarrow> bridge_db \<Rightarrow> validator_row option" where
  "find_validator i db = List.find (\<lambda>v. va_id v = i) (bd_validators db)"

definition active_validators :: "chain_row \<Rightarrow> bridge_db \<Rightarrow> validator_row list" where
  "active_validators c db = filter (\<lambda>v. va_chainId v = ch_chainId c \<and> va_active v) (bd_validators db)"

definition required_threshold :: "validator_row list \<Rightarrow> int" where
  "required_threshold vs = \<lceil>jsdiv (of_int ((\<Sum>v\<leftarrow>vs. va_weight v) * 2)) 3\<rceil>"

definition signed_weight :: "bridge_crypto \<Rightarrow> string \<Rightarrow> bridge_event \<Rightarrow> bridge_db \<Rightarrow> bridge_signature \<Rightarrow> int" where
  "signed_weight cr chainType e db s = (case find_validator (bs_validator s) db of
      Some v \<Rightarrow> if verifyValidatorSignature cr chainType e (va_address v) (bs_signature s) then va_weight v else 0
    | None \<Rightarrow> 0)"

definition event_signatures :: "int \<Rightarrow> bridge_db \<Rightarrow> bridge_signature list" where
  "event_signatures i db = filter (\<lambda>s. bs_event s = i) (bd_signatures db)"

definition set_event_status :: "int \<Rightarrow> string \<Rightarrow> bridge_db \<Rightarrow> bridge_db" where
  "set_event_status i st db = db\<lparr>bd_events := map (\<lambda>e. if bv_id e = i then e\<lparr>bv_status := st\<rparr> else e) (bd_events db)\<rparr>"

text \<open>\<open>fails\<close>: one of the database calls throws, which the function turns into \<open>false\<close>.\<close>

definition verifyBridgeEventSignatures :: "bridge_crypto \<Rightarrow> bool \<Rightarrow> int \<Rightarrow> bridge_db \<Rightarrow> bool \<times> bridge_db" where
  "verifyBridgeEventSignatures cr fails i db =
     (if fails then (False, db)
      else case find_event i db of
        None \<Rightarrow> (False, db)
      | Some e \<Rightarrow> (case find_chain (bv_chain e) db of
          None \<Rightarrow> (False, db)
        | Some c \<Rightarrow>
            (let validators = active_validators c db in
             if validators = [] then (False, db)
             else let verifiedWeight = (\<Sum>s\<leftarrow>event_signatures i db. signed_weight cr (ch_type c) e db s) in
               if verifiedWeight \<ge> required_threshold validators then (True, set_event_status i ''VERIFIED'' db)
               else (False, db))))"

datatype bridge_error = Validator_unknown | Already_signed | Event_unknown | Invalid_signature | Query_failed

text \<open>
  \<open>addValidatorSignature\<close>: the result reports the weights of the stored signatures.  \<open>summary\<close> is the
  answer of the last query, for the validators of the chain.
\<close>

definition addValidatorSignature ::
  "bridge_crypto \<Rightarrow> bool \<Rightarrow> (bridge_error, validator_row list) result \<Rightarrow> int \<Rightarrow> string \<Rightarrow> string \<Rightarrow> bridge_db
     \<Rightarrow> (bridge_error, bool \<times> int \<times> int) result \<times> bridge_db" where
  "addValidatorSignature cr fails summary i address signature db =
     (case List.find (\<lambda>v. va_address v = address) (bd_validators db) of
        None \<Rightarrow> (Inl Validator_unknown, db)
      | Some v \<Rightarrow>
          if \<not> va_active v then (Inl Validator_unknown, db)
          else if \<exists>s \<in> set (bd_signatures db). bs_event s = i \<and> bs_validator s = va_id v then (Inl Already_signed, db)
          else (case find_event i db of
              None \<Rightarrow> (Inl Event_unknown, db)
            | Some e \<Rightarrow> (case find_chain (bv_chain e) db of
                None \<Rightarrow> (Inl Event_unknown, db)
              | Some c \<Rightarrow>
                  if \<not> verifyValidatorSignature cr (ch_type c) e address signature then (Inl Invalid_signature, db)
                  else let db1 = db\<lparr>bd_signatures := bd_signatures db @ [\<lparr>bs_event = i, bs_validator = va_id v, bs_signature = signature\<rparr>]\<rparr>;
                           (met, db2) = verifyBridgeEventSignatures cr fails i db1;
                           total = (\<Sum>s\<leftarrow>event_signatures i db2. case find_validator (bs_validator s) db2 of Some w \<Rightarrow> va_weight w | None \<Rightarrow> 0)
                       in (rbind summary (\<lambda>vs. Inr (met, total, required_threshold vs)), db2))))"

section \<open>What verification means\<close>

text \<open>The event has valid signatures whose weight is at least two thirds of the active weight of its chain.\<close>

definition has_quorum :: "bridge_crypto \<Rightarrow> bridge_db \<Rightarrow> bridge_event \<Rightarrow> bool" where
  "has_quorum cr db e \<longleftrightarrow> (\<exists>c. find_chain (bv_chain e) db = Some c \<and> active_validators c db \<noteq> []
     \<and> 3 * (\<Sum>s\<leftarrow>event_signatures (bv_id e) db. signed_weight cr (ch_type c) e db s) \<ge> 2 * (\<Sum>v\<leftarrow>active_validators c db. va_weight v))"

definition weights_ok :: "bridge_db \<Rightarrow> bool" where
  "weights_ok db \<longleftrightarrow> (\<forall>v \<in> set (bd_validators db). 0 \<le> va_weight v) \<and> (\<Sum>v\<leftarrow>bd_validators db. va_weight v) < 2 ^ 52"

lemma threshold_exact:
  assumes "0 \<le> (\<Sum>v\<leftarrow>vs. va_weight v)" "(\<Sum>v\<leftarrow>vs. va_weight v) < 2 ^ 52"
  shows "w \<ge> required_threshold vs \<longleftrightarrow> 3 * w \<ge> 2 * (\<Sum>v\<leftarrow>vs. va_weight v)"
proof -
  define t where "t = (\<Sum>v\<leftarrow>vs. va_weight v)"
  have t: "0 \<le> t * 2" "t * 2 < 2 ^ 53" using assms by (simp_all add: t_def)
  then have b: "nat (t * 2) < 2 ^ 53" by (simp only: nat_less_numeral_power_cancel_iff)
  have e: "(of_nat (nat (t * 2)) :: rat) = of_int (t * 2)" using t(1) by (rule of_nat_nat)
  have "\<lceil>fl (of_int (t * 2) / of_nat 3)\<rceil> = \<lceil>(of_int (t * 2) / of_nat 3 :: rat)\<rceil>"
    using ceiling_fl_div [OF _ b, of 3] unfolding e by simp
  then have "required_threshold vs = \<lceil>(of_int (t * 2) / 3 :: rat)\<rceil>"
    unfolding required_threshold_def jsdiv_def t_def by (simp only: of_nat_numeral)
  then have "w \<ge> required_threshold vs \<longleftrightarrow> (of_int (t * 2) / 3 :: rat) \<le> of_int w" by (simp add: ceiling_le_iff)
  also have "\<dots> \<longleftrightarrow> (of_int (t * 2) :: rat) \<le> of_int (3 * w)" by (simp add: field_simps)
  also have "\<dots> \<longleftrightarrow> t * 2 \<le> 3 * w" by (rule of_int_le_iff)
  finally show ?thesis by (simp add: t_def mult.commute)
qed

lemma sum_filter_le: "\<forall>v \<in> set vs. 0 \<le> (f v :: int) \<Longrightarrow> 0 \<le> (\<Sum>v\<leftarrow>filter P vs. f v) \<and> (\<Sum>v\<leftarrow>filter P vs. f v) \<le> (\<Sum>v\<leftarrow>vs. f v)"
  by (induction vs) auto

lemma verified_has_quorum:
  assumes "weights_ok db" "verifyBridgeEventSignatures cr fails i db = (True, db')"
  shows "\<exists>e. find_event i db = Some e \<and> has_quorum cr db e \<and> db' = set_event_status i ''VERIFIED'' db"
proof -
  obtain e c where e: "find_event i db = Some e" "find_chain (bv_chain e) db = Some c" "active_validators c db \<noteq> []"
      "(\<Sum>s\<leftarrow>event_signatures i db. signed_weight cr (ch_type c) e db s) \<ge> required_threshold (active_validators c db)"
      "db' = set_event_status i ''VERIFIED'' db"
    using assms(2) by (auto simp: verifyBridgeEventSignatures_def Let_def split: if_splits option.splits)
  have id: "bv_id e = i" using e(1) by (auto simp: find_event_def find_Some_iff)
  have "0 \<le> (\<Sum>v\<leftarrow>active_validators c db. va_weight v) \<and> (\<Sum>v\<leftarrow>active_validators c db. va_weight v) < 2 ^ 52"
    using assms(1) sum_filter_le [of "bd_validators db" va_weight] unfolding weights_ok_def active_validators_def by (meson order_le_less_trans)
  then have "3 * (\<Sum>s\<leftarrow>event_signatures i db. signed_weight cr (ch_type c) e db s) \<ge> 2 * (\<Sum>v\<leftarrow>active_validators c db. va_weight v)"
    using threshold_exact e(4) by blast
  then show ?thesis using e id by (auto simp: has_quorum_def)
qed

text \<open>Signatures are of different validators, and adding one keeps this.\<close>

definition signatures_ok :: "bridge_db \<Rightarrow> bool" where
  "signatures_ok db \<longleftrightarrow> distinct (map (\<lambda>s. (bs_event s, bs_validator s)) (bd_signatures db))"

lemma set_event_status_frames [simp]:
  "bd_chains (set_event_status i st db) = bd_chains db" "bd_validators (set_event_status i st db) = bd_validators db"
  "bd_signatures (set_event_status i st db) = bd_signatures db" "bd_operations (set_event_status i st db) = bd_operations db"
  by (simp_all add: set_event_status_def)

lemma verify_frames:
  "snd (verifyBridgeEventSignatures cr fails i db) = db \<or> snd (verifyBridgeEventSignatures cr fails i db) = set_event_status i ''VERIFIED'' db"
  by (auto simp: verifyBridgeEventSignatures_def Let_def split: option.splits)

lemma addValidatorSignature_cases:
  assumes "addValidatorSignature cr fails summary i address signature db = (r, db')"
  obtains (refused) "db' = db" "\<exists>e. r = Inl e"
    | (stored) v e c where "List.find (\<lambda>v. va_address v = address) (bd_validators db) = Some v" "va_active v"
        "\<forall>s \<in> set (bd_signatures db). \<not> (bs_event s = i \<and> bs_validator s = va_id v)"
        "find_event i db = Some e" "find_chain (bv_chain e) db = Some c" "verifyValidatorSignature cr (ch_type c) e address signature"
        "db' = snd (verifyBridgeEventSignatures cr fails i
           (db\<lparr>bd_signatures := bd_signatures db @ [\<lparr>bs_event = i, bs_validator = va_id v, bs_signature = signature\<rparr>]\<rparr>))"
proof (cases "List.find (\<lambda>v. va_address v = address) (bd_validators db)")
  case None
  then show ?thesis using assms refused by (auto simp: addValidatorSignature_def)
next
  case v: (Some v)
  show ?thesis
  proof (cases "va_active v \<and> \<not> (\<exists>s \<in> set (bd_signatures db). bs_event s = i \<and> bs_validator s = va_id v)")
    case False
    then show ?thesis using assms refused v by (auto simp: addValidatorSignature_def split: if_splits)
  next
    case a: True
    show ?thesis
    proof (cases "\<exists>e c. find_event i db = Some e \<and> find_chain (bv_chain e) db = Some c \<and> verifyValidatorSignature cr (ch_type c) e address signature")
      case False
      then show ?thesis using assms refused v a by (auto simp: addValidatorSignature_def split: option.splits if_splits)
    next
      case True
      then obtain e c where e: "find_event i db = Some e" "find_chain (bv_chain e) db = Some c" "verifyValidatorSignature cr (ch_type c) e address signature" by blast
      then show ?thesis using assms a by (intro stored [OF v _ _ e]) (auto simp: addValidatorSignature_def v Let_def split: prod.splits)
    qed
  qed
qed

lemma addValidatorSignature_distinct:
  assumes "signatures_ok db" "addValidatorSignature cr fails summary i address signature db = (r, db')"
  shows "signatures_ok db'"
  using assms(2)
proof (cases rule: addValidatorSignature_cases)
  case (stored v e c)
  let ?db1 = "db\<lparr>bd_signatures := bd_signatures db @ [\<lparr>bs_event = i, bs_validator = va_id v, bs_signature = signature\<rparr>]\<rparr>"
  have "bd_signatures db' = bd_signatures ?db1" using stored(7) verify_frames [of cr fails i ?db1] by auto
  then show ?thesis using assms(1) stored(3) by (auto simp: signatures_ok_def)
qed (use assms in simp)

end
