(* ===== verification/BridgeQueue.thy ===== *)
theory BridgeQueue
  imports BridgeQuorum
begin

text \<open>
  \<open>src/services/bridgeQueueService.ts\<close>, \<open>bridgeMintingService.ts\<close>, \<open>bridgeRelayerHealthMonitor.ts\<close> and the
  consumer of \<open>bridgeEventListener.ts\<close>: verified events are staged and queued as operations, and the queue
  submits their mint transactions.  The consumer, the requests of the validators and the queue passes
  are cut at their \<open>await\<close>s and interleave; passes of the interval may overlap.  What the SDK does with a
  transaction is an input: each call may fail, and the network reports a status.

  The lemmas show that only events with a quorum of signatures are ever submitted, in every
  interleaving, that a request which nothing interrupts is \<open>addValidatorSignature\<close> as a whole, and that an
  event verified by a late signature is never queued.
\<close>

section \<open>Staging and queueing\<close>

text \<open>\<open>reachable\<close>: every call of the SDK that building and simulating the transaction needs succeeds.\<close>

definition stageSorobanMintTransaction :: "string \<Rightarrow> bool \<Rightarrow> bridge_event \<Rightarrow> (string \<times> string \<times> string) option" where
  "stageSorobanMintTransaction configured reachable e =
     (let contract = (if configured \<noteq> [] then configured else (case bv_destinationChainId e of Some d \<Rightarrow> d | None \<Rightarrow> [])) in
      if contract = [] then None
      else if \<not> reachable then None
      else Some (contract, bv_tokenAmount e,
             (case bv_destinationAddress e of Some a \<Rightarrow> if a = [] then bv_fromAddress e else a | None \<Rightarrow> bv_fromAddress e)))"

definition enqueue_operation :: "nat \<Rightarrow> int \<Rightarrow> int \<Rightarrow> string \<times> string \<times> string \<Rightarrow> int option \<Rightarrow> bridge_db \<Rightarrow> bridge_db" where
  "enqueue_operation new_id now event staged priority db = (case staged of (contract, amount, recipient) \<Rightarrow>
     db\<lparr>bd_operations := bd_operations db @ [\<lparr>op_id = new_id, op_event = event, op_sorobanContract = contract, op_mintAmount = amount,
        op_recipient = recipient, op_status = ''QUEUED'', op_priority = (case priority of Some p \<Rightarrow> if p = 0 then 5 else p | None \<Rightarrow> 5),
        op_retryCount = 0, op_queuedAt = now, op_txHash = None, op_completedAt = None\<rparr>]\<rparr>)"

definition create_event :: "int \<Rightarrow> bridge_event \<Rightarrow> bridge_db \<Rightarrow> bridge_db" where
  "create_event new_id e db = db\<lparr>bd_events := bd_events db @ [e\<lparr>bv_id := new_id, bv_status := ''PENDING''\<rparr>]\<rparr>"

text \<open>The transaction hash of an event is unique in the table.\<close>

definition hash_known :: "bridge_event \<Rightarrow> bridge_db \<Rightarrow> bool" where
  "hash_known e db \<longleftrightarrow> (\<exists>q \<in> set (bd_events db). bv_transactionHash q = bv_transactionHash e)"

text \<open>
  Where the consumer of a packet (\<open>startWorker\<close>, \<open>persistCollateralLockedEvent\<close>) or the request of a
  validator (\<open>addValidatorSignature\<close>) is suspended.  Verification reads the signatures at \<open>P_verify\<close> and
  writes the status at \<open>P_mark\<close>.
\<close>

datatype packet_pc =
    P_chain string bridge_event
  | P_create bridge_event
  | P_burn int bridge_event
  | P_verify int bridge_event
  | P_mark int bridge_event
  | P_stage int bridge_event
  | P_enqueue int "string \<times> string \<times> string"
  | P_staged int
  | S_check int string string
  | S_store int validator_row string
  | S_verify int
  | S_mark int

text \<open>The first part of \<open>persistCollateralLockedEvent\<close>: it throws when the chain is not configured.\<close>

definition persistCollateralLockedEvent :: "string \<Rightarrow> bridge_event \<Rightarrow> bridge_db \<Rightarrow> packet_pc option" where
  "persistCollateralLockedEvent chainId e db =
     (case List.find (\<lambda>c. ch_chainId c = chainId) (bd_chains db) of
        None \<Rightarrow> None
      | Some c \<Rightarrow> Some (P_create (e\<lparr>bv_chain := ch_id c, bv_eventType := ''COLLATERAL_LOCK''\<rparr>)))"

text \<open>
  What a validator's request looks up before it stores the signature.  Validators, chains and what is
  signed of an event do not change, so the lookups are one step; that the validator has not signed yet
  is checked again by the unique index when the signature is stored.
\<close>

definition sign_check :: "bridge_crypto \<Rightarrow> int \<Rightarrow> string \<Rightarrow> string \<Rightarrow> bridge_db \<Rightarrow> (bridge_error, validator_row) result" where
  "sign_check cr i address signature db =
     (case List.find (\<lambda>v. va_address v = address) (bd_validators db) of
        None \<Rightarrow> Inl Validator_unknown
      | Some v \<Rightarrow>
          if \<not> va_active v then Inl Validator_unknown
          else if \<exists>s \<in> set (bd_signatures db). bs_event s = i \<and> bs_validator s = va_id v then Inl Already_signed
          else (case find_event i db of
              None \<Rightarrow> Inl Event_unknown
            | Some e \<Rightarrow> (case find_chain (bv_chain e) db of
                None \<Rightarrow> Inl Event_unknown
              | Some c \<Rightarrow> if \<not> verifyValidatorSignature cr (ch_type c) e address signature then Inl Invalid_signature else Inr v)))"

definition has_signed :: "int \<Rightarrow> validator_row \<Rightarrow> bridge_db \<Rightarrow> bool" where
  "has_signed i v db \<longleftrightarrow> (\<exists>s \<in> set (bd_signatures db). bs_event s = i \<and> bs_validator s = va_id v)"

definition store_signature :: "int \<Rightarrow> validator_row \<Rightarrow> string \<Rightarrow> bridge_db \<Rightarrow> bridge_db" where
  "store_signature i v signature db =
     db\<lparr>bd_signatures := bd_signatures db @ [\<lparr>bs_event = i, bs_validator = va_id v, bs_signature = signature\<rparr>]\<rparr>"

text \<open>
  One step of a packet or of a request: \<open>fails\<close> when the awaited call throws, \<open>configured\<close> the contract of
  the environment, \<open>new_id\<close> and \<open>op_new\<close> the identifiers the database would give to a new row.
\<close>

definition process_packet ::
  "bridge_crypto \<Rightarrow> string \<Rightarrow> bool \<Rightarrow> int \<Rightarrow> nat \<Rightarrow> int \<Rightarrow> packet_pc \<Rightarrow> bridge_db \<Rightarrow> packet_pc option \<times> bridge_db" where
  "process_packet cr configured fails new_id op_new now pc db = (case pc of
      P_chain chainId e \<Rightarrow> (if fails then None else persistCollateralLockedEvent chainId e db, db)
    | P_create e \<Rightarrow>
        (if fails \<or> hash_known e db then (None, db)
         else (Some (if bv_eventType e = ''TOKEN_BURN'' then P_burn new_id e else P_verify new_id e), create_event new_id e db))
    | P_burn i e \<Rightarrow> (if fails then None else Some (P_verify i e), db)
    | P_verify i e \<Rightarrow> (if fst (verifyBridgeEventSignatures cr fails i db) then Some (P_mark i e) else None, db)
    | P_mark i e \<Rightarrow> if fails then (None, db) else (Some (P_stage i e), set_event_status i ''VERIFIED'' db)
    | P_stage i e \<Rightarrow> (map_option (P_enqueue i) (stageSorobanMintTransaction configured (\<not> fails) e), db)
    | P_enqueue i staged \<Rightarrow> if fails then (None, db) else (Some (P_staged i), enqueue_operation op_new now i staged (Some 5) db)
    | P_staged i \<Rightarrow> (None, if fails then db else set_event_status i ''STAGED'' db)
    | S_check i address signature \<Rightarrow>
        (if fails then None else (case sign_check cr i address signature db of Inl _ \<Rightarrow> None | Inr v \<Rightarrow> Some (S_store i v signature)), db)
    | S_store i v signature \<Rightarrow>
        (if fails \<or> has_signed i v db then (None, db) else (Some (S_verify i), store_signature i v signature db))
    | S_verify i \<Rightarrow> (if fst (verifyBridgeEventSignatures cr fails i db) then Some (S_mark i) else None, db)
    | S_mark i \<Rightarrow> (None, if fails then db else set_event_status i ''VERIFIED'' db))"

text \<open>The entries: a packet of the ingestion queue, a collateral lock of the feed, a validator's request.\<close>

fun packet_entry :: "packet_pc \<Rightarrow> bool" where
  "packet_entry (P_chain chainId e) = True" | "packet_entry (P_create e) = True"
| "packet_entry (S_check i address signature) = True" | "packet_entry _ = False"

section \<open>Health monitor\<close>

record monitor =
  mo_failures :: nat
  mo_alertActive :: bool

definition monitor_check :: "nat \<Rightarrow> monitor \<Rightarrow> monitor \<times> bool" where
  "monitor_check pending m =
     (if pending > 50 \<and> \<not> mo_alertActive m then (m\<lparr>mo_alertActive := True\<rparr>, False)
      else if pending \<le> 50 then (m\<lparr>mo_alertActive := False\<rparr>, True)
      else (m, False))"

definition recordWorkerSuccess :: "monitor \<Rightarrow> monitor" where
  "recordWorkerSuccess m = m\<lparr>mo_failures := 0\<rparr>"

text \<open>Counts the failure and tells whether the worker is to be restarted.\<close>

definition recordWorkerFailure :: "monitor \<Rightarrow> bool \<times> monitor" where
  "recordWorkerFailure m = (mo_failures m + 1 \<ge> 3, m\<lparr>mo_failures := mo_failures m + 1\<rparr>)"

section \<open>Operations in the table\<close>

definition next_operation :: "bridge_db \<Rightarrow> bridge_operation option" where
  "next_operation db =
     (case sort_key op_priority (sort_key op_queuedAt (filter (\<lambda>q. op_status q = ''QUEUED'' \<and> op_retryCount q < 3) (bd_operations db))) of
        [] \<Rightarrow> None | o1 # _ \<Rightarrow> Some o1)"

definition update_op :: "nat \<Rightarrow> (bridge_operation \<Rightarrow> bridge_operation) \<Rightarrow> bridge_db \<Rightarrow> bridge_db" where
  "update_op i f db = db\<lparr>bd_operations := map (\<lambda>q. if op_id q = i then f q else q) (bd_operations db)\<rparr>"

definition find_op :: "nat \<Rightarrow> bridge_db \<Rightarrow> bridge_operation option" where
  "find_op i db = List.find (\<lambda>q. op_id q = i) (bd_operations db)"

definition getPendingCount :: "bridge_db \<Rightarrow> nat" where
  "getPendingCount db = length (filter (\<lambda>q. op_status q \<in> {''QUEUED'', ''PROCESSING''}) (bd_operations db))"

definition getStats :: "bridge_db \<Rightarrow> nat \<times> nat \<times> nat \<times> nat" where
  "getStats db = (let n = (\<lambda>s. length (filter (\<lambda>q. op_status q = s) (bd_operations db))) in
     (n ''QUEUED'', n ''PROCESSING'', n ''COMPLETED'', n ''FAILED''))"

definition requeue_failed :: "bridge_db \<Rightarrow> bridge_db" where
  "requeue_failed db = db\<lparr>bd_operations := map (\<lambda>q. if op_status q = ''FAILED'' \<and> op_retryCount q < 3
     then q\<lparr>op_status := ''QUEUED'', op_retryCount := op_retryCount q + 1\<rparr> else q) (bd_operations db)\<rparr>"

definition delete_completed :: "int \<Rightarrow> bridge_db \<Rightarrow> bridge_db" where
  "delete_completed cutoff db = db\<lparr>bd_operations := filter (\<lambda>q. \<not> (op_status q = ''COMPLETED''
     \<and> (case op_completedAt q of Some t \<Rightarrow> t < cutoff | None \<Rightarrow> False))) (bd_operations db)\<rparr>"

definition retryFailedOperations :: "bridge_db \<Rightarrow> nat \<times> bridge_db" where
  "retryFailedOperations db = (length (filter (\<lambda>q. op_status q = ''FAILED'' \<and> op_retryCount q < 3) (bd_operations db)), requeue_failed db)"

text \<open>\<open>cutoff\<close> is the current time less the days to keep.\<close>

definition cleanupOldOperations :: "int \<Rightarrow> bridge_db \<Rightarrow> nat \<times> bridge_db" where
  "cleanupOldOperations cutoff db = (length (bd_operations db) - length (bd_operations (delete_completed cutoff db)), delete_completed cutoff db)"

text \<open>Rows are kept in the order of their creation; the newest come first.\<close>

definition getOperationsByEvent :: "int \<Rightarrow> bridge_db \<Rightarrow> bridge_operation list" where
  "getOperationsByEvent i db = rev (filter (\<lambda>q. op_event q = i) (bd_operations db))"

text \<open>The administrator's update throws (\<open>None\<close>) when the row is gone.\<close>

definition updateOperationStatus :: "int \<Rightarrow> nat \<Rightarrow> string \<Rightarrow> bridge_db \<Rightarrow> bridge_db option" where
  "updateOperationStatus now i st db = (if find_op i db = None then None
     else Some (update_op i (\<lambda>q. (q\<lparr>op_status := st\<rparr>)\<lparr>op_completedAt := (if st = ''COMPLETED'' then Some now else op_completedAt q)\<rparr>) db))"

section \<open>A pass of the queue\<close>

text \<open>Where a pass is suspended; from \<open>Q_lookup\<close> on it is inside \<open>submitStagedMintTransaction\<close>.\<close>

datatype queue_pc =
    Q_count
  | Q_find
  | Q_lookup nat
  | Q_mark bridge_operation
  | Q_prepare bridge_operation
  | Q_send bridge_operation
  | Q_poll bridge_operation string nat
  | Q_complete bridge_operation string
  | Q_event bridge_operation
  | Q_fail nat

datatype queue_answer = A_ok | A_error | A_sent string | A_status string

text \<open>How a pass goes on: at another \<open>await\<close>, or it ends, after a success, without one, or by an exception.\<close>

datatype pass_next = Goes queue_pc | Ends_well | Ends | Throws

definition op_known :: "nat \<Rightarrow> bridge_db \<Rightarrow> bool" where
  "op_known i db \<longleftrightarrow> find_op i db \<noteq> None"

text \<open>An update of a row that is gone throws.\<close>

definition pass_resume :: "int \<Rightarrow> queue_answer \<Rightarrow> queue_pc \<Rightarrow> bridge_db \<Rightarrow> pass_next \<times> bridge_db" where
  "pass_resume now a pc db = (case pc of
      Q_count \<Rightarrow> (if a = A_error then Throws else Goes Q_find, db)
    | Q_find \<Rightarrow>
        (if a = A_error then Throws else (case next_operation db of None \<Rightarrow> Ends_well | Some p \<Rightarrow> Goes (Q_lookup (op_id p))), db)
    | Q_lookup i \<Rightarrow>
        (if a = A_error then Goes (Q_fail i) else (case find_op i db of None \<Rightarrow> Ends | Some p \<Rightarrow> Goes (Q_mark p)), db)
    | Q_mark p \<Rightarrow>
        (if a = A_error \<or> \<not> op_known (op_id p) db then (Goes (Q_fail (op_id p)), db)
         else (Goes (Q_prepare p), update_op (op_id p) (\<lambda>q. q\<lparr>op_status := ''PROCESSING''\<rparr>) db))
    | Q_prepare p \<Rightarrow> (if a = A_error then Goes (Q_fail (op_id p)) else Goes (Q_send p), db)
    | Q_send p \<Rightarrow> (case a of A_sent h \<Rightarrow> Goes (Q_poll p h 0) | _ \<Rightarrow> Goes (Q_fail (op_id p)), db)
    | Q_poll p h k \<Rightarrow>
        (case a of
           A_status st \<Rightarrow> if st = ''SUCCESS'' then Goes (Q_complete p h)
             else if st = ''FAILED'' then Goes (Q_fail (op_id p))
             else if k + 1 < 30 then Goes (Q_poll p h (k + 1)) else Goes (Q_fail (op_id p))
         | _ \<Rightarrow> Goes (Q_fail (op_id p)), db)
    | Q_complete p h \<Rightarrow>
        (if a = A_error \<or> \<not> op_known (op_id p) db then (Goes (Q_fail (op_id p)), db)
         else (Goes (Q_event p), update_op (op_id p) (\<lambda>q. q\<lparr>op_status := ''COMPLETED'', op_txHash := Some h, op_completedAt := Some now\<rparr>) db))
    | Q_event p \<Rightarrow>
        (if a = A_error then (Goes (Q_fail (op_id p)), db)
         else (Ends_well, set_event_status (op_event p) ''COMPLETED'' db))
    | Q_fail i \<Rightarrow>
        (if a = A_error \<or> \<not> op_known i db then (Throws, db)
         else (Ends, update_op i (\<lambda>q. q\<lparr>op_status := ''FAILED'', op_retryCount := op_retryCount q + 1\<rparr>) db)))"

text \<open>The task of a pass; \<open>nested\<close> when a restart of the worker waits for it.\<close>

record queue_task =
  tk_pc :: queue_pc
  tk_nested :: bool

record bridge_sys =
  by_db :: bridge_db
  by_packets :: "packet_pc list"
  by_tasks :: "queue_task list"
  by_monitor :: monitor
  by_isProcessing :: bool
  by_timer :: bool
  by_sent :: "(nat \<times> int) list"

definition queue_start :: "bridge_sys \<Rightarrow> bridge_sys" where
  "queue_start s = (if by_isProcessing s then s
     else s\<lparr>by_isProcessing := True, by_timer := True, by_tasks := by_tasks s @ [\<lparr>tk_pc = Q_count, tk_nested = False\<rparr>]\<rparr>)"

definition queue_stop :: "bridge_sys \<Rightarrow> bridge_sys" where
  "queue_stop s = s\<lparr>by_timer := False, by_isProcessing := False\<rparr>"

definition end_nested :: "bool \<Rightarrow> monitor \<Rightarrow> monitor" where
  "end_nested nested m = (if nested then recordWorkerSuccess m else m)"

definition drop_task :: "nat \<Rightarrow> 'a list \<Rightarrow> 'a list" where
  "drop_task k xs = take k xs @ drop (k + 1) xs"

text \<open>
  The pass \<open>k\<close> goes on.  A transaction is submitted when the pass enters \<open>Q_send\<close>.  The third failure in a
  row restarts the worker, which runs a pass while the failed one waits.
\<close>

definition sys_resume :: "nat \<Rightarrow> int \<Rightarrow> queue_answer \<Rightarrow> bridge_sys \<Rightarrow> bridge_sys" where
  "sys_resume k now a s =
     (let t = by_tasks s ! k; (nx, db1) = pass_resume now a (tk_pc t) (by_db s);
          m = (if tk_pc t = Q_count \<and> a \<noteq> A_error then fst (monitor_check (getPendingCount (by_db s)) (by_monitor s)) else by_monitor s)
      in case nx of
        Goes pc \<Rightarrow> s\<lparr>by_db := db1, by_monitor := m, by_tasks := (by_tasks s)[k := t\<lparr>tk_pc := pc\<rparr>],
                     by_sent := (case pc of Q_send p \<Rightarrow> by_sent s @ [(op_id p, op_event p)] | _ \<Rightarrow> by_sent s)\<rparr>
      | Ends_well \<Rightarrow> s\<lparr>by_db := db1, by_monitor := recordWorkerSuccess m, by_tasks := drop_task k (by_tasks s)\<rparr>
      | Ends \<Rightarrow> s\<lparr>by_db := db1, by_monitor := end_nested (tk_nested t) m, by_tasks := drop_task k (by_tasks s)\<rparr>
      | Throws \<Rightarrow>
          (case recordWorkerFailure m of
             (True, m1) \<Rightarrow> s\<lparr>by_db := db1, by_monitor := m1, by_isProcessing := True, by_timer := True,
                            by_tasks := (by_tasks s)[k := \<lparr>tk_pc = Q_count, tk_nested = True\<rparr>]\<rparr>
           | (False, m1) \<Rightarrow> s\<lparr>by_db := db1, by_monitor := end_nested (tk_nested t) m1, by_tasks := drop_task k (by_tasks s)\<rparr>))"

text \<open>The identifier of the operation a pass works on.\<close>

fun pc_op :: "queue_pc \<Rightarrow> nat option" where
  "pc_op (Q_lookup i) = Some i" | "pc_op (Q_mark p) = Some (op_id p)" | "pc_op (Q_prepare p) = Some (op_id p)"
| "pc_op (Q_send p) = Some (op_id p)" | "pc_op (Q_poll p h k) = Some (op_id p)" | "pc_op (Q_complete p h) = Some (op_id p)"
| "pc_op (Q_event p) = Some (op_id p)" | "pc_op (Q_fail i) = Some i" | "pc_op _ = None"

text \<open>Identifiers are serial numbers of the table: a new one is not in use.\<close>

definition op_fresh :: "nat \<Rightarrow> bridge_sys \<Rightarrow> bool" where
  "op_fresh k s \<longleftrightarrow> k \<notin> op_id ` set (bd_operations (by_db s)) \<union> fst ` set (by_sent s) \<and> (\<forall>t \<in> set (by_tasks s). pc_op (tk_pc t) \<noteq> Some k)"

definition put_packet :: "nat \<Rightarrow> 'a option \<Rightarrow> 'a list \<Rightarrow> 'a list" where
  "put_packet k pc ps = (case pc of Some p \<Rightarrow> ps[k := p] | None \<Rightarrow> drop_task k ps)"

text \<open>\<open>serial\<close> restricts the runs to those in which a pass starts only when no other is under way.\<close>

inductive bridge_step :: "bridge_crypto \<Rightarrow> bool \<Rightarrow> bridge_sys \<Rightarrow> bridge_sys \<Rightarrow> bool" for cr serial where
  Arrive: "packet_entry pc \<Longrightarrow> bridge_step cr serial s (s\<lparr>by_packets := by_packets s @ [pc]\<rparr>)"
| Packet: "k < length (by_packets s) \<Longrightarrow> \<forall>e \<in> set (bd_events (by_db s)). bv_id e \<noteq> new_id \<Longrightarrow> op_fresh op_new s \<Longrightarrow>
    process_packet cr configured fails new_id op_new now (by_packets s ! k) (by_db s) = (pc, db) \<Longrightarrow>
    bridge_step cr serial s (s\<lparr>by_db := db, by_packets := put_packet k pc (by_packets s)\<rparr>)"
| Tick: "by_timer s \<Longrightarrow> (serial \<longrightarrow> by_tasks s = []) \<Longrightarrow>
    bridge_step cr serial s (s\<lparr>by_tasks := by_tasks s @ [\<lparr>tk_pc = Q_count, tk_nested = False\<rparr>]\<rparr>)"
| Start: "(serial \<longrightarrow> by_tasks s = []) \<Longrightarrow> bridge_step cr serial s (queue_start s)"
| Stop: "bridge_step cr serial s (queue_stop s)"
| Resume: "k < length (by_tasks s) \<Longrightarrow> bridge_step cr serial s (sys_resume k now a s)"
| Maintain: "db \<in> {snd (retryFailedOperations (by_db s)), snd (cleanupOldOperations cutoff (by_db s))} \<Longrightarrow> bridge_step cr serial s (s\<lparr>by_db := db\<rparr>)"

definition bridge_init :: "bridge_sys \<Rightarrow> bool" where
  "bridge_init s \<longleftrightarrow> weights_ok (by_db s) \<and> bd_events (by_db s) = [] \<and> bd_signatures (by_db s) = [] \<and> bd_operations (by_db s) = []
     \<and> by_packets s = [] \<and> by_tasks s = [] \<and> by_sent s = []"

section \<open>Only events with a quorum are submitted\<close>

definition event_quorum :: "bridge_crypto \<Rightarrow> bridge_db \<Rightarrow> int \<Rightarrow> bool" where
  "event_quorum cr db i \<longleftrightarrow> (\<exists>e. find_event i db = Some e \<and> has_quorum cr db e)"

definition same_event :: "bridge_event \<Rightarrow> bridge_event \<Rightarrow> bool" where
  "same_event e e' \<longleftrightarrow> e' = e\<lparr>bv_status := bv_status e'\<rparr>"

text \<open>Validators stay, events keep what was signed, signatures are added.\<close>

definition grows :: "bridge_db \<Rightarrow> bridge_db \<Rightarrow> bool" where
  "grows db db' \<longleftrightarrow> bd_chains db' = bd_chains db \<and> bd_validators db' = bd_validators db
     \<and> (\<exists>extra. bd_signatures db' = bd_signatures db @ extra)
     \<and> (\<forall>i e. find_event i db = Some e \<longrightarrow> (\<exists>e'. find_event i db' = Some e' \<and> same_event e e'))"

lemma same_event_parts:
  assumes "same_event e e'"
  shows "bv_id e' = bv_id e" "bv_chain e' = bv_chain e" "bridge_message e' = bridge_message e"
proof -
  have e: "e' = e\<lparr>bv_status := bv_status e'\<rparr>" using assms by (simp add: same_event_def)
  show "bv_id e' = bv_id e" "bv_chain e' = bv_chain e" by (subst e, simp)+
  show "bridge_message e' = bridge_message e" by (subst e) (simp add: bridge_message_def)
qed

lemma same_event_trans: "same_event a b \<Longrightarrow> same_event b c \<Longrightarrow> same_event a c"
  by (cases a; cases b; cases c) (simp add: same_event_def)

lemma same_event_refl: "same_event a a"
  by (simp add: same_event_def)

lemma grows_refl [simp]: "grows db db"
  by (simp add: grows_def same_event_refl)

lemma grows_trans: "grows a b \<Longrightarrow> grows b c \<Longrightarrow> grows a c"
  unfolding grows_def using same_event_trans by fastforce

lemma find_in_set: "List.find P xs = Some x \<Longrightarrow> x \<in> set xs \<and> P x"
  by (induction xs) (auto split: if_splits)

lemma signed_weight_nonneg: "weights_ok db \<Longrightarrow> 0 \<le> signed_weight cr ty e db s"
  by (auto simp: signed_weight_def weights_ok_def find_validator_def dest!: find_in_set split: option.split)

lemma grows_quorum:
  assumes g: "grows db db'" and w: "weights_ok db" and q: "event_quorum cr db i"
  shows "event_quorum cr db' i"
proof -
  obtain e where e: "find_event i db = Some e" "has_quorum cr db e" using q by (auto simp: event_quorum_def)
  obtain e' where e': "find_event i db' = Some e'" "same_event e e'" using g e(1) by (auto simp: grows_def)
  obtain extra where x: "bd_signatures db' = bd_signatures db @ extra" "bd_chains db' = bd_chains db" "bd_validators db' = bd_validators db"
    using g by (auto simp: grows_def)
  note p = same_event_parts [OF e'(2)]
  have same: "signed_weight cr ty e' db' s = signed_weight cr ty e db s" for ty s
    unfolding signed_weight_def find_validator_def x(3) verifyValidatorSignature_def p(3) ..
  have "0 \<le> (\<Sum>s\<leftarrow>filter (\<lambda>s. bs_event s = k) extra. signed_weight cr ty e db s)" for k ty
    using signed_weight_nonneg [OF w] by (intro sum_list_nonneg) auto
  then have le: "(\<Sum>s\<leftarrow>event_signatures (bv_id e) db. signed_weight cr ty e db s) \<le> (\<Sum>s\<leftarrow>event_signatures (bv_id e') db'. signed_weight cr ty e' db' s)" for ty
    by (simp add: event_signatures_def x(1) p(1) same)
  have "has_quorum cr db' e'"
  proof -
    obtain c where c: "find_chain (bv_chain e) db = Some c" "active_validators c db \<noteq> []"
        "3 * (\<Sum>s\<leftarrow>event_signatures (bv_id e) db. signed_weight cr (ch_type c) e db s) \<ge> 2 * (\<Sum>v\<leftarrow>active_validators c db. va_weight v)"
      using e(2) by (auto simp: has_quorum_def)
    have "find_chain (bv_chain e') db' = Some c" "active_validators c db' = active_validators c db"
      using c(1) by (simp_all add: find_chain_def active_validators_def x p(2))
    then show ?thesis using c le [of "ch_type c"] unfolding has_quorum_def by (intro exI [of _ c]) simp
  qed
  then show ?thesis using e'(1) by (auto simp: event_quorum_def)
qed

lemma grows_set_event_status: "grows db (set_event_status i st db)"
proof -
  have m: "List.find (\<lambda>e. bv_id e = k) (map (\<lambda>e. if bv_id e = i then e\<lparr>bv_status := st\<rparr> else e) es)
      = map_option (\<lambda>e. if bv_id e = i then e\<lparr>bv_status := st\<rparr> else e) (List.find (\<lambda>e. bv_id e = k) es)" for k es
    by (induction es) auto
  show ?thesis by (simp add: grows_def find_event_def set_event_status_def same_event_def m)
qed

lemma find_append: "List.find P (xs @ ys) = (case List.find P xs of Some x \<Rightarrow> Some x | None \<Rightarrow> List.find P ys)"
  by (induction xs) auto

lemma grows_create_event: "grows db (create_event new_id e db)"
  by (auto simp: grows_def create_event_def find_event_def find_append same_event_refl)

lemma grows_operations: "bd_chains db' = bd_chains db \<Longrightarrow> bd_validators db' = bd_validators db \<Longrightarrow> bd_signatures db' = bd_signatures db
    \<Longrightarrow> bd_events db' = bd_events db \<Longrightarrow> grows db db'"
  by (auto simp: grows_def find_event_def same_event_refl)

lemma grows_verify: "grows db (snd (verifyBridgeEventSignatures cr fails i db))"
  using verify_frames [of cr fails i db] grows_set_event_status [of db i] by (auto simp del: split_paired_All)

lemma grows_store_signature: "grows db (store_signature i v signature db)"
  by (simp add: grows_def store_signature_def find_event_def same_event_refl)

lemma grows_enqueue: "grows db (enqueue_operation op_new now i staged priority db)"
  by (cases staged) (rule grows_operations; simp add: enqueue_operation_def)

lemma grows_process_packet:
  assumes "process_packet cr configured fails new_id op_new now pc db = (pc', db')"
  shows "grows db db'"
  using assms grows_create_event [of db new_id] grows_set_event_status grows_enqueue grows_store_signature
  by (cases pc) (auto simp: process_packet_def split: if_splits)

lemma grows_weights: "grows db db' \<Longrightarrow> weights_ok db \<Longrightarrow> weights_ok db'"
  by (simp add: grows_def weights_ok_def)

text \<open>The database invariant: every operation belongs to an event with a quorum.\<close>

definition ops_backed :: "bridge_crypto \<Rightarrow> bridge_db \<Rightarrow> bool" where
  "ops_backed cr db \<longleftrightarrow> weights_ok db \<and> (\<forall>q \<in> set (bd_operations db). event_quorum cr db (op_event q))"

lemma ops_backed_grows:
  assumes "ops_backed cr db" "grows db db'" "\<forall>q' \<in> set (bd_operations db'). op_event q' \<in> op_event ` set (bd_operations db) \<or> event_quorum cr db' (op_event q')"
  shows "ops_backed cr db'"
proof -
  have w: "weights_ok db" and q: "\<And>q. q \<in> set (bd_operations db) \<Longrightarrow> event_quorum cr db (op_event q)"
    using assms(1) by (simp_all add: ops_backed_def)
  have "event_quorum cr db' (op_event q')" if "q' \<in> set (bd_operations db')" for q'
    using assms(3) that grows_quorum [OF assms(2) w q] by auto
  then show ?thesis using grows_weights [OF assms(2) w] by (simp add: ops_backed_def)
qed

text \<open>The event that a suspended packet has found verified.\<close>

fun packet_event :: "packet_pc \<Rightarrow> int option" where
  "packet_event (P_mark i e) = Some i"
| "packet_event (P_stage i e) = Some i"
| "packet_event (P_enqueue i staged) = Some i"
| "packet_event _ = None"

lemma verified_event_quorum:
  assumes "weights_ok db" "fst (verifyBridgeEventSignatures cr fails i db)"
  shows "event_quorum cr db i"
proof -
  obtain db2 where "verifyBridgeEventSignatures cr fails i db = (True, db2)" using assms(2) by (metis (full_types) prod.collapse)
  from verified_has_quorum [OF assms(1) this] show ?thesis unfolding event_quorum_def by blast
qed

lemma process_packet_event:
  assumes "process_packet cr configured fails new_id op_new now pc db = (Some pc', db')" "weights_ok db" "packet_event pc' = Some i"
  shows "packet_event pc = Some i \<or> event_quorum cr db i"
  using assms verified_event_quorum [OF assms(2), of cr fails]
  by (cases pc) (auto simp: process_packet_def persistCollateralLockedEvent_def split: if_splits option.splits sum.splits)

lemma process_packet_ops:
  assumes "process_packet cr configured fails new_id op_new now pc db = (pc', db')"
  shows "bd_operations db' = bd_operations db
    \<or> (\<exists>q i. packet_event pc = Some i \<and> bd_operations db' = bd_operations db @ [q] \<and> op_event q = i
          \<and> op_id q = op_new \<and> op_status q = ''QUEUED'' \<and> op_retryCount q = 0)"
  using assms
  by (cases pc) (auto simp: process_packet_def create_event_def store_signature_def enqueue_operation_def split: if_splits prod.splits)

lemma process_packet_backed:
  assumes b: "ops_backed cr db" and p: "process_packet cr configured fails new_id op_new now pc db = (pc', db')"
    and q: "\<And>i. packet_event pc = Some i \<Longrightarrow> event_quorum cr db i"
  shows "ops_backed cr db'"
proof (rule ops_backed_grows [OF b grows_process_packet [OF p]])
  have "event_quorum cr db' i" if "packet_event pc = Some i" for i
    using grows_quorum [OF grows_process_packet [OF p] _ q [OF that]] b by (simp add: ops_backed_def)
  then show "\<forall>q' \<in> set (bd_operations db'). op_event q' \<in> op_event ` set (bd_operations db) \<or> event_quorum cr db' (op_event q')"
    using process_packet_ops [OF p] by auto
qed

lemma process_packet_signatures:
  assumes "process_packet cr configured fails new_id op_new now pc db = (pc', db')" "signatures_ok db"
  shows "signatures_ok db'"
proof (cases pc)
  case (S_store i v sg)
  show ?thesis
  proof (cases "fails \<or> has_signed i v db")
    case False
    then have "bd_signatures db' = bd_signatures db @ [\<lparr>bs_event = i, bs_validator = va_id v, bs_signature = sg\<rparr>]"
      using assms(1) S_store by (auto simp: process_packet_def store_signature_def)
    then show ?thesis using assms(2) False by (fastforce simp: signatures_ok_def has_signed_def)
  qed (use assms S_store in \<open>simp add: process_packet_def\<close>)
qed (use assms in \<open>auto simp: process_packet_def signatures_ok_def create_event_def enqueue_operation_def split: if_splits prod.splits\<close>)

lemma pass_resume_grows:
  assumes "pass_resume now a pc db = (nx, db')"
  shows "grows db db'" and "op_event ` set (bd_operations db') \<subseteq> op_event ` set (bd_operations db)"
proof -
  have g: "grows db (update_op i f db)" for i f by (rule grows_operations) (simp_all add: update_op_def)
  show "grows db db'" using assms g grows_set_event_status by (cases pc) (auto simp: pass_resume_def split: if_splits)
  show "op_event ` set (bd_operations db') \<subseteq> op_event ` set (bd_operations db)"
    using assms by (cases pc) (auto simp: pass_resume_def update_op_def split: if_splits)
qed

text \<open>The operation a pass is working on.\<close>

fun pc_event :: "queue_pc \<Rightarrow> int option" where
  "pc_event (Q_mark p) = Some (op_event p)"
| "pc_event (Q_prepare p) = Some (op_event p)"
| "pc_event (Q_send p) = Some (op_event p)"
| "pc_event (Q_poll p h k) = Some (op_event p)"
| "pc_event (Q_complete p h) = Some (op_event p)"
| "pc_event (Q_event p) = Some (op_event p)"
| "pc_event _ = None"

lemma pass_resume_event:
  assumes "pass_resume now a pc db = (Goes pc', db')" "pc_event pc' = Some ev"
  shows "pc_event pc = Some ev \<or> ev \<in> op_event ` set (bd_operations db)"
  using assms
  by (cases pc) (auto simp: pass_resume_def find_op_def dest!: find_in_set split: queue_answer.splits if_splits option.splits)

definition sys_backed :: "bridge_crypto \<Rightarrow> bridge_sys \<Rightarrow> bool" where
  [inv_defs]: "sys_backed cr s \<longleftrightarrow> ops_backed cr (by_db s)
     \<and> signatures_ok (by_db s)
     \<and> (\<forall>p \<in> set (by_packets s). \<forall>i. packet_event p = Some i \<longrightarrow> event_quorum cr (by_db s) i)
     \<and> (\<forall>t \<in> set (by_tasks s). \<forall>ev. pc_event (tk_pc t) = Some ev \<longrightarrow> event_quorum cr (by_db s) ev)
     \<and> (\<forall>(i, ev) \<in> set (by_sent s). event_quorum cr (by_db s) ev)"

lemma sys_backed_grows:
  assumes "sys_backed cr s" "grows (by_db s) db" "ops_backed cr db" "signatures_ok db"
  shows "sys_backed cr (s\<lparr>by_db := db\<rparr>)"
proof -
  have "event_quorum cr db ev" if "event_quorum cr (by_db s) ev" for ev
    using grows_quorum [OF assms(2) _ that] assms(1) by (simp add: sys_backed_def ops_backed_def)
  then show ?thesis using assms(1,3,4) unfolding sys_backed_def by auto
qed

lemma drop_task_set: "set (drop_task k xs) \<subseteq> set xs"
  using set_take_subset [of k xs] set_drop_subset [of "k + 1" xs] by (auto simp: drop_task_def)

lemma sys_backed_tasks:
  assumes "sys_backed cr s" "set ts \<subseteq> set (by_tasks s) \<union> {t. \<forall>ev. pc_event (tk_pc t) = Some ev \<longrightarrow> event_quorum cr (by_db s) ev}"
    and "by_db s' = by_db s" "by_tasks s' = ts" "by_packets s' = by_packets s"
    and "\<And>i ev. (i, ev) \<in> set (by_sent s') \<Longrightarrow> (i, ev) \<in> set (by_sent s) \<or> event_quorum cr (by_db s) ev"
  shows "sys_backed cr s'"
  using assms unfolding sys_backed_def by fastforce

lemma signatures_distinct:
  assumes "signatures_ok db"
  shows "distinct (map bs_validator (event_signatures i db))"
proof -
  have "distinct (map (\<lambda>s. (bs_event s, bs_validator s)) (event_signatures i db))"
    using assms unfolding signatures_ok_def event_signatures_def by (rule distinct_map_filter)
  moreover have "map (\<lambda>s. (bs_event s, bs_validator s)) (event_signatures i db) = map (Pair i) (map bs_validator (event_signatures i db))"
    by (auto simp: event_signatures_def)
  ultimately have "distinct (map (Pair i) (map bs_validator (event_signatures i db)))" by simp
  then show ?thesis unfolding distinct_map [of "Pair i"] by blast
qed

lemma put_packet_set: "set (put_packet k pc ps) \<subseteq> set ps \<union> set_option pc"
  using set_update_subset_insert [of ps k] drop_task_set [of k ps] by (auto simp: put_packet_def split: option.splits)

lemma packet_backed:
  assumes b: "sys_backed cr s" and k: "k < length (by_packets s)"
    and p: "process_packet cr configured fails new_id op_new now (by_packets s ! k) (by_db s) = (pc, db)"
  shows "sys_backed cr (s\<lparr>by_db := db, by_packets := put_packet k pc (by_packets s)\<rparr>)"
proof -
  let ?pc = "by_packets s ! k"
  have ob: "ops_backed cr (by_db s)" "signatures_ok (by_db s)" and w: "weights_ok (by_db s)"
    using b by (simp_all add: sys_backed_def ops_backed_def)
  have q: "event_quorum cr (by_db s) i" if "packet_event ?pc = Some i" for i
    using b k that nth_mem [OF k] unfolding sys_backed_def by blast
  have b1: "sys_backed cr (s\<lparr>by_db := db\<rparr>)"
    by (rule sys_backed_grows [OF b grows_process_packet [OF p] process_packet_backed [OF ob(1) p q] process_packet_signatures [OF p ob(2)]])
  have new: "event_quorum cr db i" if "pc = Some pc'" "packet_event pc' = Some i" for pc' i
    using process_packet_event [of cr configured fails new_id op_new now ?pc "by_db s" pc' db i] p that w q
      grows_quorum [OF grows_process_packet [OF p] w] by blast
  have "event_quorum cr db i" if "x \<in> set (put_packet k pc (by_packets s))" "packet_event x = Some i" for x i
  proof -
    have "x \<in> set (by_packets s) \<or> pc = Some x" using that(1) put_packet_set [of k pc "by_packets s"] by auto
    then show ?thesis using new that(2) b1 by (auto simp: sys_backed_def)
  qed
  then show ?thesis using b1 by (simp add: sys_backed_def)
qed

lemma sys_resume_backed:
  assumes b: "sys_backed cr s" and k: "k < length (by_tasks s)"
  shows "sys_backed cr (sys_resume k now a s)"
proof -
  let ?t = "by_tasks s ! k"
  obtain nx db1 where p: "pass_resume now a (tk_pc ?t) (by_db s) = (nx, db1)" by fastforce
  note g = pass_resume_grows [OF p]
  have ob: "ops_backed cr db1" using b g by (intro ops_backed_grows [of cr "by_db s" db1]) (auto simp: sys_backed_def)
  have sg: "bd_signatures db1 = bd_signatures (by_db s)"
    using p by (cases "tk_pc ?t") (auto simp: pass_resume_def update_op_def split: if_splits)
  have b1: "sys_backed cr (s\<lparr>by_db := db1\<rparr>)" using sys_backed_grows [OF b g(1) ob] b sg by (simp add: sys_backed_def signatures_ok_def)
  have t: "?t \<in> set (by_tasks s)" using k by simp
  have ev: "event_quorum cr db1 ev" if "nx = Goes pc'" "pc_event pc' = Some ev" for pc' ev
  proof -
    have "event_quorum cr (by_db s) ev"
      using pass_resume_event p that b t by (fastforce simp: sys_backed_def ops_backed_def)
    then show ?thesis using grows_quorum [OF g(1)] b by (auto simp: sys_backed_def ops_backed_def)
  qed
  let ?s' = "sys_resume k now a s"
  have db: "by_db ?s' = db1" "by_packets ?s' = by_packets s"
    by (simp_all add: sys_resume_def Let_def p split: pass_next.split prod.split bool.split)
  have ts: "set (by_tasks ?s') \<subseteq> set (by_tasks s) \<union> {t. \<forall>ev. pc_event (tk_pc t) = Some ev \<longrightarrow> event_quorum cr db1 ev}"
  proof (cases nx)
    case (Goes pc)
    then show ?thesis using set_update_subset_insert [of "by_tasks s" k "?t\<lparr>tk_pc := pc\<rparr>"] ev by (auto simp: sys_resume_def Let_def p)
  next
    case Throws
    then show ?thesis using drop_task_set [of k "by_tasks s"] set_update_subset_insert [of "by_tasks s" k "\<lparr>tk_pc = Q_count, tk_nested = True\<rparr>"]
      by (auto simp: sys_resume_def Let_def p split: prod.split bool.split)
  qed (use drop_task_set [of k "by_tasks s"] in \<open>auto simp: sys_resume_def Let_def p\<close>)
  have sent: "(i, e) \<in> set (by_sent s) \<or> event_quorum cr db1 e" if "(i, e) \<in> set (by_sent ?s')" for i e
    using that ev by (auto simp: sys_resume_def Let_def p split: pass_next.splits prod.splits bool.splits queue_pc.splits)
  show ?thesis by (rule sys_backed_tasks [OF b1]) (use db ts sent in simp_all)
qed

lemma bridge_step_backed: "bridge_step cr serial s s' \<Longrightarrow> sys_backed cr s \<Longrightarrow> sys_backed cr s'"
proof (induction rule: bridge_step.induct)
  case (Packet k s new_id op_new configured fails now pc db)
  then show ?case using packet_backed by blast
next
  case (Resume k s now a)
  then show ?case using sys_resume_backed by blast
next
  case (Maintain db s cutoff)
  have g: "grows (by_db s) db" using Maintain(1) by (intro grows_operations) (auto simp: requeue_failed_def retryFailedOperations_def delete_completed_def cleanupOldOperations_def)
  have "op_event ` set (bd_operations db) \<subseteq> op_event ` set (bd_operations (by_db s))"
    using Maintain(1) by (auto simp: requeue_failed_def retryFailedOperations_def delete_completed_def cleanupOldOperations_def)
  then have "ops_backed cr db" using Maintain(2) by (intro ops_backed_grows [OF _ g]) (auto simp: sys_backed_def)
  moreover have "signatures_ok db" using Maintain
    by (auto simp: sys_backed_def signatures_ok_def requeue_failed_def retryFailedOperations_def delete_completed_def cleanupOldOperations_def)
  ultimately show ?case using sys_backed_grows g Maintain(2) by blast
next
  case (Arrive pc s)
  then show ?case by (cases pc) (auto simp: sys_backed_def)
qed (auto simp: sys_backed_def queue_start_def queue_stop_def)

lemma bridge_reach_backed:
  assumes "bridge_init s0" "(bridge_step cr serial)\<^sup>*\<^sup>* s0 s"
  shows "sys_backed cr s"
  using assms(2)
proof (induction rule: rtranclp_induct)
  case base
  then show ?case using assms(1) by (simp add: bridge_init_def sys_backed_def ops_backed_def signatures_ok_def)
qed (rule bridge_step_backed)

text \<open>
  C15. In every interleaving of packets, validators' requests and queue passes, each cut at its awaits
  and overlapping or not, whatever call fails: a mint transaction is submitted only for a recorded event
  with stored signatures of different validators, of which the valid ones weigh at least two thirds of
  the active validators of its chain.
\<close>
theorem mint_needs_quorum:
  assumes "bridge_init s0" "(bridge_step cr serial)\<^sup>*\<^sup>* s0 s" "(i, ev) \<in> set (by_sent s)"
  shows "\<exists>e c. find_event ev (by_db s) = Some e \<and> find_chain (bv_chain e) (by_db s) = Some c
    \<and> distinct (map bs_validator (event_signatures ev (by_db s))) \<and> active_validators c (by_db s) \<noteq> []
    \<and> 3 * (\<Sum>sg\<leftarrow>event_signatures ev (by_db s). signed_weight cr (ch_type c) e (by_db s) sg)
       \<ge> 2 * (\<Sum>v\<leftarrow>active_validators c (by_db s). va_weight v)"
proof -
  have b: "sys_backed cr s" using bridge_reach_backed [OF assms(1,2)] .
  then have "event_quorum cr (by_db s) ev" using assms(3) by (auto simp: sys_backed_def)
  then obtain e where e: "find_event ev (by_db s) = Some e" "has_quorum cr (by_db s) e" by (auto simp: event_quorum_def)
  moreover have "bv_id e = ev" using find_in_set [OF e(1) [unfolded find_event_def]] by simp
  moreover have "distinct (map bs_validator (event_signatures ev (by_db s)))"
    using b signatures_distinct by (simp add: sys_backed_def)
  ultimately show ?thesis by (auto simp: has_quorum_def)
qed

section \<open>Runs of packets and requests\<close>

datatype bridge_move = Enter packet_pc | On nat bool int nat

definition move_ok :: "int \<Rightarrow> nat \<Rightarrow> nat \<Rightarrow> bridge_sys \<Rightarrow> bool" where
  "move_ok new_id op_new k s \<longleftrightarrow> k < length (by_packets s) \<and> (\<forall>e \<in> set (bd_events (by_db s)). bv_id e \<noteq> new_id) \<and> op_fresh op_new s"

fun play_packets :: "bridge_crypto \<Rightarrow> string \<Rightarrow> bridge_move list \<Rightarrow> bridge_sys \<Rightarrow> bridge_sys" where
  "play_packets cr configured [] s = s"
| "play_packets cr configured (Enter pc # ms) s =
     play_packets cr configured ms (if packet_entry pc then s\<lparr>by_packets := by_packets s @ [pc]\<rparr> else s)"
| "play_packets cr configured (On k fails new_id op_new # ms) s =
     play_packets cr configured ms (if move_ok new_id op_new k s then
       (case process_packet cr configured fails new_id op_new 0 (by_packets s ! k) (by_db s) of
          (pc, db) \<Rightarrow> s\<lparr>by_db := db, by_packets := put_packet k pc (by_packets s)\<rparr>) else s)"

lemma play_packets_reach: "(bridge_step cr serial)\<^sup>*\<^sup>* s (play_packets cr configured ms s)"
proof (induction cr configured ms s rule: play_packets.induct)
  case (2 cr configured pc ms s)
  have "(bridge_step cr serial)\<^sup>*\<^sup>* s (if packet_entry pc then s\<lparr>by_packets := by_packets s @ [pc]\<rparr> else s)"
    using bridge_step.Arrive [of pc cr serial s] by auto
  then show ?case unfolding play_packets.simps by (rule rtranclp_trans [OF _ 2])
next
  case (3 cr configured k fails new_id op_new ms s)
  obtain pc db where p: "process_packet cr configured fails new_id op_new 0 (by_packets s ! k) (by_db s) = (pc, db)" by fastforce
  have "(bridge_step cr serial)\<^sup>*\<^sup>* s (if move_ok new_id op_new k s then s\<lparr>by_db := db, by_packets := put_packet k pc (by_packets s)\<rparr> else s)"
    using bridge_step.Packet [OF _ _ _ p, of serial] by (auto simp: move_ok_def)
  then show ?case unfolding play_packets.simps p prod.case by (rule rtranclp_trans [OF _ 3 [unfolded p prod.case]])
qed simp

definition sample_crypto :: bridge_crypto where
  "sample_crypto = \<lparr>cr_verifyMessage = (\<lambda>m s. Some s), cr_ed25519 = (\<lambda>k m s. Some True)\<rparr>"

definition sample_event :: bridge_event where
  "sample_event = \<lparr>bv_id = 0, bv_chain = 1, bv_eventType = ''TOKEN_BURN'', bv_transactionHash = ''h1'', bv_tokenAmount = ''5'', bv_fromAddress = ''a'',
     bv_destinationChainId = Some ''C'', bv_destinationAddress = Some ''G'', bv_status = ''PENDING''\<rparr>"

definition sample_bridge :: bridge_sys where
  "sample_bridge = \<lparr>by_db = \<lparr>bd_chains = [\<lparr>ch_id = 1, ch_chainId = ''1'', ch_type = ''EVM'', ch_active = True\<rparr>],
       bd_validators = [\<lparr>va_id = 9, va_chainId = ''1'', va_address = ''0xa'', va_active = True, va_weight = 1\<rparr>],
       bd_events = [], bd_signatures = [], bd_operations = []\<rparr>, by_packets = [],
     by_tasks = [], by_monitor = \<lparr>mo_failures = 0, mo_alertActive = False\<rparr>, by_isProcessing = False, by_timer = False, by_sent = []\<rparr>"

text \<open>
  The only validator signs while the burn is being recorded, before the packet is verified: the mint is
  queued, and a pass submits it.
\<close>

definition signed_in_time :: bridge_sys where
  "signed_in_time = play_packets sample_crypto ''C''
     ([Enter (P_create sample_event), On 0 False 1 1, Enter (S_check 1 ''0xa'' ''0xA''), On 1 False 2 1, On 1 False 2 1]
      @ replicate 6 (On 0 False 2 1)) sample_bridge"

text \<open>The passes go on in turn.\<close>

fun drive :: "(nat \<times> queue_answer) list \<Rightarrow> bridge_sys \<Rightarrow> bridge_sys" where
  "drive [] s = s"
| "drive ((k, a) # as) s = drive as (if k < length (by_tasks s) then sys_resume k 0 a s else s)"

lemma drive_reach: "(bridge_step cr serial)\<^sup>*\<^sup>* s (drive as s)"
proof (induction as s rule: drive.induct)
  case (2 k a as s)
  have "(bridge_step cr serial)\<^sup>*\<^sup>* s (if k < length (by_tasks s) then sys_resume k 0 a s else s)" using Resume by auto
  then show ?case using 2 by (simp del: if_split) 
qed simp

definition minted :: bridge_sys where
  "minted = drive (replicate 5 (0, A_ok)) (queue_start signed_in_time)"

lemma minted_reach: "(bridge_step sample_crypto False)\<^sup>*\<^sup>* sample_bridge minted"
proof -
  have "bridge_step sample_crypto False signed_in_time (queue_start signed_in_time)" by (rule Start) simp
  moreover have "(bridge_step sample_crypto False)\<^sup>*\<^sup>* (queue_start signed_in_time) minted"
    unfolding minted_def by (rule drive_reach)
  moreover have "(bridge_step sample_crypto False)\<^sup>*\<^sup>* sample_bridge signed_in_time"
    unfolding signed_in_time_def by (rule play_packets_reach)
  ultimately show ?thesis by (meson rtranclp.rtrancl_into_rtrancl rtranclp_trans)
qed

theorem mint_needs_quorum_witness:
  "by_sent minted = [(1, 1)] \<and> (\<exists>e c. find_event 1 (by_db minted) = Some e \<and> find_chain (bv_chain e) (by_db minted) = Some c
     \<and> 3 * (\<Sum>sg\<leftarrow>event_signatures 1 (by_db minted). signed_weight sample_crypto (ch_type c) e (by_db minted) sg)
        \<ge> 2 * (\<Sum>v\<leftarrow>active_validators c (by_db minted). va_weight v))"
proof -
  have init: "bridge_init sample_bridge" by (simp add: bridge_init_def weights_ok_def sample_bridge_def)
  have sent: "by_sent minted = [(1, 1)]" by code_simp
  then have "(1, 1) \<in> set (by_sent minted)" by simp
  from mint_needs_quorum [OF init minted_reach this] sent show ?thesis by blast
qed

text \<open>
  A validator who signs after the packet was verified makes the event verified, but only the packet
  stages events: nothing is queued, and nothing is left to do it.
\<close>

lemma late_signature_queues_nothing:
  "let s = play_packets sample_crypto ''C''
     [Enter (P_create sample_event), On 0 False 1 1, On 0 False 2 1, On 0 False 2 1,
      Enter (S_check 1 ''0xa'' ''0xA''), On 0 False 2 1, On 0 False 2 1, On 0 False 2 1, On 0 False 2 1] sample_bridge
   in map bv_status (bd_events (by_db s)) = [''VERIFIED''] \<and> by_packets s = [] \<and> bd_operations (by_db s) = []"
  by code_simp

lemma requests_queue_nothing:
  assumes "process_packet cr configured fails new_id op_new now pc db = (pc', db')"
    and "pc \<in> {S_check i address signature, S_store i v signature, S_verify i, S_mark i}"
  shows "bd_operations db' = bd_operations db"
  using assms by (auto simp: process_packet_def store_signature_def split: if_splits)

text \<open>A request that nothing interrupts does what \<open>addValidatorSignature\<close> does as a whole.\<close>

definition sign_request :: "bridge_crypto \<Rightarrow> int \<Rightarrow> string \<Rightarrow> string \<Rightarrow> bridge_db \<Rightarrow> bridge_db" where
  "sign_request cr i address signature db =
     (let next = (\<lambda>(pc, d). case pc of None \<Rightarrow> (None, d) | Some p \<Rightarrow> process_packet cr [] False 0 0 0 p d) in
      snd (next (next (next (next (Some (S_check i address signature), db))))))"

lemma verify_split:
  "snd (verifyBridgeEventSignatures cr fails i db) = (if fst (verifyBridgeEventSignatures cr fails i db) then set_event_status i ''VERIFIED'' db else db)"
  by (auto simp: verifyBridgeEventSignatures_def Let_def split: option.splits)

lemma sign_check_whole:
  "snd (addValidatorSignature cr fails summary i address signature db) =
     (case sign_check cr i address signature db of
        Inl _ \<Rightarrow> db
      | Inr v \<Rightarrow> snd (verifyBridgeEventSignatures cr fails i (store_signature i v signature db)))"
  by (simp add: addValidatorSignature_def sign_check_def store_signature_def Let_def case_prod_beta split: option.split) blast

lemma sign_check_fresh: "sign_check cr i address signature db = Inr v \<Longrightarrow> \<not> has_signed i v db"
  by (auto simp: sign_check_def has_signed_def split: option.splits if_splits)

lemma sign_request_whole:
  "sign_request cr i address signature db = snd (addValidatorSignature cr False summary i address signature db)"
proof (cases "sign_check cr i address signature db")
  case (Inr v)
  then show ?thesis using sign_check_fresh [OF Inr]
    by (simp add: sign_request_def sign_check_whole process_packet_def verify_split Let_def)
qed (simp add: sign_request_def sign_check_whole process_packet_def Let_def)

end
