(* ===== verification/BridgeSerial.thy ===== *)
theory BridgeSerial
  imports BridgeQueue
begin

text \<open>
  The bound on the submissions of one bridge operation.  A failing pass and the retry of failed
  operations both count a retry, so that an operation is submitted at most twice when passes do not
  overlap; a run with two overlapping passes submits it twice without any failure.
\<close>

section \<open>Without overlapping passes an operation is submitted at most twice\<close>

definition row_bound :: "nat \<Rightarrow> bridge_operation \<Rightarrow> bool" where
  "row_bound n q \<longleftrightarrow> (if op_status q = ''QUEUED'' then 2 * n \<le> op_retryCount q \<and> op_retryCount q \<le> 3
     else if op_status q = ''FAILED'' then 2 * n \<le> op_retryCount q + 1 \<and> op_retryCount q \<le> 3
     else 2 * n \<le> op_retryCount q + 2 \<and> op_retryCount q \<le> 2)"

definition rows_are :: "bridge_db \<Rightarrow> nat \<Rightarrow> (bridge_operation \<Rightarrow> bool) \<Rightarrow> bool" where
  "rows_are db i P \<longleftrightarrow> (\<forall>q \<in> set (bd_operations db). op_id q = i \<longrightarrow> P q)"

abbreviation ready :: "bridge_operation \<Rightarrow> bool" where
  "ready q \<equiv> op_status q = ''QUEUED'' \<and> op_retryCount q < 3"

abbreviation busy :: "bridge_operation \<Rightarrow> bool" where
  "busy q \<equiv> op_status q \<notin> {''QUEUED'', ''FAILED''} \<and> op_retryCount q \<le> 2"

fun pc_bound :: "(nat \<Rightarrow> nat) \<Rightarrow> bridge_db \<Rightarrow> queue_pc \<Rightarrow> bool" where
  "pc_bound n db (Q_lookup i) \<longleftrightarrow> rows_are db i ready"
| "pc_bound n db (Q_mark p) \<longleftrightarrow> rows_are db (op_id p) ready"
| "pc_bound n db (Q_prepare p) \<longleftrightarrow> n (op_id p) \<le> 1 \<and> rows_are db (op_id p) (\<lambda>q. busy q \<and> 2 * n (op_id p) \<le> op_retryCount q)"
| "pc_bound n db (Q_send p) \<longleftrightarrow> rows_are db (op_id p) busy"
| "pc_bound n db (Q_poll p h k) \<longleftrightarrow> rows_are db (op_id p) busy"
| "pc_bound n db (Q_complete p h) \<longleftrightarrow> rows_are db (op_id p) busy"
| "pc_bound n db (Q_event p) \<longleftrightarrow> rows_are db (op_id p) busy"
| "pc_bound n db (Q_fail i) \<longleftrightarrow> rows_are db i (\<lambda>q. busy q \<or> ready q)"
| "pc_bound n db _ \<longleftrightarrow> True"

definition bounded_by :: "(nat \<Rightarrow> nat) \<Rightarrow> bridge_db \<Rightarrow> bool" where
  "bounded_by n db \<longleftrightarrow> (\<forall>i. n i \<le> 2) \<and> (\<forall>q \<in> set (bd_operations db). row_bound (n (op_id q)) q)"

definition after_pass :: "pass_next \<Rightarrow> (nat \<Rightarrow> nat) \<Rightarrow> nat \<Rightarrow> nat" where
  "after_pass nx n = (case nx of Goes (Q_send p) \<Rightarrow> n(op_id p := n (op_id p) + 1) | _ \<Rightarrow> n)"

lemma next_operation_ready:
  assumes "next_operation db = Some p"
  shows "p \<in> set (bd_operations db) \<and> ready p"
proof -
  have "p \<in> set (sort_key op_priority (sort_key op_queuedAt (filter (\<lambda>q. op_status q = ''QUEUED'' \<and> op_retryCount q < 3) (bd_operations db))))"
    using assms by (auto simp: next_operation_def split: list.splits simp del: set_sort) 
  then show ?thesis by simp
qed

lemma update_op_bounded:
  assumes "bounded_by n db" "\<And>q. q \<in> set (bd_operations db) \<Longrightarrow> op_id q = i \<Longrightarrow> op_id (f q) = i \<and> row_bound (n i) (f q)"
  shows "bounded_by n (update_op i f db)"
  using assms by (auto simp: bounded_by_def update_op_def)

lemma update_op_rows:
  assumes "\<And>q. op_id (f q) = op_id q" "\<And>q. q \<in> set (bd_operations db) \<Longrightarrow> op_id q = i \<Longrightarrow> P (f q)"
  shows "rows_are (update_op i f db) i P"
  using assms by (auto simp: rows_are_def update_op_def)

lemma rows_are_mono: "rows_are db i P \<Longrightarrow> (\<And>q. P q \<Longrightarrow> Q q) \<Longrightarrow> rows_are db i Q"
  by (auto simp: rows_are_def)

text \<open>Rows with the same identifier are the same row.\<close>

definition ids_distinct :: "bridge_db \<Rightarrow> bool" where
  "ids_distinct db \<longleftrightarrow> distinct (map op_id (bd_operations db))"

lemma find_op_row: "find_op i db = Some p \<Longrightarrow> op_id p = i \<and> p \<in> set (bd_operations db)"
  using find_in_set by (fastforce simp: find_op_def)

lemma pass_resume_bound:
  assumes p: "pass_resume now a pc db = (nx, db')" and b: "bounded_by n db" and pc: "pc_bound n db pc" and d: "ids_distinct db"
  shows "bounded_by (after_pass nx n) db' \<and> (\<forall>pc'. nx = Goes pc' \<longrightarrow> pc_bound (after_pass nx n) db' pc')"
proof (cases pc)
  case Q_find
  have "rows_are db (op_id q) ready" if "next_operation db = Some q" for q
    using next_operation_ready [OF that] d by (auto simp: rows_are_def ids_distinct_def distinct_map inj_on_def)
  then show ?thesis using p b Q_find by (auto simp: pass_resume_def after_pass_def split: if_splits option.splits)
next
  case (Q_lookup i)
  then show ?thesis using p b pc find_op_row rows_are_mono [of db i ready]
    by (auto simp: pass_resume_def after_pass_def split: if_splits option.splits)
next
  case (Q_mark q)
  let ?f = "\<lambda>r. r\<lparr>op_status := ''PROCESSING''\<rparr>"
  show ?thesis
  proof (cases "a = A_error \<or> \<not> op_known (op_id q) db")
    case True
    have "rows_are db (op_id q) (\<lambda>r. busy r \<or> ready r)" using pc Q_mark by (auto intro: rows_are_mono)
    with True show ?thesis using p b Q_mark by (auto simp: pass_resume_def after_pass_def)
  next
    case False
    obtain r where r: "r \<in> set (bd_operations db)" "op_id r = op_id q" using False find_op_row by (auto simp: op_known_def)
    have rb: "2 * n (op_id q) \<le> op_retryCount r' \<and> op_retryCount r' \<le> 2" if "r' \<in> set (bd_operations db)" "op_id r' = op_id q" for r'
      using that b pc Q_mark by (auto simp: bounded_by_def row_bound_def rows_are_def)
    have "row_bound (n (op_id q)) (?f r')" if "r' \<in> set (bd_operations db)" "op_id r' = op_id q" for r'
      using rb [OF that] by (simp add: row_bound_def)
    then have "bounded_by n (update_op (op_id q) ?f db)" by (intro update_op_bounded [OF b]) simp
    moreover have "rows_are (update_op (op_id q) ?f db) (op_id q) (\<lambda>r. busy r \<and> 2 * n (op_id q) \<le> op_retryCount r)"
      using rb by (intro update_op_rows) auto
    moreover have "n (op_id q) \<le> 1" using rb [OF r] by linarith
    ultimately show ?thesis using p False Q_mark by (auto simp: pass_resume_def after_pass_def)
  qed
next
  case (Q_prepare q)
  then have s: "n (op_id q) \<le> 1" "rows_are db (op_id q) (\<lambda>r. busy r \<and> 2 * n (op_id q) \<le> op_retryCount r)" using pc by auto
  have "bounded_by (n(op_id q := n (op_id q) + 1)) db" using b s by (auto simp: bounded_by_def row_bound_def rows_are_def)
  moreover have bz: "rows_are db (op_id q) busy" by (rule rows_are_mono [OF s(2)]) simp
  moreover have "rows_are db (op_id q) (\<lambda>r. busy r \<or> ready r)" by (rule rows_are_mono [OF bz]) simp
  ultimately show ?thesis using p b Q_prepare by (auto simp: pass_resume_def after_pass_def split: if_splits)
next
  case (Q_complete q h)
  let ?f = "\<lambda>r. r\<lparr>op_status := ''COMPLETED'', op_txHash := Some h, op_completedAt := Some now\<rparr>"
  have bz: "rows_are db (op_id q) busy" using pc Q_complete by simp
  have "bounded_by n (update_op (op_id q) ?f db)"
    using bz b by (intro update_op_bounded [OF b]) (auto simp: row_bound_def rows_are_def bounded_by_def)
  moreover have "rows_are (update_op (op_id q) ?f db) (op_id q) busy" using bz by (intro update_op_rows) (auto simp: rows_are_def)
  moreover have "rows_are db (op_id q) (\<lambda>r. busy r \<or> ready r)" by (rule rows_are_mono [OF bz]) simp
  ultimately show ?thesis using p b Q_complete by (auto simp: pass_resume_def after_pass_def split: if_splits)
next
  case (Q_fail i)
  let ?f = "\<lambda>r. r\<lparr>op_status := ''FAILED'', op_retryCount := op_retryCount r + 1\<rparr>"
  have "row_bound (n i) (?f q)" if "q \<in> set (bd_operations db)" "op_id q = i" for q
  proof -
    have "row_bound (n i) q" "busy q \<or> ready q" using that b pc Q_fail by (auto simp: bounded_by_def rows_are_def)
    then show ?thesis by (auto simp: row_bound_def)
  qed
  then have "bounded_by n (update_op i ?f db)" by (intro update_op_bounded [OF b]) simp
  then show ?thesis using p b Q_fail by (auto simp: pass_resume_def after_pass_def split: if_splits)
next
  case (Q_event q)
  then show ?thesis using p b pc rows_are_mono [of db "op_id q" busy]
    by (auto simp: pass_resume_def after_pass_def bounded_by_def split: if_splits)
qed (use p b pc rows_are_mono in \<open>auto simp: pass_resume_def after_pass_def split: queue_answer.splits if_splits\<close>)

definition sent_times :: "bridge_sys \<Rightarrow> nat \<Rightarrow> nat" where
  "sent_times s i = count_list (map fst (by_sent s)) i"

definition serial_inv :: "bridge_sys \<Rightarrow> bool" where
  [inv_defs]: "serial_inv s \<longleftrightarrow> length (by_tasks s) \<le> 1 \<and> bounded_by (sent_times s) (by_db s) \<and> ids_distinct (by_db s)
     \<and> (\<forall>t \<in> set (by_tasks s). pc_bound (sent_times s) (by_db s) (tk_pc t))"

text \<open>Steps that change the operations only by appending fresh ones.\<close>

definition appends_ops :: "bridge_db \<Rightarrow> nat \<Rightarrow> bridge_db \<Rightarrow> bool" where
  "appends_ops db k db' \<longleftrightarrow> bd_operations db' = bd_operations db
     \<or> (\<exists>q. bd_operations db' = bd_operations db @ [q] \<and> op_id q = k \<and> op_status q = ''QUEUED'' \<and> op_retryCount q = 0)"

lemma pc_bound_appends:
  assumes "appends_ops db k db'" "pc_bound n db pc" "pc_op pc \<noteq> Some k"
  shows "pc_bound n db' pc"
proof -
  have "rows_are db' i P" if "rows_are db i P" "i \<noteq> k" for i P using assms(1) that by (auto simp: appends_ops_def rows_are_def)
  then show ?thesis using assms(2,3) by (cases pc) auto
qed

lemma serial_appends:
  assumes inv: "serial_inv s" and a: "appends_ops (by_db s) k db" and k: "op_fresh k s"
  shows "serial_inv (s\<lparr>by_db := db\<rparr>)"
proof -
  let ?s = "s\<lparr>by_db := db\<rparr>"
  have n: "sent_times ?s = sent_times s" by (simp add: sent_times_def fun_eq_iff)
  have "sent_times s k = 0" using k by (auto simp: op_fresh_def sent_times_def count_list_0_iff)
  then have "row_bound (sent_times s k) q" if "op_status q = ''QUEUED''" "op_retryCount q = 0" for q using that by (simp add: row_bound_def)
  then have "bounded_by (sent_times s) db" using inv a by (auto simp: serial_inv_def bounded_by_def appends_ops_def)
  moreover have "ids_distinct db" using inv a k by (auto simp: op_fresh_def serial_inv_def ids_distinct_def appends_ops_def)
  moreover have "pc_bound (sent_times s) db (tk_pc t)" if "t \<in> set (by_tasks s)" for t
    using inv that k by (intro pc_bound_appends [OF a]) (auto simp: op_fresh_def serial_inv_def)
  ultimately show ?thesis using inv unfolding serial_inv_def n by simp
qed

lemma packet_appends:
  assumes "process_packet cr configured fails new_id op_new now pc db = (pc', db')"
  shows "appends_ops db op_new db'"
  using process_packet_ops [OF assms] by (auto simp: appends_ops_def)

lemma update_op_ids: "(\<And>q. op_id (f q) = op_id q) \<Longrightarrow> map op_id (bd_operations (update_op k f db)) = map op_id (bd_operations db)"
  by (simp add: update_op_def comp_def if_distrib)

lemma pass_resume_ids:
  assumes "pass_resume now a pc db = (nx, db')"
  shows "map op_id (bd_operations db') = map op_id (bd_operations db)"
  using assms update_op_ids by (cases pc) (auto simp: pass_resume_def split: if_splits)

lemma serial_resume:
  assumes inv: "serial_inv s" and k: "k < length (by_tasks s)"
  shows "serial_inv (sys_resume k now a s)"
proof -
  have k0: "k = 0" and len: "length (by_tasks s) = 1" using inv k by (auto simp: serial_inv_def)
  then obtain t where ts: "by_tasks s = [t]" by (metis One_nat_def length_0_conv length_Suc_conv)
  obtain nx db1 where p: "pass_resume now a (tk_pc t) (by_db s) = (nx, db1)" by fastforce
  let ?n = "sent_times s" and ?s' = "sys_resume k now a s"
  have t: "bounded_by ?n (by_db s)" "pc_bound ?n (by_db s) (tk_pc t)" "ids_distinct (by_db s)"
    using inv ts by (auto simp: serial_inv_def)
  have bd: "bounded_by (after_pass nx ?n) db1" "\<And>pc'. nx = Goes pc' \<Longrightarrow> pc_bound (after_pass nx ?n) db1 pc'"
    using pass_resume_bound [OF p t] by blast+
  have d: "ids_distinct db1" using t(3) pass_resume_ids [OF p] by (simp add: ids_distinct_def)
  have sent: "sent_times ?s' = after_pass nx ?n" "by_db ?s' = db1"
    by (auto simp: sys_resume_def Let_def k0 ts p sent_times_def after_pass_def fun_eq_iff split: pass_next.split queue_pc.split prod.split bool.split)
  have "by_tasks ?s' = [] \<or> (\<exists>t'. by_tasks ?s' = [t'] \<and> (tk_pc t' = Q_count \<or> nx = Goes (tk_pc t')))"
    by (auto simp: sys_resume_def Let_def k0 ts p drop_task_def split: pass_next.split prod.split bool.split)
  then show ?thesis using bd d by (auto simp: serial_inv_def sent)
qed

lemma requeue_bound: "row_bound m q \<Longrightarrow> op_status q = ''FAILED'' \<Longrightarrow> op_retryCount q < 3
    \<Longrightarrow> row_bound m (q\<lparr>op_status := ''QUEUED'', op_retryCount := op_retryCount q + 1\<rparr>)"
  by (simp add: row_bound_def)

lemma serial_maintain:
  assumes inv: "serial_inv s" and db: "db \<in> {snd (retryFailedOperations (by_db s)), snd (cleanupOldOperations cutoff (by_db s))}"
  shows "serial_inv (s\<lparr>by_db := db\<rparr>)"
proof -
  have n: "sent_times (s\<lparr>by_db := db\<rparr>) = sent_times s" by (simp add: sent_times_def fun_eq_iff)
  have "row_bound (sent_times s (op_id q)) q" if "q \<in> set (bd_operations db)" for q
    using that inv db requeue_bound
    by (fastforce simp: serial_inv_def bounded_by_def requeue_failed_def retryFailedOperations_def delete_completed_def cleanupOldOperations_def)
  then have "bounded_by (sent_times s) db" using inv by (simp add: serial_inv_def bounded_by_def)
  moreover have "ids_distinct db"
    using inv db by (auto simp: serial_inv_def ids_distinct_def requeue_failed_def retryFailedOperations_def delete_completed_def cleanupOldOperations_def
        distinct_map_filter comp_def if_distrib [of op_id] cong: if_cong)
  moreover have "pc_bound (sent_times s) db pc" if "pc_bound (sent_times s) (by_db s) pc" for pc
  proof -
    have keep: "rows_are db i P" if "rows_are (by_db s) i P" "\<And>q. P q \<Longrightarrow> op_status q \<noteq> ''FAILED''" for i P
      using that db by (auto simp: rows_are_def requeue_failed_def retryFailedOperations_def delete_completed_def cleanupOldOperations_def)
    show ?thesis using that by (cases pc) (auto intro!: keep)
  qed
  ultimately show ?thesis using inv unfolding serial_inv_def n by simp
qed

lemma sent_times_update [simp]:
  "sent_times (s\<lparr>by_packets := ps\<rparr>) = sent_times s" "sent_times (s\<lparr>by_tasks := ts\<rparr>) = sent_times s" "sent_times (s\<lparr>by_isProcessing := p\<rparr>) = sent_times s" "sent_times (s\<lparr>by_timer := b\<rparr>) = sent_times s"
  by (simp_all add: sent_times_def fun_eq_iff)

lemma serial_step: "bridge_step cr True s s' \<Longrightarrow> serial_inv s \<Longrightarrow> serial_inv s'"
proof (induction rule: bridge_step.induct)
  case (Packet k s new_id op_new configured fails now pc db)
  have "serial_inv (s\<lparr>by_db := db\<rparr>)" by (rule serial_appends [OF Packet(5) packet_appends [OF Packet(4)] Packet(3)])
  then show ?case by (simp add: serial_inv_def)
next
  case (Arrive pc s)
  then show ?case by (simp add: serial_inv_def)
next
  case (Resume k s now a)
  show ?case by (rule serial_resume [OF Resume(2,1)])
next
  case (Maintain db s cutoff)
  show ?case by (rule serial_maintain [OF Maintain(2,1)])
next
  case (Tick s)
  then show ?case by (simp add: serial_inv_def)
next
  case (Start s)
  then show ?case by (simp add: serial_inv_def queue_start_def)
next
  case (Stop s)
  then show ?case by (simp add: serial_inv_def queue_stop_def)
qed


text \<open>A queue whose operations are as \<open>enqueue\<close> writes them, before its first pass.\<close>

definition queue_init :: "bridge_sys \<Rightarrow> bool" where
  "queue_init s \<longleftrightarrow> by_tasks s = [] \<and> by_sent s = [] \<and> distinct (map op_id (bd_operations (by_db s)))
     \<and> (\<forall>q \<in> set (bd_operations (by_db s)). op_status q = ''QUEUED'' \<and> op_retryCount q = 0)"

lemma serial_reach:
  assumes "queue_init s0" "(bridge_step cr True)\<^sup>*\<^sup>* s0 s"
  shows "serial_inv s"
  using assms(2)
proof (induction rule: rtranclp_induct)
  case base
  have "sent_times s0 i = 0" for i using assms(1) by (simp add: queue_init_def sent_times_def)
  then show ?case using assms(1) by (auto simp: queue_init_def serial_inv_def bounded_by_def row_bound_def ids_distinct_def)
qed (rule serial_step)

text \<open>
  C14. Whatever packets, signatures, answers of the network, failures, retries and deletions occur, an
  operation is submitted at most twice as long as a pass starts only when none is under way: the
  failing pass and the retry of the failed operation both count a retry.
\<close>
theorem at_most_two_submissions:
  assumes "queue_init s0" "(bridge_step cr True)\<^sup>*\<^sup>* s0 s"
  shows "count_list (map fst (by_sent s)) i \<le> 2"
  using serial_reach [OF assms] by (simp add: serial_inv_def bounded_by_def sent_times_def)

section \<open>Runs\<close>

definition sample_queue :: bridge_sys where
  "sample_queue = \<lparr>by_db = \<lparr>bd_chains = [], bd_validators = [], bd_events = [], bd_signatures = [],
       bd_operations = [\<lparr>op_id = 1, op_event = 7, op_sorobanContract = ''C'', op_mintAmount = ''10'', op_recipient = ''G'',
         op_status = ''QUEUED'', op_priority = 5, op_retryCount = 0, op_queuedAt = 0, op_txHash = None, op_completedAt = None\<rparr>]\<rparr>, by_packets = [],
     by_tasks = [], by_monitor = \<lparr>mo_failures = 0, mo_alertActive = False\<rparr>, by_isProcessing = False, by_timer = False, by_sent = []\<rparr>"

definition tick :: "bridge_sys \<Rightarrow> bridge_sys" where
  "tick s = s\<lparr>by_tasks := by_tasks s @ [\<lparr>tk_pc = Q_count, tk_nested = False\<rparr>]\<rparr>"

definition retry_all :: "bridge_sys \<Rightarrow> bridge_sys" where
  "retry_all s = s\<lparr>by_db := snd (retryFailedOperations (by_db s))\<rparr>"

lemma run_start: "\<not> serial \<or> by_tasks s = [] \<Longrightarrow> (bridge_step cr serial)\<^sup>*\<^sup>* s (queue_start s)"
  using Start [of serial s cr] by blast

lemma run_tick: "by_timer s \<Longrightarrow> \<not> serial \<or> by_tasks s = [] \<Longrightarrow> (bridge_step cr serial)\<^sup>*\<^sup>* s (tick s)"
  unfolding tick_def using Tick [of s serial cr] by blast

lemma run_retry: "(bridge_step cr serial)\<^sup>*\<^sup>* s (retry_all s)"
  unfolding retry_all_def using Maintain [of "snd (retryFailedOperations (by_db s))" s 0 cr serial] by blast

text \<open>The five answers after which a pass has submitted its operation, and the failure of the submission.\<close>

definition submits :: "nat \<Rightarrow> (nat \<times> queue_answer) list" where
  "submits k = replicate 5 (k, A_ok)"

definition submit_fails :: "(nat \<times> queue_answer) list" where
  "submit_fails = submits 0 @ [(0, A_error), (0, A_ok)]"

text \<open>The bound is reached: the submission fails, the operation is retried and submitted once more.\<close>

theorem at_most_two_submissions_witness:
  "by_sent (drive (submits 0) (tick (retry_all (drive submit_fails (queue_start sample_queue))))) = [(1, 7), (1, 7)]
   \<and> count_list (map fst (by_sent (drive (submits 0) (tick (retry_all (drive submit_fails (queue_start sample_queue))))))) 1 \<le> 2"
proof -
  let ?s1 = "drive submit_fails (queue_start sample_queue)"
  let ?s2 = "drive (submits 0) (tick (retry_all ?s1))"
  have s1: "by_tasks ?s1 = []" "by_timer ?s1" by code_simp+
  have init: "queue_init sample_queue" by (simp add: queue_init_def sample_queue_def)
  have r1: "(bridge_step undefined True)\<^sup>*\<^sup>* sample_queue ?s1"
    by (rule rtranclp_trans [OF run_start drive_reach]) (simp add: sample_queue_def)
  have r2: "(bridge_step undefined True)\<^sup>*\<^sup>* ?s1 ?s2"
    by (rule rtranclp_trans [OF run_retry rtranclp_trans [OF run_tick drive_reach]]) (use s1 in \<open>simp_all add: retry_all_def\<close>)
  have "by_sent ?s2 = [(1, 7), (1, 7)]" by code_simp
  then show ?thesis using at_most_two_submissions [OF init rtranclp_trans [OF r1 r2], of 1] by blast
qed

text \<open>Two passes of the interval overlap and submit the same operation twice although nothing failed.\<close>

lemma overlapping_passes_submit_twice:
  "\<exists>s. (bridge_step cr False)\<^sup>*\<^sup>* sample_queue s \<and> by_sent s = [(1, 7), (1, 7)]"
proof -
  let ?as = "replicate 3 (0, A_ok) @ replicate 3 (1, A_ok) @ [(0, A_ok), (0, A_ok), (1, A_ok), (1, A_ok)]"
  have "(bridge_step cr False)\<^sup>*\<^sup>* sample_queue (drive ?as (tick (queue_start sample_queue)))"
    by (rule rtranclp_trans [OF run_start rtranclp_trans [OF run_tick drive_reach]]) (simp_all add: sample_queue_def queue_start_def)
  moreover have "by_sent (drive ?as (tick (queue_start sample_queue))) = [(1, 7), (1, 7)]" by code_simp
  ultimately show ?thesis by blast
qed

end
