(* ===== verification/BridgeListener.thy ===== *)
theory BridgeListener
  imports BridgeQueue
begin

text \<open>
  The polling half of \<open>src/services/bridgeEventListener.ts\<close>: each poll asks one EVM chain for the logs of
  the next hundred blocks, decodes them and offers the events to the ingestion queue.  The head of the
  chain, the logs, the blocks, the ABI decoder and the answers of the queue are inputs; \<open>None\<close> stands for
  a call that throws.  \<open>event_row\<close> is the row the consumer of \<open>BridgeQueue\<close> creates for an event.

  The lemmas show that polls that do not overlap never offer a log to the queue again once it was
  accepted, and what the code does with windows without events and with events the queue refuses.
\<close>

section \<open>Logs\<close>

record evm_log =
  lg_block :: int
  lg_index :: nat
  lg_topics :: "string list"
  lg_data :: string
  lg_tx :: string

record event_data =
  ed_chain :: int
  ed_chainType :: string
  ed_eventType :: string
  ed_transactionHash :: string
  ed_blockNumber :: int
  ed_logIndex :: nat
  ed_tokenAmount :: nat
  ed_fromAddress :: string
  ed_toAddress :: string
  ed_destinationChainId :: string
  ed_destinationAddress :: string
  ed_eventTimestamp :: int

text \<open>
  What the provider answers: the head, the logs of a window, the timestamp of a block (\<open>Some None\<close> when
  there is no such block), the first two values of the data of a log, and the hash of a signature.
\<close>

record evm_node =
  en_head :: "int option"
  en_logs :: "int \<Rightarrow> int \<Rightarrow> evm_log list option"
  en_block :: "int \<Rightarrow> int option option"
  en_decode :: "string \<Rightarrow> (nat \<times> nat) option"
  en_id :: "string \<Rightarrow> string"

definition topic :: "nat \<Rightarrow> evm_log \<Rightarrow> string" where
  "topic k l = (if k < length (lg_topics l) then lg_topics l ! k else [])"

definition event_type_of :: "evm_node \<Rightarrow> evm_log \<Rightarrow> string option" where
  "event_type_of en l =
     (if lg_topics l = [] then None
      else if hd (lg_topics l) = en_id en ''TokensLocked(address,address,uint256,uint256,bytes32)'' then Some ''TOKEN_LOCK''
      else if hd (lg_topics l) = en_id en ''TokensReleased(address,uint256,uint256,bytes32)'' then Some ''TOKEN_RELEASE''
      else if hd (lg_topics l) = en_id en ''TokensBurned(address,uint256,uint256,bytes32)'' then Some ''TOKEN_BURN''
      else None)"

text \<open>Every failure gives \<open>null\<close>.\<close>

definition parseLog :: "evm_node \<Rightarrow> chain_row \<Rightarrow> evm_log \<Rightarrow> event_data option" where
  "parseLog en c l =
     (case en_block en (lg_block l) of
        Some (Some timestamp) \<Rightarrow>
          (case event_type_of en l of
             None \<Rightarrow> None
           | Some ty \<Rightarrow>
               (case en_decode en (lg_data l) of
                  None \<Rightarrow> None
                | Some (amount, dest) \<Rightarrow>
                    (let destination = (if ty = ''TOKEN_LOCK'' then topic 2 l else topic 1 l) in
                     Some \<lparr>ed_chain = ch_id c, ed_chainType = ch_type c, ed_eventType = ty, ed_transactionHash = lg_tx l,
                       ed_blockNumber = lg_block l, ed_logIndex = lg_index l, ed_tokenAmount = amount,
                       ed_fromAddress = topic 1 l, ed_toAddress = destination, ed_destinationChainId = show_nat dest,
                       ed_destinationAddress = destination, ed_eventTimestamp = timestamp * 1000\<rparr>)))
      | _ \<Rightarrow> None)"

text \<open>The row of the event, before the table gives it an identifier.\<close>

definition event_row :: "event_data \<Rightarrow> bridge_event" where
  "event_row d = \<lparr>bv_id = 0, bv_chain = ed_chain d, bv_eventType = ed_eventType d, bv_transactionHash = ed_transactionHash d,
     bv_tokenAmount = show_nat (ed_tokenAmount d), bv_fromAddress = ed_fromAddress d,
     bv_destinationChainId = Some (ed_destinationChainId d), bv_destinationAddress = Some (ed_destinationAddress d),
     bv_status = ''PENDING''\<rparr>"

section \<open>Polling\<close>

text \<open>The providers that are set, and the last processed block of each chain.\<close>

record listener =
  li_running :: bool
  li_providers :: "string list"
  li_timers :: "string list"
  li_last :: "(string \<times> int) list"

definition last_or :: "listener \<Rightarrow> string \<Rightarrow> int \<Rightarrow> int" where
  "last_or li chainId fallback = (case jm_get (li_last li) chainId of
      Some b \<Rightarrow> if b = 0 then fallback else b | None \<Rightarrow> fallback)"

definition poll_window :: "listener \<Rightarrow> string \<Rightarrow> int \<Rightarrow> int \<times> int" where
  "poll_window li chainId currentBlock =
     (let fromBlock = last_or li chainId (currentBlock - 1000) + 1 in (fromBlock, min (fromBlock + 100 - 1) currentBlock))"

definition mark_processed :: "string \<Rightarrow> int \<Rightarrow> listener \<Rightarrow> listener" where
  "mark_processed chainId b li = (if b > last_or li chainId 0 then li\<lparr>li_last := jm_set chainId b (li_last li)\<rparr> else li)"

text \<open>
  One log: the listener, and the event when it was offered, with the answer of the queue.  \<open>accept\<close> is
  \<open>None\<close> when the queue throws.
\<close>

definition poll_log ::
  "evm_node \<Rightarrow> chain_row \<Rightarrow> (evm_log \<Rightarrow> bool option) \<Rightarrow> evm_log \<Rightarrow> listener \<times> evm_log list \<Rightarrow> listener \<times> evm_log list" where
  "poll_log en c accept l = (\<lambda>(li, taken).
     case parseLog en c l of
       None \<Rightarrow> (li, taken)
     | Some d \<Rightarrow> if accept l = Some True then (mark_processed (ch_chainId c) (lg_block l) li, taken @ [l]) else (li, taken))"

definition pollChainEvents ::
  "evm_node \<Rightarrow> chain_row \<Rightarrow> (evm_log \<Rightarrow> bool option) \<Rightarrow> listener \<times> evm_log list \<Rightarrow> listener \<times> evm_log list" where
  "pollChainEvents en c accept = (\<lambda>(li, taken).
     if ch_chainId c \<notin> set (li_providers li) then (li, taken)
     else case en_head en of
       None \<Rightarrow> (li, taken)
     | Some currentBlock \<Rightarrow>
         (let (fromBlock, toBlock) = poll_window li (ch_chainId c) currentBlock in
          if fromBlock > toBlock then (li, taken)
          else case en_logs en fromBlock toBlock of
            None \<Rightarrow> (li, taken)
          | Some logs \<Rightarrow> fold (poll_log en c accept) logs (li, taken)))"

section \<open>Starting and stopping\<close>

text \<open>
  The last block of a chain: \<open>recorded\<close> is the block of its latest event (\<open>None\<close> without one, or when the
  event has none), \<open>head\<close> the head of the chain.  A provider stays set when the head cannot be read.
\<close>

definition init_chain :: "chain_row \<Rightarrow> int option \<Rightarrow> int option \<Rightarrow> listener \<Rightarrow> listener" where
  "init_chain c recorded head li =
     (let li1 = li\<lparr>li_providers := li_providers li @ [ch_chainId c]\<rparr>;
          known = (case recorded of Some b \<Rightarrow> if b = 0 then None else Some b | None \<Rightarrow> None) in
      case known of
        Some b \<Rightarrow> li1\<lparr>li_last := jm_set (ch_chainId c) b (li_last li1)\<rparr>
      | None \<Rightarrow> (case head of
            Some h \<Rightarrow> li1\<lparr>li_last := jm_set (ch_chainId c) (h - 1000) (li_last li1)\<rparr>
          | None \<Rightarrow> li1))"

text \<open>The chains come with their RPC address and bridge contract, when they have them.\<close>

definition listener_start ::
  "(chain_row \<times> bool \<times> bool) list \<Rightarrow> (chain_row \<Rightarrow> int option) \<Rightarrow> (chain_row \<Rightarrow> int option) \<Rightarrow> listener \<Rightarrow> listener" where
  "listener_start table recorded head li =
     (if li_running li then li
      else let chains = filter (\<lambda>(c, _, _). ch_active c) table;
               evm = filter (\<lambda>(c, rpc, _). ch_type c = ''EVM'' \<and> rpc) chains;
               li1 = fold (\<lambda>(c, _, _). init_chain c (recorded c) (head c)) evm (li\<lparr>li_running := True\<rparr>) in
           li1\<lparr>li_timers := li_timers li1 @ map (ch_chainId \<circ> fst) (filter (\<lambda>(c, _, contract). contract) evm)\<rparr>)"

definition listener_stop :: "listener \<Rightarrow> listener" where
  "listener_stop li = li\<lparr>li_running := False, li_timers := [], li_providers := []\<rparr>"

section \<open>Accepted logs are not offered again\<close>

text \<open>The provider answers with the logs of the window, each once; blocks have positive numbers.\<close>

definition logs_ok :: "evm_node \<Rightarrow> bool" where
  "logs_ok en \<longleftrightarrow> (\<forall>a b logs. en_logs en a b = Some logs \<longrightarrow> distinct logs \<and> (\<forall>l \<in> set logs. a \<le> lg_block l \<and> lg_block l \<le> b \<and> 0 < lg_block l))"

definition taken_ok :: "string \<Rightarrow> listener \<times> evm_log list \<Rightarrow> bool" where
  "taken_ok cid st \<longleftrightarrow> distinct (snd st) \<and> (\<forall>l \<in> set (snd st). \<exists>b. jm_get (li_last (fst st)) cid = Some b \<and> lg_block l \<le> b \<and> 0 < b)"

lemma mark_processed_last:
  assumes "0 < b"
  shows "\<exists>b'. jm_get (li_last (mark_processed cid b li)) cid = Some b' \<and> b \<le> b' \<and> 0 < b' \<and> (\<forall>a. jm_get (li_last li) cid = Some a \<longrightarrow> a \<le> b')"
  using assms by (auto simp: mark_processed_def last_or_def split: option.splits if_splits)

lemma poll_log_taken:
  assumes "taken_ok cid (li, taken)" "cid = ch_chainId c" "0 < lg_block l" "l \<notin> set taken"
  shows "taken_ok cid (poll_log en c accept l (li, taken))"
  using assms mark_processed_last [OF assms(3), of cid li]
  by (fastforce simp: taken_ok_def poll_log_def split: option.split)

lemma poll_log_cases: "snd (poll_log en c accept l st) = snd st \<or> snd (poll_log en c accept l st) = snd st @ [l]"
  by (cases st) (simp add: poll_log_def split: option.split)

lemma poll_logs_taken:
  assumes "taken_ok (ch_chainId c) st" "distinct logs" "set logs \<inter> set (snd st) = {}" "\<forall>l \<in> set logs. 0 < lg_block l"
  shows "taken_ok (ch_chainId c) (fold (poll_log en c accept) logs st)"
  using assms
proof (induction logs arbitrary: st)
  case (Cons l logs)
  have "taken_ok (ch_chainId c) (poll_log en c accept l st)"
    using poll_log_taken [of "ch_chainId c" "fst st" "snd st" c l en accept] Cons.prems by simp
  moreover have "set logs \<inter> set (snd (poll_log en c accept l st)) = {}"
    using Cons.prems(2,3) poll_log_cases [of en c accept l st] by auto
  ultimately show ?case using Cons.IH Cons.prems(2,4) by simp
qed simp

lemma poll_taken:
  assumes ok: "logs_ok en" and t: "taken_ok (ch_chainId c) st"
  shows "taken_ok (ch_chainId c) (pollChainEvents en c accept st)"
proof -
  obtain li taken where st: "st = (li, taken)" by fastforce
  show ?thesis
  proof (cases "pollChainEvents en c accept st = st")
    case False
    then obtain h a b logs where h: "en_head en = Some h" "poll_window li (ch_chainId c) h = (a, b)" "en_logs en a b = Some logs"
        "pollChainEvents en c accept st = fold (poll_log en c accept) logs st"
      by (auto simp: pollChainEvents_def st split: if_splits option.splits prod.splits)
    have l: "distinct logs" "\<forall>l \<in> set logs. a \<le> lg_block l \<and> 0 < lg_block l" using ok h(3) by (auto simp: logs_ok_def)
    have "lg_block l < a" if "l \<in> set taken" for l
      using t that h(2) by (auto simp: taken_ok_def st poll_window_def last_or_def Let_def)
    then have "set logs \<inter> set taken = {}" using l(2) by force
    then show ?thesis using poll_logs_taken [OF t l(1)] l(2) h(4) by (simp add: st)
  qed (use t in simp)
qed

text \<open>
  In any sequence of polls of a chain, whatever the head, the failures and the answers of the queue,
  no log is accepted twice by the ingestion queue, provided the node answers a window with its own
  logs, each once.
\<close>
theorem no_log_accepted_twice:
  assumes "\<forall>(en, accept) \<in> set polls. logs_ok en"
  shows "distinct (snd (fold (\<lambda>(en, accept). pollChainEvents en c accept) polls (li, [])))"
proof -
  have "taken_ok (ch_chainId c) (fold (\<lambda>(en, accept). pollChainEvents en c accept) polls st)"
    if "taken_ok (ch_chainId c) st" "\<forall>(en, accept) \<in> set polls. logs_ok en" for st polls
    using that poll_taken by (induction polls arbitrary: st) (auto split: prod.splits)
  then show ?thesis using assms by (fastforce simp: taken_ok_def)
qed

section \<open>What is lost\<close>

definition quiet_after :: "chain_row \<Rightarrow> int \<Rightarrow> evm_node \<Rightarrow> bool" where
  "quiet_after c b en \<longleftrightarrow> (\<forall>to logs. to \<le> b + 100 \<longrightarrow> en_logs en (b + 1) to = Some logs \<longrightarrow> (\<forall>l \<in> set logs. parseLog en c l = None))"

lemma poll_logs_undecoded: "\<forall>l \<in> set logs. parseLog en c l = None \<Longrightarrow> fold (poll_log en c accept) logs st = st"
  by (induction logs) (auto simp: poll_log_def split: prod.split)

lemma quiet_poll:
  assumes "jm_get (li_last li) (ch_chainId c) = Some b" "b \<noteq> 0" "quiet_after c b en"
  shows "pollChainEvents en c accept (li, taken) = (li, taken)"
proof -
  have "fold (poll_log en c accept) logs st = st" if "en_logs en (b + 1) (min (100 + b) h) = Some logs" for logs h st
    using assms(3) [unfolded quiet_after_def, rule_format, OF _ that] by (intro poll_logs_undecoded) auto
  then show ?thesis using assms(1,2)
    by (auto simp: pollChainEvents_def poll_window_def last_or_def Let_def split: option.split)
qed

text \<open>
  When the hundred blocks after the last processed one hold no event of the bridge, polling never gets
  past them: the listener stays as it is for every number of polls, however far the chain grows, and
  no later event is ever read.
\<close>
theorem quiet_window_stalls:
  assumes "jm_get (li_last li) (ch_chainId c) = Some b" "b \<noteq> 0" "\<forall>(en, accept) \<in> set polls. quiet_after c b en"
  shows "fold (\<lambda>(en, accept). pollChainEvents en c accept) polls (li, taken) = (li, taken)"
  using assms by (induction polls) (auto simp: quiet_poll)

text \<open>Once a log is accepted, every later window starts behind its block: an event of that block or before it that the queue refused is lost.\<close>

lemma refused_event_lost:
  assumes "taken_ok (ch_chainId c) (li, taken)" "l \<in> set taken" "lg_block refused \<le> lg_block l"
  shows "lg_block refused < fst (poll_window li (ch_chainId c) h)"
  using assms by (auto simp: taken_ok_def poll_window_def last_or_def Let_def)

section \<open>Example\<close>

definition sample_chain :: chain_row where
  "sample_chain = \<lparr>ch_id = 1, ch_chainId = ''1'', ch_type = ''EVM'', ch_active = True\<rparr>"

definition sample_log :: "int \<Rightarrow> evm_log" where
  "sample_log b = \<lparr>lg_block = b, lg_index = 0, lg_topics = [''TokensBurned(address,uint256,uint256,bytes32)'', ''a''], lg_data = ''d'', lg_tx = ''t''\<rparr>"

text \<open>A chain with a burn in block 501 and one in block 650; blocks are a second apart.\<close>

definition sample_node :: "int \<Rightarrow> evm_node" where
  "sample_node h = \<lparr>en_head = Some h, en_logs = (\<lambda>a b. Some (map sample_log (filter (\<lambda>k. a \<le> k \<and> k \<le> b) [501, 650]))),
     en_block = (\<lambda>b. Some (Some b)), en_decode = (\<lambda>d. Some (7, 2)), en_id = (\<lambda>s. s)\<rparr>"

definition sample_listener :: listener where
  "sample_listener = \<lparr>li_running = True, li_providers = [''1''], li_timers = [''1''], li_last = [(''1'', 500)]\<rparr>"

lemma sample_node_ok: "logs_ok (sample_node h)"
  by (auto simp: logs_ok_def sample_node_def sample_log_def)

theorem no_log_accepted_twice_witness:
  "snd (fold (\<lambda>(en, accept). pollChainEvents en sample_chain accept) (replicate 3 (sample_node 700, \<lambda>l. Some True)) (sample_listener, [])) = [sample_log 501]
   \<and> distinct (snd (fold (\<lambda>(en, accept). pollChainEvents en sample_chain accept) (replicate 3 (sample_node 700, \<lambda>l. Some True)) (sample_listener, [])))"
proof -
  have "snd (fold (\<lambda>(en, accept). pollChainEvents en sample_chain accept) (replicate 3 (sample_node 700, \<lambda>l. Some True)) (sample_listener, [])) = [sample_log 501]"
    by code_simp
  then show ?thesis using no_log_accepted_twice [of "replicate 3 (sample_node 700, \<lambda>l. Some True)" sample_chain sample_listener] sample_node_ok by simp
qed

theorem quiet_window_stalls_witness:
  "fold (\<lambda>(en, accept). pollChainEvents en sample_chain accept) (map (\<lambda>h. (sample_node h, \<lambda>l. Some True)) [560, 10000, 10 ^ 9])
     (sample_listener\<lparr>li_last := [(''1'', 501)]\<rparr>, []) = (sample_listener\<lparr>li_last := [(''1'', 501)]\<rparr>, [])"
  by (rule quiet_window_stalls [of _ _ 501]) (simp_all add: sample_chain_def quiet_after_def sample_node_def)

end
