(* ===== verification/PriceReview.thy ===== *)
theory PriceReview
  imports JSText
begin

text \<open>
  \<open>src/services/priceReviewService.ts\<close> and \<open>priceProtection.ts\<close>, with the callers in
  \<open>src/services/marketRate/marketRateService.ts\<close> that submit prices: a new rate is compared with the latest
  submitted one, a large movement waits for a reviewer, and everything else is submitted.  Handlers are
  tasks cut at their \<open>await\<close>s over one table.

  The lemmas show that the comparison decides as the exact quotient outside a margin of rounding, that
  no interleaving submits an unusual price without a reviewer's approval, and that decisions are final;
  they also show what overlapping decisions and the types of the driver do.
\<close>

section \<open>Numbers\<close>

text \<open>A numeric column as the driver hands it over.\<close>

datatype raw_number = Raw_number rat | Raw_text string | Raw_null | Raw_decimal string

definition parseToNumber :: "raw_number \<Rightarrow> rat option" where
  "parseToNumber v = (case v of Raw_number x \<Rightarrow> Some x | Raw_null \<Rightarrow> None | Raw_text s \<Rightarrow> parseFloat s | Raw_decimal s \<Rightarrow> parseFloat s)"

text \<open>\<open>parseBatchNumbers\<close> on one field: an object that is neither a number nor a text reads as \<open>null\<close>.\<close>

definition parse_field :: "raw_number \<Rightarrow> rat option" where
  "parse_field v = (case v of Raw_number x \<Rightarrow> Some x | Raw_null \<Rightarrow> None | Raw_text s \<Rightarrow> parseFloat s | Raw_decimal s \<Rightarrow> None)"

section \<open>The comparison\<close>

definition PRICE_REVIEW_WINDOW_MS :: int where "PRICE_REVIEW_WINDOW_MS = 5 * 60 * 1000"

definition PRICE_CHANGE_THRESHOLD :: rat where "PRICE_CHANGE_THRESHOLD = fl (15 / 100)"

record movement =
  mv_isAnomalous :: bool
  mv_changePercent :: rat
  mv_reason :: "string option"

definition evaluatePriceMovement :: "rat \<Rightarrow> rat \<Rightarrow> string \<Rightarrow> rat \<Rightarrow> movement" where
  "evaluatePriceMovement currentRate baselineRate currency threshold =
     (if baselineRate \<le> 0 \<or> currentRate \<le> 0 then \<lparr>mv_isAnomalous = False, mv_changePercent = 0, mv_reason = None\<rparr>
      else let changePercent = jsmul (jsdiv \<bar>jssub currentRate baselineRate\<bar> baselineRate) 100;
               isAnomalous = changePercent > jsmul threshold 100 in
        \<lparr>mv_isAnomalous = isAnomalous, mv_changePercent = changePercent,
         mv_reason = (if isAnomalous then Some (currency @ '' moved '' @ toFixed2 changePercent
           @ ''% within 5 minutes, exceeding the 15% manual review threshold.'') else None)\<rparr>)"

section \<open>The table\<close>

datatype review_status = Auto_approved | Pending | Approved | Rejected
datatype contract_status = Not_submitted | Submitted | Skipped

record review_row =
  rr_id :: nat
  rr_currency :: string
  rr_rate :: rat
  rr_source :: string
  rr_fetched_at :: int
  rr_review_status :: review_status
  rr_contract_status :: contract_status
  rr_review_reason :: "string option"
  rr_review_notes :: "string option"
  rr_baseline_rate :: "rat option"
  rr_baseline_timestamp :: "int option"
  rr_change_percent :: "rat option"
  rr_memo_id :: "string option"
  rr_stellar_tx_hash :: "string option"
  rr_reviewed_at :: "int option"
  rr_reviewed_by :: "string option"
  rr_created_at :: int
  rr_updated_at :: int

record market_rate =
  mr_currency :: string
  mr_rate :: rat
  mr_source :: string
  mr_timestamp :: int

record assessment =
  as_reviewRecordId :: nat
  as_manualReviewRequired :: bool
  as_reason :: "string option"
  as_changePercent :: "rat option"
  as_comparisonRate :: "rat option"
  as_comparisonTimestamp :: "int option"

definition REVIEWABLE_CURRENCIES :: "string list" where
  "REVIEWABLE_CURRENCIES = [''NGN'', ''KES'', ''GHS'']"

text \<open>
  The database and its driver: what the columns of ten and of four decimals hold of a number, and how
  the driver hands a number over.
\<close>

record review_driver =
  rd_numeric10 :: "rat \<Rightarrow> rat"
  rd_numeric4 :: "rat \<Rightarrow> rat"
  rd_read :: "rat \<Rightarrow> raw_number"

definition newest :: "('a \<Rightarrow> int) \<Rightarrow> 'a list \<Rightarrow> 'a option" where
  "newest f xs = (case sort_key (\<lambda>x. - f x) xs of [] \<Rightarrow> None | x # _ \<Rightarrow> Some x)"

definition getLatestSubmittedBaseline :: "review_driver \<Rightarrow> string \<Rightarrow> int \<Rightarrow> review_row list \<Rightarrow> (rat \<times> int) option" where
  "getLatestSubmittedBaseline rd currency timestamp rows =
     (case newest rr_fetched_at (filter (\<lambda>r. rr_currency r = currency \<and> rr_contract_status r = Submitted
          \<and> rr_fetched_at r \<ge> timestamp - PRICE_REVIEW_WINDOW_MS \<and> rr_fetched_at r < timestamp) rows) of
        None \<Rightarrow> None
      | Some r \<Rightarrow> (case parseToNumber (rd_read rd (rr_rate r)) of
            Some x \<Rightarrow> if x \<le> 0 then None else Some (x, rr_fetched_at r)
          | None \<Rightarrow> None))"

definition baseline_of :: "review_driver \<Rightarrow> market_rate \<Rightarrow> review_row list \<Rightarrow> (rat \<times> int) option" where
  "baseline_of rd rate rows =
     (let currency = toUpperCase (mr_currency rate) in
      if currency \<in> set REVIEWABLE_CURRENCIES then getLatestSubmittedBaseline rd currency (mr_timestamp rate) rows else None)"

text \<open>The verdict on a rate for the baseline that was read.\<close>

definition verdict :: "(rat \<times> int) option \<Rightarrow> market_rate \<Rightarrow> (movement \<times> rat \<times> int) option" where
  "verdict baseline rate = (case baseline of
      None \<Rightarrow> None
    | Some (b, t) \<Rightarrow>
        (let mv = evaluatePriceMovement (mr_rate rate) b (toUpperCase (mr_currency rate)) PRICE_CHANGE_THRESHOLD in
         if mv_isAnomalous mv then Some (mv, b, t) else None))"

definition review_row_of :: "review_driver \<Rightarrow> int \<Rightarrow> nat \<Rightarrow> (rat \<times> int) option \<Rightarrow> market_rate \<Rightarrow> review_row" where
  "review_row_of rd now new_id baseline rate =
     (let v = verdict baseline rate in
      \<lparr>rr_id = new_id, rr_currency = toUpperCase (mr_currency rate), rr_rate = rd_numeric10 rd (mr_rate rate),
       rr_source = mr_source rate, rr_fetched_at = mr_timestamp rate,
       rr_review_status = (if v = None then Auto_approved else Pending),
       rr_contract_status = (if v = None then Not_submitted else Skipped),
       rr_review_reason = Option.bind v (\<lambda>(mv, _, _). mv_reason mv), rr_review_notes = None,
       rr_baseline_rate = map_option (\<lambda>(_, b, _). rd_numeric10 rd b) v, rr_baseline_timestamp = map_option (\<lambda>(_, _, t). t) v,
       rr_change_percent = map_option (\<lambda>(mv, _, _). rd_numeric4 rd (mv_changePercent mv)) v,
       rr_memo_id = None, rr_stellar_tx_hash = None, rr_reviewed_at = None, rr_reviewed_by = None,
       rr_created_at = now, rr_updated_at = now\<rparr>)"

definition assessment_of :: "nat \<Rightarrow> (rat \<times> int) option \<Rightarrow> market_rate \<Rightarrow> assessment" where
  "assessment_of new_id baseline rate =
     (let v = verdict baseline rate in
      \<lparr>as_reviewRecordId = new_id, as_manualReviewRequired = (v \<noteq> None), as_reason = Option.bind v (\<lambda>(mv, _, _). mv_reason mv),
       as_changePercent = map_option (\<lambda>(mv, _, _). mv_changePercent mv) v, as_comparisonRate = map_option (\<lambda>(_, b, _). b) v,
       as_comparisonTimestamp = map_option (\<lambda>(_, _, t). t) v\<rparr>)"

definition set_row :: "nat \<Rightarrow> (review_row \<Rightarrow> bool) \<Rightarrow> (review_row \<Rightarrow> review_row) \<Rightarrow> review_row list \<Rightarrow> review_row list" where
  "set_row i P f rows = map (\<lambda>r. if rr_id r = i \<and> P r then f r else r) rows"

definition markContractSubmitted :: "int \<Rightarrow> nat \<Rightarrow> string \<Rightarrow> string \<Rightarrow> review_row list \<Rightarrow> review_row list" where
  "markContractSubmitted now i memo hash rows = set_row i (\<lambda>r. True)
     (\<lambda>r. r\<lparr>rr_contract_status := Submitted, rr_memo_id := Some memo, rr_stellar_tx_hash := Some hash, rr_updated_at := now\<rparr>) rows"

text \<open>What a row looks like to the callers.\<close>

record pending_review =
  pr_id :: nat
  pr_currency :: string
  pr_rate :: rat
  pr_source :: string
  pr_fetchedAt :: int
  pr_reviewStatus :: review_status
  pr_contractStatus :: contract_status
  pr_reason :: "string option"
  pr_notes :: "string option"
  pr_baselineRate :: "rat option"
  pr_baselineTimestamp :: "int option"
  pr_changePercent :: "rat option"
  pr_memoId :: "string option"
  pr_stellarTxHash :: "string option"
  pr_reviewedAt :: "int option"
  pr_reviewedBy :: "string option"
  pr_createdAt :: int
  pr_updatedAt :: int

definition read_option :: "review_driver \<Rightarrow> rat option \<Rightarrow> raw_number" where
  "read_option rd x = (case x of None \<Rightarrow> Raw_null | Some y \<Rightarrow> rd_read rd y)"

definition mapReviewRow :: "review_driver \<Rightarrow> review_row \<Rightarrow> pending_review" where
  "mapReviewRow rd r = \<lparr>pr_id = rr_id r, pr_currency = rr_currency r,
     pr_rate = (case parse_field (rd_read rd (rr_rate r)) of Some x \<Rightarrow> x | None \<Rightarrow> 0),
     pr_source = rr_source r, pr_fetchedAt = rr_fetched_at r,
     pr_reviewStatus = rr_review_status r, pr_contractStatus = rr_contract_status r,
     pr_reason = rr_review_reason r, pr_notes = rr_review_notes r,
     pr_baselineRate = parse_field (read_option rd (rr_baseline_rate r)), pr_baselineTimestamp = rr_baseline_timestamp r,
     pr_changePercent = parse_field (read_option rd (rr_change_percent r)),
     pr_memoId = rr_memo_id r, pr_stellarTxHash = rr_stellar_tx_hash r, pr_reviewedAt = rr_reviewed_at r,
     pr_reviewedBy = rr_reviewed_by r, pr_createdAt = rr_created_at r, pr_updatedAt = rr_updated_at r\<rparr>"

definition getPendingReviews :: "review_driver \<Rightarrow> review_row list \<Rightarrow> pending_review list" where
  "getPendingReviews rd rows = map (mapReviewRow rd) (sort_key (\<lambda>r. - rr_created_at r) (filter (\<lambda>r. rr_review_status r = Pending) rows))"

definition getPendingReviewById :: "review_driver \<Rightarrow> nat \<Rightarrow> review_row list \<Rightarrow> pending_review option" where
  "getPendingReviewById rd i rows = map_option (mapReviewRow rd) (List.find (\<lambda>r. rr_id r = i \<and> rr_review_status r = Pending) rows)"

record decision =
  dn_reviewedBy :: "string option"
  dn_reviewNotes :: "string option"

definition decided :: "int \<Rightarrow> decision \<Rightarrow> review_status \<Rightarrow> contract_status \<Rightarrow> review_row \<Rightarrow> review_row" where
  "decided now d st cs r = r\<lparr>rr_review_status := st, rr_contract_status := cs, rr_review_notes := dn_reviewNotes d,
     rr_reviewed_by := Some (case dn_reviewedBy d of Some b \<Rightarrow> b | None \<Rightarrow> ''manual-review''), rr_reviewed_at := Some now, rr_updated_at := now\<rparr>"

datatype review_error = Review_not_found nat

text \<open>Both decisions update the row only while it is pending, and throw when there is no such row.\<close>

definition approveReview :: "review_driver \<Rightarrow> int \<Rightarrow> nat \<Rightarrow> decision \<Rightarrow> string \<Rightarrow> string \<Rightarrow> review_row list \<Rightarrow> (review_error, pending_review) result \<times> review_row list" where
  "approveReview rd now i d memo hash rows =
     (let f = (\<lambda>r. (decided now d Approved Submitted r)\<lparr>rr_memo_id := Some memo, rr_stellar_tx_hash := Some hash\<rparr>) in
      (case List.find (\<lambda>r. rr_id r = i \<and> rr_review_status r = Pending) rows of Some r \<Rightarrow> Inr (mapReviewRow rd (f r)) | None \<Rightarrow> Inl (Review_not_found i),
       set_row i (\<lambda>r. rr_review_status r = Pending) f rows))"

definition rejectReview :: "review_driver \<Rightarrow> int \<Rightarrow> nat \<Rightarrow> decision \<Rightarrow> review_row list \<Rightarrow> (review_error, pending_review) result \<times> review_row list" where
  "rejectReview rd now i d rows =
     (let f = decided now d Rejected Skipped in
      (case List.find (\<lambda>r. rr_id r = i \<and> rr_review_status r = Pending) rows of Some r \<Rightarrow> Inr (mapReviewRow rd (f r)) | None \<Rightarrow> Inl (Review_not_found i),
       set_row i (\<lambda>r. rr_review_status r = Pending) f rows))"


section \<open>Handlers\<close>

text \<open>
  Where a handler is suspended: the feed of a rate (\<open>getRate\<close> with a single signature, the path over
  several signatures is modelled in \<open>MultiSig\<close>), the approval and the rejection of a review.  Between
  \<open>F_checks\<close> and \<open>F_submit\<close> the feed runs checks that only log or may stop it.
\<close>

datatype review_pc =
    F_baseline market_rate
  | F_insert market_rate "(rat \<times> int) option"
  | F_checks nat market_rate
  | F_submit nat
  | F_mark nat string string
  | A_lookup nat decision
  | A_submit nat decision
  | A_approve nat decision string string
  | R_reject nat decision

datatype review_answer = V_ok | V_fails | V_locked | V_tx string string

text \<open>A submission: whether the feed made it, the review, the currency and the rate.\<close>

type_synonym submission = "bool \<times> nat \<times> string \<times> rat"

text \<open>The first part of an approval: the price of the pending review is submitted.\<close>

definition approvePendingReview ::
  "review_driver \<Rightarrow> nat \<Rightarrow> decision \<Rightarrow> review_row list \<Rightarrow> review_pc option \<times> review_row list \<times> submission list" where
  "approvePendingReview rd i d rows = (case getPendingReviewById rd i rows of
      None \<Rightarrow> (None, rows, [])
    | Some p \<Rightarrow> (Some (A_submit i d), rows, [(False, i, pr_currency p, pr_rate p)]))"

definition review_resume ::
  "review_driver \<Rightarrow> int \<Rightarrow> nat \<Rightarrow> review_answer \<Rightarrow> review_pc \<Rightarrow> review_row list \<Rightarrow> review_pc option \<times> review_row list \<times> submission list" where
  "review_resume rd now new_id a pc rows =
     (if a = V_fails then (None, rows, [])
      else case pc of
        F_baseline rate \<Rightarrow> (Some (F_insert rate (baseline_of rd rate rows)), rows, [])
      | F_insert rate baseline \<Rightarrow>
          (if as_manualReviewRequired (assessment_of new_id baseline rate) then None else Some (F_checks new_id rate),
           rows @ [review_row_of rd now new_id baseline rate], [])
      | F_checks i rate \<Rightarrow>
          (if a = V_locked then (None, rows, []) else (Some (F_submit i), rows, [(True, i, toUpperCase (mr_currency rate), mr_rate rate)]))
      | F_submit i \<Rightarrow> (case a of V_tx memo hash \<Rightarrow> Some (F_mark i memo hash) | _ \<Rightarrow> None, rows, [])
      | F_mark i memo hash \<Rightarrow> (None, markContractSubmitted now i memo hash rows, [])
      | A_lookup i d \<Rightarrow> approvePendingReview rd i d rows
      | A_submit i d \<Rightarrow> (case a of V_tx memo hash \<Rightarrow> Some (A_approve i d memo hash) | _ \<Rightarrow> None, rows, [])
      | A_approve i d memo hash \<Rightarrow> (None, snd (approveReview rd now i d memo hash rows), [])
      | R_reject i d \<Rightarrow> (None, snd (rejectReview rd now i d rows), []))"

record review_sys =
  rv_rows :: "review_row list"
  rv_tasks :: "review_pc list"
  rv_log :: "submission list"

definition put_task :: "nat \<Rightarrow> 'a option \<Rightarrow> 'a list \<Rightarrow> 'a list" where
  "put_task k pc ts = (case pc of Some p \<Rightarrow> ts[k := p] | None \<Rightarrow> take k ts @ drop (k + 1) ts)"

definition sys_next :: "review_driver \<Rightarrow> int \<Rightarrow> nat \<Rightarrow> review_answer \<Rightarrow> nat \<Rightarrow> review_sys \<Rightarrow> review_sys" where
  "sys_next rd now new_id a k s =
     (let (pc, rows, sub) = review_resume rd now new_id a (rv_tasks s ! k) (rv_rows s) in
      \<lparr>rv_rows = rows, rv_tasks = put_task k pc (rv_tasks s), rv_log = rv_log s @ sub\<rparr>)"

fun entry :: "review_pc \<Rightarrow> bool" where
  "entry (F_baseline rate) = True" | "entry (A_lookup i d) = True" | "entry (R_reject i d) = True" | "entry _ = False"

text \<open>A request arrives, or a suspended handler goes on; identifiers are serial numbers of the table.\<close>

inductive review_step :: "review_driver \<Rightarrow> review_sys \<Rightarrow> review_sys \<Rightarrow> bool" for rd where
  Arrive: "entry pc \<Longrightarrow> review_step rd s (s\<lparr>rv_tasks := rv_tasks s @ [pc]\<rparr>)"
| Go_on: "k < length (rv_tasks s) \<Longrightarrow> new_id \<notin> rr_id ` set (rv_rows s) \<Longrightarrow> review_step rd s (sys_next rd now new_id a k s)"

section \<open>The protocol\<close>

definition status_pair_ok :: "review_row \<Rightarrow> bool" where
  "status_pair_ok r \<longleftrightarrow> (case rr_review_status r of
      Auto_approved \<Rightarrow> rr_contract_status r \<in> {Not_submitted, Submitted}
    | Approved \<Rightarrow> rr_contract_status r = Submitted
    | _ \<Rightarrow> rr_contract_status r = Skipped)"

definition row_auto :: "review_row list \<Rightarrow> nat \<Rightarrow> bool" where
  "row_auto rows i \<longleftrightarrow> (\<exists>r \<in> set rows. rr_id r = i \<and> rr_review_status r = Auto_approved)"

text \<open>
  The price that a feed submits under a record: the record was approved automatically and holds the
  currency and the rate, and the rate was not anomalous against the baseline read in one of the
  tables \<open>T\<close> seen so far.
\<close>

definition feed_price :: "review_driver \<Rightarrow> review_row list set \<Rightarrow> review_row list \<Rightarrow> nat \<Rightarrow> market_rate \<Rightarrow> bool" where
  "feed_price rd T rows i rate \<longleftrightarrow>
     (\<exists>r \<in> set rows. rr_id r = i \<and> rr_review_status r = Auto_approved
        \<and> rr_currency r = toUpperCase (mr_currency rate) \<and> rr_rate r = rd_numeric10 rd (mr_rate rate))
     \<and> (\<exists>past \<in> T. verdict (baseline_of rd rate past) rate = None)"

text \<open>
  The price that an approval submits: the record was held for review, and the currency and the rate
  are what looking it up gave while it was pending.
\<close>

definition reviewed_price :: "review_driver \<Rightarrow> review_row list set \<Rightarrow> review_row list \<Rightarrow> nat \<Rightarrow> string \<Rightarrow> rat \<Rightarrow> bool" where
  "reviewed_price rd T rows i c x \<longleftrightarrow>
     (\<exists>r \<in> set rows. rr_id r = i \<and> rr_review_status r \<noteq> Auto_approved \<and> rr_currency r = c \<and> pr_rate (mapReviewRow rd r) = x)
     \<and> (\<exists>past \<in> T. \<exists>p. getPendingReviewById rd i past = Some p \<and> pr_currency p = c \<and> pr_rate p = x)"

fun review_task_ok :: "review_driver \<Rightarrow> review_row list set \<Rightarrow> review_row list \<Rightarrow> review_pc \<Rightarrow> bool" where
  "review_task_ok rd T rows (F_insert rate baseline) = (\<exists>past \<in> T. baseline = baseline_of rd rate past)"
| "review_task_ok rd T rows (F_checks i rate) = feed_price rd T rows i rate"
| "review_task_ok rd T rows (F_submit i) = row_auto rows i"
| "review_task_ok rd T rows (F_mark i memo hash) = row_auto rows i"
| "review_task_ok rd T rows _ = True"

definition log_ok :: "review_driver \<Rightarrow> review_row list set \<Rightarrow> review_row list \<Rightarrow> submission \<Rightarrow> bool" where
  "log_ok rd T rows sub \<longleftrightarrow> (case sub of (feed, i, c, x) \<Rightarrow>
     if feed then (\<exists>rate. c = toUpperCase (mr_currency rate) \<and> x = mr_rate rate \<and> feed_price rd T rows i rate)
     else reviewed_price rd T rows i c x)"

definition review_inv :: "review_driver \<Rightarrow> review_row list set \<Rightarrow> review_sys \<Rightarrow> bool" where
  [inv_defs]: "review_inv rd T s \<longleftrightarrow> distinct (map rr_id (rv_rows s)) \<and> (\<forall>r \<in> set (rv_rows s). status_pair_ok r)
     \<and> (\<forall>pc \<in> set (rv_tasks s). review_task_ok rd T (rv_rows s) pc) \<and> (\<forall>sub \<in> set (rv_log s). log_ok rd T (rv_rows s) sub)"

text \<open>How the table may change: a decided or automatic status stays, and rows stay with their currency and rate.\<close>

definition status_moves :: "review_row \<Rightarrow> review_row \<Rightarrow> bool" where
  "status_moves r r' \<longleftrightarrow> rr_id r' = rr_id r \<and> rr_currency r' = rr_currency r \<and> rr_rate r' = rr_rate r
     \<and> (rr_review_status r' = rr_review_status r
        \<or> rr_review_status r = Pending \<and> rr_review_status r' \<in> {Approved, Rejected})"

definition rows_progress :: "review_row list \<Rightarrow> review_row list \<Rightarrow> bool" where
  "rows_progress rows rows' \<longleftrightarrow> (\<forall>r \<in> set rows. \<exists>r' \<in> set rows'. status_moves r r')"

lemma status_moves_refl [simp]: "status_moves r r"
  by (simp add: status_moves_def)

lemma status_moves_trans: "status_moves a b \<Longrightarrow> status_moves b c \<Longrightarrow> status_moves a c"
  by (auto simp: status_moves_def)

lemma rows_progress_refl: "rows_progress rows rows"
  using status_moves_refl unfolding rows_progress_def by blast

lemma rows_progress_trans: "rows_progress a b \<Longrightarrow> rows_progress b c \<Longrightarrow> rows_progress a c"
  unfolding rows_progress_def using status_moves_trans by meson

lemma progress_row:
  assumes "rows_progress rows rows'" "\<exists>r \<in> set rows. P r" "\<And>r r'. status_moves r r' \<Longrightarrow> P r \<Longrightarrow> Q r'"
  shows "\<exists>r \<in> set rows'. Q r"
  using assms unfolding rows_progress_def by meson

lemma status_moves_auto: "status_moves r r' \<Longrightarrow> rr_review_status r' = Auto_approved \<longleftrightarrow> rr_review_status r = Auto_approved"
  by (auto simp: status_moves_def)

lemma progress_auto: "rows_progress rows rows' \<Longrightarrow> row_auto rows i \<Longrightarrow> row_auto rows' i"
  unfolding row_auto_def by (erule progress_row, assumption) (simp add: status_moves_auto, simp add: status_moves_def)

lemma progress_feed_price:
  assumes "rows_progress rows rows'" "T \<subseteq> T'" "feed_price rd T rows i rate"
  shows "feed_price rd T' rows' i rate"
proof -
  have "\<exists>r \<in> set rows'. rr_id r = i \<and> rr_review_status r = Auto_approved
      \<and> rr_currency r = toUpperCase (mr_currency rate) \<and> rr_rate r = rd_numeric10 rd (mr_rate rate)"
    by (rule progress_row [OF assms(1) conjunct1 [OF assms(3) [unfolded feed_price_def]]]) (auto simp: status_moves_def)
  then show ?thesis using assms(2,3) unfolding feed_price_def by blast
qed

lemma progress_reviewed_price:
  assumes "rows_progress rows rows'" "T \<subseteq> T'" "reviewed_price rd T rows i c x"
  shows "reviewed_price rd T' rows' i c x"
proof -
  have "\<exists>r \<in> set rows'. rr_id r = i \<and> rr_review_status r \<noteq> Auto_approved \<and> rr_currency r = c \<and> pr_rate (mapReviewRow rd r) = x"
    by (rule progress_row [OF assms(1) conjunct1 [OF assms(3) [unfolded reviewed_price_def]]])
       (auto simp: status_moves_def mapReviewRow_def)
  then show ?thesis using assms(2,3) unfolding reviewed_price_def by blast
qed

lemma feed_price_auto: "feed_price rd T rows i rate \<Longrightarrow> row_auto rows i"
  by (auto simp: feed_price_def row_auto_def)

lemma set_row_ids: "(\<And>r. rr_id (f r) = rr_id r) \<Longrightarrow> map rr_id (set_row i P f rows) = map rr_id rows"
  by (simp add: set_row_def comp_def if_distrib [of rr_id] cong: if_cong)

definition table_step :: "review_row list \<Rightarrow> review_row list \<Rightarrow> bool" where
  "table_step rows rows' \<longleftrightarrow> rows_progress rows rows' \<and> distinct (map rr_id rows') \<and> (\<forall>r \<in> set rows'. status_pair_ok r)"

definition table_ok :: "review_row list \<Rightarrow> bool" where
  "table_ok rows \<longleftrightarrow> distinct (map rr_id rows) \<and> (\<forall>r \<in> set rows. status_pair_ok r)"

lemma table_step_refl: "table_ok rows \<Longrightarrow> table_step rows rows"
  by (simp add: table_ok_def table_step_def rows_progress_refl)

lemma table_step_set_row:
  assumes "table_ok rows" "\<And>r. rr_id (f r) = rr_id r"
    and "\<And>r. r \<in> set rows \<Longrightarrow> rr_id r = i \<Longrightarrow> P r \<Longrightarrow> status_pair_ok (f r) \<and> status_moves r (f r)"
  shows "table_step rows (set_row i P f rows)"
proof -
  have "rows_progress rows (set_row i P f rows)"
    unfolding rows_progress_def
  proof
    fix r assume r: "r \<in> set rows"
    let ?r' = "if rr_id r = i \<and> P r then f r else r"
    have "?r' \<in> set (set_row i P f rows)" using r by (simp add: set_row_def)
    moreover have "status_moves r ?r'" using r assms(3) by (auto simp: status_moves_def)
    ultimately show "\<exists>r' \<in> set (set_row i P f rows). status_moves r r'" by blast
  qed
  moreover have "\<forall>r \<in> set (set_row i P f rows). status_pair_ok r" using assms(1,3) by (auto simp: set_row_def table_ok_def)
  ultimately show ?thesis using assms(1) set_row_ids [OF assms(2)] by (simp add: table_step_def table_ok_def)
qed

lemma table_step_insert:
  assumes "table_ok rows" "new_id \<notin> rr_id ` set rows"
  shows "table_step rows (rows @ [review_row_of rd now new_id baseline rate])"
  using assms by (auto simp: table_step_def table_ok_def rows_progress_def review_row_of_def Let_def status_pair_ok_def
      intro: status_moves_refl)

lemma table_step_mark:
  assumes "table_ok rows" "row_auto rows i"
  shows "table_step rows (markContractSubmitted now i memo hash rows)"
proof -
  have "rr_review_status r = Auto_approved" if "r \<in> set rows" "rr_id r = i" for r
    using that assms by (auto simp: row_auto_def table_ok_def distinct_map inj_on_def)
  then show ?thesis unfolding markContractSubmitted_def
    by (intro table_step_set_row [OF assms(1)]) (simp_all add: status_pair_ok_def status_moves_def)
qed

lemma table_step_decide:
  assumes "table_ok rows"
  shows "table_step rows (snd (approveReview rd now i d memo hash rows))" "table_step rows (snd (rejectReview rd now i d rows))"
  unfolding approveReview_def rejectReview_def Let_def snd_conv
  by (rule table_step_set_row [OF assms]; simp add: decided_def status_pair_ok_def status_moves_def)+

text \<open>What one step of a handler does to the table, and what it leaves behind.\<close>

lemma review_resume_rows:
  assumes p: "review_resume rd now new_id a pc rows = (pc', rows', sub)" and new: "new_id \<notin> rr_id ` set rows"
    and t: "table_ok rows" "review_task_ok rd T rows pc"
  shows "table_step rows rows'"
proof (cases "a = V_fails")
  case True
  then show ?thesis using p t(1) table_step_refl by (simp add: review_resume_def)
next
  case False
  show ?thesis
  proof (cases pc)
    case (F_insert rate b)
    then show ?thesis using p table_step_insert [OF t(1) new] False by (auto simp: review_resume_def approvePendingReview_def)
  next
    case (F_mark i memo hash)
    then show ?thesis using p table_step_mark [OF t(1)] t(2) False by (auto simp: review_resume_def approvePendingReview_def)
  next
    case (A_approve i d memo hash)
    then show ?thesis using p table_step_decide [OF t(1)] False by (auto simp: review_resume_def approvePendingReview_def)
  next
    case (R_reject i d)
    then show ?thesis using p table_step_decide [OF t(1)] False by (auto simp: review_resume_def approvePendingReview_def)
  qed (use p table_step_refl [OF t(1)] False in \<open>auto simp: review_resume_def approvePendingReview_def split: if_splits option.splits\<close>)
qed

lemma find_pending_reviewed:
  assumes "getPendingReviewById rd i rows = Some p" "rows \<in> T"
  shows "reviewed_price rd T rows i (pr_currency p) (pr_rate p)"
proof -
  obtain r where "p = mapReviewRow rd r" "r \<in> set rows" "rr_id r = i" "rr_review_status r = Pending"
    using assms(1) by (auto simp: getPendingReviewById_def find_Some_iff)
  then have "\<exists>r \<in> set rows. rr_id r = i \<and> rr_review_status r \<noteq> Auto_approved \<and> rr_currency r = pr_currency p \<and> pr_rate (mapReviewRow rd r) = pr_rate p"
    by (intro bexI [of _ r]) (simp_all add: mapReviewRow_def)
  then show ?thesis using assms unfolding reviewed_price_def by blast
qed

lemma insert_feed_price:
  assumes "\<not> as_manualReviewRequired (assessment_of new_id b rate)" "past \<in> T" "b = baseline_of rd rate past"
  shows "feed_price rd T (rows @ [review_row_of rd now new_id b rate]) new_id rate"
proof -
  have "verdict b rate = None" using assms(1) by (cases "verdict b rate") (auto simp: assessment_of_def Let_def)
  then show ?thesis using assms(2,3) unfolding feed_price_def by (auto simp: review_row_of_def Let_def)
qed

lemma review_resume_tasks:
  assumes p: "review_resume rd now new_id a pc rows = (pc', rows', sub)" and t: "review_task_ok rd T rows pc" "rows \<in> T"
  shows "pc' = Some q \<Longrightarrow> review_task_ok rd T rows' q" and "x \<in> set sub \<Longrightarrow> log_ok rd T rows' x"
proof -
  show "pc' = Some q \<Longrightarrow> review_task_ok rd T rows' q"
    using p t insert_feed_price [of new_id _ _ _ T rd rows now] feed_price_auto
    by (cases pc) (auto simp: review_resume_def approvePendingReview_def split: if_splits option.splits review_answer.splits)
  show "x \<in> set sub \<Longrightarrow> log_ok rd T rows' x"
    using p t find_pending_reviewed [OF _ t(2), of rd]
    by (cases pc) (auto simp: review_resume_def approvePendingReview_def log_ok_def split: if_splits option.splits review_answer.splits)
qed

lemma task_ok_progress:
  "rows_progress rows rows' \<Longrightarrow> T \<subseteq> T' \<Longrightarrow> review_task_ok rd T rows pc \<Longrightarrow> review_task_ok rd T' rows' pc"
  using progress_auto progress_feed_price by (cases pc) auto

lemma log_ok_progress:
  "rows_progress rows rows' \<Longrightarrow> T \<subseteq> T' \<Longrightarrow> log_ok rd T rows sub \<Longrightarrow> log_ok rd T' rows' sub"
  using progress_feed_price progress_reviewed_price unfolding log_ok_def by (auto split: prod.splits if_splits)


lemma put_task_set: "set (put_task k pc ts) \<subseteq> set ts \<union> set_option pc"
  using set_update_subset_insert [of ts k] set_take_subset [of k ts] set_drop_subset [of "k + 1" ts]
  by (auto simp: put_task_def split: option.splits)

lemma sys_next_inv:
  assumes inv: "review_inv rd T s" and seen: "rv_rows s \<in> T"
    and k: "k < length (rv_tasks s)" and new: "new_id \<notin> rr_id ` set (rv_rows s)"
  shows "review_inv rd T (sys_next rd now new_id a k s) \<and> rows_progress (rv_rows s) (rv_rows (sys_next rd now new_id a k s))"
proof -
  let ?pc = "rv_tasks s ! k"
  obtain pc' rows' sub where p: "review_resume rd now new_id a ?pc (rv_rows s) = (pc', rows', sub)" by (metis prod_cases3)
  have t: "table_ok (rv_rows s)" "review_task_ok rd T (rv_rows s) ?pc" using inv k by (auto simp: review_inv_def table_ok_def)
  have st: "table_step (rv_rows s) rows'" by (rule review_resume_rows [OF p new t])
  then have pr: "rows_progress (rv_rows s) rows'" by (simp add: table_step_def)
  have "review_task_ok rd T rows' q" if "q \<in> set (put_task k pc' (rv_tasks s))" for q
  proof -
    have "q \<in> set (rv_tasks s) \<or> pc' = Some q" using that put_task_set by fastforce
    then show ?thesis using review_resume_tasks(1) [OF p t(2) seen] task_ok_progress [OF pr order_refl] inv by (auto simp: review_inv_def)
  qed
  moreover have "log_ok rd T rows' x" if "x \<in> set (rv_log s @ sub)" for x
    using that review_resume_tasks(2) [OF p t(2) seen, of x] log_ok_progress [OF pr order_refl, of rd T x] inv by (auto simp: review_inv_def)
  ultimately show ?thesis using st pr by (simp add: sys_next_def p review_inv_def table_step_def)
qed

lemma review_step_inv:
  "review_step rd s s' \<Longrightarrow> review_inv rd T s \<Longrightarrow> rv_rows s \<in> T \<Longrightarrow> review_inv rd T s' \<and> rows_progress (rv_rows s) (rv_rows s')"
proof (induction rule: review_step.induct)
  case (Arrive pc s)
  then show ?case by (cases pc) (auto simp: review_inv_def rows_progress_refl)
next
  case (Go_on k s new_id now a)
  then show ?case using sys_next_inv by blast
qed




lemma review_reach_progress:
  assumes "(review_step rd)\<^sup>*\<^sup>* s0 s" "review_inv rd UNIV s0"
  shows "review_inv rd UNIV s \<and> rows_progress (rv_rows s0) (rv_rows s)"
  using assms
proof (induction rule: rtranclp_induct)
  case (step y z)
  then show ?case using review_step_inv [OF step.hyps(2), of UNIV] rows_progress_trans by blast
qed (simp add: rows_progress_refl)

definition review_init :: "review_sys \<Rightarrow> bool" where
  "review_init s \<longleftrightarrow> rv_rows s = [] \<and> rv_tasks s = [] \<and> rv_log s = []"

lemma review_init_inv: "review_init s \<Longrightarrow> review_inv rd T s"
  by (simp add: review_init_def review_inv_def)


text \<open>
  In every interleaving a row keeps its identity, an automatic approval and a reviewer's decision are
  final, and a pending review can only become approved or rejected.
\<close>
theorem reviews_decided_once:
  assumes "review_init s0" "(review_step rd)\<^sup>*\<^sup>* s0 s1" "(review_step rd)\<^sup>*\<^sup>* s1 s2" "r \<in> set (rv_rows s1)"
  shows "\<exists>r' \<in> set (rv_rows s2). rr_id r' = rr_id r
    \<and> (rr_review_status r' = rr_review_status r \<or> rr_review_status r = Pending \<and> rr_review_status r' \<in> {Approved, Rejected})"
proof -
  have "review_inv rd UNIV s1" using review_reach_progress [OF assms(2) review_init_inv [OF assms(1)]] by blast
  then have "rows_progress (rv_rows s1) (rv_rows s2)" using review_reach_progress [OF assms(3)] by blast
  then show ?thesis using assms(4) unfolding rows_progress_def status_moves_def by blast
qed


section \<open>The comparison is the exact one up to rounding\<close>

lemma fl_relative: "0 \<le> x \<Longrightarrow> x * (1 - 2 powi (- 53)) \<le> fl x \<and> fl x \<le> x * (1 + 2 powi (- 53))"
proof -
  assume "0 \<le> x"
  then have "\<bar>fl x - x\<bar> \<le> x * 2 powi (- 53)" using fl_error [of x] by simp
  then show ?thesis unfolding right_diff_distrib distrib_left mult_1_right by linarith
qed

lemma unit_roundoff: "(2::rat) powi (- 53) = 1 / 9007199254740992"
  by (simp add: power_int_minus power_one_over)

text \<open>Three roundings: the difference, the quotient and the percentage.\<close>

lemma change_bounds:
  fixes c b :: rat
  assumes "0 < b"
  defines "e \<equiv> 2 powi (- 53) :: rat" and "x \<equiv> \<bar>c - b\<bar> / b * 100"
  shows "x * (1 - e) ^ 3 \<le> jsmul (jsdiv \<bar>jssub c b\<bar> b) 100 \<and> jsmul (jsdiv \<bar>jssub c b\<bar> b) 100 \<le> x * (1 + e) ^ 3"
proof -
  have e: "0 \<le> e" "e \<le> 1" by (simp_all add: e_def unit_roundoff)
  have a: "\<bar>jssub c b\<bar> = fl \<bar>c - b\<bar>" by (cases "c \<le> b") (use fl_minus [of "b - c"] fl_nonneg [of "b - c"] fl_nonneg [of "c - b"] in \<open>auto simp: jssub_def\<close>)
  have d: "\<bar>c - b\<bar> * (1 - e) \<le> fl \<bar>c - b\<bar>" "fl \<bar>c - b\<bar> \<le> \<bar>c - b\<bar> * (1 + e)" using fl_relative [of "\<bar>c - b\<bar>"] by (simp_all add: e_def)
  let ?q = "fl \<bar>c - b\<bar> / b"
  have q0: "0 \<le> ?q" using assms(1) fl_nonneg [of "\<bar>c - b\<bar>"] by simp
  have q: "\<bar>c - b\<bar> / b * (1 - e) \<le> ?q" "?q \<le> \<bar>c - b\<bar> / b * (1 + e)" using divide_right_mono [OF d(1), of b] divide_right_mono [OF d(2), of b] assms(1) by simp_all
  have f: "?q * (1 - e) \<le> fl ?q" "fl ?q \<le> ?q * (1 + e)" using fl_relative [OF q0] by (simp_all add: e_def)
  have f0: "0 \<le> fl ?q" using fl_nonneg [OF q0] .
  have g: "fl ?q * 100 * (1 - e) \<le> fl (fl ?q * 100)" "fl (fl ?q * 100) \<le> fl ?q * 100 * (1 + e)"
    using fl_relative [of "fl ?q * 100"] f0 by (simp_all add: e_def)
  have "x * (1 - e) ^ 3 \<le> fl ?q * 100 * (1 - e)"
  proof -
    have "\<bar>c - b\<bar> / b * (1 - e) * (1 - e) \<le> fl ?q" using mult_right_mono [OF q(1), of "1 - e"] f(1) e by linarith
    then have "\<bar>c - b\<bar> / b * (1 - e) * (1 - e) * (100 * (1 - e)) \<le> fl ?q * (100 * (1 - e))" using e by (intro mult_right_mono) simp_all
    then show ?thesis by (simp add: x_def power3_eq_cube mult.assoc mult.left_commute)
  qed
  moreover have "fl ?q * 100 * (1 + e) \<le> x * (1 + e) ^ 3"
  proof -
    have "fl ?q \<le> \<bar>c - b\<bar> / b * (1 + e) * (1 + e)" using mult_right_mono [OF q(2), of "1 + e"] f(2) e by linarith
    then have "fl ?q * (100 * (1 + e)) \<le> \<bar>c - b\<bar> / b * (1 + e) * (1 + e) * (100 * (1 + e))" using e by (intro mult_right_mono) simp_all
    then show ?thesis by (simp add: x_def power3_eq_cube mult.assoc mult.left_commute)
  qed
  ultimately show ?thesis using g unfolding jsmul_def jsdiv_def a by linarith
qed

lemma threshold_value: "jsmul PRICE_CHANGE_THRESHOLD 100 = 15"
  unfolding PRICE_CHANGE_THRESHOLD_def jsmul_def by code_simp

text \<open>
  A positive rate that moved by more than fifteen percent of a positive baseline, and a part in a
  million million, is anomalous; one that moved by less, with the same margin, is not.
\<close>
theorem movement_decided_exactly:
  assumes "0 < currentRate" "0 < baselineRate"
  shows "(\<bar>currentRate - baselineRate\<bar> / baselineRate * 100 \<ge> 15 * (1 + 1 / 10 ^ 12)
      \<longrightarrow> mv_isAnomalous (evaluatePriceMovement currentRate baselineRate currency PRICE_CHANGE_THRESHOLD))
    \<and> (\<bar>currentRate - baselineRate\<bar> / baselineRate * 100 \<le> 15 * (1 - 1 / 10 ^ 12)
      \<longrightarrow> \<not> mv_isAnomalous (evaluatePriceMovement currentRate baselineRate currency PRICE_CHANGE_THRESHOLD))"
proof -
  define e :: rat where "e = 2 powi (- 53)"
  define x where "x = \<bar>currentRate - baselineRate\<bar> / baselineRate * 100"
  define y where "y = jsmul (jsdiv \<bar>jssub currentRate baselineRate\<bar> baselineRate) 100"
  have b: "x * (1 - e) ^ 3 \<le> y" "y \<le> x * (1 + e) ^ 3" using change_bounds [OF assms(2), of currentRate] by (simp_all add: x_def y_def e_def)
  have an: "mv_isAnomalous (evaluatePriceMovement currentRate baselineRate currency PRICE_CHANGE_THRESHOLD) \<longleftrightarrow> y > 15"
    using assms threshold_value by (simp add: evaluatePriceMovement_def Let_def y_def)
  have p: "0 \<le> (1 - e) ^ 3" "0 \<le> (1 + e) ^ 3" by (simp_all add: e_def unit_roundoff)
  have k: "15 < 15 * (1 + 1 / 10 ^ 12) * (1 - e) ^ 3" "15 * (1 - 1 / 10 ^ 12) * (1 + e) ^ 3 \<le> 15"
    by (simp_all add: e_def unit_roundoff power3_eq_cube)
  have "15 < y" if "15 * (1 + 1 / 10 ^ 12) \<le> x" using mult_right_mono [OF that p(1)] k(1) b(1) by linarith
  moreover have "y \<le> 15" if "x \<le> 15 * (1 - 1 / 10 ^ 12)" using mult_right_mono [OF that p(2)] k(2) b(2) by linarith
  ultimately show ?thesis using an unfolding x_def [symmetric] by (meson not_less)
qed


theorem movement_decided_exactly_witness:
  "mv_isAnomalous (evaluatePriceMovement 1200 1000 ''NGN'' PRICE_CHANGE_THRESHOLD)
   \<and> \<not> mv_isAnomalous (evaluatePriceMovement 1100 1000 ''NGN'' PRICE_CHANGE_THRESHOLD)"
  using movement_decided_exactly [of 1200 1000 "''NGN''"] movement_decided_exactly [of 1100 1000 "''NGN''"] by simp

text \<open>A rate that is not positive is never held for review.\<close>

lemma nonpositive_rate_not_reviewed:
  "mr_rate rate \<le> 0 \<Longrightarrow> rr_review_status (review_row_of rd now new_id baseline rate) = Auto_approved"
  by (simp add: review_row_of_def verdict_def evaluatePriceMovement_def Let_def split: option.split)

text \<open>When the driver hands numeric columns over as decimal objects, every review reads with the rate 0, and an approval submits that rate.\<close>

lemma decimal_columns_read_as_zero:
  assumes "\<And>x. \<exists>t. rd_read rd x = Raw_decimal t" "getPendingReviewById rd i rows = Some p"
  shows "pr_rate p = 0"
proof -
  obtain r where "p = mapReviewRow rd r" using assms(2) by (auto simp: getPendingReviewById_def)
  moreover obtain t where "rd_read rd (rr_rate r) = Raw_decimal t" using assms(1) by blast
  ultimately show ?thesis by (simp add: mapReviewRow_def parse_field_def)
qed

section \<open>Runs\<close>

datatype review_move = Req review_pc | Go nat int nat review_answer

fun play :: "review_driver \<Rightarrow> review_move list \<Rightarrow> review_sys \<Rightarrow> review_sys" where
  "play rd [] s = s"
| "play rd (Req pc # ms) s = play rd ms (if entry pc then s\<lparr>rv_tasks := rv_tasks s @ [pc]\<rparr> else s)"
| "play rd (Go k now new_id a # ms) s =
     play rd ms (if k < length (rv_tasks s) \<and> new_id \<notin> rr_id ` set (rv_rows s) then sys_next rd now new_id a k s else s)"

lemma play_reach: "(review_step rd)\<^sup>*\<^sup>* s (play rd ms s)"
proof (induction rd ms s rule: play.induct)
  case (2 rd pc ms s)
  have "(review_step rd)\<^sup>*\<^sup>* s (if entry pc then s\<lparr>rv_tasks := rv_tasks s @ [pc]\<rparr> else s)" using Arrive by auto
  then show ?case unfolding play.simps by (rule rtranclp_trans [OF _ 2])
next
  case (3 rd k now new_id a ms s)
  have "(review_step rd)\<^sup>*\<^sup>* s (if k < length (rv_tasks s) \<and> new_id \<notin> rr_id ` set (rv_rows s) then sys_next rd now new_id a k s else s)"
    using Go_on by auto
  then show ?case unfolding play.simps by (rule rtranclp_trans [OF _ 3])
qed simp

definition plain_driver :: review_driver where
  "plain_driver = \<lparr>rd_numeric10 = (\<lambda>x. x), rd_numeric4 = (\<lambda>x. x), rd_read = Raw_number\<rparr>"

definition sample_reviews :: review_sys where
  "sample_reviews = \<lparr>rv_rows = [], rv_tasks = [], rv_log = []\<rparr>"

definition sample_rate :: "rat \<Rightarrow> int \<Rightarrow> market_rate" where
  "sample_rate x t = \<lparr>mr_currency = ''ngn'', mr_rate = x, mr_source = ''a'', mr_timestamp = t\<rparr>"

definition no_notes :: decision where
  "no_notes = \<lparr>dn_reviewedBy = None, dn_reviewNotes = None\<rparr>"

definition feed_moves :: "rat \<Rightarrow> int \<Rightarrow> nat \<Rightarrow> review_move list" where
  "feed_moves x t i = [Req (F_baseline (sample_rate x t)), Go 0 t (i + 10) V_ok, Go 0 t i V_ok, Go 0 t (i + 10) V_ok,
     Go 0 t (i + 10) (V_tx ''m'' ''h''), Go 0 t (i + 10) V_ok]"

text \<open>A rate is submitted, the next one moves by half and is held, and a reviewer approves it.\<close>

definition approval_run :: review_sys where
  "approval_run = play plain_driver (feed_moves 1000 100 1 @ feed_moves 1500 200 2
     @ [Req (A_lookup 2 no_notes), Go 0 300 99 V_ok, Go 0 300 99 (V_tx ''m'' ''h''), Go 0 300 99 V_ok]) sample_reviews"

definition sample_movement :: movement where
  "sample_movement = evaluatePriceMovement 1500 1000 ''NGN'' PRICE_CHANGE_THRESHOLD"

lemma sample_upper [simp]: "toUpperCase ''ngn'' = ''NGN''"
  by code_simp

lemma sample_verdict [simp]: "verdict (Some (1000, 100)) (sample_rate 1500 200) = Some (sample_movement, 1000, 100)"
proof -
  have "jsmul (jsdiv \<bar>jssub 1500 1000\<bar> 1000) 100 = 50" by code_simp
  then have "mv_isAnomalous sample_movement" unfolding sample_movement_def using threshold_value by (simp add: evaluatePriceMovement_def Let_def)
  then show ?thesis by (simp add: verdict_def sample_rate_def flip: sample_movement_def)
qed

lemma no_verdict [simp]: "verdict None rate = None"
  by (simp add: verdict_def)

lemmas run_simps = feed_moves_def sample_reviews_def sys_next_def review_resume_def approvePendingReview_def put_task_def plain_driver_def baseline_of_def
  getLatestSubmittedBaseline_def newest_def REVIEWABLE_CURRENCIES_def PRICE_REVIEW_WINDOW_MS_def parseToNumber_def assessment_of_def
  review_row_of_def markContractSubmitted_def approveReview_def rejectReview_def decided_def set_row_def getPendingReviewById_def
  mapReviewRow_def parse_field_def sample_rate_def [of 1000 100]

lemma sample_rate_fields [simp]: "mr_currency (sample_rate x t) = ''ngn''" "mr_rate (sample_rate x t) = x" "mr_timestamp (sample_rate x t) = t"
  by (simp_all add: sample_rate_def)

lemma approval_run_reach: "(review_step plain_driver)\<^sup>*\<^sup>* sample_reviews approval_run"
  unfolding approval_run_def by (rule play_reach)

lemma approval_run_result:
  "rv_log approval_run = [(True, 1, ''NGN'', 1000), (False, 2, ''NGN'', 1500)]
   \<and> map rr_review_status (rv_rows approval_run) = [Auto_approved, Approved] \<and> map rr_id (rv_rows approval_run) = [1, 2]"
  unfolding approval_run_def by (simp add: run_simps)

lemma sample_reviews_init: "review_init sample_reviews"
  by (simp add: review_init_def sample_reviews_def)


theorem reviews_decided_once_witness:
  "\<exists>r \<in> set (rv_rows (play plain_driver [Req (R_reject 2 no_notes), Go 0 400 99 V_ok] approval_run)). rr_id r = 2 \<and> rr_review_status r = Approved"
proof -
  have "\<exists>r \<in> set (rv_rows approval_run). rr_id r = 2 \<and> rr_review_status r = Approved"
    using approval_run_result by (auto simp: map_eq_Cons_conv)
  then obtain r where r: "r \<in> set (rv_rows approval_run)" "rr_id r = 2" "rr_review_status r = Approved" by blast
  show ?thesis using reviews_decided_once [OF sample_reviews_init approval_run_reach play_reach r(1), of "[Req (R_reject 2 no_notes), Go 0 400 99 V_ok]"] r(2,3) by simp
qed

text \<open>A rejection between the submission of an approval and its update: the price is on the contract, the review is rejected.\<close>

lemma rejected_price_submitted:
  "let s = play plain_driver (feed_moves 1000 100 1 @ feed_moves 1500 200 2
       @ [Req (A_lookup 2 no_notes), Req (R_reject 2 no_notes), Go 0 300 99 V_ok, Go 0 300 99 (V_tx ''m'' ''h''), Go 1 300 99 V_ok, Go 0 300 99 V_ok]) sample_reviews
   in rv_log s = [(True, 1, ''NGN'', 1000), (False, 2, ''NGN'', 1500)] \<and> map rr_review_status (rv_rows s) = [Auto_approved, Rejected]"
  by (simp add: run_simps)

text \<open>Two reviewers approve at the same time: the price is submitted twice.\<close>

lemma approval_submitted_twice:
  "let s = play plain_driver (feed_moves 1000 100 1 @ feed_moves 1500 200 2
       @ [Req (A_lookup 2 no_notes), Req (A_lookup 2 no_notes), Go 0 300 99 V_ok, Go 1 300 99 V_ok]) sample_reviews
   in rv_log s = [(True, 1, ''NGN'', 1000), (False, 2, ''NGN'', 1500), (False, 2, ''NGN'', 1500)]"
  by (simp add: run_simps)

end
