(* ===== verification/OrderFlow.thy ===== *)
theory OrderFlow
  imports JSText
begin

text \<open>
  \<open>src/logic/orderCancellationAnomaly.ts\<close> and \<open>src/services/orderBookImbalanceDetector.ts\<close>: orders placed
  and cancelled per account in a rolling window, the cancellation ratio, and the throttle of accounts
  that exceed it, kept in memory and in Redis.  A call that records an order is cut at its \<open>await\<close>s, and
  calls interleave; whether Redis is open and answers is an input of each step.  The text of the alert
  is left out.

  The lemmas show that the rounded ratio decides as the exact one, that for an account whose calls do
  not overlap a throttle holds until its end whatever Redis does and alerts are at least the throttle
  apart, that overlapping calls alert twice, and that the number of tracked accounts is bounded.
\<close>

section \<open>Ratio of cancellations\<close>

datatype flow_type = Placed | Cancelled

record flow_event =
  fe_identifier :: string
  fe_type :: flow_type
  fe_timestamp :: int
  fe_ip :: "string option"
  fe_publicKey :: "string option"

record flow_thresholds =
  ft_windowMs :: int
  ft_ratioThreshold :: rat
  ft_minPlacements :: int

definition DEFAULT_CANCELLATION_WINDOW_MS :: int where "DEFAULT_CANCELLATION_WINDOW_MS = 60000"
definition DEFAULT_CANCELLATION_RATIO_THRESHOLD :: rat where "DEFAULT_CANCELLATION_RATIO_THRESHOLD = fl (95 / 100)"
definition DEFAULT_MIN_PLACEMENTS :: int where "DEFAULT_MIN_PLACEMENTS = 5"

definition positive_or :: "int \<Rightarrow> int option \<Rightarrow> int" where
  "positive_or d x = (case x of Some n \<Rightarrow> if n > 0 then n else d | None \<Rightarrow> d)"

text \<open>The three settings, empty when they are not set.\<close>

definition resolveCancellationThresholds :: "string \<Rightarrow> string \<Rightarrow> string \<Rightarrow> flow_thresholds" where
  "resolveCancellationThresholds window ratio placements =
     \<lparr>ft_windowMs = positive_or DEFAULT_CANCELLATION_WINDOW_MS (parseInt window),
      ft_ratioThreshold = (case parseFloat ratio of
         Some x \<Rightarrow> if x > 0 \<and> x < 1 then x else DEFAULT_CANCELLATION_RATIO_THRESHOLD | None \<Rightarrow> DEFAULT_CANCELLATION_RATIO_THRESHOLD),
      ft_minPlacements = positive_or DEFAULT_MIN_PLACEMENTS (parseInt placements)\<rparr>"

definition pruneWindow :: "flow_event list \<Rightarrow> int \<Rightarrow> int \<Rightarrow> flow_event list" where
  "pruneWindow events now windowMs = filter (\<lambda>e. fe_timestamp e > now - windowMs) events"

definition count_type :: "flow_type \<Rightarrow> flow_event list \<Rightarrow> nat" where
  "count_type ty events = length (filter (\<lambda>e. fe_type e = ty) events)"

record evaluation =
  ev_identifier :: string
  ev_placed :: nat
  ev_cancelled :: nat
  ev_cancellationRatio :: rat
  ev_flagged :: bool
  ev_windowMs :: int
  ev_windowStart :: int
  ev_windowEnd :: int

definition evaluateCancellationRatio :: "string \<Rightarrow> flow_event list \<Rightarrow> int \<Rightarrow> flow_thresholds \<Rightarrow> evaluation" where
  "evaluateCancellationRatio identifier events now th =
     (let placed = count_type Placed events; cancelled = count_type Cancelled events;
          ratio = (if placed > 0 then jsdiv (of_nat cancelled) (of_nat placed) else 0) in
      \<lparr>ev_identifier = identifier, ev_placed = placed, ev_cancelled = cancelled, ev_cancellationRatio = ratio,
       ev_flagged = (\<not> int placed < ft_minPlacements th \<and> ratio > ft_ratioThreshold th),
       ev_windowMs = ft_windowMs th, ev_windowStart = now - ft_windowMs th, ev_windowEnd = now\<rparr>)"

section \<open>Imbalance of the book\<close>

datatype direction = Bid_side | Ask_side | Balanced

definition sumQuantity :: "rat list \<Rightarrow> rat" where
  "sumQuantity qs = foldl (\<lambda>total q. if q > 0 then jsadd total q else total) 0 qs"

definition calculateOrderBookImbalance :: "rat list \<Rightarrow> rat list \<Rightarrow> rat \<times> rat \<times> rat \<times> direction" where
  "calculateOrderBookImbalance bids asks =
     (let bidDepth = sumQuantity bids; askDepth = sumQuantity asks; total = jsadd bidDepth askDepth;
          imbalanceRatio = (if total > 0 then jsdiv (jssub bidDepth askDepth) total else 0) in
      (bidDepth, askDepth, imbalanceRatio, if imbalanceRatio > 0 then Bid_side else if imbalanceRatio < 0 then Ask_side else Balanced))"

section \<open>The detector\<close>

record flow_input =
  fi_identifier :: "string option"
  fi_publicKey :: "string option"
  fi_ip :: "string option"
  fi_type :: string
  fi_timestamp :: "int option"

definition or_none :: "'a option \<Rightarrow> 'a option \<Rightarrow> 'a option" where
  "or_none a b = (case a of Some x \<Rightarrow> Some x | None \<Rightarrow> b)"

definition resolveOrderFlowIdentifier :: "flow_input \<Rightarrow> string option" where
  "resolveOrderFlowIdentifier inp =
     (let candidate = js_trim (case or_none (fi_identifier inp) (or_none (fi_publicKey inp) (fi_ip inp)) of Some s \<Rightarrow> s | None \<Rightarrow> []) in
      if candidate \<noteq> [] then Some candidate else None)"

record flow_config =
  fc_thresholds :: flow_thresholds
  fc_throttleMs :: int
  fc_maxTrackedIdentifiers :: nat

record flow_anomaly =
  an_identifier :: string
  an_placed :: nat
  an_cancelled :: nat
  an_cancellationRatio :: rat
  an_windowMs :: int
  an_detectedAt :: int
  an_throttledUntil :: int
  an_ip :: "string option"
  an_publicKey :: "string option"

text \<open>The maps of the detector, and the anomalies stored in Redis by identifier.\<close>

record detector =
  dt_windows :: "(string \<times> flow_event list) list"
  dt_throttledUntil :: "(string \<times> int) list"
  dt_redis :: "(string \<times> flow_anomaly) list"

datatype redis_call = Redis_closed | Redis_fails | Redis_open

text \<open>\<open>isThrottled\<close>: the memory first, where a throttle that has ended is forgotten, then Redis.\<close>

definition in_memory :: "string \<Rightarrow> int \<Rightarrow> detector \<Rightarrow> bool" where
  "in_memory identifier t d = (case jm_get (dt_throttledUntil d) identifier of Some u \<Rightarrow> u > t | None \<Rightarrow> False)"

definition forget_ended :: "string \<Rightarrow> int \<Rightarrow> detector \<Rightarrow> detector" where
  "forget_ended identifier t d =
     (if in_memory identifier t d then d else d\<lparr>dt_throttledUntil := jm_delete identifier (dt_throttledUntil d)\<rparr>)"

definition in_redis :: "redis_call \<Rightarrow> string \<Rightarrow> int \<Rightarrow> detector \<Rightarrow> bool" where
  "in_redis rc identifier t d =
     (if rc = Redis_open then (case jm_get (dt_redis d) identifier of Some a \<Rightarrow> an_throttledUntil a > t | None \<Rightarrow> False) else False)"

definition isThrottled :: "redis_call \<Rightarrow> string \<Rightarrow> int \<Rightarrow> detector \<Rightarrow> bool \<times> detector" where
  "isThrottled rc identifier t d = (in_memory identifier t d \<or> in_redis rc identifier t d, forget_ended identifier t d)"

definition non_empty :: "string option \<Rightarrow> string option" where
  "non_empty s = (case s of Some t \<Rightarrow> if t = [] then None else Some t | None \<Rightarrow> None)"

text \<open>The anomaly of a flagged account; setting the throttle in memory comes first, then the write to Redis.\<close>

definition anomaly_of :: "flow_config \<Rightarrow> string \<Rightarrow> evaluation \<Rightarrow> flow_input \<Rightarrow> int \<Rightarrow> flow_anomaly" where
  "anomaly_of cfg identifier ev inp t =
     \<lparr>an_identifier = identifier, an_placed = ev_placed ev, an_cancelled = ev_cancelled ev, an_cancellationRatio = ev_cancellationRatio ev,
      an_windowMs = ev_windowMs ev, an_detectedAt = t, an_throttledUntil = t + fc_throttleMs cfg,
      an_ip = non_empty (fi_ip inp), an_publicKey = non_empty (fi_publicKey inp)\<rparr>"

definition applyThrottle :: "flow_config \<Rightarrow> string \<Rightarrow> int \<Rightarrow> detector \<Rightarrow> detector" where
  "applyThrottle cfg identifier t d =
     (let throttledUntil = t + fc_throttleMs cfg in
      d\<lparr>dt_throttledUntil := jm_set identifier throttledUntil (dt_throttledUntil d)\<rparr>)"

definition enforceCapacity :: "flow_config \<Rightarrow> (string \<times> flow_event list) list \<Rightarrow> (string \<times> flow_event list) list" where
  "enforceCapacity cfg ws = (if length ws \<le> fc_maxTrackedIdentifiers cfg then ws else case ws of [] \<Rightarrow> [] | (k, _) # _ \<Rightarrow> jm_delete k ws)"

datatype flow_error = No_identifier | Unsupported_type string

definition flow_time :: "int \<Rightarrow> flow_input \<Rightarrow> int" where
  "flow_time now inp = (case fi_timestamp inp of Some x \<Rightarrow> x | None \<Rightarrow> now)"

definition extend_window :: "flow_config \<Rightarrow> string \<Rightarrow> int \<Rightarrow> flow_input \<Rightarrow> detector \<Rightarrow> flow_event list" where
  "extend_window cfg identifier t inp d =
     pruneWindow ((case jm_get (dt_windows d) identifier of Some w \<Rightarrow> w | None \<Rightarrow> [])
       @ [\<lparr>fe_identifier = identifier, fe_type = (if fi_type inp = ''placed'' then Placed else Cancelled), fe_timestamp = t,
           fe_ip = non_empty (fi_ip inp), fe_publicKey = non_empty (fi_publicKey inp)\<rparr>]) t (ft_windowMs (fc_thresholds cfg))"

text \<open>
  Where a call that found its account flagged is suspended: in \<open>isThrottled\<close> at the answer of Redis, at
  its result (the flag), and in \<open>applyThrottle\<close> at the write to Redis, if there is one.
\<close>

datatype flow_pc =
    F_get string evaluation flow_input int
  | F_apply string evaluation flow_input int bool
  | F_set flow_anomaly bool bool

text \<open>The call up to its first \<open>await\<close>; \<open>redisOpen\<close>: Redis is connected.\<close>

definition recordOrderFlow ::
  "flow_config \<Rightarrow> int \<Rightarrow> bool \<Rightarrow> flow_input \<Rightarrow> detector \<Rightarrow> (flow_error, flow_pc option) result \<times> detector" where
  "recordOrderFlow cfg now redisOpen inp d =
     (case resolveOrderFlowIdentifier inp of
        None \<Rightarrow> (Inl No_identifier, d)
      | Some identifier \<Rightarrow>
          if fi_type inp \<noteq> ''placed'' \<and> fi_type inp \<noteq> ''cancelled'' then (Inl (Unsupported_type (fi_type inp)), d)
          else let t = flow_time now inp;
                   window = extend_window cfg identifier t inp d;
                   d1 = d\<lparr>dt_windows := enforceCapacity cfg (jm_set identifier window (dt_windows d))\<rparr>;
                   ev = evaluateCancellationRatio identifier window t (fc_thresholds cfg) in
               if \<not> ev_flagged ev then (Inr None, d1)
               else (Inr (Some (if in_memory identifier t d1 then F_apply identifier ev inp t True
                                else if redisOpen then F_get identifier ev inp t else F_apply identifier ev inp t False)),
                     forget_ended identifier t d1))"

text \<open>
  The call goes on.  At its end it returns the anomaly, which is broadcast and alerted (the flag) when
  the account was not throttled already.
\<close>

definition order_resume :: "flow_config \<Rightarrow> redis_call \<Rightarrow> flow_pc \<Rightarrow> detector \<Rightarrow> flow_pc option \<times> (flow_anomaly \<times> bool) list \<times> detector" where
  "order_resume cfg rc pc d = (case pc of
      F_get identifier ev inp t \<Rightarrow> (Some (F_apply identifier ev inp t (in_redis rc identifier t d)), [], d)
    | F_apply identifier ev inp t already \<Rightarrow>
        (Some (F_set (anomaly_of cfg identifier ev inp t) (\<not> already) (rc \<noteq> Redis_closed)), [], applyThrottle cfg identifier t d)
    | F_set a alert writes \<Rightarrow>
        (None, [(a, alert)], if writes \<and> rc = Redis_open then d\<lparr>dt_redis := jm_set (an_identifier a) a (dt_redis d)\<rparr> else d))"

definition getCancellationStats :: "flow_config \<Rightarrow> string \<Rightarrow> int \<Rightarrow> detector \<Rightarrow> evaluation" where
  "getCancellationStats cfg identifier t d =
     evaluateCancellationRatio identifier
       (pruneWindow (case jm_get (dt_windows d) identifier of Some w \<Rightarrow> w | None \<Rightarrow> []) t (ft_windowMs (fc_thresholds cfg))) t (fc_thresholds cfg)"

definition detector_reset :: "string option \<Rightarrow> detector \<Rightarrow> detector" where
  "detector_reset identifier d = (case non_empty identifier of
      Some i \<Rightarrow> d\<lparr>dt_windows := jm_delete i (dt_windows d), dt_throttledUntil := jm_delete i (dt_throttledUntil d)\<rparr>
    | None \<Rightarrow> d\<lparr>dt_windows := [], dt_throttledUntil := []\<rparr>)"

section \<open>The flag is the exact one\<close>

lemma ratio_decided:
  fixes c p :: nat
  assumes "0 < p" "p < 2 ^ 40"
  shows "jsdiv (of_nat c) (of_nat p) > DEFAULT_CANCELLATION_RATIO_THRESHOLD \<longleftrightarrow> 100 * c > 95 * p"
proof
  assume gt: "jsdiv (of_nat c) (of_nat p) > DEFAULT_CANCELLATION_RATIO_THRESHOLD"
  show "100 * c > 95 * p"
  proof (rule ccontr)
    assume "\<not> 100 * c > 95 * p"
    then have "(of_nat (100 * c) :: rat) \<le> of_nat (95 * p)" by (simp only: of_nat_le_iff not_less)
    then have "(of_nat c :: rat) / of_nat p \<le> 95 / 100" using assms(1) by (simp add: field_simps)
    then show False using gt fl_mono unfolding jsdiv_def DEFAULT_CANCELLATION_RATIO_THRESHOLD_def by (meson not_less)
  qed
next
  assume "100 * c > 95 * p"
  then have "20 * c \<ge> 19 * p + 1" by linarith
  then have "(of_nat (20 * c) :: rat) \<ge> of_nat (19 * p + 1)" by (simp only: of_nat_le_iff)
  then have "(19 * of_nat p + 1) / 20 \<le> (of_nat c :: rat)" by simp
  then have "(19 * of_nat p + 1) / 20 / of_nat p \<le> (of_nat c :: rat) / of_nat p" by (rule divide_right_mono) simp
  moreover have "(19 * of_nat p + 1) / 20 / of_nat p = (19 / 20 + 1 / (20 * of_nat p) :: rat)" using assms(1) by (simp add: field_simps)
  ultimately have q: "(of_nat c :: rat) / of_nat p \<ge> 19 / 20 + 1 / (20 * of_nat p)" by simp
  let ?q = "(of_nat c :: rat) / of_nat p" and ?e = "1 / 9007199254740992 :: rat"
  have e: "(2::rat) powi (- 53) = ?e" by (simp add: power_int_minus power_one_over)
  have "\<bar>fl ?q - ?q\<bar> \<le> ?q * ?e" using fl_error [of ?q] unfolding e by simp
  then have lo: "fl ?q \<ge> ?q * (1 - ?e)" unfolding right_diff_distrib mult_1_right by linarith
  have "\<bar>fl (95 / 100) - 95 / 100\<bar> \<le> 95 / 100 * ?e" using fl_error [of "95 / 100"] unfolding e by simp
  then have hi: "fl (95 / 100) \<le> 95 / 100 + 95 / 100 * ?e" by linarith
  have "(of_nat p :: rat) < of_nat (2 ^ 40)" using assms(2) by (simp only: of_nat_less_iff)
  then have "1 / (20 * of_nat p :: rat) > 1 / (20 * 2 ^ 40)" using assms(1) by (intro divide_strict_left_mono) simp_all
  then have "?q > 19 / 20 + 1 / (20 * 2 ^ 40)" using q by linarith
  then have "?q * (1 - ?e) > (19 / 20 + 1 / (20 * 2 ^ 40)) * (1 - ?e)" by simp
  moreover have "(19 / 20 + 1 / (20 * 2 ^ 40)) * (1 - ?e) \<ge> 95 / 100 + 95 / 100 * ?e" by simp
  ultimately show "jsdiv (of_nat c) (of_nat p) > DEFAULT_CANCELLATION_RATIO_THRESHOLD"
    using lo hi unfolding jsdiv_def DEFAULT_CANCELLATION_RATIO_THRESHOLD_def by linarith
qed

text \<open>
  With the default threshold an account is flagged exactly when it placed at least the minimum in its
  window and cancelled more than 95 of every 100 orders; the rounding of the quotient never matters.
\<close>
theorem flag_is_exact:
  assumes "ft_ratioThreshold th = DEFAULT_CANCELLATION_RATIO_THRESHOLD" "0 < ft_minPlacements th" "length events < 2 ^ 40"
  shows "ev_flagged (evaluateCancellationRatio identifier events now th)
    \<longleftrightarrow> ft_minPlacements th \<le> int (count_type Placed events) \<and> 100 * count_type Cancelled events > 95 * count_type Placed events"
proof -
  have "count_type Placed events < 2 ^ 40" using assms(3) length_filter_le [of _ events] unfolding count_type_def by (meson le_less_trans)
  then show ?thesis using ratio_decided [of "count_type Placed events" "count_type Cancelled events"] assms
    by (auto simp: evaluateCancellationRatio_def Let_def not_less)
qed


section \<open>Throttles hold and alerts are spaced\<close>

text \<open>
  A history: calls that record an order begin and go on, other parts of the service check an account,
  Redis drops a key, an account or all accounts are reset.  The system keeps what the finished calls
  returned, with whether it was alerted.
\<close>

datatype flow_op =
    Order int bool flow_input
  | Go_on nat redis_call
  | Check redis_call string int
  | Drop string int
  | Reset "string option"

record flow_sys =
  fs_detector :: detector
  fs_calls :: "flow_pc list"
  fs_out :: "(flow_anomaly \<times> bool) list"

definition put_call :: "nat \<Rightarrow> flow_pc option \<Rightarrow> flow_pc list \<Rightarrow> flow_pc list" where
  "put_call k pc cs = (case pc of Some p \<Rightarrow> cs[k := p] | None \<Rightarrow> take k cs @ drop (k + 1) cs)"

fun flow_step :: "flow_config \<Rightarrow> flow_op \<Rightarrow> flow_sys \<Rightarrow> flow_sys" where
  "flow_step cfg (Order now redisOpen inp) s = (case recordOrderFlow cfg now redisOpen inp (fs_detector s) of
      (r, d) \<Rightarrow> s\<lparr>fs_detector := d, fs_calls := fs_calls s @ (case r of Inr (Some pc) \<Rightarrow> [pc] | _ \<Rightarrow> [])\<rparr>)"
| "flow_step cfg (Go_on k rc) s = (if k < length (fs_calls s) then
      (case order_resume cfg rc (fs_calls s ! k) (fs_detector s) of
         (pc, new, d) \<Rightarrow> \<lparr>fs_detector = d, fs_calls = put_call k pc (fs_calls s), fs_out = fs_out s @ new\<rparr>) else s)"
| "flow_step cfg (Check rc i t) s = s\<lparr>fs_detector := snd (isThrottled rc i t (fs_detector s))\<rparr>"
| "flow_step cfg (Drop i t) s = s\<lparr>fs_detector := (fs_detector s)\<lparr>dt_redis := jm_delete i (dt_redis (fs_detector s))\<rparr>\<rparr>"
| "flow_step cfg (Reset i) s = s\<lparr>fs_detector := detector_reset i (fs_detector s)\<rparr>"

definition flow_run :: "flow_config \<Rightarrow> flow_op list \<Rightarrow> flow_sys \<Rightarrow> flow_sys" where
  "flow_run cfg xs s = fold (flow_step cfg) xs s"

text \<open>The times that the operations of a history refer to.\<close>

fun op_times :: "flow_op \<Rightarrow> int list" where
  "op_times (Order now redisOpen inp) = [flow_time now inp]"
| "op_times (Check rc i t) = [t]"
| "op_times (Drop i t) = [t]"
| "op_times _ = []"

fun resets :: "string \<Rightarrow> flow_op \<Rightarrow> bool" where
  "resets i (Reset r) = (case non_empty r of Some j \<Rightarrow> j = i | None \<Rightarrow> True)"
| "resets i _ = False"

fun pc_id :: "flow_pc \<Rightarrow> string" where
  "pc_id (F_get i ev inp t) = i" | "pc_id (F_apply i ev inp t already) = i" | "pc_id (F_set a alert writes) = an_identifier a"

text \<open>No call for the account begins while another one for it is under way.\<close>

fun call_alone :: "string \<Rightarrow> flow_op \<Rightarrow> flow_sys \<Rightarrow> bool" where
  "call_alone i (Order now redisOpen inp) s = (resolveOrderFlowIdentifier inp = Some i \<longrightarrow> i \<notin> pc_id ` set (fs_calls s))"
| "call_alone i _ s = True"

fun calls_apart :: "flow_config \<Rightarrow> string \<Rightarrow> flow_op list \<Rightarrow> flow_sys \<Rightarrow> bool" where
  "calls_apart cfg i [] s = True"
| "calls_apart cfg i (x # xs) s = (call_alone i x s \<and> calls_apart cfg i xs (flow_step cfg x s))"

section \<open>The invariant of one account\<close>

definition held :: "int \<Rightarrow> detector \<Rightarrow> flow_anomaly \<Rightarrow> bool" where
  "held t d a \<longleftrightarrow> an_throttledUntil a \<le> t \<or> (\<exists>u. jm_get (dt_throttledUntil d) (an_identifier a) = Some u \<and> an_throttledUntil a \<le> u)"

definition outcomes :: "string \<Rightarrow> flow_sys \<Rightarrow> (flow_anomaly \<times> bool) list" where
  "outcomes i s = filter (\<lambda>(a, al). an_identifier a = i) (fs_out s)"

definition spaced_alerts :: "(flow_anomaly \<times> bool) list \<Rightarrow> bool" where
  "spaced_alerts out \<longleftrightarrow> (\<forall>j k. j < k \<longrightarrow> k < length out \<longrightarrow> snd (out ! j) \<longrightarrow> snd (out ! k)
     \<longrightarrow> an_throttledUntil (fst (out ! j)) \<le> an_detectedAt (fst (out ! k)))"

definition found_ok :: "flow_config \<Rightarrow> int \<Rightarrow> detector \<Rightarrow> flow_anomaly \<Rightarrow> bool" where
  "found_ok cfg t d a \<longleftrightarrow> held t d a \<and> an_detectedAt a \<le> t \<and> an_throttledUntil a = an_detectedAt a + fc_throttleMs cfg"

text \<open>What the only call of the account knows about those that have finished.\<close>

fun call_ok :: "flow_config \<Rightarrow> int \<Rightarrow> flow_sys \<Rightarrow> flow_pc \<Rightarrow> bool" where
  "call_ok cfg now s (F_get i ev inp t) = (t \<le> now \<and> (\<forall>(a, al) \<in> set (outcomes i s). an_throttledUntil a \<le> t \<and> an_detectedAt a \<le> t))"
| "call_ok cfg now s (F_apply i ev inp t already) =
     (t \<le> now \<and> (\<forall>(a, al) \<in> set (outcomes i s). (\<not> already \<longrightarrow> an_throttledUntil a \<le> t) \<and> an_detectedAt a \<le> t))"
| "call_ok cfg now s (F_set b alert writes) = (found_ok cfg now (fs_detector s) b
     \<and> (alert \<longrightarrow> (\<forall>(a, al) \<in> set (outcomes (an_identifier b) s). an_throttledUntil a \<le> an_detectedAt b)))"

definition flow_inv :: "flow_config \<Rightarrow> string \<Rightarrow> int \<Rightarrow> flow_sys \<Rightarrow> bool" where
  [inv_defs]: "flow_inv cfg i now s \<longleftrightarrow> spaced_alerts (outcomes i s)
     \<and> (\<forall>(a, al) \<in> set (outcomes i s). found_ok cfg now (fs_detector s) a)
     \<and> length (filter (\<lambda>pc. pc_id pc = i) (fs_calls s)) \<le> 1
     \<and> (\<forall>pc \<in> set (fs_calls s). pc_id pc = i \<longrightarrow> call_ok cfg now s pc)"

abbreviation throttle_entry :: "string \<Rightarrow> detector \<Rightarrow> int option" where
  "throttle_entry i d \<equiv> jm_get (dt_throttledUntil d) i"

lemma held_cong: "throttle_entry (an_identifier a) d' = throttle_entry (an_identifier a) d \<Longrightarrow> held t d' a = held t d a"
  by (simp add: held_def)

lemma held_mono: "held t0 d a \<Longrightarrow> t0 \<le> t \<Longrightarrow> held t d a"
  by (auto simp: held_def)

lemma held_memory: "held t d a \<Longrightarrow> \<not> in_memory (an_identifier a) t d \<Longrightarrow> an_throttledUntil a \<le> t"
  by (auto simp: held_def in_memory_def)

lemma held_forget: "held t d a \<Longrightarrow> held t (forget_ended i t d) a"
  by (auto simp: held_def forget_ended_def in_memory_def split: option.splits if_splits)

lemma forget_other [simp]: "j \<noteq> i \<Longrightarrow> throttle_entry i (forget_ended j t d) = throttle_entry i d"
  by (auto simp: forget_ended_def)

lemma found_ok_mono: "found_ok cfg t0 d a \<Longrightarrow> t0 \<le> t \<Longrightarrow> found_ok cfg t d a"
  using held_mono by (auto simp: found_ok_def)

lemma found_ok_forget: "found_ok cfg t d a \<Longrightarrow> found_ok cfg t (forget_ended i t d) a"
  by (simp add: found_ok_def held_forget)

text \<open>A step that keeps the finished calls and the throttle of the account keeps the invariant.\<close>

lemma flow_inv_frame:
  assumes "flow_inv cfg i now s" "now \<le> now'" "outcomes i s' = outcomes i s"
    and "filter (\<lambda>pc. pc_id pc = i) (fs_calls s') = filter (\<lambda>pc. pc_id pc = i) (fs_calls s)"
    and "\<And>a. an_identifier a = i \<Longrightarrow> found_ok cfg now (fs_detector s) a \<Longrightarrow> found_ok cfg now' (fs_detector s') a"
  shows "flow_inv cfg i now' s'"
proof -
  have calls: "pc \<in> set (fs_calls s')  \<and> pc_id pc = i \<longleftrightarrow> pc \<in> set (fs_calls s) \<and> pc_id pc = i" for pc
    using arg_cong [OF assms(4), of set] by auto
  have "call_ok cfg now' s' pc" if "pc \<in> set (fs_calls s')" "pc_id pc = i" for pc
  proof -
    have "call_ok cfg now s pc" using that calls assms(1) by (auto simp: flow_inv_def)
    then show ?thesis using that(2) assms(2,3,5) by (cases pc) auto
  qed
  moreover have "found_ok cfg now' (fs_detector s') a" if "(a, al) \<in> set (outcomes i s)" for a al
    using assms(1,5) that by (auto simp: flow_inv_def outcomes_def)
  ultimately show ?thesis using assms(1,3,4) by (auto simp: flow_inv_def)
qed

lemma spaced_alerts_snoc:
  assumes "spaced_alerts out" "\<And>b. (b, True) \<in> set out \<Longrightarrow> al \<Longrightarrow> an_throttledUntil b \<le> an_detectedAt a"
  shows "spaced_alerts (out @ [(a, al)])"
  unfolding spaced_alerts_def
proof (intro allI impI)
  fix j k assume jk: "j < k" "k < length (out @ [(a, al)])" "snd ((out @ [(a, al)]) ! j)" "snd ((out @ [(a, al)]) ! k)"
  show "an_throttledUntil (fst ((out @ [(a, al)]) ! j)) \<le> an_detectedAt (fst ((out @ [(a, al)]) ! k))"
  proof (cases "k < length out")
    case True
    then show ?thesis using assms(1) jk by (simp add: spaced_alerts_def nth_append)
  next
    case False
    then have k: "k = length out" "j < length out" using jk by simp_all
    have "out ! j = (fst (out ! j), True)" using jk(3) k(2) by (simp add: nth_append prod_eq_iff)
    then have "(fst (out ! j), True) \<in> set out" using nth_mem [OF k(2)] by simp
    then show ?thesis using assms(2) [of "fst (out ! j)"] jk(4) k by (simp add: nth_append)
  qed
qed

text \<open>What a call leaves behind at its first \<open>await\<close>.\<close>

lemma recordOrderFlow_cases:
  assumes "recordOrderFlow cfg now redisOpen inp d = (r, d')"
  obtains (ended) "\<forall>pc. r \<noteq> Inr (Some pc)" "dt_throttledUntil d' = dt_throttledUntil d"
    | (flagged) j ev pc where "resolveOrderFlowIdentifier inp = Some j" "r = Inr (Some pc)"
        "dt_throttledUntil d' = dt_throttledUntil (forget_ended j (flow_time now inp) d)"
        "if in_memory j (flow_time now inp) d then pc = F_apply j ev inp (flow_time now inp) True
         else pc \<in> {F_get j ev inp (flow_time now inp), F_apply j ev inp (flow_time now inp) False}"
proof (cases "resolveOrderFlowIdentifier inp")
  case None
  then show ?thesis using assms ended by (auto simp: recordOrderFlow_def)
next
  case (Some j)
  let ?t = "flow_time now inp" let ?w = "extend_window cfg j ?t inp d"
  let ?d1 = "d\<lparr>dt_windows := enforceCapacity cfg (jm_set j ?w (dt_windows d))\<rparr>"
  let ?ev = "evaluateCancellationRatio j ?w ?t (fc_thresholds cfg)"
  have m: "in_memory j ?t ?d1 = in_memory j ?t d" "dt_throttledUntil (forget_ended j ?t ?d1) = dt_throttledUntil (forget_ended j ?t d)"
    by (simp_all add: in_memory_def forget_ended_def)
  have e: "(r, d') = (if fi_type inp \<noteq> ''placed'' \<and> fi_type inp \<noteq> ''cancelled'' then (Inl (Unsupported_type (fi_type inp)), d)
      else if \<not> ev_flagged ?ev then (Inr None, ?d1)
      else (Inr (Some (if in_memory j ?t d then F_apply j ?ev inp ?t True else if redisOpen then F_get j ?ev inp ?t else F_apply j ?ev inp ?t False)),
            forget_ended j ?t ?d1))"
    using assms unfolding recordOrderFlow_def Some Let_def option.case m(1) by (rule sym)
  show ?thesis
  proof (cases "(fi_type inp = ''placed'' \<or> fi_type inp = ''cancelled'') \<and> ev_flagged ?ev")
    case True
    let ?pc = "if in_memory j ?t d then F_apply j ?ev inp ?t True else if redisOpen then F_get j ?ev inp ?t else F_apply j ?ev inp ?t False"
    have "(r, d') = (Inr (Some ?pc), forget_ended j ?t ?d1)" using e True by presburger
    then have p: "r = Inr (Some ?pc)" "d' = forget_ended j ?t ?d1" by blast+
    show ?thesis by (rule flagged [OF Some p(1), of ?ev]) (simp only: p(2) m(2), simp)
  next
    case False
    then have "(\<forall>pc. r \<noteq> Inr (Some pc)) \<and> dt_throttledUntil d' = dt_throttledUntil d"
      using e by (auto split: if_splits)
    then show ?thesis using ended by blast
  qed
qed

lemma found_ok_entry: "throttle_entry (an_identifier a) d' = throttle_entry (an_identifier a) d \<Longrightarrow> found_ok cfg t d' a = found_ok cfg t d a"
  unfolding found_ok_def held_def by simp

lemma order_begins_inv:
  assumes inv: "flow_inv cfg i now s" "now \<le> t"
    and found: "\<And>a. found_ok cfg now (fs_detector s) a \<Longrightarrow> found_ok cfg t d a"
    and none: "i \<notin> pc_id ` set (fs_calls s)"
    and pc: "if in_memory i t (fs_detector s) then pc = F_apply i ev inp t True else pc \<in> {F_get i ev inp t, F_apply i ev inp t False}"
  shows "flow_inv cfg i t (s\<lparr>fs_detector := d, fs_calls := fs_calls s @ [pc]\<rparr>)"
proof -
  let ?s = "s\<lparr>fs_detector := d, fs_calls := fs_calls s @ [pc]\<rparr>"
  have out: "outcomes i ?s = outcomes i s" by (simp add: outcomes_def)
  have old: "found_ok cfg t (fs_detector s) a" if "(a, al) \<in> set (outcomes i s)" for a al
    using inv(1) that found_ok_mono [OF _ inv(2)] by (auto simp: flow_inv_def)
  have "an_throttledUntil a \<le> t" if "(a, al) \<in> set (outcomes i s)" "\<not> in_memory i t (fs_detector s)" for a al
    using old [OF that(1)] held_memory [of t "fs_detector s" a] that by (auto simp: found_ok_def outcomes_def)
  then have ok: "call_ok cfg t ?s pc" using pc old out by (auto simp: found_ok_def split: if_splits)
  have "filter (\<lambda>pc. pc_id pc = i) (fs_calls s) = []" using none by (auto simp: filter_empty_conv image_iff)
  then have len: "length (filter (\<lambda>pc. pc_id pc = i) (fs_calls ?s)) \<le> 1" by simp
  have "call_ok cfg t ?s x" if "x \<in> set (fs_calls ?s)" "pc_id x = i" for x
    using that none ok by (auto simp: image_iff)
  then show ?thesis using inv(1) out found len unfolding flow_inv_def by auto
qed

lemma order_step_inv:
  assumes inv: "flow_inv cfg i now s" and "now \<le> flow_time n inp" "call_alone i (Order n redisOpen inp) s"
  shows "flow_inv cfg i (flow_time n inp) (flow_step cfg (Order n redisOpen inp) s)"
proof -
  let ?t = "flow_time n inp"
  obtain r d where r: "recordOrderFlow cfg n redisOpen inp (fs_detector s) = (r, d)" by fastforce
  from r show ?thesis
  proof (cases rule: recordOrderFlow_cases)
    case ended
    have e: "flow_step cfg (Order n redisOpen inp) s = s\<lparr>fs_detector := d, fs_calls := fs_calls s @ []\<rparr>"
      using ended(1) r by (auto split: sum.split option.split)
    show ?thesis unfolding e
    proof (rule flow_inv_frame [OF inv assms(2)])
      show "found_ok cfg ?t (fs_detector (s\<lparr>fs_detector := d, fs_calls := fs_calls s @ []\<rparr>)) a" if "found_ok cfg now (fs_detector s) a" for a
        using found_ok_mono [OF that assms(2)] found_ok_entry [of d a "fs_detector s"] ended(2) by simp
    qed (simp_all add: outcomes_def)
  next
    case (flagged j ev pc)
    have e: "flow_step cfg (Order n redisOpen inp) s = s\<lparr>fs_detector := d, fs_calls := fs_calls s @ [pc]\<rparr>"
      using flagged(2) r by simp
    have found: "found_ok cfg ?t d a" if "found_ok cfg now (fs_detector s) a" for a
      using found_ok_forget [OF found_ok_mono [OF that assms(2)], of j]
        found_ok_entry [of d a "forget_ended j ?t (fs_detector s)"] flagged(3) by simp
    show ?thesis
    proof (cases "j = i")
      case False
      have "pc_id pc = j" using flagged(4) by (auto split: if_splits)
      then show ?thesis using found False unfolding e by (intro flow_inv_frame [OF inv assms(2)]) (simp_all add: outcomes_def)
    next
      case True
      have "i \<notin> pc_id ` set (fs_calls s)" using assms(3) flagged(1) True by simp
      then show ?thesis unfolding e using order_begins_inv [OF inv assms(2) found] flagged(4) True by blast
    qed
  qed
qed

lemma put_call_other:
  assumes "k < length cs" "\<not> Q (cs ! k)" "\<And>p. pc = Some p \<Longrightarrow> \<not> Q p"
  shows "filter Q (put_call k pc cs) = filter Q cs"
proof -
  have cs: "cs = take k cs @ cs ! k # drop (Suc k) cs" by (rule id_take_nth_drop [OF assms(1)])
  then have "filter Q cs = filter Q (take k cs) @ filter Q (drop (Suc k) cs)" using assms(2) by (metis filter.simps(2) filter_append)
  then show ?thesis using assms(1,3) by (auto simp: put_call_def upd_conv_take_nth_drop split: option.split)
qed

lemma put_call_own:
  assumes "k < length cs" "Q (cs ! k)" "length (filter Q cs) \<le> 1"
  shows "filter Q (put_call k pc cs) = filter Q (case pc of Some p \<Rightarrow> [p] | None \<Rightarrow> [])"
proof -
  have "filter Q cs = filter Q (take k cs) @ cs ! k # filter Q (drop (Suc k) cs)"
    using id_take_nth_drop [OF assms(1)] assms(2) by (metis filter.simps(2) filter_append)
  then have "filter Q (take k cs) = []" "filter Q (drop (Suc k) cs) = []" using assms(3) by auto
  then show ?thesis using assms(1) by (auto simp: put_call_def upd_conv_take_nth_drop split: option.split)
qed

lemma order_resume_id:
  assumes "order_resume cfg rc pc d = (pc', new, d')"
  shows "\<And>p. pc' = Some p \<Longrightarrow> pc_id p = pc_id pc" "\<And>a al. (a, al) \<in> set new \<Longrightarrow> an_identifier a = pc_id pc"
    "i \<noteq> pc_id pc \<Longrightarrow> throttle_entry i d' = throttle_entry i d"
  using assms by (auto simp: order_resume_def anomaly_of_def applyThrottle_def Let_def split: flow_pc.splits if_splits)

lemma throttled_found:
  assumes "found_ok cfg now d a" "an_identifier a = i" "an_detectedAt a \<le> t"
  shows "found_ok cfg now (applyThrottle cfg i t d) a"
  using assms by (auto simp: found_ok_def held_def applyThrottle_def Let_def)

text \<open>The call of the account goes on.\<close>

lemma own_call_inv:
  assumes inv: "flow_inv cfg i now s" and k: "k < length (fs_calls s)" "pc_id (fs_calls s ! k) = i"
  shows "flow_inv cfg i now (flow_step cfg (Go_on k rc) s)"
proof -
  let ?pc = "fs_calls s ! k" and ?Q = "\<lambda>pc. pc_id pc = i"
  obtain pc new d where r: "order_resume cfg rc ?pc (fs_detector s) = (pc, new, d)" by (metis prod_cases3)
  let ?s = "\<lparr>fs_detector = d, fs_calls = put_call k pc (fs_calls s), fs_out = fs_out s @ new\<rparr>"
  have e: "flow_step cfg (Go_on k rc) s = ?s" using k(1) r by simp
  have ok: "call_ok cfg now s ?pc" and old: "\<And>a al. (a, al) \<in> set (outcomes i s) \<Longrightarrow> found_ok cfg now (fs_detector s) a"
    and sp: "spaced_alerts (outcomes i s)" and one: "length (filter ?Q (fs_calls s)) \<le> 1"
    using inv k by (auto simp: flow_inv_def)
  have calls: "filter ?Q (fs_calls ?s) = (case pc of Some p \<Rightarrow> [p] | None \<Rightarrow> [])"
    using put_call_own [OF k(1), of ?Q pc] k(2) one order_resume_id(1) [OF r] by (auto split: option.split)
  have only: "pc = Some x" if "x \<in> set (fs_calls ?s)" "pc_id x = i" for x
  proof -
    have "x \<in> set (filter ?Q (fs_calls ?s))" using that by simp
    then show ?thesis unfolding calls by (auto split: option.splits)
  qed
  have step: "spaced_alerts (outcomes i ?s) \<and> (\<forall>(a, al) \<in> set (outcomes i ?s). found_ok cfg now d a) \<and> (\<forall>p. pc = Some p \<longrightarrow> call_ok cfg now ?s p)"
  proof (cases ?pc)
    case (F_get j ev inp t)
    have "new = []" "d = fs_detector s" "pc = Some (F_apply j ev inp t (in_redis rc j t (fs_detector s)))" using r F_get by (auto simp: order_resume_def)
    then show ?thesis using ok old sp F_get k(2) by (auto simp: outcomes_def)
  next
    case (F_apply j ev inp t already)
    let ?a = "anomaly_of cfg i ev inp t"
    have n: "new = []" "d = applyThrottle cfg i t (fs_detector s)" "pc = Some (F_set ?a (\<not> already) (rc \<noteq> Redis_closed))"
      using r F_apply k(2) by (auto simp: order_resume_def)
    have out: "outcomes i ?s = outcomes i s" by (simp add: outcomes_def n(1))
    have t: "t \<le> now" "\<And>a al. (a, al) \<in> set (outcomes i s) \<Longrightarrow> an_detectedAt a \<le> t \<and> (\<not> already \<longrightarrow> an_throttledUntil a \<le> t)"
      using ok F_apply k(2) by auto
    have "found_ok cfg now d a" if "(a, al) \<in> set (outcomes i s)" for a al
      using throttled_found [OF old [OF that], of i t] t(2) [OF that] that n(2) by (auto simp: outcomes_def)
    moreover have "found_ok cfg now d ?a" using t(1) by (simp add: n(2) found_ok_def held_def anomaly_of_def applyThrottle_def Let_def)
    moreover have "an_throttledUntil a \<le> an_detectedAt ?a" if "(a, al) \<in> set (outcomes i s)" "\<not> already" for a al
      using t(2) [OF that(1)] that(2) by (simp add: anomaly_of_def)
    moreover have "an_identifier ?a = i" by (simp add: anomaly_of_def)
    ultimately show ?thesis using sp n(3) out by auto
  next
    case (F_set b alert wr)
    have n: "new = [(b, alert)]" "dt_throttledUntil d = dt_throttledUntil (fs_detector s)" "pc = None" "an_identifier b = i"
      using r F_set k(2) by (auto simp: order_resume_def)
    have out: "outcomes i ?s = outcomes i s @ [(b, alert)]" using n(1,4) by (simp add: outcomes_def)
    have b: "found_ok cfg now (fs_detector s) b" "\<And>a al. alert \<Longrightarrow> (a, al) \<in> set (outcomes i s) \<Longrightarrow> an_throttledUntil a \<le> an_detectedAt b"
      using ok F_set n(4) by auto
    have "found_ok cfg now d a" if "found_ok cfg now (fs_detector s) a" for a
      using that found_ok_entry [of d a "fs_detector s"] n(2) by simp
    moreover have "spaced_alerts (outcomes i s @ [(b, alert)])" using b(2) by (intro spaced_alerts_snoc [OF sp]) blast
    ultimately show ?thesis using out b(1) old n(3) by auto
  qed
  moreover have "length (filter ?Q (fs_calls ?s)) \<le> 1" unfolding calls by (simp split: option.split)
  ultimately show ?thesis unfolding e flow_inv_def using only by auto
qed

lemma other_call_inv:
  assumes inv: "flow_inv cfg i now s" and k: "k < length (fs_calls s)" "pc_id (fs_calls s ! k) \<noteq> i"
  shows "flow_inv cfg i now (flow_step cfg (Go_on k rc) s)"
proof -
  obtain pc new d where r: "order_resume cfg rc (fs_calls s ! k) (fs_detector s) = (pc, new, d)" by (metis prod_cases3)
  let ?s = "\<lparr>fs_detector = d, fs_calls = put_call k pc (fs_calls s), fs_out = fs_out s @ new\<rparr>"
  note n = order_resume_id [OF r]
  have "outcomes i ?s = outcomes i s" using n(2) k(2) by (auto simp: outcomes_def filter_empty_conv)
  moreover have "filter (\<lambda>pc. pc_id pc = i) (fs_calls ?s) = filter (\<lambda>pc. pc_id pc = i) (fs_calls s)"
    using put_call_other [OF k(1), of "\<lambda>pc. pc_id pc = i" pc] k(2) n(1) by simp
  moreover have "found_ok cfg now (fs_detector ?s) a" if "an_identifier a = i" "found_ok cfg now (fs_detector s) a" for a
    using that n(3) [of i] k(2) found_ok_entry [of d a "fs_detector s"] by simp
  ultimately have "flow_inv cfg i now ?s" by (intro flow_inv_frame [OF inv order_refl])
  then show ?thesis using k(1) r by simp
qed

lemma reset_other: "\<not> resets i (Reset r) \<Longrightarrow> throttle_entry i (detector_reset r d) = throttle_entry i d"
  by (auto simp: detector_reset_def split: option.splits)

lemma flow_step_inv:
  assumes inv: "flow_inv cfg i now s" and t: "sorted (now # op_times x)" and x: "call_alone i x s" "\<not> resets i x"
  shows "flow_inv cfg i (last (now # op_times x)) (flow_step cfg x s)"
proof (cases x)
  case (Order n redisOpen inp)
  then show ?thesis using order_step_inv [OF inv] t x(1) by auto
next
  case (Go_on k rc)
  show ?thesis
  proof (cases "k < length (fs_calls s)")
    case True
    then show ?thesis using own_call_inv [OF inv True] other_call_inv [OF inv True] Go_on by (cases "pc_id (fs_calls s ! k) = i") auto
  qed (use inv Go_on in simp)
next
  case (Check rc j u)
  have u: "now \<le> u" using t Check by simp
  have "found_ok cfg u (forget_ended j u (fs_detector s)) a" if "found_ok cfg now (fs_detector s) a" for a
    using found_ok_forget [OF found_ok_mono [OF that u]] .
  then show ?thesis using Check u by (auto simp: isThrottled_def outcomes_def intro!: flow_inv_frame [OF inv u])
next
  case (Drop j u)
  have u: "now \<le> u" using t Drop by simp
  have "found_ok cfg u ((fs_detector s)\<lparr>dt_redis := m\<rparr>) a" if "found_ok cfg now (fs_detector s) a" for a m
    using found_ok_mono [OF that u] found_ok_entry [of "(fs_detector s)\<lparr>dt_redis := m\<rparr>" a "fs_detector s"] by simp
  then show ?thesis using Drop u by (auto simp: outcomes_def intro!: flow_inv_frame [OF inv u])
next
  case (Reset r)
  have "found_ok cfg now (detector_reset r (fs_detector s)) a" if "an_identifier a = i" "found_ok cfg now (fs_detector s) a" for a
    using that found_ok_entry [of "detector_reset r (fs_detector s)" a "fs_detector s"] reset_other [of i r] x(2) Reset by simp
  then show ?thesis using Reset by (auto simp: outcomes_def intro!: flow_inv_frame [OF inv order_refl])
qed

lemma flow_run_inv:
  assumes "flow_inv cfg i now s" "sorted (now # concat (map op_times xs))" "calls_apart cfg i xs s" "\<forall>x \<in> set xs. \<not> resets i x"
  shows "flow_inv cfg i (last (now # concat (map op_times xs))) (flow_run cfg xs s)"
  using assms
proof (induction xs arbitrary: now s)
  case (Cons x xs)
  let ?t = "last (now # op_times x)"
  have x: "sorted (now # op_times x)" "call_alone i x s" "\<not> resets i x" using Cons.prems by (auto simp: sorted_append)
  have "flow_inv cfg i ?t (flow_step cfg x s)" by (rule flow_step_inv [OF Cons.prems(1) x])
  moreover have "sorted (?t # concat (map op_times xs))" using Cons.prems(2) by (cases "op_times x" rule: rev_cases) (auto simp: sorted_append)
  ultimately have "flow_inv cfg i (last (?t # concat (map op_times xs))) (flow_run cfg xs (flow_step cfg x s))"
    using Cons.IH Cons.prems(3,4) by simp
  moreover have "last (?t # concat (map op_times xs)) = last (now # concat (map op_times (x # xs)))"
    by (cases "concat (map op_times xs) = []") auto
  ultimately show ?case by (simp add: flow_run_def)
qed (simp add: flow_run_def)

text \<open>
  C26. In a history of interleaved calls that record orders, of checks, dropped keys and resets, with times
  that do not decrease: for an account that is not reset, and whose own calls do not overlap, two
  alerts are at least the throttle apart, and whenever it was flagged it is reported as throttled until
  that throttle ends, whatever Redis answered.
\<close>
theorem throttles_hold:
  assumes "fs_calls s = []" "fs_out s = []" "sorted (concat (map op_times xs))" "calls_apart cfg i xs s" "\<forall>x \<in> set xs. \<not> resets i x"
  shows "spaced_alerts (outcomes i (flow_run cfg xs s))
    \<and> (\<forall>a al rc t. (a, al) \<in> set (outcomes i (flow_run cfg xs s)) \<longrightarrow> (\<forall>u \<in> set (concat (map op_times xs)). u \<le> t) \<longrightarrow> t < an_throttledUntil a
        \<longrightarrow> fst (isThrottled rc i t (fs_detector (flow_run cfg xs s))))"
proof -
  let ?ts = "concat (map op_times xs)" and ?r = "flow_run cfg xs s"
  have inv: "flow_inv cfg i (last (t0 # ?ts)) ?r" if "sorted (t0 # ?ts)" for t0
  proof -
    have "flow_inv cfg i t0 s" using assms(1,2) by (simp add: flow_inv_def outcomes_def spaced_alerts_def)
    then show ?thesis by (rule flow_run_inv [OF _ that assms(4,5)])
  qed
  have srt: "sorted ((if ?ts = [] then t else hd ?ts) # ?ts)" for t using assms(3) by (cases ?ts) (simp_all del: concat_eq_Nil_conv)
  have "fst (isThrottled rc i t (fs_detector ?r))" if a: "(a, al) \<in> set (outcomes i ?r)" and t: "\<forall>u \<in> set ?ts. u \<le> t" "t < an_throttledUntil a" for a al rc t
  proof (rule ccontr)
    assume n: "\<not> fst (isThrottled rc i t (fs_detector ?r))"
    have id: "an_identifier a = i" using a by (auto simp: outcomes_def)
    let ?t0 = "if ?ts = [] then t else hd ?ts"
    have "last (?t0 # ?ts) \<le> t" using t(1) last_in_set [of ?ts] by (cases "?ts = []") auto
    then have "held t (fs_detector ?r) a" using inv [OF srt [of t]] a held_mono by (fastforce simp: flow_inv_def found_ok_def)
    then show False using held_memory [of t "fs_detector ?r" a] n t(2) id by (simp add: isThrottled_def)
  qed
  then show ?thesis using inv [OF srt [of 0]] by (simp add: flow_inv_def)
qed

section \<open>Tracked accounts\<close>

lemma length_jm_delete: "k \<in> fst ` set m \<Longrightarrow> length (jm_delete k m) < length m"
  unfolding jm_delete_def by (auto intro: length_filter_less)

lemma length_jm_set: "length (jm_set k v m) \<le> length m + 1"
  by (induction m rule: jm_set.induct) auto

text \<open>The number of tracked accounts stays within its limit.\<close>

lemma tracked_accounts_bounded:
  assumes "length (dt_windows d) \<le> fc_maxTrackedIdentifiers cfg"
  shows "length (enforceCapacity cfg (jm_set i w (dt_windows d))) \<le> fc_maxTrackedIdentifiers cfg"
  using length_jm_set [of i w "dt_windows d"] assms length_jm_delete [of _ "jm_set i w (dt_windows d)"]
  by (fastforce simp: enforceCapacity_def split: list.split)

text \<open>
  The account dropped at the limit is the one tracked first, however active it is: recording an order
  of a known account does not move it in the map.
\<close>

lemma first_account_dropped:
  assumes "length ws = fc_maxTrackedIdentifiers cfg" "ws = (k, v) # rest" "i \<notin> fst ` set ws" "distinct (map fst ws)"
  shows "k \<notin> fst ` set (enforceCapacity cfg (jm_set i w ws))"
proof -
  have "jm_set i w m = m @ [(i, w)]" if "i \<notin> fst ` set m" for m :: "(string \<times> flow_event list) list"
    using that by (induction m) auto
  then have "jm_set i w ws = ws @ [(i, w)]" using assms(3) by blast
  then show ?thesis using assms(1,2) by (auto simp: enforceCapacity_def jm_delete_def)
qed

section \<open>Examples\<close>

definition sample_flow_config :: flow_config where
  "sample_flow_config = \<lparr>fc_thresholds = \<lparr>ft_windowMs = 60000, ft_ratioThreshold = DEFAULT_CANCELLATION_RATIO_THRESHOLD, ft_minPlacements = 1\<rparr>,
     fc_throttleMs = 1000, fc_maxTrackedIdentifiers = 2\<rparr>"

definition sample_order :: "string \<Rightarrow> string \<Rightarrow> int \<Rightarrow> flow_op" where
  "sample_order who ty t = Order t True \<lparr>fi_identifier = None, fi_publicKey = Some who, fi_ip = Some ''i'', fi_type = ty, fi_timestamp = None\<rparr>"

definition sample_flow_sys :: flow_sys where
  "sample_flow_sys = \<lparr>fs_detector = \<lparr>dt_windows = [], dt_throttledUntil = [], dt_redis = []\<rparr>, fs_calls = [], fs_out = []\<rparr>"

definition sample_flow :: "flow_op list" where
  "sample_flow = [sample_order ''a'' ''placed'' 0, sample_order ''a'' ''cancelled'' 1, Go_on 0 Redis_fails, sample_order ''b'' ''placed'' 2, Go_on 0 Redis_open,
     Go_on 0 Redis_fails, Reset (Some ''b''), sample_order ''a'' ''cancelled'' 500, Go_on 0 Redis_closed, Go_on 0 Redis_closed,
     sample_order ''a'' ''cancelled'' 1800, Go_on 0 Redis_open, Go_on 0 Redis_fails, Go_on 0 Redis_fails]"

lemma sample_flow_out:
  "map (\<lambda>(a, al). (an_detectedAt a, an_throttledUntil a, al)) (outcomes ''a'' (flow_run sample_flow_config sample_flow sample_flow_sys))
     = [(1, 1001, True), (500, 1500, False), (1800, 2800, True)]"
  by code_simp

theorem throttles_hold_witness:
  "spaced_alerts (outcomes ''a'' (flow_run sample_flow_config sample_flow sample_flow_sys))
   \<and> fst (isThrottled Redis_fails ''a'' 2799 (fs_detector (flow_run sample_flow_config sample_flow sample_flow_sys)))"
proof -
  let ?r = "flow_run sample_flow_config sample_flow sample_flow_sys"
  have ts: "concat (map op_times sample_flow) = [0, 1, 2, 500, 1800]" by code_simp
  have h: "fs_calls sample_flow_sys = []" "fs_out sample_flow_sys = []" "sorted (concat (map op_times sample_flow))"
    "calls_apart sample_flow_config ''a'' sample_flow sample_flow_sys" "\<forall>x \<in> set sample_flow. \<not> resets ''a'' x"
    unfolding ts by (simp_all add: sample_flow_sys_def) code_simp+
  have "(1800, 2800, True) \<in> set (map (\<lambda>(a, al). (an_detectedAt a, an_throttledUntil a, al)) (outcomes ''a'' ?r))" by (simp add: sample_flow_out)
  then obtain a al where a: "(a, al) \<in> set (outcomes ''a'' ?r)" "2799 < an_throttledUntil a" by auto
  have "\<forall>u \<in> set (concat (map op_times sample_flow)). u \<le> 2799" unfolding ts by simp
  then show ?thesis using throttles_hold [OF h] a by blast
qed

text \<open>Two calls for one account overlap: both find no throttle while they wait for Redis, and both alert.\<close>

lemma overlapping_calls_alert_twice:
  "map (\<lambda>(a, al). (an_detectedAt a, al)) (outcomes ''a'' (flow_run sample_flow_config
     [sample_order ''a'' ''placed'' 0, sample_order ''a'' ''cancelled'' 1, sample_order ''a'' ''cancelled'' 2,
      Go_on 0 Redis_open, Go_on 1 Redis_open, Go_on 0 Redis_open, Go_on 0 Redis_open, Go_on 0 Redis_open, Go_on 0 Redis_open] sample_flow_sys))
   = [(1, True), (2, True)]"
  by code_simp

definition sample_window :: "flow_event list" where
  "sample_window = (let e = (\<lambda>ty t. \<lparr>fe_identifier = ''a'', fe_type = ty, fe_timestamp = t, fe_ip = None, fe_publicKey = None\<rparr>) in [e Placed 0, e Cancelled 1])"

theorem flag_is_exact_witness:
  "ev_flagged (evaluateCancellationRatio ''a'' sample_window 1 (fc_thresholds sample_flow_config))"
  using flag_is_exact [of "fc_thresholds sample_flow_config" sample_window "''a''" 1]
  by (simp add: sample_flow_config_def count_type_def sample_window_def)

end
