(* ===== verification/OffchainPrices.thy ===== *)
theory OffchainPrices
  imports JSText
begin

text \<open>
  \<open>src/services/offchainPriceAggregator.ts\<close>: prices of two exchanges, combined per asset into a
  volume-weighted median, a plain median, and an average over the recent history.  What the exchanges
  answer is an input, already read as numbers; \<open>None\<close> stands for a failed request or a value that is not a
  finite number.

  The lemmas show that the search for the median always ends inside its loop with an observed price,
  that sources holding more than half of the volume, by the margin of the rounding, cannot be outvoted, that the history is bounded,
  and what is published when no exchange answers.
\<close>

section \<open>Observations\<close>

datatype price_source = Binance | Coingecko

record observation =
  ob_asset :: string
  ob_source :: price_source
  ob_price :: rat
  ob_volume :: rat
  ob_timestamp :: int

definition DEFAULT_ASSETS :: "string list" where
  "DEFAULT_ASSETS = [''XLM'', ''BTC'', ''ETH'', ''SOL'', ''ADA'']"

definition normalizeAsset :: "string \<Rightarrow> string" where
  "normalizeAsset raw = (let upper = toUpperCase raw in if upper = ''USD'' then [] else upper)"

definition volume_or_1 :: "rat option \<Rightarrow> rat" where
  "volume_or_1 v = (case v of Some x \<Rightarrow> if x > 0 then x else 1 | None \<Rightarrow> 1)"

text \<open>One request per asset: the price and the volume of the answer, when there is one.\<close>

definition fetchBinancePrices :: "int \<Rightarrow> (string \<Rightarrow> (rat option \<times> rat option) option) \<Rightarrow> observation list" where
  "fetchBinancePrices now answer = concat (map (\<lambda>asset. case answer asset of
      Some (Some price, volume) \<Rightarrow> if price \<le> 0 then []
        else [\<lparr>ob_asset = asset, ob_source = Binance, ob_price = price, ob_volume = volume_or_1 volume, ob_timestamp = now\<rparr>]
    | _ \<Rightarrow> []) DEFAULT_ASSETS)"

text \<open>One request for all assets, with the same form of answer for each.\<close>

definition fetchCoinGeckoPrices :: "int \<Rightarrow> (string \<Rightarrow> (rat option \<times> rat option) option) option \<Rightarrow> observation list" where
  "fetchCoinGeckoPrices now answer = (case answer of
      None \<Rightarrow> []
    | Some payload \<Rightarrow> concat (map (\<lambda>asset. case payload asset of
          Some (Some price, volume) \<Rightarrow> if price \<le> 0 then []
            else [\<lparr>ob_asset = asset, ob_source = Coingecko, ob_price = price, ob_volume = volume_or_1 volume, ob_timestamp = now\<rparr>]
        | _ \<Rightarrow> []) DEFAULT_ASSETS))"

definition collectObservations :: "observation list \<Rightarrow> observation list \<Rightarrow> string \<Rightarrow> observation list" where
  "collectObservations binance coingecko asset = filter (\<lambda>b. ob_asset b = asset) binance @ filter (\<lambda>b. ob_asset b = asset) coingecko"

section \<open>Medians and averages\<close>

definition calculateMedian :: "rat list \<Rightarrow> rat" where
  "calculateMedian values =
     (if values = [] then 0
      else let sorted = sort values; midpoint = length sorted div 2 in
        if even (length sorted) then jsdiv (jsadd (sorted ! (midpoint - 1)) (sorted ! midpoint)) 2 else sorted ! midpoint)"

text \<open>The loop over the sorted samples; \<open>None\<close> when it falls through.\<close>

fun median_loop :: "rat \<Rightarrow> rat \<Rightarrow> (rat \<times> rat) list \<Rightarrow> rat option" where
  "median_loop half cumulative [] = None"
| "median_loop half cumulative ((price, volume) # samples) =
     (let c = jsadd cumulative volume in if c \<ge> half then Some price else median_loop half c samples)"

definition weighted_samples :: "observation list \<Rightarrow> (rat \<times> rat) list" where
  "weighted_samples obs = sort_key fst (map (\<lambda>b. (ob_price b, if ob_volume b > 0 then ob_volume b else 1)) obs)"

definition calculateVolumeWeightedMedian :: "observation list \<Rightarrow> rat" where
  "calculateVolumeWeightedMedian obs =
     (if obs = [] then 0
      else let weighted = weighted_samples obs; totalVolume = js_sum (map snd weighted) in
        if totalVolume \<le> 0 then calculateMedian (map fst weighted)
        else case median_loop (jsdiv totalVolume 2) 0 weighted of Some p \<Rightarrow> p | None \<Rightarrow> fst (last weighted))"

record history_entry =
  he_timestamp :: int
  he_price :: rat
  he_volume :: rat

definition getRecentHistory :: "int \<Rightarrow> int \<Rightarrow> history_entry list \<Rightarrow> history_entry list" where
  "getRecentHistory now windowMs entries = filter (\<lambda>e. he_timestamp e \<ge> now - windowMs) entries"

definition calculateTwap :: "history_entry list \<Rightarrow> rat \<Rightarrow> rat" where
  "calculateTwap history fallbackPrice =
     (if history = [] then fallbackPrice
      else let totalVolume = js_sum (map he_volume history) in
        if totalVolume \<le> 0 then he_price (last history)
        else jsdiv (foldl (\<lambda>s e. jsadd s (jsmul (he_price e) (he_volume e))) 0 history) totalVolume)"

section \<open>The service\<close>

record asset_feed =
  af_symbol :: string
  af_spot :: rat
  af_median :: rat
  af_twap :: rat
  af_volume :: rat
  af_sources :: "(price_source \<times> rat \<times> rat) list"
  af_updatedAt :: int

record sanity_check =
  sc_spot :: rat
  sc_twap :: rat
  sc_spreadPercent :: rat

record aggregator =
  ag_history :: "(string \<times> history_entry list) list"
  ag_assets :: "(string \<times> asset_feed) list"
  ag_sanityChecks :: "(string \<times> sanity_check) list"
  ag_generatedAt :: int
  ag_running :: bool
  ag_timer :: bool

definition last_120 :: "'a list \<Rightarrow> 'a list" where
  "last_120 xs = drop (length xs - 120) xs"

definition asset_step :: "int \<Rightarrow> (string \<Rightarrow> observation list) \<Rightarrow> string \<Rightarrow> (string \<times> history_entry list) list \<Rightarrow> asset_feed \<times> (string \<times> history_entry list) list" where
  "asset_step now obs_of asset history =
     (let obs = obs_of asset; spot = calculateVolumeWeightedMedian obs; totalVolume = js_sum (map ob_volume obs);
          entries = (case jm_get history asset of Some es \<Rightarrow> es | None \<Rightarrow> []);
          twap = calculateTwap (getRecentHistory now (5 * 60 * 1000) entries) spot in
      (\<lparr>af_symbol = asset, af_spot = spot, af_median = calculateMedian (map ob_price obs), af_twap = twap, af_volume = totalVolume,
        af_sources = map (\<lambda>b. (ob_source b, ob_price b, ob_volume b)) obs, af_updatedAt = now\<rparr>,
       jm_set asset (last_120 (entries @ [\<lparr>he_timestamp = now, he_price = spot, he_volume = totalVolume\<rparr>])) history))"

fun asset_steps :: "int \<Rightarrow> (string \<Rightarrow> observation list) \<Rightarrow> string list \<Rightarrow> (string \<times> history_entry list) list \<Rightarrow> asset_feed list \<times> (string \<times> history_entry list) list" where
  "asset_steps now obs_of [] history = ([], history)"
| "asset_steps now obs_of (a # as) history =
     (let (f, h1) = asset_step now obs_of a history; (fs, h2) = asset_steps now obs_of as h1 in (f # fs, h2))"

definition sanity_of :: "asset_feed \<Rightarrow> sanity_check" where
  "sanity_of f = \<lparr>sc_spot = af_spot f, sc_twap = af_twap f,
     sc_spreadPercent = (if af_twap f = 0 then 0 else jsmul (jsdiv \<bar>jssub (af_spot f) (af_twap f)\<bar> (af_twap f)) 100)\<rparr>"

definition refresh :: "int \<Rightarrow> (string \<Rightarrow> (rat option \<times> rat option) option) \<Rightarrow> (string \<Rightarrow> (rat option \<times> rat option) option) option \<Rightarrow> aggregator \<Rightarrow> aggregator" where
  "refresh now binance coingecko ag =
     (let obs_of = collectObservations (fetchBinancePrices now binance) (fetchCoinGeckoPrices now coingecko);
          (feeds, history) = asset_steps now obs_of DEFAULT_ASSETS (ag_history ag) in
      ag\<lparr>ag_history := history, ag_assets := map (\<lambda>f. (af_symbol f, f)) feeds,
         ag_sanityChecks := map (\<lambda>f. (af_symbol f, sanity_of f)) feeds, ag_generatedAt := now\<rparr>)"

definition getAssetFeed :: "string \<Rightarrow> aggregator \<Rightarrow> asset_feed option" where
  "getAssetFeed asset ag = jm_get (ag_assets ag) (normalizeAsset asset)"

definition getLatestPrice :: "string \<Rightarrow> aggregator \<Rightarrow> rat option" where
  "getLatestPrice asset ag = map_option af_spot (getAssetFeed asset ag)"

text \<open>Starting refreshes once and then sets the timer.\<close>

definition aggregator_start :: "int \<Rightarrow> (string \<Rightarrow> (rat option \<times> rat option) option) \<Rightarrow> (string \<Rightarrow> (rat option \<times> rat option) option) option \<Rightarrow> aggregator \<Rightarrow> aggregator" where
  "aggregator_start now binance coingecko ag =
     (if ag_running ag then ag else (refresh now binance coingecko (ag\<lparr>ag_running := True\<rparr>))\<lparr>ag_timer := True\<rparr>)"

definition aggregator_stop :: "aggregator \<Rightarrow> aggregator" where
  "aggregator_stop ag = ag\<lparr>ag_timer := False, ag_running := False\<rparr>"


section \<open>The weighted median\<close>

definition volume_where :: "('a \<Rightarrow> bool) \<Rightarrow> ('a \<times> nat) list \<Rightarrow> nat" where
  "volume_where P xs = (\<Sum>x\<leftarrow>filter (\<lambda>x. P (fst x)) xs. snd x)"

lemma volume_filter_mono: "(\<And>b. b \<in> set xs \<Longrightarrow> P b \<Longrightarrow> Q b) \<Longrightarrow> (\<Sum>b\<leftarrow>filter P xs. vol b :: nat) \<le> (\<Sum>b\<leftarrow>filter Q xs. vol b)"
  by (induction xs) (auto simp: le_SucI trans_le_add2)

lemma sum_filter_split: "(\<Sum>b\<leftarrow>filter P xs. vol b :: nat) + (\<Sum>b\<leftarrow>filter (\<lambda>b. \<not> P b) xs. vol b) = (\<Sum>b\<leftarrow>xs. vol b)"
  by (induction xs) auto

lemma sum_list_sort: "(\<Sum>x\<leftarrow>sort_key k xs. f x :: nat) = (\<Sum>x\<leftarrow>xs. f x)"
  by (metis mset_map mset_sort sum_mset_sum_list)

abbreviation floats :: "(rat \<times> nat) list \<Rightarrow> (rat \<times> rat) list" where
  "floats xs \<equiv> map (\<lambda>(p, v). (p, of_nat v)) xs"

text \<open>Whole volumes below \<open>2^53\<close> are added exactly.\<close>

lemma jsadd_nat: "a + b < 2 ^ 53 \<Longrightarrow> jsadd (of_nat a) (of_nat b) = of_nat (a + b)"
  unfolding jsadd_def using fl_of_nat [of "a + b"] by simp

lemma js_sum_nat:
  assumes "c + (\<Sum>x\<leftarrow>xs. snd x) < 2 ^ 53"
  shows "foldl jsadd (of_nat c) (map snd (floats xs)) = of_nat (c + (\<Sum>x\<leftarrow>xs. snd x))"
  using assms
proof (induction xs arbitrary: c)
  case (Cons x xs)
  obtain p v where x: "x = (p, v)" by fastforce
  show ?case using Cons.IH [of "c + v"] Cons.prems jsadd_nat [of c v] by (simp add: x add.assoc)
qed simp

lemma median_loop_nat:
  assumes "sorted (map fst xs)" "2 * c < T" "T \<le> 2 * (c + (\<Sum>x\<leftarrow>xs. snd x))" "c + (\<Sum>x\<leftarrow>xs. snd x) < 2 ^ 53"
  shows "\<exists>p. median_loop (of_nat T / 2) (of_nat c) (floats xs) = Some p \<and> p \<in> fst ` set xs
    \<and> T \<le> 2 * (c + volume_where (\<lambda>q. q \<le> p) xs) \<and> 2 * (c + volume_where (\<lambda>q. q < p) xs) < T"
  using assms
proof (induction xs arbitrary: c)
  case (Cons x xs)
  obtain p v where x: "x = (p, v)" by fastforce
  have j: "jsadd (of_nat c) (of_nat v) = of_nat (c + v)" using Cons.prems(4) x by (intro jsadd_nat) simp
  have le: "p \<le> q" if "q \<in> fst ` set xs" for q using Cons.prems(1) that by (auto simp: x)
  show ?case
  proof (cases "T \<le> 2 * (c + v)")
    case True
    then have "(of_nat T :: rat) \<le> of_nat (2 * (c + v))" by (simp only: of_nat_le_iff)
    then have "of_nat T / 2 \<le> (of_nat (c + v) :: rat)" by simp
    then have r: "median_loop (of_nat T / 2) (of_nat c) (floats (x # xs)) = Some p" by (simp add: x j)
    have "filter (\<lambda>y. fst y < p) (x # xs) = []" using le by (auto simp: x filter_empty_conv not_less)
    then have "volume_where (\<lambda>q. q < p) (x # xs) = 0" by (simp add: volume_where_def)
    moreover have "v \<le> volume_where (\<lambda>q. q \<le> p) (x # xs)" by (simp add: volume_where_def x)
    ultimately show ?thesis using r True Cons.prems(2) by (intro exI [of _ p]) (auto simp: x)
  next
    case False
    then have "\<not> (of_nat T :: rat) \<le> of_nat (2 * (c + v))" by (metis of_nat_le_iff)
    then have r: "median_loop (of_nat T / 2) (of_nat c) (floats (x # xs)) = median_loop (of_nat T / 2) (of_nat (c + v)) (floats xs)"
      by (simp add: x j)
    obtain p' where p': "median_loop (of_nat T / 2) (of_nat (c + v)) (floats xs) = Some p'" "p' \<in> fst ` set xs"
        "T \<le> 2 * (c + v + volume_where (\<lambda>q. q \<le> p') xs)" "2 * (c + v + volume_where (\<lambda>q. q < p') xs) < T"
      using Cons.IH [of "c + v"] Cons.prems False by (auto simp: x)
    have "volume_where (\<lambda>q. q \<le> p') (x # xs) = v + volume_where (\<lambda>q. q \<le> p') xs" using le [OF p'(2)] by (simp add: volume_where_def x)
    moreover have "volume_where (\<lambda>q. q < p') (x # xs) \<le> v + volume_where (\<lambda>q. q < p') xs" by (simp add: volume_where_def x)
    ultimately show ?thesis using r p' by (intro exI [of _ p']) auto
  qed
qed simp

text \<open>The observations with their whole volumes.\<close>

definition volumes_whole :: "observation list \<Rightarrow> (observation \<Rightarrow> nat) \<Rightarrow> bool" where
  "volumes_whole obs vol \<longleftrightarrow> (\<forall>b \<in> set obs. ob_volume b = of_nat (vol b) \<and> 0 < vol b) \<and> (\<Sum>b\<leftarrow>obs. vol b) < 2 ^ 53"

lemma weighted_samples_nat:
  assumes "volumes_whole obs vol"
  shows "weighted_samples obs = floats (sort_key fst (map (\<lambda>b. (ob_price b, vol b)) obs))"
proof -
  have "map (\<lambda>b. (ob_price b, if ob_volume b > 0 then ob_volume b else 1)) obs = floats (map (\<lambda>b. (ob_price b, vol b)) obs)"
    using assms by (auto simp: volumes_whole_def)
  moreover have "(\<lambda>y. fst (case y of (p, v) \<Rightarrow> (p, of_nat v :: rat))) = (fst :: rat \<times> nat \<Rightarrow> rat)" by auto
  ultimately show ?thesis unfolding weighted_samples_def by (simp only: sort_key_map)
qed

text \<open>The spot price is an observed price with at most half of the volume below it and at least half up to it.\<close>

lemma spot_splits_volume:
  assumes "volumes_whole obs vol" "obs \<noteq> []"
  defines "xs \<equiv> map (\<lambda>b. (ob_price b, vol b)) obs" and "p \<equiv> calculateVolumeWeightedMedian obs"
  shows "p \<in> ob_price ` set obs \<and> (\<Sum>b\<leftarrow>obs. vol b) \<le> 2 * volume_where (\<lambda>q. q \<le> p) xs
    \<and> 2 * volume_where (\<lambda>q. q < p) xs < (\<Sum>b\<leftarrow>obs. vol b)"
proof -
  let ?ys = "sort_key fst xs" and ?T = "\<Sum>b\<leftarrow>obs. vol b"
  have vw: "volume_where P ?ys = volume_where P xs" for P
    unfolding volume_where_def filter_sort by (rule sum_list_sort)
  have sum: "(\<Sum>x\<leftarrow>?ys. snd x) = ?T" unfolding sum_list_sort by (simp add: xs_def comp_def)
  have T: "0 < ?T" "?T < 2 ^ 53" using assms(1,2) by (cases obs; auto simp: volumes_whole_def)+
  have w: "weighted_samples obs = floats ?ys" using weighted_samples_nat [OF assms(1)] by (simp add: xs_def)
  have total: "js_sum (map snd (weighted_samples obs)) = of_nat ?T"
    using js_sum_nat [of 0 ?ys] sum T(2) unfolding js_sum_def w by simp
  have half: "jsdiv (of_nat ?T) 2 = of_nat ?T / 2" using fl_div_pow2 [OF T(2), of 1] by (simp add: jsdiv_def)
  obtain q where q: "median_loop (of_nat ?T / 2) 0 (weighted_samples obs) = Some q" "q \<in> fst ` set ?ys"
      "?T \<le> 2 * volume_where (\<lambda>r. r \<le> q) ?ys" "2 * volume_where (\<lambda>r. r < q) ?ys < ?T"
    using median_loop_nat [of ?ys 0 ?T] sum T unfolding w by auto
  have pos: "\<not> (of_nat ?T :: rat) \<le> 0" using T(1) by (metis not_less of_nat_0_less_iff)
  have "p = q" unfolding p_def calculateVolumeWeightedMedian_def Let_def total half by (simp only: assms(2) q(1) pos option.case if_False)
  moreover have "q \<in> ob_price ` set obs" using q(2) by (auto simp: xs_def)
  ultimately show ?thesis using q(3,4) unfolding vw by blast
qed

text \<open>With whole volumes, which are added exactly, any majority bounds the spot price.\<close>

lemma whole_majority_bounds_spot:
  assumes "volumes_whole obs vol" "(\<Sum>b\<leftarrow>obs. vol b) < 2 * (\<Sum>b\<leftarrow>filter honest obs. vol b)"
  shows "\<exists>a b. a \<in> set obs \<and> b \<in> set obs \<and> honest a \<and> honest b
    \<and> ob_price a \<le> calculateVolumeWeightedMedian obs \<and> calculateVolumeWeightedMedian obs \<le> ob_price b"
proof -
  let ?p = "calculateVolumeWeightedMedian obs" and ?xs = "map (\<lambda>b. (ob_price b, vol b)) obs"
  have vw: "volume_where P ?xs = (\<Sum>b\<leftarrow>filter (\<lambda>b. P (ob_price b)) obs. vol b)" for P
    by (simp add: volume_where_def filter_map comp_def)
  have "obs \<noteq> []" using assms(2) by auto
  note s = spot_splits_volume [OF assms(1) this, unfolded vw]
  have "\<exists>a. a \<in> set obs \<and> honest a \<and> ob_price a \<le> ?p"
  proof (rule ccontr)
    assume "\<not> ?thesis"
    then have "(\<Sum>b\<leftarrow>filter (\<lambda>b. ob_price b \<le> ?p) obs. vol b) \<le> (\<Sum>b\<leftarrow>filter (\<lambda>b. \<not> honest b) obs. vol b)" by (intro volume_filter_mono) blast
    then show False using s assms(2) sum_filter_split [where P = honest and xs = obs and vol = vol] by linarith
  qed
  moreover have "\<exists>b. b \<in> set obs \<and> honest b \<and> ?p \<le> ob_price b"
  proof (rule ccontr)
    assume "\<not> ?thesis"
    then have "(\<Sum>b\<leftarrow>filter honest obs. vol b) \<le> (\<Sum>b\<leftarrow>filter (\<lambda>b. ob_price b < ?p) obs. vol b)" by (intro volume_filter_mono) (meson not_less)
    then show False using s assms(2) by linarith
  qed
  ultimately show ?thesis by blast
qed


section \<open>Any volumes\<close>

text \<open>Adding up non-negative numbers in floating point: every addition costs one rounding.\<close>

definition ulp :: rat where "ulp = 2 powi (- 53)"

lemma ulp_small: "0 \<le> ulp" "ulp \<le> 1"
  by (simp_all add: ulp_def power_int_minus power_one_over)

lemma fl_between: "0 \<le> x \<Longrightarrow> x * (1 - ulp) \<le> fl x \<and> fl x \<le> x * (1 + ulp)"
  using fl_error [of x, folded ulp_def] unfolding right_diff_distrib distrib_left by (simp only: abs_of_nonneg) linarith

lemma scaled_between:
  fixes l u v c C :: rat
  assumes "0 \<le> l" "l \<le> 1" "1 \<le> u" "0 \<le> v" "C * l \<le> c" "c \<le> C * u"
  shows "(C + v) * l \<le> c + v \<and> c + v \<le> (C + v) * u"
proof -
  have "v * l \<le> v" "v \<le> v * u" using mult_left_mono [of l 1 v] mult_left_mono [of 1 u v] assms by simp_all
  then show ?thesis using assms(5,6) unfolding distrib_right by linarith
qed

lemma jsadd_between:
  assumes "0 \<le> C" "0 \<le> v" "C * (1 - ulp) ^ k \<le> c" "c \<le> C * (1 + ulp) ^ k"
  shows "(C + v) * (1 - ulp) ^ Suc k \<le> jsadd c v \<and> jsadd c v \<le> (C + v) * (1 + ulp) ^ Suc k"
proof -
  have p: "0 \<le> (1 - ulp) ^ k" "(1 - ulp) ^ k \<le> 1" "1 \<le> (1 + ulp) ^ k"
    using ulp_small by (simp_all add: power_le_one one_le_power)
  have s: "(C + v) * (1 - ulp) ^ k \<le> c + v" "c + v \<le> (C + v) * (1 + ulp) ^ k"
    using scaled_between [OF p assms(2,3,4)] by blast+
  have "0 \<le> (C + v) * (1 - ulp) ^ k" using assms(1,2) p(1) by simp
  then have "0 \<le> c + v" using s(1) by linarith
  note f = fl_between [OF this]
  have "(C + v) * (1 - ulp) ^ k * (1 - ulp) \<le> (c + v) * (1 - ulp)" using s(1) ulp_small by (intro mult_right_mono) simp_all
  moreover have "(c + v) * (1 + ulp) \<le> (C + v) * (1 + ulp) ^ k * (1 + ulp)" using s(2) ulp_small by (intro mult_right_mono) simp_all
  ultimately show ?thesis using f by (simp add: jsadd_def mult.assoc mult.commute [of "(1 - ulp) ^ k"] mult.commute [of "(1 + ulp) ^ k"])
qed

lemma foldl_between:
  assumes "\<forall>v \<in> set vs. 0 \<le> v" "0 \<le> C" "C * (1 - ulp) ^ k \<le> c" "c \<le> C * (1 + ulp) ^ k"
  shows "(C + sum_list vs) * (1 - ulp) ^ (k + length vs) \<le> foldl jsadd c vs
    \<and> foldl jsadd c vs \<le> (C + sum_list vs) * (1 + ulp) ^ (k + length vs)"
  using assms
proof (induction vs arbitrary: C c k)
  case (Cons v vs)
  have "0 \<le> v" "\<forall>v \<in> set vs. 0 \<le> v" using Cons.prems(1) by simp_all
  note j = jsadd_between [OF Cons.prems(2) this(1) Cons.prems(3,4)]
  show ?case using Cons.IH [of "C + v" "Suc k" "jsadd c v"] j Cons.prems(2) \<open>0 \<le> v\<close> \<open>\<forall>v \<in> set vs. 0 \<le> v\<close>
    by (simp add: add.assoc)
qed simp

text \<open>Up to a million additions the error stays below one part in \<open>2 ^ 31\<close>.\<close>

lemma many_roundings:
  assumes "k \<le> 2 ^ 20 + 1"
  shows "1 - 1 / 2 ^ 32 \<le> (1 - ulp) ^ k" "(1 + ulp) ^ k \<le> 1 + 1 / 2 ^ 31"
proof -
  have "of_nat k \<le> (of_nat (2 ^ 20 + 1) :: rat)" using assms by (simp only: of_nat_le_iff)
  then have "of_nat k * ulp \<le> of_nat (2 ^ 20 + 1) * ulp" using ulp_small by (intro mult_right_mono) simp_all
  also have "\<dots> \<le> 1 / 2 ^ 32" by (simp add: ulp_def power_int_minus power_one_over)
  finally have k: "of_nat k * ulp \<le> 1 / 2 ^ 32" .
  have "1 + of_nat k * (- ulp) \<le> (1 + - ulp) ^ k" using ulp_small by (intro Bernoulli_inequality) simp
  then show lo: "1 - 1 / 2 ^ 32 \<le> (1 - ulp) ^ k" using k by simp
  have "(1 + ulp) ^ k * (1 - ulp) ^ k \<le> 1"
    unfolding power_mult_distrib [symmetric] using ulp_small by (intro power_le_one) (simp_all add: algebra_simps mult_le_one)
  moreover have "(1 + ulp) ^ k * (1 - 1 / 2 ^ 32) \<le> (1 + ulp) ^ k * (1 - ulp) ^ k" using lo ulp_small by (intro mult_left_mono) simp_all
  ultimately have "(1 + ulp) ^ k * (1 - 1 / 2 ^ 32) \<le> 1" by linarith
  then have "(1 + ulp) ^ k \<le> 1 / (1 - 1 / 2 ^ 32)" by (subst pos_le_divide_eq) simp_all
  also have "\<dots> \<le> 1 + 1 / 2 ^ 31" by simp
  finally show "(1 + ulp) ^ k \<le> 1 + 1 / 2 ^ 31" .
qed

lemma median_loop_ends: "xs \<noteq> [] \<Longrightarrow> half \<le> foldl jsadd c (map snd xs) \<Longrightarrow> \<exists>p. median_loop half c xs = Some p \<and> p \<in> fst ` set xs"
proof (induction xs arbitrary: c)
  case (Cons x xs)
  obtain p v where x: "x = (p, v)" by fastforce
  show ?case
  proof (cases "half \<le> jsadd c v")
    case False
    then have "xs \<noteq> []" using Cons.prems(2) by (auto simp: x)
    then show ?thesis using Cons.IH [of "jsadd c v"] Cons.prems(2) False by (auto simp: x)
  qed (auto simp: x)
qed simp

lemma fl_half: "0 < T \<Longrightarrow> fl (T / 2) \<le> T"
proof -
  assume "0 < T"
  moreover have "\<bar>fl (T / 2) - T / 2\<bar> \<le> \<bar>T / 2\<bar> * 2 powi (- 53)" by (rule fl_error)
  moreover have "(2::rat) powi (- 53) \<le> 1" by (simp add: power_int_minus power_one_over)
  ultimately show ?thesis using mult_left_mono [of "(2::rat) powi (- 53)" 1 "\<bar>T / 2\<bar>"] by linarith
qed

text \<open>For any volumes, rounded sums included, the spot price of a positive total volume is an observed price.\<close>

lemma spot_observed:
  assumes "obs \<noteq> []" "0 < js_sum (map snd (weighted_samples obs))"
  shows "calculateVolumeWeightedMedian obs \<in> ob_price ` set obs"
proof -
  let ?T = "js_sum (map snd (weighted_samples obs))"
  have "set (weighted_samples obs) \<noteq> {}" using assms(1) by (simp add: weighted_samples_def)
  then have ne: "weighted_samples obs \<noteq> []" by auto
  have "jsdiv ?T 2 \<le> foldl jsadd 0 (map snd (weighted_samples obs))"
    using fl_half [OF assms(2)] by (simp add: jsdiv_def js_sum_def)
  then obtain p where p: "median_loop (jsdiv ?T 2) 0 (weighted_samples obs) = Some p" "p \<in> fst ` set (weighted_samples obs)"
    using median_loop_ends [OF ne] by blast
  have "fst ` set (weighted_samples obs) = ob_price ` set obs" by (simp add: weighted_samples_def image_image)
  then show ?thesis using p assms by (simp add: calculateVolumeWeightedMedian_def Let_def)
qed

text \<open>Where the loop stops: the sum before the result is below half, the sum with it is not.\<close>

lemma median_loop_split:
  "median_loop half c xs = Some p \<Longrightarrow> c < half \<Longrightarrow>
     \<exists>ys v zs. xs = ys @ (p, v) # zs \<and> foldl jsadd c (map snd ys) < half \<and> half \<le> foldl jsadd c (map snd (ys @ [(p, v)]))"
proof (induction xs arbitrary: c)
  case (Cons x xs)
  obtain q v where x: "x = (q, v)" by fastforce
  show ?case
  proof (cases "half \<le> jsadd c v")
    case True
    then have "q = p" using Cons.prems(1) by (simp add: x Let_def)
    then show ?thesis using True Cons.prems(2) by (intro exI [of _ "[]"] exI [of _ v] exI [of _ xs]) (simp add: x)
  next
    case False
    then obtain ys w zs where "xs = ys @ (p, w) # zs" "foldl jsadd (jsadd c v) (map snd ys) < half"
        "half \<le> foldl jsadd (jsadd c v) (map snd (ys @ [(p, w)]))"
      using Cons.IH [of "jsadd c v"] Cons.prems(1) by (auto simp: x Let_def)
    then show ?thesis by (intro exI [of _ "(q, v) # ys"] exI [of _ w] exI [of _ zs]) (simp add: x)
  qed
qed simp

definition vol_where :: "(rat \<Rightarrow> bool) \<Rightarrow> (rat \<times> rat) list \<Rightarrow> rat" where
  "vol_where P xs = (\<Sum>x\<leftarrow>filter (\<lambda>x. P (fst x)) xs. snd x)"

lemma vol_where_append: "vol_where P (xs @ ys) = vol_where P xs + vol_where P ys"
  by (simp add: vol_where_def)

lemma vol_where_bounds: "\<forall>x \<in> set xs. 0 \<le> snd x \<Longrightarrow> 0 \<le> vol_where P xs \<and> vol_where P xs \<le> sum_list (map snd xs)"
  by (induction xs) (auto simp: vol_where_def)

lemma vol_where_all: "\<forall>x \<in> set xs. P (fst x) \<Longrightarrow> vol_where P xs = sum_list (map snd xs)"
  by (simp add: vol_where_def)

lemma vol_where_none: "\<forall>x \<in> set xs. \<not> P (fst x) \<Longrightarrow> vol_where P xs = 0"
  by (simp add: vol_where_def filter_empty_conv)

lemma sorted_split_volumes:
  assumes "sorted (map fst (ys @ (p, v) # zs))" "\<forall>x \<in> set (ys @ (p, v) # zs). 0 \<le> snd x"
  shows "sum_list (map snd (ys @ [(p, v)])) \<le> vol_where (\<lambda>q. q \<le> p) (ys @ (p, v) # zs)"
    and "vol_where (\<lambda>q. q < p) (ys @ (p, v) # zs) \<le> sum_list (map snd ys)"
proof -
  have le: "\<forall>x \<in> set (ys @ [(p, v)]). fst x \<le> p" "\<forall>x \<in> set ((p, v) # zs). \<not> fst x < p"
    using assms(1) by (auto simp: sorted_append not_less)
  have "vol_where (\<lambda>q. q \<le> p) (ys @ (p, v) # zs) = vol_where (\<lambda>q. q \<le> p) (ys @ [(p, v)]) + vol_where (\<lambda>q. q \<le> p) zs"
    using vol_where_append [of "\<lambda>q. q \<le> p" "ys @ [(p, v)]" zs] by simp
  then show "sum_list (map snd (ys @ [(p, v)])) \<le> vol_where (\<lambda>q. q \<le> p) (ys @ (p, v) # zs)"
    using vol_where_all [OF le(1)] vol_where_bounds [of zs] assms(2) by simp
  show "vol_where (\<lambda>q. q < p) (ys @ (p, v) # zs) \<le> sum_list (map snd ys)"
    using vol_where_append [of "\<lambda>q. q < p" ys "(p, v) # zs"] vol_where_none [OF le(2)] vol_where_bounds [of ys] assms(2) by simp
qed

text \<open>The sums that the loop compares are within one part in \<open>2 ^ 31\<close> of the exact ones.\<close>

lemma js_sum_between:
  assumes "\<forall>v \<in> set vs. 0 \<le> v" "length vs \<le> 2 ^ 20"
  shows "sum_list vs * (1 - 1 / 2 ^ 32) \<le> foldl jsadd 0 vs" "foldl jsadd 0 vs \<le> sum_list vs * (1 + 1 / 2 ^ 31)"
proof -
  have f: "sum_list vs * (1 - ulp) ^ length vs \<le> foldl jsadd 0 vs" "foldl jsadd 0 vs \<le> sum_list vs * (1 + ulp) ^ length vs"
    using foldl_between [OF assms(1), of 0 0 0] by simp_all
  have "0 \<le> sum_list vs" using assms(1) by (intro sum_list_nonneg) simp
  then have "sum_list vs * (1 - 1 / 2 ^ 32) \<le> sum_list vs * (1 - ulp) ^ length vs" "sum_list vs * (1 + ulp) ^ length vs \<le> sum_list vs * (1 + 1 / 2 ^ 31)"
    using many_roundings [of "length vs"] assms(2) by (intro mult_left_mono; simp)+
  with f show "sum_list vs * (1 - 1 / 2 ^ 32) \<le> foldl jsadd 0 vs" "foldl jsadd 0 vs \<le> sum_list vs * (1 + 1 / 2 ^ 31)" by linarith+
qed

lemma half_between:
  assumes "0 \<le> V" "V * (1 - 1 / 2 ^ 32) \<le> T" "T \<le> V * (1 + 1 / 2 ^ 31)"
  shows "V / 2 * (1 - 1 / 2 ^ 31) \<le> jsdiv T 2" "jsdiv T 2 \<le> V / 2 * (1 + 1 / 2 ^ 30)"
proof -
  have "0 \<le> V * (1 - 1 / 2 ^ 32)" using assms(1) by simp
  then have "0 \<le> T / 2" using assms(2) by linarith
  note f = fl_between [OF this]
  have "T / 2 * ulp \<le> T / 2 * (1 / 2 ^ 32)" using \<open>0 \<le> T / 2\<close> by (intro mult_left_mono) (simp_all add: ulp_def power_int_minus power_one_over)
  then have "T / 2 - T / 2 ^ 33 \<le> jsdiv T 2" "jsdiv T 2 \<le> T / 2 + T / 2 ^ 33" using f by (simp_all add: jsdiv_def algebra_simps)
  then show "V / 2 * (1 - 1 / 2 ^ 31) \<le> jsdiv T 2" "jsdiv T 2 \<le> V / 2 * (1 + 1 / 2 ^ 30)"
    using assms by (simp_all add: algebra_simps)
qed

text \<open>The spot price splits the volume in halves, up to one part in a hundred million.\<close>

lemma spot_splits:
  assumes pos: "\<forall>b \<in> set obs. 0 < ob_volume b" and n: "obs \<noteq> []" "length obs \<le> 2 ^ 20"
  defines "xs \<equiv> weighted_samples obs" and "p \<equiv> calculateVolumeWeightedMedian obs" and "V \<equiv> sum_list (map snd (weighted_samples obs))"
  shows "V * (1 - 1 / 2 ^ 29) \<le> 2 * vol_where (\<lambda>q. q \<le> p) xs" "2 * vol_where (\<lambda>q. q < p) xs \<le> V * (1 + 1 / 2 ^ 29)"
proof -
  have nn: "\<forall>x \<in> set xs. 0 < snd x" using pos by (auto simp: xs_def weighted_samples_def)
  have "length xs = length obs" by (simp add: xs_def weighted_samples_def)
  moreover have "sorted (map fst xs)" by (simp add: xs_def weighted_samples_def)
  ultimately have len: "length xs \<le> 2 ^ 20" "xs \<noteq> []" "sorted (map fst xs)" using n by auto
  have nv: "\<forall>v \<in> set (map snd xs). 0 \<le> v" using nn by (auto simp: less_imp_le)
  obtain y ys where y: "xs = y # ys" using len(2) by (cases xs) auto
  have "0 \<le> sum_list (map snd ys)" using nv by (intro sum_list_nonneg) (auto simp: y)
  then have vp: "0 < V" using nn unfolding V_def xs_def [symmetric] y by (simp add: add_pos_nonneg)
  let ?T = "js_sum (map snd xs)"
  note T = js_sum_between [OF nv, unfolded length_map, OF len(1), folded js_sum_def, folded V_def [folded xs_def]]
  note h = half_between [OF less_imp_le [OF vp] T]
  have "0 < V * (1 - 1 / 2 ^ 32)" "0 < V / 2 * (1 - 1 / 2 ^ 31)" using vp by simp_all
  then have pT: "0 < ?T" "0 < jsdiv ?T 2" using T(1) h(1) by linarith+
  have "jsdiv ?T 2 \<le> foldl jsadd 0 (map snd xs)" using fl_half [OF pT(1)] by (simp add: jsdiv_def js_sum_def)
  then obtain q where q: "median_loop (jsdiv ?T 2) 0 xs = Some q" using median_loop_ends [OF len(2)] by blast
  then have "p = q" using n(1) pT(1) by (simp add: p_def calculateVolumeWeightedMedian_def Let_def flip: xs_def)
  then obtain ys v zs where s: "xs = ys @ (p, v) # zs" "foldl jsadd 0 (map snd ys) < jsdiv ?T 2" "jsdiv ?T 2 \<le> foldl jsadd 0 (map snd (ys @ [(p, v)]))"
    using median_loop_split [OF q pT(2)] by blast
  have ysv: "\<forall>w \<in> set (map snd (ys @ [(p, v)])). 0 \<le> w" "length (ys @ [(p, v)]) \<le> 2 ^ 20" "\<forall>w \<in> set (map snd ys). 0 \<le> w" "length ys \<le> 2 ^ 20"
    using nv len(1) by (auto simp: s(1))
  note a = js_sum_between(2) [OF ysv(1), unfolded length_map, OF ysv(2)] and b = js_sum_between(1) [OF ysv(3), unfolded length_map, OF ysv(4)]
  note w = sorted_split_volumes [OF len(3) [unfolded s(1)]]
  let ?A = "sum_list (map snd (ys @ [(p, v)]))" and ?B = "sum_list (map snd ys)"
  have "V / 2 * (1 - 1 / 2 ^ 31) \<le> ?A * (1 + 1 / 2 ^ 31)" using h(1) s(3) a by linarith
  then have "V * (1 - 1 / 2 ^ 29) \<le> 2 * ?A" using vp by (simp add: algebra_simps)
  moreover have "?B * (1 - 1 / 2 ^ 32) \<le> V / 2 * (1 + 1 / 2 ^ 30)" using h(2) s(2) b by linarith
  then have "2 * ?B \<le> V * (1 + 1 / 2 ^ 29)" using vp by (simp add: algebra_simps)
  moreover have "?A \<le> vol_where (\<lambda>q. q \<le> p) xs" "vol_where (\<lambda>q. q < p) xs \<le> ?B" using w nn by (auto simp: s(1) less_imp_le)
  ultimately show "V * (1 - 1 / 2 ^ 29) \<le> 2 * vol_where (\<lambda>q. q \<le> p) xs" "2 * vol_where (\<lambda>q. q < p) xs \<le> V * (1 + 1 / 2 ^ 29)" by linarith+
qed

section \<open>What a refresh publishes\<close>

lemma last_120_length: "length (last_120 xs) \<le> 120"
  by (simp add: last_120_def)

text \<open>A refresh that gets no answer from any exchange publishes the price 0 for every asset and keeps it in the history.\<close>

lemma silent_exchanges_publish_zero:
  assumes "asset \<in> set DEFAULT_ASSETS"
  shows "getLatestPrice asset (refresh now (\<lambda>_. None) None ag) = Some 0"
proof -
  have "calculateVolumeWeightedMedian [] = 0" by (simp add: calculateVolumeWeightedMedian_def)
  then show ?thesis using assms
    by (auto simp: getLatestPrice_def getAssetFeed_def refresh_def DEFAULT_ASSETS_def fetchBinancePrices_def fetchCoinGeckoPrices_def
        collectObservations_def asset_step_def Let_def normalizeAsset_def toUpperCase_def upper_char_def is_lower_def split: prod.splits)
qed

section \<open>Example\<close>

definition sample_observations :: "observation list" where
  "sample_observations = [\<lparr>ob_asset = ''XLM'', ob_source = Binance, ob_price = 10, ob_volume = 601 / 2, ob_timestamp = 0\<rparr>,
     \<lparr>ob_asset = ''XLM'', ob_source = Coingecko, ob_price = 1000, ob_volume = 200 + 1 / 8, ob_timestamp = 0\<rparr>]"

section \<open>A majority bounds the spot price\<close>

lemma vol_filter_mono:
  "\<forall>b \<in> set xs. 0 \<le> ob_volume b \<Longrightarrow> (\<And>b. b \<in> set xs \<Longrightarrow> P b \<Longrightarrow> Q b) \<Longrightarrow> (\<Sum>b\<leftarrow>filter P xs. ob_volume b) \<le> (\<Sum>b\<leftarrow>filter Q xs. ob_volume b)"
  by (induction xs) (auto simp: add_increasing)

lemma vol_filter_split: "(\<Sum>b\<leftarrow>filter P xs. ob_volume b) + (\<Sum>b\<leftarrow>filter (\<lambda>b. \<not> P b) xs. ob_volume b) = (\<Sum>b\<leftarrow>xs. ob_volume b)"
  by (induction xs) auto

lemma sum_list_sort_rat: "(\<Sum>x\<leftarrow>sort_key k xs. f x :: rat) = (\<Sum>x\<leftarrow>xs. f x)"
  by (metis mset_map mset_sort sum_mset_sum_list)

lemma samples_volumes:
  assumes "\<forall>b \<in> set obs. 0 < ob_volume b"
  shows "vol_where P (weighted_samples obs) = (\<Sum>b\<leftarrow>filter (\<lambda>b. P (ob_price b)) obs. ob_volume b)"
    "sum_list (map snd (weighted_samples obs)) = (\<Sum>b\<leftarrow>obs. ob_volume b)"
proof -
  let ?f = "\<lambda>b. (ob_price b, if ob_volume b > 0 then ob_volume b else 1)"
  have f: "map ?f (filter R obs) = map (\<lambda>b. (ob_price b, ob_volume b)) (filter R obs)" for R using assms by auto
  have "vol_where P (weighted_samples obs) = (\<Sum>x\<leftarrow>filter (\<lambda>x. P (fst x)) (map ?f obs). snd x)"
    unfolding vol_where_def weighted_samples_def filter_sort by (rule sum_list_sort_rat)
  also have "\<dots> = (\<Sum>x\<leftarrow>map ?f (filter (\<lambda>b. P (ob_price b)) obs). snd x)" by (simp add: filter_map comp_def)
  finally show "vol_where P (weighted_samples obs) = (\<Sum>b\<leftarrow>filter (\<lambda>b. P (ob_price b)) obs. ob_volume b)"
    unfolding f by (simp add: comp_def)
  have "sum_list (map snd (weighted_samples obs)) = (\<Sum>x\<leftarrow>map ?f (filter (\<lambda>b. True) obs). snd x)"
    unfolding weighted_samples_def by (simp add: sum_list_sort_rat)
  then show "sum_list (map snd (weighted_samples obs)) = (\<Sum>b\<leftarrow>obs. ob_volume b)" unfolding f by (simp add: comp_def)
qed

text \<open>
  C25. Sources that hold a majority of the volume cannot be outvoted: when they hold more than half of the
  exact total by a margin of one part in \<open>2 ^ 29\<close>, which covers the rounding of all sums, the spot price
  lies between the lowest and the highest of their prices, whatever the others report.  The volumes are
  any positive doubles, of at most \<open>2 ^ 20\<close> observations.
\<close>
theorem majority_bounds_spot:
  assumes "\<forall>b \<in> set obs. 0 < ob_volume b" "length obs \<le> 2 ^ 20"
    and "(\<Sum>b\<leftarrow>obs. ob_volume b) * (1 + 1 / 2 ^ 29) < 2 * (\<Sum>b\<leftarrow>filter honest obs. ob_volume b)"
  shows "\<exists>a b. a \<in> set obs \<and> b \<in> set obs \<and> honest a \<and> honest b
    \<and> ob_price a \<le> calculateVolumeWeightedMedian obs \<and> calculateVolumeWeightedMedian obs \<le> ob_price b"
proof -
  let ?p = "calculateVolumeWeightedMedian obs" and ?V = "\<Sum>b\<leftarrow>obs. ob_volume b"
  have "obs \<noteq> []" using assms(3) by auto
  note s = spot_splits [OF assms(1) this assms(2), unfolded samples_volumes [OF assms(1)]]
  have nn: "\<forall>b \<in> set obs. 0 \<le> ob_volume b" using assms(1) by (auto simp: less_imp_le)
  have "\<exists>a. a \<in> set obs \<and> honest a \<and> ob_price a \<le> ?p"
  proof (rule ccontr)
    assume "\<not> ?thesis"
    then have "(\<Sum>b\<leftarrow>filter (\<lambda>b. ob_price b \<le> ?p) obs. ob_volume b) \<le> (\<Sum>b\<leftarrow>filter (\<lambda>b. \<not> honest b) obs. ob_volume b)"
      by (intro vol_filter_mono [OF nn]) blast
    then show False using s(1) assms(3) vol_filter_split [where P = honest and xs = obs] unfolding right_diff_distrib distrib_left by linarith
  qed
  moreover have "\<exists>b. b \<in> set obs \<and> honest b \<and> ?p \<le> ob_price b"
  proof (rule ccontr)
    assume "\<not> ?thesis"
    then have "(\<Sum>b\<leftarrow>filter honest obs. ob_volume b) \<le> (\<Sum>b\<leftarrow>filter (\<lambda>b. ob_price b < ?p) obs. ob_volume b)"
      by (intro vol_filter_mono [OF nn]) (meson not_less)
    then show False using s(2) assms(3) by linarith
  qed
  ultimately show ?thesis by blast
qed

theorem majority_bounds_spot_witness:
  "(\<exists>a b. a \<in> set sample_observations \<and> b \<in> set sample_observations \<and> ob_source a = Binance \<and> ob_source b = Binance
     \<and> ob_price a \<le> calculateVolumeWeightedMedian sample_observations \<and> calculateVolumeWeightedMedian sample_observations \<le> ob_price b)
   \<and> calculateVolumeWeightedMedian sample_observations = 10"
proof -
  have "calculateVolumeWeightedMedian sample_observations = 10" by code_simp
  moreover have "\<exists>a b. a \<in> set sample_observations \<and> b \<in> set sample_observations \<and> ob_source a = Binance \<and> ob_source b = Binance
     \<and> ob_price a \<le> calculateVolumeWeightedMedian sample_observations \<and> calculateVolumeWeightedMedian sample_observations \<le> ob_price b"
    by (rule majority_bounds_spot [where honest = "\<lambda>b. ob_source b = Binance"]) (simp_all add: sample_observations_def)
  ultimately show ?thesis by blast
qed

end
