(* ===== verification/RpcIntegrity.thy ===== *)
theory RpcIntegrity
  imports JSText
begin

text \<open>
  \<open>src/services/rpcResponseIntegrity.ts\<close> and \<open>integrityCheckedRpc.ts\<close>: a critical query is sent to up to
  three endpoints, the answers are hashed, and differing hashes are an error.  The answers of the
  endpoints, the hash function and the printing of numbers are arguments.

  The lemmas say exactly when a query is accepted, refused or reported as divergent, and who is blamed.
  They also show what the hash does not see, since \<open>JSON.stringify\<close> with a list of names drops every
  nested property that is not named like one of the outermost object, and what the client does with a
  divergence.
\<close>

section \<open>Printing with a list of names\<close>

text \<open>\<open>JSON.stringify(value, names)\<close>; \<open>None\<close> stands for \<open>undefined\<close>.\<close>

definition members :: "string list \<Rightarrow> (string \<times> string option) list \<Rightarrow> (string \<times> string) list" where
  "members names texts = List.map_filter (\<lambda>k. case map_of texts k of Some (Some t) \<Rightarrow> Some (k, t) | _ \<Rightarrow> None) (remdups names)"

definition or_null :: "string option \<Rightarrow> string" where
  "or_null t = (case t of None \<Rightarrow> ''null'' | Some s \<Rightarrow> s)"

fun stringify :: "(rat \<Rightarrow> string) \<Rightarrow> string list \<Rightarrow> json \<Rightarrow> string option" where
  "stringify num names JUndefined = None"
| "stringify num names JNull = Some ''null''"
| "stringify num names (JBool b) = Some (if b then ''true'' else ''false'')"
| "stringify num names (JNum x) = Some (num x)"
| "stringify num names (JStr s) = Some (str_text s)"
| "stringify num names (JArr xs) = Some (arr_text (map or_null (map (stringify num names) xs)))"
| "stringify num names (JObj ps) = Some (obj_text (members names (map (\<lambda>(k, v). (k, stringify num names v)) ps)))"

text \<open>\<open>Object.keys\<close>; \<open>None\<close> when it throws.\<close>

fun object_keys :: "json \<Rightarrow> string list option" where
  "object_keys JUndefined = None"
| "object_keys JNull = None"
| "object_keys (JBool b) = Some []"
| "object_keys (JNum x) = Some []"
| "object_keys (JStr s) = Some (map show_nat [0..<length s])"
| "object_keys (JArr xs) = Some (map show_nat [0..<length xs])"
| "object_keys (JObj ps) = Some (map fst (own_order ps))"

definition serialized :: "(rat \<Rightarrow> string) \<Rightarrow> json \<Rightarrow> string option" where
  "serialized num v = (case object_keys v of None \<Rightarrow> None | Some names \<Rightarrow> stringify num (sort names) v)"

record hashing =
  hs_num :: "rat \<Rightarrow> string"
  hs_sha256 :: "string \<Rightarrow> string"

definition computeStateHash :: "hashing \<Rightarrow> json \<Rightarrow> string option" where
  "computeStateHash h v = map_option (hs_sha256 h) (serialized (hs_num h) v)"

section \<open>Endpoints\<close>

record node_endpoint =
  re_url :: string
  re_name :: string

record integrity =
  ig_endpoints :: "node_endpoint list"
  ig_timeoutMs :: int
  ig_critical :: "string list"

definition CRITICAL_METHODS :: "string list" where
  "CRITICAL_METHODS = [''getContractData'', ''getContractEvents'', ''getLatestLedger'', ''getLedgerEntries'', ''simulateTransaction'', ''getNetwork'']"

definition new_integrity :: "node_endpoint list \<Rightarrow> int \<Rightarrow> string list option \<Rightarrow> integrity" where
  "new_integrity eps timeout critical =
     \<lparr>ig_endpoints = take 3 eps, ig_timeoutMs = timeout, ig_critical = (case critical of Some c \<Rightarrow> c | None \<Rightarrow> CRITICAL_METHODS)\<rparr>"

definition addEndpoint :: "node_endpoint \<Rightarrow> integrity \<Rightarrow> integrity" where
  "addEndpoint e m = (if length (ig_endpoints m) < 3 then m\<lparr>ig_endpoints := ig_endpoints m @ [e]\<rparr> else m)"

definition removeEndpoint :: "string \<Rightarrow> integrity \<Rightarrow> integrity" where
  "removeEndpoint url m = m\<lparr>ig_endpoints := filter (\<lambda>e. re_url e \<noteq> url) (ig_endpoints m)\<rparr>"

definition isCriticalMethod :: "string \<Rightarrow> integrity \<Rightarrow> bool" where
  "isCriticalMethod meth m \<longleftrightarrow> meth \<in> set (ig_critical m)"

definition addCriticalMethod :: "string \<Rightarrow> integrity \<Rightarrow> integrity" where
  "addCriticalMethod meth m = m\<lparr>ig_critical := List.insert meth (ig_critical m)\<rparr>"

definition removeCriticalMethod :: "string \<Rightarrow> integrity \<Rightarrow> integrity" where
  "removeCriticalMethod meth m = m\<lparr>ig_critical := filter (\<lambda>x. x \<noteq> meth) (ig_critical m)\<rparr>"

section \<open>Answers\<close>

text \<open>What an endpoint does: the client cannot be built, the call fails or times out, or it answers.\<close>

datatype rpc_outcome = No_client string | Call_fails string | Answers json

record endpoint_response =
  er_endpoint :: node_endpoint
  er_result :: json
  er_error :: "string option"
  er_latencyMs :: int
  er_success :: bool
  er_stateHash :: "string option"

definition failed_response :: "node_endpoint \<Rightarrow> string \<Rightarrow> int \<Rightarrow> endpoint_response" where
  "failed_response e message latency =
     \<lparr>er_endpoint = e, er_result = JUndefined, er_error = Some message, er_latencyMs = latency, er_success = False, er_stateHash = None\<rparr>"

definition good_response :: "node_endpoint \<Rightarrow> json \<Rightarrow> int \<Rightarrow> string \<Rightarrow> endpoint_response" where
  "good_response e v latency hash =
     \<lparr>er_endpoint = e, er_result = v, er_error = None, er_latencyMs = latency, er_success = True, er_stateHash = Some hash\<rparr>"

text \<open>The hash is computed inside the same \<open>try\<close>, so an answer without properties counts as a failure.\<close>

definition queryEndpoint :: "hashing \<Rightarrow> int \<Rightarrow> node_endpoint \<Rightarrow> rpc_outcome \<times> int \<Rightarrow> endpoint_response" where
  "queryEndpoint h timeout e a = (case a of
      (No_client message, _) \<Rightarrow> failed_response e message timeout
    | (Call_fails message, latency) \<Rightarrow> failed_response e message latency
    | (Answers v, latency) \<Rightarrow> (case computeStateHash h v of
          None \<Rightarrow> failed_response e ''TypeError: Cannot convert undefined or null to object'' latency
        | Some hash \<Rightarrow> good_response e v latency hash))"

definition queryAllEndpoints :: "hashing \<Rightarrow> integrity \<Rightarrow> (node_endpoint \<Rightarrow> rpc_outcome \<times> int) \<Rightarrow> endpoint_response list" where
  "queryAllEndpoints h m answers = map (\<lambda>e. queryEndpoint h (ig_timeoutMs m) e (answers e)) (ig_endpoints m)"

section \<open>Agreement\<close>

definition hashed :: "endpoint_response \<Rightarrow> string option" where
  "hashed r = (case er_stateHash r of Some s \<Rightarrow> if s = [] then None else Some s | None \<Rightarrow> None)"

definition add_to_group :: "endpoint_response \<Rightarrow> (string \<times> endpoint_response list) list \<Rightarrow> (string \<times> endpoint_response list) list" where
  "add_to_group r groups = (case hashed r of
      None \<Rightarrow> groups
    | Some s \<Rightarrow> jm_set s ((case jm_get groups s of Some g \<Rightarrow> g | None \<Rightarrow> []) @ [r]) groups)"

definition hash_groups :: "endpoint_response list \<Rightarrow> (string \<times> endpoint_response list) list" where
  "hash_groups rs = fold add_to_group rs []"

text \<open>The first of the largest groups.\<close>

fun largest :: "(string \<times> 'a list) option \<Rightarrow> (string \<times> 'a list) list \<Rightarrow> (string \<times> 'a list) option" where
  "largest best [] = best"
| "largest best ((s, g) # groups) =
     largest (if length g > (case best of None \<Rightarrow> 0 | Some (_, b) \<Rightarrow> length b) then Some (s, g) else best) groups"

record divergence =
  dv_method :: string
  dv_params :: "json list"
  dv_endpointHashes :: "(string \<times> string) list"
  dv_majorityHash :: "string option"
  dv_divergingEndpoints :: "string list"
  dv_timestamp :: int

definition endpoint_hashes :: "endpoint_response list \<Rightarrow> (string \<times> string) list" where
  "endpoint_hashes rs = fold (\<lambda>r es. case hashed r of None \<Rightarrow> es | Some s \<Rightarrow> jm_set (re_name (er_endpoint r)) s es) rs []"

definition detectDivergence :: "int \<Rightarrow> string \<Rightarrow> json list \<Rightarrow> endpoint_response list \<Rightarrow> divergence option" where
  "detectDivergence now meth params rs =
     (let groups = hash_groups rs; majority = map_option fst (largest None groups) in
      if length groups \<le> 1 then None
      else Some \<lparr>dv_method = meth, dv_params = params, dv_endpointHashes = endpoint_hashes rs, dv_majorityHash = majority,
        dv_divergingEndpoints = map (\<lambda>r. re_name (er_endpoint r)) (filter (\<lambda>r. hashed r \<noteq> None \<and> hashed r \<noteq> majority) rs), dv_timestamp = now\<rparr>)"

definition extractConsensusResult :: "endpoint_response list \<Rightarrow> json" where
  "extractConsensusResult rs =
     (case largest None (hash_groups (filter (\<lambda>r. er_success r \<and> hashed r \<noteq> None) rs)) of
        Some (_, r # _) \<Rightarrow> er_result r
      | _ \<Rightarrow> JUndefined)"

record validation =
  vr_isValid :: bool
  vr_consensusResult :: json
  vr_responses :: "endpoint_response list"

datatype integrity_error = All_failed string | Divergence divergence | No_endpoints | Client_failure string

definition singleNodeQuery :: "hashing \<Rightarrow> integrity \<Rightarrow> (node_endpoint \<Rightarrow> rpc_outcome \<times> int) \<Rightarrow> (integrity_error, validation) result" where
  "singleNodeQuery h m answers = (case ig_endpoints m of
      [] \<Rightarrow> Inl No_endpoints
    | e # _ \<Rightarrow> (case answers e of
          (No_client message, _) \<Rightarrow> Inl (Client_failure message)
        | a \<Rightarrow> (let r = queryEndpoint h (ig_timeoutMs m) e a in
                Inr \<lparr>vr_isValid = er_success r, vr_consensusResult = er_result r, vr_responses = [r]\<rparr>)))"

section \<open>The log of divergences\<close>

record divergence_row =
  lg_id :: string
  lg_divergence :: divergence
  lg_resolved :: bool
  lg_resolutionNotes :: "string option"

text \<open>A row that cannot be written is reported and forgotten.\<close>

definition logDivergence :: "bool \<Rightarrow> string \<Rightarrow> divergence \<Rightarrow> divergence_row list \<Rightarrow> divergence_row list" where
  "logDivergence written new_id d rows =
     (if written then rows @ [\<lparr>lg_id = new_id, lg_divergence = d, lg_resolved = False, lg_resolutionNotes = None\<rparr>] else rows)"

definition getDivergenceLogs :: "nat \<Rightarrow> bool option \<Rightarrow> divergence_row list \<Rightarrow> divergence_row list" where
  "getDivergenceLogs limit resolved rows =
     take limit (sort_key (\<lambda>r. - dv_timestamp (lg_divergence r)) (filter (\<lambda>r. case resolved of None \<Rightarrow> True | Some b \<Rightarrow> lg_resolved r = b) rows))"

definition resolveDivergence :: "string \<Rightarrow> string \<Rightarrow> divergence_row list \<Rightarrow> (string, divergence_row list) result" where
  "resolveDivergence i notes rows =
     (if i \<notin> lg_id ` set rows then Inl ''Record to update not found.''
      else Inr (map (\<lambda>r. if lg_id r = i then r\<lparr>lg_resolved := True, lg_resolutionNotes := Some notes\<rparr> else r) rows))"

record log_input =
  li_now :: int
  li_id :: string
  li_written :: bool

definition validateCriticalQuery ::
  "hashing \<Rightarrow> integrity \<Rightarrow> log_input \<Rightarrow> string \<Rightarrow> json list \<Rightarrow> (node_endpoint \<Rightarrow> rpc_outcome \<times> int) \<Rightarrow> divergence_row list
     \<Rightarrow> (integrity_error, validation) result \<times> divergence_row list" where
  "validateCriticalQuery h m li meth params answers rows =
     (if \<not> isCriticalMethod meth m then (singleNodeQuery h m answers, rows)
      else let valid = filter er_success (queryAllEndpoints h m answers) in
        if valid = [] then (Inl (All_failed meth), rows)
        else case detectDivergence (li_now li) meth params valid of
            Some d \<Rightarrow> (Inl (Divergence d), logDivergence (li_written li) (li_id li) d rows)
          | None \<Rightarrow> (Inr \<lparr>vr_isValid = True, vr_consensusResult = extractConsensusResult valid, vr_responses = valid\<rparr>, rows))"

section \<open>The client\<close>

definition CRITICAL_RPC_METHODS :: "string list" where
  "CRITICAL_RPC_METHODS = [''getContractData'', ''getContractEvents'', ''getLatestLedger'', ''getLedgerEntries'', ''simulateTransaction'', ''getNetwork'']"

text \<open>
  The provider answers call after call; after a failure it says whether it moved on to another node, and
  the call is repeated.  \<open>None\<close>: it never ends.
\<close>

partial_function (option) singleNodeCall :: "(nat \<Rightarrow> (string, json) result) \<Rightarrow> (nat \<Rightarrow> bool) \<Rightarrow> nat \<Rightarrow> (string, json) result option" where
  "singleNodeCall provider moved_on i = (case provider i of
      Inr v \<Rightarrow> Some (Inr v)
    | Inl e \<Rightarrow> if moved_on i then singleNodeCall provider moved_on (i + 1) else Some (Inl e))"

definition integrity_call ::
  "hashing \<Rightarrow> integrity \<Rightarrow> log_input \<Rightarrow> string \<Rightarrow> json list \<Rightarrow> (node_endpoint \<Rightarrow> rpc_outcome \<times> int) \<Rightarrow> (nat \<Rightarrow> (string, json) result) \<Rightarrow> (nat \<Rightarrow> bool)
     \<Rightarrow> divergence_row list \<Rightarrow> (string, json) result option \<times> divergence_row list" where
  "integrity_call h m li meth params answers provider moved_on rows =
     (if meth \<notin> set CRITICAL_RPC_METHODS then (singleNodeCall provider moved_on 0, rows)
      else case validateCriticalQuery h m li meth params answers rows of
          (Inr r, rows') \<Rightarrow> (if vr_isValid r \<and> vr_consensusResult r \<noteq> JUndefined then Some (Inr (vr_consensusResult r))
                          else singleNodeCall provider moved_on 0, rows')
        | (Inl _, rows') \<Rightarrow> (singleNodeCall provider moved_on 0, rows'))"

section \<open>Groups\<close>

lemma hash_groups_snoc: "hash_groups (rs @ [r]) = add_to_group r (hash_groups rs)"
  by (simp add: hash_groups_def)

lemma hash_groups_get:
  "jm_get (hash_groups rs) s = (if filter (\<lambda>r. hashed r = Some s) rs = [] then None else Some (filter (\<lambda>r. hashed r = Some s) rs))"
proof (induction rs rule: rev_induct)
  case (snoc r rs)
  then show ?case by (auto simp: hash_groups_snoc add_to_group_def split: option.splits)
qed (simp add: hash_groups_def)

lemma hash_groups_distinct: "distinct (jm_keys (hash_groups rs))"
proof (induction rs rule: rev_induct)
  case (snoc r rs)
  then show ?case by (auto simp: hash_groups_snoc add_to_group_def jm_distinct_set split: option.splits)
qed (simp add: hash_groups_def)

lemma hash_groups_entries: "(s, g) \<in> set (hash_groups rs) \<longleftrightarrow> g = filter (\<lambda>r. hashed r = Some s) rs \<and> g \<noteq> []"
proof -
  have "(s, g) \<in> set (hash_groups rs) \<longleftrightarrow> jm_get (hash_groups rs) s = Some g"
    using hash_groups_distinct by (simp add: map_of_eq_Some_iff)
  then show ?thesis by (auto simp: hash_groups_get)
qed

text \<open>There is at most one group exactly when all hashes are the same.\<close>

lemma hash_groups_keys: "s \<in> set (jm_keys (hash_groups rs)) \<longleftrightarrow> (\<exists>r \<in> set rs. hashed r = Some s)"
proof -
  have "s \<in> set (jm_keys (hash_groups rs)) \<longleftrightarrow> (\<exists>g. (s, g) \<in> set (hash_groups rs))" by force
  also have "\<dots> \<longleftrightarrow> filter (\<lambda>r. hashed r = Some s) rs \<noteq> []" by (simp add: hash_groups_entries)
  finally show ?thesis by (simp only: filter_empty_conv) simp
qed

lemma one_group_iff: "length (hash_groups rs) \<le> 1 \<longleftrightarrow> (\<forall>r \<in> set rs. \<forall>q \<in> set rs. \<forall>s t. hashed r = Some s \<longrightarrow> hashed q = Some t \<longrightarrow> s = t)"
proof -
  let ?K = "set (jm_keys (hash_groups rs))"
  have "length (hash_groups rs) \<le> 1 \<longleftrightarrow> card ?K \<le> Suc 0" using distinct_card [OF hash_groups_distinct [of rs]] by simp
  also have "\<dots> \<longleftrightarrow> (\<forall>s \<in> ?K. \<forall>t \<in> ?K. s = t)" by (rule card_le_Suc0_iff_eq) simp
  also have "\<dots> \<longleftrightarrow> (\<forall>r \<in> set rs. \<forall>q \<in> set rs. \<forall>s t. hashed r = Some s \<longrightarrow> hashed q = Some t \<longrightarrow> s = t)"
    unfolding Ball_def [of ?K] hash_groups_keys by blast
  finally show ?thesis .
qed

lemma largest_spec:
  assumes "\<forall>(s, g) \<in> set groups. g \<noteq> []" "case best of None \<Rightarrow> True | Some (s, g) \<Rightarrow> g \<noteq> []"
  shows "case largest best groups of
      None \<Rightarrow> best = None \<and> groups = []
    | Some (s, g) \<Rightarrow> (best = Some (s, g) \<or> (s, g) \<in> set groups) \<and> (\<forall>(s', g') \<in> set groups. length g' \<le> length g)
        \<and> (case best of None \<Rightarrow> True | Some (_, b) \<Rightarrow> length b \<le> length g)"
  using assms
proof (induction groups arbitrary: best)
  case Nil
  then show ?case by (auto split: option.splits)
next
  case (Cons p groups)
  obtain s' g' where p: "p = (s', g')" by (cases p)
  let ?best = "if length g' > (case best of None \<Rightarrow> 0 | Some (_, b) \<Rightarrow> length b) then Some (s', g') else best"
  have "case ?best of None \<Rightarrow> True | Some (s, g) \<Rightarrow> g \<noteq> []" using Cons.prems p by (auto split: option.splits)
  from Cons.IH [OF _ this] show ?case using Cons.prems p by (auto split: option.splits if_splits)
qed

lemma largest_group:
  assumes "hash_groups rs \<noteq> []"
  shows "\<exists>s. largest None (hash_groups rs) = Some (s, filter (\<lambda>r. hashed r = Some s) rs) \<and> (\<exists>r \<in> set rs. hashed r = Some s)
    \<and> (\<forall>t. length (filter (\<lambda>r. hashed r = Some t) rs) \<le> length (filter (\<lambda>r. hashed r = Some s) rs))"
proof -
  have "\<forall>(s, g) \<in> set (hash_groups rs). g \<noteq> []" using hash_groups_entries by blast
  from largest_spec [OF this, of None] assms obtain s g where l: "largest None (hash_groups rs) = Some (s, g)"
      "(s, g) \<in> set (hash_groups rs)" "\<forall>(s', g') \<in> set (hash_groups rs). length g' \<le> length g"
    by (auto split: option.splits)
  then have g: "g = filter (\<lambda>r. hashed r = Some s) rs" "g \<noteq> []" using hash_groups_entries by blast+
  have "length (filter (\<lambda>r. hashed r = Some t) rs) \<le> length g" for t
    using l(3) hash_groups_entries [of t "filter (\<lambda>r. hashed r = Some t) rs" rs] by (cases "filter (\<lambda>r. hashed r = Some t) rs = []") auto
  moreover have "\<exists>r \<in> set rs. hashed r = Some s" using g by (auto simp: filter_empty_conv)
  ultimately show ?thesis using l(1) g(1) by blast
qed

section \<open>The verdict\<close>

text \<open>The endpoints that answered with a value that can be hashed, with the value and its hash.\<close>

definition accepted :: "hashing \<Rightarrow> integrity \<Rightarrow> (node_endpoint \<Rightarrow> rpc_outcome \<times> int) \<Rightarrow> (node_endpoint \<times> json \<times> string) list" where
  "accepted h m answers = List.map_filter (\<lambda>e. case fst (answers e) of
      Answers v \<Rightarrow> map_option (\<lambda>s. (e, v, s)) (computeStateHash h v) | _ \<Rightarrow> None) (ig_endpoints m)"

abbreviation response_of :: "(node_endpoint \<Rightarrow> rpc_outcome \<times> int) \<Rightarrow> node_endpoint \<times> json \<times> string \<Rightarrow> endpoint_response" where
  "response_of answers x \<equiv> good_response (fst x) (fst (snd x)) (snd (answers (fst x))) (snd (snd x))"

lemma valid_responses: "filter er_success (queryAllEndpoints h m answers) = map (response_of answers) (accepted h m answers)"
proof -
  have "filter er_success (map (\<lambda>e. queryEndpoint h t e (answers e)) es)
      = map (response_of answers) (List.map_filter (\<lambda>e. case fst (answers e) of
          Answers v \<Rightarrow> map_option (\<lambda>s. (e, v, s)) (computeStateHash h v) | _ \<Rightarrow> None) es)" for t es
    by (induction es) (auto simp: queryEndpoint_def failed_response_def good_response_def map_filter_def split: prod.splits rpc_outcome.splits option.splits)
  then show ?thesis by (simp add: queryAllEndpoints_def accepted_def)
qed

lemma accepted_hash:
  assumes "\<And>t. hs_sha256 h t \<noteq> []" "x \<in> set (accepted h m answers)"
  shows "hashed (response_of answers x) = Some (snd (snd x))"
  using assms by (auto simp: accepted_def map_filter_def computeStateHash_def hashed_def good_response_def split: rpc_outcome.splits option.splits)

definition agree :: "(node_endpoint \<times> json \<times> string) list \<Rightarrow> bool" where
  "agree vs \<longleftrightarrow> (\<forall>x \<in> set vs. \<forall>y \<in> set vs. snd (snd x) = snd (snd y))"

lemma divergence_iff:
  assumes "\<And>t. hs_sha256 h t \<noteq> []"
  shows "detectDivergence now meth params (map (response_of answers) (accepted h m answers)) = None \<longleftrightarrow> agree (accepted h m answers)"
proof -
  let ?vs = "accepted h m answers"
  have "length (hash_groups (map (response_of answers) ?vs)) \<le> 1 \<longleftrightarrow> agree ?vs"
    unfolding one_group_iff agree_def by (simp add: accepted_hash [OF assms] cong: ball_cong)
  then show ?thesis by (simp add: detectDivergence_def Let_def)
qed

lemma consensus_first:
  assumes sha: "\<And>t. hs_sha256 h t \<noteq> []" and agr: "agree (accepted h m answers)" and ne: "accepted h m answers = x # xs"
  shows "extractConsensusResult (map (response_of answers) (accepted h m answers)) = fst (snd x)"
proof -
  let ?rs = "map (response_of answers) (accepted h m answers)"
  let ?s = "snd (snd x)"
  have h: "hashed r = Some ?s" if "r \<in> set ?rs" for r
  proof -
    obtain y where y: "y \<in> set (accepted h m answers)" "r = response_of answers y" using \<open>r \<in> set ?rs\<close> by (auto simp del: split_paired_Ex)
    moreover have "x \<in> set (accepted h m answers)" using ne by simp
    ultimately have "snd (snd y) = ?s" using agr unfolding agree_def by blast
    then show ?thesis using accepted_hash [OF sha y(1)] y(2) by simp
  qed
  have f: "filter (\<lambda>r. er_success r \<and> hashed r \<noteq> None) ?rs = ?rs"
    by (rule filter_True) (use h in \<open>auto simp: good_response_def\<close>)
  have r0: "response_of answers x \<in> set ?rs" using ne by simp
  have "?s \<in> set (jm_keys (hash_groups ?rs))" using hash_groups_keys h [OF r0] r0 by blast
  then have "hash_groups ?rs \<noteq> []" by auto
  from largest_group [OF this] obtain s where s: "largest None (hash_groups ?rs) = Some (s, filter (\<lambda>r. hashed r = Some s) ?rs)" "\<exists>r \<in> set ?rs. hashed r = Some s"
      "\<forall>t. length (filter (\<lambda>r. hashed r = Some t) ?rs) \<le> length (filter (\<lambda>r. hashed r = Some s) ?rs)"
    by blast
  obtain r where "r \<in> set ?rs" "hashed r = Some s" using s(2) by blast
  then have "s = ?s" using h [of r] by simp
  then have "filter (\<lambda>r. hashed r = Some s) ?rs = ?rs" using h by (intro filter_True) blast
  then show ?thesis using s(1) f ne by (simp add: extractConsensusResult_def good_response_def)
qed

text \<open>
  C23. A critical query fails only when no endpoint answered, is divergent exactly when two answers have
  different hashes, and otherwise returns the first answer; so whatever it returns, every endpoint that
  answered has the same hash.
\<close>

theorem query_verdict:
  assumes "isCriticalMethod meth m" "\<And>t. hs_sha256 h t \<noteq> []"
  shows "case fst (validateCriticalQuery h m li meth params answers rows) of
      Inl (All_failed x) \<Rightarrow> accepted h m answers = []
    | Inl (Divergence d) \<Rightarrow> \<not> agree (accepted h m answers)
    | Inl _ \<Rightarrow> False
    | Inr r \<Rightarrow> accepted h m answers \<noteq> [] \<and> agree (accepted h m answers) \<and> vr_isValid r
        \<and> vr_consensusResult r = fst (snd (hd (accepted h m answers)))"
proof (cases "accepted h m answers")
  case Nil
  then show ?thesis using assms(1) by (simp add: validateCriticalQuery_def valid_responses)
next
  case (Cons x xs)
  show ?thesis
  proof (cases "agree (accepted h m answers)")
    case True
    then have d: "detectDivergence (li_now li) meth params (map (response_of answers) (accepted h m answers)) = None"
      using divergence_iff [OF assms(2)] by blast
    show ?thesis using assms(1) consensus_first [OF assms(2) True Cons] True Cons d
      by (simp add: validateCriticalQuery_def valid_responses Let_def)
  next
    case False
    then obtain d where d: "detectDivergence (li_now li) meth params (map (response_of answers) (accepted h m answers)) = Some d"
      using divergence_iff [OF assms(2)] by (cases "detectDivergence (li_now li) meth params (map (response_of answers) (accepted h m answers))") blast+
    show ?thesis using assms(1) False Cons d by (simp add: validateCriticalQuery_def valid_responses Let_def)
  qed
qed

text \<open>
  A divergence names a hash that no other one outnumbers, and blames exactly the endpoints that answered
  with another; it is logged when the row can be written.
\<close>

theorem divergence_blames_minority:
  assumes "isCriticalMethod meth m" "\<And>t. hs_sha256 h t \<noteq> []"
    and "validateCriticalQuery h m li meth params answers rows = (Inl (Divergence d), rows')"
  shows "\<exists>s. dv_majorityHash d = Some s
    \<and> (\<forall>t. length (filter (\<lambda>x. snd (snd x) = t) (accepted h m answers)) \<le> length (filter (\<lambda>x. snd (snd x) = s) (accepted h m answers)))
    \<and> dv_divergingEndpoints d = map (\<lambda>x. re_name (fst x)) (filter (\<lambda>x. snd (snd x) \<noteq> s) (accepted h m answers))
    \<and> dv_divergingEndpoints d \<noteq> [] \<and> (li_written li \<longrightarrow> d \<in> lg_divergence ` set rows')"
proof -
  let ?vs = "accepted h m answers" let ?rs = "map (response_of answers) ?vs"
  have d: "detectDivergence (li_now li) meth params ?rs = Some d" and rows: "rows' = logDivergence (li_written li) (li_id li) d rows"
    using assms(1,3) by (auto simp: validateCriticalQuery_def valid_responses Let_def split: if_splits option.splits)
  have len: "\<not> length (hash_groups ?rs) \<le> 1" using d by (auto simp: detectDivergence_def Let_def split: if_splits)
  then have "hash_groups ?rs \<noteq> []" by auto
  from largest_group [OF this] obtain s where s: "largest None (hash_groups ?rs) = Some (s, filter (\<lambda>r. hashed r = Some s) ?rs)" "\<exists>r \<in> set ?rs. hashed r = Some s"
      "\<forall>t. length (filter (\<lambda>r. hashed r = Some t) ?rs) \<le> length (filter (\<lambda>r. hashed r = Some s) ?rs)"
    by blast
  have c: "length (filter (\<lambda>r. hashed r = Some t) ?rs) = length (filter (\<lambda>x. snd (snd x) = t) ?vs)" for t
    using accepted_hash [OF assms(2)] by (simp add: filter_map comp_def cong: filter_cong)
  have m: "dv_majorityHash d = Some s" using d s(1) by (auto simp: detectDivergence_def Let_def split: if_splits)
  have f: "filter (\<lambda>r. hashed r \<noteq> None \<and> hashed r \<noteq> Some s) ?rs = map (response_of answers) (filter (\<lambda>x. snd (snd x) \<noteq> s) ?vs)"
    using accepted_hash [OF assms(2)] by (simp add: filter_map comp_def cong: filter_cong)
  have b: "dv_divergingEndpoints d = map (\<lambda>x. re_name (fst x)) (filter (\<lambda>x. snd (snd x) \<noteq> s) ?vs)"
    using d s(1) f by (auto simp: detectDivergence_def Let_def good_response_def split: if_splits)
  have "\<not> agree ?vs" using d divergence_iff [OF assms(2), of "li_now li" meth params answers m] by simp
  moreover have "agree ?vs" if "\<forall>x \<in> set ?vs. snd (snd x) = s" using that by (simp add: agree_def)
  ultimately have "\<exists>x \<in> set ?vs. snd (snd x) \<noteq> s" by blast
  then have "dv_divergingEndpoints d \<noteq> []" using b by (simp add: filter_empty_conv)
  then show ?thesis using m s(3) [unfolded c] b rows by (simp add: logDivergence_def)
qed

section \<open>What the check does not see\<close>

text \<open>
  The names that are printed are those of the outermost object, so ledger entries are printed as empty
  objects: nodes that report different entries agree.
\<close>

lemma nested_differences_unseen:
  "computeStateHash h (JObj [(''entries'', JArr [JObj [(''key'', k), (''xdr'', v)]]), (''latestLedger'', n)])
   = computeStateHash h (JObj [(''entries'', JArr [JObj [(''key'', k'), (''xdr'', v')]]), (''latestLedger'', n)])"
proof -
  have "map fst (own_order [(''entries'', a), (''latestLedger'', n)]) = [''entries'', ''latestLedger'']" for a
    by (simp add: own_order_def array_index_def is_digit_def)
  then show ?thesis by (simp add: computeStateHash_def serialized_def members_def map_filter_def)
qed

text \<open>One endpoint that answers is enough, whatever happens to the others.\<close>

lemma lone_answer_accepted:
  assumes "isCriticalMethod meth m" "\<And>t. hs_sha256 h t \<noteq> []" "accepted h m answers = [x]"
  shows "\<exists>r. fst (validateCriticalQuery h m li meth params answers rows) = Inr r \<and> vr_isValid r \<and> vr_consensusResult r = fst (snd x)"
proof -
  have a: "agree (accepted h m answers)" by (simp add: agree_def assms(3))
  then have d: "detectDivergence (li_now li) meth params (map (response_of answers) (accepted h m answers)) = None"
    using divergence_iff [OF assms(2)] by blast
  show ?thesis using assms(1,3) consensus_first [OF assms(2) a assms(3)] d
    by (simp add: validateCriticalQuery_def valid_responses Let_def)
qed

text \<open>The client answers a divergence with whatever the primary node says.\<close>

lemma divergence_trusts_primary:
  assumes "meth \<in> set CRITICAL_RPC_METHODS" "validateCriticalQuery h m li meth params answers rows = (Inl (Divergence d), rows')" "provider 0 = Inr v"
  shows "integrity_call h m li meth params answers provider moved_on rows = (Some (Inr v), rows')"
  using assms by (simp add: integrity_call_def singleNodeCall.simps)

text \<open>The repetition ends once a node answers or the provider stays where it is.\<close>

lemma singleNodeCall_ends:
  assumes "is_ok (provider (i + k)) \<or> \<not> moved_on (i + k)"
  shows "\<exists>r. singleNodeCall provider moved_on i = Some r"
  using assms
proof (induction k arbitrary: i)
  case 0
  then show ?case by (subst singleNodeCall.simps) (auto simp: is_ok_def split: sum.splits)
next
  case (Suc k)
  then have "\<exists>r. singleNodeCall provider moved_on (i + 1) = Some r" by simp
  then show ?case by (subst singleNodeCall.simps) (auto split: sum.splits)
qed

section \<open>Witnesses\<close>

definition sample_hashing :: hashing where
  "sample_hashing = \<lparr>hs_num = (\<lambda>x. ''0''), hs_sha256 = (\<lambda>t. CHR ''h'' # t)\<rparr>"

definition sample_integrity :: integrity where
  "sample_integrity = new_integrity [\<lparr>re_url = ''u1'', re_name = ''n1''\<rparr>, \<lparr>re_url = ''u2'', re_name = ''n2''\<rparr>, \<lparr>re_url = ''u3'', re_name = ''n3''\<rparr>] 5000 None"

definition sample_answers :: "node_endpoint \<Rightarrow> rpc_outcome \<times> int" where
  "sample_answers e = (Answers (JBool (re_url e = ''u2'')), 10)"

definition sample_log :: log_input where
  "sample_log = \<lparr>li_now = 0, li_id = ''d1'', li_written = True\<rparr>"

lemma sample_accepted: "map (\<lambda>x. (re_name (fst x), snd (snd x))) (accepted sample_hashing sample_integrity sample_answers)
    = [(''n1'', ''hfalse''), (''n2'', ''htrue''), (''n3'', ''hfalse'')]"
  by code_simp

lemma sample_parts: "isCriticalMethod ''getNetwork'' sample_integrity" "hs_sha256 sample_hashing t \<noteq> []"
  by (simp_all add: isCriticalMethod_def sample_integrity_def new_integrity_def CRITICAL_METHODS_def sample_hashing_def)

theorem query_verdict_witness:
  "\<exists>d. fst (validateCriticalQuery sample_hashing sample_integrity sample_log ''getNetwork'' [] sample_answers []) = Inl (Divergence d)"
proof -
  let ?vs = "accepted sample_hashing sample_integrity sample_answers"
  obtain a b c where vs: "?vs = [a, b, c]" "snd (snd a) = ''hfalse''" "snd (snd b) = ''htrue''"
    using sample_accepted by (auto simp only: map_eq_Cons_conv map_is_Nil_conv Nil_is_map_conv prod.inject)
  have "?vs \<noteq> []" by (simp add: vs(1))
  moreover have "\<not> agree ?vs" unfolding vs(1) agree_def using vs(2,3) by (simp del: split_paired_All)
  moreover define out where "out = fst (validateCriticalQuery sample_hashing sample_integrity sample_log ''getNetwork'' [] sample_answers [])"
  note query_verdict [OF sample_parts, where li = sample_log and params = "[]" and answers = sample_answers and rows = "[]", folded out_def]
  ultimately have "\<exists>d. out = Inl (Divergence d)" by (cases out rule: sum.exhaust; simp split: integrity_error.splits)
  then show ?thesis by (simp add: out_def)
qed

theorem divergence_blames_minority_witness:
  "\<exists>d rows'. validateCriticalQuery sample_hashing sample_integrity sample_log ''getNetwork'' [] sample_answers [] = (Inl (Divergence d), rows')
     \<and> dv_divergingEndpoints d = [''n2''] \<and> dv_majorityHash d = Some ''hfalse'' \<and> d \<in> lg_divergence ` set rows'"
proof -
  have "map_option (\<lambda>d. (dv_divergingEndpoints d, dv_majorityHash d)) (case fst (validateCriticalQuery sample_hashing sample_integrity sample_log ''getNetwork'' [] sample_answers [])
      of Inl (Divergence d) \<Rightarrow> Some d | _ \<Rightarrow> None) = Some ([''n2''], Some ''hfalse'')" by code_simp
  then obtain d rows' where d: "validateCriticalQuery sample_hashing sample_integrity sample_log ''getNetwork'' [] sample_answers [] = (Inl (Divergence d), rows')"
      "dv_divergingEndpoints d = [''n2'']" "dv_majorityHash d = Some ''hfalse''"
    by (cases "validateCriticalQuery sample_hashing sample_integrity sample_log ''getNetwork'' [] sample_answers []") (auto split: sum.splits integrity_error.splits)
  have "d \<in> lg_divergence ` set rows'" using divergence_blames_minority [OF sample_parts d(1)] by (auto simp: sample_log_def)
  then show ?thesis using d by blast
qed

end
