(* ===== verification/Sep24Store.thy ===== *)
theory Sep24Store
  imports JSText
begin

text \<open>
  The session stores of \<open>src/services/sep24Interactive.ts\<close>: the process-local one and the one in Redis,
  whose \<open>completeOnce\<close> makes four calls.  The interface the service relies on is the locale
  \<open>session_store\<close>; both stores provide it.

  The lemmas say which sessions a store can return, that the process-local store completes a session at
  most once, and that claims of one session in Redis are apart by the lifetime of the marker.
\<close>

section \<open>Sessions\<close>

datatype sep24_operation = Deposit | Withdraw
datatype sep24_status = Incomplete | Pending_user_transfer_start

record session =
  ss_id :: string
  ss_operation :: sep24_operation
  ss_assetCode :: string
  ss_account :: "string option"
  ss_amount :: "string option"
  ss_clientOrigin :: "string option"
  ss_status :: sep24_status
  ss_createdAt :: int
  ss_sealedPayout :: "string option"

definition is_sealed :: "session \<Rightarrow> bool" where
  "is_sealed s \<longleftrightarrow> (case ss_sealedPayout s of None \<Rightarrow> False | Some p \<Rightarrow> p \<noteq> [])"

definition completed :: "string \<Rightarrow> session \<Rightarrow> session" where
  "completed payout s = s\<lparr>ss_status := Pending_user_transfer_start, ss_sealedPayout := Some payout\<rparr>"

text \<open>
  Where \<open>completeOnce\<close> is suspended, and what it comes to: a further call, a session or nothing, or an
  exception of the store.
\<close>

datatype complete_pc = C_begin | C_claim int | C_read int | C_write int session

datatype complete_out = Next complete_pc | Resolved "session option" | Rejected

record 's store_ops =
  so_save :: "int \<Rightarrow> session \<Rightarrow> int \<Rightarrow> 's \<Rightarrow> 's"
  so_get :: "int \<Rightarrow> string \<Rightarrow> 's \<Rightarrow> session option \<times> 's"
  so_complete :: "int \<Rightarrow> bool \<Rightarrow> string \<Rightarrow> string \<Rightarrow> complete_pc \<Rightarrow> 's \<Rightarrow> complete_out \<times> 's"

section \<open>The process-local store\<close>

type_synonym memory_store = "(string \<times> session \<times> int) list"

definition memory_save :: "int \<Rightarrow> session \<Rightarrow> int \<Rightarrow> memory_store \<Rightarrow> memory_store" where
  "memory_save now s ttlSeconds st = jm_set (ss_id s) (s, now + ttlSeconds * 1000) st"

definition memory_get :: "int \<Rightarrow> string \<Rightarrow> memory_store \<Rightarrow> session option \<times> memory_store" where
  "memory_get now i st = (case jm_get st i of
      None \<Rightarrow> (None, st)
    | Some (s, expiresAt) \<Rightarrow> if expiresAt \<le> now then (None, jm_delete i st) else (Some s, st))"

definition memory_completeOnce :: "int \<Rightarrow> string \<Rightarrow> string \<Rightarrow> memory_store \<Rightarrow> session option \<times> memory_store" where
  "memory_completeOnce now i payout st = (case jm_get st i of
      None \<Rightarrow> (None, st)
    | Some (s, expiresAt) \<Rightarrow>
        if expiresAt \<le> now \<or> is_sealed s then (None, st)
        else (Some (completed payout s), jm_set i (completed payout s, expiresAt) st))"

definition memory_ops :: "memory_store store_ops" where
  "memory_ops = \<lparr>so_save = memory_save, so_get = memory_get,
     so_complete = (\<lambda>now ok i payout pc st. case memory_completeOnce now i payout st of (r, st') \<Rightarrow> (Resolved r, st'))\<rparr>"

section \<open>The store in Redis\<close>

text \<open>Keys with a value and the time they expire.  A session is kept as its JSON text, which reads back as the session.\<close>

datatype redis_value = Session_json session | Done_marker

type_synonym redis = "(string \<times> redis_value \<times> int) list"

definition redis_live :: "int \<Rightarrow> string \<Rightarrow> redis \<Rightarrow> (redis_value \<times> int) option" where
  "redis_live now k rd = (case jm_get rd k of None \<Rightarrow> None | Some (v, t) \<Rightarrow> if t \<le> now then None else Some (v, t))"

definition redis_set :: "int \<Rightarrow> string \<Rightarrow> redis_value \<Rightarrow> int \<Rightarrow> redis \<Rightarrow> redis" where
  "redis_set now k v ex rd = jm_set k (v, now + ex * 1000) rd"

text \<open>\<open>SET\<close> with \<open>NX\<close>: whether it set the key.\<close>

definition redis_set_nx :: "int \<Rightarrow> string \<Rightarrow> redis_value \<Rightarrow> int \<Rightarrow> redis \<Rightarrow> bool \<times> redis" where
  "redis_set_nx now k v ex rd = (if redis_live now k rd = None then (True, redis_set now k v ex rd) else (False, rd))"

text \<open>\<open>TTL\<close>: the remaining time in seconds, rounded; \<open>-2\<close> without the key.\<close>

definition redis_ttl :: "int \<Rightarrow> string \<Rightarrow> redis \<Rightarrow> int" where
  "redis_ttl now k rd = (case redis_live now k rd of None \<Rightarrow> -2 | Some (v, t) \<Rightarrow> (t - now + 500) div 1000)"

definition session_key :: "string \<Rightarrow> string" where
  "session_key i = ''sep24:session:'' @ i"

definition done_key :: "string \<Rightarrow> string" where
  "done_key i = session_key i @ '':done''"

definition redis_save :: "int \<Rightarrow> session \<Rightarrow> int \<Rightarrow> redis \<Rightarrow> redis" where
  "redis_save now s ttlSeconds rd = redis_set now (session_key (ss_id s)) (Session_json s) ttlSeconds rd"

definition redis_get :: "int \<Rightarrow> string \<Rightarrow> redis \<Rightarrow> session option" where
  "redis_get now i rd = (case redis_live now (session_key i) rd of Some (Session_json s, _) \<Rightarrow> Some s | _ \<Rightarrow> None)"

definition redis_completeOnce :: "int \<Rightarrow> bool \<Rightarrow> string \<Rightarrow> string \<Rightarrow> complete_pc \<Rightarrow> redis \<Rightarrow> complete_out \<times> redis" where
  "redis_completeOnce now ok i payout pc rd =
     (if \<not> ok then (Rejected, rd)
      else case pc of
        C_begin \<Rightarrow> (let ttl = redis_ttl now (session_key i) rd in if ttl \<le> 0 then (Resolved None, rd) else (Next (C_claim ttl), rd))
      | C_claim ttl \<Rightarrow> (case redis_set_nx now (done_key i) Done_marker ttl rd of
            (claimed, rd') \<Rightarrow> (if claimed then Next (C_read ttl) else Resolved None, rd'))
      | C_read ttl \<Rightarrow> (case redis_get now i rd of None \<Rightarrow> (Resolved None, rd) | Some s \<Rightarrow> (Next (C_write ttl (completed payout s)), rd))
      | C_write ttl s \<Rightarrow> (Resolved (Some s), redis_set now (session_key i) (Session_json s) ttl rd))"

definition redis_ops :: "redis store_ops" where
  "redis_ops = \<lparr>so_save = redis_save, so_get = (\<lambda>now i rd. (redis_get now i rd, rd)), so_complete = redis_completeOnce\<rparr>"

section \<open>The interface\<close>

text \<open>
  What the service relies on: a store invents no session.  A property that completing a session keeps
  holds of everything the store returns once it holds of everything that is saved.
\<close>

locale session_store =
  fixes ops :: "'s store_ops"
    and st0 :: 's
    and all_sessions :: "(session \<Rightarrow> bool) \<Rightarrow> 's \<Rightarrow> bool"
  assumes empty_all: "all_sessions P st0"
    and save_all: "all_sessions P st \<Longrightarrow> P s \<Longrightarrow> all_sessions P (so_save ops now s ttl st)"
    and get_all: "all_sessions P st \<Longrightarrow> so_get ops now i st = (r, st') \<Longrightarrow> all_sessions P st' \<and> (\<forall>s. r = Some s \<longrightarrow> P s)"
    and complete_all: "all_sessions P st \<Longrightarrow> (\<And>s. P s \<Longrightarrow> P (completed payout s)) \<Longrightarrow> (\<And>ttl s. pc = C_write ttl s \<Longrightarrow> P s)
      \<Longrightarrow> so_complete ops now ok i payout pc st = (out, st')
      \<Longrightarrow> all_sessions P st' \<and> (\<forall>s. out = Resolved (Some s) \<longrightarrow> P s) \<and> (\<forall>ttl s. out = Next (C_write ttl s) \<longrightarrow> P s)"

definition memory_all :: "(session \<Rightarrow> bool) \<Rightarrow> memory_store \<Rightarrow> bool" where
  "memory_all P st \<longleftrightarrow> (\<forall>i e. jm_get st i = Some e \<longrightarrow> P (fst e))"

definition redis_all :: "(session \<Rightarrow> bool) \<Rightarrow> redis \<Rightarrow> bool" where
  "redis_all P rd \<longleftrightarrow> (\<forall>k e. jm_get rd k = Some e \<longrightarrow> (case fst e of Session_json s \<Rightarrow> P s | Done_marker \<Rightarrow> True))"

lemma memory_all_set: "memory_all P st \<Longrightarrow> P (fst e) \<Longrightarrow> memory_all P (jm_set i e st)"
  by (simp add: memory_all_def del: split_paired_All)

lemma memory_all_get: "memory_all P st \<Longrightarrow> jm_get st i = Some e \<Longrightarrow> P (fst e)"
  by (simp add: memory_all_def del: split_paired_All)

lemma memory_all_delete: "memory_all P st \<Longrightarrow> memory_all P (jm_delete i st)"
  by (simp add: memory_all_def)

interpretation mem: session_store memory_ops "[]" memory_all
proof
  show "memory_all P []" for P by (simp add: memory_all_def)
next
  fix P st s now ttl
  show "memory_all P st \<Longrightarrow> P s \<Longrightarrow> memory_all P (so_save memory_ops now s ttl st)"
    by (simp add: memory_ops_def memory_save_def memory_all_set)
next
  fix P st now i r st'
  assume a: "memory_all P st" "so_get memory_ops now i st = (r, st')"
  show "memory_all P st' \<and> (\<forall>s. r = Some s \<longrightarrow> P s)"
    using a memory_all_delete [OF a(1), of i] memory_all_get [OF a(1), of i]
    by (auto simp: memory_ops_def memory_get_def split: option.splits if_splits)
next
  fix P st payout pc now ok i out st'
  assume a: "memory_all P st" "\<And>s. P s \<Longrightarrow> P (completed payout s)" "so_complete memory_ops now ok i payout pc st = (out, st')"
  show "memory_all P st' \<and> (\<forall>s. out = Resolved (Some s) \<longrightarrow> P s) \<and> (\<forall>ttl s. out = Next (C_write ttl s) \<longrightarrow> P s)"
    using a(1,3) a(2) [OF memory_all_get [OF a(1), of i]] memory_all_set [OF a(1)]
    by (auto simp: memory_ops_def memory_completeOnce_def split: option.splits if_splits)
qed

lemma redis_get_all: "redis_all P rd \<Longrightarrow> redis_get now i rd = Some s \<Longrightarrow> P s"
  unfolding redis_all_def by (drule spec [of _ "session_key i"]) (auto simp: redis_get_def redis_live_def split: option.splits if_splits redis_value.splits)

lemma redis_set_all: "redis_all P rd \<Longrightarrow> (case v of Session_json s \<Rightarrow> P s | Done_marker \<Rightarrow> True) \<Longrightarrow> redis_all P (redis_set now k v ex rd)"
  by (simp add: redis_all_def redis_set_def)

interpretation red: session_store redis_ops "[]" redis_all
proof
  show "redis_all P []" for P by (simp add: redis_all_def)
next
  fix P rd s now ttl
  show "redis_all P rd \<Longrightarrow> P s \<Longrightarrow> redis_all P (so_save redis_ops now s ttl rd)"
    by (simp add: redis_ops_def redis_save_def redis_set_all)
next
  fix P rd now i r rd'
  show "redis_all P rd \<Longrightarrow> so_get redis_ops now i rd = (r, rd') \<Longrightarrow> redis_all P rd' \<and> (\<forall>s. r = Some s \<longrightarrow> P s)"
    by (auto simp: redis_ops_def redis_get_all)
next
  fix P rd payout pc now ok i out rd'
  assume a: "redis_all P rd" "\<And>s. P s \<Longrightarrow> P (completed payout s)" "\<And>ttl s. pc = C_write ttl s \<Longrightarrow> P s"
    "so_complete redis_ops now ok i payout pc rd = (out, rd')"
  show "redis_all P rd' \<and> (\<forall>s. out = Resolved (Some s) \<longrightarrow> P s) \<and> (\<forall>ttl s. out = Next (C_write ttl s) \<longrightarrow> P s)"
    using a redis_set_all [OF a(1)] redis_get_all [OF a(1)]
    by (auto simp: redis_ops_def redis_completeOnce_def redis_set_nx_def Let_def split: complete_pc.splits option.splits if_splits)
qed

section \<open>Claims in Redis\<close>

text \<open>Operations on the keys of sessions, and the claims that succeeded: the session, the time and the lifetime of the marker.\<close>

datatype redis_event = R_save session int | R_complete bool string string complete_pc

type_synonym claim = "string \<times> int \<times> int"

definition redis_move :: "int \<Rightarrow> redis_event \<Rightarrow> redis \<times> claim list \<Rightarrow> redis \<times> claim list" where
  "redis_move now e s = (case e of
      R_save ses ttl \<Rightarrow> (redis_save now ses ttl (fst s), snd s)
    | R_complete ok i p pc \<Rightarrow> (case redis_completeOnce now ok i p pc (fst s) of (out, rd) \<Rightarrow>
        (rd, case pc of C_claim ttl \<Rightarrow> (case out of Next _ \<Rightarrow> snd s @ [(i, now, ttl)] | _ \<Rightarrow> snd s) | _ \<Rightarrow> snd s)))"

fun redis_run :: "(int \<times> redis_event) list \<Rightarrow> redis \<times> claim list \<Rightarrow> redis \<times> claim list" where
  "redis_run [] s = s"
| "redis_run ((now, e) # es) s = redis_run es (redis_move now e s)"

text \<open>Identifiers are random ones without a colon, and lifetimes were read from a key that is there.\<close>

definition event_ok :: "redis_event \<Rightarrow> bool" where
  "event_ok e = (case e of
      R_save ses ttl \<Rightarrow> CHR '':'' \<notin> set (ss_id ses)
    | R_complete ok i p pc \<Rightarrow> CHR '':'' \<notin> set i \<and> (case pc of C_claim ttl \<Rightarrow> 0 < ttl | _ \<Rightarrow> True))"

definition apart :: "claim \<Rightarrow> claim \<Rightarrow> bool" where
  "apart a b \<longleftrightarrow> (fst a = fst b \<longrightarrow> fst (snd a) + snd (snd a) * 1000 \<le> fst (snd b))"

definition marked :: "redis \<Rightarrow> claim \<Rightarrow> bool" where
  "marked rd c \<longleftrightarrow> (\<exists>e. jm_get rd (done_key (fst c)) = Some e \<and> fst (snd c) + snd (snd c) * 1000 \<le> snd e)"

definition claims_inv :: "redis \<times> claim list \<Rightarrow> bool" where
  [inv_defs]: "claims_inv s \<longleftrightarrow> (\<forall>c \<in> set (snd s). marked (fst s) c) \<and> sorted_wrt apart (snd s)"

lemma done_key_inj [simp]: "done_key i = done_key j \<longleftrightarrow> i = j"
  by (simp add: done_key_def session_key_def)

lemma done_not_session: "CHR '':'' \<notin> set j \<Longrightarrow> done_key i \<noteq> session_key j"
  by (auto simp: done_key_def session_key_def)

lemma marked_session_set: "CHR '':'' \<notin> set j \<Longrightarrow> marked rd c \<Longrightarrow> marked (redis_set now (session_key j) v ex rd) c"
  using done_not_session [of j "fst c"] by (auto simp: marked_def redis_set_def)

lemma claims_session_set:
  "claims_inv (rd, cs) \<Longrightarrow> CHR '':'' \<notin> set j \<Longrightarrow> claims_inv (redis_set now (session_key j) v ex rd, cs)"
  using marked_session_set by (auto simp: claims_inv_def simp del: split_paired_All)

lemma claims_claim:
  assumes inv: "claims_inv (rd, cs)" and ttl: "0 < ttl" and dead: "redis_live now (done_key i) rd = None"
  shows "claims_inv (redis_set now (done_key i) Done_marker ttl rd, cs @ [(i, now, ttl)])"
proof -
  have le: "fst (snd c) + snd (snd c) * 1000 \<le> now" if "c \<in> set cs" "fst c = i" for c
  proof -
    have "marked rd c" using inv that(1) by (simp add: claims_inv_def del: split_paired_All)
    then show ?thesis using dead that(2) by (auto simp: marked_def redis_live_def split: if_splits prod.splits)
  qed
  have "marked (redis_set now (done_key i) Done_marker ttl rd) c" if "c \<in> set cs" for c
    using inv that le [OF that] ttl by (cases "fst c = i") (auto simp: claims_inv_def marked_def redis_set_def)
  moreover have "marked (redis_set now (done_key i) Done_marker ttl rd) (i, now, ttl)"
    by (simp add: marked_def redis_set_def)
  moreover have "\<forall>c \<in> set cs. apart c (i, now, ttl)" using le by (simp add: apart_def del: split_paired_All split_paired_Ball_Sigma)
  ultimately show ?thesis using inv by (simp add: claims_inv_def sorted_wrt_append)
qed

lemma redis_move_inv:
  assumes "claims_inv s" "event_ok e"
  shows "claims_inv (redis_move now e s)"
proof (cases e)
  case (R_save ses ttl)
  then show ?thesis using assms claims_session_set [of "fst s" "snd s"] by (simp add: redis_move_def redis_save_def event_ok_def)
next
  case (R_complete ok i p pc)
  have inv: "claims_inv (fst s, snd s)" using assms(1) by simp
  have i: "CHR '':'' \<notin> set i" using assms(2) R_complete by (simp add: event_ok_def)
  show ?thesis
  proof (cases pc)
    case (C_claim ttl)
    then have "0 < ttl" using assms(2) R_complete by (simp add: event_ok_def)
    then show ?thesis using claims_claim [OF inv] inv R_complete C_claim
      by (auto simp: redis_move_def redis_completeOnce_def redis_set_nx_def split: if_splits)
  next
    case (C_write ttl ses)
    then show ?thesis using claims_session_set [OF inv i] inv R_complete by (simp add: redis_move_def redis_completeOnce_def)
  qed (use inv R_complete in \<open>auto simp: redis_move_def redis_completeOnce_def Let_def split: option.splits\<close>)
qed

text \<open>Two claims of one session are apart by the lifetime that the first one read, which is at least a second.\<close>

theorem redis_claims_apart:
  assumes "\<forall>(now, e) \<in> set es. event_ok e"
  shows "sorted_wrt apart (snd (redis_run es ([], [])))"
proof -
  have "claims_inv (redis_run es s)" if "claims_inv s" for s
    using assms that
  proof (induction es arbitrary: s)
    case (Cons x es)
    have "claims_inv (redis_move (fst x) (snd x) s)" using Cons.prems by (intro redis_move_inv) auto
    from Cons.IH [OF _ this] show ?case using Cons.prems(1) by (cases x) simp
  qed simp
  from this [of "([], [])"] show ?thesis by (simp add: claims_inv_def)
qed

theorem redis_claims_apart_witness:
  "map (\<lambda>c. (fst c, fst (snd c))) (snd (redis_run [(0, R_complete True ''a'' ''x'' (C_claim 2)), (500, R_complete True ''a'' ''y'' (C_claim 2)),
     (2100, R_complete True ''a'' ''z'' (C_claim 1))] ([], []))) = [(''a'', 0), (''a'', 2100)]
   \<and> sorted_wrt apart (snd (redis_run [(0, R_complete True ''a'' ''x'' (C_claim 2)), (500, R_complete True ''a'' ''y'' (C_claim 2)),
     (2100, R_complete True ''a'' ''z'' (C_claim 1))] ([], [])))"
proof
  show "sorted_wrt apart (snd (redis_run [(0, R_complete True ''a'' ''x'' (C_claim 2)), (500, R_complete True ''a'' ''y'' (C_claim 2)),
     (2100, R_complete True ''a'' ''z'' (C_claim 1))] ([], [])))"
    by (rule redis_claims_apart) (simp add: event_ok_def)
qed (simp add: redis_move_def redis_completeOnce_def redis_set_nx_def redis_live_def redis_set_def)

end
