(* ===== verification/Sep24.thy ===== *)
theory Sep24
  imports Sep24Store
begin

text \<open>
  \<open>src/services/sep24Interactive.ts\<close>: the hosted deposit and withdrawal form.  A wallet opens a session,
  the user submits payout details once, and the wallet gets a signed completion token at a callback.
  Requests are tasks that are suspended at the calls of the store of \<open>Sep24Store\<close>; the URL parser, the
  JWT library and the encryption of payout details are arguments.

  The lemmas show that with the process-local store a session is completed at most once in every
  interleaving, that completion tokens only go to origins of the allow-list, for both stores, and what
  the store in Redis guarantees and what it does not.  Texts are sequences of code units below 256.
\<close>

section \<open>Origins and configuration\<close>

record url =
  ur_protocol :: string
  ur_hostname :: string
  ur_origin :: string
  ur_username :: string
  ur_password :: string
  ur_href :: string

definition normalizeOrigin :: "(string \<Rightarrow> url option) \<Rightarrow> string \<Rightarrow> string option" where
  "normalizeOrigin parse_url v = (case parse_url (js_trim v) of
      None \<Rightarrow> None
    | Some u \<Rightarrow> if ur_protocol u \<noteq> ''https:'' \<and> ur_protocol u \<noteq> ''http:'' then None else Some (toLowerCase (ur_origin u)))"

record sep24_config =
  sc_secret :: string
  sc_interactiveTokenTtlSeconds :: int
  sc_completionTokenTtlSeconds :: int
  sc_sessionTtlSeconds :: int
  sc_baseUrl :: string
  sc_allowedCallbackOrigins :: "string list"
  sc_supportedAssets :: "string list"
  sc_allowInsecureLocalhost :: bool

definition positiveInt :: "string option \<Rightarrow> int \<Rightarrow> int" where
  "positiveInt raw fallback = (case parseInt (case raw of Some s \<Rightarrow> s | None \<Rightarrow> []) of
      Some n \<Rightarrow> if n > 0 then n else fallback
    | None \<Rightarrow> fallback)"

definition splitList :: "string option \<Rightarrow> string list" where
  "splitList raw = filter (\<lambda>s. s \<noteq> []) (map js_trim (split_at CHR '','' (case raw of Some s \<Rightarrow> s | None \<Rightarrow> [])))"

definition sep24ConfigFromEnv :: "(string \<Rightarrow> url option) \<Rightarrow> (string \<Rightarrow> string option) \<Rightarrow> sep24_config option" where
  "sep24ConfigFromEnv parse_url env = (case env ''SEP24_INTERACTIVE_SECRET'' of
      None \<Rightarrow> None
    | Some secret \<Rightarrow>
        if length secret < 32 then None
        else case normalizeOrigin parse_url (case env ''SEP24_INTERACTIVE_BASE_URL'' of Some s \<Rightarrow> s | None \<Rightarrow> []) of
            None \<Rightarrow> None
          | Some baseUrl \<Rightarrow>
              if baseUrl = [] then None
              else Some \<lparr>sc_secret = secret,
                sc_interactiveTokenTtlSeconds = positiveInt (env ''SEP24_INTERACTIVE_TOKEN_TTL_SECONDS'') (15 * 60),
                sc_completionTokenTtlSeconds = positiveInt (env ''SEP24_COMPLETION_TOKEN_TTL_SECONDS'') (5 * 60),
                sc_sessionTtlSeconds = positiveInt (env ''SEP24_SESSION_TTL_SECONDS'') (60 * 60),
                sc_baseUrl = baseUrl,
                sc_allowedCallbackOrigins = List.map_filter (normalizeOrigin parse_url) (splitList (env ''SEP24_ALLOWED_CALLBACK_ORIGINS'')),
                sc_supportedAssets = map toUpperCase (splitList (env ''SEP24_SUPPORTED_ASSETS'')),
                sc_allowInsecureLocalhost = (env ''NODE_ENV'' \<noteq> Some ''production'')\<rparr>)"

section \<open>Validation\<close>

definition alnum :: "char \<Rightarrow> bool" where
  "alnum c \<longleftrightarrow> is_upper c \<or> is_lower c \<or> is_digit c"

definition ASSET_CODE_RE :: "string \<Rightarrow> bool" where
  "ASSET_CODE_RE s \<longleftrightarrow> 1 \<le> length s \<and> length s \<le> 12 \<and> list_all alnum s"

definition STELLAR_ACCOUNT_RE :: "string \<Rightarrow> bool" where
  "STELLAR_ACCOUNT_RE s \<longleftrightarrow> length s = 56 \<and> hd s = CHR ''G'' \<and> list_all (\<lambda>c. is_upper c \<or> 50 \<le> code c \<and> code c \<le> 55) (tl s)"

definition ACCOUNT_NUMBER_RE :: "string \<Rightarrow> bool" where
  "ACCOUNT_NUMBER_RE s \<longleftrightarrow> 4 \<le> length s \<and> length s \<le> 34 \<and> list_all alnum s"

definition AMOUNT_RE :: "string \<Rightarrow> bool" where
  "AMOUNT_RE s = (case split_at CHR ''.'' s of
      [w] \<Rightarrow> 1 \<le> length w \<and> length w \<le> 15 \<and> list_all is_digit w
    | [w, f] \<Rightarrow> 1 \<le> length w \<and> length w \<le> 15 \<and> list_all is_digit w \<and> 1 \<le> length f \<and> length f \<le> 7 \<and> list_all is_digit f
    | _ \<Rightarrow> False)"

text \<open>\<open>Number(amount) <= 0\<close> for a text of that form.\<close>

definition amount_not_positive :: "string \<Rightarrow> bool" where
  "amount_not_positive s \<longleftrightarrow> list_all (\<lambda>c. c = CHR ''0'' \<or> c = CHR ''.'') s"

definition no_space_at :: "string \<Rightarrow> bool" where
  "no_space_at s \<longleftrightarrow> list_all (\<lambda>c. \<not> is_space c \<and> c \<noteq> CHR ''@'') s"

definition EMAIL_RE :: "string \<Rightarrow> bool" where
  "EMAIL_RE s = (case split_at CHR ''@'' s of
      [local, domain] \<Rightarrow> no_space_at local \<and> 1 \<le> length local \<and> length local \<le> 64 \<and> no_space_at domain
        \<and> list_ex (\<lambda>k. domain ! k = CHR ''.'' \<and> 1 \<le> k \<and> k \<le> 255 \<and> 2 \<le> length domain - (k + 1)) [0..<length domain]
    | _ \<Rightarrow> False)"

text \<open>Letters and numbers among the first 256 code points, and the punctuation of names.\<close>

definition name_letter :: "char \<Rightarrow> bool" where
  "name_letter c \<longleftrightarrow> is_upper c \<or> is_lower c \<or> code c \<in> {170, 181, 186} \<or> 192 \<le> code c \<and> code c \<noteq> 215 \<and> code c \<noteq> 247"

definition name_char :: "char \<Rightarrow> bool" where
  "name_char c \<longleftrightarrow> name_letter c \<or> is_digit c \<or> code c \<in> {178, 179, 185, 188, 189, 190}
     \<or> c \<in> {CHR '' '', CHR ''.'', CHR '','', CHR 0x27, CHR ''&'', CHR ''('', CHR '')'', CHR ''/'', CHR ''-''}"

definition NAME_RE :: "string \<Rightarrow> bool" where
  "NAME_RE s = (case s of [] \<Rightarrow> False | c # cs \<Rightarrow> name_letter c \<and> list_all name_char cs)"

definition js_str :: "json \<Rightarrow> string" where
  "js_str v = (case v of JStr s \<Rightarrow> js_trim s | _ \<Rightarrow> [])"

record payout =
  pd_fullName :: string
  pd_email :: "string option"
  pd_bankName :: string
  pd_accountNumber :: string
  pd_amount :: "string option"

definition opt_str :: "string \<Rightarrow> string option" where
  "opt_str s = (if s = [] then None else Some s)"

definition name_bad :: "string \<Rightarrow> bool" where
  "name_bad s \<longleftrightarrow> length s < 2 \<or> length s > 100 \<or> \<not> NAME_RE s"

definition amount_bad :: "string \<Rightarrow> bool" where
  "amount_bad s \<longleftrightarrow> s \<noteq> [] \<and> (\<not> AMOUNT_RE s \<or> amount_not_positive s)"

text \<open>The fields with errors, or the details.\<close>

definition validatePayoutDetails :: "(string \<times> json) list \<Rightarrow> (string list, payout) result" where
  "validatePayoutDetails form =
     (let fullName = js_str (js_prop form ''full_name''); bankName = js_str (js_prop form ''bank_name'');
          accountNumber = filter (\<lambda>c. \<not> is_space c \<and> c \<noteq> CHR ''-'') (js_str (js_prop form ''account_number''));
          email = js_str (js_prop form ''email''); amount = js_str (js_prop form ''amount'');
          errors = (if name_bad fullName then [''full_name''] else []) @ (if name_bad bankName then [''bank_name''] else [])
            @ (if ACCOUNT_NUMBER_RE accountNumber then [] else [''account_number''])
            @ (if email \<noteq> [] \<and> \<not> EMAIL_RE email then [''email''] else [])
            @ (if amount_bad amount then [''amount''] else []) in
      if errors \<noteq> [] then Inl errors
      else Inr \<lparr>pd_fullName = fullName, pd_email = opt_str email, pd_bankName = bankName, pd_accountNumber = accountNumber, pd_amount = opt_str amount\<rparr>)"

section \<open>Tokens and callbacks\<close>

datatype sep24_error = INVALID_TOKEN | EXPIRED_TOKEN | SESSION_NOT_FOUND | ALREADY_SUBMITTED | VALIDATION_ERROR "string list"
  | CALLBACK_NOT_ALLOWED | UNSUPPORTED_ASSET string

record claims =
  cl_typ :: "string option"
  cl_sub :: "string option"
  cl_status :: "sep24_status option"
  cl_op :: "sep24_operation option"
  cl_iat :: int
  cl_exp :: int

datatype jwt_answer = Jwt_claims claims | Jwt_expired | Jwt_bad

record sep24_env =
  ev_parse_url :: "string \<Rightarrow> url option"
  ev_jwt_sign :: "string \<Rightarrow> claims \<Rightarrow> string"
  ev_jwt_verify :: "string \<Rightarrow> int \<Rightarrow> string \<Rightarrow> jwt_answer"
  ev_seal :: "string \<Rightarrow> payout \<Rightarrow> string"
  ev_unseal :: "string \<Rightarrow> payout"
  ev_config :: sep24_config

definition nowSeconds :: "int \<Rightarrow> int" where
  "nowSeconds now = now div 1000"

definition sign_token :: "sep24_env \<Rightarrow> int \<Rightarrow> string \<Rightarrow> string \<Rightarrow> sep24_status option \<Rightarrow> sep24_operation option \<Rightarrow> int \<Rightarrow> string" where
  "sign_token en now typ sub st opn ttlSeconds =
     (let iat = nowSeconds now in
      ev_jwt_sign en (sc_secret (ev_config en))
        \<lparr>cl_typ = Some typ, cl_sub = Some sub, cl_status = st, cl_op = opn, cl_iat = iat, cl_exp = iat + ttlSeconds\<rparr>)"

definition verify_token :: "sep24_env \<Rightarrow> int \<Rightarrow> string \<Rightarrow> string \<Rightarrow> (sep24_error, string \<times> claims) result" where
  "verify_token en now token typ = (case ev_jwt_verify en (sc_secret (ev_config en)) (nowSeconds now) token of
      Jwt_claims c \<Rightarrow> (case cl_sub c of Some sub \<Rightarrow> if cl_typ c = Some typ then Inr (sub, c) else Inl INVALID_TOKEN | None \<Rightarrow> Inl INVALID_TOKEN)
    | Jwt_expired \<Rightarrow> Inl EXPIRED_TOKEN
    | Jwt_bad \<Rightarrow> Inl INVALID_TOKEN)"

definition verifyCompletionToken :: "sep24_env \<Rightarrow> int \<Rightarrow> string \<Rightarrow> (sep24_error, string \<times> sep24_status option) result" where
  "verifyCompletionToken en now token = rbind (verify_token en now token ''sep24-completion'') (\<lambda>(sub, c). Inr (sub, cl_status c))"

definition isAllowedOrigin :: "sep24_env \<Rightarrow> string \<Rightarrow> bool" where
  "isAllowedOrigin en orig = (case normalizeOrigin (ev_parse_url en) orig of
      None \<Rightarrow> False | Some n \<Rightarrow> n \<in> set (sc_allowedCallbackOrigins (ev_config en)))"

definition isSecureOrLocalDev :: "sep24_env \<Rightarrow> url \<Rightarrow> bool" where
  "isSecureOrLocalDev en u \<longleftrightarrow> ur_protocol u = ''https:''
     \<or> sc_allowInsecureLocalhost (ev_config en) \<and> ur_protocol u = ''http:'' \<and> (ur_hostname u = ''localhost'' \<or> ur_hostname u = ''127.0.0.1'')"

text \<open>An origin that was accepted by \<open>normalizeOrigin\<close> parses again, so \<open>new URL(origin)\<close> does not throw; when it does not parse it is refused here.\<close>

definition resolveClientOrigin :: "sep24_env \<Rightarrow> json \<Rightarrow> string option" where
  "resolveClientOrigin en walletUrl = (case normalizeOrigin (ev_parse_url en) (js_str walletUrl) of
      None \<Rightarrow> None
    | Some orig \<Rightarrow> if orig \<noteq> [] \<and> isAllowedOrigin en orig
        \<and> (case ev_parse_url en orig of Some u \<Rightarrow> isSecureOrLocalDev en u | None \<Rightarrow> False) then Some orig else None)"

datatype callback_target = No_callback | PostMessage "string option" | Url_callback string

definition resolveCallback :: "sep24_env \<Rightarrow> json \<Rightarrow> session \<Rightarrow> (sep24_error, callback_target) result" where
  "resolveCallback en raw s =
     (let v = js_str raw in
      if v = [] then Inr No_callback
      else if v = ''postMessage'' then Inr (PostMessage (ss_clientOrigin s))
      else case ev_parse_url en v of
          None \<Rightarrow> Inl CALLBACK_NOT_ALLOWED
        | Some u \<Rightarrow> if ur_username u \<noteq> [] \<or> ur_password u \<noteq> [] \<or> \<not> isSecureOrLocalDev en u \<or> \<not> isAllowedOrigin en (ur_origin u)
            then Inl CALLBACK_NOT_ALLOWED else Inr (Url_callback (ur_href u)))"

section \<open>Operations\<close>

record initiate_input =
  ii_operation :: sep24_operation
  ii_assetCode :: json
  ii_account :: json
  ii_amount :: json
  ii_walletUrl :: json

text \<open>The session that \<open>initiate\<close> saves.\<close>

definition initiate_session :: "sep24_env \<Rightarrow> int \<Rightarrow> string \<Rightarrow> initiate_input \<Rightarrow> (sep24_error, session) result" where
  "initiate_session en now new_id inp =
     (let assetCode = toUpperCase (js_str (ii_assetCode inp)); account = js_str (ii_account inp); amount = js_str (ii_amount inp);
          supported = sc_supportedAssets (ev_config en) in
      if \<not> ASSET_CODE_RE assetCode then Inl (VALIDATION_ERROR [''asset_code''])
      else if supported \<noteq> [] \<and> assetCode \<notin> set supported then Inl (UNSUPPORTED_ASSET assetCode)
      else if account \<noteq> [] \<and> \<not> STELLAR_ACCOUNT_RE account then Inl (VALIDATION_ERROR [''account''])
      else if amount_bad amount then Inl (VALIDATION_ERROR [''amount''])
      else Inr \<lparr>ss_id = new_id, ss_operation = ii_operation inp, ss_assetCode = assetCode, ss_account = opt_str account,
        ss_amount = opt_str amount, ss_clientOrigin = resolveClientOrigin en (ii_walletUrl inp), ss_status = Incomplete,
        ss_createdAt = nowSeconds now, ss_sealedPayout = None\<rparr>)"

text \<open>The interactive URL carries an encoded token; \<open>encode\<close> is \<open>encodeURIComponent\<close>.\<close>

definition interactive_url :: "sep24_env \<Rightarrow> (string \<Rightarrow> string) \<Rightarrow> int \<Rightarrow> string \<Rightarrow> string" where
  "interactive_url en encode now i = sc_baseUrl (ev_config en) @ ''/sep24/interactive?token=''
     @ encode (sign_token en now ''sep24-interactive'' i None None (sc_interactiveTokenTtlSeconds (ev_config en)))"

text \<open>What \<open>submit\<close> checks once it has read the session, before it completes it.\<close>

definition check_submission :: "sep24_env \<Rightarrow> string \<Rightarrow> (string \<times> json) list \<Rightarrow> session \<Rightarrow> (sep24_error, string \<times> callback_target) result" where
  "check_submission en iv form s =
     (if is_sealed s then Inl ALREADY_SUBMITTED
      else rbind (resolveCallback en (js_prop form ''callback'') s) (\<lambda>cb.
        case validatePayoutDetails form of Inl es \<Rightarrow> Inl (VALIDATION_ERROR es) | Inr details \<Rightarrow> Inr (ev_seal en iv details, cb)))"

definition completion_token :: "sep24_env \<Rightarrow> int \<Rightarrow> session \<Rightarrow> string" where
  "completion_token en now s = sign_token en now ''sep24-completion'' (ss_id s) (Some (ss_status s)) (Some (ss_operation s)) (sc_completionTokenTtlSeconds (ev_config en))"

definition getPayoutDetails :: "'s store_ops \<Rightarrow> sep24_env \<Rightarrow> int \<Rightarrow> string \<Rightarrow> 's \<Rightarrow> payout option \<times> 's" where
  "getPayoutDetails ops en now i st = (case so_get ops now i st of
      (Some s, st') \<Rightarrow> (if is_sealed s then map_option (ev_unseal en) (ss_sealedPayout s) else None, st')
    | (None, st') \<Rightarrow> (None, st'))"

text \<open>
  Where a submission is suspended: reading the session of its token, or completing the session that it
  read with the sealed details and the callback.  A completion that was handed out is the session, the
  callback and the token.
\<close>

datatype submit_pc = S_open string "(string \<times> json) list" | S_complete string string complete_pc callback_target

type_synonym handed = "session \<times> callback_target \<times> string"

text \<open>A submission waits for the store, fails, fails with an exception of the store, or hands out a completion.\<close>

datatype submit_out = Waits submit_pc | Fails sep24_error | Throws | Hands handed

definition submit_resume :: "'s store_ops \<Rightarrow> sep24_env \<Rightarrow> int \<Rightarrow> bool \<Rightarrow> string \<Rightarrow> submit_pc \<Rightarrow> 's \<Rightarrow> submit_out \<times> 's" where
  "submit_resume ops en now ok iv pc st = (case pc of
      S_open i form \<Rightarrow>
        (if \<not> ok then (Throws, st)
         else case so_get ops now i st of
           (None, st') \<Rightarrow> (Fails SESSION_NOT_FOUND, st')
         | (Some s, st') \<Rightarrow> (case check_submission en iv form s of
               Inl e \<Rightarrow> (Fails e, st')
             | Inr (payout, cb) \<Rightarrow> (Waits (S_complete (ss_id s) payout C_begin cb), st')))
    | S_complete i payout cpc cb \<Rightarrow> (case so_complete ops now ok i payout cpc st of
          (Next cpc', st') \<Rightarrow> (Waits (S_complete i payout cpc' cb), st')
        | (Resolved (Some s), st') \<Rightarrow> (Hands (s, cb, completion_token en now s), st')
        | (Resolved None, st') \<Rightarrow> (Fails ALREADY_SUBMITTED, st')
        | (Rejected, st') \<Rightarrow> (Throws, st')))"

section \<open>The system\<close>

text \<open>The store, the submissions under way, what was handed out, the identifiers in use and the clock.\<close>

record 's sep24_sys =
  sy_store :: 's
  sy_tasks :: "submit_pc list"
  sy_handed :: "handed list"
  sy_ids :: "string list"
  sy_now :: int

definition go_on :: "'s store_ops \<Rightarrow> sep24_env \<Rightarrow> bool \<Rightarrow> string \<Rightarrow> nat \<Rightarrow> 's sep24_sys \<Rightarrow> 's sep24_sys" where
  "go_on ops en ok iv k s = (case submit_resume ops en (sy_now s) ok iv (sy_tasks s ! k) (sy_store s) of
      (out, st) \<Rightarrow> s\<lparr>sy_store := st,
        sy_tasks := (case out of Waits pc \<Rightarrow> (sy_tasks s)[k := pc] | _ \<Rightarrow> take k (sy_tasks s) @ drop (k + 1) (sy_tasks s)),
        sy_handed := (case out of Hands h \<Rightarrow> sy_handed s @ [h] | _ \<Rightarrow> sy_handed s)\<rparr>)"

text \<open>
  A wallet initiates with an identifier that is new, as random identifiers are; a token is submitted and
  verified; a submission goes on; the form or the details are read; time passes.
\<close>

inductive sep24_step :: "'s store_ops \<Rightarrow> sep24_env \<Rightarrow> 's sep24_sys \<Rightarrow> 's sep24_sys \<Rightarrow> bool" for ops en where
  Initiate: "new_id \<notin> set (sy_ids s) \<Longrightarrow> CHR '':'' \<notin> set new_id \<Longrightarrow> initiate_session en (sy_now s) new_id inp = Inr ses \<Longrightarrow>
     sep24_step ops en s (s\<lparr>sy_store := so_save ops (sy_now s) ses (sc_sessionTtlSeconds (ev_config en)) (sy_store s), sy_ids := new_id # sy_ids s\<rparr>)"
| Submit: "verify_token en (sy_now s) token ''sep24-interactive'' = Inr (i, c) \<Longrightarrow> sep24_step ops en s (s\<lparr>sy_tasks := sy_tasks s @ [S_open i form]\<rparr>)"
| Go: "k < length (sy_tasks s) \<Longrightarrow> sep24_step ops en s (go_on ops en ok iv k s)"
| Read: "sep24_step ops en s (s\<lparr>sy_store := snd (so_get ops (sy_now s) i (sy_store s))\<rparr>)"
| Pass: "t \<ge> sy_now s \<Longrightarrow> sep24_step ops en s (s\<lparr>sy_now := t\<rparr>)"

definition sep24_init :: "'s \<Rightarrow> 's sep24_sys \<Rightarrow> bool" where
  "sep24_init st0 s \<longleftrightarrow> sy_store s = st0 \<and> sy_tasks s = [] \<and> sy_handed s = [] \<and> sy_ids s = []"

section \<open>Where completion tokens go\<close>

definition origin_ok :: "sep24_env \<Rightarrow> string \<Rightarrow> bool" where
  "origin_ok en orig \<longleftrightarrow> isAllowedOrigin en orig \<and> (\<exists>u. ev_parse_url en orig = Some u \<and> isSecureOrLocalDev en u)"

definition target_ok :: "sep24_env \<Rightarrow> callback_target \<Rightarrow> bool" where
  "target_ok en cb = (case cb of
      No_callback \<Rightarrow> True
    | PostMessage orig \<Rightarrow> (case orig of None \<Rightarrow> True | Some x \<Rightarrow> origin_ok en x)
    | Url_callback v \<Rightarrow> \<exists>raw u. ev_parse_url en raw = Some u \<and> ur_href u = v \<and> isSecureOrLocalDev en u \<and> isAllowedOrigin en (ur_origin u)
        \<and> ur_username u = [] \<and> ur_password u = [])"

definition session_ok :: "sep24_env \<Rightarrow> session \<Rightarrow> bool" where
  "session_ok en s = (case ss_clientOrigin s of None \<Rightarrow> True | Some x \<Rightarrow> origin_ok en x)"

lemma initiate_session_ok: "initiate_session en now i inp = Inr s \<Longrightarrow> session_ok en s"
  by (auto simp: initiate_session_def Let_def session_ok_def resolveClientOrigin_def origin_ok_def split: if_splits option.splits)

lemma completed_ok: "session_ok en s \<Longrightarrow> session_ok en (completed p s)"
  by (simp add: session_ok_def completed_def)

lemma check_submission_ok: "session_ok en s \<Longrightarrow> check_submission en iv form s = Inr (p, cb) \<Longrightarrow> target_ok en cb"
  by (auto simp: check_submission_def rbind_eq_Inr resolveCallback_def Let_def target_ok_def session_ok_def split: if_splits option.splits sum.splits) blast+

fun submit_ok :: "sep24_env \<Rightarrow> submit_pc \<Rightarrow> bool" where
  "submit_ok en (S_open i form) = True"
| "submit_ok en (S_complete i p c cb) = (target_ok en cb \<and> (\<forall>ttl s. c = C_write ttl s \<longrightarrow> session_ok en s))"

text \<open>What a list of tasks holds after one of them went on.\<close>

lemma set_tasks_step:
  "set (case out of Waits pc \<Rightarrow> ts[k := pc] | _ \<Rightarrow> take k ts @ drop (k + 1) ts) \<subseteq> set ts \<union> {pc. out = Waits pc}"
  using set_update_subset_insert [of ts k] set_take_subset [of k ts] set_drop_subset [of "k + 1" ts]
  by (cases out) auto

definition targets_inv :: "((session \<Rightarrow> bool) \<Rightarrow> 's \<Rightarrow> bool) \<Rightarrow> sep24_env \<Rightarrow> 's sep24_sys \<Rightarrow> bool" where
  "targets_inv all_in en s \<longleftrightarrow> all_in (session_ok en) (sy_store s) \<and> (\<forall>pc \<in> set (sy_tasks s). submit_ok en pc)
     \<and> (\<forall>h \<in> set (sy_handed s). target_ok en (fst (snd h)))"

context session_store
begin

lemma submit_resume_ok:
  assumes "submit_resume ops en now ok iv pc st = (out, st')" "all_sessions (session_ok en) st" "submit_ok en pc"
  shows "all_sessions (session_ok en) st' \<and> (\<forall>pc'. out = Waits pc' \<longrightarrow> submit_ok en pc') \<and> (\<forall>h. out = Hands h \<longrightarrow> target_ok en (fst (snd h)))"
proof (cases pc)
  case (S_open i form)
  show ?thesis
  proof (cases ok)
    case True
    obtain r st1 where g: "so_get ops now i st = (r, st1)" by (cases "so_get ops now i st")
    then have "all_sessions (session_ok en) st1 \<and> (\<forall>s. r = Some s \<longrightarrow> session_ok en s)" by (rule get_all [OF assms(2)])
    then show ?thesis using assms(1) S_open True g check_submission_ok [of en _ iv form]
      by (auto simp: submit_resume_def split: option.splits sum.splits)
  qed (use assms S_open in \<open>auto simp: submit_resume_def\<close>)
next
  case (S_complete i p c cb)
  obtain o1 st1 where c: "so_complete ops now ok i p c st = (o1, st1)" by (cases "so_complete ops now ok i p c st")
  have a: "all_sessions (session_ok en) st1 \<and> (\<forall>s. o1 = Resolved (Some s) \<longrightarrow> session_ok en s) \<and> (\<forall>ttl s. o1 = Next (C_write ttl s) \<longrightarrow> session_ok en s)"
    by (rule complete_all [OF assms(2) _ _ c]) (use completed_ok assms(3) S_complete in auto)
  show ?thesis using assms(1,3) S_complete c a by (auto simp: submit_resume_def split: complete_out.splits option.splits)
qed

lemma targets_step: "sep24_step ops en s s' \<Longrightarrow> targets_inv all_sessions en s \<Longrightarrow> targets_inv all_sessions en s'"
proof (induction rule: sep24_step.induct)
  case (Initiate new_id s inp ses)
  then show ?case using save_all initiate_session_ok by (auto simp: targets_inv_def)
next
  case (Go k s ok iv)
  obtain out st where o: "submit_resume ops en (sy_now s) ok iv (sy_tasks s ! k) (sy_store s) = (out, st)"
    by (cases "submit_resume ops en (sy_now s) ok iv (sy_tasks s ! k) (sy_store s)")
  have "all_sessions (session_ok en) st \<and> (\<forall>pc'. out = Waits pc' \<longrightarrow> submit_ok en pc') \<and> (\<forall>h. out = Hands h \<longrightarrow> target_ok en (fst (snd h)))"
    using Go by (intro submit_resume_ok [OF o]) (auto simp: targets_inv_def)
  then show ?case using Go(2) o set_tasks_step [where out = out and ts = "sy_tasks s" and k = k]
    by (auto simp: targets_inv_def go_on_def split: submit_out.splits)
next
  case (Read s i)
  then show ?case using get_all [of "session_ok en" "sy_store s" "sy_now s" i] by (auto simp: targets_inv_def prod_eq_iff)
qed (auto simp: targets_inv_def)

lemma targets_reach:
  assumes "(sep24_step ops en)\<^sup>*\<^sup>* s s'" "sep24_init st0 s"
  shows "\<forall>h \<in> set (sy_handed s'). target_ok en (fst (snd h))"
proof -
  have "targets_inv all_sessions en s'" using assms(1)
  proof (induction rule: rtranclp_induct)
    case base
    then show ?case using assms(2) empty_all by (simp add: targets_inv_def sep24_init_def)
  qed (rule targets_step)
  then show ?thesis by (simp add: targets_inv_def)
qed

end

section \<open>One completion per session\<close>

definition handed_ids :: "'s sep24_sys \<Rightarrow> string list" where
  "handed_ids s = map (\<lambda>h. ss_id (fst h)) (sy_handed s)"

definition sealed_there :: "memory_store \<Rightarrow> string \<Rightarrow> bool" where
  "sealed_there st i = (case jm_get st i of None \<Rightarrow> True | Some e \<Rightarrow> is_sealed (fst e))"

definition store_ids_ok :: "string list \<Rightarrow> memory_store \<Rightarrow> bool" where
  "store_ids_ok ids st \<longleftrightarrow> (\<forall>i e. jm_get st i = Some e \<longrightarrow> ss_id (fst e) = i \<and> i \<in> set ids)"

fun payout_there :: "submit_pc \<Rightarrow> bool" where
  "payout_there (S_open i form) = True"
| "payout_there (S_complete i p c cb) = (p \<noteq> [])"

definition once_inv :: "memory_store sep24_sys \<Rightarrow> bool" where
  [inv_defs]: "once_inv s \<longleftrightarrow> distinct (handed_ids s) \<and> set (handed_ids s) \<subseteq> set (sy_ids s)
     \<and> (\<forall>i \<in> set (handed_ids s). sealed_there (sy_store s) i) \<and> store_ids_ok (sy_ids s) (sy_store s)
     \<and> (\<forall>pc \<in> set (sy_tasks s). payout_there pc)"

lemma sealed_completed: "p \<noteq> [] \<Longrightarrow> is_sealed (completed p s)"
  by (simp add: is_sealed_def completed_def)

lemma memory_get_keeps:
  assumes "memory_get now i st = (r, st')"
  shows "sealed_there st j \<Longrightarrow> sealed_there st' j" "store_ids_ok ids st \<Longrightarrow> store_ids_ok ids st'"
  using assms by (auto simp: memory_get_def sealed_there_def store_ids_ok_def split: option.splits if_splits)

lemma memory_complete_keeps:
  assumes "memory_completeOnce now i p st = (r, st')" "p \<noteq> []" "store_ids_ok ids st"
  shows "sealed_there st j \<Longrightarrow> sealed_there st' j" "store_ids_ok ids st'"
    and "r = Some s \<Longrightarrow> ss_id s = i \<and> i \<in> set ids \<and> \<not> sealed_there st i \<and> sealed_there st' i"
proof -
  show "sealed_there st j \<Longrightarrow> sealed_there st' j"
    using assms(1,2) by (auto simp: memory_completeOnce_def sealed_there_def sealed_completed split: option.splits if_splits)
  show "store_ids_ok ids st'"
  proof (cases "jm_get st i")
    case (Some e)
    then have "ss_id (fst e) = i" "i \<in> set ids" using assms(3) unfolding store_ids_ok_def by blast+
    then show ?thesis using assms(1,3) Some
      by (auto simp: memory_completeOnce_def store_ids_ok_def completed_def split: if_splits prod.splits)
  qed (use assms in \<open>auto simp: memory_completeOnce_def\<close>)
  show "ss_id s = i \<and> i \<in> set ids \<and> \<not> sealed_there st i \<and> sealed_there st' i" if "r = Some s"
  proof (cases "jm_get st i")
    case (Some e)
    then have "ss_id (fst e) = i" "i \<in> set ids" using assms(3) unfolding store_ids_ok_def by blast+
    then show ?thesis using assms(1,2) Some that
      by (auto simp: memory_completeOnce_def sealed_there_def sealed_completed completed_def split: if_splits prod.splits)
        (simp_all add: is_sealed_def)
  qed (use assms(1) that in \<open>auto simp: memory_completeOnce_def\<close>)
qed

lemma check_submission_payout: "(\<And>iv d. ev_seal en iv d \<noteq> []) \<Longrightarrow> check_submission en iv form s = Inr (p, cb) \<Longrightarrow> p \<noteq> []"
  by (cases "validatePayoutDetails form") (auto simp: check_submission_def rbind_eq_Inr split: if_splits)

lemma submit_resume_once:
  assumes r: "submit_resume memory_ops en now ok iv pc st = (out, st')" and seal: "\<And>iv d. ev_seal en iv d \<noteq> []"
    and pc: "payout_there pc" and ids: "store_ids_ok ids st"
  shows "(\<forall>j. sealed_there st j \<longrightarrow> sealed_there st' j) \<and> store_ids_ok ids st' \<and> (\<forall>pc'. out = Waits pc' \<longrightarrow> payout_there pc')
    \<and> (\<forall>h. out = Hands h \<longrightarrow> ss_id (fst h) \<in> set ids \<and> \<not> sealed_there st (ss_id (fst h)) \<and> sealed_there st' (ss_id (fst h)))"
proof (cases pc)
  case (S_open i form)
  obtain g st1 where g: "memory_get now i st = (g, st1)" by (cases "memory_get now i st")
  show ?thesis using r S_open g memory_get_keeps [OF g] ids check_submission_payout [OF seal]
    by (auto simp: submit_resume_def memory_ops_def split: if_splits option.splits sum.splits)
next
  case (S_complete i p c cb)
  obtain g st1 where g: "memory_completeOnce now i p st = (g, st1)" by (cases "memory_completeOnce now i p st")
  have p: "p \<noteq> []" using pc S_complete by simp
  show ?thesis using r S_complete g memory_complete_keeps [OF g p ids]
    by (auto simp: submit_resume_def memory_ops_def split: option.splits)
qed

lemma once_step:
  assumes seal: "\<And>iv d. ev_seal en iv d \<noteq> []"
  shows "sep24_step memory_ops en s s' \<Longrightarrow> once_inv s \<Longrightarrow> once_inv s'"
proof (induction rule: sep24_step.induct)
  case (Initiate new_id s inp ses)
  have "ss_id ses = new_id" using Initiate(3) by (auto simp: initiate_session_def Let_def split: if_splits)
  then show ?case using Initiate(1,4)
    by (auto simp: once_inv_def handed_ids_def memory_ops_def memory_save_def sealed_there_def store_ids_ok_def)
next
  case (Go k s ok iv)
  obtain out st where o: "submit_resume memory_ops en (sy_now s) ok iv (sy_tasks s ! k) (sy_store s) = (out, st)"
    by (cases "submit_resume memory_ops en (sy_now s) ok iv (sy_tasks s ! k) (sy_store s)")
  have "payout_there (sy_tasks s ! k)" "store_ids_ok (sy_ids s) (sy_store s)" using Go by (auto simp: once_inv_def)
  from submit_resume_once [OF o seal this] show ?case using Go(2) o set_tasks_step [where out = out and ts = "sy_tasks s" and k = k]
    by (auto simp: once_inv_def go_on_def handed_ids_def split: submit_out.splits)
next
  case (Read s i)
  obtain r st where g: "memory_get (sy_now s) i (sy_store s) = (r, st)" by (cases "memory_get (sy_now s) i (sy_store s)")
  show ?case using Read memory_get_keeps [OF g] g by (auto simp: once_inv_def handed_ids_def memory_ops_def)
qed (auto simp: once_inv_def handed_ids_def)

text \<open>
  C17. With the process-local store a session is completed at most once, in every interleaving of
  initiations, submissions and the passing of time.
\<close>

theorem session_completed_once:
  assumes "\<And>iv d. ev_seal en iv d \<noteq> []" "sep24_init [] s" "(sep24_step memory_ops en)\<^sup>*\<^sup>* s s'"
  shows "distinct (map (\<lambda>h. ss_id (fst h)) (sy_handed s'))"
proof -
  have "once_inv s'" using assms(3)
  proof (induction rule: rtranclp_induct)
    case base
    then show ?case using assms(2) by (simp add: sep24_init_def once_inv_def handed_ids_def store_ids_ok_def)
  qed (rule once_step [OF assms(1)])
  then show ?thesis by (simp add: once_inv_def handed_ids_def)
qed

text \<open>
  C18. A completion token is handed out only to the window of a wallet, or at a URL, whose origin is on the
  allow-list and secure; this holds for both stores and every interleaving.
\<close>

theorem completions_go_to_allowed:
  assumes "sep24_init [] s" "sep24_init [] r" "(sep24_step memory_ops en)\<^sup>*\<^sup>* s s'" "(sep24_step redis_ops en)\<^sup>*\<^sup>* r r'"
    and "h \<in> set (sy_handed s') \<union> set (sy_handed r')"
  shows "target_ok en (fst (snd h))"
  using mem.targets_reach [OF assms(3,1)] red.targets_reach [OF assms(4,2)] assms(5) by blast

section \<open>Tokens and details\<close>

text \<open>The token of the form is not accepted as a completion token, nor the other way round.\<close>

lemma tokens_scoped:
  assumes "\<And>k t c. ev_jwt_verify en k t (ev_jwt_sign en k c) = Jwt_claims c"
  shows "verifyCompletionToken en now' (sign_token en now ''sep24-interactive'' i st opn ttl) = Inl INVALID_TOKEN"
    and "verify_token en now' (completion_token en now s) ''sep24-interactive'' = Inl INVALID_TOKEN"
    and "verifyCompletionToken en now' (completion_token en now s) = Inr (ss_id s, Some (ss_status s))"
  by (simp_all add: verifyCompletionToken_def verify_token_def sign_token_def completion_token_def Let_def assms)

text \<open>The details of a completed session read back until the session expires.\<close>

lemma details_read_back:
  assumes "memory_completeOnce now i (ev_seal en iv d) st = (Some s, st')" "ev_unseal en (ev_seal en iv d) = d" "ev_seal en iv d \<noteq> []"
    and "jm_get st i = Some (s0, expiresAt)" "now' < expiresAt"
  shows "fst (getPayoutDetails memory_ops en now' i st') = Some d"
  using assms by (auto simp: memory_completeOnce_def getPayoutDetails_def memory_ops_def memory_get_def sealed_completed split: if_splits)
    (simp add: completed_def)

section \<open>Runs\<close>

datatype sep24_move = M_init string initiate_input | M_submit string "(string \<times> json) list" | M_go nat | M_wait int

text \<open>Moves that are possible, one after the other.\<close>

fun sep24_play :: "'s store_ops \<Rightarrow> sep24_env \<Rightarrow> sep24_move list \<Rightarrow> 's sep24_sys \<Rightarrow> 's sep24_sys option" where
  "sep24_play ops en [] s = Some s"
| "sep24_play ops en (M_init i inp # ms) s =
     (if i \<in> set (sy_ids s) \<or> CHR '':'' \<in> set i then None
      else case initiate_session en (sy_now s) i inp of
          Inl e \<Rightarrow> None
        | Inr ses \<Rightarrow> sep24_play ops en ms (s\<lparr>sy_store := so_save ops (sy_now s) ses (sc_sessionTtlSeconds (ev_config en)) (sy_store s), sy_ids := i # sy_ids s\<rparr>))"
| "sep24_play ops en (M_submit token form # ms) s = (case verify_token en (sy_now s) token ''sep24-interactive'' of
      Inl e \<Rightarrow> None
    | Inr (i, c) \<Rightarrow> sep24_play ops en ms (s\<lparr>sy_tasks := sy_tasks s @ [S_open i form]\<rparr>))"
| "sep24_play ops en (M_go k # ms) s = (if k < length (sy_tasks s) then sep24_play ops en ms (go_on ops en True [] k s) else None)"
| "sep24_play ops en (M_wait t # ms) s = (if t \<ge> sy_now s then sep24_play ops en ms (s\<lparr>sy_now := t\<rparr>) else None)"

lemma sep24_play_reach: "sep24_play ops en ms s = Some s' \<Longrightarrow> (sep24_step ops en)\<^sup>*\<^sup>* s s'"
proof (induction ops en ms s rule: sep24_play.induct)
  case (2 ops en i inp ms s)
  then show ?case by (auto split: if_splits sum.splits intro: converse_rtranclp_into_rtranclp Initiate)
next
  case (3 ops en token form ms s)
  obtain i c where v: "verify_token en (sy_now s) token ''sep24-interactive'' = Inr (i, c)"
    using "3.prems" by (auto split: sum.splits)
  then have "(sep24_step ops en)\<^sup>*\<^sup>* (s\<lparr>sy_tasks := sy_tasks s @ [S_open i form]\<rparr>) s'" using 3 by simp
  then show ?case by (rule converse_rtranclp_into_rtranclp [where r = "sep24_step ops en", rotated]) (rule Submit [OF v])
next
  case (4 ops en k ms s)
  then show ?case by (auto split: if_splits intro: converse_rtranclp_into_rtranclp Go)
next
  case (5 ops en t ms s)
  then show ?case by (auto split: if_splits intro: converse_rtranclp_into_rtranclp Pass)
qed auto

definition sample_env :: sep24_env where
  "sample_env = \<lparr>ev_parse_url = (\<lambda>s. if s = ''https://w'' then Some \<lparr>ur_protocol = ''https:'', ur_hostname = ''w'', ur_origin = ''https://w'',
      ur_username = [], ur_password = [], ur_href = ''https://w/''\<rparr> else None),
     ev_jwt_sign = (\<lambda>k c. case cl_sub c of Some i \<Rightarrow> i | None \<Rightarrow> []),
     ev_jwt_verify = (\<lambda>k t token. Jwt_claims \<lparr>cl_typ = Some ''sep24-interactive'', cl_sub = Some token, cl_status = None, cl_op = None, cl_iat = 0, cl_exp = 0\<rparr>),
     ev_seal = (\<lambda>iv d. ''sealed''), ev_unseal = (\<lambda>s. \<lparr>pd_fullName = [], pd_email = None, pd_bankName = [], pd_accountNumber = [], pd_amount = None\<rparr>),
     ev_config = \<lparr>sc_secret = ''secret'', sc_interactiveTokenTtlSeconds = 900, sc_completionTokenTtlSeconds = 300, sc_sessionTtlSeconds = 3600,
       sc_baseUrl = ''https://b'', sc_allowedCallbackOrigins = [''https://w''], sc_supportedAssets = [], sc_allowInsecureLocalhost = False\<rparr>\<rparr>"

definition sample_sys :: "'s \<Rightarrow> 's sep24_sys" where
  "sample_sys st = \<lparr>sy_store = st, sy_tasks = [], sy_handed = [], sy_ids = [], sy_now = 0\<rparr>"

definition sample_form :: "(string \<times> json) list" where
  "sample_form = [(''full_name'', JStr ''Al''), (''bank_name'', JStr ''Bank''), (''account_number'', JStr ''12-34''), (''callback'', JStr ''postMessage'')]"

definition sample_input :: initiate_input where
  "sample_input = \<lparr>ii_operation = Deposit, ii_assetCode = JStr ''usdc'', ii_account = JUndefined, ii_amount = JUndefined, ii_walletUrl = JStr ''https://w''\<rparr>"

definition handed_summary :: "'s sep24_sys option \<Rightarrow> (string \<times> callback_target) list option" where
  "handed_summary r = map_option (\<lambda>s. map (\<lambda>h. (ss_id (fst h), fst (snd h))) (sy_handed s)) r"

definition plain_moves :: "sep24_move list" where
  "plain_moves = [M_init ''a'' sample_input, M_submit ''a'' sample_form, M_submit ''a'' sample_form, M_go 0, M_go 1, M_go 1, M_go 0]"

lemma memory_run: "handed_summary (sep24_play memory_ops sample_env plain_moves (sample_sys [])) = Some [(''a'', PostMessage (Some ''https://w''))]"
  by code_simp

text \<open>
  Two submissions read a session that expires in 1.4 seconds; the second one is delayed for a second
  after it has read the lifetime, so that the marker is gone while the session was just written again.
\<close>

definition slow_moves :: "sep24_move list" where
  "slow_moves = [M_init ''a'' sample_input, M_wait 3598600, M_submit ''a'' sample_form, M_submit ''a'' sample_form, M_go 0, M_go 1,
     M_go 1, M_go 0, M_go 0, M_go 0, M_wait 3598700, M_go 0, M_wait 3599650, M_go 0, M_go 0, M_go 0]"

lemma redis_completed_twice:
  "\<exists>s. (sep24_step redis_ops sample_env)\<^sup>*\<^sup>* (sample_sys []) s \<and> map (\<lambda>h. ss_id (fst h)) (sy_handed s) = [''a'', ''a'']"
proof -
  have "map_option (map fst) (handed_summary (sep24_play redis_ops sample_env slow_moves (sample_sys []))) = Some [''a'', ''a'']" by code_simp
  then obtain s where s: "sep24_play redis_ops sample_env slow_moves (sample_sys []) = Some s" "map (\<lambda>h. ss_id (fst h)) (sy_handed s) = [''a'', ''a'']"
    by (cases "sep24_play redis_ops sample_env slow_moves (sample_sys [])") (simp_all add: handed_summary_def comp_def)
  show ?thesis by (intro exI [of _ s] conjI) (rule sep24_play_reach [OF s(1)], rule s(2))
qed

lemma sample_init: "sep24_init [] (sample_sys [])"
  by (simp add: sep24_init_def sample_sys_def)

theorem session_completed_once_witness:
  "\<exists>s. handed_summary (Some s) = Some [(''a'', PostMessage (Some ''https://w''))] \<and> distinct (map (\<lambda>h. ss_id (fst h)) (sy_handed (s :: memory_store sep24_sys)))"
proof -
  obtain s where s: "sep24_play memory_ops sample_env plain_moves (sample_sys []) = Some s" "handed_summary (Some s) = Some [(''a'', PostMessage (Some ''https://w''))]"
    using memory_run by (cases "sep24_play memory_ops sample_env plain_moves (sample_sys [])") (auto simp: handed_summary_def)
  have "distinct (map (\<lambda>h. ss_id (fst h)) (sy_handed s))"
    by (rule session_completed_once [OF _ sample_init sep24_play_reach [OF s(1)]]) (simp add: sample_env_def)
  then show ?thesis using s(2) by blast
qed

theorem completions_go_to_allowed_witness: "target_ok sample_env (PostMessage (Some ''https://w''))"
proof -
  obtain s where s: "sep24_play memory_ops sample_env plain_moves (sample_sys []) = Some s" "handed_summary (Some s) = Some [(''a'', PostMessage (Some ''https://w''))]"
    using memory_run by (cases "sep24_play memory_ops sample_env plain_moves (sample_sys [])") (auto simp: handed_summary_def)
  obtain h where h: "h \<in> set (sy_handed s)" "fst (snd h) = PostMessage (Some ''https://w'')"
    using s(2) by (auto simp: handed_summary_def map_eq_Cons_conv)
  have "target_ok sample_env (fst (snd h))"
    by (rule completions_go_to_allowed [OF sample_init sample_init sep24_play_reach [OF s(1)] rtranclp.rtrancl_refl]) (simp add: h(1))
  then show ?thesis by (simp add: h(2))
qed

end
