(* ===== verification/VotingHistory.thy ===== *)
theory VotingHistory
  imports JSText "HOL-Library.Product_Lexorder"
begin

text \<open>
  The history of governance: \<open>src/services/votingPowerCheckpointService.ts\<close>, which keeps the voting power of
  accounts per ledger in a decimal column, and \<open>src/services/governanceTurnoutService.ts\<close> with
  \<open>src/analytics/governanceTurnout.ts\<close>, which turn a daily aggregate of votes into percentages and trends.

  The lemmas show that the table of checkpoints refines a map from accounts and ledgers to weights, with
  the queries answering from that map, and that the published percentages and their averages lie between
  0 and 100, in double precision, since the voters of a day are among those that are eligible.
\<close>

section \<open>Checkpoints\<close>

record checkpoint_payload =
  cy_accountId :: string
  cy_ledgerSequence :: int
  cy_votingWeight :: rat

record checkpoint =
  ck_accountId :: string
  ck_ledgerSequence :: int
  ck_votingWeight :: rat
  ck_createdAt :: int

definition same_key :: "checkpoint_payload \<Rightarrow> checkpoint \<Rightarrow> bool" where
  "same_key p r \<longleftrightarrow> ck_accountId r = cy_accountId p \<and> ck_ledgerSequence r = cy_ledgerSequence p"

text \<open>
  The column of the weight is \<open>Decimal(38, 18)\<close>: a number is rounded to eighteen places, halves away from
  zero, and one that then has more than twenty digits before the point is refused.
\<close>

definition weight_units :: "rat \<Rightarrow> int" where
  "weight_units w = (if w < 0 then - \<lfloor>1 / 2 - w * 1000000000000000000\<rfloor> else \<lfloor>w * 1000000000000000000 + 1 / 2\<rfloor>)"

definition weight_column :: "rat \<Rightarrow> rat option" where
  "weight_column w =
     (if \<bar>weight_units w\<bar> < 10 ^ 38 then Some (of_int (weight_units w) / 1000000000000000000) else None)"

definition storeVotingPowerCheckpoint :: "int \<Rightarrow> checkpoint_payload \<Rightarrow> checkpoint list \<Rightarrow> checkpoint list" where
  "storeVotingPowerCheckpoint now p rows = (case weight_column (cy_votingWeight p) of
      None \<Rightarrow> rows
    | Some w \<Rightarrow>
     (if list_ex (same_key p) rows then map (\<lambda>r. if same_key p r then r\<lparr>ck_votingWeight := w\<rparr> else r) rows
      else rows @ [\<lparr>ck_accountId = cy_accountId p, ck_ledgerSequence = cy_ledgerSequence p, ck_votingWeight = w, ck_createdAt = now\<rparr>]))"

definition weight_fits :: "checkpoint_payload \<Rightarrow> bool" where
  "weight_fits p \<longleftrightarrow> weight_column (cy_votingWeight p) \<noteq> None"

text \<open>The transaction of a batch fails as a whole.\<close>

definition batchStoreVotingPowerCheckpoints :: "int \<Rightarrow> bool \<Rightarrow> checkpoint_payload list \<Rightarrow> checkpoint list \<Rightarrow> checkpoint list" where
  "batchStoreVotingPowerCheckpoints now committed ps rows =
     (if ps = [] \<or> \<not> committed \<or> \<not> list_all weight_fits ps then rows else fold (storeVotingPowerCheckpoint now) ps rows)"

definition getVotingPowerAtLedger :: "string \<Rightarrow> int \<Rightarrow> checkpoint list \<Rightarrow> checkpoint option" where
  "getVotingPowerAtLedger a l rows = List.find (\<lambda>r. ck_accountId r = a \<and> ck_ledgerSequence r = l) rows"

definition first_row :: "'a list \<Rightarrow> 'a option" where
  "first_row rs = (case rs of [] \<Rightarrow> None | r # _ \<Rightarrow> Some r)"

definition getVotingPowerAtOrBeforeLedger :: "string \<Rightarrow> int \<Rightarrow> checkpoint list \<Rightarrow> checkpoint option" where
  "getVotingPowerAtOrBeforeLedger a l rows =
     first_row (sort_key (\<lambda>r. - ck_ledgerSequence r) (filter (\<lambda>r. ck_accountId r = a \<and> ck_ledgerSequence r \<le> l) rows))"

definition getCheckpointsAtLedger :: "int \<Rightarrow> checkpoint list \<Rightarrow> checkpoint list" where
  "getCheckpointsAtLedger l rows = sort_key ck_accountId (filter (\<lambda>r. ck_ledgerSequence r = l) rows)"

definition getAccountCheckpointHistory :: "string \<Rightarrow> int option \<Rightarrow> int option \<Rightarrow> nat \<Rightarrow> checkpoint list \<Rightarrow> checkpoint list" where
  "getAccountCheckpointHistory a fromLedger toLedger limit rows =
     take limit (sort_key (\<lambda>r. - ck_ledgerSequence r) (filter (\<lambda>r. ck_accountId r = a
        \<and> (case fromLedger of None \<Rightarrow> True | Some f \<Rightarrow> f \<le> ck_ledgerSequence r)
        \<and> (case toLedger of None \<Rightarrow> True | Some t \<Rightarrow> ck_ledgerSequence r \<le> t)) rows))"

text \<open>Days are counted on a clock without daylight saving.\<close>

definition deleteOldCheckpoints :: "int \<Rightarrow> int \<Rightarrow> checkpoint list \<Rightarrow> nat \<times> checkpoint list" where
  "deleteOldCheckpoints now daysToKeep rows =
     (let cutoff = now - daysToKeep * 86400000 in
      (length (filter (\<lambda>r. ck_createdAt r < cutoff) rows), filter (\<lambda>r. \<not> ck_createdAt r < cutoff) rows))"

datatype checkpoint_op = Store int checkpoint_payload | Batch int bool "checkpoint_payload list" | Clean int int

fun checkpoint_step :: "checkpoint_op \<Rightarrow> checkpoint list \<Rightarrow> checkpoint list" where
  "checkpoint_step (Store now p) rows = storeVotingPowerCheckpoint now p rows"
| "checkpoint_step (Batch now ok ps) rows = batchStoreVotingPowerCheckpoints now ok ps rows"
| "checkpoint_step (Clean now days) rows = snd (deleteOldCheckpoints now days rows)"

section \<open>The map of weights\<close>

text \<open>What the table stands for: weight and time of creation per account and ledger.\<close>

type_synonym power_map = "string \<times> int \<Rightarrow> (rat \<times> int) option"

definition power_store :: "int \<Rightarrow> checkpoint_payload \<Rightarrow> power_map \<Rightarrow> power_map" where
  "power_store now p m =
     (case weight_column (cy_votingWeight p) of
        None \<Rightarrow> m
      | Some w \<Rightarrow> (let k = (cy_accountId p, cy_ledgerSequence p) in m(k \<mapsto> (w, case m k of Some (_, c) \<Rightarrow> c | None \<Rightarrow> now))))"

definition power_keep :: "int \<Rightarrow> power_map \<Rightarrow> power_map" where
  "power_keep cutoff m = (\<lambda>k. case m k of Some (w, c) \<Rightarrow> if c < cutoff then None else Some (w, c) | None \<Rightarrow> None)"

fun power_step :: "checkpoint_op \<Rightarrow> power_map \<Rightarrow> power_map" where
  "power_step (Store now p) m = power_store now p m"
| "power_step (Batch now ok ps) m = (if ok \<and> list_all weight_fits ps then fold (power_store now) ps m else m)"
| "power_step (Clean now days) m = power_keep (now - days * 86400000) m"

definition row_key :: "checkpoint \<Rightarrow> string \<times> int" where
  "row_key r = (ck_accountId r, ck_ledgerSequence r)"

definition powers :: "checkpoint list \<Rightarrow> power_map" where
  "powers rows = map_of (map (\<lambda>r. (row_key r, ck_votingWeight r, ck_createdAt r)) rows)"

definition keys_distinct :: "checkpoint list \<Rightarrow> bool" where
  "keys_distinct rows \<longleftrightarrow> distinct (map row_key rows)"

lemma powers_Some: "keys_distinct rows \<Longrightarrow> powers rows k = Some wc \<longleftrightarrow> (\<exists>r \<in> set rows. row_key r = k \<and> wc = (ck_votingWeight r, ck_createdAt r))"
  by (auto simp: powers_def keys_distinct_def comp_def map_of_eq_Some_iff)

lemma powers_None: "powers rows k = None \<longleftrightarrow> (\<forall>r \<in> set rows. row_key r \<noteq> k)"
  by (auto simp: powers_def map_of_eq_None_iff image_image)

lemma powers_row: "keys_distinct rows \<Longrightarrow> r \<in> set rows \<Longrightarrow> powers rows (row_key r) = Some (ck_votingWeight r, ck_createdAt r)"
  by (auto simp: powers_Some)

lemma same_key_iff: "same_key p r \<longleftrightarrow> row_key r = (cy_accountId p, cy_ledgerSequence p)"
  by (simp add: same_key_def row_key_def)

text \<open>A stored weight is the number written up to half a unit of the eighteenth place, and whole numbers are exact.\<close>

lemma weight_column_close:
  assumes "weight_column w = Some v"
  shows "\<bar>v - w\<bar> \<le> 1 / 2000000000000000000"
proof -
  define x where "x = w * 1000000000000000000"
  define a b where "a = \<lfloor>1 / 2 - x\<rfloor>" and "b = \<lfloor>x + 1 / 2\<rfloor>"
  have "of_int a \<le> 1 / 2 - x" "1 / 2 - x < of_int a + 1" "of_int b \<le> x + 1 / 2" "x + 1 / 2 < of_int b + 1"
    unfolding a_def b_def by linarith+
  moreover have "weight_units w = (if w < 0 then - a else b)" by (simp add: weight_units_def x_def a_def b_def)
  ultimately have "of_int (weight_units w) - x \<le> 1 / 2" "x - of_int (weight_units w) \<le> 1 / 2"
    by (cases "w < 0"; simp)+
  moreover have "v = of_int (weight_units w) / 1000000000000000000"
    using assms by (simp add: weight_column_def split: if_splits)
  ultimately have "v - w \<le> 1 / 2000000000000000000" "w - v \<le> 1 / 2000000000000000000"
    by (simp_all add: x_def field_simps)
  then show ?thesis by linarith
qed

lemma weight_units_whole: "weight_units (of_int z) = z * 1000000000000000000"
proof -
  define y where "y = z * 1000000000000000000"
  have x: "(of_int z :: rat) * 1000000000000000000 = of_int y" by (simp add: y_def)
  have "\<lfloor>1 / 2 - (of_int y :: rat)\<rfloor> = - y" "\<lfloor>(of_int y :: rat) + 1 / 2\<rfloor> = y"
    by (simp_all add: floor_eq_iff)
  then show ?thesis unfolding weight_units_def x by (simp add: y_def)
qed

lemma weight_column_whole: "\<bar>z\<bar> < 100000000000000000000 \<Longrightarrow> weight_column (of_int z) = Some (of_int z)"
  by (simp add: weight_column_def weight_units_whole abs_mult)

lemma store_refines_fitting:
  assumes "keys_distinct rows" and w: "weight_column (cy_votingWeight p) = Some w"
  shows "keys_distinct (storeVotingPowerCheckpoint now p rows) \<and> powers (storeVotingPowerCheckpoint now p rows) = power_store now p (powers rows)"
proof (cases "list_ex (same_key p) rows")
  case True
  let ?f = "\<lambda>r. if same_key p r then r\<lparr>ck_votingWeight := w\<rparr> else r"
  have k: "row_key (?f r) = row_key r" for r by (simp add: row_key_def)
  have d: "keys_distinct (map ?f rows)" using assms(1) by (simp add: keys_distinct_def comp_def k)
  have "powers (map ?f rows) = power_store now p (powers rows)"
  proof
    fix k
    show "powers (map ?f rows) k = power_store now p (powers rows) k"
    proof (cases "powers rows k")
      case None
      have "row_key q \<noteq> k" if q: "q \<in> set (map ?f rows)" for q
      proof -
        obtain r where "r \<in> set rows" "q = ?f r" using q unfolding set_map by (rule imageE)
        then show ?thesis using None k [of r] by (simp add: powers_None)
      qed
      then have "powers (map ?f rows) k = None" unfolding powers_None by blast
      moreover have "k \<noteq> (cy_accountId p, cy_ledgerSequence p)" using None True by (auto simp: powers_None list_ex_iff same_key_iff)
      ultimately show ?thesis using None by (simp add: power_store_def Let_def w)
    next
      case (Some wc)
      then obtain r where r: "r \<in> set rows" "row_key r = k" "wc = (ck_votingWeight r, ck_createdAt r)" using powers_Some [OF assms(1)] by blast
      have "powers (map ?f rows) k = Some (ck_votingWeight (?f r), ck_createdAt (?f r))"
        using powers_row [OF d, of "?f r"] r(1,2) k [of r] by simp
      then show ?thesis using Some r by (auto simp: power_store_def Let_def w same_key_iff)
    qed
  qed
  then show ?thesis using True d by (simp add: storeVotingPowerCheckpoint_def w)
next
  case False
  then have n: "\<forall>r \<in> set rows. row_key r \<noteq> (cy_accountId p, cy_ledgerSequence p)" by (simp add: list_ex_iff same_key_iff)
  let ?r = "\<lparr>ck_accountId = cy_accountId p, ck_ledgerSequence = cy_ledgerSequence p, ck_votingWeight = w, ck_createdAt = now\<rparr>"
  have kr: "row_key ?r = (cy_accountId p, cy_ledgerSequence p)" by (simp add: row_key_def)
  have d: "keys_distinct (rows @ [?r])" using assms(1) n kr by (auto simp: keys_distinct_def)
  have pn: "powers rows (cy_accountId p, cy_ledgerSequence p) = None" using n by (simp add: powers_None)
  have "powers (rows @ [?r]) k = power_store now p (powers rows) k" for k
    using pn kr by (auto simp: powers_def power_store_def Let_def w map_add_def split: option.splits)
  then show ?thesis using False d by (simp add: storeVotingPowerCheckpoint_def w fun_eq_iff)
qed

lemma store_refines:
  assumes "keys_distinct rows"
  shows "keys_distinct (storeVotingPowerCheckpoint now p rows) \<and> powers (storeVotingPowerCheckpoint now p rows) = power_store now p (powers rows)"
proof (cases "weight_column (cy_votingWeight p)")
  case None
  then show ?thesis using assms by (simp add: storeVotingPowerCheckpoint_def power_store_def)
qed (rule store_refines_fitting [OF assms])

lemma batch_refines:
  "keys_distinct rows \<Longrightarrow> keys_distinct (fold (storeVotingPowerCheckpoint now) ps rows)
     \<and> powers (fold (storeVotingPowerCheckpoint now) ps rows) = fold (power_store now) ps (powers rows)"
  by (induction ps arbitrary: rows) (simp_all add: store_refines)

lemma clean_refines:
  assumes "keys_distinct rows"
  shows "keys_distinct (snd (deleteOldCheckpoints now days rows))
    \<and> powers (snd (deleteOldCheckpoints now days rows)) = power_keep (now - days * 86400000) (powers rows)"
proof -
  let ?c = "now - days * 86400000"
  let ?rows = "filter (\<lambda>r. \<not> ck_createdAt r < ?c) rows"
  have d: "keys_distinct ?rows" using assms by (simp add: keys_distinct_def distinct_map_filter)
  have "powers ?rows k = power_keep ?c (powers rows) k" for k
  proof (cases "powers rows k")
    case None
    then have "powers ?rows k = None" by (simp add: powers_None)
    then show ?thesis using None by (simp add: power_keep_def)
  next
    case (Some wc)
    then obtain r where r: "r \<in> set rows" "row_key r = k" "wc = (ck_votingWeight r, ck_createdAt r)" using powers_Some [OF assms] by blast
    show ?thesis
    proof (cases "ck_createdAt r < ?c")
      case True
      have "row_key q \<noteq> k" if "q \<in> set ?rows" for q
        using that True r assms by (auto simp: keys_distinct_def distinct_map inj_on_def)
      then show ?thesis using True r Some by (simp add: power_keep_def powers_None)
    next
      case False
      then show ?thesis using powers_row [OF d, of r] r Some by (simp add: power_keep_def)
    qed
  qed
  then show ?thesis using d by (simp add: deleteOldCheckpoints_def Let_def fun_eq_iff)
qed

lemma checkpoint_step_refines:
  assumes "keys_distinct rows"
  shows "keys_distinct (checkpoint_step e rows) \<and> powers (checkpoint_step e rows) = power_step e (powers rows)"
  using store_refines [OF assms] batch_refines [OF assms] clean_refines [OF assms] assms
  by (cases e) (auto simp: batchStoreVotingPowerCheckpoints_def)

lemma checkpoint_run_refines:
  "keys_distinct rows \<Longrightarrow> keys_distinct (fold checkpoint_step es rows) \<and> powers (fold checkpoint_step es rows) = fold power_step es (powers rows)"
  by (induction es arbitrary: rows) (simp_all add: checkpoint_step_refines)

text \<open>The query at or before a ledger, in terms of the map.\<close>

lemma at_or_before:
  assumes "keys_distinct rows"
  shows "case getVotingPowerAtOrBeforeLedger a l rows of
      None \<Rightarrow> \<forall>l' \<le> l. powers rows (a, l') = None
    | Some r \<Rightarrow> ck_ledgerSequence r \<le> l \<and> powers rows (a, ck_ledgerSequence r) = Some (ck_votingWeight r, ck_createdAt r)
        \<and> (\<forall>l'. ck_ledgerSequence r < l' \<longrightarrow> l' \<le> l \<longrightarrow> powers rows (a, l') = None)"
proof -
  let ?rs = "filter (\<lambda>r. ck_accountId r = a \<and> ck_ledgerSequence r \<le> l) rows"
  show ?thesis
  proof (cases "sort_key (\<lambda>r. - ck_ledgerSequence r) ?rs")
    case Nil
    have "set ?rs = {}" using arg_cong [OF Nil, of set] by (simp only: set_sort list.set)
    then have "?rs = []" by (simp only: set_empty)
    then show ?thesis using Nil by (auto simp: getVotingPowerAtOrBeforeLedger_def first_row_def powers_None row_key_def filter_empty_conv)
  next
    case (Cons r rs)
    have s: "set (r # rs) = set ?rs" using arg_cong [OF Cons, of set] by simp
    have "sorted (map (\<lambda>r. - ck_ledgerSequence r) (r # rs))" unfolding Cons [symmetric] by (rule sorted_sort_key)
    then have top: "ck_ledgerSequence q \<le> ck_ledgerSequence r" if "q \<in> set ?rs" for q using that s by auto
    have r: "r \<in> set rows" "ck_accountId r = a" "ck_ledgerSequence r \<le> l" using s by auto
    have "powers rows (a, ck_ledgerSequence r) = Some (ck_votingWeight r, ck_createdAt r)"
      using powers_row [OF assms r(1)] r(2) by (simp add: row_key_def)
    moreover have "powers rows (a, l') = None" if "ck_ledgerSequence r < l'" "l' \<le> l" for l'
      using that top by (fastforce simp: powers_None row_key_def)
    ultimately show ?thesis using Cons r by (simp add: getVotingPowerAtOrBeforeLedger_def first_row_def)
  qed
qed

text \<open>
  C19. After any sequence of stores, batches and clean-ups the table stands for the map that the same
  sequence gives; the query at a ledger looks the map up, and the query at or before a ledger answers
  with the entry of the latest ledger that has one.
\<close>

theorem checkpoints_refine_map:
  fixes es :: "checkpoint_op list"
  defines "rows \<equiv> fold checkpoint_step es []" and "m \<equiv> fold power_step es (\<lambda>k. None)"
  shows "powers rows = m
    \<and> map_option (\<lambda>r. (ck_votingWeight r, ck_createdAt r)) (getVotingPowerAtLedger a l rows) = m (a, l)
    \<and> (case getVotingPowerAtOrBeforeLedger a l rows of
        None \<Rightarrow> \<forall>l' \<le> l. m (a, l') = None
      | Some r \<Rightarrow> ck_ledgerSequence r \<le> l \<and> m (a, ck_ledgerSequence r) = Some (ck_votingWeight r, ck_createdAt r)
          \<and> (\<forall>l'. ck_ledgerSequence r < l' \<longrightarrow> l' \<le> l \<longrightarrow> m (a, l') = None))"
proof -
  have e: "keys_distinct []" "powers [] = (\<lambda>k. None)" by (simp_all add: keys_distinct_def powers_def)
  have d: "keys_distinct rows" and m: "powers rows = m"
    using checkpoint_run_refines [OF e(1), of es] by (simp_all add: rows_def m_def e(2))
  have "map_option (\<lambda>r. (ck_votingWeight r, ck_createdAt r)) (getVotingPowerAtLedger a l rows) = m (a, l)"
  proof (cases "getVotingPowerAtLedger a l rows")
    case None
    then have "powers rows (a, l) = None" by (auto simp: getVotingPowerAtLedger_def find_None_iff powers_None row_key_def)
    then show ?thesis using None by (simp add: m)
  next
    case (Some r)
    then have "r \<in> set rows" "row_key r = (a, l)" by (auto simp: getVotingPowerAtLedger_def find_Some_iff row_key_def)
    then show ?thesis using powers_row [OF d, of r] Some by (simp add: m [symmetric])
  qed
  then show ?thesis using m at_or_before [OF d, where a = a and l = l] by (simp only: m simp_thms)
qed

text \<open>A clean-up forgets the voting power of an account whose last change is old.\<close>

lemma quiet_account_loses_power:
  assumes "0 < days" "days * 86400000 < now - t"
  shows "getVotingPowerAtOrBeforeLedger (cy_accountId p) l
    (fold checkpoint_step [Store t p, Clean now days] []) = None"
  using assms by (simp add: storeVotingPowerCheckpoint_def deleteOldCheckpoints_def getVotingPowerAtOrBeforeLedger_def first_row_def Let_def
      split: option.split)

section \<open>Percentages\<close>

definition TREND_FLAT_THRESHOLD_PP :: rat where "TREND_FLAT_THRESHOLD_PP = 1"

definition round2 :: "rat \<Rightarrow> rat" where
  "round2 n = jsdiv (of_int (math_round (jsmul n 100))) 100"

definition computeTurnoutPct :: "nat \<Rightarrow> nat \<Rightarrow> rat" where
  "computeTurnoutPct voters eligibleVoters =
     (if eligibleVoters = 0 then 0 else round2 (jsmul (min (jsdiv (of_nat voters) (of_nat eligibleVoters)) 1) 100))"

definition turnout_mean :: "rat list \<Rightarrow> rat" where
  "turnout_mean xs = jsdiv (js_sum xs) (of_nat (length xs))"

datatype trend_direction = Trend_up | Trend_down | Trend_flat | Insufficient_data

definition computeTrend :: "rat list \<Rightarrow> trend_direction \<times> rat" where
  "computeTrend pcts =
     (if length pcts < 2 then (Insufficient_data, 0)
      else let half = length pcts div 2; earlier = take half pcts; later = drop (length pcts - half) pcts;
               changePct = round2 (jssub (turnout_mean later) (turnout_mean earlier)) in
        (if changePct \<ge> TREND_FLAT_THRESHOLD_PP then Trend_up else if changePct \<le> - TREND_FLAT_THRESHOLD_PP then Trend_down else Trend_flat, changePct))"

section \<open>The queries\<close>

text \<open>A row of the daily aggregate: one per day, category and account.\<close>

record turnout_daily =
  td_bucket :: int
  td_category :: string
  td_account :: string
  td_vote_count :: nat
  td_weight :: rat

record turnout_row =
  tr_bucket :: int
  tr_category :: "string option"
  tr_voters :: nat
  tr_votes :: nat
  tr_totalWeight :: rat
  tr_eligibleVoters :: nat

record turnout_query =
  tq_from :: int
  tq_to :: int
  tq_category :: "string option"

definition in_query :: "turnout_query \<Rightarrow> turnout_daily \<Rightarrow> bool" where
  "in_query q d \<longleftrightarrow> tq_from q \<le> td_bucket d \<and> td_bucket d \<le> tq_to q \<and> (tq_category q = None \<or> tq_category q = Some (td_category d))"

definition first_bucket :: "turnout_daily list \<Rightarrow> string \<Rightarrow> int" where
  "first_bucket ds a = Min (set (map td_bucket (filter (\<lambda>d. td_account d = a) ds)))"

definition eligible_voters :: "turnout_daily list \<Rightarrow> int \<Rightarrow> nat" where
  "eligible_voters ds b = length (filter (\<lambda>a. first_bucket ds a \<le> b) (remdups (map td_account ds)))"

definition category_row :: "turnout_daily list \<Rightarrow> turnout_daily list \<Rightarrow> int \<times> string \<Rightarrow> turnout_row" where
  "category_row ds sel k =
     (let g = filter (\<lambda>d. (td_bucket d, td_category d) = k) sel in
      \<lparr>tr_bucket = fst k, tr_category = Some (snd k), tr_voters = length g, tr_votes = sum_list (map td_vote_count g),
       tr_totalWeight = sum_list (map td_weight g), tr_eligibleVoters = eligible_voters ds (fst k)\<rparr>)"

definition category_rows :: "turnout_query \<Rightarrow> turnout_daily list \<Rightarrow> turnout_row list" where
  "category_rows q ds =
     (let sel = filter (in_query q) ds in map (category_row ds sel) (sort (remdups (map (\<lambda>d. (td_bucket d, td_category d)) sel))))"

definition overall_row :: "turnout_daily list \<Rightarrow> turnout_daily list \<Rightarrow> int \<Rightarrow> turnout_row" where
  "overall_row ds sel b =
     (let g = filter (\<lambda>d. td_bucket d = b) sel in
      \<lparr>tr_bucket = b, tr_category = None, tr_voters = length (remdups (map td_account g)), tr_votes = sum_list (map td_vote_count g),
       tr_totalWeight = sum_list (map td_weight g), tr_eligibleVoters = eligible_voters ds b\<rparr>)"

definition overall_rows :: "turnout_query \<Rightarrow> turnout_daily list \<Rightarrow> turnout_row list" where
  "overall_rows q ds = (let sel = filter (in_query q) ds in map (overall_row ds sel) (sort (remdups (map td_bucket sel))))"

section \<open>The answer\<close>

record turnout_point =
  tp_date :: string
  tp_category :: "string option"
  tp_voters :: nat
  tp_votes :: nat
  tp_totalWeight :: rat
  tp_eligibleVoters :: nat
  tp_turnoutPct :: rat

definition toDateKey :: "int \<Rightarrow> string" where
  "toDateKey b = take 10 (toISOString b)"

definition toPoint :: "turnout_row \<Rightarrow> turnout_point" where
  "toPoint r = \<lparr>tp_date = toDateKey (tr_bucket r), tp_category = tr_category r, tp_voters = tr_voters r, tp_votes = tr_votes r,
     tp_totalWeight = tr_totalWeight r, tp_eligibleVoters = tr_eligibleVoters r, tp_turnoutPct = computeTurnoutPct (tr_voters r) (tr_eligibleVoters r)\<rparr>"

record category_trend =
  ct_category :: "string option"
  ct_activeDays :: nat
  ct_totalVotes :: nat
  ct_avgTurnoutPct :: rat
  ct_peakTurnoutPct :: rat
  ct_latestTurnoutPct :: rat
  ct_trend :: "trend_direction \<times> rat"

definition group_points :: "turnout_point list \<Rightarrow> (string option \<times> turnout_point list) list" where
  "group_points ps = fold (\<lambda>p g. jm_set (tp_category p) ((case jm_get g (tp_category p) of Some l \<Rightarrow> l | None \<Rightarrow> []) @ [p]) g) ps []"

definition category_summary :: "string option \<times> turnout_point list \<Rightarrow> category_trend" where
  "category_summary g =
     (let ordered = sort_key tp_date (snd g); pcts = map tp_turnoutPct ordered in
      \<lparr>ct_category = fst g, ct_activeDays = length ordered, ct_totalVotes = sum_list (map tp_votes ordered),
       ct_avgTurnoutPct = round2 (turnout_mean pcts), ct_peakTurnoutPct = Max (set pcts), ct_latestTurnoutPct = last pcts, ct_trend = computeTrend pcts\<rparr>)"

definition category_name :: "string option \<Rightarrow> string" where
  "category_name c = (case c of Some s \<Rightarrow> s | None \<Rightarrow> [])"

definition summarizeCategories :: "turnout_point list \<Rightarrow> category_trend list" where
  "summarizeCategories ps = sort_key (\<lambda>c. category_name (ct_category c)) (map category_summary (group_points ps))"

record turnout_analytics =
  ta_overall :: "turnout_point list"
  ta_byCategory :: "turnout_point list"
  ta_categories :: "category_trend list"

definition buildTurnoutAnalytics :: "turnout_row list \<Rightarrow> turnout_row list \<Rightarrow> turnout_analytics" where
  "buildTurnoutAnalytics categoryRows overallRows =
     (let byCategory = sort_key (\<lambda>p. (tp_date p, category_name (tp_category p))) (map toPoint categoryRows) in
      \<lparr>ta_overall = sort_key tp_date (map toPoint overallRows), ta_byCategory = byCategory, ta_categories = summarizeCategories byCategory\<rparr>)"

definition getTurnoutAnalytics :: "turnout_query \<Rightarrow> turnout_daily list \<Rightarrow> turnout_analytics" where
  "getTurnoutAnalytics q ds = buildTurnoutAnalytics (category_rows q ds) (overall_rows q ds)"

section \<open>Bounds\<close>

definition percent :: "rat \<Rightarrow> bool" where
  "percent x \<longleftrightarrow> 0 \<le> x \<and> x \<le> 100"

lemma fl_bounds: "0 \<le> x \<Longrightarrow> x \<le> of_int n \<Longrightarrow> \<bar>n\<bar> < 2 ^ 53 \<Longrightarrow> 0 \<le> fl x \<and> fl x \<le> of_int n"
  using fl_nonneg fl_le_int by blast

lemma percent_round2:
  assumes "percent x"
  shows "percent (round2 x)"
proof -
  have "0 \<le> jsmul x 100 \<and> jsmul x 100 \<le> of_int 10000"
    unfolding jsmul_def by (rule fl_bounds) (use assms in \<open>simp_all add: percent_def\<close>)
  then have "0 \<le> math_round (jsmul x 100)" "math_round (jsmul x 100) \<le> 10000"
    unfolding math_round_def by (simp_all add: floor_le_iff)
  then have "(of_int 0 :: rat) \<le> of_int (math_round (jsmul x 100))" "(of_int (math_round (jsmul x 100)) :: rat) \<le> of_int 10000"
    by (simp_all only: of_int_le_iff)
  then have "0 \<le> of_int (math_round (jsmul x 100)) / (100 :: rat) \<and> of_int (math_round (jsmul x 100)) / (100 :: rat) \<le> of_int 100"
    by simp
  then show ?thesis using fl_bounds [of "of_int (math_round (jsmul x 100)) / 100" 100] by (simp add: round2_def jsdiv_def percent_def)
qed

lemma percent_turnout: "percent (computeTurnoutPct voters eligible)"
proof (cases "eligible = 0")
  case False
  have "0 \<le> jsdiv (of_nat voters) (of_nat eligible)" by (simp add: jsdiv_def fl_nonneg)
  then have "percent (jsmul (min (jsdiv (of_nat voters) (of_nat eligible)) 1) 100)"
    unfolding percent_def jsmul_def using fl_bounds [of "min (jsdiv (of_nat voters) (of_nat eligible)) 1 * 100" 100] by simp
  then show ?thesis using False by (simp add: computeTurnoutPct_def percent_round2)
qed (simp add: computeTurnoutPct_def percent_def)

lemma sum_bounds:
  assumes "\<forall>x \<in> set xs. percent x" "0 \<le> s" "s \<le> of_nat (100 * k)" "100 * (k + length xs) < 2 ^ 53"
  shows "0 \<le> foldl jsadd s xs \<and> foldl jsadd s xs \<le> of_nat (100 * (k + length xs))"
  using assms
proof (induction xs arbitrary: s k)
  case (Cons x xs)
  have x: "0 \<le> x" "x \<le> 100" using Cons.prems(1) by (simp_all add: percent_def)
  have "0 \<le> s + x" "s + x \<le> of_int (int (100 * (k + 1)))" using Cons.prems(2,3) x by simp_all
  then have "0 \<le> jsadd s x \<and> jsadd s x \<le> of_nat (100 * (k + 1))"
    unfolding jsadd_def using fl_bounds [of "s + x" "int (100 * (k + 1))"] Cons.prems(4) by simp
  then show ?case using Cons.IH [of "jsadd s x" "k + 1"] Cons.prems(1,4) by simp
qed simp

lemma percent_mean:
  assumes "\<forall>x \<in> set xs. percent x" "xs \<noteq> []" "length xs < 2 ^ 46"
  shows "percent (turnout_mean xs)"
proof -
  have b: "0 \<le> js_sum xs \<and> js_sum xs \<le> of_nat (100 * length xs)"
    unfolding js_sum_def using sum_bounds [OF assms(1), of 0 0] assms(3) by simp
  have "0 < (of_nat (length xs) :: rat)" using assms(2) by simp
  then have "0 \<le> js_sum xs / of_nat (length xs)" "js_sum xs / of_nat (length xs) \<le> of_int 100" using b by (simp_all add: divide_le_eq)
  then show ?thesis using fl_bounds [of "js_sum xs / of_nat (length xs)" 100] by (simp add: turnout_mean_def jsdiv_def percent_def)
qed


section \<open>Voters and the electorate\<close>

lemma length_filter_remdups: "length (filter P (remdups xs)) = card {x \<in> set xs. P x}"
  by (simp add: distinct_length_filter Collect_conj_eq Int_commute)

lemma eligible_card: "eligible_voters ds b = card {a \<in> td_account ` set ds. first_bucket ds a \<le> b}"
  by (simp add: eligible_voters_def length_filter_remdups)

lemma accounts_eligible:
  assumes "set g \<subseteq> set ds" "\<forall>d \<in> set g. td_bucket d = b"
  shows "card (td_account ` set g) \<le> eligible_voters ds b"
proof -
  have "first_bucket ds (td_account d) \<le> b" if "d \<in> set g" for d
    using that assms by (auto simp: first_bucket_def intro!: Min_le)
  then have "td_account ` set g \<subseteq> {a \<in> td_account ` set ds. first_bucket ds a \<le> b}" using assms(1) by auto
  then show ?thesis unfolding eligible_card by (intro card_mono) auto
qed

definition one_row_each :: "turnout_daily list \<Rightarrow> bool" where
  "one_row_each ds \<longleftrightarrow> distinct (map (\<lambda>d. ((td_bucket d, td_category d), td_account d)) ds)"

lemma group_accounts:
  assumes "one_row_each ds"
  shows "length (filter (\<lambda>d. (td_bucket d, td_category d) = k) (filter P ds)) = card (td_account ` set (filter (\<lambda>d. (td_bucket d, td_category d) = k) (filter P ds)))"
proof -
  let ?g = "filter (\<lambda>d. (td_bucket d, td_category d) = k) (filter P ds)"
  have "distinct (map (\<lambda>d. ((td_bucket d, td_category d), td_account d)) ?g)"
    using assms by (simp add: one_row_each_def distinct_map_filter)
  then have "distinct (map td_account ?g)" by (auto simp: distinct_map inj_on_def)
  then show ?thesis using distinct_card [of "map td_account ?g"] by simp
qed

definition row_fine :: "turnout_row \<Rightarrow> bool" where
  "row_fine r \<longleftrightarrow> 0 < tr_voters r \<and> tr_voters r \<le> tr_eligibleVoters r"

lemma category_rows_fine:
  assumes "one_row_each ds" "r \<in> set (category_rows q ds)"
  shows "row_fine r"
proof -
  let ?sel = "filter (in_query q) ds"
  obtain d where d: "d \<in> set ?sel" "r = category_row ds ?sel (td_bucket d, td_category d)"
    using assms(2) by (auto simp: category_rows_def Let_def)
  let ?g = "filter (\<lambda>e. (td_bucket e, td_category e) = (td_bucket d, td_category d)) ?sel"
  have v: "tr_voters r = card (td_account ` set ?g)" "tr_eligibleVoters r = eligible_voters ds (td_bucket d)"
    using d(2) group_accounts [OF assms(1), of "(td_bucket d, td_category d)" "in_query q"] by (simp_all add: category_row_def Let_def)
  have "d \<in> set ?g" using d(1) by simp
  then have "0 < card (td_account ` set ?g)" by (simp add: card_gt_0_iff) blast
  moreover have "card (td_account ` set ?g) \<le> eligible_voters ds (td_bucket d)" by (rule accounts_eligible) auto
  ultimately show ?thesis using v by (simp add: row_fine_def)
qed

lemma overall_rows_fine:
  assumes "r \<in> set (overall_rows q ds)"
  shows "row_fine r"
proof -
  let ?sel = "filter (in_query q) ds"
  obtain d where d: "d \<in> set ?sel" "r = overall_row ds ?sel (td_bucket d)"
    using assms by (auto simp: overall_rows_def Let_def)
  let ?g = "filter (\<lambda>e. td_bucket e = td_bucket d) ?sel"
  have v: "tr_voters r = card (td_account ` set ?g)" "tr_eligibleVoters r = eligible_voters ds (td_bucket d)"
    using d(2) length_filter_remdups [of "\<lambda>x. True" "map td_account ?g"] by (simp_all add: overall_row_def Let_def image_def)
  have "d \<in> set ?g" using d(1) by simp
  then have "0 < card (td_account ` set ?g)" by (simp add: card_gt_0_iff) blast
  moreover have "card (td_account ` set ?g) \<le> eligible_voters ds (td_bucket d)" by (rule accounts_eligible) auto
  ultimately show ?thesis using v by (simp add: row_fine_def)
qed

lemma group_points_fine:
  assumes "(c, l) \<in> set (group_points ps)"
  shows "l \<noteq> [] \<and> set l \<subseteq> set ps \<and> length l \<le> length ps"
  using assms
proof (induction ps arbitrary: c l rule: rev_induct)
  case (snoc p ps)
  let ?g = "group_points ps"
  have step: "group_points (ps @ [p]) = jm_set (tp_category p) ((case jm_get ?g (tp_category p) of Some l \<Rightarrow> l | None \<Rightarrow> []) @ [p]) ?g"
    by (simp add: group_points_def)
  consider "(c, l) = (tp_category p, (case jm_get ?g (tp_category p) of Some l \<Rightarrow> l | None \<Rightarrow> []) @ [p])" | "(c, l) \<in> set ?g"
    using jm_set_entries [OF snoc.prems [unfolded step]] by (elim disjE)
  then show ?case
  proof cases
    case 1
    show ?thesis
    proof (cases "jm_get ?g (tp_category p)")
      case (Some l')
      then have "(tp_category p, l') \<in> set ?g" by (rule map_of_SomeD)
      from snoc.IH [OF this] show ?thesis using 1 Some by auto
    qed (use 1 in auto)
  next
    case 2
    from snoc.IH [OF 2] show ?thesis by auto
  qed
qed (simp add: group_points_def)

definition summary_fine :: "category_trend \<Rightarrow> bool" where
  "summary_fine c \<longleftrightarrow> 0 < ct_activeDays c \<and> percent (ct_avgTurnoutPct c) \<and> percent (ct_peakTurnoutPct c) \<and> percent (ct_latestTurnoutPct c)"

lemma category_summary_fine:
  assumes "l \<noteq> []" "\<forall>p \<in> set l. percent (tp_turnoutPct p)" "length l < 2 ^ 46"
  shows "summary_fine (category_summary (c, l))"
proof -
  let ?pcts = "map tp_turnoutPct (sort_key tp_date l)"
  have s: "set ?pcts = tp_turnoutPct ` set l" by simp
  have ne: "?pcts \<noteq> []" using arg_cong [OF s, of "\<lambda>A. A = {}"] assms(1) by (simp del: set_map)
  have p: "\<forall>x \<in> set ?pcts. percent x" using assms(2) by simp
  have "percent (round2 (turnout_mean ?pcts))" using percent_mean [OF p ne] assms(3) by (intro percent_round2) simp
  moreover have "Max (set ?pcts) \<in> set ?pcts" by (rule Max_in) (use ne in \<open>simp_all only: List.finite_set set_empty not_False_eq_True\<close>)
  then have "percent (Max (set ?pcts))" using p by blast
  moreover have "percent (last ?pcts)" using p ne last_in_set by blast
  ultimately show ?thesis using assms(1) by (simp add: summary_fine_def category_summary_def Let_def)
qed

text \<open>
  Every published row counts at least one voter and no more voters than are eligible, and every
  percentage that is published, of a day or of a category, lies between 0 and 100.
\<close>

theorem turnout_within_bounds:
  assumes "one_row_each ds" "length ds < 2 ^ 46"
  shows "(\<forall>p \<in> set (ta_overall (getTurnoutAnalytics q ds)) \<union> set (ta_byCategory (getTurnoutAnalytics q ds)).
      0 < tp_voters p \<and> tp_voters p \<le> tp_eligibleVoters p \<and> percent (tp_turnoutPct p))
    \<and> (\<forall>c \<in> set (ta_categories (getTurnoutAnalytics q ds)). summary_fine c)"
proof -
  let ?ps = "sort_key (\<lambda>p. (tp_date p, category_name (tp_category p))) (map toPoint (category_rows q ds))"
  have point: "0 < tp_voters (toPoint r) \<and> tp_voters (toPoint r) \<le> tp_eligibleVoters (toPoint r) \<and> percent (tp_turnoutPct (toPoint r))" if "row_fine r" for r
    using that percent_turnout by (simp add: toPoint_def row_fine_def)
  have pct: "percent (tp_turnoutPct p)" if "p \<in> set ?ps" for p using that percent_turnout by (auto simp: toPoint_def)
  have "length ?ps \<le> length (map (\<lambda>d. (td_bucket d, td_category d)) (filter (in_query q) ds))"
    unfolding category_rows_def Let_def length_map length_sort by (rule order_trans [OF length_remdups_leq]) simp
  also have "\<dots> \<le> length ds" by simp
  finally have len: "length ?ps < 2 ^ 46" using assms(2) by linarith
  have "summary_fine c" if c: "c \<in> set (summarizeCategories ?ps)" for c
  proof -
    obtain k l where g: "(k, l) \<in> set (group_points ?ps)" "c = category_summary (k, l)"
      using c by (auto simp: summarizeCategories_def)
    from group_points_fine [OF g(1)] have "l \<noteq> []" "set l \<subseteq> set ?ps" "length l < 2 ^ 46" using len by (blast, blast, linarith)
    then show ?thesis using pct unfolding g(2) by (intro category_summary_fine) blast+
  qed
  then show ?thesis using point category_rows_fine [OF assms(1)] overall_rows_fine
    by (auto simp: getTurnoutAnalytics_def buildTurnoutAnalytics_def Let_def)
qed

definition sample_votes :: "turnout_daily list" where
  "sample_votes = [\<lparr>td_bucket = 0, td_category = ''fee'', td_account = ''a'', td_vote_count = 1, td_weight = 5\<rparr>,
     \<lparr>td_bucket = 0, td_category = ''fee'', td_account = ''b'', td_vote_count = 2, td_weight = 1\<rparr>,
     \<lparr>td_bucket = 86400000, td_category = ''fee'', td_account = ''a'', td_vote_count = 1, td_weight = 5\<rparr>]"

theorem turnout_within_bounds_witness:
  "map (\<lambda>r. (tr_voters r, tr_eligibleVoters r)) (category_rows \<lparr>tq_from = 0, tq_to = 86400000, tq_category = None\<rparr> sample_votes) = [(2, 2), (1, 2)]
   \<and> (\<forall>p \<in> set (ta_byCategory (getTurnoutAnalytics \<lparr>tq_from = 0, tq_to = 86400000, tq_category = None\<rparr> sample_votes)). percent (tp_turnoutPct p))"
proof
  show "map (\<lambda>r. (tr_voters r, tr_eligibleVoters r)) (category_rows \<lparr>tq_from = 0, tq_to = 86400000, tq_category = None\<rparr> sample_votes) = [(2, 2), (1, 2)]"
    by code_simp
  have "one_row_each sample_votes" "length sample_votes < 2 ^ 46" by (simp_all add: one_row_each_def sample_votes_def)
  from turnout_within_bounds [OF this] show "\<forall>p \<in> set (ta_byCategory (getTurnoutAnalytics \<lparr>tq_from = 0, tq_to = 86400000, tq_category = None\<rparr> sample_votes)). percent (tp_turnoutPct p)"
    by blast
qed

text \<open>The witness: two stores of one ledger and a later one; between them the last weight of the first ledger counts.\<close>

theorem checkpoints_refine_map_witness:
  "map_option ck_votingWeight (getVotingPowerAtOrBeforeLedger ''g'' 15 (fold checkpoint_step
     [Store 1 \<lparr>cy_accountId = ''g'', cy_ledgerSequence = 10, cy_votingWeight = 5\<rparr>, Store 2 \<lparr>cy_accountId = ''g'', cy_ledgerSequence = 20, cy_votingWeight = 9\<rparr>,
      Store 3 \<lparr>cy_accountId = ''g'', cy_ledgerSequence = 10, cy_votingWeight = 7\<rparr>] [])) = Some 7
   \<and> powers (fold checkpoint_step [Store 1 \<lparr>cy_accountId = ''g'', cy_ledgerSequence = 10, cy_votingWeight = 5\<rparr>] []) (''g'', 10) = Some (5, 1)"
proof
  show "powers (fold checkpoint_step [Store 1 \<lparr>cy_accountId = ''g'', cy_ledgerSequence = 10, cy_votingWeight = 5\<rparr>] []) (''g'', 10) = Some (5, 1)"
    using checkpoints_refine_map [of "[Store 1 \<lparr>cy_accountId = ''g'', cy_ledgerSequence = 10, cy_votingWeight = 5\<rparr>]"]
      weight_column_whole [of 5]
    by (simp add: power_store_def Let_def)
qed code_simp

end
