(* ===== verification/SystemicRisk.thy ===== *)
theory SystemicRisk
  imports JSText
begin

text \<open>
  \<open>src/services/systemicRiskService.ts\<close>: the collateral of all active vaults is compared with their debt,
  the quotient is a danger level, and a critical level raises a proposal to adjust parameters, at most
  one per cooldown.  An evaluation is cut at its two calls, reading the vaults and submitting the
  proposal.  A number that is not finite is \<open>None\<close>; one of \<open>2 ^ 1024\<close> or more stands for infinity.

  The lemmas show that the level is that of the exact quotient for whole amounts, and that proposals of
  one breach are apart by the cooldown as long as evaluations do not overlap.
\<close>

section \<open>Vaults\<close>

record asset_position =
  ap_asset :: string
  ap_amount :: "rat option"
  ap_priceUsd :: "rat option"

record risk_vault =
  rv_vaultId :: string
  rv_active :: "bool option"
  rv_collateral :: "asset_position list"
  rv_debt :: "asset_position list"

datatype risk_level = NORMAL | ELEVATED | CRITICAL

record policy_entry =
  pe_parameter :: string
  pe_currentValue :: "rat option"
  pe_proposedMultiplier :: "rat option"

record risk_config =
  rc_triggerThreshold :: rat
  rc_elevatedThreshold :: rat
  rc_proposalCooldownMs :: int
  rc_parameterPolicy :: "policy_entry list"

datatype risk_error = Not_positive string | Not_nonnegative string | Elevated_not_greater | No_parameter_name | No_vault_id | Source_failure string

definition INFINITE :: rat where "INFINITE = 2 ^ 1024"

definition assertPositiveFinite :: "rat option \<Rightarrow> string \<Rightarrow> (risk_error, rat) result" where
  "assertPositiveFinite v field = (case v of Some x \<Rightarrow> if \<bar>x\<bar> \<ge> INFINITE \<or> x \<le> 0 then Inl (Not_positive field) else Inr x | None \<Rightarrow> Inl (Not_positive field))"

definition assertFiniteNonNegative :: "rat option \<Rightarrow> string \<Rightarrow> (risk_error, rat) result" where
  "assertFiniteNonNegative v field = (case v of Some x \<Rightarrow> if \<bar>x\<bar> \<ge> INFINITE \<or> x < 0 then Inl (Not_nonnegative field) else Inr x | None \<Rightarrow> Inl (Not_nonnegative field))"

section \<open>Configuration\<close>

definition DEFAULT_SYSTEMIC_RISK_TRIGGER_THRESHOLD :: rat where "DEFAULT_SYSTEMIC_RISK_TRIGGER_THRESHOLD = 5 / 4"
definition DEFAULT_SYSTEMIC_RISK_ELEVATED_THRESHOLD :: rat where "DEFAULT_SYSTEMIC_RISK_ELEVATED_THRESHOLD = 3 / 2"
definition DEFAULT_RISK_PROPOSAL_COOLDOWN_MS :: int where "DEFAULT_RISK_PROPOSAL_COOLDOWN_MS = 15 * 60 * 1000"

definition DEFAULT_RISK_PARAMETER_POLICY :: "policy_entry list" where
  "DEFAULT_RISK_PARAMETER_POLICY =
     [\<lparr>pe_parameter = ''maxLoanToValueRatio'', pe_currentValue = Some (fl (8 / 10)), pe_proposedMultiplier = Some (fl (9 / 10))\<rparr>,
      \<lparr>pe_parameter = ''liquidationThreshold'', pe_currentValue = Some (fl (11 / 10)), pe_proposedMultiplier = Some (fl (11 / 10))\<rparr>]"

fun check_policy :: "policy_entry list \<Rightarrow> (risk_error, unit) result" where
  "check_policy [] = Inr ()"
| "check_policy (e # es) =
     (if pe_parameter e = [] then Inl No_parameter_name
      else rbind (assertPositiveFinite (pe_currentValue e) (''parameterPolicy.'' @ pe_parameter e @ ''.currentValue'')) (\<lambda>_.
        rbind (assertPositiveFinite (pe_proposedMultiplier e) (''parameterPolicy.'' @ pe_parameter e @ ''.proposedMultiplier'')) (\<lambda>_. check_policy es)))"

text \<open>The constructor; an option that is left out is the default, one that is not a finite number is \<open>Some None\<close>.\<close>

definition new_risk_service :: "rat option option \<Rightarrow> rat option option \<Rightarrow> int option \<Rightarrow> policy_entry list option \<Rightarrow> (risk_error, risk_config) result" where
  "new_risk_service trigger elevated cooldown policy =
     rbind (assertPositiveFinite (case trigger of Some t \<Rightarrow> t | None \<Rightarrow> Some DEFAULT_SYSTEMIC_RISK_TRIGGER_THRESHOLD) ''triggerThreshold'') (\<lambda>t.
     rbind (assertPositiveFinite (case elevated of Some t \<Rightarrow> t | None \<Rightarrow> Some DEFAULT_SYSTEMIC_RISK_ELEVATED_THRESHOLD) ''elevatedThreshold'') (\<lambda>el.
     if el \<le> t then Inl Elevated_not_greater
     else let cd = (case cooldown of Some c \<Rightarrow> c | None \<Rightarrow> DEFAULT_RISK_PROPOSAL_COOLDOWN_MS);
              pol = (case policy of Some p \<Rightarrow> p | None \<Rightarrow> DEFAULT_RISK_PARAMETER_POLICY) in
       rbind (assertFiniteNonNegative (Some (of_int cd)) ''proposalCooldownMs'') (\<lambda>_.
       rbind (check_policy pol) (\<lambda>_.
       Inr \<lparr>rc_triggerThreshold = t, rc_elevatedThreshold = el, rc_proposalCooldownMs = cd, rc_parameterPolicy = pol\<rparr>))))"

section \<open>The score\<close>

definition calculateSystemicRiskScore :: "rat \<Rightarrow> rat \<Rightarrow> (risk_error, rat option) result" where
  "calculateSystemicRiskScore collateral debt =
     rbind (assertFiniteNonNegative (Some collateral) ''totalCollateralValueUsd'') (\<lambda>_.
     rbind (assertFiniteNonNegative (Some debt) ''totalDebtValueUsd'') (\<lambda>_.
     Inr (if debt = 0 then None else Some (jsdiv collateral debt))))"

definition classifyDangerLevel :: "risk_config \<Rightarrow> rat option \<Rightarrow> risk_level" where
  "classifyDangerLevel cfg score = (case score of
      None \<Rightarrow> NORMAL
    | Some s \<Rightarrow> if s < rc_triggerThreshold cfg then CRITICAL else if s < rc_elevatedThreshold cfg then ELEVATED else NORMAL)"

definition position_label :: "string \<Rightarrow> string \<Rightarrow> asset_position \<Rightarrow> string" where
  "position_label vaultId side p = vaultId @ ''.'' @ side @ ''.'' @ (if ap_asset p = [] then ''unknown'' else ap_asset p)"

fun valuePositions :: "string \<Rightarrow> string \<Rightarrow> rat \<Rightarrow> asset_position list \<Rightarrow> (risk_error, rat) result" where
  "valuePositions vaultId side acc [] = Inr acc"
| "valuePositions vaultId side acc (p # ps) =
     rbind (assertFiniteNonNegative (ap_amount p) (position_label vaultId side p @ ''.amount'')) (\<lambda>amount.
     if amount = 0 then valuePositions vaultId side acc ps
     else rbind (assertPositiveFinite (ap_priceUsd p) (position_label vaultId side p @ ''.priceUsd'')) (\<lambda>price.
       rbind (assertFiniteNonNegative (Some (jsadd acc (jsmul amount price))) (position_label vaultId side p @ ''.value'')) (\<lambda>acc'.
       valuePositions vaultId side acc' ps)))"

record risk_totals =
  rt_collateral :: rat
  rt_debt :: rat
  rt_active :: nat
  rt_excluded :: nat

fun aggregateVaults :: "risk_totals \<Rightarrow> risk_vault list \<Rightarrow> (risk_error, risk_totals) result" where
  "aggregateVaults t [] = Inr t"
| "aggregateVaults t (v # vs) =
     (if rv_vaultId v = [] then Inl No_vault_id
      else if rv_active v = Some False then aggregateVaults (t\<lparr>rt_excluded := rt_excluded t + 1\<rparr>) vs
      else rbind (valuePositions (rv_vaultId v) ''collateral'' 0 (rv_collateral v)) (\<lambda>c.
        rbind (valuePositions (rv_vaultId v) ''debt'' 0 (rv_debt v)) (\<lambda>d.
        aggregateVaults (t\<lparr>rt_collateral := jsadd (rt_collateral t) c, rt_debt := jsadd (rt_debt t) d, rt_active := rt_active t + 1\<rparr>) vs)))"

definition no_totals :: risk_totals where
  "no_totals = \<lparr>rt_collateral = 0, rt_debt = 0, rt_active = 0, rt_excluded = 0\<rparr>"

section \<open>Evaluations\<close>

record adjustment =
  ad_parameter :: string
  ad_currentValue :: "rat option"
  ad_proposedValue :: rat

text \<open>A proposal; its identifier, title and reason, which are texts made of the same values, are left out.\<close>

record risk_proposal =
  rp_dangerLevel :: risk_level
  rp_score :: rat
  rp_triggerThreshold :: rat
  rp_adjustments :: "adjustment list"
  rp_createdAt :: int

text \<open>\<open>Number(value.toFixed(6))\<close> for a positive value.\<close>

definition roundTo6 :: "rat \<Rightarrow> rat" where
  "roundTo6 x = fl (of_int \<lfloor>1000000 * x + 1/2\<rfloor> / 1000000)"

definition buildProposal :: "risk_config \<Rightarrow> rat \<Rightarrow> int \<Rightarrow> risk_proposal" where
  "buildProposal cfg score now = \<lparr>rp_dangerLevel = CRITICAL, rp_score = score, rp_triggerThreshold = rc_triggerThreshold cfg,
     rp_adjustments = map (\<lambda>e. \<lparr>ad_parameter = pe_parameter e, ad_currentValue = pe_currentValue e,
       ad_proposedValue = (case (pe_currentValue e, pe_proposedMultiplier e) of (Some c, Some k) \<Rightarrow> roundTo6 (jsmul c k) | _ \<Rightarrow> 0)\<rparr>) (rc_parameterPolicy cfg),
     rp_createdAt = now\<rparr>"

record risk_snapshot =
  rs_score :: "rat option"
  rs_level :: risk_level
  rs_totals :: risk_totals
  rs_proposal :: "risk_proposal option"
  rs_proposalError :: "string option"
  rs_evaluatedAt :: int

record risk_state =
  rk_insideCriticalBreach :: bool
  rk_lastProposalAtMs :: "int option"
  rk_lastSnapshot :: "risk_snapshot option"

definition shouldTriggerProposal :: "risk_config \<Rightarrow> int \<Rightarrow> risk_state \<Rightarrow> bool" where
  "shouldTriggerProposal cfg now s \<longleftrightarrow> \<not> rk_insideCriticalBreach s
     \<or> (case rk_lastProposalAtMs s of None \<Rightarrow> True | Some t \<Rightarrow> now - t \<ge> rc_proposalCooldownMs cfg)"

text \<open>An evaluation that waits for the sink, with what it has computed.\<close>

record waiting =
  wt_score :: rat
  wt_totals :: risk_totals
  wt_now :: int

datatype evaluated = Eval_throws risk_error | Eval_done risk_snapshot | Eval_submits risk_proposal waiting

text \<open>Up to the call of the sink, or to the end when there is none; \<open>sink\<close> says whether one was configured.\<close>

definition evaluate_vaults ::
  "risk_config \<Rightarrow> bool \<Rightarrow> int \<Rightarrow> (risk_error, risk_vault list) result \<Rightarrow> risk_state \<Rightarrow> evaluated \<times> risk_state" where
  "evaluate_vaults cfg sink now vaults s =
     (case rbind vaults (\<lambda>vs. rbind (aggregateVaults no_totals vs) (\<lambda>t. rbind (calculateSystemicRiskScore (rt_collateral t) (rt_debt t)) (\<lambda>sc. Inr (t, sc)))) of
        Inl e \<Rightarrow> (Eval_throws e, s)
      | Inr (t, sc) \<Rightarrow>
          (let level = classifyDangerLevel cfg sc;
               snap = \<lparr>rs_score = sc, rs_level = level, rs_totals = t, rs_proposal = None, rs_proposalError = None, rs_evaluatedAt = now\<rparr> in
           case sc of
             Some score \<Rightarrow>
               if level = CRITICAL then
                 if sink \<and> shouldTriggerProposal cfg now s
                 then (Eval_submits (buildProposal cfg score now) \<lparr>wt_score = score, wt_totals = t, wt_now = now\<rparr>, s)
                 else (Eval_done snap, s\<lparr>rk_insideCriticalBreach := True, rk_lastSnapshot := Some snap\<rparr>)
               else (Eval_done snap, s\<lparr>rk_insideCriticalBreach := False, rk_lastProposalAtMs := None, rk_lastSnapshot := Some snap\<rparr>)
           | None \<Rightarrow> (Eval_done snap, s\<lparr>rk_insideCriticalBreach := False, rk_lastProposalAtMs := None, rk_lastSnapshot := Some snap\<rparr>)))"

text \<open>After the sink has accepted the proposal or failed with a message.\<close>

definition evaluate_submitted :: "risk_config \<Rightarrow> string option \<Rightarrow> waiting \<Rightarrow> risk_state \<Rightarrow> risk_snapshot \<times> risk_state" where
  "evaluate_submitted cfg failure w s =
     (let snap = \<lparr>rs_score = Some (wt_score w), rs_level = CRITICAL, rs_totals = wt_totals w,
            rs_proposal = (if failure = None then Some (buildProposal cfg (wt_score w) (wt_now w)) else None),
            rs_proposalError = failure, rs_evaluatedAt = wt_now w\<rparr> in
      (snap, s\<lparr>rk_insideCriticalBreach := True, rk_lastProposalAtMs := (if failure = None then Some (wt_now w) else rk_lastProposalAtMs s), rk_lastSnapshot := Some snap\<rparr>))"

text \<open>An evaluation on its own.\<close>

definition evaluate_alone ::
  "risk_config \<Rightarrow> bool \<Rightarrow> int \<Rightarrow> (risk_error, risk_vault list) result \<Rightarrow> string option \<Rightarrow> risk_state \<Rightarrow> (risk_error, risk_snapshot) result \<times> risk_state" where
  "evaluate_alone cfg sink now vaults failure s = (case evaluate_vaults cfg sink now vaults s of
      (Eval_throws e, s') \<Rightarrow> (Inl e, s')
    | (Eval_done snap, s') \<Rightarrow> (Inr snap, s')
    | (Eval_submits p w, s') \<Rightarrow> (case evaluate_submitted cfg failure w s' of (snap, s'') \<Rightarrow> (Inr snap, s'')))"

type_synonym risk_input = "int \<times> (risk_error, risk_vault list) result \<times> string option"

fun risk_run :: "risk_config \<Rightarrow> bool \<Rightarrow> risk_input list \<Rightarrow> risk_state \<Rightarrow> risk_snapshot list \<times> risk_state" where
  "risk_run cfg sink [] s = ([], s)"
| "risk_run cfg sink ((now, vaults, failure) # is) s =
     (case evaluate_alone cfg sink now vaults failure s of (r, s') \<Rightarrow>
        case risk_run cfg sink is s' of (snaps, s'') \<Rightarrow> (case r of Inl _ \<Rightarrow> snaps | Inr snap \<Rightarrow> snap # snaps, s''))"

definition new_risk_state :: risk_state where
  "new_risk_state = \<lparr>rk_insideCriticalBreach = False, rk_lastProposalAtMs = None, rk_lastSnapshot = None\<rparr>"

section \<open>Whole amounts\<close>

text \<open>A position whose amount and price are whole numbers, and its worth.\<close>

definition whole_position :: "asset_position \<Rightarrow> bool" where
  "whole_position p \<longleftrightarrow> (\<exists>a q. ap_amount p = Some (of_nat a) \<and> (a = 0 \<or> 0 < q \<and> ap_priceUsd p = Some (of_nat q)))"

definition worth :: "asset_position \<Rightarrow> nat" where
  "worth p = (case (ap_amount p, ap_priceUsd p) of (Some a, Some q) \<Rightarrow> nat \<lfloor>a * q\<rfloor> | _ \<Rightarrow> 0)"

lemma below_infinite: "n < 2 ^ 53 \<Longrightarrow> \<bar>of_nat n :: rat\<bar> < INFINITE"
proof -
  assume n: "n < 2 ^ 53"
  have "(of_nat n :: rat) < of_nat (2 ^ 53)" using n by (simp only: of_nat_less_iff)
  also have "\<dots> \<le> INFINITE" unfolding INFINITE_def of_nat_power of_nat_numeral by (rule power_increasing) simp_all
  finally show ?thesis by simp
qed

lemma nonneg_ok: "n < 2 ^ 53 \<Longrightarrow> assertFiniteNonNegative (Some (of_nat n)) f = Inr (of_nat n)"
  using below_infinite [of n] by (simp add: assertFiniteNonNegative_def)

lemma positive_ok: "0 < n \<Longrightarrow> n < 2 ^ 53 \<Longrightarrow> assertPositiveFinite (Some (of_nat n)) f = Inr (of_nat n)"
  using below_infinite [of n] by (simp add: assertPositiveFinite_def)

lemma jsadd_of_nat: "a + b < 2 ^ 53 \<Longrightarrow> jsadd (of_nat a) (of_nat b) = of_nat (a + b)"
  using fl_of_nat [of "a + b"] by (simp add: jsadd_def)

lemma jsmul_of_nat: "a * b < 2 ^ 53 \<Longrightarrow> jsmul (of_nat a) (of_nat b) = of_nat (a * b)"
  using fl_of_nat [of "a * b"] by (simp add: jsmul_def)

lemma valuePositions_exact:
  assumes "\<forall>p \<in> set ps. whole_position p" "n + sum_list (map worth ps) < 2 ^ 53"
  shows "valuePositions v side (of_nat n) ps = Inr (of_nat (n + sum_list (map worth ps)))"
  using assms
proof (induction ps arbitrary: n)
  case (Cons p ps)
  obtain a q where aq: "ap_amount p = Some (of_nat a)" "a = 0 \<or> 0 < q \<and> ap_priceUsd p = Some (of_nat q)"
    using Cons.prems(1) by (auto simp: whole_position_def)
  show ?case
  proof (cases "a = 0")
    case True
    then have "worth p = 0" using aq(1) by (simp add: worth_def split: option.splits)
    then show ?thesis using Cons True aq(1) nonneg_ok [of 0] by simp
  next
    case False
    then have q: "0 < q" "ap_priceUsd p = Some (of_nat q)" using aq(2) by auto
    have w: "worth p = a * q" using aq(1) q(2) by (simp add: worth_def flip: of_nat_mult)
    have b: "n + a * q < 2 ^ 53" "a * q < 2 ^ 53" using Cons.prems(2) w by simp_all
    have "a \<le> a * q" "q \<le> a * q" using False q(1) by simp_all
    then have l: "a < 2 ^ 53" "q < 2 ^ 53" using b(2) by linarith+
    show ?thesis
      using Cons False aq(1) q w nonneg_ok [OF l(1)] positive_ok [OF q(1) l(2)] nonneg_ok [OF b(1)] jsmul_of_nat [OF b(2)] jsadd_of_nat [OF b(1)]
      by (simp del: of_nat_add of_nat_mult add: add.assoc)
  qed
qed simp

definition vault_whole :: "risk_vault \<Rightarrow> bool" where
  "vault_whole v \<longleftrightarrow> rv_vaultId v \<noteq> [] \<and> (\<forall>p \<in> set (rv_collateral v) \<union> set (rv_debt v). whole_position p)"

text \<open>The exact sums over the vaults that are not inactive.\<close>

definition exact_total :: "(risk_vault \<Rightarrow> asset_position list) \<Rightarrow> risk_vault list \<Rightarrow> nat" where
  "exact_total side vs = (\<Sum>v\<leftarrow>filter (\<lambda>v. rv_active v \<noteq> Some False) vs. sum_list (map worth (side v)))"

lemma aggregateVaults_exact:
  assumes "\<forall>v \<in> set vs. vault_whole v" "rt_collateral t = of_nat c" "rt_debt t = of_nat d"
    and "c + exact_total rv_collateral vs < 2 ^ 53" "d + exact_total rv_debt vs < 2 ^ 53"
  shows "\<exists>t'. aggregateVaults t vs = Inr t' \<and> rt_collateral t' = of_nat (c + exact_total rv_collateral vs) \<and> rt_debt t' = of_nat (d + exact_total rv_debt vs)"
  using assms
proof (induction vs arbitrary: t c d)
  case (Cons v vs)
  have v: "rv_vaultId v \<noteq> []" "\<forall>p \<in> set (rv_collateral v). whole_position p" "\<forall>p \<in> set (rv_debt v). whole_position p"
    using Cons.prems(1) by (auto simp: vault_whole_def)
  show ?case
  proof (cases "rv_active v = Some False")
    case True
    then show ?thesis using Cons.IH [of "t\<lparr>rt_excluded := rt_excluded t + 1\<rparr>" c d] Cons.prems v(1) by (simp add: exact_total_def)
  next
    case False
    let ?c = "sum_list (map worth (rv_collateral v))" let ?d = "sum_list (map worth (rv_debt v))"
    have e: "exact_total rv_collateral (v # vs) = ?c + exact_total rv_collateral vs" "exact_total rv_debt (v # vs) = ?d + exact_total rv_debt vs"
      using False by (simp_all add: exact_total_def)
    have b: "c + ?c < 2 ^ 53" "d + ?d < 2 ^ 53" using Cons.prems(4,5) e by linarith+
    have "valuePositions (rv_vaultId v) ''collateral'' 0 (rv_collateral v) = Inr (of_nat ?c)" "valuePositions (rv_vaultId v) ''debt'' 0 (rv_debt v) = Inr (of_nat ?d)"
      using valuePositions_exact [OF v(2), of 0] valuePositions_exact [OF v(3), of 0] b by simp_all
    then show ?thesis
      using Cons.IH [of "t\<lparr>rt_collateral := of_nat (c + ?c), rt_debt := of_nat (d + ?d), rt_active := rt_active t + 1\<rparr>" "c + ?c" "d + ?d"]
        Cons.prems False v(1) e jsadd_of_nat [OF b(1)] jsadd_of_nat [OF b(2)]
      by (simp del: of_nat_add add: add.assoc)
  qed
qed (simp add: exact_total_def)

text \<open>The quotient is compared exactly with a threshold of at most 52 binary digits.\<close>

lemma fl_quotient_less:
  assumes "0 < d" "d \<le> 2 ^ 50" "k * d > n * 2 ^ j" "0 < k" "k * 2 ^ (52 - j) < 2 ^ 53" "j \<le> 2"
  shows "fl (of_nat n / of_nat d) < of_nat k / 2 ^ j"
proof -
  let ?m = "k * 2 ^ (52 - j) - 1"
  have p: "(2::nat) ^ 52 = 2 ^ j * 2 ^ (52 - j)" using assms(6) by (simp flip: power_add)
  have "n * 2 ^ j + 1 \<le> k * d" using assms(3) by simp
  then have "(n * 2 ^ j + 1) * 2 ^ (52 - j) \<le> k * d * 2 ^ (52 - j)" by (rule mult_right_mono) simp
  moreover have "(2::nat) ^ 50 \<le> 2 ^ (52 - j)" by (rule power_increasing) (use assms(6) in auto)
  then have "d \<le> 2 ^ (52 - j)" by (rule le_trans [OF assms(2)])
  ultimately have "n * (2 ^ j * 2 ^ (52 - j)) + d \<le> k * d * 2 ^ (52 - j)" by (simp add: algebra_simps)
  then have "n * 2 ^ 52 + d \<le> k * d * 2 ^ (52 - j)" by (simp only: p)
  then have "n * 2 ^ 52 \<le> ?m * d" by (simp add: diff_mult_distrib algebra_simps)
  then have "(of_nat (n * 2 ^ 52) :: rat) \<le> of_nat (?m * d)" by (simp only: of_nat_le_iff)
  then have "(of_nat n / of_nat d :: rat) \<le> of_nat ?m / 2 ^ 52" using assms(1) by (simp add: field_simps)
  then have "fl (of_nat n / of_nat d) \<le> fl (of_nat ?m / 2 ^ 52)" by (rule fl_mono)
  also have "\<dots> = of_nat ?m / 2 ^ 52" by (rule fl_div_pow2) (use assms(5) in simp)
  also have "\<dots> < of_nat (k * 2 ^ (52 - j)) / 2 ^ 52" using assms(4) by (simp add: divide_strict_right_mono)
  also have "\<dots> = of_nat k / (2 ^ j :: rat)"
  proof -
    have q: "(2::rat) ^ 52 = 2 ^ j * 2 ^ (52 - j)" using assms(6) by (simp flip: power_add)
    show ?thesis unfolding q by simp
  qed
  finally show ?thesis .
qed

lemma fl_quotient_ge:
  assumes "0 < d" "k * d \<le> n * 2 ^ j" "k < 2 ^ 53"
  shows "of_nat k / 2 ^ j \<le> fl (of_nat n / of_nat d)"
proof -
  have "(of_nat (k * d) :: rat) \<le> of_nat (n * 2 ^ j)" using assms(2) by (simp only: of_nat_le_iff)
  then have "(of_nat k / 2 ^ j :: rat) \<le> of_nat n / of_nat d" using assms(1) by (simp add: field_simps)
  then have "fl (of_nat k / 2 ^ j) \<le> fl (of_nat n / of_nat d)" by (rule fl_mono)
  then show ?thesis using fl_div_pow2 [OF assms(3), of j] by simp
qed

lemma quotient_below:
  assumes "0 < d" "d \<le> 2 ^ 50" "0 < k" "k * 2 ^ (52 - j) < 2 ^ 53" "j \<le> 2" "k < 2 ^ 53"
  shows "jsdiv (of_nat n) (of_nat d) < of_nat k / 2 ^ j \<longleftrightarrow> n * 2 ^ j < k * d"
proof (cases "n * 2 ^ j < k * d")
  case True
  then show ?thesis using fl_quotient_less [OF assms(1,2) _ assms(3,4,5), of n] by (simp add: jsdiv_def)
next
  case False
  then have "of_nat k / 2 ^ j \<le> fl (of_nat n / of_nat d)" by (intro fl_quotient_ge [OF assms(1) _ assms(6)]) simp
  then show ?thesis using False by (simp add: jsdiv_def)
qed

lemma score_of_nat:
  assumes "c < 2 ^ 53" "d < 2 ^ 53"
  shows "calculateSystemicRiskScore (of_nat c) (of_nat d) = Inr (if d = 0 then None else Some (jsdiv (of_nat c) (of_nat d)))"
  using nonneg_ok [OF assms(1)] nonneg_ok [OF assms(2)] by (simp add: calculateSystemicRiskScore_def)

definition default_config :: risk_config where
  "default_config = \<lparr>rc_triggerThreshold = DEFAULT_SYSTEMIC_RISK_TRIGGER_THRESHOLD, rc_elevatedThreshold = DEFAULT_SYSTEMIC_RISK_ELEVATED_THRESHOLD,
     rc_proposalCooldownMs = DEFAULT_RISK_PROPOSAL_COOLDOWN_MS, rc_parameterPolicy = DEFAULT_RISK_PARAMETER_POLICY\<rparr>"

lemma classify_exact:
  assumes "d \<le> 2 ^ 50"
  shows "classifyDangerLevel default_config (if d = 0 then None else Some (jsdiv (of_nat c) (of_nat d)))
    = (if 4 * c < 5 * d then CRITICAL else if 2 * c < 3 * d then ELEVATED else NORMAL)"
proof (cases "d = 0")
  case False
  then have "jsdiv (of_nat c) (of_nat d) < 5 / 4 \<longleftrightarrow> 4 * c < 5 * d" "jsdiv (of_nat c) (of_nat d) < 3 / 2 \<longleftrightarrow> 2 * c < 3 * d"
    using quotient_below [OF _ assms, of 5 2 c] quotient_below [OF _ assms, of 3 1 c] by (simp_all add: mult.commute)
  then show ?thesis using False
    by (simp add: classifyDangerLevel_def default_config_def DEFAULT_SYSTEMIC_RISK_TRIGGER_THRESHOLD_def DEFAULT_SYSTEMIC_RISK_ELEVATED_THRESHOLD_def)
qed (simp add: classifyDangerLevel_def)

text \<open>
  C24. For whole amounts and prices and the default thresholds an evaluation publishes the level of the
  exact quotient of collateral and debt over the active vaults, although it adds and divides in
  double precision.
\<close>

theorem danger_level_exact:
  assumes "\<forall>v \<in> set vs. vault_whole v" "exact_total rv_collateral vs < 2 ^ 53" "exact_total rv_debt vs \<le> 2 ^ 50"
    and "evaluate_alone default_config sink now (Inr vs) failure s = (r, s')"
  shows "\<exists>snap. r = Inr snap \<and> rs_level snap =
    (if 4 * exact_total rv_collateral vs < 5 * exact_total rv_debt vs then CRITICAL
     else if 2 * exact_total rv_collateral vs < 3 * exact_total rv_debt vs then ELEVATED else NORMAL)"
proof -
  let ?c = "exact_total rv_collateral vs" let ?d = "exact_total rv_debt vs"
  have b: "?d < 2 ^ 53" using assms(3) by (rule le_less_trans) simp
  obtain t where t: "aggregateVaults no_totals vs = Inr t" "rt_collateral t = of_nat ?c" "rt_debt t = of_nat ?d"
    using aggregateVaults_exact [OF assms(1), of no_totals 0 0] assms(2) b by (auto simp: no_totals_def)
  have "calculateSystemicRiskScore (rt_collateral t) (rt_debt t) = Inr (if ?d = 0 then None else Some (jsdiv (of_nat ?c) (of_nat ?d)))"
    using score_of_nat [OF assms(2) b] t by simp
  then show ?thesis using assms(4) t(1) classify_exact [OF assms(3), of ?c]
    by (auto simp: evaluate_alone_def evaluate_vaults_def evaluate_submitted_def Let_def split: if_splits)
qed

section \<open>The cooldown\<close>

text \<open>Proposals of one breach are apart; a snapshot that is not critical ends the breach.\<close>

fun breach_spaced :: "int \<Rightarrow> int option \<Rightarrow> risk_snapshot list \<Rightarrow> bool" where
  "breach_spaced cd prev [] = True"
| "breach_spaced cd prev (x # xs) =
     (if rs_level x \<noteq> CRITICAL then breach_spaced cd None xs
      else if rs_proposal x = None then breach_spaced cd prev xs
      else (case prev of None \<Rightarrow> True | Some t \<Rightarrow> cd \<le> rs_evaluatedAt x - t) \<and> breach_spaced cd (Some (rs_evaluatedAt x)) xs)"

definition breach_ok :: "risk_state \<Rightarrow> bool" where
  "breach_ok s \<longleftrightarrow> rk_insideCriticalBreach s \<or> rk_lastProposalAtMs s = None"

text \<open>What an evaluation does to the state and publishes.\<close>

lemma evaluate_alone_effect:
  assumes "evaluate_alone cfg sink now vaults failure s = (r, s')" "breach_ok s"
  shows "breach_ok s' \<and> (case r of
      Inl e \<Rightarrow> s' = s
    | Inr x \<Rightarrow> rs_evaluatedAt x = now \<and>
        (if rs_level x \<noteq> CRITICAL then rk_lastProposalAtMs s' = None \<and> rs_proposal x = None
         else if rs_proposal x = None then rk_lastProposalAtMs s' = rk_lastProposalAtMs s
         else rk_lastProposalAtMs s' = Some now \<and> (case rk_lastProposalAtMs s of None \<Rightarrow> True | Some t \<Rightarrow> rc_proposalCooldownMs cfg \<le> now - t)))"
  using assms
  by (auto simp: evaluate_alone_def evaluate_vaults_def evaluate_submitted_def breach_ok_def shouldTriggerProposal_def classifyDangerLevel_def Let_def
      split: sum.splits option.splits if_splits)

lemma risk_run_spaced:
  "breach_ok s \<Longrightarrow> breach_spaced (rc_proposalCooldownMs cfg) (rk_lastProposalAtMs s) (fst (risk_run cfg sink is s))"
proof (induction "is" arbitrary: s)
  case (Cons i "is")
  obtain now vaults failure where i: "i = (now, vaults, failure)" by (cases i)
  obtain r s1 where e: "evaluate_alone cfg sink now vaults failure s = (r, s1)" by (cases "evaluate_alone cfg sink now vaults failure s")
  note eff = evaluate_alone_effect [OF e Cons.prems]
  have IH: "breach_spaced (rc_proposalCooldownMs cfg) (rk_lastProposalAtMs s1) (fst (risk_run cfg sink is s1))" using Cons.IH eff by blast
  show ?case using eff IH i e by (auto simp: case_prod_unfold split: sum.splits if_splits)
qed simp

lemma breach_spaced_nth:
  assumes "breach_spaced cd prev xs" "0 \<le> cd" "prev = Some t" "j < length xs" "rs_proposal (xs ! j) \<noteq> None" "\<forall>k \<le> j. rs_level (xs ! k) = CRITICAL"
  shows "cd \<le> rs_evaluatedAt (xs ! j) - t"
  using assms
proof (induction xs arbitrary: prev t j)
  case (Cons x xs)
  have x: "rs_level x = CRITICAL" using Cons.prems(6) by auto
  show ?case
  proof (cases j)
    case (Suc i)
    have l: "\<forall>k \<le> i. rs_level (xs ! k) = CRITICAL" using Cons.prems(6) Suc by auto
    show ?thesis
    proof (cases "rs_proposal x")
      case None
      then show ?thesis using Cons.IH [of prev t i] Cons.prems Suc x l by simp
    next
      case (Some p)
      then have "cd \<le> rs_evaluatedAt (xs ! i) - rs_evaluatedAt x" "cd \<le> rs_evaluatedAt x - t"
        using Cons.IH [of "Some (rs_evaluatedAt x)" "rs_evaluatedAt x" i] Cons.prems Suc x l by simp_all
      then show ?thesis using Suc Cons.prems(2) by simp
    qed
  qed (use Cons.prems x in auto)
qed simp

lemma breach_spaced_pair:
  assumes "breach_spaced cd prev xs" "0 \<le> cd" "i < j" "j < length xs" "rs_proposal (xs ! i) \<noteq> None" "rs_proposal (xs ! j) \<noteq> None"
    and "\<forall>k. i \<le> k \<and> k \<le> j \<longrightarrow> rs_level (xs ! k) = CRITICAL"
  shows "cd \<le> rs_evaluatedAt (xs ! j) - rs_evaluatedAt (xs ! i)"
  using assms
proof (induction xs arbitrary: prev i j)
  case (Cons x xs)
  obtain j' where j: "j = Suc j'" using Cons.prems(3) by (cases j) auto
  show ?case
  proof (cases i)
    case 0
    have x: "rs_level x = CRITICAL" "rs_proposal x \<noteq> None" using Cons.prems(3,5,7) 0 by auto
    have l: "\<forall>k \<le> j'. rs_level (xs ! k) = CRITICAL" using Cons.prems(7) 0 j by auto
    show ?thesis using breach_spaced_nth [of cd "Some (rs_evaluatedAt x)" xs "rs_evaluatedAt x" j'] Cons.prems x l 0 j by auto
  next
    case (Suc i')
    have l: "\<forall>k. i' \<le> k \<and> k \<le> j' \<longrightarrow> rs_level (xs ! k) = CRITICAL" using Cons.prems(7) Suc j by auto
    obtain prev' where "breach_spaced cd prev' xs" using Cons.prems(1) by (auto split: if_splits)
    from Cons.IH [OF this Cons.prems(2), of i' j'] show ?thesis using Cons.prems l Suc j by auto
  qed
qed simp

text \<open>
  When evaluations do not overlap, two proposals with only critical evaluations between them are
  apart by the cooldown, whatever the source and the sink answer.
\<close>

theorem breach_proposals_apart:
  assumes "0 \<le> rc_proposalCooldownMs cfg" "fst (risk_run cfg sink is new_risk_state) = snaps" "i < j" "j < length snaps"
    and "rs_proposal (snaps ! i) \<noteq> None" "rs_proposal (snaps ! j) \<noteq> None" "\<forall>k. i \<le> k \<and> k \<le> j \<longrightarrow> rs_level (snaps ! k) = CRITICAL"
  shows "rc_proposalCooldownMs cfg \<le> rs_evaluatedAt (snaps ! j) - rs_evaluatedAt (snaps ! i)"
proof -
  have "breach_ok new_risk_state" by (simp add: breach_ok_def new_risk_state_def)
  from risk_run_spaced [OF this, of cfg sink "is"] assms(2)
  have "breach_spaced (rc_proposalCooldownMs cfg) (rk_lastProposalAtMs new_risk_state) snaps" by simp
  then show ?thesis by (rule breach_spaced_pair [OF _ assms(1,3,4,5,6,7)])
qed

text \<open>
  The time of a proposal is noted only when the sink has answered: an evaluation that starts meanwhile
  submits another one.
\<close>

lemma overlapping_evaluations_propose_twice:
  assumes "evaluate_vaults cfg True now (Inr vs) s = (Eval_submits p w, s1)" "now \<le> now'" "breach_ok s"
  shows "\<exists>p' w'. evaluate_vaults cfg True now' (Inr vs) s1 = (Eval_submits p' w', s1)"
  using assms by (auto simp: evaluate_vaults_def shouldTriggerProposal_def Let_def split: sum.splits option.splits if_splits)

text \<open>A score that leaves the critical range for one evaluation starts the cooldown again.\<close>

lemma recovery_resets_cooldown:
  assumes "evaluate_alone cfg sink now vaults failure s = (Inr x, s')" "breach_ok s" "rs_level x \<noteq> CRITICAL"
  shows "shouldTriggerProposal cfg t s'"
  using evaluate_alone_effect [OF assms(1,2)] assms(3) by (simp add: shouldTriggerProposal_def)

section \<open>Witnesses\<close>

definition sample_vault :: "nat \<Rightarrow> risk_vault" where
  "sample_vault c = \<lparr>rv_vaultId = ''v'', rv_active = None, rv_collateral = [\<lparr>ap_asset = ''XLM'', ap_amount = Some (of_nat c), ap_priceUsd = Some 1\<rparr>],
     rv_debt = [\<lparr>ap_asset = ''USDC'', ap_amount = Some 100, ap_priceUsd = Some 1\<rparr>]\<rparr>"

lemma sample_vault_facts:
  "vault_whole (sample_vault c)" "exact_total rv_collateral [sample_vault c] = c" "exact_total rv_debt [sample_vault c] = 100"
proof -
  have "whole_position \<lparr>ap_asset = a, ap_amount = Some (of_nat c), ap_priceUsd = Some 1\<rparr>" for a c
    unfolding whole_position_def by (intro exI [of _ c] exI [of _ 1]) simp
  from this [of _ c] this [of _ 100] show "vault_whole (sample_vault c)" by (simp add: vault_whole_def sample_vault_def)
qed (simp_all add: exact_total_def sample_vault_def worth_def)

theorem danger_level_exact_witness:
  "\<exists>snap. fst (evaluate_alone default_config True 0 (Inr [sample_vault 124]) None new_risk_state) = Inr snap \<and> rs_level snap = CRITICAL"
proof -
  obtain r s' where e: "evaluate_alone default_config True 0 (Inr [sample_vault 124]) None new_risk_state = (r, s')"
    by (cases "evaluate_alone default_config True 0 (Inr [sample_vault 124]) None new_risk_state")
  have "\<exists>snap. r = Inr snap \<and> rs_level snap =
    (if 4 * exact_total rv_collateral [sample_vault 124] < 5 * exact_total rv_debt [sample_vault 124] then CRITICAL
     else if 2 * exact_total rv_collateral [sample_vault 124] < 3 * exact_total rv_debt [sample_vault 124] then ELEVATED else NORMAL)"
    by (rule danger_level_exact [OF _ _ _ e]) (simp_all add: sample_vault_facts)
  then show ?thesis using e by (simp add: sample_vault_facts)
qed

definition sample_risk_run :: "risk_snapshot list" where
  "sample_risk_run = fst (risk_run default_config True
     [(0, Inr [sample_vault 0], None), (1000, Inr [sample_vault 0], None), (900000, Inr [sample_vault 0], None)] new_risk_state)"

lemma sample_risk_facts:
  "map (\<lambda>x. (rs_level x, rs_evaluatedAt x, rs_proposal x = None)) sample_risk_run = [(CRITICAL, 0, False), (CRITICAL, 1000, True), (CRITICAL, 900000, False)]"
proof -
  have f: "fl 100 = 100" "INFINITE > 100" using fl_of_nat [of 100] below_infinite [of 100] by simp_all
  have i: "INFINITE > 1" "INFINITE > 0" using f(2) by linarith+
  show ?thesis using f i
    by (simp add: sample_risk_run_def evaluate_alone_def evaluate_vaults_def evaluate_submitted_def sample_vault_def no_totals_def assertFiniteNonNegative_def
        assertPositiveFinite_def jsmul_def jsadd_def jsdiv_def calculateSystemicRiskScore_def classifyDangerLevel_def default_config_def new_risk_state_def
        shouldTriggerProposal_def DEFAULT_SYSTEMIC_RISK_TRIGGER_THRESHOLD_def DEFAULT_RISK_PROPOSAL_COOLDOWN_MS_def Let_def)
qed

theorem breach_proposals_apart_witness:
  "length sample_risk_run = 3 \<and> rc_proposalCooldownMs default_config \<le> rs_evaluatedAt (sample_risk_run ! 2) - rs_evaluatedAt (sample_risk_run ! 0)"
proof -
  obtain a b c where r: "sample_risk_run = [a, b, c]" "rs_level a = CRITICAL" "rs_level b = CRITICAL" "rs_level c = CRITICAL"
      "rs_proposal a \<noteq> None" "rs_proposal c \<noteq> None"
    using sample_risk_facts by (auto simp only: map_eq_Cons_conv map_is_Nil_conv prod.inject)
  have "\<forall>k. 0 \<le> k \<and> k \<le> 2 \<longrightarrow> rs_level (sample_risk_run ! k) = CRITICAL"
    unfolding r(1) using r(2-4) by (auto simp: le_Suc_eq numeral_2_eq_2)
  then have "rc_proposalCooldownMs default_config \<le> rs_evaluatedAt (sample_risk_run ! 2) - rs_evaluatedAt (sample_risk_run ! 0)"
    using r(5,6) by (intro breach_proposals_apart [OF _ sample_risk_run_def [symmetric]])
      (simp_all add: r(1) default_config_def DEFAULT_RISK_PROPOSAL_COOLDOWN_MS_def)
  moreover have "length sample_risk_run = 3" unfolding r(1) by simp
  ultimately show ?thesis by blast
qed

end
