(* ===== verification/AdminAccess.thy ===== *)
theory AdminAccess
  imports JSText
begin

text \<open>
  Access to the administrative interface: \<open>src/types/roles.ts\<close>, \<open>src/middleware/roleMatrixMiddleware.ts\<close>,
  the audit rows of \<open>src/services/adminAuditService.ts\<close>, and the session cookie of \<open>src/routes/admin.ts\<close>
  with the guards of its routes.

  The lemmas say exactly who is let through, that key management and the permissions reserved for
  administrators stay with them, and that every evaluation is audited as it was decided; and that no
  request ever obtains the session which the routes require.
\<close>

section \<open>Roles\<close>

text \<open>A role is any text of a session; the matrix knows five of them.\<close>

definition ROLE_MATRIX :: "(string \<times> string list) list" where
  "ROLE_MATRIX =
     [(''OBSERVER'', [''read:prices'', ''read:market'']),
      (''OPERATOR'', [''read:prices'', ''read:market'', ''write:oracle'', ''read:config'']),
      (''AUDITOR'', [''read:prices'', ''read:market'', ''read:config'', ''read:audit'', ''read:keys'']),
      (''ADMIN'', [''*'']),
      (''SUPER_ADMIN'', [''*''])]"

definition ADMIN_ONLY_PERMISSIONS :: "string list" where
  "ADMIN_ONLY_PERMISSIONS = [''write:keys'', ''write:config'']"

definition ADMIN_ROLES :: "string list" where
  "ADMIN_ROLES = [''ADMIN'', ''SUPER_ADMIN'']"

definition isAdminRole :: "string option \<Rightarrow> bool" where
  "isAdminRole r = (case r of None \<Rightarrow> False | Some s \<Rightarrow> s \<noteq> [] \<and> s \<in> set ADMIN_ROLES)"

text \<open>The properties that every object inherits; a lookup of one of them is not a list.\<close>

definition inherited :: "string list" where
  "inherited = [''constructor'', ''hasOwnProperty'', ''isPrototypeOf'', ''propertyIsEnumerable'', ''toLocaleString'', ''toString'', ''valueOf'',
     ''__proto__'', ''__defineGetter__'', ''__defineSetter__'', ''__lookupGetter__'', ''__lookupSetter__'']"

text \<open>\<open>None\<close>: something that is not a list.\<close>

definition permissionsForRole :: "string option \<Rightarrow> string list option" where
  "permissionsForRole r = (case r of
      None \<Rightarrow> Some []
    | Some s \<Rightarrow> if s = [] then Some []
        else case map_of ROLE_MATRIX s of Some ps \<Rightarrow> Some ps | None \<Rightarrow> if s \<in> set inherited then None else Some [])"

text \<open>\<open>None\<close>: the call throws.\<close>

definition roleHasPermission :: "string option \<Rightarrow> string \<Rightarrow> bool option" where
  "roleHasPermission r p = map_option (\<lambda>ps. ''*'' \<in> set ps \<or> p \<in> set ps) (permissionsForRole r)"

section \<open>The middleware\<close>

definition SENSITIVE_PATHS :: "string list" where
  "SENSITIVE_PATHS = [''/admin'', ''/config'', ''/network'', ''/soroban'', ''/keys'']"

definition KEY_MANAGEMENT_PATHS :: "string list" where
  "KEY_MANAGEMENT_PATHS = [''/keys'', ''/public-key'', ''/rotate-deks'']"

definition starts_with :: "string \<Rightarrow> string \<Rightarrow> bool" where
  "starts_with s t \<longleftrightarrow> take (length t) s = t"

definition includes_text :: "string \<Rightarrow> string \<Rightarrow> bool" where
  "includes_text s t \<longleftrightarrow> list_ex (\<lambda>k. starts_with (drop k s) t) [0..<length s + 1]"

definition isKeyManagementPath :: "string \<Rightarrow> bool" where
  "isKeyManagementPath path \<longleftrightarrow> list_ex (includes_text (toLowerCase path)) KEY_MANAGEMENT_PATHS"

definition isSensitivePath :: "string \<Rightarrow> bool" where
  "isSensitivePath path \<longleftrightarrow> list_ex (starts_with (toLowerCase path)) SENSITIVE_PATHS"

record admin_user =
  au_userId :: nat
  au_email :: string
  au_role :: string

record admin_request =
  aq_user :: "admin_user option"
  aq_method :: string
  aq_path :: string
  aq_ip :: string
  aq_userAgent :: "string option"

datatype access = Let_through | Denied nat string | Access_throws

record audit_context =
  ac_userId :: "nat option"
  ac_email :: "string option"
  ac_role :: "string option"
  ac_permission :: "string option"
  ac_method :: string
  ac_path :: string
  ac_ipAddress :: string
  ac_userAgent :: string
  ac_granted :: bool
  ac_reason :: "string option"
  ac_keyOperation :: bool

datatype audit_event = ADMIN_ACCESS_GRANTED | ADMIN_ACCESS_DENIED | ADMIN_KEY_ACCESS_GRANTED | ADMIN_KEY_ACCESS_DENIED

record audit_row =
  al_eventType :: audit_event
  al_actionType :: string
  al_actor :: string
  al_actorName :: string
  al_actorRole :: string
  al_details :: audit_context
  al_ipAddress :: "string option"
  al_userAgent :: "string option"

definition some_text :: "string \<Rightarrow> string option" where
  "some_text s = (if s = [] then None else Some s)"

definition audit_actor :: "audit_context \<Rightarrow> string" where
  "audit_actor c = (case ac_userId c of
      Some i \<Rightarrow> if i = 0 then (case ac_email c of Some e \<Rightarrow> if e = [] then ''anonymous'' else ''email:'' @ e | None \<Rightarrow> ''anonymous'') else ''user:'' @ show_nat i
    | None \<Rightarrow> (case ac_email c of Some e \<Rightarrow> if e = [] then ''anonymous'' else ''email:'' @ e | None \<Rightarrow> ''anonymous''))"

definition text_or :: "string option \<Rightarrow> string \<Rightarrow> string" where
  "text_or t d = (case t of Some s \<Rightarrow> if s = [] then d else s | None \<Rightarrow> d)"

text \<open>A row that cannot be written is reported and forgotten.\<close>

definition logAdminPermissionEvaluation :: "bool \<Rightarrow> audit_context \<Rightarrow> audit_row list \<Rightarrow> audit_row list" where
  "logAdminPermissionEvaluation written c rows =
     (if written then rows @ [\<lparr>al_eventType = (if ac_keyOperation c then if ac_granted c then ADMIN_KEY_ACCESS_GRANTED else ADMIN_KEY_ACCESS_DENIED
          else if ac_granted c then ADMIN_ACCESS_GRANTED else ADMIN_ACCESS_DENIED),
        al_actionType = (if ac_keyOperation c then ''KEY_MANAGEMENT'' else ''ADMIN_ACCESS''), al_actor = audit_actor c,
        al_actorName = text_or (ac_email c) (audit_actor c), al_actorRole = text_or (ac_role c) ''UNKNOWN'', al_details = c,
        al_ipAddress = some_text (ac_ipAddress c), al_userAgent = some_text (ac_userAgent c)\<rparr>] else rows)"

definition audit_base :: "string option \<Rightarrow> admin_request \<Rightarrow> audit_context" where
  "audit_base perm q = \<lparr>ac_userId = map_option au_userId (aq_user q), ac_email = map_option au_email (aq_user q), ac_role = map_option au_role (aq_user q),
     ac_permission = perm, ac_method = aq_method q, ac_path = aq_path q, ac_ipAddress = (if aq_ip q = [] then ''unknown'' else aq_ip q),
     ac_userAgent = (case aq_userAgent q of Some a \<Rightarrow> a | None \<Rightarrow> []), ac_granted = False, ac_reason = None, ac_keyOperation = isKeyManagementPath (aq_path q)\<rparr>"

text \<open>The decision with the reason that is audited.\<close>

definition access_decision :: "string option \<Rightarrow> bool \<Rightarrow> admin_request \<Rightarrow> access" where
  "access_decision perm requireAdmin q = (case aq_user q of
      None \<Rightarrow> Denied 401 ''UNAUTHENTICATED''
    | Some u \<Rightarrow>
        if isKeyManagementPath (aq_path q) \<and> \<not> isAdminRole (Some (au_role u)) then Denied 403 ''KEY_MANAGEMENT_REQUIRES_ADMIN''
        else if requireAdmin \<and> \<not> isAdminRole (Some (au_role u)) then Denied 403 ''ADMIN_ROLE_REQUIRED''
        else if isSensitivePath (aq_path q) \<and> au_role u = ''OBSERVER'' then Denied 403 ''ROLE_ISOLATION_VIOLATION''
        else case perm of
            None \<Rightarrow> Let_through
          | Some p \<Rightarrow> (case roleHasPermission (Some (au_role u)) p of
                None \<Rightarrow> Access_throws
              | Some b \<Rightarrow> if b then Let_through else Denied 403 ''INSUFFICIENT_PERMISSIONS''))"

definition enforceRoleMatrix :: "string option \<Rightarrow> bool \<Rightarrow> bool \<Rightarrow> admin_request \<Rightarrow> audit_row list \<Rightarrow> access \<times> audit_row list" where
  "enforceRoleMatrix perm requireAdmin written q rows =
     (let d = access_decision perm requireAdmin q in
      (d, case d of
         Let_through \<Rightarrow> logAdminPermissionEvaluation written ((audit_base perm q)\<lparr>ac_granted := True\<rparr>) rows
       | Denied _ reason \<Rightarrow> logAdminPermissionEvaluation written ((audit_base perm q)\<lparr>ac_reason := Some reason\<rparr>) rows
       | Access_throws \<Rightarrow> rows))"

definition guard_requireAdmin :: "bool \<Rightarrow> admin_request \<Rightarrow> audit_row list \<Rightarrow> access \<times> audit_row list" where
  "guard_requireAdmin = enforceRoleMatrix None True"

definition guard_requireOperator :: "bool \<Rightarrow> admin_request \<Rightarrow> audit_row list \<Rightarrow> access \<times> audit_row list" where
  "guard_requireOperator = enforceRoleMatrix (Some ''write:oracle'') False"

definition guard_requireAuditor :: "bool \<Rightarrow> admin_request \<Rightarrow> audit_row list \<Rightarrow> access \<times> audit_row list" where
  "guard_requireAuditor = enforceRoleMatrix (Some ''read:audit'') False"

definition guard_requireKeyManagement :: "bool \<Rightarrow> admin_request \<Rightarrow> audit_row list \<Rightarrow> access \<times> audit_row list" where
  "guard_requireKeyManagement = enforceRoleMatrix (Some ''write:keys'') True"

section \<open>Who is let through\<close>

lemma admin_only:
  assumes "p \<in> set ADMIN_ONLY_PERMISSIONS" "roleHasPermission (Some r) p = Some True"
  shows "isAdminRole (Some r)"
proof (cases "map_of ROLE_MATRIX r")
  case None
  then show ?thesis using assms(2) by (auto simp: roleHasPermission_def permissionsForRole_def split: if_splits)
next
  case (Some ps)
  then have "(r, ps) \<in> set ROLE_MATRIX" by (rule map_of_SomeD)
  then show ?thesis using assms Some
    by (auto simp: ROLE_MATRIX_def ADMIN_ONLY_PERMISSIONS_def roleHasPermission_def permissionsForRole_def isAdminRole_def ADMIN_ROLES_def split: if_splits)
qed

text \<open>
  C22. The middleware lets a request through exactly when it is authenticated, an administrator's where
  the path manages keys or the route asks for one, not an observer's on a sensitive path, and its role
  has the permission; and whoever is let through to keys, or to a permission reserved for
  administrators, is one.
\<close>

theorem access_exact:
  "(fst (enforceRoleMatrix perm requireAdmin written q rows) = Let_through) =
     (\<exists>u. aq_user q = Some u \<and> (isKeyManagementPath (aq_path q) \<or> requireAdmin \<or> perm \<in> Some ` set ADMIN_ONLY_PERMISSIONS \<longrightarrow> isAdminRole (Some (au_role u)))
        \<and> \<not> (isSensitivePath (aq_path q) \<and> au_role u = ''OBSERVER'')
        \<and> (\<forall>p. perm = Some p \<longrightarrow> roleHasPermission (Some (au_role u)) p = Some True))"
  using admin_only
  by (auto simp: enforceRoleMatrix_def access_decision_def Let_def split: option.splits if_splits)

text \<open>
  Every evaluation that ends is audited with one row, when it can be written, that says what was
  decided about whom and where.
\<close>

theorem evaluations_audited:
  assumes "enforceRoleMatrix perm requireAdmin True q rows = (d, rows')" "d \<noteq> Access_throws"
  shows "\<exists>r. rows' = rows @ [r] \<and> ac_granted (al_details r) = (d = Let_through)
    \<and> al_eventType r \<in> (if d = Let_through then {ADMIN_ACCESS_GRANTED, ADMIN_KEY_ACCESS_GRANTED} else {ADMIN_ACCESS_DENIED, ADMIN_KEY_ACCESS_DENIED})
    \<and> (al_actionType r = ''KEY_MANAGEMENT'') = isKeyManagementPath (aq_path q)
    \<and> ac_path (al_details r) = aq_path q \<and> ac_role (al_details r) = map_option au_role (aq_user q)"
  using assms by (auto simp: enforceRoleMatrix_def logAdminPermissionEvaluation_def audit_base_def Let_def split: access.splits)

section \<open>The session of the administrative routes\<close>

record oidc_session =
  os_provider :: string
  os_domain :: string
  os_email :: string
  os_issuedAt :: int
  os_expiresAt :: int

definition OIDC_SESSION_TTL_MS :: int where "OIDC_SESSION_TTL_MS = 8 * 60 * 60 * 1000"

definition authorized_domains :: "string option \<Rightarrow> string list" where
  "authorized_domains env = filter (\<lambda>d. d \<noteq> []) (map (\<lambda>d. toLowerCase (js_trim d))
     (split_at CHR '','' (case env of Some s \<Rightarrow> s | None \<Rightarrow> ''stellarflow.io,example.com'')))"

definition isAuthorizedDomain :: "string list \<Rightarrow> string \<Rightarrow> bool" where
  "isAuthorizedDomain domains email \<longleftrightarrow> CHR ''@'' \<in> set email \<and> toLowerCase (last (split_at CHR ''@'' email)) \<in> set domains"

text \<open>The cookie is a token or missing; \<open>decrypt\<close> is \<open>decryptSession\<close>.\<close>

definition requireOidcSession :: "(string \<Rightarrow> oidc_session option) \<Rightarrow> string list \<Rightarrow> int \<Rightarrow> string option \<Rightarrow> access" where
  "requireOidcSession decrypt domains now cookie = (case cookie of
      None \<Rightarrow> Denied 401 ''OIDC session required''
    | Some token \<Rightarrow>
        if token = [] then Denied 401 ''OIDC session required''
        else case decrypt token of
            None \<Rightarrow> Denied 401 ''Invalid OIDC session''
          | Some s \<Rightarrow>
              if os_expiresAt s = 0 \<or> now > os_expiresAt s then Denied 401 ''OIDC session expired''
              else if os_email s = [] \<or> \<not> isAuthorizedDomain domains (os_email s) then Denied 403 ''Email domain not authorized''
              else Let_through)"

record oidc_body =
  ob_idToken :: string
  ob_provider :: string
  ob_domain :: string

definition oidc_body_valid :: "oidc_body \<Rightarrow> bool" where
  "oidc_body_valid b \<longleftrightarrow> ob_idToken b \<noteq> [] \<and> ob_provider b \<in> {''google'', ''okta'', ''github''} \<and> ob_domain b \<noteq> []"

text \<open>The handler that opens a session; the identity token is not looked at.\<close>

definition open_session :: "string list \<Rightarrow> int \<Rightarrow> oidc_body \<Rightarrow> (nat, oidc_session) result" where
  "open_session domains now b =
     (let domain = toLowerCase (ob_domain b) in
      if \<not> oidc_body_valid b then Inl 400
      else if domain \<notin> set domains then Inl 403
      else Inr \<lparr>os_provider = ob_provider b, os_domain = domain, os_email = ''admin@'' @ domain, os_issuedAt = now, os_expiresAt = now + OIDC_SESSION_TTL_MS\<rparr>)"

text \<open>The routes of the file with the guard of each, behind the two guards of the router.\<close>

definition admin_routes :: "(string \<times> string \<times> bool) list" where
  "admin_routes =
     [(''GET'', ''/reports/summary'', False), (''POST'', ''/auth/oidc/session'', False), (''DELETE'', ''/auth/oidc/session'', False),
      (''GET'', ''/reports/query-performance'', False), (''POST'', ''/reload-secret'', True), (''GET'', ''/relayer-registry'', False),
      (''GET'', ''/relayer-registry/:relayerId'', False), (''PUT'', ''/rate-limit'', False), (''POST'', ''/rate-limit/whitelist/refresh'', True),
      (''GET'', ''/dlq'', False), (''GET'', ''/dlq/stats'', False), (''POST'', ''/dlq/replay'', True), (''POST'', ''/dlq/replay/all'', True),
      (''GET'', ''/kms/rotation-status'', False), (''GET'', ''/remittance/disputes'', False), (''GET'', ''/remittance/disputes/:id'', False),
      (''POST'', ''/remittance/disputes/:id/status'', True), (''POST'', ''/remittance/disputes/:id/refund'', True)]"

record oidc_env =
  oe_decrypt :: "string \<Rightarrow> oidc_session option"
  oe_encrypt :: "string \<Rightarrow> oidc_session \<Rightarrow> string"
  oe_domains :: "string list"

text \<open>Whether a request reaches the handler of a route.\<close>

definition admin_chain :: "oidc_env \<Rightarrow> int \<Rightarrow> bool \<Rightarrow> admin_request \<Rightarrow> string option \<Rightarrow> bool" where
  "admin_chain en now routeAdmin q cookie \<longleftrightarrow>
     access_decision (Some ''read:config'') False q = Let_through
     \<and> requireOidcSession (oe_decrypt en) (oe_domains en) now cookie = Let_through
     \<and> (routeAdmin \<longrightarrow> access_decision None True q = Let_through)"

text \<open>
  The tokens that were issued.  A client presents any text, but only a token that the server encrypted
  decrypts; a token is issued by the handler that opens a session.
\<close>

inductive issue_step :: "oidc_env \<Rightarrow> string list \<Rightarrow> string list \<Rightarrow> bool" for en where
  Open: "(\<And>token. cookie = Some token \<Longrightarrow> oe_decrypt en token \<noteq> None \<Longrightarrow> token \<in> set issued) \<Longrightarrow> admin_chain en now False q cookie
     \<Longrightarrow> open_session (oe_domains en) now b = Inr s \<Longrightarrow> issue_step en issued (oe_encrypt en iv s # issued)"

inductive_cases issue_stepE: "issue_step en issued issued'"

lemma no_token_issued: "(issue_step en)\<^sup>*\<^sup>* issued issued' \<Longrightarrow> issued = [] \<Longrightarrow> issued' = []"
proof (induction rule: rtranclp_induct)
  case (step y z)
  then show ?case
    by (auto simp: admin_chain_def requireOidcSession_def elim!: issue_stepE split: option.splits if_splits)
qed simp

text \<open>
  The route that opens a session is itself behind the guard that requires one: starting without
  sessions no request is ever issued a token, and no request reaches a handler of the router.
\<close>

theorem admin_routes_locked:
  assumes "(issue_step en)\<^sup>*\<^sup>* [] issued" "\<And>token. cookie = Some token \<Longrightarrow> oe_decrypt en token \<noteq> None \<Longrightarrow> token \<in> set issued"
  shows "issued = [] \<and> \<not> admin_chain en now routeAdmin q cookie"
proof -
  have "issued = []" by (rule no_token_issued [OF assms(1)]) simp
  then show ?thesis using assms(2) by (auto simp: admin_chain_def requireOidcSession_def split: option.splits if_splits)
qed

text \<open>Of the routes that change something, all but the rate limits and the session ask for an administrator.\<close>

lemma unguarded_changes:
  "filter (\<lambda>(method, path, admin). method \<noteq> ''GET'' \<and> \<not> admin) admin_routes
   = [(''POST'', ''/auth/oidc/session'', False), (''DELETE'', ''/auth/oidc/session'', False), (''PUT'', ''/rate-limit'', False)]"
  by (simp add: admin_routes_def)

definition sample_auditor :: admin_request where
  "sample_auditor = \<lparr>aq_user = Some \<lparr>au_userId = 7, au_email = ''a@x'', au_role = ''AUDITOR''\<rparr>, aq_method = ''PUT'', aq_path = ''/rate-limit'', aq_ip = ''1'', aq_userAgent = None\<rparr>"

lemma auditor_changes_rate_limit:
  "access_decision (Some ''read:config'') False sample_auditor = Let_through"
  by code_simp

text \<open>A session is opened for any text that names an authorized domain.\<close>

lemma any_identity_opens_session:
  assumes "idToken \<noteq> []" "domain \<noteq> []" "toLowerCase domain \<in> set domains"
  shows "is_ok (open_session domains now \<lparr>ob_idToken = idToken, ob_provider = ''google'', ob_domain = domain\<rparr>)"
  using assms by (simp add: open_session_def oidc_body_valid_def Let_def)

section \<open>Witnesses\<close>

definition sample_key_request :: "string \<Rightarrow> admin_request" where
  "sample_key_request role = \<lparr>aq_user = Some \<lparr>au_userId = 7, au_email = ''a@x'', au_role = role\<rparr>, aq_method = ''GET'', aq_path = ''/Relayer/KEYS'', aq_ip = ''1'', aq_userAgent = None\<rparr>"

theorem access_exact_witness:
  "fst (enforceRoleMatrix (Some ''write:keys'') True True (sample_key_request ''ADMIN'') []) = Let_through
   \<and> fst (enforceRoleMatrix (Some ''read:keys'') False True (sample_key_request ''AUDITOR'') []) \<noteq> Let_through"
proof
  have "isAdminRole (Some ''ADMIN'')" "roleHasPermission (Some ''ADMIN'') ''write:keys'' = Some True" "\<not> isAdminRole (Some ''AUDITOR'')"
    "isKeyManagementPath ''/Relayer/KEYS''" by code_simp+
  then show "fst (enforceRoleMatrix (Some ''write:keys'') True True (sample_key_request ''ADMIN'') []) = Let_through"
    "fst (enforceRoleMatrix (Some ''read:keys'') False True (sample_key_request ''AUDITOR'') []) \<noteq> Let_through"
    unfolding access_exact by (simp_all add: sample_key_request_def)
qed

theorem evaluations_audited_witness:
  "\<exists>r. snd (enforceRoleMatrix (Some ''read:keys'') False True (sample_key_request ''AUDITOR'') []) = [r]
     \<and> \<not> ac_granted (al_details r) \<and> al_actionType r = ''KEY_MANAGEMENT''"
proof -
  obtain d rows where e: "enforceRoleMatrix (Some ''read:keys'') False True (sample_key_request ''AUDITOR'') [] = (d, rows)"
    by (cases "enforceRoleMatrix (Some ''read:keys'') False True (sample_key_request ''AUDITOR'') []")
  have "fst (enforceRoleMatrix (Some ''read:keys'') False True (sample_key_request ''AUDITOR'') []) = Denied 403 ''KEY_MANAGEMENT_REQUIRES_ADMIN''" by code_simp
  then have d: "d = Denied 403 ''KEY_MANAGEMENT_REQUIRES_ADMIN''" using e by simp
  have "isKeyManagementPath (aq_path (sample_key_request ''AUDITOR''))" by code_simp
  then show ?thesis using evaluations_audited [OF e] d e by auto
qed

theorem admin_routes_locked_witness:
  "\<not> admin_chain \<lparr>oe_decrypt = (\<lambda>t. None), oe_encrypt = (\<lambda>iv s. iv), oe_domains = [''stellarflow.io'']\<rparr> 0 False sample_auditor (Some ''forged'')"
  using admin_routes_locked [of "\<lparr>oe_decrypt = (\<lambda>t. None), oe_encrypt = (\<lambda>iv s. iv), oe_domains = [''stellarflow.io'']\<rparr>" "[]" "Some ''forged''"] by simp

end
