(* ===== verification/KmsEnvelope.thy ===== *)
theory KmsEnvelope
  imports Encryption
begin

text \<open>
  \<open>src/services/kmsEnvelopeService.ts\<close>: envelope encryption of relayer keys.  A data key that the key
  management service generates enciphers a text with AES-256-GCM; the text is stored in hexadecimal
  as \<open>iv | ciphertext | tag\<close> beside the data key in the form only the service can open, in Base64.

  The answers of the key management service are arguments: \<open>generate\<close> is what one call that generates a data key
  returns, \<open>opens\<close> what the call that decrypts a blob returns.  AES-GCM is the record of \<open>Encryption\<close>.
  The lemmas: Base64 is a codec, what is encrypted decrypts to the text, and rotating the data key
  keeps the text.
\<close>

section \<open>Base64\<close>

definition base64_char :: "nat \<Rightarrow> char" where
  "base64_char n = (if n < 26 then char_of (65 + n) else if n < 52 then char_of (71 + n) else if n < 62 then char_of (n - 4)
     else if n = 62 then CHR ''+'' else CHR ''/'')"

definition base64_value :: "char \<Rightarrow> nat option" where
  "base64_value c =
     (let n = of_char c in
      if 65 \<le> n \<and> n < 91 then Some (n - 65) else if 97 \<le> n \<and> n < 123 then Some (n - 71) else if 48 \<le> n \<and> n < 58 then Some (n + 4)
      else if c = CHR ''+'' \<or> c = CHR ''-'' then Some 62 else if c = CHR ''/'' \<or> c = CHR ''_'' then Some 63 else None)"

fun base64 :: "bytes \<Rightarrow> string" where
  "base64 (a # b # c # bs) =
     (let n = 65536 * unat a + 256 * unat b + unat c in
      base64_char (n div 262144) # base64_char (n div 4096 mod 64) # base64_char (n div 64 mod 64) # base64_char (n mod 64) # base64 bs)"
| "base64 [a, b] = (let n = 1024 * unat a + 4 * unat b in [base64_char (n div 4096), base64_char (n div 64 mod 64), base64_char (n mod 64), CHR ''=''])"
| "base64 [a] = (let n = 16 * unat a in [base64_char (n div 64), base64_char (n mod 64), CHR ''='', CHR ''=''])"
| "base64 [] = []"

fun from_sextets :: "nat list \<Rightarrow> bytes" where
  "from_sextets (a # b # c # d # xs) =
     (let n = 262144 * a + 4096 * b + 64 * c + d in of_nat (n div 65536) # of_nat (n div 256 mod 256) # of_nat (n mod 256) # from_sextets xs)"
| "from_sextets [a, b, c] = (let n = 4096 * a + 64 * b + c in [of_nat (n div 1024), of_nat (n div 4 mod 256)])"
| "from_sextets [a, b] = [of_nat ((64 * a + b) div 16)]"
| "from_sextets _ = []"

text \<open>The padding ends the text; characters outside the alphabet are skipped.\<close>

definition unbase64 :: "string \<Rightarrow> bytes" where
  "unbase64 s = from_sextets (List.map_filter base64_value (takeWhile (\<lambda>c. c \<noteq> CHR ''='') s))"

lemma base64_value_char: "n < 64 \<Longrightarrow> base64_value (base64_char n) = Some n"
proof -
  assume "n < 64"
  then consider "n < 26" | "26 \<le> n \<and> n < 52" | "52 \<le> n \<and> n < 62" | "n = 62" | "n = 63" by linarith
  then show ?thesis by cases (auto simp: base64_char_def base64_value_def Let_def)
qed

lemma base64_char_pad: "n < 64 \<Longrightarrow> base64_char n \<noteq> CHR ''=''"
  using base64_value_char [of n] by (auto simp: base64_value_def)

lemma map_filter_values [simp]:
  "List.map_filter f [] = []"
  "List.map_filter f (x # xs) = (case f x of Some y \<Rightarrow> y # List.map_filter f xs | None \<Rightarrow> List.map_filter f xs)"
  by (simp_all add: List.map_filter_def split: option.splits)

lemma sextets_back:
  fixes n :: nat
  shows "262144 * (n div 262144) + 4096 * (n div 4096 mod 64) + 64 * (n div 64 mod 64) + n mod 64 = n"
proof -
  have "n div 262144 = n div 4096 div 64" "n div 4096 = n div 64 div 64" by (simp_all add: div_mult2_eq)
  then show ?thesis
    using div_mult_mod_eq [of "n div 4096" 64] div_mult_mod_eq [of "n div 64" 64] div_mult_mod_eq [of n 64] by linarith
qed

lemma unbase64_chars:
  "x < 64 \<Longrightarrow> unbase64 (base64_char x # s) = from_sextets (x # List.map_filter base64_value (takeWhile (\<lambda>c. c \<noteq> CHR ''='') s))"
  by (simp add: unbase64_def base64_char_pad base64_value_char)

text \<open>The sextets of three bytes, and of the last one or two.\<close>

lemma three_bytes:
  fixes a b c :: byte
  defines "n \<equiv> 65536 * unat a + 256 * unat b + unat c"
  shows "n div 262144 < 64" "of_nat (n div 65536) = a" "of_nat (n div 256 mod 256) = b" "of_nat (n mod 256) = c"
proof -
  have b: "unat a < 256" "unat b < 256" "unat c < 256" by (rule unat_byte_bound)+
  then have "n < 16777216" unfolding n_def by linarith
  then show "n div 262144 < 64" by (simp add: div_less_iff_less_mult)
  have n: "n = (unat a * 256 + unat b) * 256 + unat c" by (simp add: n_def)
  then have d: "n div 256 = unat a * 256 + unat b" "n mod 256 = unat c"
    using b(3) div_mult_self3 [of 256 "unat a * 256 + unat b" "unat c"] mod_mult_self3 [of "unat a * 256 + unat b" 256 "unat c"] by simp_all
  have "n div 65536 = n div 256 div 256" by (simp add: div_mult2_eq)
  then have "n div 65536 = unat a" using d b(2) by simp
  then show "of_nat (n div 65536) = a" by simp
  show "of_nat (n div 256 mod 256) = b" "of_nat (n mod 256) = c" using d b(2) by simp_all
qed

lemma unbase64_base64: "unbase64 (base64 bs) = bs"
proof (induction bs rule: base64.induct)
  case (1 a b c bs)
  let ?n = "65536 * unat a + 256 * unat b + unat c"
  have "unbase64 (base64 (a # b # c # bs)) = from_sextets (?n div 262144 # ?n div 4096 mod 64 # ?n div 64 mod 64 # ?n mod 64
      # List.map_filter base64_value (takeWhile (\<lambda>c. c \<noteq> CHR ''='') (base64 bs)))"
    using three_bytes(1) [of a b c] by (simp add: Let_def unbase64_def base64_char_pad base64_value_char)
  also have "\<dots> = a # b # c # unbase64 (base64 bs)"
    using three_bytes [of a b c] by (simp add: Let_def sextets_back unbase64_def)
  finally show ?case using 1 by simp
next
  case (2 a b)
  let ?n = "1024 * unat a + 4 * unat b"
  have b: "unat a < 256" "unat b < 256" by (rule unat_byte_bound)+
  then have "?n < 262144" by linarith
  then have s: "?n div 4096 < 64" by (simp add: div_less_iff_less_mult)
  have "?n div 4096 = ?n div 64 div 64" by (simp add: div_mult2_eq)
  then have n: "4096 * (?n div 4096) + 64 * (?n div 64 mod 64) + ?n mod 64 = ?n"
    using div_mult_mod_eq [of "?n div 64" 64] div_mult_mod_eq [of ?n 64] by linarith
  have q: "?n div 4 = unat a * 256 + unat b" by simp
  have "?n div 1024 = ?n div 4 div 256" by (simp add: div_mult2_eq)
  then have d: "?n div 1024 = unat a" "?n div 4 mod 256 = unat b" using q b(2) by simp_all
  have "unbase64 (base64 [a, b]) = from_sextets [?n div 4096, ?n div 64 mod 64, ?n mod 64]"
    using s by (simp add: Let_def unbase64_def base64_char_pad base64_value_char)
  also have "\<dots> = [of_nat (?n div 1024), of_nat (?n div 4 mod 256)]" by (simp only: from_sextets.simps n Let_def)
  finally show ?case by (simp only: d of_nat_unat)  simp
next
  case (3 a)
  have "unat a < 256" by (rule unat_byte_bound)
  then have s: "16 * unat a div 64 < 64" by (simp add: div_less_iff_less_mult)
  have n: "64 * (16 * unat a div 64) + 16 * unat a mod 64 = 16 * unat a"
    using div_mult_mod_eq [of "16 * unat a" 64] by (simp only: mult.commute)
  have "unbase64 (base64 [a]) = from_sextets [16 * unat a div 64, 16 * unat a mod 64]"
    using s by (simp add: Let_def unbase64_def base64_char_pad base64_value_char)
  also have "\<dots> = [of_nat (16 * unat a div 16)]" by (simp only: from_sextets.simps n)
  finally show ?case by simp
qed (simp add: unbase64_def)

interpretation b64: codec base64 "\<lambda>s. Inr (unbase64 s)" "\<lambda>_. True"
  by unfold_locales (simp add: unbase64_base64)

section \<open>The envelope\<close>

record encrypted_data =
  ed_ciphertext :: string
  ed_encryptedDek :: string
  ed_dekVersion :: nat

text \<open>The code of an error and its message.\<close>

datatype envelope_error = KmsEnvelopeError string string

definition DEK_LENGTH :: nat where "DEK_LENGTH = 32"

text \<open>What the key management service answers: an error, or the fields that the response has.\<close>

type_synonym generate_answer = "(string, bytes option \<times> bytes option) result"
type_synonym open_answer = "(string, bytes option) result"

definition wrong_length :: "bytes \<Rightarrow> string" where
  "wrong_length dek = ''Expected '' @ show_nat DEK_LENGTH @ ''-byte DEK, got '' @ show_nat (length dek) @ '' bytes''"

definition new_KmsEnvelopeService :: "string option \<Rightarrow> string option \<Rightarrow> (envelope_error, string) result" where
  "new_KmsEnvelopeService kmsKeyId env =
     (let key = (case kmsKeyId of Some k \<Rightarrow> if k \<noteq> [] then k else (case env of Some e \<Rightarrow> e | None \<Rightarrow> [])
                 | None \<Rightarrow> (case env of Some e \<Rightarrow> e | None \<Rightarrow> [])) in
      if key = [] then Inl (KmsEnvelopeError ''MISSING_KMS_KEY_ID'' ''KMS_ENVELOPE_KEY_ID environment variable is required'') else Inr key)"

definition generateDataKey :: "generate_answer \<Rightarrow> (envelope_error, bytes \<times> string) result" where
  "generateDataKey generate =
     (let failed = (\<lambda>m. Inl (KmsEnvelopeError ''DEK_GENERATION_FAILED'' (''Failed to generate data key: '' @ m))) in
      case generate of
        Inl m \<Rightarrow> failed m
      | Inr (Some dek, Some blob) \<Rightarrow> if length dek \<noteq> DEK_LENGTH then failed (wrong_length dek) else Inr (dek, base64 blob)
      | Inr _ \<Rightarrow> failed ''KMS returned incomplete data key'')"

definition decryptDataKey :: "(bytes \<Rightarrow> open_answer) \<Rightarrow> string \<Rightarrow> (envelope_error, bytes) result" where
  "decryptDataKey opens encryptedDek =
     (let failed = (\<lambda>m. Inl (KmsEnvelopeError ''DEK_DECRYPTION_FAILED'' (''Failed to decrypt data key: '' @ m))) in
      case opens (unbase64 encryptedDek) of
        Inl m \<Rightarrow> failed m
      | Inr None \<Rightarrow> failed ''KMS returned empty plaintext''
      | Inr (Some dek) \<Rightarrow> if length dek \<noteq> DEK_LENGTH then failed (wrong_length dek) else Inr dek)"

definition invalid_length :: "bytes \<Rightarrow> envelope_error" where
  "invalid_length dek = KmsEnvelopeError ''INVALID_DEK_LENGTH''
     (''Invalid DEK length: expected '' @ show_nat DEK_LENGTH @ '' bytes, got '' @ show_nat (length dek))"

text \<open>The random initialisation vector is an argument.\<close>

definition encryptWithDek :: "aes_gcm \<Rightarrow> bytes \<Rightarrow> string \<Rightarrow> bytes \<Rightarrow> (envelope_error, string) result" where
  "encryptWithDek ae iv plaintext dek =
     (if length dek \<noteq> DEK_LENGTH then Inl (invalid_length dek)
      else let (encrypted, tg) = ae_seal ae dek iv plaintext in Inr (hex iv @ hex encrypted @ hex tg))"

definition decryptWithDek :: "aes_gcm \<Rightarrow> string \<Rightarrow> bytes \<Rightarrow> (envelope_error, string) result" where
  "decryptWithDek ae ciphertext dek =
     (if length dek \<noteq> DEK_LENGTH then Inl (invalid_length dek)
      else
        let buffer = unhex ciphertext;
            n = int (length buffer);
            iv = js_slice 0 IV_LENGTH buffer;
            tg = js_slice (n - TAG_LENGTH) n buffer;
            encryptedData = js_slice IV_LENGTH (n - TAG_LENGTH) buffer
        in case ae_open ae dek iv encryptedData tg of
             Inl m \<Rightarrow> Inl (KmsEnvelopeError ''DECRYPTION_FAILED'' (''Decryption failed: '' @ m))
           | Inr text \<Rightarrow> Inr text)"

definition envelope_encrypt :: "aes_gcm \<Rightarrow> bytes \<Rightarrow> generate_answer \<Rightarrow> string \<Rightarrow> nat \<Rightarrow> (envelope_error, encrypted_data) result" where
  "envelope_encrypt ae iv generate plaintext dekVersion =
     rbind (generateDataKey generate) (\<lambda>(dek, encryptedDek).
     rbind (encryptWithDek ae iv plaintext dek) (\<lambda>ciphertext.
     Inr \<lparr>ed_ciphertext = ciphertext, ed_encryptedDek = encryptedDek, ed_dekVersion = dekVersion\<rparr>))"

definition envelope_decrypt :: "aes_gcm \<Rightarrow> (bytes \<Rightarrow> open_answer) \<Rightarrow> encrypted_data \<Rightarrow> (envelope_error, string) result" where
  "envelope_decrypt ae opens d = rbind (decryptDataKey opens (ed_encryptedDek d)) (decryptWithDek ae (ed_ciphertext d))"

definition rotateEncryption ::
  "aes_gcm \<Rightarrow> (bytes \<Rightarrow> open_answer) \<Rightarrow> bytes \<Rightarrow> generate_answer \<Rightarrow> encrypted_data \<Rightarrow> nat \<Rightarrow> (envelope_error, encrypted_data) result" where
  "rotateEncryption ae opens iv generate d newDekVersion =
     rbind (decryptDataKey opens (ed_encryptedDek d)) (\<lambda>oldDek.
     rbind (decryptWithDek ae (ed_ciphertext d) oldDek) (\<lambda>plaintext.
     rbind (generateDataKey generate) (\<lambda>(dek, encryptedDek).
     rbind (encryptWithDek ae iv plaintext dek) (\<lambda>ciphertext.
     Inr \<lparr>ed_ciphertext = ciphertext, ed_encryptedDek = encryptedDek, ed_dekVersion = newDekVersion\<rparr>))))"

definition validateEncryption :: "aes_gcm \<Rightarrow> (bytes \<Rightarrow> open_answer) \<Rightarrow> encrypted_data \<Rightarrow> bool" where
  "validateEncryption ae opens d = is_ok (envelope_decrypt ae opens d)"

definition maskKeyId :: "string \<Rightarrow> string" where
  "maskKeyId keyId = (if length keyId \<le> 8 then ''***'' else ''***'' @ drop (length keyId - 8) keyId)"

section \<open>Round trips\<close>

text \<open>The documented behaviour of AES-256-GCM: 16-byte tags, and deciphering inverts enciphering.\<close>

definition gcm_ok :: "aes_gcm \<Rightarrow> bool" where
  "gcm_ok ae \<longleftrightarrow> (\<forall>key iv text ct tg. ae_seal ae key iv text = (ct, tg) \<longrightarrow> length tg = 16 \<and> ae_open ae key iv ct tg = Inr text)"

text \<open>The key management service opens the blob of the data key that it generated.\<close>

definition generated_opens :: "(bytes \<Rightarrow> open_answer) \<Rightarrow> generate_answer \<Rightarrow> bool" where
  "generated_opens opens generate \<longleftrightarrow> (\<forall>dek blob. generate = Inr (Some dek, Some blob) \<longrightarrow> opens blob = Inr (Some dek))"

lemma decrypt_with_dek:
  assumes "gcm_ok ae" "length iv = 12" "encryptWithDek ae iv text dek = Inr c"
  shows "decryptWithDek ae c dek = Inr text"
proof -
  obtain ct tg where s: "ae_seal ae dek iv text = (ct, tg)" by fastforce
  have l: "length dek = DEK_LENGTH" and c: "c = hex (iv @ ct @ tg)"
    using assms(3) s by (auto simp: encryptWithDek_def hex_append split: if_splits)
  have o: "length tg = 16" "ae_open ae dek iv ct tg = Inr text" using assms(1) s by (auto simp: gcm_ok_def)
  have "unhex (hex (iv @ ct @ tg)) = iv @ ct @ tg" by (rule unhex_hex)
  then show ?thesis using l o(2) frame_slices [OF assms(2) o(1), of ct]
    by (simp add: decryptWithDek_def c Let_def IV_LENGTH_def TAG_LENGTH_def)
qed

lemma decrypt_data_key:
  assumes "generated_opens opens generate" "generateDataKey generate = Inr (dek, encryptedDek)"
  shows "decryptDataKey opens encryptedDek = Inr dek"
  using assms by (auto simp: generateDataKey_def decryptDataKey_def generated_opens_def unbase64_base64 Let_def split: sum.splits option.splits if_splits)

lemma envelope_decrypt_encrypt:
  assumes "gcm_ok ae" "length iv = 12" "generated_opens opens generate" "envelope_encrypt ae iv generate text v = Inr d"
  shows "envelope_decrypt ae opens d = Inr text \<and> ed_dekVersion d = v"
proof -
  obtain dek e c where g: "generateDataKey generate = Inr (dek, e)" "encryptWithDek ae iv text dek = Inr c"
    "d = \<lparr>ed_ciphertext = c, ed_encryptedDek = e, ed_dekVersion = v\<rparr>"
    using assms(4) by (auto simp: envelope_encrypt_def rbind_eq_Inr)
  then show ?thesis using decrypt_data_key [OF assms(3) g(1)] decrypt_with_dek [OF assms(1,2) g(2)] by (simp add: envelope_decrypt_def)
qed

text \<open>Rotating is decrypting and encrypting again.\<close>

lemma rotateEncryption_eq:
  "rotateEncryption ae opens iv generate d v = rbind (envelope_decrypt ae opens d) (\<lambda>text. envelope_encrypt ae iv generate text v)"
  by (simp add: rotateEncryption_def envelope_decrypt_def envelope_encrypt_def rbind_def split: sum.splits)

lemma rotate_keeps_text:
  assumes "gcm_ok ae" "length iv = 12" "generated_opens opens generate" "rotateEncryption ae opens iv generate d v = Inr d'"
  shows "\<exists>t. envelope_decrypt ae opens d = Inr t \<and> envelope_decrypt ae opens d' = Inr t \<and> ed_dekVersion d' = v"
proof -
  obtain t where "envelope_decrypt ae opens d = Inr t" "envelope_encrypt ae iv generate t v = Inr d'"
    using assms(4) unfolding rotateEncryption_eq by (auto simp: rbind_eq_Inr)
  then show ?thesis using envelope_decrypt_encrypt [OF assms(1,2,3)] by blast
qed

end
