(* ===== verification/RelayerKeys.thy ===== *)
theory RelayerKeys
  imports KmsEnvelope JSText
begin

text \<open>
  The private keys of relayers: \<open>src/crypto/vault.ts\<close> (the vault in memory),
  \<open>src/services/relayerKeyService.ts\<close> (generating, using, validating and deleting a key) and
  \<open>src/services/dekRotationService.ts\<close> (rotating the data keys), over one table of relayers.

  Every operation is a task that is cut at its \<open>await\<close>s: the calls of the database and of the key
  management service.  The lemmas hold for every interleaving: a stored key can always be decrypted,
  and nothing is left in the vault when nobody uses a key.  When the operations that write one relayer
  do not overlap, the stored key belongs to the stored public key; when they do, it need not.
\<close>

section \<open>The vault\<close>

record vault_context =
  vx_scope :: string
  vx_token :: string

text \<open>Keys by identifier, as the texts of their buffers, and the scopes of the tokens that are open.\<close>

record vault =
  vt_keys :: "(string \<times> string) list"
  vt_contexts :: "(string \<times> string) list"

definition vault_register :: "string \<Rightarrow> string \<Rightarrow> vault \<Rightarrow> (string, vault) result" where
  "vault_register keyId rawKey v =
     (if keyId = [] then Inl ''keyId must be a non-empty string.''
      else if rawKey = [] then Inl ''rawKey must be non-empty.''
      else if jm_get (vt_keys v) keyId \<noteq> None then Inl (''Key '' @ keyId @ '' is already registered. Call revoke() first.'')
      else Inr (v\<lparr>vt_keys := jm_set keyId rawKey (vt_keys v)\<rparr>))"

text \<open>The token of a context is random, an argument.\<close>

definition openContext :: "string \<Rightarrow> string \<Rightarrow> vault \<Rightarrow> (string, vault_context \<times> vault) result" where
  "openContext scope token v =
     (if scope = [] then Inl ''scope must be a non-empty string.''
      else Inr (\<lparr>vx_scope = scope, vx_token = token\<rparr>, v\<lparr>vt_contexts := jm_set token scope (vt_contexts v)\<rparr>))"

definition vault_retrieve :: "string \<Rightarrow> vault_context \<Rightarrow> vault \<Rightarrow> (string, string) result" where
  "vault_retrieve keyId x v =
     (case jm_get (vt_contexts v) (vx_token x) of
        None \<Rightarrow> Inl ''Invalid or unrecognised vault context.''
      | Some scope \<Rightarrow>
          if scope = [] then Inl ''Invalid or unrecognised vault context.''
          else if scope \<noteq> vx_scope x then Inl ''Vault context scope mismatch.''
          else case jm_get (vt_keys v) keyId of
              None \<Rightarrow> Inl (''No key registered for id '' @ keyId)
            | Some key \<Rightarrow> Inr key)"

definition closeContext :: "vault_context \<Rightarrow> vault \<Rightarrow> vault" where
  "closeContext x v = v\<lparr>vt_contexts := jm_delete (vx_token x) (vt_contexts v)\<rparr>"

definition vault_revoke :: "string \<Rightarrow> vault \<Rightarrow> vault" where
  "vault_revoke keyId v = v\<lparr>vt_keys := jm_delete keyId (vt_keys v)\<rparr>"

definition vault_purge :: "vault \<Rightarrow> vault" where
  "vault_purge v = \<lparr>vt_keys = [], vt_contexts = []\<rparr>"

section \<open>The table of relayers\<close>

record relayer_row =
  rr_id :: nat
  rr_name :: string
  rr_publicKey :: "string option"
  rr_encryptedPrivateKey :: "string option"
  rr_encryptedDek :: "string option"
  rr_dekVersion :: "nat option"
  rr_dekEncryptedAt :: "int option"
  rr_dekRotationScheduledAt :: "int option"
  rr_keyGeneratedAt :: "int option"

definition find_relayer :: "nat \<Rightarrow> relayer_row list \<Rightarrow> relayer_row option" where
  "find_relayer i rows = List.find (\<lambda>r. rr_id r = i) rows"

definition update_relayer :: "nat \<Rightarrow> (relayer_row \<Rightarrow> relayer_row) \<Rightarrow> relayer_row list \<Rightarrow> relayer_row list" where
  "update_relayer i f rows = map (\<lambda>r. if rr_id r = i then f r else r) rows"

definition ROTATION_INTERVAL_DAYS :: int where "ROTATION_INTERVAL_DAYS = 90"

definition next_rotation :: "int \<Rightarrow> int" where
  "next_rotation now = now + ROTATION_INTERVAL_DAYS * 24 * 60 * 60 * 1000"

definition has_text :: "string option \<Rightarrow> bool" where
  "has_text t \<longleftrightarrow> t \<noteq> None \<and> t \<noteq> Some []"

definition version_or :: "nat \<Rightarrow> nat option \<Rightarrow> nat" where
  "version_or d v = (case v of Some n \<Rightarrow> if n = 0 then d else n | None \<Rightarrow> d)"

definition stored_data :: "relayer_row \<Rightarrow> encrypted_data" where
  "stored_data r = \<lparr>ed_ciphertext = (case rr_encryptedPrivateKey r of Some c \<Rightarrow> c | None \<Rightarrow> []),
     ed_encryptedDek = (case rr_encryptedDek r of Some d \<Rightarrow> d | None \<Rightarrow> []), ed_dekVersion = version_or 1 (rr_dekVersion r)\<rparr>"

definition store_dek :: "encrypted_data \<Rightarrow> int \<Rightarrow> relayer_row \<Rightarrow> relayer_row" where
  "store_dek d now r = r\<lparr>rr_encryptedPrivateKey := Some (ed_ciphertext d), rr_encryptedDek := Some (ed_encryptedDek d),
     rr_dekVersion := Some (ed_dekVersion d), rr_dekEncryptedAt := Some now, rr_dekRotationScheduledAt := Some (next_rotation now)\<rparr>"

definition store_key :: "string \<Rightarrow> encrypted_data \<Rightarrow> int \<Rightarrow> relayer_row \<Rightarrow> relayer_row" where
  "store_key publicKey d now r = (store_dek d now r)\<lparr>rr_publicKey := Some publicKey, rr_keyGeneratedAt := Some now\<rparr>"

definition erase_key :: "relayer_row \<Rightarrow> relayer_row" where
  "erase_key r = r\<lparr>rr_publicKey := None, rr_encryptedPrivateKey := None, rr_encryptedDek := None, rr_dekVersion := None,
     rr_dekEncryptedAt := None, rr_dekRotationScheduledAt := None, rr_keyGeneratedAt := None\<rparr>"

record relayer_key_info =
  rk_relayerId :: nat
  rk_relayerName :: string
  rk_publicKey :: string
  rk_hasPrivateKey :: bool
  rk_dekVersion :: nat
  rk_keyGeneratedAt :: "int option"
  rk_dekEncryptedAt :: "int option"
  rk_dekRotationScheduledAt :: "int option"

definition key_info :: "nat \<Rightarrow> relayer_row \<Rightarrow> relayer_key_info" where
  "key_info noVersion r = \<lparr>rk_relayerId = rr_id r, rk_relayerName = rr_name r, rk_publicKey = (case rr_publicKey r of Some p \<Rightarrow> p | None \<Rightarrow> []),
     rk_hasPrivateKey = has_text (rr_encryptedPrivateKey r), rk_dekVersion = version_or noVersion (rr_dekVersion r),
     rk_keyGeneratedAt = rr_keyGeneratedAt r, rk_dekEncryptedAt = rr_dekEncryptedAt r, rk_dekRotationScheduledAt = rr_dekRotationScheduledAt r\<rparr>"

definition getKeyInfo :: "nat \<Rightarrow> relayer_row list \<Rightarrow> relayer_key_info option" where
  "getKeyInfo i rows = map_option (key_info 0) (find_relayer i rows)"

definition listAllKeys :: "relayer_row list \<Rightarrow> relayer_key_info list" where
  "listAllKeys rows = map (key_info 0) (sort_key rr_name rows)"

section \<open>Tasks\<close>

datatype key_error = RelayerKeyError string string | Plain_error string

record rotation_result =
  ro_relayerId :: nat
  ro_relayerName :: string
  ro_oldDekVersion :: nat
  ro_newDekVersion :: nat
  ro_error :: "string option"

datatype key_outcome = Key_stored relayer_key_info | Dek_rotated rotation_result | Key_deleted | Key_used | Key_failed key_error

text \<open>
  Where a task is suspended.  \<open>Use\<close> is \<open>withPrivateKey\<close> when the flag is off and
  \<open>validateEncryptedKey\<close> when it is on.
\<close>

datatype key_pc =
    Rotate_read nat
  | Gen_read nat bool
  | Gen_encrypt nat string
  | Gen_write nat string encrypted_data int
  | Dek_read nat
  | Dek_rotate relayer_row
  | Dek_write relayer_row encrypted_data int
  | Del_read nat
  | Del_write nat
  | Use_read nat bool
  | Use_decrypt relayer_row bool
  | Use_open nat bool vault_context
  | Use_callback nat vault_context
  | Use_validate nat vault_context string
  | Key_done key_outcome

text \<open>
  AES-GCM, the data keys that the key management service can open, and the public key of a secret
  (\<open>Keypair.fromSecret\<close>, which throws for texts that are not secrets).
\<close>

record key_env =
  kv_aes :: aes_gcm
  kv_opens :: "bytes \<Rightarrow> bytes option"
  kv_public :: "string \<Rightarrow> string option"

text \<open>What a step gets from outside: the clock, random values, and the answers, which may be failures.\<close>

record key_input =
  kn_now :: int
  kn_secret :: string
  kn_iv :: bytes
  kn_token :: string
  kn_generate :: generate_answer
  kn_kms_error :: "string option"
  kn_db_error :: "string option"
  kn_callback_error :: "string option"

definition kms_opens :: "key_env \<Rightarrow> string option \<Rightarrow> bytes \<Rightarrow> open_answer" where
  "kms_opens en err blob = (case err of Some m \<Rightarrow> Inl m
     | None \<Rightarrow> (case kv_opens en blob of Some dek \<Rightarrow> Inr (Some dek) | None \<Rightarrow> Inl ''InvalidCiphertextException''))"

definition vault_key_id :: "nat \<Rightarrow> string" where
  "vault_key_id i = ''relayer-key-'' @ show_nat i"

definition key_failed :: "string \<Rightarrow> string \<Rightarrow> key_pc" where
  "key_failed errcode message = Key_done (Key_failed (RelayerKeyError errcode message))"

definition not_found :: key_pc where
  "not_found = key_failed ''RELAYER_NOT_FOUND'' ''Relayer not found''"

definition dek_failed :: "relayer_row \<Rightarrow> string \<Rightarrow> key_pc" where
  "dek_failed r message = Key_done (Dek_rotated \<lparr>ro_relayerId = rr_id r, ro_relayerName = rr_name r,
     ro_oldDekVersion = version_or 0 (rr_dekVersion r), ro_newDekVersion = version_or 0 (rr_dekVersion r), ro_error = Some message\<rparr>)"

definition message_of :: "envelope_error \<Rightarrow> string" where
  "message_of e = (case e of KmsEnvelopeError _ m \<Rightarrow> m)"

text \<open>\<open>revokePrivateKey\<close>.\<close>

definition revokePrivateKey :: "nat \<Rightarrow> vault_context \<Rightarrow> vault \<Rightarrow> vault" where
  "revokePrivateKey i x v = vault_revoke (vault_key_id i) (closeContext x v)"

text \<open>The end of \<open>retrievePrivateKey\<close>, after the key was decrypted.\<close>

definition load_key :: "nat \<Rightarrow> bool \<Rightarrow> string \<Rightarrow> string \<Rightarrow> vault \<Rightarrow> key_pc \<times> vault" where
  "load_key i validate key token v =
     (let v1 = vault_revoke (vault_key_id i) v in
      case rbind (vault_register (vault_key_id i) key v1) (openContext (''relayer-'' @ show_nat i @ ''-signing'') token) of
        Inl m \<Rightarrow> (key_failed ''KEY_RETRIEVAL_FAILED'' (''Failed to retrieve private key: '' @ m), v1)
      | Inr (x, v2) \<Rightarrow> (Use_open i validate x, v2))"

fun key_resume :: "key_env \<Rightarrow> key_input \<Rightarrow> key_pc \<Rightarrow> relayer_row list \<Rightarrow> vault \<Rightarrow> key_pc \<times> relayer_row list \<times> vault" where
  "key_resume en n (Rotate_read i) rows v =
     (case kn_db_error n of
        Some m \<Rightarrow> (Key_done (Key_failed (Plain_error m)), rows, v)
      | None \<Rightarrow> (case find_relayer i rows of None \<Rightarrow> (not_found, rows, v) | Some r \<Rightarrow> (Gen_read i True, rows, v)))"
| "key_resume en n (Gen_read i force) rows v =
     (case kn_db_error n of
        Some m \<Rightarrow> (Key_done (Key_failed (Plain_error m)), rows, v)
      | None \<Rightarrow> (case find_relayer i rows of
          None \<Rightarrow> (not_found, rows, v)
        | Some r \<Rightarrow>
            if has_text (rr_encryptedPrivateKey r) \<and> \<not> force
            then (key_failed ''KEY_ALREADY_EXISTS'' (''Relayer '' @ rr_name r @ '' already has a key pair. Use force=true to regenerate.''), rows, v)
            else (Gen_encrypt i (kn_secret n), rows, v)))"
| "key_resume en n (Gen_encrypt i secret) rows v =
     (case envelope_encrypt (kv_aes en) (kn_iv n) (kn_generate n) secret 1 of
        Inl e \<Rightarrow> (key_failed ''KEY_GENERATION_FAILED'' (''Failed to generate key pair: '' @ message_of e), rows, v)
      | Inr d \<Rightarrow> (Gen_write i secret d (kn_now n), rows, v))"
| "key_resume en n (Gen_write i secret d now) rows v =
     (case kn_db_error n of
        Some m \<Rightarrow> (key_failed ''KEY_GENERATION_FAILED'' (''Failed to generate key pair: '' @ m), rows, v)
      | None \<Rightarrow>
          (let publicKey = (case kv_public en secret of Some p \<Rightarrow> p | None \<Rightarrow> []);
               rows' = update_relayer i (store_key publicKey d now) rows in
           case find_relayer i rows' of
             None \<Rightarrow> (key_failed ''KEY_GENERATION_FAILED'' ''Failed to generate key pair: Record to update not found.'', rows', v)
           | Some r \<Rightarrow> (Key_done (Key_stored (key_info 1 r)), rows', v)))"
| "key_resume en n (Dek_read i) rows v =
     (case kn_db_error n of
        Some m \<Rightarrow> (Key_done (Key_failed (Plain_error m)), rows, v)
      | None \<Rightarrow> (case find_relayer i rows of
          None \<Rightarrow> (Key_done (Dek_rotated \<lparr>ro_relayerId = i, ro_relayerName = ''Unknown'', ro_oldDekVersion = 0, ro_newDekVersion = 0, ro_error = Some ''Relayer not found''\<rparr>), rows, v)
        | Some r \<Rightarrow>
            if \<not> has_text (rr_encryptedPrivateKey r) \<or> \<not> has_text (rr_encryptedDek r) then (dek_failed r ''No encrypted key data found'', rows, v)
            else (Dek_rotate r, rows, v)))"
| "key_resume en n (Dek_rotate r) rows v =
     (case rotateEncryption (kv_aes en) (kms_opens en (kn_kms_error n)) (kn_iv n) (kn_generate n) (stored_data r) (version_or 1 (rr_dekVersion r) + 1) of
        Inl e \<Rightarrow> (dek_failed r (message_of e), rows, v)
      | Inr d \<Rightarrow> (Dek_write r d (kn_now n), rows, v))"
| "key_resume en n (Dek_write r d now) rows v =
     (case kn_db_error n of
        Some m \<Rightarrow> (dek_failed r m, rows, v)
      | None \<Rightarrow>
          if find_relayer (rr_id r) rows = None then (dek_failed r ''Record to update not found.'', rows, v)
          else (Key_done (Dek_rotated \<lparr>ro_relayerId = rr_id r, ro_relayerName = rr_name r, ro_oldDekVersion = version_or 1 (rr_dekVersion r),
                  ro_newDekVersion = version_or 1 (rr_dekVersion r) + 1, ro_error = None\<rparr>), update_relayer (rr_id r) (store_dek d now) rows, v))"
| "key_resume en n (Del_read i) rows v =
     (case kn_db_error n of
        Some m \<Rightarrow> (Key_done (Key_failed (Plain_error m)), rows, v)
      | None \<Rightarrow> (case find_relayer i rows of None \<Rightarrow> (not_found, rows, v) | Some r \<Rightarrow> (Del_write i, rows, v)))"
| "key_resume en n (Del_write i) rows v =
     (case kn_db_error n of
        Some m \<Rightarrow> (Key_done (Key_failed (Plain_error m)), rows, v)
      | None \<Rightarrow>
          if find_relayer i rows = None then (Key_done (Key_failed (Plain_error ''Record to update not found.'')), rows, v)
          else (Key_done Key_deleted, update_relayer i erase_key rows, v))"
| "key_resume en n (Use_read i validate) rows v =
     (case kn_db_error n of
        Some m \<Rightarrow> (Key_done (Key_failed (Plain_error m)), rows, v)
      | None \<Rightarrow> (case find_relayer i rows of
          None \<Rightarrow> (not_found, rows, v)
        | Some r \<Rightarrow>
            if \<not> has_text (rr_encryptedPrivateKey r) \<or> \<not> has_text (rr_encryptedDek r)
            then (key_failed ''NO_PRIVATE_KEY'' (''No private key found for relayer '' @ rr_name r), rows, v)
            else (Use_decrypt r validate, rows, v)))"
| "key_resume en n (Use_decrypt r validate) rows v =
     (case envelope_decrypt (kv_aes en) (kms_opens en (kn_kms_error n)) (stored_data r) of
        Inl e \<Rightarrow> (key_failed ''KEY_RETRIEVAL_FAILED'' (''Failed to retrieve private key: '' @ message_of e), rows, v)
      | Inr key \<Rightarrow> (case load_key (rr_id r) validate key (kn_token n) v of (pc, v') \<Rightarrow> (pc, rows, v')))"
| "key_resume en n (Use_open i validate x) rows v =
     (case vault_retrieve (vault_key_id i) x v of
        Inl m \<Rightarrow> (Key_done (Key_failed (Plain_error m)), rows, revokePrivateKey i x v)
      | Inr key \<Rightarrow>
          if \<not> validate then (Use_callback i x, rows, v)
          else (case kv_public en key of
              None \<Rightarrow> (Key_done (Key_failed (Plain_error ''invalid encoded string'')), rows, revokePrivateKey i x v)
            | Some p \<Rightarrow> (Use_validate i x p, rows, v)))"
| "key_resume en n (Use_callback i x) rows v =
     (Key_done (case kn_callback_error n of Some m \<Rightarrow> Key_failed (Plain_error m) | None \<Rightarrow> Key_used), rows, revokePrivateKey i x v)"
| "key_resume en n (Use_validate i x p) rows v =
     (Key_done (case kn_db_error n of
          Some m \<Rightarrow> Key_failed (Plain_error m)
        | None \<Rightarrow> (case find_relayer i rows of
            None \<Rightarrow> Key_used
          | Some r \<Rightarrow> if has_text (rr_publicKey r) \<and> Some p \<noteq> rr_publicKey r
              then Key_failed (Plain_error ''Public key mismatch: decrypted key does not match stored public key'') else Key_used)), rows, revokePrivateKey i x v)"
| "key_resume en n (Key_done out) rows v = (Key_done out, rows, v)"

section \<open>The system\<close>

record key_sys =
  ky_rows :: "relayer_row list"
  ky_vault :: vault
  ky_tasks :: "key_pc list"

definition key_next :: "key_env \<Rightarrow> key_input \<Rightarrow> nat \<Rightarrow> key_sys \<Rightarrow> key_sys" where
  "key_next en n k s = (case key_resume en n (ky_tasks s ! k) (ky_rows s) (ky_vault s) of
     (pc, rows, v) \<Rightarrow> \<lparr>ky_rows = rows, ky_vault = v, ky_tasks = (ky_tasks s)[k := pc]\<rparr>)"

text \<open>The entry points.\<close>

fun key_entry :: "key_pc \<Rightarrow> bool" where
  "key_entry (Rotate_read i) = True"
| "key_entry (Gen_read i force) = (\<not> force)"
| "key_entry (Dek_read i) = True"
| "key_entry (Del_read i) = True"
| "key_entry (Use_read i validate) = True"
| "key_entry _ = False"

text \<open>The relayer whose row a task is going to write.\<close>

fun writes :: "key_pc \<Rightarrow> nat option" where
  "writes (Rotate_read i) = Some i"
| "writes (Gen_read i force) = Some i"
| "writes (Gen_encrypt i secret) = Some i"
| "writes (Gen_write i secret d now) = Some i"
| "writes (Dek_read i) = Some i"
| "writes (Dek_rotate r) = Some (rr_id r)"
| "writes (Dek_write r d now) = Some (rr_id r)"
| "writes (Del_read i) = Some i"
| "writes (Del_write i) = Some i"
| "writes _ = None"

text \<open>
  Inputs as the libraries document them: initialisation vectors of 12 bytes, key pairs that are valid,
  and data keys that the key management service can open later.
\<close>

definition input_ok :: "key_env \<Rightarrow> key_input \<Rightarrow> bool" where
  "input_ok en n \<longleftrightarrow> length (kn_iv n) = 12 \<and> kv_public en (kn_secret n) \<noteq> None \<and> generated_opens (kms_opens en None) (kn_generate n)"

text \<open>Steps of the tasks in any order.  With \<open>excl\<close> a writer waits until no other one is busy with its relayer.\<close>

inductive key_step :: "key_env \<Rightarrow> bool \<Rightarrow> key_sys \<Rightarrow> key_sys \<Rightarrow> bool" for en excl where
  Begin: "key_entry pc \<Longrightarrow> (excl \<Longrightarrow> writes pc \<noteq> None \<Longrightarrow> writes pc \<notin> writes ` set (ky_tasks s))
    \<Longrightarrow> key_step en excl s (s\<lparr>ky_tasks := ky_tasks s @ [pc]\<rparr>)"
| Resume: "k < length (ky_tasks s) \<Longrightarrow> input_ok en n \<Longrightarrow> key_step en excl s (key_next en n k s)"
| Purge: "key_step en excl s (s\<lparr>ky_vault := vault_purge (ky_vault s)\<rparr>)"

inductive_cases key_stepE: "key_step en excl s s'"

section \<open>Stored keys\<close>

definition has_key :: "relayer_row \<Rightarrow> bool" where
  "has_key r \<longleftrightarrow> has_text (rr_encryptedPrivateKey r) \<and> has_text (rr_encryptedDek r)"

definition opens_to :: "key_env \<Rightarrow> encrypted_data \<Rightarrow> string \<Rightarrow> bool" where
  "opens_to en d secret \<longleftrightarrow> envelope_decrypt (kv_aes en) (kms_opens en None) d = Inr secret \<and> kv_public en secret \<noteq> None"

definition readable :: "key_env \<Rightarrow> relayer_row \<Rightarrow> bool" where
  "readable en r \<longleftrightarrow> (has_key r \<longrightarrow> (\<exists>secret. opens_to en (stored_data r) secret))"

definition key_matches :: "key_env \<Rightarrow> relayer_row \<Rightarrow> bool" where
  "key_matches en r \<longleftrightarrow> (has_key r \<longrightarrow> (\<exists>secret. opens_to en (stored_data r) secret \<and> rr_publicKey r = kv_public en secret))"

lemma matches_readable: "key_matches en r \<Longrightarrow> readable en r"
  by (auto simp: key_matches_def readable_def)

lemma envelope_decrypt_version: "ed_ciphertext d = ed_ciphertext d' \<Longrightarrow> ed_encryptedDek d = ed_encryptedDek d' \<Longrightarrow> opens_to en d s = opens_to en d' s"
  by (simp add: opens_to_def envelope_decrypt_def)

lemma opens_store: "opens_to en (stored_data (store_dek d now r)) s = opens_to en d s"
  by (rule envelope_decrypt_version) (simp_all add: stored_data_def store_dek_def)

lemma stored_store_key: "stored_data (store_key p d now r) = stored_data (store_dek d now r)"
  by (simp add: stored_data_def store_key_def store_dek_def)

lemma opens_store_key: "opens_to en (stored_data (store_key p d now r)) s = opens_to en d s"
  by (simp only: stored_store_key opens_store)

text \<open>An error of the key management service cannot make another key.\<close>

lemma kms_error_fails: "envelope_decrypt ae (kms_opens en (Some m)) d \<noteq> Inr x"
  by (simp add: envelope_decrypt_def decryptDataKey_def kms_opens_def Let_def rbind_eq_Inr)

lemma envelope_rotated:
  assumes "gcm_ok (kv_aes en)" "input_ok en n" "rotateEncryption (kv_aes en) (kms_opens en err) (kn_iv n) (kn_generate n) d v = Inr d'"
  shows "opens_to en d s \<longrightarrow> opens_to en d' s"
proof -
  obtain t where t: "envelope_decrypt (kv_aes en) (kms_opens en err) d = Inr t" "envelope_encrypt (kv_aes en) (kn_iv n) (kn_generate n) t v = Inr d'"
    using assms(3) unfolding rotateEncryption_eq by (auto simp: rbind_eq_Inr)
  have "err = None" using t(1) kms_error_fails [of "kv_aes en" en _ d t] by (cases err) auto
  moreover have "envelope_decrypt (kv_aes en) (kms_opens en None) d' = Inr t"
    using envelope_decrypt_encrypt [OF assms(1) _ _ t(2)] assms(2) by (simp add: input_ok_def)
  ultimately show ?thesis using t(1) by (simp add: opens_to_def)
qed

lemma envelope_generated:
  assumes "gcm_ok (kv_aes en)" "input_ok en n" "envelope_encrypt (kv_aes en) (kn_iv n) (kn_generate n) s v = Inr d" "kv_public en s \<noteq> None"
  shows "opens_to en d s"
  using envelope_decrypt_encrypt [OF assms(1) _ _ assms(3)] assms(2,4) by (simp add: input_ok_def opens_to_def)

section \<open>The table\<close>

lemma find_relayer_id: "find_relayer i rows = Some r \<Longrightarrow> r \<in> set rows \<and> rr_id r = i"
  by (auto simp: find_relayer_def find_Some_iff)

lemma find_relayer_unique: "distinct (map rr_id rows) \<Longrightarrow> r \<in> set rows \<Longrightarrow> find_relayer (rr_id r) rows = Some r"
  by (induction rows) (auto simp: find_relayer_def image_iff)

lemma update_relayer_set: "r' \<in> set (update_relayer i f rows) \<Longrightarrow> (r' \<in> set rows \<and> rr_id r' \<noteq> i) \<or> (\<exists>r \<in> set rows. rr_id r = i \<and> r' = f r)"
  by (auto simp: update_relayer_def split: if_splits)

lemma update_relayer_ids: "(\<And>r. rr_id (f r) = rr_id r) \<Longrightarrow> map rr_id (update_relayer i f rows) = map rr_id rows"
  by (simp add: update_relayer_def comp_def)

lemma find_update_other: "(\<And>r. rr_id (f r) = rr_id r) \<Longrightarrow> j \<noteq> i \<Longrightarrow> find_relayer j (update_relayer i f rows) = find_relayer j rows"
  by (induction rows) (auto simp: find_relayer_def update_relayer_def)

lemma store_ids [simp]: "rr_id (store_dek d now r) = rr_id r" "rr_id (store_key p d now r) = rr_id r" "rr_id (erase_key r) = rr_id r"
  by (simp_all add: store_dek_def store_key_def erase_key_def)

lemma erased_no_key [simp]: "\<not> has_key (erase_key r)"
  by (simp add: has_key_def has_text_def erase_key_def)

section \<open>What every interleaving keeps\<close>

definition table_ok :: "key_env \<Rightarrow> bool \<Rightarrow> relayer_row list \<Rightarrow> bool" where
  "table_ok en excl rows \<longleftrightarrow> distinct (map rr_id rows) \<and> (\<forall>r \<in> set rows. readable en r \<and> (excl \<longrightarrow> key_matches en r))"

fun pc_ok :: "key_env \<Rightarrow> bool \<Rightarrow> relayer_row list \<Rightarrow> key_pc \<Rightarrow> bool" where
  "pc_ok en excl rows (Gen_encrypt i secret) = (kv_public en secret \<noteq> None)"
| "pc_ok en excl rows (Gen_write i secret d now) = opens_to en d secret"
| "pc_ok en excl rows (Dek_rotate r) = (has_key r \<and> readable en r \<and> (excl \<longrightarrow> find_relayer (rr_id r) rows = Some r))"
| "pc_ok en excl rows (Dek_write r d now) = ((\<exists>secret. opens_to en d secret) \<and>
     (excl \<longrightarrow> find_relayer (rr_id r) rows = Some r \<and> has_key r \<and> (\<forall>secret. opens_to en (stored_data r) secret \<longrightarrow> opens_to en d secret)))"
| "pc_ok en excl rows _ = True"

definition one_writer :: "key_pc list \<Rightarrow> bool" where
  "one_writer ts \<longleftrightarrow> (\<forall>j < length ts. \<forall>k < length ts. \<forall>x. writes (ts ! j) = Some x \<longrightarrow> writes (ts ! k) = Some x \<longrightarrow> j = k)"

definition key_inv :: "key_env \<Rightarrow> bool \<Rightarrow> key_sys \<Rightarrow> bool" where
  "key_inv en excl s \<longleftrightarrow> table_ok en excl (ky_rows s) \<and> (\<forall>pc \<in> set (ky_tasks s). pc_ok en excl (ky_rows s) pc) \<and> (excl \<longrightarrow> one_writer (ky_tasks s))"

lemma table_ok_find: "table_ok en excl rows \<Longrightarrow> find_relayer i rows = Some r \<Longrightarrow> readable en r \<and> (excl \<longrightarrow> key_matches en r)"
  using find_relayer_id by (fastforce simp: table_ok_def)

lemma table_ok_update:
  assumes "table_ok en excl rows" "\<And>r. rr_id (f r) = rr_id r"
    and "\<And>r. r \<in> set rows \<Longrightarrow> rr_id r = i \<Longrightarrow> readable en (f r) \<and> (excl \<longrightarrow> key_matches en (f r))"
  shows "table_ok en excl (update_relayer i f rows)"
proof -
  have "readable en r' \<and> (excl \<longrightarrow> key_matches en r')" if "r' \<in> set (update_relayer i f rows)" for r'
    using update_relayer_set [OF that] assms(1,3) by (auto simp: table_ok_def)
  then show ?thesis using assms(1) update_relayer_ids [OF assms(2)] by (auto simp: table_ok_def)
qed

lemma table_ok_erase: "table_ok en excl rows \<Longrightarrow> table_ok en excl (update_relayer i erase_key rows)"
  by (rule table_ok_update) (simp_all add: readable_def key_matches_def)

lemma table_ok_store_key:
  assumes "table_ok en excl rows" "opens_to en d secret"
  shows "table_ok en excl (update_relayer i (store_key (case kv_public en secret of Some p \<Rightarrow> p | None \<Rightarrow> []) d now) rows)"
proof (rule table_ok_update [OF assms(1)])
  let ?f = "store_key (case kv_public en secret of Some p \<Rightarrow> p | None \<Rightarrow> []) d now"
  fix r
  have "opens_to en (stored_data (?f r)) secret" using assms(2) by (simp only: opens_store_key)
  moreover have "rr_publicKey (?f r) = kv_public en secret" using assms(2) by (auto simp: opens_to_def store_key_def)
  ultimately show "readable en (?f r) \<and> (excl \<longrightarrow> key_matches en (?f r))" unfolding readable_def key_matches_def by blast
qed simp

lemma table_ok_store_dek:
  assumes "table_ok en excl rows" "pc_ok en excl rows (Dek_write r d now)"
  shows "table_ok en excl (update_relayer (rr_id r) (store_dek d now) rows)"
proof (rule table_ok_update [OF assms(1)])
  fix q assume q: "q \<in> set rows" "rr_id q = rr_id r"
  obtain s where s: "opens_to en d s" using assms(2) by auto
  have "key_matches en (store_dek d now q)" if ex: excl
  proof -
    have "find_relayer (rr_id q) rows = Some q" using find_relayer_unique assms(1) q(1) by (simp add: table_ok_def)
    then have "q = r" using assms(2) ex q(2) by simp
    moreover have "key_matches en q" using assms(1) q(1) ex by (auto simp: table_ok_def)
    ultimately obtain t where "opens_to en (stored_data r) t" "rr_publicKey r = kv_public en t"
      using assms(2) ex by (auto simp: key_matches_def)
    then have "opens_to en d t" using assms(2) ex by auto
    then show ?thesis using \<open>q = r\<close> \<open>rr_publicKey r = kv_public en t\<close> unfolding key_matches_def opens_store by (auto simp: store_dek_def)
  qed
  moreover have "readable en (store_dek d now q)" using s unfolding readable_def opens_store by blast
  ultimately show "readable en (store_dek d now q) \<and> (excl \<longrightarrow> key_matches en (store_dek d now q))" by blast
qed simp

lemma load_key_pc: "load_key i val key token v = (pc, v') \<Longrightarrow> writes pc = None \<and> pc_ok en excl rows pc"
  by (auto simp: load_key_def key_failed_def Let_def split: sum.splits)

lemmas key_ends = key_failed_def not_found_def dek_failed_def

text \<open>One step of a task: the table stays fine, the task too, and only the row of the relayer it writes changes.\<close>

lemma key_resume_ok:
  assumes "gcm_ok (kv_aes en)" "input_ok en n" "table_ok en excl rows" "pc_ok en excl rows pc" "key_resume en n pc rows v = (pc', rows', v')"
  shows "table_ok en excl rows' \<and> pc_ok en excl rows' pc' \<and> (writes pc' = None \<or> writes pc' = writes pc)
    \<and> (\<forall>j. writes pc \<noteq> Some j \<longrightarrow> find_relayer j rows' = find_relayer j rows)"
proof (cases pc)
  case (Gen_encrypt i s)
  then show ?thesis using assms envelope_generated [OF assms(1,2)] by (auto simp: key_ends split: sum.splits)
next
  case (Gen_write i s d now)
  have o: "opens_to en d s" using assms(4) Gen_write by simp
  show ?thesis
  proof (cases "kn_db_error n")
    case None
    let ?rows = "update_relayer i (store_key (case kv_public en s of Some p \<Rightarrow> p | None \<Rightarrow> []) d now) rows"
    have "rows' = ?rows" "writes pc' = None" "pc_ok en excl rows' pc'"
      using assms(5) Gen_write None by (auto simp: Let_def key_ends split: option.splits)
    then show ?thesis using table_ok_store_key [OF assms(3) o] Gen_write by (simp add: find_update_other)
  qed (use assms Gen_write in \<open>auto simp: key_ends\<close>)
next
  case (Dek_read i)
  then show ?thesis using assms table_ok_find [OF assms(3), of i] find_relayer_id [of i rows]
    by (auto simp: key_ends has_key_def split: option.splits if_splits)
next
  case (Dek_rotate r)
  show ?thesis
  proof (cases "rotateEncryption (kv_aes en) (kms_opens en (kn_kms_error n)) (kn_iv n) (kn_generate n) (stored_data r) (version_or 1 (rr_dekVersion r) + 1)")
    case (Inr d)
    obtain t where t: "opens_to en (stored_data r) t" using assms(4) Dek_rotate by (auto simp: readable_def)
    then have "opens_to en d t" using envelope_rotated [OF assms(1,2) Inr] by blast
    then have "\<exists>secret. opens_to en d secret" by blast
    then show ?thesis using assms(3,4,5) Dek_rotate Inr envelope_rotated [OF assms(1,2) Inr] by auto
  qed (use assms Dek_rotate in \<open>auto simp: key_ends\<close>)
next
  case (Dek_write r d now)
  show ?thesis
  proof (cases "kn_db_error n = None \<and> find_relayer (rr_id r) rows \<noteq> None")
    case True
    then have "rows' = update_relayer (rr_id r) (store_dek d now) rows" "writes pc' = None" "pc_ok en excl rows' pc'"
      using assms(5) Dek_write by auto
    then show ?thesis using table_ok_store_dek [OF assms(3)] assms(4) Dek_write by (simp add: find_update_other)
  qed (use assms Dek_write in \<open>auto simp: key_ends split: option.splits\<close>)
next
  case (Del_write i)
  then show ?thesis using assms table_ok_erase [OF assms(3), of i] by (auto simp: find_update_other split: option.splits if_splits)
next
  case (Use_decrypt r val)
  then show ?thesis using assms load_key_pc by (auto simp: key_ends split: sum.splits prod.splits)
next
  case (Gen_read i force)
  then show ?thesis using assms by (auto simp: key_ends input_ok_def split: option.splits if_splits)
qed (use assms in \<open>auto simp: key_ends split: option.splits sum.splits if_splits\<close>)

lemma pc_ok_find:
  "pc_ok en excl rows pc \<Longrightarrow> (\<And>j. excl \<Longrightarrow> writes pc = Some j \<Longrightarrow> find_relayer j rows' = find_relayer j rows) \<Longrightarrow> pc_ok en excl rows' pc"
  by (cases pc) auto

lemma one_writerD: "one_writer ts \<Longrightarrow> j < length ts \<Longrightarrow> k < length ts \<Longrightarrow> j \<noteq> k \<Longrightarrow> writes (ts ! j) = Some x \<Longrightarrow> writes (ts ! k) \<noteq> Some x"
  unfolding one_writer_def by blast

lemma key_next_inv:
  assumes "gcm_ok (kv_aes en)" "input_ok en n" "key_inv en excl s" "k < length (ky_tasks s)"
  shows "key_inv en excl (key_next en n k s)"
proof -
  let ?ts = "ky_tasks s" and ?rows = "ky_rows s"
  obtain pc rows v where r: "key_resume en n (?ts ! k) ?rows (ky_vault s) = (pc, rows, v)" by (cases "key_resume en n (?ts ! k) ?rows (ky_vault s)")
  have i: "table_ok en excl ?rows" "\<And>j. j < length ?ts \<Longrightarrow> pc_ok en excl ?rows (?ts ! j)" "excl \<Longrightarrow> one_writer ?ts"
    using assms(3) by (auto simp: key_inv_def)
  note step = key_resume_ok [OF assms(1,2) i(1) i(2) [OF assms(4)] r]
  have "pc_ok en excl rows (?ts[k := pc] ! j)" if j: "j < length ?ts" for j
  proof (cases "j = k")
    case False
    have "writes (?ts ! k) \<noteq> Some x" if x: "excl" "writes (?ts ! j) = Some x" for x
      using one_writerD [OF i(3) [OF x(1)] j assms(4) False x(2)] .
    then show ?thesis using pc_ok_find [OF i(2) [OF j]] step False by simp
  qed (use step j in simp)
  moreover have "one_writer (?ts[k := pc])" if excl
  proof -
    have "writes (?ts ! j) = Some x" if "j < length ?ts" "writes (?ts[k := pc] ! j) = Some x" for j x
      using step that assms(4) by (cases "j = k") auto
    then show ?thesis using i(3) [OF that] unfolding one_writer_def by auto
  qed
  ultimately show ?thesis using step r by (auto simp: key_inv_def key_next_def in_set_conv_nth)
qed

lemma key_entry_ok: "key_entry pc \<Longrightarrow> pc_ok en excl rows pc"
  by (cases pc) auto

lemma key_step_inv:
  assumes "gcm_ok (kv_aes en)" "key_step en excl s s'" "key_inv en excl s"
  shows "key_inv en excl s'"
  using assms(2)
proof (cases rule: key_step.cases)
  case (Begin pc)
  let ?ts = "ky_tasks s"
  have "one_writer (?ts @ [pc])" if ex: excl
  proof -
    have o: "one_writer ?ts" using assms(3) ex by (simp add: key_inv_def)
    have n: "writes (?ts ! j) \<noteq> writes pc" if "j < length ?ts" "writes pc \<noteq> None" for j
      using Begin(3) [OF ex that(2)] that(1) by (metis image_eqI nth_mem)
    have "j = k" if "j < Suc (length ?ts)" "k < Suc (length ?ts)" "writes ((?ts @ [pc]) ! j) = Some x" "writes ((?ts @ [pc]) ! k) = Some x" for j k x
      using o n [of j] n [of k] that unfolding one_writer_def
      by (cases "j < length ?ts"; cases "k < length ?ts") (auto simp: nth_append less_Suc_eq)
    then show ?thesis unfolding one_writer_def by simp
  qed
  then show ?thesis using assms(3) Begin key_entry_ok by (auto simp: key_inv_def)
qed (use key_next_inv assms in \<open>auto simp: key_inv_def\<close>)

definition key_init :: "key_env \<Rightarrow> key_sys \<Rightarrow> bool" where
  "key_init en s \<longleftrightarrow> ky_tasks s = [] \<and> vt_keys (ky_vault s) = [] \<and> vt_contexts (ky_vault s) = [] \<and> table_ok en True (ky_rows s)"

lemma key_reach_inv:
  assumes "gcm_ok (kv_aes en)" "(key_step en excl)\<^sup>*\<^sup>* s s'" "key_init en s"
  shows "key_inv en excl s'"
proof -
  have "key_inv en excl s" using assms(3) matches_readable by (auto simp: key_init_def key_inv_def table_ok_def one_writer_def)
  with assms(2) show ?thesis by (induction rule: rtranclp_induct) (auto intro: key_step_inv [OF assms(1)])
qed

text \<open>
  C20. In every interleaving of generating, rotating, deleting, using and validating keys, with failures of
  the database and of the key management service at any call, a stored private key can be decrypted;
  and when the operations that write one relayer do not overlap it is the secret of the public key
  that is stored beside it.
\<close>

theorem stored_keys_sound:
  assumes "gcm_ok (kv_aes en)" "key_init en s" "(key_step en excl)\<^sup>*\<^sup>* s s'" "find_relayer i (ky_rows s') = Some r" "has_key r"
  shows "\<exists>secret. envelope_decrypt (kv_aes en) (kms_opens en None) (stored_data r) = Inr secret
    \<and> (excl \<longrightarrow> rr_publicKey r = kv_public en secret)"
proof -
  have "table_ok en excl (ky_rows s')" using key_reach_inv [OF assms(1,3,2)] by (simp add: key_inv_def)
  from table_ok_find [OF this assms(4)] show ?thesis using assms(5) by (auto simp: readable_def key_matches_def opens_to_def)
qed

section \<open>The vault at rest\<close>

text \<open>The relayer and the context of a task that has loaded a key.\<close>

fun holder :: "key_pc \<Rightarrow> (nat \<times> vault_context) option" where
  "holder (Use_open i validate x) = Some (i, x)"
| "holder (Use_callback i x) = Some (i, x)"
| "holder (Use_validate i x p) = Some (i, x)"
| "holder _ = None"

definition held_keys :: "key_pc \<Rightarrow> string set" where
  "held_keys pc = (case holder pc of Some (i, x) \<Rightarrow> {vault_key_id i} | None \<Rightarrow> {})"

definition held_tokens :: "key_pc \<Rightarrow> string set" where
  "held_tokens pc = (case holder pc of Some (i, x) \<Rightarrow> {vx_token x} | None \<Rightarrow> {})"

definition vault_ids :: "vault \<Rightarrow> string set" where
  "vault_ids v = set (jm_keys (vt_keys v))"

definition vault_tokens :: "vault \<Rightarrow> string set" where
  "vault_tokens v = set (jm_keys (vt_contexts v))"

definition vault_held :: "key_sys \<Rightarrow> bool" where
  "vault_held s \<longleftrightarrow> vault_ids (ky_vault s) \<subseteq> (\<Union>pc \<in> set (ky_tasks s). held_keys pc)
     \<and> vault_tokens (ky_vault s) \<subseteq> (\<Union>pc \<in> set (ky_tasks s). held_tokens pc)"

lemma jm_delete_keys: "set (jm_keys (jm_delete k m)) = set (jm_keys m) - {k}"
  by (induction m) (auto simp: jm_delete_def)

lemmas jm_key_sets = jm_delete_keys [unfolded set_map] jm_keys_set [unfolded set_map]

lemma revoke_ids [simp]: "vault_ids (vault_revoke k v) = vault_ids v - {k}" "vault_tokens (vault_revoke k v) = vault_tokens v"
  unfolding vault_ids_def vault_tokens_def vault_revoke_def by (simp_all add: jm_key_sets)

lemma close_ids [simp]: "vault_ids (closeContext x v) = vault_ids v" "vault_tokens (closeContext x v) = vault_tokens v - {vx_token x}"
  unfolding vault_ids_def vault_tokens_def closeContext_def by (simp_all add: jm_key_sets)

lemma revokePrivateKey_ids [simp]:
  "vault_ids (revokePrivateKey i x v) = vault_ids v - {vault_key_id i}" "vault_tokens (revokePrivateKey i x v) = vault_tokens v - {vx_token x}"
  by (simp_all add: revokePrivateKey_def)

lemma register_ids: "vault_register k key v = Inr v' \<Longrightarrow> vault_ids v' = insert k (vault_ids v) \<and> vault_tokens v' = vault_tokens v"
  unfolding vault_ids_def vault_tokens_def vault_register_def by (clarsimp simp: jm_key_sets split: if_splits)

lemma open_ids: "openContext scope token v = Inr (x, v') \<Longrightarrow> vault_ids v' = vault_ids v \<and> vault_tokens v' = insert token (vault_tokens v) \<and> vx_token x = token"
  unfolding vault_ids_def vault_tokens_def openContext_def by (clarsimp simp: jm_key_sets split: if_splits)

lemma load_key_vault:
  assumes "load_key i val key token v = (pc, v')"
  shows "vault_ids v' \<subseteq> vault_ids v \<union> held_keys pc \<and> vault_tokens v' \<subseteq> vault_tokens v \<union> held_tokens pc"
proof (cases "rbind (vault_register (vault_key_id i) key (vault_revoke (vault_key_id i) v)) (openContext (''relayer-'' @ show_nat i @ ''-signing'') token)")
  case (Inl m)
  then show ?thesis using assms unfolding load_key_def Let_def by auto
next
  case (Inr xv)
  obtain x v2 where x: "xv = (x, v2)" by (cases xv)
  obtain v1 where v1: "vault_register (vault_key_id i) key (vault_revoke (vault_key_id i) v) = Inr v1"
    "openContext (''relayer-'' @ show_nat i @ ''-signing'') token v1 = Inr (x, v2)" using Inr x unfolding rbind_eq_Inr by blast
  have "pc = Use_open i val x" "v' = v2" using assms Inr x unfolding load_key_def Let_def by auto
  then show ?thesis using register_ids [OF v1(1)] open_ids [OF v1(2)] by (auto simp: held_keys_def held_tokens_def)
qed

text \<open>What a task drops is gone from the vault, what is new there it holds.\<close>

lemma key_resume_vault:
  assumes "key_resume en n pc rows v = (pc', rows', v')"
  shows "vault_ids v' \<subseteq> (vault_ids v - (held_keys pc - held_keys pc')) \<union> held_keys pc'
    \<and> vault_tokens v' \<subseteq> (vault_tokens v - (held_tokens pc - held_tokens pc')) \<union> held_tokens pc'"
proof (cases pc)
  case (Use_decrypt r val)
  have n: "held_keys pc = {}" "held_tokens pc = {}" by (simp_all add: Use_decrypt held_keys_def held_tokens_def)
  show ?thesis
  proof (cases "envelope_decrypt (kv_aes en) (kms_opens en (kn_kms_error n)) (stored_data r)")
    case (Inr key)
    then have "load_key (rr_id r) val key (kn_token n) v = (pc', v')" using assms Use_decrypt by (auto split: prod.splits)
    from load_key_vault [OF this] show ?thesis by (simp add: n)
  qed (use assms Use_decrypt n in auto)
qed (use assms in \<open>auto simp: held_keys_def held_tokens_def key_ends Let_def split: option.splits sum.splits if_splits\<close>)

lemma subset_update:
  assumes "A \<subseteq> (\<Union>pc \<in> set ts. f pc)" "B \<subseteq> (A - (f (ts ! k) - f pc')) \<union> f pc'" "k < length ts"
  shows "B \<subseteq> (\<Union>pc \<in> set (ts[k := pc']). f pc)"
proof
  fix b assume "b \<in> B"
  then consider "b \<in> f pc'" | "b \<in> A" "b \<notin> f (ts ! k)" using assms(2) by blast
  then show "b \<in> (\<Union>pc \<in> set (ts[k := pc']). f pc)"
  proof cases
    case 1
    then show ?thesis using assms(3) set_update_memI by fastforce
  next
    case 2
    then obtain t where "t \<in> set ts" "b \<in> f t" using assms(1) by blast
    then obtain j where j: "j < length ts" "b \<in> f (ts ! j)" unfolding in_set_conv_nth by blast
    then have "ts[k := pc'] ! j = ts ! j" "j < length (ts[k := pc'])" using 2(2) by (cases "j = k"; simp)+
    then show ?thesis using j(2) by (metis UN_iff nth_mem)
  qed
qed

lemma key_step_vault:
  assumes "key_step en excl s s'" "vault_held s"
  shows "vault_held s'"
  using assms(1)
proof (cases rule: key_step.cases)
  case (Resume k n)
  obtain pc rows v where r: "key_resume en n (ky_tasks s ! k) (ky_rows s) (ky_vault s) = (pc, rows, v)"
    by (cases "key_resume en n (ky_tasks s ! k) (ky_rows s) (ky_vault s)")
  have h: "vault_ids (ky_vault s) \<subseteq> (\<Union>pc \<in> set (ky_tasks s). held_keys pc)" "vault_tokens (ky_vault s) \<subseteq> (\<Union>pc \<in> set (ky_tasks s). held_tokens pc)"
    using assms(2) unfolding vault_held_def by blast+
  have "s' = \<lparr>ky_rows = rows, ky_vault = v, ky_tasks = (ky_tasks s)[k := pc]\<rparr>" using Resume(1) r by (simp add: key_next_def)
  then show ?thesis using key_resume_vault [OF r] subset_update [OF h(1) _ Resume(2)] subset_update [OF h(2) _ Resume(2)]
    by (simp add: vault_held_def)
qed (use assms(2) in \<open>auto simp: vault_held_def vault_purge_def vault_ids_def vault_tokens_def\<close>)

text \<open>
  In every interleaving, whatever fails, the vault holds no key and no open context when no task is
  using a key.
\<close>

theorem vault_empty_at_rest:
  assumes "key_init en s" "(key_step en excl)\<^sup>*\<^sup>* s s'" "\<forall>pc \<in> set (ky_tasks s'). holder pc = None"
  shows "vt_keys (ky_vault s') = [] \<and> vt_contexts (ky_vault s') = []"
proof -
  have "vault_held s" using assms(1) by (simp add: key_init_def vault_held_def vault_ids_def vault_tokens_def)
  with assms(2) have "vault_held s'" by (induction rule: rtranclp_induct) (auto intro: key_step_vault)
  then show ?thesis using assms(3) by (auto simp: vault_held_def held_keys_def held_tokens_def vault_ids_def vault_tokens_def)
qed

section \<open>The rotation of data keys\<close>

definition ROTATION_GRACE_PERIOD_HOURS :: int where "ROTATION_GRACE_PERIOD_HOURS = 24"

definition needs_rotation :: "int \<Rightarrow> relayer_row \<Rightarrow> bool" where
  "needs_rotation now r \<longleftrightarrow> rr_encryptedPrivateKey r \<noteq> None \<and> rr_encryptedDek r \<noteq> None
     \<and> (case rr_dekRotationScheduledAt r of
          Some t \<Rightarrow> t \<le> now
        | None \<Rightarrow> (case rr_dekEncryptedAt r of Some t \<Rightarrow> t \<le> now - ROTATION_INTERVAL_DAYS * 24 * 60 * 60 * 1000 | None \<Rightarrow> False))"

definition findRelayersNeedingRotation :: "int \<Rightarrow> relayer_row list \<Rightarrow> relayer_row list" where
  "findRelayersNeedingRotation now rows = filter (needs_rotation now) rows"

definition findSeverelyOverdueRelayers :: "int \<Rightarrow> int \<Rightarrow> relayer_row list \<Rightarrow> relayer_row list" where
  "findSeverelyOverdueRelayers now gracePeriodHours rows =
     filter (\<lambda>r. rr_encryptedPrivateKey r \<noteq> None \<and> (case rr_dekRotationScheduledAt r of Some t \<Rightarrow> t \<le> now - gracePeriodHours * 60 * 60 * 1000 | None \<Rightarrow> False)) rows"

definition scheduleNextRotation :: "int \<Rightarrow> nat \<Rightarrow> int \<Rightarrow> relayer_row list \<Rightarrow> relayer_row list" where
  "scheduleNextRotation now i daysFromNow rows =
     update_relayer i (\<lambda>r. r\<lparr>rr_dekRotationScheduledAt := Some (now + daysFromNow * 24 * 60 * 60 * 1000)\<rparr>) rows"

record rotation_stats =
  rg_totalWithKeys :: nat
  rg_overdueCount :: nat
  rg_upcomingCount :: nat
  rg_neverRotatedCount :: nat

definition getRotationStats :: "int \<Rightarrow> relayer_row list \<Rightarrow> rotation_stats" where
  "getRotationStats now rows =
     (let cnt = (\<lambda>P. length (filter (\<lambda>r. rr_encryptedPrivateKey r \<noteq> None \<and> P r) rows));
          soon = now + 7 * 24 * 60 * 60 * 1000 in
      \<lparr>rg_totalWithKeys = cnt (\<lambda>r. rr_encryptedDek r \<noteq> None),
       rg_overdueCount = cnt (\<lambda>r. case rr_dekRotationScheduledAt r of Some t \<Rightarrow> t \<le> now | None \<Rightarrow> False),
       rg_upcomingCount = cnt (\<lambda>r. case rr_dekRotationScheduledAt r of Some t \<Rightarrow> now < t \<and> t \<le> soon | None \<Rightarrow> False),
       rg_neverRotatedCount = cnt (\<lambda>r. rr_dekRotationScheduledAt r = None)\<rparr>)"

text \<open>A rotation on its own, with the inputs of its three steps.\<close>

definition rotateRelayerDek :: "key_env \<Rightarrow> key_input list \<Rightarrow> nat \<Rightarrow> relayer_row list \<Rightarrow> (string, rotation_result) result \<times> relayer_row list" where
  "rotateRelayerDek en ns i rows =
     (case fold (\<lambda>n (pc, rows, v). key_resume en n pc rows v) ns (Dek_read i, rows, \<lparr>vt_keys = [], vt_contexts = []\<rparr>) of
        (Key_done (Dek_rotated res), rows', _) \<Rightarrow> (Inr res, rows')
      | (Key_done (Key_failed (Plain_error m)), rows', _) \<Rightarrow> (Inl m, rows')
      | (_, rows', _) \<Rightarrow> (Inl ''not finished'', rows'))"

fun rotate_each :: "key_env \<Rightarrow> (nat \<Rightarrow> key_input list) \<Rightarrow> nat list \<Rightarrow> relayer_row list \<Rightarrow> (string, rotation_result list) result \<times> relayer_row list" where
  "rotate_each en ins [] rows = (Inr [], rows)"
| "rotate_each en ins (i # is) rows = (case rotateRelayerDek en (ins i) i rows of
     (Inl m, rows') \<Rightarrow> (Inl m, rows')
   | (Inr res, rows') \<Rightarrow> (case rotate_each en ins is rows' of (Inl m, rows'') \<Rightarrow> (Inl m, rows'') | (Inr rs, rows'') \<Rightarrow> (Inr (res # rs), rows'')))"

record rotation_summary =
  rm_totalRelayers :: nat
  rm_rotatedCount :: nat
  rm_failedCount :: nat
  rm_skippedCount :: nat
  rm_results :: "rotation_result list"

definition rotateAllOverdueDeks ::
  "key_env \<Rightarrow> bool \<Rightarrow> bool \<Rightarrow> nat option \<Rightarrow> int \<Rightarrow> (nat \<Rightarrow> key_input list) \<Rightarrow> relayer_row list \<Rightarrow> (string, rotation_summary) result \<times> relayer_row list" where
  "rotateAllOverdueDeks en isRotating dryRun maxRelayers now ins rows =
     (let nobody = \<lparr>rm_totalRelayers = 0, rm_rotatedCount = 0, rm_failedCount = 0, rm_skippedCount = 0, rm_results = []\<rparr>;
          due = findRelayersNeedingRotation now rows;
          chosen = (case maxRelayers of Some m \<Rightarrow> if m = 0 then due else take m due | None \<Rightarrow> due) in
      if isRotating then (Inr nobody, rows)
      else if chosen = [] then (Inr nobody, rows)
      else if dryRun then (Inr (nobody\<lparr>rm_totalRelayers := length chosen, rm_skippedCount := length chosen\<rparr>), rows)
      else (case rotate_each en ins (map rr_id chosen) rows of
          (Inl m, rows') \<Rightarrow> (Inl m, rows')
        | (Inr rs, rows') \<Rightarrow> (Inr \<lparr>rm_totalRelayers = length chosen, rm_rotatedCount = length (filter (\<lambda>x. ro_error x = None) rs),
              rm_failedCount = length (filter (\<lambda>x. ro_error x \<noteq> None) rs), rm_skippedCount = 0, rm_results = rs\<rparr>, rows')))"

text \<open>Inputs of a rotation in which every call succeeds.\<close>

definition all_answers :: "key_env \<Rightarrow> int \<Rightarrow> key_input list \<Rightarrow> bool" where
  "all_answers en now ns \<longleftrightarrow> (\<exists>n1 n2 n3 dek blob. ns = [n1, n2, n3] \<and> kn_db_error n1 = None \<and> kn_db_error n3 = None \<and> kn_kms_error n2 = None
     \<and> input_ok en n2 \<and> kn_generate n2 = Inr (Some dek, Some blob) \<and> length dek = 32 \<and> now \<le> kn_now n2)"

lemma encrypts: "length dek = 32 \<Longrightarrow> \<exists>d. envelope_encrypt ae iv (Inr (Some dek, Some blob)) s v = Inr d"
  by (simp add: envelope_encrypt_def generateDataKey_def encryptWithDek_def DEK_LENGTH_def split_beta)

text \<open>
  What the rotation stores: the blob of the data key that was generated for it, the secret enciphered
  with that data key, the next version, and the dates.
\<close>

definition rotated_with :: "key_env \<Rightarrow> key_input \<Rightarrow> relayer_row \<Rightarrow> relayer_row \<Rightarrow> bool" where
  "rotated_with en n r r' \<longleftrightarrow>
     (\<exists>dek blob secret c. kn_generate n = Inr (Some dek, Some blob)
        \<and> envelope_decrypt (kv_aes en) (kms_opens en None) (stored_data r) = Inr secret
        \<and> encryptWithDek (kv_aes en) (kn_iv n) secret dek = Inr c
        \<and> r' = r\<lparr>rr_encryptedPrivateKey := Some c, rr_encryptedDek := Some (base64 blob),
              rr_dekVersion := Some (version_or 1 (rr_dekVersion r) + 1), rr_dekEncryptedAt := Some (kn_now n),
              rr_dekRotationScheduledAt := Some (next_rotation (kn_now n))\<rparr>)"

lemma encrypted_with:
  assumes "envelope_encrypt ae iv (Inr (Some dek, Some blob)) s v = Inr d"
  shows "\<exists>c. encryptWithDek ae iv s dek = Inr c \<and> d = \<lparr>ed_ciphertext = c, ed_encryptedDek = base64 blob, ed_dekVersion = v\<rparr>"
  using assms by (auto simp: envelope_encrypt_def rbind_eq_Inr generateDataKey_def Let_def split: if_splits)

lemma rotate_one:
  assumes "gcm_ok (kv_aes en)" "distinct (map rr_id rows)" "r \<in> set rows" "has_key r" "readable en r" "all_answers en now ns"
  shows "\<exists>res d t. rotateRelayerDek en ns (rr_id r) rows = (Inr res, update_relayer (rr_id r) (store_dek d t) rows)
    \<and> ro_error res = None \<and> now \<le> t \<and> (\<forall>s. opens_to en (stored_data r) s \<longrightarrow> opens_to en d s)
    \<and> rotated_with en (ns ! 1) r (store_dek d t r)"
proof -
  obtain n1 n2 n3 dek blob where n: "ns = [n1, n2, n3]" "kn_db_error n1 = None" "kn_db_error n3 = None" "kn_kms_error n2 = None"
    "input_ok en n2" "kn_generate n2 = Inr (Some dek, Some blob)" "length dek = 32" "now \<le> kn_now n2"
    using assms(6) by (auto simp: all_answers_def)
  let ?v = "version_or 1 (rr_dekVersion r) + 1"
  have f: "find_relayer (rr_id r) rows = Some r" by (rule find_relayer_unique [OF assms(2,3)])
  obtain s where s: "envelope_decrypt (kv_aes en) (kms_opens en None) (stored_data r) = Inr s"
    using assms(4,5) by (auto simp: readable_def opens_to_def)
  obtain d where d: "envelope_encrypt (kv_aes en) (kn_iv n2) (Inr (Some dek, Some blob)) s ?v = Inr d" using encrypts [OF n(7)] by blast
  have e: "rotateEncryption (kv_aes en) (kms_opens en (kn_kms_error n2)) (kn_iv n2) (kn_generate n2) (stored_data r) ?v = Inr d"
    by (simp only: rotateEncryption_eq n(4,6) s rbind_simps d)
  have "\<forall>s. opens_to en (stored_data r) s \<longrightarrow> opens_to en d s" using envelope_rotated [OF assms(1) n(5) e] by blast
  moreover have "rotated_with en (ns ! 1) r (store_dek d (kn_now n2) r)"
    using encrypted_with [OF d] s n(6) by (auto simp: rotated_with_def n(1) store_dek_def)
  moreover have "rotateRelayerDek en ns (rr_id r) rows = (Inr \<lparr>ro_relayerId = rr_id r, ro_relayerName = rr_name r,
      ro_oldDekVersion = version_or 1 (rr_dekVersion r), ro_newDekVersion = ?v, ro_error = None\<rparr>, update_relayer (rr_id r) (store_dek d (kn_now n2)) rows)"
    using f e assms(4) n(2,3) by (simp add: rotateRelayerDek_def n(1) has_key_def)
  ultimately show ?thesis using n(8) by fastforce
qed

text \<open>What a row becomes when its data key is rotated at or after a time.\<close>

definition rotated_row :: "key_env \<Rightarrow> int \<Rightarrow> key_input \<Rightarrow> relayer_row \<Rightarrow> relayer_row \<Rightarrow> bool" where
  "rotated_row en now n r r' \<longleftrightarrow> rotated_with en n r r'
     \<and> (\<exists>d t. r' = store_dek d t r \<and> now \<le> t \<and> (\<forall>s. opens_to en (stored_data r) s \<longrightarrow> opens_to en d s))"

lemma rotate_each_ok:
  assumes "gcm_ok (kv_aes en)" "\<And>i. all_answers en now (ins i)"
  shows "distinct (map rr_id rows) \<Longrightarrow> distinct is \<Longrightarrow> (\<And>i. i \<in> set is \<Longrightarrow> \<exists>r \<in> set rows. rr_id r = i \<and> has_key r \<and> readable en r)
    \<Longrightarrow> \<exists>rs f. rotate_each en ins is rows = (Inr rs, map f rows) \<and> length rs = length is \<and> (\<forall>x \<in> set rs. ro_error x = None)
      \<and> (\<forall>r \<in> set rows. if rr_id r \<in> set is then rotated_row en now (ins (rr_id r) ! 1) r (f r) else f r = r)"
proof (induction "is" arbitrary: rows)
  case Nil
  show ?case by (rule exI [of _ "[]"], rule exI [of _ id]) simp
next
  case (Cons i "is")
  obtain q where q: "q \<in> set rows" "rr_id q = i" "has_key q" "readable en q" using Cons.prems(3) [of i] by auto
  obtain res d t where one: "rotateRelayerDek en (ins i) i rows = (Inr res, update_relayer i (store_dek d t) rows)" "ro_error res = None" "now \<le> t"
    "\<forall>s. opens_to en (stored_data q) s \<longrightarrow> opens_to en d s" "rotated_with en (ins i ! 1) q (store_dek d t q)"
    using rotate_one [OF assms(1) Cons.prems(1) q(1,3,4) assms(2) [of i]] q(2) by auto
  let ?rows = "update_relayer i (store_dek d t) rows"
  have ids: "map rr_id ?rows = map rr_id rows" by (rule update_relayer_ids) simp
  have "\<exists>r \<in> set ?rows. rr_id r = j \<and> has_key r \<and> readable en r" if j: "j \<in> set is" for j
  proof -
    obtain r where r: "r \<in> set rows" "rr_id r = j" "has_key r" "readable en r" using Cons.prems(3) [of j] j by auto
    have "j \<noteq> i" using j Cons.prems(2) by auto
    then have "r \<in> set ?rows" using r(1,2) by (auto simp: update_relayer_def image_iff)
    then show ?thesis using r by blast
  qed
  then obtain rs f where ih: "rotate_each en ins is ?rows = (Inr rs, map f ?rows)" "length rs = length is" "\<forall>x \<in> set rs. ro_error x = None"
    "\<forall>r \<in> set ?rows. if rr_id r \<in> set is then rotated_row en now (ins (rr_id r) ! 1) r (f r) else f r = r"
    using Cons.IH [of ?rows] Cons.prems(1,2) ids by auto
  let ?g = "\<lambda>r. f (if rr_id r = i then store_dek d t r else r)"
  have g: "if rr_id r \<in> set (i # is) then rotated_row en now (ins (rr_id r) ! 1) r (?g r) else ?g r = r" if r: "r \<in> set rows" for r
  proof (cases "rr_id r = i")
    case True
    have "r = q" using Cons.prems(1) r q(1,2) True by (auto simp: distinct_map inj_on_def)
    have "store_dek d t r \<in> set ?rows" using r True by (auto simp: update_relayer_def)
    then have "f (store_dek d t r) = store_dek d t r" using ih(4) True Cons.prems(2) by force
    then show ?thesis using True one(3,4,5) \<open>r = q\<close> by (auto simp: rotated_row_def)
  next
    case False
    then have "r \<in> set ?rows" using r by (auto simp: update_relayer_def image_iff)
    then show ?thesis using ih(4) False by auto
  qed
  have e: "rotate_each en ins (i # is) rows = (Inr (res # rs), map ?g rows)"
    using one(1) ih(1) by (simp add: update_relayer_def comp_def)
  have l: "length (res # rs) = length (i # is)" "\<forall>x \<in> set (res # rs). ro_error x = None" using ih(2,3) one(2) by simp_all
  show ?case by (rule exI [of _ "res # rs"], rule exI [of _ ?g], intro conjI ballI) (rule e, rule l(1), use l(2) in blast, rule g)
qed

text \<open>
  C21. A pass of the rotation in which every call is answered rotates every data key that is due, and
  nothing else: such a row holds the blob of the data key that the key management service generated for
  it and the secret enciphered with that data key, under the next version, dated at the time of the
  rotation; it needs no rotation in the next ninety days, it still opens to the same secret, and its
  public key is unchanged, as are the other rows.
\<close>

theorem overdue_deks_rotated:
  assumes "gcm_ok (kv_aes en)" "\<And>i. all_answers en now (ins i)" "distinct (map rr_id rows)"
    and "\<forall>r \<in> set rows. needs_rotation now r \<longrightarrow> has_key r \<and> readable en r"
    and "rotateAllOverdueDeks en False False None now ins rows = (result, rows')"
  shows "\<exists>summary. result = Inr summary \<and> rm_failedCount summary = 0 \<and> rm_rotatedCount summary = length (findRelayersNeedingRotation now rows)
    \<and> (\<exists>f. rows' = map f rows \<and> (\<forall>r \<in> set rows. if needs_rotation now r
         then rotated_with en (ins (rr_id r) ! 1) r (f r)
           \<and> (\<forall>t < next_rotation now. \<not> needs_rotation t (f r)) \<and> rr_publicKey (f r) = rr_publicKey r
           \<and> (\<forall>s. opens_to en (stored_data r) s \<longrightarrow> opens_to en (stored_data (f r)) s)
         else f r = r))"
proof -
  let ?due = "findRelayersNeedingRotation now rows"
  have ids: "rr_id r \<in> set (map rr_id ?due) \<longleftrightarrow> needs_rotation now r" if "r \<in> set rows" for r
    using that assms(3) by (auto simp: findRelayersNeedingRotation_def distinct_map inj_on_def)
  have dd: "distinct (map rr_id ?due)" using assms(3) by (simp add: findRelayersNeedingRotation_def distinct_map_filter)
  have due: "\<exists>r \<in> set rows. rr_id r = i \<and> has_key r \<and> readable en r" if "i \<in> set (map rr_id ?due)" for i
    using that assms(4) by (auto simp: findRelayersNeedingRotation_def)
  obtain rs f where rs: "rotate_each en ins (map rr_id ?due) rows = (Inr rs, map f rows)" "length rs = length ?due" "\<forall>x \<in> set rs. ro_error x = None"
    "\<forall>r \<in> set rows. if rr_id r \<in> set (map rr_id ?due) then rotated_row en now (ins (rr_id r) ! 1) r (f r) else f r = r"
    using rotate_each_ok [where ins = ins, OF assms(1) assms(2) assms(3) dd due] unfolding length_map by blast
  have row: "if needs_rotation now r then rotated_with en (ins (rr_id r) ! 1) r (f r) \<and> (\<forall>t < next_rotation now. \<not> needs_rotation t (f r)) \<and> rr_publicKey (f r) = rr_publicKey r
      \<and> (\<forall>s. opens_to en (stored_data r) s \<longrightarrow> opens_to en (stored_data (f r)) s) else f r = r" if r: "r \<in> set rows" for r
  proof (cases "needs_rotation now r")
    case True
    have "rotated_row en now (ins (rr_id r) ! 1) r (f r)" using bspec [OF rs(4) r] unfolding ids [OF r] by (simp only: True if_True)
    then obtain d t where f: "f r = store_dek d t r" "now \<le> t" "\<forall>s. opens_to en (stored_data r) s \<longrightarrow> opens_to en d s" "rotated_with en (ins (rr_id r) ! 1) r (f r)"
      unfolding rotated_row_def by blast
    have "\<not> needs_rotation u (f r)" if "u < next_rotation now" for u
      using that f(2) by (simp add: f(1) needs_rotation_def store_dek_def next_rotation_def)
    moreover have "rr_publicKey (f r) = rr_publicKey r" by (simp add: f(1) store_dek_def)
    moreover have "\<forall>s. opens_to en (stored_data r) s \<longrightarrow> opens_to en (stored_data (f r)) s" using f(3) by (simp only: f(1) opens_store) 
    ultimately show ?thesis using True f(4) by simp
  qed (use bspec [OF rs(4) r, unfolded ids [OF r]] in simp)
  have c: "filter (\<lambda>x. ro_error x = None) rs = rs" "filter (\<lambda>x. \<exists>y. ro_error x = Some y) rs = []" using rs(3) by (auto simp: filter_empty_conv)
  show ?thesis
  proof (cases "?due = []")
    case True
    then have "map f rows = rows" using rs(1) by simp
    then have "rows' = map f rows" "result = Inr \<lparr>rm_totalRelayers = 0, rm_rotatedCount = 0, rm_failedCount = 0, rm_skippedCount = 0, rm_results = []\<rparr>"
      using assms(5) True by (auto simp: rotateAllOverdueDeks_def Let_def)
    then have "rows' = map f rows" "\<exists>summary. result = Inr summary \<and> rm_failedCount summary = 0 \<and> rm_rotatedCount summary = length ?due"
      using True by simp_all
    then show ?thesis using row by blast
  next
    case False
    then have "rows' = map f rows" "\<exists>summary. result = Inr summary \<and> rm_failedCount summary = 0 \<and> rm_rotatedCount summary = length ?due"
      using assms(5) rs(1,2) c by (auto simp: rotateAllOverdueDeks_def Let_def)
    then show ?thesis using row by blast
  qed
qed

section \<open>What goes wrong\<close>

text \<open>A context is not tied to a key: any open context reads every key of the vault.\<close>

lemma any_context_reads_every_key:
  assumes "jm_get (vt_contexts v) (vx_token x) = Some (vx_scope x)" "vx_scope x \<noteq> []" "jm_get (vt_keys v) keyId = Some key"
  shows "vault_retrieve keyId x v = Inr key"
  using assms by (simp add: vault_retrieve_def)

text \<open>A key without dates is never selected for rotation.\<close>

lemma undated_key_never_rotated:
  "rr_dekRotationScheduledAt r = None \<Longrightarrow> rr_dekEncryptedAt r = None \<Longrightarrow> \<not> needs_rotation now r"
  by (simp add: needs_rotation_def)

text \<open>
  A rotation that has read the row writes the key it read, whatever was stored meanwhile: after a new
  pair was generated the public key is new and the private key old, and a deleted key is back.
\<close>

lemma rotation_restores_old_key:
  assumes "gcm_ok (kv_aes en)" "input_ok en n2" "kn_db_error n3 = None" "key_resume en n2 (Dek_rotate r) rows v = (Dek_write r d t, rows, v)"
    and "opens_to en (stored_data r) old" "key_resume en n3 (Dek_write r d t) rows' v' = (pc, rows'', v'')" "find_relayer (rr_id r) rows' = Some q" "distinct (map rr_id rows')"
  shows "\<exists>q'. find_relayer (rr_id r) rows'' = Some q' \<and> opens_to en (stored_data q') old \<and> rr_publicKey q' = rr_publicKey q"
proof -
  have "rotateEncryption (kv_aes en) (kms_opens en (kn_kms_error n2)) (kn_iv n2) (kn_generate n2) (stored_data r) (version_or 1 (rr_dekVersion r) + 1) = Inr d"
    using assms(4) by (auto simp: dek_failed_def split: sum.splits)
  from envelope_rotated [OF assms(1,2) this] have d: "opens_to en d old" using assms(5) by blast
  have rows: "rows'' = update_relayer (rr_id r) (store_dek d t) rows'" using assms(3,6,7) by simp
  have q: "q \<in> set rows'" "rr_id q = rr_id r" using find_relayer_id [OF assms(7)] by auto
  have "store_dek d t q \<in> set rows''" using q by (auto simp: rows update_relayer_def)
  moreover have "distinct (map rr_id rows'')" using assms(8) by (simp add: rows update_relayer_ids)
  ultimately have "find_relayer (rr_id (store_dek d t q)) rows'' = Some (store_dek d t q)" by (rule find_relayer_unique [rotated])
  moreover have "opens_to en (stored_data (store_dek d t q)) old" "rr_publicKey (store_dek d t q) = rr_publicKey q" using d by (simp_all only: opens_store) (simp add: store_dek_def)
  ultimately show ?thesis using q(2) by auto
qed

section \<open>Witnesses\<close>

text \<open>A cipher that hides nothing, a key management service whose blobs are the keys, and public keys that show the secret.\<close>

definition sample_key_env :: key_env where
  "sample_key_env = \<lparr>kv_aes = \<lparr>ae_sha256 = utf8, ae_seal = (\<lambda>k iv t. (map (\<lambda>ch. of_nat (of_char ch)) t, replicate 16 0)),
     ae_open = (\<lambda>k iv ct tg. Inr (map (\<lambda>b. char_of (unat b)) ct))\<rparr>, kv_opens = (\<lambda>b. Some b), kv_public = (\<lambda>s. Some (CHR ''G'' # s))\<rparr>"

definition sample_key_input :: "int \<Rightarrow> key_input" where
  "sample_key_input now = \<lparr>kn_now = now, kn_secret = ''S1'', kn_iv = replicate 12 0, kn_token = ''t'',
     kn_generate = Inr (Some (replicate 32 7), Some (replicate 32 7)), kn_kms_error = None, kn_db_error = None, kn_callback_error = None\<rparr>"

definition sample_relayer :: relayer_row where
  "sample_relayer = \<lparr>rr_id = 1, rr_name = ''r'', rr_publicKey = None, rr_encryptedPrivateKey = None, rr_encryptedDek = None,
     rr_dekVersion = None, rr_dekEncryptedAt = None, rr_dekRotationScheduledAt = None, rr_keyGeneratedAt = None\<rparr>"

definition sample_key_start :: key_sys where
  "sample_key_start = \<lparr>ky_rows = [sample_relayer], ky_vault = \<lparr>vt_keys = [], vt_contexts = []\<rparr>, ky_tasks = []\<rparr>"

definition key_begin :: "key_pc \<Rightarrow> key_sys \<Rightarrow> key_sys" where
  "key_begin pc s = s\<lparr>ky_tasks := ky_tasks s @ [pc]\<rparr>"

definition sample_next :: "nat \<Rightarrow> key_sys \<Rightarrow> key_sys" where
  "sample_next k s = key_next sample_key_env (sample_key_input 0) k s"

definition sample_stored :: key_sys where
  "sample_stored = (sample_next 0 ^^ 4) (key_begin (Rotate_read 1) sample_key_start)"

definition sample_using :: key_sys where
  "sample_using = (sample_next 1 ^^ 3) (key_begin (Use_read 1 False) sample_stored)"

lemma sample_gcm: "gcm_ok (kv_aes sample_key_env)"
proof -
  have "unat (of_nat (of_char ch) :: byte) = of_char ch" for ch by (simp add: unat_of_nat take_bit_nat_eq_self)
  then show ?thesis by (auto simp: gcm_ok_def sample_key_env_def comp_def)
qed

lemma sample_input_ok: "input_ok sample_key_env (sample_key_input now)"
  by (simp add: input_ok_def sample_key_env_def sample_key_input_def generated_opens_def kms_opens_def)

lemma sample_init_keys: "key_init sample_key_env sample_key_start"
  by (simp add: key_init_def sample_key_start_def table_ok_def readable_def key_matches_def has_key_def has_text_def sample_relayer_def)

lemma sample_next_reach:
  "(key_step sample_key_env True)\<^sup>*\<^sup>* s s' \<Longrightarrow> k < length (ky_tasks s') \<Longrightarrow> (key_step sample_key_env True)\<^sup>*\<^sup>* s ((sample_next k ^^ m) s')"
proof (induction m)
  case (Suc m)
  have "length (ky_tasks ((sample_next k ^^ m) s')) = length (ky_tasks s')" for m
    by (induction m) (simp_all add: sample_next_def key_next_def split_beta)
  then have "key_step sample_key_env True ((sample_next k ^^ m) s') ((sample_next k ^^ Suc m) s')"
    using Suc.prems(2) key_step.Resume [OF _ sample_input_ok] by (simp add: sample_next_def)
  then show ?case using Suc by (meson rtranclp.rtrancl_into_rtrancl)
qed simp

lemma sample_stored_reach: "(key_step sample_key_env True)\<^sup>*\<^sup>* sample_key_start sample_stored"
proof -
  have "key_step sample_key_env True sample_key_start (key_begin (Rotate_read 1) sample_key_start)"
    unfolding key_begin_def by (rule key_step.Begin) (simp_all add: sample_key_start_def)
  then show ?thesis unfolding sample_stored_def by (intro sample_next_reach r_into_rtranclp) (simp_all add: key_begin_def)
qed

text \<open>The envelope that the run stores.\<close>

definition sample_data :: encrypted_data where
  "sample_data = (case envelope_encrypt (kv_aes sample_key_env) (replicate 12 0) (Inr (Some (replicate 32 7), Some (replicate 32 7))) ''S1'' 1 of
     Inr d \<Rightarrow> d | Inl _ \<Rightarrow> \<lparr>ed_ciphertext = [], ed_encryptedDek = [], ed_dekVersion = 0\<rparr>)"

lemma encrypted_not_empty:
  assumes "envelope_encrypt ae iv (Inr (Some dek, Some blob)) s v = Inr d" "iv \<noteq> []" "blob \<noteq> []"
  shows "ed_ciphertext d \<noteq> [] \<and> ed_encryptedDek d \<noteq> []"
proof -
  have "base64 blob \<noteq> []" using assms(3) by (cases blob rule: base64.cases) (auto simp: Let_def)
  moreover have "hex iv \<noteq> []" using assms(2) length_hex [of iv] by auto
  ultimately show ?thesis using assms(1)
    by (auto simp: envelope_encrypt_def rbind_eq_Inr generateDataKey_def encryptWithDek_def split_beta Let_def split: if_splits)
qed

definition stored_row :: relayer_row where
  "stored_row = store_key ''GS1'' sample_data 0 sample_relayer"

lemma sample_encrypted:
  "envelope_encrypt (kv_aes sample_key_env) (replicate 12 0) (Inr (Some (replicate 32 7), Some (replicate 32 7))) ''S1'' 1 = Inr sample_data"
proof -
  obtain d where "envelope_encrypt (kv_aes sample_key_env) (replicate 12 0) (Inr (Some (replicate 32 7), Some (replicate 32 7))) ''S1'' 1 = Inr d"
    using encrypts [of "replicate 32 7"] by fastforce
  then show ?thesis by (simp add: sample_data_def)
qed

lemma sample_decrypted: "envelope_decrypt (kv_aes sample_key_env) (kms_opens sample_key_env None) sample_data = Inr ''S1'' \<and> ed_dekVersion sample_data = 1"
  by (rule envelope_decrypt_encrypt [OF sample_gcm _ _ sample_encrypted])
    (use sample_input_ok [of 0] in \<open>simp_all add: input_ok_def sample_key_input_def\<close>)

lemma stored_row_facts:
  "has_key stored_row" "rr_id stored_row = 1" "rr_publicKey stored_row = Some ''GS1''" "rr_dekRotationScheduledAt stored_row = Some (next_rotation 0)"
  "stored_data stored_row = sample_data"
proof -
  have "ed_ciphertext sample_data \<noteq> [] \<and> ed_encryptedDek sample_data \<noteq> []"
    by (rule encrypted_not_empty [OF sample_encrypted]) simp_all
  then show "has_key stored_row" by (simp add: has_key_def has_text_def stored_row_def store_key_def store_dek_def)
  show "stored_data stored_row = sample_data"
    using sample_decrypted by (simp add: stored_data_def stored_row_def store_key_def store_dek_def version_or_def)
qed (simp_all add: stored_row_def sample_relayer_def store_key_def store_dek_def)

lemma sample_stored_eq:
  "\<exists>info. sample_stored = \<lparr>ky_rows = [stored_row], ky_vault = \<lparr>vt_keys = [], vt_contexts = []\<rparr>, ky_tasks = [Key_done (Key_stored info)]\<rparr>"
  using sample_encrypted
  by (simp add: sample_stored_def sample_next_def key_next_def key_begin_def sample_key_start_def numeral_eq_Suc find_relayer_def update_relayer_def
      sample_key_input_def sample_relayer_def stored_row_def Let_def) (simp add: sample_key_env_def)

lemma sample_stored_rows: "ky_rows sample_stored = [stored_row]"
proof -
  obtain info where e: "sample_stored = \<lparr>ky_rows = [stored_row], ky_vault = \<lparr>vt_keys = [], vt_contexts = []\<rparr>, ky_tasks = [Key_done (Key_stored info)]\<rparr>"
    using sample_stored_eq by blast
  show ?thesis unfolding e by simp
qed

lemma sample_using_eq:
  "\<exists>out. sample_using = \<lparr>ky_rows = [stored_row], ky_vault = \<lparr>vt_keys = [(vault_key_id 1, ''S1'')], vt_contexts = [(''t'', ''relayer-1-signing'')]\<rparr>,
     ky_tasks = [Key_done out, Use_callback 1 \<lparr>vx_scope = ''relayer-1-signing'', vx_token = ''t''\<rparr>]\<rparr>
   \<and> (key_step sample_key_env True)\<^sup>*\<^sup>* sample_key_start sample_using"
proof -
  obtain info where e: "sample_stored = \<lparr>ky_rows = [stored_row], ky_vault = \<lparr>vt_keys = [], vt_contexts = []\<rparr>, ky_tasks = [Key_done (Key_stored info)]\<rparr>"
    using sample_stored_eq by blast
  let ?s = "key_begin (Use_read 1 False) sample_stored"
  have f: "find_relayer 1 [stored_row] = Some stored_row" using stored_row_facts(2) by (simp add: find_relayer_def)
  have k: "has_text (rr_encryptedPrivateKey stored_row)" "has_text (rr_encryptedDek stored_row)" using stored_row_facts(1) by (simp_all add: has_key_def)
  have i: "vault_key_id 1 \<noteq> []" "''relayer-'' @ show_nat 1 @ ''-signing'' = ''relayer-1-signing''"
    by (simp add: vault_key_id_def) code_simp
  have "load_key 1 False ''S1'' ''t'' \<lparr>vt_keys = [], vt_contexts = []\<rparr> = (Use_open 1 False \<lparr>vx_scope = ''relayer-1-signing'', vx_token = ''t''\<rparr>,
      \<lparr>vt_keys = [(vault_key_id 1, ''S1'')], vt_contexts = [(''t'', ''relayer-1-signing'')]\<rparr>)"
    unfolding load_key_def i(2) using i(1) by (simp add: vault_revoke_def jm_delete_def vault_register_def openContext_def Let_def)
  then have u: "sample_using = \<lparr>ky_rows = [stored_row], ky_vault = \<lparr>vt_keys = [(vault_key_id 1, ''S1'')], vt_contexts = [(''t'', ''relayer-1-signing'')]\<rparr>,
     ky_tasks = [Key_done (Key_stored info), Use_callback 1 \<lparr>vx_scope = ''relayer-1-signing'', vx_token = ''t''\<rparr>]\<rparr>"
    using f k sample_decrypted stored_row_facts(2,5)
    by (simp add: sample_using_def numeral_3_eq_3 key_begin_def e sample_next_def key_next_def sample_key_input_def vault_retrieve_def)
  have "key_step sample_key_env True sample_stored ?s" unfolding key_begin_def by (rule key_step.Begin) simp_all
  then have "(key_step sample_key_env True)\<^sup>*\<^sup>* sample_key_start ?s" using sample_stored_reach by (meson rtranclp.rtrancl_into_rtrancl)
  then have "(key_step sample_key_env True)\<^sup>*\<^sup>* sample_key_start sample_using"
    unfolding sample_using_def by (rule sample_next_reach) (simp add: key_begin_def e)
  then show ?thesis using u by blast
qed

theorem stored_keys_sound_witness:
  "\<exists>secret. envelope_decrypt (kv_aes sample_key_env) (kms_opens sample_key_env None) (stored_data stored_row) = Inr secret
     \<and> kv_public sample_key_env secret = Some ''GS1''"
proof -
  have "find_relayer 1 (ky_rows sample_stored) = Some stored_row" using stored_row_facts(2) by (simp add: sample_stored_rows find_relayer_def)
  from stored_keys_sound [OF sample_gcm sample_init_keys sample_stored_reach this stored_row_facts(1)] show ?thesis using stored_row_facts(3) by auto
qed

theorem vault_empty_at_rest_witness:
  "vt_keys (ky_vault sample_using) = [(vault_key_id 1, ''S1'')] \<and> vt_keys (ky_vault (sample_next 1 sample_using)) = []
   \<and> vt_contexts (ky_vault (sample_next 1 sample_using)) = []"
proof -
  obtain out where u: "sample_using = \<lparr>ky_rows = [stored_row], ky_vault = \<lparr>vt_keys = [(vault_key_id 1, ''S1'')], vt_contexts = [(''t'', ''relayer-1-signing'')]\<rparr>,
     ky_tasks = [Key_done out, Use_callback 1 \<lparr>vx_scope = ''relayer-1-signing'', vx_token = ''t''\<rparr>]\<rparr>"
    and reach: "(key_step sample_key_env True)\<^sup>*\<^sup>* sample_key_start sample_using" using sample_using_eq by blast
  have h: "\<forall>pc \<in> set (ky_tasks (sample_next 1 sample_using)). holder pc = None" by (simp add: u sample_next_def key_next_def)
  have l: "1 < length (ky_tasks sample_using)" by (simp add: u)
  have "(key_step sample_key_env True)\<^sup>*\<^sup>* sample_key_start ((sample_next 1 ^^ 1) sample_using)" by (rule sample_next_reach [OF reach l])
  then have "(key_step sample_key_env True)\<^sup>*\<^sup>* sample_key_start (sample_next 1 sample_using)" by simp
  from vault_empty_at_rest [OF sample_init_keys this h] show ?thesis by (simp add: u)
qed

theorem overdue_deks_rotated_witness:
  "\<exists>summary rows'. rotateAllOverdueDeks sample_key_env False False None (next_rotation 0) (\<lambda>i. replicate 3 (sample_key_input (next_rotation 0))) [stored_row] = (Inr summary, rows')
     \<and> rm_rotatedCount summary = 1 \<and> (\<forall>r \<in> set rows'. \<not> needs_rotation (next_rotation 0) r)"
proof -
  let ?now = "next_rotation 0" and ?ins = "\<lambda>i. replicate 3 (sample_key_input (next_rotation 0))"
  obtain result rows' where e: "rotateAllOverdueDeks sample_key_env False False None ?now ?ins [stored_row] = (result, rows')" by fastforce
  have due: "needs_rotation ?now stored_row" using stored_row_facts(1,4) by (auto simp: needs_rotation_def has_key_def has_text_def)
  have "table_ok sample_key_env True (ky_rows sample_stored)"
    using key_reach_inv [OF sample_gcm sample_stored_reach sample_init_keys] by (simp add: key_inv_def)
  then have fine: "has_key stored_row \<and> readable sample_key_env stored_row" using sample_stored_rows stored_row_facts(1) by (simp add: table_ok_def)
  have ans: "all_answers sample_key_env ?now (?ins i)" for i
    using sample_input_ok [of ?now] by (simp add: all_answers_def numeral_3_eq_3) (simp add: sample_key_input_def)
  have later: "?now < next_rotation ?now" by (simp add: next_rotation_def ROTATION_INTERVAL_DAYS_def)
  obtain summary f where "result = Inr summary" "rm_rotatedCount summary = length (findRelayersNeedingRotation ?now [stored_row])" "rows' = map f [stored_row]"
    "\<forall>t < next_rotation ?now. \<not> needs_rotation t (f stored_row)"
    using overdue_deks_rotated [where ins = ?ins, OF sample_gcm ans _ _ e] fine due by auto
  then show ?thesis using e due later by (auto simp: findRelayersNeedingRotation_def)
qed

end
