(* ===== verification/Spec2Isabelle.thy ===== *)
theory Spec2Isabelle
  imports Channels Delegation SequenceManager KeyKeeper RpcBalancer GasReserve KycService AmmDetector Autoscaler
    AlertBot DepthAggregator MultiSig ExecutionScheduler NonceStore GovernanceTimelock OrderBookSnapshot
    OrderBookSync Dispute CircuitBreaker ResultExport GovernanceWebhook BridgeSerial BridgeListener
    PriceReview OrderFlow OffchainPrices RpcIntegrity Sep24 VotingHistory SystemicRisk AdminAccess
    RelayerKeys
begin

text \<open>
  A verification development for the StellarFlow backend, a Node.js service (TypeScript, \<open>src/src/\<close>)
  that ingests market data, maintains oracle prices under multi-signature control, follows governance
  votes and a token bridge, watches queues, pools and vaults, and offers the SEP-12 and SEP-24 interfaces.

  \<^bold>\<open>The program's parts and the theories that model them.\<close>  File names are below \<open>src/src/\<close>.

  \<^item> Ingestion.  \<open>queue/lockFreeRingBuffer.ts\<close>: both ring buffers (\<open>RingBuffer\<close>, over the circular
    windows and the bounded-FIFO interface of \<open>RingWindow\<close>) and the channels on top of them
    (\<open>Channels\<close>).  \<open>flow_control/backpressure.ts\<close>: the asynchronous bounded queue, with waiting
    producers and consumers as explicit lists of unresolved promises, and the manager (\<open>Backpressure\<close>).
  \<^item> Governance.  \<open>logic/governanceDelegation.ts\<close> (\<open>Delegation\<close>),
    \<open>services/governanceExecutionScheduler.ts\<close> (\<open>ExecutionScheduler\<close>), and
    \<open>services/governanceTimelockService.ts\<close> with the cancellation of \<open>services/timelockService.ts\<close>,
    the stub rows of \<open>services/voterHistoryService.ts\<close> and the flags of
    \<open>services/governanceProposalPayloadValidator.ts\<close> (\<open>GovernanceTimelock\<close>: poll ticks as tasks that
    may overlap, writing one table).  \<open>services/governanceResultService.ts\<close> (\<open>GovernanceResult\<close>: parsing,
    sorting and tallying votes), \<open>governanceResultExporter.ts\<close> (\<open>ResultExport\<close>: the canonical document
    and its pinning) and \<open>governanceWebhookBroadcaster.ts\<close> (\<open>GovernanceWebhook\<close>: endpoints, deliveries
    and the retrying queue, cut at its requests and writes).  \<open>services/votingPowerCheckpointService.ts\<close>,
    \<open>governanceTurnoutService.ts\<close> and \<open>analytics/governanceTurnout.ts\<close> (\<open>VotingHistory\<close>: checkpoints
    in a decimal column that rounds, and the turnout in doubles).
  \<^item> Bridge.  \<open>services/bridgeSignatureVerification.ts\<close> (\<open>BridgeQuorum\<close>), \<open>bridgeQueueService.ts\<close> with
    \<open>bridgeMintingService.ts\<close> and \<open>bridgeRelayerHealthMonitor.ts\<close> (\<open>BridgeQueue\<close>, and \<open>BridgeSerial\<close> for
    passes that do not overlap), and \<open>bridgeEventListener.ts\<close> (\<open>BridgeListener\<close>: polling and decoding;
    its consumer, and the requests that add signatures, are tasks of \<open>BridgeQueue\<close>, cut at their awaits).
  \<^item> Relaying transactions.  \<open>services/sequence-manager.ts\<close> (\<open>SequenceManager\<close>: tasks behind a mutex
    per account, suspended at the ledger query), \<open>lib/rpcLoadBalancer.ts\<close> (\<open>RpcBalancer\<close>),
    \<open>services/relayerGasReserveAllocator.ts\<close> (\<open>GasReserve\<close>); the two pickers share the contract of
    \<open>RoundRobin\<close>.  \<open>services/rpcResponseIntegrity.ts\<close> and \<open>integrityCheckedRpc.ts\<close>, which compare the
    answers of several nodes (\<open>RpcIntegrity\<close>).
  \<^item> Oracle prices.  \<open>services/multiSigService.ts\<close> and \<open>services/multiSigSubmissionService.ts\<close>
    (\<open>MultiSig\<close>: every handler is a task that yields at each database call, the system is a step
    relation over any number of tasks and the poller).  \<open>services/invariantChecker.ts\<close> and
    \<open>services/circuitBreakerService.ts\<close>, which pause the contract (\<open>CircuitBreaker\<close>).
    \<open>services/offchainPriceAggregator.ts\<close> (\<open>OffchainPrices\<close>), and \<open>services/priceReviewService.ts\<close> with
    \<open>priceProtection.ts\<close> and the handlers of \<open>services/marketRate/marketRateService.ts\<close> that submit
    prices (\<open>PriceReview\<close>).
  \<^item> Remittances.  \<open>services/disputeService.ts\<close> (\<open>Dispute\<close>) over the request wrapper of
    \<open>utils/retryUtil.ts\<close> (\<open>Retry\<close>).  \<open>services/sep24Interactive.ts\<close>: the session stores in memory and
    in Redis (\<open>Sep24Store\<close>) and the interactive flow over them (\<open>Sep24\<close>).
  \<^item> Customers.  \<open>services/kycTypes.ts\<close>, \<open>kycStore.ts\<close>, \<open>kycService.ts\<close>, \<open>kycAnchorClient.ts\<close>
    (\<open>KycTypes\<close>, \<open>KycStore\<close>, \<open>KycService\<close>), with \<open>crypto/encryption.ts\<close> and
    \<open>services/kycEncryption.ts\<close> (\<open>Encryption\<close>).
  \<^item> Secrets and replay.  \<open>state/keeper.ts\<close> (\<open>KeyKeeper\<close>: buffers in an explicit heap, since the code
    overwrites them in place) and \<open>services/nonceStoreService.ts\<close> (\<open>NonceStore\<close>).  \<open>services/kmsEnvelopeService.ts\<close>
    (\<open>KmsEnvelope\<close>) and, over it, \<open>relayerKeyService.ts\<close>, \<open>dekRotationService.ts\<close> and \<open>crypto/vault.ts\<close>
    (\<open>RelayerKeys\<close>: tasks cut at the database and the key management service).
  \<^item> Administration.  \<open>types/roles.ts\<close>, \<open>middleware/roleMatrixMiddleware.ts\<close>,
    \<open>services/adminAuditService.ts\<close> and the guards of \<open>routes/admin.ts\<close> (\<open>AdminAccess\<close>).
  \<^item> Vaults.  \<open>services/systemicRiskService.ts\<close> (\<open>SystemicRisk\<close>: evaluations cut at the submission of a
    proposal).
  \<^item> Pools and order books.  \<open>services/ammReserveDivergenceDetector.ts\<close> (\<open>AmmReserve\<close> for amounts, SQL
    and the store, \<open>AmmDetector\<close> for the contract side, the comparison and the ledger schedule);
    \<open>services/orderBookDepthCompression.ts\<close> (\<open>DepthCodec\<close>) and
    \<open>services/orderDepthAggregatorService.ts\<close> (\<open>DepthAggregator\<close>);
    \<open>services/orderBookSnapshotEngine.ts\<close> (\<open>OrderBookSnapshot\<close>: captures cut at their writes, with
    failures and restarts) and \<open>services/orderBookSynchronizer.ts\<close> (\<open>OrderBookSync\<close>);
    \<open>logic/orderCancellationAnomaly.ts\<close> and \<open>services/orderBookImbalanceDetector.ts\<close> (\<open>OrderFlow\<close>:
    calls cut at the calls of Redis).
  \<^item> Event bus.  \<open>services/eventBus/queueDepthCollector.ts\<close> (\<open>QueueDepth\<close>), \<open>workerAutoscaler.ts\<close>
    (\<open>Autoscaler\<close>, with the cycle of \<open>eventBusService.ts\<close>) and \<open>queueBackpressureBot.ts\<close>
    (\<open>AlertBot\<close>); the autoscaler and the bot read the samples of one collection.

  \<^bold>\<open>How the code is represented.\<close>  A class is a record of its fields, its methods are functions that
  return the updated record; an exception is \<open>Inl\<close> of the result type of \<open>Prelude\<close>; a JavaScript map
  is an insertion-ordered association list (\<open>jm_get\<close>, \<open>jm_set\<close> of \<open>Prelude\<close>).  A number is a rational
  with the rounding of IEEE double precision written at each operation (\<open>JSNumber\<close>: \<open>jsadd\<close>, \<open>jsdiv\<close>
  and so on, with exactness and monotonicity lemmas) where the code computes with fractions, an \<open>int\<close>
  where it counts, and a word where it shifts.  Texts, trimming, hexadecimal and JSON values are in
  \<open>JSString\<close>; comparing texts, letter case, the printing and reading of numbers are in \<open>JSText\<close>.  An \<open>async\<close> method is cut at its \<open>await\<close>s, and the theorems on interleavings quantify
  over every order of the pieces.  Clock readings, random values, and the answers of the database,
  Redis, the anchor, Soroban and cryptography are arguments; what the code relies on of them is a
  hypothesis of the theorem that needs it, with a witness that instantiates it.

  \<^bold>\<open>Interfaces.\<close>  \<open>RingWindow\<close> states the bounded FIFO as a locale, provided by both rings and used by
  the channels; \<open>RoundRobin\<close> the picker, provided by the balancer and the gas wallets; \<open>Codec\<close> an
  encoder with its decoder, provided by hexadecimal, decimal and Base64 texts, reserve amounts, 32-bit lengths
  and the framing of depth maps; \<open>KycStore\<close> the customer store, provided by the in-memory table;
  \<open>Sep24Store\<close> the session store, provided by the one in memory and the one in Redis, so that the
  safety of completions is proved once for both; \<open>QueueDepth\<close> the source of depth samples, provided by the collector.

  \<^bold>\<open>What the theorems show.\<close>  Refinement: both rings answer as a bounded FIFO list, depth maps equal a
  reference that groups orders by tick, the table of checkpoints is a map from account and ledger to
  voting weight.  Invariants over every interleaving or history: an approved
  price has a quorum of different signers, governance executions stay inside their window and statuses
  only move forward, recovery never goes back behind a completed capture, final customer decisions and
  closed disputes stay, no queue item is lost or duplicated, sequence numbers are those of Horizon or the
  next ones and consecutive while the account is not synced or invalidated, secrets
  are zeroed when dropped, alerts follow the incident protocol, scaling actions, pauses and alerts are
  spaced (the alerts on an account while its own calls do not overlap), a nonce that is not invalidated is
  accepted once per time to live, stored relayer keys can be decrypted and nothing stays in
  the vault, a submitted price is the one that needed no review or the one an approver looked up, reviews are
  decided once, a mint is submitted only with two thirds of the weight of the validators, a webhook delivery and a bridge operation are sent a bounded
  number of times, no log of a chain is accepted twice, an interactive session is completed once and its tokens go
  to origins on the allow-list.  Equivalences: the tally of a proposal and its
  outcome are those of exact arithmetic over the votes in any order; the median of the exchanges lies
  where most of the volume is, up to the rounding of the sums; the danger level of the vaults is that of the exact quotient.  Access to
  the administrative routes is characterised exactly.  Round trips: encryption, depth codec, reserve
  amounts, snapshots, put and get of a customer.  Errors: damaged payloads and failed probes.
  Termination: the slot search, retries, the power-of-two loop (which does not end above \<open>2^30\<close>),
  the delegation walk, and a poll tick that runs alone, which executes what is ready.  Bounds: slow-down delays, replica counts.  Where the code falls short, a lemma
  shows the behaviour: overlapping poll ticks submit a proposal twice, overlapping checks pause twice,
  overlapping requests leave the dispute machine, overlapping calls alert twice on an account, a nonce can be replayed after Redis reconnects, the
  order book synchronizer publishes empty depth, bridge events are verified once, right after they
  are recorded, so that a signature that comes later queues nothing, and the listener stalls behind a quiet stretch, an approval can submit a price that is
  rejected meanwhile, a session in Redis can be completed twice,
  rotating a data key restores a relayer key that was replaced meanwhile, nodes that disagree on nested values
  count as agreeing, the administrative routes cannot be opened by anybody.

  \<^bold>\<open>Bounds and fuel.\<close>  The power-of-two loop is a \<open>partial_function\<close> in option, so that not ending is
  \<open>None\<close>; all other loops are total functions, the slot search by a measure (the windows that end
  after the candidate) and retries by the attempts left.  No definition takes fuel.

  \<^bold>\<open>Not modelled.\<close>  Express routes, controllers and most middleware, socket and metrics glue, which only move
  values between the network and the services; Prisma, Redis, message brokers, Soroban and Horizon
  clients, which are parameters; logging; the Python services and the generated files.  Among the
  services with logic of their own, the liquidity and fee analytics, the quotes and the routing of
  remittances and the bridge's supply audit are not modelled.  Within a task, two awaits are one step only
  where nothing that other tasks write is read or written between them: the two calls of the key management
  service in a rotation, and the lookups of a validator's request.  Of the payload validator only its write
  is modelled, with the outcome of the simulation as an argument.
\<close>

end
